(* ===== verification/Prelude.thy ===== *)
theory Prelude
  imports Main "HOL-Library.Word" "HOL-Library.AList" "HOL-Library.Multiset"
begin

text \<open>
  Shared vocabulary of the development: machine integers, Rust's \<open>Result\<close> and panics,
  checked \<open>usize\<close> arithmetic, little-endian byte codecs, and the association lists
  that stand for \<open>HashMap\<close> and \<open>BTreeMap\<close>.

  \<open>usize\<close> is the 64-bit one: a value is a \<open>nat\<close> and every operation of the source that
  can leave the range is written with its check (\<open>checked_add_usize\<close>, \<open>saturating_add_usize\<close>).
  Fixed-width integers that travel on the wire or wrap are words.
\<close>

named_theorems result_simps \<open>rewriting of result-valued computations\<close>
named_theorems codec_simps \<open>lengths and round trips of the byte codecs\<close>

subsection \<open>Machine integers\<close>

type_synonym u8 = "8 word"
type_synonym u16 = "16 word"
type_synonym u32 = "32 word"
type_synonym u64 = "64 word"
type_synonym u128 = "128 word"
type_synonym usize = nat
type_synonym bytes = "u8 list"
type_synonym segments = "bytes list"

definition USIZE_MAX :: usize where
  "USIZE_MAX = 2 ^ 64 - 1"

definition checked_add_usize :: "usize \<Rightarrow> usize \<Rightarrow> usize option" where
  "checked_add_usize a b = (if a + b \<le> USIZE_MAX then Some (a + b) else None)"

definition checked_mul_usize :: "usize \<Rightarrow> usize \<Rightarrow> usize option" where
  "checked_mul_usize a b = (if a * b \<le> USIZE_MAX then Some (a * b) else None)"

definition saturating_add_usize :: "usize \<Rightarrow> usize \<Rightarrow> usize" where
  "saturating_add_usize a b = min (a + b) USIZE_MAX"

definition checked_add_u64 :: "u64 \<Rightarrow> u64 \<Rightarrow> u64 option" where
  "checked_add_u64 a b = (if unat a + unat b < 2 ^ 64 then Some (a + b) else None)"

definition saturating_add_u64 :: "u64 \<Rightarrow> u64 \<Rightarrow> u64" where
  "saturating_add_u64 a b = (if unat a + unat b < 2 ^ 64 then a + b else - 1)"

fun checked_sum :: "usize \<Rightarrow> usize list \<Rightarrow> usize option" where
  "checked_sum t [] = Some t"
| "checked_sum t (x # xs) =
     (case checked_add_usize t x of None \<Rightarrow> None | Some t' \<Rightarrow> checked_sum t' xs)"

text \<open>\<open>try_fold(0, |total, segment| total.checked_add(segment.len()))\<close>.\<close>

definition checked_total :: "segments \<Rightarrow> usize option" where
  "checked_total ss = checked_sum 0 (map length ss)"

subsection \<open>Results and panics\<close>

type_synonym ('e, 'a) result = "'e + 'a"

abbreviation Err :: "'e \<Rightarrow> ('e, 'a) result" where
  "Err \<equiv> Inl"

abbreviation Ok :: "'a \<Rightarrow> ('e, 'a) result" where
  "Ok \<equiv> Inr"

text \<open>
  A panic (\<open>expect\<close>, \<open>unreachable!\<close>, an index out of range, an arithmetic underflow) is
  an outcome of its own, so that its absence is a theorem.
\<close>

datatype 'e fault = Fail 'e | Panic

fun res_bind :: "('e, 'a) result \<Rightarrow> ('a \<Rightarrow> ('e, 'b) result) \<Rightarrow> ('e, 'b) result" where
  "res_bind (Inl e) f = Inl e"
| "res_bind (Inr a) f = f a"

fun res_map_err :: "('e \<Rightarrow> 'f) \<Rightarrow> ('e, 'a) result \<Rightarrow> ('f, 'a) result" where
  "res_map_err g (Inl e) = Inl (g e)"
| "res_map_err g (Inr a) = Inr a"

fun ok_or :: "'a option \<Rightarrow> 'e \<Rightarrow> ('e, 'a) result" where
  "ok_or None e = Inl e"
| "ok_or (Some a) e = Inr a"

fun ensure :: "bool \<Rightarrow> 'e \<Rightarrow> ('e, unit) result" where
  "ensure True e = Inr ()"
| "ensure False e = Inl e"

fun is_ok :: "('e, 'a) result \<Rightarrow> bool" where
  "is_ok (Inl e) = False"
| "is_ok (Inr a) = True"

fun res_list :: "('e, 'a) result list \<Rightarrow> ('e, 'a list) result" where
  "res_list [] = Inr []"
| "res_list (r # rs) = res_bind r (\<lambda>a. res_bind (res_list rs) (\<lambda>as. Inr (a # as)))"

lemma res_bind_Ok_iff [simp, result_simps]:
  "res_bind m f = Inr b \<longleftrightarrow> (\<exists>a. m = Inr a \<and> f a = Inr b)"
  by (cases m) auto

lemma res_bind_Err_iff [result_simps]:
  "res_bind m f = Inl e \<longleftrightarrow> m = Inl e \<or> (\<exists>a. m = Inr a \<and> f a = Inl e)"
  by (cases m) auto

lemma res_map_err_Ok_iff [simp, result_simps]: "res_map_err g m = Inr b \<longleftrightarrow> m = Inr b"
  by (cases m) auto

lemma res_map_err_Err_iff [simp, result_simps]:
  "res_map_err g m = Inl e \<longleftrightarrow> (\<exists>x. m = Inl x \<and> e = g x)"
  by (cases m) auto

lemma ok_or_Ok_iff [simp, result_simps]: "ok_or m e = Inr a \<longleftrightarrow> m = Some a"
  by (cases m) auto

lemma ok_or_Err_iff [simp, result_simps]: "ok_or m e = Inl e' \<longleftrightarrow> m = None \<and> e' = e"
  by (cases m) auto

lemma ensure_Ok_iff [simp, result_simps]: "ensure b e = Inr u \<longleftrightarrow> b"
  by (cases b) auto

lemma ensure_Err_iff [simp, result_simps]: "ensure b e = Inl e' \<longleftrightarrow> \<not> b \<and> e' = e"
  by (cases b) auto

lemma is_ok_iff: "is_ok r \<longleftrightarrow> (\<exists>a. r = Inr a)"
  by (cases r) auto

lemma res_list_Ok_iff: "res_list rs = Inr as \<longleftrightarrow> rs = map Inr as"
  by (induction rs arbitrary: as) auto

subsection \<open>Checked arithmetic\<close>

lemma checked_add_usize_Some [simp]:
  "checked_add_usize a b = Some c \<longleftrightarrow> a + b \<le> USIZE_MAX \<and> c = a + b"
  by (auto simp: checked_add_usize_def)

lemma checked_mul_usize_Some [simp]:
  "checked_mul_usize a b = Some c \<longleftrightarrow> a * b \<le> USIZE_MAX \<and> c = a * b"
  by (auto simp: checked_mul_usize_def)

lemma checked_add_u64_Some:
  "checked_add_u64 a b = Some c \<longleftrightarrow> unat a + unat b < 2 ^ 64 \<and> c = a + b"
  by (auto simp: checked_add_u64_def)

lemma unat_add_u64: "unat a + unat b < 2 ^ 64 \<Longrightarrow> unat (a + b :: u64) = unat a + unat b"
  by (simp add: unat_word_ariths)

lemma checked_sum_Some:
  "checked_sum t xs = Some s \<longleftrightarrow> (xs = [] \<or> t + sum_list xs \<le> USIZE_MAX) \<and> s = t + sum_list xs"
proof (induction xs arbitrary: t)
  case Nil
  then show ?case by auto
next
  case (Cons x xs)
  show ?case
  proof (cases "t + x \<le> USIZE_MAX")
    case True
    then show ?thesis by (auto simp: checked_add_usize_def Cons.IH add.assoc)
  next
    case False
    then show ?thesis by (simp add: checked_add_usize_def)
  qed
qed

lemma checked_total_Some:
  "checked_total ss = Some s \<longleftrightarrow> length (concat ss) \<le> USIZE_MAX \<and> s = length (concat ss)"
  by (auto simp: checked_total_def checked_sum_Some length_concat)

subsection \<open>Little-endian byte codecs\<close>

fun le_bytes :: "nat \<Rightarrow> nat \<Rightarrow> bytes" where
  "le_bytes 0 x = []"
| "le_bytes (Suc k) x = word_of_nat (x mod 256) # le_bytes k (x div 256)"

fun le_nat :: "bytes \<Rightarrow> nat" where
  "le_nat [] = 0"
| "le_nat (b # bs) = unat b + 256 * le_nat bs"

text \<open>\<open>to_le_bytes\<close> of each width, and \<open>from_le_bytes\<close> at any width.\<close>

definition u16_le :: "u16 \<Rightarrow> bytes" where
  "u16_le w = le_bytes 2 (unat w)"

definition u32_le :: "u32 \<Rightarrow> bytes" where
  "u32_le w = le_bytes 4 (unat w)"

definition u64_le :: "u64 \<Rightarrow> bytes" where
  "u64_le w = le_bytes 8 (unat w)"

definition u128_le :: "u128 \<Rightarrow> bytes" where
  "u128_le w = le_bytes 16 (unat w)"

definition from_le :: "bytes \<Rightarrow> 'a::len word" where
  "from_le bs = word_of_nat (le_nat bs)"

lemma length_le_bytes [simp]: "length (le_bytes k x) = k"
  by (induction k arbitrary: x) auto

lemma unat_byte_mod: "unat (word_of_nat (x mod 256) :: u8) = x mod 256"
  by (simp add: unat_of_nat)

lemma le_nat_le_bytes: "le_nat (le_bytes k x) = x mod 256 ^ k"
proof (induction k arbitrary: x)
  case 0
  then show ?case by simp
next
  case (Suc k)
  have "x mod 256 ^ Suc k = x mod 256 + 256 * (x div 256 mod 256 ^ k)"
    by (simp add: mod_mult2_eq)
  then show ?case
    using Suc by (simp add: unat_byte_mod)
qed

lemma unat_u8_less: "unat (b :: u8) < 256"
  using unsigned_less [of b] by simp

lemma le_nat_less: "le_nat bs < 256 ^ length bs"
proof (induction bs)
  case Nil
  then show ?case by simp
next
  case (Cons b bs)
  have "unat b < 256" by (rule unat_u8_less)
  moreover have "256 * le_nat bs + 256 \<le> 256 * 256 ^ length bs"
    using Cons by (metis Suc_leI mult_Suc_right add.commute mult_le_mono2)
  ultimately show ?case by simp
qed

lemma le_bytes_le_nat: "length bs = k \<Longrightarrow> le_bytes k (le_nat bs) = bs"
proof (induction bs arbitrary: k)
  case Nil
  then show ?case by simp
next
  case (Cons b bs)
  then obtain j where k: "k = Suc j" and j: "length bs = j" by auto
  have "(unat b + 256 * le_nat bs) mod 256 = unat b"
    using unat_u8_less [of b] by simp
  moreover have "(unat b + 256 * le_nat bs) div 256 = le_nat bs"
    using unat_u8_less [of b] by simp
  ultimately show ?case
    using Cons.IH [OF j] k by simp
qed

lemma length_int_le [simp, codec_simps]:
  "length (u16_le a) = 2" "length (u32_le b) = 4" "length (u64_le c) = 8" "length (u128_le d) = 16"
  by (simp_all add: u16_le_def u32_le_def u64_le_def u128_le_def)

lemma from_le_bytes_general:
  fixes w :: "'a::len word"
  assumes "2 ^ LENGTH('a) \<le> (256 :: nat) ^ k"
  shows "from_le (le_bytes k (unat w)) = w"
proof -
  have "unat w < 2 ^ LENGTH('a)" by (rule unsigned_less)
  then have "unat w < 256 ^ k"
    using assms by linarith
  then show ?thesis
    by (simp add: from_le_def le_nat_le_bytes)
qed

lemma from_le_int [simp, codec_simps]:
  "from_le (u16_le a) = a" "from_le (u32_le b) = b" "from_le (u64_le c) = c"
  "from_le (u128_le d) = d"
  unfolding u16_le_def u32_le_def u64_le_def u128_le_def
  by (rule from_le_bytes_general; simp)+

lemma le_bytes_from_le_general:
  assumes "length bs = k" and "(256 :: nat) ^ k \<le> 2 ^ LENGTH('a)"
  shows "le_bytes k (unat (from_le bs :: 'a::len word)) = bs"
proof -
  have "le_nat bs < 2 ^ LENGTH('a)"
    using le_nat_less [of bs] assms by simp
  then have "unat (from_le bs :: 'a word) = le_nat bs"
    by (simp add: from_le_def unat_of_nat take_bit_nat_eq_self)
  then show ?thesis
    using assms(1) by (simp add: le_bytes_le_nat)
qed

lemma int_le_from_le [codec_simps]:
  "length bs = 2 \<Longrightarrow> u16_le (from_le bs) = bs"
  "length bs = 4 \<Longrightarrow> u32_le (from_le bs) = bs"
  "length bs = 8 \<Longrightarrow> u64_le (from_le bs) = bs"
  "length bs = 16 \<Longrightarrow> u128_le (from_le bs) = bs"
  unfolding u16_le_def u32_le_def u64_le_def u128_le_def
  by (rule le_bytes_from_le_general; simp)+

text \<open>\<open>bytes[a..b]\<close> for a range inside the slice.\<close>

definition slice_range :: "'a list \<Rightarrow> nat \<Rightarrow> nat \<Rightarrow> 'a list" where
  "slice_range xs a b = take (b - a) (drop a xs)"

lemma length_slice: "b \<le> length xs \<Longrightarrow> length (slice_range xs a b) = b - a"
  by (simp add: slice_range_def)

lemma slice_append_left [codec_simps]: "b \<le> length xs \<Longrightarrow> slice_range (xs @ ys) a b = slice_range xs a b"
  by (cases "a \<le> b") (simp_all add: slice_range_def)

lemma slice_append_right [codec_simps]:
  "length xs \<le> a \<Longrightarrow> slice_range (xs @ ys) a b = slice_range ys (a - length xs) (b - length xs)"
  by (simp add: slice_range_def)

lemma slice_full [codec_simps]: "length xs = b \<Longrightarrow> slice_range xs 0 b = xs"
  by (simp add: slice_range_def)

lemma slice_join: "a \<le> b \<Longrightarrow> b \<le> c \<Longrightarrow> slice_range xs a b @ slice_range xs b c = slice_range xs a c"
  unfolding slice_range_def
  by (metis Nat.add_diff_assoc2 add_diff_inverse_nat drop_drop le_add_diff_inverse2 not_less take_add)

lemma slice_one: "a < length xs \<Longrightarrow> slice_range xs a (Suc a) = [xs ! a]"
  by (simp add: slice_range_def take_Suc_conv_app_nth Cons_nth_drop_Suc [symmetric])

subsection \<open>Hash maps\<close>

text \<open>
  A \<open>HashMap\<close> or \<open>BTreeMap\<close> is an association list with distinct keys. The list order
  stands for the unspecified iteration order of the map: no theorem depends on it.
\<close>

type_synonym ('k, 'v) hmap = "('k \<times> 'v) list"

definition hm_get :: "('k, 'v) hmap \<Rightarrow> 'k \<Rightarrow> 'v option" where
  "hm_get m k = map_of m k"

definition hm_insert :: "'k \<Rightarrow> 'v \<Rightarrow> ('k, 'v) hmap \<Rightarrow> ('k, 'v) hmap" where
  "hm_insert k v m = AList.update k v m"

definition hm_remove :: "'k \<Rightarrow> ('k, 'v) hmap \<Rightarrow> ('k, 'v) hmap" where
  "hm_remove k m = AList.delete k m"

definition hm_len :: "('k, 'v) hmap \<Rightarrow> usize" where
  "hm_len m = length m"

definition hm_wf :: "('k, 'v) hmap \<Rightarrow> bool" where
  "hm_wf m \<longleftrightarrow> distinct (map fst m)"

definition hm_values :: "('k, 'v) hmap \<Rightarrow> 'v list" where
  "hm_values m = map snd m"

text \<open>The contract of a keyed container, and what a client with a capacity check gets from it.\<close>

locale keyed_map =
  fixes get :: "'m \<Rightarrow> 'k \<Rightarrow> 'v option"
    and put :: "'k \<Rightarrow> 'v \<Rightarrow> 'm \<Rightarrow> 'm"
    and remove :: "'k \<Rightarrow> 'm \<Rightarrow> 'm"
    and len :: "'m \<Rightarrow> nat"
    and wf :: "'m \<Rightarrow> bool"
  assumes wf_put: "wf m \<Longrightarrow> wf (put k v m)"
    and wf_remove: "wf m \<Longrightarrow> wf (remove k m)"
    and get_put: "wf m \<Longrightarrow> get (put k v m) k' = (if k' = k then Some v else get m k')"
    and get_remove: "wf m \<Longrightarrow> get (remove k m) k' = (if k' = k then None else get m k')"
    and len_put: "wf m \<Longrightarrow> len (put k v m) = (if get m k = None then Suc (len m) else len m)"
    and len_remove: "wf m \<Longrightarrow> len (remove k m) = (if get m k = None then len m else len m - 1)"
    and len_pos: "wf m \<Longrightarrow> get m k \<noteq> None \<Longrightarrow> 0 < len m"
begin

lemma put_within: "wf m \<Longrightarrow> len m < limit \<Longrightarrow> len (put k v m) \<le> limit"
  by (simp add: len_put)

lemma replace_within: "wf m \<Longrightarrow> len m \<le> limit \<Longrightarrow> get m k \<noteq> None \<Longrightarrow> len (put k v m) \<le> limit"
  by (auto simp: len_put)

lemma remove_within: "wf m \<Longrightarrow> len m \<le> limit \<Longrightarrow> len (remove k m) \<le> limit"
  by (auto simp: len_remove)

lemma remove_put_fresh:
  "wf m \<Longrightarrow> get m k = None \<Longrightarrow> len (remove k (put k v m)) = len m"
  by (simp add: len_remove len_put get_put wf_put)

end

lemma map_of_update [simp]: "map_of (AList.update k v m) k' = (if k' = k then Some v else map_of m k')"
  by (simp add: update_conv')

lemma map_of_delete [simp]: "map_of (AList.delete k m) k' = (if k' = k then None else map_of m k')"
  by (simp add: delete_conv')

lemma delete_id: "map_of m k = None \<Longrightarrow> AList.delete k m = m"
  by (simp add: delete_notin_dom map_of_eq_None_iff dom_map_of_conv_image_fst)

lemma length_update:
  "length (AList.update k v m) = (if map_of m k = None then Suc (length m) else length m)"
  by (induction m) auto

lemma length_delete:
  "distinct (map fst m) \<Longrightarrow>
     length (AList.delete k m) = (if map_of m k = None then length m else length m - 1)"
proof (induction m)
  case Nil
  then show ?case by simp
next
  case (Cons p m)
  obtain a b where p: "p = (a, b)" by (cases p)
  show ?case
  proof (cases "a = k")
    case True
    with Cons.prems p have "map_of m k = None" by (simp add: map_of_eq_None_iff)
    then have "AList.delete k m = m" by (rule delete_id)
    with p True show ?thesis by simp
  next
    case False
    have "map_of m k \<noteq> None \<Longrightarrow> 0 < length m" by (cases m) auto
    with Cons p False show ?thesis by auto
  qed
qed

interpretation hm: keyed_map hm_get hm_insert hm_remove hm_len hm_wf
proof
  fix m :: "('a, 'b) hmap" and k k' :: 'a and v :: 'b
  assume wf: "hm_wf m"
  show "hm_wf (hm_insert k v m)" "hm_wf (hm_remove k m)"
    using wf by (auto simp: hm_wf_def hm_insert_def hm_remove_def distinct_update distinct_delete)
  show "hm_get (hm_insert k v m) k' = (if k' = k then Some v else hm_get m k')"
    "hm_get (hm_remove k m) k' = (if k' = k then None else hm_get m k')"
    by (simp_all add: hm_get_def hm_insert_def hm_remove_def)
  show "hm_len (hm_insert k v m) = (if hm_get m k = None then Suc (hm_len m) else hm_len m)"
    by (simp add: hm_len_def hm_insert_def hm_get_def length_update)
  show "hm_len (hm_remove k m) = (if hm_get m k = None then hm_len m else hm_len m - 1)"
    using wf unfolding hm_len_def hm_remove_def hm_get_def hm_wf_def by (rule length_delete)
  assume "hm_get m k \<noteq> None"
  then show "0 < hm_len m"
    by (cases m) (auto simp: hm_get_def hm_len_def)
qed

text \<open>How a quantity summed over the values changes with one entry.\<close>

definition hm_sum :: "('v \<Rightarrow> 'm::comm_monoid_add) \<Rightarrow> ('k, 'v) hmap \<Rightarrow> 'm" where
  "hm_sum g m = sum_list (map (\<lambda>p. g (snd p)) m)"

lemma hm_sum_insert_fresh: "hm_get m k = None \<Longrightarrow> hm_sum g (hm_insert k v m) = hm_sum g m + g v"
  by (induction m) (auto simp: hm_sum_def hm_get_def hm_insert_def add_ac split: if_splits)

lemma hm_sum_replace:
  "hm_get m k = Some u \<Longrightarrow> hm_sum g (hm_insert k v m) + g u = hm_sum g m + g v"
  by (induction m) (auto simp: hm_sum_def hm_get_def hm_insert_def add_ac split: if_splits)

lemma hm_sum_remove:
  "hm_wf m \<Longrightarrow> hm_get m k = Some u \<Longrightarrow> hm_sum g (hm_remove k m) + g u = hm_sum g m"
proof (induction m)
  case Nil
  then show ?case by (simp add: hm_get_def)
next
  case (Cons p m)
  obtain a b where p: "p = (a, b)" by (cases p)
  show ?case
  proof (cases "a = k")
    case True
    with Cons.prems(1) p have "map_of m k = None" by (simp add: hm_wf_def map_of_eq_None_iff)
    with Cons.prems p True show ?thesis
      by (simp add: hm_sum_def hm_remove_def hm_get_def delete_id add_ac)
  next
    case False
    with Cons p show ?thesis
      by (simp add: hm_sum_def hm_remove_def hm_get_def hm_wf_def add_ac)
  qed
qed

lemma hm_get_mem: "hm_get m k = Some v \<Longrightarrow> v \<in> set (hm_values m)"
  by (induction m) (auto simp: hm_get_def hm_values_def split: if_splits)

lemma hm_mem_get: "hm_wf m \<Longrightarrow> v \<in> set (hm_values m) \<Longrightarrow> \<exists>k. hm_get m k = Some v"
  by (force simp: hm_get_def hm_values_def hm_wf_def)

lemma hm_sum_zero: "hm_wf m \<Longrightarrow> (\<And>k v. hm_get m k = Some v \<Longrightarrow> g v = 0) \<Longrightarrow> hm_sum g m = (0 :: 'm::comm_monoid_add)"
proof -
  assume "hm_wf m" "\<And>k v. hm_get m k = Some v \<Longrightarrow> g v = 0"
  then have "g v = 0" if "v \<in> set (hm_values m)" for v using hm_mem_get that by metis
  then have "map (\<lambda>p. g (snd p)) m = map (\<lambda>_. 0) m"
    by (auto simp: hm_values_def)
  then show ?thesis unfolding hm_sum_def by (simp only: sum_list_0)
qed

lemma hm_values_insert: "set (hm_values (hm_insert k v m)) \<subseteq> insert v (set (hm_values m))"
  by (induction m) (auto simp: hm_values_def hm_insert_def)

lemma hm_wf_empty [simp]: "hm_wf []"
  by (simp add: hm_wf_def)

lemma hm_get_empty [simp]: "hm_get [] k = None"
  by (simp add: hm_get_def)

lemma hm_sum_empty [simp]: "hm_sum g [] = 0"
  by (simp add: hm_sum_def)

lemma hm_get_insert: "hm_get (hm_insert k v m) k' = (if k' = k then Some v else hm_get m k')"
  by (simp add: hm_get_def hm_insert_def)

lemmas hm_simps [simp] = hm.get_put hm.get_remove hm.wf_put hm.wf_remove

end
