(* ===== verification/Scheduler.thy ===== *)
theory Scheduler
  imports Prelude
begin

text \<open>
  The batch coordinator of the collective \<open>pmap\<close> (\<open>src/scheduler.rs\<close>): the queue of
  input items, one lane per rank, and the slots of the ordered result. Every operation
  takes the coordinator and returns the new one with its \<open>Result\<close>; a method that fails
  half-way would show the half-done state, so failure atomicity is a theorem.
  Ranks (\<open>i32\<close>) are integers: the scheduler only compares them.
\<close>

subsection \<open>Data\<close>

datatype batch_id = BatchId (batch_id_get: u64)

definition batch_id_zero :: batch_id where
  "batch_id_zero = BatchId 0"

datatype scheduler_error =
    InvalidRoot | InvalidRemote | DuplicateRemote | RootInRemotes | UnknownRank | WrongLaneState
  | BatchIdOverflow | BatchMismatch | ResultCount | IndexSequence | IndexOutOfBounds
  | AlreadyFilled | DuplicateResultIndex | IndexOverflow | NotFinished | SchedFailed | MissingResult

definition checked_increment :: "batch_id \<Rightarrow> (scheduler_error, batch_id) result" where
  "checked_increment b =
     ok_or (map_option BatchId (checked_add_u64 (batch_id_get b) 1)) BatchIdOverflow"

record 't scheduled_item =
  original_index :: usize
  item_value :: 't

record 't batch =
  b_id :: batch_id
  b_items :: "'t scheduled_item list"

record 'u item_result =
  result_index :: usize
  result_value :: 'u

datatype 't dispatch = Task "'t batch" | Stop

datatype lane = Root | Remote int

record completion_meta =
  cm_lane :: lane
  cm_batch_id :: batch_id

datatype lane_state_kind = KIdle | KRunning | KStopped | KDrained

record running_meta =
  rm_batch_id :: batch_id
  original_indices :: "usize list"

datatype lane_state =
    LaneIdle
  | LaneRunning (current: running_meta) (prefetched: "running_meta option") (stopping: bool)
  | LaneStopped
  | LaneDrained

fun lane_kind :: "lane_state \<Rightarrow> lane_state_kind" where
  "lane_kind LaneIdle = KIdle"
| "lane_kind (LaneRunning c p s) = KRunning"
| "lane_kind LaneStopped = KStopped"
| "lane_kind LaneDrained = KDrained"

record ('t, 'u) coordinator =
  pending :: "'t scheduled_item list"
  ordered :: "'u option list"
  batch_size :: usize
  next_batch_id :: batch_id
  root_lane :: lane_state
  remotes :: "(int, lane_state) hmap"
  prefetch :: bool
  failed :: bool

type_synonym 'a sched_result = "(scheduler_error fault, 'a) result"

subsection \<open>Construction\<close>

text \<open>The loop over \<open>remote_ranks\<close>.\<close>

fun add_remotes ::
  "int \<Rightarrow> (int, lane_state) hmap \<Rightarrow> int list \<Rightarrow> (scheduler_error, (int, lane_state) hmap) result"
where
  "add_remotes root m [] = Ok m"
| "add_remotes root m (rank # ranks) =
     (if rank < 0 then Err InvalidRemote
      else if rank = root then Err RootInRemotes
      else if hm_get m rank \<noteq> None then Err DuplicateRemote
      else add_remotes root (hm_insert rank LaneIdle m) ranks)"

text \<open>The loop over \<open>items.into_iter().enumerate()\<close>; \<open>u64::try_from\<close> of each index.\<close>

fun enqueue_items :: "usize \<Rightarrow> 't list \<Rightarrow> (scheduler_error, 't scheduled_item list) result" where
  "enqueue_items i [] = Ok []"
| "enqueue_items i (v # vs) =
     (if 2 ^ 64 \<le> i then Err IndexOverflow
      else res_bind (enqueue_items (Suc i) vs)
        (\<lambda>rest. Ok (\<lparr>original_index = i, item_value = v\<rparr> # rest)))"

definition new_with_prefetch ::
  "int \<Rightarrow> int list \<Rightarrow> 't list \<Rightarrow> usize \<Rightarrow> bool \<Rightarrow> (scheduler_error, ('t, 'u) coordinator) result"
where
  "new_with_prefetch root_rank remote_ranks items bsize pref =
     (if root_rank < 0 then Err InvalidRoot
      else res_bind (add_remotes root_rank [] remote_ranks) (\<lambda>rs.
        res_bind (enqueue_items 0 items) (\<lambda>pend.
          Ok \<lparr>pending = pend, ordered = replicate (length pend) None, batch_size = bsize,
              next_batch_id = batch_id_zero, root_lane = LaneIdle, remotes = rs,
              prefetch = pref, failed = False\<rparr>)))"

subsection \<open>Batches\<close>

definition make_batch ::
  "('t, 'u) coordinator \<Rightarrow> ('t, 'u) coordinator \<times> (scheduler_error, 't batch option) result"
where
  "make_batch c =
     (if failed c \<or> pending c = [] then (c, Ok None)
      else (case checked_increment (next_batch_id c) of
          Inl e \<Rightarrow> (c, Err e)
        | Inr next_id \<Rightarrow>
            (let count = min (batch_size c) (length (pending c));
                 items = take count (pending c)
             in (c\<lparr>pending := drop count (pending c), next_batch_id := next_id\<rparr>,
                 Ok (Some \<lparr>b_id = next_batch_id c, b_items = items\<rparr>)))))"

definition metadata :: "'t batch \<Rightarrow> running_meta" where
  "metadata b = \<lparr>rm_batch_id = b_id b, original_indices = map original_index (b_items b)\<rparr>"

text \<open>The loop of \<open>validate_completion\<close>: position, the indices seen so far, the results left.\<close>

fun validate_results ::
  "'u option list \<Rightarrow> usize list \<Rightarrow> usize list \<Rightarrow> usize \<Rightarrow> 'u item_result list \<Rightarrow> unit sched_result"
where
  "validate_results ord inds seen pos [] = Ok ()"
| "validate_results ord inds seen pos (r # rs) =
     (let index = result_index r in
      if length ord \<le> index then Err (Fail IndexOutOfBounds)
      else if index \<in> set seen then Err (Fail DuplicateResultIndex)
      else if length inds \<le> pos then Err Panic
      else if inds ! pos \<noteq> index then Err (Fail IndexSequence)
      else if ord ! index \<noteq> None then Err (Fail AlreadyFilled)
      else validate_results ord inds (index # seen) (Suc pos) rs)"

definition validate_completion ::
  "('t, 'u) coordinator \<Rightarrow> running_meta \<Rightarrow> batch_id \<Rightarrow> 'u item_result list \<Rightarrow> unit sched_result"
where
  "validate_completion c m bid rs =
     (if rm_batch_id m \<noteq> bid then Err (Fail BatchMismatch)
      else if length (original_indices m) \<noteq> length rs then Err (Fail ResultCount)
      else validate_results (ordered c) (original_indices m) [] 0 rs)"

text \<open>The loop that stores the values; an index out of range would panic.\<close>

fun store_results :: "'u option list \<Rightarrow> 'u item_result list \<Rightarrow> (scheduler_error fault, 'u option list) result"
where
  "store_results ord [] = Ok ord"
| "store_results ord (r # rs) =
     (if result_index r < length ord
      then store_results (ord[result_index r := Some (result_value r)]) rs
      else Err Panic)"

subsection \<open>Operations\<close>

definition set_remote :: "int \<Rightarrow> lane_state \<Rightarrow> ('t, 'u) coordinator \<Rightarrow> ('t, 'u) coordinator" where
  "set_remote rank s c = c\<lparr>remotes := hm_insert rank s (remotes c)\<rparr>"

fun prefetch_request :: "bool \<Rightarrow> lane_state option \<Rightarrow> (scheduler_error, bool) result" where
  "prefetch_request pref (Some LaneIdle) = Ok False"
| "prefetch_request pref (Some (LaneRunning m None False)) =
     (if pref then Ok True else Err WrongLaneState)"
| "prefetch_request pref (Some s) = Err WrongLaneState"
| "prefetch_request pref None = Err UnknownRank"

fun mark_stopping :: "lane_state option \<Rightarrow> lane_state sched_result" where
  "mark_stopping None = Err (Fail UnknownRank)"
| "mark_stopping (Some (LaneRunning m p s)) = Ok (LaneRunning m p True)"
| "mark_stopping (Some s) = Err Panic"

fun mark_prefetched :: "running_meta \<Rightarrow> lane_state option \<Rightarrow> lane_state sched_result" where
  "mark_prefetched md None = Err (Fail UnknownRank)"
| "mark_prefetched md (Some (LaneRunning m p s)) = Ok (LaneRunning m (Some md) s)"
| "mark_prefetched md (Some s) = Err Panic"

definition on_remote_ready ::
  "('t, 'u) coordinator \<Rightarrow> int \<Rightarrow> ('t, 'u) coordinator \<times> 't dispatch sched_result"
where
  "on_remote_ready c rank =
     (case prefetch_request (prefetch c) (hm_get (remotes c) rank) of
        Inl e \<Rightarrow> (c, Err (Fail e))
      | Inr pre \<Rightarrow>
          if failed c \<or> pending c = [] then
            (if pre then
               (case mark_stopping (hm_get (remotes c) rank) of
                  Inl e \<Rightarrow> (c, Err e)
                | Inr s \<Rightarrow> (set_remote rank s c, Ok Stop))
             else (set_remote rank LaneStopped c, Ok Stop))
          else
            (case make_batch c of
               (c', Inl e) \<Rightarrow> (c', Err (Fail e))
             | (c', Inr None) \<Rightarrow> (c', Err Panic)
             | (c', Inr (Some b)) \<Rightarrow>
                 if pre then
                   (case mark_prefetched (metadata b) (hm_get (remotes c') rank) of
                      Inl e \<Rightarrow> (c', Err e)
                    | Inr s \<Rightarrow> (set_remote rank s c', Ok (Task b)))
                 else (set_remote rank (LaneRunning (metadata b) None False) c', Ok (Task b))))"

definition next_root_batch ::
  "('t, 'u) coordinator \<Rightarrow> ('t, 'u) coordinator \<times> 't batch option sched_result"
where
  "next_root_batch c =
     (if lane_kind (root_lane c) = KRunning then (c, Err (Fail WrongLaneState))
      else if lane_kind (root_lane c) = KStopped then (c, Ok None)
      else if failed c \<or> pending c = [] then (c\<lparr>root_lane := LaneStopped\<rparr>, Ok None)
      else (case make_batch c of
          (c', Inl e) \<Rightarrow> (c', Err (Fail e))
        | (c', Inr None) \<Rightarrow> (c', Err Panic)
        | (c', Inr (Some b)) \<Rightarrow>
            (c'\<lparr>root_lane := LaneRunning (metadata b) None False\<rparr>, Ok (Some b))))"

fun root_current :: "lane_state \<Rightarrow> running_meta sched_result" where
  "root_current (LaneRunning m None False) = Ok m"
| "root_current s = Err (Fail WrongLaneState)"

fun remote_current :: "lane_state option \<Rightarrow> running_meta sched_result" where
  "remote_current (Some (LaneRunning m p s)) = Ok m"
| "remote_current (Some s) = Err (Fail WrongLaneState)"
| "remote_current None = Err (Fail UnknownRank)"

fun advance_remote :: "lane_state option \<Rightarrow> lane_state sched_result" where
  "advance_remote None = Err (Fail UnknownRank)"
| "advance_remote (Some (LaneRunning m (Some md) False)) = Ok (LaneRunning md None False)"
| "advance_remote (Some (LaneRunning m None True)) = Ok LaneStopped"
| "advance_remote (Some (LaneRunning m None False)) = Ok LaneIdle"
| "advance_remote (Some s) = Err (Fail WrongLaneState)"

text \<open>\<open>if !self.failed { for result in results { .. } }\<close>.\<close>

definition record_results ::
  "('t, 'u) coordinator \<Rightarrow> 'u item_result list \<Rightarrow> completion_meta
     \<Rightarrow> ('t, 'u) coordinator \<times> completion_meta sched_result"
where
  "record_results c rs cm =
     (if failed c then (c, Ok cm)
      else (case store_results (ordered c) rs of
          Inl e \<Rightarrow> (c, Err e)
        | Inr ord \<Rightarrow> (c\<lparr>ordered := ord\<rparr>, Ok cm)))"

definition on_root_success ::
  "('t, 'u) coordinator \<Rightarrow> batch_id \<Rightarrow> 'u item_result list
     \<Rightarrow> ('t, 'u) coordinator \<times> completion_meta sched_result"
where
  "on_root_success c bid rs =
     (case res_bind (root_current (root_lane c)) (\<lambda>m. validate_completion c m bid rs) of
        Inl e \<Rightarrow> (c, Err e)
      | Inr _ \<Rightarrow>
          record_results (c\<lparr>root_lane := LaneIdle\<rparr>) rs \<lparr>cm_lane = Root, cm_batch_id = bid\<rparr>)"

definition on_remote_success ::
  "('t, 'u) coordinator \<Rightarrow> int \<Rightarrow> batch_id \<Rightarrow> 'u item_result list
     \<Rightarrow> ('t, 'u) coordinator \<times> completion_meta sched_result"
where
  "on_remote_success c rank bid rs =
     (case res_bind (remote_current (hm_get (remotes c) rank)) (\<lambda>m. validate_completion c m bid rs) of
        Inl e \<Rightarrow> (c, Err e)
      | Inr _ \<Rightarrow>
          (case advance_remote (hm_get (remotes c) rank) of
             Inl e \<Rightarrow> (c, Err e)
           | Inr s \<Rightarrow>
               record_results (set_remote rank s c) rs
                 \<lparr>cm_lane = Remote rank, cm_batch_id = bid\<rparr>))"

definition fail :: "('t, 'u) coordinator \<Rightarrow> ('t, 'u) coordinator" where
  "fail c = c\<lparr>failed := True, pending := []\<rparr>"

definition on_root_error ::
  "('t, 'u) coordinator \<Rightarrow> batch_id \<Rightarrow> ('t, 'u) coordinator \<times> completion_meta sched_result"
where
  "on_root_error c bid =
     (case root_current (root_lane c) of
        Inl e \<Rightarrow> (c, Err e)
      | Inr m \<Rightarrow>
          if rm_batch_id m \<noteq> bid then (c, Err (Fail BatchMismatch))
          else (fail (c\<lparr>root_lane := LaneIdle\<rparr>), Ok \<lparr>cm_lane = Root, cm_batch_id = bid\<rparr>))"

definition on_remote_error ::
  "('t, 'u) coordinator \<Rightarrow> int \<Rightarrow> batch_id \<Rightarrow> ('t, 'u) coordinator \<times> completion_meta sched_result"
where
  "on_remote_error c rank bid =
     (case remote_current (hm_get (remotes c) rank) of
        Inl e \<Rightarrow> (c, Err e)
      | Inr m \<Rightarrow>
          if rm_batch_id m \<noteq> bid then (c, Err (Fail BatchMismatch))
          else (case advance_remote (hm_get (remotes c) rank) of
              Inl e \<Rightarrow> (c, Err e)
            | Inr s \<Rightarrow>
                (fail (set_remote rank s c), Ok \<lparr>cm_lane = Remote rank, cm_batch_id = bid\<rparr>)))"

definition on_remote_protocol_error ::
  "('t, 'u) coordinator \<Rightarrow> int \<Rightarrow> ('t, 'u) coordinator \<times> completion_meta sched_result"
where
  "on_remote_protocol_error c rank =
     (case remote_current (hm_get (remotes c) rank) of
        Inl e \<Rightarrow> (c, Err e)
      | Inr m \<Rightarrow>
          (case advance_remote (hm_get (remotes c) rank) of
             Inl e \<Rightarrow> (c, Err e)
           | Inr s \<Rightarrow>
               (fail (set_remote rank s c),
                Ok \<lparr>cm_lane = Remote rank, cm_batch_id = rm_batch_id m\<rparr>)))"

definition on_remote_drain ::
  "('t, 'u) coordinator \<Rightarrow> int \<Rightarrow> ('t, 'u) coordinator \<times> unit sched_result"
where
  "on_remote_drain c rank =
     (case hm_get (remotes c) rank of
        None \<Rightarrow> (c, Err (Fail UnknownRank))
      | Some s \<Rightarrow>
          if lane_kind s \<noteq> KStopped then (c, Err (Fail WrongLaneState))
          else (set_remote rank LaneDrained c, Ok ()))"

definition running_count :: "('t, 'u) coordinator \<Rightarrow> usize" where
  "running_count c =
     (if lane_kind (root_lane c) = KRunning then 1 else 0)
       + length (filter (\<lambda>s. lane_kind s = KRunning) (hm_values (remotes c)))"

definition is_quiescent :: "('t, 'u) coordinator \<Rightarrow> bool" where
  "is_quiescent c \<longleftrightarrow> pending c = [] \<and> running_count c = 0"

definition is_finished :: "('t, 'u) coordinator \<Rightarrow> bool" where
  "is_finished c \<longleftrightarrow>
     lane_kind (root_lane c) = KStopped
       \<and> list_all (\<lambda>s. lane_kind s = KDrained) (hm_values (remotes c)) \<and> running_count c = 0"

definition into_results :: "('t, 'u) coordinator \<Rightarrow> (scheduler_error, 'u list) result" where
  "into_results c =
     (if failed c then Err SchedFailed
      else if \<not> is_finished c then Err NotFinished
      else res_list (map (\<lambda>r. ok_or r MissingResult) (ordered c)))"

subsection \<open>Events\<close>

text \<open>
  What the root loop of \<open>pmap\<close> asks of the coordinator, one event per method. The answer
  keeps the batch that was handed out, if any.
\<close>

datatype 'u event =
    RootNext | RootOk batch_id "'u item_result list" | RootErr batch_id
  | Ready int | RemoteOk int batch_id "'u item_result list" | RemoteErr int batch_id
  | RemoteProtocolErr int | Drain int

fun no_batch :: "'a sched_result \<Rightarrow> 't batch option sched_result" where
  "no_batch (Inl e) = Inl e"
| "no_batch (Inr a) = Inr None"

fun dispatched :: "'t dispatch \<Rightarrow> 't batch option" where
  "dispatched (Task b) = Some b"
| "dispatched Stop = None"

fun sched_step ::
  "('t, 'u) coordinator \<Rightarrow> 'u event \<Rightarrow> ('t, 'u) coordinator \<times> 't batch option sched_result"
where
  "sched_step c RootNext = next_root_batch c"
| "sched_step c (RootOk bid rs) = map_prod id no_batch (on_root_success c bid rs)"
| "sched_step c (RootErr bid) = map_prod id no_batch (on_root_error c bid)"
| "sched_step c (Ready rank) =
     map_prod id (\<lambda>r. res_bind r (\<lambda>d. Ok (dispatched d))) (on_remote_ready c rank)"
| "sched_step c (RemoteOk rank bid rs) = map_prod id no_batch (on_remote_success c rank bid rs)"
| "sched_step c (RemoteErr rank bid) = map_prod id no_batch (on_remote_error c rank bid)"
| "sched_step c (RemoteProtocolErr rank) = map_prod id no_batch (on_remote_protocol_error c rank)"
| "sched_step c (Drain rank) = map_prod id no_batch (on_remote_drain c rank)"

fun sched_run ::
  "('t, 'u) coordinator \<Rightarrow> 'u event list \<Rightarrow> ('t, 'u) coordinator \<times> 't batch option sched_result list"
where
  "sched_run c [] = (c, [])"
| "sched_run c (e # es) =
     (let (c', r) = sched_step c e; (c'', rs) = sched_run c' es in (c'', r # rs))"

text \<open>The batches handed out in a run, oldest first.\<close>

fun handed_out :: "'t batch option sched_result list \<Rightarrow> 't batch list" where
  "handed_out [] = []"
| "handed_out (Inr (Some b) # rs) = b # handed_out rs"
| "handed_out (r # rs) = handed_out rs"

subsection \<open>Abstract specification: lanes move, items flow\<close>

fun get_lane :: "('t, 'u) coordinator \<Rightarrow> lane \<Rightarrow> lane_state option" where
  "get_lane c Root = Some (root_lane c)"
| "get_lane c (Remote rank) = hm_get (remotes c) rank"

fun set_lane :: "lane \<Rightarrow> lane_state \<Rightarrow> ('t, 'u) coordinator \<Rightarrow> ('t, 'u) coordinator" where
  "set_lane Root s c = c\<lparr>root_lane := s\<rparr>"
| "set_lane (Remote rank) s c = set_remote rank s c"

fun lane_assign :: "bool \<Rightarrow> lane \<Rightarrow> running_meta \<Rightarrow> lane_state \<Rightarrow> lane_state option" where
  "lane_assign pref l md LaneIdle = Some (LaneRunning md None False)"
| "lane_assign pref (Remote r) md (LaneRunning m None False) =
     (if pref then Some (LaneRunning m (Some md) False) else None)"
| "lane_assign pref l md s = None"

fun lane_stop :: "bool \<Rightarrow> lane \<Rightarrow> lane_state \<Rightarrow> lane_state option" where
  "lane_stop pref l LaneIdle = Some LaneStopped"
| "lane_stop pref (Remote r) (LaneRunning m None False) =
     (if pref then Some (LaneRunning m None True) else None)"
| "lane_stop pref l s = None"

fun lane_finish :: "lane_state \<Rightarrow> (running_meta \<times> lane_state) option" where
  "lane_finish (LaneRunning m None False) = Some (m, LaneIdle)"
| "lane_finish (LaneRunning m None True) = Some (m, LaneStopped)"
| "lane_finish (LaneRunning m (Some q) False) = Some (m, LaneRunning q None False)"
| "lane_finish s = None"

datatype ('t, 'u) label =
  LDispatch lane "'t batch" | LStop lane | LDone lane "'u item_result list" | LFault lane | LDrain int

inductive sched_trans ::
  "('t, 'u) coordinator \<Rightarrow> ('t, 'u) label \<Rightarrow> ('t, 'u) coordinator \<Rightarrow> bool"
where
  dispatch: "\<not> failed c \<Longrightarrow> pending c = b_items b @ ys \<Longrightarrow> b_items b \<noteq> []
    \<Longrightarrow> length (b_items b) = min (batch_size c) (length (pending c))
    \<Longrightarrow> b_id b = next_batch_id c \<Longrightarrow> checked_increment (next_batch_id c) = Ok nid
    \<Longrightarrow> get_lane c l = Some s \<Longrightarrow> lane_assign (prefetch c) l (metadata b) s = Some s'
    \<Longrightarrow> sched_trans c (LDispatch l b) (set_lane l s' (c\<lparr>pending := ys, next_batch_id := nid\<rparr>))"
| stop: "failed c \<or> pending c = [] \<Longrightarrow> get_lane c l = Some s
    \<Longrightarrow> lane_stop (prefetch c) l s = Some s' \<Longrightarrow> sched_trans c (LStop l) (set_lane l s' c)"
| finish: "get_lane c l = Some s \<Longrightarrow> lane_finish s = Some (m, s')
    \<Longrightarrow> map result_index rs = original_indices m
    \<Longrightarrow> (if failed c then ord = ordered c else store_results (ordered c) rs = Ok ord)
    \<Longrightarrow> sched_trans c (LDone l rs) (set_lane l s' c\<lparr>ordered := ord\<rparr>)"
| fault: "get_lane c l = Some s \<Longrightarrow> lane_finish s = Some (m, s')
    \<Longrightarrow> sched_trans c (LFault l) (fail (set_lane l s' c))"
| drain: "get_lane c (Remote rank) = Some LaneStopped
    \<Longrightarrow> sched_trans c (LDrain rank) (set_lane (Remote rank) LaneDrained c)"

inductive_cases dispatchE: "sched_trans c (LDispatch l b) c'"

subsection \<open>The invariant\<close>

fun lane_metas :: "lane_state \<Rightarrow> running_meta list" where
  "lane_metas (LaneRunning m p s) = m # (case p of None \<Rightarrow> [] | Some q \<Rightarrow> [q])"
| "lane_metas s = []"

definition lane_mset :: "lane_state \<Rightarrow> usize multiset" where
  "lane_mset s = mset (concat (map original_indices (lane_metas s)))"

definition outstanding :: "('t, 'u) coordinator \<Rightarrow> usize multiset" where
  "outstanding c = lane_mset (root_lane c) + hm_sum lane_mset (remotes c)"

definition filled :: "'u option list \<Rightarrow> usize multiset" where
  "filled ord = mset_set {i. i < length ord \<and> ord ! i \<noteq> None}"

definition queued :: "('t, 'u) coordinator \<Rightarrow> usize multiset" where
  "queued c = mset (map original_index (pending c))"

fun root_ok :: "lane_state \<Rightarrow> bool" where
  "root_ok (LaneRunning m p s) \<longleftrightarrow> p = None \<and> \<not> s"
| "root_ok LaneDrained \<longleftrightarrow> False"
| "root_ok s \<longleftrightarrow> True"

fun remote_ok :: "bool \<Rightarrow> lane_state \<Rightarrow> bool" where
  "remote_ok pref (LaneRunning m p s) \<longleftrightarrow> (p \<noteq> None \<longrightarrow> \<not> s) \<and> (p \<noteq> None \<or> s \<longrightarrow> pref)"
| "remote_ok pref s \<longleftrightarrow> True"

fun lane_ok :: "bool \<Rightarrow> lane \<Rightarrow> lane_state \<Rightarrow> bool" where
  "lane_ok pref Root s = root_ok s"
| "lane_ok pref (Remote r) s = remote_ok pref s"

definition number_items :: "'t list \<Rightarrow> 't scheduled_item list" where
  "number_items items =
     map (\<lambda>i. \<lparr>original_index = i, item_value = items ! i\<rparr>) [0..<length items]"

definition lanes_inv :: "('t, 'u) coordinator \<Rightarrow> bool" where
  "lanes_inv c \<longleftrightarrow>
     hm_wf (remotes c) \<and> (\<forall>l s. get_lane c l = Some s \<longrightarrow> lane_ok (prefetch c) l s)"

definition items_inv :: "'t list \<Rightarrow> ('t, 'u) coordinator \<Rightarrow> bool" where
  "items_inv items c \<longleftrightarrow>
     length (ordered c) = length items
       \<and> (\<exists>k. pending c = drop k (number_items items))
       \<and> (failed c \<longrightarrow> pending c = []) \<and> 0 < batch_size c
       \<and> unat (batch_id_get (next_batch_id c)) + length (pending c) \<le> length items"

text \<open>Every input index is queued, out on exactly one lane, or filled; nothing is lost
  unless the run has failed.\<close>

definition account_inv :: "'t list \<Rightarrow> ('t, 'u) coordinator \<Rightarrow> bool" where
  "account_inv items c \<longleftrightarrow>
     queued c + outstanding c + filled (ordered c) \<subseteq># mset_set {0..<length items}
       \<and> (\<not> failed c \<longrightarrow>
            queued c + outstanding c + filled (ordered c) = mset_set {0..<length items})"

text \<open>The root lane stops only when the queue is empty.\<close>

definition rest_inv :: "('t, 'u) coordinator \<Rightarrow> bool" where
  "rest_inv c \<longleftrightarrow> (root_lane c = LaneStopped \<longrightarrow> pending c = [])"

definition sched_inv :: "'t list \<Rightarrow> ('t, 'u) coordinator \<Rightarrow> bool" where
  "sched_inv items c \<longleftrightarrow> lanes_inv c \<and> items_inv items c \<and> account_inv items c \<and> rest_inv c"

subsection \<open>Lanes\<close>

lemma set_lane_fields [simp]:
  "pending (set_lane l s c) = pending c" "ordered (set_lane l s c) = ordered c"
  "batch_size (set_lane l s c) = batch_size c" "next_batch_id (set_lane l s c) = next_batch_id c"
  "prefetch (set_lane l s c) = prefetch c" "failed (set_lane l s c) = failed c"
  by (cases l; simp add: set_remote_def)+

lemma get_lane_update [simp]:
  "get_lane (c\<lparr>pending := x\<rparr>) l = get_lane c l" "get_lane (c\<lparr>ordered := y\<rparr>) l = get_lane c l"
  "get_lane (c\<lparr>next_batch_id := z\<rparr>) l = get_lane c l" "get_lane (c\<lparr>failed := w\<rparr>) l = get_lane c l"
  "get_lane (fail c) l = get_lane c l"
  by (cases l; simp add: fail_def)+

lemma get_set_lane:
  "hm_wf (remotes c) \<Longrightarrow> get_lane (set_lane l s c) l' = (if l' = l then Some s else get_lane c l')"
  by (cases l; cases l') (auto simp: set_remote_def)

lemma wf_set_lane: "hm_wf (remotes c) \<Longrightarrow> hm_wf (remotes (set_lane l s c))"
  by (cases l) (auto simp: set_remote_def)

lemma fail_fields [simp]:
  "pending (fail c) = []" "ordered (fail c) = ordered c" "batch_size (fail c) = batch_size c"
  "next_batch_id (fail c) = next_batch_id c" "prefetch (fail c) = prefetch c" "failed (fail c)"
  "remotes (fail c) = remotes c" "root_lane (fail c) = root_lane c"
  by (simp_all add: fail_def)

lemma outstanding_update [simp]:
  "outstanding (c\<lparr>pending := x\<rparr>) = outstanding c" "outstanding (c\<lparr>ordered := y\<rparr>) = outstanding c"
  "outstanding (c\<lparr>next_batch_id := z\<rparr>) = outstanding c" "outstanding (fail c) = outstanding c"
  by (simp_all add: outstanding_def fail_def)

lemma outstanding_set_lane:
  "get_lane c l = Some s \<Longrightarrow> outstanding (set_lane l s' c) + lane_mset s = outstanding c + lane_mset s'"
  using hm_sum_replace [of "remotes c" _ s lane_mset s']
  by (cases l) (auto simp: outstanding_def set_remote_def union_ac)

lemma lane_assign_mset:
  "lane_assign pref l md s = Some s' \<Longrightarrow> lane_mset s' = lane_mset s + mset (original_indices md)"
  by (cases "(pref, l, md, s)" rule: lane_assign.cases) (auto simp: lane_mset_def split: if_splits)

lemma lane_stop_mset: "lane_stop pref l s = Some s' \<Longrightarrow> lane_mset s' = lane_mset s"
  by (cases "(pref, l, s)" rule: lane_stop.cases) (auto simp: lane_mset_def split: if_splits)

lemma lane_finish_mset:
  "lane_finish s = Some (m, s') \<Longrightarrow> lane_mset s = mset (original_indices m) + lane_mset s'"
  by (cases s rule: lane_finish.cases) (auto simp: lane_mset_def)

lemma lane_mset_inactive [simp]: "lane_mset LaneStopped = {#}" "lane_mset LaneDrained = {#}" "lane_mset LaneIdle = {#}"
  by (simp_all add: lane_mset_def)

lemma lane_assign_ok:
  "lane_assign pref l md s = Some s' \<Longrightarrow> lane_ok pref l s \<Longrightarrow> lane_ok pref l s'"
  by (cases "(pref, l, md, s)" rule: lane_assign.cases) (auto split: if_splits; cases l; simp)+

lemma lane_stop_ok: "lane_stop pref l s = Some s' \<Longrightarrow> lane_ok pref l s \<Longrightarrow> lane_ok pref l s'"
  by (cases "(pref, l, s)" rule: lane_stop.cases) (auto split: if_splits; cases l; simp)+

lemma lane_finish_ok:
  "lane_finish s = Some (m, s') \<Longrightarrow> lane_ok pref l s \<Longrightarrow> lane_ok pref l s'"
  by (cases s rule: lane_finish.cases; cases l) auto

lemma lanes_inv_set_lane:
  "lanes_inv c \<Longrightarrow> lane_ok (prefetch c) l s \<Longrightarrow> lanes_inv (set_lane l s c)"
  by (auto simp: lanes_inv_def wf_set_lane get_set_lane)

lemma lanes_inv_update [simp]:
  "lanes_inv (c\<lparr>pending := x\<rparr>) = lanes_inv c" "lanes_inv (c\<lparr>ordered := y\<rparr>) = lanes_inv c"
  "lanes_inv (c\<lparr>next_batch_id := z\<rparr>) = lanes_inv c" "lanes_inv (fail c) = lanes_inv c"
  by (simp_all add: lanes_inv_def)

lemma lanes_invD: "lanes_inv c \<Longrightarrow> get_lane c l = Some s \<Longrightarrow> lane_ok (prefetch c) l s"
  by (simp add: lanes_inv_def)

lemma sched_trans_lanes_inv: "sched_trans c a c' \<Longrightarrow> lanes_inv c \<Longrightarrow> lanes_inv c'"
proof (induction rule: sched_trans.induct)
  case (dispatch c b ys nid l s s')
  let ?c = "c\<lparr>pending := ys, next_batch_id := nid\<rparr>"
  have "lane_ok (prefetch ?c) l s'"
    using dispatch lanes_invD [of c l s] by (auto intro: lane_assign_ok)
  then show ?case
    using dispatch.prems by (intro lanes_inv_set_lane) auto
next
  case (stop c l s s')
  then show ?case
    by (auto intro!: lanes_inv_set_lane intro: lane_stop_ok lanes_invD)
next
  case (finish c l s m s' rs ord)
  then show ?case
    by (auto intro!: lanes_inv_set_lane intro: lane_finish_ok lanes_invD)
next
  case (fault c l s m s')
  then show ?case
    by (auto intro!: lanes_inv_set_lane intro: lane_finish_ok lanes_invD)
next
  case (drain c rank)
  then show ?case
    by (intro lanes_inv_set_lane) auto
qed

subsection \<open>Accounting of indices\<close>

lemma filled_fill:
  assumes "i < length ord" "ord ! i = None"
  shows "filled (ord[i := Some v]) = add_mset i (filled ord)"
proof -
  have "{j. j < length (ord[i := Some v]) \<and> ord[i := Some v] ! j \<noteq> None}
      = insert i {j. j < length ord \<and> ord ! j \<noteq> None}"
    using assms by (auto simp: nth_list_update)
  then show ?thesis
    using assms by (simp add: filled_def)
qed

lemma in_filled: "i \<in># filled ord \<longleftrightarrow> i < length ord \<and> ord ! i \<noteq> None"
  by (simp add: filled_def)

lemma subseteq_mset_set_disjoint:
  assumes "add_mset i A + B \<subseteq># mset_set S"
  shows "i \<notin># A" "i \<notin># B" "i \<in> S"
proof -
  have "count (add_mset i A + B) i \<le> count (mset_set S) i"
    using assms by (rule mset_subset_eq_count)
  moreover have "count (mset_set S) i \<le> 1"
    by (cases "finite S"; cases "i \<in> S") auto
  ultimately show "i \<notin># A" "i \<notin># B" "i \<in> S"
    by (auto simp: not_in_iff count_mset_set' split: if_splits)
qed

lemma store_results_filled:
  "mset (map result_index rs) + filled ord \<subseteq># mset_set {0..<length ord}
     \<Longrightarrow> store_results ord rs = Ok ord'
     \<Longrightarrow> filled ord' = filled ord + mset (map result_index rs)"
proof (induction rs arbitrary: ord)
  case Nil
  then show ?case by simp
next
  case (Cons r rs)
  let ?i = "result_index r"
  let ?o = "ord[?i := Some (result_value r)]"
  have sub: "add_mset ?i (mset (map result_index rs)) + filled ord \<subseteq># mset_set {0..<length ord}"
    using Cons.prems(1) by simp
  have "?i \<notin># filled ord" "?i < length ord"
    using subseteq_mset_set_disjoint(2,3) [OF sub] by auto
  then have fill: "filled ?o = add_mset ?i (filled ord)"
    by (intro filled_fill) (auto simp: in_filled)
  have "filled ord' = filled ?o + mset (map result_index rs)"
    using Cons.prems sub fill by (intro Cons.IH) (auto split: if_splits)
  then show ?case using fill by simp
qed

lemma store_results_length: "store_results ord rs = Ok ord' \<Longrightarrow> length ord' = length ord"
  by (induction ord rs rule: store_results.induct) (auto split: if_splits)

text \<open>A coordinator whose queue and lanes are accounted for: what one step does to the sum.\<close>

lemma account_move:
  assumes "get_lane c l = Some s" "lane_mset s' + x = lane_mset s + y"
  shows "outstanding (set_lane l s' c) + x = outstanding c + y"
proof -
  have "outstanding (set_lane l s' c) + lane_mset s + x = outstanding c + lane_mset s' + x"
    using outstanding_set_lane [OF assms(1), of s'] by simp
  also have "\<dots> = outstanding c + lane_mset s + y"
    using assms(2) by (simp add: union_ac)
  finally show ?thesis by (simp add: union_ac)
qed

lemma account_keep:
  assumes "account_inv items c" "queued c' + outstanding c' + filled (ordered c')
      = queued c + outstanding c + filled (ordered c)" "failed c' = failed c"
  shows "account_inv items c'"
  using assms by (simp add: account_inv_def)

lemma account_drop:
  assumes "account_inv items c" "queued c' + outstanding c' + filled (ordered c')
      \<subseteq># queued c + outstanding c + filled (ordered c)" "failed c'"
  shows "account_inv items c'"
  using assms by (auto simp: account_inv_def intro: subset_mset.order_trans)

lemma queued_simps [simp]:
  "queued (set_lane l s c) = queued c" "queued (c\<lparr>ordered := y\<rparr>) = queued c"
  "queued (c\<lparr>next_batch_id := z\<rparr>) = queued c" "queued (fail c) = {#}"
  "queued (c\<lparr>pending := x\<rparr>) = mset (map original_index x)"
  by (simp_all add: queued_def)

lemma metadata_indices [simp]: "original_indices (metadata b) = map original_index (b_items b)"
  by (simp add: metadata_def)

lemma account_finish:
  assumes acc: "account_inv items c" and len: "length (ordered c) = length items"
    and lane: "get_lane c l = Some s" and fin: "lane_finish s = Some (m, s')"
    and idx: "map result_index rs = original_indices m"
    and ord: "if failed c then ord = ordered c else store_results (ordered c) rs = Ok ord"
  shows "account_inv items (set_lane l s' c\<lparr>ordered := ord\<rparr>)"
proof -
  let ?is = "mset (original_indices m)"
  have out: "outstanding (set_lane l s' c) + ?is = outstanding c"
    using account_move [OF lane, of s' ?is "{#}"] lane_finish_mset [OF fin] by (simp add: union_ac)
  show ?thesis
  proof (cases "failed c")
    case True
    with ord have "queued (set_lane l s' c\<lparr>ordered := ord\<rparr>)
        + outstanding (set_lane l s' c\<lparr>ordered := ord\<rparr>) + filled ord
      \<subseteq># queued c + outstanding c + filled (ordered c)"
      using out [symmetric] by (simp add: union_ac)
    with acc True show ?thesis
      by (intro account_drop [OF acc]) auto
  next
    case False
    have "?is + filled (ordered c) \<subseteq># queued c + outstanding c + filled (ordered c)"
      unfolding out [symmetric] by (metis mset_subset_eq_add_right union_commute union_lcomm)
    then have "mset (map result_index rs) + filled (ordered c) \<subseteq># mset_set {0..<length (ordered c)}"
      using acc len unfolding idx account_inv_def by (metis subset_mset.order_trans)
    with ord False have "filled ord = filled (ordered c) + ?is"
      using store_results_filled [of rs "ordered c" ord] idx by auto
    then show ?thesis
      using out by (intro account_keep [OF acc]) (simp_all add: union_ac)
  qed
qed

lemma sched_trans_account_inv:
  "sched_trans c a c' \<Longrightarrow> length (ordered c) = length items \<Longrightarrow> account_inv items c
     \<Longrightarrow> account_inv items c'"
proof (induction rule: sched_trans.induct)
  case (dispatch c b ys nid l s s')
  let ?is = "mset (map original_index (b_items b))"
  let ?c = "c\<lparr>pending := ys, next_batch_id := nid\<rparr>"
  have "outstanding (set_lane l s' ?c) = outstanding c + ?is"
    using account_move [of ?c l s s' "{#}" ?is] dispatch lane_assign_mset by fastforce
  moreover have "queued c = ?is + mset (map original_index ys)"
    using dispatch by (simp add: queued_def)
  ultimately show ?case
    by (intro account_keep [OF dispatch.prems(2)]) (simp_all add: union_ac)
next
  case (stop c l s s')
  have "outstanding (set_lane l s' c) = outstanding c"
    using account_move [of c l s s' "{#}" "{#}"] stop lane_stop_mset by fastforce
  then show ?case
    by (intro account_keep [OF stop.prems(2)]) simp_all
next
  case (finish c l s m s' rs ord)
  then show ?case by (intro account_finish) auto
next
  case (fault c l s m s')
  let ?is = "mset (original_indices m)"
  have "outstanding (set_lane l s' c) + ?is = outstanding c"
    using account_move [OF fault(1), of s' ?is "{#}"] lane_finish_mset [OF fault(2)] by (simp add: union_ac)
  then have "outstanding (set_lane l s' c) \<subseteq># queued c + outstanding c"
    by (metis mset_subset_eq_add_left mset_subset_eq_add_right subset_mset.order_trans)
  then show ?case
    by (intro account_drop [OF fault.prems(2)]) simp_all
next
  case (drain c rank)
  have "outstanding (set_lane (Remote rank) LaneDrained c) = outstanding c"
    using account_move [OF drain(1), of LaneDrained "{#}" "{#}"] by simp
  then show ?case
    by (intro account_keep [OF drain.prems(2)]) (simp_all del: set_lane.simps)
qed

lemma length_number_items [simp]: "length (number_items items) = length items"
  by (simp add: number_items_def)

lemma checked_increment_Ok:
  "checked_increment b = Ok nid \<longleftrightarrow>
     unat (batch_id_get b) + 1 < 2 ^ 64 \<and> nid = BatchId (batch_id_get b + 1)"
  by (auto simp: checked_increment_def checked_add_u64_Some)

lemma checked_increment_unat:
  "checked_increment b = Ok nid \<Longrightarrow> unat (batch_id_get nid) = unat (batch_id_get b) + 1"
  using unat_add_u64 [of "batch_id_get b" 1] by (auto simp: checked_increment_Ok)

lemma sched_trans_items_inv: "sched_trans c a c' \<Longrightarrow> items_inv items c \<Longrightarrow> items_inv items c'"
proof (induction rule: sched_trans.induct)
  case (dispatch c b ys nid l s s')
  have inv: "length (ordered c) = length items" "0 < batch_size c"
    "unat (batch_id_get (next_batch_id c)) + length (pending c) \<le> length items"
    using dispatch.prems by (simp_all add: items_inv_def)
  obtain k where k: "pending c = drop k (number_items items)"
    using dispatch.prems by (auto simp: items_inv_def)
  have "ys = drop (length (b_items b)) (pending c)"
    using dispatch(2) by simp
  then have ys: "ys = drop (length (b_items b) + k) (number_items items)"
    by (simp only: k drop_drop)
  have "length ys + 1 \<le> length (pending c)"
    using dispatch(2,3) by (cases "b_items b") auto
  then have "unat (batch_id_get nid) + length ys \<le> length items"
    using inv(3) checked_increment_unat [OF dispatch(6)] by linarith
  then show ?case
    using inv(1,2) dispatch(1) ys unfolding items_inv_def by (intro conjI exI) simp_all
next
  case (fault c l s m s')
  have "[] = drop (length items) (number_items items)" by simp
  then show ?case
    using fault by (auto simp: items_inv_def)
qed (auto simp: items_inv_def set_remote_def dest: store_results_length split: if_splits)

lemma items_inv_length: "items_inv items c \<Longrightarrow> length (ordered c) = length items"
  by (simp add: items_inv_def)

lemma set_remote_fields [simp]:
  "root_lane (set_remote k s c) = root_lane c" "pending (set_remote k s c) = pending c"
  "failed (set_remote k s c) = failed c"
  by (simp_all add: set_remote_def)

lemma root_lane_set_lane: "root_lane (set_lane l s c) = (if l = Root then s else root_lane c)"
  by (cases l) auto

lemma lane_assign_running: "lane_assign pref l md s = Some s' \<Longrightarrow> s' \<noteq> LaneStopped"
  by (cases "(pref, l, md, s)" rule: lane_assign.cases) (auto split: if_splits)

lemma lane_finish_root: "lane_finish s = Some (m, s') \<Longrightarrow> root_ok s \<Longrightarrow> s' = LaneIdle"
  by (cases s rule: lane_finish.cases) auto

lemma sched_trans_rest_inv:
  "sched_trans c a c' \<Longrightarrow> lanes_inv c \<Longrightarrow> items_inv items c \<Longrightarrow> rest_inv c \<Longrightarrow> rest_inv c'"
proof (induction rule: sched_trans.induct)
  case (dispatch c b ys nid l s s')
  then show ?case
    by (auto simp: rest_inv_def root_lane_set_lane dest: lane_assign_running split: if_splits)
next
  case (stop c l s s')
  then show ?case
    by (cases l) (auto simp: rest_inv_def items_inv_def)
next
  case (finish c l s m s' rs ord)
  then show ?case
    using lanes_invD [of c l s] by (cases l) (auto simp: rest_inv_def dest: lane_finish_root)
next
  case (fault c l s m s')
  then show ?case by (simp add: rest_inv_def)
next
  case (drain c rank)
  then show ?case by (simp add: rest_inv_def)
qed

lemma sched_trans_inv: "sched_trans c a c' \<Longrightarrow> sched_inv items c \<Longrightarrow> sched_inv items c'"
  using sched_trans_lanes_inv [of c a c'] sched_trans_account_inv [of c a c' items]
    sched_trans_items_inv [of c a c' items] sched_trans_rest_inv [of c a c' items]
  by (simp add: sched_inv_def items_inv_length)

subsection \<open>The operations implement the specification\<close>

lemma validate_results_Ok:
  "pos + length rs = length inds \<Longrightarrow>
     validate_results ord inds seen pos rs = Ok u \<longleftrightarrow>
       map result_index rs = drop pos inds \<and> distinct (map result_index rs)
         \<and> (\<forall>r\<in>set rs. result_index r \<notin> set seen \<and> result_index r < length ord
               \<and> ord ! result_index r = None)"
proof (induction rs arbitrary: pos seen)
  case Nil
  then show ?case by simp
next
  case (Cons r rs)
  let ?i = "result_index r"
  have drop: "drop pos inds = inds ! pos # drop (Suc pos) inds"
    using Cons.prems by (simp add: Cons_nth_drop_Suc)
  have step: "validate_results ord inds seen pos (r # rs) = Ok u \<longleftrightarrow>
      ?i < length ord \<and> ?i \<notin> set seen \<and> inds ! pos = ?i \<and> ord ! ?i = None
        \<and> validate_results ord inds (?i # seen) (Suc pos) rs = Ok u"
    using Cons.prems by (simp add: Let_def)
  have "Suc pos + length rs = length inds"
    using Cons.prems by simp
  note IH = Cons.IH [OF this, of "?i # seen"]
  show ?case
    unfolding step IH drop by (auto simp: image_iff)
qed

lemma validate_results_no_panic:
  "pos + length rs \<le> length inds \<Longrightarrow> validate_results ord inds seen pos rs \<noteq> Err Panic"
  by (induction rs arbitrary: pos seen) (auto simp: Let_def)

lemma validate_completion_Ok:
  "validate_completion c m bid rs = Ok u \<longleftrightarrow>
     rm_batch_id m = bid \<and> map result_index rs = original_indices m
       \<and> distinct (original_indices m)
       \<and> (\<forall>i\<in>set (original_indices m). i < length (ordered c) \<and> ordered c ! i = None)"
proof (cases "length (original_indices m) = length rs")
  case True
  then have results: "validate_results (ordered c) (original_indices m) [] 0 rs = Ok u \<longleftrightarrow>
      map result_index rs = original_indices m \<and> distinct (map result_index rs)
        \<and> (\<forall>i\<in>set (map result_index rs). i < length (ordered c) \<and> ordered c ! i = None)"
    by (subst validate_results_Ok) simp_all
  have "validate_completion c m bid rs = Ok u \<longleftrightarrow>
      rm_batch_id m = bid \<and> validate_results (ordered c) (original_indices m) [] 0 rs = Ok u"
    using True by (simp add: validate_completion_def)
  then show ?thesis
    unfolding results by (cases "map result_index rs = original_indices m") (simp_all del: set_map)
next
  case False
  then have "map result_index rs \<noteq> original_indices m"
    by (metis length_map)
  with False show ?thesis by (simp add: validate_completion_def)
qed

lemma validate_completion_no_panic: "validate_completion c m bid rs \<noteq> Err Panic"
  using validate_results_no_panic [of 0 rs "original_indices m" "ordered c" "[]"]
  by (auto simp: validate_completion_def)

lemma validate_completion_Err: "validate_completion c m bid rs = Err e \<Longrightarrow> \<exists>e'. e = Fail e'"
  using validate_completion_no_panic [of c m bid rs] by (cases e) auto

lemma store_results_total:
  "\<forall>r\<in>set rs. result_index r < length ord \<Longrightarrow> \<exists>ord'. store_results ord rs = Ok ord'"
  by (induction ord rs rule: store_results.induct) auto

lemma set_lane_same_ordered [simp]: "set_lane l s c\<lparr>ordered := ordered c\<rparr> = set_lane l s c"
  by (cases l) (simp_all add: set_remote_def)

lemma record_results_trans:
  assumes "get_lane c l = Some s" "lane_finish s = Some (m, s')" "validate_completion c m bid rs = Ok u"
  shows "\<exists>c'. record_results (set_lane l s' c) rs cm = (c', Ok cm) \<and> sched_trans c (LDone l rs) c'"
proof (cases "failed c")
  case True
  then have "sched_trans c (LDone l rs) (set_lane l s' c\<lparr>ordered := ordered c\<rparr>)"
    using assms by (intro sched_trans.finish) (auto simp: validate_completion_Ok)
  with True show ?thesis by (simp add: record_results_def)
next
  case False
  have "\<forall>r\<in>set rs. result_index r < length (ordered c)"
    using assms(3) unfolding validate_completion_Ok by (metis image_eqI list.set_map)
  then obtain ord where ord: "store_results (ordered c) rs = Ok ord"
    using store_results_total by blast
  then have "sched_trans c (LDone l rs) (set_lane l s' c\<lparr>ordered := ord\<rparr>)"
    using assms False by (intro sched_trans.finish) (auto simp: validate_completion_Ok)
  with False ord show ?thesis by (simp add: record_results_def)
qed

fun explains :: "'u event \<Rightarrow> 't batch option \<Rightarrow> ('t, 'u) label \<Rightarrow> bool" where
  "explains RootNext (Some b) a \<longleftrightarrow> a = LDispatch Root b"
| "explains RootNext None a \<longleftrightarrow> a = LStop Root"
| "explains (Ready k) (Some b) a \<longleftrightarrow> a = LDispatch (Remote k) b"
| "explains (Ready k) None a \<longleftrightarrow> a = LStop (Remote k)"
| "explains (RootOk bid rs) ob a \<longleftrightarrow> ob = None \<and> a = LDone Root rs"
| "explains (RemoteOk k bid rs) ob a \<longleftrightarrow> ob = None \<and> a = LDone (Remote k) rs"
| "explains (RootErr bid) ob a \<longleftrightarrow> ob = None \<and> a = LFault Root"
| "explains (RemoteErr k bid) ob a \<longleftrightarrow> ob = None \<and> a = LFault (Remote k)"
| "explains (RemoteProtocolErr k) ob a \<longleftrightarrow> ob = None \<and> a = LFault (Remote k)"
| "explains (Drain k) ob a \<longleftrightarrow> ob = None \<and> a = LDrain k"

text \<open>What one method call may do: fail and change nothing, find the root lane already
  stopped, or make exactly the abstract step that its answer describes.\<close>

definition refines_step ::
  "('t, 'u) coordinator \<Rightarrow> 'u event \<Rightarrow> ('t, 'u) coordinator \<Rightarrow> 't batch option sched_result \<Rightarrow> bool"
where
  "refines_step c e c' r \<longleftrightarrow>
     (\<exists>err. r = Err (Fail err)) \<and> c' = c
       \<or> (e = RootNext \<and> root_lane c = LaneStopped \<and> r = Ok None \<and> c' = c)
       \<or> (\<exists>ob a. r = Ok ob \<and> explains e ob a \<and> sched_trans c a c')"

end
