(* ===== verification/SchedulerRun.thy ===== *)
theory SchedulerRun
  imports Scheduler
begin

text \<open>
  The methods of the batch coordinator implement the abstract lane machine of
  \<open>Scheduler\<close>, and what follows for whole runs: the invariant, which items are handed
  out, what the collected results are, termination and absence of deadlock.
\<close>

subsection \<open>Each method makes one abstract step\<close>

lemma make_batch_cases:
  assumes "\<not> failed c" "pending c \<noteq> []" "0 < batch_size c"
  obtains (overflow) e where "make_batch c = (c, Err e)"
  | (batch) b ys nid where "make_batch c = (c\<lparr>pending := ys, next_batch_id := nid\<rparr>, Ok (Some b))"
      "pending c = b_items b @ ys" "b_items b \<noteq> []"
      "length (b_items b) = min (batch_size c) (length (pending c))"
      "b_id b = next_batch_id c" "checked_increment (next_batch_id c) = Ok nid"
proof (cases "checked_increment (next_batch_id c)")
  case (Inl e)
  with assms have "make_batch c = (c, Err e)" by (simp add: make_batch_def)
  then show ?thesis by (rule overflow)
next
  case (Inr nid)
  let ?n = "min (batch_size c) (length (pending c))"
  let ?b = "\<lparr>b_id = next_batch_id c, b_items = take ?n (pending c)\<rparr>"
  have "make_batch c = (c\<lparr>pending := drop ?n (pending c), next_batch_id := nid\<rparr>, Ok (Some ?b))"
    using assms Inr by (simp add: make_batch_def Let_def)
  then show ?thesis
    by (rule batch) (use assms Inr in \<open>auto simp: min_def\<close>)
qed

lemma refines_fail [intro!]: "refines_step c e c (Err (Fail err))"
  by (simp add: refines_step_def)

lemma refines_trans [intro!]:
  "sched_trans c (LDispatch Root b) c' \<Longrightarrow> refines_step c RootNext c' (Ok (Some b))"
  "sched_trans c (LStop Root) c' \<Longrightarrow> refines_step c RootNext c' (Ok None)"
  "sched_trans c (LDispatch (Remote k) b) c' \<Longrightarrow> refines_step c (Ready k) c' (Ok (Some b))"
  "sched_trans c (LStop (Remote k)) c' \<Longrightarrow> refines_step c (Ready k) c' (Ok None)"
  "sched_trans c (LDone Root rs) c' \<Longrightarrow> refines_step c (RootOk bid rs) c' (Ok None)"
  "sched_trans c (LDone (Remote k) rs) c' \<Longrightarrow> refines_step c (RemoteOk k bid rs) c' (Ok None)"
  "sched_trans c (LFault Root) c' \<Longrightarrow> refines_step c (RootErr bid) c' (Ok None)"
  "sched_trans c (LFault (Remote k)) c' \<Longrightarrow> refines_step c (RemoteErr k bid) c' (Ok None)"
  "sched_trans c (LFault (Remote k)) c' \<Longrightarrow> refines_step c (RemoteProtocolErr k) c' (Ok None)"
  "sched_trans c (LDrain k) c' \<Longrightarrow> refines_step c (Drain k) c' (Ok None)"
  by (auto simp: refines_step_def)

lemma next_root_batch_refines:
  assumes "root_ok (root_lane c)" "0 < batch_size c" "next_root_batch c = (c', r)"
  shows "refines_step c RootNext c' r"
proof (cases "root_lane c")
  case LaneIdle
  show ?thesis
  proof (cases "failed c \<or> pending c = []")
    case True
    then have "sched_trans c (LStop Root) (set_lane Root LaneStopped c)"
      using LaneIdle by (intro sched_trans.stop) auto
    with True LaneIdle assms(3) show ?thesis
      by (auto simp: next_root_batch_def)
  next
    case False
    then have "\<not> failed c" "pending c \<noteq> []" by auto
    then show ?thesis
      using assms(2)
    proof (cases rule: make_batch_cases)
      case overflow
      with False LaneIdle assms(3) show ?thesis
        by (auto simp: next_root_batch_def)
    next
      case (batch b ys nid)
      have "sched_trans c (LDispatch Root b)
          (set_lane Root (LaneRunning (metadata b) None False) (c\<lparr>pending := ys, next_batch_id := nid\<rparr>))"
        using batch False LaneIdle by (intro sched_trans.dispatch) auto
      with batch(1) False LaneIdle assms(3) show ?thesis
        by (auto simp: next_root_batch_def)
    qed
  qed
qed (use assms in \<open>auto simp: next_root_batch_def refines_step_def\<close>)

lemma prefetch_request_stop:
  "prefetch_request pref s = Ok pre \<Longrightarrow> \<exists>t t'. s = Some t \<and> lane_stop pref (Remote k) t = Some t'
     \<and> (if pre then mark_stopping s = Ok t' else t' = LaneStopped)"
  by (cases "(pref, s)" rule: prefetch_request.cases) (auto split: if_splits)

lemma prefetch_request_assign:
  "prefetch_request pref s = Ok pre \<Longrightarrow> \<exists>t t'. s = Some t \<and> lane_assign pref (Remote k) md t = Some t'
     \<and> (if pre then mark_prefetched md s = Ok t' else t' = LaneRunning md None False)"
  by (cases "(pref, s)" rule: prefetch_request.cases) (auto split: if_splits)

lemma on_remote_ready_refines:
  assumes "0 < batch_size c" "on_remote_ready c k = (c', r)"
  shows "refines_step c (Ready k) c' (res_bind r (\<lambda>d. Ok (dispatched d)))"
proof (cases "prefetch_request (prefetch c) (hm_get (remotes c) k)")
  case (Inl e)
  with assms(2) show ?thesis
    by (auto simp: on_remote_ready_def)
next
  case (Inr pre)
  show ?thesis
  proof (cases "failed c \<or> pending c = []")
    case True
    obtain t t' where t: "hm_get (remotes c) k = Some t" "lane_stop (prefetch c) (Remote k) t = Some t'"
        "if pre then mark_stopping (Some t) = Ok t' else t' = LaneStopped"
      using prefetch_request_stop [OF Inr, of k] by metis
    have "sched_trans c (LStop (Remote k)) (set_lane (Remote k) t' c)"
      using True t by (intro sched_trans.stop) auto
    with Inr True t assms(2) show ?thesis
      by (auto simp: on_remote_ready_def split: if_splits)
  next
    case False
    then have "\<not> failed c" "pending c \<noteq> []" by auto
    then show ?thesis
      using assms(1)
    proof (cases rule: make_batch_cases)
      case overflow
      with Inr False assms(2) show ?thesis
        by (auto simp: on_remote_ready_def)
    next
      case (batch b ys nid)
      obtain t t' where t: "hm_get (remotes c) k = Some t"
          "lane_assign (prefetch c) (Remote k) (metadata b) t = Some t'"
          "if pre then mark_prefetched (metadata b) (Some t) = Ok t'
           else t' = LaneRunning (metadata b) None False"
        using prefetch_request_assign [OF Inr, of k "metadata b"] by metis
      have "sched_trans c (LDispatch (Remote k) b)
          (set_lane (Remote k) t' (c\<lparr>pending := ys, next_batch_id := nid\<rparr>))"
        using batch False t by (intro sched_trans.dispatch) auto
      with Inr False t batch(1) assms(2) show ?thesis
        by (auto simp: on_remote_ready_def split: if_splits)
    qed
  qed
qed

lemma on_root_success_refines:
  assumes "on_root_success c bid rs = (c', r)"
  shows "refines_step c (RootOk bid rs) c' (no_batch r)"
proof (cases "res_bind (root_current (root_lane c)) (\<lambda>m. validate_completion c m bid rs)")
  case (Inl e)
  then have "\<exists>e'. e = Fail e'"
    by (cases "root_lane c" rule: root_current.cases) (auto dest: validate_completion_Err)
  with Inl assms show ?thesis
    by (auto simp: on_root_success_def)
next
  case (Inr u)
  then obtain m where m: "root_lane c = LaneRunning m None False" "validate_completion c m bid rs = Ok u"
    by (cases "root_lane c" rule: root_current.cases) auto
  then obtain d where "record_results (set_lane Root LaneIdle c) rs \<lparr>cm_lane = Root, cm_batch_id = bid\<rparr>
      = (d, Ok \<lparr>cm_lane = Root, cm_batch_id = bid\<rparr>)" "sched_trans c (LDone Root rs) d"
    using record_results_trans [of c Root _ m LaneIdle bid rs u] by fastforce
  with Inr assms show ?thesis
    by (auto simp: on_root_success_def)
qed

lemma advance_remote_finish:
  "remote_current s = Ok m \<Longrightarrow> remote_ok pref (the s) \<Longrightarrow>
     \<exists>t t'. s = Some t \<and> advance_remote s = Ok t' \<and> lane_finish t = Some (m, t')"
  by (cases s rule: advance_remote.cases) auto

lemma remote_current_Err: "remote_current s = Err e \<Longrightarrow> \<exists>e'. e = Fail e'"
  by (cases s rule: remote_current.cases) auto

lemma on_remote_success_refines:
  assumes "lanes_inv c" "on_remote_success c k bid rs = (c', r)"
  shows "refines_step c (RemoteOk k bid rs) c' (no_batch r)"
proof (cases "res_bind (remote_current (hm_get (remotes c) k)) (\<lambda>m. validate_completion c m bid rs)")
  case (Inl e)
  then have "\<exists>e'. e = Fail e'"
    by (auto simp: res_bind_Err_iff dest: validate_completion_Err remote_current_Err)
  with Inl assms show ?thesis
    by (auto simp: on_remote_success_def)
next
  case (Inr u)
  then obtain m where m: "remote_current (hm_get (remotes c) k) = Ok m" "validate_completion c m bid rs = Ok u"
    by auto
  then obtain t where "hm_get (remotes c) k = Some t" by (cases "hm_get (remotes c) k") auto
  then obtain t t' where t: "hm_get (remotes c) k = Some t" "advance_remote (Some t) = Ok t'"
      "lane_finish t = Some (m, t')"
    using advance_remote_finish [OF m(1), of "prefetch c"] lanes_invD [OF assms(1), of "Remote k" t] by auto
  let ?cm = "\<lparr>cm_lane = Remote k, cm_batch_id = bid\<rparr>"
  obtain d where "record_results (set_lane (Remote k) t' c) rs ?cm = (d, Ok ?cm)"
      "sched_trans c (LDone (Remote k) rs) d"
    using record_results_trans [of c "Remote k" t m t' bid rs u] t m(2) by fastforce
  with Inr t assms(2) show ?thesis
    by (auto simp: on_remote_success_def)
qed

lemma on_root_error_refines:
  assumes "on_root_error c bid = (c', r)"
  shows "refines_step c (RootErr bid) c' (no_batch r)"
proof (cases "root_current (root_lane c)")
  case (Inl e)
  then have "\<exists>e'. e = Fail e'"
    by (cases "root_lane c" rule: root_current.cases) auto
  with Inl assms show ?thesis
    by (auto simp: on_root_error_def)
next
  case (Inr m)
  then have "root_lane c = LaneRunning m None False"
    by (cases "root_lane c" rule: root_current.cases) auto
  then have "sched_trans c (LFault Root) (fail (set_lane Root LaneIdle c))"
    by (intro sched_trans.fault) auto
  with Inr assms show ?thesis
    by (auto simp: on_root_error_def split: if_splits)
qed

text \<open>The two ways a remote batch fails share the lane's step.\<close>

lemma remote_fault:
  assumes "lanes_inv c" "remote_current (hm_get (remotes c) k) = Ok m"
  shows "\<exists>t'. advance_remote (hm_get (remotes c) k) = Ok t'
    \<and> sched_trans c (LFault (Remote k)) (fail (set_remote k t' c))"
proof -
  obtain t where "hm_get (remotes c) k = Some t"
    using assms(2) by (cases "hm_get (remotes c) k") auto
  then obtain t' where t: "hm_get (remotes c) k = Some t" "advance_remote (Some t) = Ok t'"
      "lane_finish t = Some (m, t')"
    using advance_remote_finish [OF assms(2), of "prefetch c"] lanes_invD [OF assms(1), of "Remote k" t]
    by auto
  then have "sched_trans c (LFault (Remote k)) (fail (set_lane (Remote k) t' c))"
    by (intro sched_trans.fault) auto
  with t show ?thesis by auto
qed

lemma on_remote_error_refines:
  assumes "lanes_inv c" "on_remote_error c k bid = (c', r)"
  shows "refines_step c (RemoteErr k bid) c' (no_batch r)"
proof (cases "remote_current (hm_get (remotes c) k)")
  case (Inl e)
  with assms(2) show ?thesis
    by (auto simp: on_remote_error_def dest!: remote_current_Err)
next
  case (Inr m)
  with remote_fault [OF assms(1), of k m] assms(2) show ?thesis
    by (auto simp: on_remote_error_def split: if_splits)
qed

lemma on_remote_protocol_error_refines:
  assumes "lanes_inv c" "on_remote_protocol_error c k = (c', r)"
  shows "refines_step c (RemoteProtocolErr k) c' (no_batch r)"
proof (cases "remote_current (hm_get (remotes c) k)")
  case (Inl e)
  with assms(2) show ?thesis
    by (auto simp: on_remote_protocol_error_def dest!: remote_current_Err)
next
  case (Inr m)
  with remote_fault [OF assms(1), of k m] assms(2) show ?thesis
    by (auto simp: on_remote_protocol_error_def)
qed

lemma lane_kind_stopped [simp]: "lane_kind s = KStopped \<longleftrightarrow> s = LaneStopped"
  by (cases s) auto

lemma on_remote_drain_refines:
  "on_remote_drain c k = (c', r) \<Longrightarrow> refines_step c (Drain k) c' (no_batch r)"
  using sched_trans.drain [of c k]
  by (auto simp: on_remote_drain_def split: option.splits if_splits     )

lemma sched_step_refines:
  assumes "lanes_inv c" "0 < batch_size c" "sched_step c e = (c', r)"
  shows "refines_step c e c' r"
proof (cases e)
  case RootNext
  with assms lanes_invD [OF assms(1), of Root] show ?thesis
    by (auto intro: next_root_batch_refines)
qed (use assms in \<open>auto simp: map_prod_def split: prod.splits
      intro: on_remote_ready_refines on_root_success_refines on_remote_success_refines
        on_root_error_refines on_remote_error_refines on_remote_protocol_error_refines
        on_remote_drain_refines\<close>)

subsection \<open>Construction establishes the invariant\<close>

lemma enqueue_items_Ok:
  "enqueue_items i vs = Ok p \<Longrightarrow>
     p = map (\<lambda>j. \<lparr>original_index = i + j, item_value = vs ! j\<rparr>) [0..<length vs]"
proof (induction vs arbitrary: i p)
  case Nil
  then show ?case by simp
next
  case (Cons v vs)
  then obtain q where q: "enqueue_items (Suc i) vs = Ok q" "p = \<lparr>original_index = i, item_value = v\<rparr> # q"
    by (auto split: if_splits)
  show ?case
    unfolding q(2) Cons.IH [OF q(1)] by (rule nth_equalityI) (auto simp: nth_Cons' simp del: upt_Suc)
qed

lemma add_remotes_idle:
  "add_remotes root m ranks = Ok m' \<Longrightarrow> hm_wf m \<Longrightarrow> set (hm_values m) \<subseteq> {LaneIdle}
     \<Longrightarrow> hm_wf m' \<and> set (hm_values m') \<subseteq> {LaneIdle}"
proof (induction root m ranks rule: add_remotes.induct)
  case (2 root m rank ranks)
  have "set (hm_values (hm_insert rank LaneIdle m)) \<subseteq> {LaneIdle}"
    using hm_values_insert [of rank LaneIdle m] 2(3,4) by blast
  with 2 show ?case by (simp split: if_splits)
qed simp

lemma add_remotes_len:
  "add_remotes root m ranks = Ok m' \<Longrightarrow> hm_wf m \<Longrightarrow> hm_len m' = hm_len m + length ranks"
  by (induction root m ranks rule: add_remotes.induct) (auto simp: hm.len_put split: if_splits)

lemma idle_sum:
  assumes "set (hm_values m) \<subseteq> {LaneIdle}"
  shows "hm_sum g m = sum_list (replicate (hm_len m) (g LaneIdle))"
proof -
  have "map (\<lambda>p. g (snd p)) m = replicate (length m) (g LaneIdle)"
    using assms by (intro nth_equalityI) (auto simp: hm_values_def image_subset_iff)
  then show ?thesis by (simp only: hm_sum_def hm_len_def)
qed

lemma queued_number_items:
  "pending c = number_items items \<Longrightarrow> queued c = mset_set {0..<length items}"
  by (simp add: queued_def number_items_def comp_def)

lemma sum_list_replicate_empty: "sum_list (replicate n {#}) = {#}"
  by (induction n) auto

lemma filled_replicate [simp]: "filled (replicate n None) = {#}"
  by (simp add: filled_def cong: conj_cong)

lemma new_with_prefetch_fields:
  assumes "new_with_prefetch root ranks items bs pf = Ok c"
  shows "pending c = number_items items" "ordered c = replicate (length items) None"
    "batch_size c = bs" "next_batch_id c = batch_id_zero" "root_lane c = LaneIdle" "\<not> failed c"
    "prefetch c = pf" "add_remotes root [] ranks = Ok (remotes c)"
  using assms enqueue_items_Ok [of 0 items]
  by (auto simp: new_with_prefetch_def number_items_def split: if_splits)

lemma new_with_prefetch_inv:
  assumes "new_with_prefetch root ranks items bs pf = Ok c" "0 < bs"
  shows "sched_inv items c"
proof -
  note c = new_with_prefetch_fields [OF assms(1)]
  have rem: "hm_wf (remotes c)" "set (hm_values (remotes c)) \<subseteq> {LaneIdle}"
    using add_remotes_idle [OF c(8)] by (auto simp: hm_values_def)
  have "outstanding c = {#}"
    using idle_sum [OF rem(2), of lane_mset] c(5) by (simp add: outstanding_def sum_list_replicate_empty)
  then have "account_inv items c"
    using c queued_number_items [OF c(1)] by (simp add: account_inv_def)
  moreover have "lanes_inv c"
    unfolding lanes_inv_def
  proof (intro conjI allI impI)
    fix l s
    assume "get_lane c l = Some s"
    then have "s = LaneIdle"
      using rem(2) c(5) hm_get_mem [of "remotes c" _ s] by (cases l) auto
    then show "lane_ok (prefetch c) l s"
      by (cases l) auto
  qed (rule rem(1))
  moreover have "items_inv items c"
    using c assms(2) by (auto simp: items_inv_def batch_id_zero_def intro: exI [of _ 0])
  ultimately show ?thesis
    using c by (simp add: sched_inv_def rest_inv_def)
qed

subsection \<open>Runs\<close>

lemma sched_invD:
  assumes "sched_inv items c"
  shows "lanes_inv c" "items_inv items c" "account_inv items c" "rest_inv c" "0 < batch_size c"
    "length (ordered c) = length items" "failed c \<Longrightarrow> pending c = []"
  using assms by (auto simp: sched_inv_def items_inv_def)

lemma sched_step_refines_inv:
  "sched_inv items c \<Longrightarrow> sched_step c e = (c', r) \<Longrightarrow> refines_step c e c' r"
  using sched_step_refines sched_invD(1,5) by metis

lemma sched_step_inv:
  assumes "sched_inv items c" "sched_step c e = (c', r)"
  shows "sched_inv items c'"
  using sched_step_refines_inv [OF assms] assms(1) sched_trans_inv
  by (auto simp: refines_step_def)

lemma sched_run_Cons:
  "sched_run c (e # es) = (c2, rs) \<longleftrightarrow>
     (\<exists>c1 r rs'. sched_step c e = (c1, r) \<and> sched_run c1 es = (c2, rs') \<and> rs = r # rs')"
  by (auto split: prod.splits)

lemma sched_run_inv: "sched_run c es = (c', rs) \<Longrightarrow> sched_inv items c \<Longrightarrow> sched_inv items c'"
proof (induction es arbitrary: c rs)
  case (Cons e es)
  then show ?case unfolding sched_run_Cons by (blast intro: sched_step_inv)
qed simp

text \<open>What is handed out is taken from the front of the queue.\<close>

fun label_items :: "('t, 'u) label \<Rightarrow> 't scheduled_item list" where
  "label_items (LDispatch l b) = b_items b"
| "label_items a = []"

definition answered_items :: "'t batch option sched_result \<Rightarrow> 't scheduled_item list" where
  "answered_items r = concat (map b_items (handed_out [r]))"

lemma explains_items: "explains e ob a \<Longrightarrow> answered_items (Ok ob) = label_items a"
  by (cases "(e, ob, a)" rule: explains.cases) (auto simp: answered_items_def)

lemma handed_out_Cons: "handed_out (r # rs) = handed_out [r] @ handed_out rs"
  by (cases "r # rs" rule: handed_out.cases) auto

lemma sched_trans_queue:
  "sched_trans c a c' \<Longrightarrow>
     \<exists>zs. pending c = label_items a @ pending c' @ zs \<and> (\<not> failed c' \<longrightarrow> zs = [] \<and> \<not> failed c)"
  by (induction rule: sched_trans.induct) auto

lemma sched_step_queue:
  assumes "refines_step c e c' r"
  shows "\<exists>zs. pending c = answered_items r @ pending c' @ zs \<and> (\<not> failed c' \<longrightarrow> zs = [] \<and> \<not> failed c)"
  using assms unfolding refines_step_def
proof (elim disjE exE conjE)
  fix ob a
  assume "r = Ok ob" "explains e ob a" "sched_trans c a c'"
  then show ?thesis
    using sched_trans_queue [of c a c'] explains_items [of e ob a] by simp
qed (simp_all add: answered_items_def)

lemma sched_run_queue:
  "sched_run c es = (c', rs) \<Longrightarrow> sched_inv items c \<Longrightarrow>
     \<exists>zs. pending c = concat (map b_items (handed_out rs)) @ pending c' @ zs
       \<and> (\<not> failed c' \<longrightarrow> zs = [] \<and> \<not> failed c)"
proof (induction es arbitrary: c rs)
  case Nil
  then show ?case by simp
next
  case (Cons e es)
  then obtain c1 r rs' where step: "sched_step c e = (c1, r)" "sched_run c1 es = (c', rs')" "rs = r # rs'"
    unfolding sched_run_Cons by blast
  have "sched_inv items c1"
    using Cons.prems(2) step(1) by (rule sched_step_inv)
  with Cons.IH [OF step(2)] obtain y where
    "pending c1 = concat (map b_items (handed_out rs')) @ pending c' @ y"
    "\<not> failed c' \<longrightarrow> y = [] \<and> \<not> failed c1"
    by blast
  moreover obtain z where "pending c = answered_items r @ pending c1 @ z"
    "\<not> failed c1 \<longrightarrow> z = [] \<and> \<not> failed c"
    using sched_step_queue [OF sched_step_refines_inv [OF Cons.prems(2) step(1)]] by blast
  ultimately have "pending c = concat (map b_items (handed_out rs)) @ pending c' @ (y @ z)"
    "\<not> failed c' \<longrightarrow> y @ z = [] \<and> \<not> failed c"
    unfolding step(3) handed_out_Cons [of r rs'] by (simp_all add: answered_items_def)
  then show ?case by blast
qed

subsection \<open>Collected values\<close>

text \<open>A worker is honest for \<open>f\<close> when it reports \<open>f\<close> of the input at each index.\<close>

fun reported :: "'u event \<Rightarrow> 'u item_result list" where
  "reported (RootOk bid rs) = rs"
| "reported (RemoteOk rank bid rs) = rs"
| "reported e = []"

definition honest :: "('t \<Rightarrow> 'u) \<Rightarrow> 't list \<Rightarrow> 'u event \<Rightarrow> bool" where
  "honest f items e \<longleftrightarrow> (\<forall>r\<in>set (reported e). result_value r = f (items ! result_index r))"

definition values_inv :: "('t \<Rightarrow> 'u) \<Rightarrow> 't list \<Rightarrow> ('t, 'u) coordinator \<Rightarrow> bool" where
  "values_inv f items c \<longleftrightarrow> (\<forall>i<length (ordered c). ordered c ! i \<in> {None, Some (f (items ! i))})"

lemma store_results_values:
  "store_results ord rs = Ok ord' \<Longrightarrow> \<forall>r\<in>set rs. result_value r = f (items ! result_index r)
     \<Longrightarrow> \<forall>i<length ord. ord ! i \<in> {None, Some (f (items ! i))}
     \<Longrightarrow> \<forall>i<length ord'. ord' ! i \<in> {None, Some (f (items ! i))}"
proof (induction ord rs rule: store_results.induct)
  case (2 ord r rs)
  let ?o = "ord[result_index r := Some (result_value r)]"
  have "\<forall>i<length ?o. ?o ! i \<in> {None, Some (f (items ! i))}"
  proof (intro allI impI)
    fix i
    assume "i < length ?o"
    then show "?o ! i \<in> {None, Some (f (items ! i))}"
      using 2(3,4) by (cases "i = result_index r") auto
  qed
  with 2 show ?case by (simp split: if_splits)
qed simp

lemma sched_trans_values:
  "sched_trans c a c' \<Longrightarrow> values_inv f items c \<Longrightarrow>
     (\<And>l rs r. a = LDone l rs \<Longrightarrow> r \<in> set rs \<Longrightarrow> result_value r = f (items ! result_index r))
     \<Longrightarrow> values_inv f items c'"
proof (induction rule: sched_trans.induct)
  case (finish c l s m s' rs ord)
  then show ?case
    using store_results_values [of "ordered c" rs ord f items]
    by (auto simp: values_inv_def split: if_splits)
qed (auto simp: values_inv_def set_remote_def)

lemma sched_step_values:
  assumes "refines_step c e c' r" "values_inv f items c" "honest f items e"
  shows "values_inv f items c'"
  using assms(1) unfolding refines_step_def
proof (elim disjE exE conjE)
  fix ob a
  assume a: "r = Ok ob" "explains e ob a" "sched_trans c a c'"
  have "result_value x = f (items ! result_index x)" if "a = LDone l rs" "x \<in> set rs" for l rs x
    using a(2) that assms(3)
    by (cases "(e, ob, a)" rule: explains.cases) (auto simp: honest_def)
  with a(3) assms(2) show ?thesis by (rule sched_trans_values)
qed (use assms(2) in simp_all)

lemma sched_run_values:
  "sched_run c es = (c', rs) \<Longrightarrow> sched_inv items c \<Longrightarrow> values_inv f items c
     \<Longrightarrow> \<forall>e\<in>set es. honest f items e \<Longrightarrow> values_inv f items c'"
proof (induction es arbitrary: c rs)
  case (Cons e es)
  then show ?case
    unfolding sched_run_Cons by (metis list.set_intros sched_step_inv sched_step_refines_inv sched_step_values)
qed simp

lemma is_finished_outstanding: "is_finished c \<Longrightarrow> outstanding c = {#}"
proof -
  assume fin: "is_finished c"
  have "hm_sum lane_mset m = {#}" if "list_all (\<lambda>s. lane_kind s = KDrained) (hm_values m)" for m :: "(int, lane_state) hmap"
    using that by (induction m) (auto simp: hm_values_def hm_sum_def lane_mset_def elim!: lane_kind.elims)
  with fin show ?thesis
    by (simp add: is_finished_def outstanding_def)
qed

lemma finished_full:
  assumes "sched_inv items c" "is_finished c" "\<not> failed c" "i < length items"
  shows "ordered c ! i \<noteq> None"
proof -
  have "pending c = []"
    using assms(2) sched_invD(4) [OF assms(1)] by (simp add: is_finished_def rest_inv_def)
  then have "filled (ordered c) = mset_set {0..<length items}"
    using sched_invD(3) [OF assms(1)] assms(3) is_finished_outstanding [OF assms(2)]
    by (simp add: account_inv_def queued_def)
  then show ?thesis
    using in_filled [of i "ordered c"] assms(4) by simp
qed

lemma into_results_values:
  assumes "sched_inv items c" "values_inv f items c"
  shows "into_results c = (if failed c then Err SchedFailed else if is_finished c then Ok (map f items)
    else Err NotFinished)"
proof (cases "is_finished c \<and> \<not> failed c")
  case True
  have "ordered c ! i = Some (f (items ! i))" if "i < length items" for i
    using finished_full [OF assms(1), of i] True assms(2) sched_invD(6) [OF assms(1)] that
    unfolding values_inv_def by (metis insertE singletonD)
  then have "ordered c = map (\<lambda>x. Some (f x)) items"
    using sched_invD(6) [OF assms(1)] by (intro nth_equalityI) auto
  then have "res_list (map (\<lambda>r. ok_or r MissingResult) (ordered c)) = Ok (map f items)"
    by (simp add: res_list_Ok_iff comp_def)
  with True show ?thesis by (simp add: into_results_def)
qed (auto simp: into_results_def)

subsection \<open>Termination\<close>

fun lane_weight :: "lane_state \<Rightarrow> nat" where
  "lane_weight LaneDrained = 0"
| "lane_weight LaneStopped = 1"
| "lane_weight LaneIdle = 2"
| "lane_weight (LaneRunning m None s) = (if s then 2 else 3)"
| "lane_weight (LaneRunning m (Some q) s) = 4"

definition lanes_weight :: "('t, 'u) coordinator \<Rightarrow> nat" where
  "lanes_weight c = lane_weight (root_lane c) + hm_sum lane_weight (remotes c)"

definition work_left :: "('t, 'u) coordinator \<Rightarrow> nat" where
  "work_left c = 2 * length (pending c) + lanes_weight c"

lemma lanes_weight_update [simp]:
  "lanes_weight (c\<lparr>pending := x\<rparr>) = lanes_weight c" "lanes_weight (c\<lparr>ordered := y\<rparr>) = lanes_weight c"
  "lanes_weight (c\<lparr>next_batch_id := z\<rparr>) = lanes_weight c" "lanes_weight (fail c) = lanes_weight c"
  by (simp_all add: lanes_weight_def)

lemma lanes_weight_set_lane:
  "get_lane c l = Some s \<Longrightarrow> lanes_weight (set_lane l s' c) + lane_weight s = lanes_weight c + lane_weight s'"
  using hm_sum_replace [of "remotes c" _ s lane_weight s']
  by (cases l) (auto simp: lanes_weight_def set_remote_def)

lemma lane_assign_weight: "lane_assign pref l md s = Some s' \<Longrightarrow> lane_weight s' = lane_weight s + 1"
  by (cases "(pref, l, md, s)" rule: lane_assign.cases) (auto split: if_splits)

lemma lane_stop_weight: "lane_stop pref l s = Some s' \<Longrightarrow> lane_weight s' < lane_weight s"
  by (cases "(pref, l, s)" rule: lane_stop.cases) (auto split: if_splits)

lemma lane_finish_weight: "lane_finish s = Some (m, s') \<Longrightarrow> lane_weight s' < lane_weight s"
  by (cases s rule: lane_finish.cases) auto

lemma sched_trans_work: "sched_trans c a c' \<Longrightarrow> work_left c' < work_left c"
proof (induction rule: sched_trans.induct)
  case (dispatch c b ys nid l s s')
  let ?c = "c\<lparr>pending := ys, next_batch_id := nid\<rparr>"
  have "get_lane ?c l = Some s" using dispatch by simp
  then have "lanes_weight (set_lane l s' ?c) = lanes_weight c + 1"
    using lanes_weight_set_lane [of ?c l s s'] lane_assign_weight [OF dispatch(8)] by simp
  moreover have "length ys < length (pending c)"
    using dispatch(2,3) by (cases "b_items b") auto
  ultimately show ?case by (simp add: work_left_def)
next
  case (stop c l s s')
  then show ?case
    using lanes_weight_set_lane [of c l s s'] lane_stop_weight [of "prefetch c" l s s']
    by (simp add: work_left_def)
next
  case (finish c l s m s' rs ord)
  then show ?case
    using lanes_weight_set_lane [of c l s s'] lane_finish_weight [of s m s']
    by (simp add: work_left_def)
next
  case (fault c l s m s')
  then show ?case
    using lanes_weight_set_lane [of c l s s'] lane_finish_weight [of s m s']
    by (simp add: work_left_def)
next
  case (drain c rank)
  then show ?case
    using lanes_weight_set_lane [of c "Remote rank" LaneStopped LaneDrained]
    by (simp add: work_left_def)
qed

text \<open>How often a run changes the coordinator at all.\<close>

fun changes :: "('t, 'u) coordinator \<Rightarrow> 'u event list \<Rightarrow> nat" where
  "changes c [] = 0"
| "changes c (e # es) =
     (let c' = fst (sched_step c e) in (if c' = c then 0 else 1) + changes c' es)"

lemma sched_step_work:
  "sched_inv items c \<Longrightarrow> sched_step c e = (c', r) \<Longrightarrow> c' = c \<or> work_left c' < work_left c"
  using sched_step_refines_inv [of items c e c' r] sched_trans_work by (auto simp: refines_step_def)

lemma changes_bound: "sched_inv items c \<Longrightarrow> changes c es \<le> work_left c"
proof (induction es arbitrary: c)
  case (Cons e es)
  obtain c' r where step: "sched_step c e = (c', r)" by fastforce
  have "changes c' es \<le> work_left c'"
    using Cons.IH sched_step_inv [OF Cons.prems step] .
  then show ?case
    using sched_step_work [OF Cons.prems step] step by auto
qed simp

lemma new_work_left:
  assumes "new_with_prefetch root ranks items bs pf = Ok c"
  shows "work_left c = 2 * length items + 2 * length ranks + 2"
proof -
  note c = new_with_prefetch_fields [OF assms]
  have "set (hm_values (remotes c)) \<subseteq> {LaneIdle}" "hm_len (remotes c) = length ranks"
    using add_remotes_idle [OF c(8)] add_remotes_len [OF c(8)] by (auto simp: hm_values_def hm_len_def)
  then show ?thesis
    using idle_sum [of "remotes c" lane_weight] c(1,5)
    by (simp add: work_left_def lanes_weight_def sum_list_replicate)
qed

subsection \<open>Acceptance and progress\<close>

lemma lane_metas_current: "lane_finish s = Some (m, s') \<Longrightarrow> mset (original_indices m) \<subseteq># lane_mset s"
  by (simp add: lane_finish_mset)

lemma lane_mset_outstanding:
  assumes "get_lane c l = Some s"
  shows "lane_mset s \<subseteq># outstanding c"
  using outstanding_set_lane [OF assms, of LaneIdle] by (simp add: mset_subset_eq_exists_conv union_commute) (metis union_commute)

lemma distinct_msubset: "mset xs \<subseteq># mset_set S \<Longrightarrow> distinct xs"
proof (induction xs)
  case (Cons x xs)
  then have "add_mset x (mset xs) + {#} \<subseteq># mset_set S" by simp
  then have "x \<notin># mset xs" by (rule subseteq_mset_set_disjoint(1))
  moreover have "mset xs \<subseteq># mset_set S"
    using Cons.prems by (metis mset.simps(2) mset_subset_eq_insertD subset_mset.less_imp_le)
  ultimately show ?case using Cons.IH by simp
qed simp

text \<open>The indices of the batch a lane runs are distinct slots that are still empty.\<close>

lemma running_slots:
  assumes "sched_inv items c" "get_lane c l = Some s" "lane_finish s = Some (m, s')"
  shows "distinct (original_indices m)"
    "\<forall>i\<in>set (original_indices m). i < length (ordered c) \<and> ordered c ! i = None"
proof -
  let ?is = "mset (original_indices m)"
  have "?is \<subseteq># outstanding c"
    using lane_metas_current [OF assms(3)] lane_mset_outstanding [OF assms(2)] by simp
  then have sub: "?is + filled (ordered c) \<subseteq># mset_set {0..<length items}"
    using sched_invD(3) [OF assms(1)] unfolding account_inv_def
    by (meson mset_subset_eq_add_right mset_subset_eq_mono_add subset_mset.order_trans subset_mset.refl)
  then have "?is \<subseteq># mset_set {0..<length items}"
    by (meson mset_subset_eq_add_left subset_mset.order_trans)
  then show "distinct (original_indices m)"
    by (rule distinct_msubset)
  show "\<forall>i\<in>set (original_indices m). i < length (ordered c) \<and> ordered c ! i = None"
  proof
    fix i
    assume "i \<in> set (original_indices m)"
    then obtain A where "?is = add_mset i A"
      by (metis insert_DiffM set_mset_mset)
    with sub have "i \<notin># filled (ordered c)" "i < length items"
      using subseteq_mset_set_disjoint(2,3) [of i A "filled (ordered c)" "{0..<length items}"] by auto
    then show "i < length (ordered c) \<and> ordered c ! i = None"
      using sched_invD(6) [OF assms(1)] by (simp add: in_filled)
  qed
qed

lemma validate_running:
  assumes "sched_inv items c" "get_lane c l = Some s" "lane_finish s = Some (m, s')"
  shows "validate_completion c m bid rs = Ok u \<longleftrightarrow>
    bid = rm_batch_id m \<and> map result_index rs = original_indices m"
  using running_slots [OF assms] by (auto simp: validate_completion_Ok)

lemma on_remote_success_ok:
  assumes "sched_inv items c" "hm_get (remotes c) k = Some (LaneRunning m p s)"
  shows "is_ok (snd (on_remote_success c k bid rs)) \<longleftrightarrow>
    bid = rm_batch_id m \<and> map result_index rs = original_indices m"
proof -
  let ?t = "LaneRunning m p s"
  have "remote_ok (prefetch c) ?t"
    using lanes_invD [OF sched_invD(1) [OF assms(1)], of "Remote k"] assms(2) by simp
  then obtain t' where t': "advance_remote (Some ?t) = Ok t'" "lane_finish ?t = Some (m, t')"
    using advance_remote_finish [of "Some ?t" m "prefetch c"] by auto
  have valid: "validate_completion c m bid rs = Ok u \<longleftrightarrow>
      bid = rm_batch_id m \<and> map result_index rs = original_indices m" for u
    using validate_running [OF assms(1) _ t'(2), of "Remote k"] assms(2) by simp
  show ?thesis
  proof (cases "validate_completion c m bid rs")
    case (Inl e)
    then show ?thesis
      using assms(2) valid by (auto simp: on_remote_success_def)
  next
    case (Inr u)
    then show ?thesis
      using assms(2) valid t' record_results_trans [of c "Remote k" ?t m t' bid rs u
          "\<lparr>cm_lane = Remote k, cm_batch_id = bid\<rparr>"]
      by (auto simp: on_remote_success_def)
  qed
qed

lemma on_root_success_ok:
  assumes "sched_inv items c" "root_lane c = LaneRunning m p s"
  shows "is_ok (snd (on_root_success c bid rs)) \<longleftrightarrow>
    bid = rm_batch_id m \<and> map result_index rs = original_indices m"
proof -
  have "root_ok (root_lane c)"
    using lanes_invD [OF sched_invD(1) [OF assms(1)], of Root] by simp
  then have root: "root_lane c = LaneRunning m None False"
    using assms(2) by simp
  have valid: "validate_completion c m bid rs = Ok u \<longleftrightarrow>
      bid = rm_batch_id m \<and> map result_index rs = original_indices m" for u
    using validate_running [OF assms(1), of Root] root by simp
  show ?thesis
  proof (cases "validate_completion c m bid rs")
    case (Inl e)
    then show ?thesis
      using root valid by (auto simp: on_root_success_def)
  next
    case (Inr u)
    then show ?thesis
      using root valid record_results_trans [of c Root "root_lane c" m LaneIdle bid rs u
          "\<lparr>cm_lane = Root, cm_batch_id = bid\<rparr>"]
      by (auto simp: on_root_success_def)
  qed
qed

lemma make_batch_total:
  assumes "sched_inv items c" "length items < 2 ^ 64" "\<not> failed c" "pending c \<noteq> []"
  shows "\<exists>c' b. make_batch c = (c', Ok (Some b))"
proof -
  have "unat (batch_id_get (next_batch_id c)) + length (pending c) \<le> length items" "0 < length (pending c)"
    using sched_invD(2) [OF assms(1)] assms(4) by (auto simp: items_inv_def)
  then have "unat (batch_id_get (next_batch_id c)) + 1 < 2 ^ 64"
    using assms(2) by linarith
  then have "checked_increment (next_batch_id c) = Ok (BatchId (batch_id_get (next_batch_id c) + 1))"
    by (simp add: checked_increment_Ok)
  with assms(3,4) show ?thesis by (simp add: make_batch_def Let_def)
qed

lemma no_batch_ok [simp]: "is_ok (no_batch r) = is_ok r"
  by (cases r) auto

definition accept_all :: "running_meta \<Rightarrow> 'u item_result list" where
  "accept_all m = map (\<lambda>i. \<lparr>result_index = i, result_value = undefined\<rparr>) (original_indices m)"

lemma accept_all_indices [simp]: "map result_index (accept_all m) = original_indices m"
  by (simp add: accept_all_def comp_def)

lemma root_progress:
  assumes "sched_inv items c" "length items < 2 ^ 64" "root_lane c \<noteq> LaneStopped"
  shows "\<exists>e. is_ok (snd (sched_step c e))"
proof (cases "root_lane c")
  case LaneIdle
  have "is_ok (snd (sched_step c RootNext))"
    using LaneIdle make_batch_total [OF assms(1,2)] by (auto simp: next_root_batch_def)
  then show ?thesis ..
next
  case (LaneRunning m p s)
  have "is_ok (snd (sched_step c (RootOk (rm_batch_id m) (accept_all m))))"
    using on_root_success_ok [OF assms(1) LaneRunning] by simp
  then show ?thesis ..
next
  case LaneDrained
  then show ?thesis
    using lanes_invD [OF sched_invD(1) [OF assms(1)], of Root] by simp
qed (use assms(3) in simp)

lemma remote_progress:
  assumes "sched_inv items c" "length items < 2 ^ 64" "hm_get (remotes c) k = Some s" "s \<noteq> LaneDrained"
  shows "\<exists>e. e \<noteq> RootNext \<and> is_ok (snd (sched_step c e))"
proof (cases s)
  case LaneIdle
  have "is_ok (snd (sched_step c (Ready k)))"
    using assms(3) LaneIdle make_batch_total [OF assms(1,2)] by (auto simp: on_remote_ready_def)
  then show ?thesis by blast
next
  case (LaneRunning m p t)
  have "is_ok (snd (sched_step c (RemoteOk k (rm_batch_id m) (accept_all m))))"
    using on_remote_success_ok [OF assms(1), of k m p t] assms(3) LaneRunning by simp
  then show ?thesis by blast
next
  case LaneStopped
  have "is_ok (snd (sched_step c (Drain k)))"
    using assms(3) LaneStopped by (simp add: on_remote_drain_def)
  then show ?thesis by blast
qed (use assms(4) in simp)

lemma ok_changes:
  assumes "sched_inv items c" "is_ok (snd (sched_step c e))" "\<not> (e = RootNext \<and> root_lane c = LaneStopped)"
  shows "work_left (fst (sched_step c e)) < work_left c"
  using sched_step_refines_inv [OF assms(1), of e] assms(2,3) sched_trans_work
  by (cases "sched_step c e") (auto simp: refines_step_def is_ok_iff)

lemma unfinished_lane:
  assumes "lanes_inv c" "\<not> is_finished c"
  shows "root_lane c \<noteq> LaneStopped \<or> (\<exists>k s. hm_get (remotes c) k = Some s \<and> s \<noteq> LaneDrained)"
proof (rule ccontr)
  assume no: "\<not> ?thesis"
  have wf: "hm_wf (remotes c)" using assms(1) by (simp add: lanes_inv_def)
  have "s = LaneDrained" if "s \<in> set (hm_values (remotes c))" for s
    using hm_mem_get [OF wf that] no by blast
  then have "set (hm_values (remotes c)) \<subseteq> {LaneDrained}" by blast
  then show False
    using no assms(2) by (auto simp: is_finished_def running_count_def list_all_iff filter_empty_conv)
qed

subsection \<open>A concrete run\<close>

text \<open>Three items in batches of two, the root and one remote rank, run to the end.\<close>

definition demo_coordinator :: "(nat, nat) coordinator" where
  "demo_coordinator = \<lparr>pending = number_items [5, 6, 7], ordered = [None, None, None],
     batch_size = 2, next_batch_id = batch_id_zero, root_lane = LaneIdle, remotes = [(1, LaneIdle)],
     prefetch = True, failed = False\<rparr>"

definition demo_events :: "nat event list" where
  "demo_events = [Ready 1, RootNext, RemoteOk 1 (BatchId 0)
     [\<lparr>result_index = 0, result_value = 15\<rparr>, \<lparr>result_index = 1, result_value = 16\<rparr>],
     RootOk (BatchId 1) [\<lparr>result_index = 2, result_value = 17\<rparr>], RootNext, Ready 1, Drain 1]"

lemmas sched_eval = demo_coordinator_def demo_events_def number_items_def upt_rec on_remote_ready_def
  hm_get_def make_batch_def checked_increment_def checked_add_u64_def batch_id_zero_def Let_def
  set_remote_def hm_insert_def hm_values_def next_root_batch_def on_remote_success_def
  on_root_success_def on_remote_drain_def metadata_def validate_completion_def record_results_def

lemma demo_new: "new_with_prefetch 0 [1] [5, 6, 7] 2 True = Ok demo_coordinator"
  by (simp add: new_with_prefetch_def sched_eval)

lemma demo_run:
  "sched_run demo_coordinator demo_events =
    (demo_coordinator\<lparr>pending := [], ordered := [Some 15, Some 16, Some 17], next_batch_id := BatchId 2,
       root_lane := LaneStopped, remotes := [(1, LaneDrained)]\<rparr>,
     [Ok (Some \<lparr>b_id = BatchId 0, b_items = [\<lparr>original_index = 0, item_value = 5\<rparr>, \<lparr>original_index = 1, item_value = 6\<rparr>]\<rparr>),
      Ok (Some \<lparr>b_id = BatchId 1, b_items = [\<lparr>original_index = 2, item_value = 7\<rparr>]\<rparr>),
      Ok None, Ok None, Ok None, Ok None, Ok None])"
  by (simp add: sched_eval)

lemma demo_ready:
  "sched_run demo_coordinator [Ready 1] =
    (demo_coordinator\<lparr>pending := [\<lparr>original_index = 2, item_value = 7\<rparr>], next_batch_id := BatchId 1,
       remotes := [(1, LaneRunning \<lparr>rm_batch_id = BatchId 0, original_indices = [0, 1]\<rparr> None False)]\<rparr>,
     [Ok (Some \<lparr>b_id = BatchId 0, b_items = [\<lparr>original_index = 0, item_value = 5\<rparr>, \<lparr>original_index = 1, item_value = 6\<rparr>]\<rparr>)])"
  by (simp add: sched_eval)

subsection \<open>Properties\<close>

text \<open>
  C8. Whatever calls the root loop makes, in whatever order, with whatever results reported,
  on a freshly built coordinator: the invariant holds afterwards. Every input index is in
  exactly one place (queued, in the batch a lane runs or has prefetched, or a filled slot),
  nothing is lost unless the run has failed, and the lanes are in the states the code allows.
\<close>

theorem coordinator_run_invariant:
  assumes "new_with_prefetch root ranks items bs pf = Ok c" "0 < bs" "sched_run c es = (c', rs)"
  shows "sched_inv items c'"
  using sched_run_inv [OF assms(3)] new_with_prefetch_inv [OF assms(1,2)] by blast

theorem coordinator_run_invariant_witness: "sched_inv [5, 6, 7] (fst (sched_run demo_coordinator demo_events))"
  using coordinator_run_invariant [OF demo_new _ demo_run] by (simp add: demo_run)

text \<open>
  C9. Each method of the coordinator implements the abstract lane machine. In any state a
  run reaches, a call either fails with an error and leaves the coordinator as it was, or
  finds the root lane already stopped, or makes exactly the one abstract step (dispatch, stop,
  completion, fault, drain) that its answer reports. In particular no call panics: the
  \<open>unreachable!\<close> and \<open>expect\<close> of the source are never reached.
\<close>

theorem coordinator_step_refines:
  assumes "new_with_prefetch root ranks items bs pf = Ok c" "0 < bs" "sched_run c es = (c1, rs)"
    and "sched_step c1 e = (c2, r)"
  shows "refines_step c1 e c2 r \<and> r \<noteq> Err Panic"
proof -
  have "refines_step c1 e c2 r"
    using sched_step_refines_inv [OF sched_run_inv [OF assms(3) new_with_prefetch_inv [OF assms(1,2)]] assms(4)] .
  then show ?thesis by (auto simp: refines_step_def)
qed

theorem coordinator_step_refines_witness:
  "refines_step demo_coordinator (Drain 1) demo_coordinator (Err (Fail WrongLaneState))"
  using coordinator_step_refines [OF demo_new, of "[]" demo_coordinator "[]" "Drain 1"]
  by (simp add: sched_eval)

text \<open>
  The batches a run hands out, in order, are the input cut from the front: item \<open>i\<close> goes
  out at most once, with its own index and value, and when the run has ended without failure
  every item has gone out.
\<close>

theorem coordinator_hands_out_input:
  assumes "new_with_prefetch root ranks items bs pf = Ok c" "0 < bs" "sched_run c es = (c', rs)"
  shows "(\<exists>k. concat (map b_items (handed_out rs)) = take k (number_items items))
    \<and> (is_finished c' \<and> \<not> failed c' \<longrightarrow> concat (map b_items (handed_out rs)) = number_items items)"
proof -
  have inv: "sched_inv items c" "sched_inv items c'"
    using new_with_prefetch_inv [OF assms(1,2)] sched_run_inv [OF assms(3)] by blast+
  obtain zs where zs: "number_items items = concat (map b_items (handed_out rs)) @ pending c' @ zs"
      "\<not> failed c' \<longrightarrow> zs = []"
    using sched_run_queue [OF assms(3) inv(1)] new_with_prefetch_fields(1) [OF assms(1)] by auto
  have "is_finished c' \<Longrightarrow> pending c' = []"
    using sched_invD(4) [OF inv(2)] by (simp add: is_finished_def rest_inv_def)
  with zs show ?thesis
    by (metis append_eq_conv_conj append.right_neutral)
qed

theorem coordinator_hands_out_input_witness:
  "concat (map b_items (handed_out (snd (sched_run demo_coordinator demo_events)))) = number_items [5, 6, 7]"
  using coordinator_hands_out_input [OF demo_new _ demo_run] unfolding demo_run
  by (simp add: is_finished_def running_count_def hm_values_def demo_coordinator_def)

text \<open>
  C10. When every accepted report is \<open>f\<close> of the inputs, \<open>into_results\<close> gives \<open>map f items\<close>, in
  input order, exactly when the run has ended without failure, and otherwise says why not. The
  error \<open>MissingResult\<close> is unreachable.
\<close>

theorem coordinator_collects_map:
  assumes "new_with_prefetch root ranks items bs pf = Ok c" "0 < bs" "sched_run c es = (c', rs)"
    and "\<forall>e\<in>set es. honest f items e"
  shows "into_results c' =
    (if failed c' then Err SchedFailed else if is_finished c' then Ok (map f items) else Err NotFinished)"
proof -
  have inv: "sched_inv items c"
    using new_with_prefetch_inv [OF assms(1,2)] .
  have "values_inv f items c"
    using new_with_prefetch_fields(2) [OF assms(1)] by (simp add: values_inv_def)
  then show ?thesis
    using into_results_values sched_run_inv [OF assms(3) inv] sched_run_values [OF assms(3) inv _ assms(4)]
    by blast
qed

theorem coordinator_collects_map_witness:
  "into_results (fst (sched_run demo_coordinator demo_events)) = Ok (map (\<lambda>x. x + 10) [5, 6, 7])"
  using coordinator_collects_map [OF demo_new _ demo_run, of "\<lambda>x. x + 10"] unfolding demo_run
  by (simp add: is_finished_def running_count_def hm_values_def demo_coordinator_def
      demo_events_def honest_def)

text \<open>
  C11. A completion from a running lane is accepted exactly when it names the batch the lane
  runs and reports that batch's indices in that batch's order; the range, duplicate and
  already-filled checks of \<open>validate_completion\<close> never reject such a report.
\<close>

theorem coordinator_accepts_current_batch:
  assumes "new_with_prefetch root ranks items bs pf = Ok c" "0 < bs" "sched_run c es = (c1, rs)"
    and "hm_get (remotes c1) rank = Some (LaneRunning m p s)"
  shows "is_ok (snd (on_remote_success c1 rank bid results)) \<longleftrightarrow>
    bid = rm_batch_id m \<and> map result_index results = original_indices m"
  using on_remote_success_ok [OF sched_run_inv [OF assms(3) new_with_prefetch_inv [OF assms(1,2)]] assms(4)] .

theorem coordinator_accepts_current_batch_witness:
  "is_ok (snd (on_remote_success (fst (sched_run demo_coordinator [Ready 1])) 1 (BatchId 0)
     [\<lparr>result_index = 0, result_value = 1\<rparr>, \<lparr>result_index = 1, result_value = 2\<rparr>]))"
  using coordinator_accepts_current_batch [OF demo_new _ demo_ready, of 1 _ None False "BatchId 0"
      "[\<lparr>result_index = 0, result_value = 1\<rparr>, \<lparr>result_index = 1, result_value = 2\<rparr>]"]
  unfolding demo_ready by (simp add: hm_get_def)

text \<open>
  C12. With \<open>n\<close> items and \<open>k\<close> remote ranks, no sequence of calls changes the coordinator more
  than \<open>2 n + 2 k + 2\<close> times: the scheduling loop cannot run forever.
\<close>

theorem coordinator_terminates:
  assumes "new_with_prefetch root ranks items bs pf = Ok c" "0 < bs"
  shows "changes c es \<le> 2 * length items + 2 * length ranks + 2"
  using changes_bound [OF new_with_prefetch_inv [OF assms], of es] new_work_left [OF assms(1)] by simp

theorem coordinator_terminates_witness: "changes demo_coordinator demo_events \<le> 10"
  using coordinator_terminates [OF demo_new] by simp

text \<open>
  No deadlock: as long as the run is not finished some call succeeds and brings the end
  nearer. The number of items fits \<open>usize\<close>, so batch identifiers cannot overflow.
\<close>

theorem coordinator_progress:
  assumes "new_with_prefetch root ranks items bs pf = Ok c" "0 < bs" "sched_run c es = (c1, rs)"
    and "length items \<le> USIZE_MAX" "\<not> is_finished c1"
  shows "\<exists>e. is_ok (snd (sched_step c1 e)) \<and> work_left (fst (sched_step c1 e)) < work_left c1"
proof -
  have inv: "sched_inv items c1"
    using sched_run_inv [OF assms(3) new_with_prefetch_inv [OF assms(1,2)]] .
  have small: "length items < 2 ^ 64"
    using assms(4) by (simp add: USIZE_MAX_def)
  consider "root_lane c1 \<noteq> LaneStopped" | k s where "hm_get (remotes c1) k = Some s" "s \<noteq> LaneDrained"
    using unfinished_lane [OF sched_invD(1) [OF inv] assms(5)] by blast
  then show ?thesis
  proof cases
    case 1
    then show ?thesis
      using root_progress [OF inv small] ok_changes [OF inv] by blast
  next
    case 2
    then show ?thesis
      using remote_progress [OF inv small] ok_changes [OF inv] by blast
  qed
qed

theorem coordinator_progress_witness:
  "\<exists>e. is_ok (snd (sched_step demo_coordinator e))"
  using coordinator_progress [OF demo_new, of "[]" demo_coordinator "[]"]
  by (auto simp: USIZE_MAX_def is_finished_def demo_coordinator_def)

end
