(* ===== verification/MapSerial.thy ===== *)
theory MapSerial
  imports Prelude
begin

text \<open>
  The serial \<open>map\<close> and the bounded diagnostics it shares with every other component
  (\<open>src/map.rs\<close>). A \<open>String\<close> is its UTF-8 bytes. The callback is an \<open>FnMut\<close>: it takes and
  returns its own state, so that which items it is called on is visible.
\<close>

definition MAX_ERROR_MESSAGE_BYTES :: usize where
  "MAX_ERROR_MESSAGE_BYTES = 4096"

text \<open>The bytes of a string literal.\<close>

definition lit :: "string \<Rightarrow> bytes" where
  "lit s = map (\<lambda>c. word_of_nat (of_char c)) s"

text \<open>A continuation byte of UTF-8 is \<open>10xxxxxx\<close>.\<close>

definition is_continuation :: "u8 \<Rightarrow> bool" where
  "is_continuation b \<longleftrightarrow> 128 \<le> unat b \<and> unat b < 192"

text \<open>\<open>str::is_char_boundary\<close>.\<close>

definition is_char_boundary :: "bytes \<Rightarrow> usize \<Rightarrow> bool" where
  "is_char_boundary m i \<longleftrightarrow> i = 0 \<or> i = length m \<or> (i < length m \<and> \<not> is_continuation (m ! i))"

text \<open>The loop \<open>while !message.is_char_boundary(end) { end -= 1; }\<close>.\<close>

fun boundary_below :: "bytes \<Rightarrow> usize \<Rightarrow> usize" where
  "boundary_below m 0 = 0"
| "boundary_below m (Suc e) = (if is_char_boundary m (Suc e) then Suc e else boundary_below m e)"

definition truncate_message :: "bytes \<Rightarrow> bytes" where
  "truncate_message m =
     (if MAX_ERROR_MESSAGE_BYTES < length m
      then take (boundary_below m MAX_ERROR_MESSAGE_BYTES) m else m)"

record map_error =
  me_index :: usize
  me_message :: bytes

definition map_error_new :: "('e \<Rightarrow> bytes) \<Rightarrow> usize \<Rightarrow> 'e \<Rightarrow> map_error" where
  "map_error_new to_string i e = \<lparr>me_index = i, me_message = truncate_message (to_string e)\<rparr>"

fun map_loop ::
  "('e \<Rightarrow> bytes) \<Rightarrow> ('s \<Rightarrow> 't \<Rightarrow> 's \<times> ('e, 'u) result) \<Rightarrow> usize \<Rightarrow> 'u list \<Rightarrow> 's \<Rightarrow> 't list
     \<Rightarrow> 's \<times> (map_error, 'u list) result"
where
  "map_loop to_string f i output s [] = (s, Ok output)"
| "map_loop to_string f i output s (item # items) =
     (case f s item of
        (s', Inr value) \<Rightarrow> map_loop to_string f (Suc i) (output @ [value]) s' items
      | (s', Inl error) \<Rightarrow> (s', Err (map_error_new to_string i error)))"

definition map_items ::
  "('e \<Rightarrow> bytes) \<Rightarrow> ('s \<Rightarrow> 't \<Rightarrow> 's \<times> ('e, 'u) result) \<Rightarrow> 's \<Rightarrow> 't list
     \<Rightarrow> 's \<times> (map_error, 'u list) result"
where
  "map_items to_string f s items = map_loop to_string f 0 [] s items"

subsection \<open>Truncation keeps whole characters\<close>

text \<open>The encoding of one character: a leading byte and at most three continuation bytes.\<close>

fun utf8_char :: "bytes \<Rightarrow> bool" where
  "utf8_char [] = False"
| "utf8_char (b # bs) \<longleftrightarrow> \<not> is_continuation b \<and> length bs \<le> 3 \<and> list_all is_continuation bs"

lemma boundary_below_le: "boundary_below m e \<le> e"
  by (induction e) auto

lemma boundary_below_boundary: "is_char_boundary m (boundary_below m e)"
  by (induction e) (auto simp: is_char_boundary_def)

lemma boundary_below_max: "j \<le> e \<Longrightarrow> is_char_boundary m j \<Longrightarrow> j \<le> boundary_below m e"
  by (induction e) (auto simp: le_Suc_eq)

text \<open>A boundary of a string of whole characters lies between two of them.\<close>

lemma utf8_boundary_split:
  assumes "list_all utf8_char cs" "is_char_boundary (concat cs) i" "i \<le> length (concat cs)"
  shows "\<exists>k. take i (concat cs) = concat (take k cs)"
  using assms
proof (induction cs arbitrary: i)
  case Nil
  then show ?case by simp
next
  case (Cons c cs)
  show ?case
  proof (cases "i = 0 \<or> length c \<le> i")
    case True
    then consider "i = 0" | "length c \<le> i" "i \<noteq> 0" by blast
    then show ?thesis
    proof cases
      case 1
      then show ?thesis by (intro exI [of _ 0]) simp
    next
      case 2
      then have "is_char_boundary (concat cs) (i - length c)"
        using Cons.prems by (auto simp: is_char_boundary_def nth_append)
      moreover have "i - length c \<le> length (concat cs)"
        using Cons.prems(3) by (simp add: le_diff_conv)
      ultimately obtain k where "take (i - length c) (concat cs) = concat (take k cs)"
        using Cons.IH [of "i - length c"] Cons.prems(1) by auto
      with 2 show ?thesis by (intro exI [of _ "Suc k"]) simp
    qed
  next
    case False
    then obtain b bs where c: "c = b # bs" by (cases c) auto
    with False obtain j where j: "i = Suc j" "j < length bs" by (cases i) auto
    moreover have "list_all is_continuation bs"
      using Cons.prems(1) c by simp
    ultimately have "is_continuation ((c @ concat cs) ! i)"
      using c by (simp add: nth_append list_all_length)
    then show ?thesis
      using Cons.prems(2) j c by (simp add: is_char_boundary_def)
  qed
qed

text \<open>Within four bytes below any position there is a boundary.\<close>

lemma utf8_boundary_near:
  assumes "list_all utf8_char cs" "e \<le> length (concat cs)"
  shows "\<exists>j. j \<le> e \<and> e \<le> j + 3 \<and> is_char_boundary (concat cs) j"
  using assms
proof (induction cs arbitrary: e)
  case Nil
  then show ?case by (auto simp: is_char_boundary_def)
next
  case (Cons c cs)
  show ?case
  proof (cases "length c \<le> e")
    case True
    have "e - length c \<le> length (concat cs)"
      using Cons.prems(2) by (simp add: le_diff_conv)
    then obtain j where j: "j \<le> e - length c" "e - length c \<le> j + 3" "is_char_boundary (concat cs) j"
      using Cons.IH [of "e - length c"] Cons.prems(1) by auto
    have "is_char_boundary (concat (c # cs)) (length c + j)"
    proof (cases cs)
      case Nil
      with j(3) show ?thesis by (simp add: is_char_boundary_def)
    next
      case (Cons d ds)
      obtain x xs where d: "d = x # xs" "\<not> is_continuation x"
        using Cons.prems Cons by (cases d) auto
      from j(3) d Cons show ?thesis
        by (cases "j = 0") (auto simp: is_char_boundary_def nth_append)
    qed
    with j True show ?thesis by (intro exI [of _ "length c + j"]) auto
  next
    case False
    with Cons.prems have "e \<le> 3" by (cases c) auto
    then show ?thesis by (intro exI [of _ 0]) (simp add: is_char_boundary_def)
  qed
qed

lemma truncate_message_spec:
  assumes "list_all utf8_char cs"
  shows "\<exists>k. truncate_message (concat cs) = concat (take k cs)"
    "MAX_ERROR_MESSAGE_BYTES < length (concat cs) \<Longrightarrow>
       MAX_ERROR_MESSAGE_BYTES \<le> length (truncate_message (concat cs)) + 3"
proof -
  let ?m = "concat cs"
  let ?b = "boundary_below ?m MAX_ERROR_MESSAGE_BYTES"
  show "\<exists>k. truncate_message ?m = concat (take k cs)"
  proof (cases "MAX_ERROR_MESSAGE_BYTES < length ?m")
    case True
    then have "?b \<le> length ?m"
      using boundary_below_le [of ?m MAX_ERROR_MESSAGE_BYTES] by linarith
    with True show ?thesis
      using utf8_boundary_split [OF assms boundary_below_boundary] by (simp add: truncate_message_def)
  next
    case False
    then show ?thesis
      by (intro exI [of _ "length cs"]) (simp add: truncate_message_def)
  qed
  assume long: "MAX_ERROR_MESSAGE_BYTES < length ?m"
  obtain j where "j \<le> MAX_ERROR_MESSAGE_BYTES" "MAX_ERROR_MESSAGE_BYTES \<le> j + 3" "is_char_boundary ?m j"
    using utf8_boundary_near [OF assms, of MAX_ERROR_MESSAGE_BYTES] long by auto
  then have "MAX_ERROR_MESSAGE_BYTES \<le> ?b + 3"
    using boundary_below_max [of j MAX_ERROR_MESSAGE_BYTES ?m] by linarith
  moreover have "?b \<le> length ?m"
    using boundary_below_le [of ?m MAX_ERROR_MESSAGE_BYTES] long by linarith
  ultimately show "MAX_ERROR_MESSAGE_BYTES \<le> length (truncate_message ?m) + 3"
    using long by (simp add: truncate_message_def)
qed

lemma truncate_message_length: "length (truncate_message m) \<le> MAX_ERROR_MESSAGE_BYTES"
  using boundary_below_le [of m MAX_ERROR_MESSAGE_BYTES] by (auto simp: truncate_message_def)

lemma truncate_message_idem [simp]: "truncate_message (truncate_message m) = truncate_message m"
  using truncate_message_length [of m] by (simp add: truncate_message_def [of "truncate_message m"])

text \<open>
  A diagnostic is never longer than 4096 bytes; what is kept of a UTF-8 message is a
  prefix of whole characters, and at most three bytes are given up to reach a character boundary.
\<close>

theorem truncate_message_utf8:
  assumes "list_all utf8_char cs"
  shows "length (truncate_message (concat cs)) \<le> MAX_ERROR_MESSAGE_BYTES
    \<and> (\<exists>k. truncate_message (concat cs) = concat (take k cs))
    \<and> (length (concat cs) \<le> MAX_ERROR_MESSAGE_BYTES \<longrightarrow> truncate_message (concat cs) = concat cs)
    \<and> (MAX_ERROR_MESSAGE_BYTES < length (concat cs) \<longrightarrow>
         MAX_ERROR_MESSAGE_BYTES \<le> length (truncate_message (concat cs)) + 3)"
  using truncate_message_spec [OF assms] truncate_message_length [of "concat cs"]
  by (simp add: truncate_message_def)

theorem truncate_message_utf8_witness:
  "4096 \<le> length (truncate_message (concat (replicate 2049 [0xC3, 0xA9]))) + 3"
  using truncate_message_utf8 [of "replicate 2049 [0xC3, 0xA9]"]
  by (simp add: MAX_ERROR_MESSAGE_BYTES_def list_all_iff is_continuation_def length_concat sum_list_replicate)

subsection \<open>The serial map\<close>

text \<open>A callback that records the items it is called on.\<close>

definition traced :: "('t \<Rightarrow> ('e, 'u) result) \<Rightarrow> 't list \<Rightarrow> 't \<Rightarrow> 't list \<times> ('e, 'u) result" where
  "traced g seen x = (seen @ [x], g x)"

lemma map_loop_traced:
  "map_loop ts (traced g) i out seen items =
     (case dropWhile (\<lambda>x. is_ok (g x)) items of
        [] \<Rightarrow> (seen @ items, Ok (out @ map (\<lambda>x. projr (g x)) items))
      | x # rest \<Rightarrow>
          (let good = takeWhile (\<lambda>x. is_ok (g x)) items
           in (seen @ good @ [x], Err (map_error_new ts (i + length good) (projl (g x))))))"
proof (induction items arbitrary: i out seen)
  case Nil
  then show ?case by simp
next
  case (Cons x items)
  then show ?case
    by (cases "g x") (auto simp: traced_def Let_def simp del: dropWhile_eq_Nil_conv split: list.splits)
qed

text \<open>
  The serial \<open>map\<close> calls the callback on the items in order, once each, up to the first
  that fails; it returns all the values in order, or the index and bounded message of that
  first failure.
\<close>

theorem map_items_first_error:
  "map_items ts (traced g) [] items =
     (case dropWhile (\<lambda>x. is_ok (g x)) items of
        [] \<Rightarrow> (items, Ok (map (\<lambda>x. projr (g x)) items))
      | x # rest \<Rightarrow>
          (let good = takeWhile (\<lambda>x. is_ok (g x)) items
           in (good @ [x], Err \<lparr>me_index = length good, me_message = truncate_message (ts (projl (g x)))\<rparr>)))"
  by (cases "dropWhile (\<lambda>x. is_ok (g x)) items")
    (simp_all add: map_items_def map_loop_traced map_error_new_def Let_def
      del: dropWhile_eq_Nil_conv)

end
