(* ===== verification/Wire.thy ===== *)
theory Wire
  imports MapSerial
begin

text \<open>
  The MPI wire of the collectives (\<open>src/wire.rs\<close>): the 28-byte frame header, its
  validation, the serde payload codec, checked MPI counts, and the total order of error keys by
  which all ranks agree on one failure. The \<open>bincode\<close> crate is a parameter: an encoder and a
  decoder that also reports how many bytes it used. Ranks and world sizes (\<open>i32\<close>) are integers.
\<close>

subsection \<open>Message kinds and statuses\<close>

definition PROTOCOL_VERSION :: u16 where
  "PROTOCOL_VERSION = 1"

definition MAX_WIRE_BYTES :: nat where
  "MAX_WIRE_BYTES = 2147483647"

definition HEADER_LEN :: usize where
  "HEADER_LEN = 28"

definition NO_ERROR_KEY :: int where
  "NO_ERROR_KEY = 9223372036854775807"

datatype message_kind =
  MkReady | MkTask | MkResult | MkStop | MkDrain | MkBroadcast | MkScatter | MkGather

datatype message_status = StNone | StOk | StError

datatype wire_error =
    InvalidHeaderSize usize | InvalidVersion u16 u16 | InvalidKind u8 | InvalidStatus u8
  | StatusKindMismatch message_kind message_status | PayloadTooLarge u64 | CountOverflow u64
  | UsizeOverflow u64 | EncodeError bytes | DecodeError bytes | TrailingBytes usize usize
  | InvalidWorldSize int | InvalidRank int int | ErrorKeyOverflow | NoErrorKey

fun kind_code :: "message_kind \<Rightarrow> u8" where
  "kind_code MkReady = 0"
| "kind_code MkTask = 1"
| "kind_code MkResult = 2"
| "kind_code MkStop = 3"
| "kind_code MkDrain = 4"
| "kind_code MkBroadcast = 5"
| "kind_code MkScatter = 6"
| "kind_code MkGather = 7"

definition kind_try_from :: "u8 \<Rightarrow> (wire_error, message_kind) result" where
  "kind_try_from v =
     (if v = 0 then Ok MkReady else if v = 1 then Ok MkTask else if v = 2 then Ok MkResult
      else if v = 3 then Ok MkStop else if v = 4 then Ok MkDrain else if v = 5 then Ok MkBroadcast
      else if v = 6 then Ok MkScatter else if v = 7 then Ok MkGather else Err (InvalidKind v))"

fun status_code :: "message_status \<Rightarrow> u8" where
  "status_code StNone = 0"
| "status_code StOk = 1"
| "status_code StError = 2"

definition status_try_from :: "u8 \<Rightarrow> (wire_error, message_status) result" where
  "status_try_from v =
     (if v = 0 then Ok StNone else if v = 1 then Ok StOk else if v = 2 then Ok StError
      else Err (InvalidStatus v))"

subsection \<open>Headers\<close>

record header =
  hd_version :: u16
  hd_kind :: message_kind
  hd_status :: message_status
  hd_batch_id :: u64
  hd_item_count :: u64
  hd_payload_len :: u64

fun status_allowed :: "message_kind \<Rightarrow> message_status \<Rightarrow> bool" where
  "status_allowed MkResult s \<longleftrightarrow> s = StOk \<or> s = StError"
| "status_allowed k s \<longleftrightarrow> s = StNone"

definition validate_status :: "message_kind \<Rightarrow> message_status \<Rightarrow> (wire_error, unit) result" where
  "validate_status k s = ensure (status_allowed k s) (StatusKindMismatch k s)"

definition validate_payload_len :: "u64 \<Rightarrow> (wire_error, unit) result" where
  "validate_payload_len n = ensure (unat n \<le> MAX_WIRE_BYTES) (PayloadTooLarge n)"

definition header_new ::
  "message_kind \<Rightarrow> message_status \<Rightarrow> u64 \<Rightarrow> u64 \<Rightarrow> u64 \<Rightarrow> (wire_error, header) result"
where
  "header_new k s bid items len =
     res_bind (validate_status k s) (\<lambda>_. res_bind (validate_payload_len len) (\<lambda>_.
       Ok \<lparr>hd_version = PROTOCOL_VERSION, hd_kind = k, hd_status = s, hd_batch_id = bid,
           hd_item_count = items, hd_payload_len = len\<rparr>))"

definition header_encode :: "header \<Rightarrow> bytes" where
  "header_encode h =
     u16_le (hd_version h) @ [kind_code (hd_kind h)] @ [status_code (hd_status h)]
       @ u64_le (hd_batch_id h) @ u64_le (hd_item_count h) @ u64_le (hd_payload_len h)"

definition header_decode :: "bytes \<Rightarrow> (wire_error, header) result" where
  "header_decode bs =
     (if length bs \<noteq> HEADER_LEN then Err (InvalidHeaderSize (length bs))
      else (let version = from_le (slice_range bs 0 2) in
        if version \<noteq> PROTOCOL_VERSION then Err (InvalidVersion PROTOCOL_VERSION version)
        else res_bind (kind_try_from (bs ! 2)) (\<lambda>k. res_bind (status_try_from (bs ! 3)) (\<lambda>s.
          res_bind (validate_status k s) (\<lambda>_.
            let len = from_le (slice_range bs 20 28) in
            res_bind (validate_payload_len len) (\<lambda>_.
              Ok \<lparr>hd_version = version, hd_kind = k, hd_status = s,
                  hd_batch_id = from_le (slice_range bs 4 12), hd_item_count = from_le (slice_range bs 12 20),
                  hd_payload_len = len\<rparr>))))))"

subsection \<open>Payloads\<close>

definition encode_payload :: "('t \<Rightarrow> (bytes, bytes) result) \<Rightarrow> 't \<Rightarrow> (wire_error, bytes) result" where
  "encode_payload bincode_encode v =
     res_bind (res_map_err (\<lambda>e. EncodeError (truncate_message e)) (bincode_encode v)) (\<lambda>bs.
       res_bind (validate_payload_len (word_of_nat (length bs))) (\<lambda>_. Ok bs))"

definition decode_payload ::
  "(bytes \<Rightarrow> (bytes, 't \<times> usize) result) \<Rightarrow> bytes \<Rightarrow> (wire_error, 't) result"
where
  "decode_payload bincode_decode bs =
     res_bind (validate_payload_len (word_of_nat (length bs))) (\<lambda>_.
       res_bind (res_map_err (\<lambda>e. DecodeError (truncate_message e)) (bincode_decode bs)) (\<lambda>(v, used).
         if used \<noteq> length bs then Err (TrailingBytes used (length bs)) else Ok v))"

definition checked_mpi_count :: "u64 \<Rightarrow> (wire_error, int) result" where
  "checked_mpi_count v = res_bind (ensure (unat v \<le> 2147483647) (CountOverflow v)) (\<lambda>_. Ok (uint v))"

definition checked_usize_length :: "u64 \<Rightarrow> (wire_error, usize) result" where
  "checked_usize_length v = (if unat v \<le> USIZE_MAX then Ok (unat v) else Err (UsizeOverflow v))"

text \<open>The codec gives back a value it has encoded, in no more bytes than a frame may carry.\<close>

definition carries :: "('a \<Rightarrow> (bytes, bytes) result) \<Rightarrow> (bytes \<Rightarrow> (bytes, 'a \<times> usize) result) \<Rightarrow> 'a \<Rightarrow> bool" where
  "carries enc dec v \<longleftrightarrow> (case enc v of Inl _ \<Rightarrow> False | Inr bs \<Rightarrow> length bs \<le> MAX_WIRE_BYTES \<and> dec bs = Ok (v, length bs))"

subsection \<open>Error keys\<close>

datatype error_class = WireProtocol | Callback | DrainFault

fun class_code :: "error_class \<Rightarrow> nat" where
  "class_code WireProtocol = 0"
| "class_code Callback = 1"
| "class_code DrainFault = 2"

definition CLASS_COUNT :: nat where
  "CLASS_COUNT = 3"

definition validate_world_rank :: "int \<Rightarrow> int \<Rightarrow> (wire_error, unit) result" where
  "validate_world_rank rank world_size =
     (if world_size \<le> 0 then Err (InvalidWorldSize world_size)
      else if rank < 0 \<or> world_size \<le> rank then Err (InvalidRank rank world_size)
      else Ok ())"

definition error_key_new :: "u64 \<Rightarrow> error_class \<Rightarrow> int \<Rightarrow> int \<Rightarrow> (wire_error, int) result" where
  "error_key_new task_key cl rank world_size =
     res_bind (validate_world_rank rank world_size) (\<lambda>_.
       let v = (uint task_key * int CLASS_COUNT + int (class_code cl)) * world_size + rank
       in if NO_ERROR_KEY \<le> v then Err ErrorKeyOverflow else Ok v)"

text \<open>The key of an \<open>ErrorKey\<close> is never negative, so \<open>%\<close> and \<open>mod\<close> agree on it.\<close>

definition checked_reporting_rank :: "int \<Rightarrow> int \<Rightarrow> (wire_error, int) result" where
  "checked_reporting_rank key world_size =
     (if world_size \<le> 0 then Err (InvalidWorldSize world_size)
      else if key = NO_ERROR_KEY then Err NoErrorKey
      else Ok (key mod world_size))"

definition preflight_candidate :: "bool \<Rightarrow> int \<Rightarrow> int \<Rightarrow> (wire_error, int) result" where
  "preflight_candidate fl rank world_size =
     res_bind (validate_world_rank rank world_size) (\<lambda>_. Ok (if fl then rank else world_size))"

subsection \<open>The header codec\<close>

lemma kind_try_from_Ok: "kind_try_from v = Ok k \<longleftrightarrow> v = kind_code k"
  by (cases k) (auto simp: kind_try_from_def)

lemma status_try_from_Ok: "status_try_from v = Ok s \<longleftrightarrow> v = status_code s"
  by (cases s) (auto simp: status_try_from_def)

lemma try_from_code [simp]: "kind_try_from (kind_code k) = Ok k" "status_try_from (status_code s) = Ok s"
  by (simp_all add: kind_try_from_Ok status_try_from_Ok)

lemma header_split:
  assumes "length bs = 28"
  shows "bs = slice_range bs 0 2 @ [bs ! 2] @ [bs ! 3] @ slice_range bs 4 12 @ slice_range bs 12 20 @ slice_range bs 20 28"
proof -
  have "bs = slice_range bs 0 2 @ slice_range bs 2 3 @ slice_range bs 3 4 @ slice_range bs 4 12 @ slice_range bs 12 20 @ slice_range bs 20 28"
    using assms by (simp add: slice_join slice_full)
  then show ?thesis
    using assms slice_one [of 2 bs] slice_one [of 3 bs] by simp
qed

lemma header_encode_slices:
  "slice_range (header_encode h) 0 2 = u16_le (hd_version h)" "header_encode h ! 2 = kind_code (hd_kind h)"
  "header_encode h ! 3 = status_code (hd_status h)"
  "slice_range (header_encode h) 4 12 = u64_le (hd_batch_id h)"
  "slice_range (header_encode h) 12 20 = u64_le (hd_item_count h)"
  "slice_range (header_encode h) 20 28 = u64_le (hd_payload_len h)" "length (header_encode h) = 28"
  by (simp_all add: header_encode_def slice_append_left slice_append_right slice_full slice_range_def nth_append)

definition header_valid :: "header \<Rightarrow> bool" where
  "header_valid h \<longleftrightarrow> hd_version h = PROTOCOL_VERSION \<and> status_allowed (hd_kind h) (hd_status h)
     \<and> unat (hd_payload_len h) \<le> MAX_WIRE_BYTES"

lemma header_decode_encode: "header_valid h \<Longrightarrow> header_decode (header_encode h) = Ok h"
  by (simp add: header_decode_def HEADER_LEN_def header_encode_slices header_valid_def Let_def
      validate_status_def validate_payload_len_def)

lemma header_encode_decode: "header_decode bs = Ok h \<Longrightarrow> header_valid h \<and> header_encode h = bs"
proof -
  assume dec: "header_decode bs = Ok h"
  then have len: "length bs = 28"
    by (simp add: header_decode_def HEADER_LEN_def split: if_splits)
  have h: "hd_version h = from_le (slice_range bs 0 2)" "bs ! 2 = kind_code (hd_kind h)"
      "bs ! 3 = status_code (hd_status h)" "hd_batch_id h = from_le (slice_range bs 4 12)"
      "hd_item_count h = from_le (slice_range bs 12 20)" "hd_payload_len h = from_le (slice_range bs 20 28)"
      "header_valid h"
    using dec by (auto simp: header_decode_def header_valid_def Let_def kind_try_from_Ok
        status_try_from_Ok validate_status_def validate_payload_len_def split: if_splits)
  have "header_encode h = slice_range bs 0 2 @ [bs ! 2] @ [bs ! 3] @ slice_range bs 4 12 @ slice_range bs 12 20 @ slice_range bs 20 28"
    using len by (simp add: header_encode_def h(1-6) int_le_from_le length_slice)
  with h(7) show ?thesis
    using header_split [OF len] by simp
qed

text \<open>
  The header codec is exact: the byte strings that decode are precisely the encodings of
  the headers with the protocol version, a status allowed for the kind and a payload length an
  MPI count can carry, and each decodes to the header it encodes. Any other byte string,
  whatever its length, is refused.
\<close>

theorem header_codec_exact:
  "header_decode bs = Ok h \<longleftrightarrow>
     (header_new (hd_kind h) (hd_status h) (hd_batch_id h) (hd_item_count h) (hd_payload_len h) = Ok h
      \<and> bs = header_encode h)"
proof -
  have "header_new (hd_kind h) (hd_status h) (hd_batch_id h) (hd_item_count h) (hd_payload_len h) = Ok h
      \<longleftrightarrow> header_valid h"
    by (cases h) (auto simp: header_new_def header_valid_def validate_status_def validate_payload_len_def)
  then show ?thesis
    using header_decode_encode [of h] header_encode_decode [of bs h] by auto
qed

subsection \<open>Payload round trip\<close>

lemma payload_roundtrip:
  assumes "bincode_encode v = Ok bs" "bincode_decode bs = Ok (v, length bs)"
    and "encode_payload bincode_encode v = Ok bs'"
  shows "decode_payload bincode_decode bs' = Ok v"
  using assms by (auto simp: encode_payload_def decode_payload_def)

lemma wire_len: "len \<le> MAX_WIRE_BYTES \<Longrightarrow> unat (word_of_nat len :: u64) = len"
  by (simp add: MAX_WIRE_BYTES_def unat_of_nat take_bit_nat_eq_self_iff)

subsection \<open>Error keys order failures\<close>

lemma class_code_less: "class_code cl < CLASS_COUNT"
  by (cases cl) (simp_all add: CLASS_COUNT_def)

lemma class_code_inj: "class_code a = class_code b \<longleftrightarrow> a = b"
  by (cases a; cases b) auto

lemma mixed_radix_less:
  fixes a b :: int
  assumes "0 \<le> r" "r < n" "0 \<le> s" "s < n"
  shows "a * n + r < b * n + s \<longleftrightarrow> a < b \<or> (a = b \<and> r < s)"
proof -
  consider "a < b" | "a = b" | "b < a" by linarith
  then show ?thesis
  proof cases
    case 1
    have "a * n + r < (a + 1) * n"
      using assms by (simp add: distrib_right)
    also have "\<dots> \<le> b * n"
      using 1 assms by (intro mult_right_mono) auto
    finally show ?thesis
      using 1 assms by simp
  next
    case 2
    then show ?thesis by simp
  next
    case 3
    have "b * n + s < (b + 1) * n"
      using assms by (simp add: distrib_right)
    also have "\<dots> \<le> a * n"
      using 3 assms by (intro mult_right_mono) auto
    finally show ?thesis
      using 3 assms by simp
  qed
qed

lemma error_key_new_Ok:
  "error_key_new t cl r n = Ok k \<longleftrightarrow>
     0 \<le> r \<and> r < n \<and> k = (uint t * 3 + int (class_code cl)) * n + r \<and> k < NO_ERROR_KEY"
  by (auto simp: error_key_new_def validate_world_rank_def Let_def CLASS_COUNT_def)

text \<open>
  Error keys of one communicator are ordered as triples of task, error class and reporting
  rank, are distinct for distinct triples, lie below the no-error value, and give back the
  reporting rank: the minimum over all ranks is the same first failure everywhere.
\<close>

theorem error_key_lexicographic:
  assumes "error_key_new t1 c1 r1 n = Ok k1" "error_key_new t2 c2 r2 n = Ok k2"
  shows "(k1 < k2 \<longleftrightarrow>
      t1 < t2 \<or> t1 = t2 \<and> (class_code c1 < class_code c2 \<or> c1 = c2 \<and> r1 < r2))
    \<and> (k1 = k2 \<longleftrightarrow> t1 = t2 \<and> c1 = c2 \<and> r1 = r2)
    \<and> 0 \<le> k1 \<and> k1 < NO_ERROR_KEY \<and> checked_reporting_rank k1 n = Ok r1"
proof -
  let ?a = "\<lambda>t cl. uint t * 3 + int (class_code cl)"
  have r: "0 \<le> r1" "r1 < n" "0 \<le> r2" "r2 < n" and k: "k1 = ?a t1 c1 * n + r1" "k2 = ?a t2 c2 * n + r2"
      and small: "k1 < NO_ERROR_KEY"
    using assms by (auto simp: error_key_new_Ok)
  have c: "int (class_code x) < 3" for x
    using class_code_less [of x] by (simp add: CLASS_COUNT_def)
  have digits: "?a x y < ?a x' y' \<longleftrightarrow> x < x' \<or> (x = x' \<and> class_code y < class_code y')"
    for x x' :: u64 and y y'
    using mixed_radix_less [of "int (class_code y)" 3 "int (class_code y')" "uint x" "uint x'"] c
    by (auto simp: word_less_def word_uint_eq_iff)
  have eq: "?a t1 c1 = ?a t2 c2 \<longleftrightarrow> t1 = t2 \<and> c1 = c2"
    using digits [of t1 c1 t2 c2] digits [of t2 c2 t1 c1] by (auto simp: class_code_inj)
  have less: "k1 < k2 \<longleftrightarrow> ?a t1 c1 < ?a t2 c2 \<or> (?a t1 c1 = ?a t2 c2 \<and> r1 < r2)"
    unfolding k by (rule mixed_radix_less [OF r])
  have greater: "k2 < k1 \<longleftrightarrow> ?a t2 c2 < ?a t1 c1 \<or> (?a t2 c2 = ?a t1 c1 \<and> r2 < r1)"
    unfolding k by (rule mixed_radix_less [OF r(3,4,1,2)])
  have "k1 = k2 \<longleftrightarrow> t1 = t2 \<and> c1 = c2 \<and> r1 = r2"
    using less greater eq by (metis linorder_neqE less_irrefl)
  moreover have "k1 < k2 \<longleftrightarrow> t1 < t2 \<or> t1 = t2 \<and> (class_code c1 < class_code c2 \<or> c1 = c2 \<and> r1 < r2)"
    unfolding less eq digits by auto
  moreover have "0 \<le> k1"
    using r k by simp
  moreover have "checked_reporting_rank k1 n = Ok r1"
    using r k small by (simp add: checked_reporting_rank_def)
  ultimately show ?thesis using small by blast
qed

theorem error_key_lexicographic_witness:
  "checked_reporting_rank 10 4 = Ok 2 \<and> (10 :: int) < 11"
  using error_key_lexicographic [of 0 DrainFault 2 4 10 0 DrainFault 3 11]
  by (simp add: error_key_new_Ok NO_ERROR_KEY_def)

end
