(* ===== verification/Protocol.thy ===== *)
theory Protocol
  imports Prelude
begin

text \<open>
  Identities, limits, the handshake and parcel framing of the runtime foundation
  (\<open>crates/hataori-runtime-foundation/src/protocol.rs\<close>). An identity newtype is its integer; the
  constructors that refuse zero are functions, and a decoded value is known to have passed them.
  Fixed-size byte arrays are lists whose length the theorems state.
\<close>

subsection \<open>Errors and identities\<close>

datatype protocol_error =
    InvalidMagic | InvalidProtocolVersion u32 | InvalidLength usize usize | LengthOverflow
  | ZeroId string | InvalidChannel u8 | InvalidParcelKind u8 | InvalidTraceFlag u8 | InvalidLimits
  | RunMismatch | RuntimeVersionMismatch | ActionRegistryMismatch | ObjectRegistryMismatch
  | TooManySegments usize usize | ParcelPayloadTooLarge usize usize | FrameTooLarge usize usize
  | PayloadLengthMismatch usize usize | TrailingInput usize

type_synonym run_id = u128
type_synonym locality_id = u64
type_synonym domain_id = u32
type_synonym message_id = u128
type_synonym task_id = u128
type_synonym action_id = u128
type_synonym object_type_id = u128
type_synonym trace_id = u128

definition run_id_new :: "u128 \<Rightarrow> (protocol_error, run_id) result" where
  "run_id_new v = (if v \<noteq> 0 then Ok v else Err (ZeroId ''RunId''))"

text \<open>The macro \<open>nonzero_u128_id\<close>, at the type whose name it is given.\<close>

definition nonzero_u128_id :: "string \<Rightarrow> u128 \<Rightarrow> (protocol_error, u128) result" where
  "nonzero_u128_id name v = (if v \<noteq> 0 then Ok v else Err (ZeroId name))"

record object_id =
  oid_run :: run_id
  oid_unique :: u128

definition object_id_new :: "run_id \<Rightarrow> u128 \<Rightarrow> (protocol_error, object_id) result" where
  "object_id_new run unique =
     (if unique \<noteq> 0 then Ok \<lparr>oid_run = run, oid_unique = unique\<rparr> else Err (ZeroId ''ObjectId.unique''))"

record object_location =
  loc_locality :: locality_id
  loc_domain :: domain_id
  loc_slot :: u64
  loc_generation :: u32
  loc_epoch :: u64

definition object_location_new ::
  "locality_id \<Rightarrow> domain_id \<Rightarrow> u64 \<Rightarrow> u32 \<Rightarrow> u64 \<Rightarrow> (protocol_error, object_location) result"
where
  "object_location_new locality domain slot gen epoch =
     (if slot = 0 then Err (ZeroId ''ObjectLocation.slot'')
      else if gen = 0 then Err (ZeroId ''ObjectLocation.generation'')
      else if epoch = 0 then Err (ZeroId ''ObjectLocation.epoch'')
      else Ok \<lparr>loc_locality = locality, loc_domain = domain, loc_slot = slot,
               loc_generation = gen, loc_epoch = epoch\<rparr>)"

record request_id =
  req_origin :: locality_id
  req_sequence :: u64

definition request_id_new :: "locality_id \<Rightarrow> u64 \<Rightarrow> (protocol_error, request_id) result" where
  "request_id_new origin seq =
     (if seq \<noteq> 0 then Ok \<lparr>req_origin = origin, req_sequence = seq\<rparr>
      else Err (ZeroId ''RequestId.sequence''))"

record runtime_version =
  rv_major :: u16
  rv_minor :: u16
  rv_patch :: u16

datatype channel = ChControl | ChAction | ChBulk

fun channel_code :: "channel \<Rightarrow> u8" where
  "channel_code ChControl = 0"
| "channel_code ChAction = 1"
| "channel_code ChBulk = 2"

definition channel_try_from :: "u8 \<Rightarrow> (protocol_error, channel) result" where
  "channel_try_from v =
     (if v = 0 then Ok ChControl else if v = 1 then Ok ChAction else if v = 2 then Ok ChBulk
      else Err (InvalidChannel v))"

datatype parcel_kind = PkControl | PkData | PkShutdown

fun parcel_kind_code :: "parcel_kind \<Rightarrow> u8" where
  "parcel_kind_code PkControl = 0"
| "parcel_kind_code PkData = 1"
| "parcel_kind_code PkShutdown = 2"

definition parcel_kind_try_from :: "u8 \<Rightarrow> (protocol_error, parcel_kind) result" where
  "parcel_kind_try_from v =
     (if v = 0 then Ok PkControl else if v = 1 then Ok PkData else if v = 2 then Ok PkShutdown
      else Err (InvalidParcelKind v))"

subsection \<open>Limits\<close>

definition HELLO_MAGIC :: bytes where
  "HELLO_MAGIC = [0x48, 0x54, 0x48, 0x4C]"

definition PARCEL_MAGIC :: bytes where
  "PARCEL_MAGIC = [0x48, 0x54, 0x50, 0x52]"

definition FOUNDATION_VERSION :: u32 where
  "FOUNDATION_VERSION = 1"

definition HELLO_BYTES :: usize where
  "HELLO_BYTES = 142"

definition PARCEL_FIXED_BYTES :: usize where
  "PARCEL_FIXED_BYTES = 87"

record protocol_limits =
  max_frame_bytes :: usize
  max_payload_bytes :: usize
  max_segments :: usize
  max_queued_parcels_per_peer :: usize
  max_inflight_bytes_per_peer :: usize
  control_reserved_bytes_per_peer :: usize

definition limits_validate :: "protocol_limits \<Rightarrow> (protocol_error, protocol_limits) result" where
  "limits_validate l =
     (if max_frame_bytes l < PARCEL_FIXED_BYTES \<or> max_payload_bytes l = 0 \<or> max_segments l = 0
         \<or> max_queued_parcels_per_peer l = 0 \<or> max_inflight_bytes_per_peer l = 0
         \<or> control_reserved_bytes_per_peer l = 0
         \<or> max_inflight_bytes_per_peer l \<le> control_reserved_bytes_per_peer l
      then Err InvalidLimits else Ok l)"

definition limits_negotiate ::
  "protocol_limits \<Rightarrow> protocol_limits \<Rightarrow> (protocol_error, protocol_limits) result"
where
  "limits_negotiate l peer =
     res_bind (limits_validate l) (\<lambda>_. res_bind (limits_validate peer) (\<lambda>_.
       limits_validate
         \<lparr>max_frame_bytes = min (max_frame_bytes l) (max_frame_bytes peer),
          max_payload_bytes = min (max_payload_bytes l) (max_payload_bytes peer),
          max_segments = min (max_segments l) (max_segments peer),
          max_queued_parcels_per_peer =
            min (max_queued_parcels_per_peer l) (max_queued_parcels_per_peer peer),
          max_inflight_bytes_per_peer =
            min (max_inflight_bytes_per_peer l) (max_inflight_bytes_per_peer peer),
          control_reserved_bytes_per_peer =
            min (control_reserved_bytes_per_peer l) (control_reserved_bytes_per_peer peer)\<rparr>))"

definition limits_default :: protocol_limits where
  "limits_default = \<lparr>max_frame_bytes = 16 * 1024 * 1024, max_payload_bytes = 8 * 1024 * 1024,
     max_segments = 1024, max_queued_parcels_per_peer = 256,
     max_inflight_bytes_per_peer = 16 * 1024 * 1024, control_reserved_bytes_per_peer = 64 * 1024\<rparr>"

subsection \<open>Handshake records and parcels\<close>

record hello =
  hello_run_id :: run_id
  hello_runtime_version :: runtime_version
  action_registry_hash :: bytes
  object_registry_hash :: bytes
  capabilities :: u64
  hello_limits :: protocol_limits

record negotiated_hello =
  neg_capabilities :: u64
  neg_limits :: protocol_limits

unbundle bit_operations_syntax

definition validate_peer :: "hello \<Rightarrow> hello \<Rightarrow> (protocol_error, negotiated_hello) result" where
  "validate_peer h peer =
     (if hello_run_id h \<noteq> hello_run_id peer then Err RunMismatch
      else if hello_runtime_version h \<noteq> hello_runtime_version peer then Err RuntimeVersionMismatch
      else if action_registry_hash h \<noteq> action_registry_hash peer then Err ActionRegistryMismatch
      else if object_registry_hash h \<noteq> object_registry_hash peer then Err ObjectRegistryMismatch
      else res_bind (limits_negotiate (hello_limits h) (hello_limits peer)) (\<lambda>l.
        Ok \<lparr>neg_capabilities = capabilities h AND capabilities peer, neg_limits = l\<rparr>))"

record parcel =
  p_run_id :: run_id
  p_message_id :: message_id
  p_channel :: channel
  p_kind :: parcel_kind
  p_source :: locality_id
  p_destination :: locality_id
  p_trace_id :: "trace_id option"
  p_segments :: segments

definition payload_len :: "parcel \<Rightarrow> (protocol_error, usize) result" where
  "payload_len p = ok_or (checked_total (p_segments p)) LengthOverflow"

definition encoded_len :: "parcel \<Rightarrow> (protocol_error, usize) result" where
  "encoded_len p =
     res_bind (payload_len p) (\<lambda>payload.
       res_bind (ok_or (checked_mul_usize (length (p_segments p)) 8) LengthOverflow) (\<lambda>table.
         ok_or (Option.bind (checked_add_usize PARCEL_FIXED_BYTES table)
                  (\<lambda>v. checked_add_usize v payload)) LengthOverflow))"

definition parcel_validate :: "parcel \<Rightarrow> protocol_limits \<Rightarrow> (protocol_error, unit) result" where
  "parcel_validate p l =
     res_bind (limits_validate l) (\<lambda>_.
       if max_segments l < length (p_segments p)
       then Err (TooManySegments (length (p_segments p)) (max_segments l))
       else res_bind (payload_len p) (\<lambda>payload.
         if max_payload_bytes l < payload then Err (ParcelPayloadTooLarge payload (max_payload_bytes l))
         else res_bind (encoded_len p) (\<lambda>frame.
           if max_frame_bytes l < frame then Err (FrameTooLarge frame (max_frame_bytes l))
           else Ok ())))"

subsection \<open>Reader\<close>

record reader =
  rd_bytes :: bytes
  rd_offset :: usize

definition reader_new :: "bytes \<Rightarrow> reader" where
  "reader_new bs = \<lparr>rd_bytes = bs, rd_offset = 0\<rparr>"

definition rd_take :: "usize \<Rightarrow> reader \<Rightarrow> (protocol_error, bytes \<times> reader) result" where
  "rd_take n r =
     res_bind (ok_or (checked_add_usize (rd_offset r) n) LengthOverflow) (\<lambda>e.
       if length (rd_bytes r) < e then Err (InvalidLength e (length (rd_bytes r)))
       else Ok (slice_range (rd_bytes r) (rd_offset r) e, r\<lparr>rd_offset := e\<rparr>))"

definition rd_u8 :: "reader \<Rightarrow> (protocol_error, u8 \<times> reader) result" where
  "rd_u8 r = res_bind (rd_take 1 r) (\<lambda>(x, r'). Ok (x ! 0, r'))"

definition rd_u16 :: "reader \<Rightarrow> (protocol_error, u16 \<times> reader) result" where
  "rd_u16 r = res_bind (rd_take 2 r) (\<lambda>(x, r'). Ok (from_le x, r'))"

definition rd_u32 :: "reader \<Rightarrow> (protocol_error, u32 \<times> reader) result" where
  "rd_u32 r = res_bind (rd_take 4 r) (\<lambda>(x, r'). Ok (from_le x, r'))"

definition rd_u64 :: "reader \<Rightarrow> (protocol_error, u64 \<times> reader) result" where
  "rd_u64 r = res_bind (rd_take 8 r) (\<lambda>(x, r'). Ok (from_le x, r'))"

definition rd_u128 :: "reader \<Rightarrow> (protocol_error, u128 \<times> reader) result" where
  "rd_u128 r = res_bind (rd_take 16 r) (\<lambda>(x, r'). Ok (from_le x, r'))"

definition rd_array_32 :: "reader \<Rightarrow> (protocol_error, bytes \<times> reader) result" where
  "rd_array_32 r = rd_take 32 r"

definition rd_finish :: "reader \<Rightarrow> (protocol_error, unit) result" where
  "rd_finish r =
     (if rd_offset r = length (rd_bytes r) then Ok ()
      else Err (TrailingInput (length (rd_bytes r) - rd_offset r)))"

subsection \<open>Codecs\<close>

text \<open>\<open>usize::try_into\<close> at the two widths, and back.\<close>

definition try_u64 :: "usize \<Rightarrow> (protocol_error, u64) result" where
  "try_u64 n = (if n < 2 ^ 64 then Ok (word_of_nat n) else Err LengthOverflow)"

definition try_u32 :: "usize \<Rightarrow> (protocol_error, u32) result" where
  "try_u32 n = (if n < 2 ^ 32 then Ok (word_of_nat n) else Err LengthOverflow)"

definition try_usize :: "'a::len word \<Rightarrow> (protocol_error, usize) result" where
  "try_usize w = (if unat w \<le> USIZE_MAX then Ok (unat w) else Err LengthOverflow)"

definition encode_hello :: "hello \<Rightarrow> (protocol_error, bytes) result" where
  "encode_hello h =
     (let l = hello_limits h; v = hello_runtime_version h in
      res_bind (limits_validate l) (\<lambda>_.
      res_bind (try_u64 (max_frame_bytes l)) (\<lambda>frame.
      res_bind (try_u64 (max_payload_bytes l)) (\<lambda>payload.
      res_bind (try_u32 (max_segments l)) (\<lambda>segs.
      res_bind (try_u32 (max_queued_parcels_per_peer l)) (\<lambda>queued.
      res_bind (try_u64 (max_inflight_bytes_per_peer l)) (\<lambda>inflight.
      res_bind (try_u64 (control_reserved_bytes_per_peer l)) (\<lambda>control.
        Ok (HELLO_MAGIC @ u32_le FOUNDATION_VERSION @ u128_le (hello_run_id h)
          @ u16_le (rv_major v) @ u16_le (rv_minor v) @ u16_le (rv_patch v)
          @ action_registry_hash h @ object_registry_hash h @ u64_le (capabilities h)
          @ u64_le frame @ u64_le payload @ u32_le segs @ u32_le queued
          @ u64_le inflight @ u64_le control)))))))))"

definition decode_hello :: "bytes \<Rightarrow> (protocol_error, hello) result" where
  "decode_hello bs =
     (if length bs \<noteq> HELLO_BYTES then Err (InvalidLength HELLO_BYTES (length bs))
      else
      res_bind (rd_take 4 (reader_new bs)) (\<lambda>(magic, r).
      if magic \<noteq> HELLO_MAGIC then Err InvalidMagic else
      res_bind (rd_u32 r) (\<lambda>(version, r).
      if version \<noteq> FOUNDATION_VERSION then Err (InvalidProtocolVersion version) else
      res_bind (rd_u128 r) (\<lambda>(raw, r). res_bind (run_id_new raw) (\<lambda>run.
      res_bind (rd_u16 r) (\<lambda>(major, r). res_bind (rd_u16 r) (\<lambda>(minor, r). res_bind (rd_u16 r) (\<lambda>(patch, r).
      res_bind (rd_array_32 r) (\<lambda>(ah, r). res_bind (rd_array_32 r) (\<lambda>(oh, r).
      res_bind (rd_u64 r) (\<lambda>(caps, r).
      res_bind (rd_u64 r) (\<lambda>(frame, r). res_bind (try_usize frame) (\<lambda>frame.
      res_bind (rd_u64 r) (\<lambda>(payload, r). res_bind (try_usize payload) (\<lambda>payload.
      res_bind (rd_u32 r) (\<lambda>(segs, r). res_bind (try_usize segs) (\<lambda>segs.
      res_bind (rd_u32 r) (\<lambda>(queued, r). res_bind (try_usize queued) (\<lambda>queued.
      res_bind (rd_u64 r) (\<lambda>(inflight, r). res_bind (try_usize inflight) (\<lambda>inflight.
      res_bind (rd_u64 r) (\<lambda>(control, r). res_bind (try_usize control) (\<lambda>control.
      res_bind (limits_validate
        \<lparr>max_frame_bytes = frame, max_payload_bytes = payload, max_segments = segs,
         max_queued_parcels_per_peer = queued, max_inflight_bytes_per_peer = inflight,
         control_reserved_bytes_per_peer = control\<rparr>) (\<lambda>limits.
      res_bind (rd_finish r) (\<lambda>_.
        Ok \<lparr>hello_run_id = run,
            hello_runtime_version = \<lparr>rv_major = major, rv_minor = minor, rv_patch = patch\<rparr>,
            action_registry_hash = ah, object_registry_hash = oh, capabilities = caps,
            hello_limits = limits\<rparr>)))))))))))))))))))))))))"

text \<open>The two loops of \<open>encode_parcel\<close>: the segment table, then the segments.\<close>

fun encode_lengths :: "segments \<Rightarrow> (protocol_error, bytes) result" where
  "encode_lengths [] = Ok []"
| "encode_lengths (x # xs) =
     res_bind (try_u64 (length x)) (\<lambda>n. res_bind (encode_lengths xs) (\<lambda>rest. Ok (u64_le n @ rest)))"

fun encode_trace :: "trace_id option \<Rightarrow> bytes" where
  "encode_trace (Some t) = [1] @ u128_le t"
| "encode_trace None = [0] @ u128_le 0"

definition encode_parcel :: "parcel \<Rightarrow> protocol_limits \<Rightarrow> (protocol_error, bytes) result" where
  "encode_parcel p l =
     res_bind (parcel_validate p l) (\<lambda>_.
     res_bind (payload_len p) (\<lambda>payload.
     res_bind (ok_or (checked_mul_usize (length (p_segments p)) 8) LengthOverflow) (\<lambda>table_len.
     res_bind (ok_or (Option.bind (checked_add_usize PARCEL_FIXED_BYTES table_len)
                (\<lambda>v. checked_add_usize v payload)) LengthOverflow) (\<lambda>_.
     res_bind (try_u64 payload) (\<lambda>payload.
     res_bind (try_u32 (length (p_segments p))) (\<lambda>count.
     res_bind (encode_lengths (p_segments p)) (\<lambda>table.
       Ok (PARCEL_MAGIC @ u32_le FOUNDATION_VERSION @ u128_le (p_run_id p) @ u128_le (p_message_id p)
         @ [channel_code (p_channel p)] @ [parcel_kind_code (p_kind p)]
         @ u64_le (p_source p) @ u64_le (p_destination p) @ encode_trace (p_trace_id p)
         @ u64_le payload @ u32_le count @ table @ concat (p_segments p)))))))))"

definition decode_trace :: "u8 \<Rightarrow> u128 \<Rightarrow> (protocol_error, trace_id option) result" where
  "decode_trace fl v =
     (if fl = 0 \<and> v = 0 then Ok None
      else if fl = 1 then res_bind (nonzero_u128_id ''TraceId'' v) (\<lambda>t. Ok (Some t))
      else Err (InvalidTraceFlag fl))"

text \<open>The two loops of \<open>decode_parcel\<close>.\<close>

fun read_lengths ::
  "usize \<Rightarrow> nat \<Rightarrow> usize \<Rightarrow> reader \<Rightarrow> (protocol_error, usize list \<times> usize \<times> reader) result"
where
  "read_lengths max_payload 0 tot r = Ok ([], tot, r)"
| "read_lengths max_payload (Suc n) tot r =
     res_bind (rd_u64 r) (\<lambda>(w, r).
     res_bind (try_usize w) (\<lambda>len.
     res_bind (ok_or (checked_add_usize tot len) LengthOverflow) (\<lambda>tot.
     if max_payload < tot then Err (ParcelPayloadTooLarge tot max_payload)
     else res_bind (read_lengths max_payload n tot r) (\<lambda>(lens, tot, r).
       Ok (len # lens, tot, r)))))"

fun read_segments :: "usize list \<Rightarrow> reader \<Rightarrow> (protocol_error, segments \<times> reader) result" where
  "read_segments [] r = Ok ([], r)"
| "read_segments (n # ns) r =
     res_bind (rd_take n r) (\<lambda>(x, r). res_bind (read_segments ns r) (\<lambda>(xs, r). Ok (x # xs, r)))"

definition decode_parcel :: "bytes \<Rightarrow> protocol_limits \<Rightarrow> (protocol_error, parcel) result" where
  "decode_parcel bs l =
     res_bind (limits_validate l) (\<lambda>_.
     if max_frame_bytes l < length bs then Err (FrameTooLarge (length bs) (max_frame_bytes l)) else
     res_bind (rd_take 4 (reader_new bs)) (\<lambda>(magic, r).
     if magic \<noteq> PARCEL_MAGIC then Err InvalidMagic else
     res_bind (rd_u32 r) (\<lambda>(version, r).
     if version \<noteq> FOUNDATION_VERSION then Err (InvalidProtocolVersion version) else
     res_bind (rd_u128 r) (\<lambda>(raw, r). res_bind (run_id_new raw) (\<lambda>run.
     res_bind (rd_u128 r) (\<lambda>(raw, r). res_bind (nonzero_u128_id ''MessageId'' raw) (\<lambda>message.
     res_bind (rd_u8 r) (\<lambda>(raw, r). res_bind (channel_try_from raw) (\<lambda>chan.
     res_bind (rd_u8 r) (\<lambda>(raw, r). res_bind (parcel_kind_try_from raw) (\<lambda>kind.
     res_bind (rd_u64 r) (\<lambda>(source, r). res_bind (rd_u64 r) (\<lambda>(destination, r).
     res_bind (rd_u8 r) (\<lambda>(fl, r). res_bind (rd_u128 r) (\<lambda>(trace_value, r).
     res_bind (decode_trace fl trace_value) (\<lambda>trace.
     res_bind (rd_u64 r) (\<lambda>(raw, r). res_bind (try_usize raw) (\<lambda>declared.
     res_bind (rd_u32 r) (\<lambda>(raw, r). res_bind (try_usize raw) (\<lambda>count.
     if max_segments l < count then Err (TooManySegments count (max_segments l)) else
     if max_payload_bytes l < declared then Err (ParcelPayloadTooLarge declared (max_payload_bytes l)) else
     res_bind (read_lengths (max_payload_bytes l) count 0 r) (\<lambda>(lens, total, r).
     if total \<noteq> declared then Err (PayloadLengthMismatch declared total) else
     res_bind (read_segments lens r) (\<lambda>(segs, r).
     res_bind (rd_finish r) (\<lambda>_.
     let p = \<lparr>p_run_id = run, p_message_id = message, p_channel = chan, p_kind = kind,
              p_source = source, p_destination = destination, p_trace_id = trace, p_segments = segs\<rparr>
     in res_bind (parcel_validate p l) (\<lambda>_. Ok p))))))))))))))))))))))))"

subsection \<open>Readers\<close>

abbreviation rd_at :: "bytes \<Rightarrow> usize \<Rightarrow> reader" where
  "rd_at bs a \<equiv> \<lparr>rd_bytes = bs, rd_offset = a\<rparr>"

lemma rd_take_Ok:
  "length bs \<le> USIZE_MAX \<Longrightarrow> rd_take n (rd_at bs a) = Ok (x, r) \<longleftrightarrow>
     a + n \<le> length bs \<and> x = slice_range bs a (a + n) \<and> r = rd_at bs (a + n)"
  by (auto simp: rd_take_def not_less)

lemma rd_int_Ok:
  assumes "length bs \<le> USIZE_MAX"
  shows "rd_u8 (rd_at bs a) = Ok (u, r) \<longleftrightarrow> a < length bs \<and> u = bs ! a \<and> r = rd_at bs (a + 1)"
    "rd_u16 (rd_at bs a) = Ok (v, r) \<longleftrightarrow>
       a + 2 \<le> length bs \<and> v = from_le (slice_range bs a (a + 2)) \<and> r = rd_at bs (a + 2)"
    "rd_u32 (rd_at bs a) = Ok (w, r) \<longleftrightarrow>
       a + 4 \<le> length bs \<and> w = from_le (slice_range bs a (a + 4)) \<and> r = rd_at bs (a + 4)"
    "rd_u64 (rd_at bs a) = Ok (x, r) \<longleftrightarrow>
       a + 8 \<le> length bs \<and> x = from_le (slice_range bs a (a + 8)) \<and> r = rd_at bs (a + 8)"
    "rd_u128 (rd_at bs a) = Ok (y, r) \<longleftrightarrow>
       a + 16 \<le> length bs \<and> y = from_le (slice_range bs a (a + 16)) \<and> r = rd_at bs (a + 16)"
    "rd_array_32 (rd_at bs a) = Ok (z, r) \<longleftrightarrow>
       a + 32 \<le> length bs \<and> z = slice_range bs a (a + 32) \<and> r = rd_at bs (a + 32)"
  using assms
  by (auto simp: rd_u8_def rd_u16_def rd_u32_def rd_u64_def rd_u128_def rd_array_32_def rd_take_Ok
      slice_one)

lemma rd_finish_Ok: "rd_finish (rd_at bs a) = Ok u \<longleftrightarrow> a = length bs"
  by (simp add: rd_finish_def)

lemma try_u64_Ok: "try_u64 n = Ok w \<longleftrightarrow> n < 2 ^ 64 \<and> w = word_of_nat n"
  by (auto simp: try_u64_def)

lemma try_u32_Ok: "try_u32 n = Ok w \<longleftrightarrow> n < 2 ^ 32 \<and> w = word_of_nat n"
  by (auto simp: try_u32_def)

lemma unat_bound64: "unat (w :: u64) \<le> USIZE_MAX"
proof -
  have "unat w < 2 ^ LENGTH(64)" by (rule unsigned_less)
  then show ?thesis by (simp add: USIZE_MAX_def)
qed

lemma unat_bound32: "unat (w :: u32) \<le> USIZE_MAX"
proof -
  have "unat w < 2 ^ LENGTH(32)" by (rule unsigned_less)
  then show ?thesis by (simp add: USIZE_MAX_def)
qed

lemma try_usize_Ok [simp]:
  "try_usize (w :: u64) = Ok (unat w)" "try_usize (v :: u32) = Ok (unat v)"
  by (simp_all add: try_usize_def unat_bound64 unat_bound32)

lemma unat_word_of_nat64: "n < 2 ^ 64 \<Longrightarrow> unat (word_of_nat n :: u64) = n"
  by (simp add: unat_of_nat take_bit_nat_eq_self)

lemma unat_word_of_nat32: "n < 2 ^ 32 \<Longrightarrow> unat (word_of_nat n :: u32) = n"
  by (simp add: unat_of_nat take_bit_nat_eq_self)

subsection \<open>The handshake codec\<close>

definition limits_ok :: "protocol_limits \<Rightarrow> bool" where
  "limits_ok l \<longleftrightarrow> is_ok (limits_validate l)"

lemma limits_ok_iff:
  "limits_ok l \<longleftrightarrow> PARCEL_FIXED_BYTES \<le> max_frame_bytes l \<and> 0 < max_payload_bytes l \<and> 0 < max_segments l
     \<and> 0 < max_queued_parcels_per_peer l \<and> 0 < control_reserved_bytes_per_peer l
     \<and> control_reserved_bytes_per_peer l < max_inflight_bytes_per_peer l"
  by (auto simp: limits_ok_def limits_validate_def)

lemma limits_validate_if: "limits_validate l = (if limits_ok l then Ok l else Err InvalidLimits)"
  by (auto simp: limits_ok_def limits_validate_def)

lemma limits_validate_Ok: "limits_validate l = Ok l' \<longleftrightarrow> limits_ok l \<and> l' = l"
  by (auto simp: limits_validate_if)

lemma run_id_new_Ok: "run_id_new v = Ok r \<longleftrightarrow> v \<noteq> 0 \<and> r = v"
  by (auto simp: run_id_new_def)

lemma nonzero_u128_id_Ok: "nonzero_u128_id nm v = Ok r \<longleftrightarrow> v \<noteq> 0 \<and> r = v"
  by (auto simp: nonzero_u128_id_def)

text \<open>The bytes of a handshake record whose integers are given.\<close>

definition hello_image ::
  "u128 \<Rightarrow> runtime_version \<Rightarrow> bytes \<Rightarrow> bytes \<Rightarrow> u64 \<Rightarrow> u64 \<Rightarrow> u64 \<Rightarrow> u32 \<Rightarrow> u32 \<Rightarrow> u64 \<Rightarrow> u64 \<Rightarrow> bytes"
where
  "hello_image run v ah oh caps frame payload segs queued inflight control =
     HELLO_MAGIC @ u32_le FOUNDATION_VERSION @ u128_le run
       @ u16_le (rv_major v) @ u16_le (rv_minor v) @ u16_le (rv_patch v) @ ah @ oh @ u64_le caps
       @ u64_le frame @ u64_le payload @ u32_le segs @ u32_le queued @ u64_le inflight @ u64_le control"

lemma hello_slices:
  fixes run v ah oh caps frame payload segs queued inflight control
  defines "bs \<equiv> hello_image run v ah oh caps frame payload segs queued inflight control"
  assumes "length ah = 32" "length oh = 32"
  shows "slice_range bs 0 4 = HELLO_MAGIC" "slice_range bs 4 8 = u32_le FOUNDATION_VERSION"
    "slice_range bs 8 24 = u128_le run" "slice_range bs 24 26 = u16_le (rv_major v)"
    "slice_range bs 26 28 = u16_le (rv_minor v)" "slice_range bs 28 30 = u16_le (rv_patch v)"
    "slice_range bs 30 62 = ah" "slice_range bs 62 94 = oh" "slice_range bs 94 102 = u64_le caps"
    "slice_range bs 102 110 = u64_le frame" "slice_range bs 110 118 = u64_le payload"
    "slice_range bs 118 122 = u32_le segs" "slice_range bs 122 126 = u32_le queued"
    "slice_range bs 126 134 = u64_le inflight" "slice_range bs 134 142 = u64_le control"
    "length bs = 142"
  using assms(2,3)
  by (simp_all add: bs_def hello_image_def HELLO_MAGIC_def slice_append_left slice_append_right slice_full
      del: append.simps)

lemma hello_split:
  assumes "length bs = 142"
  shows "bs = slice_range bs 0 4 @ slice_range bs 4 8 @ slice_range bs 8 24 @ slice_range bs 24 26
    @ slice_range bs 26 28 @ slice_range bs 28 30 @ slice_range bs 30 62 @ slice_range bs 62 94
    @ slice_range bs 94 102 @ slice_range bs 102 110 @ slice_range bs 110 118 @ slice_range bs 118 122
    @ slice_range bs 122 126 @ slice_range bs 126 134 @ slice_range bs 134 142"
  using assms by (simp add: slice_join slice_full)

lemma decode_hello_Ok:
  "decode_hello bs = Ok h \<longleftrightarrow>
     length bs = 142 \<and> slice_range bs 0 4 = HELLO_MAGIC
       \<and> from_le (slice_range bs 4 8) = FOUNDATION_VERSION \<and> from_le (slice_range bs 8 24) \<noteq> (0 :: u128)
       \<and> limits_ok (hello_limits h)
       \<and> h = \<lparr>hello_run_id = from_le (slice_range bs 8 24),
             hello_runtime_version = \<lparr>rv_major = from_le (slice_range bs 24 26),
               rv_minor = from_le (slice_range bs 26 28), rv_patch = from_le (slice_range bs 28 30)\<rparr>,
             action_registry_hash = slice_range bs 30 62, object_registry_hash = slice_range bs 62 94,
             capabilities = from_le (slice_range bs 94 102),
             hello_limits = \<lparr>max_frame_bytes = unat (from_le (slice_range bs 102 110) :: u64),
               max_payload_bytes = unat (from_le (slice_range bs 110 118) :: u64),
               max_segments = unat (from_le (slice_range bs 118 122) :: u32),
               max_queued_parcels_per_peer = unat (from_le (slice_range bs 122 126) :: u32),
               max_inflight_bytes_per_peer = unat (from_le (slice_range bs 126 134) :: u64),
               control_reserved_bytes_per_peer = unat (from_le (slice_range bs 134 142) :: u64)\<rparr>\<rparr>"
proof (cases "length bs = 142")
  case True
  then have len: "length bs \<le> USIZE_MAX" by (simp add: USIZE_MAX_def)
  have run: "run_id_new w = Ok r \<longleftrightarrow> w \<noteq> 0 \<and> r = w" for w r
    by (auto simp: run_id_new_def)
  show ?thesis
    using True
    by (auto simp: decode_hello_def HELLO_BYTES_def reader_new_def rd_take_Ok [OF len] rd_int_Ok [OF len]
        run rd_finish_Ok limits_validate_Ok)
next
  case False
  then show ?thesis by (simp add: decode_hello_def HELLO_BYTES_def)
qed

lemma try_unat [simp]: "try_u64 (unat w) = Ok w" "try_u32 (unat v) = Ok v"
proof -
  have "unat w < 2 ^ LENGTH(64)" "unat v < 2 ^ LENGTH(32)" by (rule unsigned_less)+
  then show "try_u64 (unat w) = Ok w" "try_u32 (unat v) = Ok v"
    by (simp_all add: try_u64_def try_u32_def)
qed

lemma encode_hello_Ok:
  "encode_hello h = Ok bs \<longleftrightarrow>
     (let l = hello_limits h in limits_ok l
       \<and> max_frame_bytes l < 2 ^ 64 \<and> max_payload_bytes l < 2 ^ 64 \<and> max_segments l < 2 ^ 32
       \<and> max_queued_parcels_per_peer l < 2 ^ 32 \<and> max_inflight_bytes_per_peer l < 2 ^ 64
       \<and> control_reserved_bytes_per_peer l < 2 ^ 64
       \<and> bs = hello_image (hello_run_id h) (hello_runtime_version h) (action_registry_hash h)
             (object_registry_hash h) (capabilities h) (word_of_nat (max_frame_bytes l))
             (word_of_nat (max_payload_bytes l)) (word_of_nat (max_segments l))
             (word_of_nat (max_queued_parcels_per_peer l)) (word_of_nat (max_inflight_bytes_per_peer l))
             (word_of_nat (control_reserved_bytes_per_peer l)))"
  by (auto simp: encode_hello_def hello_image_def Let_def try_u64_Ok try_u32_Ok limits_validate_Ok)

lemma hello_encode_of_decode:
  assumes "decode_hello bs = Ok h"
  shows "encode_hello h = Ok bs"
proof -
  note dec = assms [unfolded decode_hello_Ok]
  have len: "length bs = 142" using dec by blast
  have "slice_range bs 4 8 = u32_le FOUNDATION_VERSION"
    using dec len int_le_from_le(2) [of "slice_range bs 4 8"] by (simp add: length_slice)
  then have bs: "bs = hello_image (from_le (slice_range bs 8 24)) (hello_runtime_version h)
      (slice_range bs 30 62) (slice_range bs 62 94) (from_le (slice_range bs 94 102))
      (from_le (slice_range bs 102 110)) (from_le (slice_range bs 110 118)) (from_le (slice_range bs 118 122))
      (from_le (slice_range bs 122 126)) (from_le (slice_range bs 126 134)) (from_le (slice_range bs 134 142))"
    using dec len hello_split [OF len] by (simp add: hello_image_def int_le_from_le length_slice)
  show ?thesis
    using dec by (subst bs) (auto simp: encode_hello_def hello_image_def Let_def limits_validate_if)
qed

lemma hello_decode_of_encode:
  assumes "hello_run_id h \<noteq> 0" "length (action_registry_hash h) = 32" "length (object_registry_hash h) = 32"
    and "encode_hello h = Ok bs"
  shows "decode_hello bs = Ok h"
  using assms unfolding encode_hello_Ok decode_hello_Ok Let_def
  by (auto simp: hello_slices unat_word_of_nat64 unat_word_of_nat32)

text \<open>
  The handshake codec is exact: \<open>decode_hello\<close> accepts precisely the 142-byte strings that
  \<open>encode_hello\<close> produces from a record with a nonzero run and two 32-byte registry hashes, and
  gives that record back, with the limits already validated.
\<close>

theorem hello_codec_exact:
  "decode_hello bs = Ok h \<longleftrightarrow>
     hello_run_id h \<noteq> 0 \<and> length (action_registry_hash h) = 32 \<and> length (object_registry_hash h) = 32
       \<and> encode_hello h = Ok bs"
proof
  assume "decode_hello bs = Ok h"
  then show "hello_run_id h \<noteq> 0 \<and> length (action_registry_hash h) = 32
      \<and> length (object_registry_hash h) = 32 \<and> encode_hello h = Ok bs"
    using hello_encode_of_decode [of bs h] unfolding decode_hello_Ok
    by (auto simp: length_slice)
qed (blast intro: hello_decode_of_encode)

subsection \<open>The parcel codec\<close>

lemma slice_Nil [simp]: "slice_range xs a a = []"
  by (simp add: slice_range_def)

lemma encode_lengths_Ok:
  "encode_lengths xs = Ok t \<longleftrightarrow>
     (\<forall>x\<in>set xs. length x < 2 ^ 64) \<and> t = concat (map (\<lambda>x. u64_le (word_of_nat (length x))) xs)"
  by (induction xs arbitrary: t) (auto simp: try_u64_Ok)

definition length_table :: "usize list \<Rightarrow> bytes" where
  "length_table lens = concat (map (\<lambda>l. u64_le (word_of_nat l)) lens)"

lemma length_table_simps [simp]:
  "length_table [] = []" "length_table (l # ls) = u64_le (word_of_nat l) @ length_table ls"
  by (simp_all add: length_table_def)

lemma read_lengths_Ok:
  assumes len: "length bs \<le> USIZE_MAX"
  shows "a \<le> length bs \<Longrightarrow> read_lengths mx n t (rd_at bs a) = Ok (lens, t', r) \<longleftrightarrow>
    length lens = n \<and> a + 8 * n \<le> length bs \<and> slice_range bs a (a + 8 * n) = length_table lens
      \<and> (\<forall>l\<in>set lens. l < 2 ^ 64) \<and> t' = t + sum_list lens
      \<and> (n = 0 \<or> t' \<le> USIZE_MAX \<and> t' \<le> mx) \<and> r = rd_at bs (a + 8 * n)"
proof (induction n arbitrary: t a lens)
  case 0
  then show ?case by auto
next
  case (Suc n)
  show ?case
  proof (cases "a + 8 \<le> length bs \<and> lens \<noteq> []")
    case True
    then obtain l ls where lens: "lens = l # ls" by (cases lens) auto
    let ?w = "from_le (slice_range bs a (a + 8)) :: u64"
    have size: "length (slice_range bs a (a + 8)) = 8"
      using True by (simp add: length_slice)
    then have w: "slice_range bs a (a + 8) = u64_le v \<longleftrightarrow> ?w = v" for v
      by (metis int_le_from_le(3) from_le_int(3))
    have bound: "unat ?w < 2 ^ LENGTH(64)" by (rule unsigned_less)
    then have val: "l < 2 ^ 64 \<Longrightarrow> ?w = word_of_nat l \<longleftrightarrow> unat ?w = l"
      by (auto simp: unat_word_of_nat64)
    have "slice_range bs a (a + 8 * Suc n) = slice_range bs a (a + 8) @ slice_range bs (a + 8) (a + 8 + 8 * n)"
      by (subst slice_join) (simp_all add: algebra_simps)
    then have join: "l < 2 ^ 64 \<Longrightarrow> slice_range bs a (a + 8 * Suc n) = length_table lens \<longleftrightarrow>
        unat ?w = l \<and> slice_range bs (a + 8) (a + 8 + 8 * n) = length_table ls"
      using val size by (simp add: lens w)
    have "read_lengths mx (Suc n) t (rd_at bs a) = Ok (lens, t', r) \<longleftrightarrow>
        unat ?w = l \<and> t + l \<le> USIZE_MAX \<and> t + l \<le> mx
          \<and> read_lengths mx n (t + l) (rd_at bs (a + 8)) = Ok (ls, t', r)"
      using True by (auto simp: rd_int_Ok [OF len] lens)
    also have "\<dots> \<longleftrightarrow> unat ?w = l \<and> t + l \<le> USIZE_MAX \<and> t + l \<le> mx \<and> length ls = n
        \<and> a + 8 + 8 * n \<le> length bs \<and> slice_range bs (a + 8) (a + 8 + 8 * n) = length_table ls
        \<and> (\<forall>l\<in>set ls. l < 2 ^ 64) \<and> t' = t + l + sum_list ls
        \<and> (n = 0 \<or> t' \<le> USIZE_MAX \<and> t' \<le> mx) \<and> r = rd_at bs (a + 8 + 8 * n)"
      using True by (subst Suc.IH) auto
    also have "\<dots> \<longleftrightarrow> length lens = Suc n \<and> a + 8 * Suc n \<le> length bs
        \<and> slice_range bs a (a + 8 * Suc n) = length_table lens \<and> (\<forall>l\<in>set lens. l < 2 ^ 64)
        \<and> t' = t + sum_list lens \<and> (Suc n = 0 \<or> t' \<le> USIZE_MAX \<and> t' \<le> mx) \<and> r = rd_at bs (a + 8 * Suc n)"
    proof (cases "l < 2 ^ 64")
      case small: True
      have size: "a + 8 * Suc n = a + 8 + 8 * n" "length lens = Suc n \<longleftrightarrow> length ls = n"
          "(\<forall>l\<in>set lens. l < 2 ^ 64) \<longleftrightarrow> (\<forall>l\<in>set ls. l < 2 ^ 64)" "sum_list lens = l + sum_list ls"
        using small by (simp_all add: lens)
      show ?thesis
        unfolding join [OF small] unfolding size by auto
    next
      case False
      then show ?thesis using bound by (auto simp: lens)
    qed
    finally show ?thesis .
  next
    case False
    then show ?thesis by (auto simp: rd_int_Ok [OF len])
  qed
qed

lemma read_segments_Ok:
  assumes len: "length bs \<le> USIZE_MAX"
  shows "a \<le> length bs \<Longrightarrow> read_segments lens (rd_at bs a) = Ok (segs, r) \<longleftrightarrow>
    map length segs = lens \<and> a + sum_list lens \<le> length bs
      \<and> slice_range bs a (a + sum_list lens) = concat segs \<and> r = rd_at bs (a + sum_list lens)"
proof (induction lens arbitrary: a segs)
  case Nil
  then show ?case by auto
next
  case (Cons n ns)
  show ?case
  proof (cases "a + n \<le> length bs \<and> segs \<noteq> []")
    case True
    then obtain x xs where segs: "segs = x # xs" by (cases segs) auto
    have join: "slice_range bs a (a + (n + sum_list ns))
        = slice_range bs a (a + n) @ slice_range bs (a + n) (a + n + sum_list ns)"
      by (subst slice_join) (simp_all add: algebra_simps)
    have size: "length (slice_range bs a (a + n)) = n"
      using True by (simp add: length_slice)
    have "read_segments (n # ns) (rd_at bs a) = Ok (segs, r) \<longleftrightarrow>
        x = slice_range bs a (a + n) \<and> read_segments ns (rd_at bs (a + n)) = Ok (xs, r)"
      using True by (auto simp: rd_take_Ok [OF len] segs)
    also have "\<dots> \<longleftrightarrow> x = slice_range bs a (a + n) \<and> map length xs = ns
        \<and> a + n + sum_list ns \<le> length bs
        \<and> slice_range bs (a + n) (a + n + sum_list ns) = concat xs \<and> r = rd_at bs (a + n + sum_list ns)"
      using True by (subst Cons.IH) auto
    also have "\<dots> \<longleftrightarrow> map length segs = n # ns \<and> a + sum_list (n # ns) \<le> length bs
        \<and> slice_range bs a (a + sum_list (n # ns)) = concat segs \<and> r = rd_at bs (a + sum_list (n # ns))"
      using join size by (auto simp: segs algebra_simps)
    finally show ?thesis .
  next
    case False
    then show ?thesis by (auto simp: rd_take_Ok [OF len])
  qed
qed

lemma channel_try_from_Ok: "channel_try_from v = Ok c \<longleftrightarrow> v = channel_code c"
  by (cases c) (auto simp: channel_try_from_def)

lemma parcel_kind_try_from_Ok: "parcel_kind_try_from v = Ok k \<longleftrightarrow> v = parcel_kind_code k"
  by (cases k) (auto simp: parcel_kind_try_from_def)

fun trace_flag :: "trace_id option \<Rightarrow> u8" where
  "trace_flag (Some t) = 1"
| "trace_flag None = 0"

fun trace_value :: "trace_id option \<Rightarrow> u128" where
  "trace_value (Some t) = t"
| "trace_value None = 0"

lemma encode_trace_eq: "encode_trace t = [trace_flag t] @ u128_le (trace_value t)"
  by (cases t) simp_all

lemma decode_trace_Ok:
  "decode_trace fl v = Ok t \<longleftrightarrow> fl = trace_flag t \<and> v = trace_value t \<and> t \<noteq> Some 0"
  by (cases t) (auto simp: decode_trace_def nonzero_u128_id_def)

text \<open>The fixed 87 bytes of a parcel.\<close>

definition parcel_image :: "parcel \<Rightarrow> u64 \<Rightarrow> u32 \<Rightarrow> bytes" where
  "parcel_image p payload n =
     PARCEL_MAGIC @ u32_le FOUNDATION_VERSION @ u128_le (p_run_id p) @ u128_le (p_message_id p)
       @ [channel_code (p_channel p)] @ [parcel_kind_code (p_kind p)]
       @ u64_le (p_source p) @ u64_le (p_destination p)
       @ [trace_flag (p_trace_id p)] @ u128_le (trace_value (p_trace_id p))
       @ u64_le payload @ u32_le n"

lemma parcel_slices:
  fixes p payload n t
  defines "bs \<equiv> parcel_image p payload n @ t"
  shows "slice_range bs 0 4 = PARCEL_MAGIC" "slice_range bs 4 8 = u32_le FOUNDATION_VERSION"
    "slice_range bs 8 24 = u128_le (p_run_id p)" "slice_range bs 24 40 = u128_le (p_message_id p)"
    "bs ! 40 = channel_code (p_channel p)" "bs ! 41 = parcel_kind_code (p_kind p)"
    "slice_range bs 42 50 = u64_le (p_source p)" "slice_range bs 50 58 = u64_le (p_destination p)"
    "bs ! 58 = trace_flag (p_trace_id p)" "slice_range bs 59 75 = u128_le (trace_value (p_trace_id p))"
    "slice_range bs 75 83 = u64_le payload" "slice_range bs 83 87 = u32_le n"
    "length bs = 87 + length t" "87 \<le> b \<Longrightarrow> slice_range bs 87 b = slice_range t 0 (b - 87)"
    "87 \<le> a \<Longrightarrow> slice_range bs a b = slice_range t (a - 87) (b - 87)"
  by (simp_all add: bs_def parcel_image_def PARCEL_MAGIC_def slice_append_left slice_append_right slice_full
      nth_append del: append.simps)

lemma parcel_split:
  assumes "87 \<le> length bs"
  shows "bs = slice_range bs 0 4 @ slice_range bs 4 8 @ slice_range bs 8 24 @ slice_range bs 24 40
    @ [bs ! 40] @ [bs ! 41] @ slice_range bs 42 50 @ slice_range bs 50 58 @ [bs ! 58]
    @ slice_range bs 59 75 @ slice_range bs 75 83 @ slice_range bs 83 87 @ slice_range bs 87 (length bs)"
proof -
  have one: "[bs ! 40] = slice_range bs 40 41" "[bs ! 41] = slice_range bs 41 42" "[bs ! 58] = slice_range bs 58 59"
    using assms slice_one [of 40 bs] slice_one [of 41 bs] slice_one [of 58 bs] by simp_all
  show ?thesis
    unfolding one using assms by (simp add: slice_join slice_full)
qed

definition parcel_fits :: "parcel \<Rightarrow> protocol_limits \<Rightarrow> bool" where
  "parcel_fits p l \<longleftrightarrow> limits_ok l \<and> length (p_segments p) \<le> max_segments l
     \<and> length (concat (p_segments p)) \<le> max_payload_bytes l
     \<and> 87 + 8 * length (p_segments p) + length (concat (p_segments p)) \<le> min USIZE_MAX (max_frame_bytes l)"

lemma payload_len_Ok: "payload_len p = Ok n \<longleftrightarrow> length (concat (p_segments p)) \<le> USIZE_MAX
    \<and> n = length (concat (p_segments p))"
  by (auto simp: payload_len_def checked_total_Some)

lemma encoded_len_Ok:
  "encoded_len p = Ok n \<longleftrightarrow> n = 87 + 8 * length (p_segments p) + length (concat (p_segments p)) \<and> n \<le> USIZE_MAX"
  by (auto simp: encoded_len_def payload_len_Ok PARCEL_FIXED_BYTES_def bind_eq_Some_conv algebra_simps)

lemma parcel_validate_Ok: "parcel_validate p l = Ok u \<longleftrightarrow> parcel_fits p l"
  by (auto simp: parcel_validate_def limits_validate_Ok payload_len_Ok encoded_len_Ok parcel_fits_def)

lemma parcel_fits_sizes:
  assumes "parcel_fits p l"
  shows "length (concat (p_segments p)) \<le> USIZE_MAX" "length (concat (p_segments p)) < 2 ^ 64"
    "\<forall>x\<in>set (p_segments p). length x < 2 ^ 64"
proof -
  show le: "length (concat (p_segments p)) \<le> USIZE_MAX"
    using assms by (auto simp: parcel_fits_def)
  then show less: "length (concat (p_segments p)) < 2 ^ 64"
    by (simp add: USIZE_MAX_def)
  show "\<forall>x\<in>set (p_segments p). length x < 2 ^ 64"
  proof
    fix x
    assume "x \<in> set (p_segments p)"
    then have "length x \<le> length (concat (p_segments p))"
      by (simp add: length_concat member_le_sum_list)
    with less show "length x < 2 ^ 64" by linarith
  qed
qed

lemma encode_parcel_Ok:
  "encode_parcel p l = Ok bs \<longleftrightarrow> parcel_fits p l \<and> length (p_segments p) < 2 ^ 32
     \<and> bs = parcel_image p (word_of_nat (length (concat (p_segments p)))) (word_of_nat (length (p_segments p)))
             @ length_table (map length (p_segments p)) @ concat (p_segments p)"
proof (cases "parcel_fits p l")
  case True
  then have fits: "8 * length (p_segments p) \<le> USIZE_MAX"
      "87 + (8 * length (p_segments p) + length (concat (p_segments p))) \<le> USIZE_MAX"
    by (auto simp: parcel_fits_def)
  then show ?thesis
    using True parcel_fits_sizes [OF True]
    by (auto simp: encode_parcel_def parcel_validate_Ok payload_len_Ok PARCEL_FIXED_BYTES_def
        bind_eq_Some_conv try_u64_Ok try_u32_Ok encode_lengths_Ok parcel_image_def length_table_def
        encode_trace_eq comp_def algebra_simps)
next
  case False
  then show ?thesis by (auto simp: encode_parcel_def parcel_validate_Ok)
qed

lemma decode_parcel_Ok:
  assumes len: "length bs \<le> USIZE_MAX"
  shows "decode_parcel bs l = Ok p \<longleftrightarrow>
    length bs \<le> max_frame_bytes l \<and> 87 \<le> length bs \<and> slice_range bs 0 4 = PARCEL_MAGIC
      \<and> from_le (slice_range bs 4 8) = FOUNDATION_VERSION
      \<and> p_run_id p = from_le (slice_range bs 8 24) \<and> p_run_id p \<noteq> 0
      \<and> p_message_id p = from_le (slice_range bs 24 40) \<and> p_message_id p \<noteq> 0
      \<and> bs ! 40 = channel_code (p_channel p) \<and> bs ! 41 = parcel_kind_code (p_kind p)
      \<and> p_source p = from_le (slice_range bs 42 50) \<and> p_destination p = from_le (slice_range bs 50 58)
      \<and> bs ! 58 = trace_flag (p_trace_id p) \<and> from_le (slice_range bs 59 75) = trace_value (p_trace_id p)
      \<and> p_trace_id p \<noteq> Some 0
      \<and> unat (from_le (slice_range bs 75 83) :: u64) = length (concat (p_segments p))
      \<and> unat (from_le (slice_range bs 83 87) :: u32) = length (p_segments p)
      \<and> length bs = 87 + 8 * length (p_segments p) + length (concat (p_segments p))
      \<and> slice_range bs 87 (87 + 8 * length (p_segments p)) = length_table (map length (p_segments p))
      \<and> slice_range bs (87 + 8 * length (p_segments p)) (length bs) = concat (p_segments p)
      \<and> parcel_fits p l"
    (is "?lhs \<longleftrightarrow> ?rhs")
proof
  assume ?lhs
  then obtain lens r where
    *: "limits_ok l" "length bs \<le> max_frame_bytes l" "87 \<le> length bs" "slice_range bs 0 4 = PARCEL_MAGIC"
      "from_le (slice_range bs 4 8) = FOUNDATION_VERSION"
      "p_run_id p = from_le (slice_range bs 8 24) \<and> p_run_id p \<noteq> 0"
      "p_message_id p = from_le (slice_range bs 24 40) \<and> p_message_id p \<noteq> 0"
      "bs ! 40 = channel_code (p_channel p)" "bs ! 41 = parcel_kind_code (p_kind p)"
      "p_source p = from_le (slice_range bs 42 50)" "p_destination p = from_le (slice_range bs 50 58)"
      "bs ! 58 = trace_flag (p_trace_id p)" "from_le (slice_range bs 59 75) = trace_value (p_trace_id p)"
      "p_trace_id p \<noteq> Some 0"
    and lens: "read_lengths (max_payload_bytes l) (unat (from_le (slice_range bs 83 87) :: u32)) 0 (rd_at bs 87)
        = Ok (lens, unat (from_le (slice_range bs 75 83) :: u64), r)"
    and segs: "\<exists>r'. read_segments lens r = Ok (p_segments p, r') \<and> rd_finish r' = Ok ()"
    and fits: "parcel_fits p l"
    by (auto simp: decode_parcel_def reader_new_def limits_validate_Ok rd_take_Ok [OF len] rd_int_Ok [OF len]
        run_id_new_Ok nonzero_u128_id_Ok channel_try_from_Ok parcel_kind_try_from_Ok decode_trace_Ok
        parcel_validate_Ok Let_def split: if_splits)
  have table: "length lens = unat (from_le (slice_range bs 83 87) :: u32)" "87 + 8 * length lens \<le> length bs"
      "slice_range bs 87 (87 + 8 * length lens) = length_table lens"
      "unat (from_le (slice_range bs 75 83) :: u64) = sum_list lens" "r = rd_at bs (87 + 8 * length lens)"
    using lens *(3) by (auto simp: read_lengths_Ok [OF len])
  have "map length (p_segments p) = lens" "87 + 8 * length lens + sum_list lens = length bs"
      "slice_range bs (87 + 8 * length lens) (length bs) = concat (p_segments p)"
    using segs table(2,5) by (auto simp: read_segments_Ok [OF len] rd_finish_Ok)
  then show ?rhs
    using * table fits by (auto simp: length_concat)
next
  assume rhs: ?rhs
  let ?lens = "map length (p_segments p)"
  let ?n = "length (p_segments p)"
  have sizes: "87 \<le> length bs" "87 + 8 * ?n \<le> length bs" "87 + 8 * ?n + sum_list ?lens = length bs"
    using rhs by (auto simp: length_concat)
  have "read_lengths (max_payload_bytes l) ?n 0 (rd_at bs 87)
      = Ok (?lens, length (concat (p_segments p)), rd_at bs (87 + 8 * ?n))"
    using rhs sizes parcel_fits_sizes [of p l]
    by (subst read_lengths_Ok [OF len]) (auto simp: parcel_fits_def length_concat)
  moreover have "read_segments ?lens (rd_at bs (87 + 8 * ?n)) = Ok (p_segments p, rd_at bs (length bs))"
    using rhs sizes by (subst read_segments_Ok [OF len]) (auto simp: length_concat)
  moreover have "limits_ok l"
    using rhs by (simp add: parcel_fits_def)
  ultimately show ?lhs
    using rhs sizes(1)
    by (cases p) (auto simp: decode_parcel_def reader_new_def limits_validate_if rd_take_Ok [OF len]
        rd_int_Ok [OF len] run_id_new_Ok nonzero_u128_id_Ok channel_try_from_Ok parcel_kind_try_from_Ok
        decode_trace_Ok parcel_validate_Ok Let_def rd_finish_Ok parcel_fits_def split: if_splits)
qed

lemma length_parcel_image [simp]: "length (parcel_image p payload n) = 87"
  using parcel_slices(13) [of p payload n "[]"] by simp

lemma length_length_table [simp]: "length (length_table lens) = 8 * length lens"
  by (induction lens) simp_all

lemma parcel_encode_of_decode:
  assumes len: "length bs \<le> USIZE_MAX" and dec: "decode_parcel bs l = Ok p"
  shows "encode_parcel p l = Ok bs"
proof -
  note d = dec [unfolded decode_parcel_Ok [OF len]]
  let ?n = "length (p_segments p)"
  let ?payload = "from_le (slice_range bs 75 83) :: u64"
  let ?count = "from_le (slice_range bs 83 87) :: u32"
  have size: "87 \<le> length bs" using d by blast
  have le: "u32_le FOUNDATION_VERSION = slice_range bs 4 8" "u128_le (p_run_id p) = slice_range bs 8 24"
      "u128_le (p_message_id p) = slice_range bs 24 40" "u64_le (p_source p) = slice_range bs 42 50"
      "u64_le (p_destination p) = slice_range bs 50 58"
      "u128_le (trace_value (p_trace_id p)) = slice_range bs 59 75"
      "u64_le ?payload = slice_range bs 75 83" "u32_le ?count = slice_range bs 83 87"
    using size d int_le_from_le(2) [of "slice_range bs 4 8"] int_le_from_le(4) [of "slice_range bs 59 75"]
    by (auto simp: int_le_from_le length_slice)
  have tail: "slice_range bs 87 (length bs) = length_table (map length (p_segments p)) @ concat (p_segments p)"
  proof -
    have table: "slice_range bs 87 (87 + 8 * ?n) = length_table (map length (p_segments p))"
        and payload: "slice_range bs (87 + 8 * ?n) (length bs) = concat (p_segments p)"
        and total: "length bs = 87 + 8 * ?n + length (concat (p_segments p))"
      using d by blast+
    have "87 + 8 * ?n \<le> length bs" using total by simp
    then show ?thesis
      using slice_join [of 87 "87 + 8 * ?n" "length bs" bs] unfolding table payload by simp
  qed
  have counts: "?payload = word_of_nat (length (concat (p_segments p)))" "?count = word_of_nat ?n" "?n < 2 ^ 32"
  proof -
    have "unat ?count < 2 ^ LENGTH(32)" by (rule unsigned_less)
    moreover have c: "unat ?payload = length (concat (p_segments p))" "unat ?count = ?n"
      using d by blast+
    ultimately show "?n < 2 ^ 32" by simp
    show "?payload = word_of_nat (length (concat (p_segments p)))" "?count = word_of_nat ?n"
      unfolding c [symmetric] by simp_all
  qed
  have codes: "slice_range bs 0 4 = PARCEL_MAGIC" "bs ! 40 = channel_code (p_channel p)"
      "bs ! 41 = parcel_kind_code (p_kind p)" "bs ! 58 = trace_flag (p_trace_id p)"
    using d by blast+
  have "parcel_image p ?payload ?count
      @ length_table (map length (p_segments p)) @ concat (p_segments p) = bs"
    using parcel_split [OF size, unfolded codes tail, symmetric]
    by (simp only: parcel_image_def le append_assoc)
  then show ?thesis
    using d counts by (simp add: encode_parcel_Ok)
qed

lemma parcel_decode_of_encode:
  assumes "p_run_id p \<noteq> 0" "p_message_id p \<noteq> 0" "p_trace_id p \<noteq> Some 0" "encode_parcel p l = Ok bs"
  shows "decode_parcel bs l = Ok p" "length bs \<le> USIZE_MAX" "encoded_len p = Ok (length bs)"
proof -
  let ?n = "length (p_segments p)"
  let ?t = "length_table (map length (p_segments p)) @ concat (p_segments p)"
  have fits: "parcel_fits p l" "?n < 2 ^ 32"
      and bs: "bs = parcel_image p (word_of_nat (length (concat (p_segments p)))) (word_of_nat ?n) @ ?t"
    using assms(4) by (auto simp: encode_parcel_Ok)
  have size: "length bs = 87 + 8 * ?n + length (concat (p_segments p))"
    by (simp add: bs)
  then show len: "length bs \<le> USIZE_MAX" and "encoded_len p = Ok (length bs)"
    using fits by (auto simp: parcel_fits_def encoded_len_Ok)
  have "slice_range bs 87 (87 + 8 * ?n) = length_table (map length (p_segments p))"
      "slice_range bs (87 + 8 * ?n) (length bs) = concat (p_segments p)"
    unfolding bs by (simp_all add: slice_append_left slice_append_right slice_full)
  then show "decode_parcel bs l = Ok p"
    unfolding decode_parcel_Ok [OF len]
    using assms(1-3) fits size parcel_fits_sizes [OF fits(1)]
    by (simp add: bs parcel_slices(1-12) unat_word_of_nat64 unat_word_of_nat32 parcel_fits_def)
qed

text \<open>
  C13. The parcel codec is exact: within the limits, \<open>decode_parcel\<close> accepts precisely the byte
  strings that \<open>encode_parcel\<close> produces from a parcel with nonzero identities, and gives that
  parcel back. Truncated, extended and inconsistent frames are all refused.
\<close>

theorem parcel_codec_exact:
  assumes "length bs \<le> USIZE_MAX"
  shows "decode_parcel bs l = Ok p \<longleftrightarrow>
    p_run_id p \<noteq> 0 \<and> p_message_id p \<noteq> 0 \<and> p_trace_id p \<noteq> Some 0 \<and> encode_parcel p l = Ok bs"
proof
  assume dec: "decode_parcel bs l = Ok p"
  then have "p_run_id p \<noteq> 0 \<and> p_message_id p \<noteq> 0 \<and> p_trace_id p \<noteq> Some 0"
    unfolding decode_parcel_Ok [OF assms] by blast
  then show "p_run_id p \<noteq> 0 \<and> p_message_id p \<noteq> 0 \<and> p_trace_id p \<noteq> Some 0 \<and> encode_parcel p l = Ok bs"
    using parcel_encode_of_decode [OF assms dec] by blast
qed (blast intro: parcel_decode_of_encode)

definition demo_parcel :: parcel where
  "demo_parcel = \<lparr>p_run_id = 7, p_message_id = 9, p_channel = ChAction, p_kind = PkData, p_source = 1,
     p_destination = 2, p_trace_id = Some 5, p_segments = [[1, 2, 3], [], [4]]\<rparr>"

theorem parcel_codec_exact_witness:
  "\<exists>bs. length bs = 115 \<and> decode_parcel bs limits_default = Ok demo_parcel"
proof -
  have "parcel_fits demo_parcel limits_default"
    by (simp add: parcel_fits_def demo_parcel_def limits_default_def limits_ok_iff PARCEL_FIXED_BYTES_def
        USIZE_MAX_def)
  then obtain bs where bs: "encode_parcel demo_parcel limits_default = Ok bs" "length bs = 115"
    by (auto simp: encode_parcel_Ok demo_parcel_def)
  have "decode_parcel bs limits_default = Ok demo_parcel"
    using bs parcel_codec_exact [of bs limits_default demo_parcel]
    by (simp add: demo_parcel_def USIZE_MAX_def)
  with bs(2) show ?thesis by blast
qed

subsection \<open>Negotiation\<close>

lemma limits_negotiate_ok:
  assumes "limits_ok a" "limits_ok b"
  shows "\<exists>c. limits_negotiate a b = Ok c \<and> limits_negotiate b a = Ok c \<and> limits_ok c
    \<and> max_frame_bytes c = min (max_frame_bytes a) (max_frame_bytes b)
    \<and> max_payload_bytes c = min (max_payload_bytes a) (max_payload_bytes b)
    \<and> max_segments c = min (max_segments a) (max_segments b)"
  using assms
  by (auto simp: limits_negotiate_def limits_validate_if limits_ok_iff min.commute)

text \<open>
  Two peers with valid limits always reach the same negotiated limits, whichever side
  negotiates, these are valid again, and a parcel that fits them fits the limits of both peers.
\<close>

theorem negotiation_agrees:
  assumes "is_ok (limits_validate a)" "is_ok (limits_validate b)"
  shows "\<exists>c. limits_negotiate a b = Ok c \<and> limits_negotiate b a = Ok c \<and> is_ok (limits_validate c)
    \<and> (\<forall>p. is_ok (parcel_validate p c) \<longleftrightarrow> is_ok (parcel_validate p a) \<and> is_ok (parcel_validate p b))"
proof -
  obtain c where c: "limits_negotiate a b = Ok c" "limits_negotiate b a = Ok c" "limits_ok c"
      "max_frame_bytes c = min (max_frame_bytes a) (max_frame_bytes b)"
      "max_payload_bytes c = min (max_payload_bytes a) (max_payload_bytes b)"
      "max_segments c = min (max_segments a) (max_segments b)"
    using limits_negotiate_ok [of a b] assms by (auto simp: limits_ok_def)
  moreover have "is_ok (parcel_validate p c) \<longleftrightarrow> is_ok (parcel_validate p a) \<and> is_ok (parcel_validate p b)" for p
    using c assms by (auto simp: is_ok_iff parcel_validate_Ok parcel_fits_def limits_ok_def)
  ultimately show ?thesis
    by (auto simp: limits_ok_def)
qed

theorem negotiation_agrees_witness:
  "\<exists>c. limits_negotiate limits_default (limits_default\<lparr>max_segments := 2\<rparr>) = Ok c \<and> \<not> is_ok (parcel_validate demo_parcel c)"
proof -
  have "is_ok (limits_validate limits_default)" "is_ok (limits_validate (limits_default\<lparr>max_segments := 2\<rparr>))"
    by (simp_all add: limits_validate_def limits_default_def PARCEL_FIXED_BYTES_def)
  moreover have "\<not> is_ok (parcel_validate demo_parcel (limits_default\<lparr>max_segments := 2\<rparr>))"
    by (simp add: is_ok_iff parcel_validate_Ok parcel_fits_def demo_parcel_def)
  ultimately show ?thesis
    using negotiation_agrees [of limits_default "limits_default\<lparr>max_segments := 2\<rparr>"] by blast
qed

end
