(* ===== verification/Transport.thy ===== *)
theory Transport
  imports Protocol
begin

text \<open>
  The bounded transport contract (\<open>crates/hataori-runtime-foundation/src/transport.rs\<close>): events,
  statistics and the submission state that every backend reserves its sends from. The gate
  mutex is held from \<open>reserve\<close> until the permit is committed or dropped, so at most one permit is
  out; completions release their reservation at any time. An \<open>AtomicUsize\<close> is its value, and
  \<open>fetch_sub\<close> wraps as the hardware does.
\<close>

subsection \<open>Events, errors, statistics\<close>

type_synonym send_ticket = u64

datatype transport_error =
    TeProtocol protocol_error | InvalidDestination locality_id | QueueFull channel usize
  | ByteLimit usize usize | Disconnected locality_id | TePeer string | TeIo string
  | TeTimeout string | TeShutdown | WrongThread

datatype transport_event =
    LocalSendComplete send_ticket | Incoming parcel | SendFailed send_ticket transport_error
  | PeerFailed locality_id transport_error | ShutdownComplete

record progress =
  pr_events :: usize
  pr_made_progress :: bool

record transport_stats =
  ts_submitted_parcels :: u64
  ts_submitted_bytes :: u64
  ts_received_parcels :: u64
  ts_received_bytes :: u64
  queued_control :: usize
  queued_action :: usize
  queued_bulk :: usize
  ts_queued_bytes :: usize
  retained_read_bytes :: usize
  retained_write_bytes :: usize
  retained_reassembly_bytes :: usize
  ts_peer_failures :: u64
  pending_events :: usize
  pending_event_bytes :: usize

definition stats_default :: transport_stats where
  "stats_default = \<lparr>ts_submitted_parcels = 0, ts_submitted_bytes = 0, ts_received_parcels = 0,
     ts_received_bytes = 0, queued_control = 0, queued_action = 0, queued_bulk = 0,
     ts_queued_bytes = 0, retained_read_bytes = 0, retained_write_bytes = 0,
     retained_reassembly_bytes = 0, ts_peer_failures = 0, pending_events = 0, pending_event_bytes = 0\<rparr>"

fun queued_for :: "transport_stats \<Rightarrow> channel \<Rightarrow> usize" where
  "queued_for s ChControl = queued_control s"
| "queued_for s ChAction = queued_action s"
| "queued_for s ChBulk = queued_bulk s"

definition retained_bytes :: "transport_stats \<Rightarrow> usize" where
  "retained_bytes s =
     saturating_add_usize (saturating_add_usize (saturating_add_usize (saturating_add_usize
       (ts_queued_bytes s) (retained_read_bytes s)) (retained_write_bytes s))
       (retained_reassembly_bytes s)) (pending_event_bytes s)"

fun event_bytes :: "transport_event \<Rightarrow> usize" where
  "event_bytes (Incoming p) = (case payload_len p of Inr n \<Rightarrow> n | Inl _ \<Rightarrow> USIZE_MAX)"
| "event_bytes e = 0"

definition add_pending_event_stats :: "transport_stats \<Rightarrow> transport_event list \<Rightarrow> transport_stats" where
  "add_pending_event_stats s events =
     s\<lparr>pending_events := length events,
       pending_event_bytes := foldl (\<lambda>t e. saturating_add_usize t (event_bytes e)) 0 events\<rparr>"

subsection \<open>The submission state\<close>

record submission_state =
  ss_limits :: protocol_limits
  ss_next_ticket :: u64
  ss_closed :: bool
  ss_counts :: "usize list"
  ss_bytes :: "usize list"
  ss_submitted_parcels :: u64
  ss_submitted_bytes :: u64
  ss_received_parcels :: u64
  ss_received_bytes :: u64
  ss_peer_failures :: u64

record send_permit =
  sp_peer :: usize
  sp_channel :: channel
  sp_bytes :: usize
  sp_ticket :: send_ticket

type_synonym 'a transport_result = "(transport_error fault, 'a) result"

definition submission_new :: "usize \<Rightarrow> protocol_limits \<Rightarrow> submission_state" where
  "submission_new members l =
     \<lparr>ss_limits = l, ss_next_ticket = 1, ss_closed = False, ss_counts = replicate (members * 3) 0,
      ss_bytes = replicate members 0, ss_submitted_parcels = 0, ss_submitted_bytes = 0,
      ss_received_parcels = 0, ss_received_bytes = 0, ss_peer_failures = 0\<rparr>"

fun channel_index :: "channel \<Rightarrow> nat" where
  "channel_index ChControl = 0"
| "channel_index ChAction = 1"
| "channel_index ChBulk = 2"

definition slot :: "usize \<Rightarrow> channel \<Rightarrow> usize" where
  "slot peer ch = peer * 3 + channel_index ch"

definition fetch_sub :: "usize \<Rightarrow> usize \<Rightarrow> usize" where
  "fetch_sub a b = (a + 2 ^ 64 - b) mod 2 ^ 64"

definition byte_limit :: "protocol_limits \<Rightarrow> channel \<Rightarrow> usize" where
  "byte_limit l ch =
     (if ch = ChControl then max_inflight_bytes_per_peer l
      else max_inflight_bytes_per_peer l - control_reserved_bytes_per_peer l)"

definition sub_release :: "usize \<Rightarrow> channel \<Rightarrow> usize \<Rightarrow> submission_state \<Rightarrow> submission_state" where
  "sub_release peer ch n s =
     s\<lparr>ss_bytes := (ss_bytes s)[peer := fetch_sub (ss_bytes s ! peer) n],
       ss_counts := (ss_counts s)[slot peer ch := fetch_sub (ss_counts s ! slot peer ch) 1]\<rparr>"

text \<open>An index out of range and an addition past \<open>usize::MAX\<close> panic.\<close>

definition sub_reserve ::
  "submission_state \<Rightarrow> usize \<Rightarrow> channel \<Rightarrow> usize \<Rightarrow> submission_state \<times> send_permit transport_result"
where
  "sub_reserve s peer ch n =
     (if ss_closed s then (s, Err (Fail TeShutdown))
      else let i = slot peer ch; lim = ss_limits s in
        if length (ss_counts s) \<le> i \<or> length (ss_bytes s) \<le> peer then (s, Err Panic)
        else let cnt = ss_counts s ! i + 1 in
          if USIZE_MAX < cnt then (s, Err Panic)
          else let s1 = s\<lparr>ss_counts := (ss_counts s)[i := cnt]\<rparr> in
            if max_queued_parcels_per_peer lim < cnt
            then (s1\<lparr>ss_counts := (ss_counts s1)[i := fetch_sub (ss_counts s1 ! i) 1]\<rparr>,
                  Err (Fail (QueueFull ch (max_queued_parcels_per_peer lim))))
            else let tot = ss_bytes s1 ! peer + n in
              if USIZE_MAX < tot then (s1, Err Panic)
              else let s2 = s1\<lparr>ss_bytes := (ss_bytes s1)[peer := tot]\<rparr>; raw = ss_next_ticket s2 in
                if byte_limit lim ch < tot
                then (sub_release peer ch n s2, Err (Fail (ByteLimit tot (byte_limit lim ch))))
                else if raw = 0 \<or> raw = - 1
                then (sub_release peer ch n s2, Err (Fail (TePeer ''send ticket overflow'')))
                else (s2\<lparr>ss_next_ticket := raw + 1\<rparr>,
                      Ok \<lparr>sp_peer = peer, sp_channel = ch, sp_bytes = n, sp_ticket = raw\<rparr>))"

definition sub_close :: "submission_state \<Rightarrow> submission_state" where
  "sub_close s = s\<lparr>ss_closed := True\<rparr>"

definition permit_commit :: "send_permit \<Rightarrow> submission_state \<Rightarrow> submission_state" where
  "permit_commit p s =
     s\<lparr>ss_submitted_parcels := ss_submitted_parcels s + 1,
       ss_submitted_bytes := ss_submitted_bytes s + word_of_nat (sp_bytes p)\<rparr>"

text \<open>Dropping a permit that was not committed.\<close>

definition permit_drop :: "send_permit \<Rightarrow> submission_state \<Rightarrow> submission_state" where
  "permit_drop p s = sub_release (sp_peer p) (sp_channel p) (sp_bytes p) s"

definition record_received :: "usize \<Rightarrow> submission_state \<Rightarrow> submission_state" where
  "record_received n s =
     s\<lparr>ss_received_parcels := ss_received_parcels s + 1,
       ss_received_bytes := ss_received_bytes s + word_of_nat n\<rparr>"

definition record_peer_failure :: "submission_state \<Rightarrow> submission_state" where
  "record_peer_failure s = s\<lparr>ss_peer_failures := ss_peer_failures s + 1\<rparr>"

definition outstanding_count :: "submission_state \<Rightarrow> usize" where
  "outstanding_count s = sum_list (ss_counts s)"

definition sub_stats :: "submission_state \<Rightarrow> transport_stats" where
  "sub_stats s =
     (let peers = [0..<length (ss_counts s) div 3];
          queued = (\<lambda>ch. sum_list (map (\<lambda>peer. ss_counts s ! slot peer ch) peers))
      in stats_default\<lparr>ts_submitted_parcels := ss_submitted_parcels s,
           ts_submitted_bytes := ss_submitted_bytes s, ts_received_parcels := ss_received_parcels s,
           ts_received_bytes := ss_received_bytes s, ts_peer_failures := ss_peer_failures s,
           queued_control := queued ChControl, queued_action := queued ChAction,
           queued_bulk := queued ChBulk,
           ts_queued_bytes := sum_list (map (\<lambda>peer. ss_bytes s ! peer) peers)\<rparr>)"

subsection \<open>The world around a submission state\<close>

text \<open>The permit that holds the gate, if any, and the committed sends not yet released.\<close>

record sub_world =
  sw_state :: submission_state
  sw_held :: "send_permit option"
  sw_flight :: "send_permit list"

definition sw_live :: "sub_world \<Rightarrow> send_permit multiset" where
  "sw_live w = (case sw_held w of None \<Rightarrow> {#} | Some p \<Rightarrow> {#p#}) + mset (sw_flight w)"

inductive sub_step :: "sub_world \<Rightarrow> sub_world \<Rightarrow> bool" where
  reserve_ok: "sw_held w = None \<Longrightarrow> sub_reserve (sw_state w) peer ch n = (s', Ok p)
    \<Longrightarrow> sub_step w (w\<lparr>sw_state := s', sw_held := Some p\<rparr>)"
| reserve_err: "sw_held w = None \<Longrightarrow> sub_reserve (sw_state w) peer ch n = (s', Err (Fail e))
    \<Longrightarrow> sub_step w (w\<lparr>sw_state := s'\<rparr>)"
| commit: "sw_held w = Some p
    \<Longrightarrow> sub_step w (w\<lparr>sw_state := permit_commit p (sw_state w), sw_held := None, sw_flight := p # sw_flight w\<rparr>)"
| cancel: "sw_held w = Some p
    \<Longrightarrow> sub_step w (w\<lparr>sw_state := permit_drop p (sw_state w), sw_held := None\<rparr>)"
| complete: "p \<in> set (sw_flight w)
    \<Longrightarrow> sub_step w (w\<lparr>sw_state := sub_release (sp_peer p) (sp_channel p) (sp_bytes p) (sw_state w),
          sw_flight := remove1 p (sw_flight w)\<rparr>)"
| close: "sw_held w = None \<Longrightarrow> sub_step w (w\<lparr>sw_state := sub_close (sw_state w)\<rparr>)"
| received: "sub_step w (w\<lparr>sw_state := record_received n (sw_state w)\<rparr>)"
| peer_failed: "sub_step w (w\<lparr>sw_state := record_peer_failure (sw_state w)\<rparr>)"

definition sub_start :: "usize \<Rightarrow> protocol_limits \<Rightarrow> sub_world" where
  "sub_start members l = \<lparr>sw_state = submission_new members l, sw_held = None, sw_flight = []\<rparr>"

definition in_slot :: "usize \<Rightarrow> channel \<Rightarrow> send_permit multiset \<Rightarrow> usize" where
  "in_slot peer ch M = size (filter_mset (\<lambda>p. sp_peer p = peer \<and> sp_channel p = ch) M)"

definition peer_bytes :: "usize \<Rightarrow> send_permit multiset \<Rightarrow> usize" where
  "peer_bytes peer M = (\<Sum>p\<in>#filter_mset (\<lambda>p. sp_peer p = peer) M. sp_bytes p)"

definition plain_bytes :: "usize \<Rightarrow> send_permit multiset \<Rightarrow> usize" where
  "plain_bytes peer M = peer_bytes peer (filter_mset (\<lambda>p. sp_channel p \<noteq> ChControl) M)"

text \<open>The counters of a submission state are those of the live reservations, within the limits.\<close>

definition sub_rel :: "usize \<Rightarrow> protocol_limits \<Rightarrow> submission_state \<Rightarrow> send_permit multiset \<Rightarrow> bool" where
  "sub_rel members l s M \<longleftrightarrow>
     ss_limits s = l \<and> length (ss_counts s) = members * 3 \<and> length (ss_bytes s) = members
       \<and> (\<forall>p. p \<in># M \<longrightarrow> sp_peer p < members)
       \<and> (\<forall>peer<members. \<forall>ch. ss_counts s ! slot peer ch = in_slot peer ch M
             \<and> in_slot peer ch M \<le> max_queued_parcels_per_peer l)
       \<and> (\<forall>peer<members. ss_bytes s ! peer = peer_bytes peer M
             \<and> peer_bytes peer M \<le> max_inflight_bytes_per_peer l
             \<and> plain_bytes peer M \<le> max_inflight_bytes_per_peer l - control_reserved_bytes_per_peer l)"

definition sub_inv :: "usize \<Rightarrow> protocol_limits \<Rightarrow> sub_world \<Rightarrow> bool" where
  "sub_inv members l w \<longleftrightarrow> sub_rel members l (sw_state w) (sw_live w)"

lemma slot_inj: "slot peer ch = slot peer' ch' \<longleftrightarrow> peer = peer' \<and> ch = ch'"
  by (cases ch; cases ch') (auto simp: slot_def, presburger+)

lemma slot_less: "peer < members \<Longrightarrow> slot peer ch < members * 3"
  by (cases ch) (auto simp: slot_def)

lemma slot_less_iff: "slot peer ch < members * 3 \<longleftrightarrow> peer < members"
  by (cases ch) (auto simp: slot_def)

lemma fetch_sub_eq: "b \<le> a \<Longrightarrow> a \<le> USIZE_MAX \<Longrightarrow> fetch_sub a b = a - b"
  unfolding fetch_sub_def USIZE_MAX_def
  by (metis (no_types, lifting) Nat.add_diff_assoc2 le_imp_less_Suc mod_add_self2 mod_less
      less_imp_diff_less Suc_diff_1 zero_less_numeral zero_less_power)

lemma in_slot_add: "in_slot peer ch (add_mset p M) = in_slot peer ch M + (if sp_peer p = peer \<and> sp_channel p = ch then 1 else 0)"
  by (simp add: in_slot_def)

lemma peer_bytes_add: "peer_bytes peer (add_mset p M) = peer_bytes peer M + (if sp_peer p = peer then sp_bytes p else 0)"
  by (simp add: peer_bytes_def)

lemma plain_bytes_add:
  "plain_bytes peer (add_mset p M)
     = plain_bytes peer M + (if sp_peer p = peer \<and> sp_channel p \<noteq> ChControl then sp_bytes p else 0)"
  by (simp add: plain_bytes_def peer_bytes_add)

lemma plain_le_peer: "plain_bytes peer M \<le> peer_bytes peer M"
  by (induction M) (auto simp: plain_bytes_add peer_bytes_add, simp add: plain_bytes_def peer_bytes_def)

lemma sub_relD:
  assumes "sub_rel members l s M"
  shows "ss_limits s = l" "length (ss_counts s) = members * 3" "length (ss_bytes s) = members"
    "p \<in># M \<Longrightarrow> sp_peer p < members"
    "peer < members \<Longrightarrow> ss_counts s ! slot peer ch = in_slot peer ch M"
    "peer < members \<Longrightarrow> in_slot peer ch M \<le> max_queued_parcels_per_peer l"
    "peer < members \<Longrightarrow> ss_bytes s ! peer = peer_bytes peer M"
    "peer < members \<Longrightarrow> peer_bytes peer M \<le> max_inflight_bytes_per_peer l"
    "peer < members \<Longrightarrow> plain_bytes peer M \<le> max_inflight_bytes_per_peer l - control_reserved_bytes_per_peer l"
  using assms by (auto simp: sub_rel_def)

definition limits_usize :: "protocol_limits \<Rightarrow> bool" where
  "limits_usize l \<longleftrightarrow> max_queued_parcels_per_peer l \<le> USIZE_MAX \<and> max_inflight_bytes_per_peer l \<le> USIZE_MAX"

lemma sub_rel_release:
  assumes rel: "sub_rel members l s (add_mset p M)" and lim: "limits_usize l"
  shows "sub_rel members l (sub_release (sp_peer p) (sp_channel p) (sp_bytes p) s) M"
proof -
  note d = sub_relD [OF rel]
  have p: "sp_peer p < members" by (rule d(4)) simp
  let ?s = "sub_release (sp_peer p) (sp_channel p) (sp_bytes p) s"
  have le: "in_slot peer ch (add_mset p M) \<le> USIZE_MAX" "peer_bytes peer (add_mset p M) \<le> USIZE_MAX"
    if "peer < members" for peer ch
    using d(6) [OF that, of ch] d(8) [OF that] lim by (auto simp: limits_usize_def)
  have cnt: "ss_counts ?s ! slot peer ch = in_slot peer ch M" if "peer < members" for peer ch
  proof (cases "sp_peer p = peer \<and> sp_channel p = ch")
    case True
    then show ?thesis
      using d(2) d(5) [OF that, of ch] le(1) [OF that, of ch] slot_less [OF that, of ch]
      by (simp add: sub_release_def in_slot_add fetch_sub_eq)
  next
    case False
    then show ?thesis
      using d(5) [OF that, of ch] by (auto simp: sub_release_def in_slot_add slot_inj)
  qed
  have byt: "ss_bytes ?s ! peer = peer_bytes peer M" if "peer < members" for peer
    using d(3) d(7) [OF that] le(2) [OF that] that
    by (cases "sp_peer p = peer") (auto simp: sub_release_def peer_bytes_add fetch_sub_eq)
  have bounds: "in_slot peer ch M \<le> max_queued_parcels_per_peer l"
      "peer_bytes peer M \<le> max_inflight_bytes_per_peer l"
      "plain_bytes peer M \<le> max_inflight_bytes_per_peer l - control_reserved_bytes_per_peer l"
    if "peer < members" for peer ch
    using d(6) [OF that, of ch] d(8,9) [OF that] by (auto simp: in_slot_add peer_bytes_add plain_bytes_add)
  show ?thesis
    using d(1-4) cnt byt bounds by (simp add: sub_rel_def) (simp add: sub_release_def)
qed

lemma sub_rel_reserve:
  assumes rel: "sub_rel members l s M" and p: "sp_peer p < members"
    and room: "in_slot (sp_peer p) (sp_channel p) M < max_queued_parcels_per_peer l"
      "peer_bytes (sp_peer p) M + sp_bytes p \<le> byte_limit l (sp_channel p)"
  shows "sub_rel members l
    (s\<lparr>ss_counts := (ss_counts s)[slot (sp_peer p) (sp_channel p) := ss_counts s ! slot (sp_peer p) (sp_channel p) + 1],
       ss_bytes := (ss_bytes s)[sp_peer p := ss_bytes s ! sp_peer p + sp_bytes p]\<rparr>) (add_mset p M)"
    (is "sub_rel _ _ ?s _")
proof -
  note d = sub_relD [OF rel]
  have cnt: "ss_counts ?s ! slot peer ch = in_slot peer ch (add_mset p M)" if "peer < members" for peer ch
    using d(2) d(5) [OF that, of ch] slot_less [OF that, of ch]
    by (cases "sp_peer p = peer \<and> sp_channel p = ch") (auto simp: in_slot_add slot_inj nth_list_update)
  have byt: "ss_bytes ?s ! peer = peer_bytes peer (add_mset p M)" if "peer < members" for peer
    using d(3) d(7) [OF that] that by (cases "sp_peer p = peer") (auto simp: peer_bytes_add)
  have limit: "byte_limit l (sp_channel p) \<le> max_inflight_bytes_per_peer l"
    by (simp add: byte_limit_def)
  have bounds: "in_slot peer ch (add_mset p M) \<le> max_queued_parcels_per_peer l"
      "peer_bytes peer (add_mset p M) \<le> max_inflight_bytes_per_peer l" if "peer < members" for peer ch
    using d(6) [OF that, of ch] d(8) [OF that] room limit by (auto simp: in_slot_add peer_bytes_add)
  have plain: "plain_bytes peer (add_mset p M) \<le> max_inflight_bytes_per_peer l - control_reserved_bytes_per_peer l"
    if "peer < members" for peer
  proof (cases "sp_peer p = peer \<and> sp_channel p \<noteq> ChControl")
    case True
    then show ?thesis
      using room(2) plain_le_peer [of peer M] by (auto simp: plain_bytes_add byte_limit_def)
  next
    case False
    then show ?thesis
      using d(9) [OF that] by (auto simp: plain_bytes_add)
  qed
  show ?thesis
    using d(1-4) p cnt byt bounds plain by (simp add: sub_rel_def)
qed

lemma sub_rel_fields:
  "ss_limits s' = ss_limits s \<Longrightarrow> ss_counts s' = ss_counts s \<Longrightarrow> ss_bytes s' = ss_bytes s
     \<Longrightarrow> sub_rel members l s' M = sub_rel members l s M"
  by (simp add: sub_rel_def)

text \<open>A reservation either adds one live permit or gives everything back.\<close>

lemma release_reserve_id:
  assumes "slot peer ch < length cs" "peer < length bs" "cs ! slot peer ch + 1 \<le> USIZE_MAX" "bs ! peer + n \<le> USIZE_MAX"
  shows "sub_release peer ch n (s\<lparr>ss_counts := cs[slot peer ch := cs ! slot peer ch + 1],
      ss_bytes := bs[peer := bs ! peer + n]\<rparr>) = s\<lparr>ss_counts := cs, ss_bytes := bs\<rparr>"
  using assms by (simp add: sub_release_def fetch_sub_eq)

lemma sub_reserve_cases:
  assumes rel: "sub_rel members l s M" and res: "sub_reserve s peer ch n = (s', r)"
  shows "case r of
      Inr p \<Rightarrow> sp_peer p = peer \<and> sp_channel p = ch \<and> sp_bytes p = n \<and> sp_ticket p = ss_next_ticket s
        \<and> ss_next_ticket s' = ss_next_ticket s + 1 \<and> ss_next_ticket s \<noteq> 0 \<and> ss_next_ticket s \<noteq> - 1
        \<and> ss_closed s' = ss_closed s \<and> sub_rel members l s' (add_mset p M)
    | Inl (Fail e) \<Rightarrow> s' = s
    | Inl Panic \<Rightarrow> members \<le> peer \<or> USIZE_MAX < max_queued_parcels_per_peer l + 1 \<or> USIZE_MAX < max_inflight_bytes_per_peer l + n"
proof -
  note d = sub_relD [OF rel]
  let ?i = "slot peer ch"
  let ?p = "\<lparr>sp_peer = peer, sp_channel = ch, sp_bytes = n, sp_ticket = ss_next_ticket s\<rparr>"
  let ?s2 = "s\<lparr>ss_counts := (ss_counts s)[?i := ss_counts s ! ?i + 1], ss_bytes := (ss_bytes s)[peer := ss_bytes s ! peer + n]\<rparr>"
  show ?thesis
  proof (cases "peer < members")
    case True
    note c = d(5) [OF True, of ch] d(6) [OF True, of ch] d(7) [OF True] d(8) [OF True]
    have i: "?i < length (ss_counts s)" "peer < length (ss_bytes s)"
      using d(2,3) True slot_less by auto
    have undo: "sub_release peer ch n ?s2 = s"
      if "ss_counts s ! ?i + 1 \<le> USIZE_MAX" "ss_bytes s ! peer + n \<le> USIZE_MAX"
      using release_reserve_id [OF i that, of s] by simp
    have "sub_rel members l ?s2 (add_mset ?p M)"
      if "in_slot peer ch M < max_queued_parcels_per_peer l" "peer_bytes peer M + n \<le> byte_limit l ch"
      using sub_rel_reserve [OF rel, of ?p] True that by simp
    then have add: "sub_rel members l (?s2\<lparr>ss_next_ticket := t\<rparr>) (add_mset ?p M)"
      if "in_slot peer ch M < max_queued_parcels_per_peer l" "peer_bytes peer M + n \<le> byte_limit l ch" for t
      using that by (simp add: sub_rel_def)
    have same: "(ss_counts s)[?i := in_slot peer ch M] = ss_counts s"
      using c(1) by (metis list_update_id)
    show ?thesis
      using res i d(1) c undo add same
      by (auto simp: sub_reserve_def Let_def fetch_sub_eq not_le not_less split: if_splits)
  next
    case False
    then show ?thesis
      using res d(3) by (auto simp: sub_reserve_def Let_def split: if_splits)
  qed
qed

lemma sub_step_inv: "sub_step w w' \<Longrightarrow> limits_usize l \<Longrightarrow> sub_inv members l w \<Longrightarrow> sub_inv members l w'"
proof (induction rule: sub_step.induct)
  case (reserve_ok w peer ch n s' p)
  then show ?case
    using sub_reserve_cases [OF _ reserve_ok(2), of members l "sw_live w"]
    by (simp add: sub_inv_def sw_live_def)
next
  case (reserve_err w peer ch n s' e)
  then show ?case
    using sub_reserve_cases [OF _ reserve_err(2), of members l "sw_live w"]
    by (simp add: sub_inv_def sw_live_def)
next
  case (cancel w p)
  then show ?case
    using sub_rel_release [of members l "sw_state w" p "mset (sw_flight w)"]
    by (simp add: sub_inv_def sw_live_def permit_drop_def)
next
  case (complete p w)
  let ?M = "sw_live w - {#p#}"
  have "p \<in># sw_live w"
    using complete(1) by (simp add: sw_live_def)
  then have "sub_rel members l (sub_release (sp_peer p) (sp_channel p) (sp_bytes p) (sw_state w)) ?M"
    using complete by (intro sub_rel_release) (simp_all add: sub_inv_def)
  moreover have "sw_live (w\<lparr>sw_state := s, sw_flight := remove1 p (sw_flight w)\<rparr>) = ?M" for s
    using complete(1) by (simp add: sw_live_def split: option.split)
  ultimately show ?case by (simp add: sub_inv_def)
qed (auto simp: sub_inv_def sw_live_def sub_rel_def permit_commit_def sub_close_def record_received_def
    record_peer_failure_def)

lemma sub_start_inv: "sub_inv members l (sub_start members l)"
  by (auto simp: sub_inv_def sub_start_def sw_live_def sub_rel_def submission_new_def in_slot_def
      peer_bytes_def plain_bytes_def slot_less)

lemma sub_reachable_inv:
  "sub_step\<^sup>*\<^sup>* (sub_start members l) w \<Longrightarrow> limits_usize l \<Longrightarrow> sub_inv members l w"
  by (induction rule: rtranclp_induct) (auto intro: sub_start_inv sub_step_inv)

text \<open>
  C15. Whatever sends, cancellations, completions and closures happen in whatever order, the
  counters of the submission state are exactly those of the reservations still live: no channel
  of a peer holds more than \<open>max_queued_parcels_per_peer\<close>, no peer more than
  \<open>max_inflight_bytes_per_peer\<close>, and traffic other than control never uses the bytes reserved
  for control. The atomic subtractions never wrap.
\<close>

theorem submission_bounded:
  assumes "sub_step\<^sup>*\<^sup>* (sub_start members l) w" "limits_usize l" "peer < members"
  shows "ss_counts (sw_state w) ! slot peer ch = in_slot peer ch (sw_live w)
    \<and> in_slot peer ch (sw_live w) \<le> max_queued_parcels_per_peer l
    \<and> ss_bytes (sw_state w) ! peer = peer_bytes peer (sw_live w)
    \<and> peer_bytes peer (sw_live w) \<le> max_inflight_bytes_per_peer l
    \<and> plain_bytes peer (sw_live w) \<le> max_inflight_bytes_per_peer l - control_reserved_bytes_per_peer l"
  using sub_reachable_inv [OF assms(1,2)] assms(3) by (simp add: sub_inv_def sub_rel_def)

lemma demo_sub_step:
  "\<exists>w. sub_step (sub_start 2 limits_default) w
     \<and> sw_live w = {#\<lparr>sp_peer = 1, sp_channel = ChAction, sp_bytes = 100, sp_ticket = 1\<rparr>#}"
proof -
  have "\<exists>s. sub_reserve (submission_new 2 limits_default) 1 ChAction 100
      = (s, Ok \<lparr>sp_peer = 1, sp_channel = ChAction, sp_bytes = 100, sp_ticket = 1\<rparr>)"
    by (simp add: sub_reserve_def submission_new_def slot_def Let_def USIZE_MAX_def limits_default_def
        byte_limit_def)
  then obtain s where s: "sub_reserve (submission_new 2 limits_default) 1 ChAction 100
      = (s, Ok \<lparr>sp_peer = 1, sp_channel = ChAction, sp_bytes = 100, sp_ticket = 1\<rparr>)" ..
  have "sub_step (sub_start 2 limits_default) ((sub_start 2 limits_default)\<lparr>sw_state := s,
      sw_held := Some \<lparr>sp_peer = 1, sp_channel = ChAction, sp_bytes = 100, sp_ticket = 1\<rparr>\<rparr>)"
    using s by (intro sub_step.reserve_ok) (auto simp: sub_start_def)
  then show ?thesis by (auto simp: sw_live_def sub_start_def)
qed

theorem submission_bounded_witness:
  "\<exists>w. ss_bytes (sw_state w) ! 1 = 100 \<and> plain_bytes 1 (sw_live w) \<le> 16 * 1024 * 1024 - 64 * 1024"
proof -
  obtain w where w: "sub_step (sub_start 2 limits_default) w"
      "sw_live w = {#\<lparr>sp_peer = 1, sp_channel = ChAction, sp_bytes = 100, sp_ticket = 1\<rparr>#}"
    using demo_sub_step by blast
  have "limits_usize limits_default"
    by (simp add: limits_usize_def limits_default_def USIZE_MAX_def)
  then have "ss_bytes (sw_state w) ! 1 = peer_bytes 1 (sw_live w)"
      "plain_bytes 1 (sw_live w) \<le> 16 * 1024 * 1024 - 64 * 1024"
    using submission_bounded [OF r_into_rtranclp, OF w(1), of 1 ChAction]
    by (simp_all add: limits_default_def)
  then show ?thesis
    using w(2) by (auto simp: peer_bytes_def)
qed

text \<open>
  Control traffic is never starved: as long as the state is open, tickets are left and the
  control queue of the peer has room, a control send is admitted whenever the control bytes in
  use and its own stay within the reserve, however much other traffic is queued.
\<close>

theorem control_not_starved:
  assumes "sub_step\<^sup>*\<^sup>* (sub_start members l) w" "limits_usize l" "is_ok (limits_validate l)"
    and "peer < members" "\<not> ss_closed (sw_state w)"
    and "ss_next_ticket (sw_state w) \<notin> {0, - 1}"
    and "in_slot peer ChControl (sw_live w) < max_queued_parcels_per_peer l"
    and "peer_bytes peer (sw_live w) - plain_bytes peer (sw_live w) + n \<le> control_reserved_bytes_per_peer l"
  shows "is_ok (snd (sub_reserve (sw_state w) peer ChControl n))"
proof -
  note d = sub_relD [OF sub_reachable_inv [OF assms(1,2), unfolded sub_inv_def]]
  have res: "control_reserved_bytes_per_peer l < max_inflight_bytes_per_peer l"
    using assms(3) by (auto simp: limits_validate_def split: if_splits)
  have "peer_bytes peer (sw_live w) + n \<le> max_inflight_bytes_per_peer l"
    using d(9) [OF assms(4)] plain_le_peer [of peer "sw_live w"] assms(8) res by linarith
  moreover from this have "peer_bytes peer (sw_live w) + n \<le> USIZE_MAX"
    using assms(2) by (simp add: limits_usize_def)
  moreover have "in_slot peer ChControl (sw_live w) + 1 \<le> USIZE_MAX"
    using assms(2,7) by (simp add: limits_usize_def)
  ultimately show ?thesis
    using d(1-3) d(5) [OF assms(4), of ChControl] d(7) [OF assms(4)] assms(4-7) slot_less [OF assms(4), of ChControl]
    by (simp add: sub_reserve_def Let_def byte_limit_def)
qed

theorem control_not_starved_witness:
  "is_ok (snd (sub_reserve (submission_new 2 limits_default) 1 ChControl (64 * 1024)))"
  using control_not_starved [of 2 limits_default "sub_start 2 limits_default" 1 "64 * 1024"]
  by (simp add: sub_start_def submission_new_def limits_usize_def limits_validate_def limits_default_def
      USIZE_MAX_def PARCEL_FIXED_BYTES_def sw_live_def in_slot_def peer_bytes_def)

end
