(* ===== verification/MemoryNet.thy ===== *)
theory MemoryNet
  imports Transport
begin

text \<open>
  The deterministic in-memory transport with fault injection
  (\<open>crates/hataori-runtime-foundation/src/memory.rs\<close>). All localities share one locked state, so
  an operation of a handle or driver is one function on it. An array indexed by a channel is a
  function on channels. Counter underflow and addition past \<open>usize::MAX\<close> panic; the 64-bit
  statistics wrap. Where \<open>flush\<close> reads the clock the answers (has the deadline passed?) are an
  argument, one per iteration.
\<close>

datatype memory_fault = Pass | Delay u64 | Duplicate | Loss | Reorder | Saturate | Disconnect

record delayed_parcel =
  dl_release_at :: u64
  dl_destination :: locality_id
  dl_parcel :: parcel
  dl_bytes :: usize

record node =
  nd_active :: bool
  nd_system :: "transport_event list"
  nd_incoming :: "channel \<Rightarrow> transport_event list"
  nd_delayed_counts :: "channel \<Rightarrow> usize"
  nd_queued_bytes :: usize
  nd_stats :: transport_stats

definition node_default :: node where
  "node_default = \<lparr>nd_active = True, nd_system = [], nd_incoming = (\<lambda>_. []), nd_delayed_counts = (\<lambda>_. 0),
     nd_queued_bytes = 0, nd_stats = stats_default\<rparr>"

record mem_state =
  ms_run_id :: run_id
  ms_limits :: protocol_limits
  ms_tick :: u64
  ms_next_ticket :: u64
  ms_faults :: "memory_fault list"
  ms_delayed :: "delayed_parcel list"
  ms_nodes :: "node list"

record mem_driver =
  dr_local_id :: locality_id
  dr_members :: "locality_id list"
  dr_shutdown :: bool

definition mem_build ::
  "usize \<Rightarrow> run_id \<Rightarrow> protocol_limits \<Rightarrow> memory_fault list
     \<Rightarrow> (transport_error, mem_state \<times> mem_driver list) result"
where
  "mem_build n run l faults =
     res_bind (res_map_err TeProtocol (limits_validate l)) (\<lambda>_.
       if n = 0 then Err (TePeer ''membership is empty'')
       else let members = map word_of_nat [0..<n] in
         Ok (\<lparr>ms_run_id = run, ms_limits = l, ms_tick = 0, ms_next_ticket = 1, ms_faults = faults,
              ms_delayed = [], ms_nodes = replicate n node_default\<rparr>,
             map (\<lambda>i. \<lparr>dr_local_id = i, dr_members = members, dr_shutdown = False\<rparr>) members))"

subsection \<open>State access\<close>

definition mem_index :: "mem_state \<Rightarrow> locality_id \<Rightarrow> (transport_error fault, usize) result" where
  "mem_index s loc =
     (if unat loc < length (ms_nodes s) then Ok (unat loc) else Err (Fail (InvalidDestination loc)))"

definition mem_node :: "mem_state \<Rightarrow> locality_id \<Rightarrow> (transport_error fault, node) result" where
  "mem_node s loc = res_bind (mem_index s loc) (\<lambda>i. Ok (ms_nodes s ! i))"

text \<open>\<open>node_mut\<close>: an update of one node, which may itself panic.\<close>

definition mem_node_mut ::
  "mem_state \<Rightarrow> locality_id \<Rightarrow> (node \<Rightarrow> (transport_error fault, node) result)
     \<Rightarrow> (transport_error fault, mem_state) result"
where
  "mem_node_mut s loc f =
     res_bind (mem_index s loc) (\<lambda>i. res_bind (f (ms_nodes s ! i)) (\<lambda>n.
       Ok (s\<lparr>ms_nodes := (ms_nodes s)[i := n]\<rparr>)))"

definition mem_reserve :: "mem_state \<Rightarrow> parcel \<Rightarrow> usize \<Rightarrow> usize \<Rightarrow> (transport_error fault, unit) result" where
  "mem_reserve s p n copies =
     res_bind (mem_node s (p_destination p)) (\<lambda>nd.
       if \<not> nd_active nd then Err (Fail (Disconnected (p_destination p)))
       else let ch = p_channel p; l = ms_limits s in
       res_bind (ok_or (Option.bind (checked_add_usize (length (nd_incoming nd ch)) (nd_delayed_counts nd ch))
           (\<lambda>v. checked_add_usize v copies)) (Fail (ByteLimit USIZE_MAX (max_queued_parcels_per_peer l)))) (\<lambda>cnt.
       if max_queued_parcels_per_peer l < cnt then Err (Fail (QueueFull ch (max_queued_parcels_per_peer l)))
       else res_bind (ok_or (checked_mul_usize n copies)
           (Fail (ByteLimit USIZE_MAX (max_inflight_bytes_per_peer l)))) (\<lambda>added.
       res_bind (ok_or (checked_add_usize (nd_queued_bytes nd) added)
           (Fail (ByteLimit USIZE_MAX (max_inflight_bytes_per_peer l)))) (\<lambda>tot.
       if byte_limit l ch < tot then Err (Fail (ByteLimit tot (byte_limit l ch)))
       else Ok ()))))"

definition add_queued :: "usize \<Rightarrow> node \<Rightarrow> (transport_error fault, node) result" where
  "add_queued n nd =
     (if USIZE_MAX < nd_queued_bytes nd + n then Err Panic
      else Ok (nd\<lparr>nd_queued_bytes := nd_queued_bytes nd + n\<rparr>))"

definition mem_enqueue :: "mem_state \<Rightarrow> parcel \<Rightarrow> usize \<Rightarrow> bool \<Rightarrow> (transport_error fault, mem_state) result" where
  "mem_enqueue s p n front =
     mem_node_mut s (p_destination p) (\<lambda>nd. res_bind (add_queued n nd) (\<lambda>nd.
       let q = nd_incoming nd (p_channel p); ev = Incoming p in
       Ok (nd\<lparr>nd_incoming := (nd_incoming nd)(p_channel p := (if front then ev # q else q @ [ev]))\<rparr>)))"

definition take_delayed :: "channel \<Rightarrow> node \<Rightarrow> (transport_error fault, node) result" where
  "take_delayed ch nd =
     (if nd_delayed_counts nd ch = 0 then Err Panic
      else Ok (nd\<lparr>nd_delayed_counts := (nd_delayed_counts nd)(ch := nd_delayed_counts nd ch - 1)\<rparr>))"

definition sub_queued :: "usize \<Rightarrow> node \<Rightarrow> (transport_error fault, node) result" where
  "sub_queued n nd =
     (if nd_queued_bytes nd < n then Err Panic
      else Ok (nd\<lparr>nd_queued_bytes := nd_queued_bytes nd - n\<rparr>))"

definition node_release :: "channel \<Rightarrow> usize \<Rightarrow> node \<Rightarrow> (transport_error fault, node) result" where
  "node_release ch n nd =
     res_bind (sub_queued n nd) (\<lambda>nd.
       Ok (nd\<lparr>nd_stats := (nd_stats nd)\<lparr>ts_queued_bytes := nd_queued_bytes nd\<rparr>\<rparr>))"

definition node_stats :: "node \<Rightarrow> transport_stats" where
  "node_stats nd = (nd_stats nd)\<lparr>
     queued_control := length (nd_incoming nd ChControl) + nd_delayed_counts nd ChControl,
     queued_action := length (nd_incoming nd ChAction) + nd_delayed_counts nd ChAction,
     queued_bulk := length (nd_incoming nd ChBulk) + nd_delayed_counts nd ChBulk,
     ts_queued_bytes := nd_queued_bytes nd, pending_events := length (nd_system nd)\<rparr>"

definition node_clear :: "node \<Rightarrow> node" where
  "node_clear nd = nd\<lparr>nd_system := [], nd_incoming := (\<lambda>_. []), nd_delayed_counts := (\<lambda>_. 0),
     nd_queued_bytes := 0, nd_stats := (nd_stats nd)\<lparr>queued_control := 0, queued_action := 0,
       queued_bulk := 0, ts_queued_bytes := 0\<rparr>\<rparr>"

subsection \<open>Sending\<close>

text \<open>The body of each arm of \<open>match fault\<close>; the state it is given has its ticket and fault taken.\<close>

fun apply_fault ::
  "memory_fault \<Rightarrow> mem_state \<Rightarrow> locality_id \<Rightarrow> parcel \<Rightarrow> usize \<Rightarrow> (transport_error fault, mem_state) result"
where
  "apply_fault Saturate s local_id p n =
     Err (Fail (QueueFull (p_channel p) (max_queued_parcels_per_peer (ms_limits s))))"
| "apply_fault Disconnect s local_id p n =
     mem_node_mut s local_id (\<lambda>nd. Ok (nd\<lparr>
       nd_system := nd_system nd @ [PeerFailed (p_destination p) (Disconnected (p_destination p))],
       nd_stats := (nd_stats nd)\<lparr>ts_peer_failures := ts_peer_failures (nd_stats nd) + 1\<rparr>\<rparr>))"
| "apply_fault Loss s local_id p n = Ok s"
| "apply_fault (Delay ticks) s local_id p n =
     res_bind (mem_reserve s p n 1) (\<lambda>_.
     res_bind (mem_node_mut s (p_destination p) (\<lambda>nd.
       if USIZE_MAX < nd_delayed_counts nd (p_channel p) + 1 then Err Panic
       else add_queued n (nd\<lparr>nd_delayed_counts :=
         (nd_delayed_counts nd)(p_channel p := nd_delayed_counts nd (p_channel p) + 1)\<rparr>))) (\<lambda>s.
     Ok (s\<lparr>ms_delayed := ms_delayed s @ [\<lparr>
       dl_release_at = saturating_add_u64 (ms_tick s) (max ticks 1),
       dl_destination = p_destination p, dl_parcel = p, dl_bytes = n\<rparr>]\<rparr>)))"
| "apply_fault Duplicate s local_id p n =
     res_bind (mem_reserve s p n 2) (\<lambda>_. res_bind (mem_enqueue s p n False) (\<lambda>s. mem_enqueue s p n False))"
| "apply_fault Reorder s local_id p n =
     res_bind (mem_reserve s p n 1) (\<lambda>_. mem_enqueue s p n True)"
| "apply_fault Pass s local_id p n =
     res_bind (mem_reserve s p n 1) (\<lambda>_. mem_enqueue s p n False)"

definition complete_send ::
  "u64 \<Rightarrow> mem_state \<Rightarrow> locality_id \<Rightarrow> usize \<Rightarrow> (transport_error fault, mem_state) result"
where
  "complete_send ticket s local_id n =
     mem_node_mut s local_id (\<lambda>nd. Ok (nd\<lparr>
       nd_stats := (nd_stats nd)\<lparr>ts_submitted_parcels := ts_submitted_parcels (nd_stats nd) + 1,
         ts_submitted_bytes := ts_submitted_bytes (nd_stats nd) + word_of_nat n\<rparr>,
       nd_system := nd_system nd @ [LocalSendComplete ticket]\<rparr>))"

definition send_checks ::
  "mem_state \<Rightarrow> locality_id \<Rightarrow> parcel \<Rightarrow> (transport_error fault, usize) result"
where
  "send_checks s local_id p =
     res_bind (mem_node s local_id) (\<lambda>nd.
     if \<not> nd_active nd then Err (Fail TeShutdown)
     else if p_run_id p \<noteq> ms_run_id s then Err (Fail (TeProtocol RunMismatch))
     else if p_source p \<noteq> local_id then Err (Fail (TePeer ''parcel source does not match handle''))
     else res_bind (res_map_err (\<lambda>e. Fail (TeProtocol e)) (parcel_validate p (ms_limits s))) (\<lambda>_.
     res_bind (mem_node s (p_destination p)) (\<lambda>_.
     if max_queued_parcels_per_peer (ms_limits s) \<le> length (nd_system nd)
     then Err (Fail (QueueFull ChControl (max_queued_parcels_per_peer (ms_limits s))))
     else res_map_err (\<lambda>e. Fail (TeProtocol e)) (payload_len p))))"

definition try_send ::
  "mem_state \<Rightarrow> locality_id \<Rightarrow> parcel \<Rightarrow> mem_state \<times> send_ticket transport_result"
where
  "try_send s local_id p =
     (case send_checks s local_id p of
        Inl e \<Rightarrow> (s, Err e)
      | Inr n \<Rightarrow>
          (let ticket = ms_next_ticket s in
           case checked_add_u64 ticket 1 of
             None \<Rightarrow> (s, Err (Fail (TePeer ''send ticket overflow'')))
           | Some next \<Rightarrow>
               (let (fault, rest) = (case ms_faults s of [] \<Rightarrow> (Pass, []) | f # fs \<Rightarrow> (f, fs));
                    s1 = s\<lparr>ms_next_ticket := next, ms_faults := rest\<rparr>
                in case res_bind (apply_fault fault s1 local_id p n) (\<lambda>s2. complete_send ticket s2 local_id n) of
                     Inl e \<Rightarrow> (s1, Err e)
                   | Inr s3 \<Rightarrow> (s3, Ok ticket))))"

subsection \<open>Delayed parcels\<close>

definition deliver_delayed :: "delayed_parcel \<Rightarrow> mem_state \<Rightarrow> (transport_error fault, mem_state) result" where
  "deliver_delayed d s =
     mem_node_mut s (dl_destination d) (\<lambda>nd.
       let ch = p_channel (dl_parcel d) in res_bind (take_delayed ch nd) (\<lambda>nd.
         Ok (nd\<lparr>nd_incoming := (nd_incoming nd)(ch := nd_incoming nd ch @ [Incoming (dl_parcel d)])\<rparr>)))"

text \<open>The loop of \<open>release_delayed\<close>: the parcels left to look at and those retained so far.\<close>

fun release_items ::
  "delayed_parcel list \<Rightarrow> delayed_parcel list \<Rightarrow> mem_state \<Rightarrow> mem_state \<times> unit transport_result"
where
  "release_items retained [] s = (s\<lparr>ms_delayed := retained\<rparr>, Ok ())"
| "release_items retained (d # ds) s =
     (if dl_release_at d \<le> ms_tick s then
        (case deliver_delayed d s of
           Inl e \<Rightarrow> (s\<lparr>ms_delayed := ds\<rparr>, Err e)
         | Inr s' \<Rightarrow> release_items retained ds s')
      else release_items (retained @ [d]) ds s)"

definition release_delayed :: "mem_state \<Rightarrow> mem_state \<times> unit transport_result" where
  "release_delayed s = release_items [] (ms_delayed s) s"

definition cancel_delayed :: "delayed_parcel \<Rightarrow> mem_state \<Rightarrow> (transport_error fault, mem_state) result" where
  "cancel_delayed d s =
     mem_node_mut s (dl_destination d) (\<lambda>nd.
       res_bind (take_delayed (p_channel (dl_parcel d)) nd) (\<lambda>nd. sub_queued (dl_bytes d) nd))"

fun cancel_items ::
  "locality_id \<Rightarrow> delayed_parcel list \<Rightarrow> delayed_parcel list \<Rightarrow> mem_state \<Rightarrow> mem_state \<times> unit transport_result"
where
  "cancel_items loc retained [] s = (s\<lparr>ms_delayed := retained\<rparr>, Ok ())"
| "cancel_items loc retained (d # ds) s =
     (if p_source (dl_parcel d) = loc \<or> dl_destination d = loc then
        (if dl_destination d \<noteq> loc then
           (case cancel_delayed d s of
              Inl e \<Rightarrow> (s\<lparr>ms_delayed := ds\<rparr>, Err e)
            | Inr s' \<Rightarrow> cancel_items loc retained ds s')
         else cancel_items loc retained ds s)
      else cancel_items loc (retained @ [d]) ds s)"

definition cancel_locality :: "mem_state \<Rightarrow> locality_id \<Rightarrow> mem_state \<times> unit transport_result" where
  "cancel_locality s loc = cancel_items loc [] (ms_delayed s) s"

subsection \<open>Receiving\<close>

fun pop_event :: "node \<Rightarrow> (transport_event \<times> node) option" where
  "pop_event nd =
     (case nd_system nd of
        e # es \<Rightarrow> Some (e, nd\<lparr>nd_system := es\<rparr>)
      | [] \<Rightarrow> (case nd_incoming nd ChControl of
          e # es \<Rightarrow> Some (e, nd\<lparr>nd_incoming := (nd_incoming nd)(ChControl := es)\<rparr>)
        | [] \<Rightarrow> (case nd_incoming nd ChAction of
            e # es \<Rightarrow> Some (e, nd\<lparr>nd_incoming := (nd_incoming nd)(ChAction := es)\<rparr>)
          | [] \<Rightarrow> (case nd_incoming nd ChBulk of
              e # es \<Rightarrow> Some (e, nd\<lparr>nd_incoming := (nd_incoming nd)(ChBulk := es)\<rparr>)
            | [] \<Rightarrow> None))))"

definition receive_event :: "transport_event \<Rightarrow> node \<Rightarrow> (transport_error fault, node) result" where
  "receive_event e nd =
     (case e of
        Incoming p \<Rightarrow>
          res_bind (res_map_err (\<lambda>x. Fail (TeProtocol x)) (payload_len p)) (\<lambda>n.
          res_bind (node_release (p_channel p) n nd) (\<lambda>nd.
            Ok (nd\<lparr>nd_stats := (nd_stats nd)\<lparr>ts_received_parcels := ts_received_parcels (nd_stats nd) + 1,
                ts_received_bytes := ts_received_bytes (nd_stats nd) + word_of_nat n\<rparr>\<rparr>)))
      | _ \<Rightarrow> Ok nd)"

text \<open>The loop of \<open>progress\<close>, with the number of events it may still take.\<close>

fun take_events :: "nat \<Rightarrow> node \<Rightarrow> transport_event list \<Rightarrow> node \<times> transport_event list \<times> unit transport_result" where
  "take_events 0 nd evs = (nd, evs, Ok ())"
| "take_events (Suc n) nd evs =
     (case pop_event nd of
        None \<Rightarrow> (nd, evs, Ok ())
      | Some (e, nd') \<Rightarrow>
          (case receive_event e nd' of
             Inl err \<Rightarrow> (nd', evs, Err err)
           | Inr nd'' \<Rightarrow> take_events n nd'' (evs @ [e])))"

definition advance_tick :: "mem_state \<Rightarrow> mem_state \<times> unit transport_result" where
  "advance_tick s = release_delayed (s\<lparr>ms_tick := saturating_add_u64 (ms_tick s) 1\<rparr>)"

definition mem_progress ::
  "mem_state \<Rightarrow> mem_driver \<Rightarrow> usize \<Rightarrow> mem_state \<times> (transport_event list \<times> progress) transport_result"
where
  "mem_progress s dr max_events =
     (if dr_shutdown dr then (s, Err (Fail TeShutdown))
      else case advance_tick s of
        (s1, Inl e) \<Rightarrow> (s1, Err e)
      | (s1, Inr _) \<Rightarrow>
          (case mem_index s1 (dr_local_id dr) of
             Inl e \<Rightarrow> (s1, Err e)
           | Inr i \<Rightarrow>
               (let (nd, evs, r) = take_events max_events (ms_nodes s1 ! i) [];
                    s2 = s1\<lparr>ms_nodes := (ms_nodes s1)[i := nd]\<rparr>
                in case r of
                     Inl e \<Rightarrow> (s2, Err e)
                   | Inr _ \<Rightarrow> (s2, Ok (evs, \<lparr>pr_events = length evs, pr_made_progress = 0 < length evs\<rparr>)))))"

subsection \<open>Flush and shutdown\<close>

definition flush_pending :: "mem_state \<Rightarrow> locality_id \<Rightarrow> bool" where
  "flush_pending s loc \<longleftrightarrow> list_ex (\<lambda>d. p_source (dl_parcel d) = loc) (ms_delayed s)"

text \<open>One entry of the list per iteration; running out of entries means still looping.\<close>

fun mem_flush :: "bool list \<Rightarrow> mem_state \<Rightarrow> locality_id \<Rightarrow> mem_state \<times> unit transport_result option" where
  "mem_flush [] s loc = (s, None)"
| "mem_flush (late # clock) s loc =
     (case advance_tick s of
        (s1, Inl e) \<Rightarrow> (s1, Some (Err e))
      | (s1, Inr _) \<Rightarrow>
          if \<not> flush_pending s1 loc then (s1, Some (Ok ()))
          else if late then (s1, Some (Err (Fail (TeTimeout ''memory flush''))))
          else mem_flush clock s1 loc)"

definition finish_shutdown ::
  "mem_state \<Rightarrow> locality_id \<Rightarrow> mem_state \<times> unit transport_result"
where
  "finish_shutdown s loc =
     (case cancel_locality s loc of
        (s1, Inl e) \<Rightarrow> (s1, Err e)
      | (s1, Inr _) \<Rightarrow>
          (case mem_node_mut s1 loc (\<lambda>nd. Ok (node_clear (nd\<lparr>nd_active := False\<rparr>))) of
             Inl e \<Rightarrow> (s1, Err e)
           | Inr s2 \<Rightarrow> (s2, Ok ())))"

definition mem_shutdown ::
  "bool list \<Rightarrow> mem_state \<Rightarrow> mem_driver
     \<Rightarrow> mem_state \<times> mem_driver \<times> transport_event list transport_result option"
where
  "mem_shutdown clock s dr =
     (case mem_node_mut s (dr_local_id dr) (\<lambda>nd. Ok (nd\<lparr>nd_active := False\<rparr>)) of
        Inl e \<Rightarrow> (s, dr, Some (Err e))
      | Inr s1 \<Rightarrow>
          (case mem_flush clock s1 (dr_local_id dr) of
             (s2, None) \<Rightarrow> (s2, dr, None)
           | (s2, Some (Inl e)) \<Rightarrow> (s2, dr, Some (Err e))
           | (s2, Some (Inr _)) \<Rightarrow>
               (case finish_shutdown s2 (dr_local_id dr) of
                  (s3, Inl e) \<Rightarrow> (s3, dr, Some (Err e))
                | (s3, Inr _) \<Rightarrow> (s3, dr\<lparr>dr_shutdown := True\<rparr>, Some (Ok [ShutdownComplete])))))"

subsection \<open>The invariant\<close>

definition parcel_bytes :: "parcel \<Rightarrow> usize" where
  "parcel_bytes p = length (concat (p_segments p))"

fun ev_ok :: "usize \<Rightarrow> channel \<Rightarrow> transport_event \<Rightarrow> bool" where
  "ev_ok i ch (Incoming p) \<longleftrightarrow> p_channel p = ch \<and> unat (p_destination p) = i \<and> parcel_bytes p \<le> USIZE_MAX"
| "ev_ok i ch e \<longleftrightarrow> False"

fun ev_len :: "transport_event \<Rightarrow> usize" where
  "ev_len (Incoming p) = parcel_bytes p"
| "ev_len e = 0"

definition queue_bytes :: "transport_event list \<Rightarrow> usize" where
  "queue_bytes q = sum_list (map ev_len q)"

definition node_bytes :: "node \<Rightarrow> usize" where
  "node_bytes nd = queue_bytes (nd_incoming nd ChControl) + queue_bytes (nd_incoming nd ChAction)
     + queue_bytes (nd_incoming nd ChBulk)"

definition dl_count :: "delayed_parcel list \<Rightarrow> usize \<Rightarrow> channel \<Rightarrow> usize" where
  "dl_count ds i ch =
     length (filter (\<lambda>d. unat (dl_destination d) = i \<and> p_channel (dl_parcel d) = ch) ds)"

definition dl_total :: "delayed_parcel list \<Rightarrow> usize \<Rightarrow> usize" where
  "dl_total ds i = sum_list (map dl_bytes (filter (\<lambda>d. unat (dl_destination d) = i) ds))"

definition delayed_ok :: "usize \<Rightarrow> delayed_parcel \<Rightarrow> bool" where
  "delayed_ok n d \<longleftrightarrow> unat (dl_destination d) < n \<and> dl_destination d = p_destination (dl_parcel d)
     \<and> dl_bytes d = parcel_bytes (dl_parcel d) \<and> dl_bytes d \<le> USIZE_MAX"

definition node_inv :: "protocol_limits \<Rightarrow> delayed_parcel list \<Rightarrow> usize \<Rightarrow> node \<Rightarrow> bool" where
  "node_inv l ds i nd \<longleftrightarrow>
     (\<forall>ch. list_all (ev_ok i ch) (nd_incoming nd ch) \<and> nd_delayed_counts nd ch = dl_count ds i ch
        \<and> length (nd_incoming nd ch) + dl_count ds i ch \<le> max_queued_parcels_per_peer l)
     \<and> nd_queued_bytes nd = node_bytes nd + dl_total ds i
     \<and> nd_queued_bytes nd \<le> max_inflight_bytes_per_peer l"

text \<open>The invariant relative to a list of delayed parcels, with the nodes of \<open>X\<close> left out.\<close>

definition mem_ok :: "usize set \<Rightarrow> delayed_parcel list \<Rightarrow> mem_state \<Rightarrow> bool" where
  "mem_ok X ds s \<longleftrightarrow> limits_ok (ms_limits s) \<and> limits_usize (ms_limits s)
     \<and> list_all (delayed_ok (length (ms_nodes s))) ds
     \<and> (\<forall>i<length (ms_nodes s). i \<notin> X \<longrightarrow> node_inv (ms_limits s) ds i (ms_nodes s ! i))"

definition mem_inv :: "mem_state \<Rightarrow> bool" where
  "mem_inv s \<longleftrightarrow> mem_ok {} (ms_delayed s) s"

lemma dl_count_simps [simp]:
  "dl_count [] i ch = 0" "dl_count (xs @ ys) i ch = dl_count xs i ch + dl_count ys i ch"
  "dl_count (d # ds) i ch
     = (if unat (dl_destination d) = i \<and> p_channel (dl_parcel d) = ch then 1 else 0) + dl_count ds i ch"
  by (simp_all add: dl_count_def)

lemma dl_total_simps [simp]:
  "dl_total [] i = 0" "dl_total (xs @ ys) i = dl_total xs i + dl_total ys i"
  "dl_total (d # ds) i = (if unat (dl_destination d) = i then dl_bytes d else 0) + dl_total ds i"
  by (simp_all add: dl_total_def)

lemma queue_bytes_simps [simp]:
  "queue_bytes [] = 0" "queue_bytes (e # q) = ev_len e + queue_bytes q"
  "queue_bytes (xs @ ys) = queue_bytes xs + queue_bytes ys"
  by (simp_all add: queue_bytes_def)

lemma node_bytes_update:
  "node_bytes (nd\<lparr>nd_incoming := (nd_incoming nd)(ch := q)\<rparr>) + queue_bytes (nd_incoming nd ch)
     = node_bytes nd + queue_bytes q"
  by (cases ch) (simp_all add: node_bytes_def)

lemma node_bytes_fields [simp]:
  "node_bytes (nd\<lparr>nd_delayed_counts := x\<rparr>) = node_bytes nd" "node_bytes (nd\<lparr>nd_queued_bytes := b\<rparr>) = node_bytes nd"
  "node_bytes (nd\<lparr>nd_stats := t\<rparr>) = node_bytes nd" "node_bytes (nd\<lparr>nd_system := y\<rparr>) = node_bytes nd"
  "node_bytes (nd\<lparr>nd_active := a\<rparr>) = node_bytes nd"
  by (simp_all add: node_bytes_def)

lemma node_invI:
  assumes "\<And>ch. list_all (ev_ok i ch) (nd_incoming nd ch)" "\<And>ch. nd_delayed_counts nd ch = dl_count ds i ch"
    and "\<And>ch. length (nd_incoming nd ch) + dl_count ds i ch \<le> max_queued_parcels_per_peer l"
    and "nd_queued_bytes nd = node_bytes nd + dl_total ds i" "nd_queued_bytes nd \<le> max_inflight_bytes_per_peer l"
  shows "node_inv l ds i nd"
  using assms unfolding node_inv_def by blast

lemma node_invD:
  assumes "node_inv l ds i nd"
  shows "list_all (ev_ok i ch) (nd_incoming nd ch)" "nd_delayed_counts nd ch = dl_count ds i ch"
    "length (nd_incoming nd ch) + dl_count ds i ch \<le> max_queued_parcels_per_peer l"
    "nd_queued_bytes nd = node_bytes nd + dl_total ds i" "nd_queued_bytes nd \<le> max_inflight_bytes_per_peer l"
  using assms unfolding node_inv_def by blast+

text \<open>Parcels move between the queues of a node.\<close>

lemma node_inv_move:
  assumes inv: "node_inv l ds i nd"
    and queue: "list_all (ev_ok i ch) q"
    and room: "length q + dl_count ds' i ch \<le> max_queued_parcels_per_peer l"
    and count: "\<And>c. c \<noteq> ch \<Longrightarrow> dl_count ds' i c = dl_count ds i c"
    and bytes: "b + queue_bytes (nd_incoming nd ch) + dl_total ds i = nd_queued_bytes nd + queue_bytes q + dl_total ds' i"
    and limit: "b \<le> max_inflight_bytes_per_peer l"
  shows "node_inv l ds' i (nd\<lparr>nd_incoming := (nd_incoming nd)(ch := q),
      nd_delayed_counts := (nd_delayed_counts nd)(ch := dl_count ds' i ch), nd_queued_bytes := b\<rparr>)"
    (is "node_inv l ds' i ?nd")
proof (rule node_invI)
  fix c
  show "list_all (ev_ok i c) (nd_incoming ?nd c)"
    using queue node_invD(1) [OF inv, of c] by simp
  show "nd_delayed_counts ?nd c = dl_count ds' i c"
    using count [of c] node_invD(2) [OF inv, of c] by simp
  show "length (nd_incoming ?nd c) + dl_count ds' i c \<le> max_queued_parcels_per_peer l"
    using room count [of c] node_invD(3) [OF inv, of c] by auto
next
  have "node_bytes ?nd + queue_bytes (nd_incoming nd ch) = node_bytes nd + queue_bytes q"
    using node_bytes_update [of nd ch q] by (simp add: node_bytes_def)
  then show "nd_queued_bytes ?nd = node_bytes ?nd + dl_total ds' i"
    using bytes node_invD(4) [OF inv] by simp
  show "nd_queued_bytes ?nd \<le> max_inflight_bytes_per_peer l"
    using limit by simp
qed

lemma node_inv_cong:
  assumes "node_inv l ds i nd" "nd_incoming nd' = nd_incoming nd" "nd_delayed_counts nd' = nd_delayed_counts nd"
    "nd_queued_bytes nd' = nd_queued_bytes nd" "\<And>ch. dl_count ds' i ch = dl_count ds i ch" "dl_total ds' i = dl_total ds i"
  shows "node_inv l ds' i nd'"
  using assms unfolding node_inv_def node_bytes_def by metis

text \<open>What an update of one node owes to the invariant of the whole state.\<close>

lemma mem_okD:
  assumes "mem_ok X ds s"
  shows "limits_ok (ms_limits s)" "limits_usize (ms_limits s)"
    "list_all (delayed_ok (length (ms_nodes s))) ds"
    "i < length (ms_nodes s) \<Longrightarrow> i \<notin> X \<Longrightarrow> node_inv (ms_limits s) ds i (ms_nodes s ! i)"
  using assms by (auto simp: mem_ok_def)

lemma mem_ok_node_mut:
  assumes ok: "mem_ok X ds s" and i: "unat loc < length (ms_nodes s)"
    and f: "f (ms_nodes s ! unat loc) = Ok nd" and nd: "node_inv (ms_limits s) ds' (unat loc) nd"
    and ds: "list_all (delayed_ok (length (ms_nodes s))) ds'"
    and other: "\<And>j ch. j \<noteq> unat loc \<Longrightarrow> dl_count ds' j ch = dl_count ds j ch \<and> dl_total ds' j = dl_total ds j"
  shows "mem_node_mut s loc f = Ok (s\<lparr>ms_nodes := (ms_nodes s)[unat loc := nd]\<rparr>)"
    "mem_ok X ds' (s\<lparr>ms_nodes := (ms_nodes s)[unat loc := nd]\<rparr>)"
proof -
  let ?s = "s\<lparr>ms_nodes := (ms_nodes s)[unat loc := nd]\<rparr>"
  have "node_inv (ms_limits s) ds' j (ms_nodes ?s ! j)" if "j < length (ms_nodes s)" "j \<notin> X" for j
  proof (cases "j = unat loc")
    case True
    then show ?thesis using nd i by simp
  next
    case False
    with mem_okD(4) [OF ok that] other [OF False] show ?thesis
      by (auto intro: node_inv_cong)
  qed
  then show "mem_ok X ds' ?s"
    using ok ds by (simp add: mem_ok_def)
  show "mem_node_mut s loc f = Ok ?s"
    using i f by (simp add: mem_node_mut_def mem_index_def)
qed

text \<open>One delayed parcel leaves the list, into its queue or for good.\<close>

lemma delayed_node:
  assumes "mem_ok X (xs @ d # ys) s" "unat (dl_destination d) \<notin> X"
  shows "delayed_ok (length (ms_nodes s)) d" "list_all (delayed_ok (length (ms_nodes s))) (xs @ ys)"
    "node_inv (ms_limits s) (xs @ d # ys) (unat (dl_destination d)) (ms_nodes s ! unat (dl_destination d))"
    "unat (dl_destination d) < length (ms_nodes s)"
proof -
  show d: "delayed_ok (length (ms_nodes s)) d" "list_all (delayed_ok (length (ms_nodes s))) (xs @ ys)"
    using mem_okD(3) [OF assms(1)] by auto
  then show "unat (dl_destination d) < length (ms_nodes s)"
    unfolding delayed_ok_def by blast
  then show "node_inv (ms_limits s) (xs @ d # ys) (unat (dl_destination d)) (ms_nodes s ! unat (dl_destination d))"
    using mem_okD(4) [OF assms(1) _ assms(2)] by blast
qed

lemma deliver_delayed_ok:
  assumes "mem_ok X (xs @ d # ys) s" "unat (dl_destination d) \<notin> X"
  shows "\<exists>s'. deliver_delayed d s = Ok s' \<and> mem_ok X (xs @ ys) s' \<and> ms_tick s' = ms_tick s"
proof -
  let ?i = "unat (dl_destination d)"
  let ?ch = "p_channel (dl_parcel d)"
  let ?nd = "ms_nodes s ! ?i"
  let ?n = "?nd\<lparr>nd_incoming := (nd_incoming ?nd)(?ch := nd_incoming ?nd ?ch @ [Incoming (dl_parcel d)]),
      nd_delayed_counts := (nd_delayed_counts ?nd)(?ch := dl_count (xs @ ys) ?i ?ch), nd_queued_bytes := nd_queued_bytes ?nd\<rparr>"
  let ?f = "\<lambda>nd. let ch = ?ch in res_bind (take_delayed ch nd) (\<lambda>nd.
      Ok (nd\<lparr>nd_incoming := (nd_incoming nd)(ch := nd_incoming nd ch @ [Incoming (dl_parcel d)])\<rparr>))"
  note d = delayed_node [OF assms]
  have inv: "node_inv (ms_limits s) (xs @ ys) ?i ?n"
    using d(1) node_invD(1,3) [OF d(3), of ?ch] node_invD(5) [OF d(3)]
    by (intro node_inv_move [OF d(3)]) (auto simp: delayed_ok_def)
  have "nd_delayed_counts ?nd ?ch = Suc (dl_count (xs @ ys) ?i ?ch)"
    using node_invD(2) [OF d(3), of ?ch] by simp
  then have "?f ?nd = Ok ?n"
    by (simp add: take_delayed_def Let_def)
  note upd = mem_ok_node_mut [where f = ?f, OF assms(1) d(4) this inv d(2)]
  show ?thesis
    unfolding deliver_delayed_def using upd by auto
qed

lemma cancel_delayed_ok:
  assumes "mem_ok X (xs @ d # ys) s" "unat (dl_destination d) \<notin> X"
  shows "\<exists>s'. cancel_delayed d s = Ok s' \<and> mem_ok X (xs @ ys) s' \<and> length (ms_nodes s') = length (ms_nodes s)"
proof -
  let ?i = "unat (dl_destination d)"
  let ?ch = "p_channel (dl_parcel d)"
  let ?nd = "ms_nodes s ! ?i"
  let ?n = "?nd\<lparr>nd_incoming := (nd_incoming ?nd)(?ch := nd_incoming ?nd ?ch),
      nd_delayed_counts := (nd_delayed_counts ?nd)(?ch := dl_count (xs @ ys) ?i ?ch),
      nd_queued_bytes := nd_queued_bytes ?nd - dl_bytes d\<rparr>"
  let ?f = "\<lambda>nd. res_bind (take_delayed ?ch nd) (\<lambda>nd. sub_queued (dl_bytes d) nd)"
  note d = delayed_node [OF assms]
  have le: "dl_bytes d \<le> nd_queued_bytes ?nd"
    using node_invD(4) [OF d(3)] by simp
  have inv: "node_inv (ms_limits s) (xs @ ys) ?i ?n"
    using le d(1) node_invD(1,3) [OF d(3), of ?ch] node_invD(5) [OF d(3)]
    by (intro node_inv_move [OF d(3)]) (auto simp: delayed_ok_def)
  have "nd_delayed_counts ?nd ?ch = Suc (dl_count (xs @ ys) ?i ?ch)"
    using node_invD(2) [OF d(3), of ?ch] by simp
  then have "?f ?nd = Ok ?n"
    using le by (simp add: take_delayed_def sub_queued_def)
  note upd = mem_ok_node_mut [where f = ?f, OF assms(1) d(4) this inv d(2)]
  show ?thesis
    unfolding cancel_delayed_def using upd by auto
qed

lemma release_items_ok:
  "mem_ok X (retained @ ds) s \<Longrightarrow> X = {} \<Longrightarrow>
     \<exists>s'. release_items retained ds s = (s', Ok ()) \<and> mem_inv s' \<and> ms_tick s' = ms_tick s
       \<and> ms_delayed s' = retained @ filter (\<lambda>d. ms_tick s < dl_release_at d) ds"
proof (induction ds arbitrary: retained s)
  case Nil
  then show ?case by (simp add: mem_inv_def mem_ok_def)
next
  case (Cons d ds)
  show ?case
  proof (cases "dl_release_at d \<le> ms_tick s")
    case True
    obtain s' where s': "deliver_delayed d s = Ok s'" "mem_ok X (retained @ ds) s'" "ms_tick s' = ms_tick s"
      using deliver_delayed_ok [OF Cons.prems(1)] Cons.prems(2) by auto
    then show ?thesis
      using Cons.IH [OF s'(2) Cons.prems(2)] True by auto
  next
    case False
    then show ?thesis
      using Cons.IH [of "retained @ [d]" s] Cons.prems by auto
  qed
qed

subsection \<open>Sending keeps the invariant\<close>

lemma byte_limit_le: "byte_limit l ch \<le> max_inflight_bytes_per_peer l"
  by (simp add: byte_limit_def)

lemma mem_reserve_Ok:
  assumes "mem_reserve s p n c = Ok u"
  shows "unat (p_destination p) < length (ms_nodes s)"
    "length (nd_incoming (ms_nodes s ! unat (p_destination p)) (p_channel p))
       + nd_delayed_counts (ms_nodes s ! unat (p_destination p)) (p_channel p) + c \<le> max_queued_parcels_per_peer (ms_limits s)"
    "nd_queued_bytes (ms_nodes s ! unat (p_destination p)) + n * c \<le> max_inflight_bytes_per_peer (ms_limits s)"
  using assms byte_limit_le [of "ms_limits s" "p_channel p"]
  by (auto simp: mem_reserve_def mem_node_def mem_index_def Let_def bind_eq_Some_conv split: if_splits)

lemma mem_reserve_no_panic: "mem_reserve s p n c \<noteq> Err Panic"
  by (auto simp: mem_reserve_def mem_node_def mem_index_def Let_def res_bind_Err_iff)

definition enqueued :: "parcel \<Rightarrow> usize \<Rightarrow> bool \<Rightarrow> node \<Rightarrow> node" where
  "enqueued p n front nd = nd\<lparr>
     nd_incoming := (nd_incoming nd)(p_channel p :=
       (if front then Incoming p # nd_incoming nd (p_channel p) else nd_incoming nd (p_channel p) @ [Incoming p])),
     nd_queued_bytes := nd_queued_bytes nd + n\<rparr>"

lemma mem_enqueue_ok:
  assumes inv: "mem_inv s" and p: "unat (p_destination p) < length (ms_nodes s)"
    and n: "n = parcel_bytes p" "n \<le> USIZE_MAX"
    and room: "length (nd_incoming (ms_nodes s ! unat (p_destination p)) (p_channel p))
       + nd_delayed_counts (ms_nodes s ! unat (p_destination p)) (p_channel p) + 1 \<le> max_queued_parcels_per_peer (ms_limits s)"
    and bytes: "nd_queued_bytes (ms_nodes s ! unat (p_destination p)) + n \<le> max_inflight_bytes_per_peer (ms_limits s)"
  shows "mem_enqueue s p n front = Ok (s\<lparr>ms_nodes := (ms_nodes s)[unat (p_destination p) :=
      enqueued p n front (ms_nodes s ! unat (p_destination p))]\<rparr>)"
    and "mem_inv (s\<lparr>ms_nodes := (ms_nodes s)[unat (p_destination p) :=
      enqueued p n front (ms_nodes s ! unat (p_destination p))]\<rparr>)"
proof -
  let ?i = "unat (p_destination p)"
  let ?ch = "p_channel p"
  let ?nd = "ms_nodes s ! ?i"
  let ?q = "if front then Incoming p # nd_incoming ?nd ?ch else nd_incoming ?nd ?ch @ [Incoming p]"
  let ?f = "\<lambda>nd. res_bind (add_queued n nd) (\<lambda>nd.
       let q = nd_incoming nd (p_channel p); ev = Incoming p in
       Ok (nd\<lparr>nd_incoming := (nd_incoming nd)(p_channel p := (if front then ev # q else q @ [ev]))\<rparr>))"
  have ok: "mem_ok {} (ms_delayed s) s" using inv by (simp add: mem_inv_def)
  have nd: "node_inv (ms_limits s) (ms_delayed s) ?i ?nd"
    using mem_okD(4) [OF ok p] by simp
  have "node_inv (ms_limits s) (ms_delayed s) ?i (?nd\<lparr>nd_incoming := (nd_incoming ?nd)(?ch := ?q),
      nd_delayed_counts := (nd_delayed_counts ?nd)(?ch := dl_count (ms_delayed s) ?i ?ch), nd_queued_bytes := nd_queued_bytes ?nd + n\<rparr>)"
    using n room bytes node_invD(1,2) [OF nd, of ?ch] by (intro node_inv_move [OF nd]) auto
  then have enq: "node_inv (ms_limits s) (ms_delayed s) ?i (enqueued p n front ?nd)"
    by (rule node_inv_cong) (use node_invD(2) [OF nd, of ?ch] in \<open>auto simp: enqueued_def\<close>)
  have "nd_queued_bytes ?nd + n \<le> USIZE_MAX"
    using bytes mem_okD(2) [OF ok] by (simp add: limits_usize_def)
  then have f: "?f ?nd = Ok (enqueued p n front ?nd)"
    by (simp add: add_queued_def enqueued_def Let_def)
  note upd = mem_ok_node_mut [where f = ?f, OF ok p f enq mem_okD(3) [OF ok]]
  show "mem_enqueue s p n front = Ok (s\<lparr>ms_nodes := (ms_nodes s)[?i := enqueued p n front ?nd]\<rparr>)"
    unfolding mem_enqueue_def using upd by auto
  show "mem_inv (s\<lparr>ms_nodes := (ms_nodes s)[?i := enqueued p n front ?nd]\<rparr>)"
    using upd(2) by (simp add: mem_inv_def)
qed

lemma apply_fault_ok:
  assumes inv: "mem_inv s" and n: "n = parcel_bytes p" "n \<le> USIZE_MAX"
    and src: "unat loc < length (ms_nodes s)"
  shows "case apply_fault f s loc p n of
      Inr s' \<Rightarrow> mem_inv s' \<and> length (ms_nodes s') = length (ms_nodes s) \<and> ms_limits s' = ms_limits s
    | Inl e \<Rightarrow> e \<noteq> Panic"
proof -
  have ok: "mem_ok {} (ms_delayed s) s" using inv by (simp add: mem_inv_def)
  let ?i = "unat (p_destination p)"
  let ?ch = "p_channel p"
  let ?nd = "ms_nodes s ! ?i"
  show ?thesis
  proof (cases f)
    case (Delay ticks)
    show ?thesis
    proof (cases "mem_reserve s p n 1")
      case (Inl e)
      then show ?thesis using Delay mem_reserve_no_panic [of s p n 1] by auto
    next
      case (Inr u)
      note r = mem_reserve_Ok [OF Inr]
      let ?d = "\<lparr>dl_release_at = saturating_add_u64 (ms_tick s) (max ticks 1), dl_destination = p_destination p,
          dl_parcel = p, dl_bytes = n\<rparr>"
      let ?ds = "ms_delayed s @ [?d]"
      let ?f = "\<lambda>nd. if USIZE_MAX < nd_delayed_counts nd ?ch + 1 then Err Panic
         else add_queued n (nd\<lparr>nd_delayed_counts := (nd_delayed_counts nd)(?ch := nd_delayed_counts nd ?ch + 1)\<rparr>)"
      have nd: "node_inv (ms_limits s) (ms_delayed s) ?i ?nd"
        using mem_okD(4) [OF ok r(1)] by simp
      note cnt = node_invD(2) [OF nd, of ?ch]
      let ?n = "?nd\<lparr>nd_incoming := (nd_incoming ?nd)(?ch := nd_incoming ?nd ?ch),
          nd_delayed_counts := (nd_delayed_counts ?nd)(?ch := dl_count ?ds ?i ?ch), nd_queued_bytes := nd_queued_bytes ?nd + n\<rparr>"
      have enq: "node_inv (ms_limits s) ?ds ?i ?n"
        using n r cnt node_invD(1) [OF nd, of ?ch] by (intro node_inv_move [OF nd]) auto
      have small: "nd_queued_bytes ?nd + n \<le> USIZE_MAX" "nd_delayed_counts ?nd ?ch + 1 \<le> USIZE_MAX"
        using r mem_okD(2) [OF ok] by (auto simp: limits_usize_def)
      then have f: "?f ?nd = Ok ?n"
        using cnt by (simp add: add_queued_def)
      have ds: "list_all (delayed_ok (length (ms_nodes s))) ?ds"
        using mem_okD(3) [OF ok] n r(1) by (simp add: delayed_ok_def)
      note upd = mem_ok_node_mut [where f = ?f, OF ok r(1) f enq ds]
      have "mem_inv (s\<lparr>ms_nodes := (ms_nodes s)[?i := ?n], ms_delayed := ?ds\<rparr>)"
        using upd(2) by (simp add: mem_inv_def mem_ok_def)
      then show ?thesis
        using Inr Delay upd(1) by auto
    qed
  next
    case Duplicate
    show ?thesis
    proof (cases "mem_reserve s p n 2")
      case (Inl e)
      then show ?thesis using Duplicate mem_reserve_no_panic [of s p n 2] by auto
    next
      case (Inr u)
      note r = mem_reserve_Ok [OF Inr]
      let ?s1 = "s\<lparr>ms_nodes := (ms_nodes s)[?i := enqueued p n False ?nd]\<rparr>"
      have one: "mem_enqueue s p n False = Ok ?s1" "mem_inv ?s1"
        using mem_enqueue_ok [OF inv r(1) n, of False] r by auto
      have "mem_enqueue ?s1 p n False = Ok (?s1\<lparr>ms_nodes := (ms_nodes ?s1)[?i := enqueued p n False (ms_nodes ?s1 ! ?i)]\<rparr>)"
        "mem_inv (?s1\<lparr>ms_nodes := (ms_nodes ?s1)[?i := enqueued p n False (ms_nodes ?s1 ! ?i)]\<rparr>)"
        using mem_enqueue_ok [OF one(2) _ n, of False] r by (auto simp: enqueued_def)
      then show ?thesis
        using Duplicate Inr one(1) by auto
    qed
  next
    case Reorder
    then show ?thesis
      using mem_enqueue_ok [OF inv _ n, of True] mem_reserve_Ok [of s p n 1] mem_reserve_no_panic [of s p n 1]
      by (cases "mem_reserve s p n 1") auto
  next
    case Pass
    then show ?thesis
      using mem_enqueue_ok [OF inv _ n, of False] mem_reserve_Ok [of s p n 1] mem_reserve_no_panic [of s p n 1]
      by (cases "mem_reserve s p n 1") auto
  next
    case Disconnect
    let ?n = "\<lambda>nd. nd\<lparr>nd_system := nd_system nd @ [PeerFailed (p_destination p) (Disconnected (p_destination p))],
       nd_stats := (nd_stats nd)\<lparr>ts_peer_failures := ts_peer_failures (nd_stats nd) + 1\<rparr>\<rparr>"
    have "node_inv (ms_limits s) (ms_delayed s) (unat loc) (?n (ms_nodes s ! unat loc))"
      using mem_okD(4) [OF ok src] by (auto intro: node_inv_cong)
    note upd = mem_ok_node_mut [where f = "\<lambda>nd. Ok (?n nd)", OF ok src refl this mem_okD(3) [OF ok]]
    then show ?thesis
      using Disconnect by (auto simp: mem_inv_def)
  qed (use inv in auto)
qed

lemma mem_inv_fields:
  "ms_limits s' = ms_limits s \<Longrightarrow> ms_nodes s' = ms_nodes s \<Longrightarrow> ms_delayed s' = ms_delayed s
     \<Longrightarrow> mem_inv s' = mem_inv s"
  by (simp add: mem_inv_def mem_ok_def)

text \<open>An update that leaves the queues of a node alone.\<close>

lemma mem_inv_touch:
  assumes inv: "mem_inv s" and i: "unat loc < length (ms_nodes s)"
    and g: "\<And>nd. nd_incoming (g nd) = nd_incoming nd" "\<And>nd. nd_delayed_counts (g nd) = nd_delayed_counts nd"
      "\<And>nd. nd_queued_bytes (g nd) = nd_queued_bytes nd"
  shows "\<exists>s'. mem_node_mut s loc (\<lambda>nd. Ok (g nd)) = Ok s' \<and> mem_inv s' \<and> ms_limits s' = ms_limits s
    \<and> length (ms_nodes s') = length (ms_nodes s)"
proof -
  have ok: "mem_ok {} (ms_delayed s) s" using inv by (simp add: mem_inv_def)
  have "node_inv (ms_limits s) (ms_delayed s) (unat loc) (g (ms_nodes s ! unat loc))"
    using mem_okD(4) [OF ok i] g by (auto intro: node_inv_cong)
  note upd = mem_ok_node_mut [where f = "\<lambda>nd. Ok (g nd)", OF ok i refl this mem_okD(3) [OF ok]]
  then show ?thesis by (auto simp: mem_inv_def)
qed

lemma send_checks_Ok:
  assumes "send_checks s loc p = Ok n"
  shows "n = parcel_bytes p" "n \<le> USIZE_MAX" "unat loc < length (ms_nodes s)" "p_source p = loc"
    "parcel_fits p (ms_limits s)" "unat (p_destination p) < length (ms_nodes s)"
  using assms
  by (auto simp: send_checks_def mem_node_def mem_index_def payload_len_Ok parcel_bytes_def parcel_validate_Ok
      split: if_splits)

lemma send_checks_no_panic: "send_checks s loc p \<noteq> Err Panic"
  by (auto simp: send_checks_def mem_node_def mem_index_def res_bind_Err_iff split: if_splits)

lemma try_send_ok:
  assumes inv: "mem_inv s" and send: "try_send s loc p = (s', r)"
  shows "mem_inv s' \<and> r \<noteq> Err Panic \<and> length (ms_nodes s') = length (ms_nodes s) \<and> ms_limits s' = ms_limits s"
proof (cases "send_checks s loc p")
  case (Inl e)
  then show ?thesis
    using inv send send_checks_no_panic [of s loc p] by (auto simp: try_send_def)
next
  case (Inr n)
  note c = send_checks_Ok [OF Inr]
  show ?thesis
  proof (cases "checked_add_u64 (ms_next_ticket s) 1")
    case None
    then show ?thesis
      using inv send Inr by (auto simp: try_send_def)
  next
    case (Some next_ticket)
    obtain f fs where f: "(case ms_faults s of [] \<Rightarrow> (Pass, []) | f # fs \<Rightarrow> (f, fs)) = (f, fs)" by fastforce
    let ?s1 = "s\<lparr>ms_next_ticket := next_ticket, ms_faults := fs\<rparr>"
    have inv1: "mem_inv ?s1" using inv by (subst mem_inv_fields [of _ s]) auto
    note a = apply_fault_ok [OF inv1 c(1,2), of loc f]
    show ?thesis
    proof (cases "apply_fault f ?s1 loc p n")
      case (Inl e)
      then show ?thesis
        using a c(3) inv1 send Inr Some f by (auto simp: try_send_def)
    next
      case (Inr s2)
      then have s2: "mem_inv s2" "length (ms_nodes s2) = length (ms_nodes s)" "ms_limits s2 = ms_limits s"
        using a c(3) by auto
      obtain s3 where "complete_send (ms_next_ticket s) s2 loc n = Ok s3" "mem_inv s3"
          "length (ms_nodes s3) = length (ms_nodes s2)" "ms_limits s3 = ms_limits s2"
        using mem_inv_touch [OF s2(1), of loc "\<lambda>nd. nd\<lparr>
           nd_stats := (nd_stats nd)\<lparr>ts_submitted_parcels := ts_submitted_parcels (nd_stats nd) + 1,
             ts_submitted_bytes := ts_submitted_bytes (nd_stats nd) + word_of_nat n\<rparr>,
           nd_system := nd_system nd @ [LocalSendComplete (ms_next_ticket s)]\<rparr>"] c(3) s2(2)
        by (auto simp: complete_send_def)
      then show ?thesis
        using Inr \<open>send_checks s loc p = Inr n\<close> Some f send s2 by (auto simp: try_send_def)
    qed
  qed
qed

subsection \<open>Receiving keeps the invariant\<close>

definition all_events :: "node \<Rightarrow> transport_event list" where
  "all_events nd = nd_system nd @ nd_incoming nd ChControl @ nd_incoming nd ChAction @ nd_incoming nd ChBulk"

lemma pop_event_None: "pop_event nd = None \<longleftrightarrow> all_events nd = []"
  by (auto simp: all_events_def split: list.splits)

lemma pop_event_all: "pop_event nd = Some (e, nd') \<Longrightarrow> all_events nd = e # all_events nd'"
  by (auto simp: all_events_def split: list.splits)

definition is_incoming :: "transport_event \<Rightarrow> bool" where
  "is_incoming e \<longleftrightarrow> (\<exists>p. e = Incoming p)"

lemma pop_event_cases:
  assumes "pop_event nd = Some (e, nd')"
  obtains (system) es where "nd' = nd\<lparr>nd_system := es\<rparr>" "nd_system nd = e # es"
  | (queue) ch q where "nd_incoming nd ch = e # q" "nd' = nd\<lparr>nd_incoming := (nd_incoming nd)(ch := q)\<rparr>" "nd_system nd = []"
  using assms by (auto split: list.splits)

text \<open>No parcel event waits among the system events.\<close>

definition system_ok :: "node \<Rightarrow> bool" where
  "system_ok nd \<longleftrightarrow> (\<forall>e\<in>set (nd_system nd). \<not> is_incoming e)"

lemma pop_receive_ok:
  assumes inv: "node_inv l ds i nd" and sys: "system_ok nd" and pop: "pop_event nd = Some (e, nd')"
  shows "\<exists>nd''. receive_event e nd' = Ok nd'' \<and> node_inv l ds i nd'' \<and> system_ok nd''
    \<and> all_events nd'' = all_events nd' \<and> nd_active nd'' = nd_active nd"
  using pop
proof (cases rule: pop_event_cases)
  case (system es)
  then have "receive_event e nd' = Ok nd'"
    using sys by (cases e) (auto simp: receive_event_def system_ok_def is_incoming_def)
  moreover have "node_inv l ds i nd'"
    using inv system by (auto intro: node_inv_cong)
  moreover have "system_ok nd'" "nd_active nd' = nd_active nd"
    using sys system by (auto simp: system_ok_def)
  ultimately show ?thesis by blast
next
  case (queue ch q)
  have "ev_ok i ch e" "list_all (ev_ok i ch) q"
    using node_invD(1) [OF inv, of ch] queue(1) by auto
  then obtain p where p: "e = Incoming p" "parcel_bytes p \<le> USIZE_MAX"
    by (cases e) auto
  have room: "length q + dl_count ds i ch \<le> max_queued_parcels_per_peer l"
    using node_invD(3) [OF inv, of ch] queue(1) by simp
  have bytes: "parcel_bytes p \<le> nd_queued_bytes nd"
  proof -
    have "queue_bytes (nd_incoming nd ch) \<le> node_bytes nd"
      by (cases ch) (simp_all add: node_bytes_def)
    then show ?thesis
      using queue(1) p(1) node_invD(4) [OF inv] by simp
  qed
  let ?b = "nd_queued_bytes nd - parcel_bytes p"
  let ?n = "nd\<lparr>nd_incoming := (nd_incoming nd)(ch := q),
      nd_delayed_counts := (nd_delayed_counts nd)(ch := dl_count ds i ch), nd_queued_bytes := ?b\<rparr>"
  have moved: "node_inv l ds i ?n"
    using \<open>list_all (ev_ok i ch) q\<close> room bytes queue(1) p(1) node_invD(5) [OF inv]
    by (intro node_inv_move [OF inv]) auto
  obtain st where st: "receive_event e nd' = Ok (nd'\<lparr>nd_queued_bytes := ?b, nd_stats := st\<rparr>)"
    using p bytes queue(2)
    by (simp add: receive_event_def payload_len_def checked_total_def checked_sum_Some length_concat
        parcel_bytes_def node_release_def sub_queued_def payload_len_Ok)
  have "node_inv l ds i (nd'\<lparr>nd_queued_bytes := ?b, nd_stats := st\<rparr>)"
    using moved by (rule node_inv_cong) (use queue node_invD(2) [OF inv, of ch] in auto)
  with st show ?thesis
    using queue sys by (auto simp: all_events_def system_ok_def)
qed

lemma take_events_ok:
  assumes "node_inv l ds i nd" "system_ok nd"
  shows "\<exists>nd'. take_events n nd evs = (nd', evs @ take n (all_events nd), Ok ())
    \<and> node_inv l ds i nd' \<and> system_ok nd' \<and> all_events nd' = drop n (all_events nd) \<and> nd_active nd' = nd_active nd"
  using assms
proof (induction n arbitrary: nd evs)
  case 0
  then show ?case by simp
next
  case (Suc n)
  show ?case
  proof (cases "pop_event nd")
    case None
    then show ?thesis
      using Suc.prems pop_event_None [of nd] by (simp del: pop_event.simps)
  next
    case (Some x)
    then obtain e nd1 where pop: "pop_event nd = Some (e, nd1)" by (cases x) auto
    obtain nd2 where nd2: "receive_event e nd1 = Ok nd2" "node_inv l ds i nd2" "system_ok nd2"
        "all_events nd2 = all_events nd1" "nd_active nd2 = nd_active nd"
      using pop_receive_ok [OF Suc.prems pop] by blast
    show ?thesis
      using Suc.IH [OF nd2(2,3), of "evs @ [e]"] pop_event_all [OF pop] nd2 pop
      by (auto simp del: pop_event.simps)
  qed
qed

subsection \<open>System events\<close>

definition systems :: "mem_state \<Rightarrow> transport_event list list" where
  "systems s = map nd_system (ms_nodes s)"

lemma systems_node_mut:
  assumes "mem_node_mut s loc f = Ok s'" "\<And>nd nd'. f nd = Ok nd' \<Longrightarrow> nd_system nd' = nd_system nd"
  shows "systems s' = systems s"
  using assms
  by (auto simp: mem_node_mut_def mem_index_def systems_def map_update list_update_same_conv split: if_splits)

lemma systems_push:
  assumes "mem_node_mut s loc (\<lambda>nd. Ok (g nd)) = Ok s'" "\<And>nd. nd_system (g nd) = nd_system nd @ es"
  shows "systems s' = (systems s)[unat loc := systems s ! unat loc @ es]"
  using assms by (auto simp: mem_node_mut_def mem_index_def systems_def map_update split: if_splits)

lemma systems_fields [simp]:
  "systems (s\<lparr>ms_delayed := ds\<rparr>) = systems s" "systems (s\<lparr>ms_tick := t\<rparr>) = systems s"
  "systems (s\<lparr>ms_next_ticket := k, ms_faults := fs\<rparr>) = systems s"
  by (simp_all add: systems_def)

lemma mem_enqueue_systems: "mem_enqueue s p n front = Ok s' \<Longrightarrow> systems s' = systems s"
  unfolding mem_enqueue_def
  by (erule systems_node_mut) (auto simp: add_queued_def Let_def split: if_splits)

definition fault_events :: "memory_fault \<Rightarrow> parcel \<Rightarrow> transport_event list" where
  "fault_events f p = (if f = Disconnect then [PeerFailed (p_destination p) (Disconnected (p_destination p))] else [])"

lemma apply_fault_systems:
  assumes "apply_fault f s loc p n = Ok s'"
  shows "systems s' = (systems s)[unat loc := systems s ! unat loc @ fault_events f p]"
proof (cases f)
  case Disconnect
  then show ?thesis
    using assms systems_push by (fastforce simp: fault_events_def)
next
  case (Delay ticks)
  then obtain s1 where "mem_node_mut s (p_destination p) (\<lambda>nd.
       if USIZE_MAX < nd_delayed_counts nd (p_channel p) + 1 then Err Panic
       else add_queued n (nd\<lparr>nd_delayed_counts :=
         (nd_delayed_counts nd)(p_channel p := nd_delayed_counts nd (p_channel p) + 1)\<rparr>)) = Ok s1" "systems s' = systems s1"
    using assms by auto
  then show ?thesis
    using systems_node_mut Delay by (fastforce simp: add_queued_def fault_events_def split: if_splits)
qed (use assms in \<open>auto simp: fault_events_def dest!: mem_enqueue_systems\<close>)

lemma release_items_systems: "release_items retained ds s = (s', Ok u) \<Longrightarrow> systems s' = systems s"
proof (induction ds arbitrary: retained s)
  case (Cons d ds)
  have "deliver_delayed d s = Ok s1 \<Longrightarrow> systems s1 = systems s" for s1
    unfolding deliver_delayed_def
    by (erule systems_node_mut) (auto simp: take_delayed_def Let_def split: if_splits)
  with Cons show ?case by (auto split: if_splits sum.splits)
qed auto

lemma cancel_items_systems: "cancel_items loc retained ds s = (s', Ok u) \<Longrightarrow> systems s' = systems s"
proof (induction ds arbitrary: retained s)
  case (Cons d ds)
  have "cancel_delayed d s = Ok s1 \<Longrightarrow> systems s1 = systems s" for s1
    unfolding cancel_delayed_def
    by (erule systems_node_mut) (auto simp: take_delayed_def sub_queued_def split: if_splits)
  with Cons show ?case by (auto split: if_splits sum.splits)
qed auto

definition sys_inv :: "mem_state \<Rightarrow> bool" where
  "sys_inv s \<longleftrightarrow> (\<forall>q\<in>set (systems s). length q \<le> max_queued_parcels_per_peer (ms_limits s) + 1
     \<and> (\<forall>e\<in>set q. \<not> is_incoming e))"

definition mem_good :: "mem_state \<Rightarrow> bool" where
  "mem_good s \<longleftrightarrow> mem_inv s \<and> sys_inv s"

lemma sys_inv_node: "sys_inv s \<Longrightarrow> i < length (ms_nodes s) \<Longrightarrow> system_ok (ms_nodes s ! i)"
  by (auto simp: sys_inv_def systems_def system_ok_def)

lemma sys_inv_update:
  assumes "sys_inv s" "systems s' = (systems s)[i := q]" "ms_limits s' = ms_limits s"
    "length q \<le> max_queued_parcels_per_peer (ms_limits s) + 1" "\<forall>e\<in>set q. \<not> is_incoming e"
  shows "sys_inv s'"
  using assms set_update_subset_insert [of "systems s" i q] unfolding sys_inv_def by auto

lemma sys_inv_same: "sys_inv s \<Longrightarrow> systems s' = systems s \<Longrightarrow> ms_limits s' = ms_limits s \<Longrightarrow> sys_inv s'"
  by (simp add: sys_inv_def)

lemma node_mut_limits: "mem_node_mut s loc f = Ok s' \<Longrightarrow> ms_limits s' = ms_limits s \<and> length (ms_nodes s') = length (ms_nodes s)"
  by (auto simp: mem_node_mut_def)

lemma release_items_limits:
  "release_items retained ds s = (s', r) \<Longrightarrow> ms_limits s' = ms_limits s \<and> length (ms_nodes s') = length (ms_nodes s)"
proof (induction ds arbitrary: retained s)
  case (Cons d ds)
  have "deliver_delayed d s = Ok s1 \<Longrightarrow> ms_limits s1 = ms_limits s \<and> length (ms_nodes s1) = length (ms_nodes s)" for s1
    unfolding deliver_delayed_def by (rule node_mut_limits)
  with Cons show ?case by (auto split: if_splits sum.splits)
qed auto

lemma cancel_items_limits:
  "cancel_items loc retained ds s = (s', r) \<Longrightarrow> ms_limits s' = ms_limits s \<and> length (ms_nodes s') = length (ms_nodes s)"
proof (induction ds arbitrary: retained s)
  case (Cons d ds)
  have "cancel_delayed d s = Ok s1 \<Longrightarrow> ms_limits s1 = ms_limits s \<and> length (ms_nodes s1) = length (ms_nodes s)" for s1
    unfolding cancel_delayed_def by (rule node_mut_limits)
  with Cons show ?case by (auto split: if_splits sum.splits)
qed auto

lemma send_checks_system:
  "send_checks s loc p = Ok n \<Longrightarrow> length (nd_system (ms_nodes s ! unat loc)) < max_queued_parcels_per_peer (ms_limits s)"
  by (auto simp: send_checks_def mem_node_def mem_index_def split: if_splits)

lemma try_send_sys:
  assumes good: "mem_good s" and send: "try_send s loc p = (s', r)"
  shows "sys_inv s'"
proof (cases "send_checks s loc p")
  case (Inr n)
  note c = send_checks_Ok [OF Inr] send_checks_system [OF Inr]
  have sys: "sys_inv s" and inv: "mem_inv s" using good by (simp_all add: mem_good_def)
  have node: "systems s ! unat loc \<in> set (systems s)" "systems s ! unat loc = nd_system (ms_nodes s ! unat loc)"
    using c(3) by (simp_all add: systems_def)
  obtain f fs where f: "(case ms_faults s of [] \<Rightarrow> (Pass, []) | f # fs \<Rightarrow> (f, fs)) = (f, fs)" by fastforce
  show ?thesis
  proof (cases "checked_add_u64 (ms_next_ticket s) 1")
    case (Some k)
    let ?s1 = "s\<lparr>ms_next_ticket := k, ms_faults := fs\<rparr>"
    have s1: "sys_inv ?s1" by (rule sys_inv_same [OF sys]) simp_all
    have inv1: "mem_inv ?s1" using inv by (subst mem_inv_fields [of _ s]) auto
    show ?thesis
    proof (cases "res_bind (apply_fault f ?s1 loc p n) (\<lambda>s2. complete_send (ms_next_ticket s) s2 loc n)")
      case (Inl e)
      then have "s' = ?s1"
        using send \<open>send_checks s loc p = Inr n\<close> Some f by (auto simp: try_send_def)
      then show ?thesis using s1 by simp
    next
      case (Inr s3)
      then obtain s2 where s2: "apply_fault f ?s1 loc p n = Ok s2" "complete_send (ms_next_ticket s) s2 loc n = Ok s3"
        by auto
      let ?q = "systems s ! unat loc @ fault_events f p @ [LocalSendComplete (ms_next_ticket s)]"
      have old: "\<forall>e\<in>set (systems s ! unat loc). \<not> is_incoming e"
        using sys node(1) by (simp add: sys_inv_def)
      have new: "length ?q \<le> max_queued_parcels_per_peer (ms_limits s) + 1" "\<forall>e\<in>set ?q. \<not> is_incoming e"
        using c(7) node(2) old by (auto simp: fault_events_def is_incoming_def)
      have "s' = s3"
        using Inr send \<open>send_checks s loc p = Inr n\<close> Some f by (auto simp: try_send_def)
      moreover have "systems s3 = (systems s)[unat loc := ?q]"
        using systems_push [OF s2(2) [unfolded complete_send_def]] apply_fault_systems [OF s2(1)] c(3)
        by (simp add: systems_def)
      moreover have "ms_limits s3 = ms_limits s"
        using apply_fault_ok [OF inv1 c(1,2), of loc f] s2 c(3) node_mut_limits [OF s2(2) [unfolded complete_send_def]]
        by simp
      ultimately show ?thesis
        using sys_inv_update [OF sys _ _ new] by blast
    qed
  qed (use send Inr sys in \<open>auto simp: try_send_def\<close>)
qed (use good send in \<open>auto simp: try_send_def mem_good_def\<close>)

lemma try_send_good:
  "mem_good s \<Longrightarrow> try_send s loc p = (s', r) \<Longrightarrow>
     mem_good s' \<and> r \<noteq> Err Panic \<and> length (ms_nodes s') = length (ms_nodes s) \<and> ms_limits s' = ms_limits s"
  using try_send_ok [of s loc p s' r] try_send_sys [of s loc p s' r] by (simp add: mem_good_def)

lemma advance_tick_good:
  assumes "mem_good s"
  shows "\<exists>s'. advance_tick s = (s', Ok ()) \<and> mem_good s' \<and> ms_tick s' = saturating_add_u64 (ms_tick s) 1
    \<and> ms_delayed s' = filter (\<lambda>d. ms_tick s' < dl_release_at d) (ms_delayed s)
    \<and> ms_limits s' = ms_limits s \<and> length (ms_nodes s') = length (ms_nodes s)"
proof -
  let ?s = "s\<lparr>ms_tick := saturating_add_u64 (ms_tick s) 1\<rparr>"
  have "mem_ok {} ([] @ ms_delayed ?s) ?s"
    using assms by (simp add: mem_good_def mem_inv_def mem_ok_def)
  then obtain s' where s': "release_items [] (ms_delayed ?s) ?s = (s', Ok ())" "mem_inv s'"
      "ms_tick s' = saturating_add_u64 (ms_tick s) 1"
      "ms_delayed s' = filter (\<lambda>d. ms_tick ?s < dl_release_at d) (ms_delayed s)"
    using release_items_ok by fastforce
  have lim: "ms_limits s' = ms_limits s" "length (ms_nodes s') = length (ms_nodes s)"
    using release_items_limits [OF s'(1)] by simp_all
  have "systems s' = systems s"
    using release_items_systems [OF s'(1)] by simp
  then have "sys_inv s'"
    using assms lim by (auto simp: mem_good_def intro: sys_inv_same)
  with s' lim show ?thesis
    by (auto simp: advance_tick_def release_delayed_def mem_good_def)
qed

lemma take_events_system: "take_events n nd evs = (nd', evs', r) \<Longrightarrow> \<exists>k. nd_system nd' = drop k (nd_system nd)"
proof (induction n arbitrary: nd evs)
  case 0
  then show ?case by (auto intro: exI [of _ 0])
next
  case (Suc n)
  show ?case
  proof (cases "pop_event nd")
    case None
    with Suc.prems show ?thesis by (auto simp del: pop_event.simps intro: exI [of _ 0])
  next
    case (Some x)
    then obtain e nd1 where pop: "pop_event nd = Some (e, nd1)" by (cases x) auto
    then have sys1: "\<exists>k. nd_system nd1 = drop k (nd_system nd)"
      by (cases rule: pop_event_cases) (auto intro: exI [of _ 1] exI [of _ 0])
    have rec: "receive_event e nd1 = Ok nd2 \<Longrightarrow> nd_system nd2 = nd_system nd1" for nd2
      by (auto simp: receive_event_def node_release_def sub_queued_def split: transport_event.splits if_splits)
    show ?thesis
    proof (cases "receive_event e nd1")
      case (Inl err)
      with Suc.prems pop sys1 show ?thesis by (auto simp del: pop_event.simps)
    next
      case (Inr nd2)
      then have "\<exists>k. nd_system nd' = drop k (nd_system nd2)"
        using Suc.prems pop by (intro Suc.IH) (auto simp del: pop_event.simps)
      with sys1 rec [OF Inr] show ?thesis by auto
    qed
  qed
qed

lemma mem_progress_ok:
  assumes good: "mem_good s" and dr: "\<not> dr_shutdown dr" "unat (dr_local_id dr) < length (ms_nodes s)"
  shows "\<exists>s1 s2. advance_tick s = (s1, Ok ()) \<and> mem_good s2 \<and> length (ms_nodes s2) = length (ms_nodes s) \<and> ms_limits s2 = ms_limits s
    \<and> (let i = unat (dr_local_id dr); evs = take n (all_events (ms_nodes s1 ! i))
       in mem_progress s dr n = (s2, Ok (evs, \<lparr>pr_events = length evs, pr_made_progress = 0 < length evs\<rparr>))
          \<and> all_events (ms_nodes s2 ! i) = drop n (all_events (ms_nodes s1 ! i)))"
proof -
  let ?i = "unat (dr_local_id dr)"
  obtain s1 where s1: "advance_tick s = (s1, Ok ())" "mem_good s1" "length (ms_nodes s1) = length (ms_nodes s)"
      "ms_limits s1 = ms_limits s"
    using advance_tick_good [OF good] by blast
  have i: "?i < length (ms_nodes s1)" using dr(2) s1(3) by simp
  have ok: "mem_ok {} (ms_delayed s1) s1" and sys: "sys_inv s1"
    using s1(2) by (simp_all add: mem_good_def mem_inv_def)
  have nd: "node_inv (ms_limits s1) (ms_delayed s1) ?i (ms_nodes s1 ! ?i)" "system_ok (ms_nodes s1 ! ?i)"
    using mem_okD(4) [OF ok i] sys_inv_node [OF sys i] by simp_all
  obtain nd' where nd': "take_events n (ms_nodes s1 ! ?i) [] = (nd', take n (all_events (ms_nodes s1 ! ?i)), Ok ())"
      "node_inv (ms_limits s1) (ms_delayed s1) ?i nd'" "system_ok nd'" "all_events nd' = drop n (all_events (ms_nodes s1 ! ?i))"
    using take_events_ok [OF nd, of n "[]"] by auto
  let ?s2 = "s1\<lparr>ms_nodes := (ms_nodes s1)[?i := nd']\<rparr>"
  have "mem_inv ?s2"
    using mem_ok_node_mut(2) [where f = "\<lambda>_. Ok nd'", OF ok i refl nd'(2) mem_okD(3) [OF ok]] by (simp add: mem_inv_def)
  moreover obtain k where "nd_system nd' = drop k (nd_system (ms_nodes s1 ! ?i))"
    using take_events_system [OF nd'(1)] by blast
  then have "sys_inv ?s2"
    using sys i nd'(3)
    by (intro sys_inv_update [OF sys, of _ ?i "nd_system nd'"])
      (auto simp: systems_def map_update sys_inv_def system_ok_def intro: le_trans [OF diff_le_self])
  ultimately show ?thesis
    using s1 nd'(1,4) i dr(1)
    by (intro exI [of _ s1] exI [of _ ?s2]) (simp add: mem_good_def mem_progress_def mem_index_def Let_def)
qed

subsection \<open>Flush\<close>

lemma mem_flush_good:
  "mem_good s \<Longrightarrow> mem_flush clock s loc = (s', r) \<Longrightarrow>
     mem_good s' \<and> r \<noteq> Some (Err Panic) \<and> length (ms_nodes s') = length (ms_nodes s) \<and> ms_limits s' = ms_limits s"
proof (induction clock arbitrary: s)
  case (Cons late clock)
  obtain s1 where s1: "advance_tick s = (s1, Ok ())" "mem_good s1" "length (ms_nodes s1) = length (ms_nodes s)"
      "ms_limits s1 = ms_limits s"
    using advance_tick_good [OF Cons.prems(1)] by blast
  then show ?case
    using Cons.IH [OF s1(2)] Cons.prems(2) by (auto split: if_splits)
qed auto

lemma sat_add_tick: "unat (saturating_add_u64 t 1) = (if unat t = 2 ^ 64 - 1 then 2 ^ 64 - 1 else unat t + 1)"
proof -
  have "unat t < 2 ^ LENGTH(64)" by (rule unsigned_less)
  moreover have "unat (- 1 :: u64) = 2 ^ 64 - 1" by (simp add: unsigned_minus_1_eq_mask mask_eq_exp_minus_1)
  ultimately show ?thesis
    using unat_add_u64 [of t 1] by (auto simp: saturating_add_u64_def)
qed

lemma mem_flush_terminates:
  "mem_good s \<Longrightarrow> list_all Not clock \<Longrightarrow> 2 ^ 64 - 1 - unat (ms_tick s) < length clock \<Longrightarrow>
     \<exists>s'. mem_flush clock s loc = (s', Some (Ok ()))"
proof (induction clock arbitrary: s)
  case (Cons late clock)
  obtain s1 where s1: "advance_tick s = (s1, Ok ())" "mem_good s1" "ms_tick s1 = saturating_add_u64 (ms_tick s) 1"
      "ms_delayed s1 = filter (\<lambda>d. ms_tick s1 < dl_release_at d) (ms_delayed s)"
    using advance_tick_good [OF Cons.prems(1)] by blast
  show ?case
  proof (cases "unat (ms_tick s) = 2 ^ 64 - 1")
    case True
    then have top: "unat (ms_tick s1) = 2 ^ 64 - 1"
      using s1(3) sat_add_tick [of "ms_tick s"] by simp
    have "\<not> ms_tick s1 < dl_release_at d" for d :: delayed_parcel
    proof -
      have "unat (dl_release_at d) < 2 ^ LENGTH(64)" by (rule unsigned_less)
      then show ?thesis using top by (simp add: word_less_nat_alt)
    qed
    then have "ms_delayed s1 = []" using s1(4) by (simp add: filter_empty_conv)
    then show ?thesis
      using s1(1) Cons.prems(2) by (simp add: flush_pending_def)
  next
    case False
    have "unat (ms_tick s) < 2 ^ LENGTH(64)" by (rule unsigned_less)
    then have "2 ^ 64 - 1 - unat (ms_tick s1) < length clock"
      using s1(3) sat_add_tick [of "ms_tick s"] False Cons.prems(3) by auto
    then obtain s' where "mem_flush clock s1 loc = (s', Some (Ok ()))"
      using Cons.IH [OF s1(2)] Cons.prems(2) by auto
    then show ?thesis
      using s1(1) Cons.prems(2) by (cases "flush_pending s1 loc") auto
  qed
qed simp

subsection \<open>Shutdown\<close>

lemma mem_ok_drop:
  assumes "mem_ok {unat loc} (xs @ d # ys) s" "dl_destination d = loc"
  shows "mem_ok {unat loc} (xs @ ys) s"
proof -
  have "node_inv (ms_limits s) (xs @ ys) j (ms_nodes s ! j)" if "j < length (ms_nodes s)" "j \<notin> {unat loc}" for j
    using mem_okD(4) [OF assms(1) that] that(2) assms(2) by (auto intro: node_inv_cong)
  then show ?thesis
    using assms(1) by (simp add: mem_ok_def)
qed

lemma cancel_items_ok:
  "mem_ok {unat loc} (retained @ ds) s \<Longrightarrow>
     \<exists>s'. cancel_items loc retained ds s = (s', Ok ()) \<and> mem_ok {unat loc} (ms_delayed s') s'
       \<and> ms_delayed s' = retained @ filter (\<lambda>d. p_source (dl_parcel d) \<noteq> loc \<and> dl_destination d \<noteq> loc) ds"
proof (induction ds arbitrary: retained s)
  case Nil
  then show ?case by (simp add: mem_ok_def)
next
  case (Cons d ds)
  consider "dl_destination d = loc" | "dl_destination d \<noteq> loc" "p_source (dl_parcel d) = loc"
    | "dl_destination d \<noteq> loc" "p_source (dl_parcel d) \<noteq> loc" by blast
  then show ?case
  proof cases
    case 1
    then show ?thesis
      using Cons.IH [OF mem_ok_drop [OF Cons.prems 1]] by simp
  next
    case 2
    then have "unat (dl_destination d) \<notin> {unat loc}" by (simp add: word_unat_eq_iff [symmetric])
    then obtain s1 where "cancel_delayed d s = Ok s1" "mem_ok {unat loc} (retained @ ds) s1"
      using cancel_delayed_ok [OF Cons.prems] by blast
    then show ?thesis
      using Cons.IH [of retained s1] 2 by simp
  next
    case 3
    then show ?thesis
      using Cons.IH [of "retained @ [d]" s] Cons.prems by simp
  qed
qed

lemma finish_shutdown_good:
  assumes good: "mem_good s" and i: "unat loc < length (ms_nodes s)"
  shows "\<exists>s'. finish_shutdown s loc = (s', Ok ()) \<and> mem_good s' \<and> length (ms_nodes s') = length (ms_nodes s) \<and> ms_limits s' = ms_limits s
    \<and> all_events (ms_nodes s' ! unat loc) = [] \<and> nd_queued_bytes (ms_nodes s' ! unat loc) = 0
    \<and> \<not> nd_active (ms_nodes s' ! unat loc)
    \<and> (\<forall>d\<in>set (ms_delayed s'). p_source (dl_parcel d) \<noteq> loc \<and> dl_destination d \<noteq> loc)"
proof -
  have "mem_ok {unat loc} ([] @ ms_delayed s) s"
    using good by (simp add: mem_good_def mem_inv_def mem_ok_def)
  then obtain s1 where s1: "cancel_items loc [] (ms_delayed s) s = (s1, Ok ())"
      "mem_ok {unat loc} (ms_delayed s1) s1"
      "ms_delayed s1 = filter (\<lambda>d. p_source (dl_parcel d) \<noteq> loc \<and> dl_destination d \<noteq> loc) (ms_delayed s)"
    using cancel_items_ok by fastforce
  have lim: "ms_limits s1 = ms_limits s" "length (ms_nodes s1) = length (ms_nodes s)"
    using cancel_items_limits [OF s1(1)] by simp_all
  let ?nd = "node_clear ((ms_nodes s1 ! unat loc)\<lparr>nd_active := False\<rparr>)"
  let ?s2 = "s1\<lparr>ms_nodes := (ms_nodes s1)[unat loc := ?nd]\<rparr>"
  have "unat (dl_destination d) \<noteq> unat loc" if "d \<in> set (ms_delayed s1)" for d
    using that s1(3) by (auto simp: word_unat_eq_iff [symmetric])
  then have none: "filter (\<lambda>d. unat (dl_destination d) = unat loc) (ms_delayed s1) = []"
      "\<And>ch. filter (\<lambda>d. unat (dl_destination d) = unat loc \<and> p_channel (dl_parcel d) = ch) (ms_delayed s1) = []"
    by (auto simp: filter_empty_conv)
  then have clear: "node_inv (ms_limits s1) (ms_delayed s1) (unat loc) ?nd"
    by (simp add: node_inv_def node_clear_def dl_count_def dl_total_def node_bytes_def)
  have "node_inv (ms_limits s1) (ms_delayed s1) j (ms_nodes ?s2 ! j)" if "j < length (ms_nodes s1)" for j
    using that clear mem_okD(4) [OF s1(2), of j] by (cases "j = unat loc") auto
  then have "mem_inv ?s2"
    using s1(2) by (simp add: mem_inv_def mem_ok_def)
  moreover have sys: "systems ?s2 = (systems s)[unat loc := []]"
  proof -
    have "systems ?s2 = (systems s1)[unat loc := []]"
      by (simp add: systems_def map_update node_clear_def)
    then show ?thesis
      using cancel_items_systems [OF s1(1)] by simp
  qed
  then have "sys_inv ?s2"
    using good lim sys_inv_update [OF _ sys] by (simp add: mem_good_def)
  moreover have "mem_node_mut s1 loc (\<lambda>nd. Ok (node_clear (nd\<lparr>nd_active := False\<rparr>))) = Ok ?s2"
    using i lim by (simp add: mem_node_mut_def mem_index_def)
  ultimately show ?thesis
    using s1 i lim
    by (intro exI [of _ ?s2]) (simp add: finish_shutdown_def cancel_locality_def mem_good_def all_events_def node_clear_def)
qed

lemma mem_shutdown_good:
  assumes good: "mem_good s" and sd: "mem_shutdown clock s dr = (s', dr', r)"
  shows "mem_good s' \<and> length (ms_nodes s') = length (ms_nodes s) \<and> ms_limits s' = ms_limits s \<and> r \<noteq> Some (Err Panic)"
proof (cases "unat (dr_local_id dr) < length (ms_nodes s)")
  case True
  have inv: "mem_inv s" and sys: "sys_inv s" using good by (simp_all add: mem_good_def)
  obtain s1 where s1: "mem_node_mut s (dr_local_id dr) (\<lambda>nd. Ok (nd\<lparr>nd_active := False\<rparr>)) = Ok s1" "mem_inv s1"
      "ms_limits s1 = ms_limits s" "length (ms_nodes s1) = length (ms_nodes s)"
    using mem_inv_touch [OF inv True, of "\<lambda>nd. nd\<lparr>nd_active := False\<rparr>"] by auto
  have "systems s1 = systems s"
    using systems_node_mut [OF s1(1)] by auto
  then have good1: "mem_good s1"
    using s1 sys by (auto simp: mem_good_def intro: sys_inv_same)
  obtain s2 f where fl: "mem_flush clock s1 (dr_local_id dr) = (s2, f)" by fastforce
  note s2 = mem_flush_good [OF good1 fl]
  obtain s3 where s3: "finish_shutdown s2 (dr_local_id dr) = (s3, Ok ())" "mem_good s3"
      "length (ms_nodes s3) = length (ms_nodes s2)" "ms_limits s3 = ms_limits s2"
    using finish_shutdown_good [of s2 "dr_local_id dr"] s2 s1(4) True by auto
  show ?thesis
    using sd s1(1,3,4) fl s2 s3 by (auto simp: mem_shutdown_def split: option.splits sum.splits)
next
  case False
  then show ?thesis
    using sd good by (auto simp: mem_shutdown_def mem_node_mut_def mem_index_def)
qed

subsection \<open>Runs\<close>

text \<open>The operations of the handles and drivers of one network, and what each reports as an error.\<close>

datatype mem_op =
    MSend locality_id parcel | MProgress nat usize | MFlush nat "bool list" | MShutdown nat "bool list"

fun err_of :: "('e, 'a) result \<Rightarrow> 'e option" where
  "err_of (Inl e) = Some e"
| "err_of (Inr a) = None"

fun mem_do ::
  "mem_op \<Rightarrow> mem_state \<times> mem_driver list \<Rightarrow> (mem_state \<times> mem_driver list) \<times> transport_error fault option"
where
  "mem_do (MSend loc p) (s, drs) = (let (s', r) = try_send s loc p in ((s', drs), err_of r))"
| "mem_do (MProgress i n) (s, drs) =
     (if i < length drs then let (s', r) = mem_progress s (drs ! i) n in ((s', drs), err_of r) else ((s, drs), None))"
| "mem_do (MFlush i clock) (s, drs) =
     (if i < length drs then let (s', r) = mem_flush clock s (dr_local_id (drs ! i))
      in ((s', drs), Option.bind r err_of) else ((s, drs), None))"
| "mem_do (MShutdown i clock) (s, drs) =
     (if i < length drs then let (s', dr', r) = mem_shutdown clock s (drs ! i)
      in ((s', drs[i := dr']), Option.bind r err_of) else ((s, drs), None))"

fun mem_run ::
  "mem_op list \<Rightarrow> mem_state \<times> mem_driver list \<Rightarrow> (mem_state \<times> mem_driver list) \<times> transport_error fault option list"
where
  "mem_run [] w = (w, [])"
| "mem_run (op # ops) w = (let (w', e) = mem_do op w; (w'', es) = mem_run ops w' in (w'', e # es))"

definition drivers_ok :: "mem_state \<Rightarrow> mem_driver list \<Rightarrow> bool" where
  "drivers_ok s drs \<longleftrightarrow> (\<forall>dr\<in>set drs. unat (dr_local_id dr) < length (ms_nodes s))"

lemma mem_shutdown_driver: "mem_shutdown clock s dr = (s', dr', r) \<Longrightarrow> dr_local_id dr' = dr_local_id dr"
  by (auto simp: mem_shutdown_def split: sum.splits prod.splits option.splits)

lemma err_of_Panic: "err_of r = Some Panic \<longleftrightarrow> r = Err Panic"
  by (cases r) auto

lemma mem_progress_good:
  assumes "mem_good s" "unat (dr_local_id dr) < length (ms_nodes s)" "mem_progress s dr n = (s', r)"
  shows "mem_good s' \<and> length (ms_nodes s') = length (ms_nodes s) \<and> ms_limits s' = ms_limits s \<and> r \<noteq> Err Panic"
proof (cases "dr_shutdown dr")
  case True
  then show ?thesis using assms by (auto simp: mem_progress_def)
next
  case False
  then show ?thesis
    using mem_progress_ok [OF assms(1) False assms(2), of n] assms(3) by (auto simp: Let_def)
qed

lemma mem_do_good:
  assumes good: "mem_good s" and drs: "drivers_ok s drs" and run: "mem_do op (s, drs) = ((s', drs'), e)"
  shows "mem_good s' \<and> drivers_ok s' drs' \<and> e \<noteq> Some Panic \<and> length (ms_nodes s') = length (ms_nodes s)
    \<and> ms_limits s' = ms_limits s"
proof (cases op)
  case (MSend loc p)
  then show ?thesis
    using try_send_good [OF good] run drs by (auto simp: drivers_ok_def err_of_Panic split: prod.splits)
next
  case (MProgress i n)
  show ?thesis
  proof (cases "i < length drs")
    case True
    then have "unat (dr_local_id (drs ! i)) < length (ms_nodes s)"
      using drs by (simp add: drivers_ok_def)
    then show ?thesis
      using mem_progress_good [OF good, of "drs ! i" n] run MProgress True drs
      by (auto simp: drivers_ok_def err_of_Panic split: prod.splits)
  qed (use MProgress good drs run in simp)
next
  case (MFlush i clock)
  then show ?thesis
    using mem_flush_good [OF good] run drs good
    by (auto simp: drivers_ok_def err_of_Panic bind_eq_Some_conv split: prod.splits if_splits)
next
  case (MShutdown i clock)
  show ?thesis
  proof (cases "i < length drs")
    case True
    obtain s1 dr1 r where sd: "mem_shutdown clock s (drs ! i) = (s1, dr1, r)" by (metis prod_cases3)
    then have s1: "s' = s1" "drs' = drs[i := dr1]" "e = Option.bind r err_of"
      using run MShutdown True by auto
    have "drivers_ok s' drs'"
      using drs True mem_shutdown_good [OF good sd] mem_shutdown_driver [OF sd] set_update_subset_insert [of drs i dr1]
      unfolding s1 drivers_ok_def by fastforce
    then show ?thesis
      using mem_shutdown_good [OF good sd] s1 by (auto simp: bind_eq_Some_conv err_of_Panic)
  qed (use MShutdown good drs run in simp)
qed

lemma mem_run_good:
  "mem_run ops (s, drs) = ((s', drs'), es) \<Longrightarrow> mem_good s \<Longrightarrow> drivers_ok s drs \<Longrightarrow>
     mem_good s' \<and> drivers_ok s' drs' \<and> Some Panic \<notin> set es \<and> length (ms_nodes s') = length (ms_nodes s)
       \<and> ms_limits s' = ms_limits s"
proof (induction ops arbitrary: s drs es)
  case (Cons op ops)
  obtain s1 drs1 e where step: "mem_do op (s, drs) = ((s1, drs1), e)" by (metis prod.exhaust)
  then show ?case
    using Cons.IH [of s1 drs1] mem_do_good [OF Cons.prems(2,3) step] Cons.prems(1)
    by (auto split: prod.splits)
qed auto

lemma mem_build_good:
  assumes "mem_build n run l faults = Ok (s, drs)" "limits_usize l" "n \<le> 2 ^ 64"
  shows "mem_good s \<and> drivers_ok s drs \<and> length (ms_nodes s) = n \<and> ms_limits s = l"
proof -
  have l: "limits_ok l" and s: "s = \<lparr>ms_run_id = run, ms_limits = l, ms_tick = 0, ms_next_ticket = 1, ms_faults = faults,
              ms_delayed = [], ms_nodes = replicate n node_default\<rparr>"
      and drs: "drs = map (\<lambda>i. \<lparr>dr_local_id = i, dr_members = map word_of_nat [0..<n], dr_shutdown = False\<rparr>) (map word_of_nat [0..<n])"
    using assms(1) by (auto simp: mem_build_def limits_validate_Ok Let_def split: if_splits)
  have "node_inv l [] i node_default" for i
    by (simp add: node_inv_def node_default_def node_bytes_def)
  then have "mem_good s"
    using l assms(2) by (auto simp: mem_good_def s mem_inv_def mem_ok_def sys_inv_def systems_def node_default_def)
  moreover have "drivers_ok s drs"
    using assms(3) by (auto simp: drivers_ok_def drs s unat_word_of_nat64)
  ultimately show ?thesis by (simp add: s)
qed

subsection \<open>Properties\<close>

lemma mem_good_node:
  assumes "mem_good s" "i < length (ms_nodes s)"
  shows "node_inv (ms_limits s) (ms_delayed s) i (ms_nodes s ! i)"
    "length (nd_system (ms_nodes s ! i)) \<le> max_queued_parcels_per_peer (ms_limits s) + 1"
  using assms mem_okD(4) [of "{}" "ms_delayed s" s i]
  by (auto simp: mem_good_def mem_inv_def sys_inv_def systems_def)

lemma mem_reach_good:
  assumes "mem_build n run l faults = Ok (s0, drs0)" "limits_usize l" "n \<le> 2 ^ 64"
    and "mem_run ops (s0, drs0) = ((s, drs), es)"
  shows "mem_good s" "drivers_ok s drs" "Some Panic \<notin> set es" "length (ms_nodes s) = n" "ms_limits s = l"
  using mem_run_good [OF assms(4)] mem_build_good [OF assms(1-3)] by auto

definition demo_net :: mem_state where
  "demo_net = \<lparr>ms_run_id = 7, ms_limits = limits_default, ms_tick = 0, ms_next_ticket = 1, ms_faults = [Delay 3],
     ms_delayed = [], ms_nodes = [node_default, node_default, node_default]\<rparr>"

definition demo_drivers :: "mem_driver list" where
  "demo_drivers = map (\<lambda>i. \<lparr>dr_local_id = i, dr_members = [0, 1, 2], dr_shutdown = False\<rparr>) [0, 1, 2]"

lemma demo_net_build: "mem_build 3 7 limits_default [Delay 3] = Ok (demo_net, demo_drivers)"
  by (simp add: mem_build_def demo_net_def demo_drivers_def limits_validate_def limits_default_def
      PARCEL_FIXED_BYTES_def numeral_3_eq_3 Let_def)

lemma demo_limits_usize: "limits_usize limits_default"
  by (simp add: limits_usize_def limits_default_def USIZE_MAX_def)

text \<open>
  C14. Whatever is sent, received, flushed and shut down on a memory network, under any
  sequence of injected faults: no operation panics (no counter underflows), the count of delayed parcels of
  each channel of each node is exact, every channel stays within the queue limit, delayed parcels included, the byte count of a node is
  exactly the bytes it holds and is due, within the limit, and the system queue has at most one
  event beyond the limit.
\<close>

theorem memory_network_bounded:
  assumes "mem_build n run l faults = Ok (s0, drs0)" "limits_usize l" "n \<le> 2 ^ 64"
    and "mem_run ops (s0, drs0) = ((s, drs), es)" "i < n"
  shows "Some Panic \<notin> set es
    \<and> nd_delayed_counts (ms_nodes s ! i) ch = dl_count (ms_delayed s) i ch
    \<and> length (nd_incoming (ms_nodes s ! i) ch) + nd_delayed_counts (ms_nodes s ! i) ch \<le> max_queued_parcels_per_peer l
    \<and> nd_queued_bytes (ms_nodes s ! i) = node_bytes (ms_nodes s ! i) + dl_total (ms_delayed s) i
    \<and> nd_queued_bytes (ms_nodes s ! i) \<le> max_inflight_bytes_per_peer l
    \<and> length (nd_system (ms_nodes s ! i)) \<le> max_queued_parcels_per_peer l + 1"
proof -
  note g = mem_reach_good [OF assms(1-4)]
  have "i < length (ms_nodes s)" using g(4) assms(5) by simp
  note nd = mem_good_node [OF g(1) this]
  show ?thesis
    using g(3,5) node_invD(2,3) [OF nd(1), of ch] node_invD(4,5) [OF nd(1)] nd(2) by auto
qed

theorem memory_network_bounded_witness:
  "nd_queued_bytes (ms_nodes (fst (fst (mem_run [MSend 1 demo_parcel, MProgress 2 5] (demo_net, demo_drivers)))) ! 0)
     \<le> 16 * 1024 * 1024"
proof -
  obtain s drs es where run: "mem_run [MSend 1 demo_parcel, MProgress 2 5] (demo_net, demo_drivers) = ((s, drs), es)"
    by (metis prod.exhaust)
  show ?thesis
    using memory_network_bounded [OF demo_net_build demo_limits_usize _ run, of 0 ChAction] run
    by (simp add: limits_default_def)
qed

text \<open>
  \<open>progress\<close> first releases the delayed parcels that are due, then hands out at most
  \<open>max_events\<close> events: system events before parcels, control before action before bulk, each
  queue in order. It leaves exactly the rest, so an event is delivered once.
\<close>

theorem memory_progress_in_order:
  assumes "mem_build n run l faults = Ok (s0, drs0)" "limits_usize l" "n \<le> 2 ^ 64"
    and "mem_run ops (s0, drs0) = ((s, drs), es)" "dr \<in> set drs" "\<not> dr_shutdown dr"
  shows "\<exists>s1 s2 prog. advance_tick s = (s1, Ok ())
    \<and> mem_progress s dr k = (s2, Ok (take k (all_events (ms_nodes s1 ! unat (dr_local_id dr))), prog))
    \<and> all_events (ms_nodes s2 ! unat (dr_local_id dr)) = drop k (all_events (ms_nodes s1 ! unat (dr_local_id dr)))"
proof -
  note g = mem_reach_good [OF assms(1-4)]
  have "unat (dr_local_id dr) < length (ms_nodes s)"
    using g(2) assms(5) by (simp add: drivers_ok_def)
  then show ?thesis
    using mem_progress_ok [OF g(1) assms(6), of k] by (auto simp: Let_def)
qed

theorem memory_progress_in_order_witness:
  "\<exists>s1 s2 prog. advance_tick demo_net = (s1, Ok ())
    \<and> mem_progress demo_net (demo_drivers ! 0) 4 = (s2, Ok (take 4 (all_events (ms_nodes s1 ! 0)), prog))"
  using memory_progress_in_order [OF demo_net_build demo_limits_usize, of "[]" demo_net demo_drivers "[]" "demo_drivers ! 0" 4]
  by (auto simp: demo_drivers_def)

text \<open>
  C16. \<open>flush\<close> always ends before its deadline passes, given enough iterations: the tick reaches
  every release time, saturated ones included, whatever delays were injected.
\<close>

theorem memory_flush_terminates:
  assumes "mem_build n run l faults = Ok (s0, drs0)" "limits_usize l" "n \<le> 2 ^ 64"
    and "mem_run ops (s0, drs0) = ((s, drs), es)" "list_all Not clock" "2 ^ 64 \<le> length clock"
  shows "\<exists>s'. mem_flush clock s loc = (s', Some (Ok ()))"
proof -
  have "2 ^ 64 - 1 - unat (ms_tick s) < length clock"
    using assms(6) by (rule order.strict_trans2 [rotated]) simp
  then show ?thesis
    using mem_flush_terminates [OF mem_reach_good(1) [OF assms(1-4)] assms(5)] by blast
qed

theorem memory_flush_terminates_witness:
  "\<exists>s'. mem_flush (replicate (2 ^ 64) False) (fst (try_send demo_net 1 demo_parcel)) 1 = (s', Some (Ok ()))"
proof -
  obtain s drs es where run: "mem_run [MSend 1 demo_parcel] (demo_net, demo_drivers) = ((s, drs), es)"
    by (metis prod.exhaust)
  then have "s = fst (try_send demo_net 1 demo_parcel)"
    by (auto split: prod.splits)
  then show ?thesis
    using memory_flush_terminates [OF demo_net_build demo_limits_usize _ run, of "replicate (2 ^ 64) False" 1]
    by (simp add: list_all_iff)
qed

text \<open>
  A locality that has shut down is out of the network: its queues are empty, its byte
  count is zero, and no delayed parcel from or to it is left, so none can be delivered later.
\<close>

theorem memory_shutdown_isolates:
  assumes "mem_build n run l faults = Ok (s0, drs0)" "limits_usize l" "n \<le> 2 ^ 64"
    and "mem_run ops (s0, drs0) = ((s, drs), es)" "dr \<in> set drs"
    and "mem_shutdown clock s dr = (s', dr', Some (Ok evs))"
  shows "all_events (ms_nodes s' ! unat (dr_local_id dr)) = []
    \<and> nd_queued_bytes (ms_nodes s' ! unat (dr_local_id dr)) = 0
    \<and> \<not> nd_active (ms_nodes s' ! unat (dr_local_id dr)) \<and> dr_shutdown dr' \<and> evs = [ShutdownComplete]
    \<and> (\<forall>d\<in>set (ms_delayed s'). p_source (dl_parcel d) \<noteq> dr_local_id dr \<and> dl_destination d \<noteq> dr_local_id dr)"
proof -
  note g = mem_reach_good [OF assms(1-4)]
  have i: "unat (dr_local_id dr) < length (ms_nodes s)"
    using g(2) assms(5) by (simp add: drivers_ok_def)
  obtain s1 where s1: "mem_node_mut s (dr_local_id dr) (\<lambda>nd. Ok (nd\<lparr>nd_active := False\<rparr>)) = Ok s1" "mem_inv s1"
      "ms_limits s1 = ms_limits s" "length (ms_nodes s1) = length (ms_nodes s)"
    using mem_inv_touch [OF _ i, of "\<lambda>nd. nd\<lparr>nd_active := False\<rparr>"] g(1) by (auto simp: mem_good_def)
  have "systems s1 = systems s"
    using systems_node_mut [OF s1(1)] by auto
  then have good1: "mem_good s1"
    using s1 g(1) by (auto simp: mem_good_def intro: sys_inv_same)
  obtain s2 f where fl: "mem_flush clock s1 (dr_local_id dr) = (s2, f)" by fastforce
  note s2 = mem_flush_good [OF good1 fl]
  have "finish_shutdown s2 (dr_local_id dr) = (s', Ok ())" "dr' = dr\<lparr>dr_shutdown := True\<rparr>" "evs = [ShutdownComplete]"
    using assms(6) s1(1) fl by (auto simp: mem_shutdown_def split: option.splits sum.splits prod.splits)
  then show ?thesis
    using finish_shutdown_good [of s2 "dr_local_id dr"] s2 s1(4) i by auto
qed

theorem memory_shutdown_isolates_witness:
  "\<exists>s' dr'. mem_shutdown [False] demo_net (demo_drivers ! 0) = (s', dr', Some (Ok [ShutdownComplete])) \<and> dr_shutdown dr'"
proof -
  have "\<exists>s' dr'. mem_shutdown [False] demo_net (demo_drivers ! 0) = (s', dr', Some (Ok [ShutdownComplete]))"
    by (simp add: mem_shutdown_def demo_net_def demo_drivers_def mem_node_mut_def mem_index_def advance_tick_def
        release_delayed_def flush_pending_def finish_shutdown_def cancel_locality_def)
  then show ?thesis
    using memory_shutdown_isolates [OF demo_net_build demo_limits_usize, of "[]" demo_net demo_drivers "[]" "demo_drivers ! 0" "[False]"]
    by (auto simp: demo_drivers_def)
qed

end
