(* ===== verification/Utf8.thy ===== *)
theory Utf8
  imports MapSerial
begin

text \<open>
  Rust's validation of UTF-8 (\<open>String::from_utf8\<close>), as the decoders of texts use it, and that the bounded
  diagnostics of \<open>MapSerial\<close> stay valid.
\<close>

section \<open>UTF-8\<close>

text \<open>
  \<open>std::str::from_utf8\<close> accepts the well-formed sequences of the Unicode standard: no overlong
  form, no surrogate, nothing above the last code point.
\<close>

definition byte_in :: "nat \<Rightarrow> nat \<Rightarrow> u8 \<Rightarrow> bool" where
  "byte_in lo hi b \<longleftrightarrow> lo \<le> unat b \<and> unat b \<le> hi"

definition utf8_two :: "u8 \<Rightarrow> u8 \<Rightarrow> bool" where
  "utf8_two a b \<longleftrightarrow> byte_in 0xC2 0xDF a \<and> byte_in 0x80 0xBF b"

definition utf8_three :: "u8 \<Rightarrow> u8 \<Rightarrow> bool" where
  "utf8_three a b \<longleftrightarrow>
     (byte_in 0xE0 0xE0 a \<and> byte_in 0xA0 0xBF b) \<or> (byte_in 0xE1 0xEC a \<and> byte_in 0x80 0xBF b)
     \<or> (byte_in 0xED 0xED a \<and> byte_in 0x80 0x9F b) \<or> (byte_in 0xEE 0xEF a \<and> byte_in 0x80 0xBF b)"

definition utf8_four :: "u8 \<Rightarrow> u8 \<Rightarrow> bool" where
  "utf8_four a b \<longleftrightarrow>
     (byte_in 0xF0 0xF0 a \<and> byte_in 0x90 0xBF b) \<or> (byte_in 0xF1 0xF3 a \<and> byte_in 0x80 0xBF b)
     \<or> (byte_in 0xF4 0xF4 a \<and> byte_in 0x80 0x8F b)"

fun utf8_valid :: "bytes \<Rightarrow> bool" where
  "utf8_valid [] = True"
| "utf8_valid (a # r) =
     (if unat a < 128 then utf8_valid r
      else (case r of [] \<Rightarrow> False
      | b # r2 \<Rightarrow>
          if utf8_two a b then utf8_valid r2
          else (case r2 of [] \<Rightarrow> False
          | c # r3 \<Rightarrow>
              if utf8_three a b \<and> byte_in 0x80 0xBF c then utf8_valid r3
              else (case r3 of [] \<Rightarrow> False
              | d # r4 \<Rightarrow>
                  utf8_four a b \<and> byte_in 0x80 0xBF c \<and> byte_in 0x80 0xBF d \<and> utf8_valid r4))))"

declare utf8_valid.simps(2) [simp del]

text \<open>How a valid text starts: one character of one to four bytes, told by its first byte.\<close>

lemma utf8_ranges:
  "utf8_two a b \<Longrightarrow> 194 \<le> unat a \<and> unat a \<le> 223"
  "utf8_three a b \<Longrightarrow> 224 \<le> unat a \<and> unat a \<le> 239"
  "utf8_four a b \<Longrightarrow> 240 \<le> unat a"
  by (auto simp: utf8_two_def utf8_three_def utf8_four_def byte_in_def)

lemma utf8_exclusive:
  "utf8_two a b \<Longrightarrow> \<not> unat a < 128"
  "utf8_three a b \<Longrightarrow> \<not> unat a < 128 \<and> \<not> utf8_two a b"
  "utf8_four a b \<Longrightarrow> \<not> unat a < 128 \<and> \<not> utf8_two a b \<and> \<not> utf8_three a b"
  using utf8_ranges [of a b] by auto

lemma utf8_step:
  "unat a < 128 \<Longrightarrow> utf8_valid (a # r) = utf8_valid r"
  "utf8_two a b \<Longrightarrow> utf8_valid (a # b # r) = utf8_valid r"
  "utf8_three a b \<Longrightarrow> byte_in 0x80 0xBF c \<Longrightarrow> utf8_valid (a # b # c # r) = utf8_valid r"
  "utf8_four a b \<Longrightarrow> byte_in 0x80 0xBF c \<Longrightarrow> byte_in 0x80 0xBF d
     \<Longrightarrow> utf8_valid (a # b # c # d # r) = utf8_valid r"
  using utf8_exclusive [of a b] by (simp_all add: utf8_valid.simps(2) [of a])

lemma utf8_lead:
  "unat a < 128 \<Longrightarrow> \<not> is_continuation a"
  "utf8_two a b \<Longrightarrow> \<not> is_continuation a \<and> is_continuation b"
  "utf8_three a b \<Longrightarrow> \<not> is_continuation a \<and> is_continuation b"
  "utf8_four a b \<Longrightarrow> \<not> is_continuation a \<and> is_continuation b"
  "byte_in 0x80 0xBF c \<Longrightarrow> is_continuation c"
  by (auto simp: utf8_two_def utf8_three_def utf8_four_def byte_in_def is_continuation_def)

text \<open>A valid text is a sequence of characters, and so is what is left before a boundary.\<close>

lemma utf8_valid_cases:
  assumes "utf8_valid m" "m \<noteq> []"
  obtains c r where "m = c @ r" "utf8_char c" "utf8_valid r" "\<And>s. utf8_valid (c @ s) = utf8_valid s"
proof -
  obtain a t where m: "m = a # t" using assms(2) by (cases m) auto
  consider "unat a < 128" "utf8_valid t"
    | b r2 where "t = b # r2" "utf8_two a b" "utf8_valid r2"
    | b c r3 where "t = b # c # r3" "utf8_three a b" "byte_in 0x80 0xBF c" "utf8_valid r3"
    | b c d r4 where "t = b # c # d # r4" "utf8_four a b" "byte_in 0x80 0xBF c"
        "byte_in 0x80 0xBF d" "utf8_valid r4"
    using assms(1) unfolding m by (subst (asm) utf8_valid.simps(2)) (auto split: if_splits list.splits)
  then show ?thesis
  proof cases
    case 1
    with m show ?thesis by (intro that [of "[a]" t]) (simp_all add: utf8_lead utf8_step)
  next
    case 2
    with m show ?thesis by (intro that [of "[a, b]" r2]) (simp_all add: utf8_lead utf8_step)
  next
    case 3
    with m show ?thesis by (intro that [of "[a, b, c]" r3]) (simp_all add: utf8_lead utf8_step)
  next
    case 4
    with m show ?thesis by (intro that [of "[a, b, c, d]" r4]) (simp_all add: utf8_lead utf8_step)
  qed
qed

lemma utf8_valid_chars:
  "utf8_valid m \<Longrightarrow> \<exists>cs. m = concat cs \<and> list_all utf8_char cs \<and> (\<forall>k. utf8_valid (concat (take k cs)))"
proof (induction m rule: length_induct)
  case (1 m)
  show ?case
  proof (cases "m = []")
    case True
    then show ?thesis by (intro exI [of _ "[]"]) simp
  next
    case False
    then obtain c r where m: "m = c @ r" "utf8_char c" "utf8_valid r"
        and ext: "\<And>s. utf8_valid (c @ s) = utf8_valid s"
      using utf8_valid_cases [OF 1(2)] by metis
    have "c \<noteq> []" using m(2) by auto
    then have "length r < length m" using m(1) by simp
    then obtain cs where cs: "r = concat cs" "list_all utf8_char cs"
        "\<forall>k. utf8_valid (concat (take k cs))"
      using 1(1) m(3) by blast
    have "utf8_valid (concat (take k (c # cs)))" for k
      using cs(3) ext by (cases k) simp_all
    with m cs show ?thesis by (intro exI [of _ "c # cs"]) simp
  qed
qed

text \<open>Truncation cuts at a boundary, so a valid text stays valid.\<close>

lemma length_truncate_message: "length (truncate_message m) \<le> MAX_ERROR_MESSAGE_BYTES"
  using boundary_below_le [of m MAX_ERROR_MESSAGE_BYTES] by (simp add: truncate_message_def)

lemma utf8_valid_truncate:
  assumes "utf8_valid m"
  shows "utf8_valid (truncate_message m)"
proof (cases "length m \<le> MAX_ERROR_MESSAGE_BYTES")
  case True
  then show ?thesis using assms by (simp add: truncate_message_def)
next
  case False
  obtain cs where cs: "m = concat cs" "list_all utf8_char cs" "\<forall>k. utf8_valid (concat (take k cs))"
    using utf8_valid_chars [OF assms] by blast
  let ?e = "boundary_below m MAX_ERROR_MESSAGE_BYTES"
  have "?e \<le> length m"
    using False boundary_below_le [of m MAX_ERROR_MESSAGE_BYTES] by linarith
  then obtain k where "take ?e m = concat (take k cs)"
    using utf8_boundary_split [OF cs(2), of ?e] boundary_below_boundary cs(1) by metis
  then show ?thesis
    using False cs(3) by (simp add: truncate_message_def)
qed

lemma lit_Nil [simp]: "lit [] = []"
  by (simp add: lit_def)

lemma length_lit [simp]: "length (lit s) = length s"
  by (simp add: lit_def)

end
