(* ===== verification/RtError.thy ===== *)
theory RtError
  imports Utf8 Transport
begin

text \<open>
  The error values of the runtime (\<open>crates/hataori-runtime/src/error.rs\<close>) and the capping of diagnostics. A \<open>String\<close> is its UTF-8
  bytes, a string literal of the source is \<open>lit ''...''\<close>. \<open>Instant\<close> and \<open>Duration\<close> are
  numbers of nanoseconds; adding to an \<open>Instant\<close> is taken not to overflow, as in the source.
\<close>

type_synonym instant = nat
type_synonym duration = nat

definition MAX_ERROR_BYTES :: usize where
  "MAX_ERROR_BYTES = 4096"

datatype runtime_state = StCreated | StBootstrapping | StRunning | StDraining | StStopped | StFailed

datatype resource_kind =
  RkPendingCalls | RkActionQueue | RkDedupEntries | RkDedupBytes | RkSendTickets | RkObjects
| RkObjectMailbox | RkResolverEntries | RkLocalityLeases | RkObjectRoots | RkPlacementTickets
| RkLeaseTransfers | RkMigrations | RkPreparedMigrations | RkForwarders | RkSnapshotBytes
| RkSnapshotSegments

datatype action_error = AeCodec bytes | AeUser bytes | AePanic

datatype (plugins only: code size) runtime_error =
  ReInvalidLimits string
| ReBuilderSealed
| ReHandshakeNotPrepared
| ReInvalidState runtime_state runtime_state
| ReDuplicateAction action_id
| ReUnknownAction action_id
| ReUnknownDomain domain_id
| ReDuplicateObjectType object_type_id
| ReUnknownObjectType object_type_id
| ReUnknownObject object_id
| ReObjectCollected object_id
| ReStaleObjectLocation object_id
| ReObjectAction bytes
| ReInvalidObjectTypeId
| ReInvalidObjectConcurrency
| RePinnedObjectType object_type_id
| ReMigrationInProgress object_id
| ReMigrationConflict object_id
| ReMigration request_id bytes
| ReMigrationRolledBack object_id
| ReMigrationCommittedFailure object_id bytes
| ReSnapshotTooLarge usize usize
| ReMoved object_id object_location
| ReRedirectLimit object_id
| ReInvalidActionId
| ReInvalidSchema
| ReInvalidDeadline
| ReInvalidMembership locality_id
| ReResourceExhausted resource_kind usize
| ReDeadlineExceeded request_id duration
| ReCancelled request_id
| ReRemoteAction request_id bytes
| ReRemoteObject request_id bytes
| RePlacement request_id bytes
| ReLease request_id bytes
| ReLeaseTransferExpired object_id
| ReDuplicateResultUnavailable request_id
| ReProtocol bytes
| ReTransport transport_error
| RePeerFailed locality_id
| ReShutdown
| ReShutdownTimeout
| ReRetainedResources

definition cap :: "bytes \<Rightarrow> bytes" where
  "cap m = (if length m \<le> MAX_ERROR_BYTES then m else take (boundary_below m MAX_ERROR_BYTES) m)"

definition ae_codec :: "bytes \<Rightarrow> action_error" where
  "ae_codec m = AeCodec (cap m)"

definition ae_user :: "bytes \<Rightarrow> action_error" where
  "ae_user m = AeUser (cap m)"

fun ae_message :: "action_error \<Rightarrow> bytes" where
  "ae_message (AeCodec m) = m"
| "ae_message (AeUser m) = m"
| "ae_message AePanic = lit ''action handler panicked''"

lemma cap_truncate: "cap m = truncate_message m"
  by (simp add: cap_def truncate_message_def MAX_ERROR_BYTES_def MAX_ERROR_MESSAGE_BYTES_def)

lemma length_cap: "length (cap m) \<le> MAX_ERROR_BYTES"
  using boundary_below_le [of m MAX_ERROR_BYTES] by (simp add: cap_def)

lemma utf8_valid_cap: "utf8_valid m \<Longrightarrow> utf8_valid (cap m)"
  by (simp add: cap_truncate utf8_valid_truncate)

end
