(* ===== verification/Actions.thy ===== *)
theory Actions
  imports RtError
begin

text \<open>
  Wire values, handlers and the action registry (\<open>crates/hataori-runtime/src/action.rs\<close>).

  The trait \<open>WireValue\<close> is the locale \<open>wire_value\<close>, interpreted for the four instances of the
  source. A handler is user code: a function that returns, fails or panics. \<open>Box<dyn Any>\<close> is a
  type of dynamic values; an action type says how its input is found in one (\<open>downcast\<close>) and its
  output put into one.
\<close>

unbundle bit_operations_syntax

datatype 'v action_value = AvEncoded segments | AvTyped 'v

text \<open>What a call of user code does.\<close>

type_synonym ('a, 'b) user_fn = "'a \<Rightarrow> (action_error fault, 'b) result"

record 'v registered_action =
  ra_handler :: "(segments, segments) user_fn"
  ra_local_handler :: "('v, 'v) user_fn option"

definition registered_action_new :: "(segments, segments) user_fn \<Rightarrow> 'v registered_action" where
  "registered_action_new h = \<lparr>ra_handler = h, ra_local_handler = None\<rparr>"

text \<open>\<open>Result::map\<close>, and \<open>catch_unwind\<close> around a handler.\<close>

fun res_map :: "('a \<Rightarrow> 'b) \<Rightarrow> ('e, 'a) result \<Rightarrow> ('e, 'b) result" where
  "res_map f (Inl e) = Inl e"
| "res_map f (Inr a) = Inr (f a)"

fun catch_unwind :: "(action_error fault, 'a) result \<Rightarrow> (action_error, 'a) result" where
  "catch_unwind (Inr a) = Inr a"
| "catch_unwind (Inl (Fail e)) = Inl e"
| "catch_unwind (Inl Panic) = Inl AePanic"

definition execute ::
  "'v registered_action \<Rightarrow> 'v action_value \<Rightarrow> (action_error, 'v action_value) result"
where
  "execute ra input = catch_unwind
     (case input of
        AvEncoded ss \<Rightarrow> res_map AvEncoded (ra_handler ra ss)
      | AvTyped v \<Rightarrow>
          (case ra_local_handler ra of
             None \<Rightarrow> Err (Fail (ae_codec (lit ''action has no typed local handler'')))
           | Some h \<Rightarrow> res_map AvTyped (h v)))"

definition execute_encoded :: "'v registered_action \<Rightarrow> segments \<Rightarrow> (action_error, segments) result" where
  "execute_encoded ra input =
     res_bind (execute ra (AvEncoded input)) (\<lambda>r.
       case r of AvEncoded out \<Rightarrow> Ok out
       | AvTyped v \<Rightarrow> Err (ae_codec (lit ''encoded action returned typed output'')))"

subsection \<open>The registry\<close>

record 'v action_registry =
  ar_entries :: "(action_id, 'v registered_action) hmap"
  ar_schemas :: "(action_id, u64 \<times> u64) hmap"

definition action_registry_default :: "'v action_registry" where
  "action_registry_default = \<lparr>ar_entries = [], ar_schemas = []\<rparr>"

text \<open>The associated constants and codecs of an \<open>Action\<close> and of its output.\<close>

record ('a, 'o, 'v) action_type =
  at_ID :: u128
  at_SCHEMA_ID :: u64
  at_output_SCHEMA_ID :: u64
  at_decode :: "(segments, 'a) user_fn"
  at_output_encode :: "('o, segments) user_fn"
  at_downcast :: "'v \<Rightarrow> 'a option"
  at_box :: "'o \<Rightarrow> 'v"

definition remote_handler :: "('a, 'o, 'v) action_type \<Rightarrow> ('a, 'o) user_fn \<Rightarrow> (segments, segments) user_fn" where
  "remote_handler A h = (\<lambda>ss. res_bind (at_decode A ss) (\<lambda>input. res_bind (h input) (at_output_encode A)))"

definition typed_handler :: "('a, 'o, 'v) action_type \<Rightarrow> ('a, 'o) user_fn \<Rightarrow> ('v, 'v) user_fn" where
  "typed_handler A h = (\<lambda>v.
     res_bind (ok_or (at_downcast A v) (Fail (ae_codec (lit ''typed action input mismatch'')))) (\<lambda>input.
       res_bind (h input) (\<lambda>out. Ok (at_box A out))))"

definition register ::
  "('a, 'o, 'v) action_type \<Rightarrow> ('a, 'o) user_fn \<Rightarrow> 'v action_registry
     \<Rightarrow> 'v action_registry \<times> (runtime_error, unit) result"
where
  "register A h reg =
     (case nonzero_u128_id ''ActionId'' (at_ID A) of
        Inl _ \<Rightarrow> (reg, Err ReInvalidActionId)
      | Inr k \<Rightarrow>
          if at_SCHEMA_ID A = 0 \<or> at_output_SCHEMA_ID A = 0 then (reg, Err ReInvalidSchema)
          else if hm_get (ar_entries reg) k \<noteq> None then (reg, Err (ReDuplicateAction k))
          else (reg\<lparr>ar_entries := hm_insert k
                     \<lparr>ra_handler = remote_handler A h, ra_local_handler = Some (typed_handler A h)\<rparr> (ar_entries reg),
                   ar_schemas := hm_insert k (at_SCHEMA_ID A, at_output_SCHEMA_ID A) (ar_schemas reg)\<rparr>, Ok ()))"

definition insert_erased ::
  "action_id \<Rightarrow> u64 \<Rightarrow> u64 \<Rightarrow> 'v registered_action \<Rightarrow> 'v action_registry
     \<Rightarrow> 'v action_registry \<times> (runtime_error, unit) result"
where
  "insert_erased k input_schema output_schema ra reg =
     (if input_schema = 0 \<or> output_schema = 0 then (reg, Err ReInvalidSchema)
      else if hm_get (ar_entries reg) k \<noteq> None then (reg, Err (ReDuplicateAction k))
      else (reg\<lparr>ar_entries := hm_insert k ra (ar_entries reg),
               ar_schemas := hm_insert k (input_schema, output_schema) (ar_schemas reg)\<rparr>, Ok ()))"

definition registry_get :: "'v action_registry \<Rightarrow> action_id \<Rightarrow> 'v registered_action option" where
  "registry_get reg k = hm_get (ar_entries reg) k"

definition SEEDS :: "u64 list" where
  "SEEDS = [0xcbf29ce484222325, 0x84222325cbf29ce4, 0x9e3779b97f4a7c15, 0xd6e8feb86659fd93]"

fun hash_byte :: "u8 \<Rightarrow> nat \<Rightarrow> u64 list \<Rightarrow> u64 list" where
  "hash_byte b i [] = []"
| "hash_byte b i (h # hs) = (h XOR (ucast b + word_of_nat i)) * 0x100000001b3 # hash_byte b (Suc i) hs"

definition schema_bytes :: "action_id \<times> u64 \<times> u64 \<Rightarrow> bytes" where
  "schema_bytes p = (case p of (k, inp, out) \<Rightarrow> u128_le k @ u64_le inp @ u64_le out)"

text \<open>A \<open>BTreeMap\<close> is traversed in the order of its keys.\<close>

definition schemas_ascending :: "'v action_registry \<Rightarrow> (action_id \<times> u64 \<times> u64) list" where
  "schemas_ascending reg = sort_key fst (ar_schemas reg)"

definition fingerprint :: "'v action_registry \<Rightarrow> bytes" where
  "fingerprint reg =
     (let hashes = fold (\<lambda>b hs. hash_byte b 0 hs) (concat (map schema_bytes (schemas_ascending reg))) SEEDS
      in concat (map u64_le hashes))"

subsection \<open>The wire values of the runtime\<close>

definition one_segment :: "segments \<Rightarrow> string \<Rightarrow> (action_error, bytes) result" where
  "one_segment ss name =
     (if length ss \<noteq> 1 then Err (ae_codec (lit (name @ '' requires exactly one segment''))) else Ok (last ss))"

definition unit_encode :: "unit \<Rightarrow> (action_error, segments) result" where
  "unit_encode v = Ok []"

definition unit_decode :: "segments \<Rightarrow> (action_error, unit) result" where
  "unit_decode ss = (if ss = [] then Ok () else Err (ae_codec (lit ''unit value has payload'')))"

definition u64_encode :: "u64 \<Rightarrow> (action_error, segments) result" where
  "u64_encode v = Ok [u64_le v]"

definition u64_decode :: "segments \<Rightarrow> (action_error, u64) result" where
  "u64_decode ss = res_bind (one_segment ss ''u64'') (\<lambda>b.
     if length b = 8 then Ok (from_le b) else Err (ae_codec (lit ''u64 payload must contain 8 bytes'')))"

definition bytes_encode :: "bytes \<Rightarrow> (action_error, segments) result" where
  "bytes_encode v = Ok [v]"

definition bytes_decode :: "segments \<Rightarrow> (action_error, bytes) result" where
  "bytes_decode ss = one_segment ss ''byte vector''"

definition string_encode :: "bytes \<Rightarrow> (action_error, segments) result" where
  "string_encode v = Ok [v]"

definition string_decode :: "segments \<Rightarrow> (action_error, bytes) result" where
  "string_decode ss = res_bind (one_segment ss ''string'') (\<lambda>b.
     if utf8_valid b then Ok b else Err (ae_codec (lit ''string payload is not UTF-8'')))"

text \<open>
  The contract of \<open>WireValue\<close>: what is encoded decodes to the value it came from. \<open>valid\<close> singles
  out the values of the Rust type in the type that models it.
\<close>

locale wire_value =
  fixes encode :: "'v \<Rightarrow> (action_error, segments) result"
    and decode :: "segments \<Rightarrow> (action_error, 'v) result"
    and valid :: "'v \<Rightarrow> bool"
  assumes decode_encode: "valid v \<Longrightarrow> encode v = Inr ss \<Longrightarrow> decode ss = Inr v"
begin

lemma encode_inj: "valid v \<Longrightarrow> valid w \<Longrightarrow> encode v = Inr ss \<Longrightarrow> encode w = Inr ss \<Longrightarrow> v = w"
  using decode_encode [of v ss] decode_encode [of w ss] by simp

lemma map_decode_encode:
  "list_all valid vs \<Longrightarrow> map encode vs = map Inr sss \<Longrightarrow> map decode sss = map Inr vs"
proof (induction vs arbitrary: sss)
  case (Cons v vs)
  then show ?case by (cases sss) (auto dest: decode_encode)
qed simp

end

lemma one_segment_single [simp]: "one_segment [b] n = Ok b"
  by (simp add: one_segment_def)

interpretation unit_wire: wire_value unit_encode unit_decode "\<lambda>_. True"
  by unfold_locales (auto simp: unit_encode_def unit_decode_def)

interpretation u64_wire: wire_value u64_encode u64_decode "\<lambda>_. True"
  by unfold_locales (auto simp: u64_encode_def u64_decode_def)

interpretation bytes_wire: wire_value bytes_encode bytes_decode "\<lambda>_. True"
  by unfold_locales (auto simp: bytes_encode_def bytes_decode_def)

interpretation string_wire: wire_value string_encode string_decode utf8_valid
  by unfold_locales (auto simp: string_encode_def string_decode_def)

lemma one_segment_Ok: "one_segment ss n = Ok b \<longleftrightarrow> ss = [b]"
  by (cases ss) (auto simp: one_segment_def)

text \<open>
  The codecs of the built-in wire values are exact: the segments that decode to a value are
  precisely its encoding.
\<close>

lemma wire_values_exact:
  "(unit_decode ss = Ok u \<longleftrightarrow> unit_encode u = Ok ss)
   \<and> (u64_decode ss = Ok w \<longleftrightarrow> u64_encode w = Ok ss)
   \<and> (bytes_decode ss = Ok b \<longleftrightarrow> bytes_encode b = Ok ss)
   \<and> (string_decode ss = Ok t \<longleftrightarrow> string_encode t = Ok ss \<and> utf8_valid t)"
  by (auto simp: unit_decode_def unit_encode_def u64_decode_def u64_encode_def bytes_decode_def
      bytes_encode_def string_decode_def string_encode_def one_segment_Ok int_le_from_le split: if_splits)

subsection \<open>Local and remote execution agree\<close>

lemma catch_unwind_res_map: "catch_unwind (res_map f r) = res_map f (catch_unwind r)"
  by (cases r rule: catch_unwind.cases) simp_all

lemma catch_unwind_bind:
  "catch_unwind (res_bind r f) = res_bind (catch_unwind r) (\<lambda>a. catch_unwind (f a))"
  by (cases r rule: catch_unwind.cases) simp_all

text \<open>
  C22. An action means the same wherever it runs. If the input decodes to the value it was encoded
  from, running the registered action on the encoded input gives exactly the encoding of what
  the typed run on the local value gives, and fails with the same error when that fails; a panic
  of the handler is a value on both paths.
\<close>

theorem action_location_transparent:
  assumes "register A h reg = (reg', Ok ())" "hm_wf (ar_entries reg)"
    and "at_decode A ss = Ok input" "at_downcast A v = Some input"
  shows "\<exists>ra. registry_get reg' (at_ID A) = Some ra
    \<and> execute ra (AvTyped v) = res_map (\<lambda>out. AvTyped (at_box A out)) (catch_unwind (h input))
    \<and> execute ra (AvEncoded ss) =
        res_bind (catch_unwind (h input)) (\<lambda>out. res_map AvEncoded (catch_unwind (at_output_encode A out)))"
proof -
  let ?ra = "\<lparr>ra_handler = remote_handler A h, ra_local_handler = Some (typed_handler A h)\<rparr>"
  have "registry_get reg' (at_ID A) = Some ?ra"
    using assms(1,2)
    by (auto simp: register_def registry_get_def nonzero_u128_id_def split: if_splits)
  moreover have "execute ?ra (AvTyped v) = res_map (\<lambda>out. AvTyped (at_box A out)) (catch_unwind (h input))"
    using assms(4) by (cases "h input" rule: catch_unwind.cases)
      (simp_all add: execute_def typed_handler_def)
  moreover have "execute ?ra (AvEncoded ss) =
        res_bind (catch_unwind (h input)) (\<lambda>out. res_map AvEncoded (catch_unwind (at_output_encode A out)))"
    using assms(3) by (cases "h input" rule: catch_unwind.cases)
      (simp_all add: execute_def remote_handler_def catch_unwind_res_map)
  ultimately show ?thesis by blast
qed

text \<open>An action that adds one to a number, with dynamic values that are numbers.\<close>

definition demo_action :: "(u64, u64, u64) action_type" where
  "demo_action = \<lparr>at_ID = 5, at_SCHEMA_ID = 2, at_output_SCHEMA_ID = 2,
     at_decode = (\<lambda>ss. res_map_err Fail (u64_decode ss)),
     at_output_encode = (\<lambda>w. res_map_err Fail (u64_encode w)), at_downcast = Some, at_box = (\<lambda>w. w)\<rparr>"

theorem action_location_transparent_witness:
  "\<exists>ra. registry_get (fst (register demo_action (\<lambda>w. Ok (w + 1)) action_registry_default)) 5 = Some ra
     \<and> execute ra (AvTyped 41) = Ok (AvTyped 42) \<and> execute ra (AvEncoded [u64_le 41]) = Ok (AvEncoded [u64_le 42])"
proof -
  let ?r = "register demo_action (\<lambda>w. Ok (w + 1)) (action_registry_default :: u64 action_registry)"
  have "?r = (fst ?r, Ok ())"
    by (simp add: register_def demo_action_def nonzero_u128_id_def action_registry_default_def)
  from action_location_transparent [OF this, of "[u64_le 41]" 41 41] show ?thesis
    by (simp add: demo_action_def action_registry_default_def u64_decode_def u64_encode_def)
qed

subsection \<open>The fingerprint does not depend on the order of registration\<close>

definition registry_wf :: "'v action_registry \<Rightarrow> bool" where
  "registry_wf reg \<longleftrightarrow> hm_wf (ar_entries reg) \<and> hm_wf (ar_schemas reg)
     \<and> (\<forall>k. hm_get (ar_entries reg) k = None \<longleftrightarrow> hm_get (ar_schemas reg) k = None)"

lemma registry_wf_insert_erased: "registry_wf reg \<Longrightarrow> registry_wf (fst (insert_erased k i u ra reg))"
  by (auto simp: registry_wf_def insert_erased_def)

lemma registry_wf_register: "registry_wf reg \<Longrightarrow> registry_wf (fst (register A h reg))"
  by (auto simp: registry_wf_def register_def nonzero_u128_id_def)

lemma registry_wf_default [simp]: "registry_wf action_registry_default"
  by (simp add: registry_wf_def action_registry_default_def)

text \<open>An ordered map is listed the same however it was filled.\<close>

lemma ascending_unique:
  fixes a b :: "('k::linorder, 'w) hmap"
  assumes "hm_wf a" "hm_wf b" "\<And>k. hm_get a k = hm_get b k"
  shows "sort_key fst a = sort_key fst b"
proof -
  have mem: "p \<in> set m \<longleftrightarrow> hm_get m (fst p) = Some (snd p)" if "hm_wf m" for m :: "('k, 'w) hmap" and p
    using that by (cases p) (simp add: hm_get_def hm_wf_def)
  have "distinct (map fst (sort_key fst m))" if "hm_wf m" for m :: "('k, 'w) hmap"
    using that by (metis hm_wf_def mset_eq_imp_distinct_iff mset_map mset_sort)
  moreover have "set a = set b"
    using mem [OF assms(1)] mem [OF assms(2)] assms(3) by auto
  moreover have "inj_on fst (set b)"
    using assms(2) by (simp add: hm_wf_def distinct_map)
  ultimately show ?thesis
    using assms(1,2)
    by (intro map_sorted_distinct_set_unique [where f = fst]) auto
qed

type_synonym 'v registration = "action_id \<times> u64 \<times> u64 \<times> 'v registered_action"

definition register_erased :: "'v registration list \<Rightarrow> 'v action_registry \<Rightarrow> 'v action_registry" where
  "register_erased regs reg = fold (\<lambda>(k, i, u, ra) reg. fst (insert_erased k i u ra reg)) regs reg"

lemma register_erased_get:
  assumes "registry_wf reg" "distinct (map fst regs)" "\<And>k. k \<in> fst ` set regs \<Longrightarrow> hm_get (ar_schemas reg) k = None"
  shows "registry_wf (register_erased regs reg)
    \<and> hm_get (ar_schemas (register_erased regs reg)) k =
      (case map_of regs k of
         Some (i, u, ra) \<Rightarrow> if i = 0 \<or> u = 0 then None else Some (i, u)
       | None \<Rightarrow> hm_get (ar_schemas reg) k)"
  using assms
proof (induction regs arbitrary: reg)
  case Nil
  then show ?case by (simp add: register_erased_def)
next
  case (Cons p regs)
  obtain k' i u ra where p: "p = (k', i, u, ra)" by (cases p)
  let ?reg = "fst (insert_erased k' i u ra reg)"
  have wf: "registry_wf ?reg" by (rule registry_wf_insert_erased [OF Cons.prems(1)])
  have get: "hm_get (ar_schemas ?reg) x =
      (if x = k' \<and> i \<noteq> 0 \<and> u \<noteq> 0 then Some (i, u) else hm_get (ar_schemas reg) x)" for x
    using Cons.prems(1,3) p by (auto simp: insert_erased_def registry_wf_def)
  have fresh: "hm_get (ar_schemas ?reg) x = None" if "x \<in> fst ` set regs" for x
  proof -
    have "x \<noteq> k'" using that Cons.prems(2) p by auto
    then show ?thesis using that Cons.prems(3) [of x] by (simp add: get)
  qed
  have "map_of regs k' = None"
    using Cons.prems(2) p by (simp add: map_of_eq_None_iff)
  moreover have "registry_wf (register_erased regs ?reg)
      \<and> hm_get (ar_schemas (register_erased regs ?reg)) k =
        (case map_of regs k of
           Some (i, u, ra) \<Rightarrow> if i = 0 \<or> u = 0 then None else Some (i, u)
         | None \<Rightarrow> hm_get (ar_schemas ?reg) k)"
    using Cons.IH [OF wf _ fresh] Cons.prems(2) by simp
  moreover have "register_erased (p # regs) reg = register_erased regs ?reg"
    by (simp add: register_erased_def p)
  ultimately show ?case
    using Cons.prems(3) [of k'] by (cases "k = k'"; cases "map_of regs k") (simp_all add: p get)
qed

text \<open>
  Two localities that register the same actions, in any order, have the same fingerprint of
  32 bytes, so that the handshake between them agrees on it.
\<close>

theorem fingerprint_order_independent:
  assumes "distinct (map fst regs)" "mset regs' = mset regs"
  shows "fingerprint (register_erased regs' action_registry_default)
      = fingerprint (register_erased regs action_registry_default)
    \<and> length (fingerprint (register_erased regs action_registry_default)) = 32"
proof -
  have dist: "distinct (map fst regs')"
    using assms by (metis mset_eq_imp_distinct_iff mset_map)
  have "map_of regs' = map_of regs"
    using assms dist by (metis map_of_eqI set_mset_mset mset_map map_of_inject_set)
  moreover have empty: "hm_get (ar_schemas (action_registry_default :: 'a action_registry)) k = None" for k
    by (simp add: action_registry_default_def)
  ultimately have "schemas_ascending (register_erased regs' action_registry_default)
      = schemas_ascending (register_erased regs action_registry_default)"
    unfolding schemas_ascending_def
    using register_erased_get [OF registry_wf_default dist] register_erased_get [OF registry_wf_default assms(1)]
    by (intro ascending_unique) (auto simp: registry_wf_def)
  moreover have "length (hash_byte b i hs) = length hs" for b i hs
    by (induction b i hs rule: hash_byte.induct) simp_all
  then have "length (fold (\<lambda>b hs. hash_byte b 0 hs) bs hs) = length hs" for bs hs
    by (induction bs arbitrary: hs) simp_all
  then have "length (fingerprint reg) = 32" for reg :: "'a action_registry"
    by (simp add: fingerprint_def Let_def length_concat comp_def sum_list_triv SEEDS_def)
  ultimately show ?thesis by (simp add: fingerprint_def)
qed

theorem fingerprint_order_independent_witness:
  "fingerprint (register_erased [(2, 1, 1, registered_action_new Inr), (1, 2, 2, registered_action_new Inr)]
      (action_registry_default :: unit action_registry))
   = fingerprint (register_erased [(1, 2, 2, registered_action_new Inr), (2, 1, 1, registered_action_new Inr)]
      (action_registry_default :: unit action_registry))"
  using fingerprint_order_independent
    [of "[(1, 2, 2, registered_action_new Inr), (2, 1, 1, registered_action_new Inr :: unit registered_action)]"
      "[(2, 1, 1, registered_action_new Inr), (1, 2, 2, registered_action_new Inr)]"]
  by (simp add: add_mset_commute)

end
