(* ===== verification/RtWire.thy ===== *)
theory RtWire
  imports RtError
begin

text \<open>
  The runtime's messages inside parcels (\<open>crates/hataori-runtime/src/wire.rs\<close>): a 52-byte
  header as the first segment, the payload as the others. \<open>rt_encode\<close> is \<open>encode\<close>, \<open>rt_decode\<close>
  is \<open>decode\<close>; the shape rules tie the message kind to the channel, the parcel kind, the
  origin of the request, the deadline and the payload.
\<close>

definition RT_MAGIC :: bytes where
  "RT_MAGIC = [0x48, 0x52, 0x54, 0x41]"

definition RT_VERSION :: u8 where
  "RT_VERSION = 1"

definition HEADER_BYTES :: usize where
  "HEADER_BYTES = 52"

datatype rt_kind =
  RmRequest | RmSuccess | RmFailure | RmCancel | RmCancelled | RmDuplicateResultUnavailable | RmMoved

datatype rt_wire_error =
  WeHeaderLength usize | WeMagic | WeVersion u8 | WeInvalidKind u8 | WeReserved | WeZeroRequest
| WeZeroAction | WeChannel | WeIdentity | WeUnexpectedDeadline | WeUnexpectedPayload | WeErrorPayload

fun rt_kind_code :: "rt_kind \<Rightarrow> u8" where
  "rt_kind_code RmRequest = 1"
| "rt_kind_code RmSuccess = 2"
| "rt_kind_code RmFailure = 3"
| "rt_kind_code RmCancel = 4"
| "rt_kind_code RmCancelled = 5"
| "rt_kind_code RmDuplicateResultUnavailable = 6"
| "rt_kind_code RmMoved = 7"

definition rt_kind_try_from :: "u8 \<Rightarrow> (rt_wire_error, rt_kind) result" where
  "rt_kind_try_from v =
     (if v = 1 then Ok RmRequest else if v = 2 then Ok RmSuccess else if v = 3 then Ok RmFailure
      else if v = 4 then Ok RmCancel else if v = 5 then Ok RmCancelled
      else if v = 6 then Ok RmDuplicateResultUnavailable else if v = 7 then Ok RmMoved
      else Err (WeInvalidKind v))"

record rt_message =
  rm_kind :: rt_kind
  rm_request :: request_id
  rm_action :: action_id
  rm_domain :: domain_id
  rm_deadline_ms :: u64
  rm_payload :: segments

definition rt_header :: "rt_message \<Rightarrow> bytes" where
  "rt_header m = RT_MAGIC @ [RT_VERSION] @ [rt_kind_code (rm_kind m)] @ [0, 0]
     @ u64_le (req_origin (rm_request m)) @ u64_le (req_sequence (rm_request m))
     @ u128_le (rm_action m) @ u32_le (rm_domain m) @ u64_le (rm_deadline_ms m)"

definition rt_encode :: "rt_message \<Rightarrow> segments" where
  "rt_encode m = rt_header m # rm_payload m"

text \<open>The private \<open>ParcelShape\<close>.\<close>

record parcel_shape =
  ps_channel :: channel
  ps_kind :: parcel_kind
  ps_source :: locality_id
  ps_destination :: locality_id

definition shape_of :: "parcel \<Rightarrow> parcel_shape" where
  "shape_of p = \<lparr>ps_channel = p_channel p, ps_kind = p_kind p, ps_source = p_source p,
                  ps_destination = p_destination p\<rparr>"

definition validate_shape ::
  "rt_kind \<Rightarrow> parcel_shape \<Rightarrow> request_id \<Rightarrow> u64 \<Rightarrow> segments \<Rightarrow> (rt_wire_error, unit) result"
where
  "validate_shape k shape request deadline_ms payload =
     (let (expected_channel, expected_kind) =
            (case k of RmCancel \<Rightarrow> (ChControl, PkControl) | _ \<Rightarrow> (ChAction, PkData)) in
      if ps_channel shape \<noteq> expected_channel \<or> ps_kind shape \<noteq> expected_kind then Err WeChannel
      else if (if k = RmRequest \<or> k = RmCancel then ps_source shape \<noteq> req_origin request
               else ps_destination shape \<noteq> req_origin request) then Err WeIdentity
      else if (if k = RmRequest then deadline_ms = 0 else deadline_ms \<noteq> 0)
        then Err WeUnexpectedDeadline
      else if (k = RmCancel \<or> k = RmCancelled \<or> k = RmDuplicateResultUnavailable) \<and> payload \<noteq> []
        then Err WeUnexpectedPayload
      else if k = RmMoved
          \<and> (length payload \<noteq> 2 \<or> length (payload ! 0) \<noteq> 32 \<or> length (payload ! 1) \<noteq> 32)
        then Err WeErrorPayload
      else if k = RmFailure
          \<and> (length payload \<noteq> 1 \<or> MAX_ERROR_BYTES < length (payload ! 0) \<or> \<not> utf8_valid (payload ! 0))
        then Err WeErrorPayload
      else Ok ())"

definition rt_decode :: "parcel \<Rightarrow> (rt_wire_error, rt_message) result" where
  "rt_decode p =
     (let shape = shape_of p in
      case p_segments p of
        [] \<Rightarrow> Err (WeHeaderLength 0)
      | hdr # payload \<Rightarrow>
          if length hdr \<noteq> HEADER_BYTES then Err (WeHeaderLength (length hdr))
          else if slice_range hdr 0 4 \<noteq> RT_MAGIC then Err WeMagic
          else if hdr ! 4 \<noteq> RT_VERSION then Err (WeVersion (hdr ! 4))
          else res_bind (rt_kind_try_from (hdr ! 5)) (\<lambda>k.
            if slice_range hdr 6 8 \<noteq> [0, 0] then Err WeReserved
            else let origin = from_le (slice_range hdr 8 16); sequence = from_le (slice_range hdr 16 24) in
              if sequence = 0 then Err WeZeroRequest
              else res_bind (res_map_err (\<lambda>_. WeZeroAction)
                     (nonzero_u128_id ''ActionId'' (from_le (slice_range hdr 24 40)))) (\<lambda>action.
                let domain = from_le (slice_range hdr 40 44);
                    deadline_ms = from_le (slice_range hdr 44 52);
                    request = \<lparr>req_origin = origin, req_sequence = sequence\<rparr> in
                res_bind (validate_shape k shape request deadline_ms payload) (\<lambda>_.
                  Ok \<lparr>rm_kind = k, rm_request = request, rm_action = action, rm_domain = domain,
                      rm_deadline_ms = deadline_ms, rm_payload = payload\<rparr>))))"

subsection \<open>The codec is exact\<close>

lemma rt_kind_try_from_Ok: "rt_kind_try_from v = Ok k \<longleftrightarrow> v = rt_kind_code k"
  by (cases k) (auto simp: rt_kind_try_from_def)

lemma rt_header_slices:
  "length (rt_header m) = 52" "slice_range (rt_header m) 0 4 = RT_MAGIC" "rt_header m ! 4 = RT_VERSION"
  "rt_header m ! 5 = rt_kind_code (rm_kind m)" "slice_range (rt_header m) 6 8 = [0, 0]"
  "slice_range (rt_header m) 8 16 = u64_le (req_origin (rm_request m))"
  "slice_range (rt_header m) 16 24 = u64_le (req_sequence (rm_request m))"
  "slice_range (rt_header m) 24 40 = u128_le (rm_action m)"
  "slice_range (rt_header m) 40 44 = u32_le (rm_domain m)"
  "slice_range (rt_header m) 44 52 = u64_le (rm_deadline_ms m)"
  by (simp_all add: rt_header_def RT_MAGIC_def slice_append_left slice_append_right slice_full
      slice_range_def nth_append)

lemma rt_header_split:
  assumes "length bs = 52"
  shows "bs = slice_range bs 0 4 @ [bs ! 4] @ [bs ! 5] @ slice_range bs 6 8 @ slice_range bs 8 16
    @ slice_range bs 16 24 @ slice_range bs 24 40 @ slice_range bs 40 44 @ slice_range bs 44 52"
proof -
  have "bs = slice_range bs 0 4 @ slice_range bs 4 5 @ slice_range bs 5 6 @ slice_range bs 6 8 @ slice_range bs 8 16
    @ slice_range bs 16 24 @ slice_range bs 24 40 @ slice_range bs 40 44 @ slice_range bs 44 52"
    using assms by (simp add: slice_join slice_full)
  then show ?thesis
    using assms slice_one [of 4 bs] slice_one [of 5 bs] by simp
qed

lemma rt_decode_encode:
  assumes "p_segments p = rt_encode m" "req_sequence (rm_request m) \<noteq> 0" "rm_action m \<noteq> 0"
    and "validate_shape (rm_kind m) (shape_of p) (rm_request m) (rm_deadline_ms m) (rm_payload m) = Ok ()"
  shows "rt_decode p = Ok m"
proof -
  have "rt_kind_try_from (rt_kind_code (rm_kind m)) = Ok (rm_kind m)"
      "nonzero_u128_id ''ActionId'' (rm_action m) = Ok (rm_action m)"
    using assms(3) by (simp_all add: rt_kind_try_from_Ok nonzero_u128_id_Ok)
  then show ?thesis
    using assms by (cases m; cases "rm_request m")
      (simp add: rt_decode_def rt_encode_def HEADER_BYTES_def rt_header_slices Let_def)
qed

lemma rt_encode_decode:
  assumes "rt_decode p = Ok m"
  shows "p_segments p = rt_encode m \<and> req_sequence (rm_request m) \<noteq> 0 \<and> rm_action m \<noteq> 0
    \<and> validate_shape (rm_kind m) (shape_of p) (rm_request m) (rm_deadline_ms m) (rm_payload m) = Ok ()"
proof -
  obtain h rest where seg: "p_segments p = h # rest"
    using assms by (cases "p_segments p") (simp_all add: rt_decode_def Let_def)
  have len: "length h = 52"
    using assms seg by (simp add: rt_decode_def HEADER_BYTES_def Let_def split: if_splits)
  have f: "slice_range h 0 4 = RT_MAGIC" "h ! 4 = RT_VERSION" "h ! 5 = rt_kind_code (rm_kind m)"
      "slice_range h 6 8 = [0, 0]"
      "req_origin (rm_request m) = from_le (slice_range h 8 16)"
      "req_sequence (rm_request m) = from_le (slice_range h 16 24)"
      "rm_action m = from_le (slice_range h 24 40)" "rm_domain m = from_le (slice_range h 40 44)"
      "rm_deadline_ms m = from_le (slice_range h 44 52)" "rm_payload m = rest"
      "req_sequence (rm_request m) \<noteq> 0" "rm_action m \<noteq> 0"
      "validate_shape (rm_kind m) (shape_of p) (rm_request m) (rm_deadline_ms m) (rm_payload m) = Ok ()"
    using assms seg by (auto simp: rt_decode_def Let_def rt_kind_try_from_Ok nonzero_u128_id_Ok split: if_splits)
  have "rt_header m = slice_range h 0 4 @ [h ! 4] @ [h ! 5] @ slice_range h 6 8 @ slice_range h 8 16
    @ slice_range h 16 24 @ slice_range h 24 40 @ slice_range h 40 44 @ slice_range h 44 52"
    using len by (simp add: rt_header_def f int_le_from_le length_slice)
  then have "rt_header m = h"
    using rt_header_split [OF len] by simp
  with f seg show ?thesis by (simp add: rt_encode_def)
qed

text \<open>
  C19. A parcel decodes to a runtime message exactly when its segments are the encoding of that
  message, the request and action identities are nonzero, and the parcel carries it as its kind
  demands: cancellations on the control channel and everything else as action data, requests and
  cancellations from the origin and replies to it, a deadline on requests only, no payload on
  the kinds that have none, two 32-byte segments for a redirect, one bounded UTF-8 segment for a
  failure.
\<close>

theorem rt_codec_exact:
  "rt_decode p = Ok m \<longleftrightarrow>
     p_segments p = rt_encode m \<and> req_sequence (rm_request m) \<noteq> 0 \<and> rm_action m \<noteq> 0
     \<and> (if rm_kind m = RmCancel then p_channel p = ChControl \<and> p_kind p = PkControl
        else p_channel p = ChAction \<and> p_kind p = PkData)
     \<and> req_origin (rm_request m) = (if rm_kind m \<in> {RmRequest, RmCancel} then p_source p else p_destination p)
     \<and> (rm_deadline_ms m \<noteq> 0) = (rm_kind m = RmRequest)
     \<and> (case rm_kind m of
          RmMoved \<Rightarrow> \<exists>a b. rm_payload m = [a, b] \<and> length a = 32 \<and> length b = 32
        | RmFailure \<Rightarrow> \<exists>t. rm_payload m = [t] \<and> length t \<le> MAX_ERROR_BYTES \<and> utf8_valid t
        | RmRequest \<Rightarrow> True
        | RmSuccess \<Rightarrow> True
        | _ \<Rightarrow> rm_payload m = [])" (is "_ = ?R")
proof -
  have pair: "(length xs = 2 \<and> length (xs ! 0) = 32 \<and> length (xs ! 1) = 32)
      \<longleftrightarrow> (\<exists>a b. xs = [a, b] \<and> length a = 32 \<and> length b = 32)" for xs :: segments
    by (auto simp: numeral_2_eq_2 length_Suc_conv)
  have single: "(length xs = 1 \<and> length (xs ! 0) \<le> n \<and> utf8_valid (xs ! 0))
      \<longleftrightarrow> (\<exists>t. xs = [t] \<and> length t \<le> n \<and> utf8_valid t)" for xs :: segments and n
    by (auto simp: length_Suc_conv)
  have shape: "validate_shape k (shape_of p) r d pl = Ok () \<longleftrightarrow>
      (if k = RmCancel then p_channel p = ChControl \<and> p_kind p = PkControl
        else p_channel p = ChAction \<and> p_kind p = PkData)
      \<and> req_origin r = (if k \<in> {RmRequest, RmCancel} then p_source p else p_destination p)
      \<and> (d \<noteq> 0) = (k = RmRequest)
      \<and> (case k of
          RmMoved \<Rightarrow> \<exists>a b. pl = [a, b] \<and> length a = 32 \<and> length b = 32
        | RmFailure \<Rightarrow> \<exists>t. pl = [t] \<and> length t \<le> MAX_ERROR_BYTES \<and> utf8_valid t
        | RmRequest \<Rightarrow> True | RmSuccess \<Rightarrow> True | _ \<Rightarrow> pl = [])" for k r d pl
    unfolding pair [symmetric] single [symmetric]
    by (cases k) (auto simp: validate_shape_def shape_of_def Let_def)
  show ?thesis
    using rt_decode_encode [of p m] rt_encode_decode [of p m] shape
      [of "rm_kind m" "rm_request m" "rm_deadline_ms m" "rm_payload m"] by blast
qed

subsection \<open>Failure replies\<close>

text \<open>The response built by \<open>send_and_cache_failure\<close> (\<open>runtime.rs\<close>).\<close>

definition failure_message :: "rt_message \<Rightarrow> bytes \<Rightarrow> rt_message" where
  "failure_message request error = \<lparr>rm_kind = RmFailure, rm_request = rm_request request,
     rm_action = rm_action request, rm_domain = rm_domain request, rm_deadline_ms = 0,
     rm_payload = [cap error]\<rparr>"

text \<open>
  Whatever diagnostic a failing action or object operation gives, the failure reply to an
  accepted request is accepted at the origin: the capped text is short enough and still UTF-8.
\<close>

theorem failure_reply_accepted:
  assumes "rt_decode p = Ok request" "rm_kind request = RmRequest" "utf8_valid error"
    and "p_segments q = rt_encode (failure_message request error)"
    and "p_channel q = ChAction" "p_kind q = PkData" "p_destination q = p_source p"
  shows "rt_decode q = Ok (failure_message request error)"
proof -
  have "req_sequence (rm_request request) \<noteq> 0" "rm_action request \<noteq> 0"
      "req_origin (rm_request request) = p_source p"
    using rt_encode_decode [OF assms(1)] assms(2)
    by (auto simp: validate_shape_def shape_of_def split: if_splits)
  with assms(4-) show ?thesis
    using length_cap [of error] utf8_valid_cap [OF assms(3)]
    by (intro rt_decode_encode) (auto simp: failure_message_def validate_shape_def shape_of_def Let_def)
qed

definition demo_request :: rt_message where
  "demo_request = \<lparr>rm_kind = RmRequest, rm_request = \<lparr>req_origin = 7, req_sequence = 1\<rparr>, rm_action = 9,
     rm_domain = 0, rm_deadline_ms = 30000, rm_payload = [[1, 2]]\<rparr>"

definition demo_carrier :: "locality_id \<Rightarrow> locality_id \<Rightarrow> rt_message \<Rightarrow> parcel" where
  "demo_carrier src dst m = \<lparr>p_run_id = 1, p_message_id = 1, p_channel = ChAction, p_kind = PkData,
     p_source = src, p_destination = dst, p_trace_id = None, p_segments = rt_encode m\<rparr>"

theorem failure_reply_accepted_witness:
  "rt_decode (demo_carrier 8 7 (failure_message demo_request (lit ''no such key'')))
     = Ok (failure_message demo_request (lit ''no such key''))"
proof (rule failure_reply_accepted)
  show "rt_decode (demo_carrier 7 8 demo_request) = Ok demo_request"
    by (rule rt_decode_encode)
      (simp_all add: demo_carrier_def demo_request_def validate_shape_def shape_of_def)
  show "utf8_valid (lit ''no such key'')"
    by (simp add: lit_def utf8_step of_char_def)
qed (simp_all add: demo_carrier_def demo_request_def)

end
