(* ===== verification/Dedup.thy ===== *)
theory Dedup
  imports RtWire
begin

text \<open>
  The request deduplication table of a runtime (\<open>crates/hataori-runtime/src/dedup.rs\<close>): what
  makes a retransmitted request run at most once and be answered again from the retained reply.

  The \<open>Arc<AtomicBool>\<close> of a running request is shared by the table and the job that runs it:
  it is an address in a store of flags that every operation takes and returns with the table.
  The clock is an argument, as in the source.
\<close>

type_synonym flag = nat
type_synonym flags = "bool list"

datatype dedup_state =
  DsRunning action_id domain_id flag
| DsCompleted action_id domain_id "(rt_kind \<times> segments) option" usize instant
| DsCancelled action_id domain_id instant

datatype dedup_disposition =
  DdNew flag | DdRunning | DdReplay rt_message | DdUnavailable rt_message | DdCancelled rt_message

record dedup_table =
  dt_entries :: "(request_id, dedup_state) hmap"
  dt_max_entries :: usize
  dt_max_bytes :: usize
  dt_retained_bytes :: usize
  dt_ttl :: duration

definition dedup_new :: "usize \<Rightarrow> usize \<Rightarrow> duration \<Rightarrow> dedup_table" where
  "dedup_new max_entries max_bytes ttl = \<lparr>dt_entries = [], dt_max_entries = max_entries,
     dt_max_bytes = max_bytes, dt_retained_bytes = 0, dt_ttl = ttl\<rparr>"

fun ds_identity :: "dedup_state \<Rightarrow> action_id \<times> domain_id" where
  "ds_identity (DsRunning a d c) = (a, d)"
| "ds_identity (DsCompleted a d r n e) = (a, d)"
| "ds_identity (DsCancelled a d e) = (a, d)"

fun ds_expired :: "instant \<Rightarrow> dedup_state \<Rightarrow> bool" where
  "ds_expired now (DsRunning a d c) = False"
| "ds_expired now (DsCompleted a d r n expires_at) = (expires_at \<le> now)"
| "ds_expired now (DsCancelled a d expires_at) = (expires_at \<le> now)"

fun remove_expired :: "request_id list \<Rightarrow> dedup_table \<Rightarrow> dedup_table" where
  "remove_expired [] t = t"
| "remove_expired (r # rs) t =
     (let t' = t\<lparr>dt_entries := hm_remove r (dt_entries t)\<rparr> in
      remove_expired rs
        (case hm_get (dt_entries t) r of
           Some (DsCompleted a d resp n e) \<Rightarrow> t'\<lparr>dt_retained_bytes := dt_retained_bytes t' - n\<rparr>
         | _ \<Rightarrow> t'))"

definition dedup_expire :: "instant \<Rightarrow> dedup_table \<Rightarrow> dedup_table" where
  "dedup_expire now t =
     remove_expired (map fst (filter (\<lambda>p. ds_expired now (snd p)) (dt_entries t))) t"

definition dd_reply :: "rt_kind \<Rightarrow> request_id \<Rightarrow> action_id \<Rightarrow> domain_id \<Rightarrow> segments \<Rightarrow> rt_message" where
  "dd_reply k request a d payload = \<lparr>rm_kind = k, rm_request = request, rm_action = a,
     rm_domain = d, rm_deadline_ms = 0, rm_payload = payload\<rparr>"

fun disposition_of :: "request_id \<Rightarrow> dedup_state \<Rightarrow> dedup_disposition" where
  "disposition_of request (DsRunning a d c) = DdRunning"
| "disposition_of request (DsCompleted a d None n e) =
     DdUnavailable (dd_reply RmDuplicateResultUnavailable request a d [])"
| "disposition_of request (DsCompleted a d (Some (k, payload)) n e) =
     (if k = RmMoved then DdRunning else DdReplay (dd_reply k request a d payload))"
| "disposition_of request (DsCancelled a d e) = DdCancelled (dd_reply RmCancelled request a d [])"

definition dedup_begin ::
  "request_id \<Rightarrow> action_id \<Rightarrow> domain_id \<Rightarrow> instant \<Rightarrow> dedup_table \<times> flags
     \<Rightarrow> (dedup_table \<times> flags) \<times> (runtime_error, dedup_disposition) result"
where
  "dedup_begin request a d now = (\<lambda>(t0, fs).
     (let t = dedup_expire now t0 in
      case hm_get (dt_entries t) request of
        Some st \<Rightarrow>
          ((t, fs), if ds_identity st \<noteq> (a, d)
                    then Err (ReProtocol (lit ''duplicate request changed action or domain''))
                    else Ok (disposition_of request st))
      | None \<Rightarrow>
          if dt_max_entries t \<le> hm_len (dt_entries t)
          then ((t, fs), Err (ReResourceExhausted RkDedupEntries (dt_max_entries t)))
          else ((t\<lparr>dt_entries := hm_insert request (DsRunning a d (length fs)) (dt_entries t)\<rparr>,
                 fs @ [False]), Ok (DdNew (length fs)))))"

definition is_redirect :: "dedup_state \<Rightarrow> bool" where
  "is_redirect st = (case st of DsCompleted a d (Some (k, payload)) n e \<Rightarrow> k = RmMoved | _ \<Rightarrow> False)"

definition is_running :: "dedup_state \<Rightarrow> bool" where
  "is_running st = (case st of DsRunning a d c \<Rightarrow> True | _ \<Rightarrow> False)"

definition release_redirect ::
  "request_id \<Rightarrow> action_id \<Rightarrow> domain_id \<Rightarrow> dedup_table \<Rightarrow> dedup_table \<times> (runtime_error, unit) result"
where
  "release_redirect request a d t =
     (case hm_get (dt_entries t) request of
        None \<Rightarrow> (t, Ok ())
      | Some st \<Rightarrow>
          if is_redirect st \<and> ds_identity st = (a, d)
          then (t\<lparr>dt_entries := hm_remove request (dt_entries t)\<rparr>, Ok ())
          else if is_running st \<or> is_redirect st then (t, Ok ())
          else (t, Err (ReProtocol (lit ''redirect changed request action or domain''))))"

definition dedup_cancel ::
  "request_id \<Rightarrow> action_id \<Rightarrow> domain_id \<Rightarrow> instant \<Rightarrow> dedup_table \<times> flags
     \<Rightarrow> (dedup_table \<times> flags) \<times> (runtime_error, unit) result"
where
  "dedup_cancel request a d now = (\<lambda>(t0, fs).
     (let t = dedup_expire now t0 in
      case hm_get (dt_entries t) request of
        Some st \<Rightarrow>
          if ds_identity st \<noteq> (a, d)
          then ((t, fs), Err (ReProtocol (lit ''cancellation changed request action or domain'')))
          else ((t, case st of DsRunning a' d' c \<Rightarrow> fs[c := True] | _ \<Rightarrow> fs), Ok ())
      | None \<Rightarrow>
          if hm_len (dt_entries t) < dt_max_entries t
          then ((t\<lparr>dt_entries := hm_insert request (DsCancelled a d (now + dt_ttl t)) (dt_entries t)\<rparr>,
                 fs), Ok ())
          else ((t, fs), Ok ())))"

definition retain_response :: "rt_message \<Rightarrow> usize \<Rightarrow> instant \<Rightarrow> dedup_table \<Rightarrow> dedup_table" where
  "retain_response m payload_bytes now t =
     (let room = (case checked_add_usize (dt_retained_bytes t) payload_bytes of
                    Some n \<Rightarrow> n \<le> dt_max_bytes t | None \<Rightarrow> False);
          response = (if room then Some (rm_kind m, rm_payload m) else None);
          t1 = (if room then t\<lparr>dt_retained_bytes := dt_retained_bytes t + payload_bytes\<rparr> else t);
          kept = (if room then payload_bytes else 0);
          previous = hm_get (dt_entries t1) (rm_request m);
          t2 = t1\<lparr>dt_entries := hm_insert (rm_request m)
                   (DsCompleted (rm_action m) (rm_domain m) response kept (now + dt_ttl t)) (dt_entries t1)\<rparr> in
      case previous of
        Some (DsCompleted a d resp n e) \<Rightarrow> t2\<lparr>dt_retained_bytes := dt_retained_bytes t2 - n\<rparr>
      | _ \<Rightarrow> t2)"

definition dedup_complete ::
  "rt_message \<Rightarrow> instant \<Rightarrow> dedup_table \<Rightarrow> dedup_table \<times> (runtime_error, unit) result"
where
  "dedup_complete m now t =
     (case hm_get (dt_entries t) (rm_request m) of
        None \<Rightarrow> (t, Err (ReProtocol (lit ''action completed without a dedup entry'')))
      | Some (DsCompleted a d resp n e) \<Rightarrow>
          (t, Err (ReProtocol (lit ''action completed more than once'')))
      | Some st \<Rightarrow>
          if ds_identity st \<noteq> (rm_action m, rm_domain m)
          then (t, Err (ReProtocol (lit ''action completion changed request metadata'')))
          else (case checked_total (rm_payload m) of
                  None \<Rightarrow> (t, Err (ReResourceExhausted RkDedupBytes (dt_max_bytes t)))
                | Some payload_bytes \<Rightarrow> (retain_response m payload_bytes now t, Ok ())))"

definition dedup_clear :: "dedup_table \<Rightarrow> dedup_table" where
  "dedup_clear t = t\<lparr>dt_entries := [], dt_retained_bytes := 0\<rparr>"

definition dedup_len :: "dedup_table \<Rightarrow> usize" where
  "dedup_len t = hm_len (dt_entries t)"

subsection \<open>Runs\<close>

text \<open>One call on the table, and its answer where it has one.\<close>

datatype dedup_op =
  OpBegin request_id action_id domain_id instant
| OpRelease request_id action_id domain_id
| OpCancel request_id action_id domain_id instant
| OpComplete rt_message instant
| OpExpire instant
| OpClear

fun dedup_op_step :: "dedup_op \<Rightarrow> dedup_table \<times> flags \<Rightarrow> dedup_table \<times> flags" where
  "dedup_op_step (OpBegin r a d now) s = fst (dedup_begin r a d now s)"
| "dedup_op_step (OpRelease r a d) (t, fs) = (fst (release_redirect r a d t), fs)"
| "dedup_op_step (OpCancel r a d now) s = fst (dedup_cancel r a d now s)"
| "dedup_op_step (OpComplete m now) (t, fs) = (fst (dedup_complete m now t), fs)"
| "dedup_op_step (OpExpire now) (t, fs) = (dedup_expire now t, fs)"
| "dedup_op_step OpClear (t, fs) = (dedup_clear t, fs)"

definition dedup_run :: "dedup_op list \<Rightarrow> dedup_table \<times> flags \<Rightarrow> dedup_table \<times> flags" where
  "dedup_run ops s = fold dedup_op_step ops s"

subsection \<open>Expiry\<close>

lemma remove_expired_frame [simp]:
  "dt_max_entries (remove_expired rs t) = dt_max_entries t"
  "dt_max_bytes (remove_expired rs t) = dt_max_bytes t" "dt_ttl (remove_expired rs t) = dt_ttl t"
  by (induction rs t rule: remove_expired.induct)
    (simp_all add: Let_def split: option.splits dedup_state.splits)

lemma dedup_expire_frame [simp]:
  "dt_max_entries (dedup_expire now t) = dt_max_entries t"
  "dt_max_bytes (dedup_expire now t) = dt_max_bytes t" "dt_ttl (dedup_expire now t) = dt_ttl t"
  by (simp_all add: dedup_expire_def)

lemma remove_expired_get:
  "hm_wf (dt_entries t) \<Longrightarrow> hm_wf (dt_entries (remove_expired rs t))
     \<and> hm_get (dt_entries (remove_expired rs t)) k
       = (if k \<in> set rs then None else hm_get (dt_entries t) k)
     \<and> hm_len (dt_entries (remove_expired rs t)) \<le> hm_len (dt_entries t)"
proof (induction rs t rule: remove_expired.induct)
  case (1 t)
  then show ?case by simp
next
  case (2 r rs t)
  have "hm_len (hm_remove r (dt_entries t)) \<le> hm_len (dt_entries t)"
    using hm.len_remove [OF 2(2)] by simp
  then show ?case
    using 2 by (fastforce simp: Let_def split: option.splits dedup_state.splits)
qed

lemma expired_keys:
  assumes "hm_wf m"
  shows "k \<in> set (map fst (filter (\<lambda>p. P (snd p)) m)) \<longleftrightarrow> (\<exists>v. hm_get m k = Some v \<and> P v)"
proof -
  have "(k, v) \<in> set m \<longleftrightarrow> hm_get m k = Some v" for v
    using assms by (simp add: hm_get_def hm_wf_def map_of_eq_Some_iff)
  then show ?thesis by force
qed

lemma dedup_expire_get:
  assumes "hm_wf (dt_entries t)"
  shows "hm_wf (dt_entries (dedup_expire now t))"
    and "hm_get (dt_entries (dedup_expire now t)) k =
      (case hm_get (dt_entries t) k of None \<Rightarrow> None | Some st \<Rightarrow> if ds_expired now st then None else Some st)"
    and "hm_len (dt_entries (dedup_expire now t)) \<le> hm_len (dt_entries t)"
  using remove_expired_get [OF assms] expired_keys [OF assms, of k "ds_expired now"]
  by (auto simp: dedup_expire_def split: option.splits)

subsection \<open>Accounting\<close>

fun ds_bytes :: "dedup_state \<Rightarrow> usize" where
  "ds_bytes (DsCompleted a d r n e) = n"
| "ds_bytes _ = 0"

definition charged :: "dedup_table \<Rightarrow> usize" where
  "charged t = hm_sum ds_bytes (dt_entries t)"

text \<open>
  The invariant: the limits hold, and the byte counter is what the retained replies take plus
  \<open>lost\<close>, the bytes charged for entries that are gone.
\<close>

definition dedup_inv :: "usize \<Rightarrow> dedup_table \<Rightarrow> bool" where
  "dedup_inv lost t \<longleftrightarrow> hm_wf (dt_entries t) \<and> hm_len (dt_entries t) \<le> dt_max_entries t
     \<and> dt_retained_bytes t = charged t + lost \<and> dt_retained_bytes t \<le> dt_max_bytes t"

lemma remove_expired_charged:
  "hm_wf (dt_entries t) \<Longrightarrow> dt_retained_bytes t = charged t + lost \<Longrightarrow>
     dt_retained_bytes (remove_expired rs t) = charged (remove_expired rs t) + lost
     \<and> dt_retained_bytes (remove_expired rs t) \<le> dt_retained_bytes t"
proof (induction rs t rule: remove_expired.induct)
  case (1 t)
  then show ?case by simp
next
  case (2 r rs t)
  show ?case
  proof (cases "hm_get (dt_entries t) r")
    case None
    then have "hm_remove r (dt_entries t) = dt_entries t"
      by (simp add: hm_remove_def hm_get_def delete_id)
    with 2 None show ?thesis by (simp add: charged_def)
  next
    case (Some st)
    have "hm_sum ds_bytes (hm_remove r (dt_entries t)) + ds_bytes st = charged t"
      using hm_sum_remove [OF 2(2) Some] by (simp add: charged_def)
    then show ?thesis
      using 2 Some by (cases st) (fastforce simp: charged_def Let_def)+
  qed
qed

lemma dedup_inv_expire: "dedup_inv lost t \<Longrightarrow> dedup_inv lost (dedup_expire now t)"
proof -
  assume inv: "dedup_inv lost t"
  then have wf: "hm_wf (dt_entries t)" by (simp add: dedup_inv_def)
  have "dt_retained_bytes t = charged t + lost" using inv by (simp add: dedup_inv_def)
  from remove_expired_charged [OF wf this, of "map fst (filter (\<lambda>p. ds_expired now (snd p)) (dt_entries t))"]
  show ?thesis
    using inv dedup_expire_get(1,3) [OF wf, of now]
    by (simp add: dedup_inv_def flip: dedup_expire_def)
qed

lemma dedup_inv_fresh:
  assumes "dedup_inv lost t" "hm_get (dt_entries t) k = None" "ds_bytes st = 0"
    and "hm_len (dt_entries t) < dt_max_entries t"
  shows "dedup_inv lost (t\<lparr>dt_entries := hm_insert k st (dt_entries t)\<rparr>)"
  using assms hm.put_within [of "dt_entries t" "dt_max_entries t" k st]
    hm_sum_insert_fresh [OF assms(2), of ds_bytes st]
  by (simp add: dedup_inv_def charged_def)

lemma dedup_inv_begin: "dedup_inv lost t \<Longrightarrow> dedup_inv lost (fst (fst (dedup_begin r a d now (t, fs))))"
  using dedup_inv_expire [of lost t now] dedup_inv_fresh [of lost "dedup_expire now t" r "DsRunning a d (length fs)"]
  by (simp add: dedup_begin_def Let_def split: option.splits)

lemma dedup_inv_cancel: "dedup_inv lost t \<Longrightarrow> dedup_inv lost (fst (fst (dedup_cancel r a d now (t, fs))))"
  using dedup_inv_expire [of lost t now]
    dedup_inv_fresh [of lost "dedup_expire now t" r "DsCancelled a d (now + dt_ttl t)"]
  by (simp add: dedup_cancel_def Let_def split: option.splits)

lemma dedup_inv_retain:
  assumes inv: "dedup_inv lost t" and get: "hm_get (dt_entries t) (rm_request m) = Some st"
    and bytes: "ds_bytes st = 0" and st: "\<And>a d r n e. st \<noteq> DsCompleted a d r n e"
  shows "dedup_inv lost (retain_response m n now t)"
proof -
  let ?m = "dt_entries t"
  have sum: "hm_sum ds_bytes (hm_insert (rm_request m) v ?m) = charged t + ds_bytes v" for v
    using hm_sum_replace [OF get, of ds_bytes v] bytes by (simp add: charged_def)
  have len: "hm_len (hm_insert (rm_request m) v ?m) \<le> dt_max_entries t" for v
    using inv get hm.replace_within [of ?m "dt_max_entries t" "rm_request m" v] by (simp add: dedup_inv_def)
  show ?thesis
    using inv sum len get unfolding retain_response_def Let_def
    by (cases st) (auto simp: dedup_inv_def charged_def st split: option.splits)
qed

lemma dedup_inv_complete: "dedup_inv lost t \<Longrightarrow> dedup_inv lost (fst (dedup_complete m now t))"
  using dedup_inv_retain [of lost t m]
  by (auto simp: dedup_complete_def split: option.splits dedup_state.splits)

text \<open>What a release takes out of the table without giving its bytes back.\<close>

fun op_lost :: "dedup_op \<Rightarrow> dedup_table \<Rightarrow> usize" where
  "op_lost (OpRelease r a d) t =
     (case hm_get (dt_entries t) r of
        Some st \<Rightarrow> if is_redirect st \<and> ds_identity st = (a, d) then ds_bytes st else 0
      | None \<Rightarrow> 0)"
| "op_lost _ t = 0"

lemma dedup_inv_release:
  "dedup_inv lost t \<Longrightarrow> dedup_inv (lost + op_lost (OpRelease r a d) t) (fst (release_redirect r a d t))"
proof -
  assume inv: "dedup_inv lost t"
  show ?thesis
  proof (cases "hm_get (dt_entries t) r")
    case None
    with inv show ?thesis by (simp add: release_redirect_def)
  next
    case (Some st)
    have wf: "hm_wf (dt_entries t)" using inv by (simp add: dedup_inv_def)
    then have "hm_sum ds_bytes (hm_remove r (dt_entries t)) + ds_bytes st = charged t"
        "hm_len (hm_remove r (dt_entries t)) \<le> dt_max_entries t"
      using hm_sum_remove [OF wf Some, of ds_bytes] hm.remove_within [OF wf] inv
      by (simp_all add: charged_def dedup_inv_def)
    with inv Some show ?thesis
      by (auto simp: release_redirect_def dedup_inv_def charged_def)
  qed
qed

lemma dedup_inv_step:
  "dedup_inv lost t \<Longrightarrow>
     dedup_inv (if op = OpClear then 0 else lost + op_lost op t) (fst (dedup_op_step op (t, fs)))"
proof (cases op)
  case OpClear
  then show "dedup_inv lost t \<Longrightarrow> ?thesis"
    by (simp add: dedup_inv_def dedup_clear_def charged_def hm_len_def)
qed (simp_all add: dedup_inv_begin dedup_inv_cancel dedup_inv_complete dedup_inv_expire
    dedup_inv_release [simplified])

lemma dedup_inv_run:
  "dedup_inv lost t \<Longrightarrow> \<exists>lost'. dedup_inv lost' (fst (dedup_run ops (t, fs)))
     \<and> (OpClear \<notin> set ops \<longrightarrow> lost \<le> lost')
     \<and> ((\<forall>r a d. OpRelease r a d \<notin> set ops) \<longrightarrow> lost' \<le> lost)"
proof (induction ops arbitrary: lost t fs)
  case Nil
  then show ?case by (auto simp: dedup_run_def)
next
  case (Cons op ops)
  obtain t' fs' where s: "dedup_op_step op (t, fs) = (t', fs')" by (cases "dedup_op_step op (t, fs)")
  let ?l = "if op = OpClear then 0 else lost + op_lost op t"
  have "dedup_inv ?l t'"
    using dedup_inv_step [OF Cons.prems, of op fs] s by simp
  then obtain lost' where "dedup_inv lost' (fst (dedup_run ops (t', fs')))"
      "OpClear \<notin> set ops \<longrightarrow> ?l \<le> lost'" "(\<forall>r a d. OpRelease r a d \<notin> set ops) \<longrightarrow> lost' \<le> ?l"
    using Cons.IH by blast
  moreover have "?l \<le> lost" if "\<forall>r a d. OpRelease r a d \<noteq> op"
    using that by (cases op) auto
  ultimately show ?case
    by (intro exI [of _ lost']) (auto simp: dedup_run_def s)
qed

lemma dedup_inv_new [simp]: "dedup_inv 0 (dedup_new me mb ttl)"
  by (simp add: dedup_inv_def dedup_new_def charged_def hm_len_def)

subsection \<open>The table is bounded and exact\<close>

lemma retain_response_frame [simp]:
  "dt_max_entries (retain_response m n now t) = dt_max_entries t"
  "dt_max_bytes (retain_response m n now t) = dt_max_bytes t"
  "dt_ttl (retain_response m n now t) = dt_ttl t"
  by (simp_all add: retain_response_def Let_def split: option.splits dedup_state.splits)

lemma dedup_step_frame:
  "dt_max_entries (fst (dedup_op_step op s)) = dt_max_entries (fst s)
     \<and> dt_max_bytes (fst (dedup_op_step op s)) = dt_max_bytes (fst s)
     \<and> dt_ttl (fst (dedup_op_step op s)) = dt_ttl (fst s)"
  by (cases op; cases s)
    (auto simp: dedup_begin_def dedup_cancel_def dedup_complete_def release_redirect_def
      dedup_clear_def Let_def split: option.splits dedup_state.splits)

lemma dedup_run_frame:
  "dt_max_entries (fst (dedup_run ops s)) = dt_max_entries (fst s)
     \<and> dt_max_bytes (fst (dedup_run ops s)) = dt_max_bytes (fst s)
     \<and> dt_ttl (fst (dedup_run ops s)) = dt_ttl (fst s)"
proof (induction ops arbitrary: s)
  case Nil
  then show ?case by (simp add: dedup_run_def)
next
  case (Cons op ops)
  with dedup_step_frame [of op s] show ?case by (simp add: dedup_run_def)
qed

text \<open>
  C20. Whatever requests, cancellations, completions, releases and expiries a runtime sees, its
  table never holds more than \<open>max_entries\<close> requests nor counts more than \<open>max_bytes\<close> retained
  bytes, and the counter covers the replies it retains; it is exactly their size in every run
  in which no redirect is released.
\<close>

theorem dedup_bounded:
  fixes ops :: "dedup_op list" and me mb ttl :: nat
  defines "t \<equiv> fst (dedup_run ops (dedup_new me mb ttl, []))"
  shows "dedup_len t \<le> me \<and> charged t \<le> dt_retained_bytes t \<and> dt_retained_bytes t \<le> mb
    \<and> ((\<forall>r a d. OpRelease r a d \<notin> set ops) \<longrightarrow> dt_retained_bytes t = charged t)"
proof -
  obtain lost where "dedup_inv lost t" "(\<forall>r a d. OpRelease r a d \<notin> set ops) \<longrightarrow> lost \<le> 0"
    using dedup_inv_run [OF dedup_inv_new] unfolding t_def by blast
  then show ?thesis
    using dedup_run_frame [of ops "(dedup_new me mb ttl, [])"] unfolding t_def
    by (auto simp: dedup_inv_def dedup_len_def dedup_new_def)
qed

theorem dedup_bounded_witness:
  "dt_retained_bytes (fst (dedup_run
      [OpBegin \<lparr>req_origin = 7, req_sequence = 1\<rparr> 9 0 5, OpComplete (demo_request\<lparr>rm_kind := RmSuccess\<rparr>) 6]
      (dedup_new 4 100 50, []))) = 2"
proof -
  let ?ops = "[OpBegin \<lparr>req_origin = 7, req_sequence = 1\<rparr> 9 0 5, OpComplete (demo_request\<lparr>rm_kind := RmSuccess\<rparr>) 6]"
  have "dt_retained_bytes (fst (dedup_run ?ops (dedup_new 4 100 50, [])))
      = charged (fst (dedup_run ?ops (dedup_new 4 100 50, [])))"
    using dedup_bounded [of ?ops 4 100 50] by simp
  also have "\<dots> = 2"
    by (simp add: dedup_run_def dedup_begin_def dedup_complete_def dedup_new_def dedup_expire_def
        hm_insert_def hm_len_def hm_get_def retain_response_def demo_request_def charged_def hm_sum_def
        checked_total_def checked_add_usize_def USIZE_MAX_def Let_def)
  finally show ?thesis .
qed

subsection \<open>Released redirects stay charged\<close>

text \<open>
  A released redirect is never given back: once \<open>release_redirect\<close> has dropped an entry,
  its bytes stay in the counter, whatever expires or completes later, until the whole table is
  cleared at shutdown.
\<close>

theorem released_redirect_stays_charged:
  assumes "t = fst (dedup_run ops0 (dedup_new me mb ttl, []))"
    and "hm_get (dt_entries t) r = Some (DsCompleted a d (Some (RmMoved, payload)) n e)"
    and "OpClear \<notin> set ops"
  shows "hm_get (dt_entries (fst (release_redirect r a d t))) r = None
    \<and> n \<le> dt_retained_bytes (fst (dedup_run ops (fst (release_redirect r a d t), fs)))"
proof -
  obtain lost where inv: "dedup_inv lost t"
    using dedup_inv_run [OF dedup_inv_new] assms(1) by metis
  then have wf: "hm_wf (dt_entries t)" by (simp add: dedup_inv_def)
  have "dedup_inv (lost + n) (fst (release_redirect r a d t))"
    using dedup_inv_release [OF inv, of r a d] assms(2) by (simp add: is_redirect_def)
  then obtain lost' where "dedup_inv lost' (fst (dedup_run ops (fst (release_redirect r a d t), fs)))"
      "lost + n \<le> lost'"
    using dedup_inv_run assms(3) by blast
  then have "n \<le> dt_retained_bytes (fst (dedup_run ops (fst (release_redirect r a d t), fs)))"
    by (simp add: dedup_inv_def)
  moreover have "hm_get (dt_entries (fst (release_redirect r a d t))) r = None"
    using wf assms(2) by (simp add: release_redirect_def is_redirect_def)
  ultimately show ?thesis by blast
qed

lemmas dedup_eval = dedup_run_def dedup_begin_def dedup_complete_def dedup_cancel_def dedup_new_def
  dedup_expire_def release_redirect_def is_redirect_def is_running_def hm_insert_def hm_remove_def
  hm_len_def hm_get_def retain_response_def checked_total_def checked_add_usize_def USIZE_MAX_def Let_def

definition demo_redirect :: rt_message where
  "demo_redirect = dd_reply RmMoved \<lparr>req_origin = 7, req_sequence = 1\<rparr> 9 0 [replicate 32 0, replicate 32 0]"

theorem released_redirect_stays_charged_witness:
  "64 \<le> dt_retained_bytes (fst (dedup_run [OpExpire 1000000] (fst (release_redirect
      \<lparr>req_origin = 7, req_sequence = 1\<rparr> 9 0 (fst (dedup_run
        [OpBegin \<lparr>req_origin = 7, req_sequence = 1\<rparr> 9 0 5, OpComplete demo_redirect 6]
        (dedup_new 4 100 50, [])))), [False])))"
proof -
  let ?r = "\<lparr>req_origin = 7, req_sequence = 1\<rparr> :: request_id"
  let ?ops = "[OpBegin ?r 9 0 5, OpComplete demo_redirect 6]"
  have "hm_get (dt_entries (fst (dedup_run ?ops (dedup_new 4 100 50, [])))) ?r
      = Some (DsCompleted 9 0 (Some (RmMoved, [replicate 32 0, replicate 32 0])) 64 56)"
    by (simp add: dedup_eval demo_redirect_def dd_reply_def)
  from released_redirect_stays_charged [OF refl this] show ?thesis by simp
qed

subsection \<open>At most one execution per request\<close>

fun op_time :: "dedup_op \<Rightarrow> instant option" where
  "op_time (OpBegin r a d now) = Some now"
| "op_time (OpCancel r a d now) = Some now"
| "op_time (OpExpire now) = Some now"
| "op_time (OpComplete m now) = Some now"
| "op_time _ = None"

fun expiry :: "dedup_state \<Rightarrow> instant option" where
  "expiry (DsRunning a d c) = None"
| "expiry (DsCompleted a d r n e) = Some e"
| "expiry (DsCancelled a d e) = Some e"

text \<open>Operations that leave the entry of \<open>r\<close> in the table until time \<open>T\<close>.\<close>

definition keeps :: "request_id \<Rightarrow> instant \<Rightarrow> duration \<Rightarrow> dedup_op \<Rightarrow> bool" where
  "keeps r T ttl op \<longleftrightarrow> (\<forall>now. op_time op = Some now \<longrightarrow> now < T) \<and> op \<noteq> OpClear
     \<and> (\<forall>a d. op \<noteq> OpRelease r a d)
     \<and> (\<forall>m now. op = OpComplete m now \<and> rm_request m = r \<longrightarrow> T \<le> now + ttl)"

definition lasts :: "instant \<Rightarrow> dedup_state \<Rightarrow> bool" where
  "lasts T st \<longleftrightarrow> (\<forall>e. expiry st = Some e \<longrightarrow> T \<le> e)"

lemma lasts_not_expired: "lasts T st \<Longrightarrow> now < T \<Longrightarrow> \<not> ds_expired now st"
  by (cases st) (auto simp: lasts_def)

lemma retain_response_get:
  assumes "hm_wf (dt_entries t)"
  shows "hm_get (dt_entries (retain_response m n now t)) k =
    (if k = rm_request m
     then Some (DsCompleted (rm_action m) (rm_domain m)
       (if dt_retained_bytes t + n \<le> min USIZE_MAX (dt_max_bytes t) then Some (rm_kind m, rm_payload m) else None)
       (if dt_retained_bytes t + n \<le> min USIZE_MAX (dt_max_bytes t) then n else 0) (now + dt_ttl t))
     else hm_get (dt_entries t) k)"
  using assms by (simp add: retain_response_def Let_def checked_add_usize_def split: option.splits dedup_state.splits)

lemma entry_step:
  assumes wf: "hm_wf (dt_entries t)" and get: "hm_get (dt_entries t) r = Some st" and st: "lasts T st"
    and op: "keeps r T (dt_ttl t) op"
  shows "\<exists>st'. hm_get (dt_entries (fst (dedup_op_step op (t, fs)))) r = Some st' \<and> lasts T st'
    \<and> (\<not> is_running st \<and> (\<forall>m now. op = OpComplete m now \<longrightarrow> rm_request m \<noteq> r) \<longrightarrow> st' = st)"
proof (cases op)
  case (OpBegin r' a d now)
  then have "now < T" using op by (simp add: keeps_def)
  with OpBegin wf get lasts_not_expired [OF st] show ?thesis
    using dedup_expire_get [OF wf, of now] st
    by (auto simp: dedup_begin_def Let_def split: option.splits)
next
  case (OpCancel r' a d now)
  then have "now < T" using op by (simp add: keeps_def)
  with OpCancel wf get lasts_not_expired [OF st] show ?thesis
    using dedup_expire_get [OF wf, of now] st
    by (auto simp: dedup_cancel_def Let_def split: option.splits)
next
  case (OpExpire now)
  then have "now < T" using op by (simp add: keeps_def)
  with OpExpire get lasts_not_expired [OF st] show ?thesis
    using dedup_expire_get [OF wf, of now] st by simp
next
  case (OpComplete m now)
  then have "rm_request m = r \<longrightarrow> T \<le> now + dt_ttl t" using op by (simp add: keeps_def)
  with OpComplete get st show ?thesis
    using retain_response_get [OF wf]
    by (auto simp: dedup_complete_def lasts_def split: option.splits dedup_state.splits)
next
  case (OpRelease r' a d)
  then have "r' \<noteq> r" using op by (auto simp: keeps_def)
  with OpRelease wf get st show ?thesis
    by (auto simp: release_redirect_def split: option.splits)
next
  case OpClear
  then show ?thesis using op by (simp add: keeps_def)
qed

lemma wf_step:
  assumes "hm_wf (dt_entries t)"
  shows "hm_wf (dt_entries (fst (dedup_op_step op (t, fs))))"
  using assms dedup_expire_get(1) [OF assms]
  by (cases op) (auto simp: dedup_begin_def dedup_cancel_def dedup_complete_def release_redirect_def
      dedup_clear_def retain_response_def Let_def split: option.splits dedup_state.splits)

lemma entry_run:
  assumes "hm_wf (dt_entries (fst s))" "hm_get (dt_entries (fst s)) r = Some st" "lasts T st"
    and "\<forall>op\<in>set ops. keeps r T (dt_ttl (fst s)) op"
  shows "hm_wf (dt_entries (fst (dedup_run ops s)))
    \<and> (\<exists>st'. hm_get (dt_entries (fst (dedup_run ops s))) r = Some st' \<and> lasts T st')"
  using assms
proof (induction ops arbitrary: s st)
  case Nil
  then show ?case by (auto simp: dedup_run_def)
next
  case (Cons op ops)
  obtain t fs where s: "s = (t, fs)" by (cases s)
  let ?s = "dedup_op_step op s"
  obtain st' where "hm_get (dt_entries (fst ?s)) r = Some st'" "lasts T st'"
    using entry_step [of t r st T op fs] Cons.prems s by auto
  moreover have "hm_wf (dt_entries (fst ?s))" "dt_ttl (fst ?s) = dt_ttl (fst s)"
    using wf_step Cons.prems(1) dedup_step_frame [of op s] s by auto
  ultimately show ?case
    using Cons.IH [of ?s st'] Cons.prems(4) by (simp add: dedup_run_def)
qed

lemma begin_New:
  assumes "hm_wf (dt_entries t)" "dedup_begin r a d now (t, fs) = (s, Ok (DdNew f))"
  shows "hm_wf (dt_entries (fst s)) \<and> hm_get (dt_entries (fst s)) r = Some (DsRunning a d f)
    \<and> dt_ttl (fst s) = dt_ttl t \<and> snd s = fs @ [False] \<and> f = length fs"
proof -
  have "disposition_of r st \<noteq> DdNew f" for st
    by (cases "(r, st)" rule: disposition_of.cases) auto
  then show ?thesis
    using assms dedup_expire_get(1) [OF assms(1), of now]
    by (auto simp: dedup_begin_def Let_def split: option.splits if_splits)
qed

text \<open>
  C18. A request is given to the domain executor at most once: after \<open>begin\<close> answered \<open>New\<close>,
  no \<open>begin\<close> of the same request answers \<open>New\<close> again, whatever other requests, duplicates,
  cancellations and expiries come between, until the time its retained completion expires or
  the entry is dropped by a redirect or by the shutdown.
\<close>

theorem dedup_at_most_once:
  assumes "t = fst (dedup_run ops0 (dedup_new me mb ttl, []))"
    and "dedup_begin r a d now (t, fs) = (s, Ok (DdNew f))"
    and "\<forall>op\<in>set ops. keeps r T (dt_ttl t) op" and "now' < T"
  shows "snd (dedup_begin r a' d' now' (dedup_run ops s)) \<noteq> Ok (DdNew f')"
proof -
  have "hm_wf (dt_entries t)"
    using dedup_inv_run [OF dedup_inv_new] assms(1) by (metis dedup_inv_def)
  from begin_New [OF this assms(2)] obtain st where
      run: "hm_wf (dt_entries (fst (dedup_run ops s)))"
        "hm_get (dt_entries (fst (dedup_run ops s))) r = Some st" "lasts T st"
    using entry_run [of s r "DsRunning a d f" T ops] assms(3) by (auto simp: lasts_def)
  then have "hm_get (dt_entries (dedup_expire now' (fst (dedup_run ops s)))) r = Some st"
    using dedup_expire_get(2) lasts_not_expired [OF run(3) assms(4)] by simp
  moreover have "disposition_of r st \<noteq> DdNew f'"
    by (cases "(r, st)" rule: disposition_of.cases) auto
  ultimately show ?thesis
    by (cases "dedup_run ops s") (auto simp: dedup_begin_def Let_def)
qed

theorem dedup_at_most_once_witness:
  "snd (dedup_begin \<lparr>req_origin = 7, req_sequence = 1\<rparr> 9 0 40
     (dedup_run [OpComplete (demo_request\<lparr>rm_kind := RmSuccess\<rparr>) 6, OpExpire 30]
       (fst (dedup_begin \<lparr>req_origin = 7, req_sequence = 1\<rparr> 9 0 5 (dedup_new 4 100 50, [])))))
   \<noteq> Ok (DdNew 1)"
proof (rule dedup_at_most_once [where T = 50 and ?ops0.0 = "[]" and me = 4 and mb = 100 and ttl = 50
      and t = "dedup_new 4 100 50" and fs = "[]" and f = 0 and now = 5 and a = 9 and d = 0])
  show "dedup_begin \<lparr>req_origin = 7, req_sequence = 1\<rparr> 9 0 5 (dedup_new 4 100 50, [])
      = (fst (dedup_begin \<lparr>req_origin = 7, req_sequence = 1\<rparr> 9 0 5 (dedup_new 4 100 50, [])), Ok (DdNew 0))"
    by (simp add: dedup_eval)
qed (auto simp: dedup_run_def keeps_def dedup_new_def)

subsection \<open>Retained replies\<close>

lemma completed_run:
  assumes "hm_wf (dt_entries (fst s))" "hm_get (dt_entries (fst s)) r = Some st"
    and "st = DsCompleted a d (Some (k, payload)) n e" "k \<noteq> RmMoved"
    and "\<forall>op\<in>set ops. op \<noteq> OpClear \<and> (\<forall>now. op_time op = Some now \<longrightarrow> now < e)"
  shows "hm_wf (dt_entries (fst (dedup_run ops s))) \<and> hm_get (dt_entries (fst (dedup_run ops s))) r = Some st"
  using assms(1,2,5)
proof (induction ops arbitrary: s)
  case Nil
  then show ?case by (simp add: dedup_run_def)
next
  case (Cons op ops)
  obtain t fs where s: "s = (t, fs)" by (cases s)
  have live: "op_time op = Some now \<Longrightarrow> \<not> ds_expired now st" for now
    using Cons.prems(3) assms(3) by (auto simp: not_le)
  have "hm_get (dt_entries (fst (dedup_op_step op s))) r = Some st"
  proof (cases op)
    case (OpComplete m now)
    then show ?thesis
      using Cons.prems s assms(3) retain_response_get [of t m]
      by (auto simp: dedup_complete_def split: option.splits dedup_state.splits)
  next
    case (OpRelease r' a' d')
    then show ?thesis
      using Cons.prems s assms(3,4) by (auto simp: release_redirect_def is_redirect_def split: option.splits)
  qed (use Cons.prems s live dedup_expire_get [of t] in
      \<open>auto simp: dedup_begin_def dedup_cancel_def Let_def split: option.splits\<close>)
  then show ?case
    using Cons.IH [of "dedup_op_step op s"] Cons.prems wf_step [of t op fs] s by (simp add: dedup_run_def)
qed

text \<open>
  A reply that fits the byte budget is retained for the time to live: until then every
  duplicate of the request is answered with that same reply, kind and payload unchanged,
  whatever else the table does short of the shutdown.
\<close>

theorem dedup_replays:
  assumes "t = fst (dedup_run ops0 (dedup_new me mb ttl, []))"
    and "snd (dedup_complete m now t) = Ok ()" "rm_kind m \<noteq> RmMoved"
    and "dt_retained_bytes t + length (concat (rm_payload m)) \<le> min USIZE_MAX (dt_max_bytes t)"
    and "\<forall>op\<in>set ops. op \<noteq> OpClear \<and> (\<forall>x. op_time op = Some x \<longrightarrow> x < now + dt_ttl t)"
    and "now' < now + dt_ttl t"
  shows "snd (dedup_begin (rm_request m) (rm_action m) (rm_domain m) now'
      (dedup_run ops (fst (dedup_complete m now t), fs))) = Ok (DdReplay (m\<lparr>rm_deadline_ms := 0\<rparr>))"
proof -
  let ?t = "fst (dedup_complete m now t)"
  let ?st = "DsCompleted (rm_action m) (rm_domain m) (Some (rm_kind m, rm_payload m))
      (length (concat (rm_payload m))) (now + dt_ttl t)"
  have wf: "hm_wf (dt_entries t)"
    using dedup_inv_run [OF dedup_inv_new] assms(1) by (metis dedup_inv_def)
  have total: "checked_total (rm_payload m) = Some (length (concat (rm_payload m)))"
    using assms(4) by (simp add: checked_total_Some)
  have "?t = retain_response m (length (concat (rm_payload m))) now t"
    using assms(2) total by (auto simp: dedup_complete_def split: option.splits dedup_state.splits if_splits)
  then have "hm_get (dt_entries ?t) (rm_request m) = Some ?st"
    using retain_response_get [OF wf] assms(4) by simp
  moreover have "hm_wf (dt_entries ?t)"
    using wf_step [OF wf, of "OpComplete m now" fs] by simp
  ultimately have run: "hm_wf (dt_entries (fst (dedup_run ops (?t, fs))))"
      "hm_get (dt_entries (fst (dedup_run ops (?t, fs)))) (rm_request m) = Some ?st"
    using completed_run [of "(?t, fs)" "rm_request m" ?st] assms(3,5) by auto
  then have "hm_get (dt_entries (dedup_expire now' (fst (dedup_run ops (?t, fs))))) (rm_request m) = Some ?st"
    using dedup_expire_get(2) assms(6) by simp
  then show ?thesis
    using assms(3) by (cases "dedup_run ops (?t, fs)") (auto simp: dedup_begin_def Let_def dd_reply_def)
qed

theorem dedup_replays_witness:
  "snd (dedup_begin \<lparr>req_origin = 7, req_sequence = 1\<rparr> 9 0 40 (dedup_run [OpExpire 30]
      (fst (dedup_complete (demo_request\<lparr>rm_kind := RmSuccess\<rparr>) 6
        (fst (dedup_run [OpBegin \<lparr>req_origin = 7, req_sequence = 1\<rparr> 9 0 5] (dedup_new 4 100 50, [])))), [False])))
   = Ok (DdReplay (demo_request\<lparr>rm_kind := RmSuccess, rm_deadline_ms := 0\<rparr>))"
  using dedup_replays [OF refl, of "demo_request\<lparr>rm_kind := RmSuccess\<rparr>" 6
      "[OpBegin \<lparr>req_origin = 7, req_sequence = 1\<rparr> 9 0 5]" 4 100 50 "[OpExpire 30]" 40 "[False]"]
  by (simp add: dedup_eval demo_request_def)

subsection \<open>Cancellation\<close>

text \<open>Every running request has a flag of its own.\<close>

definition flags_ok :: "dedup_table \<times> flags \<Rightarrow> bool" where
  "flags_ok s \<longleftrightarrow> hm_wf (dt_entries (fst s)) \<and>
     (\<forall>r a d c. hm_get (dt_entries (fst s)) r = Some (DsRunning a d c) \<longrightarrow> c < length (snd s)
       \<and> (\<forall>r' a' d'. hm_get (dt_entries (fst s)) r' = Some (DsRunning a' d' c) \<longrightarrow> r' = r))"

text \<open>An operation leaves a running entry alone, or adds one with the next flag.\<close>

lemma running_step:
  assumes "hm_wf (dt_entries t)"
    and "hm_get (dt_entries (fst (dedup_op_step op (t, fs)))) r = Some (DsRunning a d c)"
  shows "(hm_get (dt_entries t) r = Some (DsRunning a d c)
      \<or> (\<exists>now. op = OpBegin r a d now \<and> c = length fs \<and> snd (dedup_op_step op (t, fs)) = fs @ [False]))
    \<and> length fs \<le> length (snd (dedup_op_step op (t, fs)))"
  using assms dedup_expire_get [OF assms(1)] retain_response_get [OF assms(1)]
  by (cases op) (auto simp: dedup_begin_def dedup_cancel_def dedup_complete_def release_redirect_def
      dedup_clear_def Let_def split: option.splits dedup_state.splits if_splits)

lemma flags_ok_step: "flags_ok s \<Longrightarrow> flags_ok (dedup_op_step op s)"
proof -
  assume ok: "flags_ok s"
  obtain t fs where s: "s = (t, fs)" by (cases s)
  have wf: "hm_wf (dt_entries t)" using ok s by (simp add: flags_ok_def)
  have old: "hm_get (dt_entries t) r = Some (DsRunning a d c) \<Longrightarrow> c < length fs
      \<and> (hm_get (dt_entries t) r' = Some (DsRunning a' d' c) \<longrightarrow> r' = r)" for r r' a a' d d' c
    using ok s unfolding flags_ok_def by auto
  show ?thesis
    unfolding flags_ok_def s
  proof (intro conjI allI impI)
    show "hm_wf (dt_entries (fst (dedup_op_step op (t, fs))))" by (rule wf_step [OF wf])
  next
    fix r a d c
    assume *: "hm_get (dt_entries (fst (dedup_op_step op (t, fs)))) r = Some (DsRunning a d c)"
    then show "c < length (snd (dedup_op_step op (t, fs)))"
      using running_step [OF wf *] old by fastforce
    fix r' a' d'
    assume **: "hm_get (dt_entries (fst (dedup_op_step op (t, fs)))) r' = Some (DsRunning a' d' c)"
    show "r' = r"
      using running_step [OF wf **] running_step [OF wf *] old
      by (metis dedup_op.inject(1) less_irrefl)
  qed
qed

lemma flags_ok_run: "flags_ok s \<Longrightarrow> flags_ok (dedup_run ops s)"
  by (induction ops arbitrary: s) (simp_all add: dedup_run_def flags_ok_step)

lemma flags_ok_new [simp]: "flags_ok (dedup_new me mb ttl, [])"
  by (simp add: flags_ok_def dedup_new_def)

text \<open>
  Cancelling a running request raises the flag its job was given and the flag of no other
  running request; cancelling a request that has not arrived makes its later arrival answer
  \<open>Cancelled\<close> instead of running it, provided the table had room for the note.
\<close>

theorem dedup_cancel_reaches_job:
  assumes "s = dedup_run ops (dedup_new me mb ttl, [])"
    and "dedup_cancel r a d now s = ((t', fs'), Ok ())"
  shows "(\<forall>c. hm_get (dt_entries (fst s)) r = Some (DsRunning a d c) \<longrightarrow> fs' ! c)
    \<and> (\<forall>r' a' d' c. hm_get (dt_entries (fst s)) r' = Some (DsRunning a' d' c) \<and> r' \<noteq> r
         \<longrightarrow> fs' ! c = snd s ! c)
    \<and> (hm_get (dt_entries (dedup_expire now (fst s))) r = None \<and> dedup_len (fst s) < me \<and> now' < now + ttl
         \<longrightarrow> snd (dedup_begin r a d now' (t', fs')) = Ok (DdCancelled (dd_reply RmCancelled r a d [])))"
proof -
  obtain t fs where s: "s = (t, fs)" by (cases s)
  have ok: "flags_ok (t, fs)"
    using flags_ok_run [OF flags_ok_new] assms(1) s by metis
  then have wf: "hm_wf (dt_entries t)" by (simp add: flags_ok_def)
  have limits: "dt_max_entries t = me" "dt_ttl t = ttl"
    using dedup_run_frame [of ops "(dedup_new me mb ttl, [])"] unfolding assms(1) [symmetric] s
    by (simp_all add: dedup_new_def)
  note exp = dedup_expire_get [OF wf, of now]
  have run: "hm_get (dt_entries t) x = Some (DsRunning y z c) \<Longrightarrow>
      c < length fs \<and> (\<forall>x' y' z'. hm_get (dt_entries t) x' = Some (DsRunning y' z' c) \<longrightarrow> x' = x)" for x y z c
    using ok by (auto simp: flags_ok_def)
  have 1: "fs' ! c" if "hm_get (dt_entries t) r = Some (DsRunning a d c)" for c
  proof -
    have "hm_get (dt_entries (dedup_expire now t)) r = Some (DsRunning a d c)"
      using that by (simp add: exp(2))
    then show ?thesis
      using assms(2) s run [OF that] by (auto simp: dedup_cancel_def Let_def)
  qed
  have "fs' = fs \<or> (\<exists>c0. hm_get (dt_entries t) r = Some (DsRunning a d c0) \<and> fs' = fs[c0 := True])"
  proof (cases "hm_get (dt_entries (dedup_expire now t)) r")
    case None
    then show ?thesis using assms(2) s by (simp add: dedup_cancel_def Let_def split: if_splits)
  next
    case (Some st)
    then have "hm_get (dt_entries t) r = Some st"
      using exp(2) [of r] by (cases "hm_get (dt_entries t) r") (simp_all split: if_splits)
    with Some show ?thesis
      using assms(2) s by (cases st) (simp_all add: dedup_cancel_def Let_def split: if_splits)
  qed
  then have 2: "fs' ! c = fs ! c" if "hm_get (dt_entries t) r' = Some (DsRunning a' d' c)" "r' \<noteq> r" for r' a' d' c
    using that run [OF that(1)] by (metis nth_list_update_neq)
  have 3: "snd (dedup_begin r a d now' (t', fs')) = Ok (DdCancelled (dd_reply RmCancelled r a d []))"
    if "hm_get (dt_entries (dedup_expire now t)) r = None" "dedup_len t < me" "now' < now + ttl"
  proof -
    have "hm_len (dt_entries (dedup_expire now t)) < me"
      using exp(3) that(2) by (simp add: dedup_len_def)
    then have t': "t' = (dedup_expire now t)\<lparr>dt_entries :=
        hm_insert r (DsCancelled a d (now + ttl)) (dt_entries (dedup_expire now t))\<rparr>"
      using assms(2) s that limits by (simp add: dedup_cancel_def Let_def)
    then have "hm_wf (dt_entries t')" "hm_get (dt_entries t') r = Some (DsCancelled a d (now + ttl))"
      using exp(1) by simp_all
    then have "hm_get (dt_entries (dedup_expire now' t')) r = Some (DsCancelled a d (now + ttl))"
      using dedup_expire_get(2) [of t'] that(3) by simp
    then show ?thesis by (simp add: dedup_begin_def Let_def)
  qed
  show ?thesis using 1 2 3 s by auto
qed

theorem dedup_cancel_reaches_job_witness:
  "snd (fst (dedup_cancel \<lparr>req_origin = 7, req_sequence = 1\<rparr> 9 0 6 (dedup_run
      [OpBegin \<lparr>req_origin = 7, req_sequence = 1\<rparr> 9 0 5] (dedup_new 4 100 50, [])))) ! 0"
proof -
  let ?s = "dedup_run [OpBegin \<lparr>req_origin = 7, req_sequence = 1\<rparr> 9 0 5] (dedup_new 4 100 50, [])"
  let ?c = "dedup_cancel \<lparr>req_origin = 7, req_sequence = 1\<rparr> 9 0 6 ?s"
  have "?c = ((fst (fst ?c), snd (fst ?c)), Ok ())"
    by (simp add: dedup_eval)
  from dedup_cancel_reaches_job [OF refl this] show ?thesis
    by (simp add: dedup_eval)
qed

end
