(* ===== verification/Pending.thy ===== *)
theory Pending
  imports Actions Dedup
begin

text \<open>
  Promises, the table of pending calls and the future a caller holds
  (\<open>crates/hataori-runtime/src/pending.rs\<close>). A promise lives in a store and is shared by the
  table and the future, which refer to it by its address; a waker is a number, and waking it is
  visible in what \<open>promise_complete\<close> returns. The mutex of a promise makes each of its
  operations one step.
\<close>

type_synonym waker = nat
type_synonym 'v outcome = "(runtime_error, 'v action_value) result"

datatype 'a poll = Ready 'a | PollPending

record 'v promise =
  pr_result :: "'v outcome option"
  pr_waker :: "waker option"
  pr_done :: bool

definition promise_new :: "'v promise" where
  "promise_new = \<lparr>pr_result = None, pr_waker = None, pr_done = False\<rparr>"

text \<open>The waker returned is the one that is woken.\<close>

definition promise_complete :: "'v outcome \<Rightarrow> 'v promise \<Rightarrow> 'v promise \<times> waker option" where
  "promise_complete r p =
     (if pr_result p = None \<and> \<not> pr_done p
      then (p\<lparr>pr_result := Some r, pr_done := True, pr_waker := None\<rparr>, pr_waker p)
      else (p, None))"

definition promise_poll :: "waker \<Rightarrow> 'v promise \<Rightarrow> 'v promise \<times> 'v outcome poll" where
  "promise_poll w p =
     (case pr_result p of
        Some r \<Rightarrow> (p\<lparr>pr_result := None\<rparr>, Ready r)
      | None \<Rightarrow> (p\<lparr>pr_waker := Some w\<rparr>, PollPending))"

definition promise_done :: "'v promise \<Rightarrow> bool" where
  "promise_done p = pr_done p"

subsection \<open>The table of pending calls\<close>

type_synonym promise_addr = nat

record pending_entry =
  pe_promise :: promise_addr
  pe_destination :: locality_id
  pe_action :: action_id
  pe_domain :: domain_id
  pe_trace_id :: "trace_id option"
  pe_expires_at :: instant
  pe_deadline :: duration
  pe_cancel_token :: "flag option"

record pending_table =
  pt_entries :: "(request_id, pending_entry) hmap"
  pt_limit :: usize

definition pending_new :: "usize \<Rightarrow> pending_table" where
  "pending_new limit = \<lparr>pt_entries = [], pt_limit = limit\<rparr>"

definition pending_insert ::
  "request_id \<Rightarrow> pending_entry \<Rightarrow> pending_table \<Rightarrow> pending_table \<times> (runtime_error, unit) result"
where
  "pending_insert request entry t =
     (if pt_limit t \<le> hm_len (pt_entries t)
      then (t, Err (ReResourceExhausted RkPendingCalls (pt_limit t)))
      else (t\<lparr>pt_entries := hm_insert request entry (pt_entries t)\<rparr>, Ok ()))"

definition take_checked ::
  "request_id \<Rightarrow> locality_id \<Rightarrow> action_id \<Rightarrow> pending_table
     \<Rightarrow> pending_table \<times> (runtime_error, pending_entry option) result"
where
  "take_checked request source a t =
     (case hm_get (pt_entries t) request of
        None \<Rightarrow> (t, Ok None)
      | Some entry \<Rightarrow>
          if pe_destination entry \<noteq> source \<or> pe_action entry \<noteq> a
          then (t, Err (ReProtocol (lit ''result source or action does not match pending request'')))
          else (t\<lparr>pt_entries := hm_remove request (pt_entries t)\<rparr>, Ok (Some entry)))"

definition pending_remove :: "request_id \<Rightarrow> pending_table \<Rightarrow> pending_table \<times> pending_entry option" where
  "pending_remove request t =
     (t\<lparr>pt_entries := hm_remove request (pt_entries t)\<rparr>, hm_get (pt_entries t) request)"

fun remove_all :: "request_id list \<Rightarrow> pending_table \<Rightarrow> pending_table \<times> (request_id \<times> pending_entry) list" where
  "remove_all [] t = (t, [])"
| "remove_all (r # rs) t =
     (case pending_remove r t of
        (t1, found) \<Rightarrow>
          (case remove_all rs t1 of
             (t2, out) \<Rightarrow> (t2, (case found of None \<Rightarrow> out | Some e \<Rightarrow> (r, e) # out))))"

definition pending_expired ::
  "instant \<Rightarrow> pending_table \<Rightarrow> pending_table \<times> (request_id \<times> pending_entry) list"
where
  "pending_expired now t =
     remove_all (map fst (filter (\<lambda>p. pe_expires_at (snd p) \<le> now) (pt_entries t))) t"

definition pending_drain :: "pending_table \<Rightarrow> pending_table \<times> (request_id \<times> pending_entry) list" where
  "pending_drain t = (t\<lparr>pt_entries := []\<rparr>, pt_entries t)"

definition pending_len :: "pending_table \<Rightarrow> usize" where
  "pending_len t = hm_len (pt_entries t)"

subsection \<open>The future of a call\<close>

record remote_future =
  rf_request :: request_id
  rf_promise :: promise_addr
  rf_finished :: bool

definition remote_future_new :: "request_id \<Rightarrow> promise_addr \<Rightarrow> remote_future" where
  "remote_future_new request p = \<lparr>rf_request = request, rf_promise = p, rf_finished = False\<rparr>"

text \<open>
  Polling, with the decoding of the output type, its \<open>downcast\<close>, and the text of an action error
  as arguments. Polling a finished future panics.
\<close>

definition future_poll ::
  "(segments \<Rightarrow> (action_error, 't) result) \<Rightarrow> ('v \<Rightarrow> 't option) \<Rightarrow> (action_error \<Rightarrow> bytes) \<Rightarrow> waker
     \<Rightarrow> remote_future \<times> 'v promise
     \<Rightarrow> (remote_future \<times> 'v promise) \<times> (unit fault, (runtime_error, 't) result poll) result"
where
  "future_poll dec downcast show w = (\<lambda>(f, p).
     (if rf_finished f then ((f, p), Err Panic)
      else (case promise_poll w p of
        (p', Ready (Inr (AvEncoded ss))) \<Rightarrow>
          ((f\<lparr>rf_finished := True\<rparr>, p'), Ok (Ready (res_map_err
             (\<lambda>e. ReProtocol (lit ''action output decode failed: '' @ show e)) (dec ss))))
      | (p', Ready (Inr (AvTyped v))) \<Rightarrow>
          ((f\<lparr>rf_finished := True\<rparr>, p'), Ok (Ready
             (ok_or (downcast v) (ReProtocol (lit ''typed action output mismatch'')))))
      | (p', Ready (Inl e)) \<Rightarrow> ((f\<lparr>rf_finished := True\<rparr>, p'), Ok (Ready (Err e)))
      | (p', PollPending) \<Rightarrow> ((f, p'), Ok PollPending))))"

text \<open>Whether dropping the future calls the cancel callback with its request.\<close>

definition future_drop :: "remote_future \<Rightarrow> 'v promise \<Rightarrow> bool" where
  "future_drop f p \<longleftrightarrow> \<not> rf_finished f \<and> \<not> promise_done p"

subsection \<open>A promise delivers its first result once\<close>

datatype 'v promise_op = PComplete "'v outcome" | PPoll waker

datatype 'v promise_event = PWoken waker | PReady "'v outcome"

fun promise_do :: "'v promise_op \<Rightarrow> 'v promise \<Rightarrow> 'v promise \<times> 'v promise_event list" where
  "promise_do (PComplete r) p =
     (case promise_complete r p of (p', w) \<Rightarrow> (p', case w of None \<Rightarrow> [] | Some w \<Rightarrow> [PWoken w]))"
| "promise_do (PPoll w) p =
     (case promise_poll w p of (p', r) \<Rightarrow> (p', case r of Ready r \<Rightarrow> [PReady r] | PollPending \<Rightarrow> []))"

fun promise_run :: "'v promise_op list \<Rightarrow> 'v promise \<Rightarrow> 'v promise \<times> 'v promise_event list" where
  "promise_run [] p = (p, [])"
| "promise_run (op # ops) p =
     (case promise_do op p of (p', ev) \<Rightarrow> (case promise_run ops p' of (p'', evs) \<Rightarrow> (p'', ev @ evs)))"

lemma promise_run_append:
  "promise_run (xs @ ys) p =
     (let (p1, e1) = promise_run xs p; (p2, e2) = promise_run ys p1 in (p2, e1 @ e2))"
  by (induction xs arbitrary: p) (simp_all add: split_beta Let_def)

definition is_poll :: "'v promise_op \<Rightarrow> bool" where
  "is_poll op = (case op of PPoll w \<Rightarrow> True | PComplete r \<Rightarrow> False)"

lemma run_polls:
  assumes "list_all is_poll ops"
  shows "promise_run ops \<lparr>pr_result = None, pr_waker = w, pr_done = d\<rparr>
    = (\<lparr>pr_result = None, pr_waker = (if ops = [] then w
         else (case last ops of PPoll x \<Rightarrow> Some x | PComplete r \<Rightarrow> None)), pr_done = d\<rparr>, [])"
  using assms
proof (induction ops arbitrary: w)
  case (Cons op ops)
  then obtain x where "op = PPoll x" by (cases op) (auto simp: is_poll_def)
  with Cons show ?case by (simp add: promise_poll_def)
qed simp

lemma run_done:
  "pr_done p \<Longrightarrow> pr_result p = None \<Longrightarrow> snd (promise_run ops p) = []"
proof (induction ops arbitrary: p)
  case (Cons op ops)
  then show ?case
    by (cases op) (simp_all add: promise_complete_def promise_poll_def split_beta)
qed simp

lemma run_completed:
  "pr_done p \<Longrightarrow> pr_result p = Some r \<Longrightarrow>
     snd (promise_run ops p) = (if \<exists>op\<in>set ops. is_poll op then [PReady r] else [])"
proof (induction ops arbitrary: p)
  case (Cons op ops)
  show ?case
  proof (cases op)
    case (PComplete r')
    with Cons show ?thesis by (simp add: promise_complete_def split_beta is_poll_def)
  next
    case (PPoll w)
    with Cons.prems run_done [of "p\<lparr>pr_result := None\<rparr>" ops] show ?thesis
      by (simp add: promise_poll_def split_beta is_poll_def)
  qed
qed simp

text \<open>
  However completions and polls of a promise interleave, its first result is delivered by
  the first poll after it and by no other, later results are dropped, and the waker left by the
  last poll before that completion is woken: no result is lost, doubled or left unannounced.
\<close>

theorem promise_delivers_first_once:
  assumes "list_all is_poll polls"
  shows "snd (promise_run (polls @ PComplete r # rest) promise_new) =
    (if polls = [] then [] else (case last polls of PPoll w \<Rightarrow> [PWoken w] | PComplete _ \<Rightarrow> []))
    @ (if \<exists>op\<in>set rest. is_poll op then [PReady r] else [])"
proof -
  let ?w = "if polls = [] then None else (case last polls of PPoll x \<Rightarrow> Some x | PComplete r \<Rightarrow> None)"
  have "promise_run polls promise_new = (\<lparr>pr_result = None, pr_waker = ?w, pr_done = False\<rparr>, [])"
    unfolding promise_new_def by (rule run_polls [OF assms])
  then have "snd (promise_run (polls @ PComplete r # rest) promise_new) =
      (case ?w of None \<Rightarrow> [] | Some w \<Rightarrow> [PWoken w])
      @ snd (promise_run rest \<lparr>pr_result = Some r, pr_waker = None, pr_done = True\<rparr>)"
    by (simp add: promise_run_append Let_def promise_complete_def split_beta)
  also have "snd (promise_run rest \<lparr>pr_result = Some r, pr_waker = None, pr_done = True\<rparr>)
      = (if \<exists>op\<in>set rest. is_poll op then [PReady r] else [])"
    by (rule run_completed) simp_all
  finally show ?thesis
    by (simp split: promise_op.splits)
qed

theorem promise_delivers_first_once_witness:
  "snd (promise_run [PPoll 3, PComplete (Ok (AvEncoded [])), PComplete (Err ReShutdown), PPoll 3, PPoll 3]
      (promise_new :: unit promise)) = [PWoken 3, PReady (Ok (AvEncoded []))]"
  using promise_delivers_first_once [of "[PPoll 3]" "Ok (AvEncoded [])"
      "[PComplete (Err ReShutdown), PPoll 3, PPoll 3]"]
  by (simp add: is_poll_def)

end
