(* ===== verification/Calls.thy ===== *)
theory Calls
  imports Pending
begin

text \<open>
  The caller's side of a runtime (\<open>Shared\<close>, \<open>RuntimeClient\<close> and the reply handling of
  \<open>crates/hataori-runtime/src/runtime.rs\<close>): issuing a request, the replies, failures, deadlines
  and cancellations that end it, and the shutdown.

  The transport is any \<open>TransportHandle\<close>: its \<open>try_send\<close> is a field of the environment, with
  the state it keeps; the texts of \<open>Display\<close> implementations and the largest \<open>Instant\<close> are fields
  of it too. The work gate and the mutexes of the table and of the promises make each operation
  below one step. Atomic counters wrap as \<open>fetch_add\<close> does.
\<close>

record runtime_limits =
  rl_max_pending_calls :: usize
  rl_max_domains :: usize
  rl_max_workers_per_domain :: usize
  rl_max_action_queue_per_domain :: usize
  rl_max_dedup_entries :: usize
  rl_max_dedup_bytes :: usize
  rl_max_progress_events :: usize
  rl_default_deadline :: duration
  rl_dedup_ttl :: duration
  rl_shutdown_timeout :: duration

definition runtime_limits_default :: runtime_limits where
  "runtime_limits_default = \<lparr>rl_max_pending_calls = 1024, rl_max_domains = 16,
     rl_max_workers_per_domain = 64, rl_max_action_queue_per_domain = 256, rl_max_dedup_entries = 1024,
     rl_max_dedup_bytes = 16 * 1024 * 1024, rl_max_progress_events = 256,
     rl_default_deadline = 30 * 10 ^ 9, rl_dedup_ttl = 60 * 10 ^ 9, rl_shutdown_timeout = 10 * 10 ^ 9\<rparr>"

definition runtime_limits_validate :: "runtime_limits \<Rightarrow> (runtime_error, runtime_limits) result" where
  "runtime_limits_validate l =
     (if rl_max_pending_calls l = 0 \<or> rl_max_domains l = 0 \<or> rl_max_workers_per_domain l = 0
         \<or> rl_max_action_queue_per_domain l = 0 \<or> rl_max_dedup_entries l = 0 \<or> rl_max_dedup_bytes l = 0
         \<or> rl_max_progress_events l = 0 \<or> rl_default_deadline l = 0 \<or> rl_dedup_ttl l = 0
         \<or> rl_shutdown_timeout l = 0
      then Err (ReInvalidLimits ''runtime limits and durations must be nonzero'') else Ok l)"

record place =
  pl_locality :: locality_id
  pl_domain :: domain_id

record spawn_options =
  so_deadline :: duration
  so_trace_id :: "trace_id option"

datatype ticket_purpose = TpRequest request_id | TpRequiredResponse | TpBestEffort

record 'v local_request =
  lq_message :: rt_message
  lq_input :: "'v action_value"
  lq_cancel_token :: flag
  lq_trace_id :: "trace_id option"

record 'n env =
  env_try_send :: "parcel \<Rightarrow> 'n \<Rightarrow> 'n \<times> (transport_error, send_ticket) result"
  env_protocol_text :: "protocol_error \<Rightarrow> bytes"
  env_action_text :: "action_error \<Rightarrow> bytes"
  env_instant_max :: instant

record ('v, 'n) shared =
  sh_state :: runtime_state
  sh_local_id :: locality_id
  sh_run_id :: run_id
  sh_limits :: runtime_limits
  sh_protocol_limits :: protocol_limits
  sh_net :: 'n
  sh_registry :: "'v action_registry"
  sh_pending :: pending_table
  sh_promises :: "'v promise list"
  sh_flags :: flags
  sh_local_queue :: "'v local_request list"
  sh_local_open :: bool
  sh_next_request :: u64
  sh_next_object :: u64
  sh_next_message :: u64
  sh_tickets :: "(send_ticket, ticket_purpose) hmap"
  sh_completed :: u64
  sh_cancelled :: u64
  sh_timed_out :: u64
  sh_late_results :: u64
  sh_sent :: "channel \<Rightarrow> u64"

subsection \<open>Identities and sending\<close>

definition ensure_running :: "('v, 'n) shared \<Rightarrow> (runtime_error, unit) result" where
  "ensure_running s =
     (if sh_state s = StRunning then Ok ()
      else if sh_state s = StDraining \<or> sh_state s = StStopped then Err ReShutdown
      else Err (ReInvalidState StRunning (sh_state s)))"

text \<open>\<open>fetch_update\<close> with \<open>checked_add(1)\<close>: the old value, and the counter one further.\<close>

definition fetch_next :: "u64 \<Rightarrow> (u64 \<times> u64) option" where
  "fetch_next v = (if v = - 1 then None else Some (v, v + 1))"

definition next_request :: "('v, 'n) shared \<Rightarrow> ('v, 'n) shared \<times> (runtime_error, request_id) result" where
  "next_request s =
     (case fetch_next (sh_next_request s) of
        None \<Rightarrow> (s, Err (ReResourceExhausted RkPendingCalls (rl_max_pending_calls (sh_limits s))))
      | Some (seq, v) \<Rightarrow> (s\<lparr>sh_next_request := v\<rparr>,
          res_map_err (\<lambda>_. ReProtocol (lit ''request id overflow'')) (request_id_new (sh_local_id s) seq)))"

definition next_object :: "usize \<Rightarrow> ('v, 'n) shared \<Rightarrow> ('v, 'n) shared \<times> (runtime_error, object_id) result" where
  "next_object max_objects s =
     (case fetch_next (sh_next_object s) of
        None \<Rightarrow> (s, Err (ReResourceExhausted RkObjects max_objects))
      | Some (seq, v) \<Rightarrow> (s\<lparr>sh_next_object := v\<rparr>,
          res_map_err (\<lambda>_. ReProtocol (lit ''object id overflow''))
            (object_id_new (sh_run_id s) (push_bit 64 (ucast (sh_local_id s)) OR ucast seq))))"

definition next_message :: "('v, 'n) shared \<Rightarrow> ('v, 'n) shared \<times> (runtime_error, message_id) result" where
  "next_message s =
     (case fetch_next (sh_next_message s) of
        None \<Rightarrow> (s, Err (ReProtocol (lit ''message id overflow'')))
      | Some (v, v') \<Rightarrow> (s\<lparr>sh_next_message := v'\<rparr>,
          res_map_err (\<lambda>_. ReProtocol (lit ''zero message id'')) (nonzero_u128_id ''MessageId'' (ucast v))))"

definition ticket_limit :: "runtime_limits \<Rightarrow> channel \<Rightarrow> usize" where
  "ticket_limit l c =
     (let action_limit = saturating_add_usize
            (saturating_add_usize (rl_max_pending_calls l) (rl_max_dedup_entries l))
            (rl_max_action_queue_per_domain l);
          total_limit = saturating_add_usize action_limit (rl_max_pending_calls l)
      in if c = ChControl then total_limit else action_limit)"

definition send_parcel ::
  "rt_message \<Rightarrow> locality_id \<Rightarrow> trace_id option \<Rightarrow> message_id \<Rightarrow> ('v, 'n) shared \<Rightarrow> parcel"
where
  "send_parcel m destination trace k s =
     (let c = (if rm_kind m = RmCancel then ChControl else ChAction) in
      \<lparr>p_run_id = sh_run_id s, p_message_id = k, p_channel = c,
       p_kind = (if c = ChControl then PkControl else PkData), p_source = sh_local_id s,
       p_destination = destination, p_trace_id = trace, p_segments = rt_encode m\<rparr>)"

definition sh_send ::
  "'n env \<Rightarrow> locality_id \<Rightarrow> rt_message \<Rightarrow> ticket_purpose \<Rightarrow> trace_id option \<Rightarrow> ('v, 'n) shared
     \<Rightarrow> ('v, 'n) shared \<times> (runtime_error, send_ticket) result"
where
  "sh_send env destination m purpose trace s0 =
     (case next_message s0 of
        (s, Inl e) \<Rightarrow> (s, Err e)
      | (s, Inr k) \<Rightarrow>
          (let p = send_parcel m destination trace k s;
               limit = ticket_limit (sh_limits s) (p_channel p) in
           case parcel_validate p (sh_protocol_limits s) of
             Inl e \<Rightarrow> (s, Err (ReProtocol (lit ''runtime parcel exceeds limits: '' @ env_protocol_text env e)))
           | Inr _ \<Rightarrow>
               if limit \<le> hm_len (sh_tickets s) then (s, Err (ReResourceExhausted RkSendTickets limit))
               else (case env_try_send env p (sh_net s) of
                   (net, Inl e) \<Rightarrow> (s\<lparr>sh_net := net\<rparr>, Err (ReTransport e))
                 | (net, Inr ticket) \<Rightarrow>
                     (s\<lparr>sh_net := net, sh_tickets := hm_insert ticket purpose (sh_tickets s),
                        sh_sent := (sh_sent s)(p_channel p := sh_sent s (p_channel p) + 1)\<rparr>, Ok ticket))))"

subsection \<open>Ending a call\<close>

definition complete_promise :: "promise_addr \<Rightarrow> 'v outcome \<Rightarrow> ('v, 'n) shared \<Rightarrow> ('v, 'n) shared" where
  "complete_promise a r s =
     s\<lparr>sh_promises := (sh_promises s)[a := fst (promise_complete r (sh_promises s ! a))]\<rparr>"

definition raise_token :: "flag option \<Rightarrow> ('v, 'n) shared \<Rightarrow> ('v, 'n) shared" where
  "raise_token token s = (case token of None \<Rightarrow> s | Some c \<Rightarrow> s\<lparr>sh_flags := (sh_flags s)[c := True]\<rparr>)"

definition cancel_message :: "request_id \<Rightarrow> pending_entry \<Rightarrow> rt_message" where
  "cancel_message request e = \<lparr>rm_kind = RmCancel, rm_request = request, rm_action = pe_action e,
     rm_domain = pe_domain e, rm_deadline_ms = 0, rm_payload = []\<rparr>"

text \<open>The best-effort cancellation sent to a remote destination; its result is ignored.\<close>

definition send_cancel :: "'n env \<Rightarrow> request_id \<Rightarrow> pending_entry \<Rightarrow> ('v, 'n) shared \<Rightarrow> ('v, 'n) shared" where
  "send_cancel env request e s =
     (if pe_destination e \<noteq> sh_local_id s
      then fst (sh_send env (pe_destination e) (cancel_message request e) TpBestEffort (pe_trace_id e) s)
      else s)"

definition sh_cancel :: "'n env \<Rightarrow> request_id \<Rightarrow> ('v, 'n) shared \<Rightarrow> ('v, 'n) shared" where
  "sh_cancel env request s =
     (case pending_remove request (sh_pending s) of
        (t, None) \<Rightarrow> s
      | (t, Some e) \<Rightarrow>
          send_cancel env request e (raise_token (pe_cancel_token e)
            (s\<lparr>sh_pending := t, sh_cancelled := sh_cancelled s + 1\<rparr>)))"

fun expire_entries :: "'n env \<Rightarrow> (request_id \<times> pending_entry) list \<Rightarrow> ('v, 'n) shared \<Rightarrow> ('v, 'n) shared" where
  "expire_entries env [] s = s"
| "expire_entries env ((request, e) # es) s =
     (let s1 = complete_promise (pe_promise e) (Err (ReDeadlineExceeded request (pe_deadline e))) s;
          s2 = raise_token (pe_cancel_token e) (s1\<lparr>sh_timed_out := sh_timed_out s1 + 1\<rparr>)
      in expire_entries env es (send_cancel env request e s2))"

definition expire_pending :: "'n env \<Rightarrow> instant \<Rightarrow> ('v, 'n) shared \<Rightarrow> ('v, 'n) shared" where
  "expire_pending env now s =
     (case pending_expired now (sh_pending s) of (t, es) \<Rightarrow> expire_entries env es (s\<lparr>sh_pending := t\<rparr>))"

fun fail_entries :: "runtime_error \<Rightarrow> (request_id \<times> pending_entry) list \<Rightarrow> ('v, 'n) shared \<Rightarrow> ('v, 'n) shared" where
  "fail_entries err [] s = s"
| "fail_entries err ((request, e) # es) s =
     fail_entries err es (raise_token (pe_cancel_token e) (complete_promise (pe_promise e) (Err err) s))"

definition sh_fail :: "runtime_error \<Rightarrow> ('v, 'n) shared \<Rightarrow> ('v, 'n) shared" where
  "sh_fail err s =
     (case pending_drain (sh_pending s) of
        (t, es) \<Rightarrow> fail_entries err es (s\<lparr>sh_state := StFailed, sh_pending := t\<rparr>))"

fun shutdown_entries :: "'n env \<Rightarrow> (request_id \<times> pending_entry) list \<Rightarrow> ('v, 'n) shared \<Rightarrow> ('v, 'n) shared" where
  "shutdown_entries env [] s = s"
| "shutdown_entries env ((request, e) # es) s =
     shutdown_entries env es (send_cancel env request e
       (raise_token (pe_cancel_token e) (complete_promise (pe_promise e) (Err ReShutdown) s)))"

fun raise_local :: "'v local_request list \<Rightarrow> ('v, 'n) shared \<Rightarrow> ('v, 'n) shared" where
  "raise_local [] s = s"
| "raise_local (q # qs) s = raise_local qs (raise_token (Some (lq_cancel_token q)) s)"

text \<open>The part of \<open>shutdown\<close> under the work gate: no call is pending or queued after it.\<close>

definition begin_shutdown :: "'n env \<Rightarrow> ('v, 'n) shared \<Rightarrow> ('v, 'n) shared \<times> (runtime_error, unit) result" where
  "begin_shutdown env s =
     (if sh_state s \<noteq> StRunning \<and> sh_state s \<noteq> StFailed
      then (s, Err (ReInvalidState StRunning (sh_state s)))
      else (case pending_drain (sh_pending s) of
        (t, es) \<Rightarrow>
          (let s1 = shutdown_entries env es (s\<lparr>sh_state := StDraining, sh_pending := t\<rparr>) in
           (raise_local (sh_local_queue s1) (s1\<lparr>sh_local_queue := []\<rparr>), Ok ()))))"

text \<open>Dropping the runtime also drops the receiving end of the local queue.\<close>

definition runtime_drop :: "('v, 'n) shared \<Rightarrow> ('v, 'n) shared" where
  "runtime_drop s =
     (if sh_state s = StStopped \<or> sh_state s = StFailed then s\<lparr>sh_local_open := False\<rparr>
      else (case pending_drain (sh_pending s) of
        (t, es) \<Rightarrow> (fail_entries ReShutdown es (s\<lparr>sh_state := StDraining, sh_pending := t\<rparr>))
                     \<lparr>sh_local_open := False\<rparr>))"

subsection \<open>Replies\<close>

definition complete_pending ::
  "locality_id \<Rightarrow> rt_message \<Rightarrow> (rt_message \<Rightarrow> (runtime_error, segments) result) \<Rightarrow> ('v, 'n) shared
     \<Rightarrow> ('v, 'n) shared \<times> (runtime_error, unit) result"
where
  "complete_pending source m f s =
     (case take_checked (rm_request m) source (rm_action m) (sh_pending s) of
        (t, Inl e) \<Rightarrow> (s, Err e)
      | (t, Inr (Some e)) \<Rightarrow>
          (let s1 = complete_promise (pe_promise e) (res_map AvEncoded (f m)) (s\<lparr>sh_pending := t\<rparr>) in
           (s1\<lparr>sh_completed := sh_completed s1 + 1\<rparr>, Ok ()))
      | (t, Inr None) \<Rightarrow> (s\<lparr>sh_late_results := sh_late_results s + 1\<rparr>, Ok ()))"

definition ascii_lower :: "u8 \<Rightarrow> u8" where
  "ascii_lower b = (if 65 \<le> unat b \<and> unat b \<le> 90 then b + 32 else b)"

definition contains_text :: "bytes \<Rightarrow> bytes \<Rightarrow> bool" where
  "contains_text m p = list_ex (\<lambda>i. take (length p) (drop i m) = p) [0..<Suc (length m)]"

definition classify_failure :: "request_id \<Rightarrow> bytes \<Rightarrow> runtime_error" where
  "classify_failure request text =
     (let message = cap text; category = map ascii_lower message in
      if contains_text category (lit ''placement'') \<or> contains_text category (lit ''admission'')
         \<or> contains_text category (lit ''actionqueue'') \<or> contains_text category (lit ''objectmailbox'')
      then RePlacement request message
      else if contains_text category (lit ''object'') then ReRemoteObject request message
      else if contains_text category (lit ''lease'') \<or> contains_text category (lit ''transfer'')
      then ReLease request message
      else ReRemoteAction request message)"

definition encode_location :: "object_location \<Rightarrow> bytes" where
  "encode_location l = u64_le (loc_locality l) @ u32_le (loc_domain l) @ u64_le (loc_slot l)
     @ u32_le (loc_generation l) @ u64_le (loc_epoch l)"

definition decode_location :: "(protocol_error \<Rightarrow> bytes) \<Rightarrow> bytes \<Rightarrow> (runtime_error, object_location) result" where
  "decode_location text bs =
     (if length bs \<noteq> 32 then Err (ReProtocol (lit ''invalid object location payload''))
      else res_map_err (\<lambda>e. ReProtocol (lit ''invalid object location: '' @ text e))
        (object_location_new (from_le (slice_range bs 0 8)) (from_le (slice_range bs 8 12))
          (from_le (slice_range bs 12 20)) (from_le (slice_range bs 20 24)) (from_le (slice_range bs 24 32))))"

definition moved_error :: "(protocol_error \<Rightarrow> bytes) \<Rightarrow> segments \<Rightarrow> runtime_error" where
  "moved_error text payload =
     (if length payload \<noteq> 2 \<or> length (payload ! 0) \<noteq> 32 then ReProtocol (lit ''invalid moved payload'')
      else let ident = payload ! 0 in
        case res_bind (res_map_err (\<lambda>_. ReProtocol (lit ''invalid moved run''))
               (run_id_new (from_le (slice_range ident 0 16)))) (\<lambda>run.
             res_bind (res_map_err (\<lambda>_. ReProtocol (lit ''invalid moved object''))
               (object_id_new run (from_le (slice_range ident 16 32)))) (\<lambda>obj.
             res_bind (decode_location text (payload ! 1)) (\<lambda>location. Ok (ReMoved obj location)))) of
          Inl e \<Rightarrow> e
        | Inr e \<Rightarrow> e)"

text \<open>\<open>rt_decode\<close> has checked that a failure carries one segment.\<close>

definition failure_error :: "rt_message \<Rightarrow> runtime_error" where
  "failure_error m =
     (let text = rm_payload m ! 0 in
      if utf8_valid text then classify_failure (rm_request m) text
      else ReProtocol (lit ''remote error is not UTF-8''))"

text \<open>What a reply of each kind gives the caller.\<close>

definition reply_outcome :: "(protocol_error \<Rightarrow> bytes) \<Rightarrow> rt_message \<Rightarrow> (runtime_error, segments) result" where
  "reply_outcome text m =
     (case rm_kind m of
        RmSuccess \<Rightarrow> Ok (rm_payload m)
      | RmFailure \<Rightarrow> Err (failure_error m)
      | RmCancelled \<Rightarrow> Err (ReCancelled (rm_request m))
      | RmDuplicateResultUnavailable \<Rightarrow> Err (ReDuplicateResultUnavailable (rm_request m))
      | _ \<Rightarrow> Err (moved_error text (rm_payload m)))"

text \<open>The arms of \<open>handle_message\<close> for replies.\<close>

definition handle_reply ::
  "'n env \<Rightarrow> locality_id \<Rightarrow> rt_message \<Rightarrow> ('v, 'n) shared \<Rightarrow> ('v, 'n) shared \<times> (runtime_error, unit) result"
where
  "handle_reply env source m s = complete_pending source m (reply_outcome (env_protocol_text env)) s"

text \<open>The local branch of \<open>handle_completion\<close>.\<close>

definition complete_local ::
  "request_id \<Rightarrow> action_id \<Rightarrow> bool \<Rightarrow> (action_error, 'v action_value) result \<Rightarrow> ('v, 'n) shared
     \<Rightarrow> ('v, 'n) shared \<times> (runtime_error, unit) result"
where
  "complete_local request a cancelled r s =
     (case take_checked request (sh_local_id s) a (sh_pending s) of
        (t, Inl e) \<Rightarrow> (s, Err e)
      | (t, Inr (Some e)) \<Rightarrow>
          (let outcome = (if cancelled then Err (ReCancelled request)
                 else res_map_err (\<lambda>x. ReRemoteAction request (ae_message x)) r);
               s1 = complete_promise (pe_promise e) outcome (s\<lparr>sh_pending := t\<rparr>) in
           (s1\<lparr>sh_completed := sh_completed s1 + 1\<rparr>, Ok ()))
      | (t, Inr None) \<Rightarrow> (s\<lparr>sh_late_results := sh_late_results s + 1\<rparr>, Ok ()))"

text \<open>The error branch of \<open>dispatch_local\<close>, and the send events of the transport.\<close>

definition reject_local :: "request_id \<Rightarrow> runtime_error \<Rightarrow> ('v, 'n) shared \<Rightarrow> ('v, 'n) shared" where
  "reject_local request err s =
     (case pending_remove request (sh_pending s) of
        (t, None) \<Rightarrow> s
      | (t, Some e) \<Rightarrow> complete_promise (pe_promise e) (Err err) (s\<lparr>sh_pending := t\<rparr>))"

definition send_complete :: "send_ticket \<Rightarrow> ('v, 'n) shared \<Rightarrow> ('v, 'n) shared" where
  "send_complete ticket s = s\<lparr>sh_tickets := hm_remove ticket (sh_tickets s)\<rparr>"

definition send_failed ::
  "send_ticket \<Rightarrow> transport_error \<Rightarrow> ('v, 'n) shared \<Rightarrow> ('v, 'n) shared \<times> (runtime_error, unit) result"
where
  "send_failed ticket err s =
     (let s1 = s\<lparr>sh_tickets := hm_remove ticket (sh_tickets s)\<rparr> in
      case hm_get (sh_tickets s) ticket of
        Some (TpRequest request) \<Rightarrow> (reject_local request (ReTransport err) s1, Ok ())
      | Some TpRequiredResponse \<Rightarrow> (s1, Err (ReTransport err))
      | _ \<Rightarrow> (s1, Ok ()))"

subsection \<open>Issuing a call\<close>

definition deadline_millis :: "duration \<Rightarrow> (runtime_error, u64) result" where
  "deadline_millis d =
     (let ms = max (d div 1000000) 1 in if ms < 2 ^ 64 then Ok (word_of_nat ms) else Err ReInvalidDeadline)"

text \<open>Submission: the bounded local queue, or the transport.\<close>

definition submit_call ::
  "'n env \<Rightarrow> place \<Rightarrow> 'v action_value \<Rightarrow> rt_message \<Rightarrow> flag option \<Rightarrow> trace_id option \<Rightarrow> ('v, 'n) shared
     \<Rightarrow> ('v, 'n) shared \<times> (runtime_error fault, unit) result"
where
  "submit_call env pl input m token trace s =
     (if pl_locality pl = sh_local_id s
      then (case token of
          None \<Rightarrow> (s, Err Panic)
        | Some c \<Rightarrow>
            if \<not> sh_local_open s then (s, Err (Fail ReShutdown))
            else if rl_max_pending_calls (sh_limits s) \<le> length (sh_local_queue s)
            then (s, Err (Fail (ReResourceExhausted RkActionQueue (rl_max_pending_calls (sh_limits s)))))
            else (s\<lparr>sh_local_queue := sh_local_queue s @ [\<lparr>lq_message = m, lq_input = input,
                     lq_cancel_token = c, lq_trace_id = trace\<rparr>]\<rparr>, Ok ()))
      else (case sh_send env (pl_locality pl) m (TpRequest (rm_request m)) trace s of
          (s1, Inl e) \<Rightarrow> (s1, Err (Fail e))
        | (s1, Inr ticket) \<Rightarrow> (s1, Ok ())))"

text \<open>The payload of the message: empty for a local call, whose input travels beside it.\<close>

definition call_payload :: "bool \<Rightarrow> 'v action_value \<Rightarrow> (runtime_error fault, segments) result" where
  "call_payload is_local input =
     (if is_local then Ok [] else (case input of AvEncoded ss \<Rightarrow> Ok ss | AvTyped v \<Rightarrow> Err Panic))"

text \<open>The body of \<open>spawn_inner\<close> once the request has its identity.\<close>

definition issue_call ::
  "'n env \<Rightarrow> place \<Rightarrow> action_id \<Rightarrow> 'v action_value \<Rightarrow> spawn_options \<Rightarrow> u64 \<Rightarrow> request_id \<Rightarrow> instant
     \<Rightarrow> ('v, 'n) shared \<Rightarrow> ('v, 'n) shared \<times> (runtime_error fault, remote_future) result"
where
  "issue_call env pl a input opts deadline_ms request now s =
     (let is_local = (pl_locality pl = sh_local_id s);
          addr = length (sh_promises s);
          token = (if is_local then Some (length (sh_flags s)) else None);
          expires_at = now + so_deadline opts in
      if env_instant_max env < expires_at then (s, Err (Fail ReInvalidDeadline))
      else
        let s1 = s\<lparr>sh_promises := sh_promises s @ [promise_new],
                   sh_flags := sh_flags s @ (if is_local then [False] else [])\<rparr>;
            e = \<lparr>pe_promise = addr, pe_destination = pl_locality pl, pe_action = a,
                 pe_domain = pl_domain pl, pe_trace_id = so_trace_id opts, pe_expires_at = expires_at,
                 pe_deadline = so_deadline opts, pe_cancel_token = token\<rparr> in
        case pending_insert request e (sh_pending s1) of
          (t, Inl err) \<Rightarrow> (s1, Err (Fail err))
        | (t, Inr _) \<Rightarrow>
            (let s2 = s1\<lparr>sh_pending := t\<rparr> in
             case call_payload is_local input of
               Inl err \<Rightarrow> (s2, Err err)
             | Inr payload \<Rightarrow>
                 (let m = \<lparr>rm_kind = RmRequest, rm_request = request, rm_action = a,
                           rm_domain = pl_domain pl, rm_deadline_ms = deadline_ms, rm_payload = payload\<rparr> in
                  case submit_call env pl input m token (so_trace_id opts) s2 of
                    (s3, Inl err) \<Rightarrow>
                      (s3\<lparr>sh_pending := fst (pending_remove request (sh_pending s3))\<rparr>, Err err)
                  | (s3, Inr _) \<Rightarrow> (s3, Ok (remote_future_new request addr)))))"

definition is_typed :: "'v action_value \<Rightarrow> bool" where
  "is_typed v = (case v of AvTyped x \<Rightarrow> True | AvEncoded ss \<Rightarrow> False)"

definition spawn_inner ::
  "'n env \<Rightarrow> place \<Rightarrow> action_id \<Rightarrow> 'v action_value \<Rightarrow> spawn_options \<Rightarrow> request_id option \<Rightarrow> instant
     \<Rightarrow> ('v, 'n) shared \<Rightarrow> ('v, 'n) shared \<times> (runtime_error fault, remote_future) result"
where
  "spawn_inner env pl a input opts request now s =
     (case ensure_running s of
        Inl e \<Rightarrow> (s, Err (Fail e))
      | Inr _ \<Rightarrow>
          if so_deadline opts = 0 then (s, Err (Fail ReInvalidDeadline))
          else if registry_get (sh_registry s) a = None then (s, Err (Fail (ReUnknownAction a)))
          else if pl_locality pl \<noteq> sh_local_id s \<and> is_typed input
          then (s, Err (Fail (ReProtocol (lit ''typed action cannot cross a locality boundary''))))
          else (case deadline_millis (so_deadline opts) of
              Inl e \<Rightarrow> (s, Err (Fail e))
            | Inr ms \<Rightarrow>
                (case request of
                   Some r \<Rightarrow> issue_call env pl a input opts ms r now s
                 | None \<Rightarrow>
                     (case next_request s of
                        (s1, Inl e) \<Rightarrow> (s1, Err (Fail e))
                      | (s1, Inr r) \<Rightarrow> issue_call env pl a input opts ms r now s1))))"

text \<open>\<open>spawn_on_with\<close>: a local call keeps the typed value, a remote one encodes it.\<close>

definition spawn_on_with ::
  "'n env \<Rightarrow> ('t \<Rightarrow> (action_error, segments) result) \<Rightarrow> ('t \<Rightarrow> 'v) \<Rightarrow> u128 \<Rightarrow> place \<Rightarrow> 't \<Rightarrow> spawn_options
     \<Rightarrow> instant \<Rightarrow> ('v, 'n) shared \<Rightarrow> ('v, 'n) shared \<times> (runtime_error fault, remote_future) result"
where
  "spawn_on_with env enc box ID pl v opts now s =
     (case nonzero_u128_id ''ActionId'' ID of
        Inl _ \<Rightarrow> (s, Err (Fail ReInvalidActionId))
      | Inr a \<Rightarrow>
          if pl_locality pl = sh_local_id s then spawn_inner env pl a (AvTyped (box v)) opts None now s
          else (case enc v of
              Inl e \<Rightarrow> (s, Err (Fail (ReProtocol (lit ''action encode failed: '' @ env_action_text env e))))
            | Inr payload \<Rightarrow> spawn_inner env pl a (AvEncoded payload) opts None now s))"

subsection \<open>What each operation leaves alone\<close>

named_theorems call_frame \<open>fields an operation of the caller's side does not touch\<close>

lemma next_message_frame [call_frame]:
  "sh_pending (fst (next_message s)) = sh_pending s" "sh_promises (fst (next_message s)) = sh_promises s"
  "sh_next_request (fst (next_message s)) = sh_next_request s" "sh_local_id (fst (next_message s)) = sh_local_id s"
  "sh_limits (fst (next_message s)) = sh_limits s" "sh_state (fst (next_message s)) = sh_state s"
  "sh_tickets (fst (next_message s)) = sh_tickets s" "sh_flags (fst (next_message s)) = sh_flags s"
  "sh_local_queue (fst (next_message s)) = sh_local_queue s"
  by (simp_all add: next_message_def split_beta split: option.splits)

lemma sh_send_cases:
  obtains "fst (sh_send env d m pu tr s) = fst (next_message s)"
  | net where "fst (sh_send env d m pu tr s) = (fst (next_message s))\<lparr>sh_net := net\<rparr>"
  | net ticket f and p :: parcel where "fst (sh_send env d m pu tr s) = (fst (next_message s))\<lparr>sh_net := net,
        sh_tickets := hm_insert ticket pu (sh_tickets s), sh_sent := f\<rparr>"
      "hm_len (sh_tickets s) < ticket_limit (sh_limits s) (p_channel p)"
proof -
  obtain s' r where n: "next_message s = (s', r)" by (cases "next_message s")
  have "sh_tickets s' = sh_tickets s" "sh_limits s' = sh_limits s"
    using next_message_frame [of s] n by simp_all
  note frame = this
  show ?thesis
  proof (cases r)
    case (Inl e)
    with n show ?thesis by (intro that(1)) (simp add: sh_send_def)
  next
    case (Inr k)
    let ?p = "send_parcel m d tr k s'"
    show ?thesis
    proof (cases "is_ok (parcel_validate ?p (sh_protocol_limits s'))
        \<and> hm_len (sh_tickets s') < ticket_limit (sh_limits s') (p_channel ?p)")
      case False
      with n Inr show ?thesis
        by (intro that(1)) (auto simp: sh_send_def Let_def split: sum.splits)
    next
      case True
      obtain net q where net: "env_try_send env ?p (sh_net s') = (net, q)"
        by (cases "env_try_send env ?p (sh_net s')")
      show ?thesis
      proof (cases q)
        case (Inl e)
        with True n Inr net show ?thesis
          by (intro that(2) [where net = net]) (simp add: sh_send_def Let_def is_ok_iff split: sum.splits)
      next
        case (Inr ticket)
        with True n \<open>r = Inr k\<close> net frame show ?thesis
          by (intro that(3) [where net = net and ticket = ticket and p = ?p])
            (simp_all add: sh_send_def Let_def is_ok_iff split: sum.splits)
      qed
    qed
  qed
qed

lemma sh_send_frame [call_frame]:
  "sh_pending (fst (sh_send env d m pu tr s)) = sh_pending s"
  "sh_promises (fst (sh_send env d m pu tr s)) = sh_promises s"
  "sh_next_request (fst (sh_send env d m pu tr s)) = sh_next_request s"
  "sh_local_id (fst (sh_send env d m pu tr s)) = sh_local_id s"
  "sh_limits (fst (sh_send env d m pu tr s)) = sh_limits s"
  "sh_state (fst (sh_send env d m pu tr s)) = sh_state s"
  "sh_flags (fst (sh_send env d m pu tr s)) = sh_flags s"
  "sh_local_queue (fst (sh_send env d m pu tr s)) = sh_local_queue s"
  by (cases rule: sh_send_cases [of env d m pu tr s]; simp add: call_frame)+

lemma send_cancel_frame [call_frame]:
  "sh_pending (send_cancel env r e s) = sh_pending s" "sh_promises (send_cancel env r e s) = sh_promises s"
  "sh_next_request (send_cancel env r e s) = sh_next_request s"
  "sh_local_id (send_cancel env r e s) = sh_local_id s" "sh_limits (send_cancel env r e s) = sh_limits s"
  "sh_state (send_cancel env r e s) = sh_state s"
  by (simp_all add: send_cancel_def call_frame)

lemma raise_token_frame [call_frame]:
  "sh_pending (raise_token c s) = sh_pending s" "sh_promises (raise_token c s) = sh_promises s"
  "sh_next_request (raise_token c s) = sh_next_request s" "sh_local_id (raise_token c s) = sh_local_id s"
  "sh_limits (raise_token c s) = sh_limits s" "sh_state (raise_token c s) = sh_state s"
  "sh_tickets (raise_token c s) = sh_tickets s"
  by (simp_all add: raise_token_def split: option.splits)

lemma raise_local_frame [call_frame]:
  "sh_pending (raise_local qs s) = sh_pending s" "sh_promises (raise_local qs s) = sh_promises s"
  "sh_next_request (raise_local qs s) = sh_next_request s" "sh_local_id (raise_local qs s) = sh_local_id s"
  "sh_limits (raise_local qs s) = sh_limits s" "sh_state (raise_local qs s) = sh_state s"
  "sh_tickets (raise_local qs s) = sh_tickets s"
  by (induction qs arbitrary: s) (simp_all add: call_frame)

lemma complete_promise_frame [call_frame]:
  "sh_pending (complete_promise a r s) = sh_pending s"
  "sh_next_request (complete_promise a r s) = sh_next_request s"
  "sh_local_id (complete_promise a r s) = sh_local_id s" "sh_limits (complete_promise a r s) = sh_limits s"
  "sh_state (complete_promise a r s) = sh_state s" "sh_tickets (complete_promise a r s) = sh_tickets s"
  by (simp_all add: complete_promise_def)

text \<open>The promises of a list of entries, each completed with its outcome.\<close>

fun settle ::
  "(request_id \<Rightarrow> pending_entry \<Rightarrow> 'v outcome) \<Rightarrow> (request_id \<times> pending_entry) list \<Rightarrow> 'v promise list \<Rightarrow> 'v promise list"
where
  "settle out [] ps = ps"
| "settle out ((r, e) # es) ps =
     settle out es (ps[pe_promise e := fst (promise_complete (out r e) (ps ! pe_promise e))])"

lemma entry_loops [call_frame]:
  "sh_promises (expire_entries env es s)
     = settle (\<lambda>r e. Err (ReDeadlineExceeded r (pe_deadline e))) es (sh_promises s)"
  "sh_promises (fail_entries err es s) = settle (\<lambda>r e. Err err) es (sh_promises s)"
  "sh_promises (shutdown_entries env es s) = settle (\<lambda>r e. Err ReShutdown) es (sh_promises s)"
  by (induction es arbitrary: s) (auto simp: Let_def call_frame complete_promise_def)

lemma entry_loops_frame [call_frame]:
  "sh_pending (expire_entries env es s) = sh_pending s" "sh_pending (fail_entries err es s) = sh_pending s"
  "sh_pending (shutdown_entries env es s) = sh_pending s"
  "sh_next_request (expire_entries env es s) = sh_next_request s"
  "sh_next_request (fail_entries err es s) = sh_next_request s"
  "sh_next_request (shutdown_entries env es s) = sh_next_request s"
  "sh_local_id (expire_entries env es s) = sh_local_id s" "sh_local_id (fail_entries err es s) = sh_local_id s"
  "sh_local_id (shutdown_entries env es s) = sh_local_id s"
  "sh_limits (expire_entries env es s) = sh_limits s" "sh_limits (fail_entries err es s) = sh_limits s"
  "sh_limits (shutdown_entries env es s) = sh_limits s"
  "sh_state (expire_entries env es s) = sh_state s" "sh_state (fail_entries err es s) = sh_state s"
  "sh_state (shutdown_entries env es s) = sh_state s"
  by (induction es arbitrary: s) (auto simp: Let_def call_frame)

subsection \<open>Every call ends\<close>

definition consistent :: "'v promise list \<Rightarrow> bool" where
  "consistent ps \<longleftrightarrow> (\<forall>p\<in>set ps. pr_result p \<noteq> None \<longrightarrow> pr_done p)"

lemma consistent_nth: "consistent ps \<Longrightarrow> a < length ps \<Longrightarrow> pr_result (ps ! a) \<noteq> None \<Longrightarrow> pr_done (ps ! a)"
  by (simp add: consistent_def)

lemma promise_complete_done:
  "(pr_result p \<noteq> None \<longrightarrow> pr_done p) \<Longrightarrow> pr_done (fst (promise_complete r p))"
  by (simp add: promise_complete_def)

lemma consistent_update:
  "consistent ps \<Longrightarrow> (pr_result q \<noteq> None \<longrightarrow> pr_done q) \<Longrightarrow> consistent (ps[a := q])"
  using set_update_subset_insert [of ps a q] by (auto simp: consistent_def)

lemma complete_one:
  assumes "consistent ps"
  shows "consistent (ps[a := fst (promise_complete r (ps ! a))])
    \<and> (a < length ps \<longrightarrow> pr_done (ps[a := fst (promise_complete r (ps ! a))] ! a))"
proof (cases "a < length ps")
  case True
  then have "pr_done (fst (promise_complete r (ps ! a)))"
    using promise_complete_done [of "ps ! a" r] consistent_nth [OF assms True] by blast
  with True show ?thesis using consistent_update [OF assms] by simp
qed (simp add: assms list_update_beyond)

lemma settle_length [simp]: "length (settle out es ps) = length ps"
  by (induction out es ps rule: settle.induct) simp_all

lemma settle_effect:
  "consistent ps \<Longrightarrow> consistent (settle out es ps)
     \<and> (\<forall>a < length ps. (pr_done (ps ! a) \<or> a \<in> (\<lambda>p. pe_promise (snd p)) ` set es \<longrightarrow> pr_done (settle out es ps ! a))
       \<and> (a \<notin> (\<lambda>p. pe_promise (snd p)) ` set es \<longrightarrow> settle out es ps ! a = ps ! a))"
proof (induction out es ps rule: settle.induct)
  case (1 out ps)
  then show ?case by simp
next
  case (2 out r e es ps)
  let ?ps = "ps[pe_promise e := fst (promise_complete (out r e) (ps ! pe_promise e))]"
  have one: "consistent ?ps" "pe_promise e < length ps \<longrightarrow> pr_done (?ps ! pe_promise e)"
    using complete_one [OF 2(2)] by blast+
  have "pr_done (?ps ! a)" if "pr_done (ps ! a)" "a < length ps" for a
    using that one(2) by (cases "a = pe_promise e") simp_all
  then show ?case
    using 2(1) [OF one(1)] one(2) by simp
qed

text \<open>
  \<open>I\<close> are the calls issued so far, each with the address of its promise; \<open>C\<close> are the promises
  of calls that were cancelled. An issued call is pending, or its promise is completed, or it
  was cancelled.
\<close>

definition call_inv ::
  "(request_id \<times> promise_addr) set \<Rightarrow> promise_addr set \<Rightarrow> ('v, 'n) shared \<Rightarrow> bool"
where
  "call_inv I C s \<longleftrightarrow>
     hm_wf (pt_entries (sh_pending s)) \<and> hm_len (pt_entries (sh_pending s)) \<le> pt_limit (sh_pending s)
     \<and> pt_limit (sh_pending s) = rl_max_pending_calls (sh_limits s) \<and> consistent (sh_promises s)
     \<and> (\<forall>r e. hm_get (pt_entries (sh_pending s)) r = Some e \<longrightarrow>
          (r, pe_promise e) \<in> I \<and> \<not> pr_done (sh_promises s ! pe_promise e))
     \<and> (\<forall>r a. (r, a) \<in> I \<longrightarrow> a < length (sh_promises s) \<and> req_origin r = sh_local_id s
          \<and> unat (req_sequence r) < unat (sh_next_request s)
          \<and> (pr_done (sh_promises s ! a) \<or> a \<in> C
             \<or> (\<exists>e. hm_get (pt_entries (sh_pending s)) r = Some e \<and> pe_promise e = a)))
     \<and> (\<forall>r r' a. (r, a) \<in> I \<and> (r', a) \<in> I \<longrightarrow> r = r')"

lemma call_invD:
  assumes "call_inv I C s"
  shows "hm_wf (pt_entries (sh_pending s))" "consistent (sh_promises s)"
    and "hm_get (pt_entries (sh_pending s)) r = Some e \<Longrightarrow>
      (r, pe_promise e) \<in> I \<and> \<not> pr_done (sh_promises s ! pe_promise e) \<and> pe_promise e < length (sh_promises s)"
    and "(r, a) \<in> I \<Longrightarrow> (r', a) \<in> I \<Longrightarrow> r = r'"
    and "(r, a) \<in> I \<Longrightarrow> a < length (sh_promises s) \<and> req_origin r = sh_local_id s
      \<and> unat (req_sequence r) < unat (sh_next_request s)
      \<and> (pr_done (sh_promises s ! a) \<or> a \<in> C
         \<or> (\<exists>e. hm_get (pt_entries (sh_pending s)) r = Some e \<and> pe_promise e = a))"
  using assms unfolding call_inv_def by blast+

text \<open>Fields the invariant does not read.\<close>

lemma call_inv_cong:
  assumes "sh_pending s' = sh_pending s" "sh_promises s' = sh_promises s" "sh_limits s' = sh_limits s"
    and "sh_local_id s' = sh_local_id s" "unat (sh_next_request s) \<le> unat (sh_next_request s')"
    and "call_inv I C s"
  shows "call_inv I C s'"
  using assms(6) assms(5) unfolding call_inv_def assms(1-4) by (meson order_less_le_trans)

text \<open>Taking entries out of the table and completing their promises.\<close>

lemma call_inv_settle:
  assumes inv: "call_inv I C s"
    and wf: "hm_wf (pt_entries (sh_pending s'))" "hm_len (pt_entries (sh_pending s')) \<le> hm_len (pt_entries (sh_pending s))"
    and es: "\<And>r e. (r, e) \<in> set es \<Longrightarrow> hm_get (pt_entries (sh_pending s)) r = Some e"
    and get: "\<And>r. hm_get (pt_entries (sh_pending s')) r =
      (if r \<in> fst ` set es then None else hm_get (pt_entries (sh_pending s)) r)"
    and ps: "sh_promises s' = settle out es (sh_promises s)"
    and same: "sh_limits s' = sh_limits s" "sh_local_id s' = sh_local_id s"
      "sh_next_request s' = sh_next_request s" "pt_limit (sh_pending s') = pt_limit (sh_pending s)"
  shows "call_inv I C s'"
proof -
  let ?P = "pt_entries (sh_pending s)" and ?Q = "sh_promises s" and ?A = "(\<lambda>p. pe_promise (snd p)) ` set es"
  note eff = settle_effect [OF call_invD(2) [OF inv], of out es]
  have kept: "(r, pe_promise e) \<in> I \<and> \<not> pr_done (sh_promises s' ! pe_promise e)"
    if "hm_get (pt_entries (sh_pending s')) r = Some e" for r e
  proof -
    have g: "hm_get ?P r = Some e" and out: "r \<notin> fst ` set es"
      using that get [of r] by (simp_all split: if_splits)
    note d = call_invD(3) [OF inv g]
    have "pe_promise e \<notin> ?A"
    proof
      assume "pe_promise e \<in> ?A"
      then obtain r2 e2 where m: "(r2, e2) \<in> set es" "pe_promise e = pe_promise e2" by auto
      then have "(r2, pe_promise e) \<in> I" using call_invD(3) [OF inv es [OF m(1)]] by simp
      then have "r2 = r" using d call_invD(4) [OF inv] by blast
      with m(1) out show False by force
    qed
    with d eff ps show ?thesis by simp
  qed
  have acc: "pr_done (sh_promises s' ! a) \<or> a \<in> C
      \<or> (\<exists>e. hm_get (pt_entries (sh_pending s')) r = Some e \<and> pe_promise e = a)"
    if "(r, a) \<in> I" for r a
  proof -
    note d = call_invD(5) [OF inv that]
    show ?thesis
    proof (cases "pr_done (?Q ! a) \<or> a \<in> C")
      case True
      then show ?thesis using d eff ps by auto
    next
      case False
      then obtain e where e: "hm_get ?P r = Some e" "pe_promise e = a" using d by blast
      show ?thesis
      proof (cases "r \<in> fst ` set es")
        case True
        then obtain e2 where "(r, e2) \<in> set es" by force
        moreover from this have "e2 = e" using es e(1) by fastforce
        ultimately have "a \<in> ?A" using e(2) by force
        then show ?thesis using d eff ps by simp
      qed (use e get in auto)
    qed
  qed
  show ?thesis
    unfolding call_inv_def
  proof (intro conjI)
    show "hm_len (pt_entries (sh_pending s')) \<le> pt_limit (sh_pending s')"
      "pt_limit (sh_pending s') = rl_max_pending_calls (sh_limits s')"
      using inv wf(2) same unfolding call_inv_def by simp_all
    show "consistent (sh_promises s')" using eff ps by simp
    show "\<forall>r a. (r, a) \<in> I \<longrightarrow> a < length (sh_promises s') \<and> req_origin r = sh_local_id s'
          \<and> unat (req_sequence r) < unat (sh_next_request s')
          \<and> (pr_done (sh_promises s' ! a) \<or> a \<in> C
             \<or> (\<exists>e. hm_get (pt_entries (sh_pending s')) r = Some e \<and> pe_promise e = a))"
      using acc call_invD(5) [OF inv] same ps by simp
    show "\<forall>r r' a. (r, a) \<in> I \<and> (r', a) \<in> I \<longrightarrow> r = r'"
      using call_invD(4) [OF inv] by blast
  qed (use wf(1) kept in blast)+
qed

text \<open>One entry taken out and its promise completed: a reply, a local completion, a rejection.\<close>

lemma call_inv_one:
  assumes inv: "call_inv I C s" and e: "hm_get (pt_entries (sh_pending s)) r = Some e"
    and s': "sh_pending s' = (sh_pending s)\<lparr>pt_entries := hm_remove r (pt_entries (sh_pending s))\<rparr>"
      "sh_promises s' = (sh_promises s)[pe_promise e := fst (promise_complete x (sh_promises s ! pe_promise e))]"
      "sh_limits s' = sh_limits s" "sh_local_id s' = sh_local_id s" "sh_next_request s' = sh_next_request s"
  shows "call_inv I C s'"
proof -
  have wf: "hm_wf (pt_entries (sh_pending s))" by (rule call_invD(1) [OF inv])
  show ?thesis
    by (rule call_inv_settle [OF inv, where es = "[(r, e)]" and out = "\<lambda>_ _. x"])
      (use wf e s' hm.len_remove [OF wf, of r] in auto)
qed

lemma call_inv_complete_pending:
  "call_inv I C s \<Longrightarrow> call_inv I C (fst (complete_pending source m f s))"
proof -
  assume inv: "call_inv I C s"
  show ?thesis
  proof (cases "hm_get (pt_entries (sh_pending s)) (rm_request m)")
    case None
    then show ?thesis
      by (intro call_inv_cong [OF _ _ _ _ _ inv]) (simp_all add: complete_pending_def take_checked_def)
  next
    case (Some e)
    show ?thesis
    proof (cases "pe_destination e \<noteq> source \<or> pe_action e \<noteq> rm_action m")
      case True
      with Some inv show ?thesis by (simp add: complete_pending_def take_checked_def)
    next
      case False
      with Some show ?thesis
        by (intro call_inv_one [OF inv Some, where x = "res_map AvEncoded (f m)"])
          (simp_all add: complete_pending_def take_checked_def Let_def complete_promise_def)
    qed
  qed
qed

lemma call_inv_complete_local:
  "call_inv I C s \<Longrightarrow> call_inv I C (fst (complete_local r a c x s))"
proof -
  assume inv: "call_inv I C s"
  show ?thesis
  proof (cases "hm_get (pt_entries (sh_pending s)) r")
    case None
    then show ?thesis
      by (intro call_inv_cong [OF _ _ _ _ _ inv]) (simp_all add: complete_local_def take_checked_def)
  next
    case (Some e)
    show ?thesis
    proof (cases "pe_destination e \<noteq> sh_local_id s \<or> pe_action e \<noteq> a")
      case True
      with Some inv show ?thesis by (simp add: complete_local_def take_checked_def)
    next
      case False
      with Some show ?thesis
        by (intro call_inv_one [OF inv Some, where x = "if c then Err (ReCancelled r)
              else res_map_err (\<lambda>x. ReRemoteAction r (ae_message x)) x"])
          (simp_all add: complete_local_def take_checked_def Let_def complete_promise_def)
    qed
  qed
qed

lemma call_inv_reject_local: "call_inv I C s \<Longrightarrow> call_inv I C (reject_local r err s)"
proof -
  assume inv: "call_inv I C s"
  show ?thesis
  proof (cases "hm_get (pt_entries (sh_pending s)) r")
    case None
    with inv show ?thesis by (simp add: reject_local_def pending_remove_def)
  next
    case (Some e)
    then show ?thesis
      by (intro call_inv_one [OF inv Some, where x = "Err err"])
        (simp_all add: reject_local_def pending_remove_def complete_promise_def)
  qed
qed

lemma call_inv_send_failed: "call_inv I C s \<Longrightarrow> call_inv I C (fst (send_failed ticket err s))"
proof -
  assume inv: "call_inv I C s"
  then have "call_inv I C (s\<lparr>sh_tickets := hm_remove ticket (sh_tickets s)\<rparr>)"
    by (rule call_inv_cong [rotated 5]) simp_all
  then show ?thesis
    using call_inv_reject_local by (auto simp: send_failed_def Let_def split: option.splits ticket_purpose.splits)
qed

lemma remove_all_effect:
  assumes "hm_wf (pt_entries t)" "distinct rs"
  shows "hm_wf (pt_entries (fst (remove_all rs t))) \<and> pt_limit (fst (remove_all rs t)) = pt_limit t
    \<and> hm_len (pt_entries (fst (remove_all rs t))) \<le> hm_len (pt_entries t)
    \<and> (\<forall>r. hm_get (pt_entries (fst (remove_all rs t))) r = (if r \<in> set rs then None else hm_get (pt_entries t) r))
    \<and> set (snd (remove_all rs t)) = {(r, e). r \<in> set rs \<and> hm_get (pt_entries t) r = Some e}"
  using assms
proof (induction rs arbitrary: t)
  case Nil
  then show ?case by simp
next
  case (Cons r rs)
  let ?t = "t\<lparr>pt_entries := hm_remove r (pt_entries t)\<rparr>"
  have wf: "hm_wf (pt_entries ?t)" using Cons.prems(1) by simp
  have len: "hm_len (pt_entries ?t) \<le> hm_len (pt_entries t)"
    using hm.len_remove [OF Cons.prems(1), of r] by simp
  note IH = Cons.IH [OF wf]
  have "set (snd (remove_all (r # rs) t)) = {(x, e). x \<in> set (r # rs) \<and> hm_get (pt_entries t) x = Some e}"
    using IH Cons.prems by (auto simp: pending_remove_def split_beta split: option.splits)
  with IH len Cons.prems show ?case
    by (auto simp: pending_remove_def split_beta)
qed

lemma expired_effect:
  assumes "hm_wf (pt_entries t)"
  shows "hm_wf (pt_entries (fst (pending_expired now t))) \<and> pt_limit (fst (pending_expired now t)) = pt_limit t
    \<and> hm_len (pt_entries (fst (pending_expired now t))) \<le> hm_len (pt_entries t)
    \<and> (\<forall>r. hm_get (pt_entries (fst (pending_expired now t))) r =
        (case hm_get (pt_entries t) r of Some e \<Rightarrow> if pe_expires_at e \<le> now then None else Some e | None \<Rightarrow> None))
    \<and> set (snd (pending_expired now t)) = {(r, e). hm_get (pt_entries t) r = Some e \<and> pe_expires_at e \<le> now}"
proof -
  let ?rs = "map fst (filter (\<lambda>p. pe_expires_at (snd p) \<le> now) (pt_entries t))"
  have rs: "r \<in> set ?rs \<longleftrightarrow> (\<exists>e. hm_get (pt_entries t) r = Some e \<and> pe_expires_at e \<le> now)" for r
    using expired_keys [OF assms, of r "\<lambda>e. pe_expires_at e \<le> now"] by simp
  have "distinct ?rs"
    using assms by (simp add: hm_wf_def distinct_map_filter)
  note eff = remove_all_effect [OF assms this]
  then show ?thesis
    unfolding pending_expired_def rs by (auto split: option.splits)
qed

lemma call_inv_expire: "call_inv I C s \<Longrightarrow> call_inv I C (expire_pending env now s)"
proof -
  assume inv: "call_inv I C s"
  obtain t es where ex: "pending_expired now (sh_pending s) = (t, es)" by (cases "pending_expired now (sh_pending s)")
  have eff: "hm_wf (pt_entries t)" "hm_len (pt_entries t) \<le> hm_len (pt_entries (sh_pending s))"
      "pt_limit t = pt_limit (sh_pending s)"
      "set es = {(r, e). hm_get (pt_entries (sh_pending s)) r = Some e \<and> pe_expires_at e \<le> now}"
      "hm_get (pt_entries t) r = (case hm_get (pt_entries (sh_pending s)) r of
         Some e \<Rightarrow> if pe_expires_at e \<le> now then None else Some e | None \<Rightarrow> None)" for r
    using expired_effect [OF call_invD(1) [OF inv], of now] ex by simp_all
  show ?thesis
    by (rule call_inv_settle [OF inv, where es = es])
      (use eff ex in \<open>auto simp: expire_pending_def call_frame image_iff split: option.splits\<close>)
qed

lemma call_inv_drain:
  assumes inv: "call_inv I C s"
    and "sh_pending s' = (sh_pending s)\<lparr>pt_entries := []\<rparr>"
    and "sh_promises s' = settle out (pt_entries (sh_pending s)) (sh_promises s)"
    and "sh_limits s' = sh_limits s" "sh_local_id s' = sh_local_id s" "sh_next_request s' = sh_next_request s"
  shows "call_inv I C s'"
proof -
  have wf: "hm_wf (pt_entries (sh_pending s))" by (rule call_invD(1) [OF inv])
  have none: "r \<notin> fst ` set (pt_entries (sh_pending s)) \<Longrightarrow> map_of (pt_entries (sh_pending s)) r = None" for r
    by (simp add: map_of_eq_None_iff)
  show ?thesis
    by (rule call_inv_settle [OF inv, where es = "pt_entries (sh_pending s)" and out = out])
      (use wf none assms(2-) in \<open>auto simp: hm_get_def hm_wf_def hm_len_def\<close>)
qed

lemma call_inv_fail: "call_inv I C s \<Longrightarrow> call_inv I C (sh_fail err s)"
  by (erule call_inv_drain) (simp_all add: sh_fail_def pending_drain_def call_frame)

lemma call_inv_shutdown: "call_inv I C s \<Longrightarrow> call_inv I C (fst (begin_shutdown env s))"
proof (cases "sh_state s = StRunning \<or> sh_state s = StFailed")
  case True
  then show "call_inv I C s \<Longrightarrow> ?thesis"
    by (elim call_inv_drain) (auto simp: begin_shutdown_def pending_drain_def call_frame Let_def)
qed (simp add: begin_shutdown_def)

lemma call_inv_runtime_drop: "call_inv I C s \<Longrightarrow> call_inv I C (runtime_drop s)"
proof (cases "sh_state s = StStopped \<or> sh_state s = StFailed")
  case True
  then show "call_inv I C s \<Longrightarrow> ?thesis"
    by (intro call_inv_cong [where s' = "runtime_drop s"]) (auto simp: runtime_drop_def)
next
  case False
  then show "call_inv I C s \<Longrightarrow> ?thesis"
    by (elim call_inv_drain) (auto simp: runtime_drop_def pending_drain_def call_frame)
qed

text \<open>A cancelled call leaves the table with its promise open.\<close>

definition pending_addr :: "request_id \<Rightarrow> ('v, 'n) shared \<Rightarrow> promise_addr set" where
  "pending_addr r s = {a. \<exists>e. hm_get (pt_entries (sh_pending s)) r = Some e \<and> pe_promise e = a}"

lemma call_inv_cancel: "call_inv I C s \<Longrightarrow> call_inv I (C \<union> pending_addr r s) (sh_cancel env r s)"
proof -
  assume inv: "call_inv I C s"
  show ?thesis
  proof (cases "hm_get (pt_entries (sh_pending s)) r")
    case None
    with inv show ?thesis by (simp add: sh_cancel_def pending_remove_def pending_addr_def)
  next
    case (Some e)
    have wf: "hm_wf (pt_entries (sh_pending s))" by (rule call_invD(1) [OF inv])
    let ?s = "sh_cancel env r s"
    have f: "sh_pending ?s = (sh_pending s)\<lparr>pt_entries := hm_remove r (pt_entries (sh_pending s))\<rparr>"
        "sh_promises ?s = sh_promises s" "sh_limits ?s = sh_limits s" "sh_local_id ?s = sh_local_id s"
        "sh_next_request ?s = sh_next_request s"
      using Some by (simp_all add: sh_cancel_def pending_remove_def call_frame)
    have addr: "pending_addr r s = {pe_promise e}"
      using Some by (simp add: pending_addr_def)
    have acc: "pr_done (sh_promises s ! a) \<or> a \<in> C \<union> pending_addr r s
        \<or> (\<exists>e. hm_get (hm_remove r (pt_entries (sh_pending s))) x = Some e \<and> pe_promise e = a)"
      if "(x, a) \<in> I" for x a
    proof (cases "x = r \<and> a = pe_promise e")
      case True
      then show ?thesis using addr by simp
    next
      case False
      then show ?thesis
        using call_invD(5) [OF inv that] Some hm.get_remove [OF wf, of r x] by (cases "x = r") (simp_all, blast+)
    qed
    have "hm_len (hm_remove r (pt_entries (sh_pending s))) \<le> pt_limit (sh_pending s)"
      using hm.remove_within [OF wf] inv by (simp add: call_inv_def)
    then show ?thesis
      using inv acc wf hm.get_remove [OF wf] unfolding call_inv_def f
      by (simp split: if_splits)
  qed
qed

lemma submit_call_frame:
  "sh_pending (fst (submit_call env pl input m token tr s)) = sh_pending s"
  "sh_promises (fst (submit_call env pl input m token tr s)) = sh_promises s"
  "sh_limits (fst (submit_call env pl input m token tr s)) = sh_limits s"
  "sh_local_id (fst (submit_call env pl input m token tr s)) = sh_local_id s"
  "sh_next_request (fst (submit_call env pl input m token tr s)) = sh_next_request s"
  using sh_send_frame [of env "pl_locality pl" m "TpRequest (rm_request m)" tr s]
  by (auto simp: submit_call_def split: option.splits sum.splits prod.splits)

lemma call_inv_new_promise:
  assumes "call_inv I C s"
    and "sh_pending s' = sh_pending s" "sh_promises s' = sh_promises s @ [promise_new]" "sh_limits s' = sh_limits s"
      "sh_local_id s' = sh_local_id s" "unat (sh_next_request s) \<le> unat (sh_next_request s')"
  shows "call_inv I C s'"
proof -
  note d = call_invD [OF assms(1)]
  have 1: "consistent (sh_promises s')"
    using d(2) assms(3) by (auto simp: consistent_def promise_new_def)
  have old: "sh_promises s' ! a = sh_promises s ! a" if "a < length (sh_promises s)" for a
    using that assms(3) by (simp add: nth_append)
  have 2: "(r, pe_promise e) \<in> I \<and> \<not> pr_done (sh_promises s' ! pe_promise e)"
    if "hm_get (pt_entries (sh_pending s)) r = Some e" for r e
    using d(3) [OF that] old by simp
  have 3: "a < length (sh_promises s') \<and> req_origin r = sh_local_id s
      \<and> unat (req_sequence r) < unat (sh_next_request s')
      \<and> (pr_done (sh_promises s' ! a) \<or> a \<in> C
         \<or> (\<exists>e. hm_get (pt_entries (sh_pending s)) r = Some e \<and> pe_promise e = a))"
    if "(r, a) \<in> I" for r a
    using d(5) [OF that] old [of a] assms(3,6) by auto
  show ?thesis
    using assms(1) 1 2 3 unfolding call_inv_def assms(2,4,5) by blast
qed

text \<open>A call that is issued has an entry of its own; one that fails leaves the table as it was.\<close>

lemma call_inv_insert:
  assumes inv: "call_inv I C s" and fresh: "hm_get (pt_entries (sh_pending s)) r = None"
    and room: "hm_len (pt_entries (sh_pending s)) < pt_limit (sh_pending s)"
    and addr: "pe_promise e = length (sh_promises s)"
    and req: "req_origin r = sh_local_id s" "unat (req_sequence r) < unat (sh_next_request s)"
    and s': "sh_pending s' = (sh_pending s)\<lparr>pt_entries := hm_insert r e (pt_entries (sh_pending s))\<rparr>"
      "sh_promises s' = sh_promises s @ [promise_new]" "sh_limits s' = sh_limits s"
      "sh_local_id s' = sh_local_id s" "sh_next_request s' = sh_next_request s"
  shows "call_inv (insert (r, pe_promise e) I) C s'"
proof -
  note d = call_invD [OF inv]
  have wf: "hm_wf (pt_entries (sh_pending s))" by (rule d(1))
  have new: "\<not> pr_done (sh_promises s' ! pe_promise e)"
    using addr s'(2) by (simp add: promise_new_def)
  have old: "sh_promises s' ! a = sh_promises s ! a" "a \<noteq> pe_promise e" if "a < length (sh_promises s)" for a
    using that s'(2) addr by (simp_all add: nth_append)
  have get: "hm_get (pt_entries (sh_pending s')) x = (if x = r then Some e else hm_get (pt_entries (sh_pending s)) x)" for x
    using wf s'(1) by simp
  have len: "hm_len (pt_entries (sh_pending s')) \<le> pt_limit (sh_pending s')"
    using hm.put_within [OF wf room] s'(1) by simp
  have entries: "(x, pe_promise y) \<in> insert (r, pe_promise e) I \<and> \<not> pr_done (sh_promises s' ! pe_promise y)"
    if "hm_get (pt_entries (sh_pending s')) x = Some y" for x y
    using that d(3) old new by (auto simp: get split: if_splits)
  have acc: "a < length (sh_promises s') \<and> req_origin x = sh_local_id s'
      \<and> unat (req_sequence x) < unat (sh_next_request s')
      \<and> (pr_done (sh_promises s' ! a) \<or> a \<in> C
         \<or> (\<exists>e. hm_get (pt_entries (sh_pending s')) x = Some e \<and> pe_promise e = a))"
    if "(x, a) \<in> insert (r, pe_promise e) I" for x a
  proof (cases "(x, a) \<in> I")
    case True
    then show ?thesis
      using d(5) [OF True] old [of a] fresh s'(2-) by (auto simp: get)
  next
    case False
    with that req addr s'(2-) show ?thesis by (auto simp: get)
  qed
  have "(x, a) \<in> insert (r, pe_promise e) I \<Longrightarrow> (x', a) \<in> insert (r, pe_promise e) I \<Longrightarrow> x = x'" for x x' a
    using d(4) d(5) old(2) by blast
  moreover have "consistent (sh_promises s')"
    using d(2) s'(2) by (auto simp: consistent_def promise_new_def)
  moreover have "hm_wf (pt_entries (sh_pending s'))"
      "pt_limit (sh_pending s') = rl_max_pending_calls (sh_limits s')"
    using wf s'(1,3) inv by (simp_all add: call_inv_def)
  ultimately show ?thesis
    unfolding call_inv_def using len entries acc by blast
qed

lemma remove_update_fresh: "map_of m k = None \<Longrightarrow> AList.delete k (AList.update k v m) = m"
  by (induction m) (auto split: if_splits)

lemma next_request_effect:
  assumes "next_request s = (s', r)"
  shows "sh_pending s' = sh_pending s" "sh_promises s' = sh_promises s" "sh_limits s' = sh_limits s"
    "sh_local_id s' = sh_local_id s" "unat (sh_next_request s) \<le> unat (sh_next_request s')"
    "sh_state s' = sh_state s" "sh_registry s' = sh_registry s"
    "r = Ok q \<Longrightarrow> req_origin q = sh_local_id s \<and> req_sequence q = sh_next_request s
       \<and> unat (sh_next_request s') = Suc (unat (sh_next_request s))"
proof -
  have step: "unat (v + 1) = Suc (unat v)" if "v \<noteq> - 1" for v :: u64
    using that by (metis unatSuc add.commute add_eq_0_iff2 add.inverse_inverse)
  show "sh_pending s' = sh_pending s" "sh_promises s' = sh_promises s" "sh_limits s' = sh_limits s"
    "sh_local_id s' = sh_local_id s" "unat (sh_next_request s) \<le> unat (sh_next_request s')"
    "sh_state s' = sh_state s" "sh_registry s' = sh_registry s"
    "r = Ok q \<Longrightarrow> req_origin q = sh_local_id s \<and> req_sequence q = sh_next_request s
       \<and> unat (sh_next_request s') = Suc (unat (sh_next_request s))"
    using assms step by (auto simp: next_request_def fetch_next_def request_id_new_def split: if_splits)
qed

lemma call_inv_issue:
  assumes inv: "call_inv I C s" and fresh: "hm_get (pt_entries (sh_pending s)) r = None"
    and req: "req_origin r = sh_local_id s" "unat (req_sequence r) < unat (sh_next_request s)"
    and run: "issue_call env pl a input opts ms r now s = (s', res)"
  shows "case res of
      Inr f \<Rightarrow> rf_request f = r \<and> call_inv (insert (r, rf_promise f) I) C s'
        \<and> (\<exists>e. hm_get (pt_entries (sh_pending s')) r = Some e \<and> pe_promise e = rf_promise f
             \<and> pe_expires_at e = now + so_deadline opts)
    | Inl x \<Rightarrow> (x = Panic \<longrightarrow> pl_locality pl \<noteq> sh_local_id s \<and> is_typed input) \<and> (x \<noteq> Panic \<longrightarrow> call_inv I C s')"
proof -
  let ?loc = "pl_locality pl = sh_local_id s" and ?P = "pt_entries (sh_pending s)"
  let ?s1 = "s\<lparr>sh_promises := sh_promises s @ [promise_new],
                   sh_flags := sh_flags s @ (if ?loc then [False] else [])\<rparr>"
  let ?e = "\<lparr>pe_promise = length (sh_promises s), pe_destination = pl_locality pl, pe_action = a,
                 pe_domain = pl_domain pl, pe_trace_id = so_trace_id opts, pe_expires_at = now + so_deadline opts,
                 pe_deadline = so_deadline opts, pe_cancel_token = (if ?loc then Some (length (sh_flags s)) else None)\<rparr>"
  have wf: "hm_wf ?P" by (rule call_invD(1) [OF inv])
  have inv1: "call_inv I C ?s1"
    by (rule call_inv_new_promise [OF inv]) simp_all
  consider "env_instant_max env < now + so_deadline opts"
    | "\<not> env_instant_max env < now + so_deadline opts" "pt_limit (sh_pending s) \<le> hm_len ?P"
    | "\<not> env_instant_max env < now + so_deadline opts" "hm_len ?P < pt_limit (sh_pending s)" by linarith
  then show ?thesis
  proof cases
    case 1
    then show ?thesis using run inv by (auto simp: issue_call_def Let_def)
  next
    case 2
    then show ?thesis using run inv1 by (auto simp: issue_call_def Let_def pending_insert_def)
  next
    case 3
    let ?s2 = "?s1\<lparr>sh_pending := (sh_pending s)\<lparr>pt_entries := hm_insert r ?e ?P\<rparr>\<rparr>"
    show ?thesis
    proof (cases "call_payload ?loc input")
      case (Inl x)
      then have "x = Panic" "\<not> ?loc" "is_typed input"
        by (auto simp: call_payload_def is_typed_def split: if_splits action_value.splits)
      with 3 run Inl show ?thesis
        by (auto simp: issue_call_def Let_def pending_insert_def)
    next
      case (Inr payload)
      let ?m = "\<lparr>rm_kind = RmRequest, rm_request = r, rm_action = a,
                 rm_domain = pl_domain pl, rm_deadline_ms = ms, rm_payload = payload\<rparr>"
      obtain s3 x where sub: "submit_call env pl input ?m (pe_cancel_token ?e) (so_trace_id opts) ?s2 = (s3, x)"
        by (cases "submit_call env pl input ?m (pe_cancel_token ?e) (so_trace_id opts) ?s2")
      have f: "sh_pending s3 = sh_pending ?s2" "sh_promises s3 = sh_promises ?s2" "sh_limits s3 = sh_limits s"
          "sh_local_id s3 = sh_local_id s" "sh_next_request s3 = sh_next_request s"
        using submit_call_frame [of env pl input ?m "pe_cancel_token ?e" "so_trace_id opts" ?s2] sub by simp_all
      have ins: "call_inv (insert (r, pe_promise ?e) I) C s3"
        by (rule call_inv_insert [OF inv fresh 3(2) _ req]) (use f in simp_all)
      show ?thesis
      proof (cases x)
        case (Inr u)
        with 3 run \<open>call_payload ?loc input = Inr payload\<close> sub
        have "s' = s3" "res = Inr (remote_future_new r (length (sh_promises s)))"
          by (auto simp: issue_call_def Let_def pending_insert_def)
        then show ?thesis
          using ins f wf by (simp add: remote_future_new_def)
      next
        case (Inl err)
        have "err \<noteq> Panic"
          using sub Inl by (auto simp: submit_call_def split: if_splits sum.splits prod.splits)
        moreover have "hm_remove r (hm_insert r ?e ?P) = ?P"
          using fresh by (simp add: hm_remove_def hm_insert_def hm_get_def remove_update_fresh)
        moreover have "s' = s3\<lparr>sh_pending := fst (pending_remove r (sh_pending s3))\<rparr>" "res = Inl err"
          using 3 run \<open>call_payload ?loc input = Inr payload\<close> sub Inl
          by (auto simp: issue_call_def Let_def pending_insert_def)
        moreover have "call_inv I C (s3\<lparr>sh_pending := sh_pending s\<rparr>)"
          by (rule call_inv_new_promise [OF inv]) (use f in simp_all)
        ultimately show ?thesis
          using f by (simp add: pending_remove_def)
      qed
    qed
  qed
qed

lemma call_inv_spawn:
  assumes inv: "call_inv I C s"
    and retry: "\<And>r. request = Some r \<Longrightarrow> (\<exists>a. (r, a) \<in> I) \<and> hm_get (pt_entries (sh_pending s)) r = None"
    and run: "spawn_inner env pl a input opts request now s = (s', res)"
  shows "case res of
      Inr f \<Rightarrow> call_inv (insert (rf_request f, rf_promise f) I) C s'
        \<and> (\<exists>e. hm_get (pt_entries (sh_pending s')) (rf_request f) = Some e \<and> pe_promise e = rf_promise f
             \<and> pe_expires_at e = now + so_deadline opts)
    | Inl x \<Rightarrow> x \<noteq> Panic \<and> call_inv I C s'"
proof (cases "is_ok (ensure_running s) \<and> so_deadline opts \<noteq> 0 \<and> registry_get (sh_registry s) a \<noteq> None
    \<and> \<not> (pl_locality pl \<noteq> sh_local_id s \<and> is_typed input) \<and> is_ok (deadline_millis (so_deadline opts))")
  case False
  with run inv show ?thesis
    by (auto simp: spawn_inner_def split: if_splits sum.splits)
next
  case True
  then obtain u ms where ok: "ensure_running s = Ok u" "deadline_millis (so_deadline opts) = Ok ms"
      "so_deadline opts \<noteq> 0" "registry_get (sh_registry s) a \<noteq> None"
      "\<not> (pl_locality pl \<noteq> sh_local_id s \<and> is_typed input)"
    by (auto simp: is_ok_iff)
  show ?thesis
  proof (cases request)
    case (Some r)
    then have "issue_call env pl a input opts ms r now s = (s', res)"
      using run ok by (simp add: spawn_inner_def split: if_splits)
    moreover have "req_origin r = sh_local_id s" "unat (req_sequence r) < unat (sh_next_request s)"
      using retry [OF Some] call_invD(5) [OF inv] by blast+
    ultimately have "case res of
      Inr f \<Rightarrow> rf_request f = r \<and> call_inv (insert (r, rf_promise f) I) C s'
        \<and> (\<exists>e. hm_get (pt_entries (sh_pending s')) r = Some e \<and> pe_promise e = rf_promise f
             \<and> pe_expires_at e = now + so_deadline opts)
      | Inl x \<Rightarrow> (x = Panic \<longrightarrow> pl_locality pl \<noteq> sh_local_id s \<and> is_typed input) \<and> (x \<noteq> Panic \<longrightarrow> call_inv I C s')"
      using retry [OF Some] by (intro call_inv_issue [OF inv]) auto
    with ok(5) show ?thesis by (cases res) auto
  next
    case None
    obtain s1 q where n: "next_request s = (s1, q)" by (cases "next_request s")
    note eff = next_request_effect [OF n]
    have inv1: "call_inv I C s1"
      by (rule call_inv_cong [OF _ _ _ _ _ inv]) (use eff in simp_all)
    show ?thesis
    proof (cases q)
      case (Inl e)
      with run ok n None inv1 show ?thesis by (auto simp: spawn_inner_def split: if_splits)
    next
      case (Inr r)
      have req: "req_origin r = sh_local_id s" "req_sequence r = sh_next_request s"
          "unat (sh_next_request s1) = Suc (unat (sh_next_request s))"
        using eff(8) [OF Inr] by simp_all
      have fresh: "hm_get (pt_entries (sh_pending s1)) r = None"
      proof (cases "hm_get (pt_entries (sh_pending s)) r")
        case (Some e)
        then have "unat (req_sequence r) < unat (sh_next_request s)"
          using call_invD(3,5) [OF inv] by blast
        with req show ?thesis by simp
      qed (simp add: eff)
      have "issue_call env pl a input opts ms r now s1 = (s', res)"
        using run ok n None Inr by (simp add: spawn_inner_def split: if_splits)
      from call_inv_issue [OF inv1 fresh _ _ this] have "case res of
      Inr f \<Rightarrow> rf_request f = r \<and> call_inv (insert (r, rf_promise f) I) C s'
        \<and> (\<exists>e. hm_get (pt_entries (sh_pending s')) r = Some e \<and> pe_promise e = rf_promise f
             \<and> pe_expires_at e = now + so_deadline opts)
      | Inl x \<Rightarrow> (x = Panic \<longrightarrow> pl_locality pl \<noteq> sh_local_id s1 \<and> is_typed input) \<and> (x \<noteq> Panic \<longrightarrow> call_inv I C s')"
        using req eff by simp
      with ok(5) eff(4) show ?thesis by (cases res) auto
    qed
  qed
qed

text \<open>
  The reachable states of the caller's side: any interleaving of calls, retries of ended calls,
  replies, local completions and rejections, send events, polls, deadlines, cancellations,
  failures, the shutdown and the drop of the runtime.
\<close>

inductive call_reach ::
  "'n env \<Rightarrow> (request_id \<times> promise_addr) set \<Rightarrow> promise_addr set \<Rightarrow> ('v, 'n) shared \<Rightarrow> bool"
  for env :: "'n env"
where
  start: "sh_pending s = pending_new (rl_max_pending_calls (sh_limits s)) \<Longrightarrow> sh_promises s = []
    \<Longrightarrow> call_reach env {} {} s"
| spawn: "call_reach env I C s
    \<Longrightarrow> (\<forall>r. request = Some r \<longrightarrow> (\<exists>a. (r, a) \<in> I) \<and> hm_get (pt_entries (sh_pending s)) r = None)
    \<Longrightarrow> spawn_inner env pl a input opts request now s = (s', Inr f)
    \<Longrightarrow> call_reach env (insert (rf_request f, rf_promise f) I) C s'"
| spawn_error: "call_reach env I C s
    \<Longrightarrow> (\<forall>r. request = Some r \<longrightarrow> (\<exists>a. (r, a) \<in> I) \<and> hm_get (pt_entries (sh_pending s)) r = None)
    \<Longrightarrow> spawn_inner env pl a input opts request now s = (s', Inl x)
    \<Longrightarrow> call_reach env I C s'"
| cancel: "call_reach env I C s \<Longrightarrow> call_reach env I (C \<union> pending_addr r s) (sh_cancel env r s)"
| reply: "call_reach env I C s \<Longrightarrow> call_reach env I C (fst (handle_reply env source m s))"
| local_done: "call_reach env I C s \<Longrightarrow> call_reach env I C (fst (complete_local r a c x s))"
| local_rejected: "call_reach env I C s \<Longrightarrow> call_reach env I C (reject_local r err s)"
| local_taken: "call_reach env I C s \<Longrightarrow> call_reach env I C (s\<lparr>sh_local_queue := tl (sh_local_queue s)\<rparr>)"
| sent: "call_reach env I C s \<Longrightarrow> call_reach env I C (send_complete ticket s)"
| not_sent: "call_reach env I C s \<Longrightarrow> call_reach env I C (fst (send_failed ticket terr s))"
| poll: "call_reach env I C s
    \<Longrightarrow> call_reach env I C (s\<lparr>sh_promises := (sh_promises s)[p := fst (promise_poll w (sh_promises s ! p))]\<rparr>)"
| expire: "call_reach env I C s \<Longrightarrow> call_reach env I C (expire_pending env now s)"
| failed: "call_reach env I C s \<Longrightarrow> call_reach env I C (sh_fail err s)"
| shutdown: "call_reach env I C s \<Longrightarrow> call_reach env I C (fst (begin_shutdown env s))"
| dropped: "call_reach env I C s \<Longrightarrow> call_reach env I C (runtime_drop s)"

lemma call_inv_poll:
  assumes inv: "call_inv I C s"
  shows "call_inv I C (s\<lparr>sh_promises := (sh_promises s)[p := fst (promise_poll w (sh_promises s ! p))]\<rparr>)"
proof -
  let ?q = "fst (promise_poll w (sh_promises s ! p))"
  have d: "pr_done ?q = pr_done (sh_promises s ! p)" "pr_result ?q = None"
    by (auto simp: promise_poll_def split: option.splits)
  have "pr_done ((sh_promises s)[p := ?q] ! a) = pr_done (sh_promises s ! a)" for a
    using d by (cases "a = p"; cases "p < length (sh_promises s)") (simp_all add: list_update_beyond)
  moreover have "consistent ((sh_promises s)[p := ?q])"
    by (rule consistent_update [OF call_invD(2) [OF inv]]) (simp add: d)
  ultimately show ?thesis
    using inv by (simp add: call_inv_def)
qed

lemma call_reach_inv: "call_reach env I C s \<Longrightarrow> call_inv I C s"
proof (induction rule: call_reach.induct)
  case (start s)
  then show ?case by (simp add: call_inv_def pending_new_def consistent_def hm_len_def)
next
  case (spawn I C s request pl a input opts now s' f)
  then show ?case using call_inv_spawn [of I C s request env pl a input opts now s' "Inr f"] by simp
next
  case (spawn_error I C s request pl a input opts now s' x)
  then show ?case using call_inv_spawn [of I C s request env pl a input opts now s' "Inl x"] by simp
next
  case (local_taken I C s)
  show ?case by (rule call_inv_cong [OF _ _ _ _ _ local_taken(2)]) simp_all
next
  case (sent I C s ticket)
  show ?case by (rule call_inv_cong [OF _ _ _ _ _ sent(2)]) (simp_all add: send_complete_def)
next
  case (reply I C s source m)
  then show ?case by (simp add: handle_reply_def call_inv_complete_pending)
qed (simp_all add: call_inv_cancel call_inv_complete_local call_inv_reject_local call_inv_send_failed
    call_inv_expire call_inv_fail call_inv_shutdown call_inv_runtime_drop call_inv_poll)

text \<open>
  C17. No call is lost and the table of pending calls never exceeds its limit: in every reachable
  state each call that was issued is pending, with its promise still open; or its promise has been completed; or it was cancelled by its caller.
\<close>

theorem calls_never_lost:
  assumes "call_reach env I C s" and "(r, a) \<in> I"
  shows "pending_len (sh_pending s) \<le> rl_max_pending_calls (sh_limits s)
    \<and> (pr_done (sh_promises s ! a) \<or> a \<in> C \<or> a \<in> pending_addr r s)
    \<and> (a \<in> pending_addr r s \<longrightarrow> \<not> pr_done (sh_promises s ! a))"
proof -
  have inv: "call_inv I C s" by (rule call_reach_inv [OF assms(1)])
  then have "pending_len (sh_pending s) \<le> rl_max_pending_calls (sh_limits s)"
    by (simp add: call_inv_def pending_len_def)
  moreover have "pr_done (sh_promises s ! a) \<or> a \<in> C \<or> a \<in> pending_addr r s"
    using call_invD(5) [OF inv assms(2)] by (auto simp: pending_addr_def)
  moreover have "\<not> pr_done (sh_promises s ! a)" if "a \<in> pending_addr r s"
    using that call_invD(3) [OF inv] by (auto simp: pending_addr_def)
  ultimately show ?thesis by blast
qed

text \<open>A runtime at locality 7 with one action, a transport that accepts everything, and its first call.\<close>

definition demo_env :: "u64 env" where
  "demo_env = \<lparr>env_try_send = (\<lambda>p n. (n + 1, Ok n)), env_protocol_text = (\<lambda>e. []),
     env_action_text = (\<lambda>e. []), env_instant_max = 10 ^ 30\<rparr>"

definition demo_shared :: "(unit, u64) shared" where
  "demo_shared = \<lparr>sh_state = StRunning, sh_local_id = 7, sh_run_id = 1, sh_limits = runtime_limits_default,
     sh_protocol_limits = limits_default, sh_net = 1,
     sh_registry = \<lparr>ar_entries = [(9, registered_action_new Inr)], ar_schemas = [(9, 1, 1)]\<rparr>,
     sh_pending = pending_new 1024, sh_promises = [], sh_flags = [], sh_local_queue = [], sh_local_open = True,
     sh_next_request = 1, sh_next_object = 1, sh_next_message = 1, sh_tickets = [], sh_completed = 0,
     sh_cancelled = 0, sh_timed_out = 0, sh_late_results = 0, sh_sent = (\<lambda>_. 0)\<rparr>"

definition demo_call :: "(unit, u64) shared \<times> (runtime_error fault, remote_future) result" where
  "demo_call = spawn_inner demo_env \<lparr>pl_locality = 7, pl_domain = 0\<rparr> 9 (AvTyped ())
     \<lparr>so_deadline = 10 ^ 9, so_trace_id = None\<rparr> None 5 demo_shared"

lemmas demo_eval = demo_call_def demo_shared_def demo_env_def spawn_inner_def ensure_running_def registry_get_def
  is_typed_def deadline_millis_def next_request_def fetch_next_def request_id_new_def issue_call_def
  pending_insert_def pending_new_def call_payload_def submit_call_def remote_future_new_def hm_get_def
  hm_len_def runtime_limits_default_def Let_def

lemma demo_call_ok:
  "demo_call = (fst demo_call, Inr \<lparr>rf_request = \<lparr>req_origin = 7, req_sequence = 1\<rparr>, rf_promise = 0, rf_finished = False\<rparr>)"
  by (simp add: demo_eval)

lemma demo_call_reach:
  "call_reach demo_env {(\<lparr>req_origin = 7, req_sequence = 1\<rparr>, 0)} {} (fst demo_call)"
proof -
  have "call_reach demo_env {} {} demo_shared"
    by (rule call_reach.start) (simp_all add: demo_shared_def runtime_limits_default_def)
  from call_reach.spawn [OF this _ demo_call_ok [unfolded demo_call_def]] show ?thesis
    by (simp add: demo_call_def)
qed

theorem calls_never_lost_witness:
  "0 \<in> pending_addr \<lparr>req_origin = 7, req_sequence = 1\<rparr> (fst demo_call)
     \<or> pr_done (sh_promises (fst demo_call) ! 0)"
  using calls_never_lost [OF demo_call_reach] by blast

text \<open>
  C21. A call ends by its deadline: once the pass over the pending calls at time \<open>now\<close> is made,
  which every \<open>progress\<close> starts with, each issued call is completed, was cancelled, or has a
  deadline still ahead.
\<close>

theorem calls_end_by_deadline:
  assumes "call_reach env I C s" and "(r, a) \<in> I" and s': "s' = expire_pending env now s"
  shows "pr_done (sh_promises s' ! a) \<or> a \<in> C
    \<or> (\<exists>e. hm_get (pt_entries (sh_pending s')) r = Some e \<and> pe_promise e = a \<and> now < pe_expires_at e)"
proof -
  have inv: "call_inv I C s" by (rule call_reach_inv [OF assms(1)])
  note d = call_invD(5) [OF call_inv_expire [OF inv, of env now] assms(2)]
  have "now < pe_expires_at e" if "hm_get (pt_entries (sh_pending s')) r = Some e" for e
  proof -
    obtain t es where ex: "pending_expired now (sh_pending s) = (t, es)" by (cases "pending_expired now (sh_pending s)")
    then have "sh_pending s' = t"
      by (simp add: s' expire_pending_def call_frame)
    with that expired_effect [OF call_invD(1) [OF inv], of now] ex show ?thesis
      by (auto split: option.splits if_splits)
  qed
  with d show ?thesis unfolding s' by blast
qed

theorem calls_end_by_deadline_witness:
  "pr_done (sh_promises (expire_pending demo_env (10 ^ 12) (fst demo_call)) ! 0)"
proof -
  have "hm_get (pt_entries (sh_pending (expire_pending demo_env (10 ^ 12) (fst demo_call))))
      \<lparr>req_origin = 7, req_sequence = 1\<rparr> = None"
    by (simp add: demo_eval expire_pending_def pending_expired_def pending_remove_def hm_insert_def hm_remove_def
        call_frame)
  with calls_end_by_deadline [OF demo_call_reach _ refl, of _ _ "10 ^ 12"] show ?thesis by auto
qed

text \<open>
  Nothing is left pending by a shutdown: after its first phase no call is pending or queued,
  every issued call is completed or was cancelled, and a later call is refused with \<open>Shutdown\<close>.
\<close>

theorem shutdown_ends_calls:
  assumes "call_reach env I C s" and "begin_shutdown env s = (s', Ok ())"
  shows "pt_entries (sh_pending s') = [] \<and> sh_local_queue s' = []
    \<and> (\<forall>r a. (r, a) \<in> I \<longrightarrow> pr_done (sh_promises s' ! a) \<or> a \<in> C)
    \<and> spawn_inner env pl k input opts request now s' = (s', Err (Fail ReShutdown))"
proof -
  have inv: "call_inv I C s'"
    using call_inv_shutdown [OF call_reach_inv [OF assms(1)], of env] assms(2) by simp
  have queue: "sh_local_queue (raise_local qs x) = sh_local_queue x" for qs and x :: "('b, 'a) shared"
    by (induction qs arbitrary: x) (simp_all add: raise_token_def)
  have 1: "pt_entries (sh_pending s') = []" "sh_local_queue s' = []" "sh_state s' = StDraining"
    using assms(2) by (auto simp: begin_shutdown_def pending_drain_def Let_def call_frame queue split: if_splits)
  have "pr_done (sh_promises s' ! a) \<or> a \<in> C" if "(r, a) \<in> I" for r a
    using call_invD(5) [OF inv that] 1(1) by simp
  with 1 show ?thesis by (simp add: spawn_inner_def ensure_running_def)
qed

theorem shutdown_ends_calls_witness:
  "pr_done (sh_promises (fst (begin_shutdown demo_env (fst demo_call))) ! 0)"
proof -
  have "sh_state (fst demo_call) = StRunning"
    by (simp add: demo_eval)
  then have "begin_shutdown demo_env (fst demo_call) = (fst (begin_shutdown demo_env (fst demo_call)), Ok ())"
    by (simp add: begin_shutdown_def split_beta Let_def)
  from shutdown_ends_calls [OF demo_call_reach this] show ?thesis by simp
qed

end
