(* ===== verification/Domains.thy ===== *)
theory Domains
  imports Actions Dedup
begin

text \<open>
  The execution domains of a runtime (\<open>crates/hataori-runtime/src/domain.rs\<close>): bounded queues of
  jobs in front of worker pools, and the channel on which the finished jobs come back.

  The pool is rayon's: a spawned job is run once by one of the workers. It appears here as the
  list of spawned jobs, of which any may be started next. \<open>execute_job\<close> is three steps, because
  its last action waits while the completion channel is full: \<open>job_start\<close>, \<open>job_finish\<close>,
  \<open>job_deliver\<close>. The counters that are decremented wrap below zero as \<open>fetch_sub\<close> does; the
  statistics wrap as \<open>fetch_add\<close> does.
\<close>

record domain_config =
  dcf_id :: domain_id
  dcf_workers :: usize
  dcf_queue_capacity :: usize

definition DOMAIN_DEFAULT :: domain_id where
  "DOMAIN_DEFAULT = 0"

definition domain_config_default :: domain_config where
  "domain_config_default = \<lparr>dcf_id = DOMAIN_DEFAULT, dcf_workers = 1, dcf_queue_capacity = 64\<rparr>"

record domain_stats =
  dst_queued :: usize
  dst_running :: usize
  dst_pending_completions :: usize
  dst_completed :: u64
  dst_cancelled_before_start :: u64
  dst_total_queue_latency_ns :: u64
  dst_max_queue_latency_ns :: u64
  dst_total_execution_ns :: u64
  dst_max_execution_ns :: u64

record object_job =
  oj_object :: object_id
  oj_read :: bool
  oj_placement :: bool

record 'v action_job =
  aj_requester :: locality_id
  aj_request :: request_id
  aj_action_id :: action_id
  aj_domain :: domain_id
  aj_trace_id :: "trace_id option"
  aj_input :: "'v action_value"
  aj_handler :: "'v registered_action"
  aj_cancelled :: flag
  aj_local :: bool
  aj_submitted_at :: instant
  aj_object :: "object_job option"

text \<open>\<open>ActionCompletion\<close>.\<close>

record 'v completion =
  cm_requester :: locality_id
  cm_request :: request_id
  cm_action_id :: action_id
  cm_domain :: domain_id
  cm_trace_id :: "trace_id option"
  cm_result :: "(action_error, 'v action_value) result"
  cm_cancelled :: bool
  cm_local :: bool
  cm_object :: "object_job option"

record domain_counters =
  dc_queued :: usize
  dc_running :: usize
  dc_inflight :: usize
  dc_completed :: u64
  dc_cancelled :: u64
  dc_queue_latency :: u64
  dc_max_queue_latency :: u64
  dc_execution :: u64
  dc_max_execution :: u64

definition counters_zero :: domain_counters where
  "counters_zero = \<lparr>dc_queued = 0, dc_running = 0, dc_inflight = 0, dc_completed = 0, dc_cancelled = 0,
     dc_queue_latency = 0, dc_max_queue_latency = 0, dc_execution = 0, dc_max_execution = 0\<rparr>"

definition snapshot :: "domain_counters \<Rightarrow> domain_stats" where
  "snapshot c = \<lparr>dst_queued = dc_queued c, dst_running = dc_running c,
     dst_pending_completions = dc_inflight c - saturating_add_usize (dc_queued c) (dc_running c),
     dst_completed = dc_completed c, dst_cancelled_before_start = dc_cancelled c,
     dst_total_queue_latency_ns = dc_queue_latency c, dst_max_queue_latency_ns = dc_max_queue_latency c,
     dst_total_execution_ns = dc_execution c, dst_max_execution_ns = dc_max_execution c\<rparr>"

text \<open>
  A job a worker has started is kept with the flag it read and the time it began; one whose
  completion waits for room in the channel is kept as that completion.
\<close>

record 'v started_job =
  sj_job :: "'v action_job"
  sj_cancelled :: bool
  sj_started_at :: instant

record 'v domain_executor =
  dx_workers :: usize
  dx_queue_capacity :: usize
  dx_counters :: domain_counters
  dx_pool :: "'v action_job list"
  dx_started :: "'v started_job list"
  dx_sending :: "'v completion list"

record 'v domain_registry =
  dr_domains :: "(domain_id, 'v domain_executor) hmap"
  dr_completions :: "'v completion list"
  dr_completion_capacity :: usize

fun add_domains ::
  "(domain_config \<Rightarrow> bool) \<Rightarrow> domain_config list \<Rightarrow> (domain_id, 'v domain_executor) hmap
     \<Rightarrow> (runtime_error, (domain_id, 'v domain_executor) hmap) result"
where
  "add_domains builds [] ds = Ok ds"
| "add_domains builds (c # cs) ds =
     (if dcf_workers c = 0 \<or> dcf_queue_capacity c < dcf_workers c
      then Err (ReInvalidLimits ''domain workers must be nonzero and fit in its queue capacity'')
      else if hm_get ds (dcf_id c) \<noteq> None then Err (ReInvalidLimits ''duplicate domain id'')
      else if \<not> builds c then Err (ReInvalidLimits ''failed to start domain workers'')
      else add_domains builds cs (hm_insert (dcf_id c)
             \<lparr>dx_workers = dcf_workers c, dx_queue_capacity = dcf_queue_capacity c,
              dx_counters = counters_zero, dx_pool = [], dx_started = [], dx_sending = []\<rparr> ds))"

text \<open>\<open>builds\<close> says whether the operating system gives the threads of a pool.\<close>

definition domain_registry_new ::
  "(domain_config \<Rightarrow> bool) \<Rightarrow> domain_config list \<Rightarrow> usize \<Rightarrow> (runtime_error, 'v domain_registry) result"
where
  "domain_registry_new builds configs completion_capacity =
     res_bind (add_domains builds configs []) (\<lambda>ds.
       Ok \<lparr>dr_domains = ds, dr_completions = [], dr_completion_capacity = completion_capacity\<rparr>)"

definition can_submit :: "'v domain_registry \<Rightarrow> domain_id \<Rightarrow> bool" where
  "can_submit r d =
     (case hm_get (dr_domains r) d of
        None \<Rightarrow> False
      | Some x \<Rightarrow> dc_queued (dx_counters x) < dx_queue_capacity x)"

definition put_domain :: "domain_id \<Rightarrow> 'v domain_executor \<Rightarrow> 'v domain_registry \<Rightarrow> 'v domain_registry" where
  "put_domain d x r = r\<lparr>dr_domains := hm_insert d x (dr_domains r)\<rparr>"

definition dom_submit :: "'v action_job \<Rightarrow> 'v domain_registry \<Rightarrow> 'v domain_registry \<times> (runtime_error, unit) result" where
  "dom_submit job r =
     (case hm_get (dr_domains r) (aj_domain job) of
        None \<Rightarrow> (r, Err (ReUnknownDomain (aj_domain job)))
      | Some x \<Rightarrow>
          (let c = dx_counters x in
           if dc_queued c < dx_queue_capacity x
           then (put_domain (aj_domain job)
                  (x\<lparr>dx_counters := c\<lparr>dc_queued := dc_queued c + 1, dc_inflight := dc_inflight c + 1\<rparr>,
                     dx_pool := dx_pool x @ [job]\<rparr>) r, Ok ())
           else (r, Err (ReResourceExhausted RkActionQueue (dx_queue_capacity x)))))"

text \<open>\<open>fetch_sub(1)\<close> on a \<open>usize\<close>.\<close>

definition fetch_dec :: "usize \<Rightarrow> usize" where
  "fetch_dec n = (if n = 0 then USIZE_MAX else n - 1)"

definition try_completion :: "'v domain_registry \<Rightarrow> 'v domain_registry \<times> 'v completion option" where
  "try_completion r =
     (case dr_completions r of
        [] \<Rightarrow> (r, None)
      | c # cs \<Rightarrow>
          (let r' = r\<lparr>dr_completions := cs\<rparr> in
           ((case hm_get (dr_domains r') (cm_domain c) of
               None \<Rightarrow> r'
             | Some x \<Rightarrow> put_domain (cm_domain c) (x\<lparr>dx_counters := (dx_counters x)
                 \<lparr>dc_inflight := fetch_dec (dc_inflight (dx_counters x))\<rparr>\<rparr>) r'), Some c)))"

text \<open>A \<open>BTreeMap\<close> is traversed in the order of its keys.\<close>

definition dom_stats :: "'v domain_registry \<Rightarrow> (domain_id \<times> domain_stats) list" where
  "dom_stats r = map (\<lambda>(d, x). (d, snapshot (dx_counters x))) (sort_key fst (dr_domains r))"

definition dom_idle :: "'v domain_registry \<Rightarrow> bool" where
  "dom_idle r = list_all (\<lambda>x. dc_inflight (dx_counters x) = 0) (hm_values (dr_domains r))"

definition nanos :: "duration \<Rightarrow> u64" where
  "nanos d = (if d < 2 ^ 64 then word_of_nat d else - 1)"

definition list_remove :: "nat \<Rightarrow> 'a list \<Rightarrow> 'a list" where
  "list_remove i xs = take i xs @ drop (Suc i) xs"

text \<open>A free worker takes spawned job \<open>i\<close> of the domain at time \<open>now\<close> and reads its cancel flag.\<close>

definition job_start :: "flags \<Rightarrow> domain_id \<Rightarrow> nat \<Rightarrow> instant \<Rightarrow> 'v domain_registry \<Rightarrow> 'v domain_registry" where
  "job_start fs d i now r =
     (case hm_get (dr_domains r) d of
        None \<Rightarrow> r
      | Some x \<Rightarrow>
          if i < length (dx_pool x) \<and> length (dx_started x) + length (dx_sending x) < dx_workers x
          then (let job = dx_pool x ! i; c = dx_counters x;
                    latency = nanos (now - aj_submitted_at job);
                    cancelled = fs ! aj_cancelled job in
            put_domain d (x\<lparr>
              dx_counters := c\<lparr>dc_queued := fetch_dec (dc_queued c), dc_running := dc_running c + 1,
                dc_queue_latency := dc_queue_latency c + latency,
                dc_max_queue_latency := max (dc_max_queue_latency c) latency,
                dc_cancelled := (if cancelled then dc_cancelled c + 1 else dc_cancelled c)\<rparr>,
              dx_pool := list_remove i (dx_pool x),
              dx_started := dx_started x @ [\<lparr>sj_job = job, sj_cancelled = cancelled, sj_started_at = now\<rparr>]\<rparr>) r)
          else r)"

definition job_completion :: "'v started_job \<Rightarrow> 'v completion" where
  "job_completion s = (let job = sj_job s in
     \<lparr>cm_requester = aj_requester job, cm_request = aj_request job, cm_action_id = aj_action_id job,
      cm_domain = aj_domain job, cm_trace_id = aj_trace_id job,
      cm_result = (if sj_cancelled s then Err (ae_user (lit ''action cancelled before execution''))
                   else execute (aj_handler job) (aj_input job)),
      cm_cancelled = sj_cancelled s, cm_local = aj_local job, cm_object = aj_object job\<rparr>)"

text \<open>The handler of started job \<open>i\<close> has returned, \<open>elapsed\<close> after the start.\<close>

definition job_finish :: "domain_id \<Rightarrow> nat \<Rightarrow> duration \<Rightarrow> 'v domain_registry \<Rightarrow> 'v domain_registry" where
  "job_finish d i elapsed r =
     (case hm_get (dr_domains r) d of
        None \<Rightarrow> r
      | Some x \<Rightarrow>
          if i < length (dx_started x)
          then (let c = dx_counters x in
            put_domain d (x\<lparr>
              dx_counters := c\<lparr>dc_execution := dc_execution c + nanos elapsed,
                dc_max_execution := max (dc_max_execution c) (nanos elapsed),
                dc_running := fetch_dec (dc_running c), dc_completed := dc_completed c + 1\<rparr>,
              dx_started := list_remove i (dx_started x),
              dx_sending := dx_sending x @ [job_completion (dx_started x ! i)]\<rparr>) r)
          else r)"

text \<open>The bounded channel takes the completion when it has room.\<close>

definition job_deliver :: "domain_id \<Rightarrow> nat \<Rightarrow> 'v domain_registry \<Rightarrow> 'v domain_registry" where
  "job_deliver d i r =
     (case hm_get (dr_domains r) d of
        None \<Rightarrow> r
      | Some x \<Rightarrow>
          if i < length (dx_sending x) \<and> length (dr_completions r) < dr_completion_capacity r
          then (put_domain d (x\<lparr>dx_sending := list_remove i (dx_sending x)\<rparr>) r)
                 \<lparr>dr_completions := dr_completions r @ [dx_sending x ! i]\<rparr>
          else r)"

subsection \<open>Every accepted job is answered once\<close>

lemma list_remove_length [simp]: "i < length xs \<Longrightarrow> length (list_remove i xs) = length xs - 1"
  by (simp add: list_remove_def)

lemma list_remove_mset: "i < length xs \<Longrightarrow> mset xs = add_mset (xs ! i) (mset (list_remove i xs))"
proof -
  assume i: "i < length xs"
  have "xs = take i xs @ xs ! i # drop (Suc i) xs" by (rule id_take_nth_drop [OF i])
  then have "mset xs = mset (take i xs @ xs ! i # drop (Suc i) xs)" by simp
  then show ?thesis by (simp add: list_remove_def)
qed

lemma list_remove_set: "set (list_remove i xs) \<subseteq> set xs"
  unfolding list_remove_def using set_take_subset [of i xs] set_drop_subset [of "Suc i" xs] by auto

definition answers :: "'v action_job \<Rightarrow> 'v completion \<Rightarrow> bool" where
  "answers job c \<longleftrightarrow> (\<exists>cancelled now. c = job_completion \<lparr>sj_job = job, sj_cancelled = cancelled, sj_started_at = now\<rparr>)"

text \<open>What the registry holds of the accepted jobs: a job itself, or its completion.\<close>

fun stands_for :: "'v action_job \<Rightarrow> 'v action_job + 'v completion \<Rightarrow> bool" where
  "stands_for job (Inl job') = (job' = job)"
| "stands_for job (Inr c) = answers job c"

definition executor_items :: "'v domain_executor \<Rightarrow> ('v action_job + 'v completion) multiset" where
  "executor_items x = mset (map Inl (dx_pool x)) + mset (map (\<lambda>s. Inl (sj_job s)) (dx_started x))
     + mset (map Inr (dx_sending x))"

definition registry_items :: "'v domain_registry \<Rightarrow> ('v action_job + 'v completion) multiset" where
  "registry_items r = hm_sum executor_items (dr_domains r) + mset (map Inr (dr_completions r))"

text \<open>The counters of one domain are those of the jobs it holds, and the limits hold.\<close>

definition from_domain :: "domain_id \<Rightarrow> 'v completion list \<Rightarrow> usize" where
  "from_domain d cs = length (filter (\<lambda>c. cm_domain c = d) cs)"

definition executor_ok :: "domain_id \<Rightarrow> 'v domain_executor \<Rightarrow> bool" where
  "executor_ok d x \<longleftrightarrow>
     dc_queued (dx_counters x) = length (dx_pool x) \<and> length (dx_pool x) \<le> dx_queue_capacity x
     \<and> dc_running (dx_counters x) = length (dx_started x)
     \<and> length (dx_started x) + length (dx_sending x) \<le> dx_workers x
     \<and> (\<forall>j\<in>set (dx_pool x). aj_domain j = d) \<and> (\<forall>s\<in>set (dx_started x). aj_domain (sj_job s) = d)
     \<and> (\<forall>c\<in>set (dx_sending x). cm_domain c = d)"

definition executor_inflight :: "domain_id \<Rightarrow> 'v domain_executor \<Rightarrow> 'v completion list \<Rightarrow> bool" where
  "executor_inflight d x cs \<longleftrightarrow> dc_inflight (dx_counters x)
     = length (dx_pool x) + length (dx_started x) + length (dx_sending x) + from_domain d cs"

definition registry_ok :: "'v domain_registry \<Rightarrow> bool" where
  "registry_ok r \<longleftrightarrow> hm_wf (dr_domains r) \<and> length (dr_completions r) \<le> dr_completion_capacity r
     \<and> (\<forall>c\<in>set (dr_completions r). hm_get (dr_domains r) (cm_domain c) \<noteq> None)
     \<and> (\<forall>d x. hm_get (dr_domains r) d = Some x \<longrightarrow> executor_ok d x \<and> executor_inflight d x (dr_completions r))"

text \<open>One step of the registry: a call of the runtime or an action of a worker.\<close>

datatype 'v dom_op =
  DoSubmit "'v action_job"
| DoReceive
| DoStart flags domain_id nat instant
| DoFinish domain_id nat duration
| DoDeliver domain_id nat

fun dom_do :: "'v dom_op \<Rightarrow> 'v domain_registry \<Rightarrow> 'v domain_registry" where
  "dom_do (DoSubmit j) r = fst (dom_submit j r)"
| "dom_do DoReceive r = fst (try_completion r)"
| "dom_do (DoStart fs d i now) r = job_start fs d i now r"
| "dom_do (DoFinish d i t) r = job_finish d i t r"
| "dom_do (DoDeliver d i) r = job_deliver d i r"

text \<open>The jobs the step accepted, and the completions it handed to the runtime.\<close>

fun dom_accepted :: "'v dom_op \<Rightarrow> 'v domain_registry \<Rightarrow> 'v action_job list" where
  "dom_accepted (DoSubmit j) r = (if is_ok (snd (dom_submit j r)) then [j] else [])"
| "dom_accepted _ r = []"

fun dom_received :: "'v dom_op \<Rightarrow> 'v domain_registry \<Rightarrow> 'v completion list" where
  "dom_received DoReceive r = (case snd (try_completion r) of None \<Rightarrow> [] | Some c \<Rightarrow> [c])"
| "dom_received _ r = []"

fun dom_run :: "'v dom_op list \<Rightarrow> 'v domain_registry \<Rightarrow> 'v domain_registry" where
  "dom_run [] r = r"
| "dom_run (p # ps) r = dom_run ps (dom_do p r)"

fun run_accepted :: "'v dom_op list \<Rightarrow> 'v domain_registry \<Rightarrow> 'v action_job list" where
  "run_accepted [] r = []"
| "run_accepted (p # ps) r = dom_accepted p r @ run_accepted ps (dom_do p r)"

fun run_received :: "'v dom_op list \<Rightarrow> 'v domain_registry \<Rightarrow> 'v completion list" where
  "run_received [] r = []"
| "run_received (p # ps) r = dom_received p r @ run_received ps (dom_do p r)"

text \<open>An operation rewrites one executor and the channel: what has to be shown of it.\<close>

lemma registry_ok_put:
  assumes "registry_ok r" "hm_get (dr_domains r) d = Some x"
    and "executor_ok d x'" "executor_inflight d x' cs"
    and "length cs \<le> dr_completion_capacity r" "set cs \<subseteq> set (dr_completions r) \<union> {c. cm_domain c = d}"
    and "\<And>e. e \<noteq> d \<Longrightarrow> from_domain e cs = from_domain e (dr_completions r)"
  shows "registry_ok ((put_domain d x' r)\<lparr>dr_completions := cs\<rparr>)"
proof -
  have "hm_get (dr_domains r) (cm_domain c') \<noteq> None" if "c' \<in> set cs" for c'
    using assms(1,2,6) that unfolding registry_ok_def by fastforce
  then show ?thesis
    using assms by (auto simp: registry_ok_def put_domain_def executor_inflight_def)
qed

lemma registry_items_put:
  assumes "hm_get (dr_domains r) d = Some x"
  shows "registry_items ((put_domain d x' r)\<lparr>dr_completions := cs\<rparr>) + executor_items x + mset (map Inr (dr_completions r))
    = registry_items r + executor_items x' + mset (map Inr cs)"
  using hm_sum_replace [OF assms, of executor_items x']
  by (simp add: registry_items_def put_domain_def add_ac)

lemma put_domain_keeps: "put_domain d x r = (put_domain d x r)\<lparr>dr_completions := dr_completions r\<rparr>"
  by (simp add: put_domain_def)

lemmas dom_defs = registry_ok_def executor_ok_def executor_inflight_def fetch_dec_def from_domain_def

lemma registry_ok_get:
  "registry_ok r \<Longrightarrow> hm_get (dr_domains r) d = Some x \<Longrightarrow> executor_ok d x \<and> executor_inflight d x (dr_completions r)"
  by (simp add: registry_ok_def)

lemma dom_submit_step:
  assumes "registry_ok r"
  shows "registry_ok (fst (dom_submit j r))"
    and "registry_items (fst (dom_submit j r)) = mset (map Inl (dom_accepted (DoSubmit j) r)) + registry_items r"
proof -
  let ?d = "aj_domain j"
  have "registry_ok (fst (dom_submit j r)) \<and>
    registry_items (fst (dom_submit j r)) = mset (map Inl (dom_accepted (DoSubmit j) r)) + registry_items r"
  proof (cases "\<exists>x. hm_get (dr_domains r) ?d = Some x \<and> dc_queued (dx_counters x) < dx_queue_capacity x")
    case False
    then show ?thesis
      using assms by (auto simp: dom_submit_def Let_def split: option.splits)
  next
    case True
    then obtain x where x: "hm_get (dr_domains r) ?d = Some x" "dc_queued (dx_counters x) < dx_queue_capacity x"
      by blast
    let ?c = "dx_counters x"
    let ?x = "x\<lparr>dx_counters := ?c\<lparr>dc_queued := dc_queued ?c + 1, dc_inflight := dc_inflight ?c + 1\<rparr>, dx_pool := dx_pool x @ [j]\<rparr>"
    have r': "dom_submit j r = (put_domain ?d ?x r, Ok ())"
      using x by (simp add: dom_submit_def Let_def)
    have "registry_ok ((put_domain ?d ?x r)\<lparr>dr_completions := dr_completions r\<rparr>)"
      using registry_ok_get [OF assms x(1)] assms x(2)
      by (intro registry_ok_put [OF assms x(1)])
        (auto simp: dom_defs job_completion_def)
    moreover have "registry_items (put_domain ?d ?x r) = add_mset (Inl j) (registry_items r)"
      using registry_items_put [OF x(1), where x' = "?x" and cs = "dr_completions r"] put_domain_keeps [of ?d ?x r]
      by (simp add: executor_items_def)
    ultimately show ?thesis using r' put_domain_keeps [of ?d ?x r] by simp
  qed
  then show "registry_ok (fst (dom_submit j r))"
    "registry_items (fst (dom_submit j r)) = mset (map Inl (dom_accepted (DoSubmit j) r)) + registry_items r" by auto
qed

lemma job_start_step:
  assumes "registry_ok r"
  shows "registry_ok (job_start fs d i now r) \<and> registry_items (job_start fs d i now r) = registry_items r"
proof (cases "\<exists>x. hm_get (dr_domains r) d = Some x \<and> i < length (dx_pool x)
    \<and> length (dx_started x) + length (dx_sending x) < dx_workers x")
  case False
  then show ?thesis using assms by (auto simp: job_start_def split: option.splits)
next
  case True
  then obtain x where x: "hm_get (dr_domains r) d = Some x" "i < length (dx_pool x)"
    "length (dx_started x) + length (dx_sending x) < dx_workers x" by blast
  have ok: "executor_ok d x \<and> executor_inflight d x (dr_completions r)" by (rule registry_ok_get [OF assms x(1)])
  obtain x' where r': "job_start fs d i now r = put_domain d x' r"
    and x': "dx_pool x' = list_remove i (dx_pool x)" "dx_sending x' = dx_sending x" "dx_workers x' = dx_workers x"
      "dx_queue_capacity x' = dx_queue_capacity x"
      "\<exists>b. dx_started x' = dx_started x @ [\<lparr>sj_job = dx_pool x ! i, sj_cancelled = b, sj_started_at = now\<rparr>]"
      "dc_queued (dx_counters x') = fetch_dec (dc_queued (dx_counters x))"
      "dc_running (dx_counters x') = dc_running (dx_counters x) + 1"
      "dc_inflight (dx_counters x') = dc_inflight (dx_counters x)"
    using x by (auto simp: job_start_def Let_def)
  have "executor_ok d x'" "executor_inflight d x' (dr_completions r)"
    using ok x x' list_remove_set [of i "dx_pool x"] nth_mem [OF x(2)]
    by (auto simp: dom_defs)
  then have "registry_ok ((put_domain d x' r)\<lparr>dr_completions := dr_completions r\<rparr>)"
    using assms ok x nth_mem [OF x(2)]
    by (intro registry_ok_put [OF assms x(1)])
      (auto simp: dom_defs job_completion_def)
  moreover have "executor_items x' = executor_items x"
    using x'(1,2,5) by (auto simp: executor_items_def list_remove_mset [OF x(2)])
  then have "registry_items (put_domain d x' r) = registry_items r"
    using registry_items_put [OF x(1), where x' = "x'" and cs = "dr_completions r"] put_domain_keeps [of d x' r] by simp
  ultimately show ?thesis using r' put_domain_keeps [of d x' r] by simp
qed

lemma job_finish_step:
  assumes "registry_ok r"
  shows "registry_ok (job_finish d i t r)"
    and "registry_items (job_finish d i t r) = registry_items r \<or>
      (\<exists>M s. registry_items r = add_mset (Inl (sj_job s)) M
        \<and> registry_items (job_finish d i t r) = add_mset (Inr (job_completion s)) M)"
proof -
  have "registry_ok (job_finish d i t r) \<and> (registry_items (job_finish d i t r) = registry_items r \<or>
      (\<exists>M s. registry_items r = add_mset (Inl (sj_job s)) M
        \<and> registry_items (job_finish d i t r) = add_mset (Inr (job_completion s)) M))"
  proof (cases "\<exists>x. hm_get (dr_domains r) d = Some x \<and> i < length (dx_started x)")
    case False
    then show ?thesis using assms by (auto simp: job_finish_def split: option.splits)
  next
    case True
    then obtain x where x: "hm_get (dr_domains r) d = Some x" "i < length (dx_started x)" by blast
    let ?s = "dx_started x ! i"
    have ok: "executor_ok d x \<and> executor_inflight d x (dr_completions r)" by (rule registry_ok_get [OF assms x(1)])
    have dom: "cm_domain (job_completion ?s) = d"
      using ok nth_mem [OF x(2)] by (auto simp: executor_ok_def job_completion_def Let_def)
    obtain x' where r': "job_finish d i t r = put_domain d x' r"
      and x': "dx_pool x' = dx_pool x" "dx_sending x' = dx_sending x @ [job_completion ?s]" "dx_workers x' = dx_workers x"
        "dx_queue_capacity x' = dx_queue_capacity x" "dx_started x' = list_remove i (dx_started x)"
        "dc_queued (dx_counters x') = dc_queued (dx_counters x)"
        "dc_running (dx_counters x') = fetch_dec (dc_running (dx_counters x))"
        "dc_inflight (dx_counters x') = dc_inflight (dx_counters x)"
      using x by (auto simp: job_finish_def Let_def)
    have "executor_ok d x'" "executor_inflight d x' (dr_completions r)"
      using ok x x' dom list_remove_set [of i "dx_started x"]
      by (auto simp: dom_defs)
    then have "registry_ok ((put_domain d x' r)\<lparr>dr_completions := dr_completions r\<rparr>)"
      using assms ok x dom
      by (intro registry_ok_put [OF assms x(1)]) (auto simp: dom_defs)
    moreover have "\<exists>M. registry_items r = add_mset (Inl (sj_job ?s)) M
        \<and> registry_items (put_domain d x' r) = add_mset (Inr (job_completion ?s)) M"
    proof -
      let ?E = "mset (map Inl (dx_pool x)) + mset (map (\<lambda>s. Inl (sj_job s)) (dx_started x')) + mset (map Inr (dx_sending x))"
      have e: "executor_items x = add_mset (Inl (sj_job ?s)) ?E" "executor_items x' = add_mset (Inr (job_completion ?s)) ?E"
        using x' by (simp_all add: executor_items_def list_remove_mset [OF x(2)])
      have "executor_items x \<subseteq># hm_sum executor_items (dr_domains r)"
        using hm_sum_remove [of "dr_domains r" d x executor_items] assms x(1)
        by (metis mset_subset_eq_add_right registry_ok_def)
      then obtain N where N: "hm_sum executor_items (dr_domains r) = executor_items x + N"
        by (auto simp: subset_mset.le_iff_add)
      then have "registry_items r = add_mset (Inl (sj_job ?s)) (?E + N + mset (map Inr (dr_completions r)))"
        by (simp add: registry_items_def e)
      moreover have "registry_items (put_domain d x' r) = add_mset (Inr (job_completion ?s)) (?E + N + mset (map Inr (dr_completions r)))"
        using registry_items_put [OF x(1), where x' = "x'" and cs = "dr_completions r"] put_domain_keeps [of d x' r] N
        by (simp add: registry_items_def e)
      ultimately show ?thesis by blast
    qed
    ultimately show ?thesis using r' put_domain_keeps [of d x' r] by auto
  qed
  then show "registry_ok (job_finish d i t r)"
    "registry_items (job_finish d i t r) = registry_items r \<or>
      (\<exists>M s. registry_items r = add_mset (Inl (sj_job s)) M
        \<and> registry_items (job_finish d i t r) = add_mset (Inr (job_completion s)) M)" by auto
qed

lemma job_deliver_step:
  assumes "registry_ok r"
  shows "registry_ok (job_deliver d i r) \<and> registry_items (job_deliver d i r) = registry_items r"
proof (cases "\<exists>x. hm_get (dr_domains r) d = Some x \<and> i < length (dx_sending x)
    \<and> length (dr_completions r) < dr_completion_capacity r")
  case False
  then show ?thesis using assms by (auto simp: job_deliver_def split: option.splits)
next
  case True
  then obtain x where x: "hm_get (dr_domains r) d = Some x" "i < length (dx_sending x)"
    "length (dr_completions r) < dr_completion_capacity r" by blast
  let ?c = "dx_sending x ! i"
  let ?x = "x\<lparr>dx_sending := list_remove i (dx_sending x)\<rparr>"
  have ok: "executor_ok d x \<and> executor_inflight d x (dr_completions r)" by (rule registry_ok_get [OF assms x(1)])
  have dom: "cm_domain ?c = d" using ok nth_mem [OF x(2)] by (auto simp: executor_ok_def)
  have r': "job_deliver d i r = (put_domain d ?x r)\<lparr>dr_completions := dr_completions r @ [?c]\<rparr>"
    using x by (simp add: job_deliver_def)
  have "registry_ok ((put_domain d ?x r)\<lparr>dr_completions := dr_completions r @ [?c]\<rparr>)"
    using assms ok x dom list_remove_set [of i "dx_sending x"]
    by (intro registry_ok_put [OF assms x(1)]) (auto simp: dom_defs intro: le_trans [OF diff_le_self])
  moreover have "registry_items ((put_domain d ?x r)\<lparr>dr_completions := dr_completions r @ [?c]\<rparr>) = registry_items r"
    using registry_items_put [OF x(1), where x' = "?x" and cs = "dr_completions r @ [?c]"]
    by (simp add: executor_items_def list_remove_mset [OF x(2)])
  ultimately show ?thesis using r' by simp
qed

lemma try_completion_step:
  assumes "registry_ok r"
  shows "registry_ok (fst (try_completion r))"
    and "registry_items r = registry_items (fst (try_completion r)) + mset (map Inr (dom_received DoReceive r))"
proof -
  have "registry_ok (fst (try_completion r)) \<and>
    registry_items r = registry_items (fst (try_completion r)) + mset (map Inr (dom_received DoReceive r))"
  proof (cases "dr_completions r")
    case Nil
    then show ?thesis using assms by (simp add: try_completion_def)
  next
    case (Cons c cs)
    then obtain x where x: "hm_get (dr_domains r) (cm_domain c) = Some x"
      using assms by (auto simp: registry_ok_def)
    let ?x = "x\<lparr>dx_counters := (dx_counters x)\<lparr>dc_inflight := fetch_dec (dc_inflight (dx_counters x))\<rparr>\<rparr>"
    have r': "try_completion r = ((put_domain (cm_domain c) ?x r)\<lparr>dr_completions := cs\<rparr>, Some c)"
      using Cons x by (simp add: try_completion_def put_domain_def Let_def)
    have "registry_ok ((put_domain (cm_domain c) ?x r)\<lparr>dr_completions := cs\<rparr>)"
      using assms registry_ok_get [OF assms x] Cons
      by (intro registry_ok_put [OF assms x]) (auto simp: dom_defs)
    moreover have "registry_items r = add_mset (Inr c) (registry_items ((put_domain (cm_domain c) ?x r)\<lparr>dr_completions := cs\<rparr>))"
      using registry_items_put [OF x, where x' = "?x" and cs = cs] Cons by (simp add: executor_items_def)
    ultimately show ?thesis using r' by simp
  qed
  then show "registry_ok (fst (try_completion r))"
    "registry_items r = registry_items (fst (try_completion r)) + mset (map Inr (dom_received DoReceive r))" by auto
qed

lemma dom_do_ok: "registry_ok r \<Longrightarrow> registry_ok (dom_do p r)"
  by (cases p) (simp_all add: dom_submit_step(1) try_completion_step(1) job_start_step job_finish_step(1) job_deliver_step)

lemma stands_for_finish:
  "rel_mset stands_for A (add_mset (Inl (sj_job s)) M) \<Longrightarrow> rel_mset stands_for A (add_mset (Inr (job_completion s)) M)"
proof -
  assume "rel_mset stands_for A (add_mset (Inl (sj_job s)) M)"
  then obtain j A' where A: "A = add_mset j A'" "stands_for j (Inl (sj_job s))" "rel_mset stands_for A' M"
    by (auto dest: msed_rel_invR)
  have "answers (sj_job s) (job_completion s)"
    unfolding answers_def by (rule exI [of _ "sj_cancelled s"], rule exI [of _ "sj_started_at s"]) (cases s, simp)
  then show ?thesis using A by (auto intro: rel_mset_Plus)
qed

lemma stands_for_add: "rel_mset stands_for A M \<Longrightarrow> rel_mset stands_for (mset js + A) (mset (map Inl js) + M)"
  by (induction js) (auto intro: rel_mset_Plus)

lemma dom_do_items:
  assumes "registry_ok r" "rel_mset stands_for A (registry_items r + R)"
  shows "rel_mset stands_for (mset (dom_accepted p r) + A)
    (registry_items (dom_do p r) + (mset (map Inr (dom_received p r)) + R))"
proof (cases p)
  case (DoSubmit j)
  then show ?thesis
    using stands_for_add [OF assms(2), of "dom_accepted p r"] dom_submit_step(2) [OF assms(1), of j]
    by (simp add: add.assoc)
next
  case DoReceive
  then show ?thesis using assms(2) try_completion_step(2) [OF assms(1)] by (simp add: add.assoc)
next
  case (DoStart fs d i now)
  then show ?thesis using assms job_start_step [OF assms(1)] by simp
next
  case (DoFinish d i t)
  then show ?thesis
    using assms(2) job_finish_step(2) [OF assms(1), of d i t] stands_for_finish by fastforce
next
  case (DoDeliver d i)
  then show ?thesis using assms job_deliver_step [OF assms(1)] by simp
qed

lemma dom_run_items:
  assumes "registry_ok r" "rel_mset stands_for A (registry_items r + R)"
  shows "registry_ok (dom_run ps r) \<and> rel_mset stands_for (A + mset (run_accepted ps r))
    (registry_items (dom_run ps r) + (R + mset (map Inr (run_received ps r))))"
  using assms
proof (induction ps arbitrary: r A R)
  case (Cons p ps)
  from Cons.IH [OF dom_do_ok [OF Cons.prems(1)] dom_do_items [OF Cons.prems]] show ?case
    by (simp add: add_ac)
qed simp

lemma add_domains_fresh:
  "add_domains builds cs ds = Ok ds' \<Longrightarrow> hm_wf ds \<Longrightarrow> (\<forall>d x. hm_get ds d = Some x \<longrightarrow> executor_ok d x
     \<and> executor_inflight d x [] \<and> executor_items x = {#}) \<Longrightarrow>
   hm_wf ds' \<and> (\<forall>d x. hm_get ds' d = Some x \<longrightarrow> executor_ok d x \<and> executor_inflight d x [] \<and> executor_items x = {#})"
proof (induction cs arbitrary: ds)
  case (Cons c cs)
  let ?x = "\<lparr>dx_workers = dcf_workers c, dx_queue_capacity = dcf_queue_capacity c,
      dx_counters = counters_zero, dx_pool = [], dx_started = [], dx_sending = []\<rparr> :: 'a domain_executor"
  have new: "executor_ok (dcf_id c) ?x" "executor_inflight (dcf_id c) ?x []" "executor_items ?x = {#}"
    by (simp_all add: dom_defs counters_zero_def executor_items_def)
  show ?case
    by (rule Cons.IH [of "hm_insert (dcf_id c) ?x ds"]) (use Cons.prems new in \<open>auto split: if_splits\<close>)
qed simp

lemma registry_new_ok: "domain_registry_new builds configs k = Ok r \<Longrightarrow> registry_ok r \<and> registry_items r = {#}"
  using add_domains_fresh [of builds configs "[]" "dr_domains r"]
  by (auto simp: domain_registry_new_def registry_ok_def registry_items_def intro!: hm_sum_zero)

lemma idle_holds_nothing: "registry_ok r \<Longrightarrow> dom_idle r \<longleftrightarrow> registry_items r = {#}"
proof
  assume r: "registry_ok r" "dom_idle r"
  have zero: "dc_inflight (dx_counters x) = 0" if "hm_get (dr_domains r) d = Some x" for d x
    using r(2) hm_get_mem [OF that] by (simp add: dom_idle_def list_all_iff)
  then have x: "executor_items x = {#}" "from_domain d (dr_completions r) = 0" if "hm_get (dr_domains r) d = Some x" for d x
    using registry_ok_get [OF r(1) that] zero [OF that] by (auto simp: executor_inflight_def executor_items_def)
  have "dr_completions r = []"
  proof (rule ccontr)
    assume "dr_completions r \<noteq> []"
    then obtain c where c: "c \<in> set (dr_completions r)" by (cases "dr_completions r") auto
    then obtain x' where "hm_get (dr_domains r) (cm_domain c) = Some x'" using r(1) by (auto simp: registry_ok_def)
    from x(2) [OF this] c show False by (auto simp: from_domain_def filter_empty_conv)
  qed
  moreover have "hm_sum executor_items (dr_domains r) = {#}"
    using x(1) r(1) by (auto simp: registry_ok_def intro!: hm_sum_zero)
  ultimately show "registry_items r = {#}" by (simp add: registry_items_def)
next
  assume r: "registry_ok r" "registry_items r = {#}"
  have "dc_inflight (dx_counters x) = 0" if "hm_get (dr_domains r) d = Some x" for d x
  proof -
    have "executor_items x = {#}"
      using hm_sum_remove [of "dr_domains r" d x executor_items] r that by (auto simp: registry_ok_def registry_items_def)
    then show ?thesis
      using registry_ok_get [OF r(1) that] r(2)
      by (auto simp: executor_items_def executor_inflight_def registry_items_def from_domain_def)
  qed
  moreover have "hm_wf (dr_domains r)" using r(1) by (simp add: registry_ok_def)
  ultimately have "dc_inflight (dx_counters x) = 0" if "x \<in> set (hm_values (dr_domains r))" for x
    using hm_mem_get [OF _ that] by blast
  then show "dom_idle r" by (simp add: dom_idle_def list_all_iff)
qed

text \<open>
  C26. Every accepted job is answered exactly once. After any interleaving of submissions, worker
  steps and receptions, the accepted jobs are one for one those still held by the registry or
  answered by a completion received; once the registry is idle the completions received answer
  all of them, each with the identity of its job and the result of running its handler on its
  input, or the cancellation. The registry is idle exactly when it holds no job and no completion.
\<close>

theorem domain_jobs_answered_once:
  assumes "domain_registry_new builds configs k = Ok r"
  shows "rel_mset stands_for (mset (run_accepted ops r))
      (registry_items (dom_run ops r) + mset (map Inr (run_received ops r)))
    \<and> (dom_idle (dom_run ops r) \<longleftrightarrow> registry_items (dom_run ops r) = {#})
    \<and> (dom_idle (dom_run ops r) \<longrightarrow> rel_mset answers (mset (run_accepted ops r)) (mset (run_received ops r)))"
proof -
  have ok: "registry_ok r" "registry_items r = {#}" using registry_new_ok [OF assms] by simp_all
  have run: "registry_ok (dom_run ops r)" "rel_mset stands_for (mset (run_accepted ops r))
      (registry_items (dom_run ops r) + mset (map Inr (run_received ops r)))"
    using dom_run_items [OF ok(1), of "{#}" "{#}" ops] ok(2) by (auto simp: rel_mset_Zero)
  have "rel_mset answers A C" if "rel_mset stands_for A (image_mset Inr C)" for A and C :: "'a completion multiset"
    using that
  proof (induction C arbitrary: A)
    case empty
    then show ?case by (auto simp: rel_mset_Zero dest: msed_rel_invR rel_mset_size)
  next
    case (add c C)
    then obtain j A' where "A = add_mset j A'" "answers j c" "rel_mset stands_for A' (image_mset Inr C)"
      by (auto dest!: msed_rel_invR)
    with add.IH show ?case by (auto intro: rel_mset_Plus)
  qed
  with run idle_holds_nothing [OF run(1)] show ?thesis by auto
qed

definition demo_job :: "nat \<Rightarrow> unit action_job" where
  "demo_job n = \<lparr>aj_requester = 8, aj_request = \<lparr>req_origin = 8, req_sequence = word_of_nat n\<rparr>, aj_action_id = 9,
     aj_domain = 0, aj_trace_id = None, aj_input = AvEncoded [[1, 2]], aj_handler = registered_action_new (\<lambda>s. Ok (rev s)),
     aj_cancelled = n, aj_local = False, aj_submitted_at = 0, aj_object = None\<rparr>"

definition demo_dom_ops :: "unit dom_op list" where
  "demo_dom_ops = [DoSubmit (demo_job 1), DoSubmit (demo_job 2), DoStart [False, False, True] 0 1 5,
     DoFinish 0 0 7, DoDeliver 0 0, DoReceive]"

theorem domain_jobs_answered_once_witness:
  "\<exists>r. domain_registry_new (\<lambda>_. True) [domain_config_default] 4 = Ok r
    \<and> rel_mset stands_for (mset (run_accepted demo_dom_ops r))
      (registry_items (dom_run demo_dom_ops r) + mset (map Inr (run_received demo_dom_ops r)))"
proof -
  obtain r :: "unit domain_registry" where r: "domain_registry_new (\<lambda>_. True) [domain_config_default] 4 = Ok r"
    by (simp add: domain_registry_new_def domain_config_default_def)
  with domain_jobs_answered_once [OF r, of demo_dom_ops] show ?thesis by blast
qed

text \<open>
  The queue of a domain never exceeds its capacity, no more jobs run than it has workers, the
  completion channel never exceeds its capacity, and the statistics count exactly the jobs
  waiting, running and finished but not yet received, after any interleaving of submissions,
  worker steps and receptions. A submission is accepted exactly when \<open>can_submit\<close> says so.
\<close>

theorem domain_queues_bounded:
  assumes "domain_registry_new builds configs k = Ok r0" "r = dom_run ops r0"
    and "hm_get (dr_domains r) d = Some x" "dx_queue_capacity x + dx_workers x \<le> USIZE_MAX"
  shows "dst_queued (snapshot (dx_counters x)) = length (dx_pool x) \<and> length (dx_pool x) \<le> dx_queue_capacity x
    \<and> dst_running (snapshot (dx_counters x)) = length (dx_started x)
    \<and> length (dx_started x) + length (dx_sending x) \<le> dx_workers x
    \<and> dst_pending_completions (snapshot (dx_counters x)) = length (dx_sending x) + from_domain d (dr_completions r)
    \<and> length (dr_completions r) \<le> dr_completion_capacity r
    \<and> (\<forall>j. aj_domain j = d \<longrightarrow> is_ok (snd (dom_submit j r)) = can_submit r d)"
proof -
  have "registry_ok r"
    using dom_run_items [of r0 "{#}" "{#}" ops] registry_new_ok [OF assms(1)] assms(2) by (simp add: rel_mset_Zero)
  moreover note x = registry_ok_get [OF this assms(3)]
  moreover have "min (length (dx_pool x) + length (dx_started x)) USIZE_MAX = length (dx_pool x) + length (dx_started x)"
    using x assms(4) by (simp add: executor_ok_def)
  ultimately show ?thesis
    using assms(3)
    by (auto simp: dom_defs snapshot_def saturating_add_usize_def dom_submit_def can_submit_def Let_def)
qed

theorem domain_queues_bounded_witness:
  "\<exists>r x. hm_get (dr_domains (dom_run demo_dom_ops r)) 0 = Some x
    \<and> dst_queued (snapshot (dx_counters x)) = length (dx_pool x) \<and> length (dx_pool x) \<le> dx_queue_capacity x"
proof -
  let ?c = domain_config_default
  obtain r :: "unit domain_registry" where r: "domain_registry_new (\<lambda>_. True) [?c] 4 = Ok r"
    by (simp add: domain_registry_new_def domain_config_default_def)
  have "\<exists>x. hm_get (dr_domains (dom_run demo_dom_ops r)) 0 = Some x \<and> dx_queue_capacity x = 64 \<and> dx_workers x = 1"
    using r by (auto simp: domain_registry_new_def domain_config_default_def DOMAIN_DEFAULT_def demo_dom_ops_def
        dom_submit_def put_domain_def hm_get_def hm_insert_def job_start_def job_finish_def job_deliver_def
        try_completion_def counters_zero_def demo_job_def job_completion_def list_remove_def fetch_dec_def Let_def)
  then obtain x where x: "hm_get (dr_domains (dom_run demo_dom_ops r)) 0 = Some x" "dx_queue_capacity x + dx_workers x \<le> USIZE_MAX"
    by (auto simp: USIZE_MAX_def)
  from domain_queues_bounded [OF r refl x] x(1) show ?thesis by blast
qed

end
