(* ===== verification/Responses.thy ===== *)
theory Responses
  imports Calls Domains
begin

text \<open>
  The replies a runtime owes (\<open>queue_response\<close>, \<open>drain_responses\<close>, \<open>send_failure\<close>,
  \<open>send_and_cache_moved\<close>, \<open>send_and_cache_failure\<close> and the remote branch of \<open>handle_completion\<close> in
  \<open>crates/hataori-runtime/src/runtime.rs\<close>): a bounded queue drained into the transport, with the
  replies kept in the deduplication table once they are sent. The clock gives the time of each
  entry made in that table.
\<close>

record queued_response =
  qr_destination :: locality_id
  qr_message :: rt_message
  qr_trace_id :: "trace_id option"
  qr_cache :: bool
  qr_bytes :: usize

record ('v, 'n) server =
  sv_shared :: "('v, 'n) shared"
  sv_dedup :: dedup_table
  sv_responses :: "queued_response list"
  sv_response_bytes :: usize
  sv_action_failures :: u64

definition queue_response ::
  "locality_id \<Rightarrow> rt_message \<Rightarrow> trace_id option \<Rightarrow> bool \<Rightarrow> ('v, 'n) server
     \<Rightarrow> ('v, 'n) server \<times> (runtime_error, unit) result"
where
  "queue_response destination m trace cache sv =
     (let l = sh_limits (sv_shared sv);
          full = ReResourceExhausted RkDedupBytes (rl_max_dedup_bytes l) in
      case checked_total (rm_payload m) of
        None \<Rightarrow> (sv, Err full)
      | Some n \<Rightarrow>
          (case checked_add_usize (sv_response_bytes sv) n of
             None \<Rightarrow> (sv, Err full)
           | Some next_bytes \<Rightarrow>
               if rl_max_dedup_entries l \<le> length (sv_responses sv)
               then (sv, Err (ReResourceExhausted RkDedupEntries (rl_max_dedup_entries l)))
               else if rl_max_dedup_bytes l < next_bytes then (sv, Err full)
               else (sv\<lparr>sv_response_bytes := next_bytes, sv_responses := sv_responses sv @
                       [\<lparr>qr_destination = destination, qr_message = m, qr_trace_id = trace,
                         qr_cache = cache, qr_bytes = n\<rparr>]\<rparr>, Ok ())))"

definition send_failure ::
  "locality_id \<Rightarrow> rt_message \<Rightarrow> bytes \<Rightarrow> trace_id option \<Rightarrow> ('v, 'n) server
     \<Rightarrow> ('v, 'n) server \<times> (runtime_error, unit) result"
where
  "send_failure destination request message trace sv =
     queue_response destination (failure_message request message) trace False sv"

definition send_and_cache_failure ::
  "locality_id \<Rightarrow> rt_message \<Rightarrow> bytes \<Rightarrow> trace_id option \<Rightarrow> ('v, 'n) server
     \<Rightarrow> ('v, 'n) server \<times> (runtime_error, unit) result"
where
  "send_and_cache_failure destination request error trace sv =
     queue_response destination (failure_message request error) trace True sv"

definition moved_message :: "rt_message \<Rightarrow> object_id \<Rightarrow> object_location \<Rightarrow> rt_message" where
  "moved_message request obj location =
     \<lparr>rm_kind = RmMoved, rm_request = rm_request request, rm_action = rm_action request,
      rm_domain = rm_domain request, rm_deadline_ms = 0,
      rm_payload = [u128_le (oid_run obj) @ u128_le (oid_unique obj), encode_location location]\<rparr>"

definition send_and_cache_moved ::
  "locality_id \<Rightarrow> rt_message \<Rightarrow> object_id \<Rightarrow> object_location \<Rightarrow> trace_id option \<Rightarrow> ('v, 'n) server
     \<Rightarrow> ('v, 'n) server \<times> (runtime_error, unit) result"
where
  "send_and_cache_moved destination request obj location trace sv =
     queue_response destination (moved_message request obj location) trace True sv"

definition completion_message :: "rt_kind \<Rightarrow> segments \<Rightarrow> 'v completion \<Rightarrow> rt_message" where
  "completion_message k payload c = \<lparr>rm_kind = k, rm_request = cm_request c, rm_action = cm_action_id c,
     rm_domain = cm_domain c, rm_deadline_ms = 0, rm_payload = payload\<rparr>"

definition complete_remote ::
  "'v completion \<Rightarrow> ('v, 'n) server \<Rightarrow> ('v, 'n) server \<times> (runtime_error, unit) result"
where
  "complete_remote c sv =
     (let reply = (\<lambda>k payload sv. queue_response (cm_requester c) (completion_message k payload c)
            (cm_trace_id c) True sv) in
      if cm_cancelled c then reply RmCancelled [] sv
      else (case cm_result c of
          Inr (AvEncoded payload) \<Rightarrow> reply RmSuccess payload sv
        | Inr (AvTyped v) \<Rightarrow> (sv, Err (ReProtocol (lit ''remote action produced typed output'')))
        | Inl e \<Rightarrow> reply RmFailure [ae_message e] (sv\<lparr>sv_action_failures := sv_action_failures sv + 1\<rparr>)))"

definition is_backpressure :: "runtime_error \<Rightarrow> bool" where
  "is_backpressure e =
     (case e of
        ReTransport (QueueFull c n) \<Rightarrow> True
      | ReTransport (ByteLimit a b) \<Rightarrow> True
      | ReResourceExhausted k n \<Rightarrow> k = RkSendTickets
      | _ \<Rightarrow> False)"

fun drain_loop ::
  "'n env \<Rightarrow> (usize \<Rightarrow> instant) \<Rightarrow> nat \<Rightarrow> usize \<Rightarrow> ('v, 'n) server
     \<Rightarrow> ('v, 'n) server \<times> (runtime_error, usize) result"
where
  "drain_loop env clock 0 sent sv = (sv, Ok sent)"
| "drain_loop env clock (Suc left) sent sv =
     (case sv_responses sv of
        [] \<Rightarrow> (sv, Ok sent)
      | q # qs \<Rightarrow>
          (let sv1 = sv\<lparr>sv_responses := qs, sv_response_bytes := sv_response_bytes sv - qr_bytes q\<rparr> in
           case sh_send env (qr_destination q) (qr_message q) TpRequiredResponse (qr_trace_id q) (sv_shared sv1) of
             (sh, Inr ticket) \<Rightarrow>
               (let sv2 = sv1\<lparr>sv_shared := sh\<rparr> in
                if qr_cache q
                then (case dedup_complete (qr_message q) (clock sent) (sv_dedup sv2) of
                    (t, Inl e) \<Rightarrow> (sv2\<lparr>sv_dedup := t\<rparr>, Err e)
                  | (t, Inr _) \<Rightarrow> drain_loop env clock left (Suc sent) (sv2\<lparr>sv_dedup := t\<rparr>))
                else drain_loop env clock left (Suc sent) sv2)
           | (sh, Inl e) \<Rightarrow>
               (let sv2 = sv1\<lparr>sv_shared := sh\<rparr> in
                if is_backpressure e
                then (sv2\<lparr>sv_response_bytes := saturating_add_usize (sv_response_bytes sv2) (qr_bytes q),
                          sv_responses := q # sv_responses sv2\<rparr>, Ok sent)
                else (sv2, Err e))))"

definition drain_responses ::
  "'n env \<Rightarrow> (usize \<Rightarrow> instant) \<Rightarrow> usize \<Rightarrow> ('v, 'n) server \<Rightarrow> ('v, 'n) server \<times> (runtime_error, usize) result"
where
  "drain_responses env clock max_responses sv = drain_loop env clock max_responses 0 sv"

subsection \<open>The queue is bounded and exact\<close>

definition owed_bytes :: "queued_response list \<Rightarrow> usize" where
  "owed_bytes qs = sum_list (map qr_bytes qs)"

definition owed_inv :: "('v, 'n) server \<Rightarrow> bool" where
  "owed_inv sv \<longleftrightarrow> sv_response_bytes sv = owed_bytes (sv_responses sv)
     \<and> length (sv_responses sv) \<le> rl_max_dedup_entries (sh_limits (sv_shared sv))
     \<and> sv_response_bytes sv \<le> min USIZE_MAX (rl_max_dedup_bytes (sh_limits (sv_shared sv)))
     \<and> (\<forall>q\<in>set (sv_responses sv). qr_bytes q = length (concat (rm_payload (qr_message q))))"

lemma owed_inv_queue: "owed_inv sv \<Longrightarrow> owed_inv (fst (queue_response d m tr c sv))"
  by (auto simp: queue_response_def owed_inv_def owed_bytes_def Let_def checked_total_Some split: option.splits)

lemma queue_response_Ok:
  "queue_response d m tr c sv = (sv', Ok ()) \<Longrightarrow>
     sv_responses sv' = sv_responses sv @ [\<lparr>qr_destination = d, qr_message = m, qr_trace_id = tr,
       qr_cache = c, qr_bytes = length (concat (rm_payload m))\<rparr>]"
  by (auto simp: queue_response_def Let_def checked_total_Some split: option.splits if_splits)

lemma owed_inv_drain_loop: "owed_inv sv \<Longrightarrow> owed_inv (fst (drain_loop env clock k sent sv))"
proof (induction k arbitrary: sent sv)
  case 0
  then show ?case by simp
next
  case (Suc k)
  show ?case
  proof (cases "sv_responses sv")
    case Nil
    with Suc.prems show ?thesis by simp
  next
    case (Cons q qs)
    obtain sh r where snd: "sh_send env (qr_destination q) (qr_message q) TpRequiredResponse (qr_trace_id q)
        (sv_shared sv) = (sh, r)"
      by (cases "sh_send env (qr_destination q) (qr_message q) TpRequiredResponse (qr_trace_id q) (sv_shared sv)")
    have lim: "sh_limits sh = sh_limits (sv_shared sv)"
      using sh_send_frame(5) [of env "qr_destination q" "qr_message q" TpRequiredResponse "qr_trace_id q" "sv_shared sv"]
        snd by simp
    let ?sv = "sv\<lparr>sv_responses := qs, sv_response_bytes := sv_response_bytes sv - qr_bytes q, sv_shared := sh\<rparr>"
    have popped: "owed_inv ?sv" "owed_inv (?sv\<lparr>sv_dedup := t\<rparr>)" for t
      using Suc.prems Cons lim by (auto simp: owed_inv_def owed_bytes_def)
    have restored: "owed_inv (?sv\<lparr>sv_response_bytes :=
        saturating_add_usize (sv_response_bytes sv - qr_bytes q) (qr_bytes q), sv_responses := q # qs\<rparr>)"
      using Suc.prems Cons lim by (auto simp: owed_inv_def owed_bytes_def saturating_add_usize_def)
    show ?thesis
      using Cons snd popped restored Suc.IH by (auto simp: Let_def split: sum.splits prod.splits)
  qed
qed

datatype 'v reply_op =
  RoQueue locality_id rt_message "trace_id option" bool
| RoFailure locality_id rt_message bytes "trace_id option"
| RoCachedFailure locality_id rt_message bytes "trace_id option"
| RoMoved locality_id rt_message object_id object_location "trace_id option"
| RoComplete "'v completion"
| RoDrain "usize \<Rightarrow> instant" usize

fun reply_do :: "'n env \<Rightarrow> 'v reply_op \<Rightarrow> ('v, 'n) server \<Rightarrow> ('v, 'n) server" where
  "reply_do env (RoQueue d m tr c) sv = fst (queue_response d m tr c sv)"
| "reply_do env (RoFailure d m t tr) sv = fst (send_failure d m t tr sv)"
| "reply_do env (RoCachedFailure d m t tr) sv = fst (send_and_cache_failure d m t tr sv)"
| "reply_do env (RoMoved d m obj l tr) sv = fst (send_and_cache_moved d m obj l tr sv)"
| "reply_do env (RoComplete c) sv = fst (complete_remote c sv)"
| "reply_do env (RoDrain clock k) sv = fst (drain_responses env clock k sv)"

lemma owed_inv_do: "owed_inv sv \<Longrightarrow> owed_inv (reply_do env op sv)"
proof (cases op)
  case (RoComplete c)
  assume inv: "owed_inv sv"
  then have "owed_inv (sv\<lparr>sv_action_failures := n\<rparr>)" for n
    by (simp add: owed_inv_def)
  with RoComplete inv show ?thesis
    by (auto simp: complete_remote_def Let_def owed_inv_queue split: sum.splits action_value.splits)
qed (simp_all add: owed_inv_queue send_failure_def send_and_cache_failure_def send_and_cache_moved_def
    drain_responses_def owed_inv_drain_loop)

text \<open>
  The replies a runtime owes stay within \<open>max_dedup_entries\<close> and \<open>max_dedup_bytes\<close> and the
  byte counter is exactly the size of the queued payloads, through any sequence of replies
  queued and drained, whatever the transport accepts or refuses.
\<close>

theorem owed_replies_bounded:
  assumes "sv_responses sv = []" "sv_response_bytes sv = 0"
    and "sv' = fold (reply_do env) ops sv"
  shows "sv_response_bytes sv' = length (concat (map (\<lambda>q. concat (rm_payload (qr_message q))) (sv_responses sv')))
    \<and> length (sv_responses sv') \<le> rl_max_dedup_entries (sh_limits (sv_shared sv'))
    \<and> sv_response_bytes sv' \<le> rl_max_dedup_bytes (sh_limits (sv_shared sv'))"
proof -
  have "owed_inv sv"
    using assms(1,2) by (simp add: owed_inv_def owed_bytes_def)
  then have "owed_inv (fold (reply_do env) ops sv)"
    by (induction ops arbitrary: sv) (simp_all add: owed_inv_do)
  then have inv: "owed_inv sv'" using assms(3) by simp
  then have "owed_bytes (sv_responses sv')
      = length (concat (map (\<lambda>q. concat (rm_payload (qr_message q))) (sv_responses sv')))"
    by (simp add: owed_inv_def owed_bytes_def length_concat comp_def cong: map_cong)
  with inv show ?thesis by (simp add: owed_inv_def)
qed

definition demo_server :: "(unit, u64) server" where
  "demo_server = \<lparr>sv_shared = demo_shared, sv_dedup = dedup_new 1024 1000 50, sv_responses = [],
     sv_response_bytes = 0, sv_action_failures = 0\<rparr>"

theorem owed_replies_bounded_witness:
  "sv_response_bytes (fold (reply_do demo_env) [RoFailure 8 demo_request (lit ''no'') None] demo_server) = 2"
  using owed_replies_bounded [of demo_server _ demo_env "[RoFailure 8 demo_request (lit ''no'') None]"]
  by (simp add: demo_server_def demo_shared_def send_failure_def queue_response_def failure_message_def cap_def
      checked_total_def checked_add_usize_def USIZE_MAX_def MAX_ERROR_BYTES_def runtime_limits_default_def
      Let_def)

subsection \<open>Draining keeps the order\<close>

lemma drain_loop_prefix:
  "drain_loop env clock k sent sv = (sv', Ok n) \<Longrightarrow>
     n \<le> sent + k \<and> sent \<le> n \<and> n - sent \<le> length (sv_responses sv)
     \<and> sv_responses sv' = drop (n - sent) (sv_responses sv)"
proof (induction k arbitrary: sent sv)
  case 0
  then show ?case by simp
next
  case (Suc k)
  show ?case
  proof (cases "sv_responses sv")
    case Nil
    with Suc.prems show ?thesis by simp
  next
    case (Cons q qs)
    obtain sh r where snd: "sh_send env (qr_destination q) (qr_message q) TpRequiredResponse (qr_trace_id q)
        (sv_shared sv) = (sh, r)"
      by (cases "sh_send env (qr_destination q) (qr_message q) TpRequiredResponse (qr_trace_id q) (sv_shared sv)")
    show ?thesis
    proof (cases r)
      case (Inl e)
      with Suc.prems Cons snd show ?thesis
        by (auto simp: Let_def split: if_splits)
    next
      case (Inr ticket)
      then obtain sv2 where "drain_loop env clock k (Suc sent) sv2 = (sv', Ok n)" "sv_responses sv2 = qs"
        using Suc.prems Cons snd by (auto simp: Let_def split: if_splits prod.splits sum.splits)
      from Suc.IH [OF this(1)] this(2) Cons show ?thesis
        by (auto simp: Suc_diff_le drop_Cons' Suc_le_eq)
    qed
  qed
qed

text \<open>
  A pass over the owed replies sends a prefix of them in order and leaves the rest as they
  were: the queue after it is the queue before it without the replies counted as sent, whether
  the pass ended at its limit, at the end of the queue or because the transport was full.
\<close>

theorem drain_sends_prefix:
  assumes "drain_responses env clock k sv = (sv', Ok n)" and "owed_inv sv"
  shows "n \<le> k \<and> n \<le> length (sv_responses sv) \<and> sv_responses sv' = drop n (sv_responses sv)
    \<and> sv_response_bytes sv' = owed_bytes (drop n (sv_responses sv))"
proof -
  have "drain_loop env clock k 0 sv = (sv', Ok n)"
    using assms(1) by (simp add: drain_responses_def)
  from drain_loop_prefix [OF this] have "n \<le> k" "n \<le> length (sv_responses sv)" "sv_responses sv' = drop n (sv_responses sv)"
    by simp_all
  moreover have "owed_inv sv'"
    using owed_inv_drain_loop [OF assms(2), of env clock k 0] assms(1) by (simp add: drain_responses_def)
  ultimately show ?thesis by (simp add: owed_inv_def)
qed

definition demo_owing :: "(unit, u64) server" where
  "demo_owing = reply_do demo_env (RoFailure 8 demo_request (lit ''no'') None) demo_server"

theorem drain_sends_prefix_witness:
  "sv_responses (fst (drain_responses demo_env (\<lambda>i. i) 0 demo_owing)) = sv_responses demo_owing"
proof -
  have "owed_inv demo_owing"
    unfolding demo_owing_def by (rule owed_inv_do) (simp add: owed_inv_def owed_bytes_def demo_server_def)
  from drain_sends_prefix [OF _ this, of demo_env "\<lambda>i. i" 0 "fst (drain_responses demo_env (\<lambda>i. i) 0 demo_owing)" 0]
  show ?thesis by (simp add: drain_responses_def)
qed

subsection \<open>Redirects survive the wire\<close>

definition location_valid :: "object_location \<Rightarrow> bool" where
  "location_valid l \<longleftrightarrow> loc_slot l \<noteq> 0 \<and> loc_generation l \<noteq> 0 \<and> loc_epoch l \<noteq> 0"

lemma decode_encode_location: "location_valid l \<Longrightarrow> decode_location disp (encode_location l) = Ok l"
  by (cases l) (simp add: decode_location_def encode_location_def location_valid_def object_location_new_def
      slice_append_left slice_append_right slice_full)

text \<open>
  A redirect reaches the caller intact: the reply \<open>send_and_cache_moved\<close> builds for an
  accepted request is accepted at the origin, and what the caller's promise receives names
  the same object at the same location.
\<close>

theorem redirect_reaches_caller:
  assumes "rt_decode p = Ok request" "rm_kind request = RmRequest"
    and "p_segments q = rt_encode (moved_message request obj location)"
    and "p_channel q = ChAction" "p_kind q = PkData" "p_destination q = p_source p"
    and "oid_run obj \<noteq> 0" "oid_unique obj \<noteq> 0" "location_valid location"
  shows "rt_decode q = Ok (moved_message request obj location)
    \<and> reply_outcome disp (moved_message request obj location) = Err (ReMoved obj location)"
proof -
  have "req_sequence (rm_request request) \<noteq> 0" "rm_action request \<noteq> 0"
      "req_origin (rm_request request) = p_source p"
    using rt_encode_decode [OF assms(1)] assms(2)
    by (auto simp: validate_shape_def shape_of_def split: if_splits)
  then have "rt_decode q = Ok (moved_message request obj location)"
    using assms(3-6)
    by (intro rt_decode_encode) (auto simp: moved_message_def validate_shape_def shape_of_def encode_location_def Let_def)
  moreover have "reply_outcome disp (moved_message request obj location) = Err (ReMoved obj location)"
    using assms(7,8) decode_encode_location [OF assms(9), of disp]
    by (cases obj) (simp add: reply_outcome_def moved_message_def moved_error_def Let_def run_id_new_def
        object_id_new_def slice_append_left slice_append_right slice_full)
  ultimately show ?thesis by blast
qed

definition demo_location :: object_location where
  "demo_location = \<lparr>loc_locality = 9, loc_domain = 0, loc_slot = 1, loc_generation = 1, loc_epoch = 2\<rparr>"

theorem redirect_reaches_caller_witness:
  "reply_outcome (\<lambda>e. []) (moved_message demo_request \<lparr>oid_run = 1, oid_unique = 5\<rparr> demo_location)
     = Err (ReMoved \<lparr>oid_run = 1, oid_unique = 5\<rparr> demo_location)"
proof -
  have "rt_decode (demo_carrier 7 8 demo_request) = Ok demo_request"
    by (rule rt_decode_encode)
      (simp_all add: demo_carrier_def demo_request_def validate_shape_def shape_of_def)
  then show ?thesis
    using redirect_reaches_caller [of "demo_carrier 7 8 demo_request" demo_request, where q = "demo_carrier 8 7 (moved_message demo_request
      \<lparr>oid_run = 1, oid_unique = 5\<rparr> demo_location)" and location = demo_location
      and obj = "\<lparr>oid_run = 1, oid_unique = 5\<rparr>" and disp = "\<lambda>e. []"]
    by (simp add: demo_carrier_def demo_request_def demo_location_def location_valid_def)
qed

subsection \<open>A failure reply that is not capped\<close>

text \<open>
  \<open>complete_remote\<close> sends the text of the handler's error as it is. A handler may build
  \<open>ActionError::User\<close> directly, without the capping constructor; when its text is longer than
  \<open>MAX_ERROR_BYTES\<close> the reply is refused by the requester's decoder, whose runtime fails.
\<close>

theorem uncapped_failure_refused:
  assumes "cm_result c = Err (AeUser t)" "\<not> cm_cancelled c" "MAX_ERROR_BYTES < length t"
    and "complete_remote c sv = (sv', Ok ())"
  shows "\<exists>reply. qr_message (last (sv_responses sv')) = reply \<and> rm_payload reply = [t]
    \<and> (\<forall>q. p_segments q = rt_encode reply \<longrightarrow> \<not> is_ok (rt_decode q))"
proof -
  let ?r = "completion_message RmFailure [t] c"
  have "queue_response (cm_requester c) ?r (cm_trace_id c) True
      (sv\<lparr>sv_action_failures := sv_action_failures sv + 1\<rparr>) = (sv', Ok ())"
    using assms(1,2,4) by (simp add: complete_remote_def Let_def)
  then have last: "qr_message (last (sv_responses sv')) = ?r"
    by (auto dest: queue_response_Ok)
  have refused: "\<not> is_ok (rt_decode q)" if seg: "p_segments q = rt_encode ?r" for q
  proof
    assume "is_ok (rt_decode q)"
    then obtain m where m: "rt_decode q = Ok m" by (auto simp: is_ok_iff)
    note d = rt_encode_decode [OF m]
    then have "rt_header ?r = rt_header m" and "rm_payload ?r = rm_payload m"
      using seg by (simp_all add: rt_encode_def)
    then have hdr: "rt_header m = rt_header ?r" and pay: "rm_payload m = [t]"
      by (simp_all add: completion_message_def)
    have "rt_kind_code (rm_kind m) = rt_kind_code RmFailure"
      using rt_header_slices(4) [of m] rt_header_slices(4) [of ?r] by (simp add: hdr) (simp add: completion_message_def)
    then have "rm_kind m = RmFailure" by (cases "rm_kind m") simp_all
    with d pay assms(3) show False
      by (auto simp: validate_shape_def Let_def split: if_splits)
  qed
  from last refused show ?thesis by (auto simp: completion_message_def)
qed

definition demo_long_failure :: "unit completion" where
  "demo_long_failure = \<lparr>cm_requester = 8, cm_request = \<lparr>req_origin = 8, req_sequence = 1\<rparr>, cm_action_id = 9,
     cm_domain = 0, cm_trace_id = None, cm_result = Err (AeUser (replicate 5000 65)), cm_cancelled = False,
     cm_local = False, cm_object = None\<rparr>"

theorem uncapped_failure_refused_witness:
  "\<exists>reply. qr_message (last (sv_responses (fst (complete_remote demo_long_failure demo_server)))) = reply
     \<and> (\<forall>q. p_segments q = rt_encode reply \<longrightarrow> \<not> is_ok (rt_decode q))"
proof -
  let ?t = "replicate 5000 65 :: bytes"
  have "checked_total [?t] = Some 5000"
    by (simp add: checked_total_def checked_add_usize_def USIZE_MAX_def)
  then have "complete_remote demo_long_failure demo_server
      = (fst (complete_remote demo_long_failure demo_server), Ok ())"
    by (simp add: complete_remote_def demo_long_failure_def queue_response_def completion_message_def demo_server_def
        demo_shared_def runtime_limits_default_def checked_add_usize_def USIZE_MAX_def Let_def del: replicate.simps)
  from uncapped_failure_refused [OF _ _ _ this, of ?t] show ?thesis
    by (auto simp: demo_long_failure_def MAX_ERROR_BYTES_def)
qed

end
