(* ===== verification/ObjectWire.thy ===== *)
theory ObjectWire
  imports Responses
begin

text \<open>
  What travels of distributed objects (\<open>crates/hataori-runtime/src/object.rs\<close> and
  \<open>object/migration.rs\<close>): the 76-byte envelope in front of every object request, the weak
  reference, the 133-byte header of a migration packet, and the identities of the actions the
  object service reserves. The limits of the service and the small enumerations are here too.
\<close>

unbundle bit_operations_syntax

definition OBJECT_MAGIC :: bytes where
  "OBJECT_MAGIC = [0x48, 0x4f, 0x42, 0x4a]"

definition OBJECT_VERSION :: u8 where
  "OBJECT_VERSION = 1"

definition OBJECT_HEADER_BYTES :: usize where
  "OBJECT_HEADER_BYTES = 76"

definition MIGRATION_HEADER_BYTES :: usize where
  "MIGRATION_HEADER_BYTES = 133"

datatype object_concurrency = OcExclusive | OcReadWrite
datatype mobility = MoPinned | MoReconstructible | MoMigratable
datatype object_access = OaRead | OaWrite
datatype placement_fallback = PfAny | PfPlace place | PfReject

record object_limits =
  ol_max_objects :: usize
  ol_max_mailbox_per_object :: usize
  ol_max_resolver_entries :: usize
  ol_max_local_leases :: usize
  ol_max_roots :: usize
  ol_max_placement_tickets :: usize
  ol_max_transfers :: usize
  ol_max_migrations :: usize
  ol_max_prepared_migrations :: usize
  ol_max_forwarders :: usize
  ol_max_redirects :: usize
  ol_max_snapshot_bytes :: usize
  ol_max_snapshot_segments :: usize
  ol_forwarding_ttl :: duration
  ol_lease_renew_interval :: duration
  ol_lease_ttl :: duration
  ol_lease_grace :: duration

definition object_limits_default :: object_limits where
  "object_limits_default = \<lparr>ol_max_objects = 1024, ol_max_mailbox_per_object = 64,
     ol_max_resolver_entries = 1024, ol_max_local_leases = 1024, ol_max_roots = 1024,
     ol_max_placement_tickets = 1024, ol_max_transfers = 1024, ol_max_migrations = 64,
     ol_max_prepared_migrations = 64, ol_max_forwarders = 1024, ol_max_redirects = 8,
     ol_max_snapshot_bytes = 8 * 1024 * 1024 - MIGRATION_HEADER_BYTES, ol_max_snapshot_segments = 1023,
     ol_forwarding_ttl = 60 * 10 ^ 9, ol_lease_renew_interval = 10 * 10 ^ 9, ol_lease_ttl = 30 * 10 ^ 9,
     ol_lease_grace = 30 * 10 ^ 9\<rparr>"

definition object_limits_validate :: "object_limits \<Rightarrow> (runtime_error, object_limits) result" where
  "object_limits_validate l =
     (if ol_max_objects l = 0 \<or> ol_max_mailbox_per_object l = 0 \<or> ol_max_resolver_entries l = 0
         \<or> ol_max_local_leases l = 0 \<or> ol_max_roots l = 0 \<or> ol_max_placement_tickets l = 0
         \<or> ol_max_transfers l = 0 \<or> ol_max_migrations l = 0 \<or> ol_max_prepared_migrations l = 0
         \<or> ol_max_forwarders l = 0 \<or> ol_max_redirects l = 0 \<or> ol_max_snapshot_bytes l = 0
         \<or> ol_max_snapshot_segments l = 0 \<or> ol_forwarding_ttl l = 0 \<or> ol_lease_renew_interval l = 0
         \<or> ol_lease_ttl l \<le> ol_lease_renew_interval l \<or> ol_lease_grace l = 0
      then Err (ReInvalidLimits ''invalid object limits'') else Ok l)"

subsection \<open>The object envelope\<close>

record object_envelope =
  en_object :: object_id
  en_object_type :: object_type_id
  en_epoch :: u64
  en_lease_locality :: locality_id
  en_domain :: domain_id
  en_rooted :: bool

definition envelope_header :: "object_envelope \<Rightarrow> bytes" where
  "envelope_header e = OBJECT_MAGIC @ [OBJECT_VERSION] @ [if en_rooted e then 1 else 0] @ [0, 0]
     @ u128_le (oid_run (en_object e)) @ u128_le (oid_unique (en_object e)) @ u128_le (en_object_type e)
     @ u64_le (en_epoch e) @ u64_le (en_lease_locality e) @ u32_le (en_domain e)"

definition envelope_encode :: "object_envelope \<Rightarrow> segments \<Rightarrow> segments" where
  "envelope_encode e payload = envelope_header e # payload"

definition envelope_decode_header :: "bytes \<Rightarrow> (action_error, object_envelope) result" where
  "envelope_decode_header h =
     (let codec = (\<lambda>s. ae_codec (lit s)) in
      if length h \<noteq> OBJECT_HEADER_BYTES then Err (codec ''invalid object envelope length'')
      else if slice_range h 0 4 \<noteq> OBJECT_MAGIC \<or> h ! 4 \<noteq> OBJECT_VERSION \<or> slice_range h 6 8 \<noteq> [0, 0]
        then Err (codec ''invalid object envelope header'')
      else if h ! 5 \<noteq> 0 \<and> h ! 5 \<noteq> 1 then Err (codec ''invalid object root flag'')
      else
        res_bind (res_map_err (\<lambda>_. codec ''invalid object run id'') (run_id_new (from_le (slice_range h 8 24)))) (\<lambda>run.
        res_bind (res_map_err (\<lambda>_. codec ''invalid object id'')
                   (object_id_new run (from_le (slice_range h 24 40)))) (\<lambda>obj.
        res_bind (res_map_err (\<lambda>_. codec ''invalid object type'')
                   (nonzero_u128_id ''ObjectTypeId'' (from_le (slice_range h 40 56)))) (\<lambda>object_type.
        let epoch = from_le (slice_range h 56 64) in
        if epoch = 0 then Err (codec ''invalid object epoch'')
        else Ok \<lparr>en_object = obj, en_object_type = object_type, en_epoch = epoch,
                 en_lease_locality = from_le (slice_range h 64 72), en_domain = from_le (slice_range h 72 76),
                 en_rooted = (h ! 5 = 1)\<rparr>))))"

definition envelope_inspect :: "segments \<Rightarrow> (action_error, object_envelope) result" where
  "envelope_inspect ss =
     (case ss of [] \<Rightarrow> Err (ae_codec (lit ''invalid object envelope length''))
      | h # _ \<Rightarrow> envelope_decode_header h)"

definition envelope_decode :: "segments \<Rightarrow> (action_error, object_envelope \<times> segments) result" where
  "envelope_decode ss =
     (case ss of [] \<Rightarrow> Err (ae_codec (lit ''invalid object envelope length''))
      | h # rest \<Rightarrow>
          if length h \<noteq> OBJECT_HEADER_BYTES then Err (ae_codec (lit ''invalid object envelope length''))
          else res_bind (envelope_decode_header h) (\<lambda>e. Ok (e, rest)))"

subsection \<open>Weak references\<close>

record weak_remote =
  wr_object :: object_id
  wr_object_type :: object_type_id
  wr_location :: object_location

definition weak_encode :: "weak_remote \<Rightarrow> (action_error, segments) result" where
  "weak_encode w = Ok [u128_le (oid_run (wr_object w)) @ u128_le (oid_unique (wr_object w)) @ u128_le (wr_object_type w)
     @ encode_location (wr_location w)]"

text \<open>\<open>T\<close> is the type identity of the object the reference is declared for.\<close>

definition weak_decode :: "u128 \<Rightarrow> segments \<Rightarrow> (action_error, weak_remote) result" where
  "weak_decode T ss =
     (let codec = (\<lambda>s. ae_codec (lit s)) in
      if length ss \<noteq> 1 \<or> length (ss ! 0) \<noteq> 80 then Err (codec ''invalid weak remote payload'')
      else let b = last ss in
        res_bind (res_map_err (\<lambda>_. codec ''invalid weak remote run'') (run_id_new (from_le (slice_range b 0 16)))) (\<lambda>run.
        res_bind (res_map_err (\<lambda>_. codec ''invalid weak remote object'')
                   (object_id_new run (from_le (slice_range b 16 32)))) (\<lambda>obj.
        res_bind (res_map_err (\<lambda>_. codec ''invalid weak remote type'')
                   (nonzero_u128_id ''ObjectTypeId'' (from_le (slice_range b 32 48)))) (\<lambda>object_type.
        if object_type \<noteq> T then Err (codec ''weak remote type mismatch'')
        else res_bind (res_map_err (\<lambda>_. codec ''invalid weak remote location'')
               (object_location_new (from_le (slice_range b 48 56)) (from_le (slice_range b 56 60))
                 (from_le (slice_range b 60 68)) (from_le (slice_range b 68 72)) (from_le (slice_range b 72 80)))) (\<lambda>loc.
          Ok \<lparr>wr_object = obj, wr_object_type = object_type, wr_location = loc\<rparr>)))))"

subsection \<open>Migration packets\<close>

record migration_packet =
  mp_migration :: request_id
  mp_object :: object_id
  mp_object_type :: object_type_id
  mp_authority :: locality_id
  mp_from :: object_location
  mp_destination :: place
  mp_snapshot_version :: u32
  mp_snapshot_schema :: u64
  mp_snapshot :: segments

definition MIGRATION_MAGIC :: bytes where
  "MIGRATION_MAGIC = [0x48, 0x4d, 0x49, 0x47]"

definition packet_header :: "migration_packet \<Rightarrow> bytes" where
  "packet_header p = MIGRATION_MAGIC @ [1]
     @ u64_le (req_origin (mp_migration p)) @ u64_le (req_sequence (mp_migration p))
     @ u128_le (oid_run (mp_object p)) @ u128_le (oid_unique (mp_object p)) @ u128_le (mp_object_type p)
     @ u64_le (mp_authority p)
     @ u64_le (loc_locality (mp_from p)) @ u32_le (loc_domain (mp_from p)) @ u64_le (loc_slot (mp_from p))
     @ u32_le (loc_generation (mp_from p)) @ u64_le (loc_epoch (mp_from p))
     @ u64_le (pl_locality (mp_destination p)) @ u32_le (pl_domain (mp_destination p))
     @ u32_le (mp_snapshot_version p) @ u64_le (mp_snapshot_schema p)"

definition packet_encode :: "migration_packet \<Rightarrow> (action_error, segments) result" where
  "packet_encode p = Ok (packet_header p # mp_snapshot p)"

definition packet_decode :: "segments \<Rightarrow> (action_error, migration_packet) result" where
  "packet_decode ss =
     (let codec = (\<lambda>s. ae_codec (lit s)) in
      case ss of
        [] \<Rightarrow> Err (codec ''invalid migration header length'')
      | h # rest \<Rightarrow>
          if length h \<noteq> MIGRATION_HEADER_BYTES then Err (codec ''invalid migration header length'')
          else if slice_range h 0 4 \<noteq> MIGRATION_MAGIC \<or> h ! 4 \<noteq> 1 then Err (codec ''invalid migration header'')
          else
            res_bind (res_map_err (\<lambda>_. codec ''invalid migration id'')
                       (request_id_new (from_le (slice_range h 5 13)) (from_le (slice_range h 13 21)))) (\<lambda>migration.
            res_bind (res_map_err (\<lambda>_. codec ''invalid migration run'') (run_id_new (from_le (slice_range h 21 37)))) (\<lambda>run.
            res_bind (res_map_err (\<lambda>_. codec ''invalid migration object'')
                       (object_id_new run (from_le (slice_range h 37 53)))) (\<lambda>obj.
            res_bind (res_map_err (\<lambda>_. codec ''invalid migration object type'')
                       (nonzero_u128_id ''ObjectTypeId'' (from_le (slice_range h 53 69)))) (\<lambda>object_type.
            res_bind (res_map_err (\<lambda>_. codec ''invalid migration source'')
                       (object_location_new (from_le (slice_range h 77 85)) (from_le (slice_range h 85 89))
                          (from_le (slice_range h 89 97)) (from_le (slice_range h 97 101))
                          (from_le (slice_range h 101 109)))) (\<lambda>src.
            Ok \<lparr>mp_migration = migration, mp_object = obj, mp_object_type = object_type,
                mp_authority = from_le (slice_range h 69 77), mp_from = src,
                mp_destination = \<lparr>pl_locality = from_le (slice_range h 109 117),
                  pl_domain = from_le (slice_range h 117 121)\<rparr>,
                mp_snapshot_version = from_le (slice_range h 121 125),
                mp_snapshot_schema = from_le (slice_range h 125 133), mp_snapshot = rest\<rparr>))))))"

subsection \<open>Reserved action identities\<close>

definition PLACEMENT_ACTION_MASK :: u128 where
  "PLACEMENT_ACTION_MASK = 0xc4ea7e03000000000000000000000000"

definition CREATE_ACTION_MASK :: u128 where
  "CREATE_ACTION_MASK = 0xc4ea7e00000000000000000000000000"

definition LEASE_RENEW_ACTION_ID :: u128 where
  "LEASE_RENEW_ACTION_ID = 0xc4ea7e01000000000000000000000001"

definition LEASE_RELEASE_ACTION_ID :: u128 where
  "LEASE_RELEASE_ACTION_ID = 0xc4ea7e01000000000000000000000002"

definition LEASE_ACQUIRE_ACTION_ID :: u128 where
  "LEASE_ACQUIRE_ACTION_ID = 0xc4ea7e01000000000000000000000003"

definition ROOT_RELEASE_ACTION_ID :: u128 where
  "ROOT_RELEASE_ACTION_ID = 0xc4ea7e01000000000000000000000004"

definition TRANSFER_ACK_ACTION_ID :: u128 where
  "TRANSFER_ACK_ACTION_ID = 0xc4ea7e01000000000000000000000005"

definition MIGRATION_FREEZE_ACTION_ID :: u128 where
  "MIGRATION_FREEZE_ACTION_ID = 0xc4ea7e02000000000000000000000001"

definition MIGRATION_PREPARE_ACTION_ID :: u128 where
  "MIGRATION_PREPARE_ACTION_ID = 0xc4ea7e02000000000000000000000002"

definition MIGRATION_COMMIT_ACTION_ID :: u128 where
  "MIGRATION_COMMIT_ACTION_ID = 0xc4ea7e02000000000000000000000003"

definition MIGRATION_ACTIVATE_ACTION_ID :: u128 where
  "MIGRATION_ACTIVATE_ACTION_ID = 0xc4ea7e02000000000000000000000004"

definition MIGRATION_ROLLBACK_ACTION_ID :: u128 where
  "MIGRATION_ROLLBACK_ACTION_ID = 0xc4ea7e02000000000000000000000005"

definition MIGRATION_RETIRE_ACTION_ID :: u128 where
  "MIGRATION_RETIRE_ACTION_ID = 0xc4ea7e02000000000000000000000006"

definition MIGRATION_SCHEMA_ID :: u64 where
  "MIGRATION_SCHEMA_ID = 0x484d4947"

definition LOCATION_SCHEMA_ID :: u64 where
  "LOCATION_SCHEMA_ID = 3"

definition placement_action_id :: "action_id \<Rightarrow> (runtime_error, action_id) result" where
  "placement_action_id a =
     res_map_err (\<lambda>_. ReInvalidActionId) (nonzero_u128_id ''ActionId'' (a XOR PLACEMENT_ACTION_MASK))"

definition create_action_id :: "object_type_id \<Rightarrow> (runtime_error, action_id) result" where
  "create_action_id t =
     res_map_err (\<lambda>_. ReInvalidActionId) (nonzero_u128_id ''ActionId'' (t XOR CREATE_ACTION_MASK))"

subsection \<open>The codecs are exact\<close>

definition object_valid :: "object_id \<Rightarrow> bool" where
  "object_valid obj \<longleftrightarrow> oid_run obj \<noteq> 0 \<and> oid_unique obj \<noteq> 0"

definition envelope_valid :: "object_envelope \<Rightarrow> bool" where
  "envelope_valid e \<longleftrightarrow> object_valid (en_object e) \<and> en_object_type e \<noteq> 0 \<and> en_epoch e \<noteq> 0"

definition packet_valid :: "migration_packet \<Rightarrow> bool" where
  "packet_valid p \<longleftrightarrow> req_sequence (mp_migration p) \<noteq> 0 \<and> object_valid (mp_object p) \<and> mp_object_type p \<noteq> 0
     \<and> location_valid (mp_from p)"

definition weak_valid :: "u128 \<Rightarrow> weak_remote \<Rightarrow> bool" where
  "weak_valid T w \<longleftrightarrow> object_valid (wr_object w) \<and> wr_object_type w = T \<and> T \<noteq> 0 \<and> location_valid (wr_location w)"

lemmas id_new_defs = run_id_new_def object_id_new_def nonzero_u128_id_def request_id_new_def object_location_new_def
lemmas valid_defs = object_valid_def envelope_valid_def packet_valid_def weak_valid_def location_valid_def
lemmas slice_fields = slice_append_left slice_append_right slice_full slice_range_def nth_append

lemma envelope_header_slices:
  "length (envelope_header e) = 76" "slice_range (envelope_header e) 0 4 = OBJECT_MAGIC"
  "envelope_header e ! 4 = OBJECT_VERSION" "envelope_header e ! 5 = (if en_rooted e then 1 else 0)"
  "slice_range (envelope_header e) 6 8 = [0, 0]"
  "slice_range (envelope_header e) 8 24 = u128_le (oid_run (en_object e))"
  "slice_range (envelope_header e) 24 40 = u128_le (oid_unique (en_object e))"
  "slice_range (envelope_header e) 40 56 = u128_le (en_object_type e)"
  "slice_range (envelope_header e) 56 64 = u64_le (en_epoch e)"
  "slice_range (envelope_header e) 64 72 = u64_le (en_lease_locality e)"
  "slice_range (envelope_header e) 72 76 = u32_le (en_domain e)"
  by (simp_all add: envelope_header_def OBJECT_MAGIC_def slice_fields)

lemma envelope_header_split:
  assumes "length h = 76"
  shows "h = slice_range h 0 4 @ [h ! 4] @ [h ! 5] @ slice_range h 6 8 @ slice_range h 8 24 @ slice_range h 24 40
    @ slice_range h 40 56 @ slice_range h 56 64 @ slice_range h 64 72 @ slice_range h 72 76"
proof -
  have "h = slice_range h 0 4 @ slice_range h 4 5 @ slice_range h 5 6 @ slice_range h 6 8 @ slice_range h 8 24
    @ slice_range h 24 40 @ slice_range h 40 56 @ slice_range h 56 64 @ slice_range h 64 72 @ slice_range h 72 76"
    using assms by (simp add: slice_join slice_full)
  then show ?thesis using assms slice_one [of 4 h] slice_one [of 5 h] by simp
qed

lemma envelope_decode_header_Ok: "envelope_decode_header h = Ok e \<longleftrightarrow> envelope_valid e \<and> h = envelope_header e"
proof
  assume d: "envelope_decode_header h = Ok e"
  have len: "length h = 76"
    using d by (simp add: envelope_decode_header_def OBJECT_HEADER_BYTES_def Let_def split: if_splits)
  have f: "slice_range h 0 4 = OBJECT_MAGIC" "h ! 4 = OBJECT_VERSION" "h ! 5 = (if en_rooted e then 1 else 0)"
      "slice_range h 6 8 = [0, 0]" "oid_run (en_object e) = from_le (slice_range h 8 24)"
      "oid_unique (en_object e) = from_le (slice_range h 24 40)" "en_object_type e = from_le (slice_range h 40 56)"
      "en_epoch e = from_le (slice_range h 56 64)" "en_lease_locality e = from_le (slice_range h 64 72)"
      "en_domain e = from_le (slice_range h 72 76)" and valid: "envelope_valid e"
    using d by (auto simp: envelope_decode_header_def Let_def id_new_defs valid_defs split: if_splits)
  have "envelope_header e = slice_range h 0 4 @ [h ! 4] @ [h ! 5] @ slice_range h 6 8 @ slice_range h 8 24
    @ slice_range h 24 40 @ slice_range h 40 56 @ slice_range h 56 64 @ slice_range h 64 72 @ slice_range h 72 76"
    using len by (simp add: envelope_header_def f int_le_from_le length_slice)
  with envelope_header_split [OF len] valid show "envelope_valid e \<and> h = envelope_header e" by simp
next
  assume "envelope_valid e \<and> h = envelope_header e"
  then show "envelope_decode_header h = Ok e"
    by (cases e; cases "en_object e")
      (auto simp: envelope_decode_header_def envelope_header_slices OBJECT_HEADER_BYTES_def id_new_defs valid_defs Let_def)
qed

text \<open>
  An object request is recognised exactly: \<open>ObjectEnvelope::decode\<close> accepts a list of segments
  with an envelope and a payload precisely when they are what \<open>encode\<close> makes of that envelope and
  payload, with nonzero run, object, type and epoch; \<open>inspect\<close> sees the same envelope.
\<close>

theorem envelope_codec_exact:
  "(envelope_decode ss = Ok (e, payload) \<longleftrightarrow>
      object_valid (en_object e) \<and> en_object_type e \<noteq> 0 \<and> en_epoch e \<noteq> 0 \<and> ss = envelope_encode e payload)
   \<and> (envelope_inspect ss = Ok e \<longleftrightarrow> (\<exists>payload. envelope_decode ss = Ok (e, payload)))"
  using envelope_header_slices(1) [of e]
  by (cases ss)
    (auto simp: envelope_decode_def envelope_inspect_def envelope_encode_def envelope_decode_header_Ok envelope_valid_def
      OBJECT_HEADER_BYTES_def)

lemma packet_header_slices:
  "length (packet_header p) = 133" "slice_range (packet_header p) 0 4 = MIGRATION_MAGIC" "packet_header p ! 4 = 1"
  "slice_range (packet_header p) 5 13 = u64_le (req_origin (mp_migration p))"
  "slice_range (packet_header p) 13 21 = u64_le (req_sequence (mp_migration p))"
  "slice_range (packet_header p) 21 37 = u128_le (oid_run (mp_object p))"
  "slice_range (packet_header p) 37 53 = u128_le (oid_unique (mp_object p))"
  "slice_range (packet_header p) 53 69 = u128_le (mp_object_type p)"
  "slice_range (packet_header p) 69 77 = u64_le (mp_authority p)"
  "slice_range (packet_header p) 77 85 = u64_le (loc_locality (mp_from p))"
  "slice_range (packet_header p) 85 89 = u32_le (loc_domain (mp_from p))"
  "slice_range (packet_header p) 89 97 = u64_le (loc_slot (mp_from p))"
  "slice_range (packet_header p) 97 101 = u32_le (loc_generation (mp_from p))"
  "slice_range (packet_header p) 101 109 = u64_le (loc_epoch (mp_from p))"
  "slice_range (packet_header p) 109 117 = u64_le (pl_locality (mp_destination p))"
  "slice_range (packet_header p) 117 121 = u32_le (pl_domain (mp_destination p))"
  "slice_range (packet_header p) 121 125 = u32_le (mp_snapshot_version p)"
  "slice_range (packet_header p) 125 133 = u64_le (mp_snapshot_schema p)"
  by (simp_all add: packet_header_def MIGRATION_MAGIC_def slice_fields)

lemma packet_header_split:
  assumes "length h = 133"
  shows "h = slice_range h 0 4 @ [h ! 4] @ slice_range h 5 13 @ slice_range h 13 21 @ slice_range h 21 37
    @ slice_range h 37 53 @ slice_range h 53 69 @ slice_range h 69 77 @ slice_range h 77 85 @ slice_range h 85 89
    @ slice_range h 89 97 @ slice_range h 97 101 @ slice_range h 101 109 @ slice_range h 109 117
    @ slice_range h 117 121 @ slice_range h 121 125 @ slice_range h 125 133"
proof -
  have "h = slice_range h 0 4 @ slice_range h 4 5 @ slice_range h 5 13 @ slice_range h 13 21 @ slice_range h 21 37
    @ slice_range h 37 53 @ slice_range h 53 69 @ slice_range h 69 77 @ slice_range h 77 85 @ slice_range h 85 89
    @ slice_range h 89 97 @ slice_range h 97 101 @ slice_range h 101 109 @ slice_range h 109 117
    @ slice_range h 117 121 @ slice_range h 121 125 @ slice_range h 125 133"
    using assms by (simp add: slice_join slice_full)
  then show ?thesis using assms slice_one [of 4 h] by simp
qed

lemma packet_encode_decode:
  assumes "packet_decode ss = Ok p"
  shows "packet_encode p = Ok ss \<and> packet_valid p"
proof -
  obtain h rest where seg: "ss = h # rest" using assms by (cases ss) (simp_all add: packet_decode_def Let_def)
  have len: "length h = 133"
    using assms seg by (simp add: packet_decode_def MIGRATION_HEADER_BYTES_def Let_def split: if_splits)
  have f: "slice_range h 0 4 = MIGRATION_MAGIC" "h ! 4 = 1" "req_origin (mp_migration p) = from_le (slice_range h 5 13)"
      "req_sequence (mp_migration p) = from_le (slice_range h 13 21)" "oid_run (mp_object p) = from_le (slice_range h 21 37)"
      "oid_unique (mp_object p) = from_le (slice_range h 37 53)" "mp_object_type p = from_le (slice_range h 53 69)"
      "mp_authority p = from_le (slice_range h 69 77)" "loc_locality (mp_from p) = from_le (slice_range h 77 85)"
      "loc_domain (mp_from p) = from_le (slice_range h 85 89)" "loc_slot (mp_from p) = from_le (slice_range h 89 97)"
      "loc_generation (mp_from p) = from_le (slice_range h 97 101)" "loc_epoch (mp_from p) = from_le (slice_range h 101 109)"
      "pl_locality (mp_destination p) = from_le (slice_range h 109 117)"
      "pl_domain (mp_destination p) = from_le (slice_range h 117 121)"
      "mp_snapshot_version p = from_le (slice_range h 121 125)" "mp_snapshot_schema p = from_le (slice_range h 125 133)"
      "mp_snapshot p = rest" and valid: "packet_valid p"
    using assms seg by (auto simp: packet_decode_def Let_def id_new_defs valid_defs split: if_splits)
  have "packet_header p = slice_range h 0 4 @ [h ! 4] @ slice_range h 5 13 @ slice_range h 13 21 @ slice_range h 21 37
    @ slice_range h 37 53 @ slice_range h 53 69 @ slice_range h 69 77 @ slice_range h 77 85 @ slice_range h 85 89
    @ slice_range h 89 97 @ slice_range h 97 101 @ slice_range h 101 109 @ slice_range h 109 117
    @ slice_range h 117 121 @ slice_range h 121 125 @ slice_range h 125 133"
    using len by (simp add: packet_header_def f int_le_from_le length_slice)
  with packet_header_split [OF len] have "packet_header p = h" by simp
  with f seg valid show ?thesis by (simp add: packet_encode_def)
qed

lemma packet_decode_encode:
  assumes "packet_valid p" "packet_encode p = Ok ss"
  shows "packet_decode ss = Ok p"
proof -
  have ss: "ss = packet_header p # mp_snapshot p" using assms(2) by (simp add: packet_encode_def)
  have ids: "request_id_new (req_origin (mp_migration p)) (req_sequence (mp_migration p)) = Ok (mp_migration p)"
      "run_id_new (oid_run (mp_object p)) = Ok (oid_run (mp_object p))"
      "object_id_new (oid_run (mp_object p)) (oid_unique (mp_object p)) = Ok (mp_object p)"
      "nonzero_u128_id ''ObjectTypeId'' (mp_object_type p) = Ok (mp_object_type p)"
      "object_location_new (loc_locality (mp_from p)) (loc_domain (mp_from p)) (loc_slot (mp_from p))
         (loc_generation (mp_from p)) (loc_epoch (mp_from p)) = Ok (mp_from p)"
    using assms(1) by (simp_all add: id_new_defs valid_defs)
  show ?thesis unfolding ss
    by (simp add: packet_decode_def packet_header_slices MIGRATION_HEADER_BYTES_def ids)
qed

interpretation packet_wire: wire_value packet_encode packet_decode packet_valid
  by unfold_locales (rule packet_decode_encode)

lemma weak_decode_encode:
  assumes "weak_valid T w" "weak_encode w = Ok ss"
  shows "weak_decode T ss = Ok w"
proof -
  have ids: "run_id_new (oid_run (wr_object w)) = Ok (oid_run (wr_object w))"
      "object_id_new (oid_run (wr_object w)) (oid_unique (wr_object w)) = Ok (wr_object w)"
      "nonzero_u128_id ''ObjectTypeId'' (wr_object_type w) = Ok (wr_object_type w)"
      "object_location_new (loc_locality (wr_location w)) (loc_domain (wr_location w)) (loc_slot (wr_location w))
         (loc_generation (wr_location w)) (loc_epoch (wr_location w)) = Ok (wr_location w)"
    using assms(1) by (auto simp: id_new_defs valid_defs)
  have "ss = [u128_le (oid_run (wr_object w)) @ u128_le (oid_unique (wr_object w)) @ u128_le (wr_object_type w)
     @ encode_location (wr_location w)]"
    using assms(2) by (simp add: weak_encode_def)
  moreover have "T = wr_object_type w" using assms(1) by (simp add: weak_valid_def)
  ultimately show ?thesis
    by (simp add: weak_decode_def encode_location_def slice_append_left slice_append_right slice_full ids)
qed

interpretation weak_wire: wire_value weak_encode "weak_decode T" "weak_valid T" for T
  by unfold_locales (rule weak_decode_encode)

text \<open>
  A migration packet survives the wire exactly: \<open>decode\<close> accepts precisely the segments
  \<open>encode\<close> makes of a packet with nonzero identities and a valid source location, and gives that
  packet back with its snapshot, so no two valid packets share an encoding.
\<close>

theorem migration_codec_exact:
  "packet_decode ss = Ok p \<longleftrightarrow> packet_valid p \<and> packet_encode p = Ok ss"
  using packet_encode_decode [of ss p] packet_decode_encode [of p ss] by auto

lemma action_ids_distinct:
  "distinct [LEASE_RENEW_ACTION_ID, LEASE_RELEASE_ACTION_ID, LEASE_ACQUIRE_ACTION_ID, ROOT_RELEASE_ACTION_ID,
     TRANSFER_ACK_ACTION_ID, MIGRATION_FREEZE_ACTION_ID, MIGRATION_PREPARE_ACTION_ID, MIGRATION_COMMIT_ACTION_ID,
     MIGRATION_ACTIVATE_ACTION_ID, MIGRATION_ROLLBACK_ACTION_ID, MIGRATION_RETIRE_ACTION_ID]"
  by (simp add: LEASE_RENEW_ACTION_ID_def LEASE_RELEASE_ACTION_ID_def LEASE_ACQUIRE_ACTION_ID_def
      ROOT_RELEASE_ACTION_ID_def TRANSFER_ACK_ACTION_ID_def MIGRATION_FREEZE_ACTION_ID_def
      MIGRATION_PREPARE_ACTION_ID_def MIGRATION_COMMIT_ACTION_ID_def MIGRATION_ACTIVATE_ACTION_ID_def
      MIGRATION_ROLLBACK_ACTION_ID_def MIGRATION_RETIRE_ACTION_ID_def)

lemma xor_cancel: "a XOR c = b XOR c \<longleftrightarrow> a = (b :: u128)"
proof
  assume "a XOR c = b XOR c"
  then have "(a XOR c) XOR c = (b XOR c) XOR c" by simp
  then show "a = b" by (simp add: xor.assoc)
qed simp

lemma create_action_id_inj: "create_action_id t = Ok a \<Longrightarrow> create_action_id u = Ok a \<Longrightarrow> t = u"
  by (auto simp: create_action_id_def nonzero_u128_id_def xor_cancel split: if_splits)

end
