(* ===== verification/ObjectRegistry.thy ===== *)
theory ObjectRegistry
  imports ObjectWire
begin

text \<open>
  The registry of object types, object actions and colocated actions
  (\<open>ObjectRegistry\<close> in \<open>crates/hataori-runtime/src/object.rs\<close>) and the handlers it builds.

  An object's state is a dynamic value (\<open>Box<dyn Any>\<close>) behind a lock. The lock matters for
  one thing only once admission has excluded other users: a panic that unwinds through the
  guard poisons it, and a poisoned lock refuses every later \<open>try_lock\<close>. So an erased state is
  the dynamic value and the poison flag. User code (codecs, actions, \<open>freeze\<close>, \<open>restore\<close>) is given
  by the fields of \<open>object_type\<close>, \<open>read_action\<close> and \<open>write_action\<close>; it returns, fails or
  panics, and \<open>&mut\<close> arguments come back changed whatever it does.
\<close>

datatype 's erased_state = EsExclusive bool 's | EsReadWrite bool 's

fun es_poisoned :: "'s erased_state \<Rightarrow> bool" where
  "es_poisoned (EsExclusive p v) = p"
| "es_poisoned (EsReadWrite p v) = p"

fun es_inner :: "'s erased_state \<Rightarrow> 's" where
  "es_inner (EsExclusive p v) = v"
| "es_inner (EsReadWrite p v) = v"

fun es_set :: "'s erased_state \<Rightarrow> bool \<Rightarrow> 's \<Rightarrow> 's erased_state" where
  "es_set (EsExclusive p v) p' v' = EsExclusive p' v'"
| "es_set (EsReadWrite p v) p' v' = EsReadWrite p' v'"

text \<open>The traits \<open>DistributedObject\<close> and \<open>MobileObject\<close> at one type.\<close>

record ('t, 'm, 's) object_type =
  ot_TYPE_ID :: u128
  ot_SCHEMA_ID :: u64
  ot_decode :: "(segments, 't) user_fn"
  ot_downcast :: "'s \<Rightarrow> 't option"
  ot_box :: "'t \<Rightarrow> 's"
  ot_MOBILITY :: mobility
  ot_SNAPSHOT_VERSION :: u32
  ot_snapshot_SCHEMA_ID :: u64
  ot_freeze :: "'t \<Rightarrow> 't \<times> (action_error fault, 'm) result"
  ot_snapshot_encode :: "('m, segments) user_fn"
  ot_snapshot_decode :: "(segments, 'm) user_fn"
  ot_restore :: "'m \<Rightarrow> place \<Rightarrow> (action_error fault, 't) result"

text \<open>The traits \<open>ObjectReadAction\<close> and \<open>ObjectWriteAction\<close>.\<close>

record ('a, 'o, 't) read_action =
  rac_ID :: u128
  rac_SCHEMA_ID :: u64
  rac_output_SCHEMA_ID :: u64
  rac_decode :: "(segments, 'a) user_fn"
  rac_execute :: "'a \<Rightarrow> 't \<Rightarrow> (action_error fault, 'o) result"
  rac_output_encode :: "('o, segments) user_fn"

record ('a, 'o, 't) write_action =
  wac_ID :: u128
  wac_SCHEMA_ID :: u64
  wac_output_SCHEMA_ID :: u64
  wac_decode :: "(segments, 'a) user_fn"
  wac_execute :: "'a \<Rightarrow> 't \<Rightarrow> 't \<times> (action_error fault, 'o) result"
  wac_output_encode :: "('o, segments) user_fn"

text \<open>A handler of an object action works on the state of the entry it is given.\<close>

type_synonym 's object_handler =
  "'s erased_state option \<Rightarrow> segments \<Rightarrow> 's erased_state option \<times> (action_error fault, segments) result"

record 's object_action_registration =
  oar_object_type :: object_type_id
  oar_input_schema :: u64
  oar_output_schema :: u64
  oar_access :: object_access
  oar_handler :: "'s object_handler"

type_synonym 's freezer = "'s erased_state \<Rightarrow> 's erased_state \<times> (action_error fault, segments) result"
type_synonym 's restorer = "segments \<Rightarrow> place \<Rightarrow> (action_error fault, 's erased_state) result"

record 's migration_registration =
  mr_mobility :: mobility
  mr_snapshot_version :: u32
  mr_snapshot_schema :: u64
  mr_freezer :: "'s freezer option"
  mr_restorer :: "'s restorer option"

record 'v placement_action_registration =
  par_input_schema :: u64
  par_output_schema :: u64
  par_handler :: "'v registered_action"

record 's object_type_registration =
  otr_schema :: u64
  otr_concurrency :: object_concurrency
  otr_mobility :: mobility
  otr_snapshot_version :: u32
  otr_snapshot_schema :: u64
  otr_decoder :: "(segments, 's erased_state) user_fn"
  otr_local_wrapper :: "'s \<Rightarrow> (runtime_error, 's erased_state) result"
  otr_freezer :: "'s freezer option"
  otr_restorer :: "'s restorer option"

record ('v, 's) object_registry =
  or_types :: "(object_type_id, 's object_type_registration) hmap"
  or_actions :: "(action_id, 's object_action_registration) hmap"
  or_placements :: "(action_id, 'v placement_action_registration) hmap"

definition object_registry_default :: "('v, 's) object_registry" where
  "object_registry_default = \<lparr>or_types = [], or_actions = [], or_placements = []\<rparr>"

subsection \<open>The handlers\<close>

text \<open>The guard of \<open>try_lock\<close>, \<open>try_read\<close> and \<open>try_write\<close>, then the downcast.\<close>

definition lock_typed :: "('t, 'm, 's) object_type \<Rightarrow> 's erased_state \<Rightarrow> (action_error fault, 't) result" where
  "lock_typed T es =
     (if es_poisoned es then Err (Fail (ae_user (lit ''object admission saturated'')))
      else ok_or (ot_downcast T (es_inner es)) (Fail (ae_user (lit ''object type mismatch''))))"

definition resident_state :: "'s erased_state option \<Rightarrow> (action_error fault, 's erased_state) result" where
  "resident_state st = ok_or st (Fail (ae_user (lit ''object moved'')))"

definition read_handler :: "('t, 'm, 's) object_type \<Rightarrow> ('a, 'o, 't) read_action \<Rightarrow> 's object_handler" where
  "read_handler T A = (\<lambda>st input. (st,
     res_bind (rac_decode A input) (\<lambda>action.
       res_bind (resident_state st) (\<lambda>es.
         (case es of
            EsExclusive p v \<Rightarrow> Err (Fail (ae_user (lit ''object does not admit reads'')))
          | EsReadWrite p v \<Rightarrow>
              res_bind (lock_typed T es) (\<lambda>t. res_bind (rac_execute A action t) (rac_output_encode A)))))))"

text \<open>The write guard is held until the output is encoded: a panic up to there poisons the lock.\<close>

definition write_locked :: "('t, 'm, 's) object_type \<Rightarrow> 's erased_state \<Rightarrow> 't \<Rightarrow> (action_error fault, 'b) result
    \<Rightarrow> 's erased_state" where
  "write_locked T es t r = es_set es (r = Err Panic) (ot_box T t)"

definition write_handler :: "('t, 'm, 's) object_type \<Rightarrow> ('a, 'o, 't) write_action \<Rightarrow> 's object_handler" where
  "write_handler T A = (\<lambda>st input.
     (case res_bind (wac_decode A input) (\<lambda>action. res_bind (resident_state st) (\<lambda>es.
             res_bind (lock_typed T es) (\<lambda>t. Ok (action, es, t)))) of
        Inl e \<Rightarrow> (st, Inl e)
      | Inr (action, es, t) \<Rightarrow>
          (let (t', r) = wac_execute A action t; out = res_bind r (wac_output_encode A) in
           (Some (write_locked T es t' out), out))))"

definition freezer :: "object_concurrency \<Rightarrow> ('t, 'm, 's) object_type \<Rightarrow> 's freezer" where
  "freezer c T = (\<lambda>es.
     if (case es of EsExclusive p v \<Rightarrow> c \<noteq> OcExclusive | EsReadWrite p v \<Rightarrow> c \<noteq> OcReadWrite)
     then (es, Err (Fail (ae_user (lit ''object concurrency mismatch''))))
     else (case lock_typed T es of
         Inl e \<Rightarrow> (es, Inl e)
       | Inr t \<Rightarrow>
           (let (t', r) = ot_freeze T t; out = res_bind r (ot_snapshot_encode T) in
            (write_locked T es t' out, out))))"

definition erase :: "object_concurrency \<Rightarrow> 's \<Rightarrow> 's erased_state" where
  "erase c v = (case c of OcExclusive \<Rightarrow> EsExclusive False v | OcReadWrite \<Rightarrow> EsReadWrite False v)"

definition restorer :: "object_concurrency \<Rightarrow> ('t, 'm, 's) object_type \<Rightarrow> 's restorer" where
  "restorer c T = (\<lambda>ss destination. res_bind (ot_snapshot_decode T ss) (\<lambda>m.
     res_bind (ot_restore T m destination) (\<lambda>t. Ok (erase c (ot_box T t)))))"

definition decoder :: "object_concurrency \<Rightarrow> ('t, 'm, 's) object_type \<Rightarrow> (segments, 's erased_state) user_fn" where
  "decoder c T = (\<lambda>ss. res_bind (ot_decode T ss) (\<lambda>t. Ok (erase c (ot_box T t))))"

definition local_wrapper ::
  "object_concurrency \<Rightarrow> ('t, 'm, 's) object_type \<Rightarrow> 's \<Rightarrow> (runtime_error, 's erased_state) result"
where
  "local_wrapper c T v =
     (case ot_downcast T v of None \<Rightarrow> Err (ReUnknownObjectType (ot_TYPE_ID T)) | Some t \<Rightarrow> Ok (erase c v))"

subsection \<open>Registration\<close>

definition reserved_ids :: "action_id list" where
  "reserved_ids = [LEASE_RENEW_ACTION_ID, LEASE_RELEASE_ACTION_ID, LEASE_ACQUIRE_ACTION_ID, ROOT_RELEASE_ACTION_ID,
     TRANSFER_ACK_ACTION_ID, MIGRATION_FREEZE_ACTION_ID, MIGRATION_PREPARE_ACTION_ID, MIGRATION_COMMIT_ACTION_ID,
     MIGRATION_ACTIVATE_ACTION_ID, MIGRATION_ROLLBACK_ACTION_ID, MIGRATION_RETIRE_ACTION_ID]"

definition reserves_action :: "('v, 's) object_registry \<Rightarrow> action_id \<Rightarrow> bool" where
  "reserves_action reg a \<longleftrightarrow> a \<in> set reserved_ids \<or> hm_get (or_actions reg) a \<noteq> None
     \<or> hm_get (or_placements reg) a \<noteq> None
     \<or> list_ex (\<lambda>p. (case create_action_id (fst p) of Inl _ \<Rightarrow> False | Inr create \<Rightarrow> create = a)) (or_types reg)"

definition register_type ::
  "object_concurrency \<Rightarrow> 's migration_registration \<Rightarrow> ('t, 'm, 's) object_type \<Rightarrow> ('v, 's) object_registry
     \<Rightarrow> ('v, 's) object_registry \<times> (runtime_error, unit) result"
where
  "register_type c m T reg =
     (case nonzero_u128_id ''ObjectTypeId'' (ot_TYPE_ID T) of
        Inl _ \<Rightarrow> (reg, Err ReInvalidObjectTypeId)
      | Inr k \<Rightarrow>
          if ot_SCHEMA_ID T = 0 then (reg, Err ReInvalidSchema)
          else if hm_get (or_types reg) k \<noteq> None then (reg, Err (ReDuplicateObjectType k))
          else (case create_action_id k of
              Inl e \<Rightarrow> (reg, Err e)
            | Inr create \<Rightarrow>
                if reserves_action reg create then (reg, Err (ReDuplicateAction create))
                else (reg\<lparr>or_types := hm_insert k
                        \<lparr>otr_schema = ot_SCHEMA_ID T, otr_concurrency = c, otr_mobility = mr_mobility m,
                         otr_snapshot_version = mr_snapshot_version m, otr_snapshot_schema = mr_snapshot_schema m,
                         otr_decoder = decoder c T, otr_local_wrapper = local_wrapper c T,
                         otr_freezer = mr_freezer m, otr_restorer = mr_restorer m\<rparr> (or_types reg)\<rparr>, Ok ())))"

definition pinned_registration :: "'s migration_registration" where
  "pinned_registration = \<lparr>mr_mobility = MoPinned, mr_snapshot_version = 0, mr_snapshot_schema = 0,
     mr_freezer = None, mr_restorer = None\<rparr>"

definition mobile_registration :: "object_concurrency \<Rightarrow> ('t, 'm, 's) object_type \<Rightarrow> 's migration_registration" where
  "mobile_registration c T = \<lparr>mr_mobility = ot_MOBILITY T, mr_snapshot_version = ot_SNAPSHOT_VERSION T,
     mr_snapshot_schema = ot_snapshot_SCHEMA_ID T, mr_freezer = Some (freezer c T), mr_restorer = Some (restorer c T)\<rparr>"

definition validate_mobile :: "('t, 'm, 's) object_type \<Rightarrow> (runtime_error, unit) result" where
  "validate_mobile T =
     (if ot_MOBILITY T = MoPinned
      then (case nonzero_u128_id ''ObjectTypeId'' (ot_TYPE_ID T) of
              Inl _ \<Rightarrow> Err ReInvalidObjectTypeId | Inr k \<Rightarrow> Err (RePinnedObjectType k))
      else if ot_SNAPSHOT_VERSION T = 0 \<or> ot_snapshot_SCHEMA_ID T = 0 then Err ReInvalidSchema
      else Ok ())"

definition register_exclusive :: "('t, 'm, 's) object_type \<Rightarrow> ('v, 's) object_registry
    \<Rightarrow> ('v, 's) object_registry \<times> (runtime_error, unit) result" where
  "register_exclusive T reg = register_type OcExclusive pinned_registration T reg"

definition register_read_write :: "('t, 'm, 's) object_type \<Rightarrow> ('v, 's) object_registry
    \<Rightarrow> ('v, 's) object_registry \<times> (runtime_error, unit) result" where
  "register_read_write T reg = register_type OcReadWrite pinned_registration T reg"

definition register_mobile_exclusive :: "('t, 'm, 's) object_type \<Rightarrow> ('v, 's) object_registry
    \<Rightarrow> ('v, 's) object_registry \<times> (runtime_error, unit) result" where
  "register_mobile_exclusive T reg =
     (case validate_mobile T of Inl e \<Rightarrow> (reg, Inl e)
      | Inr _ \<Rightarrow> register_type OcExclusive (mobile_registration OcExclusive T) T reg)"

definition register_mobile_read_write :: "('t, 'm, 's) object_type \<Rightarrow> ('v, 's) object_registry
    \<Rightarrow> ('v, 's) object_registry \<times> (runtime_error, unit) result" where
  "register_mobile_read_write T reg =
     (case validate_mobile T of Inl e \<Rightarrow> (reg, Inl e)
      | Inr _ \<Rightarrow> register_type OcReadWrite (mobile_registration OcReadWrite T) T reg)"

definition insert_action ::
  "u128 \<Rightarrow> u64 \<Rightarrow> u64 \<Rightarrow> object_type_id \<Rightarrow> object_access \<Rightarrow> 's object_handler \<Rightarrow> ('v, 's) object_registry
     \<Rightarrow> ('v, 's) object_registry \<times> (runtime_error, unit) result"
where
  "insert_action raw_id input_schema output_schema object_type access h reg =
     (case nonzero_u128_id ''ActionId'' raw_id of
        Inl _ \<Rightarrow> (reg, Err ReInvalidActionId)
      | Inr k \<Rightarrow>
          if input_schema = 0 \<or> output_schema = 0 \<or> reserves_action reg k then (reg, Err (ReDuplicateAction k))
          else (reg\<lparr>or_actions := hm_insert k
                  \<lparr>oar_object_type = object_type, oar_input_schema = input_schema, oar_output_schema = output_schema,
                   oar_access = access, oar_handler = h\<rparr> (or_actions reg)\<rparr>, Ok ()))"

definition require_type ::
  "('t, 'm, 's) object_type \<Rightarrow> object_concurrency \<Rightarrow> ('v, 's) object_registry \<Rightarrow> (runtime_error, object_type_id) result"
where
  "require_type T c reg =
     (case nonzero_u128_id ''ObjectTypeId'' (ot_TYPE_ID T) of
        Inl _ \<Rightarrow> Err ReInvalidObjectTypeId
      | Inr k \<Rightarrow>
          (case hm_get (or_types reg) k of
             None \<Rightarrow> Err (ReUnknownObjectType k)
           | Some r \<Rightarrow> if otr_concurrency r \<noteq> c then Err ReInvalidObjectConcurrency else Ok k))"

definition register_read ::
  "('t, 'm, 's) object_type \<Rightarrow> ('a, 'o, 't) read_action \<Rightarrow> ('v, 's) object_registry
     \<Rightarrow> ('v, 's) object_registry \<times> (runtime_error, unit) result"
where
  "register_read T A reg =
     (case require_type T OcReadWrite reg of
        Inl e \<Rightarrow> (reg, Inl e)
      | Inr object_type \<Rightarrow>
          insert_action (rac_ID A) (rac_SCHEMA_ID A) (rac_output_SCHEMA_ID A) object_type OaRead (read_handler T A) reg)"

definition register_write ::
  "('t, 'm, 's) object_type \<Rightarrow> ('a, 'o, 't) write_action \<Rightarrow> ('v, 's) object_registry
     \<Rightarrow> ('v, 's) object_registry \<times> (runtime_error, unit) result"
where
  "register_write T A reg =
     (case nonzero_u128_id ''ObjectTypeId'' (ot_TYPE_ID T) of
        Inl _ \<Rightarrow> (reg, Err ReInvalidObjectTypeId)
      | Inr object_type \<Rightarrow>
          if hm_get (or_types reg) object_type = None then (reg, Err (ReUnknownObjectType object_type))
          else insert_action (wac_ID A) (wac_SCHEMA_ID A) (wac_output_SCHEMA_ID A) object_type OaWrite
                 (write_handler T A) reg)"

definition register_placement ::
  "('a, 'o, 'v) action_type \<Rightarrow> 'v registered_action \<Rightarrow> ('v, 's) object_registry
     \<Rightarrow> ('v, 's) object_registry \<times> (runtime_error, action_id) result"
where
  "register_placement A h reg =
     (case nonzero_u128_id ''ActionId'' (at_ID A) of
        Inl _ \<Rightarrow> (reg, Err ReInvalidActionId)
      | Inr action \<Rightarrow>
          (case placement_action_id action of
             Inl e \<Rightarrow> (reg, Inl e)
           | Inr k \<Rightarrow>
               if at_SCHEMA_ID A = 0 \<or> at_output_SCHEMA_ID A = 0 \<or> reserves_action reg k
               then (reg, Err (ReDuplicateAction k))
               else (reg\<lparr>or_placements := hm_insert k
                       \<lparr>par_input_schema = at_SCHEMA_ID A, par_output_schema = at_output_SCHEMA_ID A,
                        par_handler = h\<rparr> (or_placements reg)\<rparr>, Ok k)))"

subsection \<open>Installing the handlers\<close>

text \<open>The closures the service hands to the action registry, by what they do.\<close>

datatype service_handler =
  ShLease bool | ShAcquire | ShRootRelease | ShTransferAck
| ShFreeze | ShPrepare | ShCommit | ShActivate | ShRollback | ShRetire
| ShCreate object_type_id | ShPlacement action_id | ShObject action_id

definition service_actions :: "(action_id \<times> u64 \<times> u64 \<times> service_handler) list" where
  "service_actions =
     [(LEASE_RENEW_ACTION_ID, 1, 1, ShLease True), (LEASE_RELEASE_ACTION_ID, 1, 1, ShLease False),
      (LEASE_ACQUIRE_ACTION_ID, 1, 1, ShAcquire), (ROOT_RELEASE_ACTION_ID, 1, 1, ShRootRelease),
      (TRANSFER_ACK_ACTION_ID, 1, 1, ShTransferAck),
      (MIGRATION_FREEZE_ACTION_ID, MIGRATION_SCHEMA_ID, MIGRATION_SCHEMA_ID, ShFreeze),
      (MIGRATION_PREPARE_ACTION_ID, MIGRATION_SCHEMA_ID, MIGRATION_SCHEMA_ID, ShPrepare),
      (MIGRATION_COMMIT_ACTION_ID, MIGRATION_SCHEMA_ID, MIGRATION_SCHEMA_ID, ShCommit),
      (MIGRATION_ACTIVATE_ACTION_ID, MIGRATION_SCHEMA_ID, MIGRATION_SCHEMA_ID, ShActivate),
      (MIGRATION_ROLLBACK_ACTION_ID, MIGRATION_SCHEMA_ID, MIGRATION_SCHEMA_ID, ShRollback),
      (MIGRATION_RETIRE_ACTION_ID, MIGRATION_SCHEMA_ID, MIGRATION_SCHEMA_ID, ShRetire)]"

fun install_all ::
  "(service_handler \<Rightarrow> 'v registered_action) \<Rightarrow> (action_id \<times> u64 \<times> u64 \<times> service_handler) list
     \<Rightarrow> 'v action_registry \<Rightarrow> 'v action_registry \<times> (runtime_error, unit) result"
where
  "install_all closure [] actions = (actions, Ok ())"
| "install_all closure ((k, inp, out, h) # hs) actions =
     (case insert_erased k inp out (closure h) actions of
        (actions', Inl e) \<Rightarrow> (actions', Inl e)
      | (actions', Inr _) \<Rightarrow> install_all closure hs actions')"

text \<open>\<open>create_action_id(t)?\<close> for each type stops the installation at the first that fails.\<close>

fun create_actions ::
  "(object_type_id \<times> 's object_type_registration) list \<Rightarrow> (action_id \<times> u64 \<times> u64 \<times> service_handler) list
     \<times> runtime_error option"
where
  "create_actions [] = ([], None)"
| "create_actions ((t, r) # ts) =
     (case create_action_id t of
        Inl e \<Rightarrow> ([], Some e)
      | Inr k \<Rightarrow> (case create_actions ts of (hs, e) \<Rightarrow> ((k, otr_schema r, LOCATION_SCHEMA_ID, ShCreate t) # hs, e)))"

definition install ::
  "(service_handler \<Rightarrow> 'v registered_action) \<Rightarrow> ('v, 's) object_registry \<Rightarrow> 'v action_registry
     \<Rightarrow> 'v action_registry \<times> (runtime_error, unit) result"
where
  "install closure reg actions =
     (case create_actions (sort_key fst (or_types reg)) of
        (creates, stop) \<Rightarrow>
          (case install_all closure (service_actions @ creates) actions of
             (actions1, Inl e) \<Rightarrow> (actions1, Inl e)
           | (actions1, Inr _) \<Rightarrow>
               (case stop of
                  Some e \<Rightarrow> (actions1, Inl e)
                | None \<Rightarrow> install_all closure
                    (map (\<lambda>(k, r). (k, par_input_schema r, par_output_schema r, ShPlacement k)) (sort_key fst (or_placements reg))
                     @ map (\<lambda>(k, r). (k, oar_input_schema r, oar_output_schema r, ShObject k)) (sort_key fst (or_actions reg)))
                    actions1)))"

text \<open>The closure of a colocated action drops the envelope and runs the user's action.\<close>

definition placement_closure :: "'v registered_action \<Rightarrow> 'v registered_action" where
  "placement_closure h = registered_action_new (\<lambda>ss.
     (case envelope_decode ss of
        Inl e \<Rightarrow> Err (Fail e)
      | Inr (_, payload) \<Rightarrow> res_map_err Fail (execute_encoded h payload)))"

fun concurrency_code :: "object_concurrency \<Rightarrow> u8" where
  "concurrency_code OcExclusive = 0"
| "concurrency_code OcReadWrite = 1"

fun mobility_code :: "mobility \<Rightarrow> u8" where
  "mobility_code MoPinned = 0"
| "mobility_code MoReconstructible = 1"
| "mobility_code MoMigratable = 2"

fun access_code :: "object_access \<Rightarrow> u8" where
  "access_code OaRead = 0"
| "access_code OaWrite = 1"

definition hash_bytes :: "u64 list \<Rightarrow> bytes \<Rightarrow> u64 list" where
  "hash_bytes hashes bs = fold (\<lambda>b hs. hash_byte b 0 hs) bs hashes"

definition object_fingerprint :: "('v, 's) object_registry \<Rightarrow> bytes" where
  "object_fingerprint reg =
     (let h1 = fold (\<lambda>(k, r) h. hash_bytes h (u128_le k @ u64_le (otr_schema r) @ [concurrency_code (otr_concurrency r)]
                   @ [mobility_code (otr_mobility r)] @ u32_le (otr_snapshot_version r) @ u64_le (otr_snapshot_schema r)))
                (sort_key fst (or_types reg)) SEEDS;
          h2 = fold (\<lambda>(k, r) h. hash_bytes h (u128_le k @ u64_le (par_input_schema r) @ u64_le (par_output_schema r)))
                (sort_key fst (or_placements reg)) h1;
          h3 = fold (\<lambda>(k, r) h. hash_bytes h (u128_le k @ u128_le (oar_object_type r) @ u64_le (oar_input_schema r)
                   @ u64_le (oar_output_schema r) @ [access_code (oar_access r)]))
                (sort_key fst (or_actions reg)) h2
      in concat (map u64_le h3))"

subsection \<open>No action identity is claimed twice\<close>

definition create_ids :: "('v, 's) object_registry \<Rightarrow> action_id set" where
  "create_ids reg = {k. \<exists>t. hm_get (or_types reg) t \<noteq> None \<and> create_action_id t = Ok k}"

definition action_keys :: "('k, 'v) hmap \<Rightarrow> 'k set" where
  "action_keys m = {k. hm_get m k \<noteq> None}"

definition object_registry_ok :: "('v, 's) object_registry \<Rightarrow> bool" where
  "object_registry_ok reg \<longleftrightarrow>
     hm_wf (or_types reg) \<and> hm_wf (or_actions reg) \<and> hm_wf (or_placements reg)
     \<and> (\<forall>t r. hm_get (or_types reg) t = Some r \<longrightarrow> otr_schema r \<noteq> 0 \<and> is_ok (create_action_id t))
     \<and> (\<forall>k r. hm_get (or_placements reg) k = Some r \<longrightarrow> par_input_schema r \<noteq> 0 \<and> par_output_schema r \<noteq> 0)
     \<and> (\<forall>k r. hm_get (or_actions reg) k = Some r \<longrightarrow> oar_input_schema r \<noteq> 0 \<and> oar_output_schema r \<noteq> 0)
     \<and> create_ids reg \<inter> set reserved_ids = {} \<and> action_keys (or_actions reg) \<inter> set reserved_ids = {}
     \<and> action_keys (or_placements reg) \<inter> set reserved_ids = {}
     \<and> create_ids reg \<inter> action_keys (or_actions reg) = {} \<and> create_ids reg \<inter> action_keys (or_placements reg) = {}
     \<and> action_keys (or_actions reg) \<inter> action_keys (or_placements reg) = {}"

lemma hm_get_iff_mem: "hm_wf m \<Longrightarrow> (k, v) \<in> set m \<longleftrightarrow> hm_get m k = Some v"
  by (simp add: hm_wf_def hm_get_def)

lemma hm_get_not_None: "hm_get m k \<noteq> None \<longleftrightarrow> k \<in> fst ` set m"
  by (simp add: hm_get_def map_of_eq_None_iff)

lemma reserves_action_iff:
  "reserves_action reg a \<longleftrightarrow> a \<in> set reserved_ids \<union> action_keys (or_actions reg) \<union> action_keys (or_placements reg) \<union> create_ids reg"
proof -
  have "list_ex (\<lambda>p. (case create_action_id (fst p) of Inl _ \<Rightarrow> False | Inr create \<Rightarrow> create = a)) (or_types reg)
      \<longleftrightarrow> a \<in> create_ids reg"
  proof -
    have "(case create_action_id t of Inl _ \<Rightarrow> False | Inr create \<Rightarrow> create = a) \<longleftrightarrow> create_action_id t = Ok a" for t
      by (cases "create_action_id t") auto
    then show ?thesis unfolding create_ids_def hm_get_not_None list_ex_iff by auto
  qed
  then show ?thesis by (auto simp: reserves_action_def action_keys_def)
qed

lemma action_keys_insert: "hm_wf m \<Longrightarrow> action_keys (hm_insert k v m) = insert k (action_keys m)"
  by (auto simp: action_keys_def)

lemma create_ids_insert:
  "hm_wf (or_types reg) \<Longrightarrow> create_action_id k = Ok c \<Longrightarrow>
     create_ids (reg\<lparr>or_types := hm_insert k r (or_types reg)\<rparr>) = insert c (create_ids reg)"
  by (auto simp: create_ids_def) (metis Inr_inject)

lemma create_ids_other [simp]:
  "create_ids (reg\<lparr>or_actions := A\<rparr>) = create_ids reg" "create_ids (reg\<lparr>or_placements := P\<rparr>) = create_ids reg"
  by (simp_all add: create_ids_def)

lemma register_type_ok:
  assumes "object_registry_ok reg"
  shows "object_registry_ok (fst (register_type c m T reg))"
proof (cases "snd (register_type c m T reg) = Ok ()")
  case False
  then have "fst (register_type c m T reg) = reg"
    by (auto simp: register_type_def split: sum.splits if_splits)
  with assms show ?thesis by simp
next
  case True
  then obtain k create r where k: "create_action_id k = Ok create" "\<not> reserves_action reg create"
      "fst (register_type c m T reg) = reg\<lparr>or_types := hm_insert k r (or_types reg)\<rparr>" "otr_schema r \<noteq> 0"
    by (auto simp: register_type_def split: sum.splits if_splits)
  with assms create_ids_insert [OF _ k(1), of reg r] show ?thesis
    by (auto simp: object_registry_ok_def reserves_action_iff)
qed

lemma insert_action_ok:
  assumes "object_registry_ok reg"
  shows "object_registry_ok (fst (insert_action raw inp out t acc h reg))"
  using assms
  by (auto simp: insert_action_def object_registry_ok_def reserves_action_iff action_keys_insert split: sum.splits)

lemma register_placement_ok:
  assumes "object_registry_ok reg"
  shows "object_registry_ok (fst (register_placement A h reg))"
  using assms
  by (auto simp: register_placement_def object_registry_ok_def reserves_action_iff action_keys_insert split: sum.splits)

lemma registrations_ok:
  assumes "object_registry_ok reg"
  shows "object_registry_ok (fst (register_exclusive T reg))"
    "object_registry_ok (fst (register_read_write T reg))"
    "object_registry_ok (fst (register_mobile_exclusive T reg))"
    "object_registry_ok (fst (register_mobile_read_write T reg))"
    "object_registry_ok (fst (register_read T R reg))"
    "object_registry_ok (fst (register_write T W reg))"
  using assms register_type_ok [OF assms] insert_action_ok [OF assms]
  by (auto simp: register_exclusive_def register_read_write_def register_mobile_exclusive_def
      register_mobile_read_write_def register_read_def register_write_def split: sum.splits)

lemma object_registry_default_ok: "object_registry_ok object_registry_default"
  by (simp add: object_registry_ok_def object_registry_default_def create_ids_def action_keys_def)

text \<open>What installing a list of handlers does when their identities are new and pairwise distinct.\<close>

lemma install_all_Ok:
  assumes "distinct (map fst hs)" "\<forall>(k, inp, out, h)\<in>set hs. inp \<noteq> 0 \<and> out \<noteq> 0 \<and> registry_get actions k = None"
    and "hm_wf (ar_entries actions)"
  shows "\<exists>actions'. install_all closure hs actions = (actions', Ok ()) \<and> hm_wf (ar_entries actions')
    \<and> (\<forall>(k, inp, out, h)\<in>set hs. registry_get actions' k = Some (closure h))
    \<and> (\<forall>k. k \<notin> fst ` set hs \<longrightarrow> registry_get actions' k = registry_get actions k)"
  using assms
proof (induction hs arbitrary: actions)
  case (Cons x hs)
  obtain k inp out h where x: "x = (k, inp, out, h)" by (cases x)
  obtain a where ins: "insert_erased k inp out (closure h) actions = (a, Ok ())" "hm_wf (ar_entries a)"
      "\<And>j. registry_get a j = (if j = k then Some (closure h) else registry_get actions j)"
    using Cons.prems x by (auto simp: insert_erased_def registry_get_def)
  have "\<forall>(k, inp, out, h)\<in>set hs. inp \<noteq> 0 \<and> out \<noteq> 0 \<and> registry_get a k = None"
  proof clarify
    fix k' inp' out' h' assume m: "(k', inp', out', h') \<in> set hs"
    then have "k' \<noteq> k" using Cons.prems(1) x by force
    then show "inp' \<noteq> 0 \<and> out' \<noteq> 0 \<and> registry_get a k' = None"
      using Cons.prems(2) m ins(3) by fastforce
  qed
  then obtain a' where a': "install_all closure hs a = (a', Ok ())" "hm_wf (ar_entries a')"
      "\<forall>(k, inp, out, h)\<in>set hs. registry_get a' k = Some (closure h)"
      "\<forall>k. k \<notin> fst ` set hs \<longrightarrow> registry_get a' k = registry_get a k"
    using Cons.IH [of a] Cons.prems(1) ins(2) x by auto
  have "registry_get a' k = Some (closure h)"
    using a'(4) ins(3) Cons.prems(1) x by (auto simp: image_iff)
  with a' ins x show ?case by auto
qed simp

lemma create_action_id_Ok: "create_action_id t = Ok k \<longleftrightarrow> k \<noteq> 0 \<and> k = t XOR CREATE_ACTION_MASK"
  by (auto simp: create_action_id_def nonzero_u128_id_def split: if_splits)

lemma create_actions_ok:
  "\<forall>p\<in>set ts. is_ok (create_action_id (fst p)) \<Longrightarrow> create_actions ts =
     (map (\<lambda>(t, r). (t XOR CREATE_ACTION_MASK, otr_schema r, LOCATION_SCHEMA_ID, ShCreate t)) ts, None)"
  by (induction ts rule: create_actions.induct) (auto simp: create_action_id_def nonzero_u128_id_def split: if_splits)

lemma service_actions_ids: "map fst service_actions = reserved_ids" "distinct reserved_ids"
  using action_ids_distinct by (simp_all add: service_actions_def reserved_ids_def)

lemma service_actions_schemas: "(k, inp, out, h) \<in> set service_actions \<Longrightarrow> inp \<noteq> 0 \<and> out \<noteq> 0"
  by (auto simp: service_actions_def MIGRATION_SCHEMA_ID_def)

definition create_list :: "('v, 's) object_registry \<Rightarrow> (action_id \<times> u64 \<times> u64 \<times> service_handler) list" where
  "create_list reg = map (\<lambda>(t, r). (t XOR CREATE_ACTION_MASK, otr_schema r, LOCATION_SCHEMA_ID, ShCreate t)) (sort_key fst (or_types reg))"

definition other_list :: "('v, 's) object_registry \<Rightarrow> (action_id \<times> u64 \<times> u64 \<times> service_handler) list" where
  "other_list reg = map (\<lambda>(k, r). (k, par_input_schema r, par_output_schema r, ShPlacement k)) (sort_key fst (or_placements reg))
     @ map (\<lambda>(k, r). (k, oar_input_schema r, oar_output_schema r, ShObject k)) (sort_key fst (or_actions reg))"

lemma install_all_append:
  "install_all closure (xs @ ys) actions =
     (case install_all closure xs actions of (a, Inl e) \<Rightarrow> (a, Inl e) | (a, Inr _) \<Rightarrow> install_all closure ys a)"
  by (induction closure xs actions rule: install_all.induct) (auto split: prod.splits sum.splits)

lemma install_lists_ok:
  assumes "object_registry_ok reg"
  defines "creates \<equiv> map (\<lambda>(t, r). (t XOR CREATE_ACTION_MASK, otr_schema r, LOCATION_SCHEMA_ID, ShCreate t)) (sort_key fst (or_types reg))"
    and "others \<equiv> map (\<lambda>(k, r). (k, par_input_schema r, par_output_schema r, ShPlacement k)) (sort_key fst (or_placements reg))
      @ map (\<lambda>(k, r). (k, oar_input_schema r, oar_output_schema r, ShObject k)) (sort_key fst (or_actions reg))"
  shows "distinct (map fst (service_actions @ creates @ others))"
    and "(k, inp, out, h) \<in> set (service_actions @ creates @ others) \<Longrightarrow> inp \<noteq> 0 \<and> out \<noteq> 0 \<and> reserves_action reg k"
proof -
  note ok = assms(1) [unfolded object_registry_ok_def]
  have sorted_keys: "distinct (map fst (sort_key fst m))" if "hm_wf m" for m :: "(u128, 'x) hmap"
    using that by (metis distinct_map distinct_sort hm_wf_def set_sort)
  have c: "map fst creates = map (\<lambda>t. t XOR CREATE_ACTION_MASK) (map fst (sort_key fst (or_types reg)))"
    by (auto simp: creates_def)
  have o: "map fst others = map fst (sort_key fst (or_placements reg)) @ map fst (sort_key fst (or_actions reg))"
    by (auto simp: others_def)
  have cset: "set (map fst creates) = create_ids reg"
  proof -
    have "\<forall>t\<in>fst ` set (or_types reg). create_action_id t = Ok (t XOR CREATE_ACTION_MASK)"
      using ok by (auto simp: hm_get_iff_mem [symmetric] is_ok_iff create_action_id_Ok)
    then show ?thesis unfolding c create_ids_def hm_get_not_None by (force simp: image_iff create_action_id_Ok)
  qed
  have oset: "set (map fst (sort_key fst m)) = action_keys m" for m :: "(u128, 'x) hmap"
    unfolding action_keys_def hm_get_not_None by auto
  have sset: "set (map fst service_actions) = set reserved_ids" by (simp only: service_actions_ids)
  have others_set: "set (map fst others) = action_keys (or_placements reg) \<union> action_keys (or_actions reg)"
    unfolding o set_append by (simp only: oset)
  have d: "distinct (map fst service_actions)" "distinct (map fst creates)" "distinct (map fst others)"
  proof -
    show "distinct (map fst service_actions)" by (simp only: service_actions_ids)
    show "distinct (map fst creates)"
      unfolding c using sorted_keys [of "or_types reg"] ok by (auto simp: distinct_map inj_on_def xor_cancel)
    show "distinct (map fst others)"
      unfolding o distinct_append oset using sorted_keys [of "or_placements reg"] sorted_keys [of "or_actions reg"] ok by blast
  qed
  have i: "set reserved_ids \<inter> create_ids reg = {}" "create_ids reg \<inter> (action_keys (or_placements reg) \<union> action_keys (or_actions reg)) = {}"
      "set reserved_ids \<inter> (create_ids reg \<union> (action_keys (or_placements reg) \<union> action_keys (or_actions reg))) = {}"
    using ok by blast+
  show "distinct (map fst (service_actions @ creates @ others))"
    unfolding map_append distinct_append set_append sset cset others_set using d i by blast
  assume m: "(k, inp, out, h) \<in> set (service_actions @ creates @ others)"
  have "k \<in> set reserved_ids \<union> create_ids reg \<union> (action_keys (or_placements reg) \<union> action_keys (or_actions reg))"
  proof -
    have "k \<in> set (map fst (service_actions @ creates @ others))" using m by force
    then show ?thesis unfolding map_append set_append sset cset others_set by blast
  qed
  moreover have "inp \<noteq> 0 \<and> out \<noteq> 0"
    using m ok service_actions_schemas [of k inp out h]
    by (auto simp: creates_def others_def LOCATION_SCHEMA_ID_def hm_get_iff_mem)
  ultimately show "inp \<noteq> 0 \<and> out \<noteq> 0 \<and> reserves_action reg k" by (auto simp: reserves_action_iff)
qed

lemma install_as_list:
  assumes "object_registry_ok reg"
  shows "install closure reg actions = install_all closure (service_actions @ create_list reg @ other_list reg) actions"
proof -
  have "create_actions (sort_key fst (or_types reg)) = (create_list reg, None)"
    unfolding create_list_def using assms by (intro create_actions_ok) (auto simp: object_registry_ok_def hm_get_iff_mem)
  then show ?thesis
    unfolding install_def append_assoc [symmetric] install_all_append [of closure "service_actions @ create_list reg"]
    by (simp add: other_list_def)
qed

lemma installed_members:
  "hm_get (or_types reg) t \<noteq> None \<Longrightarrow> create_action_id t = Ok k \<Longrightarrow> \<exists>inp out. (k, inp, out, ShCreate t) \<in> set (create_list reg)"
  "hm_get (or_placements reg) k \<noteq> None \<Longrightarrow> \<exists>inp out. (k, inp, out, ShPlacement k) \<in> set (other_list reg)"
  "hm_get (or_actions reg) k \<noteq> None \<Longrightarrow> \<exists>inp out. (k, inp, out, ShObject k) \<in> set (other_list reg)"
  unfolding hm_get_not_None by (force simp: create_list_def other_list_def create_action_id_Ok)+

text \<open>
  The registry keeps the identities apart. The empty registry is well formed and every
  registration keeps it so; for a well-formed registry, installing its handlers into an action
  registry that has none of the reserved identities never fails, and afterwards every creation,
  object and colocated action resolves to its own handler, other actions as before.
\<close>

theorem object_registry_installs:
  assumes "object_registry_ok reg" "hm_wf (ar_entries actions)"
    and "\<forall>k. reserves_action reg k \<longrightarrow> registry_get actions k = None"
  shows "object_registry_ok (fst (register_exclusive T reg)) \<and> object_registry_ok (fst (register_read_write T reg))
    \<and> object_registry_ok (fst (register_mobile_exclusive T reg)) \<and> object_registry_ok (fst (register_mobile_read_write T reg))
    \<and> object_registry_ok (fst (register_read T R reg)) \<and> object_registry_ok (fst (register_write T W reg))
    \<and> object_registry_ok (fst (register_placement A g reg))
    \<and> (\<exists>actions'. install closure reg actions = (actions', Ok ())
       \<and> (\<forall>t k. hm_get (or_types reg) t \<noteq> None \<and> create_action_id t = Ok k \<longrightarrow> registry_get actions' k = Some (closure (ShCreate t)))
       \<and> (\<forall>k. hm_get (or_placements reg) k \<noteq> None \<longrightarrow> registry_get actions' k = Some (closure (ShPlacement k)))
       \<and> (\<forall>k. hm_get (or_actions reg) k \<noteq> None \<longrightarrow> registry_get actions' k = Some (closure (ShObject k)))
       \<and> (\<forall>k. \<not> reserves_action reg k \<longrightarrow> registry_get actions' k = registry_get actions k))"
proof -
  let ?hs = "service_actions @ create_list reg @ other_list reg"
  note lists = install_lists_ok [OF assms(1), folded create_list_def other_list_def]
  have "\<forall>(k, inp, out, h)\<in>set ?hs. inp \<noteq> 0 \<and> out \<noteq> 0 \<and> registry_get actions k = None" using lists(2) assms(3) by blast
  from install_all_Ok [OF lists(1) this assms(2), of closure] obtain actions' where
      a: "install closure reg actions = (actions', Ok ())" "\<forall>(k, inp, out, h)\<in>set ?hs. registry_get actions' k = Some (closure h)"
         "\<forall>k. k \<notin> fst ` set ?hs \<longrightarrow> registry_get actions' k = registry_get actions k"
    unfolding install_as_list [OF assms(1)] by blast
  have found: "registry_get actions' k = Some (closure h)" if "(k, inp, out, h) \<in> set (create_list reg) \<union> set (other_list reg)" for k inp out h
    using a(2) that by (auto dest!: bspec [of _ _ "(k, inp, out, h)"])
  have "registry_get actions' k = registry_get actions k" if "\<not> reserves_action reg k" for k
    using a(3) lists(2) that by (metis (no_types) imageE prod.collapse)
  moreover have "registry_get actions' k = Some (closure (ShCreate t))" if h: "hm_get (or_types reg) t \<noteq> None" "create_action_id t = Ok k" for t k
    using installed_members(1) [OF h] found by blast
  moreover have "registry_get actions' k = Some (closure (ShPlacement k))" if "hm_get (or_placements reg) k \<noteq> None" for k
    using installed_members(2) [OF that] found by blast
  moreover have "registry_get actions' k = Some (closure (ShObject k))" if "hm_get (or_actions reg) k \<noteq> None" for k
    using installed_members(3) [OF that] found by blast
  ultimately show ?thesis
    using a(1) registrations_ok [OF assms(1)] register_placement_ok [OF assms(1)] by blast
qed

definition demo_counter :: "(u64, u64, u64) object_type" where
  "demo_counter = \<lparr>ot_TYPE_ID = 77, ot_SCHEMA_ID = 5, ot_decode = (\<lambda>ss. res_map_err Fail (u64_decode ss)),
     ot_downcast = Some, ot_box = id, ot_MOBILITY = MoMigratable, ot_SNAPSHOT_VERSION = 1, ot_snapshot_SCHEMA_ID = 6,
     ot_freeze = (\<lambda>t. (t, Ok t)), ot_snapshot_encode = (\<lambda>t. res_map_err Fail (u64_encode t)),
     ot_snapshot_decode = (\<lambda>ss. res_map_err Fail (u64_decode ss)), ot_restore = (\<lambda>m d. Ok m)\<rparr>"

definition demo_add :: "(u64, u64, u64) write_action" where
  "demo_add = \<lparr>wac_ID = 78, wac_SCHEMA_ID = 1, wac_output_SCHEMA_ID = 1, wac_decode = (\<lambda>ss. res_map_err Fail (u64_decode ss)),
     wac_execute = (\<lambda>a t. (t + a, Ok (t + a))), wac_output_encode = (\<lambda>t. res_map_err Fail (u64_encode t))\<rparr>"

definition demo_object_registry :: "(unit, u64) object_registry" where
  "demo_object_registry = fst (register_write demo_counter demo_add
     (fst (register_mobile_exclusive demo_counter object_registry_default)))"

lemma demo_object_registry_ok: "object_registry_ok demo_object_registry"
  unfolding demo_object_registry_def by (intro registrations_ok object_registry_default_ok)

theorem object_registry_installs_witness:
  "\<exists>actions'. install (\<lambda>_. registered_action_new Ok) demo_object_registry action_registry_default = (actions', Ok ())"
proof -
  have "hm_wf (ar_entries action_registry_default)"
      "\<forall>k. reserves_action demo_object_registry k \<longrightarrow> registry_get action_registry_default k = None"
    by (simp_all add: action_registry_default_def registry_get_def)
  from object_registry_installs [OF demo_object_registry_ok this, where closure = "\<lambda>_. registered_action_new Ok"]
  show ?thesis by blast
qed

end
