(* ===== verification/Objects.thy ===== *)
theory Objects
  imports ObjectRegistry
begin

text \<open>
  The object service of a runtime (\<open>ObjectService\<close> in \<open>crates/hataori-runtime/src/object.rs\<close>): the
  store of object entries, their admission queues, leases, roots and lifecycles, the resolver
  cache, and the expiry and collection that reclaim entries.

  An entry is the value the map holds for its object; each operation below holds the locks it
  needs from its first access to its last and is one step. \<open>Instant::now()\<close> is an argument. The
  atomic counters that are decremented wrap below zero as \<open>fetch_sub\<close> does; the statistics wrap as
  \<open>fetch_add\<close> does. The one \<open>unwrap\<close> that depends on the state, in \<open>collect\<close>, sets the field
  \<open>os_panicked\<close>.
\<close>

record lease_record =
  lr_expires_at :: instant
  lr_suspect_since :: "instant option"

record 'v admission =
  ad_readers :: usize
  ad_writer :: bool
  ad_queue :: "'v action_job list"

datatype migration_outcome = MgCompleted | MgRolledBack | MgFailed

datatype object_lifecycle =
  LcResident
| LcFreezing request_id instant
| LcPrepared request_id instant
| LcForwarding object_location instant
| LcRetiring object_location

record retirement =
  rt_object :: object_id
  rt_object_type :: object_type_id
  rt_authority :: locality_id
  rt_location :: object_location
  rt_snapshot_version :: u32
  rt_snapshot_schema :: u64

record 's prepared_state =
  pp_migration :: request_id
  pp_location :: object_location
  pp_state :: "'s erased_state"
  pp_snapshot_bytes :: usize
  pp_expires_at :: instant

record ('v, 's) object_entry =
  oe_object_type :: object_type_id
  oe_authority :: locality_id
  oe_location :: object_location
  oe_state :: "'s erased_state option"
  oe_lifecycle :: object_lifecycle
  oe_prepared :: "'s prepared_state option"
  oe_snapshot_bytes :: usize
  oe_leases :: "(locality_id, lease_record) hmap"
  oe_roots :: usize
  oe_in_flight :: usize
  oe_placement_tickets :: usize
  oe_admission :: "'v admission"

record ('v, 's) object_service =
  os_run_id :: run_id
  os_local_id :: locality_id
  os_limits :: object_limits
  os_registry :: "('v, 's) object_registry"
  os_entries :: "(object_id, ('v, 's) object_entry) hmap"
  os_next_slot :: u64
  os_resolver :: "(object_id, object_location) hmap"
  os_resolver_order :: "object_id list"
  os_local_calls :: u64
  os_remote_calls :: u64
  os_root_count :: usize
  os_transfer_count :: usize
  os_placement_count :: usize
  os_pending_transfers :: "(object_id \<times> locality_id) list"
  os_active_migrations :: "request_id list"
  os_prepared_count :: usize
  os_completed_migrations :: u64
  os_rolled_back_migrations :: u64
  os_failed_migrations :: u64
  os_migrated_bytes :: u64
  os_retirements :: "retirement list"
  os_panicked :: bool

definition object_service_new ::
  "run_id \<Rightarrow> locality_id \<Rightarrow> object_limits \<Rightarrow> ('v, 's) object_registry \<Rightarrow> ('v, 's) object_service"
where
  "object_service_new run_id local_id limits registry = \<lparr>os_run_id = run_id, os_local_id = local_id,
     os_limits = limits, os_registry = registry, os_entries = [], os_next_slot = 1, os_resolver = [],
     os_resolver_order = [], os_local_calls = 0, os_remote_calls = 0, os_root_count = 0, os_transfer_count = 0,
     os_placement_count = 0, os_pending_transfers = [], os_active_migrations = [], os_prepared_count = 0,
     os_completed_migrations = 0, os_rolled_back_migrations = 0, os_failed_migrations = 0, os_migrated_bytes = 0,
     os_retirements = [], os_panicked = False\<rparr>"

definition put_entry :: "object_id \<Rightarrow> ('v, 's) object_entry \<Rightarrow> ('v, 's) object_service \<Rightarrow> ('v, 's) object_service" where
  "put_entry obj e sv = sv\<lparr>os_entries := hm_insert obj e (os_entries sv)\<rparr>"

definition admission_new :: "'v admission" where
  "admission_new = \<lparr>ad_readers = 0, ad_writer = False, ad_queue = []\<rparr>"

text \<open>\<open>fetch_sub(k)\<close> on a 64-bit counter.\<close>

definition fetch_sub_by :: "usize \<Rightarrow> usize \<Rightarrow> usize" where
  "fetch_sub_by n k = (if k \<le> n then n - k else n + 2 ^ 64 - k)"

subsection \<open>The resolver cache\<close>

text \<open>The resolver is a map and the queue of its keys in the order they came, under one lock.\<close>

fun cache_insert ::
  "usize \<Rightarrow> object_id \<Rightarrow> object_location \<Rightarrow> (object_id, object_location) hmap \<times> object_id list
     \<Rightarrow> (object_id, object_location) hmap \<times> object_id list"
where
  "cache_insert limit obj location (m, order) =
     (if hm_get m obj \<noteq> None then (hm_insert obj location m, order)
      else
        (let (m1, order1) =
           (if limit \<le> hm_len m
            then (case order of [] \<Rightarrow> (m, order) | oldest # rest \<Rightarrow> (hm_remove oldest m, rest))
            else (m, order))
         in (hm_insert obj location m1, order1 @ [obj])))"

definition cache_location :: "object_id \<Rightarrow> object_location \<Rightarrow> ('v, 's) object_service \<Rightarrow> ('v, 's) object_service" where
  "cache_location obj location sv =
     (let (m, order) = cache_insert (ol_max_resolver_entries (os_limits sv)) obj location (os_resolver sv, os_resolver_order sv)
      in sv\<lparr>os_resolver := m, os_resolver_order := order\<rparr>)"

definition resolve :: "object_id \<Rightarrow> ('v, 's) object_service \<Rightarrow> object_location option" where
  "resolve obj sv =
     (case hm_get (os_resolver sv) obj of
        Some location \<Rightarrow> Some location
      | None \<Rightarrow> map_option oe_location (hm_get (os_entries sv) obj))"

definition clear_resolver :: "('v, 's) object_service \<Rightarrow> ('v, 's) object_service" where
  "clear_resolver sv = sv\<lparr>os_resolver := [], os_resolver_order := []\<rparr>"

definition clear_all :: "('v, 's) object_service \<Rightarrow> ('v, 's) object_service" where
  "clear_all sv = clear_resolver (sv\<lparr>os_entries := [], os_root_count := 0, os_transfer_count := 0,
     os_placement_count := 0, os_pending_transfers := [], os_active_migrations := [], os_prepared_count := 0,
     os_retirements := []\<rparr>)"

definition forget_entry :: "object_id \<Rightarrow> ('v, 's) object_service \<Rightarrow> ('v, 's) object_service" where
  "forget_entry obj sv = sv\<lparr>os_entries := hm_remove obj (os_entries sv), os_resolver := hm_remove obj (os_resolver sv)\<rparr>"

subsection \<open>Creating objects\<close>

definition service_insert ::
  "object_envelope \<Rightarrow> 's erased_state \<Rightarrow> instant \<Rightarrow> ('v, 's) object_service
     \<Rightarrow> ('v, 's) object_service \<times> (action_error, object_location) result"
where
  "service_insert env st now sv =
     (let l = os_limits sv; user = (\<lambda>s. ae_user (lit s)) in
      if ol_max_objects l \<le> hm_len (os_entries sv) then (sv, Err (user ''object store is full''))
      else if hm_get (os_entries sv) (en_object env) \<noteq> None then (sv, Err (user ''duplicate object id''))
      else (case checked_add_u64 (os_next_slot sv) 1 of
          None \<Rightarrow> (sv, Err (user ''object slot overflow''))
        | Some slot' \<Rightarrow>
            (let sv1 = sv\<lparr>os_next_slot := slot'\<rparr> in
             case object_location_new (os_local_id sv) (en_domain env) (os_next_slot sv) 1 1 of
               Inl _ \<Rightarrow> (sv1, Err (user ''invalid object location''))
             | Inr location \<Rightarrow>
                 if en_rooted env \<and> \<not> os_root_count sv < ol_max_roots l
                 then (sv1, Err (user ''object root limit reached''))
                 else
                   (let sv2 = (if en_rooted env then sv1\<lparr>os_root_count := os_root_count sv1 + 1\<rparr> else sv1);
                        e = \<lparr>oe_object_type = en_object_type env, oe_authority = os_local_id sv,
                             oe_location = location, oe_state = Some st, oe_lifecycle = LcResident,
                             oe_prepared = None, oe_snapshot_bytes = 0,
                             oe_leases = hm_insert (en_lease_locality env)
                               \<lparr>lr_expires_at = now + ol_lease_ttl l, lr_suspect_since = None\<rparr> [],
                             oe_roots = (if en_rooted env then 1 else 0), oe_in_flight = 0,
                             oe_placement_tickets = 0, oe_admission = admission_new\<rparr>
                    in (cache_location (en_object env) location (put_entry (en_object env) e sv2), Ok location)))))"

definition create_local ::
  "object_id \<Rightarrow> object_type_id \<Rightarrow> domain_id \<Rightarrow> 's \<Rightarrow> locality_id \<Rightarrow> bool \<Rightarrow> instant \<Rightarrow> ('v, 's) object_service
     \<Rightarrow> ('v, 's) object_service \<times> (runtime_error, object_location) result"
where
  "create_local obj object_type domain v lease_locality rooted now sv =
     (case hm_get (or_types (os_registry sv)) object_type of
        None \<Rightarrow> (sv, Err (ReUnknownObjectType object_type))
      | Some r \<Rightarrow>
          (case otr_local_wrapper r v of
             Inl e \<Rightarrow> (sv, Err e)
           | Inr st \<Rightarrow>
               (case service_insert \<lparr>en_object = obj, en_object_type = object_type, en_epoch = 1,
                      en_lease_locality = lease_locality, en_domain = domain, en_rooted = rooted\<rparr> st now sv of
                  (sv', res) \<Rightarrow> (sv', res_map_err (\<lambda>e. ReObjectAction (ae_message e)) res))))"

text \<open>The closure of \<open>create_handler\<close>, for a registered type.\<close>

definition create_run ::
  "object_type_id \<Rightarrow> segments \<Rightarrow> instant \<Rightarrow> ('v, 's) object_service
     \<Rightarrow> ('v, 's) object_service \<times> (action_error fault, segments) result"
where
  "create_run object_type ss now sv =
     (case hm_get (or_types (os_registry sv)) object_type of
        None \<Rightarrow> (sv, Err Panic)
      | Some r \<Rightarrow>
          (case envelope_decode ss of
             Inl e \<Rightarrow> (sv, Err (Fail e))
           | Inr (env, payload) \<Rightarrow>
               if en_object_type env \<noteq> object_type \<or> oid_run (en_object env) \<noteq> os_run_id sv
               then (sv, Err (Fail (ae_user (lit ''object identity mismatch''))))
               else (case otr_decoder r payload of
                   Inl e \<Rightarrow> (sv, Err e)
                 | Inr st \<Rightarrow>
                     (case service_insert env st now sv of
                        (sv', Inl e) \<Rightarrow> (sv', Err (Fail e))
                      | (sv', Inr location) \<Rightarrow> (sv', Ok [encode_location location])))))"

subsection \<open>Collection\<close>

definition is_forwarding :: "object_lifecycle \<Rightarrow> bool" where
  "is_forwarding c = (case c of LcForwarding l e \<Rightarrow> True | LcRetiring l \<Rightarrow> True | _ \<Rightarrow> False)"

definition entry_idle :: "('v, 's) object_entry \<Rightarrow> bool" where
  "entry_idle e \<longleftrightarrow> oe_in_flight e = 0 \<and> oe_placement_tickets e = 0 \<and> ad_queue (oe_admission e) = []
     \<and> oe_prepared e = None"

definition collect :: "object_id \<Rightarrow> ('v, 's) object_service \<Rightarrow> ('v, 's) object_service" where
  "collect obj sv =
     (case hm_get (os_entries sv) obj of
        None \<Rightarrow> sv
      | Some e \<Rightarrow>
          if \<not> entry_idle e then sv
          else if oe_authority e \<noteq> os_local_id sv
          then (if is_forwarding (oe_lifecycle e) \<and> oe_state e = None then forget_entry obj sv else sv)
          else if oe_leases e \<noteq> [] \<or> oe_roots e \<noteq> 0 then sv
          else (case oe_lifecycle e of
              LcResident \<Rightarrow> if oe_state e \<noteq> None then forget_entry obj sv else sv
            | LcForwarding location _ \<Rightarrow>
                if oe_state e \<noteq> None then sv
                else if loc_locality location = os_local_id sv then forget_entry obj sv
                else (case hm_get (or_types (os_registry sv)) (oe_object_type e) of
                    None \<Rightarrow> sv\<lparr>os_panicked := True\<rparr>
                  | Some r \<Rightarrow>
                      if ol_max_migrations (os_limits sv) \<le> length (os_retirements sv) then sv
                      else put_entry obj (e\<lparr>oe_lifecycle := LcRetiring location\<rparr>)
                             (sv\<lparr>os_retirements := os_retirements sv @
                               [\<lparr>rt_object = obj, rt_object_type = oe_object_type e, rt_authority = oe_authority e,
                                 rt_location = location, rt_snapshot_version = otr_snapshot_version r,
                                 rt_snapshot_schema = otr_snapshot_schema r\<rparr>]\<rparr>))
            | _ \<Rightarrow> sv))"

definition take_retirements :: "usize \<Rightarrow> ('v, 's) object_service \<Rightarrow> ('v, 's) object_service \<times> retirement list" where
  "take_retirements n sv = (sv\<lparr>os_retirements := drop n (os_retirements sv)\<rparr>, take n (os_retirements sv))"

definition requeue_retirement :: "retirement \<Rightarrow> ('v, 's) object_service \<Rightarrow> ('v, 's) object_service" where
  "requeue_retirement r sv = sv\<lparr>os_retirements := r # os_retirements sv\<rparr>"

definition finish_retirement :: "object_id \<Rightarrow> ('v, 's) object_service \<Rightarrow> ('v, 's) object_service" where
  "finish_retirement obj sv = forget_entry obj sv"

subsection \<open>Leases, roots and transfers\<close>

definition lease_new :: "instant \<Rightarrow> ('v, 's) object_service \<Rightarrow> lease_record" where
  "lease_new now sv = \<lparr>lr_expires_at = now + ol_lease_ttl (os_limits sv), lr_suspect_since = None\<rparr>"

definition acquire :: "object_id \<Rightarrow> locality_id \<Rightarrow> instant \<Rightarrow> ('v, 's) object_service \<Rightarrow> ('v, 's) object_service \<times> bool" where
  "acquire obj locality now sv =
     (case hm_get (os_entries sv) obj of
        None \<Rightarrow> (sv, False)
      | Some e \<Rightarrow>
          if ol_max_local_leases (os_limits sv) \<le> hm_len (oe_leases e) \<and> hm_get (oe_leases e) locality = None
          then (sv, False)
          else (put_entry obj (e\<lparr>oe_leases := hm_insert locality (lease_new now sv) (oe_leases e)\<rparr>) sv, True))"

definition ack_transfer :: "object_id \<Rightarrow> locality_id \<Rightarrow> ('v, 's) object_service \<Rightarrow> ('v, 's) object_service \<times> bool" where
  "ack_transfer obj locality sv =
     (if (obj, locality) \<in> set (os_pending_transfers sv)
      then (sv\<lparr>os_pending_transfers := filter (\<lambda>t. t \<noteq> (obj, locality)) (os_pending_transfers sv),
               os_transfer_count := fetch_dec (os_transfer_count sv)\<rparr>, True)
      else (sv, False))"

definition begin_transfer :: "object_id \<Rightarrow> locality_id \<Rightarrow> instant \<Rightarrow> ('v, 's) object_service \<Rightarrow> ('v, 's) object_service \<times> bool" where
  "begin_transfer obj locality now sv =
     (if (case hm_get (os_entries sv) obj of None \<Rightarrow> True | Some e \<Rightarrow> hm_get (oe_leases e) locality \<noteq> None) then (sv, False)
      else if (obj, locality) \<in> set (os_pending_transfers sv) then (sv, False)
      else if \<not> os_transfer_count sv < ol_max_transfers (os_limits sv) then (sv, False)
      else (let sv1 = sv\<lparr>os_transfer_count := os_transfer_count sv + 1,
                  os_pending_transfers := (obj, locality) # os_pending_transfers sv\<rparr> in
        (case acquire obj locality now sv1 of
           (sv2, True) \<Rightarrow> (sv2, True)
         | (sv2, False) \<Rightarrow> (sv2\<lparr>os_pending_transfers := filter (\<lambda>t. t \<noteq> (obj, locality)) (os_pending_transfers sv2),
               os_transfer_count := fetch_dec (os_transfer_count sv2)\<rparr>, False))))"

definition release_root :: "object_id \<Rightarrow> ('v, 's) object_service \<Rightarrow> ('v, 's) object_service \<times> bool" where
  "release_root obj sv =
     (case hm_get (os_entries sv) obj of
        None \<Rightarrow> (sv, False)
      | Some e \<Rightarrow>
          if oe_roots e = 0 then (sv, False)
          else (collect obj (put_entry obj (e\<lparr>oe_roots := oe_roots e - 1\<rparr>)
                  (sv\<lparr>os_root_count := fetch_dec (os_root_count sv)\<rparr>)), True))"

definition renew :: "object_id \<Rightarrow> locality_id \<Rightarrow> instant \<Rightarrow> ('v, 's) object_service \<Rightarrow> ('v, 's) object_service \<times> bool" where
  "renew obj locality now sv =
     (case hm_get (os_entries sv) obj of
        None \<Rightarrow> (sv, False)
      | Some e \<Rightarrow>
          if hm_get (oe_leases e) locality = None then (sv, False)
          else (put_entry obj (e\<lparr>oe_leases := hm_insert locality (lease_new now sv) (oe_leases e)\<rparr>) sv, True))"

definition release :: "object_id \<Rightarrow> locality_id \<Rightarrow> ('v, 's) object_service \<Rightarrow> ('v, 's) object_service \<times> bool" where
  "release obj locality sv =
     (case hm_get (os_entries sv) obj of
        None \<Rightarrow> (sv, False)
      | Some e \<Rightarrow>
          (collect obj (fst (ack_transfer obj locality
             (put_entry obj (e\<lparr>oe_leases := hm_remove locality (oe_leases e)\<rparr>) sv))),
           hm_get (oe_leases e) locality \<noteq> None))"

subsection \<open>Expiry\<close>

definition take_prepared :: "('v, 's) object_entry \<Rightarrow> ('v, 's) object_entry \<times> usize" where
  "take_prepared e = (case oe_prepared e of None \<Rightarrow> (e, 0) | Some p \<Rightarrow> (e\<lparr>oe_prepared := None\<rparr>, 1))"

text \<open>The entry after its lifecycle has been looked at, and how many prepared states were dropped.\<close>

definition expire_lifecycle ::
  "object_limits \<Rightarrow> locality_id \<Rightarrow> instant \<Rightarrow> ('v, 's) object_entry \<Rightarrow> ('v, 's) object_entry \<times> usize"
where
  "expire_lifecycle l local_id now e =
     (case oe_lifecycle e of
        LcFreezing m expires_at \<Rightarrow>
          if expires_at \<le> now then (e\<lparr>oe_lifecycle := LcResident, oe_snapshot_bytes := 0\<rparr>, 0) else (e, 0)
      | LcPrepared m expires_at \<Rightarrow>
          if expires_at \<le> now
          then (let (e', k) = take_prepared e in
                (e'\<lparr>oe_lifecycle := LcForwarding (oe_location e) (now + ol_forwarding_ttl l)\<rparr>, k))
          else (e, 0)
      | LcForwarding location expires_at \<Rightarrow>
          if expires_at \<le> now \<and> oe_authority e \<noteq> local_id then (e\<lparr>oe_state := None\<rparr>, 0) else (e, 0)
      | LcResident \<Rightarrow> (e, 0)
      | LcRetiring location \<Rightarrow> (e, 0))"

definition expire_prepared :: "instant \<Rightarrow> ('v, 's) object_entry \<Rightarrow> ('v, 's) object_entry \<times> usize" where
  "expire_prepared now e =
     (if (case oe_prepared e of None \<Rightarrow> False | Some p \<Rightarrow> pp_expires_at p \<le> now) then take_prepared e else (e, 0))"

definition mark_suspect :: "instant \<Rightarrow> lease_record \<Rightarrow> lease_record" where
  "mark_suspect now r =
     (if lr_expires_at r \<le> now \<and> lr_suspect_since r = None then r\<lparr>lr_suspect_since := Some now\<rparr> else r)"

definition lease_kept :: "object_limits \<Rightarrow> instant \<Rightarrow> lease_record \<Rightarrow> bool" where
  "lease_kept l now r =
     (case lr_suspect_since r of None \<Rightarrow> True | Some since \<Rightarrow> now - since < ol_lease_grace l)"

definition expire_leases ::
  "object_limits \<Rightarrow> instant \<Rightarrow> (locality_id, lease_record) hmap \<Rightarrow> (locality_id, lease_record) hmap"
where
  "expire_leases l now m = filter (\<lambda>p. lease_kept l now (snd p)) (map (\<lambda>(k, r). (k, mark_suspect now r)) m)"

definition expire_entry :: "instant \<Rightarrow> object_id \<Rightarrow> ('v, 's) object_service \<Rightarrow> ('v, 's) object_service" where
  "expire_entry now obj sv =
     (case hm_get (os_entries sv) obj of
        None \<Rightarrow> sv
      | Some e \<Rightarrow>
          (let (e1, k1) = expire_lifecycle (os_limits sv) (os_local_id sv) now e;
               (e2, k2) = expire_prepared now e1;
               leases = expire_leases (os_limits sv) now (oe_leases e2);
               kept = filter (\<lambda>t. fst t \<noteq> obj \<or> hm_get leases (snd t) \<noteq> None) (os_pending_transfers sv);
               removed = length (os_pending_transfers sv) - length kept
           in collect obj (put_entry obj (e2\<lparr>oe_leases := leases\<rparr>)
                (sv\<lparr>os_prepared_count := fetch_sub_by (os_prepared_count sv) (k1 + k2),
                    os_pending_transfers := kept,
                    os_transfer_count := (if removed \<noteq> 0 then fetch_sub_by (os_transfer_count sv) removed
                      else os_transfer_count sv)\<rparr>))))"

definition expire :: "instant \<Rightarrow> ('v, 's) object_service \<Rightarrow> ('v, 's) object_service" where
  "expire now sv = fold (expire_entry now) (map fst (os_entries sv)) sv"

subsection \<open>Admission\<close>

definition is_local_resident :: "object_id \<Rightarrow> object_location \<Rightarrow> ('v, 's) object_service \<Rightarrow> bool" where
  "is_local_resident obj location sv =
     (case hm_get (os_entries sv) obj of
        None \<Rightarrow> False
      | Some e \<Rightarrow> oe_lifecycle e = LcResident \<and> oe_location e = location \<and> oe_state e \<noteq> None)"

definition request_targets_current :: "action_id \<Rightarrow> segments \<Rightarrow> ('v, 's) object_service \<Rightarrow> bool" where
  "request_targets_current action payload sv =
     (if hm_get (or_actions (os_registry sv)) action = None \<and> hm_get (or_placements (os_registry sv)) action = None
      then False
      else (case envelope_inspect payload of
          Inl _ \<Rightarrow> False
        | Inr env \<Rightarrow>
            (case hm_get (os_entries sv) (en_object env) of
               None \<Rightarrow> False
             | Some e \<Rightarrow> loc_epoch (oe_location e) = en_epoch env \<and> oe_lifecycle e = LcResident)))"

text \<open>Who may enter: readers while there is no writer, a writer while there is nobody.\<close>

definition may_enter :: "bool \<Rightarrow> 'v admission \<Rightarrow> bool" where
  "may_enter read ad \<longleftrightarrow> (if read then \<not> ad_writer ad else \<not> ad_writer ad \<and> ad_readers ad = 0)"

definition enter :: "bool \<Rightarrow> 'v admission \<Rightarrow> 'v admission" where
  "enter read ad = (if read then ad\<lparr>ad_readers := ad_readers ad + 1\<rparr> else ad\<lparr>ad_writer := True\<rparr>)"

text \<open>The object, its type, the epoch and, for a freeze, the migration a job asks for.\<close>

definition admit_target ::
  "bool \<Rightarrow> 'v action_job \<Rightarrow> (runtime_error, object_id \<times> object_type_id \<times> u64 \<times> request_id option) result"
where
  "admit_target freeze job =
     (case aj_input job of
        AvTyped _ \<Rightarrow> Err (ReProtocol (lit ''object admission requires encoded input''))
      | AvEncoded ss \<Rightarrow>
          if freeze
          then (case packet_decode ss of
              Inl e \<Rightarrow> Err (ReProtocol (ae_message e))
            | Inr p \<Rightarrow> Ok (mp_object p, mp_object_type p, loc_epoch (mp_from p), Some (mp_migration p)))
          else (case envelope_inspect ss of
              Inl e \<Rightarrow> Err (ReProtocol (ae_message e))
            | Inr env \<Rightarrow> Ok (en_object env, en_object_type env, en_epoch env, None)))"

text \<open>The check of the lifecycle; a freeze of a resident object starts freezing it.\<close>

definition admit_lifecycle ::
  "object_limits \<Rightarrow> object_id \<Rightarrow> request_id option \<Rightarrow> instant \<Rightarrow> object_lifecycle
     \<Rightarrow> (runtime_error, object_lifecycle) result"
where
  "admit_lifecycle l obj migration now c =
     (case migration of
        Some m \<Rightarrow>
          (case c of
             LcResident \<Rightarrow> Ok (LcFreezing m (now + ol_forwarding_ttl l))
           | LcFreezing existing _ \<Rightarrow> if existing = m then Ok c else Err (ReMigrationInProgress obj)
           | _ \<Rightarrow> Err (ReMigrationInProgress obj))
      | None \<Rightarrow>
          (case c of
             LcResident \<Rightarrow> Ok c
           | LcForwarding location _ \<Rightarrow> Err (ReMoved obj location)
           | LcRetiring location \<Rightarrow> Err (ReMoved obj location)
           | _ \<Rightarrow> Err (ReMigrationInProgress obj)))"

definition admit_placement ::
  "object_id \<Rightarrow> 'v action_job \<Rightarrow> bool \<Rightarrow> ('v, 's) object_entry \<Rightarrow> ('v, 's) object_service
     \<Rightarrow> ('v, 's) object_service \<times> (runtime_error, 'v action_job option) result"
where
  "admit_placement obj job domain_available e sv =
     (if \<not> domain_available then (sv, Err (RePlacement (aj_request job) (lit ''colocated domain is saturated'')))
      else if oe_lifecycle e \<noteq> LcResident then (sv, Err (ReMigrationInProgress obj))
      else if \<not> os_placement_count sv < ol_max_placement_tickets (os_limits sv)
      then (sv, Err (ReResourceExhausted RkPlacementTickets (ol_max_placement_tickets (os_limits sv))))
      else (put_entry obj (e\<lparr>oe_placement_tickets := oe_placement_tickets e + 1, oe_in_flight := oe_in_flight e + 1\<rparr>)
              (sv\<lparr>os_placement_count := os_placement_count sv + 1\<rparr>),
            Ok (Some (job\<lparr>aj_object := Some \<lparr>oj_object = obj, oj_read = False, oj_placement = True\<rparr>\<rparr>))))"

definition admit_queue ::
  "object_id \<Rightarrow> bool \<Rightarrow> bool \<Rightarrow> 'v action_job \<Rightarrow> bool \<Rightarrow> ('v, 's) object_entry \<Rightarrow> ('v, 's) object_service
     \<Rightarrow> ('v, 's) object_service \<times> (runtime_error, 'v action_job option) result"
where
  "admit_queue obj freeze read job domain_available e sv =
     (let ad = oe_admission e;
          available = (domain_available \<and> ad_queue ad = [] \<and> (\<not> freeze \<or> oe_placement_tickets e = 0) \<and> may_enter read ad);
          job' = job\<lparr>aj_object := Some \<lparr>oj_object = obj, oj_read = read, oj_placement = False\<rparr>\<rparr> in
      if available
      then (put_entry obj (e\<lparr>oe_admission := enter read ad, oe_in_flight := oe_in_flight e + 1\<rparr>) sv, Ok (Some job'))
      else if ol_max_mailbox_per_object (os_limits sv) \<le> length (ad_queue ad)
      then (put_entry obj e sv, Err (ReResourceExhausted RkObjectMailbox (ol_max_mailbox_per_object (os_limits sv))))
      else (put_entry obj (e\<lparr>oe_admission := ad\<lparr>ad_queue := ad_queue ad @ [job']\<rparr>\<rparr>) sv, Ok None))"

definition admit ::
  "action_id \<Rightarrow> 'v action_job \<Rightarrow> bool \<Rightarrow> instant \<Rightarrow> ('v, 's) object_service
     \<Rightarrow> ('v, 's) object_service \<times> (runtime_error, 'v action_job option) result"
where
  "admit action job domain_available now sv =
     (let registration = hm_get (or_actions (os_registry sv)) action;
          placement = (hm_get (or_placements (os_registry sv)) action \<noteq> None);
          freeze = (action = MIGRATION_FREEZE_ACTION_ID) in
      if registration = None \<and> \<not> placement \<and> \<not> freeze then (sv, Ok (Some job))
      else (case admit_target freeze job of
          Inl err \<Rightarrow> (sv, Err err)
        | Inr (obj, object_type, epoch, migration) \<Rightarrow>
            (case hm_get (os_entries sv) obj of
               None \<Rightarrow> (sv, Err (ReObjectCollected obj))
             | Some e \<Rightarrow>
                 if oe_object_type e \<noteq> object_type then (sv, Err (ReUnknownObjectType object_type))
                 else if loc_epoch (oe_location e) \<noteq> epoch then (sv, Err (ReMoved obj (oe_location e)))
                 else (case admit_lifecycle (os_limits sv) obj migration now (oe_lifecycle e) of
                     Inl err \<Rightarrow> (sv, Err err)
                   | Inr c \<Rightarrow>
                       (let e' = e\<lparr>oe_lifecycle := c\<rparr>; sv' = put_entry obj e' sv in
                        if placement then admit_placement obj job domain_available e' sv'
                        else admit_queue obj freeze
                               (case registration of None \<Rightarrow> False | Some r \<Rightarrow> oar_access r = OaRead)
                               job domain_available e' sv')))))"

definition service_complete :: "object_job \<Rightarrow> ('v, 's) object_service \<Rightarrow> ('v, 's) object_service \<times> 'v action_job list" where
  "service_complete job sv =
     (case hm_get (os_entries sv) (oj_object job) of
        None \<Rightarrow> (sv, [])
      | Some e \<Rightarrow>
          (let ad = oe_admission e;
               (e1, sv1) =
                 (if oj_placement job
                  then (e\<lparr>oe_placement_tickets := oe_placement_tickets e - 1\<rparr>,
                        sv\<lparr>os_placement_count := fetch_dec (os_placement_count sv)\<rparr>)
                  else if oj_read job
                  then (e\<lparr>oe_admission := ad\<lparr>ad_readers := ad_readers ad - 1\<rparr>\<rparr>, sv)
                  else (e\<lparr>oe_admission := ad\<lparr>ad_writer := False\<rparr>\<rparr>, sv))
           in (put_entry (oj_object job) (e1\<lparr>oe_in_flight := oe_in_flight e1 - 1\<rparr>) sv1, [])))"

definition service_rollback :: "object_job \<Rightarrow> ('v, 's) object_service \<Rightarrow> ('v, 's) object_service \<times> 'v action_job list" where
  "service_rollback job sv = service_complete job sv"

text \<open>The jobs one entry gives up: readers while they last, then at most one writer.\<close>

fun retry_entry ::
  "nat \<Rightarrow> (domain_id \<Rightarrow> bool) \<Rightarrow> 'v action_job list \<Rightarrow> ('v, 's) object_entry
     \<Rightarrow> ('v, 's) object_entry \<times> (unit fault, 'v action_job list) result"
where
  "retry_entry 0 domain_available [] e = (e, Ok [])"
| "retry_entry (Suc room) domain_available [] e = (e, Ok [])"
| "retry_entry 0 domain_available (front # rest) e = (e, Ok [])"
| "retry_entry (Suc room) domain_available (front # rest) e =
     (if \<not> domain_available (aj_domain front)
         \<or> (aj_action_id front = MIGRATION_FREEZE_ACTION_ID \<and> oe_placement_tickets e \<noteq> 0)
      then (e, Ok [])
      else (case aj_object front of
          None \<Rightarrow> (e, Err Panic)
        | Some job \<Rightarrow>
            (let e' = e\<lparr>oe_admission := (enter (oj_read job) (oe_admission e))\<lparr>ad_queue := rest\<rparr>,
                        oe_in_flight := oe_in_flight e + 1\<rparr> in
             if oj_read job
             then (case retry_entry room domain_available rest e' of
                 (e'', Inl err) \<Rightarrow> (e'', Inl err)
               | (e'', Inr js) \<Rightarrow> (e'', Ok (front # js)))
             else (e', Ok [front]))))"

fun retry_entries ::
  "nat \<Rightarrow> (domain_id \<Rightarrow> bool) \<Rightarrow> object_id list \<Rightarrow> ('v, 's) object_service
     \<Rightarrow> ('v, 's) object_service \<times> (unit fault, 'v action_job list) result"
where
  "retry_entries room domain_available [] sv = (sv, Ok [])"
| "retry_entries room domain_available (obj # objs) sv =
     (if room = 0 then (sv, Ok [])
      else (case hm_get (os_entries sv) obj of
          None \<Rightarrow> retry_entries room domain_available objs sv
        | Some e \<Rightarrow>
            if ad_writer (oe_admission e) \<or> ad_readers (oe_admission e) \<noteq> 0
            then retry_entries room domain_available objs sv
            else (case retry_entry room domain_available (ad_queue (oe_admission e)) e of
                (e', Inl err) \<Rightarrow> (put_entry obj e' sv, Inl err)
              | (e', Inr js) \<Rightarrow>
                  (case retry_entries (room - length js) domain_available objs (put_entry obj e' sv) of
                     (sv', Inl err) \<Rightarrow> (sv', Inl err)
                   | (sv', Inr js') \<Rightarrow> (sv', Ok (js @ js'))))))"

definition retry_ready ::
  "usize \<Rightarrow> (domain_id \<Rightarrow> bool) \<Rightarrow> ('v, 's) object_service
     \<Rightarrow> ('v, 's) object_service \<times> (unit fault, 'v action_job list) result"
where
  "retry_ready room domain_available sv = retry_entries room domain_available (map fst (os_entries sv)) sv"

subsection \<open>Calls on the local object\<close>

definition admit_local ::
  "object_id \<Rightarrow> bool \<Rightarrow> ('v, 's) object_entry \<Rightarrow> ('v, 's) object_service
     \<Rightarrow> ('v, 's) object_service \<times> (runtime_error, object_job) result"
where
  "admit_local obj read e sv =
     (let full = ReResourceExhausted RkObjectMailbox (ol_max_mailbox_per_object (os_limits sv)); ad = oe_admission e in
      case admit_lifecycle (os_limits sv) obj None 0 (oe_lifecycle e) of
        Inl err \<Rightarrow> (sv, Err err)
      | Inr _ \<Rightarrow>
          if ad_queue ad = [] \<and> may_enter read ad
          then (put_entry obj (e\<lparr>oe_admission := enter read ad, oe_in_flight := oe_in_flight e + 1\<rparr>) sv,
                Ok \<lparr>oj_object = obj, oj_read = read, oj_placement = False\<rparr>)
          else (sv, Err full))"

text \<open>\<open>LocalAdmissionPin::drop\<close>.\<close>

definition pin_drop :: "object_job \<Rightarrow> ('v, 's) object_service \<Rightarrow> ('v, 's) object_service" where
  "pin_drop job sv = collect (oj_object job) (fst (service_complete job sv))"

definition local_entry ::
  "object_id \<Rightarrow> object_type_id \<Rightarrow> object_location \<Rightarrow> ('v, 's) object_service \<Rightarrow> (runtime_error, ('v, 's) object_entry) result"
where
  "local_entry obj object_type location sv =
     (case hm_get (os_entries sv) obj of
        None \<Rightarrow> Err (ReObjectCollected obj)
      | Some e \<Rightarrow>
          if oe_object_type e \<noteq> object_type then Err (ReUnknownObjectType object_type)
          else if loc_epoch (oe_location e) \<noteq> loc_epoch location then Err (ReStaleObjectLocation obj)
          else Ok e)"

text \<open>The outcome of user code under \<open>catch_unwind\<close>, as the caller of a local object sees it.\<close>

definition local_outcome :: "(action_error fault, 'o) result \<Rightarrow> (runtime_error, 'o) result" where
  "local_outcome r =
     (case r of
        Inr out \<Rightarrow> Ok out
      | Inl (Fail e) \<Rightarrow> Err (ReObjectAction (ae_message e))
      | Inl Panic \<Rightarrow> Err (ReObjectAction (lit ''object action panicked'')))"

definition call_read_local ::
  "('t, 'm, 's) object_type \<Rightarrow> ('a, 'o, 't) read_action \<Rightarrow> object_id \<Rightarrow> object_type_id \<Rightarrow> object_location \<Rightarrow> 'a
     \<Rightarrow> ('v, 's) object_service \<Rightarrow> ('v, 's) object_service \<times> (runtime_error, 'o) result"
where
  "call_read_local T A obj object_type location action sv =
     (let full = ReResourceExhausted RkObjectMailbox (ol_max_mailbox_per_object (os_limits sv)) in
      case local_entry obj object_type location sv of
        Inl err \<Rightarrow> (sv, Err err)
      | Inr e \<Rightarrow>
          (case admit_local obj True e sv of
             (sv1, Inl err) \<Rightarrow> (sv1, Err err)
           | (sv1, Inr job) \<Rightarrow>
               (case oe_state e of
                  None \<Rightarrow> (pin_drop job sv1, Err (ReObjectAction (lit ''object moved'')))
                | Some (EsExclusive p v) \<Rightarrow> (pin_drop job sv1, Err ReInvalidObjectConcurrency)
                | Some (EsReadWrite p v) \<Rightarrow>
                    if p then (pin_drop job sv1, Err full)
                    else (case ot_downcast T v of
                        None \<Rightarrow> (pin_drop job sv1, Err (ReUnknownObjectType object_type))
                      | Some t \<Rightarrow>
                          (pin_drop job (sv1\<lparr>os_local_calls := os_local_calls sv1 + 1\<rparr>),
                           local_outcome (rac_execute A action t))))))"

definition call_write_local ::
  "('t, 'm, 's) object_type \<Rightarrow> ('a, 'o, 't) write_action \<Rightarrow> object_id \<Rightarrow> object_type_id \<Rightarrow> object_location \<Rightarrow> 'a
     \<Rightarrow> ('v, 's) object_service \<Rightarrow> ('v, 's) object_service \<times> (runtime_error, 'o) result"
where
  "call_write_local T A obj object_type location action sv =
     (let full = ReResourceExhausted RkObjectMailbox (ol_max_mailbox_per_object (os_limits sv)) in
      case local_entry obj object_type location sv of
        Inl err \<Rightarrow> (sv, Err err)
      | Inr e \<Rightarrow>
          (case admit_local obj False e sv of
             (sv1, Inl err) \<Rightarrow> (sv1, Err err)
           | (sv1, Inr job) \<Rightarrow>
               (case oe_state e of
                  None \<Rightarrow> (pin_drop job sv1, Err (ReObjectAction (lit ''object moved'')))
                | Some es \<Rightarrow>
                    if es_poisoned es then (pin_drop job sv1, Err full)
                    else (case ot_downcast T (es_inner es) of
                        None \<Rightarrow> (pin_drop job sv1, Err (ReUnknownObjectType object_type))
                      | Some t \<Rightarrow>
                          (let (t', r) = wac_execute A action t;
                               e' = e\<lparr>oe_state := Some (es_set es False (ot_box T t')),
                                      oe_admission := enter False (oe_admission e), oe_in_flight := oe_in_flight e + 1\<rparr>
                           in (pin_drop job (put_entry obj e' (sv1\<lparr>os_local_calls := os_local_calls sv1 + 1\<rparr>)),
                               local_outcome r))))))"

subsection \<open>Handlers of object and lease requests\<close>

text \<open>The closure of \<open>action_handler\<close>.\<close>

definition action_run ::
  "action_id \<Rightarrow> segments \<Rightarrow> ('v, 's) object_service \<Rightarrow> ('v, 's) object_service \<times> (action_error fault, segments) result"
where
  "action_run action ss sv =
     (case hm_get (or_actions (os_registry sv)) action of
        None \<Rightarrow> (sv, Err Panic)
      | Some r \<Rightarrow>
          (case envelope_decode ss of
             Inl e \<Rightarrow> (sv, Err (Fail e))
           | Inr (env, input) \<Rightarrow>
               if en_object_type env \<noteq> oar_object_type r
               then (sv, Err (Fail (ae_user (lit ''object type mismatch''))))
               else (let sv1 = sv\<lparr>os_remote_calls := os_remote_calls sv + 1\<rparr> in
                 case hm_get (os_entries sv1) (en_object env) of
                   None \<Rightarrow> (sv1, Err (Fail (ae_user (lit ''object collected''))))
                 | Some e \<Rightarrow>
                     if oe_object_type e \<noteq> en_object_type env \<or> loc_epoch (oe_location e) \<noteq> en_epoch env
                     then (sv1, Err (Fail (ae_user (lit ''stale object location''))))
                     else (case oar_handler r (oe_state e) input of
                         (st, out) \<Rightarrow> (put_entry (en_object env) (e\<lparr>oe_state := st\<rparr>) sv1, out)))))"

definition acquire_lease_run ::
  "segments \<Rightarrow> instant \<Rightarrow> ('v, 's) object_service \<Rightarrow> ('v, 's) object_service \<times> (action_error fault, segments) result"
where
  "acquire_lease_run ss now sv =
     (case envelope_decode ss of
        Inl e \<Rightarrow> (sv, Err (Fail e))
      | Inr (env, payload) \<Rightarrow>
          (case (if en_rooted env then begin_transfer (en_object env) (en_lease_locality env) now sv
                 else acquire (en_object env) (en_lease_locality env) now sv) of
             (sv', acquired) \<Rightarrow>
               (sv', if payload \<noteq> [] \<or> \<not> acquired then Err (Fail (ae_user (lit ''object lease is unavailable''))) else Ok [])))"

definition transfer_ack_run ::
  "segments \<Rightarrow> ('v, 's) object_service \<Rightarrow> ('v, 's) object_service \<times> (action_error fault, segments) result"
where
  "transfer_ack_run ss sv =
     (case envelope_decode ss of
        Inl e \<Rightarrow> (sv, Err (Fail e))
      | Inr (env, payload) \<Rightarrow>
          if payload \<noteq> [] then (sv, Err (Fail (ae_codec (lit ''transfer acknowledgement payload must be empty''))))
          else (fst (ack_transfer (en_object env) (en_lease_locality env) sv), Ok []))"

definition root_release_run ::
  "segments \<Rightarrow> ('v, 's) object_service \<Rightarrow> ('v, 's) object_service \<times> (action_error fault, segments) result"
where
  "root_release_run ss sv =
     (case envelope_decode ss of
        Inl e \<Rightarrow> (sv, Err (Fail e))
      | Inr (env, payload) \<Rightarrow>
          if payload \<noteq> [] then (sv, Err (Fail (ae_codec (lit ''root control payload must be empty''))))
          else (fst (release_root (en_object env) sv), Ok []))"

definition lease_run ::
  "bool \<Rightarrow> segments \<Rightarrow> instant \<Rightarrow> ('v, 's) object_service \<Rightarrow> ('v, 's) object_service \<times> (action_error fault, segments) result"
where
  "lease_run do_renew ss now sv =
     (case envelope_decode ss of
        Inl e \<Rightarrow> (sv, Err (Fail e))
      | Inr (env, payload) \<Rightarrow>
          if payload \<noteq> [] then (sv, Err (Fail (ae_codec (lit ''lease control payload must be empty''))))
          else if do_renew
          then (case renew (en_object env) (en_lease_locality env) now sv of
              (sv', True) \<Rightarrow> (sv', Ok [])
            | (sv', False) \<Rightarrow> (sv', Err (Fail (ae_user (lit ''object lease is unavailable'')))))
          else (fst (release (en_object env) (en_lease_locality env) sv), Ok []))"

subsection \<open>Statistics\<close>

record object_stats =
  ost_live_objects :: usize
  ost_leases :: usize
  ost_suspect_leases :: usize
  ost_roots :: usize
  ost_queued_calls :: usize
  ost_in_flight_calls :: usize
  ost_placement_tickets :: usize
  ost_resolver_entries :: usize
  ost_resolver_bytes :: usize
  ost_transfers :: usize
  ost_active_migrations :: usize
  ost_prepared_migrations :: usize
  ost_forwarding_entries :: usize
  ost_migration_snapshot_bytes :: usize
  ost_transferred_snapshot_bytes :: u64
  ost_completed_migrations :: u64
  ost_rolled_back_migrations :: u64
  ost_failed_migrations :: u64
  ost_local_calls :: u64
  ost_remote_calls :: u64

text \<open>\<open>pair_bytes\<close> is \<open>size_of::<(ObjectId, ObjectLocation)>()\<close>, which the compiler fixes.\<close>

definition service_stats :: "usize \<Rightarrow> instant \<Rightarrow> ('v, 's) object_service \<Rightarrow> object_stats" where
  "service_stats pair_bytes now sv =
     (let es = hm_values (os_entries sv); n = hm_len (os_resolver sv) in
      \<lparr>ost_live_objects = hm_len (os_entries sv),
       ost_leases = sum_list (map (\<lambda>e. hm_len (oe_leases e)) es),
       ost_suspect_leases = sum_list (map (\<lambda>e. length (filter (\<lambda>r. lr_expires_at r \<le> now \<or> lr_suspect_since r \<noteq> None)
         (hm_values (oe_leases e)))) es),
       ost_roots = sum_list (map oe_roots es),
       ost_queued_calls = sum_list (map (\<lambda>e. length (ad_queue (oe_admission e))) es),
       ost_in_flight_calls = sum_list (map oe_in_flight es),
       ost_placement_tickets = os_placement_count sv, ost_resolver_entries = n,
       ost_resolver_bytes = min (n * pair_bytes) USIZE_MAX, ost_transfers = os_transfer_count sv,
       ost_active_migrations = length (os_active_migrations sv), ost_prepared_migrations = os_prepared_count sv,
       ost_forwarding_entries = length (filter (\<lambda>e. is_forwarding (oe_lifecycle e)) es),
       ost_migration_snapshot_bytes = fold (\<lambda>e n. saturating_add_usize n (oe_snapshot_bytes e)) es 0,
       ost_transferred_snapshot_bytes = os_migrated_bytes sv, ost_completed_migrations = os_completed_migrations sv,
       ost_rolled_back_migrations = os_rolled_back_migrations sv, ost_failed_migrations = os_failed_migrations sv,
       ost_local_calls = os_local_calls sv, ost_remote_calls = os_remote_calls sv\<rparr>)"

end
