(* ===== verification/Migration.thy ===== *)
theory Migration
  imports Objects
begin

text \<open>
  The migration of objects, service side (\<open>crates/hataori-runtime/src/object/migration.rs\<close>):
  freezing at the source, preparing at the destination, committing at the authority, activating,
  rolling back and retiring; and the table that ties the closures installed in the action
  registry to these operations. \<open>freeze\<close> and \<open>restore\<close> are user code found in the type
  registration; the clock is an argument.
\<close>

definition migration_metadata ::
  "object_type_id \<Rightarrow> ('v, 's) object_service \<Rightarrow> (runtime_error, mobility \<times> u32 \<times> u64) result"
where
  "migration_metadata object_type sv =
     (case hm_get (or_types (os_registry sv)) object_type of
        None \<Rightarrow> Err (ReUnknownObjectType object_type)
      | Some r \<Rightarrow> Ok (otr_mobility r, otr_snapshot_version r, otr_snapshot_schema r))"

definition begin_migration ::
  "request_id \<Rightarrow> ('v, 's) object_service \<Rightarrow> ('v, 's) object_service \<times> (runtime_error, unit) result"
where
  "begin_migration migration sv =
     (if ol_max_migrations (os_limits sv) \<le> length (os_active_migrations sv)
      then (sv, Err (ReResourceExhausted RkMigrations (ol_max_migrations (os_limits sv))))
      else if migration \<in> set (os_active_migrations sv) then (sv, Err (ReProtocol (lit ''duplicate migration id'')))
      else (sv\<lparr>os_active_migrations := migration # os_active_migrations sv\<rparr>, Ok ()))"

definition finish_migration ::
  "request_id \<Rightarrow> migration_outcome \<Rightarrow> usize \<Rightarrow> ('v, 's) object_service \<Rightarrow> ('v, 's) object_service"
where
  "finish_migration migration outcome n sv =
     (let sv1 = sv\<lparr>os_active_migrations := filter (\<lambda>m. m \<noteq> migration) (os_active_migrations sv)\<rparr> in
      case outcome of
        MgCompleted \<Rightarrow> sv1\<lparr>os_completed_migrations := os_completed_migrations sv1 + 1,
          os_migrated_bytes := os_migrated_bytes sv1 + word_of_nat n\<rparr>
      | MgRolledBack \<Rightarrow> sv1\<lparr>os_rolled_back_migrations := os_rolled_back_migrations sv1 + 1\<rparr>
      | MgFailed \<Rightarrow> sv1\<lparr>os_failed_migrations := os_failed_migrations sv1 + 1\<rparr>)"

definition mig_user :: "string \<Rightarrow> action_error fault" where
  "mig_user s = Fail (ae_user (lit s))"

definition entry_for_migration ::
  "migration_packet \<Rightarrow> ('v, 's) object_service \<Rightarrow> (action_error fault, ('v, 's) object_entry) result"
where
  "entry_for_migration p sv =
     (case hm_get (os_entries sv) (mp_object p) of
        None \<Rightarrow> Err (mig_user ''migration object not found'')
      | Some e \<Rightarrow>
          if oe_object_type e \<noteq> mp_object_type p then Err (mig_user ''migration object type mismatch'') else Ok e)"

definition validate_snapshot :: "segments \<Rightarrow> object_limits \<Rightarrow> (action_error fault, usize) result" where
  "validate_snapshot snap l =
     (if ol_max_snapshot_segments l < length snap then Err (mig_user ''migration snapshot segment limit exceeded'')
      else (case checked_total snap of
          None \<Rightarrow> Err (mig_user ''migration snapshot size overflow'')
        | Some n \<Rightarrow>
            if ol_max_snapshot_bytes l < n then Err (mig_user ''migration snapshot byte limit exceeded'') else Ok n))"

subsection \<open>Freezing at the source\<close>

text \<open>The user's snapshot of the state, once the object refuses other calls.\<close>

definition freeze_state ::
  "'s freezer \<Rightarrow> migration_packet \<Rightarrow> ('v, 's) object_entry \<Rightarrow> ('v, 's) object_service
     \<Rightarrow> ('v, 's) object_service \<times> (action_error fault, migration_packet) result"
where
  "freeze_state frz p e sv =
     (case oe_state e of
        None \<Rightarrow> (put_entry (mp_object p) e sv, Err (mig_user ''object moved''))
      | Some es \<Rightarrow>
          (case frz es of
             (es', r) \<Rightarrow>
               (let e1 = e\<lparr>oe_state := Some es'\<rparr>;
                    resident = put_entry (mp_object p) (e1\<lparr>oe_lifecycle := LcResident\<rparr>) sv in
                case r of
                  Inl Panic \<Rightarrow> (resident, Err (Fail AePanic))
                | Inl (Fail err) \<Rightarrow> (resident, Err (Fail err))
                | Inr snap \<Rightarrow>
                    (case validate_snapshot snap (os_limits sv) of
                       Inl err \<Rightarrow> (resident, Err err)
                     | Inr n \<Rightarrow> (put_entry (mp_object p) (e1\<lparr>oe_snapshot_bytes := n\<rparr>) sv,
                                 Ok (p\<lparr>mp_snapshot := snap\<rparr>))))))"

definition freeze_migration ::
  "migration_packet \<Rightarrow> instant \<Rightarrow> ('v, 's) object_service
     \<Rightarrow> ('v, 's) object_service \<times> (action_error fault, migration_packet) result"
where
  "freeze_migration p now sv =
     (case entry_for_migration p sv of
        Inl err \<Rightarrow> (sv, Err err)
      | Inr e \<Rightarrow>
          if oe_location e \<noteq> mp_from p \<or> oe_authority e \<noteq> mp_authority p
          then (sv, Err (mig_user ''migration source changed''))
          else (case hm_get (or_types (os_registry sv)) (mp_object_type p) of
              None \<Rightarrow> (sv, Err (mig_user ''unknown migration object type''))
            | Some r \<Rightarrow>
                (case otr_freezer r of
                   None \<Rightarrow> (sv, Err (mig_user ''object is pinned''))
                 | Some frz \<Rightarrow>
                     if mp_snapshot_version p \<noteq> otr_snapshot_version r \<or> mp_snapshot_schema p \<noteq> otr_snapshot_schema r
                     then (sv, Err (mig_user ''migration snapshot schema mismatch''))
                     else (case oe_lifecycle e of
                         LcResident \<Rightarrow>
                           freeze_state frz p
                             (e\<lparr>oe_lifecycle := LcFreezing (mp_migration p) (now + ol_forwarding_ttl (os_limits sv))\<rparr>) sv
                       | LcFreezing m _ \<Rightarrow>
                           if m = mp_migration p then freeze_state frz p e sv
                           else (sv, Err (mig_user ''migration already in progress''))
                       | _ \<Rightarrow> (sv, Err (mig_user ''migration already in progress''))))))"

subsection \<open>Preparing at the destination\<close>

text \<open>The entry of the destination, found or made, receives the restored state.\<close>

definition prepare_entry :: "migration_packet \<Rightarrow> instant \<Rightarrow> ('v, 's) object_service \<Rightarrow> ('v, 's) object_entry" where
  "prepare_entry p now sv =
     (case hm_get (os_entries sv) (mp_object p) of
        Some e \<Rightarrow> e
      | None \<Rightarrow> \<lparr>oe_object_type = mp_object_type p, oe_authority = mp_authority p, oe_location = mp_from p,
          oe_state = None, oe_lifecycle = LcPrepared (mp_migration p) (now + ol_forwarding_ttl (os_limits sv)),
          oe_prepared = None, oe_snapshot_bytes = 0, oe_leases = [], oe_roots = 0, oe_in_flight = 0,
          oe_placement_tickets = 0, oe_admission = admission_new\<rparr>)"

definition prepare_install ::
  "migration_packet \<Rightarrow> object_location \<Rightarrow> usize \<Rightarrow> 's erased_state \<Rightarrow> instant \<Rightarrow> ('v, 's) object_service
     \<Rightarrow> ('v, 's) object_service \<times> (action_error fault, migration_packet) result"
where
  "prepare_install p location n restored now sv =
     (let release = (\<lambda>sv. sv\<lparr>os_prepared_count := fetch_dec (os_prepared_count sv)\<rparr>);
          reply = p\<lparr>mp_snapshot := [], mp_from := location\<rparr> in
      if ol_max_objects (os_limits sv) \<le> hm_len (os_entries sv) \<and> hm_get (os_entries sv) (mp_object p) = None
      then (release sv, Err (mig_user ''object store is full''))
      else
        (let e = prepare_entry p now sv; sv1 = put_entry (mp_object p) e sv in
         if oe_object_type e \<noteq> mp_object_type p \<or> oe_authority e \<noteq> mp_authority p
         then (release sv1, Err (mig_user ''migration destination conflict''))
         else (case oe_prepared e of
             Some existing \<Rightarrow>
               if pp_migration existing \<noteq> mp_migration p \<or> pp_location existing \<noteq> location
               then (release sv1, Err (mig_user ''conflicting prepared migration''))
               else (release sv1, Ok reply)
           | None \<Rightarrow>
               (put_entry (mp_object p) (e\<lparr>oe_prepared := Some \<lparr>pp_migration = mp_migration p, pp_location = location,
                   pp_state = restored, pp_snapshot_bytes = n,
                   pp_expires_at = now + ol_forwarding_ttl (os_limits sv)\<rparr>\<rparr>) sv1, Ok reply))))"

definition prepare_migration ::
  "migration_packet \<Rightarrow> instant \<Rightarrow> ('v, 's) object_service
     \<Rightarrow> ('v, 's) object_service \<times> (action_error fault, migration_packet) result"
where
  "prepare_migration p now sv =
     (let release = (\<lambda>sv. sv\<lparr>os_prepared_count := fetch_dec (os_prepared_count sv)\<rparr>); l = os_limits sv in
      if pl_locality (mp_destination p) \<noteq> os_local_id sv then (sv, Err (mig_user ''migration prepared at wrong locality''))
      else (case validate_snapshot (mp_snapshot p) l of
          Inl err \<Rightarrow> (sv, Err err)
        | Inr n \<Rightarrow>
            (case hm_get (or_types (os_registry sv)) (mp_object_type p) of
               None \<Rightarrow> (sv, Err (mig_user ''unknown migration object type''))
             | Some r \<Rightarrow>
                 if otr_mobility r = MoPinned \<or> mp_snapshot_version p \<noteq> otr_snapshot_version r
                    \<or> mp_snapshot_schema p \<noteq> otr_snapshot_schema r
                 then (sv, Err (mig_user ''migration snapshot schema mismatch''))
                 else if \<not> os_prepared_count sv < ol_max_prepared_migrations l
                 then (sv, Err (mig_user ''prepared migration limit reached''))
                 else
                   (let sv1 = sv\<lparr>os_prepared_count := os_prepared_count sv + 1\<rparr> in
                    if ol_max_objects l \<le> hm_len (os_entries sv1) \<and> hm_get (os_entries sv1) (mp_object p) = None
                    then (release sv1, Err (mig_user ''object store is full''))
                    else (case checked_add_u64 (loc_epoch (mp_from p)) 1 of
                        None \<Rightarrow> (release sv1, Err (mig_user ''object epoch overflow''))
                      | Some epoch \<Rightarrow>
                          (case object_location_new (os_local_id sv1) (pl_domain (mp_destination p)) (os_next_slot sv1) 1 epoch of
                             Inl _ \<Rightarrow> (release sv1, Err (mig_user ''invalid migration destination''))
                           | Inr location \<Rightarrow>
                               (case checked_add_u64 (os_next_slot sv1) 1 of
                                  None \<Rightarrow> (release sv1, Err (mig_user ''object slot overflow''))
                                | Some slot' \<Rightarrow>
                                    (let sv2 = sv1\<lparr>os_next_slot := slot'\<rparr> in
                                     case otr_restorer r of
                                       None \<Rightarrow> (release sv2, Err (mig_user ''object is pinned''))
                                     | Some restore \<Rightarrow>
                                         (case restore (mp_snapshot p) (mp_destination p) of
                                            Inl err \<Rightarrow> (release sv2, Err err)
                                          | Inr restored \<Rightarrow> prepare_install p location n restored now sv2))))))))) "

subsection \<open>Commit, activation, rollback and retirement\<close>

definition forwarders :: "('v, 's) object_service \<Rightarrow> usize" where
  "forwarders sv = length (filter (\<lambda>e. is_forwarding (oe_lifecycle e)) (hm_values (os_entries sv)))"

definition commit_migration ::
  "migration_packet \<Rightarrow> instant \<Rightarrow> ('v, 's) object_service
     \<Rightarrow> ('v, 's) object_service \<times> (action_error fault, migration_packet) result"
where
  "commit_migration p now sv =
     (if mp_authority p \<noteq> os_local_id sv then (sv, Err (mig_user ''migration committed at wrong authority''))
      else (case entry_for_migration p sv of
          Inl err \<Rightarrow> (sv, Err err)
        | Inr e \<Rightarrow>
            if \<not> is_forwarding (oe_lifecycle e) \<and> ol_max_forwarders (os_limits sv) \<le> forwarders sv
            then (sv, Err (mig_user ''forwarding entry limit reached''))
            else if checked_add_u64 (loc_epoch (oe_location e)) 1 \<noteq> Some (loc_epoch (mp_from p))
            then (sv, Err (mig_user ''migration epoch conflict''))
            else (cache_location (mp_object p) (mp_from p)
                    (put_entry (mp_object p) (e\<lparr>oe_location := mp_from p,
                       oe_lifecycle := LcForwarding (mp_from p) (now + ol_forwarding_ttl (os_limits sv))\<rparr>) sv), Ok p)))"

definition activate_migration ::
  "migration_packet \<Rightarrow> ('v, 's) object_service
     \<Rightarrow> ('v, 's) object_service \<times> (action_error fault, migration_packet) result"
where
  "activate_migration p sv =
     (case entry_for_migration p sv of
        Inl err \<Rightarrow> (sv, Err err)
      | Inr e \<Rightarrow>
          (case oe_prepared e of
             None \<Rightarrow> (sv, Err (mig_user ''migration destination was not prepared''))
           | Some q \<Rightarrow>
               (let sv1 = sv\<lparr>os_prepared_count := fetch_dec (os_prepared_count sv)\<rparr>; e1 = e\<lparr>oe_prepared := None\<rparr> in
                if pp_migration q \<noteq> mp_migration p \<or> pp_location q \<noteq> mp_from p
                then (put_entry (mp_object p) e1 sv1, Err (mig_user ''prepared migration mismatch''))
                else (cache_location (mp_object p) (pp_location q)
                        (put_entry (mp_object p) (e1\<lparr>oe_location := pp_location q, oe_state := Some (pp_state q),
                           oe_snapshot_bytes := pp_snapshot_bytes q, oe_lifecycle := LcResident\<rparr>) sv1), Ok p))))"

definition rollback_migration ::
  "migration_packet \<Rightarrow> ('v, 's) object_service
     \<Rightarrow> ('v, 's) object_service \<times> (action_error fault, migration_packet) result"
where
  "rollback_migration p sv =
     (case hm_get (os_entries sv) (mp_object p) of
        None \<Rightarrow> (sv, Ok p)
      | Some e \<Rightarrow>
          (let mine = (case oe_prepared e of None \<Rightarrow> False | Some q \<Rightarrow> pp_migration q = mp_migration p);
               sv1 = (if mine then sv\<lparr>os_prepared_count := fetch_dec (os_prepared_count sv)\<rparr> else sv);
               e1 = (if mine then e\<lparr>oe_prepared := None\<rparr> else e);
               e2 = (case oe_lifecycle e1 of
                       LcFreezing m x \<Rightarrow>
                         if m = mp_migration p then e1\<lparr>oe_lifecycle := LcResident, oe_snapshot_bytes := 0\<rparr> else e1
                     | _ \<Rightarrow> e1)
           in (put_entry (mp_object p) e2 sv1, Ok p)))"

definition retire_migration ::
  "migration_packet \<Rightarrow> instant \<Rightarrow> ('v, 's) object_service
     \<Rightarrow> ('v, 's) object_service \<times> (action_error fault, migration_packet) result"
where
  "retire_migration p now sv =
     (case entry_for_migration p sv of
        Inl err \<Rightarrow> (sv, Err err)
      | Inr e \<Rightarrow>
          if loc_epoch (mp_from p) < loc_epoch (oe_location e) then (sv, Ok p)
          else (collect (mp_object p) (cache_location (mp_object p) (mp_from p)
                 (put_entry (mp_object p) (e\<lparr>oe_state := None, oe_snapshot_bytes := 0, oe_location := mp_from p,
                    oe_lifecycle := LcForwarding (mp_from p) (now + ol_forwarding_ttl (os_limits sv))\<rparr>) sv)), Ok p))"

subsection \<open>What the installed closures do\<close>

definition migration_run ::
  "(migration_packet \<Rightarrow> ('v, 's) object_service \<Rightarrow> ('v, 's) object_service \<times> (action_error fault, migration_packet) result)
     \<Rightarrow> segments \<Rightarrow> ('v, 's) object_service \<Rightarrow> ('v, 's) object_service \<times> (action_error fault, segments) result"
where
  "migration_run f ss sv =
     (case packet_decode ss of
        Inl e \<Rightarrow> (sv, Err (Fail e))
      | Inr p \<Rightarrow>
          (case f p sv of
             (sv', Inl e) \<Rightarrow> (sv', Err e)
           | (sv', Inr p') \<Rightarrow> (sv', res_map_err Fail (packet_encode p'))))"

fun service_run ::
  "service_handler \<Rightarrow> segments \<Rightarrow> instant \<Rightarrow> ('v, 's) object_service
     \<Rightarrow> ('v, 's) object_service \<times> (action_error fault, segments) result"
where
  "service_run (ShLease do_renew) ss now sv = lease_run do_renew ss now sv"
| "service_run ShAcquire ss now sv = acquire_lease_run ss now sv"
| "service_run ShRootRelease ss now sv = root_release_run ss sv"
| "service_run ShTransferAck ss now sv = transfer_ack_run ss sv"
| "service_run ShFreeze ss now sv = migration_run (\<lambda>p. freeze_migration p now) ss sv"
| "service_run ShPrepare ss now sv = migration_run (\<lambda>p. prepare_migration p now) ss sv"
| "service_run ShCommit ss now sv = migration_run (\<lambda>p. commit_migration p now) ss sv"
| "service_run ShActivate ss now sv = migration_run activate_migration ss sv"
| "service_run ShRollback ss now sv = migration_run rollback_migration ss sv"
| "service_run ShRetire ss now sv = migration_run (\<lambda>p. retire_migration p now) ss sv"
| "service_run (ShCreate t) ss now sv = create_run t ss now sv"
| "service_run (ShObject a) ss now sv = action_run a ss sv"
| "service_run (ShPlacement a) ss now sv =
     (case hm_get (or_placements (os_registry sv)) a of
        None \<Rightarrow> (sv, Err Panic)
      | Some r \<Rightarrow> (sv, ra_handler (placement_closure (par_handler r)) ss))"

subsection \<open>Retiring the copies of unreferenced objects\<close>

text \<open>
  The retirement pass of \<open>progress\<close>: the taken retirements are sent in turn; the first that cannot
  be sent goes back to the queue and ends the pass. \<open>sent\<close> says which messages the transport takes.
\<close>

fun retire_loop ::
  "(retirement \<Rightarrow> bool) \<Rightarrow> retirement list \<Rightarrow> ('v, 's) object_service \<Rightarrow> ('v, 's) object_service"
where
  "retire_loop sent [] sv = sv"
| "retire_loop sent (r # rs) sv =
     (if sent r then retire_loop sent rs (finish_retirement (rt_object r) sv) else requeue_retirement r sv)"

definition retire_pass :: "(retirement \<Rightarrow> bool) \<Rightarrow> usize \<Rightarrow> ('v, 's) object_service \<Rightarrow> ('v, 's) object_service" where
  "retire_pass sent limit sv = (case take_retirements limit sv of (sv', rs) \<Rightarrow> retire_loop sent rs sv')"

end
