(* ===== verification/ObjectSafety.thy ===== *)
theory ObjectSafety
  imports Migration
begin

text \<open>
  Safety of the object service: the invariant of its entries and counters, that every operation
  keeps it, and what it means for the jobs that run on an object, for leases and for collection.

  The jobs that have been let in and have not completed are tracked beside the service as a
  multiset of \<open>object_job\<close>.
\<close>

type_synonym running = "object_job multiset"

definition running_reads :: "running \<Rightarrow> object_id \<Rightarrow> nat" where
  "running_reads R obj = size (filter_mset (\<lambda>j. oj_object j = obj \<and> \<not> oj_placement j \<and> oj_read j) R)"

definition running_writes :: "running \<Rightarrow> object_id \<Rightarrow> nat" where
  "running_writes R obj = size (filter_mset (\<lambda>j. oj_object j = obj \<and> \<not> oj_placement j \<and> \<not> oj_read j) R)"

definition running_placements :: "running \<Rightarrow> object_id \<Rightarrow> nat" where
  "running_placements R obj = size (filter_mset (\<lambda>j. oj_object j = obj \<and> oj_placement j) R)"

definition queued_ok :: "object_id \<Rightarrow> 'v action_job \<Rightarrow> bool" where
  "queued_ok obj job \<longleftrightarrow> (\<exists>j. aj_object job = Some j \<and> oj_object j = obj \<and> \<not> oj_placement j)"

definition admission_ok :: "usize \<Rightarrow> running \<Rightarrow> object_id \<Rightarrow> ('v, 's) object_entry \<Rightarrow> bool" where
  "admission_ok mailbox R obj e \<longleftrightarrow>
     ad_readers (oe_admission e) = running_reads R obj
     \<and> running_writes R obj = (if ad_writer (oe_admission e) then 1 else 0)
     \<and> oe_placement_tickets e = running_placements R obj
     \<and> oe_in_flight e = running_reads R obj + running_writes R obj + running_placements R obj
     \<and> length (ad_queue (oe_admission e)) \<le> mailbox
     \<and> (\<forall>job\<in>set (ad_queue (oe_admission e)). queued_ok obj job)"

definition residence_ok :: "('v, 's) object_entry \<Rightarrow> bool" where
  "residence_ok e \<longleftrightarrow>
     (case oe_lifecycle e of
        LcResident \<Rightarrow> oe_state e \<noteq> None
      | LcFreezing m x \<Rightarrow> oe_state e \<noteq> None
      | LcRetiring l \<Rightarrow> oe_in_flight e = 0 \<and> ad_queue (oe_admission e) = [] \<and> oe_roots e = 0
      | _ \<Rightarrow> True)"

definition entry_ok :: "locality_id \<Rightarrow> object_limits \<Rightarrow> ('v, 's) object_registry \<Rightarrow> running \<Rightarrow> object_id \<Rightarrow> ('v, 's) object_entry \<Rightarrow> bool" where
  "entry_ok me l reg R obj e \<longleftrightarrow> admission_ok (ol_max_mailbox_per_object l) R obj e \<and> residence_ok e
     \<and> hm_wf (oe_leases e) \<and> hm_len (oe_leases e) \<le> ol_max_local_leases l
     \<and> hm_get (or_types reg) (oe_object_type e) \<noteq> None \<and> (oe_authority e \<noteq> me \<longrightarrow> oe_roots e = 0)"

definition prepared_units :: "('v, 's) object_entry \<Rightarrow> usize" where
  "prepared_units e = (if oe_prepared e = None then 0 else 1)"

definition counters_ok :: "('v, 's) object_service \<Rightarrow> bool" where
  "counters_ok sv \<longleftrightarrow>
     os_root_count sv = hm_sum oe_roots (os_entries sv) \<and> os_root_count sv \<le> ol_max_roots (os_limits sv)
     \<and> os_prepared_count sv = hm_sum prepared_units (os_entries sv)
     \<and> os_prepared_count sv \<le> ol_max_prepared_migrations (os_limits sv)
     \<and> os_placement_count sv = hm_sum oe_placement_tickets (os_entries sv)
     \<and> os_placement_count sv \<le> ol_max_placement_tickets (os_limits sv)"

definition transfers_ok :: "('v, 's) object_service \<Rightarrow> bool" where
  "transfers_ok sv \<longleftrightarrow> distinct (os_pending_transfers sv)
     \<and> os_transfer_count sv = length (os_pending_transfers sv) \<and> os_transfer_count sv \<le> ol_max_transfers (os_limits sv)"

definition handlers_ok :: "('v, 's) object_registry \<Rightarrow> bool" where
  "handlers_ok reg \<longleftrightarrow> (\<forall>a r st ss. hm_get (or_actions reg) a = Some r \<and> st \<noteq> None \<longrightarrow> fst (oar_handler r st ss) \<noteq> None)"

definition service_inv :: "running \<Rightarrow> ('v, 's) object_service \<Rightarrow> bool" where
  "service_inv R sv \<longleftrightarrow>
     hm_wf (os_entries sv) \<and> hm_len (os_entries sv) \<le> ol_max_objects (os_limits sv)
     \<and> (\<forall>obj e. hm_get (os_entries sv) obj = Some e \<longrightarrow> entry_ok (os_local_id sv) (os_limits sv) (os_registry sv) R obj e)
     \<and> (\<forall>j\<in>#R. hm_get (os_entries sv) (oj_object j) \<noteq> None)
     \<and> counters_ok sv \<and> transfers_ok sv
     \<and> length (os_retirements sv) \<le> ol_max_migrations (os_limits sv)
     \<and> distinct (os_active_migrations sv) \<and> length (os_active_migrations sv) \<le> ol_max_migrations (os_limits sv)
     \<and> handlers_ok (os_registry sv) \<and> 0 < ol_max_local_leases (os_limits sv) \<and> \<not> os_panicked sv"

named_theorems service_frame \<open>fields an operation leaves alone\<close>

lemma cache_location_frame [service_frame, simp]:
  "os_entries (cache_location obj l sv) = os_entries sv" "os_limits (cache_location obj l sv) = os_limits sv"
  "os_registry (cache_location obj l sv) = os_registry sv" "os_local_id (cache_location obj l sv) = os_local_id sv"
  "os_root_count (cache_location obj l sv) = os_root_count sv"
  "os_prepared_count (cache_location obj l sv) = os_prepared_count sv"
  "os_placement_count (cache_location obj l sv) = os_placement_count sv"
  "os_pending_transfers (cache_location obj l sv) = os_pending_transfers sv"
  "os_transfer_count (cache_location obj l sv) = os_transfer_count sv"
  "os_retirements (cache_location obj l sv) = os_retirements sv"
  "os_active_migrations (cache_location obj l sv) = os_active_migrations sv"
  "os_panicked (cache_location obj l sv) = os_panicked sv"
  by (simp_all add: cache_location_def Let_def case_prod_unfold)

lemma put_entry_frame [service_frame, simp]:
  "os_limits (put_entry obj e sv) = os_limits sv" "os_registry (put_entry obj e sv) = os_registry sv"
  "os_local_id (put_entry obj e sv) = os_local_id sv" "os_root_count (put_entry obj e sv) = os_root_count sv"
  "os_prepared_count (put_entry obj e sv) = os_prepared_count sv"
  "os_placement_count (put_entry obj e sv) = os_placement_count sv"
  "os_pending_transfers (put_entry obj e sv) = os_pending_transfers sv"
  "os_transfer_count (put_entry obj e sv) = os_transfer_count sv"
  "os_retirements (put_entry obj e sv) = os_retirements sv"
  "os_active_migrations (put_entry obj e sv) = os_active_migrations sv"
  "os_panicked (put_entry obj e sv) = os_panicked sv" "os_next_slot (put_entry obj e sv) = os_next_slot sv"
  "os_entries (put_entry obj e sv) = hm_insert obj e (os_entries sv)"
  by (simp_all add: put_entry_def)

lemma service_inv_cache [simp]: "service_inv R (cache_location obj l sv) = service_inv R sv"
  by (simp add: service_inv_def counters_ok_def transfers_ok_def)

lemma service_inv_resolver [simp]: "service_inv R (clear_resolver sv) = service_inv R sv"
  by (simp add: service_inv_def counters_ok_def transfers_ok_def clear_resolver_def)

lemma service_inv_get:
  "service_inv R sv \<Longrightarrow> hm_get (os_entries sv) obj = Some e \<Longrightarrow> entry_ok (os_local_id sv) (os_limits sv) (os_registry sv) R obj e"
  by (simp add: service_inv_def)

text \<open>
  Rewriting one entry. \<open>same_work\<close> says that an object other than \<open>obj\<close> has the same running
  jobs in both multisets.
\<close>

definition same_work :: "object_id \<Rightarrow> running \<Rightarrow> running \<Rightarrow> bool" where
  "same_work obj R R' \<longleftrightarrow> filter_mset (\<lambda>j. oj_object j \<noteq> obj) R' = filter_mset (\<lambda>j. oj_object j \<noteq> obj) R"

lemma same_work_refl [simp]: "same_work obj R R"
  by (simp add: same_work_def)

lemma same_work_other:
  assumes "same_work obj R R'" "obj' \<noteq> obj"
  shows "running_reads R' obj' = running_reads R obj'" "running_writes R' obj' = running_writes R obj'"
    "running_placements R' obj' = running_placements R obj'"
proof -
  have restrict: "filter_mset (\<lambda>j. oj_object j = obj' \<and> P j) S
      = filter_mset (\<lambda>j. oj_object j = obj' \<and> P j) (filter_mset (\<lambda>j. oj_object j \<noteq> obj) S)" for P and S :: running
    unfolding filter_filter_mset using assms(2) by (intro filter_mset_cong) auto
  have "filter_mset (\<lambda>j. oj_object j = obj' \<and> P j) R' = filter_mset (\<lambda>j. oj_object j = obj' \<and> P j) R" for P
    by (subst (1 2) restrict) (simp only: assms(1) [unfolded same_work_def])
  from this [of "\<lambda>j. \<not> oj_placement j \<and> oj_read j"] this [of "\<lambda>j. \<not> oj_placement j \<and> \<not> oj_read j"] this [of oj_placement]
  show "running_reads R' obj' = running_reads R obj'" "running_writes R' obj' = running_writes R obj'"
    "running_placements R' obj' = running_placements R obj'"
    unfolding running_reads_def running_writes_def running_placements_def by simp_all
qed

lemma same_work_member:
  assumes "same_work obj R R'" "j \<in># R'"
  shows "j \<in># R \<or> oj_object j = obj"
proof (rule disjCI)
  assume "oj_object j \<noteq> obj"
  then have "j \<in># filter_mset (\<lambda>j. oj_object j \<noteq> obj) R'" using assms(2) by simp
  then show "j \<in># R" unfolding assms(1) [unfolded same_work_def] by simp
qed

lemma service_inv_put:
  assumes "service_inv R sv" "hm_get (os_entries sv) obj = Some e"
    and "entry_ok (os_local_id sv) (os_limits sv) (os_registry sv) R' obj e'" "same_work obj R R'"
    and "rc + oe_roots e = os_root_count sv + oe_roots e'" "rc \<le> ol_max_roots (os_limits sv)"
    and "pc + prepared_units e = os_prepared_count sv + prepared_units e'" "pc \<le> ol_max_prepared_migrations (os_limits sv)"
    and "tc + oe_placement_tickets e = os_placement_count sv + oe_placement_tickets e'"
      "tc \<le> ol_max_placement_tickets (os_limits sv)"
  shows "service_inv R' (put_entry obj e' (sv\<lparr>os_root_count := rc, os_prepared_count := pc, os_placement_count := tc\<rparr>))"
proof -
  note inv = assms(1) [unfolded service_inv_def]
  let ?sv = "put_entry obj e' (sv\<lparr>os_root_count := rc, os_prepared_count := pc, os_placement_count := tc\<rparr>)"
  have entries: "entry_ok (os_local_id sv) (os_limits sv) (os_registry sv) R' obj' e''"
    if "hm_get (os_entries ?sv) obj' = Some e''" for obj' e''
  proof (cases "obj' = obj")
    case True
    with that inv assms(3) show ?thesis by simp
  next
    case False
    with that inv have "entry_ok (os_local_id sv) (os_limits sv) (os_registry sv) R obj' e''" by simp
    then show ?thesis unfolding entry_ok_def admission_ok_def same_work_other [OF assms(4) False] .
  qed
  have "counters_ok ?sv"
    using inv assms(5-10) hm_sum_replace [OF assms(2), of oe_roots e'] hm_sum_replace [OF assms(2), of prepared_units e']
      hm_sum_replace [OF assms(2), of oe_placement_tickets e']
    by (simp add: counters_ok_def)
  moreover have "hm_get (os_entries ?sv) (oj_object j) \<noteq> None" if "j \<in># R'" for j
    using same_work_member [OF assms(4) that] inv by auto
  moreover have "hm_len (os_entries ?sv) \<le> ol_max_objects (os_limits sv)"
    using inv assms(2) by (simp add: hm.replace_within)
  ultimately show ?thesis
    using inv entries by (auto simp: service_inv_def transfers_ok_def)
qed

lemma service_inv_put_same:
  assumes "service_inv R sv" "hm_get (os_entries sv) obj = Some e"
    and "entry_ok (os_local_id sv) (os_limits sv) (os_registry sv) R' obj e'" "same_work obj R R'"
    and "oe_roots e' = oe_roots e" "prepared_units e' = prepared_units e" "oe_placement_tickets e' = oe_placement_tickets e"
  shows "service_inv R' (put_entry obj e' sv)"
proof -
  have "service_inv R' (put_entry obj e' (sv\<lparr>os_root_count := os_root_count sv, os_prepared_count := os_prepared_count sv,
      os_placement_count := os_placement_count sv\<rparr>))"
    using assms by (intro service_inv_put [OF assms(1,2,3,4)]) (simp_all add: service_inv_def counters_ok_def)
  then show ?thesis by simp
qed

lemma hm_sum_ge: "hm_wf m \<Longrightarrow> hm_get m k = Some u \<Longrightarrow> g u \<le> (hm_sum g m :: nat)"
  using hm_sum_remove [of m k u g] by simp

lemma service_inv_forget:
  assumes "service_inv R sv" "hm_get (os_entries sv) obj = Some e"
    and "oe_roots e = 0" "oe_prepared e = None" "oe_in_flight e = 0"
  shows "service_inv R (forget_entry obj sv)"
proof -
  note inv = assms(1) [unfolded service_inv_def]
  have e: "oe_placement_tickets e = 0" "running_reads R obj = 0" "running_writes R obj = 0" "running_placements R obj = 0"
    using service_inv_get [OF assms(1,2)] assms(5) by (simp_all add: entry_ok_def admission_ok_def)
  have none: "oj_object j \<noteq> obj" if "j \<in># R" for j
  proof
    assume "oj_object j = obj"
    then have "j \<in># filter_mset (\<lambda>j. oj_object j = obj \<and> \<not> oj_placement j \<and> oj_read j) R
        + filter_mset (\<lambda>j. oj_object j = obj \<and> \<not> oj_placement j \<and> \<not> oj_read j) R
        + filter_mset (\<lambda>j. oj_object j = obj \<and> oj_placement j) R"
      using that by auto
    then show False using e by (auto simp: running_reads_def running_writes_def running_placements_def)
  qed
  have sums: "hm_sum oe_roots (hm_remove obj (os_entries sv)) = hm_sum oe_roots (os_entries sv)"
      "hm_sum prepared_units (hm_remove obj (os_entries sv)) = hm_sum prepared_units (os_entries sv)"
      "hm_sum oe_placement_tickets (hm_remove obj (os_entries sv)) = hm_sum oe_placement_tickets (os_entries sv)"
    using hm_sum_remove [of "os_entries sv" obj e oe_roots] hm_sum_remove [of "os_entries sv" obj e prepared_units]
      hm_sum_remove [of "os_entries sv" obj e oe_placement_tickets] inv assms(2-4) e(1) by (auto simp: prepared_units_def)
  have "hm_len (hm_remove obj (os_entries sv)) \<le> ol_max_objects (os_limits sv)"
    using inv by (simp add: hm.remove_within)
  moreover have "counters_ok (forget_entry obj sv)"
    using inv sums by (simp add: counters_ok_def forget_entry_def)
  ultimately show ?thesis
    using inv none by (auto simp: service_inv_def transfers_ok_def forget_entry_def)
qed

lemma service_inv_insert:
  assumes "service_inv R sv" "hm_get (os_entries sv) obj = None" "hm_len (os_entries sv) < ol_max_objects (os_limits sv)"
    and "entry_ok (os_local_id sv) (os_limits sv) (os_registry sv) {#} obj e"
    and "rc = os_root_count sv + oe_roots e" "rc \<le> ol_max_roots (os_limits sv)"
    and "pc = os_prepared_count sv + prepared_units e" "pc \<le> ol_max_prepared_migrations (os_limits sv)"
  shows "service_inv R (put_entry obj e (sv\<lparr>os_root_count := rc, os_prepared_count := pc\<rparr>))"
proof -
  note inv = assms(1) [unfolded service_inv_def]
  let ?sv = "put_entry obj e (sv\<lparr>os_root_count := rc, os_prepared_count := pc\<rparr>)"
  have none: "oj_object j \<noteq> obj" if "j \<in># R" for j using inv assms(2) that by auto
  then have "running_reads R obj = 0" "running_writes R obj = 0" "running_placements R obj = 0"
    by (auto simp: running_reads_def running_writes_def running_placements_def)
  then have eq: "running_reads R obj = running_reads {#} obj" "running_writes R obj = running_writes {#} obj"
      "running_placements R obj = running_placements {#} obj"
    by (simp_all add: running_reads_def running_writes_def running_placements_def)
  have new: "entry_ok (os_local_id sv) (os_limits sv) (os_registry sv) R obj e"
    using assms(4) unfolding entry_ok_def admission_ok_def eq .
  have "oe_placement_tickets e = 0"
    using assms(4) by (simp add: entry_ok_def admission_ok_def running_placements_def)
  then have "counters_ok ?sv"
    using inv assms(5-8) hm_sum_insert_fresh [OF assms(2), of oe_roots e] hm_sum_insert_fresh [OF assms(2), of prepared_units e]
      hm_sum_insert_fresh [OF assms(2), of oe_placement_tickets e]
    by (simp add: counters_ok_def)
  moreover have "hm_len (os_entries ?sv) \<le> ol_max_objects (os_limits sv)"
    using inv assms(3) by (simp add: hm.put_within)
  ultimately show ?thesis
    using inv new by (auto simp: service_inv_def transfers_ok_def)
qed

subsection \<open>Every operation keeps the invariant\<close>

lemma collect_inv: "service_inv R sv \<Longrightarrow> service_inv R (collect obj sv)"
proof -
  assume inv: "service_inv R sv"
  show ?thesis
  proof (cases "hm_get (os_entries sv) obj")
    case None
    with inv show ?thesis by (simp add: collect_def)
  next
    case (Some e)
    note ok = service_inv_get [OF inv Some]
    have forget: "service_inv R (forget_entry obj sv)" if "entry_idle e" "oe_roots e = 0"
      using service_inv_forget [OF inv Some that(2)] that(1) by (simp add: entry_idle_def)
    have retire: "service_inv R (put_entry obj (e\<lparr>oe_lifecycle := LcRetiring location\<rparr>) (sv\<lparr>os_retirements := os_retirements sv @ [r]\<rparr>))"
      if "entry_idle e" "oe_roots e = 0" "length (os_retirements sv) < ol_max_migrations (os_limits sv)" for location r
    proof -
      have queued: "service_inv R (sv\<lparr>os_retirements := os_retirements sv @ [r]\<rparr>)"
        using inv that(3) by (simp add: service_inv_def counters_ok_def transfers_ok_def)
      show ?thesis
        using ok Some that(1,2)
        by (intro service_inv_put_same [OF queued, where e = e])
          (simp_all add: entry_ok_def admission_ok_def residence_ok_def entry_idle_def prepared_units_def)
    qed
    have registered: "hm_get (or_types (os_registry sv)) (oe_object_type e) \<noteq> None"
      and foreign: "oe_authority e \<noteq> os_local_id sv \<Longrightarrow> oe_roots e = 0"
      using ok by (simp_all add: entry_ok_def)
    show ?thesis
      unfolding collect_def Some
      using inv forget retire registered foreign
      by (auto simp: not_le split: object_lifecycle.split option.split)
  qed
qed

text \<open>What each part of the invariant of an entry does not depend on.\<close>

lemma admission_ok_frame [simp]:
  "admission_ok n R obj (e\<lparr>oe_leases := a\<rparr>) = admission_ok n R obj e"
  "admission_ok n R obj (e\<lparr>oe_lifecycle := b\<rparr>) = admission_ok n R obj e"
  "admission_ok n R obj (e\<lparr>oe_state := c\<rparr>) = admission_ok n R obj e"
  "admission_ok n R obj (e\<lparr>oe_roots := d\<rparr>) = admission_ok n R obj e"
  "admission_ok n R obj (e\<lparr>oe_prepared := f\<rparr>) = admission_ok n R obj e"
  "admission_ok n R obj (e\<lparr>oe_snapshot_bytes := g\<rparr>) = admission_ok n R obj e"
  "admission_ok n R obj (e\<lparr>oe_location := h\<rparr>) = admission_ok n R obj e"
  by (simp_all add: admission_ok_def)

lemma residence_ok_frame [simp]:
  "residence_ok (e\<lparr>oe_leases := a\<rparr>) = residence_ok e" "residence_ok (e\<lparr>oe_prepared := f\<rparr>) = residence_ok e"
  "residence_ok (e\<lparr>oe_snapshot_bytes := g\<rparr>) = residence_ok e" "residence_ok (e\<lparr>oe_location := h\<rparr>) = residence_ok e"
  "residence_ok (e\<lparr>oe_placement_tickets := i\<rparr>) = residence_ok e"
  by (simp_all add: residence_ok_def split: object_lifecycle.split)

lemma residence_ok_lifecycle [simp]:
  "residence_ok (e\<lparr>oe_lifecycle := LcResident\<rparr>) \<longleftrightarrow> oe_state e \<noteq> None"
  "residence_ok (e\<lparr>oe_lifecycle := LcFreezing m x\<rparr>) \<longleftrightarrow> oe_state e \<noteq> None"
  "residence_ok (e\<lparr>oe_lifecycle := LcPrepared m x\<rparr>)" "residence_ok (e\<lparr>oe_lifecycle := LcForwarding l x\<rparr>)"
  "residence_ok (e\<lparr>oe_lifecycle := LcRetiring l\<rparr>) \<longleftrightarrow>
     oe_in_flight e = 0 \<and> ad_queue (oe_admission e) = [] \<and> oe_roots e = 0"
  by (simp_all add: residence_ok_def)

lemma residence_ok_roots: "residence_ok e \<Longrightarrow> d \<le> oe_roots e \<Longrightarrow> residence_ok (e\<lparr>oe_roots := d\<rparr>)"
  by (simp add: residence_ok_def split: object_lifecycle.splits)

lemma prepared_units_frame [simp]:
  "prepared_units (e\<lparr>oe_leases := a\<rparr>) = prepared_units e" "prepared_units (e\<lparr>oe_lifecycle := b\<rparr>) = prepared_units e"
  "prepared_units (e\<lparr>oe_state := c\<rparr>) = prepared_units e" "prepared_units (e\<lparr>oe_roots := d\<rparr>) = prepared_units e"
  "prepared_units (e\<lparr>oe_snapshot_bytes := g\<rparr>) = prepared_units e" "prepared_units (e\<lparr>oe_location := h\<rparr>) = prepared_units e"
  "prepared_units (e\<lparr>oe_admission := i\<rparr>) = prepared_units e" "prepared_units (e\<lparr>oe_in_flight := j\<rparr>) = prepared_units e"
  "prepared_units (e\<lparr>oe_placement_tickets := k\<rparr>) = prepared_units e"
  "prepared_units (e\<lparr>oe_prepared := None\<rparr>) = 0" "prepared_units (e\<lparr>oe_prepared := Some q\<rparr>) = 1"
  by (simp_all add: prepared_units_def)

lemma service_inv_field:
  assumes "service_inv R sv"
  shows "service_inv R (sv\<lparr>os_next_slot := n\<rparr>)" "service_inv R (sv\<lparr>os_local_calls := c\<rparr>)"
    "service_inv R (sv\<lparr>os_remote_calls := c\<rparr>)"
  using assms by (simp_all add: service_inv_def counters_ok_def transfers_ok_def)

text \<open>Changing the leases of an entry.\<close>

lemma service_inv_leases:
  assumes "service_inv R sv" "hm_get (os_entries sv) obj = Some e" "hm_wf m" "hm_len m \<le> ol_max_local_leases (os_limits sv)"
  shows "service_inv R (put_entry obj (e\<lparr>oe_leases := m\<rparr>) sv)"
  using service_inv_get [OF assms(1,2)] assms(2-4)
  by (intro service_inv_put_same [OF assms(1), where e = e]) (simp_all add: entry_ok_def)

lemma entry_leases: "entry_ok me l reg R obj e \<Longrightarrow> hm_wf (oe_leases e) \<and> hm_len (oe_leases e) \<le> ol_max_local_leases l"
  by (simp add: entry_ok_def)

lemma acquire_inv: "service_inv R sv \<Longrightarrow> service_inv R (fst (acquire obj locality now sv))"
proof -
  assume inv: "service_inv R sv"
  show ?thesis
  proof (cases "hm_get (os_entries sv) obj")
    case None
    with inv show ?thesis by (simp add: acquire_def)
  next
    case (Some e)
    note wf = entry_leases [OF service_inv_get [OF inv Some]]
    have "service_inv R (put_entry obj (e\<lparr>oe_leases := hm_insert locality (lease_new now sv) (oe_leases e)\<rparr>) sv)"
      if "hm_get (oe_leases e) locality \<noteq> None \<or> hm_len (oe_leases e) < ol_max_local_leases (os_limits sv)"
      using wf that by (intro service_inv_leases [OF inv Some]) (auto simp: hm.put_within hm.replace_within)
    with inv Some show ?thesis by (auto simp: acquire_def not_le)
  qed
qed

lemma renew_inv: "service_inv R sv \<Longrightarrow> service_inv R (fst (renew obj locality now sv))"
proof -
  assume inv: "service_inv R sv"
  show ?thesis
  proof (cases "hm_get (os_entries sv) obj")
    case None
    with inv show ?thesis by (simp add: renew_def)
  next
    case (Some e)
    note wf = entry_leases [OF service_inv_get [OF inv Some]]
    have "service_inv R (put_entry obj (e\<lparr>oe_leases := hm_insert locality (lease_new now sv) (oe_leases e)\<rparr>) sv)"
      if "hm_get (oe_leases e) locality \<noteq> None"
      using wf that by (intro service_inv_leases [OF inv Some]) (auto simp: hm.replace_within)
    with inv Some show ?thesis by (auto simp: renew_def)
  qed
qed

lemma length_filter_neq: "distinct xs \<Longrightarrow> x \<in> set xs \<Longrightarrow> length (filter (\<lambda>y. y \<noteq> x) xs) = length xs - 1"
proof -
  assume d: "distinct xs" and "x \<in> set xs"
  moreover have "remove1 x xs = filter (\<lambda>y. y \<noteq> x) xs"
    unfolding distinct_remove1_removeAll [OF d] removeAll_filter_not_eq by (rule filter_cong) auto
  ultimately show ?thesis by (metis length_remove1)
qed

lemma service_inv_transfers:
  assumes "service_inv R sv" "distinct ts" "n = length ts" "n \<le> ol_max_transfers (os_limits sv)"
  shows "service_inv R (sv\<lparr>os_pending_transfers := ts, os_transfer_count := n\<rparr>)"
  using assms by (simp add: service_inv_def counters_ok_def transfers_ok_def)

lemma service_inv_pending: "service_inv R sv \<Longrightarrow> distinct (os_pending_transfers sv)
    \<and> os_transfer_count sv = length (os_pending_transfers sv) \<and> os_transfer_count sv \<le> ol_max_transfers (os_limits sv)"
  by (simp add: service_inv_def transfers_ok_def)

lemma drop_transfer_inv:
  assumes "service_inv R sv" "t \<in> set (os_pending_transfers sv)"
  shows "service_inv R (sv\<lparr>os_pending_transfers := filter (\<lambda>u. u \<noteq> t) (os_pending_transfers sv),
    os_transfer_count := fetch_dec (os_transfer_count sv)\<rparr>)"
proof -
  note p = service_inv_pending [OF assms(1)]
  then have "0 < length (os_pending_transfers sv)" using assms(2) by (cases "os_pending_transfers sv") auto
  with p assms(2) show ?thesis
    by (intro service_inv_transfers [OF assms(1)]) (auto simp: fetch_dec_def length_filter_neq)
qed

lemma ack_transfer_inv: "service_inv R sv \<Longrightarrow> service_inv R (fst (ack_transfer obj locality sv))"
  using drop_transfer_inv by (auto simp: ack_transfer_def)

lemma acquire_pending: "os_pending_transfers (fst (acquire obj locality now sv)) = os_pending_transfers sv"
  by (simp add: acquire_def split: option.split)

lemma begin_transfer_inv: "service_inv R sv \<Longrightarrow> service_inv R (fst (begin_transfer obj locality now sv))"
proof -
  assume inv: "service_inv R sv"
  let ?t = "(obj, locality)"
  let ?sv = "sv\<lparr>os_transfer_count := os_transfer_count sv + 1, os_pending_transfers := ?t # os_pending_transfers sv\<rparr>"
  have started: "service_inv R ?sv" if "?t \<notin> set (os_pending_transfers sv)" "os_transfer_count sv < ol_max_transfers (os_limits sv)"
    using service_inv_transfers [OF inv, of "?t # os_pending_transfers sv" "os_transfer_count sv + 1"]
      service_inv_pending [OF inv] that by (simp add: service_inv_def counters_ok_def transfers_ok_def)
  obtain sv2 b where a: "acquire obj locality now ?sv = (sv2, b)" by (cases "acquire obj locality now ?sv")
  have "os_pending_transfers sv2 = ?t # os_pending_transfers sv" using acquire_pending [of obj locality now ?sv] a by simp
  then show ?thesis
    using inv a started acquire_inv [of R ?sv obj locality now] drop_transfer_inv [of R sv2 ?t]
    by (cases b) (auto simp: begin_transfer_def Let_def split: option.split)
qed

lemma release_inv: "service_inv R sv \<Longrightarrow> service_inv R (fst (release obj locality sv))"
proof -
  assume inv: "service_inv R sv"
  show ?thesis
  proof (cases "hm_get (os_entries sv) obj")
    case None
    with inv show ?thesis by (simp add: release_def)
  next
    case (Some e)
    note wf = entry_leases [OF service_inv_get [OF inv Some]]
    have "service_inv R (put_entry obj (e\<lparr>oe_leases := hm_remove locality (oe_leases e)\<rparr>) sv)"
      using wf by (intro service_inv_leases [OF inv Some]) (auto simp: hm.remove_within)
    with Some show ?thesis by (simp add: release_def collect_inv ack_transfer_inv)
  qed
qed

lemma release_root_inv: "service_inv R sv \<Longrightarrow> service_inv R (fst (release_root obj sv))"
proof -
  assume inv: "service_inv R sv"
  show ?thesis
  proof (cases "\<exists>e. hm_get (os_entries sv) obj = Some e \<and> oe_roots e \<noteq> 0")
    case False
    with inv show ?thesis by (auto simp: release_root_def split: option.splits)
  next
    case True
    then obtain e where e: "hm_get (os_entries sv) obj = Some e" "oe_roots e \<noteq> 0" by blast
    have c: "counters_ok sv" "hm_wf (os_entries sv)" using inv by (simp_all add: service_inv_def)
    then have "oe_roots e \<le> os_root_count sv" using hm_sum_ge [OF c(2) e(1), of oe_roots] by (simp add: counters_ok_def)
    then have "service_inv R (put_entry obj (e\<lparr>oe_roots := oe_roots e - 1\<rparr>) (sv\<lparr>os_root_count := fetch_dec (os_root_count sv),
        os_prepared_count := os_prepared_count sv, os_placement_count := os_placement_count sv\<rparr>))"
      using service_inv_get [OF inv e(1)] e(2) c(1)
      by (intro service_inv_put [OF inv e(1)]) (auto simp: entry_ok_def fetch_dec_def counters_ok_def residence_ok_roots)
    then show ?thesis using e by (simp add: release_root_def collect_inv)
  qed
qed

lemma expire_leases_wf: "hm_wf m \<Longrightarrow> hm_wf (expire_leases l now m) \<and> hm_len (expire_leases l now m) \<le> hm_len m"
proof -
  assume "hm_wf m"
  then have "distinct (map fst (map (\<lambda>(k, r). (k, mark_suspect now r)) m))"
    by (simp add: hm_wf_def case_prod_unfold comp_def)
  then show ?thesis
    using length_filter_le [of "\<lambda>p. lease_kept l now (snd p)" "map (\<lambda>(k, r). (k, mark_suspect now r)) m"]
    by (simp add: expire_leases_def hm_wf_def hm_len_def distinct_map_filter)
qed

lemma expire_lifecycle_ok:
  assumes "expire_lifecycle l me now e = (e', k)" "entry_ok me' l' reg R obj e"
  shows "entry_ok me' l' reg R obj e' \<and> prepared_units e' + k = prepared_units e \<and> oe_roots e' = oe_roots e
    \<and> oe_placement_tickets e' = oe_placement_tickets e \<and> oe_leases e' = oe_leases e"
proof (cases "oe_lifecycle e")
  case (LcPrepared m x)
  then show ?thesis
    using assms by (cases "oe_prepared e")
      (auto simp: expire_lifecycle_def take_prepared_def entry_ok_def prepared_units_def split: if_splits)
qed (use assms in \<open>auto simp: expire_lifecycle_def entry_ok_def residence_ok_def split: if_splits\<close>)

lemma expire_prepared_ok:
  assumes "expire_prepared now e = (e', k)" "entry_ok me l reg R obj e"
  shows "entry_ok me l reg R obj e' \<and> prepared_units e' + k = prepared_units e \<and> oe_roots e' = oe_roots e
    \<and> oe_placement_tickets e' = oe_placement_tickets e \<and> oe_leases e' = oe_leases e"
  using assms
  by (auto simp: expire_prepared_def take_prepared_def entry_ok_def prepared_units_def split: if_splits option.splits)

lemma service_eqI:
  fixes a b :: "('v, 's) object_service"
  assumes "os_entries a = os_entries b" "os_limits a = os_limits b" "os_registry a = os_registry b"
    "os_local_id a = os_local_id b" "os_root_count a = os_root_count b" "os_prepared_count a = os_prepared_count b"
    "os_placement_count a = os_placement_count b" "os_pending_transfers a = os_pending_transfers b"
    "os_transfer_count a = os_transfer_count b" "os_retirements a = os_retirements b"
    "os_active_migrations a = os_active_migrations b" "os_panicked a = os_panicked b"
  shows "service_inv R a = service_inv R b"
  using assms by (simp add: service_inv_def counters_ok_def transfers_ok_def)

lemma expire_entry_inv: "service_inv R sv \<Longrightarrow> service_inv R (expire_entry now obj sv)"
proof -
  assume inv: "service_inv R sv"
  show ?thesis
  proof (cases "hm_get (os_entries sv) obj")
    case None
    with inv show ?thesis by (simp add: expire_entry_def)
  next
    case (Some e)
    note ok = service_inv_get [OF inv Some]
    obtain e1 k1 where e1: "expire_lifecycle (os_limits sv) (os_local_id sv) now e = (e1, k1)"
      by (cases "expire_lifecycle (os_limits sv) (os_local_id sv) now e")
    obtain e2 k2 where e2: "expire_prepared now e1 = (e2, k2)" by (cases "expire_prepared now e1")
    have ok1: "entry_ok (os_local_id sv) (os_limits sv) (os_registry sv) R obj e1" and u1: "prepared_units e1 + k1 = prepared_units e"
      and f1: "oe_roots e1 = oe_roots e" "oe_placement_tickets e1 = oe_placement_tickets e"
      using expire_lifecycle_ok [OF e1 ok] by simp_all
    have ok2: "entry_ok (os_local_id sv) (os_limits sv) (os_registry sv) R obj e2" and u2: "prepared_units e2 + k2 = prepared_units e1"
      and f2: "oe_roots e2 = oe_roots e1" "oe_placement_tickets e2 = oe_placement_tickets e1"
      using expire_prepared_ok [OF e2 ok1] by simp_all
    let ?leases = "expire_leases (os_limits sv) now (oe_leases e2)"
    define kept where "kept = filter (\<lambda>t. fst t \<noteq> obj \<or> hm_get ?leases (snd t) \<noteq> None) (os_pending_transfers sv)"
    let ?removed = "length (os_pending_transfers sv) - length kept"
    let ?sv = "sv\<lparr>os_pending_transfers := kept, os_transfer_count := length kept\<rparr>"
    let ?pc = "fetch_sub_by (os_prepared_count sv) (k1 + k2)"
    have le: "length kept \<le> length (os_pending_transfers sv)" unfolding kept_def by (rule length_filter_le)
    have tc: "(if ?removed \<noteq> 0 then fetch_sub_by (os_transfer_count sv) ?removed else os_transfer_count sv) = length kept"
      using le service_inv_pending [OF inv] by (simp add: fetch_sub_by_def)
    have sv': "service_inv R ?sv"
    proof (rule service_inv_transfers [OF inv])
      show "distinct kept" using service_inv_pending [OF inv] by (simp add: kept_def)
      show "length kept \<le> ol_max_transfers (os_limits sv)" using service_inv_pending [OF inv] le by simp
    qed simp
    have c: "counters_ok sv" "hm_wf (os_entries sv)" using inv by (simp_all add: service_inv_def)
    have "prepared_units e \<le> os_prepared_count sv"
      using hm_sum_ge [OF c(2) Some, of prepared_units] c(1) by (simp add: counters_ok_def)
    then have pc: "?pc + prepared_units e = os_prepared_count sv + prepared_units e2" "?pc \<le> os_prepared_count sv"
      using u1 u2 by (simp_all add: fetch_sub_by_def)
    have "entry_ok (os_local_id ?sv) (os_limits ?sv) (os_registry ?sv) R obj (e2\<lparr>oe_leases := ?leases\<rparr>)"
      using ok2 expire_leases_wf [of "oe_leases e2" "os_limits sv" now] by (auto simp: entry_ok_def)
    then have "service_inv R (put_entry obj (e2\<lparr>oe_leases := ?leases\<rparr>) (?sv\<lparr>os_root_count := os_root_count sv,
        os_prepared_count := ?pc, os_placement_count := os_placement_count sv\<rparr>))"
      using c(1) Some f1 f2 pc by (intro service_inv_put [OF sv', where e = e]) (simp_all add: counters_ok_def)
    then have "service_inv R (put_entry obj (e2\<lparr>oe_leases := ?leases\<rparr>) (sv\<lparr>os_prepared_count := ?pc,
        os_pending_transfers := kept, os_transfer_count := length kept\<rparr>))"
      by (subst (asm) service_eqI [of _ "put_entry obj (e2\<lparr>oe_leases := ?leases\<rparr>) (sv\<lparr>os_prepared_count := ?pc,
        os_pending_transfers := kept, os_transfer_count := length kept\<rparr>)"]) simp_all
    moreover have "expire_entry now obj sv = collect obj (put_entry obj (e2\<lparr>oe_leases := ?leases\<rparr>) (sv\<lparr>os_prepared_count := ?pc,
        os_pending_transfers := kept, os_transfer_count :=
          (if ?removed \<noteq> 0 then fetch_sub_by (os_transfer_count sv) ?removed else os_transfer_count sv)\<rparr>))"
      unfolding expire_entry_def kept_def by (simp add: Some e1 e2 Let_def)
    ultimately show ?thesis unfolding tc by (simp add: collect_inv)
  qed
qed

lemma expire_inv: "service_inv R sv \<Longrightarrow> service_inv R (expire now sv)"
proof -
  have "service_inv R sv \<Longrightarrow> service_inv R (fold (expire_entry now) ids sv)" for ids and sv :: "('v, 's) object_service"
    by (induction ids arbitrary: sv) (simp_all add: expire_entry_inv)
  then show "service_inv R sv \<Longrightarrow> service_inv R (expire now sv)" by (simp add: expire_def)
qed

lemma service_insert_inv:
  assumes "service_inv R sv" "hm_get (or_types (os_registry sv)) (en_object_type env) \<noteq> None"
  shows "service_inv R (fst (service_insert env st now sv))"
proof (cases "hm_len (os_entries sv) < ol_max_objects (os_limits sv) \<and> hm_get (os_entries sv) (en_object env) = None")
  case False
  then show ?thesis using assms(1) by (auto simp: service_insert_def Let_def)
next
  case room: True
  let ?l = "os_limits sv"
  have slot: "service_inv R (sv\<lparr>os_next_slot := n\<rparr>)" for n by (rule service_inv_field [OF assms(1)])
  have inserted: "service_inv R (put_entry (en_object env) e (if en_rooted env then (sv\<lparr>os_next_slot := n\<rparr>)\<lparr>os_root_count := os_root_count sv + 1\<rparr> else sv\<lparr>os_next_slot := n\<rparr>))"
    if e: "oe_lifecycle e = LcResident" "oe_state e = Some st" "oe_prepared e = None" "oe_in_flight e = 0"
        "oe_placement_tickets e = 0" "oe_admission e = admission_new" "oe_object_type e = en_object_type env"
        "oe_authority e = os_local_id sv" "oe_roots e = (if en_rooted env then 1 else 0)"
        "oe_leases e = hm_insert k r []" and "en_rooted env \<longrightarrow> os_root_count sv < ol_max_roots ?l" for e k r n
  proof -
    have "hm_len (hm_insert k r []) \<le> ol_max_local_leases ?l"
      using assms(1) by (simp add: hm_len_def hm_insert_def service_inv_def)
    then have "entry_ok (os_local_id sv) ?l (os_registry sv) {#} (en_object env) e"
      using assms(2) e by (simp add: entry_ok_def admission_ok_def residence_ok_def admission_new_def running_reads_def
          running_writes_def running_placements_def)
    then have "service_inv R (put_entry (en_object env) e ((sv\<lparr>os_next_slot := n\<rparr>)\<lparr>os_root_count := os_root_count sv + oe_roots e,
        os_prepared_count := os_prepared_count sv\<rparr>))"
      using room that(11) e(3,9) assms(1)
      by (intro service_inv_insert [OF slot]) (auto simp: prepared_units_def service_inv_def counters_ok_def)
    then show ?thesis using e(9) by (subst (asm) service_eqI) simp_all
  qed
  show ?thesis
    using room assms(1) slot inserted
    by (auto simp: service_insert_def Let_def not_le split: option.split sum.split)
qed

subsection \<open>Admission keeps the invariant\<close>

lemma running_add [simp]:
  "running_reads (add_mset j R) obj =
     (if oj_object j = obj \<and> \<not> oj_placement j \<and> oj_read j then Suc (running_reads R obj) else running_reads R obj)"
  "running_writes (add_mset j R) obj =
     (if oj_object j = obj \<and> \<not> oj_placement j \<and> \<not> oj_read j then Suc (running_writes R obj) else running_writes R obj)"
  "running_placements (add_mset j R) obj =
     (if oj_object j = obj \<and> oj_placement j then Suc (running_placements R obj) else running_placements R obj)"
  by (simp_all add: running_reads_def running_writes_def running_placements_def)

lemma same_work_add [simp]: "same_work (oj_object j) R (add_mset j R)" "same_work (oj_object j) (add_mset j R) R"
  by (simp_all add: same_work_def)

text \<open>An entry whose object answers calls: resident, or freezing for its own migration.\<close>

definition answering :: "('v, 's) object_entry \<Rightarrow> bool" where
  "answering e \<longleftrightarrow> (case oe_lifecycle e of LcResident \<Rightarrow> True | LcFreezing m x \<Rightarrow> True | _ \<Rightarrow> False)"

definition not_retiring :: "('v, 's) object_entry \<Rightarrow> bool" where
  "not_retiring e \<longleftrightarrow> (\<forall>l. oe_lifecycle e \<noteq> LcRetiring l)"

lemma answering_not_retiring: "answering e \<Longrightarrow> not_retiring e"
  by (auto simp: answering_def not_retiring_def)

lemma residence_ok_work:
  assumes "not_retiring e"
  shows "residence_ok (e\<lparr>oe_admission := a, oe_in_flight := n\<rparr>) = residence_ok e"
    "residence_ok (e\<lparr>oe_admission := a\<rparr>) = residence_ok e" "residence_ok (e\<lparr>oe_in_flight := n\<rparr>) = residence_ok e"
    "residence_ok (e\<lparr>oe_placement_tickets := t, oe_in_flight := n\<rparr>) = residence_ok e"
  using assms by (simp_all add: residence_ok_def not_retiring_def split: object_lifecycle.splits)

text \<open>A job is let in: its mark joins the running jobs.\<close>

lemma enter_inv:
  assumes inv: "service_inv R sv" and e: "hm_get (os_entries sv) obj = Some e" and "not_retiring e"
    and "read \<or> \<not> ad_writer (oe_admission e)" "length q \<le> ol_max_mailbox_per_object (os_limits sv)" "\<forall>job\<in>set q. queued_ok obj job"
  shows "service_inv (add_mset \<lparr>oj_object = obj, oj_read = read, oj_placement = False\<rparr> R)
    (put_entry obj (e\<lparr>oe_admission := (enter read (oe_admission e))\<lparr>ad_queue := q\<rparr>, oe_in_flight := oe_in_flight e + 1\<rparr>) sv)"
proof -
  let ?j = "\<lparr>oj_object = obj, oj_read = read, oj_placement = False\<rparr>"
  have same: "same_work obj R (add_mset ?j R)" using same_work_add(1) [of ?j R] by simp
  have ok: "admission_ok (ol_max_mailbox_per_object (os_limits sv)) R obj e" using service_inv_get [OF inv e] by (simp add: entry_ok_def)
  have "admission_ok (ol_max_mailbox_per_object (os_limits sv)) (add_mset ?j R) obj
      (e\<lparr>oe_admission := (enter read (oe_admission e))\<lparr>ad_queue := q\<rparr>, oe_in_flight := oe_in_flight e + 1\<rparr>)"
    using ok assms(4-6) by (cases read) (auto simp: admission_ok_def enter_def split: if_splits)
  then show ?thesis
    using service_inv_get [OF inv e] assms(3)
    by (intro service_inv_put_same [OF inv e _ same]) (simp_all add: entry_ok_def residence_ok_work)
qed

lemma enter_keeps_queue: "(enter read ad)\<lparr>ad_queue := ad_queue ad\<rparr> = enter read ad"
  by (simp add: enter_def)

definition admitted :: "(runtime_error, 'v action_job option) result \<Rightarrow> running" where
  "admitted r = (case r of Inr (Some job) \<Rightarrow> (case aj_object job of Some j \<Rightarrow> {#j#} | None \<Rightarrow> {#}) | _ \<Rightarrow> {#})"

lemma admission_ok_queue:
  "admission_ok n R obj e \<Longrightarrow> length (ad_queue (oe_admission e)) \<le> n \<and> (\<forall>job\<in>set (ad_queue (oe_admission e)). queued_ok obj job)"
  by (simp add: admission_ok_def)

lemma admit_queue_inv:
  assumes inv: "service_inv R sv" and e: "hm_get (os_entries sv) obj = Some e" and a: "answering e"
  shows "service_inv (admitted (snd (admit_queue obj fr rd job da e sv)) + R) (fst (admit_queue obj fr rd job da e sv))"
proof -
  let ?ad = "oe_admission e"
  have ok: "entry_ok (os_local_id sv) (os_limits sv) (os_registry sv) R obj e" by (rule service_inv_get [OF inv e])
  then have q: "length (ad_queue ?ad) \<le> ol_max_mailbox_per_object (os_limits sv)" "\<forall>job\<in>set (ad_queue ?ad). queued_ok obj job"
    using admission_ok_queue unfolding entry_ok_def by blast+
  have same: "service_inv R (put_entry obj e sv)" using ok by (intro service_inv_put_same [OF inv e]) simp_all
  have wait: "service_inv R (put_entry obj (e\<lparr>oe_admission := ?ad\<lparr>ad_queue := ad_queue ?ad @ [job']\<rparr>\<rparr>) sv)"
    if "queued_ok obj job'" "length (ad_queue ?ad) < ol_max_mailbox_per_object (os_limits sv)" for job'
  proof -
    have "admission_ok (ol_max_mailbox_per_object (os_limits sv)) R obj (e\<lparr>oe_admission := ?ad\<lparr>ad_queue := ad_queue ?ad @ [job']\<rparr>\<rparr>)"
      using ok that by (auto simp: entry_ok_def admission_ok_def)
    then show ?thesis
      using ok answering_not_retiring [OF a]
      by (intro service_inv_put_same [OF inv e]) (simp_all add: entry_ok_def residence_ok_work)
  qed
  have "queued_ok obj (job\<lparr>aj_object := Some \<lparr>oj_object = obj, oj_read = rd, oj_placement = False\<rparr>\<rparr>)"
    by (simp add: queued_ok_def)
  then show ?thesis
    using enter_inv [OF inv e answering_not_retiring [OF a] _ q, of rd] same wait
    by (auto simp: admit_queue_def Let_def admitted_def enter_keeps_queue may_enter_def)
qed

lemma admit_placement_inv:
  assumes inv: "service_inv R sv" and e: "hm_get (os_entries sv) obj = Some e"
  shows "service_inv (admitted (snd (admit_placement obj job da e sv)) + R) (fst (admit_placement obj job da e sv))"
proof (cases "da \<and> oe_lifecycle e = LcResident \<and> os_placement_count sv < ol_max_placement_tickets (os_limits sv)")
  case False
  then show ?thesis using inv by (auto simp: admit_placement_def admitted_def)
next
  case True
  let ?j = "\<lparr>oj_object = obj, oj_read = False, oj_placement = True\<rparr>"
  let ?e = "e\<lparr>oe_placement_tickets := oe_placement_tickets e + 1, oe_in_flight := oe_in_flight e + 1\<rparr>"
  have ok: "entry_ok (os_local_id sv) (os_limits sv) (os_registry sv) R obj e" by (rule service_inv_get [OF inv e])
  have same: "same_work obj R (add_mset ?j R)" using same_work_add(1) [of ?j R] by simp
  have "not_retiring e" using True by (simp add: not_retiring_def)
  then have "entry_ok (os_local_id sv) (os_limits sv) (os_registry sv) (add_mset ?j R) obj ?e"
    using ok by (auto simp: entry_ok_def admission_ok_def residence_ok_work)
  then have "service_inv (add_mset ?j R) (put_entry obj ?e (sv\<lparr>os_root_count := os_root_count sv,
      os_prepared_count := os_prepared_count sv, os_placement_count := os_placement_count sv + 1\<rparr>))"
    using True inv by (intro service_inv_put [OF inv e _ same]) (simp_all add: service_inv_def counters_ok_def)
  then show ?thesis using True by (simp add: admit_placement_def admitted_def)
qed

lemma admit_inv:
  assumes inv: "service_inv R sv" and "aj_object job = None"
  shows "service_inv (admitted (snd (admit action job da now sv)) + R) (fst (admit action job da now sv))"
proof -
  let ?fr = "action = MIGRATION_FREEZE_ACTION_ID"
  have stay: ?thesis if "fst (admit action job da now sv) = sv" "admitted (snd (admit action job da now sv)) = {#}"
    using that inv by simp
  show ?thesis
  proof (cases "admit_target ?fr job")
    case (Inl err)
    then show ?thesis using inv assms(2) by (simp add: admit_def Let_def admitted_def)
  next
    case (Inr p)
    obtain obj t epoch m where p: "p = (obj, t, epoch, m)" by (cases p)
    show ?thesis
    proof (cases "hm_get (os_entries sv) obj")
      case None
      then show ?thesis using inv assms(2) Inr p by (simp add: admit_def Let_def admitted_def)
    next
      case (Some e)
      note ok = service_inv_get [OF inv Some]
      show ?thesis
      proof (cases "admit_lifecycle (os_limits sv) obj m now (oe_lifecycle e)")
        case (Inl err)
        then show ?thesis using inv assms(2) Inr p Some by (simp add: admit_def Let_def admitted_def)
      next
        case lc: (Inr c)
        let ?e = "e\<lparr>oe_lifecycle := c\<rparr>"
        have c: "answering ?e" "answering e"
          using lc by (auto simp: admit_lifecycle_def answering_def split: option.splits object_lifecycle.splits if_splits)
        then have "oe_state e \<noteq> None"
          using ok by (auto simp: entry_ok_def residence_ok_def answering_def split: object_lifecycle.splits)
        then have "residence_ok ?e" using c(1) by (cases c) (simp_all add: answering_def)
        then have inv': "service_inv R (put_entry obj ?e sv)"
          using ok by (intro service_inv_put_same [OF inv Some]) (simp_all add: entry_ok_def)
        have get: "hm_get (os_entries (put_entry obj ?e sv)) obj = Some ?e"
          using inv by (simp add: service_inv_def)
        show ?thesis
          using inv assms(2) Inr p Some lc admit_queue_inv [OF inv' get c(1)] admit_placement_inv [OF inv' get]
          by (simp add: admit_def Let_def admitted_def)
      qed
    qed
  qed
qed

lemma service_complete_inv:
  assumes inv: "service_inv (add_mset j R) sv"
  shows "service_inv R (fst (service_complete j sv))"
proof -
  obtain e where e: "hm_get (os_entries sv) (oj_object j) = Some e" using inv by (auto simp: service_inv_def)
  note ok = service_inv_get [OF inv e]
  have c: "counters_ok sv" "hm_wf (os_entries sv)" using inv by (simp_all add: service_inv_def)
  then have t: "oe_placement_tickets e \<le> os_placement_count sv"
    using hm_sum_ge [OF c(2) e, of oe_placement_tickets] by (simp add: counters_ok_def)
  have "0 < oe_in_flight e" using ok by (auto simp: entry_ok_def admission_ok_def split: if_splits)
  then have "\<And>b. oe_lifecycle e \<noteq> LcRetiring b"
    using ok by (auto simp: entry_ok_def residence_ok_def)
  then have res: "residence_ok (e\<lparr>oe_admission := a, oe_in_flight := n\<rparr>)" "residence_ok (e\<lparr>oe_placement_tickets := k, oe_in_flight := n\<rparr>)" for a n k
    using ok by (auto simp: entry_ok_def residence_ok_def split: object_lifecycle.splits)
  let ?ad = "oe_admission e"
  show ?thesis
  proof (cases "oj_placement j")
    case True
    let ?e = "e\<lparr>oe_placement_tickets := oe_placement_tickets e - 1, oe_in_flight := oe_in_flight e - 1\<rparr>"
    have "entry_ok (os_local_id sv) (os_limits sv) (os_registry sv) R (oj_object j) ?e" "0 < oe_placement_tickets e"
      using ok res True by (auto simp: entry_ok_def admission_ok_def)
    then have "service_inv R (put_entry (oj_object j) ?e (sv\<lparr>os_root_count := os_root_count sv,
        os_prepared_count := os_prepared_count sv, os_placement_count := fetch_dec (os_placement_count sv)\<rparr>))"
      using c(1) t by (intro service_inv_put [OF inv e]) (auto simp: counters_ok_def fetch_dec_def prepared_units_def)
    then show ?thesis using True e by (simp add: service_complete_def Let_def)
  next
    case False
    let ?e = "e\<lparr>oe_admission := (if oj_read j then ?ad\<lparr>ad_readers := ad_readers ?ad - 1\<rparr> else ?ad\<lparr>ad_writer := False\<rparr>),
        oe_in_flight := oe_in_flight e - 1\<rparr>"
    have "admission_ok (ol_max_mailbox_per_object (os_limits sv)) R (oj_object j) ?e"
      using ok False by (auto simp: entry_ok_def admission_ok_def split: if_splits)
    then have "entry_ok (os_local_id sv) (os_limits sv) (os_registry sv) R (oj_object j) ?e"
      using ok res by (simp add: entry_ok_def)
    then have "service_inv R (put_entry (oj_object j) ?e sv)"
      by (intro service_inv_put_same [OF inv e]) simp_all
    then show ?thesis using False e by (cases "oj_read j") (simp_all add: service_complete_def Let_def)
  qed
qed

lemma put_put [simp]: "put_entry obj e (put_entry obj e' sv) = put_entry obj e sv"
  by (simp add: put_entry_def hm_insert_def)

definition job_marks :: "'v action_job list \<Rightarrow> running" where
  "job_marks js = mset (map (\<lambda>job. the (aj_object job)) js)"

lemma retry_entry_inv:
  assumes "service_inv R sv" "hm_get (os_entries sv) obj = Some e" "ad_queue (oe_admission e) = q"
    and "\<not> ad_writer (oe_admission e)"
  shows "\<exists>e' js. retry_entry room da q e = (e', Ok js) \<and> length js \<le> room
    \<and> service_inv (job_marks js + R) (put_entry obj e' sv)"
  using assms
proof (induction room da q e arbitrary: R sv rule: retry_entry.induct)
  case (4 room da front rest e)
  note prems = "4.prems"
  note ok = service_inv_get [OF prems(1,2)]
  have stay: "service_inv R (put_entry obj e sv)"
    using ok by (intro service_inv_put_same [OF prems(1,2)]) simp_all
  show ?case
  proof (cases "\<not> da (aj_domain front) \<or> (aj_action_id front = MIGRATION_FREEZE_ACTION_ID \<and> oe_placement_tickets e \<noteq> 0)")
    case True
    then show ?thesis using stay by (auto simp: job_marks_def)
  next
    case False
    have q: "length rest \<le> ol_max_mailbox_per_object (os_limits sv)" "\<forall>job\<in>set rest. queued_ok obj job" "queued_ok obj front"
      using ok prems(3) by (auto simp: entry_ok_def admission_ok_def)
    then obtain j where j: "aj_object front = Some j" "oj_object j = obj" "\<not> oj_placement j" by (auto simp: queued_ok_def)
    then have j': "\<lparr>oj_object = obj, oj_read = oj_read j, oj_placement = False\<rparr> = j" by (cases j) simp
    let ?e = "e\<lparr>oe_admission := (enter (oj_read j) (oe_admission e))\<lparr>ad_queue := rest\<rparr>, oe_in_flight := oe_in_flight e + 1\<rparr>"
    have nr: "not_retiring e"
      using ok prems(3) by (auto simp: entry_ok_def residence_ok_def not_retiring_def)
    have entered: "service_inv (add_mset j R) (put_entry obj ?e sv)"
      using enter_inv [OF prems(1,2) nr _ q(1,2), of "oj_read j"] prems(4) j' by simp
    have get: "hm_get (os_entries (put_entry obj ?e sv)) obj = Some ?e" using prems(1) by (simp add: service_inv_def)
    show ?thesis
    proof (cases "oj_read j")
      case r: True
      obtain e' js where rec: "retry_entry room da rest ?e = (e', Ok js)" "length js \<le> room"
          "service_inv (job_marks js + add_mset j R) (put_entry obj e' (put_entry obj ?e sv))"
        using "4.IH" [OF False j(1) refl r entered get] prems(4) r by (auto simp: enter_def)
      then show ?thesis using False j(1) r by (auto simp: Let_def job_marks_def)
    next
      case r: False
      then show ?thesis using False j(1) entered by (auto simp: Let_def job_marks_def)
    qed
  qed
qed (use service_inv_put_same service_inv_get in \<open>fastforce simp: job_marks_def\<close>)+

lemma job_marks_append [simp]: "job_marks (xs @ ys) = job_marks xs + job_marks ys"
  by (simp add: job_marks_def)

lemma retry_entries_inv:
  assumes "service_inv R sv"
  shows "\<exists>sv' js. retry_entries room da objs sv = (sv', Ok js) \<and> service_inv (job_marks js + R) sv'"
  using assms
proof (induction objs arbitrary: room R sv)
  case Nil
  then show ?case by (simp add: job_marks_def)
next
  case (Cons obj objs)
  show ?case
  proof (cases "room = 0 \<or> hm_get (os_entries sv) obj = None
      \<or> (\<exists>e. hm_get (os_entries sv) obj = Some e \<and> (ad_writer (oe_admission e) \<or> ad_readers (oe_admission e) \<noteq> 0))")
    case True
    then show ?thesis using Cons by (auto simp: job_marks_def split: option.splits)
  next
    case False
    then obtain e where e: "hm_get (os_entries sv) obj = Some e" "\<not> ad_writer (oe_admission e)" "ad_readers (oe_admission e) = 0" "room \<noteq> 0"
      by auto
    obtain e' js where r: "retry_entry room da (ad_queue (oe_admission e)) e = (e', Ok js)"
        "service_inv (job_marks js + R) (put_entry obj e' sv)"
      using retry_entry_inv [OF Cons.prems e(1) refl e(2)] by blast
    obtain sv' js' where "retry_entries (room - length js) da objs (put_entry obj e' sv) = (sv', Ok js')"
        "service_inv (job_marks js' + (job_marks js + R)) sv'"
      using Cons.IH [OF r(2)] by blast
    then show ?thesis using e r(1) by (auto simp: add_ac)
  qed
qed

lemma retry_ready_inv:
  "service_inv R sv \<Longrightarrow> \<exists>sv' js. retry_ready room da sv = (sv', Ok js) \<and> service_inv (job_marks js + R) sv'"
  unfolding retry_ready_def by (rule retry_entries_inv)

subsection \<open>Calls and handlers keep the invariant\<close>

lemma service_inv_state:
  assumes "service_inv R sv" "hm_get (os_entries sv) obj = Some e" "oe_state e \<noteq> None \<longrightarrow> st \<noteq> None"
  shows "service_inv R (put_entry obj (e\<lparr>oe_state := st\<rparr>) sv)"
proof -
  have "residence_ok (e\<lparr>oe_state := st\<rparr>)"
    using service_inv_get [OF assms(1,2)] assms(3) by (auto simp: entry_ok_def residence_ok_def split: object_lifecycle.splits)
  then show ?thesis
    using service_inv_get [OF assms(1,2)] by (intro service_inv_put_same [OF assms(1,2)]) (simp_all add: entry_ok_def)
qed

lemma pin_drop_inv: "service_inv (add_mset j R) sv \<Longrightarrow> service_inv R (pin_drop j sv)"
  by (simp add: pin_drop_def collect_inv service_complete_inv)

lemma admit_local_inv:
  assumes inv: "service_inv R sv" and e: "hm_get (os_entries sv) obj = Some e"
  shows "case admit_local obj rd e sv of
      (sv', Inl err) \<Rightarrow> sv' = sv
    | (sv', Inr j) \<Rightarrow> oj_object j = obj \<and> service_inv (add_mset j R) sv'
        \<and> sv' = put_entry obj (e\<lparr>oe_admission := enter rd (oe_admission e), oe_in_flight := oe_in_flight e + 1\<rparr>) sv"
proof (cases "admit_lifecycle (os_limits sv) obj None 0 (oe_lifecycle e)")
  case (Inl err)
  then show ?thesis by (simp add: admit_local_def Let_def)
next
  case (Inr c)
  then have nr: "not_retiring e"
    by (auto simp: admit_lifecycle_def not_retiring_def split: object_lifecycle.splits)
  have q: "length (ad_queue (oe_admission e)) \<le> ol_max_mailbox_per_object (os_limits sv)"
      "\<forall>job\<in>set (ad_queue (oe_admission e)). queued_ok obj job"
    using service_inv_get [OF inv e] admission_ok_queue unfolding entry_ok_def by blast+
  from enter_inv [OF inv e nr _ q, of rd] Inr show ?thesis
    by (auto simp: admit_local_def Let_def may_enter_def enter_keeps_queue)
qed

lemma local_entry_get: "local_entry obj t l sv = Ok e \<Longrightarrow> hm_get (os_entries sv) obj = Some e"
  by (auto simp: local_entry_def split: option.splits if_splits)

lemma call_read_local_inv:
  assumes inv: "service_inv R sv"
  shows "service_inv R (fst (call_read_local T A obj t l a sv))"
proof (cases "local_entry obj t l sv")
  case (Inl err)
  then show ?thesis using inv by (simp add: call_read_local_def Let_def)
next
  case (Inr e)
  note admitted = admit_local_inv [OF inv local_entry_get [OF Inr], of True]
  obtain sv1 r where r: "admit_local obj True e sv = (sv1, r)" by (cases "admit_local obj True e sv")
  show ?thesis
  proof (cases r)
    case (Inl err)
    then show ?thesis using admitted r Inr inv by (simp add: call_read_local_def Let_def)
  next
    case j: (Inr j)
    then have "service_inv (add_mset j R) sv1" using admitted r by auto
    then have "service_inv R (pin_drop j sv1)" "service_inv R (pin_drop j (sv1\<lparr>os_local_calls := os_local_calls sv1 + 1\<rparr>))"
      by (simp_all add: pin_drop_inv service_inv_field)
    then show ?thesis using j r Inr
      by (auto simp: call_read_local_def Let_def split: option.split erased_state.split)
  qed
qed

lemma call_write_local_inv:
  assumes inv: "service_inv R sv"
  shows "service_inv R (fst (call_write_local T A obj t l a sv))"
proof (cases "local_entry obj t l sv")
  case (Inl err)
  then show ?thesis using inv by (simp add: call_write_local_def Let_def)
next
  case (Inr e)
  note admitted = admit_local_inv [OF inv local_entry_get [OF Inr], of False]
  obtain sv1 r where r: "admit_local obj False e sv = (sv1, r)" by (cases "admit_local obj False e sv")
  show ?thesis
  proof (cases r)
    case (Inl err)
    then show ?thesis using admitted r Inr inv by (simp add: call_write_local_def Let_def)
  next
    case j: (Inr j)
    let ?e = "e\<lparr>oe_admission := enter False (oe_admission e), oe_in_flight := oe_in_flight e + 1\<rparr>"
    have sv1: "service_inv (add_mset j R) sv1" "sv1 = put_entry obj ?e sv" using j admitted r by auto
    have get: "hm_get (os_entries sv1) obj = Some ?e" using sv1(2) inv by (simp add: service_inv_def)
    have "service_inv (add_mset j R) (put_entry obj (?e\<lparr>oe_state := Some st\<rparr>) (sv1\<lparr>os_local_calls := os_local_calls sv1 + 1\<rparr>))" for st
      using service_inv_state [of "add_mset j R" "sv1\<lparr>os_local_calls := os_local_calls sv1 + 1\<rparr>" obj ?e "Some st"]
        service_inv_field(2) [OF sv1(1)] get by simp
    moreover have "?e\<lparr>oe_state := Some st\<rparr> = e\<lparr>oe_state := Some st, oe_admission := enter False (oe_admission e),
        oe_in_flight := oe_in_flight e + 1\<rparr>" for st
      by (rule object_entry.equality) simp_all
    ultimately have "service_inv (add_mset j R) (put_entry obj (e\<lparr>oe_state := Some st, oe_admission := enter False (oe_admission e),
        oe_in_flight := oe_in_flight e + 1\<rparr>) (sv1\<lparr>os_local_calls := os_local_calls sv1 + 1\<rparr>))" for st
      by metis
    then show ?thesis using j r Inr sv1(1)
      by (auto simp: call_write_local_def Let_def pin_drop_inv case_prod_unfold split: option.split)
  qed
qed

lemma create_local_inv:
  assumes "service_inv R sv"
  shows "service_inv R (fst (create_local obj t d v k rooted now sv))"
proof (cases "hm_get (or_types (os_registry sv)) t")
  case None
  then show ?thesis using assms by (simp add: create_local_def)
next
  case (Some r)
  let ?env = "\<lparr>en_object = obj, en_object_type = t, en_epoch = 1, en_lease_locality = k, en_domain = d, en_rooted = rooted\<rparr>"
  have "service_inv R (fst (service_insert ?env st now sv))" for st
    using service_insert_inv [OF assms, of ?env] Some by simp
  then show ?thesis using assms Some by (simp add: create_local_def case_prod_unfold split: sum.split)
qed

lemma create_run_inv:
  assumes "service_inv R sv"
  shows "service_inv R (fst (create_run t ss now sv))"
proof (cases "\<exists>r env payload. hm_get (or_types (os_registry sv)) t = Some r \<and> envelope_decode ss = Ok (env, payload) \<and> en_object_type env = t")
  case False
  then show ?thesis using assms by (auto simp: create_run_def split: option.split sum.split prod.split)
next
  case True
  then obtain r env payload where r: "hm_get (or_types (os_registry sv)) t = Some r" "envelope_decode ss = Ok (env, payload)"
    "en_object_type env = t" by blast
  have "service_inv R (fst (service_insert env st now sv))" for st
    using service_insert_inv [OF assms, of env] r by simp
  then have "service_inv R sv'" if "service_insert env st now sv = (sv', x)" for st sv' x using that by (metis fst_conv)
  then show ?thesis using assms r by (auto simp: create_run_def split: sum.split prod.split)
qed

lemma action_run_inv:
  assumes inv: "service_inv R sv"
  shows "service_inv R (fst (action_run a ss sv))"
proof (cases "\<exists>r env input e. hm_get (or_actions (os_registry sv)) a = Some r \<and> envelope_decode ss = Ok (env, input)
    \<and> hm_get (os_entries sv) (en_object env) = Some e")
  case False
  then show ?thesis
    using inv service_inv_field [OF inv]
    by (auto simp: action_run_def Let_def split: option.split sum.split)
next
  case True
  then obtain r env input e where r: "hm_get (or_actions (os_registry sv)) a = Some r" "envelope_decode ss = Ok (env, input)"
    "hm_get (os_entries sv) (en_object env) = Some e" by blast
  have "oe_state e \<noteq> None \<longrightarrow> fst (oar_handler r (oe_state e) input) \<noteq> None"
    using inv r(1) by (auto simp: service_inv_def handlers_ok_def)
  then have "service_inv R (put_entry (en_object env) (e\<lparr>oe_state := fst (oar_handler r (oe_state e) input)\<rparr>)
      (sv\<lparr>os_remote_calls := os_remote_calls sv + 1\<rparr>))"
    using service_inv_state [of R "sv\<lparr>os_remote_calls := os_remote_calls sv + 1\<rparr>" "en_object env" e] service_inv_field [OF inv] r(3)
    by simp
  then show ?thesis
    using inv service_inv_field [OF inv] r by (simp add: action_run_def Let_def case_prod_unfold)
qed

lemma lease_handlers_inv:
  assumes "service_inv R sv"
  shows "service_inv R (fst (lease_run b ss now sv))" "service_inv R (fst (acquire_lease_run ss now sv))"
    "service_inv R (fst (root_release_run ss sv))" "service_inv R (fst (transfer_ack_run ss sv))"
proof -
  have fst_inv: "service_inv R sv'" if "f = (sv', x)" "service_inv R (fst f)"
    for f and sv' :: "('a, 'b) object_service" and x :: bool using that by simp
  note ops = renew_inv [OF assms] release_inv [OF assms] begin_transfer_inv [OF assms] acquire_inv [OF assms]
    release_root_inv [OF assms] ack_transfer_inv [OF assms]
  show "service_inv R (fst (lease_run b ss now sv))"
    using assms ops(1,2) by (auto simp: lease_run_def split: sum.split prod.split bool.split elim!: fst_inv)
  show "service_inv R (fst (acquire_lease_run ss now sv))"
    using assms ops(3,4) by (auto simp: acquire_lease_run_def case_prod_unfold split: sum.split)
  show "service_inv R (fst (root_release_run ss sv))" "service_inv R (fst (transfer_ack_run ss sv))"
    using assms ops(5,6) by (auto simp: root_release_run_def transfer_ack_run_def split: sum.split prod.split)
qed

subsection \<open>Migration keeps the invariant\<close>

lemma entry_for_migration_get: "entry_for_migration p sv = Ok e \<Longrightarrow> hm_get (os_entries sv) (mp_object p) = Some e"
  by (auto simp: entry_for_migration_def split: option.splits if_splits)

text \<open>Rewriting lifecycle, location, state and snapshot size, nothing else.\<close>

lemma service_inv_residence:
  assumes "service_inv R sv" "hm_get (os_entries sv) obj = Some e" "residence_ok e'"
    and "e' = e\<lparr>oe_location := oe_location e', oe_state := oe_state e', oe_lifecycle := oe_lifecycle e',
      oe_snapshot_bytes := oe_snapshot_bytes e'\<rparr>"
  shows "service_inv R (put_entry obj e' sv)"
proof -
  have same: "oe_roots e' = oe_roots e" "oe_prepared e' = oe_prepared e" "oe_placement_tickets e' = oe_placement_tickets e"
      "oe_admission e' = oe_admission e" "oe_in_flight e' = oe_in_flight e" "oe_leases e' = oe_leases e"
      "oe_object_type e' = oe_object_type e" "oe_authority e' = oe_authority e"
    by (subst assms(4), simp)+
  then have "entry_ok (os_local_id sv) (os_limits sv) (os_registry sv) R obj e'"
    using service_inv_get [OF assms(1,2)] assms(3) by (simp add: entry_ok_def admission_ok_def)
  then show ?thesis by (rule service_inv_put_same [OF assms(1,2)]) (simp_all add: same prepared_units_def)
qed

lemma freeze_state_inv:
  assumes "service_inv R sv" "hm_get (os_entries sv) (mp_object p) = Some e" "oe_state e \<noteq> None"
  shows "service_inv R (fst (freeze_state frz p (e\<lparr>oe_lifecycle := LcFreezing m x\<rparr>) sv))"
proof -
  obtain es where es: "oe_state e = Some es" using assms(3) by auto
  obtain es' r where frz: "frz es = (es', r)" by (cases "frz es")
  let ?e = "e\<lparr>oe_lifecycle := LcFreezing m x\<rparr>"
  have a: "service_inv R (put_entry (mp_object p) (?e\<lparr>oe_state := Some es', oe_lifecycle := LcResident\<rparr>) sv)"
    by (rule service_inv_residence [OF assms(1,2)]) (simp_all add: residence_ok_def)
  have b: "service_inv R (put_entry (mp_object p) (?e\<lparr>oe_state := Some es', oe_snapshot_bytes := n\<rparr>) sv)" for n
    by (rule service_inv_residence [OF assms(1,2)]) (simp_all add: residence_ok_def)
  show ?thesis
    using a b by (simp add: freeze_state_def es frz Let_def split: sum.split fault.split)
qed

lemma freeze_migration_inv:
  assumes inv: "service_inv R sv"
  shows "service_inv R (fst (freeze_migration p now sv))"
proof (cases "entry_for_migration p sv")
  case (Inl err)
  then show ?thesis using inv by (simp add: freeze_migration_def)
next
  case (Inr e)
  note get = entry_for_migration_get [OF Inr]
  have st: "answering e \<Longrightarrow> oe_state e \<noteq> None"
    using service_inv_get [OF inv get] by (auto simp: entry_ok_def residence_ok_def answering_def split: object_lifecycle.splits)
  have res: "service_inv R (fst (freeze_state frz p (e\<lparr>oe_lifecycle := LcFreezing m x\<rparr>) sv))" if "answering e" for frz m x
    by (rule freeze_state_inv [OF inv get st [OF that]])
  have frz: "service_inv R (fst (freeze_state frz p e sv))" if "oe_lifecycle e = LcFreezing m x" for frz m x
  proof -
    have eq: "e\<lparr>oe_lifecycle := LcFreezing m x\<rparr> = e" using that by (intro object_entry.equality) simp_all
    have "answering e" using that by (simp add: answering_def)
    from res [OF this, of frz m x] show ?thesis unfolding eq .
  qed
  show ?thesis
    using inv Inr res frz by (auto simp: freeze_migration_def answering_def split: option.split object_lifecycle.split)
qed

lemma commit_migration_inv:
  assumes inv: "service_inv R sv"
  shows "service_inv R (fst (commit_migration p now sv))"
proof (cases "entry_for_migration p sv")
  case (Inl err)
  then show ?thesis using inv by (simp add: commit_migration_def)
next
  case (Inr e)
  have "service_inv R (put_entry (mp_object p) (e\<lparr>oe_location := mp_from p, oe_lifecycle := LcForwarding (mp_from p) n\<rparr>) sv)" for n
    by (rule service_inv_residence [OF inv entry_for_migration_get [OF Inr]]) (simp_all add: residence_ok_def)
  then show ?thesis using inv Inr by (simp add: commit_migration_def)
qed

lemma retire_migration_inv:
  assumes inv: "service_inv R sv"
  shows "service_inv R (fst (retire_migration p now sv))"
proof (cases "entry_for_migration p sv")
  case (Inl err)
  then show ?thesis using inv by (simp add: retire_migration_def)
next
  case (Inr e)
  have "service_inv R (put_entry (mp_object p) (e\<lparr>oe_state := None, oe_snapshot_bytes := 0, oe_location := mp_from p,
      oe_lifecycle := LcForwarding (mp_from p) n\<rparr>) sv)" for n
    by (rule service_inv_residence [OF inv entry_for_migration_get [OF Inr]]) (simp_all add: residence_ok_def)
  then show ?thesis using inv Inr by (simp add: retire_migration_def collect_inv)
qed

lemma activate_migration_inv:
  assumes inv: "service_inv R sv"
  shows "service_inv R (fst (activate_migration p sv))"
proof (cases "\<exists>e q. entry_for_migration p sv = Ok e \<and> oe_prepared e = Some q")
  case False
  then show ?thesis using inv by (auto simp: activate_migration_def split: sum.split option.split)
next
  case True
  then obtain e q where e: "entry_for_migration p sv = Ok e" "oe_prepared e = Some q" by blast
  note get = entry_for_migration_get [OF e(1)]
  note ok = service_inv_get [OF inv get]
  have c: "counters_ok sv" "hm_wf (os_entries sv)" using inv by (simp_all add: service_inv_def)
  have "prepared_units e \<le> os_prepared_count sv"
    using hm_sum_ge [OF c(2) get, of prepared_units] c(1) by (simp add: counters_ok_def)
  then have u: "0 < os_prepared_count sv" using e(2) by (simp add: prepared_units_def)
  have drop: "service_inv R (put_entry (mp_object p) (e\<lparr>oe_prepared := None\<rparr>) (sv\<lparr>os_prepared_count := fetch_dec (os_prepared_count sv)\<rparr>))"
  proof -
    have "service_inv R (put_entry (mp_object p) (e\<lparr>oe_prepared := None\<rparr>) (sv\<lparr>os_root_count := os_root_count sv,
        os_prepared_count := fetch_dec (os_prepared_count sv), os_placement_count := os_placement_count sv\<rparr>))"
      using ok c(1) u e(2)
      by (intro service_inv_put [OF inv get]) (auto simp: entry_ok_def counters_ok_def fetch_dec_def prepared_units_def)
    then show ?thesis by simp
  qed
  let ?sv = "put_entry (mp_object p) (e\<lparr>oe_prepared := None\<rparr>) (sv\<lparr>os_prepared_count := fetch_dec (os_prepared_count sv)\<rparr>)"
  have get': "hm_get (os_entries ?sv) (mp_object p) = Some (e\<lparr>oe_prepared := None\<rparr>)" using c(2) by simp
  have "service_inv R (put_entry (mp_object p) (e\<lparr>oe_prepared := None, oe_location := pp_location q, oe_state := Some (pp_state q),
      oe_snapshot_bytes := pp_snapshot_bytes q, oe_lifecycle := LcResident\<rparr>) ?sv)"
    by (rule service_inv_residence [OF drop get']) (simp_all add: residence_ok_def)
  then show ?thesis
    using drop e by (auto simp: activate_migration_def Let_def)
qed

lemma rollback_migration_inv:
  assumes inv: "service_inv R sv"
  shows "service_inv R (fst (rollback_migration p sv))"
proof (cases "hm_get (os_entries sv) (mp_object p)")
  case None
  then show ?thesis using inv by (simp add: rollback_migration_def)
next
  case (Some e)
  note ok = service_inv_get [OF inv Some]
  define mine where "mine = (case oe_prepared e of None \<Rightarrow> False | Some q \<Rightarrow> pp_migration q = mp_migration p)"
  define sv1 where "sv1 = (if mine then sv\<lparr>os_prepared_count := fetch_dec (os_prepared_count sv)\<rparr> else sv)"
  define e1 where "e1 = (if mine then e\<lparr>oe_prepared := None\<rparr> else e)"
  define e2 where "e2 = (case oe_lifecycle e1 of
      LcFreezing m x \<Rightarrow> if m = mp_migration p then e1\<lparr>oe_lifecycle := LcResident, oe_snapshot_bytes := 0\<rparr> else e1 | _ \<Rightarrow> e1)"
  have c: "counters_ok sv" "hm_wf (os_entries sv)" using inv by (simp_all add: service_inv_def)
  have le: "prepared_units e \<le> os_prepared_count sv"
    using hm_sum_ge [OF c(2) Some, of prepared_units] c(1) by (simp add: counters_ok_def)
  have one: "mine \<Longrightarrow> prepared_units e = 1" by (auto simp: mine_def prepared_units_def split: option.splits)
  have "entry_ok (os_local_id sv) (os_limits sv) (os_registry sv) R (mp_object p) e1" using ok by (simp add: e1_def entry_ok_def)
  then have inv1: "service_inv R (put_entry (mp_object p) e1 (sv\<lparr>os_root_count := os_root_count sv,
      os_prepared_count := os_prepared_count sv1, os_placement_count := os_placement_count sv\<rparr>))"
    using c(1) le one by (intro service_inv_put [OF inv Some]) (auto simp: counters_ok_def fetch_dec_def sv1_def e1_def)
  have sv1: "service_inv R (put_entry (mp_object p) e1 sv1)"
    using inv1 by (subst service_eqI [of _ "put_entry (mp_object p) e1 (sv\<lparr>os_root_count := os_root_count sv,
      os_prepared_count := os_prepared_count sv1, os_placement_count := os_placement_count sv\<rparr>)"]) (simp_all add: sv1_def)
  have get1: "hm_get (os_entries (put_entry (mp_object p) e1 sv1)) (mp_object p) = Some e1"
    using c(2) by (simp add: sv1_def)
  have "residence_ok e1" using ok by (simp add: e1_def entry_ok_def)
  then have "residence_ok e2" by (auto simp: e2_def residence_ok_def split: object_lifecycle.splits)
  then have "service_inv R (put_entry (mp_object p) e2 (put_entry (mp_object p) e1 sv1))"
    by (rule service_inv_residence [OF sv1 get1]) (auto simp: e2_def split: object_lifecycle.splits)
  moreover have "rollback_migration p sv = (put_entry (mp_object p) e2 sv1, Ok p)"
    by (simp only: rollback_migration_def Some option.case Let_def e2_def e1_def sv1_def mine_def)
  ultimately show ?thesis by simp
qed

lemma release_prepared_inv:
  assumes "service_inv R sv"
  shows "service_inv R ((sv\<lparr>os_prepared_count := os_prepared_count sv + 1\<rparr>)\<lparr>os_prepared_count := fetch_dec (os_prepared_count sv + 1)\<rparr>)"
  using assms by (subst service_eqI [of _ sv]) (simp_all add: fetch_dec_def)

lemma prepare_entry_cases:
  "hm_get (os_entries sv) (mp_object p) = Some e \<Longrightarrow> prepare_entry p now sv = e"
  "hm_get (os_entries sv) (mp_object p) = None \<Longrightarrow> oe_prepared (prepare_entry p now sv) = None"
  by (simp_all add: prepare_entry_def)

text \<open>The permit is still held: one more prepared state is counted than the entries have.\<close>

lemma prepare_install_inv:
  assumes inv: "service_inv R sv" and "os_prepared_count sv < ol_max_prepared_migrations (os_limits sv)"
    and "hm_get (or_types (os_registry sv)) (mp_object_type p) \<noteq> None"
  shows "service_inv R (fst (prepare_install p location n restored now (sv\<lparr>os_prepared_count := os_prepared_count sv + 1\<rparr>)))"
proof -
  let ?obj = "mp_object p"
  let ?sv = "sv\<lparr>os_prepared_count := os_prepared_count sv + 1\<rparr>"
  let ?ttl = "ol_forwarding_ttl (os_limits sv)"
  let ?q = "\<lparr>pp_migration = mp_migration p, pp_location = location, pp_state = restored, pp_snapshot_bytes = n, pp_expires_at = now + ?ttl\<rparr>"
  note undone = release_prepared_inv [OF inv]
  have c: "counters_ok sv" "hm_wf (os_entries sv)" using inv by (simp_all add: service_inv_def)
  show ?thesis
  proof (cases "hm_get (os_entries sv) ?obj")
    case None
    let ?e = "prepare_entry p now ?sv"
    show ?thesis
    proof (cases "ol_max_objects (os_limits sv) \<le> hm_len (os_entries sv)")
      case True
      then show ?thesis using undone None by (simp add: prepare_install_def)
    next
      case False
      have "entry_ok (os_local_id sv) (os_limits sv) (os_registry sv) {#} ?obj (?e\<lparr>oe_prepared := Some ?q\<rparr>)"
        using None assms(3) inv
        by (simp add: prepare_entry_def entry_ok_def admission_ok_def residence_ok_def admission_new_def running_reads_def
            running_writes_def running_placements_def hm_len_def)
      then have "service_inv R (put_entry ?obj (?e\<lparr>oe_prepared := Some ?q\<rparr>) (sv\<lparr>os_root_count := os_root_count sv,
          os_prepared_count := os_prepared_count sv + 1\<rparr>))"
        using None False assms(2) c(1) by (intro service_inv_insert [OF inv]) (auto simp: counters_ok_def prepare_entry_def prepared_units_def)
      then show ?thesis
        using None False by (simp add: prepare_install_def prepare_entry_cases Let_def) (simp add: prepare_entry_def)
    qed
  next
    case (Some e)
    note ok = service_inv_get [OF inv Some]
    have same: "service_inv R ((put_entry ?obj e ?sv)\<lparr>os_prepared_count := fetch_dec (os_prepared_count sv + 1)\<rparr>)"
    proof -
      have "service_inv R (put_entry ?obj e sv)" using ok by (intro service_inv_put_same [OF inv Some]) simp_all
      then show ?thesis by (subst service_eqI [of _ "put_entry ?obj e sv"]) (simp_all add: fetch_dec_def)
    qed
    have "service_inv R (put_entry ?obj (e\<lparr>oe_prepared := Some ?q\<rparr>) (sv\<lparr>os_root_count := os_root_count sv,
        os_prepared_count := os_prepared_count sv + 1, os_placement_count := os_placement_count sv\<rparr>))"
      if "oe_prepared e = None"
      using ok c(1) assms(2) that
      by (intro service_inv_put [OF inv Some]) (auto simp: entry_ok_def counters_ok_def prepared_units_def)
    then show ?thesis
      using Some same by (auto simp: prepare_install_def prepare_entry_def Let_def split: option.split)
  qed
qed

lemma prepare_migration_inv:
  assumes inv: "service_inv R sv"
  shows "service_inv R (fst (prepare_migration p now sv))"
proof -
  let ?sv1 = "sv\<lparr>os_prepared_count := os_prepared_count sv + 1\<rparr>"
  have undone: "service_inv R (?sv1\<lparr>os_prepared_count := fetch_dec (os_prepared_count ?sv1)\<rparr>)"
    using release_prepared_inv [OF inv] by simp
  have undone_slot: "service_inv R ((?sv1\<lparr>os_next_slot := s\<rparr>)\<lparr>os_prepared_count := fetch_dec (os_prepared_count ?sv1)\<rparr>)" for s
    using inv by (subst service_eqI [of _ sv]) (simp_all add: fetch_dec_def)
  have install: "service_inv R (fst (prepare_install p location n restored now (?sv1\<lparr>os_next_slot := s\<rparr>)))"
    if "os_prepared_count sv < ol_max_prepared_migrations (os_limits sv)" "hm_get (or_types (os_registry sv)) (mp_object_type p) \<noteq> None"
    for location n restored s
  proof -
    have eq: "(sv\<lparr>os_next_slot := s\<rparr>)\<lparr>os_prepared_count := os_prepared_count (sv\<lparr>os_next_slot := s\<rparr>) + 1\<rparr> = ?sv1\<lparr>os_next_slot := s\<rparr>"
      by (rule object_service.equality) simp_all
    have "service_inv R (fst (prepare_install p location n restored now
        ((sv\<lparr>os_next_slot := s\<rparr>)\<lparr>os_prepared_count := os_prepared_count (sv\<lparr>os_next_slot := s\<rparr>) + 1\<rparr>)))"
      by (rule prepare_install_inv [OF service_inv_field(1) [OF inv]]) (use that in simp_all)
    then show ?thesis unfolding eq .
  qed
  show ?thesis
    using inv undone undone_slot install
    by (auto simp: prepare_migration_def Let_def split: sum.split option.split)
qed

lemma migration_run_inv:
  assumes "service_inv R sv" "\<And>p. service_inv R (fst (f p sv))"
  shows "service_inv R (fst (migration_run f ss sv))"
proof -
  have "service_inv R sv'" if "f p sv = (sv', x)" for p sv' x using assms(2) [of p] that by simp
  then show ?thesis using assms(1) by (auto simp: migration_run_def split: sum.split prod.split)
qed

lemma service_run_inv:
  assumes "service_inv R sv"
  shows "service_inv R (fst (service_run h ss now sv))"
  using assms
  by (cases h) (auto simp: lease_handlers_inv create_run_inv action_run_inv freeze_migration_inv prepare_migration_inv
      commit_migration_inv activate_migration_inv rollback_migration_inv retire_migration_inv
      intro!: migration_run_inv split: option.split)

subsection \<open>Runs of the service\<close>

datatype ('v, 's, 't, 'm, 'a, 'o) svc_op =
  SoCreate object_id object_type_id domain_id 's locality_id bool instant
| SoHandle service_handler segments instant
| SoAdmit action_id "'v action_job" bool instant
| SoComplete object_job
| SoRetry usize "domain_id \<Rightarrow> bool"
| SoRead "('t, 'm, 's) object_type" "('a, 'o, 't) read_action" object_id object_type_id object_location 'a
| SoWrite "('t, 'm, 's) object_type" "('a, 'o, 't) write_action" object_id object_type_id object_location 'a
| SoExpire instant
| SoCache object_id object_location
| SoBegin request_id
| SoFinish request_id migration_outcome usize
| SoRetire "retirement \<Rightarrow> bool" usize
| SoClear

text \<open>One operation on the service and the running jobs.\<close>

fun svc_do :: "('v, 's, 't, 'm, 'a, 'o) svc_op \<Rightarrow> ('v, 's) object_service \<times> running \<Rightarrow> ('v, 's) object_service \<times> running" where
  "svc_do (SoCreate obj t d v k rooted now) (sv, R) = (fst (create_local obj t d v k rooted now sv), R)"
| "svc_do (SoHandle h ss now) (sv, R) = (fst (service_run h ss now sv), R)"
| "svc_do (SoAdmit a job da now) (sv, R) = (fst (admit a job da now sv), admitted (snd (admit a job da now sv)) + R)"
| "svc_do (SoComplete j) (sv, R) = (fst (service_complete j sv), R - {#j#})"
| "svc_do (SoRetry room da) (sv, R) =
     (case retry_ready room da sv of (sv', Inr js) \<Rightarrow> (sv', job_marks js + R) | (sv', Inl _) \<Rightarrow> (sv', R))"
| "svc_do (SoRead T A obj t l a) (sv, R) = (fst (call_read_local T A obj t l a sv), R)"
| "svc_do (SoWrite T A obj t l a) (sv, R) = (fst (call_write_local T A obj t l a sv), R)"
| "svc_do (SoExpire now) (sv, R) = (expire now sv, R)"
| "svc_do (SoCache obj l) (sv, R) = (cache_location obj l sv, R)"
| "svc_do (SoBegin m) (sv, R) = (fst (begin_migration m sv), R)"
| "svc_do (SoFinish m outcome n) (sv, R) = (finish_migration m outcome n sv, R)"
| "svc_do (SoRetire sent limit) (sv, R) = (retire_pass sent limit sv, R)"
| "svc_do SoClear (sv, R) = (clear_all sv, R)"

text \<open>
  What a run is asked to respect. Jobs come to \<open>admit\<close> without an object mark, only running jobs complete, and the
  store is cleared once nothing runs: the runtime does so. A retirement pass finds the objects it takes still retiring and without a prepared
  state. This the code does not check: a prepare request that comes for a retiring object makes it untrue
  (\<open>retirement_drops_prepared_state\<close> in \<open>ObjectProps\<close>).
\<close>

definition still_retiring :: "('v, 's) object_service \<Rightarrow> retirement \<Rightarrow> bool" where
  "still_retiring sv r =
     (case hm_get (os_entries sv) (rt_object r) of
        None \<Rightarrow> True
      | Some e \<Rightarrow> (\<exists>l. oe_lifecycle e = LcRetiring l) \<and> oe_prepared e = None)"

fun svc_apt :: "('v, 's, 't, 'm, 'a, 'o) svc_op \<Rightarrow> ('v, 's) object_service \<times> running \<Rightarrow> bool" where
  "svc_apt (SoAdmit a job da now) (sv, R) \<longleftrightarrow> aj_object job = None"
| "svc_apt (SoComplete j) (sv, R) \<longleftrightarrow> j \<in># R"
| "svc_apt (SoRetire sent limit) (sv, R) \<longleftrightarrow> list_all (still_retiring sv) (take limit (os_retirements sv))"
| "svc_apt SoClear (sv, R) \<longleftrightarrow> R = {#}"
| "svc_apt p (sv, R) \<longleftrightarrow> True"

fun svc_run :: "('v, 's, 't, 'm, 'a, 'o) svc_op list \<Rightarrow> ('v, 's) object_service \<times> running \<Rightarrow> ('v, 's) object_service \<times> running" where
  "svc_run [] s = s"
| "svc_run (p # ps) s = svc_run ps (svc_do p s)"

fun svc_apt_run :: "('v, 's, 't, 'm, 'a, 'o) svc_op list \<Rightarrow> ('v, 's) object_service \<times> running \<Rightarrow> bool" where
  "svc_apt_run [] s \<longleftrightarrow> True"
| "svc_apt_run (p # ps) s \<longleftrightarrow> svc_apt p s \<and> svc_apt_run ps (svc_do p s)"

lemma begin_finish_inv:
  assumes "service_inv R sv"
  shows "service_inv R (fst (begin_migration m sv))" "service_inv R (finish_migration m outcome n sv)"
proof -
  show "service_inv R (fst (begin_migration m sv))"
    using assms by (auto simp: begin_migration_def service_inv_def counters_ok_def transfers_ok_def)
  have "length (filter (\<lambda>x. x \<noteq> m) (os_active_migrations sv)) \<le> ol_max_migrations (os_limits sv)"
    by (rule le_trans [OF length_filter_le]) (use assms in \<open>simp add: service_inv_def\<close>)
  then show "service_inv R (finish_migration m outcome n sv)"
    using assms by (auto simp: finish_migration_def Let_def service_inv_def counters_ok_def transfers_ok_def split: migration_outcome.split)
qed

lemma retirements_inv:
  "service_inv R sv \<Longrightarrow> length rs \<le> ol_max_migrations (os_limits sv) \<Longrightarrow> service_inv R (sv\<lparr>os_retirements := rs\<rparr>)"
  by (simp add: service_inv_def counters_ok_def transfers_ok_def)

lemma finish_retirement_inv:
  assumes "service_inv R sv" "still_retiring sv r"
  shows "service_inv R (finish_retirement (rt_object r) sv)"
proof (cases "hm_get (os_entries sv) (rt_object r)")
  case None
  then have "hm_remove (rt_object r) (os_entries sv) = os_entries sv"
    by (simp add: hm_remove_def hm_get_def delete_id)
  then show ?thesis
    unfolding finish_retirement_def using assms(1) by (subst service_eqI [of _ sv]) (simp_all add: forget_entry_def)
next
  case (Some e)
  then obtain l where "oe_lifecycle e = LcRetiring l" "oe_prepared e = None" using assms(2) by (auto simp: still_retiring_def)
  then show ?thesis
    unfolding finish_retirement_def using service_inv_get [OF assms(1) Some]
    by (intro service_inv_forget [OF assms(1) Some]) (simp_all add: entry_ok_def residence_ok_def)
qed

lemma retire_loop_inv:
  "service_inv R sv \<Longrightarrow> list_all (still_retiring sv) rs \<Longrightarrow>
     length (os_retirements sv) + length rs \<le> ol_max_migrations (os_limits sv) \<Longrightarrow> service_inv R (retire_loop sent rs sv)"
proof (induction rs arbitrary: sv)
  case (Cons r rs)
  let ?sv = "finish_retirement (rt_object r) sv"
  have "service_inv R ?sv" by (rule finish_retirement_inv [OF Cons.prems(1)]) (use Cons.prems(2) in simp)
  moreover have "hm_wf (os_entries sv)" using Cons.prems(1) by (simp add: service_inv_def)
  then have "list_all (still_retiring ?sv) rs"
    using Cons.prems(2) by (auto simp: list_all_iff still_retiring_def finish_retirement_def forget_entry_def)
  moreover have "os_retirements ?sv = os_retirements sv" "os_limits ?sv = os_limits sv"
    by (simp_all add: finish_retirement_def forget_entry_def)
  ultimately have "service_inv R (retire_loop sent rs ?sv)" using Cons.IH Cons.prems(3) by simp
  moreover have "service_inv R (requeue_retirement r sv)"
    unfolding requeue_retirement_def using Cons.prems by (intro retirements_inv) simp_all
  ultimately show ?case by simp
qed simp

lemma retire_pass_inv:
  assumes "service_inv R sv" "list_all (still_retiring sv) (take limit (os_retirements sv))"
  shows "service_inv R (retire_pass sent limit sv)"
proof -
  let ?sv = "sv\<lparr>os_retirements := drop limit (os_retirements sv)\<rparr>"
  have len: "length (os_retirements sv) \<le> ol_max_migrations (os_limits sv)" using assms(1) by (simp add: service_inv_def)
  have "service_inv R ?sv" using assms(1) len by (intro retirements_inv) simp_all
  moreover have "still_retiring ?sv = still_retiring sv" by (auto simp: still_retiring_def)
  ultimately show ?thesis
    unfolding retire_pass_def using assms(2) len
    by (auto simp: take_retirements_def intro!: retire_loop_inv)
qed

lemma clear_all_inv: "service_inv {#} sv \<Longrightarrow> service_inv {#} (clear_all sv)"
  by (simp add: clear_all_def) (simp add: service_inv_def counters_ok_def transfers_ok_def hm_len_def)

lemma svc_do_inv: "service_inv R sv \<Longrightarrow> svc_apt p (sv, R) \<Longrightarrow> svc_do p (sv, R) = (sv', R') \<Longrightarrow> service_inv R' sv'"
proof (cases p)
  case (SoComplete j)
  moreover assume "service_inv R sv" "svc_apt p (sv, R)" "svc_do p (sv, R) = (sv', R')"
  ultimately show ?thesis
    using service_complete_inv [of j "R - {#j#}" sv] by auto
next
  case (SoRetry room da)
  moreover assume "service_inv R sv" "svc_do p (sv, R) = (sv', R')"
  ultimately show ?thesis using retry_ready_inv [of R sv room da] by auto
qed (auto simp: create_local_inv service_run_inv admit_inv call_read_local_inv call_write_local_inv expire_inv
    begin_finish_inv retire_pass_inv clear_all_inv)

lemma svc_run_inv: "service_inv R sv \<Longrightarrow> svc_apt_run ps (sv, R) \<Longrightarrow> svc_run ps (sv, R) = (sv', R') \<Longrightarrow> service_inv R' sv'"
proof (induction ps arbitrary: sv R)
  case (Cons p ps)
  obtain sv1 R1 where "svc_do p (sv, R) = (sv1, R1)" by (cases "svc_do p (sv, R)")
  with Cons svc_do_inv show ?case by fastforce
qed simp

lemma object_service_new_inv:
  "handlers_ok reg \<Longrightarrow> object_limits_validate l = Ok l \<Longrightarrow> service_inv {#} (object_service_new run me l reg)"
  by (auto simp: service_inv_def object_service_new_def counters_ok_def transfers_ok_def object_limits_validate_def hm_len_def
      split: if_splits)

end
