(* ===== verification/Leases.thy ===== *)
theory Leases
  imports Migration
begin

text \<open>
  The leases a locality holds on objects elsewhere (\<open>LocalLease\<close> and \<open>LocalLeaseManager\<close> of
  \<open>crates/hataori-runtime/src/object.rs\<close>) and the control messages about them (\<open>object_control\<close> of
  \<open>runtime.rs\<close>). All handles a locality has on one object share one lease, an \<open>Arc\<close> whose strong
  count is a field of the lease in a store; the manager keeps weak references, addresses of that store.
\<close>

record local_lease =
  ll_object :: object_id
  ll_object_type :: object_type_id
  ll_location :: object_location
  ll_active :: bool
  ll_next_renewal :: instant
  ll_strong :: nat

type_synonym lease_addr = nat

record lease_manager =
  lm_limit :: usize
  lm_renew_interval :: duration
  lm_entries :: "(object_id, lease_addr) hmap"
  lm_leases :: "local_lease list"

definition lease_manager_new :: "usize \<Rightarrow> duration \<Rightarrow> lease_manager" where
  "lease_manager_new limit renew_interval =
     \<lparr>lm_limit = limit, lm_renew_interval = renew_interval, lm_entries = [], lm_leases = []\<rparr>"

definition local_lease_new :: "object_id \<Rightarrow> object_type_id \<Rightarrow> object_location \<Rightarrow> instant \<Rightarrow> duration \<Rightarrow> local_lease" where
  "local_lease_new obj object_type location now renew_interval =
     \<lparr>ll_object = obj, ll_object_type = object_type, ll_location = location, ll_active = True,
      ll_next_renewal = now + renew_interval, ll_strong = 1\<rparr>"

text \<open>\<open>Weak::upgrade\<close> finds the lease while somebody holds it.\<close>

definition upgrades :: "lease_manager \<Rightarrow> lease_addr \<Rightarrow> bool" where
  "upgrades m a \<longleftrightarrow> ll_strong (lm_leases m ! a) \<noteq> 0"

definition lease_clone :: "lease_addr \<Rightarrow> lease_manager \<Rightarrow> lease_manager" where
  "lease_clone a m =
     m\<lparr>lm_leases := (lm_leases m)[a := (lm_leases m ! a)\<lparr>ll_strong := ll_strong (lm_leases m ! a) + 1\<rparr>]\<rparr>"

definition attach ::
  "object_id \<Rightarrow> object_type_id \<Rightarrow> object_location \<Rightarrow> instant \<Rightarrow> lease_manager
     \<Rightarrow> lease_manager \<times> (runtime_error, lease_addr) result"
where
  "attach obj object_type location now m =
     (let existing = (case hm_get (lm_entries m) obj of None \<Rightarrow> None | Some a \<Rightarrow> if upgrades m a then Some a else None) in
      case existing of
        Some a \<Rightarrow> (lease_clone a m, Ok a)
      | None \<Rightarrow>
          (let live = filter (\<lambda>p. upgrades m (snd p)) (lm_entries m) in
           if lm_limit m \<le> hm_len live
           then (m\<lparr>lm_entries := live\<rparr>, Err (ReResourceExhausted RkLocalityLeases (lm_limit m)))
           else (m\<lparr>lm_entries := hm_insert obj (length (lm_leases m)) live,
                   lm_leases := lm_leases m @ [local_lease_new obj object_type location now (lm_renew_interval m)]\<rparr>,
                 Ok (length (lm_leases m)))))"

text \<open>The body of the closure of \<open>due\<close> for one lease that can be upgraded.\<close>

definition is_due :: "instant \<Rightarrow> local_lease \<Rightarrow> bool" where
  "is_due now l \<longleftrightarrow> ll_active l \<and> ll_next_renewal l \<le> now"

fun due_loop :: "instant \<Rightarrow> (object_id \<times> lease_addr) list \<Rightarrow> lease_manager \<Rightarrow> lease_manager \<times> lease_addr list" where
  "due_loop now [] m = (m, [])"
| "due_loop now ((obj, a) # es) m =
     (let l = lm_leases m ! a in
      if is_due now l
      then (case due_loop now es (m\<lparr>lm_leases := (lm_leases m)[a := l\<lparr>ll_next_renewal := now + lm_renew_interval m\<rparr>]\<rparr>) of
              (m', ds) \<Rightarrow> (m', a # ds))
      else due_loop now es m)"

definition due :: "instant \<Rightarrow> lease_manager \<Rightarrow> lease_manager \<times> lease_addr list" where
  "due now m =
     (let live = filter (\<lambda>p. upgrades m (snd p)) (lm_entries m) in due_loop now live (m\<lparr>lm_entries := live\<rparr>))"

text \<open>
  \<open>active.swap(false)\<close> of \<open>deactivate\<close> and \<open>drop\<close>: whether the lease has to be released. Dropping a
  handle drops the lease with the last one.
\<close>

definition lease_deactivate :: "lease_addr \<Rightarrow> lease_manager \<Rightarrow> lease_manager \<times> bool" where
  "lease_deactivate a m =
     (m\<lparr>lm_leases := (lm_leases m)[a := (lm_leases m ! a)\<lparr>ll_active := False\<rparr>]\<rparr>, ll_active (lm_leases m ! a))"

definition lease_drop :: "lease_addr \<Rightarrow> lease_manager \<Rightarrow> lease_manager \<times> bool" where
  "lease_drop a m =
     (let l = lm_leases m ! a;
          m' = m\<lparr>lm_leases := (lm_leases m)[a := l\<lparr>ll_strong := ll_strong l - 1\<rparr>]\<rparr> in
      if ll_strong l = 1 then lease_deactivate a m' else (m', False))"

fun deactivate_all :: "lease_addr list \<Rightarrow> lease_manager \<Rightarrow> lease_manager \<times> lease_addr list" where
  "deactivate_all [] m = (m, [])"
| "deactivate_all (a # as) m =
     (case lease_deactivate a m of
        (m', released) \<Rightarrow> (case deactivate_all as m' of (m'', rs) \<Rightarrow> (m'', if released then a # rs else rs)))"

text \<open>\<open>clear\<close>: the leases to release are returned.\<close>

definition leases_clear :: "lease_manager \<Rightarrow> lease_manager \<times> lease_addr list" where
  "leases_clear m =
     deactivate_all (filter (upgrades m) (map snd (lm_entries m))) (m\<lparr>lm_entries := []\<rparr>)"

subsection \<open>Control messages\<close>

definition millis_or_max :: "duration \<Rightarrow> u64" where
  "millis_or_max d = (let ms = max (d div 1000000) 1 in if ms < 2 ^ 64 then word_of_nat ms else - 1)"

definition control_message ::
  "request_id \<Rightarrow> action_id \<Rightarrow> object_id \<Rightarrow> object_type_id \<Rightarrow> object_location \<Rightarrow> locality_id \<Rightarrow> duration \<Rightarrow> rt_message"
where
  "control_message request a obj object_type location lease_locality deadline =
     \<lparr>rm_kind = RmRequest, rm_request = request, rm_action = a, rm_domain = loc_domain location,
      rm_deadline_ms = millis_or_max deadline,
      rm_payload = envelope_encode \<lparr>en_object = obj, en_object_type = object_type, en_epoch = loc_epoch location,
        en_lease_locality = lease_locality, en_domain = loc_domain location, en_rooted = False\<rparr> []\<rparr>"

definition object_control ::
  "'n env \<Rightarrow> object_id \<Rightarrow> object_type_id \<Rightarrow> object_location \<Rightarrow> locality_id \<Rightarrow> u128 \<Rightarrow> instant
     \<Rightarrow> ('v, 'n) shared \<times> ('v, 's) object_service \<Rightarrow> ('v, 'n) shared \<times> ('v, 's) object_service"
where
  "object_control env obj object_type location lease_locality raw_action now = (\<lambda>(sh, os).
     (if loc_locality location = sh_local_id sh
      then (sh,
        if raw_action = LEASE_RENEW_ACTION_ID then fst (renew obj lease_locality now os)
        else if raw_action = ROOT_RELEASE_ACTION_ID then fst (release_root obj os)
        else if raw_action = TRANSFER_ACK_ACTION_ID then fst (ack_transfer obj lease_locality os)
        else fst (release obj lease_locality os))
      else (case next_request sh of
          (sh1, Inl _) \<Rightarrow> (sh1, os)
        | (sh1, Inr request) \<Rightarrow>
            (case nonzero_u128_id ''ActionId'' raw_action of
               Inl _ \<Rightarrow> (sh1, os)
             | Inr a \<Rightarrow>
                 (fst (sh_send env (loc_locality location)
                    (control_message request a obj object_type location lease_locality (rl_default_deadline (sh_limits sh1)))
                    TpBestEffort None sh1), os)))))"

subsection \<open>One lease per object, renewed on time\<close>

definition leases_ok :: "lease_manager \<Rightarrow> bool" where
  "leases_ok m \<longleftrightarrow> hm_wf (lm_entries m) \<and> hm_len (lm_entries m) \<le> lm_limit m
     \<and> (\<forall>obj a. hm_get (lm_entries m) obj = Some a \<longrightarrow> a < length (lm_leases m) \<and> ll_object (lm_leases m ! a) = obj)
     \<and> (\<forall>a < length (lm_leases m). ll_active (lm_leases m ! a) \<longrightarrow>
          ll_strong (lm_leases m ! a) \<noteq> 0 \<and> hm_get (lm_entries m) (ll_object (lm_leases m ! a)) = Some a)"

datatype lease_op =
  LoAttach object_id object_type_id object_location instant
| LoClone lease_addr
| LoDrop lease_addr
| LoDue instant
| LoClear

text \<open>Only a handle that exists is cloned or dropped.\<close>

fun lease_do :: "lease_op \<Rightarrow> lease_manager \<Rightarrow> lease_manager" where
  "lease_do (LoAttach obj t l now) m = fst (attach obj t l now m)"
| "lease_do (LoClone a) m = (if a < length (lm_leases m) \<and> upgrades m a then lease_clone a m else m)"
| "lease_do (LoDrop a) m = (if a < length (lm_leases m) \<and> upgrades m a then fst (lease_drop a m) else m)"
| "lease_do (LoDue now) m = fst (due now m)"
| "lease_do LoClear m = fst (leases_clear m)"

lemma hm_filter:
  assumes "hm_wf m"
  shows "hm_wf (filter P m)" "hm_len (filter P m) \<le> hm_len m"
    "hm_get (filter P m) k = (case hm_get m k of None \<Rightarrow> None | Some v \<Rightarrow> if P (k, v) then Some v else None)"
proof -
  show "hm_wf (filter P m)" using assms by (induction m) (auto simp: hm_wf_def)
  show "hm_len (filter P m) \<le> hm_len m" unfolding hm_len_def by (rule length_filter_le)
  show "hm_get (filter P m) k = (case hm_get m k of None \<Rightarrow> None | Some v \<Rightarrow> if P (k, v) then Some v else None)"
    using assms by (induction m) (auto simp: hm_wf_def hm_get_def map_of_eq_None_iff split: option.splits)
qed

lemma leases_ok_filter: "leases_ok m \<Longrightarrow> leases_ok (m\<lparr>lm_entries := filter (\<lambda>p. upgrades m (snd p)) (lm_entries m)\<rparr>)"
  using hm_filter [of "lm_entries m" "\<lambda>p. upgrades m (snd p)"]
  by (auto simp: leases_ok_def upgrades_def split: option.splits if_splits)

lemma leases_ok_distinct:
  assumes "leases_ok m"
  shows "distinct (map snd (lm_entries m))"
proof -
  have ok: "distinct (map fst (lm_entries m))" "\<forall>p\<in>set (lm_entries m). fst p = ll_object (lm_leases m ! snd p)"
    using assms by (auto simp: leases_ok_def hm_wf_def hm_get_def)
  have "inj_on snd (set (lm_entries m))"
  proof (rule inj_onI)
    fix x y assume "x \<in> set (lm_entries m)" "y \<in> set (lm_entries m)" "snd x = snd y"
    with ok(2) show "x = y" by (simp add: prod_eq_iff)
  qed
  then show ?thesis using ok(1) by (simp add: distinct_map)
qed

lemma leases_ok_update:
  assumes "leases_ok m" "ll_object l = ll_object (lm_leases m ! a)"
    and "ll_active l \<Longrightarrow> ll_strong l \<noteq> 0 \<and> ll_active (lm_leases m ! a)"
  shows "leases_ok (m\<lparr>lm_leases := (lm_leases m)[a := l]\<rparr>)"
  using assms by (cases "a < length (lm_leases m)") (auto simp: leases_ok_def nth_list_update list_update_beyond)

lemma due_loop_ok: "leases_ok m \<Longrightarrow> leases_ok (fst (due_loop now es m))"
proof (induction now es m rule: due_loop.induct)
  case (2 now obj a es m)
  let ?l = "(lm_leases m ! a)\<lparr>ll_next_renewal := now + lm_renew_interval m\<rparr>"
  have "leases_ok (m\<lparr>lm_leases := (lm_leases m)[a := ?l]\<rparr>)"
  proof (cases "a < length (lm_leases m)")
    case True
    then show ?thesis using 2(3) by (intro leases_ok_update) (auto simp: leases_ok_def)
  qed (simp add: list_update_beyond 2(3))
  with 2 show ?case by (auto simp: Let_def split: prod.split)
qed simp

lemma deactivate_all_ok:
  "(\<forall>a < length (lm_leases m). ll_active (lm_leases m ! a) \<longrightarrow> a \<in> set as) \<Longrightarrow>
     lm_entries (fst (deactivate_all as m)) = lm_entries m \<and> lm_limit (fst (deactivate_all as m)) = lm_limit m
     \<and> (\<forall>a < length (lm_leases (fst (deactivate_all as m))). \<not> ll_active (lm_leases (fst (deactivate_all as m)) ! a))"
proof (induction "as" m rule: deactivate_all.induct)
  case (2 b bs m)
  let ?m = "fst (lease_deactivate b m)"
  have "\<forall>a < length (lm_leases ?m). ll_active (lm_leases ?m ! a) \<longrightarrow> a \<in> set bs"
    using 2(2) by (cases "b < length (lm_leases m)") (auto simp: lease_deactivate_def nth_list_update list_update_beyond split: if_splits)
  from 2(1) [of ?m "snd (lease_deactivate b m)", OF _ this] show ?case by (simp add: lease_deactivate_def split_beta)
qed simp

lemma lease_do_ok: "leases_ok m \<Longrightarrow> leases_ok (lease_do op m)"
proof (cases op)
  case (LoAttach obj t l now)
  assume ok: "leases_ok m"
  let ?live = "filter (\<lambda>p. upgrades m (snd p)) (lm_entries m)"
  show ?thesis
  proof (cases "\<exists>a. hm_get (lm_entries m) obj = Some a \<and> upgrades m a")
    case True
    then obtain a where a: "hm_get (lm_entries m) obj = Some a" "upgrades m a" by blast
    have "leases_ok (lease_clone a m)"
      unfolding lease_clone_def using ok by (intro leases_ok_update) simp_all
    with a LoAttach show ?thesis by (simp add: attach_def)
  next
    case False
    then have none: "hm_get ?live obj = None"
      using hm_filter(3) [of "lm_entries m" "\<lambda>p. upgrades m (snd p)" obj] ok by (auto simp: leases_ok_def split: option.splits)
    note f = leases_ok_filter [OF ok]
    have "leases_ok (m\<lparr>lm_entries := hm_insert obj (length (lm_leases m)) ?live,
        lm_leases := lm_leases m @ [local_lease_new obj t l now (lm_renew_interval m)]\<rparr>)" if "\<not> lm_limit m \<le> hm_len ?live"
      using f none that hm.len_put [of ?live obj "length (lm_leases m)"]
      by (auto simp: leases_ok_def nth_append local_lease_new_def hm_get_insert less_Suc_eq split: if_splits)
    with f False LoAttach show ?thesis by (auto simp: attach_def Let_def split: option.split)
  qed
next
  case (LoDue now)
  then show "leases_ok m \<Longrightarrow> ?thesis" using leases_ok_filter due_loop_ok by (simp add: due_def Let_def)
next
  case LoClear
  assume ok: "leases_ok m"
  have "a \<in> set (filter (upgrades m) (map snd (lm_entries m)))" if "a < length (lm_leases m)" "ll_active (lm_leases m ! a)" for a
    using ok that hm_get_mem [of "lm_entries m" "ll_object (lm_leases m ! a)" a] by (auto simp: leases_ok_def upgrades_def hm_values_def)
  then have "\<forall>a < length (lm_leases (m\<lparr>lm_entries := []\<rparr>)). ll_active (lm_leases (m\<lparr>lm_entries := []\<rparr>) ! a) \<longrightarrow>
      a \<in> set (filter (upgrades m) (map snd (lm_entries m)))" by simp
  from deactivate_all_ok [OF this] LoClear show ?thesis by (simp add: leases_clear_def leases_ok_def hm_len_def)
qed (auto simp: lease_clone_def lease_drop_def lease_deactivate_def Let_def upgrades_def intro!: leases_ok_update)

lemma due_loop_result:
  assumes "distinct (map snd es)" "\<forall>a\<in>snd ` set es. a < length (lm_leases m)"
  shows "snd (due_loop now es m) = filter (\<lambda>a. is_due now (lm_leases m ! a)) (map snd es)
    \<and> length (lm_leases (fst (due_loop now es m))) = length (lm_leases m)
    \<and> (\<forall>a. lm_leases (fst (due_loop now es m)) ! a =
         (if a \<in> set (snd (due_loop now es m)) then (lm_leases m ! a)\<lparr>ll_next_renewal := now + lm_renew_interval m\<rparr> else lm_leases m ! a))"
  using assms
proof (induction now es m rule: due_loop.induct)
  case (2 now obj a es m)
  let ?l = "(lm_leases m ! a)\<lparr>ll_next_renewal := now + lm_renew_interval m\<rparr>"
  let ?m = "m\<lparr>lm_leases := (lm_leases m)[a := ?l]\<rparr>"
  have fresh: "a \<notin> snd ` set es" using 2(3) by auto
  show ?case
  proof (cases "is_due now (lm_leases m ! a)")
    case True
    have "filter (\<lambda>b. is_due now (lm_leases ?m ! b)) (map snd es) = filter (\<lambda>b. is_due now (lm_leases m ! b)) (map snd es)"
    proof (rule filter_cong [OF refl])
      fix b assume "b \<in> set (map snd es)"
      then have "b \<noteq> a" using fresh by auto
      then show "is_due now (lm_leases ?m ! b) = is_due now (lm_leases m ! b)" by simp
    qed
    with 2(1) [OF refl True] 2(3,4) fresh True show ?thesis by (auto simp: Let_def nth_list_update split: prod.split)
  next
    case False
    with 2 show ?thesis by (simp add: Let_def)
  qed
qed simp

lemma due_due:
  assumes "leases_ok m"
  shows "distinct (snd (due now m))"
    and "set (snd (due now m)) = {a. a < length (lm_leases m) \<and> is_due now (lm_leases m ! a)}"
    and "lm_leases (fst (due now m)) ! a =
      (if a \<in> set (snd (due now m)) then (lm_leases m ! a)\<lparr>ll_next_renewal := now + lm_renew_interval m\<rparr> else lm_leases m ! a)"
proof -
  let ?live = "filter (\<lambda>p. upgrades m (snd p)) (lm_entries m)"
  let ?m = "m\<lparr>lm_entries := ?live\<rparr>"
  note f = leases_ok_filter [OF assms]
  have inj: "distinct (map snd ?live)" using leases_ok_distinct [OF f] by simp
  have mem: "a \<in> set (map snd ?live) \<longleftrightarrow> (\<exists>obj. hm_get ?live obj = Some a)" for a
    using f hm_get_mem [of ?live] hm_mem_get [of ?live a] by (auto simp: leases_ok_def hm_values_def)
  have bound: "a < length (lm_leases m)" if a: "a \<in> set (map snd ?live)" for a
  proof -
    obtain obj where "hm_get ?live obj = Some a" using a mem by blast
    then show ?thesis using f by (simp add: leases_ok_def)
  qed
  then have "\<forall>a\<in>snd ` set ?live. a < length (lm_leases ?m)" by auto
  note res = due_loop_result [OF inj this, of now]
  have ds: "snd (due now m) = filter (\<lambda>a. is_due now (lm_leases m ! a)) (map snd ?live)" using res by (simp add: due_def Let_def)
  then show "distinct (snd (due now m))" using inj by simp
  have act: "a \<in> set (map snd ?live)" if "a < length (lm_leases m)" "is_due now (lm_leases m ! a)" for a
    unfolding mem using f that by (auto simp: leases_ok_def is_due_def)
  show "set (snd (due now m)) = {a. a < length (lm_leases m) \<and> is_due now (lm_leases m ! a)}"
    unfolding ds using act bound by (auto simp del: set_map)
  show "lm_leases (fst (due now m)) ! a =
      (if a \<in> set (snd (due now m)) then (lm_leases m ! a)\<lparr>ll_next_renewal := now + lm_renew_interval m\<rparr> else lm_leases m ! a)"
    using res by (simp add: due_def Let_def)
qed

lemma lease_do_frame: "lm_limit (lease_do op m) = lm_limit m" "lm_renew_interval (lease_do op m) = lm_renew_interval m"
proof -
  have loop: "lm_limit (fst (due_loop now es m)) = lm_limit m \<and> lm_renew_interval (fst (due_loop now es m)) = lm_renew_interval m" for now es m
    by (induction now es m rule: due_loop.induct) (auto simp: Let_def split: prod.split)
  have all: "lm_limit (fst (deactivate_all xs m)) = lm_limit m \<and> lm_renew_interval (fst (deactivate_all xs m)) = lm_renew_interval m" for xs m
    by (induction xs m rule: deactivate_all.induct) (auto simp: lease_deactivate_def split_beta)
  have att: "lm_limit (fst (attach obj t l now m)) = lm_limit m \<and> lm_renew_interval (fst (attach obj t l now m)) = lm_renew_interval m"
    for obj t l now
    unfolding attach_def Let_def by (cases "hm_get (lm_entries m) obj") (simp_all add: lease_clone_def)
  have "lm_limit (lease_do op m) = lm_limit m \<and> lm_renew_interval (lease_do op m) = lm_renew_interval m"
  proof (cases op)
    case (LoDue now)
    then show ?thesis by (simp add: due_def Let_def loop)
  next
    case LoClear
    then show ?thesis by (simp add: leases_clear_def all)
  qed (simp_all add: att lease_clone_def lease_drop_def lease_deactivate_def Let_def)
  then show "lm_limit (lease_do op m) = lm_limit m" "lm_renew_interval (lease_do op m) = lm_renew_interval m" by simp_all
qed

lemma leases_ok_single:
  assumes "leases_ok m" "a < length (lm_leases m)" "b < length (lm_leases m)" "ll_active (lm_leases m ! a)"
    "ll_active (lm_leases m ! b)" "ll_object (lm_leases m ! a) = ll_object (lm_leases m ! b)"
  shows "a = b"
proof -
  have sole: "\<forall>a < length (lm_leases m). ll_active (lm_leases m ! a) \<longrightarrow> hm_get (lm_entries m) (ll_object (lm_leases m ! a)) = Some a"
    using assms(1) by (simp add: leases_ok_def)
  have "Some a = Some b"
    using sole [rule_format, OF assms(2,4), unfolded assms(6)] sole [rule_format, OF assms(3,5)] by (rule trans [OF sym])
  then show ?thesis by simp
qed

text \<open>
  C29. A locality holds at most one lease on an object, however many handles are cloned and dropped,
  and never more than its limit. A renewal pass at \<open>now\<close> finds each lease in force whose renewal has
  come due, once, and puts it off by the renewal interval; it leaves the others as they are.
\<close>

theorem local_leases_renewed:
  assumes "m = fold lease_do ops (lease_manager_new limit interval)"
  shows "hm_len (lm_entries m) \<le> limit
    \<and> (\<forall>a < length (lm_leases m). \<forall>b < length (lm_leases m). ll_active (lm_leases m ! a) \<and> ll_active (lm_leases m ! b)
          \<and> ll_object (lm_leases m ! a) = ll_object (lm_leases m ! b) \<longrightarrow> a = b)
    \<and> distinct (snd (due now m))
    \<and> set (snd (due now m)) = {a. a < length (lm_leases m) \<and> ll_active (lm_leases m ! a) \<and> ll_next_renewal (lm_leases m ! a) \<le> now}
    \<and> (\<forall>a. lm_leases (fst (due now m)) ! a =
         (if a \<in> set (snd (due now m)) then (lm_leases m ! a)\<lparr>ll_next_renewal := now + interval\<rparr> else lm_leases m ! a))"
proof -
  have "leases_ok (fold lease_do ops m) \<and> lm_limit (fold lease_do ops m) = lm_limit m
      \<and> lm_renew_interval (fold lease_do ops m) = lm_renew_interval m" if "leases_ok m" for m
    using that by (induction ops arbitrary: m) (simp_all add: lease_do_ok lease_do_frame)
  moreover have "leases_ok (lease_manager_new limit interval)" by (simp add: leases_ok_def lease_manager_new_def hm_len_def)
  ultimately have ok: "leases_ok m" "lm_limit m = limit" "lm_renew_interval m = interval"
    using assms by (simp_all add: lease_manager_new_def)
  then have "hm_len (lm_entries m) \<le> limit" by (simp add: leases_ok_def)
  then show ?thesis
    using due_due(2,3) [OF ok(1), of now, unfolded is_due_def ok(3)]
    by (intro conjI allI impI due_due(1) [OF ok(1)]) (simp_all add: leases_ok_single [OF ok(1)])
qed

theorem local_leases_renewed_witness:
  "\<exists>m obj l. m = fold lease_do [LoAttach obj 7 l 0, LoClone 0, LoDrop 0] (lease_manager_new 4 10) \<and> set (snd (due 10 m)) = {0}"
proof -
  define obj :: object_id where "obj = \<lparr>oid_run = 1, oid_unique = 2\<rparr>"
  define l where "l = \<lparr>loc_locality = 2, loc_domain = 0, loc_slot = 1, loc_generation = 1, loc_epoch = 1\<rparr>"
  define m where "m = fold lease_do [LoAttach obj 7 l 0, LoClone 0, LoDrop 0] (lease_manager_new 4 10)"
  have "lm_leases m = [(local_lease_new obj 7 l 0 10)]"
    by (simp add: m_def lease_manager_new_def attach_def hm_get_def hm_len_def upgrades_def lease_clone_def lease_drop_def
        local_lease_new_def Let_def)
  then have "{a. a < length (lm_leases m) \<and> ll_active (lm_leases m ! a) \<and> ll_next_renewal (lm_leases m ! a) \<le> 10} = {0}"
    by (auto simp: local_lease_new_def)
  then have "set (snd (due 10 m)) = {0}" using local_leases_renewed [OF m_def, of 10] by simp
  with m_def show ?thesis by blast
qed

end
