(* ===== verification/Serving.thy ===== *)
theory Serving
  imports Responses ObjectSafety Leases
begin

text \<open>
  The runtime that serves requests (\<open>Runtime\<close> in \<open>crates/hataori-runtime/src/runtime.rs\<close>): how
  the deduplication table, the object service, the execution domains and the owed replies work
  together in \<open>progress\<close>, and the shutdown. Every operation of a handler is the one its component
  defines.

  A handler reads the clock more than once; \<open>clock\<close> gives the time of each reading in turn, and
  \<open>progress\<close> gets one clock for itself and one for every item it handles. The transport driver and
  the texts of errors are arguments.
\<close>

record 'n driver =
  dv_env :: "'n env"
  dv_progress :: "usize \<Rightarrow> 'n \<Rightarrow> 'n \<times> (transport_error, transport_event list \<times> bool) result"
  dv_shutdown :: "duration \<Rightarrow> 'n \<Rightarrow> 'n \<times> (transport_error, transport_event list) result"
  dv_stats :: "'n \<Rightarrow> transport_stats"
  dv_error_text :: "runtime_error \<Rightarrow> bytes"
  dv_wire_text :: "rt_wire_error \<Rightarrow> bytes"
  dv_pair_bytes :: usize

record ('v, 'n, 's) runtime =
  ru_server :: "('v, 'n) server"
  ru_objects :: "('v, 's) object_service"
  ru_domains :: "'v domain_registry"
  ru_leases :: lease_manager
  ru_duplicate_requests :: u64
  ru_local_typed_dispatches :: u64
  ru_local_action_serializations :: u64
  ru_received :: "channel \<Rightarrow> u64"

abbreviation ru_shared :: "('v, 'n, 's) runtime \<Rightarrow> ('v, 'n) shared" where
  "ru_shared rt \<equiv> sv_shared (ru_server rt)"

text \<open>A change of the replies owed, and of the part shared with the callers.\<close>

definition on_server ::
  "(('v, 'n) server \<Rightarrow> ('v, 'n) server \<times> 'r) \<Rightarrow> ('v, 'n, 's) runtime \<Rightarrow> ('v, 'n, 's) runtime \<times> 'r"
where
  "on_server f rt = (case f (ru_server rt) of (sv, r) \<Rightarrow> (rt\<lparr>ru_server := sv\<rparr>, r))"

definition on_shared ::
  "(('v, 'n) shared \<Rightarrow> ('v, 'n) shared \<times> 'r) \<Rightarrow> ('v, 'n, 's) runtime \<Rightarrow> ('v, 'n, 's) runtime \<times> 'r"
where
  "on_shared f = on_server (\<lambda>sv. case f (sv_shared sv) of (sh, r) \<Rightarrow> (sv\<lparr>sv_shared := sh\<rparr>, r))"

definition runtime_fail :: "runtime_error \<Rightarrow> ('v, 'n, 's) runtime \<Rightarrow> ('v, 'n, 's) runtime" where
  "runtime_fail err rt = fst (on_shared (\<lambda>sh. (sh_fail err sh, ())) rt)"

subsection \<open>Requests\<close>

text \<open>A job that was admitted goes to its domain; when the domain refuses it, the admission is undone.\<close>

definition submit_admitted ::
  "'v action_job \<Rightarrow> ('v, 'n, 's) runtime \<Rightarrow> ('v, 'n, 's) runtime \<times> (runtime_error, unit) result"
where
  "submit_admitted job rt =
     (case dom_submit job (ru_domains rt) of
        (ds, Inr _) \<Rightarrow> (rt\<lparr>ru_domains := ds\<rparr>, Ok ())
      | (ds, Inl err) \<Rightarrow>
          (let rt1 = rt\<lparr>ru_domains := ds\<rparr> in
           ((case aj_object job of
               None \<Rightarrow> rt1
             | Some j \<Rightarrow> rt1\<lparr>ru_objects := fst (service_rollback j (ru_objects rt1))\<rparr>), Err err)))"

definition remote_job ::
  "locality_id \<Rightarrow> trace_id option \<Rightarrow> rt_message \<Rightarrow> 'v registered_action \<Rightarrow> flag \<Rightarrow> instant \<Rightarrow> 'v action_job"
where
  "remote_job source trace m handler cancelled now =
     \<lparr>aj_requester = source, aj_request = rm_request m, aj_action_id = rm_action m, aj_domain = rm_domain m,
      aj_trace_id = trace, aj_input = AvEncoded (rm_payload m), aj_handler = handler, aj_cancelled = cancelled,
      aj_local = False, aj_submitted_at = now, aj_object = None\<rparr>"

text \<open>The branch of \<open>handle_request\<close> for a request seen for the first time.\<close>

definition accept_request ::
  "'n driver \<Rightarrow> locality_id \<Rightarrow> trace_id option \<Rightarrow> rt_message \<Rightarrow> flag \<Rightarrow> (nat \<Rightarrow> instant) \<Rightarrow> ('v, 'n, 's) runtime
     \<Rightarrow> ('v, 'n, 's) runtime \<times> (runtime_error, unit) result"
where
  "accept_request dv source trace m cancelled clock rt =
     (case registry_get (sh_registry (ru_shared rt)) (rm_action m) of
        None \<Rightarrow> on_server (send_and_cache_failure source m (lit ''unknown action'') trace) rt
      | Some handler \<Rightarrow>
          (case admit (rm_action m) (remote_job source trace m handler cancelled (clock 1))
                  (can_submit (ru_domains rt) (rm_domain m)) (clock 2) (ru_objects rt) of
             (os, Inl (ReMoved obj location)) \<Rightarrow>
               on_server (send_and_cache_moved source m obj location trace) (rt\<lparr>ru_objects := os\<rparr>)
           | (os, Inl err) \<Rightarrow>
               on_server (send_and_cache_failure source m (dv_error_text dv err) trace) (rt\<lparr>ru_objects := os\<rparr>)
           | (os, Inr None) \<Rightarrow> (rt\<lparr>ru_objects := os\<rparr>, Ok ())
           | (os, Inr (Some job)) \<Rightarrow>
               (case submit_admitted job (rt\<lparr>ru_objects := os\<rparr>) of
                  (rt1, Inr _) \<Rightarrow> (rt1, Ok ())
                | (rt1, Inl err) \<Rightarrow> on_server (send_and_cache_failure source m (dv_error_text dv err) trace) rt1)))"

definition count_duplicate :: "('v, 'n, 's) runtime \<Rightarrow> ('v, 'n, 's) runtime" where
  "count_duplicate rt = rt\<lparr>ru_duplicate_requests := ru_duplicate_requests rt + 1\<rparr>"

definition put_dedup :: "dedup_table \<times> flags \<Rightarrow> ('v, 'n, 's) runtime \<Rightarrow> ('v, 'n, 's) runtime" where
  "put_dedup = (\<lambda>(t, fs) rt. rt\<lparr>ru_server := (ru_server rt)
     \<lparr>sv_dedup := t, sv_shared := (ru_shared rt)\<lparr>sh_flags := fs\<rparr>\<rparr>\<rparr>)"

definition handle_request ::
  "'n driver \<Rightarrow> locality_id \<Rightarrow> trace_id option \<Rightarrow> rt_message \<Rightarrow> (nat \<Rightarrow> instant) \<Rightarrow> ('v, 'n, 's) runtime
     \<Rightarrow> ('v, 'n, 's) runtime \<times> (runtime_error, unit) result"
where
  "handle_request dv source trace m clock rt =
     (if sh_state (ru_shared rt) \<noteq> StRunning
      then on_server (send_failure source m (lit ''runtime is shutting down'') trace) rt
      else (case (if request_targets_current (rm_action m) (rm_payload m) (ru_objects rt)
                  then release_redirect (rm_request m) (rm_action m) (rm_domain m) (sv_dedup (ru_server rt))
                  else (sv_dedup (ru_server rt), Ok ())) of
          (t, Inl err) \<Rightarrow> (put_dedup (t, sh_flags (ru_shared rt)) rt, Err err)
        | (t, Inr _) \<Rightarrow>
            (case dedup_begin (rm_request m) (rm_action m) (rm_domain m) (clock 0) (t, sh_flags (ru_shared rt)) of
               (d, Inl err) \<Rightarrow> on_server (send_failure source m (dv_error_text dv err) trace) (put_dedup d rt)
             | (d, Inr disposition) \<Rightarrow>
                 (let rt1 = put_dedup d rt in
                  case disposition of
                    DdNew cancelled \<Rightarrow> accept_request dv source trace m cancelled clock rt1
                  | DdRunning \<Rightarrow> (count_duplicate rt1, Ok ())
                  | DdReplay response \<Rightarrow> on_server (queue_response source response trace False) (count_duplicate rt1)
                  | DdUnavailable response \<Rightarrow> on_server (queue_response source response trace False) (count_duplicate rt1)
                  | DdCancelled response \<Rightarrow> on_server (queue_response source response trace False) (count_duplicate rt1)))))"

subsection \<open>Completions\<close>

fun submit_released ::
  "'v action_job list \<Rightarrow> ('v, 'n, 's) runtime \<Rightarrow> ('v, 'n, 's) runtime \<times> (runtime_error, unit) result"
where
  "submit_released [] rt = (rt, Ok ())"
| "submit_released (job # jobs) rt =
     (case submit_admitted job rt of
        (rt1, Inl err) \<Rightarrow> (rt1, Err err)
      | (rt1, Inr _) \<Rightarrow> submit_released jobs rt1)"

definition complete_object ::
  "object_job option \<Rightarrow> ('v, 'n, 's) runtime \<Rightarrow> ('v, 'n, 's) runtime \<times> (runtime_error, unit) result"
where
  "complete_object mark rt =
     (case mark of
        None \<Rightarrow> (rt, Ok ())
      | Some j \<Rightarrow> (case service_complete j (ru_objects rt) of (os, jobs) \<Rightarrow> submit_released jobs (rt\<lparr>ru_objects := os\<rparr>)))"

definition handle_completion ::
  "'v completion \<Rightarrow> ('v, 'n, 's) runtime \<Rightarrow> ('v, 'n, 's) runtime \<times> (runtime_error, unit) result"
where
  "handle_completion c rt =
     (case complete_object (cm_object c) rt of
        (rt1, Inl err) \<Rightarrow> (rt1, Err err)
      | (rt1, Inr _) \<Rightarrow>
          if cm_local c
          then on_shared (complete_local (cm_request c) (cm_action_id c) (cm_cancelled c) (cm_result c)) rt1
          else on_server (complete_remote c) rt1)"

subsection \<open>Calls on this locality\<close>

definition local_job :: "('v, 'n) shared \<Rightarrow> 'v local_request \<Rightarrow> 'v registered_action \<Rightarrow> instant \<Rightarrow> 'v action_job" where
  "local_job sh q handler now =
     \<lparr>aj_requester = sh_local_id sh, aj_request = rm_request (lq_message q), aj_action_id = rm_action (lq_message q),
      aj_domain = rm_domain (lq_message q), aj_trace_id = lq_trace_id q, aj_input = lq_input q,
      aj_handler = handler, aj_cancelled = lq_cancel_token q, aj_local = True, aj_submitted_at = now,
      aj_object = None\<rparr>"

text \<open>The closure chain of \<open>dispatch_local\<close> up to its result.\<close>

definition place_local ::
  "'v local_request \<Rightarrow> (nat \<Rightarrow> instant) \<Rightarrow> ('v, 'n, 's) runtime
     \<Rightarrow> ('v, 'n, 's) runtime \<times> (runtime_error, unit) result"
where
  "place_local q clock rt =
     (let a = rm_action (lq_message q) in
      case registry_get (sh_registry (ru_shared rt)) a of
        None \<Rightarrow> (rt, Err (ReUnknownAction a))
      | Some handler \<Rightarrow>
          (case admit a (local_job (ru_shared rt) q handler (clock 0))
                  (can_submit (ru_domains rt) (rm_domain (lq_message q))) (clock 1) (ru_objects rt) of
             (os, Inl err) \<Rightarrow> (rt\<lparr>ru_objects := os\<rparr>, Err err)
           | (os, Inr None) \<Rightarrow> (rt\<lparr>ru_objects := os\<rparr>, Ok ())
           | (os, Inr (Some job)) \<Rightarrow> submit_admitted job (rt\<lparr>ru_objects := os\<rparr>)))"

definition dispatch_local ::
  "'v local_request \<Rightarrow> (nat \<Rightarrow> instant) \<Rightarrow> ('v, 'n, 's) runtime
     \<Rightarrow> ('v, 'n, 's) runtime \<times> (runtime_error, unit) result"
where
  "dispatch_local q clock rt =
     (let rt1 = (case lq_input q of
            AvTyped _ \<Rightarrow> rt\<lparr>ru_local_typed_dispatches := ru_local_typed_dispatches rt + 1\<rparr>
          | AvEncoded _ \<Rightarrow> rt\<lparr>ru_local_action_serializations := ru_local_action_serializations rt + 1\<rparr>) in
      case place_local q clock rt1 of
        (rt2, Inr _) \<Rightarrow> (rt2, Ok ())
      | (rt2, Inl err) \<Rightarrow> on_shared (\<lambda>sh. (reject_local (rm_request (lq_message q)) err sh, Ok ())) rt2)"

subsection \<open>Transport events\<close>

definition handle_message ::
  "'n driver \<Rightarrow> locality_id \<Rightarrow> trace_id option \<Rightarrow> rt_message \<Rightarrow> (nat \<Rightarrow> instant) \<Rightarrow> ('v, 'n, 's) runtime
     \<Rightarrow> ('v, 'n, 's) runtime \<times> (runtime_error, unit) result"
where
  "handle_message dv source trace m clock rt =
     (if rm_kind m = RmRequest then handle_request dv source trace m clock rt
      else if rm_kind m = RmCancel
      then (case dedup_cancel (rm_request m) (rm_action m) (rm_domain m) (clock 0)
                   (sv_dedup (ru_server rt), sh_flags (ru_shared rt)) of
          (d, r) \<Rightarrow> (put_dedup d rt, r))
      else on_shared (handle_reply (dv_env dv) source m) rt)"

definition handle_transport_event ::
  "'n driver \<Rightarrow> transport_event \<Rightarrow> (nat \<Rightarrow> instant) \<Rightarrow> ('v, 'n, 's) runtime
     \<Rightarrow> ('v, 'n, 's) runtime \<times> (runtime_error, unit) result"
where
  "handle_transport_event dv event clock rt =
     (case event of
        LocalSendComplete ticket \<Rightarrow> on_shared (\<lambda>sh. (send_complete ticket sh, Ok ())) rt
      | SendFailed ticket err \<Rightarrow> on_shared (send_failed ticket err) rt
      | Incoming p \<Rightarrow>
          (let rt1 = rt\<lparr>ru_received := (ru_received rt)(p_channel p := ru_received rt (p_channel p) + 1)\<rparr> in
           case rt_decode p of
             Inl err \<Rightarrow> (rt1, Err (ReProtocol (dv_wire_text dv err)))
           | Inr m \<Rightarrow> handle_message dv (p_source p) (p_trace_id p) m clock rt1)
      | PeerFailed peer _ \<Rightarrow> (runtime_fail (RePeerFailed peer) rt, Err (RePeerFailed peer))
      | ShutdownComplete \<Rightarrow> (rt, Ok ()))"

subsection \<open>Retirements and leases\<close>

definition retirement_packet :: "request_id \<Rightarrow> retirement \<Rightarrow> migration_packet" where
  "retirement_packet request r =
     \<lparr>mp_migration = request, mp_object = rt_object r, mp_object_type = rt_object_type r, mp_authority = rt_authority r,
      mp_from = rt_location r,
      mp_destination = \<lparr>pl_locality = loc_locality (rt_location r), pl_domain = loc_domain (rt_location r)\<rparr>,
      mp_snapshot_version = rt_snapshot_version r, mp_snapshot_schema = rt_snapshot_schema r, mp_snapshot = []\<rparr>"

definition send_retirement ::
  "'n env \<Rightarrow> retirement \<Rightarrow> ('v, 'n) shared \<Rightarrow> ('v, 'n) shared \<times> (runtime_error, unit) result"
where
  "send_retirement env r sh =
     (case next_request sh of
        (sh1, Inl err) \<Rightarrow> (sh1, Err err)
      | (sh1, Inr request) \<Rightarrow>
          (case packet_encode (retirement_packet request r) of
             Inl err \<Rightarrow> (sh1, Err (ReObjectAction (ae_message err)))
           | Inr payload \<Rightarrow>
               (case sh_send env (loc_locality (rt_location r))
                       \<lparr>rm_kind = RmRequest, rm_request = request, rm_action = MIGRATION_RETIRE_ACTION_ID,
                        rm_domain = loc_domain (rt_location r),
                        rm_deadline_ms = millis_or_max (rl_default_deadline (sh_limits sh1)), rm_payload = payload\<rparr>
                       TpBestEffort None sh1 of
                  (sh2, r) \<Rightarrow> (sh2, res_map (\<lambda>_. ()) r))))"

fun send_retirements :: "'n env \<Rightarrow> retirement list \<Rightarrow> ('v, 'n, 's) runtime \<Rightarrow> ('v, 'n, 's) runtime" where
  "send_retirements env [] rt = rt"
| "send_retirements env (r # rs) rt =
     (case on_shared (send_retirement env r) rt of
        (rt1, Inr _) \<Rightarrow> send_retirements env rs (rt1\<lparr>ru_objects := finish_retirement (rt_object r) (ru_objects rt1)\<rparr>)
      | (rt1, Inl _) \<Rightarrow> rt1\<lparr>ru_objects := requeue_retirement r (ru_objects rt1)\<rparr>)"

text \<open>\<open>lease.renew()\<close> for each lease that is due.\<close>

fun renew_leases :: "'n env \<Rightarrow> lease_addr list \<Rightarrow> (nat \<Rightarrow> instant) \<Rightarrow> ('v, 'n, 's) runtime \<Rightarrow> ('v, 'n, 's) runtime" where
  "renew_leases env [] clock rt = rt"
| "renew_leases env (a # as) clock rt =
     (let l = lm_leases (ru_leases rt) ! a in
      case object_control env (ll_object l) (ll_object_type l) (ll_location l) (sh_local_id (ru_shared rt))
             LEASE_RENEW_ACTION_ID (clock 0) (ru_shared rt, ru_objects rt) of
        (sh, os) \<Rightarrow> renew_leases env as (\<lambda>i. clock (Suc i))
          (rt\<lparr>ru_server := (ru_server rt)\<lparr>sv_shared := sh\<rparr>, ru_objects := os\<rparr>))"

text \<open>What \<open>progress\<close> does before it asks the transport for events.\<close>

definition expire_all :: "'n env \<Rightarrow> (nat \<Rightarrow> instant) \<Rightarrow> ('v, 'n, 's) runtime \<Rightarrow> ('v, 'n, 's) runtime" where
  "expire_all env clock rt =
     (let sv = ru_server rt;
          rt1 = rt\<lparr>ru_server := sv\<lparr>sv_shared := expire_pending env (clock 0) (sv_shared sv),
                    sv_dedup := dedup_expire (clock 1) (sv_dedup sv)\<rparr>\<rparr>;
          now = clock 2;
          (lm, ds) = due now (ru_leases rt1);
          rt2 = renew_leases env ds (\<lambda>i. clock (i + 3)) (rt1\<lparr>ru_leases := lm\<rparr>)
      in rt2\<lparr>ru_objects := expire now (ru_objects rt2)\<rparr>)"

definition retirements_pass :: "'n env \<Rightarrow> usize \<Rightarrow> ('v, 'n, 's) runtime \<Rightarrow> ('v, 'n, 's) runtime" where
  "retirements_pass env limit rt =
     (case take_retirements limit (ru_objects rt) of (os, rs) \<Rightarrow> send_retirements env rs (rt\<lparr>ru_objects := os\<rparr>))"

subsection \<open>Progress\<close>

record runtime_progress =
  rp_events :: usize
  rp_made_progress :: bool

text \<open>\<open>if let Err(error) = .. { self.fail(error.clone()); return Err(error); }\<close>\<close>

definition or_fail ::
  "('v, 'n, 's) runtime \<times> (runtime_error, 'a) result \<Rightarrow> ('v, 'n, 's) runtime \<times> (runtime_error fault, 'a) result"
where
  "or_fail = (\<lambda>(rt, r). case r of Inl err \<Rightarrow> (runtime_fail err rt, Err (Fail err)) | Inr a \<Rightarrow> (rt, Ok a))"

text \<open>The rest of the body after a statement that may return early.\<close>

definition and_then ::
  "'r \<times> ('e, 'a) result \<Rightarrow> ('a \<Rightarrow> 'r \<Rightarrow> 'r \<times> ('e, 'b) result) \<Rightarrow> 'r \<times> ('e, 'b) result"
where
  "and_then = (\<lambda>(rt, r) f. case r of Inl err \<Rightarrow> (rt, Inl err) | Inr a \<Rightarrow> f a rt)"

fun event_loop ::
  "'n driver \<Rightarrow> (nat \<Rightarrow> nat \<Rightarrow> instant) \<Rightarrow> transport_event list \<Rightarrow> usize \<Rightarrow> ('v, 'n, 's) runtime
     \<Rightarrow> ('v, 'n, 's) runtime \<times> (runtime_error fault, usize) result"
where
  "event_loop dv clocks [] handled rt = (rt, Ok handled)"
| "event_loop dv clocks (event # events) handled rt =
     and_then (or_fail (handle_transport_event dv event (clocks (Suc handled)) rt))
       (\<lambda>_. event_loop dv clocks events (Suc handled))"

text \<open>The loops that stop when \<open>handled\<close> reaches the limit count the room that is left.\<close>

definition take_completion :: "('v, 'n, 's) runtime \<Rightarrow> (('v, 'n, 's) runtime \<times> 'v completion) option" where
  "take_completion rt =
     (case try_completion (ru_domains rt) of
        (ds, None) \<Rightarrow> None
      | (ds, Some c) \<Rightarrow> Some (rt\<lparr>ru_domains := ds\<rparr>, c))"

fun completion_loop ::
  "nat \<Rightarrow> usize \<Rightarrow> ('v, 'n, 's) runtime \<Rightarrow> ('v, 'n, 's) runtime \<times> (runtime_error fault, usize) result"
where
  "completion_loop 0 handled rt = (rt, Ok handled)"
| "completion_loop (Suc room) handled rt =
     (case take_completion rt of
        None \<Rightarrow> (rt, Ok handled)
      | Some (rt1, c) \<Rightarrow>
          and_then (or_fail (handle_completion c rt1)) (\<lambda>_. completion_loop room (Suc handled)))"

text \<open>\<open>self.domains.submit(job)?\<close> for the jobs \<open>retry_ready\<close> released.\<close>

fun submit_ready ::
  "'v action_job list \<Rightarrow> usize \<Rightarrow> ('v, 'n, 's) runtime \<Rightarrow> ('v, 'n, 's) runtime \<times> (runtime_error fault, usize) result"
where
  "submit_ready [] handled rt = (rt, Ok handled)"
| "submit_ready (job # jobs) handled rt =
     (case dom_submit job (ru_domains rt) of
        (ds, Inl err) \<Rightarrow> (rt\<lparr>ru_domains := ds\<rparr>, Err (Fail err))
      | (ds, Inr _) \<Rightarrow> submit_ready jobs (Suc handled) (rt\<lparr>ru_domains := ds\<rparr>))"

definition retry_pass ::
  "usize \<Rightarrow> usize \<Rightarrow> ('v, 'n, 's) runtime \<Rightarrow> ('v, 'n, 's) runtime \<times> (runtime_error fault, usize) result"
where
  "retry_pass limit handled rt =
     (if handled < limit
      then (case retry_ready (limit - handled) (can_submit (ru_domains rt)) (ru_objects rt) of
          (os, Inl _) \<Rightarrow> (rt\<lparr>ru_objects := os\<rparr>, Err Panic)
        | (os, Inr ready) \<Rightarrow> submit_ready ready handled (rt\<lparr>ru_objects := os\<rparr>))
      else (rt, Ok handled))"

fun local_loop ::
  "(nat \<Rightarrow> nat \<Rightarrow> instant) \<Rightarrow> nat \<Rightarrow> usize \<Rightarrow> ('v, 'n, 's) runtime
     \<Rightarrow> ('v, 'n, 's) runtime \<times> (runtime_error fault, usize) result"
where
  "local_loop clocks 0 handled rt = (rt, Ok handled)"
| "local_loop clocks (Suc room) handled rt =
     (case sh_local_queue (ru_shared rt) of
        [] \<Rightarrow> (rt, Ok handled)
      | q # qs \<Rightarrow>
          (case dispatch_local q (clocks (Suc handled))
                  (fst (on_shared (\<lambda>sh. (sh\<lparr>sh_local_queue := qs\<rparr>, ())) rt)) of
             (rt1, Inl err) \<Rightarrow> (rt1, Err (Fail err))
           | (rt1, Inr _) \<Rightarrow> local_loop clocks room (Suc handled) rt1))"

text \<open>\<open>limit - handled\<close> panics when the driver gave more events than it was asked for.\<close>

definition drain_pass ::
  "'n env \<Rightarrow> (nat \<Rightarrow> instant) \<Rightarrow> usize \<Rightarrow> usize \<Rightarrow> ('v, 'n, 's) runtime
     \<Rightarrow> ('v, 'n, 's) runtime \<times> (runtime_error fault, usize) result"
where
  "drain_pass env clock limit handled rt =
     (if limit < handled then (rt, Err Panic)
      else and_then (or_fail (on_server (drain_responses env clock (limit - handled)) rt))
        (\<lambda>sent rt. (rt, Ok (handled + sent))))"

definition transport_events ::
  "'n driver \<Rightarrow> usize \<Rightarrow> ('v, 'n, 's) runtime
     \<Rightarrow> ('v, 'n, 's) runtime \<times> (runtime_error fault, transport_event list \<times> bool) result"
where
  "transport_events dv limit rt =
     or_fail (on_shared (\<lambda>sh. case dv_progress dv limit (sh_net sh) of
       (net, r) \<Rightarrow> (sh\<lparr>sh_net := net\<rparr>, res_map_err ReTransport r)) rt)"

definition rt_progress ::
  "'n driver \<Rightarrow> (nat \<Rightarrow> nat \<Rightarrow> instant) \<Rightarrow> usize \<Rightarrow> ('v, 'n, 's) runtime
     \<Rightarrow> ('v, 'n, 's) runtime \<times> (runtime_error fault, runtime_progress) result"
where
  "rt_progress dv clocks max_events rt =
     (let env = dv_env dv; state = sh_state (ru_shared rt);
          limit = min max_events (rl_max_progress_events (sh_limits (ru_shared rt))) in
      if state \<noteq> StRunning \<and> state \<noteq> StDraining then (rt, Err (Fail (ReInvalidState StRunning state)))
      else if limit = 0 then (rt, Ok \<lparr>rp_events = 0, rp_made_progress = False\<rparr>)
      else
        and_then (transport_events dv limit (retirements_pass env limit (expire_all env (clocks 0) rt)))
          (\<lambda>(events, moved) rt. and_then (event_loop dv clocks events 0 rt)
          (\<lambda>handled rt. and_then (completion_loop (limit - handled) handled rt)
          (\<lambda>handled rt. and_then (retry_pass limit handled rt)
          (\<lambda>handled rt. and_then (local_loop clocks (limit - handled) handled rt)
          (\<lambda>handled rt. and_then (drain_pass env (clocks (Suc handled)) limit handled rt)
          (\<lambda>handled rt. (rt, Ok \<lparr>rp_events = handled, rp_made_progress = (moved \<or> 0 < handled)\<rparr>))))))))"

subsection \<open>The workers\<close>

text \<open>The closure installed under an action, when it is one of the object service.\<close>

definition service_of :: "('v, 's) object_registry \<Rightarrow> action_id \<Rightarrow> service_handler option" where
  "service_of reg a = map_of (map (\<lambda>(k, _, _, h). (k, h)) (service_actions @ create_list reg @ other_list reg)) a"

text \<open>
  The handler of a started job returns. A closure of the object service reads and changes the
  service, so its result is what \<open>service_run\<close> gives; the job is then finished with that result.
\<close>

definition finish_job ::
  "domain_id \<Rightarrow> nat \<Rightarrow> duration \<Rightarrow> instant \<Rightarrow> ('v, 'n, 's) runtime \<Rightarrow> ('v, 'n, 's) runtime"
where
  "finish_job d i elapsed now rt =
     (case hm_get (dr_domains (ru_domains rt)) d of
        None \<Rightarrow> rt
      | Some x \<Rightarrow>
          if i < length (dx_started x)
          then (let s = dx_started x ! i; job = sj_job s in
            case (if sj_cancelled s then None else service_of (os_registry (ru_objects rt)) (aj_action_id job), aj_input job) of
              (Some h, AvEncoded ss) \<Rightarrow>
                (case service_run h ss now (ru_objects rt) of
                   (os, r) \<Rightarrow> rt\<lparr>ru_objects := os, ru_domains := job_finish d i elapsed
                     (put_domain d (x\<lparr>dx_started := (dx_started x)[i := s\<lparr>sj_job := job\<lparr>aj_handler :=
                        registered_action_new (\<lambda>_. r)\<rparr>\<rparr>]\<rparr>) (ru_domains rt))\<rparr>)
            | _ \<Rightarrow> rt\<lparr>ru_domains := job_finish d i elapsed (ru_domains rt)\<rparr>)
          else rt)"

subsection \<open>Shutdown\<close>

record runtime_stats =
  rst_state :: runtime_state
  rst_pending_calls :: usize
  rst_completed_calls :: u64
  rst_cancelled_calls :: u64
  rst_timed_out_calls :: u64
  rst_late_results :: u64
  rst_duplicate_requests :: u64
  rst_action_failures :: u64
  rst_local_typed_dispatches :: u64
  rst_local_action_serializations :: u64
  rst_dedup_entries :: usize
  rst_dedup_bytes :: usize
  rst_sent_by_channel :: "channel \<Rightarrow> u64"
  rst_received_by_channel :: "channel \<Rightarrow> u64"
  rst_domains :: "(domain_id \<times> domain_stats) list"
  rst_send_tickets :: usize
  rst_queued_responses :: usize
  rst_queued_response_bytes :: usize
  rst_objects :: object_stats
  rst_transport :: transport_stats

definition rt_stats :: "'n driver \<Rightarrow> instant \<Rightarrow> ('v, 'n, 's) runtime \<Rightarrow> runtime_stats" where
  "rt_stats dv now rt =
     (let sv = ru_server rt; sh = sv_shared sv in
      \<lparr>rst_state = sh_state sh, rst_pending_calls = pending_len (sh_pending sh), rst_completed_calls = sh_completed sh,
       rst_cancelled_calls = sh_cancelled sh, rst_timed_out_calls = sh_timed_out sh, rst_late_results = sh_late_results sh,
       rst_duplicate_requests = ru_duplicate_requests rt, rst_action_failures = sv_action_failures sv,
       rst_local_typed_dispatches = ru_local_typed_dispatches rt,
       rst_local_action_serializations = ru_local_action_serializations rt,
       rst_dedup_entries = dedup_len (sv_dedup sv), rst_dedup_bytes = dt_retained_bytes (sv_dedup sv),
       rst_sent_by_channel = sh_sent sh, rst_received_by_channel = ru_received rt,
       rst_domains = dom_stats (ru_domains rt), rst_send_tickets = hm_len (sh_tickets sh),
       rst_queued_responses = length (sv_responses sv), rst_queued_response_bytes = sv_response_bytes sv,
       rst_objects = service_stats (dv_pair_bytes dv) now (ru_objects rt), rst_transport = dv_stats dv (sh_net sh)\<rparr>)"

definition retains_nothing :: "runtime_stats \<Rightarrow> bool" where
  "retains_nothing s \<longleftrightarrow>
     (let os = rst_objects s in
      rst_pending_calls s = 0 \<and> rst_send_tickets s = 0 \<and> rst_dedup_entries s = 0 \<and> rst_queued_responses s = 0
      \<and> rst_queued_response_bytes s = 0 \<and> ost_live_objects os = 0 \<and> ost_leases os = 0 \<and> ost_roots os = 0
      \<and> ost_placement_tickets os = 0 \<and> ost_transfers os = 0 \<and> ost_active_migrations os = 0
      \<and> ost_prepared_migrations os = 0 \<and> ost_forwarding_entries os = 0 \<and> ost_migration_snapshot_bytes os = 0
      \<and> retained_bytes (rst_transport s) = 0)"

definition set_state :: "runtime_state \<Rightarrow> ('v, 'n, 's) runtime \<Rightarrow> ('v, 'n, 's) runtime" where
  "set_state st rt = fst (on_shared (\<lambda>sh. (sh\<lparr>sh_state := st\<rparr>, ())) rt)"

text \<open>\<open>deactivate\<close> of every lease releases the active ones.\<close>

fun release_leases :: "'n env \<Rightarrow> lease_addr list \<Rightarrow> (nat \<Rightarrow> instant) \<Rightarrow> ('v, 'n, 's) runtime \<Rightarrow> ('v, 'n, 's) runtime" where
  "release_leases env [] clock rt = rt"
| "release_leases env (a # as) clock rt =
     (let l = lm_leases (ru_leases rt) ! a in
      case object_control env (ll_object l) (ll_object_type l) (ll_location l) (sh_local_id (ru_shared rt))
             LEASE_RELEASE_ACTION_ID (clock 0) (ru_shared rt, ru_objects rt) of
        (sh, os) \<Rightarrow> release_leases env as (\<lambda>i. clock (Suc i))
          (rt\<lparr>ru_server := (ru_server rt)\<lparr>sv_shared := sh\<rparr>, ru_objects := os\<rparr>))"

text \<open>
  The part under the work gate. \<open>begin_shutdown\<close> stores the state once more, ends the pending calls
  and empties the local queue.
\<close>

definition close_work ::
  "'n env \<Rightarrow> (nat \<Rightarrow> instant) \<Rightarrow> ('v, 'n, 's) runtime \<Rightarrow> ('v, 'n, 's) runtime \<times> (runtime_error, unit) result"
where
  "close_work env clock rt =
     (let state = sh_state (ru_shared rt) in
      if state \<noteq> StRunning \<and> state \<noteq> StFailed then (rt, Err (ReInvalidState StRunning state))
      else (case leases_clear (ru_leases rt) of
          (lm, released) \<Rightarrow>
            on_shared (\<lambda>sh. begin_shutdown env (sh\<lparr>sh_state := state\<rparr>))
              (release_leases env released clock (set_state StDraining (rt\<lparr>ru_leases := lm\<rparr>)))))"

definition work_done :: "'n driver \<Rightarrow> instant \<Rightarrow> ('v, 'n, 's) runtime \<Rightarrow> bool" where
  "work_done dv now rt \<longleftrightarrow>
     (let os = service_stats (dv_pair_bytes dv) now (ru_objects rt) in
      dom_idle (ru_domains rt) \<and> ost_queued_calls os = 0 \<and> ost_in_flight_calls os = 0)"

text \<open>
  A waiting loop: while there is something to wait for, make progress and look at the deadline.
  \<open>others\<close> is what the workers and the callers do between two passes; the calls on local objects are
  whole operations here, so none of them is under way at the test. No result within the fuel is \<open>None\<close>.
\<close>

fun wait_loop ::
  "nat \<Rightarrow> 'n driver \<Rightarrow> (nat \<Rightarrow> nat \<Rightarrow> nat \<Rightarrow> instant) \<Rightarrow> (nat \<Rightarrow> instant) \<Rightarrow> instant
     \<Rightarrow> (nat \<Rightarrow> ('v, 'n, 's) runtime \<Rightarrow> ('v, 'n, 's) runtime)
     \<Rightarrow> (instant \<Rightarrow> ('v, 'n, 's) runtime \<Rightarrow> bool) \<Rightarrow> nat \<Rightarrow> ('v, 'n, 's) runtime
     \<Rightarrow> (('v, 'n, 's) runtime \<times> (runtime_error fault, unit) result) option"
where
  "wait_loop 0 dv clocks clock deadline others over i rt = None"
| "wait_loop (Suc fuel) dv clocks clock deadline others over i rt =
     (if over (clock (2 * i)) rt then Some (rt, Ok ())
      else (case rt_progress dv (clocks i) (rl_max_progress_events (sh_limits (ru_shared rt))) rt of
          (rt1, Inl err) \<Rightarrow> Some (rt1, Err err)
        | (rt1, Inr _) \<Rightarrow>
            if deadline \<le> clock (2 * i + 1) then Some (set_state StFailed rt1, Err (Fail ReShutdownTimeout))
            else wait_loop fuel dv clocks clock deadline others over (Suc i) (others i rt1)))"

fun finish_completions ::
  "nat \<Rightarrow> ('v, 'n, 's) runtime \<Rightarrow> ('v, 'n, 's) runtime \<times> (runtime_error fault, unit) result"
where
  "finish_completions 0 rt = (rt, Ok ())"
| "finish_completions (Suc n) rt =
     (case take_completion rt of
        None \<Rightarrow> (rt, Ok ())
      | Some (rt1, c) \<Rightarrow>
          (case handle_completion c rt1 of
             (rt2, Inl err) \<Rightarrow> (rt2, Err (Fail err))
           | (rt2, Inr _) \<Rightarrow> finish_completions n rt2))"

fun forget_tickets :: "transport_event list \<Rightarrow> ('v, 'n) shared \<Rightarrow> ('v, 'n) shared" where
  "forget_tickets [] sh = sh"
| "forget_tickets (e # es) sh =
     forget_tickets es (case e of
        LocalSendComplete ticket \<Rightarrow> sh\<lparr>sh_tickets := hm_remove ticket (sh_tickets sh)\<rparr>
      | SendFailed ticket _ \<Rightarrow> sh\<lparr>sh_tickets := hm_remove ticket (sh_tickets sh)\<rparr>
      | _ \<Rightarrow> sh)"

text \<open>The tables are cleared and the transport is closed; the report must show nothing retained.\<close>

definition close_transport ::
  "'n driver \<Rightarrow> duration \<Rightarrow> instant \<Rightarrow> ('v, 'n, 's) runtime
     \<Rightarrow> ('v, 'n, 's) runtime \<times> (runtime_error fault, runtime_stats) result"
where
  "close_transport dv left now rt =
     (let rt1 = rt\<lparr>ru_server := (ru_server rt)\<lparr>sv_dedup := dedup_clear (sv_dedup (ru_server rt))\<rparr>,
                   ru_objects := clear_all (ru_objects rt)\<rparr> in
      and_then (on_shared (\<lambda>sh. case dv_shutdown dv left (sh_net sh) of
          (net, r) \<Rightarrow> (sh\<lparr>sh_net := net\<rparr>, res_map_err (\<lambda>e. Fail (ReTransport e)) r)) rt1)
        (\<lambda>events rt2.
           (let rt3 = set_state StStopped (fst (on_shared (\<lambda>sh. (forget_tickets events sh, ())) rt2));
                stats = rt_stats dv now rt3 in
            if retains_nothing stats then (rt3, Ok stats) else (rt3, Err (Fail ReRetainedResources)))))"

definition rt_shutdown ::
  "nat \<Rightarrow> 'n driver \<Rightarrow> (nat \<Rightarrow> nat \<Rightarrow> nat \<Rightarrow> instant) \<Rightarrow> (nat \<Rightarrow> nat \<Rightarrow> instant)
     \<Rightarrow> (nat \<Rightarrow> nat \<Rightarrow> ('v, 'n, 's) runtime \<Rightarrow> ('v, 'n, 's) runtime) \<Rightarrow> ('v, 'n, 's) runtime
     \<Rightarrow> (('v, 'n, 's) runtime \<times> (runtime_error fault, runtime_stats) result) option"
where
  "rt_shutdown fuel dv clocks clock others rt =
     (if sh_state (ru_shared rt) = StStopped then Some (rt, Ok (rt_stats dv (clock 0 0) rt))
      else (case close_work (dv_env dv) (\<lambda>i. clock 0 (Suc i)) rt of
          (rt1, Inl err) \<Rightarrow> Some (rt1, Err (Fail err))
        | (rt1, Inr _) \<Rightarrow>
            (let deadline = clock 0 0 + rl_shutdown_timeout (sh_limits (ru_shared rt1)) in
             case wait_loop fuel dv clocks (clock 1) deadline (others 0) (work_done dv) 0 rt1 of
               None \<Rightarrow> None
             | Some (rt2, Inl err) \<Rightarrow> Some (rt2, Err err)
             | Some (rt2, Inr _) \<Rightarrow>
                 (case finish_completions (length (dr_completions (ru_domains rt2))) rt2 of
                    (rt3, Inl err) \<Rightarrow> Some (rt3, Err err)
                  | (rt3, Inr _) \<Rightarrow>
                      (case wait_loop fuel dv (\<lambda>i. clocks (fuel + i)) (clock 2) deadline (others 1)
                              (\<lambda>_ rt. sv_responses (ru_server rt) = []) 0 rt3 of
                         None \<Rightarrow> None
                       | Some (rt4, Inl err) \<Rightarrow> Some (rt4, Err err)
                       | Some (rt4, Inr _) \<Rightarrow> Some (close_transport dv (deadline - clock 3 0) (clock 3 1) rt4))))))"

end
