(* ===== verification/ObjectProps.thy ===== *)
theory ObjectProps
  imports ObjectSafety
begin

text \<open>
  What the invariant of the object service gives its users: bounded tables, exclusive writes, and
  objects that live while somebody leases them and are collected afterwards. The last section
  records where the admission of queued calls and the retirement of copies do less than they mean to.
\<close>

section \<open>Handlers made by registration leave the object its state\<close>

lemma handlers_ok_insert:
  assumes "handlers_ok reg" "\<And>st ss. st \<noteq> None \<Longrightarrow> fst (h st ss) \<noteq> None"
  shows "handlers_ok (fst (insert_action i si so t acc h reg))"
  using assms by (auto simp: insert_action_def handlers_ok_def nonzero_u128_id_def hm_get_insert split: if_splits)

lemma write_handler_keeps: "\<exists>es'. fst (write_handler T A (Some es) ss) = Some es'"
  by (auto simp: write_handler_def Let_def split: sum.splits prod.splits)

lemma registrations_handlers_ok:
  assumes "handlers_ok reg"
  shows "handlers_ok (fst (register_exclusive T reg))" "handlers_ok (fst (register_read_write T reg))"
    "handlers_ok (fst (register_mobile_exclusive T reg))" "handlers_ok (fst (register_mobile_read_write T reg))"
    "handlers_ok (fst (register_read T A reg))" "handlers_ok (fst (register_write T W reg))"
    "handlers_ok (fst (register_placement P h reg))"
proof -
  have types: "handlers_ok (fst (register_type c m T reg))" for c m
    using assms by (auto simp: register_type_def handlers_ok_def Let_def split: sum.split)
  then show "handlers_ok (fst (register_exclusive T reg))" "handlers_ok (fst (register_read_write T reg))"
    "handlers_ok (fst (register_mobile_exclusive T reg))" "handlers_ok (fst (register_mobile_read_write T reg))"
    using assms by (auto simp: register_exclusive_def register_read_write_def register_mobile_exclusive_def
        register_mobile_read_write_def split: sum.split)
  show "handlers_ok (fst (register_read T A reg))"
    using assms by (auto simp: register_read_def split: sum.split intro!: handlers_ok_insert) (auto simp: read_handler_def)
  show "handlers_ok (fst (register_write T W reg))"
    using assms by (auto simp: register_write_def split: sum.split intro!: handlers_ok_insert write_handler_keeps)
  show "handlers_ok (fst (register_placement P h reg))"
    using assms by (auto simp: register_placement_def handlers_ok_def Let_def split: sum.split)
qed

lemma object_registry_default_handlers: "handlers_ok object_registry_default"
  by (simp add: handlers_ok_def object_registry_default_def)

lemma demo_object_registry_handlers: "handlers_ok demo_object_registry"
  unfolding demo_object_registry_def by (intro registrations_handlers_ok object_registry_default_handlers)

section \<open>What the operations leave alone\<close>

text \<open>
  \<open>keeps K obj loc sv sv'\<close>: the configuration of the service is the same, and a lease that locality
  \<open>loc\<close> has on \<open>obj\<close> at the object's authority, when the object is not queued for retirement, is still there if \<open>K\<close>, and the object still not queued.
\<close>

definition leased :: "('v, 's) object_service \<Rightarrow> object_id \<Rightarrow> locality_id \<Rightarrow> bool" where
  "leased sv obj loc =
     (case hm_get (os_entries sv) obj of
        None \<Rightarrow> False
      | Some e \<Rightarrow> oe_authority e = os_local_id sv \<and> hm_get (oe_leases e) loc \<noteq> None)"

definition retained :: "('v, 's) object_service \<Rightarrow> object_id \<Rightarrow> locality_id \<Rightarrow> bool" where
  "retained sv obj loc \<longleftrightarrow> leased sv obj loc \<and> obj \<notin> rt_object ` set (os_retirements sv)"

definition same_config :: "('v, 's) object_service \<Rightarrow> ('v, 's) object_service \<Rightarrow> bool" where
  "same_config sv sv' \<longleftrightarrow> os_limits sv' = os_limits sv \<and> os_registry sv' = os_registry sv
     \<and> os_local_id sv' = os_local_id sv \<and> os_run_id sv' = os_run_id sv"

definition keeps :: "bool \<Rightarrow> object_id \<Rightarrow> locality_id \<Rightarrow> ('v, 's) object_service \<Rightarrow> ('v, 's) object_service \<Rightarrow> bool" where
  "keeps K obj loc sv sv' \<longleftrightarrow> same_config sv sv' \<and> (K \<and> retained sv obj loc \<longrightarrow> retained sv' obj loc)"

named_theorems keeps_intros \<open>operations that keep the configuration and the leases\<close>

lemma keeps_refl [simp, keeps_intros]: "keeps K obj loc sv sv"
  by (simp add: keeps_def same_config_def)

lemma keeps_trans: "keeps K obj loc sv sv1 \<Longrightarrow> keeps K obj loc sv1 sv2 \<Longrightarrow> keeps K obj loc sv sv2"
  by (auto simp: keeps_def same_config_def)

lemma keeps_put:
  assumes "keeps K obj loc sv sv'" "hm_get (os_entries sv') obj' = Some e" "oe_authority e' = oe_authority e"
    "K \<Longrightarrow> obj' = obj \<Longrightarrow> hm_get (oe_leases e) loc \<noteq> None \<Longrightarrow> hm_get (oe_leases e') loc \<noteq> None"
  shows "keeps K obj loc sv (put_entry obj' e' sv')"
  using assms by (auto simp: keeps_def same_config_def retained_def leased_def put_entry_def hm_get_insert split: option.splits)

lemma keeps_put_new:
  "keeps K obj loc sv sv' \<Longrightarrow> hm_get (os_entries sv') obj' = None \<Longrightarrow> keeps K obj loc sv (put_entry obj' e' sv')"
  by (auto simp: keeps_def same_config_def retained_def leased_def put_entry_def hm_get_insert split: option.splits)

lemma keeps_fields [simp]:
  "keeps K obj loc sv (sv'\<lparr>os_next_slot := a\<rparr>) = keeps K obj loc sv sv'"
  "keeps K obj loc sv (sv'\<lparr>os_resolver := b\<rparr>) = keeps K obj loc sv sv'"
  "keeps K obj loc sv (sv'\<lparr>os_resolver_order := c\<rparr>) = keeps K obj loc sv sv'"
  "keeps K obj loc sv (sv'\<lparr>os_local_calls := d\<rparr>) = keeps K obj loc sv sv'"
  "keeps K obj loc sv (sv'\<lparr>os_remote_calls := d\<rparr>) = keeps K obj loc sv sv'"
  "keeps K obj loc sv (sv'\<lparr>os_root_count := n\<rparr>) = keeps K obj loc sv sv'"
  "keeps K obj loc sv (sv'\<lparr>os_transfer_count := n\<rparr>) = keeps K obj loc sv sv'"
  "keeps K obj loc sv (sv'\<lparr>os_placement_count := n\<rparr>) = keeps K obj loc sv sv'"
  "keeps K obj loc sv (sv'\<lparr>os_prepared_count := n\<rparr>) = keeps K obj loc sv sv'"
  "keeps K obj loc sv (sv'\<lparr>os_pending_transfers := ts\<rparr>) = keeps K obj loc sv sv'"
  "keeps K obj loc sv (sv'\<lparr>os_active_migrations := ms\<rparr>) = keeps K obj loc sv sv'"
  "keeps K obj loc sv (sv'\<lparr>os_completed_migrations := d\<rparr>) = keeps K obj loc sv sv'"
  "keeps K obj loc sv (sv'\<lparr>os_rolled_back_migrations := d\<rparr>) = keeps K obj loc sv sv'"
  "keeps K obj loc sv (sv'\<lparr>os_failed_migrations := d\<rparr>) = keeps K obj loc sv sv'"
  "keeps K obj loc sv (sv'\<lparr>os_migrated_bytes := d\<rparr>) = keeps K obj loc sv sv'"
  "keeps K obj loc sv (sv'\<lparr>os_panicked := p\<rparr>) = keeps K obj loc sv sv'"
  by (simp_all add: keeps_def same_config_def retained_def leased_def split: option.split)

lemma keeps_retirements:
  "keeps K obj loc sv sv' \<Longrightarrow> (K \<Longrightarrow> retained sv' obj loc \<Longrightarrow> obj \<notin> rt_object ` set rs) \<Longrightarrow> keeps K obj loc sv (sv'\<lparr>os_retirements := rs\<rparr>)"
  by (auto simp: keeps_def same_config_def retained_def leased_def split: option.split)

lemma keeps_cache [simp]: "keeps K obj loc sv (cache_location obj' l sv') = keeps K obj loc sv sv'"
  by (simp add: cache_location_def case_prod_unfold Let_def del: cache_insert.simps)

lemma keeps_forget:
  assumes "keeps K obj loc sv sv'" "obj' = obj \<Longrightarrow> K \<Longrightarrow> \<not> leased sv' obj loc"
  shows "keeps K obj loc sv (forget_entry obj' sv')"
  using assms by (auto simp: keeps_def same_config_def retained_def leased_def forget_entry_def hm_get_def hm_remove_def split: option.splits)

lemma keeps_collect [keeps_intros]:
  assumes "keeps K obj loc sv sv'"
  shows "keeps K obj loc sv (collect obj' sv')"
proof (cases "hm_get (os_entries sv') obj'")
  case (Some e)
  show ?thesis
    unfolding collect_def Some option.case
    by (auto simp: assms retained_def leased_def Some split: object_lifecycle.split option.split
        intro!: keeps_forget keeps_put [where e = e] keeps_retirements dest: sym)
qed (simp add: collect_def assms)

lemma service_insert_keeps: "keeps K obj loc sv (fst (service_insert env st now sv))"
  by (auto simp: service_insert_def Let_def split: option.split sum.split intro!: keeps_put_new)

lemma create_keeps:
  "keeps K obj loc sv (fst (create_local obj' t d v k rooted now sv))" "keeps K obj loc sv (fst (create_run t ss now sv))"
  using service_insert_keeps [of K obj loc sv]
  by (auto simp: create_local_def create_run_def split: option.split sum.split prod.split) (metis fst_conv)+

lemma ack_transfer_keeps [simp]: "keeps K obj loc sv (fst (ack_transfer obj' loc' sv')) = keeps K obj loc sv sv'"
  by (simp add: ack_transfer_def)

lemma acquire_keeps: "keeps K obj loc sv sv' \<Longrightarrow> keeps K obj loc sv (fst (acquire obj' loc' now sv'))"
  by (auto simp: acquire_def hm_get_insert split: option.split intro!: keeps_put)

lemma renew_keeps: "keeps K obj loc sv (fst (renew obj' loc' now sv))"
  by (auto simp: renew_def hm_get_insert split: option.split intro!: keeps_put)

lemma begin_transfer_keeps: "keeps K obj loc sv (fst (begin_transfer obj' loc' now sv))"
proof -
  let ?sv = "sv\<lparr>os_transfer_count := os_transfer_count sv + 1, os_pending_transfers := (obj', loc') # os_pending_transfers sv\<rparr>"
  have "keeps K obj loc sv (fst (acquire obj' loc' now ?sv))" by (rule acquire_keeps) simp
  then show ?thesis by (auto simp: begin_transfer_def Let_def split: option.split prod.split bool.split)
qed

lemma release_root_keeps: "keeps K obj loc sv (fst (release_root obj' sv))"
  by (auto simp: release_root_def split: option.split intro!: keeps_collect keeps_put)

lemma release_keeps: "(K \<Longrightarrow> (obj', loc') \<noteq> (obj, loc)) \<Longrightarrow> keeps K obj loc sv (fst (release obj' loc' sv))"
  by (auto simp: release_def hm_get_def hm_remove_def split: option.split intro!: keeps_collect keeps_put)

lemma admit_placement_keeps:
  "keeps K obj loc sv sv' \<Longrightarrow> hm_get (os_entries sv') obj' = Some e \<Longrightarrow>
     keeps K obj loc sv (fst (admit_placement obj' job da e sv'))"
  by (auto simp: admit_placement_def intro!: keeps_put)

lemma admit_queue_keeps:
  "keeps K obj loc sv sv' \<Longrightarrow> hm_get (os_entries sv') obj' = Some e \<Longrightarrow>
     keeps K obj loc sv (fst (admit_queue obj' f rd job da e sv'))"
  by (auto simp: admit_queue_def Let_def intro!: keeps_put)

lemma admit_keeps: "keeps K obj loc sv (fst (admit a job da now sv))"
proof -
  have put: "keeps K obj loc sv (put_entry obj' (e\<lparr>oe_lifecycle := c\<rparr>) sv)"
      "hm_get (os_entries (put_entry obj' (e\<lparr>oe_lifecycle := c\<rparr>) sv)) obj' = Some (e\<lparr>oe_lifecycle := c\<rparr>)"
    if "hm_get (os_entries sv) obj' = Some e" for obj' e c
    using that by (auto simp: hm_get_insert intro!: keeps_put)
  show ?thesis
    unfolding admit_def Let_def
    by (auto split: option.split sum.split intro: admit_placement_keeps [OF put] admit_queue_keeps [OF put])
qed

lemma service_complete_keeps: "keeps K obj loc sv sv' \<Longrightarrow> keeps K obj loc sv (fst (service_complete j sv'))"
  by (auto simp: service_complete_def Let_def split: option.split intro!: keeps_put)

lemma retry_entry_frame:
  "oe_authority (fst (retry_entry room da q e)) = oe_authority e" "oe_leases (fst (retry_entry room da q e)) = oe_leases e"
  by (induction room da q e rule: retry_entry.induct) (auto simp: Let_def split: option.split prod.splits sum.splits)

lemma retry_entries_keeps: "keeps K obj loc sv (fst (retry_entries room da objs sv))"
proof (induction room da objs sv rule: retry_entries.induct)
  case (2 room da obj' objs sv)
  have put: "keeps K obj loc sv (put_entry obj' e' sv)" if "hm_get (os_entries sv) obj' = Some e" "retry_entry room da (ad_queue (oe_admission e)) e = (e', r)" for e e' r
    using that retry_entry_frame [of room da "ad_queue (oe_admission e)" e] by (intro keeps_put) simp_all
  have rest: "keeps K obj loc sv (fst (retry_entries (room - length js) da objs (put_entry obj' e' sv)))"
    if "hm_get (os_entries sv) obj' = Some e" "retry_entry room da (ad_queue (oe_admission e)) e = (e', Ok js)"
      "room \<noteq> 0" "\<not> (ad_writer (oe_admission e) \<or> ad_readers (oe_admission e) \<noteq> 0)" for e e' js
    using keeps_trans [OF put [OF that(1,2)]] "2.IH"(3) [OF that(3,1,4) that(2) [symmetric] refl] by simp
  show ?case
  proof (cases "hm_get (os_entries sv) obj'")
    case (Some e)
    obtain e' r where r: "retry_entry room da (ad_queue (oe_admission e)) e = (e', r)" by force
    show ?thesis
      using "2.IH"(2) [OF _ Some] Some r put [OF Some r] rest [OF Some] by (auto split: sum.split prod.split)
  qed (use "2.IH"(1) in simp)
qed simp

lemma pin_drop_keeps: "keeps K obj loc sv sv' \<Longrightarrow> keeps K obj loc sv (pin_drop j sv')"
  unfolding pin_drop_def by (intro keeps_collect service_complete_keeps)

lemma admit_local_keeps:
  "hm_get (os_entries sv) obj' = Some e \<Longrightarrow> keeps K obj loc sv (fst (admit_local obj' rd e sv))"
  by (auto simp: admit_local_def Let_def split: sum.split intro!: keeps_put)

lemma admit_local_get:
  "admit_local obj rd e sv = (sv1, Inr job) \<Longrightarrow>
     hm_get (os_entries sv1) obj = Some (e\<lparr>oe_admission := enter rd (oe_admission e), oe_in_flight := oe_in_flight e + 1\<rparr>)"
  by (auto simp: admit_local_def Let_def hm_get_insert split: sum.splits if_splits)

lemma call_read_local_keeps: "keeps K obj loc sv (fst (call_read_local T A obj' t l a sv))"
proof -
  have pin: "keeps K obj loc sv sv1" if "local_entry obj' t l sv = Inr e" "admit_local obj' True e sv = (sv1, r)" for e sv1 r
    using admit_local_keeps [OF local_entry_get [OF that(1)], of K obj loc True] that(2) by simp
  show ?thesis
    unfolding call_read_local_def Let_def
    by (auto split: sum.split prod.split option.split erased_state.split intro!: pin_drop_keeps intro: pin)
qed

lemma call_write_local_keeps: "keeps K obj loc sv (fst (call_write_local T A obj' t l a sv))"
proof -
  have pin: "keeps K obj loc sv sv1" if "local_entry obj' t l sv = Inr e" "admit_local obj' False e sv = (sv1, r)" for e sv1 r
    using admit_local_keeps [OF local_entry_get [OF that(1)], of K obj loc False] that(2) by simp
  have put: "keeps K obj loc sv (put_entry obj' (e\<lparr>oe_state := st, oe_admission := ad, oe_in_flight := n\<rparr>) (sv1\<lparr>os_local_calls := c\<rparr>))"
    if "local_entry obj' t l sv = Inr e" "admit_local obj' False e sv = (sv1, Inr j)" for e sv1 j st ad n c
    by (rule keeps_put [where e = "e\<lparr>oe_admission := enter False (oe_admission e), oe_in_flight := oe_in_flight e + 1\<rparr>"])
      (use pin [OF that] admit_local_get [OF that(2)] in simp_all)
  show ?thesis
    unfolding call_write_local_def Let_def
    by (auto split: sum.split prod.split option.split intro!: pin_drop_keeps intro: pin put)
qed

lemma freeze_state_keeps:
  assumes "hm_get (os_entries sv) (mp_object p) = Some e0" "oe_authority e = oe_authority e0" "oe_leases e = oe_leases e0"
  shows "keeps K obj loc sv (fst (freeze_state frz p e sv))"
  using assms by (auto simp: freeze_state_def Let_def split: option.split prod.split sum.split fault.split intro!: keeps_put [where e = e0])

lemma freeze_migration_keeps: "keeps K obj loc sv (fst (freeze_migration p now sv))"
  unfolding freeze_migration_def
  by (auto dest!: entry_for_migration_get split: sum.split option.split object_lifecycle.split intro!: freeze_state_keeps)

lemma prepare_install_keeps:
  assumes "keeps K obj loc sv sv'"
  shows "keeps K obj loc sv (fst (prepare_install p location n restored now sv'))"
proof -
  let ?e = "prepare_entry p now sv'"
  have put: "keeps K obj loc sv (put_entry (mp_object p) ?e sv')"
    using assms by (cases "hm_get (os_entries sv') (mp_object p)") (auto simp: prepare_entry_def intro: keeps_put keeps_put_new)
  then have "keeps K obj loc sv (put_entry (mp_object p) (?e\<lparr>oe_prepared := q\<rparr>) (put_entry (mp_object p) ?e sv'))" for q
    by (rule keeps_put [where e = ?e]) (simp_all add: hm_get_insert)
  with put show ?thesis using assms by (auto simp: prepare_install_def Let_def split: option.split)
qed

lemma prepare_migration_keeps: "keeps K obj loc sv (fst (prepare_migration p now sv))"
  unfolding prepare_migration_def Let_def
  by (auto split: sum.split option.split intro!: prepare_install_keeps)

lemma commit_migration_keeps: "keeps K obj loc sv (fst (commit_migration p now sv))"
  unfolding commit_migration_def by (auto dest!: entry_for_migration_get split: sum.split intro!: keeps_put)

lemma activate_migration_keeps: "keeps K obj loc sv (fst (activate_migration p sv))"
  unfolding activate_migration_def Let_def by (auto dest!: entry_for_migration_get split: sum.split option.split intro!: keeps_put)

lemma rollback_migration_keeps: "keeps K obj loc sv (fst (rollback_migration p sv))"
  unfolding rollback_migration_def Let_def by (auto split: option.split object_lifecycle.split intro!: keeps_put)

lemma retire_migration_keeps: "keeps K obj loc sv (fst (retire_migration p now sv))"
  unfolding retire_migration_def by (auto dest!: entry_for_migration_get split: sum.split intro!: keeps_collect keeps_put)

lemma migration_run_keeps:
  "(\<And>p. keeps K obj loc sv (fst (f p sv))) \<Longrightarrow> keeps K obj loc sv (fst (migration_run f ss sv))"
  by (auto simp: migration_run_def split: sum.split prod.split) (metis fst_conv)+

lemma action_run_keeps: "keeps K obj loc sv (fst (action_run a ss sv))"
  unfolding action_run_def Let_def by (auto split: sum.split option.split prod.split intro!: keeps_put)

definition releases :: "service_handler \<Rightarrow> segments \<Rightarrow> object_id \<Rightarrow> locality_id \<Rightarrow> bool" where
  "releases h ss obj loc \<longleftrightarrow> h = ShLease False
     \<and> (\<exists>env payload. envelope_decode ss = Inr (env, payload) \<and> en_object env = obj \<and> en_lease_locality env = loc)"

lemma service_run_keeps: "(K \<Longrightarrow> \<not> releases h ss obj loc) \<Longrightarrow> keeps K obj loc sv (fst (service_run h ss now sv))"
proof (cases h)
  case (ShLease do_renew)
  moreover assume "K \<Longrightarrow> \<not> releases h ss obj loc"
  ultimately show ?thesis
    using renew_keeps [of K obj loc sv]
    by (auto simp: lease_run_def releases_def split: sum.split prod.split bool.split intro!: release_keeps) (metis fst_conv)+
next
  case ShAcquire
  then show ?thesis
    using acquire_keeps [OF keeps_refl, of K obj loc sv] begin_transfer_keeps [of K obj loc sv]
    by (auto simp: acquire_lease_run_def split: sum.split prod.split) (metis fst_conv)+
qed (auto simp: root_release_run_def transfer_ack_run_def release_root_keeps create_keeps action_run_keeps
    freeze_migration_keeps prepare_migration_keeps commit_migration_keeps activate_migration_keeps
    rollback_migration_keeps retire_migration_keeps split: sum.split option.split intro!: migration_run_keeps)

lemma expire_leases_get:
  "hm_get m k = Some r \<Longrightarrow> lease_kept l now (mark_suspect now r) \<Longrightarrow> hm_get (expire_leases l now m) k = Some (mark_suspect now r)"
  by (induction m) (auto simp: hm_get_def expire_leases_def split: if_splits)

lemma expire_stages_frame:
  "oe_authority (fst (expire_lifecycle l me now e)) = oe_authority e" "oe_leases (fst (expire_lifecycle l me now e)) = oe_leases e"
  "oe_authority (fst (expire_prepared now e)) = oe_authority e" "oe_leases (fst (expire_prepared now e)) = oe_leases e"
  by (simp_all add: expire_lifecycle_def expire_prepared_def take_prepared_def split: object_lifecycle.split option.split)

definition lease_live :: "instant \<Rightarrow> ('v, 's) object_service \<Rightarrow> object_id \<Rightarrow> locality_id \<Rightarrow> bool" where
  "lease_live now sv obj loc =
     (case hm_get (os_entries sv) obj of
        None \<Rightarrow> False
      | Some e \<Rightarrow>
          (case hm_get (oe_leases e) loc of
             None \<Rightarrow> False
           | Some r \<Rightarrow> lr_suspect_since r = None \<and> now < lr_expires_at r))"

lemma collect_leased: "leased sv obj loc \<Longrightarrow> collect obj sv = sv"
  by (auto simp: leased_def collect_def split: option.splits)

lemma collect_other: "obj \<noteq> obj' \<Longrightarrow> hm_get (os_entries (collect obj' sv)) obj = hm_get (os_entries sv) obj"
  by (auto simp: collect_def forget_entry_def hm_get_def hm_remove_def hm_get_insert [unfolded hm_get_def]
      split: option.split object_lifecycle.split)

lemma collect_queues: "rt_object ` set (os_retirements (collect obj sv)) \<subseteq> insert obj (rt_object ` set (os_retirements sv))"
  by (auto simp: collect_def forget_entry_def split: option.split object_lifecycle.split)

lemma collect_config [simp]: "os_local_id (collect obj sv) = os_local_id sv"
  using keeps_collect [OF keeps_refl, of False obj "0" sv obj] by (simp add: keeps_def same_config_def)

lemma expire_entry_config: "same_config sv (expire_entry now obj sv)"
proof -
  have "keeps False obj 0 sv (expire_entry now obj sv)"
  proof (cases "hm_get (os_entries sv) obj")
    case (Some e)
    obtain e1 k1 e2 k2 where e: "expire_lifecycle (os_limits sv) (os_local_id sv) now e = (e1, k1)" "expire_prepared now e1 = (e2, k2)"
      by force
    then have "oe_authority e2 = oe_authority e"
      using expire_stages_frame(1) [of "os_limits sv" "os_local_id sv" now e] expire_stages_frame(3) [of now e1] by simp
    with Some e show ?thesis by (auto simp: expire_entry_def Let_def intro!: keeps_collect keeps_put [where e = e])
  qed (simp add: expire_entry_def)
  then show ?thesis by (simp add: keeps_def)
qed

lemma expire_entry_live:
  assumes "retained sv obj loc" "lease_live now sv obj loc"
  shows "retained (expire_entry now obj' sv) obj loc \<and> lease_live now (expire_entry now obj' sv) obj loc"
proof (cases "obj' = obj")
  case False
  have "hm_get (os_entries (expire_entry now obj' sv)) obj = hm_get (os_entries sv) obj"
    using False by (simp add: expire_entry_def Let_def collect_other hm_get_insert split: option.split prod.split)
  moreover have "rt_object ` set (os_retirements (expire_entry now obj' sv)) \<subseteq> insert obj' (rt_object ` set (os_retirements sv))"
    by (auto simp: expire_entry_def Let_def split: option.split prod.split dest!: subsetD [OF collect_queues, rotated, OF imageI])
  ultimately show ?thesis
    using assms False expire_entry_config [of sv now obj'] by (auto simp: retained_def leased_def lease_live_def same_config_def split: option.splits)
next
  case True
  obtain e r where e: "hm_get (os_entries sv) obj = Some e" "oe_authority e = os_local_id sv"
      and r: "hm_get (oe_leases e) loc = Some r" "lr_suspect_since r = None" "now < lr_expires_at r"
    using assms by (auto simp: retained_def leased_def lease_live_def split: option.splits)
  obtain e1 k1 where e1: "expire_lifecycle (os_limits sv) (os_local_id sv) now e = (e1, k1)" by force
  obtain e2 k2 where e2: "expire_prepared now e1 = (e2, k2)" by force
  have same: "oe_authority e2 = os_local_id sv" "oe_leases e2 = oe_leases e"
    using expire_stages_frame(1,2) [of "os_limits sv" "os_local_id sv" now e] expire_stages_frame(3,4) [of now e1] e1 e2 e(2) by simp_all
  have "mark_suspect now r = r" using r(3) by (simp add: mark_suspect_def)
  then have "hm_get (expire_leases (os_limits sv) now (oe_leases e2)) loc = Some r"
    using expire_leases_get [OF r(1), of "os_limits sv" now] r(2) same by (simp add: lease_kept_def)
  then show ?thesis
    using True e e1 e2 same r assms(1)
    by (auto simp: expire_entry_def Let_def retained_def leased_def lease_live_def hm_get_insert collect_leased [of _ obj loc])
qed

lemma expire_keeps:
  assumes "K \<Longrightarrow> lease_live now sv obj loc"
  shows "keeps K obj loc sv (expire now sv)"
proof -
  have "same_config sv (fold (expire_entry now) objs sv)" for objs
  proof (induction objs arbitrary: sv)
    case (Cons obj' objs)
    then show ?case using expire_entry_config [of sv now obj'] Cons.IH [of "expire_entry now obj' sv"] by (simp add: same_config_def)
  qed (simp add: same_config_def)
  moreover have "retained sv obj loc \<Longrightarrow> lease_live now sv obj loc \<Longrightarrow> retained (fold (expire_entry now) objs sv) obj loc" for objs
    by (induction objs arbitrary: sv) (simp_all add: expire_entry_live)
  ultimately show ?thesis using assms by (simp add: keeps_def expire_def)
qed

lemma keeps_iff: "keeps K obj loc sv sv' \<longleftrightarrow> keeps (K \<and> retained sv obj loc) obj loc sv sv'"
  by (auto simp: keeps_def)

lemma retire_loop_keeps:
  "(K \<Longrightarrow> obj \<notin> rt_object ` set rs) \<Longrightarrow> keeps K obj loc sv sv' \<Longrightarrow> keeps K obj loc sv (retire_loop sent rs sv')"
proof (induction rs arbitrary: sv')
  case (Cons r rs)
  have "keeps K obj loc sv (forget_entry (rt_object r) sv')" by (rule keeps_forget [OF Cons.prems(2)]) (use Cons.prems(1) in auto)
  then have "keeps K obj loc sv (retire_loop sent rs (finish_retirement (rt_object r) sv'))"
    unfolding finish_retirement_def by (intro Cons.IH) (use Cons.prems(1) in auto)
  moreover have "keeps K obj loc sv (requeue_retirement r sv')"
    unfolding requeue_retirement_def by (rule keeps_retirements [OF Cons.prems(2)]) (use Cons.prems(1) in \<open>auto simp: retained_def\<close>)
  ultimately show ?case by simp
qed simp

lemma retire_pass_keeps: "keeps K obj loc sv (retire_pass sent limit sv)"
proof (subst keeps_iff)
  let ?K = "K \<and> retained sv obj loc"
  have "keeps ?K obj loc sv (sv\<lparr>os_retirements := drop limit (os_retirements sv)\<rparr>)"
    by (rule keeps_retirements [OF keeps_refl]) (auto simp: retained_def dest: in_set_dropD)
  then show "keeps ?K obj loc sv (retire_pass sent limit sv)"
    unfolding retire_pass_def take_retirements_def prod.case
    by (rule retire_loop_keeps [rotated]) (auto simp: retained_def dest: in_set_takeD)
qed

text \<open>The operations during which the lease of \<open>loc\<close> on \<open>obj\<close> stays in force.\<close>

fun lease_respected :: "object_id \<Rightarrow> locality_id \<Rightarrow> ('v, 's) object_service \<Rightarrow> ('v, 's, 't, 'm, 'a, 'o) svc_op \<Rightarrow> bool" where
  "lease_respected obj loc sv (SoHandle h ss now) = (\<not> releases h ss obj loc)"
| "lease_respected obj loc sv (SoExpire now) = lease_live now sv obj loc"
| "lease_respected obj loc sv SoClear = False"
| "lease_respected obj loc sv p = True"

lemma svc_do_keeps:
  "(K \<Longrightarrow> lease_respected obj loc sv p) \<Longrightarrow> keeps K obj loc sv (fst (svc_do p (sv, R)))"
proof (cases p)
  case (SoRetry room da)
  then show ?thesis
    using retry_entries_keeps [of K obj loc sv room da "map fst (os_entries sv)"]
    by (auto simp: retry_ready_def split: prod.split sum.split)
next
  case (SoRetire sent limit)
  then show ?thesis by (simp add: retire_pass_keeps)
next
  case (SoFinish m outcome n)
  then show ?thesis by (simp add: finish_migration_def Let_def split: migration_outcome.split)
next
  case SoClear
  moreover assume "K \<Longrightarrow> lease_respected obj loc sv p"
  ultimately show ?thesis by (auto simp: clear_all_def clear_resolver_def keeps_def same_config_def)
qed (auto simp: create_keeps admit_keeps service_complete_keeps call_read_local_keeps call_write_local_keeps
    begin_migration_def intro: service_run_keeps expire_keeps)

lemma svc_run_config: "same_config (fst s) (fst (svc_run ps s))"
proof (induction ps arbitrary: s)
  case (Cons p ps)
  have "keeps False undefined 0 (fst s) (fst (svc_do p (fst s, snd s)))" by (rule svc_do_keeps) simp
  with Cons.IH [of "svc_do p s"] show ?case by (simp add: keeps_def same_config_def)
qed (simp add: same_config_def)

section \<open>The service stays within its limits\<close>

text \<open>
  C23. Start a service with validated limits and a registry whose handlers leave objects their state
  (every registration makes such handlers). Consider a run of creations, requests, admissions,
  completions, retries, local calls, expiries, migrations and retirements, in any order, in which jobs complete that run, the store is cleared when
  nothing runs, and each retirement pass finds the objects it takes still retiring and without a prepared state (\<open>svc_apt_run\<close>; the code does
  not check the last, see \<open>retirement_drops_prepared_state\<close>). After it the store, every mailbox
  and every lease table is within its limit; the counters of roots, prepared migrations, placement
  tickets and transfers are exact and within their limits; the queues of retirements and of running
  migrations are bounded; the counts of readers, writers and tickets of an object are those of the
  jobs that run on it, and no operation has panicked.
\<close>

theorem object_service_bounded:
  assumes "object_limits_validate l = Ok l" "handlers_ok reg"
    and "svc_apt_run ps (object_service_new run me l reg, {#})" "svc_run ps (object_service_new run me l reg, {#}) = (sv, R)"
  shows "hm_len (os_entries sv) \<le> ol_max_objects l
    \<and> (\<forall>obj e. hm_get (os_entries sv) obj = Some e \<longrightarrow>
          length (ad_queue (oe_admission e)) \<le> ol_max_mailbox_per_object l \<and> hm_len (oe_leases e) \<le> ol_max_local_leases l
        \<and> ad_readers (oe_admission e) = running_reads R obj
        \<and> running_writes R obj = (if ad_writer (oe_admission e) then 1 else 0)
        \<and> oe_placement_tickets e = running_placements R obj
        \<and> oe_in_flight e = running_reads R obj + running_writes R obj + running_placements R obj)
    \<and> os_root_count sv = hm_sum oe_roots (os_entries sv) \<and> os_root_count sv \<le> ol_max_roots l
    \<and> os_prepared_count sv = hm_sum prepared_units (os_entries sv) \<and> os_prepared_count sv \<le> ol_max_prepared_migrations l
    \<and> os_placement_count sv = hm_sum oe_placement_tickets (os_entries sv) \<and> os_placement_count sv \<le> ol_max_placement_tickets l
    \<and> os_transfer_count sv = length (os_pending_transfers sv) \<and> os_transfer_count sv \<le> ol_max_transfers l
    \<and> length (os_retirements sv) \<le> ol_max_migrations l \<and> length (os_active_migrations sv) \<le> ol_max_migrations l
    \<and> \<not> os_panicked sv \<and> (\<forall>room da. \<exists>sv' js. retry_ready room da sv = (sv', Ok js))"
proof -
  have inv: "service_inv R sv" using svc_run_inv [OF object_service_new_inv [OF assms(2,1)] assms(3,4)] .
  have "same_config (object_service_new run me l reg) sv"
    using svc_run_config [of "(object_service_new run me l reg, {#})" ps] assms(4) by simp
  then have l: "os_limits sv = l" by (simp add: same_config_def object_service_new_def)
  have entries: "length (ad_queue (oe_admission e)) \<le> ol_max_mailbox_per_object l \<and> hm_len (oe_leases e) \<le> ol_max_local_leases l
      \<and> ad_readers (oe_admission e) = running_reads R obj
      \<and> running_writes R obj = (if ad_writer (oe_admission e) then 1 else 0)
      \<and> oe_placement_tickets e = running_placements R obj
      \<and> oe_in_flight e = running_reads R obj + running_writes R obj + running_placements R obj"
    if "hm_get (os_entries sv) obj = Some e" for obj e
    using service_inv_get [OF inv that] unfolding l entry_ok_def admission_ok_def by blast
  from inv have "hm_len (os_entries sv) \<le> ol_max_objects l" "counters_ok sv" "transfers_ok sv"
      "length (os_retirements sv) \<le> ol_max_migrations l" "length (os_active_migrations sv) \<le> ol_max_migrations l" "\<not> os_panicked sv"
    unfolding service_inv_def l by blast+
  then show ?thesis
    unfolding counters_ok_def transfers_ok_def l using entries retry_ready_inv [OF inv] by blast
qed

section \<open>Who runs on an object\<close>

lemma admit_lets_in:
  assumes "admit a job da now sv = (sv', Ok (Some job'))" "aj_object job = None" "aj_object job' = Some j" "\<not> oj_placement j"
  shows "\<exists>e. hm_get (os_entries sv) (oj_object j) = Some e \<and> may_enter (oj_read j) (oe_admission e)"
  using assms by (auto simp: admit_def Let_def admit_queue_def admit_placement_def split: if_splits sum.splits option.splits)

lemma admit_local_lets_in:
  "admit_local obj rd e sv = (sv', Ok j) \<Longrightarrow> j = \<lparr>oj_object = obj, oj_read = rd, oj_placement = False\<rparr> \<and> may_enter rd (oe_admission e)"
  by (auto simp: admit_local_def Let_def split: if_splits sum.splits)

lemma may_enter_running:
  assumes "service_inv R sv" "hm_get (os_entries sv) obj = Some e" "may_enter rd (oe_admission e)"
  shows "running_writes R obj = 0 \<and> (\<not> rd \<longrightarrow> running_reads R obj = 0)"
  using service_inv_get [OF assms(1,2)] assms(3) by (auto simp: entry_ok_def admission_ok_def may_enter_def split: if_splits)

text \<open>
  C25. After every such run of the service (\<open>svc_apt_run\<close>, as in C23) at most one write runs on an object, and the object of a running job is in
  the store. \<open>admit\<close> and a local call let a call in only while no write runs on its object, and a write only while nothing
  runs on it. (\<open>retry_ready\<close>, which starts queued calls, does not ask this of a write behind reads: C28.)
\<close>

theorem object_writes_exclusive:
  assumes "object_limits_validate l = Ok l" "handlers_ok reg"
    and "svc_apt_run ps (object_service_new run me l reg, {#})" "svc_run ps (object_service_new run me l reg, {#}) = (sv, R)"
  shows "running_writes R obj \<le> 1
    \<and> (\<forall>a job da now sv' job' j. admit a job da now sv = (sv', Ok (Some job')) \<and> aj_object job = None
          \<and> aj_object job' = Some j \<and> \<not> oj_placement j \<longrightarrow>
          running_writes R (oj_object j) = 0 \<and> (\<not> oj_read j \<longrightarrow> running_reads R (oj_object j) = 0))
    \<and> (\<forall>e rd sv' j. hm_get (os_entries sv) obj = Some e \<and> admit_local obj rd e sv = (sv', Ok j) \<longrightarrow>
          running_writes R obj = 0 \<and> (\<not> rd \<longrightarrow> running_reads R obj = 0))
    \<and> (\<forall>j\<in>#R. hm_get (os_entries sv) (oj_object j) \<noteq> None)"
proof -
  have inv: "service_inv R sv" using svc_run_inv [OF object_service_new_inv [OF assms(2,1)] assms(3,4)] .
  then have stored: "\<forall>j\<in>#R. hm_get (os_entries sv) (oj_object j) \<noteq> None" unfolding service_inv_def by blast
  have one: "running_writes R obj \<le> 1"
  proof (cases "hm_get (os_entries sv) obj")
    case None
    with stored have "\<forall>j\<in>#R. oj_object j \<noteq> obj" by auto
    then have "running_writes R obj = 0" by (auto simp: running_writes_def)
    then show ?thesis by simp
  next
    case (Some e)
    from service_inv_get [OF inv this] show ?thesis by (simp add: entry_ok_def admission_ok_def)
  qed
  show ?thesis
    using one stored by (auto dest!: admit_lets_in admit_local_lets_in dest: may_enter_running [OF inv])
qed

section \<open>Leases keep objects, and objects without leases go\<close>

fun lease_run_respected ::
  "object_id \<Rightarrow> locality_id \<Rightarrow> ('v, 's) object_service \<times> running \<Rightarrow> ('v, 's, 't, 'm, 'a, 'o) svc_op list \<Rightarrow> bool"
where
  "lease_run_respected obj loc s [] = True"
| "lease_run_respected obj loc s (p # ps) =
     (lease_respected obj loc (fst s) p \<and> lease_run_respected obj loc (svc_do p s) ps)"

text \<open>
  C24. An object that a locality has leased from its authority, and that is not queued for retirement, stays in the authority's store through
  any sequence of operations in which that locality does not release the lease, expiry passes come before the lease runs out and the store is not
  cleared: calls, migrations of the object, releases by others, roots and retirement passes do not remove it, and it is not queued for
  retirement. And the lease counts from its last renewal. (A lease granted on an object that is already queued for retirement does not keep it:
  \<open>retiring_object_leased_then_removed\<close>.)
\<close>

theorem leased_object_survives:
  assumes "leased (fst s) obj loc" "obj \<notin> rt_object ` set (os_retirements (fst s))" "lease_run_respected obj loc s ps"
  shows "leased (fst (svc_run ps s)) obj loc \<and> obj \<notin> rt_object ` set (os_retirements (fst (svc_run ps s)))
    \<and> (\<forall>t now. now < t + ol_lease_ttl (os_limits (fst s)) \<longrightarrow> lease_live now (fst (renew obj loc t (fst (svc_run ps s)))) obj loc)"
proof -
  have "retained (fst s) obj loc" using assms(1,2) by (simp add: retained_def)
  then have kept: "retained (fst (svc_run ps s)) obj loc" using assms(3)
  proof (induction ps arbitrary: s)
    case (Cons p ps)
    have "keeps True obj loc (fst s) (fst (svc_do p (fst s, snd s)))" using Cons.prems(2) by (intro svc_do_keeps) simp
    with Cons.prems Cons.IH [of "svc_do p s"] show ?case by (simp add: keeps_def)
  qed simp
  moreover have "os_limits (fst (svc_run ps s)) = os_limits (fst s)" using svc_run_config [of s ps] by (simp add: same_config_def)
  ultimately show ?thesis
    by (auto simp: retained_def leased_def lease_live_def renew_def lease_new_def hm_get_insert split: option.splits)
qed

lemma expire_entry_other:
  "obj \<noteq> obj' \<Longrightarrow> hm_get (os_entries (expire_entry now obj' sv)) obj = hm_get (os_entries sv) obj"
  by (simp add: expire_entry_def Let_def collect_other hm_get_insert split: option.split prod.split)

text \<open>An expiry pass does to one entry what \<open>expire_entry\<close> does to it in a service with the same configuration.\<close>

lemma expire_one:
  assumes "hm_wf (os_entries sv)" "hm_get (os_entries sv) obj = Some e"
  obtains sv1 where "hm_get (os_entries sv1) obj = Some e" "same_config sv sv1"
    "hm_get (os_entries (expire now sv)) obj = hm_get (os_entries (expire_entry now obj sv1)) obj"
proof -
  have others: "hm_get (os_entries (fold (expire_entry now) ids sv)) obj = hm_get (os_entries sv) obj
      \<and> same_config sv (fold (expire_entry now) ids sv)" if "obj \<notin> set ids" for ids and sv :: "('a, 'b) object_service"
    using that
  proof (induction ids arbitrary: sv)
    case (Cons k ids)
    then show ?case
      using expire_entry_config [of sv now k] expire_entry_other [of obj k now sv] Cons.IH [of "expire_entry now k sv"]
      by (simp add: same_config_def)
  qed (simp add: same_config_def)
  have "obj \<in> set (map fst (os_entries sv))" using assms(2) by (force simp: hm_get_def dest: map_of_SomeD)
  then obtain xs ys where ids: "map fst (os_entries sv) = xs @ obj # ys" by (meson split_list)
  with assms(1) have "obj \<notin> set xs" "obj \<notin> set ys" by (auto simp: hm_wf_def)
  with others [of xs sv] others [of ys] ids show ?thesis using assms(2) by (intro that) (auto simp: expire_def)
qed

definition unreferenced :: "('v, 's) object_service \<Rightarrow> ('v, 's) object_entry \<Rightarrow> bool" where
  "unreferenced sv e \<longleftrightarrow> oe_authority e = os_local_id sv \<and> oe_lifecycle e = LcResident \<and> oe_state e \<noteq> None
     \<and> entry_idle e \<and> oe_roots e = 0"

lemma expire_entry_unreferenced:
  assumes "hm_get (os_entries sv) obj = Some e" "unreferenced sv e"
  shows "hm_get (os_entries (expire_entry now obj sv)) obj =
    (if expire_leases (os_limits sv) now (oe_leases e) = [] then None
     else Some (e\<lparr>oe_leases := expire_leases (os_limits sv) now (oe_leases e)\<rparr>))"
  using assms
  by (auto simp: expire_entry_def Let_def unreferenced_def expire_lifecycle_def expire_prepared_def entry_idle_def
      collect_def hm_get_insert forget_entry_def) (auto simp: hm_get_def hm_remove_def)

lemma expire_unreferenced:
  assumes "hm_wf (os_entries sv)" "hm_get (os_entries sv) obj = Some e" "unreferenced sv e"
  shows "hm_get (os_entries (expire now sv)) obj =
    (if expire_leases (os_limits sv) now (oe_leases e) = [] then None
     else Some (e\<lparr>oe_leases := expire_leases (os_limits sv) now (oe_leases e)\<rparr>))"
proof -
  obtain sv1 where sv1: "hm_get (os_entries sv1) obj = Some e" "same_config sv sv1"
      "hm_get (os_entries (expire now sv)) obj = hm_get (os_entries (expire_entry now obj sv1)) obj"
    by (rule expire_one [OF assms(1,2)])
  then have "unreferenced sv1 e" "os_limits sv1 = os_limits sv" using assms(3) by (simp_all add: unreferenced_def same_config_def)
  with sv1 expire_entry_unreferenced [of sv1 obj e now] show ?thesis by simp
qed

lemma expire_entries_wf: "hm_wf (os_entries sv) \<Longrightarrow> hm_wf (os_entries (expire now sv))"
proof -
  have collect: "hm_wf (os_entries (collect obj sv))" if "hm_wf (os_entries sv)" for obj and sv :: "('a, 'b) object_service"
    using that by (auto simp: collect_def forget_entry_def split: option.split object_lifecycle.split)
  have "hm_wf (os_entries (expire_entry now obj sv))" if "hm_wf (os_entries sv)" for obj and sv :: "('a, 'b) object_service"
    using that by (auto simp: expire_entry_def Let_def split: option.split prod.split intro!: collect)
  then have "hm_wf (os_entries sv) \<Longrightarrow> hm_wf (os_entries (fold (expire_entry now) ids sv))" for ids
    by (induction ids arbitrary: sv) simp_all
  then show "hm_wf (os_entries sv) \<Longrightarrow> hm_wf (os_entries (expire now sv))" by (simp add: expire_def)
qed

definition run_out :: "instant \<Rightarrow> lease_record \<Rightarrow> bool" where
  "run_out t r \<longleftrightarrow> lr_expires_at r \<le> t \<and> (case lr_suspect_since r of None \<Rightarrow> True | Some since \<Rightarrow> since \<le> t)"

lemma expire_leases_run_out:
  assumes "\<forall>r\<in>set (hm_values m). run_out t1 r"
  shows "\<forall>r\<in>set (hm_values (expire_leases l t1 m)). \<exists>since\<le>t1. lr_suspect_since r = Some since"
  using assms by (auto simp: hm_values_def expire_leases_def mark_suspect_def run_out_def split: option.splits) force+

lemma expire_leases_grace:
  assumes "\<forall>r\<in>set (hm_values m). \<exists>since\<le>t1. lr_suspect_since r = Some since" "t1 + ol_lease_grace l \<le> t2"
  shows "expire_leases l t2 m = []"
  using assms by (force simp: hm_values_def expire_leases_def filter_empty_conv mark_suspect_def lease_kept_def)

text \<open>
  C27. An object at its authority that nobody roots or uses and whose leases have all run out is
  gone after a pass at \<open>t1\<close> and a later one once the grace period has passed: the first pass makes
  the leases suspect, the second drops them and collects the object.
\<close>

theorem unleased_object_collected:
  assumes "hm_wf (os_entries sv)" "hm_get (os_entries sv) obj = Some e" "unreferenced sv e"
    and "\<forall>r\<in>set (hm_values (oe_leases e)). run_out t1 r" "t1 + ol_lease_grace (os_limits sv) \<le> t2"
  shows "hm_get (os_entries (expire t2 (expire t1 sv))) obj = None"
proof (cases "hm_get (os_entries (expire t1 sv)) obj")
  case None
  have "hm_get (os_entries (fold (expire_entry t2) ids sv')) obj = None" if "hm_get (os_entries sv') obj = None" for ids and sv' :: "('a, 'b) object_service"
    using that
  proof (induction ids arbitrary: sv')
    case (Cons k ids)
    have "hm_get (os_entries (expire_entry t2 k sv')) obj = None"
      using Cons.prems by (cases "k = obj") (simp_all add: expire_entry_other, simp add: expire_entry_def)
    with Cons.IH show ?case by simp
  qed simp
  with None show ?thesis unfolding expire_def [of t2] by blast
next
  case (Some e1)
  let ?l = "expire_leases (os_limits sv) t1 (oe_leases e)"
  have e1: "e1 = e\<lparr>oe_leases := ?l\<rparr>" using Some expire_unreferenced [OF assms(1-3), of t1] by (simp split: if_splits)
  have same: "same_config sv (expire t1 sv)" using expire_keeps [of False t1 sv obj 0] by (simp add: keeps_def)
  have "unreferenced (expire t1 sv) e1" using assms(3) e1 same by (simp add: unreferenced_def same_config_def entry_idle_def)
  moreover have "expire_leases (os_limits (expire t1 sv)) t2 (oe_leases e1) = []"
    using expire_leases_grace [OF expire_leases_run_out [OF assms(4)] assms(5)] same e1 by (simp add: same_config_def)
  ultimately show ?thesis using expire_unreferenced [OF expire_entries_wf [OF assms(1)] Some] by simp
qed

section \<open>A small service\<close>

text \<open>A counter with a read and a write action, an object of it, and calls on the object.\<close>

definition demo_get :: "(unit, u64, u64) read_action" where
  "demo_get = \<lparr>rac_ID = 79, rac_SCHEMA_ID = 1, rac_output_SCHEMA_ID = 1, rac_decode = (\<lambda>ss. Ok ()),
     rac_execute = (\<lambda>a t. Ok t), rac_output_encode = (\<lambda>t. res_map_err Fail (u64_encode t))\<rparr>"

definition demo_rw_registry :: "(unit, u64) object_registry" where
  "demo_rw_registry = \<lparr>or_types = [(77, \<lparr>otr_schema = 5, otr_concurrency = OcReadWrite, otr_mobility = MoMigratable,
       otr_snapshot_version = 1, otr_snapshot_schema = 6, otr_decoder = decoder OcReadWrite demo_counter,
       otr_local_wrapper = local_wrapper OcReadWrite demo_counter, otr_freezer = Some (freezer OcReadWrite demo_counter),
       otr_restorer = Some (restorer OcReadWrite demo_counter)\<rparr>)],
     or_actions = [(78, \<lparr>oar_object_type = 77, oar_input_schema = 1, oar_output_schema = 1, oar_access = OaWrite,
         oar_handler = write_handler demo_counter demo_add\<rparr>),
       (79, \<lparr>oar_object_type = 77, oar_input_schema = 1, oar_output_schema = 1, oar_access = OaRead,
         oar_handler = read_handler demo_counter demo_get\<rparr>)],
     or_placements = []\<rparr>"

definition demo_object :: object_id where
  "demo_object = \<lparr>oid_run = 3, oid_unique = 4\<rparr>"

definition demo_call :: "action_id \<Rightarrow> nat \<Rightarrow> unit action_job" where
  "demo_call a n = (demo_job n)\<lparr>aj_action_id := a, aj_input := AvEncoded (envelope_encode \<lparr>en_object = demo_object,
     en_object_type = 77, en_epoch = 1, en_lease_locality = 8, en_domain = 0, en_rooted = False\<rparr> [u64_le 1])\<rparr>"

definition demo_mark :: "bool \<Rightarrow> object_job" where
  "demo_mark rd = \<lparr>oj_object = demo_object, oj_read = rd, oj_placement = False\<rparr>"

definition demo_svc_ops :: "(unit, u64, u64, u64, u64, u64) svc_op list" where
  "demo_svc_ops = [SoCreate demo_object 77 0 5 8 False 0, SoAdmit 78 (demo_call 78 1) True 0, SoAdmit 79 (demo_call 79 2) True 0,
     SoAdmit 78 (demo_call 78 3) True 0, SoComplete (demo_mark False), SoRetry (Suc (Suc 0)) (\<lambda>_. True)]"


lemmas demo_ids = LEASE_RENEW_ACTION_ID_def LEASE_RELEASE_ACTION_ID_def LEASE_ACQUIRE_ACTION_ID_def ROOT_RELEASE_ACTION_ID_def
  TRANSFER_ACK_ACTION_ID_def MIGRATION_FREEZE_ACTION_ID_def MIGRATION_PREPARE_ACTION_ID_def MIGRATION_COMMIT_ACTION_ID_def
  MIGRATION_ACTIVATE_ACTION_ID_def MIGRATION_ROLLBACK_ACTION_ID_def MIGRATION_RETIRE_ACTION_ID_def

lemma demo_rw_registry_types:
  "fst (register_mobile_read_write demo_counter object_registry_default) = demo_rw_registry\<lparr>or_actions := []\<rparr>"
  by (simp add: register_mobile_read_write_def validate_mobile_def mobile_registration_def hm_insert_def hm_get_def
      demo_rw_registry_def demo_counter_def nonzero_u128_id_def register_type_def create_action_id_def reserves_action_def
      reserved_ids_def object_registry_default_def CREATE_ACTION_MASK_def demo_ids)

lemma demo_rw_registry_registered:
  "demo_rw_registry = fst (register_read demo_counter demo_get (fst (register_write demo_counter demo_add
     (fst (register_mobile_read_write demo_counter object_registry_default)))))"
  unfolding demo_rw_registry_types
  by (simp add: register_write_def register_read_def insert_action_def require_type_def nonzero_u128_id_def reserves_action_def
      reserved_ids_def create_action_id_def CREATE_ACTION_MASK_def demo_ids demo_rw_registry_def demo_counter_def demo_add_def
      demo_get_def hm_get_def hm_insert_def)

lemma demo_rw_registry_handlers: "handlers_ok demo_rw_registry"
  unfolding demo_rw_registry_registered by (intro registrations_handlers_ok object_registry_default_handlers)

lemma object_limits_default_valid: "object_limits_validate object_limits_default = Ok object_limits_default"
  by (simp add: object_limits_validate_def object_limits_default_def MIGRATION_HEADER_BYTES_def)

lemma demo_target [simp]: "admit_target False (demo_call a n) = Ok (demo_object, 77, 1, None)"
proof -
  have "envelope_decode_header (envelope_header e) = Ok e" if "envelope_valid e" for e
    using that by (simp add: envelope_decode_header_Ok)
  then show ?thesis
    by (simp add: admit_target_def demo_call_def envelope_inspect_def envelope_encode_def envelope_valid_def object_valid_def demo_object_def)
qed

lemma demo_call_fields [simp]: "aj_object (demo_call a n) = None" "aj_domain (demo_call a n) = 0" "aj_action_id (demo_call a n) = a"
  by (simp_all add: demo_call_def demo_job_def)

abbreviation demo_service_new :: "(unit, u64) object_service" where
  "demo_service_new \<equiv> object_service_new 3 1 object_limits_default demo_rw_registry"

lemmas demo_eval = object_service_new_def create_local_def service_insert_def hm_get_def local_wrapper_def erase_def
  admission_new_def cache_location_def put_entry_def hm_insert_def hm_len_def object_location_new_def checked_add_u64_def
  Let_def admit_def admit_lifecycle_def admit_queue_def may_enter_def enter_def admitted_def service_complete_def
  retry_ready_def job_marks_def object_limits_default_def demo_rw_registry_def demo_counter_def
  demo_mark_def MIGRATION_FREEZE_ACTION_ID_def

lemma demo_apt: "svc_apt_run demo_svc_ops (demo_service_new, {#})"
  by (simp add: demo_svc_ops_def demo_eval)

lemma demo_runs_together:
  "snd (svc_run demo_svc_ops (demo_service_new, {#})) = {# demo_mark True, demo_mark False #}"
  by (simp add: demo_svc_ops_def demo_eval)

theorem object_service_bounded_witness:
  "\<exists>sv R. svc_run demo_svc_ops (demo_service_new, {#}) = (sv, R) \<and> \<not> os_panicked sv
    \<and> hm_len (os_entries sv) \<le> ol_max_objects object_limits_default"
proof -
  obtain sv R where run: "svc_run demo_svc_ops (demo_service_new, {#}) = (sv, R)" by force
  from object_service_bounded [OF object_limits_default_valid demo_rw_registry_handlers demo_apt run] run show ?thesis by blast
qed

theorem object_writes_exclusive_witness:
  "\<exists>sv R. svc_run demo_svc_ops (demo_service_new, {#}) = (sv, R) \<and> running_writes R demo_object \<le> 1
    \<and> (\<forall>j\<in>#R. hm_get (os_entries sv) (oj_object j) \<noteq> None)"
proof -
  obtain sv R where run: "svc_run demo_svc_ops (demo_service_new, {#}) = (sv, R)" by force
  from object_writes_exclusive [OF object_limits_default_valid demo_rw_registry_handlers demo_apt run, of demo_object] run
  show ?thesis by blast
qed

definition demo_create :: "(unit, u64, u64, u64, u64, u64) svc_op" where
  "demo_create = SoCreate demo_object 77 0 5 8 False 0"

definition demo_service :: "(unit, u64) object_service" where
  "demo_service = fst (svc_do demo_create (demo_service_new, {#}))"

definition demo_entry :: "(unit, u64) object_entry" where
  "demo_entry = \<lparr>oe_object_type = 77, oe_authority = 1,
     oe_location = \<lparr>loc_locality = 1, loc_domain = 0, loc_slot = 1, loc_generation = 1, loc_epoch = 1\<rparr>,
     oe_state = Some (EsReadWrite False 5), oe_lifecycle = LcResident, oe_prepared = None, oe_snapshot_bytes = 0,
     oe_leases = [(8, \<lparr>lr_expires_at = 30000000000, lr_suspect_since = None\<rparr>)], oe_roots = 0, oe_in_flight = 0,
     oe_placement_tickets = 0, oe_admission = admission_new\<rparr>"

lemma demo_service_fields:
  "os_entries demo_service = [(demo_object, demo_entry)]" "os_local_id demo_service = 1"
  "os_limits demo_service = object_limits_default" "os_registry demo_service = demo_rw_registry" "os_retirements demo_service = []"
  by (simp_all add: demo_service_def demo_create_def demo_entry_def demo_eval)

theorem leased_object_survives_witness:
  "leased (fst (svc_run [SoAdmit 78 (demo_call 78 1) True 0, SoExpire 5] (demo_service, {#}))) demo_object 8
    \<and> lease_live 31 (fst (renew demo_object 8 20 (fst (svc_run [SoAdmit 78 (demo_call 78 1) True 0, SoExpire 5] (demo_service, {#}))))) demo_object 8"
proof -
  let ?ps = "[SoAdmit 78 (demo_call 78 1) True 0, SoExpire 5]" and ?s = "(demo_service, {#})"
  have "leased (fst ?s) demo_object 8" by (simp add: leased_def demo_service_fields hm_get_def demo_entry_def)
  moreover have "lease_run_respected demo_object 8 ?s ?ps"
    by (simp add: lease_live_def demo_service_fields hm_get_def demo_entry_def admit_def Let_def demo_rw_registry_def
        MIGRATION_FREEZE_ACTION_ID_def admit_lifecycle_def admit_queue_def may_enter_def enter_def put_entry_def hm_insert_def admission_new_def)
  ultimately show ?thesis
    using leased_object_survives [of ?s demo_object 8 ?ps] by (simp add: demo_service_fields object_limits_default_def)
qed

theorem unleased_object_collected_witness:
  "hm_get (os_entries (expire 60000000000 (expire 30000000000 demo_service))) demo_object = None"
  by (rule unleased_object_collected [where e = demo_entry])
    (simp_all add: demo_service_fields hm_wf_def hm_get_def unreferenced_def demo_entry_def entry_idle_def admission_new_def
      hm_values_def run_out_def object_limits_default_def)

section \<open>Where admission and retirement do less than they mean to\<close>

lemma retry_entries_other: "obj \<notin> set objs \<Longrightarrow> hm_get (os_entries (fst (retry_entries room da objs sv))) obj = hm_get (os_entries sv) obj"
proof (induction objs arbitrary: room sv)
  case (Cons obj' objs)
  have rest: "hm_get (os_entries sv2) obj = hm_get (os_entries sv) obj"
    if "retry_entries n da objs (put_entry obj' e' sv) = (sv2, x)" for n e' sv2 x
    using Cons.IH [of n "put_entry obj' e' sv"] Cons.prems that by (simp add: hm_get_insert)
  show ?case using Cons by (auto simp: hm_get_insert rest split: option.split prod.split sum.split)
qed simp

text \<open>A queued call that can start now.\<close>

definition startable :: "(domain_id \<Rightarrow> bool) \<Rightarrow> bool \<Rightarrow> 'v action_job \<Rightarrow> bool" where
  "startable da rd job \<longleftrightarrow> da (aj_domain job) \<and> aj_action_id job \<noteq> MIGRATION_FREEZE_ACTION_ID
     \<and> (\<exists>j. aj_object job = Some j \<and> oj_read j = rd)"

lemma retry_entry_together:
  assumes "\<forall>job\<in>set rs. startable da True job" "startable da False w" "length rs < room"
  shows "\<exists>e'. retry_entry room da (rs @ w # rest) e = (e', Ok (rs @ [w]))
    \<and> ad_readers (oe_admission e') = ad_readers (oe_admission e) + length rs \<and> ad_writer (oe_admission e')"
  using assms
proof (induction rs arbitrary: room e)
  case Nil
  then obtain k where "room = Suc k" by (cases room) auto
  then show ?case using Nil by (auto simp: startable_def Let_def enter_def)
next
  case (Cons job rs)
  then obtain k where k: "room = Suc k" by (cases room) auto
  obtain j where j: "aj_object job = Some j" "oj_read j" "da (aj_domain job)" "aj_action_id job \<noteq> MIGRATION_FREEZE_ACTION_ID"
    using Cons.prems(1) by (auto simp: startable_def)
  define e1 where "e1 = e\<lparr>oe_admission := (enter True (oe_admission e))\<lparr>ad_queue := rs @ w # rest\<rparr>, oe_in_flight := oe_in_flight e + 1\<rparr>"
  obtain e' where "retry_entry k da (rs @ w # rest) e1 = (e', Ok (rs @ [w]))" "ad_readers (oe_admission e') = ad_readers (oe_admission e1) + length rs"
    "ad_writer (oe_admission e')" using Cons.IH [of k e1] Cons.prems k by auto
  then show ?case using j k by (simp add: Let_def e1_def enter_def)
qed

text \<open>
  C28. \<open>retry_ready\<close> looks at the readers and the writer of an object once, before it takes the queued
  calls. When nothing runs on the object it looks at first and reads wait in its mailbox with a write behind them, all of which can start and for
  which there is room, it starts the reads and the write together: afterwards the object has all these readers and a
  writer. (Design document: writes are exclusive.) The lock inside the handler then refuses some of them with \<open>object admission saturated\<close>.
\<close>

theorem queued_reads_and_write_run_together:
  assumes "hm_wf (os_entries sv)" "os_entries sv = (obj, e) # m" "ad_readers (oe_admission e) = 0" "\<not> ad_writer (oe_admission e)"
    and "ad_queue (oe_admission e) = rs @ w # rest" "\<forall>job\<in>set rs. startable da True job" "startable da False w" "length rs < room"
  shows "\<exists>e'. hm_get (os_entries (fst (retry_ready room da sv))) obj = Some e'
    \<and> ad_readers (oe_admission e') = length rs \<and> ad_writer (oe_admission e')
    \<and> (\<forall>js. snd (retry_ready room da sv) = Ok js \<longrightarrow> (\<exists>js'. js = rs @ w # js'))"
proof -
  obtain e' where e': "retry_entry room da (rs @ w # rest) e = (e', Ok (rs @ [w]))" "ad_readers (oe_admission e') = length rs" "ad_writer (oe_admission e')"
    using retry_entry_together [OF assms(6-8), of rest e] assms(3) by auto
  let ?next = "retry_entries (room - length (rs @ [w])) da (map fst m) (put_entry obj e' sv)"
  have get: "hm_get (os_entries sv) obj = Some e" using assms(2) by (simp add: hm_get_def)
  have "obj \<notin> set (map fst m)" using assms(1,2) by (auto simp: hm_wf_def)
  then have stays: "hm_get (os_entries (fst ?next)) obj = Some e'" using retry_entries_other [of obj "map fst m" "room - length (rs @ [w])" da "put_entry obj e' sv"] by (simp add: hm_get_insert)
  have "retry_ready room da sv = (case ?next of (sv', Inl err) \<Rightarrow> (sv', Inl err) | (sv', Inr js') \<Rightarrow> (sv', Ok (rs @ w # js')))"
    using assms(2-5,8) get e'(1) by (simp add: retry_ready_def)
  then show ?thesis using stays e' by (cases ?next) (auto split: sum.splits)
qed

definition demo_queued :: "bool \<Rightarrow> nat \<Rightarrow> unit action_job" where
  "demo_queued rd n = (demo_call (if rd then 79 else 78) n)\<lparr>aj_object := Some (demo_mark rd)\<rparr>"

definition demo_mailbox :: "(unit, u64) object_service" where
  "demo_mailbox = demo_service\<lparr>os_entries := [(demo_object, demo_entry\<lparr>oe_admission := admission_new\<lparr>ad_queue := [demo_queued True 2, demo_queued False 3]\<rparr>\<rparr>)]\<rparr>"

theorem queued_reads_and_write_run_together_witness:
  "\<exists>e'. hm_get (os_entries (fst (retry_ready 2 (\<lambda>_. True) demo_mailbox))) demo_object = Some e'
    \<and> ad_readers (oe_admission e') = 1 \<and> ad_writer (oe_admission e')"
proof -
  let ?e = "demo_entry\<lparr>oe_admission := admission_new\<lparr>ad_queue := [demo_queued True 2, demo_queued False 3]\<rparr>\<rparr>"
  have "hm_wf (os_entries demo_mailbox)" "os_entries demo_mailbox = (demo_object, ?e) # []"
    by (simp_all add: demo_mailbox_def hm_wf_def)
  moreover have "\<forall>job\<in>set [demo_queued True 2]. startable (\<lambda>_. True) True job" "startable (\<lambda>_. True) False (demo_queued False 3)"
    by (simp_all add: startable_def demo_queued_def demo_mark_def demo_ids)
  ultimately obtain e' where "hm_get (os_entries (fst (retry_ready 2 (\<lambda>_. True) demo_mailbox))) demo_object = Some e'"
      "ad_readers (oe_admission e') = length [demo_queued True 2]" "ad_writer (oe_admission e')"
    using queued_reads_and_write_run_together [of demo_mailbox demo_object ?e "[]" "[demo_queued True 2]" "demo_queued False 3" "[]" "\<lambda>_. True" 2]
    by (auto simp: admission_new_def)
  then show ?thesis by simp
qed

text \<open>The same in a run from the start: a write runs, a read and a write come and wait, the write ends, and both start.\<close>

lemma demo_read_beside_write:
  "running_reads (snd (svc_run demo_svc_ops (demo_service_new, {#}))) demo_object = 1
    \<and> running_writes (snd (svc_run demo_svc_ops (demo_service_new, {#}))) demo_object = 1"
  by (simp add: demo_runs_together running_reads_def running_writes_def demo_mark_def)

text \<open>
  When the first message of a retirement pass cannot be sent, the other retirements the pass took
  are in no queue any more. Their objects stay in the store as retiring, and \<open>collect\<close> never queues a
  retiring object again, so they stay for ever.
\<close>

theorem unsent_retirements_lost:
  assumes "os_retirements sv = r # rs" "length (r # rs) \<le> limit" "\<not> sent r"
  shows "os_retirements (retire_pass sent limit sv) = [r] \<and> os_entries (retire_pass sent limit sv) = os_entries sv
    \<and> (\<forall>obj e l. hm_get (os_entries sv) obj = Some e \<and> oe_authority e = os_local_id sv \<and> oe_lifecycle e = LcRetiring l \<longrightarrow>
          collect obj (retire_pass sent limit sv) = retire_pass sent limit sv)"
  using assms by (auto simp: retire_pass_def take_retirements_def requeue_retirement_def collect_def)

definition demo_retirement :: "u128 \<Rightarrow> retirement" where
  "demo_retirement n = \<lparr>rt_object = \<lparr>oid_run = 3, oid_unique = n\<rparr>, rt_object_type = 77, rt_authority = 1,
     rt_location = \<lparr>loc_locality = 2, loc_domain = 0, loc_slot = 1, loc_generation = 1, loc_epoch = 2\<rparr>,
     rt_snapshot_version = 1, rt_snapshot_schema = 6\<rparr>"

theorem unsent_retirements_lost_witness:
  "os_retirements (retire_pass (\<lambda>_. False) 8 (demo_service\<lparr>os_retirements := [demo_retirement 5, demo_retirement 6]\<rparr>))
    = [demo_retirement 5]"
  using unsent_retirements_lost [of "demo_service\<lparr>os_retirements := [demo_retirement 5, demo_retirement 6]\<rparr>"
      "demo_retirement 5" "[demo_retirement 6]" 8 "\<lambda>_. False"] by simp

text \<open>
  A lease is granted on an object that is being retired, and the retirement then removes the object
  all the same: \<open>acquire\<close> does not look at the lifecycle and \<open>finish_retirement\<close> not at the leases.
\<close>

lemma retiring_object_leased_then_removed:
  assumes "hm_get (os_entries sv) (rt_object r) = Some e" "oe_lifecycle e = LcRetiring l" "oe_leases e = []"
    and "0 < ol_max_local_leases (os_limits sv)" "os_retirements sv = [r]" "sent r"
  shows "snd (acquire (rt_object r) loc now sv)
    \<and> hm_get (os_entries (retire_pass sent 1 (fst (acquire (rt_object r) loc now sv)))) (rt_object r) = None"
  using assms
  by (auto simp: acquire_def hm_len_def retire_pass_def take_retirements_def finish_retirement_def forget_entry_def)
    (auto simp: hm_get_def hm_remove_def)

text \<open>
  A prepare request that comes for a retiring object is accepted, and the queued retirement then removes the object with the prepared state. The
  count of prepared migrations stays one too high for ever, since nothing is left to give it back.
\<close>

lemma prepare_entry_kept:
  "prepare_migration p now sv = (sv1, Ok q) \<Longrightarrow> hm_get (os_entries sv) (mp_object p) = Some e \<Longrightarrow> oe_prepared e = None
    \<Longrightarrow> os_prepared_count sv1 = os_prepared_count sv + 1 \<and> os_retirements sv1 = os_retirements sv"
  by (auto simp: prepare_migration_def prepare_install_def prepare_entry_def Let_def split: if_splits sum.splits option.splits)

lemma retirement_drops_prepared_state:
  assumes "prepare_migration p now sv = (sv1, Ok q)" "hm_get (os_entries sv) (mp_object p) = Some e" "oe_lifecycle e = LcRetiring l" "oe_prepared e = None"
    and "os_retirements sv = [r]" "rt_object r = mp_object p" "sent r"
  shows "hm_get (os_entries (retire_pass sent 1 sv1)) (mp_object p) = None
    \<and> os_prepared_count (retire_pass sent 1 sv1) = os_prepared_count sv + 1"
proof -
  note kept = prepare_entry_kept [OF assms(1,2,4)]
  then have "retire_pass sent 1 sv1 = forget_entry (mp_object p) (sv1\<lparr>os_retirements := []\<rparr>)"
    using assms(5-7) by (simp add: retire_pass_def take_retirements_def finish_retirement_def)
  then show ?thesis using kept by (auto simp: forget_entry_def hm_get_def hm_remove_def)
qed

text \<open>
  Collecting an object takes it out of the resolver map but not out of the queue that orders it, so
  an entry made later can push the map over its limit: the oldest name in the queue is gone already.
\<close>

lemma resolver_exceeds_limit:
  assumes "ol_max_resolver_entries (os_limits sv) = 1" "os_resolver sv = []" "os_resolver_order sv = []" "distinct [a, b, c]"
  shows "hm_len (os_resolver (cache_location c l (cache_location b l (forget_entry a (cache_location a l sv))))) = 2"
  using assms by (auto simp: cache_location_def forget_entry_def hm_len_def hm_get_def hm_insert_def hm_remove_def)

text \<open>
  A freeze request that finds the mailbox full is refused, but the object is freezing from then on
  and refuses calls until the freeze runs out.
\<close>

lemma refused_freeze_leaves_freezing:
  assumes "admit_target True job = Ok (obj, t, n, Some m)" "hm_get (os_entries sv) obj = Some e" "oe_object_type e = t"
    and "loc_epoch (oe_location e) = n" "oe_lifecycle e = LcResident"
    and "length (ad_queue (oe_admission e)) = ol_max_mailbox_per_object (os_limits sv)" "0 < ol_max_mailbox_per_object (os_limits sv)"
    and "hm_get (or_placements (os_registry sv)) MIGRATION_FREEZE_ACTION_ID = None"
  shows "\<exists>sv' e'. admit MIGRATION_FREEZE_ACTION_ID job da now sv
      = (sv', Err (ReResourceExhausted RkObjectMailbox (ol_max_mailbox_per_object (os_limits sv))))
    \<and> hm_get (os_entries sv') obj = Some e' \<and> oe_lifecycle e' = LcFreezing m (now + ol_forwarding_ttl (os_limits sv))"
  using assms by (auto simp: admit_def Let_def admit_lifecycle_def admit_queue_def hm_get_insert)

text \<open>
  A remote write that panics poisons the lock of the object: every later request handler answers
  \<open>object admission saturated\<close>. A local write that panics does not.
\<close>

lemma panicking_write_disables_object:
  assumes "wac_decode A ss = Ok a" "ot_downcast T v = Some t" "wac_execute A a t = (t', Err Panic)"
  shows "\<exists>es. write_handler T A (Some (EsReadWrite False v)) ss = (Some es, Err Panic)
    \<and> (\<forall>B ss' b. wac_decode B ss' = Ok b \<longrightarrow>
          write_handler T B (Some es) ss' = (Some es, Err (Fail (ae_user (lit ''object admission saturated'')))))"
  using assms by (auto simp: write_handler_def resident_state_def lock_typed_def write_locked_def)

end
