(* ===== verification/Conservation.thy ===== *)
theory Conservation
  imports Serving ObjectProps
begin

text \<open>
  Where an accepted request is. From the time the deduplication table marks a remote request as
  running until its reply is recorded there, the request is in exactly one place: the mailbox of an
  object, a domain (waiting, running, or finished and on its way back), or the queue of owed
  replies. The lemmas follow one request through every handler of the runtime.
\<close>

section \<open>Mailboxes\<close>

definition waiting :: "('v, 's) object_service \<Rightarrow> object_id \<Rightarrow> 'v action_job list" where
  "waiting sv obj = (case hm_get (os_entries sv) obj of None \<Rightarrow> [] | Some e \<Rightarrow> ad_queue (oe_admission e))"

text \<open>Operations other than the admission of jobs leave every mailbox as it is.\<close>

named_theorems quiet \<open>operations that leave the mailboxes alone\<close>

lemma waiting_put: "waiting (put_entry obj e sv) = (waiting sv)(obj := ad_queue (oe_admission e))"
  by (auto simp: waiting_def put_entry_def hm_get_insert)

lemma waiting_get: "hm_get (os_entries sv) obj = Some e \<Longrightarrow> waiting sv obj = ad_queue (oe_admission e)"
  by (simp add: waiting_def)

lemma waiting_none: "hm_get (os_entries sv) obj = None \<Longrightarrow> waiting sv obj = []"
  by (simp add: waiting_def)

lemmas waiting_simps = waiting_put fun_upd_idem_iff waiting_get waiting_none

lemma waiting_forget: "waiting sv obj = [] \<Longrightarrow> waiting (forget_entry obj sv) = waiting sv"
  by (auto simp: waiting_def forget_entry_def hm_get_def hm_remove_def)

lemma waiting_fields [simp]:
  "waiting (sv\<lparr>os_next_slot := a\<rparr>) = waiting sv" "waiting (sv\<lparr>os_resolver := b\<rparr>) = waiting sv"
  "waiting (sv\<lparr>os_resolver_order := c\<rparr>) = waiting sv" "waiting (sv\<lparr>os_local_calls := d\<rparr>) = waiting sv"
  "waiting (sv\<lparr>os_remote_calls := d\<rparr>) = waiting sv" "waiting (sv\<lparr>os_root_count := n\<rparr>) = waiting sv"
  "waiting (sv\<lparr>os_transfer_count := n\<rparr>) = waiting sv" "waiting (sv\<lparr>os_placement_count := n\<rparr>) = waiting sv"
  "waiting (sv\<lparr>os_prepared_count := n\<rparr>) = waiting sv" "waiting (sv\<lparr>os_pending_transfers := ts\<rparr>) = waiting sv"
  "waiting (sv\<lparr>os_active_migrations := ms\<rparr>) = waiting sv" "waiting (sv\<lparr>os_completed_migrations := d\<rparr>) = waiting sv"
  "waiting (sv\<lparr>os_rolled_back_migrations := d\<rparr>) = waiting sv" "waiting (sv\<lparr>os_failed_migrations := d\<rparr>) = waiting sv"
  "waiting (sv\<lparr>os_migrated_bytes := d\<rparr>) = waiting sv" "waiting (sv\<lparr>os_retirements := rs\<rparr>) = waiting sv"
  "waiting (sv\<lparr>os_panicked := p\<rparr>) = waiting sv"
  by (simp_all add: waiting_def fun_eq_iff)

lemma waiting_cache [simp]: "waiting (cache_location obj l sv) = waiting sv"
  by (simp add: cache_location_def case_prod_unfold Let_def del: cache_insert.simps)

lemma collect_quiet [quiet, simp]: "waiting (collect obj sv) = waiting sv"
proof (cases "hm_get (os_entries sv) obj")
  case (Some e)
  show ?thesis
  proof (cases "entry_idle e")
    case True
    then have "waiting sv obj = []" "ad_queue (oe_admission e) = []" using waiting_get [OF Some] by (simp_all add: entry_idle_def)
    then show ?thesis
      unfolding collect_def Some option.case
      by (simp add: waiting_forget waiting_put fun_upd_idem_iff split: object_lifecycle.split option.split)
  qed (simp add: collect_def Some)
qed (simp add: collect_def)

lemma service_insert_quiet [quiet]: "waiting (fst (service_insert env st now sv)) = waiting sv"
  by (simp add: service_insert_def Let_def admission_new_def waiting_simps split: option.split sum.split)

lemma create_quiet [quiet]:
  "waiting (fst (create_local obj' t d v k rooted now sv)) = waiting sv" "waiting (fst (create_run t ss now sv)) = waiting sv"
  by (auto simp: create_local_def create_run_def split_beta service_insert_quiet split: option.split sum.split)

lemma ack_transfer_quiet [quiet]: "waiting (fst (ack_transfer obj loc sv)) = waiting sv"
  by (simp add: ack_transfer_def)

lemma acquire_quiet [quiet]: "waiting (fst (acquire obj loc now sv)) = waiting sv"
  by (simp add: acquire_def waiting_simps split: option.split)

lemma renew_quiet [quiet]: "waiting (fst (renew obj loc now sv)) = waiting sv"
  by (simp add: renew_def waiting_simps split: option.split)

lemma begin_transfer_quiet [quiet]: "waiting (fst (begin_transfer obj loc now sv)) = waiting sv"
proof -
  let ?sv = "sv\<lparr>os_transfer_count := os_transfer_count sv + 1, os_pending_transfers := (obj, loc) # os_pending_transfers sv\<rparr>"
  have "waiting (fst (acquire obj loc now ?sv)) = waiting sv" by (simp add: acquire_quiet)
  then show ?thesis by (auto simp: begin_transfer_def Let_def split: option.split prod.split bool.split)
qed

lemma release_root_quiet [quiet]: "waiting (fst (release_root obj sv)) = waiting sv"
  by (simp add: release_root_def waiting_simps split: option.split)

lemma release_quiet [quiet]: "waiting (fst (release obj loc sv)) = waiting sv"
  by (simp add: release_def ack_transfer_quiet waiting_simps split: option.split)

lemma service_complete_quiet [quiet]: "waiting (fst (service_complete j sv)) = waiting sv"
  by (auto simp: service_complete_def Let_def waiting_simps split: option.split)

lemma pin_drop_quiet [quiet]: "waiting (pin_drop j sv) = waiting sv"
  by (simp add: pin_drop_def service_complete_quiet)

lemma admit_local_quiet [quiet]:
  "hm_get (os_entries sv) obj = Some e \<Longrightarrow> waiting (fst (admit_local obj rd e sv)) = waiting sv"
  by (simp add: admit_local_def Let_def enter_def waiting_simps split: sum.split)

lemma call_read_local_quiet [quiet]: "waiting (fst (call_read_local T A obj t l a sv)) = waiting sv"
proof -
  have pin: "waiting sv1 = waiting sv" if "local_entry obj t l sv = Inr e" "admit_local obj True e sv = (sv1, r)" for e sv1 r
    using admit_local_quiet [OF local_entry_get [OF that(1)], of True] that(2) by simp
  show ?thesis
    unfolding call_read_local_def Let_def
    by (auto simp: pin_drop_quiet split: sum.split prod.split option.split erased_state.split dest: pin)
qed

lemma call_write_local_quiet [quiet]: "waiting (fst (call_write_local T A obj t l a sv)) = waiting sv"
proof -
  have pin: "waiting sv1 = waiting sv" if "local_entry obj t l sv = Inr e" "admit_local obj False e sv = (sv1, r)" for e sv1 r
    using admit_local_quiet [OF local_entry_get [OF that(1)], of False] that(2) by simp
  have put: "waiting (put_entry obj (e\<lparr>oe_state := st, oe_admission := enter False (oe_admission e), oe_in_flight := n\<rparr>) (sv1\<lparr>os_local_calls := c\<rparr>)) = waiting sv"
    if "local_entry obj t l sv = Inr e" "admit_local obj False e sv = (sv1, Inr j)" for e sv1 j st n c
    using pin [OF that] waiting_get [OF admit_local_get [OF that(2)]] by (simp add: waiting_put fun_upd_idem_iff)
  show ?thesis
    unfolding call_write_local_def Let_def
    by (auto simp: pin_drop_quiet split: sum.split prod.split option.split dest: pin intro: put)
qed

lemma entry_for_migration_waiting:
  "entry_for_migration p sv = Ok e \<Longrightarrow> waiting sv (mp_object p) = ad_queue (oe_admission e)"
  by (rule waiting_get [OF entry_for_migration_get])

lemma freeze_state_quiet [quiet]:
  "waiting sv (mp_object p) = ad_queue (oe_admission e) \<Longrightarrow> waiting (fst (freeze_state frz p e sv)) = waiting sv"
  by (simp add: freeze_state_def Let_def waiting_put fun_upd_idem_iff split: option.split prod.split sum.split fault.split)

lemma freeze_migration_quiet [quiet]: "waiting (fst (freeze_migration p now sv)) = waiting sv"
  unfolding freeze_migration_def
  by (auto simp: freeze_state_quiet dest!: entry_for_migration_waiting split: sum.split option.split object_lifecycle.split)

lemma prepare_install_quiet [quiet]: "waiting (fst (prepare_install p location n restored now sv)) = waiting sv"
proof -
  have "waiting sv (mp_object p) = ad_queue (oe_admission (prepare_entry p now sv))"
    by (simp add: prepare_entry_def waiting_def admission_new_def split: option.split)
  then show ?thesis by (simp add: prepare_install_def Let_def waiting_put fun_upd_idem_iff split: option.split)
qed

lemma prepare_migration_quiet [quiet]: "waiting (fst (prepare_migration p now sv)) = waiting sv"
  unfolding prepare_migration_def Let_def
  by (simp add: prepare_install_quiet split: sum.split option.split)

lemma commit_migration_quiet [quiet]: "waiting (fst (commit_migration p now sv)) = waiting sv"
  unfolding commit_migration_def
  by (auto simp: waiting_put fun_upd_idem_iff dest!: entry_for_migration_waiting split: sum.split)

lemma activate_migration_quiet [quiet]: "waiting (fst (activate_migration p sv)) = waiting sv"
  unfolding activate_migration_def Let_def
  by (auto simp: waiting_put fun_upd_idem_iff dest!: entry_for_migration_waiting split: sum.split option.split)

lemma rollback_migration_quiet [quiet]: "waiting (fst (rollback_migration p sv)) = waiting sv"
  unfolding rollback_migration_def Let_def by (simp add: waiting_simps split: option.split object_lifecycle.split)

lemma retire_migration_quiet [quiet]: "waiting (fst (retire_migration p now sv)) = waiting sv"
  unfolding retire_migration_def
  by (auto simp: waiting_put fun_upd_idem_iff dest!: entry_for_migration_waiting split: sum.split)

lemma migration_run_quiet: "(\<And>p. waiting (fst (f p sv)) = waiting sv) \<Longrightarrow> waiting (fst (migration_run f ss sv)) = waiting sv"
  by (simp add: migration_run_def split_beta split: sum.split)

lemma action_run_quiet [quiet]: "waiting (fst (action_run a ss sv)) = waiting sv"
  unfolding action_run_def Let_def by (auto simp: waiting_simps split_beta split: sum.split option.split)

lemma service_run_quiet [quiet]: "waiting (fst (service_run h ss now sv)) = waiting sv"
  by (cases h) (auto simp: lease_run_def acquire_lease_run_def root_release_run_def transfer_ack_run_def quiet split_beta
      intro: migration_run_quiet split: sum.split option.split bool.split)

lemma expire_entry_quiet [quiet]: "waiting (expire_entry now obj sv) = waiting sv"
proof -
  have stages: "oe_admission (fst (expire_lifecycle l me now e)) = oe_admission e"
      "oe_admission (fst (expire_prepared now e)) = oe_admission e" for l me and e :: "('a, 'b) object_entry"
    by (simp_all add: expire_lifecycle_def expire_prepared_def take_prepared_def split: object_lifecycle.split option.split)
  show ?thesis
    by (simp add: expire_entry_def Let_def split_beta waiting_simps stages split: option.split)
qed

lemma expire_quiet [quiet]: "waiting (expire now sv) = waiting sv"
proof -
  have "waiting (fold (expire_entry now) objs sv) = waiting sv" for objs
    by (induction objs arbitrary: sv) (simp_all add: expire_entry_quiet)
  then show ?thesis by (simp add: expire_def)
qed

section \<open>The ledger\<close>

text \<open>A remote request, its action and its domain; local calls are followed by the pending table instead.\<close>

type_synonym request_key = "request_id \<times> action_id \<times> domain_id"

definition job_keys :: "'v action_job \<Rightarrow> request_key multiset" where
  "job_keys job = (if aj_local job then {#} else {#(aj_request job, aj_action_id job, aj_domain job)#})"

definition queue_keys :: "'v action_job list \<Rightarrow> request_key multiset" where
  "queue_keys jobs = sum_list (map job_keys jobs)"

definition mail_keys :: "('v, 's) object_service \<Rightarrow> request_key multiset" where
  "mail_keys sv = hm_sum (\<lambda>e. queue_keys (ad_queue (oe_admission e))) (os_entries sv)"

fun item_keys :: "'v action_job + 'v completion \<Rightarrow> request_key multiset" where
  "item_keys (Inl job) = job_keys job"
| "item_keys (Inr c) = (if cm_local c then {#} else {#(cm_request c, cm_action_id c, cm_domain c)#})"

definition domain_keys :: "'v domain_registry \<Rightarrow> request_key multiset" where
  "domain_keys ds = sum_mset (image_mset item_keys (registry_items ds))"

definition message_key :: "rt_message \<Rightarrow> request_key" where
  "message_key m = (rm_request m, rm_action m, rm_domain m)"

definition reply_keys :: "queued_response list \<Rightarrow> request_key multiset" where
  "reply_keys qs = mset (map (\<lambda>q. message_key (qr_message q)) (filter qr_cache qs))"

definition opt_mark :: "object_job option \<Rightarrow> running" where
  "opt_mark m = (case m of None \<Rightarrow> {#} | Some j \<Rightarrow> {#j#})"

fun item_mark :: "'v action_job + 'v completion \<Rightarrow> running" where
  "item_mark (Inl job) = opt_mark (aj_object job)"
| "item_mark (Inr c) = opt_mark (cm_object c)"

text \<open>The jobs that run on objects are those the domains hold.\<close>

definition object_marks :: "'v domain_registry \<Rightarrow> running" where
  "object_marks ds = sum_mset (image_mset item_mark (registry_items ds))"

definition running_as :: "dedup_table \<Rightarrow> request_id \<Rightarrow> (action_id \<times> domain_id) option" where
  "running_as t r = (case hm_get (dt_entries t) r of Some (DsRunning a d c) \<Rightarrow> Some (a, d) | _ \<Rightarrow> None)"

text \<open>Every running request of the table is counted once, and nothing else is.\<close>

definition balanced :: "request_key multiset \<Rightarrow> dedup_table \<Rightarrow> bool" where
  "balanced M t \<longleftrightarrow> hm_wf (dt_entries t)
     \<and> (\<forall>r a d. count M (r, a, d) = (if running_as t r = Some (a, d) then 1 else 0))"

text \<open>
  \<open>held K R rt\<close>: the books of the runtime balance when the requests \<open>K\<close> and the admissions \<open>R\<close> in the
  hands of a handler are added to what the components hold.
\<close>

definition held :: "request_key multiset \<Rightarrow> running \<Rightarrow> ('v, 'n, 's) runtime \<Rightarrow> bool" where
  "held K R rt \<longleftrightarrow> registry_ok (ru_domains rt)
     \<and> service_inv (R + object_marks (ru_domains rt)) (ru_objects rt)
     \<and> balanced (K + (mail_keys (ru_objects rt) + domain_keys (ru_domains rt) + reply_keys (sv_responses (ru_server rt))))
         (sv_dedup (ru_server rt))
     \<and> (\<forall>q\<in>set (sv_responses (ru_server rt)). checked_total (rm_payload (qr_message q)) \<noteq> None)"

subsection \<open>The table\<close>

lemma running_as_expire: "hm_wf (dt_entries t) \<Longrightarrow> running_as (dedup_expire now t) = running_as t"
  by (auto simp: running_as_def fun_eq_iff dedup_expire_get(2) split: option.split dedup_state.split)

lemma balanced_expire: "balanced M t \<Longrightarrow> balanced M (dedup_expire now t)"
  by (simp add: balanced_def running_as_expire dedup_expire_get(1))

lemma balanced_begin:
  assumes "balanced M t" "dedup_begin r a d now (t, fs) = ((t', fs'), res)"
  shows "(\<exists>f. res = Ok (DdNew f)) \<Longrightarrow> balanced (add_mset (r, a, d) M) t'"
    and "\<nexists>f. res = Ok (DdNew f) \<Longrightarrow> balanced M t'"
proof -
  let ?t = "dedup_expire now t"
  have exp: "balanced M ?t" by (rule balanced_expire [OF assms(1)])
  have found: "disposition_of r st \<noteq> DdNew f" for st f
    by (cases "(r, st)" rule: disposition_of.cases) auto
  show "\<nexists>f. res = Ok (DdNew f) \<Longrightarrow> balanced M t'"
    using assms(2) exp by (auto simp: dedup_begin_def Let_def split: option.splits if_splits)
  assume "\<exists>f. res = Ok (DdNew f)"
  then have none: "hm_get (dt_entries ?t) r = None"
      and t': "t' = ?t\<lparr>dt_entries := hm_insert r (DsRunning a d (length fs)) (dt_entries ?t)\<rparr>"
    using assms(2) found by (auto simp: dedup_begin_def Let_def split: option.splits if_splits)
  have "running_as ?t r = None" "running_as t' = (running_as ?t)(r := Some (a, d))"
    using none t' by (auto simp: running_as_def fun_eq_iff hm_get_insert)
  then show "balanced (add_mset (r, a, d) M) t'"
    using exp t' by (auto simp: balanced_def)
qed

lemma balanced_cancel:
  assumes "balanced M t" "dedup_cancel r a d now (t, fs) = ((t', fs'), res)"
  shows "balanced M t'"
proof -
  let ?t = "dedup_expire now t"
  have exp: "balanced M ?t" by (rule balanced_expire [OF assms(1)])
  have "balanced M (?t\<lparr>dt_entries := hm_insert r (DsCancelled a d x) (dt_entries ?t)\<rparr>)" if "hm_get (dt_entries ?t) r = None" for x
  proof -
    have "running_as (?t\<lparr>dt_entries := hm_insert r (DsCancelled a d x) (dt_entries ?t)\<rparr>) = running_as ?t"
      using that by (auto simp: running_as_def fun_eq_iff hm_get_insert)
    then show ?thesis using exp by (simp add: balanced_def)
  qed
  with exp show ?thesis
    using assms(2) by (auto simp: dedup_cancel_def Let_def split: option.splits if_splits)
qed

lemma balanced_release:
  assumes "balanced M t" "release_redirect r a d t = (t', res)"
  shows "balanced M t'"
proof -
  have "running_as (t\<lparr>dt_entries := hm_remove r (dt_entries t)\<rparr>) = running_as t"
    if "hm_get (dt_entries t) r = Some st" "is_redirect st" for st
  proof -
    have "running_as t r = None" using that by (auto simp: running_as_def is_redirect_def split: dedup_state.splits)
    then show ?thesis using assms(1) by (auto simp: running_as_def fun_eq_iff balanced_def)
  qed
  then show ?thesis
    using assms by (auto simp: release_redirect_def balanced_def split: option.splits if_splits)
qed

lemma balanced_member: "balanced (add_mset (r, a, d) M) t \<Longrightarrow> running_as t r = Some (a, d) \<and> count M (r, a, d) = 0"
proof -
  assume b: "balanced (add_mset (r, a, d) M) t"
  have "count (add_mset (r, a, d) M) (r, a, d) = (if running_as t r = Some (a, d) then 1 else 0)"
    using b unfolding balanced_def by blast
  then show ?thesis by (simp split: if_splits)
qed

text \<open>The reply to a running request is always recorded.\<close>

lemma balanced_complete:
  assumes "balanced (add_mset (message_key m) M) t" "checked_total (rm_payload m) = Some n"
  shows "\<exists>t'. dedup_complete m now t = (t', Ok ()) \<and> balanced M t'"
proof -
  have run: "running_as t (rm_request m) = Some (rm_action m, rm_domain m)"
    using balanced_member assms(1) by (simp add: message_key_def)
  then obtain c where get: "hm_get (dt_entries t) (rm_request m) = Some (DsRunning (rm_action m) (rm_domain m) c)"
    by (auto simp: running_as_def split: option.splits dedup_state.splits)
  let ?t = "retain_response m n now t"
  have "dedup_complete m now t = (?t, Ok ())" using get assms(2) by (simp add: dedup_complete_def)
  moreover have wf: "hm_wf (dt_entries t)" using assms(1) by (simp add: balanced_def)
  moreover have "hm_wf (dt_entries ?t)"
    using wf get by (simp add: retain_response_def Let_def split: option.split dedup_state.split)
  moreover have "running_as ?t = (running_as t)(rm_request m := None)"
    by (auto simp: running_as_def fun_eq_iff retain_response_get [OF wf])
  moreover have "count M (r, a, d) = (if ((running_as t)(rm_request m := None)) r = Some (a, d) then 1 else 0)" for r a d
  proof -
    have "count (add_mset (message_key m) M) (r, a, d) = (if running_as t r = Some (a, d) then 1 else 0)"
      using assms(1) by (simp add: balanced_def)
    then show ?thesis using run by (auto simp: message_key_def split: if_splits)
  qed
  ultimately show ?thesis by (auto simp: balanced_def)
qed

subsection \<open>The mailboxes\<close>

lemma queue_keys_simps [simp]:
  "queue_keys [] = {#}" "queue_keys (job # jobs) = job_keys job + queue_keys jobs" "queue_keys (xs @ ys) = queue_keys xs + queue_keys ys"
  by (simp_all add: queue_keys_def)

lemma job_keys_marked [simp]: "job_keys (job\<lparr>aj_object := m\<rparr>) = job_keys job"
  by (simp add: job_keys_def)

lemma hm_sum_keys: "hm_wf m \<Longrightarrow> hm_sum g m = (\<Sum>k\<in>fst ` set m. g (the (hm_get m k)))"
proof -
  assume wf: "hm_wf m"
  then have "g (snd p) = g (the (hm_get m (fst p)))" if "p \<in> set m" for p
    using that by (cases p) (simp add: hm_wf_def hm_get_def)
  then have "hm_sum g m = sum_list (map (\<lambda>k. g (the (hm_get m k))) (map fst m))"
    by (simp add: hm_sum_def comp_def cong: map_cong)
  also have "\<dots> = (\<Sum>k\<in>set (map fst m). g (the (hm_get m k)))"
    using wf unfolding hm_wf_def by (rule sum_list_distinct_conv_sum_set)
  finally show ?thesis by simp
qed

lemma mail_waiting:
  assumes "hm_wf (os_entries sv)"
  shows "mail_keys sv = (\<Sum>obj\<in>{obj. waiting sv obj \<noteq> []}. queue_keys (waiting sv obj))"
proof -
  let ?m = "os_entries sv"
  have key: "\<exists>e. hm_get ?m obj = Some e" if "obj \<in> fst ` set ?m" for obj
    using that unfolding hm_get_def dom_map_of_conv_image_fst [symmetric] by (rule domD)
  have sub: "{obj. waiting sv obj \<noteq> []} \<subseteq> fst ` set ?m"
    by (auto simp: waiting_def hm_get_def split: option.splits dest: map_of_SomeD intro: rev_image_eqI)
  have "mail_keys sv = (\<Sum>obj\<in>fst ` set ?m. queue_keys (waiting sv obj))"
    unfolding mail_keys_def hm_sum_keys [OF assms]
  proof (rule sum.cong [OF refl])
    fix obj assume "obj \<in> fst ` set ?m"
    then obtain e where "hm_get ?m obj = Some e" using key by blast
    then show "queue_keys (ad_queue (oe_admission (the (hm_get ?m obj)))) = queue_keys (waiting sv obj)" by (simp add: waiting_def)
  qed
  also have "\<dots> = (\<Sum>obj\<in>{obj. waiting sv obj \<noteq> []}. queue_keys (waiting sv obj))"
    using sub by (intro sum.mono_neutral_right) auto
  finally show ?thesis .
qed

lemma mail_quiet: "service_inv R sv \<Longrightarrow> service_inv R' sv' \<Longrightarrow> waiting sv' = waiting sv \<Longrightarrow> mail_keys sv' = mail_keys sv"
  by (simp add: mail_waiting service_inv_def)

lemma mail_put:
  "hm_get (os_entries sv) obj = Some e \<Longrightarrow>
     mail_keys (put_entry obj e' sv) + queue_keys (ad_queue (oe_admission e)) = mail_keys sv + queue_keys (ad_queue (oe_admission e'))"
  using hm_sum_replace [of "os_entries sv" obj e "\<lambda>e. queue_keys (ad_queue (oe_admission e))" e']
  by (simp add: mail_keys_def put_entry_def)

lemma admit_queue_mail:
  assumes "admit_queue obj fr rd job da e (put_entry obj e sv) = (sv', res)"
    and "hm_get (os_entries sv) obj = Some e0" "oe_admission e = oe_admission e0"
  shows "res \<noteq> Ok None \<Longrightarrow> waiting sv' = waiting sv" "res = Ok None \<Longrightarrow> mail_keys sv' = mail_keys sv + job_keys job"
    "res = Ok (Some job') \<Longrightarrow> job_keys job' = job_keys job"
proof -
  show "res \<noteq> Ok None \<Longrightarrow> waiting sv' = waiting sv" "res = Ok (Some job') \<Longrightarrow> job_keys job' = job_keys job"
    using assms by (auto simp: admit_queue_def Let_def enter_def waiting_simps split: if_splits)
  assume "res = Ok None"
  then have "sv' = put_entry obj (e\<lparr>oe_admission := (oe_admission e)\<lparr>ad_queue := ad_queue (oe_admission e) @
      [job\<lparr>aj_object := Some \<lparr>oj_object = obj, oj_read = rd, oj_placement = False\<rparr>\<rparr>]\<rparr>\<rparr>) sv"
    using assms(1) by (auto simp: admit_queue_def Let_def split: if_splits)
  then show "mail_keys sv' = mail_keys sv + job_keys job"
    using mail_put [OF assms(2), of "e\<lparr>oe_admission := (oe_admission e)\<lparr>ad_queue := ad_queue (oe_admission e) @
      [job\<lparr>aj_object := Some \<lparr>oj_object = obj, oj_read = rd, oj_placement = False\<rparr>\<rparr>]\<rparr>\<rparr>"] assms(3) by (simp add: add_ac)
qed

lemma admit_mail:
  assumes "admit a job da now sv = (sv', res)"
  shows "res \<noteq> Ok None \<Longrightarrow> waiting sv' = waiting sv" "res = Ok None \<Longrightarrow> mail_keys sv' = mail_keys sv + job_keys job"
    "res = Ok (Some job') \<Longrightarrow> job_keys job' = job_keys job"
proof -
  have "(res \<noteq> Ok None \<longrightarrow> waiting sv' = waiting sv) \<and> (res = Ok None \<longrightarrow> mail_keys sv' = mail_keys sv + job_keys job)
      \<and> (\<forall>job'. res = Ok (Some job') \<longrightarrow> job_keys job' = job_keys job)"
  proof -
    have q: "(res \<noteq> Ok None \<longrightarrow> waiting sv' = waiting sv) \<and> (res = Ok None \<longrightarrow> mail_keys sv' = mail_keys sv + job_keys job)
      \<and> (\<forall>job'. res = Ok (Some job') \<longrightarrow> job_keys job' = job_keys job)"
      if "admit_queue obj fr rd job da (e\<lparr>oe_lifecycle := c\<rparr>) (put_entry obj (e\<lparr>oe_lifecycle := c\<rparr>) sv) = (sv', res)"
        "hm_get (os_entries sv) obj = Some e" for obj fr rd e c
      using admit_queue_mail [OF that] by auto
    have pl: "(res \<noteq> Ok None \<longrightarrow> waiting sv' = waiting sv) \<and> (res = Ok None \<longrightarrow> mail_keys sv' = mail_keys sv + job_keys job)
      \<and> (\<forall>job'. res = Ok (Some job') \<longrightarrow> job_keys job' = job_keys job)"
      if "admit_placement obj job da (e\<lparr>oe_lifecycle := c\<rparr>) (put_entry obj (e\<lparr>oe_lifecycle := c\<rparr>) sv) = (sv', res)"
        "hm_get (os_entries sv) obj = Some e" for obj e c
      using that by (auto simp: admit_placement_def waiting_simps split: if_splits)
    show ?thesis
      using assms unfolding admit_def Let_def
      by (auto split: if_splits sum.splits option.splits prod.splits dest!: q pl)
  qed
  then show "res \<noteq> Ok None \<Longrightarrow> waiting sv' = waiting sv" "res = Ok None \<Longrightarrow> mail_keys sv' = mail_keys sv + job_keys job"
    "res = Ok (Some job') \<Longrightarrow> job_keys job' = job_keys job" by auto
qed

lemma retry_entry_queue:
  "retry_entry room da q e = (e', Ok js) \<Longrightarrow> ad_queue (oe_admission e) = q \<Longrightarrow>
     q = js @ ad_queue (oe_admission e') \<and> (\<forall>job\<in>set js. aj_object job \<noteq> None)"
proof (induction room da q e arbitrary: e' js rule: retry_entry.induct)
  case (4 room da front rest e)
  then show ?case by (auto simp: Let_def split: if_splits option.splits prod.splits sum.splits)
qed auto

lemma retry_entries_mail:
  "retry_entries room da objs sv = (sv', Ok js) \<Longrightarrow>
     mail_keys sv = mail_keys sv' + queue_keys js \<and> (\<forall>job\<in>set js. aj_object job \<noteq> None)"
proof (induction room da objs sv arbitrary: js rule: retry_entries.induct)
  case (2 room da obj objs sv)
  show ?case
  proof (cases "\<exists>e. room \<noteq> 0 \<and> hm_get (os_entries sv) obj = Some e \<and> \<not> (ad_writer (oe_admission e) \<or> ad_readers (oe_admission e) \<noteq> 0)")
    case False
    with 2 show ?thesis by (auto split: if_splits option.splits)
  next
    case True
    then obtain e where e: "room \<noteq> 0" "hm_get (os_entries sv) obj = Some e"
        "\<not> (ad_writer (oe_admission e) \<or> ad_readers (oe_admission e) \<noteq> 0)" by blast
    obtain e' r where r: "retry_entry room da (ad_queue (oe_admission e)) e = (e', r)" by force
    then obtain js1 js2 where js: "r = Ok js1" "js = js1 @ js2"
        "retry_entries (room - length js1) da objs (put_entry obj e' sv) = (sv', Ok js2)"
      using 2(4) e by (cases r) (auto split: prod.splits sum.splits)
    have "mail_keys (put_entry obj e' sv) = mail_keys sv' + queue_keys js2 \<and> (\<forall>job\<in>set js2. aj_object job \<noteq> None)"
      using 2(3) [OF e(1,2,3) r [unfolded js(1), symmetric] refl js(3)] by simp
    moreover have "ad_queue (oe_admission e) = js1 @ ad_queue (oe_admission e') \<and> (\<forall>job\<in>set js1. aj_object job \<noteq> None)"
      using retry_entry_queue [OF r [unfolded js(1)] refl] .
    moreover have "mail_keys (put_entry obj e' sv) + queue_keys (ad_queue (oe_admission e)) = mail_keys sv + queue_keys (ad_queue (oe_admission e'))"
      by (rule mail_put [OF e(2)])
    ultimately show ?thesis using js(2) by (auto simp: add_ac)
  qed
qed simp

subsection \<open>The domains\<close>

text \<open>What the domains hold after an operation on them.\<close>

definition items_add :: "('v action_job + 'v completion) multiset \<Rightarrow> 'v domain_registry \<Rightarrow> 'v domain_registry \<Rightarrow> bool" where
  "items_add M ds ds' \<longleftrightarrow> registry_ok ds' \<and> registry_items ds' = M + registry_items ds"

lemma items_add_keys:
  assumes "items_add M ds ds'"
  shows "domain_keys ds' = sum_mset (image_mset item_keys M) + domain_keys ds"
    "object_marks ds' = sum_mset (image_mset item_mark M) + object_marks ds"
  using assms by (simp_all add: items_add_def domain_keys_def object_marks_def)

lemma dom_submit_items:
  assumes "registry_ok ds" "dom_submit job ds = (ds', res)"
  shows "res = Ok () \<Longrightarrow> items_add {#Inl job#} ds ds'" "res = Err err \<Longrightarrow> ds' = ds"
proof -
  show "res = Ok () \<Longrightarrow> items_add {#Inl job#} ds ds'"
    using dom_submit_step [OF assms(1), of job] assms(2) by (simp add: items_add_def)
  show "res = Err err \<Longrightarrow> ds' = ds"
    using assms(2) by (auto simp: dom_submit_def Let_def split: option.splits if_splits)
qed

lemma try_completion_items:
  assumes "registry_ok ds" "try_completion ds = (ds', Some c)"
  shows "items_add {#Inr c#} ds' ds" "registry_ok ds'"
  using try_completion_step [OF assms(1)] assms by (simp_all add: items_add_def)

subsection \<open>Requests change hands\<close>

lemma held_server:
  "held K R rt \<Longrightarrow> sv_responses sv = sv_responses (ru_server rt) \<Longrightarrow> sv_dedup sv = sv_dedup (ru_server rt) \<Longrightarrow>
     held K R (rt\<lparr>ru_server := sv\<rparr>)"
  by (simp add: held_def)

lemma held_shared: "held K R rt \<Longrightarrow> on_shared f rt = (rt', res) \<Longrightarrow> held K R rt'"
  by (auto simp: on_shared_def on_server_def held_def split: prod.splits)

lemma held_fields [simp]:
  "held K R (rt\<lparr>ru_leases := lm\<rparr>) = held K R rt" "held K R (rt\<lparr>ru_duplicate_requests := n\<rparr>) = held K R rt"
  "held K R (rt\<lparr>ru_local_typed_dispatches := n\<rparr>) = held K R rt"
  "held K R (rt\<lparr>ru_local_action_serializations := n\<rparr>) = held K R rt" "held K R (rt\<lparr>ru_received := g\<rparr>) = held K R rt"
  by (simp_all add: held_def)

text \<open>An operation on the objects that leaves the mailboxes alone.\<close>

lemma held_objects:
  assumes "held K R rt" "waiting os = waiting (ru_objects rt)" "service_inv (R' + object_marks (ru_domains rt)) os"
  shows "held K R' (rt\<lparr>ru_objects := os\<rparr>)"
  using assms mail_quiet [of "R + object_marks (ru_domains rt)" "ru_objects rt", OF _ assms(3,2)] by (simp add: held_def)

lemma held_queue:
  assumes "held (if c then add_mset (message_key m) K else K) R rt" "on_server (queue_response dst m tr c) rt = (rt', Ok ())"
  shows "held K R rt'"
proof -
  obtain sv where q: "queue_response dst m tr c (ru_server rt) = (sv, Ok ())" and rt': "rt' = rt\<lparr>ru_server := sv\<rparr>"
    using assms(2) by (auto simp: on_server_def split: prod.splits)
  have "sv_dedup sv = sv_dedup (ru_server rt)"
    using q by (auto simp: queue_response_def Let_def split: option.splits if_splits)
  moreover have "checked_total (rm_payload m) \<noteq> None"
    using q by (auto simp: queue_response_def Let_def split: option.splits)
  ultimately show ?thesis using queue_response_Ok [OF q] assms(1) rt' by (cases c) (simp_all add: held_def reply_keys_def add_ac)
qed

lemma message_keys [simp]:
  "message_key (failure_message m t) = message_key m" "message_key (moved_message m obj l) = message_key m"
  "message_key (completion_message k p c) = (cm_request c, cm_action_id c, cm_domain c)"
  by (simp_all add: message_key_def failure_message_def moved_message_def completion_message_def)

lemma send_fns:
  "send_failure dst m t tr = queue_response dst (failure_message m t) tr False"
  "send_and_cache_failure dst m t tr = queue_response dst (failure_message m t) tr True"
  "send_and_cache_moved dst m obj l tr = queue_response dst (moved_message m obj l) tr True"
  by (simp_all add: fun_eq_iff send_failure_def send_and_cache_failure_def send_and_cache_moved_def)

lemma held_cached:
  assumes "held (add_mset (message_key m) K) R rt"
  shows "on_server (send_and_cache_failure dst m t tr) rt = (rt', Ok ()) \<Longrightarrow> held K R rt'"
    "on_server (send_and_cache_moved dst m obj l tr) rt = (rt', Ok ()) \<Longrightarrow> held K R rt'"
  unfolding send_fns by (erule held_queue [where c = True, rotated], simp add: assms)+

lemma held_uncached:
  assumes "held K R rt"
  shows "on_server (send_failure dst m t tr) rt = (rt', Ok ()) \<Longrightarrow> held K R rt'"
    "on_server (queue_response dst m tr False) rt = (rt', Ok ()) \<Longrightarrow> held K R rt'"
  using assms unfolding send_fns by (auto intro: held_queue [where c = False])

lemma held_admit:
  assumes "held (job_keys job + K) R rt" "aj_object job = None"
    and "admit a job da now (ru_objects rt) = (os, res)"
  shows "res = Ok None \<Longrightarrow> held K R (rt\<lparr>ru_objects := os\<rparr>)"
    "res = Ok (Some job') \<Longrightarrow> held (job_keys job' + K) (opt_mark (aj_object job') + R) (rt\<lparr>ru_objects := os\<rparr>)"
    "res = Err err \<Longrightarrow> held (job_keys job + K) R (rt\<lparr>ru_objects := os\<rparr>)"
proof -
  let ?R = "R + object_marks (ru_domains rt)"
  have inv: "service_inv (admitted res + ?R) os"
    using admit_inv [OF _ assms(2), of ?R "ru_objects rt" a da now] assms(1,3) by (simp add: held_def)
  note mail = admit_mail [OF assms(3)]
  show "res = Ok None \<Longrightarrow> held K R (rt\<lparr>ru_objects := os\<rparr>)"
    using mail(2) inv assms(1) by (simp add: held_def admitted_def add_ac)
  show "res = Ok (Some job') \<Longrightarrow> held (job_keys job' + K) (opt_mark (aj_object job') + R) (rt\<lparr>ru_objects := os\<rparr>)"
    using mail(1,3) inv by (intro held_objects [where R = R]) (auto simp: assms(1) admitted_def opt_mark_def split: option.splits)
  show "res = Err err \<Longrightarrow> held (job_keys job + K) R (rt\<lparr>ru_objects := os\<rparr>)"
    using mail(1) inv by (intro held_objects [OF assms(1)]) (auto simp: admitted_def)
qed

lemma held_complete_mark:
  assumes "held K (add_mset j R) rt"
  shows "held K R (rt\<lparr>ru_objects := fst (service_complete j (ru_objects rt))\<rparr>)"
  using assms by (intro held_objects [OF assms]) (simp_all add: service_complete_quiet service_complete_inv held_def)

lemma held_submit:
  assumes "held (job_keys job + K) (opt_mark (aj_object job) + R) rt" "submit_admitted job rt = (rt', res)"
  shows "res = Ok () \<Longrightarrow> held K R rt'" "res = Err err \<Longrightarrow> held (job_keys job + K) R rt'"
proof -
  obtain ds r where ds: "dom_submit job (ru_domains rt) = (ds, r)" by force
  note items = dom_submit_items [OF _ ds]
  have ok: "registry_ok (ru_domains rt)" using assms(1) by (simp add: held_def)
  show "res = Ok () \<Longrightarrow> held K R rt'"
    using assms ds items(1) [OF ok] items_add_keys [of "{#Inl job#}" "ru_domains rt" ds]
    by (auto simp: submit_admitted_def Let_def held_def items_add_def add_ac split: sum.splits)
  show "res = Err err \<Longrightarrow> held (job_keys job + K) R rt'"
    using assms ds items(2) [OF ok] held_complete_mark [of "job_keys job + K" _ R rt]
    by (auto simp: submit_admitted_def Let_def service_rollback_def opt_mark_def split: sum.splits option.splits)
qed

section \<open>The handlers\<close>

lemma remote_job_simps [simp]:
  "job_keys (remote_job source trace m handler cancelled now) = {#message_key m#}"
  "aj_object (remote_job source trace m handler cancelled now) = None"
  by (simp_all add: job_keys_def remote_job_def message_key_def)

lemma local_job_simps [simp]: "job_keys (local_job sh q handler now) = {#}" "aj_object (local_job sh q handler now) = None"
  by (simp_all add: job_keys_def local_job_def)

lemma held_accept:
  assumes "held (add_mset (message_key m) K) R rt" "accept_request dv source trace m cancelled clock rt = (rt', Ok ())"
  shows "held K R rt'"
proof (cases "registry_get (sh_registry (ru_shared rt)) (rm_action m)")
  case None
  with assms show ?thesis by (auto simp: accept_request_def intro: held_cached)
next
  case (Some handler)
  let ?job = "remote_job source trace m handler cancelled (clock 1)"
  obtain os res where adm: "admit (rm_action m) ?job (can_submit (ru_domains rt) (rm_domain m)) (clock 2) (ru_objects rt) = (os, res)"
    by force
  have K: "held (job_keys ?job + K) R rt" using assms(1) by simp
  note held = held_admit [OF K _ adm]
  show ?thesis
  proof (cases res)
    case (Inl err)
    then have "held (add_mset (message_key m) K) R (rt\<lparr>ru_objects := os\<rparr>)" using held(3) by simp
    with assms(2) Some adm Inl show ?thesis
      by (auto simp: accept_request_def intro: held_cached split: runtime_error.splits)
  next
    case (Inr answer)
    show ?thesis
    proof (cases answer)
      case None
      with assms(2) Some adm Inr held(1) show ?thesis by (simp add: accept_request_def)
    next
      case (Some job)
      then have job: "held (job_keys job + K) (opt_mark (aj_object job) + R) (rt\<lparr>ru_objects := os\<rparr>)" "job_keys job = {#message_key m#}"
        using held(2) [of job] admit_mail(3) [OF adm, of job] Inr by simp_all
      obtain rt1 r where sub: "submit_admitted job (rt\<lparr>ru_objects := os\<rparr>) = (rt1, r)" by force
      show ?thesis
        using assms(2) Some Inr adm \<open>registry_get _ _ = Some handler\<close> sub held_submit [OF job(1) sub] job(2)
        by (auto simp: accept_request_def intro: held_cached split: sum.splits)
    qed
  qed
qed

lemma held_dedup:
  assumes "held K R rt" "\<And>M. balanced (K + M) (sv_dedup (ru_server rt)) \<Longrightarrow> balanced (K' + M) t"
  shows "held K' R (put_dedup (t, fs) rt)"
  using assms by (simp add: held_def put_dedup_def)

lemma held_count_duplicate [simp]: "held K R (count_duplicate rt) = held K R rt"
  by (simp add: count_duplicate_def)

lemma held_request:
  assumes "held K R rt" "handle_request dv source trace m clock rt = (rt', Ok ())"
  shows "held K R rt'"
proof (cases "sh_state (ru_shared rt) = StRunning")
  case False
  with assms show ?thesis by (auto simp: handle_request_def intro: held_uncached)
next
  case True
  let ?t = "sv_dedup (ru_server rt)" and ?fs = "sh_flags (ru_shared rt)"
  obtain t res where rel: "(if request_targets_current (rm_action m) (rm_payload m) (ru_objects rt)
      then release_redirect (rm_request m) (rm_action m) (rm_domain m) ?t else (?t, Ok ())) = (t, res)" by force
  then have t: "balanced M ?t \<Longrightarrow> balanced M t" for M by (auto dest: balanced_release split: if_splits)
  obtain t' fs' r where beg: "dedup_begin (rm_request m) (rm_action m) (rm_domain m) (clock 0) (t, ?fs) = ((t', fs'), r)" by (metis prod.exhaust)
  have new: "held (add_mset (message_key m) K) R (put_dedup (t', fs') rt)" if "\<exists>f. r = Ok (DdNew f)"
    by (rule held_dedup [OF assms(1)]) (use balanced_begin(1) [OF t beg that] in \<open>simp add: message_key_def\<close>)
  have old: "held K R (put_dedup (t', fs') rt)" if "\<nexists>f. r = Ok (DdNew f)"
    by (rule held_dedup [OF assms(1)]) (rule balanced_begin(2) [OF t beg that])
  show ?thesis
    using assms(2) True rel beg new old
    by (auto simp: handle_request_def Let_def intro: held_uncached held_accept held_count_duplicate [THEN iffD2]
        simp del: held_count_duplicate split: sum.splits dedup_disposition.splits)
qed

lemma held_message:
  assumes "held K R rt" "handle_message dv source trace m clock rt = (rt', Ok ())"
  shows "held K R rt'"
proof (cases "rm_kind m = RmCancel")
  case True
  let ?t = "sv_dedup (ru_server rt)" and ?fs = "sh_flags (ru_shared rt)"
  obtain t' fs' r where c: "dedup_cancel (rm_request m) (rm_action m) (rm_domain m) (clock 0) (?t, ?fs) = ((t', fs'), r)"
    by (metis prod.exhaust)
  have "held K R (put_dedup (t', fs') rt)" by (rule held_dedup [OF assms(1)]) (rule balanced_cancel [OF _ c])
  with assms(2) True c show ?thesis by (simp add: handle_message_def)
next
  case False
  with assms show ?thesis
    by (auto simp: handle_message_def intro: held_request held_shared split: if_splits)
qed

lemma held_event:
  assumes "held K R rt" "handle_transport_event dv event clock rt = (rt', Ok ())"
  shows "held K R rt'"
proof (cases event)
  case (Incoming p)
  let ?rt = "rt\<lparr>ru_received := (ru_received rt)(p_channel p := ru_received rt (p_channel p) + 1)\<rparr>"
  have "held K R ?rt" using assms(1) by simp
  note held_message [OF this]
  with assms(2) Incoming show ?thesis by (auto simp: handle_transport_event_def Let_def split: sum.splits)
qed (use assms in \<open>auto simp: handle_transport_event_def intro: held_shared\<close>)

lemma service_complete_jobs [simp]: "snd (service_complete j os) = []"
  by (simp add: service_complete_def Let_def split: option.split prod.split)

lemma held_complete_object:
  assumes "held K (opt_mark mark + R) rt" "complete_object mark rt = (rt', res)"
  shows "held K R rt'" "res = Ok ()"
proof -
  have "complete_object mark rt = (case mark of None \<Rightarrow> rt | Some j \<Rightarrow> rt\<lparr>ru_objects := fst (service_complete j (ru_objects rt))\<rparr>, Ok ())"
    by (simp add: complete_object_def split_beta split: option.split)
  with assms held_complete_mark [of K _ R rt] show "held K R rt'" "res = Ok ()"
    by (auto simp: opt_mark_def split: option.splits)
qed

lemma held_completion:
  assumes "held (item_keys (Inr c) + K) (opt_mark (cm_object c) + R) rt" "handle_completion c rt = (rt', Ok ())"
  shows "held K R rt'"
proof -
  obtain rt1 r where c: "complete_object (cm_object c) rt = (rt1, r)" by force
  have rt1: "held (item_keys (Inr c) + K) R rt1" "r = Ok ()" by (rule held_complete_object [OF assms(1) c])+
  show ?thesis
  proof (cases "cm_local c")
    case True
    with rt1 assms(2) c show ?thesis by (auto simp: handle_completion_def intro: held_shared)
  next
    case False
    let ?rt = "\<lambda>n. rt1\<lparr>ru_server := (ru_server rt1)\<lparr>sv_action_failures := n\<rparr>\<rparr>"
    have "on_server (complete_remote c) rt1 = (rt', Ok ())" using assms(2) c rt1(2) False by (simp add: handle_completion_def)
    then obtain k payload n where "on_server (queue_response (cm_requester c) (completion_message k payload c) (cm_trace_id c) True) (?rt n)
        = (rt', Ok ())"
      using that [of RmCancelled "[]" "sv_action_failures (ru_server rt1)"]
        that [of RmSuccess _ "sv_action_failures (ru_server rt1)"] that [of RmFailure _ "sv_action_failures (ru_server rt1) + 1"]
      by (auto simp: on_server_def complete_remote_def Let_def split: if_splits sum.splits action_value.splits prod.splits)
    then show ?thesis by (rule held_queue [where c = True, rotated]) (use rt1(1) False in \<open>simp add: held_def\<close>)
  qed
qed

lemma held_take_completion:
  assumes "held K R rt" "take_completion rt = Some (rt', c)"
  shows "held (item_keys (Inr c) + K) (opt_mark (cm_object c) + R) rt'"
proof -
  obtain ds where ds: "try_completion (ru_domains rt) = (ds, Some c)" and rt': "rt' = rt\<lparr>ru_domains := ds\<rparr>"
    using assms(2) by (auto simp: take_completion_def split: prod.splits option.splits)
  have "registry_ok (ru_domains rt)" using assms(1) by (simp add: held_def)
  note items = try_completion_items [OF this ds]
  show ?thesis
    using assms(1) items_add_keys [OF items(1)] items(2) rt' by (simp add: held_def add_ac del: item_keys.simps)
qed

lemma held_dispatch:
  assumes "held K R rt" "dispatch_local q clock rt = (rt', res)"
  shows "held K R rt'"
proof -
  obtain rt1 where rt1: "held K R rt1" "rt1 = (case lq_input q of
      AvTyped _ \<Rightarrow> rt\<lparr>ru_local_typed_dispatches := ru_local_typed_dispatches rt + 1\<rparr>
    | AvEncoded _ \<Rightarrow> rt\<lparr>ru_local_action_serializations := ru_local_action_serializations rt + 1\<rparr>)"
    using assms(1) by (simp split: action_value.split)
  have place: "held K R rt2" if p: "place_local q clock rt1 = (rt2, r)" for rt2 r
  proof (cases "registry_get (sh_registry (ru_shared rt1)) (rm_action (lq_message q))")
    case None
    with p rt1 show ?thesis by (simp add: place_local_def)
  next
    case (Some handler)
    let ?job = "local_job (ru_shared rt1) q handler (clock 0)"
    obtain os ans where adm: "admit (rm_action (lq_message q)) ?job (can_submit (ru_domains rt1) (rm_domain (lq_message q))) (clock 1)
        (ru_objects rt1) = (os, ans)" by force
    have "held (job_keys ?job + K) R rt1" using rt1(1) by simp
    note held = held_admit [OF this _ adm]
    have sub: "held K R rt3" if "ans = Ok (Some job)" "submit_admitted job (rt1\<lparr>ru_objects := os\<rparr>) = (rt3, r3)" for job rt3 r3
      using held_submit [OF held(2) [OF _ that(1)] that(2)] admit_mail(3) [OF adm that(1)] by (cases r3) auto
    show ?thesis
      using p Some adm held(1,3) sub by (auto simp: place_local_def Let_def split: sum.splits option.splits)
  qed
  obtain rt2 r where p: "place_local q clock rt1 = (rt2, r)" by force
  show ?thesis
    using assms(2) p place [OF p] rt1(2) by (auto simp: dispatch_local_def Let_def intro: held_shared split: sum.splits)
qed

lemma held_ready:
  "held (queue_keys jobs + K) (job_marks jobs + R) rt \<Longrightarrow> \<forall>job\<in>set jobs. aj_object job \<noteq> None \<Longrightarrow>
     submit_ready jobs handled rt = (rt', Ok n) \<Longrightarrow> held K R rt'"
proof (induction jobs arbitrary: handled rt)
  case (Cons job jobs)
  obtain ds r where ds: "dom_submit job (ru_domains rt) = (ds, r)" by force
  with Cons.prems(3) have r: "r = Ok ()" and rest: "submit_ready jobs (Suc handled) (rt\<lparr>ru_domains := ds\<rparr>) = (rt', Ok n)"
    by (auto split: sum.splits)
  have "items_add {#Inl job#} (ru_domains rt) ds"
    using dom_submit_items(1) [OF _ ds r] Cons.prems(1) by (simp add: held_def)
  moreover have "opt_mark (aj_object job) = {#the (aj_object job)#}" using Cons.prems(2) by (auto simp: opt_mark_def)
  ultimately have "held (queue_keys jobs + K) (job_marks jobs + R) (rt\<lparr>ru_domains := ds\<rparr>)"
    using Cons.prems(1) items_add_keys [of "{#Inl job#}" "ru_domains rt" ds]
    by (simp add: held_def items_add_def job_marks_def add_ac)
  from Cons.IH [OF this _ rest] Cons.prems(2) show ?case by simp
qed (simp add: job_marks_def)

lemma held_retry:
  assumes "held K R rt" "retry_pass limit handled rt = (rt', Ok n)"
  shows "held K R rt'"
proof (cases "handled < limit")
  case True
  let ?R = "R + object_marks (ru_domains rt)"
  obtain os js where js: "retry_ready (limit - handled) (can_submit (ru_domains rt)) (ru_objects rt) = (os, Ok js)"
      and inv: "service_inv (job_marks js + ?R) os"
    using retry_ready_inv [of ?R "ru_objects rt"] assms(1) unfolding held_def by metis
  note mail = retry_entries_mail [OF js [unfolded retry_ready_def]]
  have "held (queue_keys js + K) (job_marks js + R) (rt\<lparr>ru_objects := os\<rparr>)"
    using assms(1) mail inv by (simp add: held_def add_ac)
  moreover have "submit_ready js handled (rt\<lparr>ru_objects := os\<rparr>) = (rt', Ok n)"
    using assms(2) True js by (simp add: retry_pass_def)
  ultimately show ?thesis using mail by (intro held_ready [of js K R "rt\<lparr>ru_objects := os\<rparr>"]) auto
qed (use assms in \<open>simp add: retry_pass_def\<close>)

lemma reply_keys_Cons: "reply_keys (q # qs) = (if qr_cache q then {#message_key (qr_message q)#} else {#}) + reply_keys qs"
  by (simp add: reply_keys_def)

lemma balanced_recorded:
  assumes "balanced (add_mset (message_key m) M) t" "dedup_complete m now t = (t', Ok ())"
  shows "balanced M t'"
proof -
  obtain n where "checked_total (rm_payload m) = Some n"
    using assms(2) by (auto simp: dedup_complete_def split: option.splits dedup_state.splits if_splits)
  from balanced_complete [OF assms(1) this, of now] assms(2) show ?thesis by simp
qed

lemma drain_loop_balanced:
  "balanced (X + reply_keys (sv_responses sv)) (sv_dedup sv) \<Longrightarrow> drain_loop env clock k sent sv = (sv', Ok n) \<Longrightarrow>
     balanced (X + reply_keys (sv_responses sv')) (sv_dedup sv')"
proof (induction k arbitrary: sent sv)
  case (Suc k)
  show ?case
  proof (cases "sv_responses sv")
    case (Cons q qs)
    let ?sv = "sv\<lparr>sv_responses := qs, sv_response_bytes := sv_response_bytes sv - qr_bytes q\<rparr>"
    obtain sh r where snd: "sh_send env (qr_destination q) (qr_message q) TpRequiredResponse (qr_trace_id q) (sv_shared sv) = (sh, r)"
      by force
    obtain t c where comp: "dedup_complete (qr_message q) (clock sent) (sv_dedup sv) = (t, c)" by force
    have rec: "balanced (X + reply_keys qs) t" if "qr_cache q" "c = Ok ()"
      by (rule balanced_recorded [of "qr_message q" _ "sv_dedup sv" "clock sent"])
        (use Suc.prems(1) Cons that comp in \<open>simp_all add: reply_keys_Cons\<close>)
    have keep: "balanced (X + reply_keys qs) (sv_dedup sv)" if "\<not> qr_cache q"
      using Suc.prems(1) Cons that by (simp add: reply_keys_Cons)
    show ?thesis
      using Suc.prems Cons snd comp rec keep
        Suc.IH [of "?sv\<lparr>sv_shared := sh\<rparr>" "Suc sent"] Suc.IH [of "?sv\<lparr>sv_shared := sh, sv_dedup := t\<rparr>" "Suc sent"]
      by (auto simp: Let_def split: sum.splits if_splits)
  qed (use Suc.prems in simp)
qed simp

lemma held_drain:
  assumes "held K R rt" "on_server (drain_responses env clock k) rt = (rt', Ok n)"
  shows "held K R rt'"
proof -
  obtain sv where d: "drain_loop env clock k 0 (ru_server rt) = (sv, Ok n)" and rt': "rt' = rt\<lparr>ru_server := sv\<rparr>"
    using assms(2) by (auto simp: on_server_def drain_responses_def split: prod.splits)
  let ?X = "K + (mail_keys (ru_objects rt) + domain_keys (ru_domains rt))"
  have "set (sv_responses sv) \<subseteq> set (sv_responses (ru_server rt))"
    using drain_loop_prefix [OF d] set_drop_subset by metis
  then show ?thesis
    using assms(1) drain_loop_balanced [OF _ d, of ?X] rt' by (auto simp: held_def add_ac)
qed

subsection \<open>Housekeeping\<close>

lemma object_control_effect:
  assumes "service_inv R os" "object_control env obj t l loc a now (sh, os) = (sh', os')"
  shows "service_inv R os'" "waiting os' = waiting os"
  using assms by (auto simp: object_control_def renew_inv release_root_inv ack_transfer_inv release_inv quiet
      split: if_splits prod.splits sum.splits)

lemma held_control:
  assumes "held K R rt" "object_control env obj t l loc a now (ru_shared rt, ru_objects rt) = (sh, os)"
  shows "held K R (rt\<lparr>ru_server := (ru_server rt)\<lparr>sv_shared := sh\<rparr>, ru_objects := os\<rparr>)"
proof -
  have "service_inv (R + object_marks (ru_domains rt)) (ru_objects rt)" using assms(1) by (simp add: held_def)
  note eff = object_control_effect [OF this assms(2)]
  have "held K R (rt\<lparr>ru_server := (ru_server rt)\<lparr>sv_shared := sh\<rparr>\<rparr>)" by (rule held_server [OF assms(1)]) simp_all
  from held_objects [OF this, of os R] eff show ?thesis by simp
qed

lemma held_renew: "held K R rt \<Longrightarrow> held K R (renew_leases env as clock rt)"
proof (induction "as" arbitrary: clock rt)
  case (Cons a as)
  show ?case by (simp add: Let_def split: prod.split) (intro allI impI Cons.IH held_control [OF Cons.prems])
qed simp

lemma held_release_leases: "held K R rt \<Longrightarrow> held K R (release_leases env as clock rt)"
proof (induction "as" arbitrary: clock rt)
  case (Cons a as)
  show ?case by (simp add: Let_def split: prod.split) (intro allI impI Cons.IH held_control [OF Cons.prems])
qed simp

lemma held_expire_objects: "held K R rt \<Longrightarrow> held K R (rt\<lparr>ru_objects := expire now (ru_objects rt)\<rparr>)"
  by (rule held_objects [where R = R]) (simp_all add: expire_quiet expire_inv held_def)

lemma held_expire: "held K R rt \<Longrightarrow> held K R (expire_all env clock rt)"
proof -
  assume h: "held K R rt"
  let ?sv = "(ru_server rt)\<lparr>sv_shared := expire_pending env (clock 0) (ru_shared rt), sv_dedup := dedup_expire (clock 1) (sv_dedup (ru_server rt))\<rparr>"
  have "held K R (rt\<lparr>ru_server := ?sv\<rparr>)" using h by (simp add: held_def balanced_expire)
  then have "held K R ((rt\<lparr>ru_server := ?sv\<rparr>)\<lparr>ru_leases := lm\<rparr>)" for lm by simp
  from held_expire_objects [OF held_renew [OF this]] show ?thesis
    unfolding expire_all_def Let_def by (simp split: prod.split)
qed

lemma retiring_waits_nothing:
  assumes "service_inv R sv" "still_retiring sv r"
  shows "waiting sv (rt_object r) = []"
  using assms service_inv_get [OF assms(1), of "rt_object r"]
  by (auto simp: still_retiring_def waiting_def entry_ok_def residence_ok_def split: option.splits)

lemma held_send_retirements:
  "held K R rt \<Longrightarrow> list_all (still_retiring (ru_objects rt)) rs \<Longrightarrow>
     length (os_retirements (ru_objects rt)) + length rs \<le> ol_max_migrations (os_limits (ru_objects rt)) \<Longrightarrow>
     held K R (send_retirements env rs rt)"
proof (induction rs arbitrary: rt)
  case (Cons r rs)
  obtain rt1 res where sent: "on_shared (send_retirement env r) rt = (rt1, res)" by force
  have h: "held K R rt1" by (rule held_shared [OF Cons.prems(1) sent])
  have os: "ru_objects rt1 = ru_objects rt" using sent by (auto simp: on_shared_def on_server_def split: prod.splits)
  let ?os = "finish_retirement (rt_object r) (ru_objects rt1)"
  have inv: "service_inv (R + object_marks (ru_domains rt1)) (ru_objects rt1)" using h by (simp add: held_def)
  have r: "still_retiring (ru_objects rt1) r" using Cons.prems(2) os by simp
  have "held K R (rt1\<lparr>ru_objects := ?os\<rparr>)"
    using finish_retirement_inv [OF inv r] retiring_waits_nothing [OF inv r]
    by (intro held_objects [OF h]) (simp_all add: finish_retirement_def waiting_forget)
  moreover have "hm_wf (os_entries (ru_objects rt1))" using inv by (simp add: service_inv_def)
  then have "list_all (still_retiring ?os) rs"
    using Cons.prems(2) os by (auto simp: list_all_iff still_retiring_def finish_retirement_def forget_entry_def)
  moreover have "os_retirements ?os = os_retirements (ru_objects rt)" "os_limits ?os = os_limits (ru_objects rt)"
    using os by (simp_all add: finish_retirement_def forget_entry_def)
  ultimately have "held K R (send_retirements env rs (rt1\<lparr>ru_objects := ?os\<rparr>))" using Cons.IH Cons.prems(3) by simp
  moreover have "held K R (rt1\<lparr>ru_objects := requeue_retirement r (ru_objects rt1)\<rparr>)"
    using inv os Cons.prems(3) by (intro held_objects [OF h]) (simp_all add: requeue_retirement_def retirements_inv)
  ultimately show ?case using sent by (simp split: sum.split)
qed simp

definition retirable :: "usize \<Rightarrow> ('v, 's) object_service \<Rightarrow> bool" where
  "retirable limit os \<longleftrightarrow> list_all (still_retiring os) (take limit (os_retirements os))"

lemma held_retirements:
  assumes "held K R rt" "retirable limit (ru_objects rt)"
  shows "held K R (retirements_pass env limit rt)"
proof -
  let ?os = "(ru_objects rt)\<lparr>os_retirements := drop limit (os_retirements (ru_objects rt))\<rparr>"
  have inv: "service_inv (R + object_marks (ru_domains rt)) (ru_objects rt)" using assms(1) by (simp add: held_def)
  then have len: "length (os_retirements (ru_objects rt)) \<le> ol_max_migrations (os_limits (ru_objects rt))" by (simp add: service_inv_def)
  have "held K R (rt\<lparr>ru_objects := ?os\<rparr>)"
    by (rule held_objects [OF assms(1)]) (use len in \<open>simp_all add: retirements_inv [OF inv]\<close>)
  moreover have "still_retiring ?os = still_retiring (ru_objects rt)" by (auto simp: still_retiring_def)
  ultimately show ?thesis
    unfolding retirements_pass_def take_retirements_def using assms(2) len
    by (auto simp: retirable_def intro!: held_send_retirements)
qed

subsection \<open>The workers\<close>

lemma held_domains:
  assumes "held K R rt" "registry_ok ds" "domain_keys ds = domain_keys (ru_domains rt)" "object_marks ds = object_marks (ru_domains rt)"
  shows "held K R (rt\<lparr>ru_domains := ds\<rparr>)"
  using assms by (simp add: held_def)

lemma held_start:
  assumes "held K R rt"
  shows "held K R (rt\<lparr>ru_domains := job_start fs d i now (ru_domains rt)\<rparr>)" "held K R (rt\<lparr>ru_domains := job_deliver d i (ru_domains rt)\<rparr>)"
proof -
  have ok: "registry_ok (ru_domains rt)" using assms by (simp add: held_def)
  show "held K R (rt\<lparr>ru_domains := job_start fs d i now (ru_domains rt)\<rparr>)"
    using job_start_step [OF ok, of fs d i now] by (intro held_domains [OF assms]) (simp_all add: domain_keys_def object_marks_def)
  show "held K R (rt\<lparr>ru_domains := job_deliver d i (ru_domains rt)\<rparr>)"
    using job_deliver_step [OF ok, of d i] by (intro held_domains [OF assms]) (simp_all add: domain_keys_def object_marks_def)
qed

lemma job_finish_keeps:
  assumes "registry_ok ds"
  shows "registry_ok (job_finish d i t ds)" "domain_keys (job_finish d i t ds) = domain_keys ds"
    "object_marks (job_finish d i t ds) = object_marks ds"
proof -
  have "item_keys (Inr (job_completion s)) = item_keys (Inl (sj_job s))" "item_mark (Inr (job_completion s)) = item_mark (Inl (sj_job s))"
    for s :: "'a started_job"
    by (simp_all add: job_completion_def Let_def job_keys_def)
  then have "(\<exists>M s. registry_items ds = add_mset (Inl (sj_job s)) M \<and> registry_items (job_finish d i t ds) = add_mset (Inr (job_completion s)) M)
      \<Longrightarrow> domain_keys (job_finish d i t ds) = domain_keys ds \<and> object_marks (job_finish d i t ds) = object_marks ds"
    by (auto simp: domain_keys_def object_marks_def simp del: item_keys.simps item_mark.simps)
  then show "registry_ok (job_finish d i t ds)" "domain_keys (job_finish d i t ds) = domain_keys ds"
      "object_marks (job_finish d i t ds) = object_marks ds"
    using job_finish_step [OF assms, of d i t] by (auto simp: domain_keys_def object_marks_def)
qed

text \<open>Replacing the handler of a started job.\<close>

lemma rebind_keeps:
  assumes "registry_ok ds" "hm_get (dr_domains ds) d = Some x" "i < length (dx_started x)"
    and "ds' = put_domain d (x\<lparr>dx_started := (dx_started x)[i := (dx_started x ! i)\<lparr>sj_job := (sj_job (dx_started x ! i))\<lparr>aj_handler := h\<rparr>\<rparr>]\<rparr>) ds"
  shows "registry_ok ds'" "domain_keys ds' = domain_keys ds" "object_marks ds' = object_marks ds"
proof -
  let ?s = "dx_started x ! i"
  let ?s' = "?s\<lparr>sj_job := (sj_job ?s)\<lparr>aj_handler := h\<rparr>\<rparr>"
  let ?x = "x\<lparr>dx_started := (dx_started x)[i := ?s']\<rparr>"
  have ok: "executor_ok d x" "executor_inflight d x (dr_completions ds)" using registry_ok_get [OF assms(1,2)] by simp_all
  have sub: "set ((dx_started x)[i := ?s']) \<subseteq> insert ?s' (set (dx_started x))" by (rule set_update_subset_insert)
  have "executor_ok d ?x" "executor_inflight d ?x (dr_completions ds)"
    using ok sub nth_mem [OF assms(3)] by (auto simp: dom_defs)
  then have "registry_ok ((put_domain d ?x ds)\<lparr>dr_completions := dr_completions ds\<rparr>)"
    using assms(1) by (intro registry_ok_put [OF assms(1,2)]) (auto simp: dom_defs)
  then show "registry_ok ds'" using assms(4) put_domain_keeps [of d ?x ds] by simp
  have upd: "mset (map f ((dx_started x)[i := ?s'])) + {#f ?s#} = mset (map f (dx_started x)) + {#f ?s'#}" for f :: "'a started_job \<Rightarrow> 'b"
    using assms(3) by (simp add: map_update mset_update)
  have eq: "item_keys (Inl (sj_job ?s')) = item_keys (Inl (sj_job ?s))" "item_mark (Inl (sj_job ?s')) = item_mark (Inl (sj_job ?s))"
    by (simp_all add: job_keys_def)
  have same: "mset (map (\<lambda>s. item_keys (Inl (sj_job s))) ((dx_started x)[i := ?s'])) = mset (map (\<lambda>s. item_keys (Inl (sj_job s))) (dx_started x))"
      "mset (map (\<lambda>s. item_mark (Inl (sj_job s))) ((dx_started x)[i := ?s'])) = mset (map (\<lambda>s. item_mark (Inl (sj_job s))) (dx_started x))"
    using upd [of "\<lambda>s. item_keys (Inl (sj_job s))"] upd [of "\<lambda>s. item_mark (Inl (sj_job s))"] eq by simp_all
  have items: "image_mset f (executor_items ?x) = image_mset f (executor_items x)"
    if "mset (map (\<lambda>s. f (Inl (sj_job s))) ((dx_started x)[i := ?s'])) = mset (map (\<lambda>s. f (Inl (sj_job s))) (dx_started x))"
    for f :: "'a action_job + 'a completion \<Rightarrow> 'c"
    using that by (simp add: executor_items_def image_mset.compositionality comp_def)
  have put: "registry_items ds' + executor_items x = registry_items ds + executor_items ?x"
    using registry_items_put [OF assms(2), where x' = ?x and cs = "dr_completions ds"] put_domain_keeps [of d ?x ds] assms(4) by simp
  have "image_mset f (registry_items ds') = image_mset f (registry_items ds)"
    if "image_mset f (executor_items ?x) = image_mset f (executor_items x)" for f :: "'a action_job + 'a completion \<Rightarrow> 'c"
    using arg_cong [OF put, of "image_mset f"] that by simp
  from this [OF items [of item_keys]] this [OF items [of item_mark]] same
  show "domain_keys ds' = domain_keys ds" "object_marks ds' = object_marks ds"
    by (simp_all add: domain_keys_def object_marks_def)
qed

lemma held_finish:
  assumes "held K R rt"
  shows "held K R (finish_job d i elapsed now rt)"
proof (cases "\<exists>x. hm_get (dr_domains (ru_domains rt)) d = Some x \<and> i < length (dx_started x)")
  case False
  with assms show ?thesis by (auto simp: finish_job_def split: option.split)
next
  case True
  then obtain x where x: "hm_get (dr_domains (ru_domains rt)) d = Some x" "i < length (dx_started x)" by blast
  let ?s = "dx_started x ! i"
  let ?ds = "\<lambda>h. put_domain d (x\<lparr>dx_started := (dx_started x)[i := ?s\<lparr>sj_job := (sj_job ?s)\<lparr>aj_handler := h\<rparr>\<rparr>]\<rparr>) (ru_domains rt)"
  have ok: "registry_ok (ru_domains rt)" using assms by (simp add: held_def)
  note fin = job_finish_keeps [OF ok, of d i elapsed]
  have plain: "held K R (rt\<lparr>ru_domains := job_finish d i elapsed (ru_domains rt)\<rparr>)" by (rule held_domains [OF assms fin])
  have service: "held K R (rt\<lparr>ru_objects := os, ru_domains := job_finish d i elapsed (?ds h)\<rparr>)"
    if "service_run sh ss now (ru_objects rt) = (os, r)" for sh ss os r h
  proof -
    note re = rebind_keeps [OF ok x refl, of h]
    have h: "held K R (rt\<lparr>ru_objects := os\<rparr>)"
      using that service_run_inv [of "R + object_marks (ru_domains rt)" "ru_objects rt" sh ss now] service_run_quiet [of sh ss now "ru_objects rt"] assms
      by (intro held_objects [OF assms]) (simp_all add: held_def)
    show ?thesis using job_finish_keeps [OF re(1), of d i elapsed] re held_domains [OF h, of "job_finish d i elapsed (?ds h)"] by simp
  qed
  show ?thesis
    using x plain service by (auto simp: finish_job_def Let_def split: option.split action_value.split prod.split)
qed

section \<open>Runs of the runtime\<close>

lemma or_fail_Ok: "or_fail p = (rt, Ok a) \<longleftrightarrow> p = (rt, Ok a)"
  by (cases p) (auto simp: or_fail_def split: sum.splits)

lemma and_then_Ok: "and_then p f = (rt, Ok b) \<longleftrightarrow> (\<exists>rt1 a. p = (rt1, Ok a) \<and> f a rt1 = (rt, Ok b))"
  by (cases p) (auto simp: and_then_def split: sum.splits)

lemma held_event_loop: "held K R rt \<Longrightarrow> event_loop dv clocks events handled rt = (rt', Ok n) \<Longrightarrow> held K R rt'"
  by (induction events arbitrary: handled rt) (auto simp: and_then_Ok or_fail_Ok dest: held_event)

lemma held_completion_loop: "held K R rt \<Longrightarrow> completion_loop room handled rt = (rt', Ok n) \<Longrightarrow> held K R rt'"
proof (induction room arbitrary: handled rt)
  case (Suc room)
  show ?case
  proof (cases "take_completion rt")
    case (Some p)
    then obtain rt1 c rt2 where c: "take_completion rt = Some (rt1, c)" "handle_completion c rt1 = (rt2, Ok ())"
        "completion_loop room (Suc handled) rt2 = (rt', Ok n)"
      using Suc.prems(2) by (cases p) (auto simp: and_then_Ok or_fail_Ok)
    from Suc.IH [OF held_completion [OF held_take_completion [OF Suc.prems(1) c(1)] c(2)] c(3)] show ?thesis .
  qed (use Suc.prems in simp)
qed simp

lemma held_local_loop: "held K R rt \<Longrightarrow> local_loop clocks room handled rt = (rt', Ok n) \<Longrightarrow> held K R rt'"
proof (induction room arbitrary: handled rt)
  case (Suc room)
  show ?case
  proof (cases "sh_local_queue (ru_shared rt)")
    case (Cons q qs)
    let ?rt = "fst (on_shared (\<lambda>sh. (sh\<lparr>sh_local_queue := qs\<rparr>, ())) rt)"
    have h: "held K R ?rt" by (rule held_shared [OF Suc.prems(1) prod.collapse [symmetric]])
    obtain rt1 r where d: "dispatch_local q (clocks (Suc handled)) ?rt = (rt1, r)" by force
    show ?thesis
      using Suc.prems(2) Cons d Suc.IH [OF held_dispatch [OF h d]] by (auto split: sum.splits)
  qed (use Suc.prems in simp)
qed simp

lemma held_drain_pass: "held K R rt \<Longrightarrow> drain_pass env clock limit handled rt = (rt', Ok n) \<Longrightarrow> held K R rt'"
  by (auto simp: drain_pass_def and_then_Ok or_fail_Ok dest: held_drain split: if_splits)

lemma held_transport_events: "held K R rt \<Longrightarrow> transport_events dv limit rt = (rt', Ok ev) \<Longrightarrow> held K R rt'"
  unfolding transport_events_def or_fail_Ok by (rule held_shared)

lemma held_progress:
  assumes "held K R rt" "rt_progress dv clocks k rt = (rt', Ok p)"
    and "retirable (min k (rl_max_progress_events (sh_limits (ru_shared rt)))) (ru_objects (expire_all (dv_env dv) (clocks 0) rt))"
  shows "held K R rt'"
proof (cases "(sh_state (ru_shared rt) = StRunning \<or> sh_state (ru_shared rt) = StDraining)
    \<and> min k (rl_max_progress_events (sh_limits (ru_shared rt))) \<noteq> 0")
  case False
  then show ?thesis using assms(1,2) by (auto simp: rt_progress_def Let_def split: if_splits)
next
  case True
  define limit where "limit = min k (rl_max_progress_events (sh_limits (ru_shared rt)))"
  have limit: "limit \<noteq> 0" using True limit_def by simp
  let ?rt0 = "retirements_pass (dv_env dv) limit (expire_all (dv_env dv) (clocks 0) rt)"
  have body: "and_then (transport_events dv limit ?rt0) (\<lambda>(events, moved) rt. and_then (event_loop dv clocks events 0 rt)
          (\<lambda>handled rt. and_then (completion_loop (limit - handled) handled rt)
          (\<lambda>handled rt. and_then (retry_pass limit handled rt)
          (\<lambda>handled rt. and_then (local_loop clocks (limit - handled) handled rt)
          (\<lambda>handled rt. and_then (drain_pass (dv_env dv) (clocks (Suc handled)) limit handled rt)
          (\<lambda>handled rt. (rt, Ok \<lparr>rp_events = handled, rp_made_progress = (moved \<or> 0 < handled)\<rparr>))))))) = (rt', Ok p)"
    using assms(2) True limit unfolding rt_progress_def Let_def limit_def [symmetric] by auto
  obtain rt1 events moved rt2 n2 rt3 n3 rt4 n4 rt5 n5 rt6 n6 where steps:
      "transport_events dv limit ?rt0 = (rt1, Ok (events, moved))" "event_loop dv clocks events 0 rt1 = (rt2, Ok n2)"
      "completion_loop (limit - n2) n2 rt2 = (rt3, Ok n3)" "retry_pass limit n3 rt3 = (rt4, Ok n4)"
      "local_loop clocks (limit - n4) n4 rt4 = (rt5, Ok n5)"
      "drain_pass (dv_env dv) (clocks (Suc n5)) limit n5 rt5 = (rt6, Ok n6)" "rt6 = rt'"
    using body unfolding and_then_Ok by (elim exE conjE) (auto simp: and_then_Ok)
  have "held K R rt1" by (rule held_transport_events [OF held_retirements [OF held_expire [OF assms(1)] assms(3) [folded limit_def]] steps(1)])
  then have "held K R rt2" by (rule held_event_loop [OF _ steps(2)])
  then have "held K R rt3" by (rule held_completion_loop [OF _ steps(3)])
  then have "held K R rt4" by (rule held_retry [OF _ steps(4)])
  then have "held K R rt5" by (rule held_local_loop [OF _ steps(5)])
  then show ?thesis using held_drain_pass [OF _ steps(6)] steps(7) by simp
qed

text \<open>
  A pass that fails leaves the runtime as it was, because it is not running, or marks it as failed, or
  failed while it submitted the calls \<open>retry_ready\<close> released. (The driver that gives more events than
  it was asked for makes the pass panic.)
\<close>

lemma or_fail_Err: "or_fail p = (rt, Err e) \<Longrightarrow> sh_state (ru_shared rt) = StFailed"
  by (cases p) (auto simp: or_fail_def runtime_fail_def on_shared_def on_server_def sh_fail_def entry_loops_frame split: sum.splits prod.splits)

lemma and_then_Err: "and_then p f = (rt, Err e) \<longleftrightarrow> p = (rt, Err e) \<or> (\<exists>rt1 a. p = (rt1, Ok a) \<and> f a rt1 = (rt, Err e))"
  by (cases p) (auto simp: and_then_def split: sum.splits)

lemma event_loop_Err: "event_loop dv clocks events handled rt = (rt', Err e) \<Longrightarrow> sh_state (ru_shared rt') = StFailed"
  by (induction events arbitrary: handled rt) (auto simp: and_then_Err dest: or_fail_Err)

lemma completion_loop_Err: "completion_loop room handled rt = (rt', Err e) \<Longrightarrow> sh_state (ru_shared rt') = StFailed"
  by (induction room arbitrary: handled rt) (auto simp: and_then_Err dest: or_fail_Err split: option.splits)

lemma local_loop_returns: "snd (local_loop clocks room handled rt) \<noteq> Err e"
proof (induction room arbitrary: handled rt)
  case (Suc room)
  have "snd (dispatch_local q clock rt) = Ok ()" for q clock and rt :: "('a, 'b, 'c) runtime"
    by (auto simp: dispatch_local_def Let_def on_shared_def on_server_def split: prod.splits sum.splits)
  with Suc show ?case by (auto split: list.splits prod.splits sum.splits) (metis snd_conv sum.distinct(1))
qed simp

lemma drain_pass_Err: "drain_pass env clock limit n rt = (rt', Err e) \<Longrightarrow> sh_state (ru_shared rt') = StFailed \<or> e = Panic"
  by (auto simp: drain_pass_def and_then_Err dest: or_fail_Err split: if_splits)

lemma transport_events_Err: "transport_events dv limit rt = (rt', Err e) \<Longrightarrow> sh_state (ru_shared rt') = StFailed"
  by (auto simp: transport_events_def dest: or_fail_Err)

lemma local_loop_Err: "local_loop clocks room handled rt \<noteq> (rt', Err e)"
  using local_loop_returns [of clocks room handled rt e] by auto

lemma failing_progress:
  assumes "rt_progress dv clocks k rt = (rt', Err e)"
  shows "rt' = rt \<or> e = Panic \<or> sh_state (ru_shared rt') = StFailed \<or> (\<exists>limit n rt1. retry_pass limit n rt1 = (rt', Err e))"
  using assms
  by (auto simp: rt_progress_def Let_def and_then_Err local_loop_Err split: if_splits
      dest: transport_events_Err event_loop_Err completion_loop_Err drain_pass_Err)

text \<open>
  One step of a runtime: a pass of \<open>progress\<close> or any of the handlers it is made of, a step of a worker,
  a call of a user on the objects, or any change a caller makes to the shared part.
\<close>

datatype ('v, 'n, 's, 't, 'm, 'a, 'o) rt_op =
  RtProgress "'n driver" "nat \<Rightarrow> nat \<Rightarrow> instant" usize
| RtEvent "'n driver" transport_event "nat \<Rightarrow> instant"
| RtCompletion
| RtRetry usize
| RtDispatch "nat \<Rightarrow> nat \<Rightarrow> instant" usize
| RtDrain "'n env" "nat \<Rightarrow> instant" usize
| RtExpire "'n env" "nat \<Rightarrow> instant"
| RtRetire "'n env" usize
| RtStart domain_id nat instant
| RtFinish domain_id nat duration instant
| RtDeliver domain_id nat
| RtObjects "('v, 's, 't, 'm, 'a, 'o) svc_op"
| RtShared "('v, 'n) shared"

text \<open>The operations on objects that a user's thread performs.\<close>

fun user_op :: "('v, 's, 't, 'm, 'a, 'o) svc_op \<Rightarrow> bool" where
  "user_op (SoCreate obj t d v k rooted now) = True"
| "user_op (SoRead T A obj t l a) = True"
| "user_op (SoWrite T A obj t l a) = True"
| "user_op (SoCache obj l) = True"
| "user_op (SoBegin m) = True"
| "user_op (SoFinish m outcome n) = True"
| "user_op _ = False"

fun rt_do :: "('v, 'n, 's, 't, 'm, 'a, 'o) rt_op \<Rightarrow> ('v, 'n, 's) runtime \<Rightarrow> ('v, 'n, 's) runtime" where
  "rt_do (RtProgress dv clocks k) rt = fst (rt_progress dv clocks k rt)"
| "rt_do (RtEvent dv event clock) rt = fst (handle_transport_event dv event clock rt)"
| "rt_do RtCompletion rt = (case take_completion rt of None \<Rightarrow> rt | Some (rt1, c) \<Rightarrow> fst (handle_completion c rt1))"
| "rt_do (RtRetry limit) rt = fst (retry_pass limit 0 rt)"
| "rt_do (RtDispatch clocks limit) rt = fst (local_loop clocks limit 0 rt)"
| "rt_do (RtDrain env clock k) rt = fst (on_server (drain_responses env clock k) rt)"
| "rt_do (RtExpire env clock) rt = expire_all env clock rt"
| "rt_do (RtRetire env limit) rt = retirements_pass env limit rt"
| "rt_do (RtStart d i now) rt = rt\<lparr>ru_domains := job_start (sh_flags (ru_shared rt)) d i now (ru_domains rt)\<rparr>"
| "rt_do (RtFinish d i elapsed now) rt = finish_job d i elapsed now rt"
| "rt_do (RtDeliver d i) rt = rt\<lparr>ru_domains := job_deliver d i (ru_domains rt)\<rparr>"
| "rt_do (RtObjects p) rt = rt\<lparr>ru_objects := fst (svc_do p (ru_objects rt, {#}))\<rparr>"
| "rt_do (RtShared sh) rt = rt\<lparr>ru_server := (ru_server rt)\<lparr>sv_shared := sh\<rparr>\<rparr>"

fun rt_run :: "('v, 'n, 's, 't, 'm, 'a, 'o) rt_op list \<Rightarrow> ('v, 'n, 's) runtime \<Rightarrow> ('v, 'n, 's) runtime" where
  "rt_run [] rt = rt"
| "rt_run (p # ps) rt = rt_run ps (rt_do p rt)"

text \<open>
  The steps that go well: a pass returns \<open>Ok\<close> or is refused because the runtime does not run, a handler
  returns \<open>Ok\<close>, the objects a pass retires are still retiring, and a user performs the operations of a
  user. The code does not check the last but one: see \<open>retirement_drops_prepared_state\<close>.
\<close>

fun rt_fine :: "('v, 'n, 's, 't, 'm, 'a, 'o) rt_op \<Rightarrow> ('v, 'n, 's) runtime \<Rightarrow> bool" where
  "rt_fine (RtProgress dv clocks k) rt \<longleftrightarrow>
     (is_ok (snd (rt_progress dv clocks k rt)) \<or> (sh_state (ru_shared rt) \<noteq> StRunning \<and> sh_state (ru_shared rt) \<noteq> StDraining))
     \<and> retirable (min k (rl_max_progress_events (sh_limits (ru_shared rt)))) (ru_objects (expire_all (dv_env dv) (clocks 0) rt))"
| "rt_fine (RtEvent dv event clock) rt \<longleftrightarrow> is_ok (snd (handle_transport_event dv event clock rt))"
| "rt_fine RtCompletion rt \<longleftrightarrow> (case take_completion rt of None \<Rightarrow> True | Some (rt1, c) \<Rightarrow> is_ok (snd (handle_completion c rt1)))"
| "rt_fine (RtRetry limit) rt \<longleftrightarrow> is_ok (snd (retry_pass limit 0 rt))"
| "rt_fine (RtDrain env clock k) rt \<longleftrightarrow> is_ok (snd (on_server (drain_responses env clock k) rt))"
| "rt_fine (RtRetire env limit) rt \<longleftrightarrow> retirable limit (ru_objects rt)"
| "rt_fine (RtObjects p) rt \<longleftrightarrow> user_op p"
| "rt_fine p rt \<longleftrightarrow> True"

fun rt_fine_run :: "('v, 'n, 's, 't, 'm, 'a, 'o) rt_op list \<Rightarrow> ('v, 'n, 's) runtime \<Rightarrow> bool" where
  "rt_fine_run [] rt \<longleftrightarrow> True"
| "rt_fine_run (p # ps) rt \<longleftrightarrow> rt_fine p rt \<and> rt_fine_run ps (rt_do p rt)"

lemma is_ok_pair: "is_ok (snd p) \<longleftrightarrow> (\<exists>a. p = (fst p, Ok a))"
  by (cases p) (auto simp: is_ok_iff)

lemma held_user:
  assumes "held K R rt" "user_op p"
  shows "held K R (rt\<lparr>ru_objects := fst (svc_do p (ru_objects rt, {#}))\<rparr>)"
proof -
  let ?os = "fst (svc_do p (ru_objects rt, {#}))" and ?R = "R + object_marks (ru_domains rt)"
  have inv: "service_inv ?R (ru_objects rt)" using assms(1) by (simp add: held_def)
  have "service_inv ?R ?os"
    using assms(2) inv by (cases p) (simp_all add: create_local_inv call_read_local_inv call_write_local_inv begin_finish_inv)
  moreover have "waiting ?os = waiting (ru_objects rt)"
    using assms(2) by (cases p) (auto simp: quiet begin_migration_def finish_migration_def Let_def split: migration_outcome.split)
  ultimately show ?thesis by (intro held_objects [OF assms(1)])
qed

lemma held_do: "held {#} {#} rt \<Longrightarrow> rt_fine p rt \<Longrightarrow> held {#} {#} (rt_do p rt)"
proof (cases p)
  case (RtProgress dv clocks k)
  assume h: "held {#} {#} rt" and f: "rt_fine p rt"
  show ?thesis
  proof (cases "is_ok (snd (rt_progress dv clocks k rt))")
    case True
    then show ?thesis using f RtProgress held_progress [OF h] by (auto simp: is_ok_pair)
  qed (use f h RtProgress in \<open>auto simp: rt_progress_def\<close>)
next
  case RtCompletion
  assume h: "held {#} {#} rt" and f: "rt_fine p rt"
  then show ?thesis using RtCompletion
    by (auto simp: is_ok_pair split: option.splits dest: held_take_completion held_completion)
next
  case (RtDispatch clocks limit)
  assume h: "held {#} {#} rt"
  obtain n where "local_loop clocks limit 0 rt = (fst (local_loop clocks limit 0 rt), Ok n)"
    using local_loop_returns [of clocks limit 0 rt] by (metis is_ok_iff is_ok_pair obj_sumE)
  then show ?thesis using held_local_loop [OF h] RtDispatch by simp
next
  case (RtShared sh)
  assume "held {#} {#} rt"
  with RtShared show ?thesis by (auto intro: held_server)
qed (auto simp: is_ok_pair held_start held_finish held_expire held_user held_retirements
    dest: held_event held_retry held_drain)

lemma held_run: "held {#} {#} rt \<Longrightarrow> rt_fine_run ps rt \<Longrightarrow> held {#} {#} (rt_run ps rt)"
  by (induction ps arbitrary: rt) (auto dest: held_do)

definition fresh_runtime ::
  "(domain_config \<Rightarrow> bool) \<Rightarrow> domain_config list \<Rightarrow> usize \<Rightarrow> run_id \<Rightarrow> object_limits \<Rightarrow> ('v, 's) object_registry
     \<Rightarrow> ('v, 'n, 's) runtime \<Rightarrow> bool"
where
  "fresh_runtime builds configs room run l reg rt \<longleftrightarrow>
     sv_responses (ru_server rt) = [] \<and> dt_entries (sv_dedup (ru_server rt)) = []
     \<and> domain_registry_new builds configs room = Ok (ru_domains rt)
     \<and> ru_objects rt = object_service_new run (sh_local_id (ru_shared rt)) l reg
     \<and> object_limits_validate l = Ok l \<and> handlers_ok reg"

lemma held_fresh:
  assumes "fresh_runtime builds configs room run l reg rt"
  shows "held {#} {#} rt"
proof -
  note f = assms [unfolded fresh_runtime_def]
  have "registry_ok (ru_domains rt)" "registry_items (ru_domains rt) = {#}" using registry_new_ok f by blast+
  moreover have "service_inv {#} (ru_objects rt)" using object_service_new_inv f by metis
  moreover have "mail_keys (ru_objects rt) = {#}" using f by (simp add: mail_keys_def object_service_new_def)
  ultimately show ?thesis
    using f by (simp add: held_def domain_keys_def object_marks_def reply_keys_def balanced_def running_as_def)
qed

text \<open>Where the requests are that a runtime has accepted and not answered.\<close>

definition owed :: "('v, 'n, 's) runtime \<Rightarrow> request_key multiset" where
  "owed rt = mail_keys (ru_objects rt) + domain_keys (ru_domains rt) + reply_keys (sv_responses (ru_server rt))"

text \<open>
  C30. A request is never lost or answered twice while the runtime does well. After a run - passes of
  \<open>progress\<close> or single handlers, with the workers and the callers acting between them, in any order - in
  which every pass and handler returned \<open>Ok\<close> (or the pass was refused) and the retirements found their
  objects still retiring, a request that the deduplication table has as running is in exactly one place:
  the mailbox of an object, a domain, the completion channel or the queue of owed replies; and whatever
  is there is running in the table under the same action and domain. So when nothing waits anywhere, no
  request is left unanswered. A pass that fails marks the runtime as failed and later passes are
  refused, with one exception (\<open>failing_progress\<close>): the failing \<open>retry_pass\<close> of C33, after which
  requests are lost and the runtime runs on.
\<close>

theorem requests_conserved:
  assumes "fresh_runtime builds configs room run l reg rt" "rt_fine_run ps rt" "rt_run ps rt = rt'"
  shows "count (owed rt') (r, a, d) =
      (if \<exists>c. hm_get (dt_entries (sv_dedup (ru_server rt'))) r = Some (DsRunning a d c) then 1 else 0)"
proof -
  have "held {#} {#} rt'" using held_run [OF held_fresh [OF assms(1)] assms(2)] assms(3) by simp
  then have "count (owed rt') (r, a, d) = (if running_as (sv_dedup (ru_server rt')) r = Some (a, d) then 1 else 0)"
    by (simp add: held_def balanced_def owed_def)
  moreover have "running_as (sv_dedup (ru_server rt')) r = Some (a, d) \<longleftrightarrow>
      (\<exists>c. hm_get (dt_entries (sv_dedup (ru_server rt'))) r = Some (DsRunning a d c))"
    by (auto simp: running_as_def split: option.splits dedup_state.splits)
  ultimately show ?thesis by simp
qed

text \<open>A runtime with one domain, which gets a request for an action it does not know.\<close>

definition demo_domains :: "usize \<Rightarrow> unit domain_registry" where
  "demo_domains n = \<lparr>dr_domains = [(0, \<lparr>dx_workers = 1, dx_queue_capacity = n, dx_counters = counters_zero,
     dx_pool = [], dx_started = [], dx_sending = []\<rparr>)], dr_completions = [], dr_completion_capacity = 4\<rparr>"

definition demo_runtime :: "(unit, u64, u64) runtime" where
  "demo_runtime = \<lparr>ru_server = demo_server, ru_objects = object_service_new 3 7 object_limits_default demo_rw_registry,
     ru_domains = demo_domains 1, ru_leases = lease_manager_new 4 10, ru_duplicate_requests = 0,
     ru_local_typed_dispatches = 0, ru_local_action_serializations = 0, ru_received = (\<lambda>_. 0)\<rparr>"

definition demo_driver :: "u64 driver" where
  "demo_driver = \<lparr>dv_env = demo_env, dv_progress = (\<lambda>k n. (n, Ok ([], False))), dv_shutdown = (\<lambda>d n. (n, Ok [])),
     dv_stats = (\<lambda>n. \<lparr>ts_submitted_parcels = 0, ts_submitted_bytes = 0, ts_received_parcels = 0, ts_received_bytes = 0,
       queued_control = 0, queued_action = 0, queued_bulk = 0, ts_queued_bytes = 0, retained_read_bytes = 0,
       retained_write_bytes = 0, retained_reassembly_bytes = 0, ts_peer_failures = 0, pending_events = 0,
       pending_event_bytes = 0\<rparr>), dv_error_text = (\<lambda>e. []), dv_wire_text = (\<lambda>e. []), dv_pair_bytes = 64\<rparr>"

definition demo_unknown :: rt_message where
  "demo_unknown = demo_request\<lparr>rm_request := \<lparr>req_origin = 8, req_sequence = 1\<rparr>, rm_action := 5\<rparr>"

definition demo_arrival :: "(unit, u64, u64, u64, u64, u64, u64) rt_op" where
  "demo_arrival = RtEvent demo_driver (Incoming (demo_carrier 8 7 demo_unknown)) (\<lambda>i. i)"

lemma demo_runtime_fresh:
  "fresh_runtime (\<lambda>_. True) [\<lparr>dcf_id = 0, dcf_workers = 1, dcf_queue_capacity = 1\<rparr>] 4 3 object_limits_default demo_rw_registry demo_runtime"
  by (simp add: fresh_runtime_def demo_runtime_def demo_server_def dedup_new_def demo_shared_def object_limits_default_valid
      demo_rw_registry_handlers demo_domains_def domain_registry_new_def hm_get_def hm_insert_def)

lemma demo_arrival_run:
  "rt_fine demo_arrival demo_runtime
    \<and> hm_get (dt_entries (sv_dedup (ru_server (rt_do demo_arrival demo_runtime)))) \<lparr>req_origin = 8, req_sequence = 1\<rparr> = Some (DsRunning 5 0 0)
    \<and> sv_responses (ru_server (rt_do demo_arrival demo_runtime)) = [\<lparr>qr_destination = 8,
        qr_message = failure_message demo_unknown (lit ''unknown action''), qr_trace_id = None, qr_cache = True, qr_bytes = 14\<rparr>]
    \<and> ru_shared (rt_do demo_arrival demo_runtime) = demo_shared\<lparr>sh_flags := [False]\<rparr>"
proof -
  have "rt_decode (demo_carrier 8 7 demo_unknown) = Ok demo_unknown"
    by (rule rt_decode_encode) (simp_all add: demo_carrier_def demo_unknown_def demo_request_def validate_shape_def shape_of_def)
  then show ?thesis
    by (simp add: demo_arrival_def handle_transport_event_def demo_carrier_def Let_def handle_message_def handle_request_def
        demo_unknown_def demo_request_def demo_runtime_def demo_server_def demo_shared_def request_targets_current_def
        object_service_new_def demo_rw_registry_def hm_get_def dedup_begin_def dedup_expire_def dedup_new_def hm_len_def
        put_dedup_def accept_request_def registry_get_def on_server_def send_and_cache_failure_def queue_response_def
        failure_message_def cap_def MAX_ERROR_BYTES_def checked_total_def checked_add_usize_def USIZE_MAX_def
        runtime_limits_default_def hm_insert_def)
qed

theorem requests_conserved_witness:
  "rt_fine_run [demo_arrival] demo_runtime
    \<and> count (owed (rt_run [demo_arrival] demo_runtime)) (\<lparr>req_origin = 8, req_sequence = 1\<rparr>, 5, 0) = 1"
  using requests_conserved [OF demo_runtime_fresh, of "[demo_arrival]" _ "\<lparr>req_origin = 8, req_sequence = 1\<rparr>" 5 0] demo_arrival_run
  by auto

lemma drain_loop_error:
  assumes "balanced (X + reply_keys (sv_responses sv0)) (sv_dedup sv0)"
    "\<forall>q\<in>set (sv_responses sv0). checked_total (rm_payload (qr_message q)) \<noteq> None"
    "drain_loop env clock k sent sv0 = (sv, Err err)"
  shows "\<exists>n<k. \<exists>sv1 q qs sh. drain_loop env clock n sent sv0 = (sv1, Ok (sent + n)) \<and> sv_responses sv1 = q # qs
    \<and> sh_send env (qr_destination q) (qr_message q) TpRequiredResponse (qr_trace_id q) (sv_shared sv1) = (sh, Err err)
    \<and> \<not> is_backpressure err"
  using assms
proof (induction k arbitrary: sent sv0)
  case (Suc k)
  show ?case
  proof (cases "sv_responses sv0")
    case (Cons q qs)
    let ?sv = "sv0\<lparr>sv_responses := qs, sv_response_bytes := sv_response_bytes sv0 - qr_bytes q\<rparr>"
    obtain sh r where snd: "sh_send env (qr_destination q) (qr_message q) TpRequiredResponse (qr_trace_id q) (sv_shared sv0) = (sh, r)"
      by force
    obtain n where n: "checked_total (rm_payload (qr_message q)) = Some n" using Suc.prems(2) Cons by auto
    have key: "balanced (add_mset (message_key (qr_message q)) (X + reply_keys qs)) (sv_dedup sv0)" if "qr_cache q"
      using Suc.prems(1) Cons that by (simp add: reply_keys_Cons)
    show ?thesis
    proof (cases "is_ok r")
      case False
      then have "sh_send env (qr_destination q) (qr_message q) TpRequiredResponse (qr_trace_id q) (sv_shared sv0) = (sh, Err err)
          \<and> \<not> is_backpressure err"
        using Suc.prems(3) Cons snd by (auto simp: Let_def is_ok_iff split: sum.splits if_splits)
      then show ?thesis using Cons by (intro exI [of _ 0]) simp
    next
      case True
      then obtain ticket where r: "r = Ok ticket" by (auto simp: is_ok_iff)
      have rest: ?thesis
        if shift: "\<And>n. drain_loop env clock (Suc n) sent sv0 = drain_loop env clock n (Suc sent) sv1"
          "sv_responses sv1 = qs" "balanced (X + reply_keys qs) (sv_dedup sv1)" for sv1
      proof -
        have last: "drain_loop env clock k (Suc sent) sv1 = (sv, Err err)" using shift(1) [of k] Suc.prems(3) by (simp del: drain_loop.simps)
        obtain n where "n < k" "\<exists>sv2 q qs sh. drain_loop env clock n (Suc sent) sv1 = (sv2, Ok (Suc sent + n)) \<and> sv_responses sv2 = q # qs
            \<and> sh_send env (qr_destination q) (qr_message q) TpRequiredResponse (qr_trace_id q) (sv_shared sv2) = (sh, Err err)
            \<and> \<not> is_backpressure err"
          using Suc.IH [OF _ _ last] shift(2,3) Suc.prems(2) Cons by auto
        then show ?thesis using shift(1) [of n] by (intro exI [of _ "Suc n"]) (simp del: drain_loop.simps)
      qed
      show ?thesis
      proof (cases "qr_cache q")
        case True
        then obtain t where "dedup_complete (qr_message q) (clock sent) (sv_dedup sv0) = (t, Ok ())" "balanced (X + reply_keys qs) t"
          using balanced_complete [OF key n, of "clock sent"] by blast
        with rest [of "?sv\<lparr>sv_shared := sh, sv_dedup := t\<rparr>"] Cons snd r True show ?thesis by (simp add: Let_def)
      next
        case False
        then have "balanced (X + reply_keys qs) (sv_dedup sv0)" using Suc.prems(1) Cons by (simp add: reply_keys_Cons)
        with rest [of "?sv\<lparr>sv_shared := sh\<rparr>"] Cons snd r False show ?thesis by (simp add: Let_def)
      qed
    qed
  qed (use Suc.prems in simp)
qed simp

text \<open>
  C31. The reply to a request is always recorded for its duplicates. In every state a runtime reaches by
  a run as in C30, each owed reply that is to be kept can be recorded: it is running in the
  deduplication table under its own action and domain, so the protocol errors of \<open>complete\<close> - no entry,
  completed twice, other metadata - do not occur. And when a pass over the owed replies fails, it has
  sent and recorded the first \<open>n\<close> of them, and its error is the one \<open>sh_send\<close> gives for the next one in
  the state it then is in: message identifiers used up, a parcel over the protocol's limits, or a
  refusal of the transport, but never that there is no room, which ends the pass with \<open>Ok\<close>.
\<close>

theorem replies_always_recorded:
  assumes "fresh_runtime builds configs room run l reg rt" "rt_fine_run ps rt" "rt_run ps rt = rt'"
  shows "(\<forall>q\<in>set (sv_responses (ru_server rt')). qr_cache q \<longrightarrow>
        (\<exists>t. dedup_complete (qr_message q) now (sv_dedup (ru_server rt')) = (t, Ok ())))
    \<and> (drain_responses env clock k (ru_server rt') = (sv, Err err) \<longrightarrow>
        (\<exists>n<k. \<exists>sv1 q qs sh. drain_responses env clock n (ru_server rt') = (sv1, Ok n) \<and> sv_responses sv1 = q # qs
          \<and> sh_send env (qr_destination q) (qr_message q) TpRequiredResponse (qr_trace_id q) (sv_shared sv1) = (sh, Err err)
          \<and> \<not> is_backpressure err))"
proof -
  let ?X = "mail_keys (ru_objects rt') + domain_keys (ru_domains rt')"
  have h: "held {#} {#} rt'" using held_run [OF held_fresh [OF assms(1)] assms(2)] assms(3) by simp
  then have bal: "balanced (?X + reply_keys (sv_responses (ru_server rt'))) (sv_dedup (ru_server rt'))"
    and tot: "\<forall>q\<in>set (sv_responses (ru_server rt')). checked_total (rm_payload (qr_message q)) \<noteq> None"
    by (simp_all add: held_def)
  have "\<exists>t. dedup_complete (qr_message q) now (sv_dedup (ru_server rt')) = (t, Ok ())"
    if q: "q \<in> set (sv_responses (ru_server rt'))" "qr_cache q" for q
  proof -
    obtain n where n: "checked_total (rm_payload (qr_message q)) = Some n" using tot q by auto
    have "message_key (qr_message q) \<in># reply_keys (sv_responses (ru_server rt'))" using q by (auto simp: reply_keys_def)
    then obtain M where "?X + reply_keys (sv_responses (ru_server rt')) = add_mset (message_key (qr_message q)) M"
      by (metis mset_add union_mset_add_mset_right)
    then show ?thesis using balanced_complete [OF _ n, of M _ now] bal by metis
  qed
  moreover have "drain_responses env clock k (ru_server rt') = (sv, Err err) \<longrightarrow>
      (\<exists>n<k. \<exists>sv1 q qs sh. drain_responses env clock n (ru_server rt') = (sv1, Ok n) \<and> sv_responses sv1 = q # qs
        \<and> sh_send env (qr_destination q) (qr_message q) TpRequiredResponse (qr_trace_id q) (sv_shared sv1) = (sh, Err err)
        \<and> \<not> is_backpressure err)"
    using drain_loop_error [OF bal tot, of env clock k 0 sv err] by (simp add: drain_responses_def)
  ultimately show ?thesis by blast
qed

text \<open>The peer to which the reply goes is disconnected.\<close>

definition demo_refusing :: "u64 env" where
  "demo_refusing = demo_env\<lparr>env_try_send := (\<lambda>p n. (n, Err (Disconnected (p_destination p))))\<rparr>"

theorem replies_always_recorded_witness:
  "\<exists>sv t. drain_responses demo_refusing (\<lambda>i. i) 1 (ru_server (rt_run [demo_arrival] demo_runtime)) = (sv, Err (ReTransport (Disconnected 8)))
    \<and> \<not> is_backpressure (ReTransport (Disconnected 8))
    \<and> dedup_complete (failure_message demo_unknown (lit ''unknown action'')) 5
        (sv_dedup (ru_server (rt_run [demo_arrival] demo_runtime))) = (t, Ok ())"
proof -
  let ?rt = "rt_run [demo_arrival] demo_runtime"
  note a = demo_arrival_run [THEN conjunct2, THEN conjunct2]
  have fine: "rt_fine_run [demo_arrival] demo_runtime" using demo_arrival_run by simp
  have valid: "parcel_validate (send_parcel (failure_message demo_unknown (lit ''unknown action'')) 8 None k s) limits_default = Ok ()" for k and s :: "(unit, u64) shared"
    by (simp add: parcel_validate_Ok parcel_fits_def limits_ok_def limits_validate_def PARCEL_FIXED_BYTES_def limits_default_def send_parcel_def rt_encode_def rt_header_slices(1) Let_def
        failure_message_def cap_def MAX_ERROR_BYTES_def USIZE_MAX_def)
  have to_peer: "p_destination (send_parcel m n tr k s) = n" for m n tr k and s :: "(unit, u64) shared"
    by (simp add: send_parcel_def Let_def)
  obtain sv where sv: "drain_responses demo_refusing (\<lambda>i. i) 1 (ru_server ?rt) = (sv, Err (ReTransport (Disconnected 8)))"
    using a by (simp add: drain_responses_def demo_refusing_def demo_env_def demo_shared_def sh_send_def next_message_def fetch_next_def
        nonzero_u128_id_def ticket_limit_def runtime_limits_default_def hm_len_def is_backpressure_def valid to_peer
        Let_def saturating_add_usize_def USIZE_MAX_def)
  note rec = replies_always_recorded [OF demo_runtime_fresh fine refl, of 5 demo_refusing "\<lambda>i. i" 1 sv "ReTransport (Disconnected 8)"]
  from rec sv have "\<not> is_backpressure (ReTransport (Disconnected 8))" by blast
  moreover from rec a obtain t where "dedup_complete (failure_message demo_unknown (lit ''unknown action'')) 5 (sv_dedup (ru_server ?rt)) = (t, Ok ())"
    by auto
  ultimately show ?thesis using sv by blast
qed

section \<open>Calls that are ready and lost\<close>

text \<open>
  C33. \<open>retry_ready\<close> asks for each queued call whether its domain has room, but not how many calls it
  has already taken for that domain, and \<open>progress\<close> leaves at the first call the domain refuses. With
  room for one more job and two calls ready for the same domain, \<open>progress\<close> returns an error while the
  runtime goes on running, and every call but the first is gone: it is in no mailbox, in no domain and
  has no reply, although its request is running in the deduplication table.
\<close>

theorem ready_calls_lost:
  assumes "registry_ok (ru_domains rt)" "handled < limit"
    and "retry_ready (limit - handled) (can_submit (ru_domains rt)) (ru_objects rt) = (os, Ok (j1 # j2 # js))"
    and "aj_domain j1 = d" "aj_domain j2 = d" "hm_get (dr_domains (ru_domains rt)) d = Some x"
    and "Suc (dc_queued (dx_counters x)) = dx_queue_capacity x"
  shows "\<exists>rt'. retry_pass limit handled rt = (rt', Err (Fail (ReResourceExhausted RkActionQueue (dx_queue_capacity x))))
    \<and> sh_state (ru_shared rt') = sh_state (ru_shared rt) \<and> sv_dedup (ru_server rt') = sv_dedup (ru_server rt)
    \<and> owed rt = owed rt' + queue_keys (j2 # js)"
proof -
  obtain ds where ds: "dom_submit j1 (ru_domains rt) = (ds, Ok ())"
    using assms(4,6,7) by (auto simp: dom_submit_def Let_def)
  then have "dom_submit j2 ds = (ds, Err (ReResourceExhausted RkActionQueue (dx_queue_capacity x)))"
    using assms(4-7) by (auto simp: dom_submit_def Let_def put_domain_def hm_get_insert)
  then have "retry_pass limit handled rt = (rt\<lparr>ru_objects := os, ru_domains := ds\<rparr>,
      Err (Fail (ReResourceExhausted RkActionQueue (dx_queue_capacity x))))"
    using assms(2,3) ds by (simp add: retry_pass_def)
  moreover have "domain_keys ds = job_keys j1 + domain_keys (ru_domains rt)"
    using items_add_keys(1) [OF dom_submit_items(1) [OF assms(1) ds refl]] by simp
  moreover have "mail_keys (ru_objects rt) = mail_keys os + queue_keys (j1 # j2 # js)"
    using retry_entries_mail [OF assms(3) [unfolded retry_ready_def]] by simp
  ultimately show ?thesis by (simp add: owed_def add_ac)
qed

text \<open>Two reads wait behind a write that ends, and the domain has room for one job.\<close>

definition demo_waiting :: "(unit, u64) object_service" where
  "demo_waiting = fst (svc_run [SoCreate demo_object 77 0 5 8 False 0 :: (unit, u64, u64, u64, u64, u64) svc_op,
     SoAdmit 78 (ObjectProps.demo_call 78 1) True 0, SoAdmit 79 (ObjectProps.demo_call 79 2) True 0,
     SoAdmit 79 (ObjectProps.demo_call 79 3) True 0, SoComplete (demo_mark False)] (demo_service_new, {#}))"

theorem ready_calls_lost_witness:
  "\<exists>rt'. retry_pass (Suc (Suc 0)) 0 (demo_runtime\<lparr>ru_objects := demo_waiting\<rparr>) = (rt', Err (Fail (ReResourceExhausted RkActionQueue 1)))
    \<and> owed (demo_runtime\<lparr>ru_objects := demo_waiting\<rparr>) \<noteq> owed rt'"
proof -
  let ?rt = "demo_runtime\<lparr>ru_objects := demo_waiting\<rparr>"
  have avail: "can_submit (demo_domains (Suc 0)) 0" by (simp add: can_submit_def demo_domains_def hm_get_def counters_zero_def)
  have remote: "\<not> aj_local (ObjectProps.demo_call a n)" for a n by (simp add: ObjectProps.demo_call_def demo_job_def)
  obtain os j1 j2 where r: "retry_ready (Suc (Suc 0) - 0) (can_submit (ru_domains ?rt)) (ru_objects ?rt) = (os, Ok (j1 # j2 # []))"
      "aj_domain j1 = 0" "aj_domain j2 = 0" "\<not> aj_local j2"
    by (simp add: demo_runtime_def avail remote demo_waiting_def ObjectProps.demo_eval)
  have ok: "registry_ok (ru_domains ?rt)"
    using registry_new_ok demo_runtime_fresh by (auto simp: fresh_runtime_def)
  have x: "hm_get (dr_domains (ru_domains ?rt)) 0 = Some \<lparr>dx_workers = 1, dx_queue_capacity = 1, dx_counters = counters_zero,
     dx_pool = [], dx_started = [], dx_sending = []\<rparr>"
    by (simp add: demo_runtime_def demo_domains_def hm_get_def)
  from ready_calls_lost [OF ok _ r(1-3) x] r(4) show ?thesis by (auto simp: counters_zero_def job_keys_def)
qed

end
