(* ===== verification/Shutdown.thy ===== *)
theory Shutdown
  imports Conservation
begin

text \<open>
  The shutdown of a runtime ends: the waiting loops of \<open>shutdown\<close> stop at the deadline whatever the
  workers, the callers and the transport do, and a shutdown that reports success has left nothing
  behind.
\<close>

lemma wait_loop_ends:
  "i0 \<le> i \<Longrightarrow> i < i0 + fuel \<Longrightarrow> deadline \<le> clock (2 * i + 1) \<Longrightarrow>
     \<exists>rt' res. wait_loop fuel dv clocks clock deadline others over i0 rt = Some (rt', res)"
proof (induction fuel arbitrary: i0 rt)
  case (Suc fuel)
  show ?case
  proof (cases "over (clock (2 * i0)) rt \<or> deadline \<le> clock (2 * i0 + 1)")
    case True
    then show ?thesis by (auto split: prod.split sum.split)
  next
    case False
    then have "i0 \<noteq> i" using Suc.prems(3) by auto
    then have "\<exists>rt' res. wait_loop fuel dv clocks clock deadline others over (Suc i0) rt1 = Some (rt', res)" for rt1
      using Suc.prems by (intro Suc.IH) simp_all
    then show ?thesis by (auto split: prod.split sum.split)
  qed
qed simp

lemma wait_loop_over:
  "wait_loop fuel dv clocks clock deadline others over i rt = Some (rt', Ok ()) \<Longrightarrow> \<exists>now. over now rt'"
  by (induction fuel arbitrary: i rt) (auto split: if_splits prod.splits sum.splits)

lemma object_control_limits: "sh_limits (fst (object_control env obj t l loc a now (sh, os))) = sh_limits sh"
proof -
  have "sh_limits (fst (next_request sh)) = sh_limits sh" by (simp add: next_request_def split: option.split)
  then show ?thesis by (auto simp: object_control_def call_frame split: prod.split sum.split)
qed

lemma release_leases_limits: "sh_limits (ru_shared (release_leases env as clock rt)) = sh_limits (ru_shared rt)"
proof (induction "as" arbitrary: clock rt)
  case (Cons a as)
  show ?case
    using object_control_limits [of env _ _ _ _ _ _ "ru_shared rt" "ru_objects rt"] Cons.IH
    by (auto simp: Let_def split: prod.split) (metis fst_conv)
qed simp

lemma close_work_limits:
  assumes "close_work env clock rt = (rt', Ok ())"
  shows "sh_limits (ru_shared rt') = sh_limits (ru_shared rt)"
  using assms
  by (auto simp: close_work_def Let_def on_shared_def on_server_def set_state_def begin_shutdown_def call_frame
      release_leases_limits split: if_splits prod.splits)

lemma close_transport_clean:
  assumes "close_transport dv left now rt = (rt', Ok stats)"
  shows "sh_state (ru_shared rt') = StStopped \<and> dt_entries (sv_dedup (ru_server rt')) = [] \<and> os_entries (ru_objects rt') = []
    \<and> sv_responses (ru_server rt') = [] \<and> sh_tickets (ru_shared rt') = []
    \<and> retained_bytes (dv_stats dv (sh_net (ru_shared rt'))) = 0"
proof -
  let ?sv = "(ru_server rt)\<lparr>sv_dedup := dedup_clear (sv_dedup (ru_server rt))\<rparr>"
  obtain net ev where "rt' = set_state StStopped (rt\<lparr>ru_objects := clear_all (ru_objects rt),
        ru_server := ?sv\<lparr>sv_shared := forget_tickets ev ((ru_shared rt)\<lparr>sh_net := net\<rparr>)\<rparr>\<rparr>)" "stats = rt_stats dv now rt'" "retains_nothing stats"
    using assms by (auto simp: close_transport_def Let_def and_then_def on_shared_def on_server_def split: prod.splits sum.splits if_splits)
  then show ?thesis
    by (auto simp: set_state_def on_shared_def on_server_def dedup_clear_def clear_all_def clear_resolver_def retains_nothing_def
        rt_stats_def Let_def hm_len_def)
qed

text \<open>
  C32. A shutdown ends, whatever the workers, the callers and the transport do meanwhile, as soon as the
  clock passes the deadline in both of its waiting loops (the fuel only bounds how often it looks). When
  it reports success the runtime is stopped, no reply is owed, no send is outstanding, no request is
  remembered, no object is stored, and the transport retains no byte.
\<close>

theorem shutdown_ends_clean:
  assumes "i < fuel" "clock 0 0 + rl_shutdown_timeout (sh_limits (ru_shared rt)) \<le> clock 1 (2 * i + 1)"
    and "j < fuel" "clock 0 0 + rl_shutdown_timeout (sh_limits (ru_shared rt)) \<le> clock 2 (2 * j + 1)"
    and "sh_state (ru_shared rt) \<noteq> StStopped"
  shows "\<exists>rt' res. rt_shutdown fuel dv clocks clock others rt = Some (rt', res)
    \<and> (\<forall>stats. res = Ok stats \<longrightarrow> sh_state (ru_shared rt') = StStopped \<and> sv_responses (ru_server rt') = []
         \<and> sh_tickets (ru_shared rt') = [] \<and> dt_entries (sv_dedup (ru_server rt')) = [] \<and> os_entries (ru_objects rt') = []
         \<and> retained_bytes (dv_stats dv (sh_net (ru_shared rt'))) = 0)"
proof -
  obtain rt1 r1 where c: "close_work (dv_env dv) (\<lambda>i. clock 0 (Suc i)) rt = (rt1, r1)" by force
  show ?thesis
  proof (cases r1)
    case (Inl err)
    with c assms(5) show ?thesis by (simp add: rt_shutdown_def)
  next
    case (Inr u)
    define deadline where "deadline = clock 0 0 + rl_shutdown_timeout (sh_limits (ru_shared rt))"
    have lim: "sh_limits (ru_shared rt1) = sh_limits (ru_shared rt)" using close_work_limits c Inr by simp
    obtain rt2 r2 where w: "wait_loop fuel dv clocks (clock 1) deadline (others 0) (work_done dv) 0 rt1 = Some (rt2, r2)"
      using wait_loop_ends [OF le0, of i fuel deadline "clock 1" dv clocks "others 0" "work_done dv" rt1] assms(1,2)
      by (auto simp: deadline_def)
    obtain rt3 r3 where f: "finish_completions (length (dr_completions (ru_domains rt2))) rt2 = (rt3, r3)" by force
    obtain rt4 r4 where w2: "wait_loop fuel dv (\<lambda>i. clocks (fuel + i)) (clock 2) deadline (others 1)
        (\<lambda>_ rt. sv_responses (ru_server rt) = []) 0 rt3 = Some (rt4, r4)"
      using wait_loop_ends [OF le0, of j fuel deadline "clock 2" dv "\<lambda>i. clocks (fuel + i)" "others 1"
        "\<lambda>_ rt. sv_responses (ru_server rt) = []" rt3] assms(3,4)
      by (auto simp: deadline_def)
    obtain rt5 r5 where e: "close_transport dv (deadline - clock 3 0) (clock 3 1) rt4 = (rt5, r5)" by force
    have clean: "sh_state (ru_shared rt5) = StStopped \<and> sv_responses (ru_server rt5) = []
         \<and> sh_tickets (ru_shared rt5) = [] \<and> dt_entries (sv_dedup (ru_server rt5)) = [] \<and> os_entries (ru_objects rt5) = []
         \<and> retained_bytes (dv_stats dv (sh_net (ru_shared rt5))) = 0" if "r5 = Ok stats" for stats
      using close_transport_clean [OF e [unfolded that]] by simp
    show ?thesis
      unfolding rt_shutdown_def Let_def using c Inr assms(5) w f w2 e clean
      by (auto simp: lim deadline_def [symmetric] split: sum.split)
  qed
qed

theorem shutdown_ends_clean_witness:
  "\<exists>rt' res. rt_shutdown 1 demo_driver (\<lambda>_ _ _. 0) (\<lambda>k i. if k = 0 then 0 else 10 ^ 11) (\<lambda>_ _ rt. rt) demo_runtime = Some (rt', res)"
proof -
  let ?clock = "\<lambda>k i. if k = 0 then 0 else 10 ^ 11 :: nat"
  have "\<exists>rt' res. rt_shutdown 1 demo_driver (\<lambda>_ _ _. 0) ?clock (\<lambda>_ _ rt. rt) demo_runtime = Some (rt', res)
    \<and> (\<forall>stats. res = Ok stats \<longrightarrow> sh_state (ru_shared rt') = StStopped \<and> sv_responses (ru_server rt') = []
         \<and> sh_tickets (ru_shared rt') = [] \<and> dt_entries (sv_dedup (ru_server rt')) = [] \<and> os_entries (ru_objects rt') = []
         \<and> retained_bytes (dv_stats demo_driver (sh_net (ru_shared rt'))) = 0)"
    by (rule shutdown_ends_clean [of 0 1 ?clock demo_runtime 0])
      (simp_all add: demo_runtime_def demo_server_def demo_shared_def runtime_limits_default_def)
  then show ?thesis by blast
qed

end
