(* ===== verification/Remotes.thy ===== *)
theory Remotes
  imports Serving
begin

text \<open>
  Handles on objects and what their owners do with them (\<open>Remote\<close>, \<open>RemoteObjectCall\<close>, the futures of
  calls, creations, upgrades, transfers and placements in \<open>crates/hataori-runtime/src/object.rs\<close>, and the
  methods of \<open>RuntimeClient\<close> that make them in \<open>runtime.rs\<close>). A client works on the runtime it
  belongs to: the shared part, the object service and the lease manager. The encodings of the user's
  values and the text of a refused redirect are arguments.
\<close>

section \<open>Handles and calls\<close>

record remote =
  rmt_object :: object_id
  rmt_object_type :: object_type_id
  rmt_location :: object_location
  rmt_lease :: lease_addr

definition attach_object ::
  "object_id \<Rightarrow> object_type_id \<Rightarrow> object_location \<Rightarrow> instant \<Rightarrow> ('v, 'n, 's) runtime
     \<Rightarrow> ('v, 'n, 's) runtime \<times> (runtime_error, remote) result"
where
  "attach_object obj object_type location now rt =
     (let rt1 = rt\<lparr>ru_objects := cache_location obj location (ru_objects rt)\<rparr> in
      case attach obj object_type location now (ru_leases rt1) of
        (lm, r) \<Rightarrow> (rt1\<lparr>ru_leases := lm\<rparr>, res_map (\<lambda>a. \<lparr>rmt_object = obj, rmt_object_type = object_type,
          rmt_location = location, rmt_lease = a\<rparr>) r))"

text \<open>\<open>resolve(remote.object).unwrap_or(remote.location)\<close>, also \<open>observed_location\<close>.\<close>

definition observed_location :: "remote \<Rightarrow> ('v, 'n, 's) runtime \<Rightarrow> object_location" where
  "observed_location r rt =
     (case resolve (rmt_object r) (ru_objects rt) of Some l \<Rightarrow> l | None \<Rightarrow> rmt_location r)"

definition downgrade :: "remote \<Rightarrow> ('v, 'n, 's) runtime \<Rightarrow> weak_remote" where
  "downgrade r rt = \<lparr>wr_object = rmt_object r, wr_object_type = rmt_object_type r,
     wr_location = ll_location (lm_leases (ru_leases rt) ! rmt_lease r)\<rparr>"

text \<open>A message about an object, sent by a handle: \<open>object_control\<close> on the runtime of the client.\<close>

definition client_control ::
  "'n env \<Rightarrow> object_id \<Rightarrow> object_type_id \<Rightarrow> object_location \<Rightarrow> locality_id \<Rightarrow> u128 \<Rightarrow> instant \<Rightarrow> ('v, 'n, 's) runtime
     \<Rightarrow> ('v, 'n, 's) runtime"
where
  "client_control env obj object_type location locality raw_action now rt =
     (case object_control env obj object_type location locality raw_action now (ru_shared rt, ru_objects rt) of
        (sh, os) \<Rightarrow> rt\<lparr>ru_server := (ru_server rt)\<lparr>sv_shared := sh\<rparr>, ru_objects := os\<rparr>)"

text \<open>\<open>clone\<close> of a handle, and what dropping an \<open>Arc<LocalLease>\<close> does: the last one releases the lease.\<close>

definition remote_clone :: "remote \<Rightarrow> ('v, 'n, 's) runtime \<Rightarrow> ('v, 'n, 's) runtime \<times> remote" where
  "remote_clone r rt = (rt\<lparr>ru_leases := lease_clone (rmt_lease r) (ru_leases rt)\<rparr>, r)"

definition drop_lease :: "'n env \<Rightarrow> lease_addr \<Rightarrow> instant \<Rightarrow> ('v, 'n, 's) runtime \<Rightarrow> ('v, 'n, 's) runtime" where
  "drop_lease env a now rt =
     (case lease_drop a (ru_leases rt) of
        (lm, released) \<Rightarrow>
          (let l = lm_leases lm ! a; rt1 = rt\<lparr>ru_leases := lm\<rparr> in
           if released
           then client_control env (ll_object l) (ll_object_type l) (ll_location l) (sh_local_id (ru_shared rt1))
                  LEASE_RELEASE_ACTION_ID now rt1
           else rt1))"

definition remote_release :: "'n env \<Rightarrow> remote \<Rightarrow> instant \<Rightarrow> ('v, 'n, 's) runtime \<Rightarrow> ('v, 'n, 's) runtime" where
  "remote_release env r now rt = drop_lease env (rmt_lease r) now rt"

definition location_place :: "object_location \<Rightarrow> place" where
  "location_place l = \<lparr>pl_locality = loc_locality l, pl_domain = loc_domain l\<rparr>"

definition default_options :: "('v, 'n, 's) runtime \<Rightarrow> spawn_options" where
  "default_options rt = \<lparr>so_deadline = rl_default_deadline (sh_limits (ru_shared rt)), so_trace_id = None\<rparr>"

definition call_envelope :: "object_id \<Rightarrow> object_type_id \<Rightarrow> object_location \<Rightarrow> locality_id \<Rightarrow> bool \<Rightarrow> object_envelope" where
  "call_envelope obj object_type location lease_locality rooted =
     \<lparr>en_object = obj, en_object_type = object_type, en_epoch = loc_epoch location,
      en_lease_locality = lease_locality, en_domain = loc_domain location, en_rooted = rooted\<rparr>"

definition spawn_encoded ::
  "'n env \<Rightarrow> place \<Rightarrow> action_id \<Rightarrow> segments \<Rightarrow> spawn_options \<Rightarrow> request_id option \<Rightarrow> instant \<Rightarrow> ('v, 'n, 's) runtime
     \<Rightarrow> ('v, 'n, 's) runtime \<times> (runtime_error fault, remote_future) result"
where
  "spawn_encoded env pl a payload opts request now = on_shared (spawn_inner env pl a (AvEncoded payload) opts request now)"

record remote_call =
  rc_future :: remote_future
  rc_object :: object_id
  rc_object_type :: object_type_id
  rc_action :: action_id
  rc_payload :: segments
  rc_request :: request_id
  rc_last_epoch :: u64
  rc_redirects :: usize
  rc_max_redirects :: usize
  rc_deadline :: duration

text \<open>A call sent to the place where the object was last seen, as \<open>call_object\<close> and \<open>spawn_colocated\<close> make it.\<close>

definition located_call ::
  "'n env \<Rightarrow> remote \<Rightarrow> action_id \<Rightarrow> segments \<Rightarrow> instant \<Rightarrow> ('v, 'n, 's) runtime
     \<Rightarrow> ('v, 'n, 's) runtime \<times> (runtime_error fault, remote_call) result"
where
  "located_call env r a payload now rt =
     (let location = observed_location r rt;
          wire = envelope_encode (call_envelope (rmt_object r) (rmt_object_type r) location (sh_local_id (ru_shared rt)) False) payload;
          opts = default_options rt in
      case spawn_encoded env (location_place location) a wire opts None now rt of
        (rt1, Inl err) \<Rightarrow> (rt1, Err err)
      | (rt1, Inr f) \<Rightarrow>
          (rt1, Ok \<lparr>rc_future = f, rc_object = rmt_object r, rc_object_type = rmt_object_type r, rc_action = a,
             rc_payload = payload, rc_request = rf_request f, rc_last_epoch = loc_epoch location, rc_redirects = 0,
             rc_max_redirects = ol_max_redirects (os_limits (ru_objects rt)), rc_deadline = so_deadline opts\<rparr>))"

definition call_object ::
  "'n env \<Rightarrow> remote \<Rightarrow> u128 \<Rightarrow> segments \<Rightarrow> instant \<Rightarrow> ('v, 'n, 's) runtime
     \<Rightarrow> ('v, 'n, 's) runtime \<times> (runtime_error fault, remote_call) result"
where
  "call_object env r raw_action payload now rt =
     (case nonzero_u128_id ''ActionId'' raw_action of
        Inl _ \<Rightarrow> (rt, Err (Fail ReInvalidActionId))
      | Inr a \<Rightarrow> located_call env r a payload now rt)"

subsection \<open>Polling a call\<close>

text \<open>How the output of a future is read: the decoding of its type and its \<open>downcast\<close>, and the waker.\<close>

record ('v, 't) reader =
  rd_decode :: "segments \<Rightarrow> (action_error, 't) result"
  rd_downcast :: "'v \<Rightarrow> 't option"
  rd_waker :: waker

definition poll_remote ::
  "'n env \<Rightarrow> ('v, 't) reader \<Rightarrow> remote_future \<Rightarrow> ('v, 'n, 's) runtime
     \<Rightarrow> ('v, 'n, 's) runtime \<times> remote_future \<times> (unit fault, (runtime_error, 't) result poll) result"
where
  "poll_remote env rd f rt =
     (let sh = ru_shared rt in
      case future_poll (rd_decode rd) (rd_downcast rd) (env_action_text env) (rd_waker rd) (f, sh_promises sh ! rf_promise f) of
        ((f', p'), r) \<Rightarrow>
          (rt\<lparr>ru_server := (ru_server rt)\<lparr>sv_shared := sh\<lparr>sh_promises := (sh_promises sh)[rf_promise f := p']\<rparr>\<rparr>\<rparr>, f', r))"

text \<open>The arm of \<open>poll\<close> for a redirect that is followed: the call as it is sent again, under its own request.\<close>

definition follow ::
  "'n env \<Rightarrow> object_location \<Rightarrow> instant \<Rightarrow> remote_call \<Rightarrow> ('v, 'n, 's) runtime
     \<Rightarrow> (('v, 'n, 's) runtime \<times> remote_call) \<times> (runtime_error fault, remote_future) result"
where
  "follow env location now c rt =
     (let c1 = c\<lparr>rc_redirects := rc_redirects c + 1, rc_last_epoch := loc_epoch location\<rparr>;
          rt1 = rt\<lparr>ru_objects := cache_location (rc_object c) location (ru_objects rt)\<rparr>;
          wire = envelope_encode (call_envelope (rc_object c) (rc_object_type c) location (sh_local_id (ru_shared rt1)) False) (rc_payload c) in
      case spawn_encoded env (location_place location) (rc_action c) wire \<lparr>so_deadline = rc_deadline c, so_trace_id = None\<rparr>
             (Some (rc_request c)) now rt1 of
        (rt2, r) \<Rightarrow> ((rt2, c1), r))"

lemma follow_redirects: "follow env location now c rt = ((rt', c'), r) \<Longrightarrow> rc_redirects c' = Suc (rc_redirects c) \<and> rc_max_redirects c' = rc_max_redirects c"
  by (auto simp: follow_def Let_def split: prod.splits)

text \<open>
  The loop of \<open>poll\<close>. It ends because a redirect is followed at most \<open>max_redirects\<close> times. \<open>bad\<close> is the
  text of an invalid redirect; the clock is read once for each redirect.
\<close>

function remote_call_poll ::
  "'n env \<Rightarrow> ('v, 't) reader \<Rightarrow> (remote_call \<Rightarrow> object_id \<Rightarrow> object_location \<Rightarrow> bytes) \<Rightarrow> (nat \<Rightarrow> instant) \<Rightarrow> remote_call
     \<Rightarrow> ('v, 'n, 's) runtime
     \<Rightarrow> (('v, 'n, 's) runtime \<times> remote_call) \<times> (unit fault, (runtime_error, 't) result poll) result"
where
  "remote_call_poll env rd bad clock c rt =
     (case poll_remote env rd (rc_future c) rt of
        (rt1, f, Inl err) \<Rightarrow> ((rt1, c\<lparr>rc_future := f\<rparr>), Err err)
      | (rt1, f, Inr (Ready (Inl (ReMoved obj location)))) \<Rightarrow>
          (let c1 = c\<lparr>rc_future := f\<rparr> in
           if obj \<noteq> rc_object c \<or> loc_epoch location \<le> rc_last_epoch c
           then ((rt1, c1), Ok (Ready (Err (ReProtocol (bad c obj location)))))
           else if rc_max_redirects c \<le> rc_redirects c then ((rt1, c1), Ok (Ready (Err (ReRedirectLimit (rc_object c)))))
           else (case follow env location (clock (rc_redirects c)) c1 rt1 of
               ((rt2, c2), Inl (Fail err)) \<Rightarrow> ((rt2, c2), Ok (Ready (Err err)))
             | ((rt2, c2), Inl Panic) \<Rightarrow> ((rt2, c2), Err Panic)
             | ((rt2, c2), Inr f2) \<Rightarrow> remote_call_poll env rd bad clock (c2\<lparr>rc_future := f2\<rparr>) rt2))
      | (rt1, f, Inr r) \<Rightarrow> ((rt1, c\<lparr>rc_future := f\<rparr>), Ok r))"
  by pat_completeness auto

termination
  by (relation "measure (\<lambda>(env, rd, bad, clock, c, rt). rc_max_redirects c - rc_redirects c)")
    (auto dest!: follow_redirects [OF sym])

declare remote_call_poll.simps [simp del]

subsection \<open>Object calls\<close>

datatype 't object_call = OcLocal "(runtime_error, 't) result option" | OcRemote remote_call

definition object_call_poll ::
  "'n env \<Rightarrow> ('v, 't) reader \<Rightarrow> (remote_call \<Rightarrow> object_id \<Rightarrow> object_location \<Rightarrow> bytes) \<Rightarrow> (nat \<Rightarrow> instant) \<Rightarrow> 't object_call
     \<Rightarrow> ('v, 'n, 's) runtime
     \<Rightarrow> (('v, 'n, 's) runtime \<times> 't object_call) \<times> (unit fault, (runtime_error, 't) result poll) result"
where
  "object_call_poll env rd bad clock c rt =
     (case c of
        OcLocal None \<Rightarrow> ((rt, c), Ok (Ready (Err (ReProtocol (lit ''object future polled after completion'')))))
      | OcLocal (Some r) \<Rightarrow> ((rt, OcLocal None), Ok (Ready r))
      | OcRemote rc \<Rightarrow>
          (case remote_call_poll env rd bad clock rc rt of ((rt1, rc1), r) \<Rightarrow> ((rt1, OcRemote rc1), r)))"

text \<open>
  \<open>run_local_object\<close>: a call on the object service in a worker of the domain, whole as every local
  call is here. The count of running local calls is back where it was when it returns.
\<close>

definition run_local_object ::
  "domain_id \<Rightarrow> (('v, 's) object_service \<Rightarrow> ('v, 's) object_service \<times> (runtime_error, 'o) result) \<Rightarrow> ('v, 'n, 's) runtime
     \<Rightarrow> ('v, 'n, 's) runtime \<times> (runtime_error, 'o) result"
where
  "run_local_object d f rt =
     (case ensure_running (ru_shared rt) of
        Inl err \<Rightarrow> (rt, Err err)
      | Inr _ \<Rightarrow>
          if hm_get (dr_domains (ru_domains rt)) d = None then (rt, Err (ReUnknownDomain d))
          else (case f (ru_objects rt) of (os, r) \<Rightarrow> (rt\<lparr>ru_objects := os\<rparr>, r)))"

text \<open>The common body of \<open>call_object_read\<close> and \<open>call_object_write\<close>.\<close>

definition call_located ::
  "'n env \<Rightarrow> (object_location \<Rightarrow> ('v, 's) object_service \<Rightarrow> ('v, 's) object_service \<times> (runtime_error, 'o) result)
     \<Rightarrow> u128 \<Rightarrow> (action_error, segments) result \<Rightarrow> remote \<Rightarrow> instant \<Rightarrow> ('v, 'n, 's) runtime
     \<Rightarrow> ('v, 'n, 's) runtime \<times> (runtime_error fault, 'o object_call) result"
where
  "call_located env call_here ID encoded r now rt =
     (let location = observed_location r rt in
      if loc_locality location = sh_local_id (ru_shared rt) \<and> is_local_resident (rmt_object r) location (ru_objects rt)
      then (case run_local_object (loc_domain location) (call_here location) rt of
          (rt1, res) \<Rightarrow> (rt1, Ok (OcLocal (Some res))))
      else (case encoded of
          Inl e \<Rightarrow> (rt, Err (Fail (ReProtocol (lit ''object action encode failed: '' @ env_action_text env e))))
        | Inr payload \<Rightarrow>
            (case call_object env r ID payload now rt of
               (rt1, Inl err) \<Rightarrow> (rt1, Err err)
             | (rt1, Inr c) \<Rightarrow> (rt1, Ok (OcRemote c)))))"

definition call_object_read ::
  "'n env \<Rightarrow> ('t, 'm, 's) object_type \<Rightarrow> ('a, 'o, 't) read_action \<Rightarrow> ('a \<Rightarrow> (action_error, segments) result) \<Rightarrow> remote \<Rightarrow> 'a
     \<Rightarrow> instant \<Rightarrow> ('v, 'n, 's) runtime \<Rightarrow> ('v, 'n, 's) runtime \<times> (runtime_error fault, 'o object_call) result"
where
  "call_object_read env T A enc r action now rt =
     call_located env (\<lambda>location. call_read_local T A (rmt_object r) (rmt_object_type r) location action) (rac_ID A) (enc action) r now rt"

definition call_object_write ::
  "'n env \<Rightarrow> ('t, 'm, 's) object_type \<Rightarrow> ('a, 'o, 't) write_action \<Rightarrow> ('a \<Rightarrow> (action_error, segments) result) \<Rightarrow> remote \<Rightarrow> 'a
     \<Rightarrow> instant \<Rightarrow> ('v, 'n, 's) runtime \<Rightarrow> ('v, 'n, 's) runtime \<times> (runtime_error fault, 'o object_call) result"
where
  "call_object_write env T A enc r action now rt =
     call_located env (\<lambda>location. call_write_local T A (rmt_object r) (rmt_object_type r) location action) (wac_ID A) (enc action) r now rt"

subsection \<open>Placement\<close>

text \<open>\<open>spawn_colocated\<close>: an ordinary action, run where the object is. The future holds the lease.\<close>

definition spawn_colocated ::
  "'n env \<Rightarrow> u128 \<Rightarrow> (action_error, segments) result \<Rightarrow> remote \<Rightarrow> instant \<Rightarrow> ('v, 'n, 's) runtime
     \<Rightarrow> ('v, 'n, 's) runtime \<times> (runtime_error fault, remote_call \<times> lease_addr) result"
where
  "spawn_colocated env ID encoded r now rt =
     (case nonzero_u128_id ''ActionId'' ID of
        Inl _ \<Rightarrow> (rt, Err (Fail ReInvalidActionId))
      | Inr a \<Rightarrow>
          (case encoded of
             Inl e \<Rightarrow> (rt, Err (Fail (ReProtocol (lit ''action encode failed: '' @ env_action_text env e))))
           | Inr payload \<Rightarrow>
               (case placement_action_id a of
                  Inl err \<Rightarrow> (rt, Err (Fail err))
                | Inr placed \<Rightarrow>
                    (case located_call env r placed payload now rt of
                       (rt1, Inl err) \<Rightarrow> (rt1, Err err)
                     | (rt1, Inr c) \<Rightarrow>
                         (rt1\<lparr>ru_leases := lease_clone (rmt_lease r) (ru_leases rt1)\<rparr>, Ok (c, rmt_lease r))))))"

datatype placement_state = PsPreferred remote_call lease_addr | PsFallback remote_future | PsDone

record placement_future =
  pf_state :: placement_state
  pf_fallback :: placement_fallback
  pf_action :: action_id
  pf_payload :: "segments option"
  pf_options :: spawn_options

definition spawn_preferred_colocated ::
  "'n env \<Rightarrow> u128 \<Rightarrow> (action_error, segments) result \<Rightarrow> placement_fallback \<Rightarrow> remote \<Rightarrow> instant \<Rightarrow> ('v, 'n, 's) runtime
     \<Rightarrow> ('v, 'n, 's) runtime \<times> (runtime_error fault, placement_future) result"
where
  "spawn_preferred_colocated env ID encoded fallback r now rt =
     (case nonzero_u128_id ''ActionId'' ID of
        Inl _ \<Rightarrow> (rt, Err (Fail ReInvalidActionId))
      | Inr a \<Rightarrow>
          (case encoded of
             Inl e \<Rightarrow> (rt, Err (Fail (ReProtocol (lit ''action encode failed: '' @ env_action_text env e))))
           | Inr payload \<Rightarrow>
               (case spawn_colocated env ID encoded r now rt of
                  (rt1, Inl err) \<Rightarrow> (rt1, Err err)
                | (rt1, Inr (c, lease)) \<Rightarrow>
                    (rt1, Ok \<lparr>pf_state = PsPreferred c lease, pf_fallback = fallback, pf_action = a, pf_payload = Some payload,
                       pf_options = default_options rt\<rparr>))))"

definition placement_saturated :: "runtime_error \<Rightarrow> bool" where
  "placement_saturated e =
     (case e of
        ReResourceExhausted k n \<Rightarrow> True
      | RePlacement request m \<Rightarrow> True
      | ReRemoteAction request m \<Rightarrow>
          contains_text m (lit ''ResourceExhausted'') \<or> contains_text m (lit ''saturated'') \<or> contains_text m (lit ''queue'')
          \<or> contains_text m (lit ''MigrationInProgress'') \<or> contains_text m (lit ''migration'')
      | _ \<Rightarrow> False)"

definition fallback_place :: "placement_fallback \<Rightarrow> ('v, 'n, 's) runtime \<Rightarrow> place option" where
  "fallback_place fb rt =
     (case fb of
        PfAny \<Rightarrow> Some \<lparr>pl_locality = sh_local_id (ru_shared rt), pl_domain = DOMAIN_DEFAULT\<rparr>
      | PfPlace pl \<Rightarrow> Some pl
      | PfReject \<Rightarrow> None)"

text \<open>The arm of \<open>poll\<close> for the state \<open>Fallback\<close>.\<close>

definition poll_fallback ::
  "'n env \<Rightarrow> ('v, 't) reader \<Rightarrow> remote_future \<Rightarrow> placement_future \<Rightarrow> ('v, 'n, 's) runtime
     \<Rightarrow> (('v, 'n, 's) runtime \<times> placement_future) \<times> (unit fault, (runtime_error, 't) result poll) result"
where
  "poll_fallback env rd f pf rt =
     (case poll_remote env rd f rt of
        (rt1, f1, Inl err) \<Rightarrow> ((rt1, pf\<lparr>pf_state := PsFallback f1\<rparr>), Err err)
      | (rt1, f1, Inr PollPending) \<Rightarrow> ((rt1, pf\<lparr>pf_state := PsFallback f1\<rparr>), Ok PollPending)
      | (rt1, f1, Inr r) \<Rightarrow> ((rt1, pf\<lparr>pf_state := PsDone\<rparr>), Ok r))"

text \<open>
  The loop of \<open>poll\<close> goes round once more at most, from the preferred place to the fallback. Leaving the
  preferred state drops the colocated future and with it its lease.
\<close>

definition placement_poll ::
  "'n env \<Rightarrow> ('v, 't) reader \<Rightarrow> (remote_call \<Rightarrow> object_id \<Rightarrow> object_location \<Rightarrow> bytes) \<Rightarrow> (nat \<Rightarrow> instant) \<Rightarrow> placement_future
     \<Rightarrow> ('v, 'n, 's) runtime
     \<Rightarrow> (('v, 'n, 's) runtime \<times> placement_future) \<times> (unit fault, (runtime_error, 't) result poll) result"
where
  "placement_poll env rd bad clock pf rt =
     (case pf_state pf of
        PsDone \<Rightarrow> ((rt, pf), Ok (Ready (Err (ReProtocol (lit ''placement future polled after completion'')))))
      | PsFallback f \<Rightarrow> poll_fallback env rd f pf rt
      | PsPreferred c lease \<Rightarrow>
          (let finish = (\<lambda>rt p. (drop_lease env lease (clock 1) rt, p\<lparr>pf_state := PsDone\<rparr>)) in
           case remote_call_poll env rd bad (\<lambda>i. clock (i + 2)) c rt of
             ((rt1, c1), Inl err) \<Rightarrow> ((rt1, pf\<lparr>pf_state := PsPreferred c1 lease\<rparr>), Err err)
           | ((rt1, c1), Inr PollPending) \<Rightarrow> ((rt1, pf\<lparr>pf_state := PsPreferred c1 lease\<rparr>), Ok PollPending)
           | ((rt1, c1), Inr (Ready (Inl err))) \<Rightarrow>
               if placement_saturated err
               then (case fallback_place (pf_fallback pf) rt1 of
                   None \<Rightarrow> (finish rt1 pf, Ok (Ready (Err err)))
                 | Some pl \<Rightarrow>
                     (case pf_payload pf of
                        None \<Rightarrow> ((rt1, pf\<lparr>pf_state := PsPreferred c1 lease\<rparr>), Err Panic)
                      | Some payload \<Rightarrow>
                          (case spawn_encoded env pl (pf_action pf) payload (pf_options pf) None (clock 0) rt1 of
                             (rt2, Inl (Fail err2)) \<Rightarrow> (finish rt2 (pf\<lparr>pf_payload := None\<rparr>), Ok (Ready (Err err2)))
                           | (rt2, Inl Panic) \<Rightarrow> ((rt2, pf\<lparr>pf_state := PsPreferred c1 lease, pf_payload := None\<rparr>), Err Panic)
                           | (rt2, Inr f) \<Rightarrow>
                               poll_fallback env rd f (pf\<lparr>pf_payload := None\<rparr>) (drop_lease env lease (clock 1) rt2))))
               else (finish rt1 pf, Ok (Ready (Err err)))
           | ((rt1, c1), Inr (Ready (Inr v))) \<Rightarrow> (finish rt1 pf, Ok (Ready (Ok v)))))"

section \<open>Creation, roots, upgrades and transfers\<close>

record create_future =
  cf_inner :: "remote_future option"
  cf_ready :: "(runtime_error, remote) result option"
  cf_object :: object_id
  cf_object_type :: object_type_id

definition create_at_inner ::
  "'n env \<Rightarrow> u128 \<Rightarrow> place \<Rightarrow> 's \<Rightarrow> (action_error, segments) result \<Rightarrow> bool \<Rightarrow> (nat \<Rightarrow> instant) \<Rightarrow> ('v, 'n, 's) runtime
     \<Rightarrow> ('v, 'n, 's) runtime \<times> (runtime_error fault, create_future) result"
where
  "create_at_inner env TYPE_ID pl v encoded rooted clock rt =
     (case nonzero_u128_id ''ObjectTypeId'' TYPE_ID of
        Inl _ \<Rightarrow> (rt, Err (Fail ReInvalidObjectTypeId))
      | Inr object_type \<Rightarrow>
          (case on_shared (next_object (ol_max_objects (os_limits (ru_objects rt)))) rt of
             (rt1, Inl err) \<Rightarrow> (rt1, Err (Fail err))
           | (rt1, Inr obj) \<Rightarrow>
               if pl_locality pl = sh_local_id (ru_shared rt1)
               then (case create_local obj object_type (pl_domain pl) v (sh_local_id (ru_shared rt1)) rooted (clock 0) (ru_objects rt1) of
                   (os, Inl err) \<Rightarrow> (rt1\<lparr>ru_objects := os\<rparr>, Err (Fail err))
                 | (os, Inr location) \<Rightarrow>
                     (case attach_object obj object_type location (clock 1) (rt1\<lparr>ru_objects := os\<rparr>) of
                        (rt2, r) \<Rightarrow> (rt2, Ok \<lparr>cf_inner = None, cf_ready = Some r, cf_object = obj, cf_object_type = object_type\<rparr>)))
               else (case encoded of
                   Inl e \<Rightarrow> (rt1, Err (Fail (ReProtocol (lit ''object encode failed: '' @ env_action_text env e))))
                 | Inr payload \<Rightarrow>
                     (case create_action_id object_type of
                        Inl err \<Rightarrow> (rt1, Err (Fail err))
                      | Inr a \<Rightarrow>
                          (case spawn_encoded env pl a (envelope_encode \<lparr>en_object = obj, en_object_type = object_type, en_epoch = 1,
                                  en_lease_locality = sh_local_id (ru_shared rt1), en_domain = pl_domain pl, en_rooted = rooted\<rparr> payload)
                                  (default_options rt1) None (clock 0) rt1 of
                             (rt2, Inl err) \<Rightarrow> (rt2, Err err)
                           | (rt2, Inr f) \<Rightarrow>
                               (rt2, Ok \<lparr>cf_inner = Some f, cf_ready = None, cf_object = obj, cf_object_type = object_type\<rparr>))))))"

definition bytes_reader :: "waker \<Rightarrow> ('v \<Rightarrow> bytes option) \<Rightarrow> ('v, bytes) reader" where
  "bytes_reader w downcast = \<lparr>rd_decode = bytes_decode, rd_downcast = downcast, rd_waker = w\<rparr>"

text \<open>Polling after completion panics: there is no inner future any more.\<close>

definition create_poll ::
  "'n env \<Rightarrow> waker \<Rightarrow> ('v \<Rightarrow> bytes option) \<Rightarrow> instant \<Rightarrow> create_future \<Rightarrow> ('v, 'n, 's) runtime
     \<Rightarrow> (('v, 'n, 's) runtime \<times> create_future) \<times> (unit fault, (runtime_error, remote) result poll) result"
where
  "create_poll env w downcast now cf rt =
     (case cf_ready cf of
        Some r \<Rightarrow> ((rt, cf\<lparr>cf_ready := None\<rparr>), Ok (Ready r))
      | None \<Rightarrow>
          (case cf_inner cf of
             None \<Rightarrow> ((rt, cf), Err Panic)
           | Some f \<Rightarrow>
               (case poll_remote env (bytes_reader w downcast) f rt of
                  (rt1, f1, Inl err) \<Rightarrow> ((rt1, cf\<lparr>cf_inner := Some f1\<rparr>), Err err)
                | (rt1, f1, Inr PollPending) \<Rightarrow> ((rt1, cf\<lparr>cf_inner := Some f1\<rparr>), Ok PollPending)
                | (rt1, f1, Inr (Ready (Inl err))) \<Rightarrow> ((rt1, cf\<lparr>cf_inner := None\<rparr>), Ok (Ready (Err err)))
                | (rt1, f1, Inr (Ready (Inr bytes))) \<Rightarrow>
                    (case decode_location (env_protocol_text env) bytes of
                       Inl err \<Rightarrow> ((rt1, cf\<lparr>cf_inner := None\<rparr>), Ok (Ready (Err err)))
                     | Inr location \<Rightarrow>
                         (case attach_object (cf_object cf) (cf_object_type cf) location now rt1 of
                            (rt2, r) \<Rightarrow> ((rt2, cf\<lparr>cf_inner := None\<rparr>), Ok (Ready r)))))))"

record object_root =
  ort_object :: object_id
  ort_object_type :: object_type_id
  ort_location :: object_location
  ort_active :: bool

definition object_root_new :: "remote \<Rightarrow> object_root" where
  "object_root_new r = \<lparr>ort_object = rmt_object r, ort_object_type = rmt_object_type r, ort_location = rmt_location r, ort_active = True\<rparr>"

text \<open>\<open>release\<close> and \<open>drop\<close> of a root.\<close>

definition root_release :: "'n env \<Rightarrow> instant \<Rightarrow> object_root \<Rightarrow> ('v, 'n, 's) runtime \<Rightarrow> ('v, 'n, 's) runtime \<times> object_root" where
  "root_release env now root rt =
     (if ort_active root
      then (client_control env (ort_object root) (ort_object_type root) (ort_location root) (sh_local_id (ru_shared rt))
              ROOT_RELEASE_ACTION_ID now rt, root\<lparr>ort_active := False\<rparr>)
      else (rt, root))"

definition rooted_create_poll ::
  "'n env \<Rightarrow> waker \<Rightarrow> ('v \<Rightarrow> bytes option) \<Rightarrow> instant \<Rightarrow> create_future \<Rightarrow> ('v, 'n, 's) runtime
     \<Rightarrow> (('v, 'n, 's) runtime \<times> create_future) \<times> (unit fault, (runtime_error, remote \<times> object_root) result poll) result"
where
  "rooted_create_poll env w downcast now cf rt =
     (case create_poll env w downcast now cf rt of
        (s, Inl err) \<Rightarrow> (s, Err err)
      | (s, Inr PollPending) \<Rightarrow> (s, Ok PollPending)
      | (s, Inr (Ready r)) \<Rightarrow> (s, Ok (Ready (res_map (\<lambda>remote. (remote, object_root_new remote)) r))))"

record upgrade_future =
  uf_inner :: remote_future
  uf_object :: object_id
  uf_object_type :: object_type_id
  uf_location :: object_location

definition acquire_call ::
  "'n env \<Rightarrow> object_id \<Rightarrow> object_type_id \<Rightarrow> object_location \<Rightarrow> locality_id \<Rightarrow> bool \<Rightarrow> instant \<Rightarrow> ('v, 'n, 's) runtime
     \<Rightarrow> ('v, 'n, 's) runtime \<times> (runtime_error fault, remote_future) result"
where
  "acquire_call env obj object_type location lease_locality rooted now rt =
     spawn_encoded env (location_place location) LEASE_ACQUIRE_ACTION_ID
       (envelope_encode (call_envelope obj object_type location lease_locality rooted) []) (default_options rt) None now rt"

definition upgrade_object ::
  "'n env \<Rightarrow> weak_remote \<Rightarrow> instant \<Rightarrow> ('v, 'n, 's) runtime
     \<Rightarrow> ('v, 'n, 's) runtime \<times> (runtime_error fault, upgrade_future) result"
where
  "upgrade_object env w now rt =
     (case acquire_call env (wr_object w) (wr_object_type w) (wr_location w) (sh_local_id (ru_shared rt)) False now rt of
        (rt1, r) \<Rightarrow> (rt1, res_map (\<lambda>f. \<lparr>uf_inner = f, uf_object = wr_object w, uf_object_type = wr_object_type w,
          uf_location = wr_location w\<rparr>) r))"

definition unit_reader :: "waker \<Rightarrow> ('v \<Rightarrow> unit option) \<Rightarrow> ('v, unit) reader" where
  "unit_reader w downcast = \<lparr>rd_decode = unit_decode, rd_downcast = downcast, rd_waker = w\<rparr>"

definition upgrade_poll ::
  "'n env \<Rightarrow> waker \<Rightarrow> ('v \<Rightarrow> unit option) \<Rightarrow> instant \<Rightarrow> upgrade_future \<Rightarrow> ('v, 'n, 's) runtime
     \<Rightarrow> (('v, 'n, 's) runtime \<times> upgrade_future) \<times> (unit fault, (runtime_error, remote) result poll) result"
where
  "upgrade_poll env w downcast now uf rt =
     (case poll_remote env (unit_reader w downcast) (uf_inner uf) rt of
        (rt1, f1, Inl err) \<Rightarrow> ((rt1, uf\<lparr>uf_inner := f1\<rparr>), Err err)
      | (rt1, f1, Inr PollPending) \<Rightarrow> ((rt1, uf\<lparr>uf_inner := f1\<rparr>), Ok PollPending)
      | (rt1, f1, Inr (Ready (Inl err))) \<Rightarrow> ((rt1, uf\<lparr>uf_inner := f1\<rparr>), Ok (Ready (Err err)))
      | (rt1, f1, Inr (Ready (Inr _))) \<Rightarrow>
          (case attach_object (uf_object uf) (uf_object_type uf) (uf_location uf) now rt1 of
             (rt2, r) \<Rightarrow> ((rt2, uf\<lparr>uf_inner := f1\<rparr>), Ok (Ready r))))"

record lease_transfer =
  lt_object :: object_id
  lt_object_type :: object_type_id
  lt_location :: object_location
  lt_destination :: locality_id
  lt_expires_at :: instant
  lt_active :: bool

record transfer_future =
  tf_inner :: remote_future
  tf_transfer :: lease_transfer

text \<open>A transfer future carries the fields of the transfer it will give.\<close>

definition transfer_object ::
  "'n env \<Rightarrow> remote \<Rightarrow> locality_id \<Rightarrow> (nat \<Rightarrow> instant) \<Rightarrow> ('v, 'n, 's) runtime
     \<Rightarrow> ('v, 'n, 's) runtime \<times> (runtime_error fault, transfer_future) result"
where
  "transfer_object env r destination clock rt =
     (case acquire_call env (rmt_object r) (rmt_object_type r) (rmt_location r) destination True (clock 0) rt of
        (rt1, res) \<Rightarrow> (rt1, res_map (\<lambda>f. \<lparr>tf_inner = f, tf_transfer = \<lparr>lt_object = rmt_object r, lt_object_type = rmt_object_type r,
          lt_location = rmt_location r, lt_destination = destination,
          lt_expires_at = clock 1 + ol_lease_ttl (os_limits (ru_objects rt1)), lt_active = True\<rparr>\<rparr>) res))"

definition transfer_poll ::
  "'n env \<Rightarrow> waker \<Rightarrow> ('v \<Rightarrow> unit option) \<Rightarrow> transfer_future \<Rightarrow> ('v, 'n, 's) runtime
     \<Rightarrow> (('v, 'n, 's) runtime \<times> transfer_future) \<times> (unit fault, (runtime_error, lease_transfer) result poll) result"
where
  "transfer_poll env w downcast tf rt =
     (case poll_remote env (unit_reader w downcast) (tf_inner tf) rt of
        (rt1, f1, Inl err) \<Rightarrow> ((rt1, tf\<lparr>tf_inner := f1\<rparr>), Err err)
      | (rt1, f1, Inr PollPending) \<Rightarrow> ((rt1, tf\<lparr>tf_inner := f1\<rparr>), Ok PollPending)
      | (rt1, f1, Inr (Ready r)) \<Rightarrow> ((rt1, tf\<lparr>tf_inner := f1\<rparr>), Ok (Ready (res_map (\<lambda>_. tf_transfer tf) r))))"

text \<open>Dropping a transfer that was not imported releases the lease it holds, from where it was made.\<close>

definition transfer_drop :: "'n env \<Rightarrow> instant \<Rightarrow> lease_transfer \<Rightarrow> ('v, 'n, 's) runtime \<Rightarrow> ('v, 'n, 's) runtime" where
  "transfer_drop env now t rt =
     (if lt_active t
      then client_control env (lt_object t) (lt_object_type t) (lt_location t) (lt_destination t) LEASE_RELEASE_ACTION_ID now rt
      else rt)"

text \<open>\<open>import_transfer\<close> takes the transfer; it is returned here as it is when it is dropped.\<close>

definition import_transfer ::
  "'n env \<Rightarrow> lease_transfer \<Rightarrow> (nat \<Rightarrow> instant) \<Rightarrow> ('v, 'n, 's) runtime
     \<Rightarrow> ('v, 'n, 's) runtime \<times> lease_transfer \<times> (runtime_error, remote) result"
where
  "import_transfer env t clock rt =
     (if lt_destination t \<noteq> sh_local_id (ru_shared rt) then (rt, t, Err (ReInvalidMembership (lt_destination t)))
      else if lt_expires_at t \<le> clock 0 then (rt, t, Err (ReLeaseTransferExpired (lt_object t)))
      else (case attach_object (lt_object t) (lt_object_type t) (lt_location t) (clock 1) rt of
          (rt1, Inl err) \<Rightarrow> (rt1, t, Err err)
        | (rt1, Inr r) \<Rightarrow>
            (client_control env (lt_object t) (lt_object_type t) (lt_location t) (lt_destination t) TRANSFER_ACK_ACTION_ID (clock 2) rt1,
             t\<lparr>lt_active := False\<rparr>, Ok r)))"

end
