(* ===== verification/Migrating.thy ===== *)
theory Migrating
  imports Remotes
begin

text \<open>
  Migration as its coordinator drives it: \<open>RuntimeClient::migrate\<close> (\<open>runtime.rs\<close>) and the future it gives
  (\<open>MigrationFuture\<close> in \<open>crates/hataori-runtime/src/object/migration.rs\<close>). The steps themselves are the
  operations of \<open>Migration\<close>, run where the object is, goes to, and has its authority. The text of an error
  is an argument.
\<close>

record migration_report =
  mr_object :: object_id
  mr_from :: object_location
  mr_to :: object_location
  mr_snapshot_bytes :: usize

datatype migration_state =
  MsReady "(runtime_error, migration_report) result option"
| MsFreeze remote_future
| MsPrepare remote_future
| MsCommit remote_future
| MsActivate remote_future
| MsRetire remote_future
| MsRollbackSource remote_future runtime_error bool
| MsRollbackDestination remote_future runtime_error
| MsDone

text \<open>\<open>client\<close>, \<open>service\<close> and \<open>lease\<close> are optional; the client and the service are those of the runtime.\<close>

record migration_future =
  mf_client :: bool
  mf_service :: bool
  mf_lease :: "lease_addr option"
  mf_packet :: migration_packet
  mf_authority :: object_location
  mf_original :: object_location
  mf_prepared :: "object_location option"
  mf_snapshot_bytes :: usize
  mf_redirects :: usize
  mf_committed :: bool
  mf_state :: migration_state

definition migration_future_new :: "lease_addr \<Rightarrow> migration_packet \<Rightarrow> object_location \<Rightarrow> remote_future \<Rightarrow> migration_future" where
  "migration_future_new lease p authority f =
     \<lparr>mf_client = True, mf_service = True, mf_lease = Some lease, mf_packet = p, mf_authority = authority,
      mf_original = mp_from p, mf_prepared = None, mf_snapshot_bytes = 0, mf_redirects = 0, mf_committed = False,
      mf_state = MsFreeze f\<rparr>"

definition migration_future_ready :: "migration_report \<Rightarrow> object_type_id \<Rightarrow> migration_future" where
  "migration_future_ready r object_type =
     \<lparr>mf_client = False, mf_service = False, mf_lease = None,
      mf_packet = \<lparr>mp_migration = \<lparr>req_origin = loc_locality (mr_from r), req_sequence = 1\<rparr>, mp_object = mr_object r,
        mp_object_type = object_type, mp_authority = loc_locality (mr_from r), mp_from = mr_from r,
        mp_destination = location_place (mr_to r), mp_snapshot_version = 1, mp_snapshot_schema = 1, mp_snapshot = []\<rparr>,
      mf_authority = mr_from r, mf_original = mr_from r, mf_prepared = Some (mr_to r),
      mf_snapshot_bytes = mr_snapshot_bytes r, mf_redirects = 0, mf_committed = True, mf_state = MsReady (Some (Ok r))\<rparr>"

subsection \<open>The client's part\<close>

definition migration_step ::
  "'n env \<Rightarrow> place \<Rightarrow> u128 \<Rightarrow> migration_packet \<Rightarrow> instant \<Rightarrow> ('v, 'n, 's) runtime
     \<Rightarrow> ('v, 'n, 's) runtime \<times> (runtime_error fault, remote_future) result"
where
  "migration_step env pl action p now rt =
     (case nonzero_u128_id ''ActionId'' action of
        Inl _ \<Rightarrow> (rt, Err (Fail ReInvalidActionId))
      | Inr a \<Rightarrow>
          (case packet_encode p of
             Inl e \<Rightarrow> (rt, Err (Fail (ReObjectAction (ae_message e))))
           | Inr payload \<Rightarrow> spawn_encoded env pl a payload (default_options rt) None now rt))"

definition fail_committed_migration :: "('v, 'n, 's) runtime \<Rightarrow> ('v, 'n, 's) runtime" where
  "fail_committed_migration rt = set_state StFailed rt"

definition migrate ::
  "'n env \<Rightarrow> remote \<Rightarrow> place \<Rightarrow> instant \<Rightarrow> ('v, 'n, 's) runtime
     \<Rightarrow> ('v, 'n, 's) runtime \<times> (runtime_error fault, migration_future) result"
where
  "migrate env r destination now rt =
     (case ensure_running (ru_shared rt) of
        Inl err \<Rightarrow> (rt, Err (Fail err))
      | Inr _ \<Rightarrow>
          (let src = observed_location r rt; authority = ll_location (lm_leases (ru_leases rt) ! rmt_lease r) in
           if location_place src = destination
           then (rt, Ok (migration_future_ready
             \<lparr>mr_object = rmt_object r, mr_from = src, mr_to = src, mr_snapshot_bytes = 0\<rparr> (rmt_object_type r)))
           else (case migration_metadata (rmt_object_type r) (ru_objects rt) of
               Inl err \<Rightarrow> (rt, Err (Fail err))
             | Inr (mobility, snapshot_version, snapshot_schema) \<Rightarrow>
                 if mobility = MoPinned then (rt, Err (Fail (RePinnedObjectType (rmt_object_type r))))
                 else (case on_shared next_request rt of
                     (rt1, Inl err) \<Rightarrow> (rt1, Err (Fail err))
                   | (rt1, Inr migration) \<Rightarrow>
                       (case begin_migration migration (ru_objects rt1) of
                          (os, Inl err) \<Rightarrow> (rt1\<lparr>ru_objects := os\<rparr>, Err (Fail err))
                        | (os, Inr _) \<Rightarrow>
                            (let p = \<lparr>mp_migration = migration, mp_object = rmt_object r, mp_object_type = rmt_object_type r,
                                   mp_authority = loc_locality authority, mp_from = src, mp_destination = destination,
                                   mp_snapshot_version = snapshot_version, mp_snapshot_schema = snapshot_schema, mp_snapshot = []\<rparr> in
                             case migration_step env (location_place src) MIGRATION_FREEZE_ACTION_ID p now (rt1\<lparr>ru_objects := os\<rparr>) of
                               (rt2, Inr f) \<Rightarrow>
                                 (rt2\<lparr>ru_leases := lease_clone (rmt_lease r) (ru_leases rt2)\<rparr>,
                                  Ok (migration_future_new (rmt_lease r) p authority f))
                             | (rt2, Inl (Fail err)) \<Rightarrow>
                                 (rt2\<lparr>ru_objects := finish_migration migration MgRolledBack 0 (ru_objects rt2)\<rparr>, Err (Fail err))
                             | (rt2, Inl Panic) \<Rightarrow> (rt2, Err Panic)))))))"

subsection \<open>The future\<close>

definition mf_finish ::
  "'n env \<Rightarrow> migration_outcome \<Rightarrow> instant \<Rightarrow> ('v, 'n, 's) runtime \<times> migration_future \<Rightarrow> ('v, 'n, 's) runtime \<times> migration_future"
where
  "mf_finish env outcome now = (\<lambda>(rt, mf).
     (let rt1 = (if mf_service mf
            then rt\<lparr>ru_objects := finish_migration (mp_migration (mf_packet mf)) outcome (mf_snapshot_bytes mf) (ru_objects rt)\<rparr>
            else rt);
          rt2 = (case mf_lease mf of None \<Rightarrow> rt1 | Some a \<Rightarrow> drop_lease env a now rt1) in
      (rt2, mf\<lparr>mf_service := False, mf_client := False, mf_lease := None\<rparr>)))"

definition migration_error :: "(runtime_error \<Rightarrow> bytes) \<Rightarrow> migration_future \<Rightarrow> runtime_error \<Rightarrow> runtime_error" where
  "migration_error show mf err =
     (case err of ReMigration request m \<Rightarrow> err | _ \<Rightarrow> ReMigration (mp_migration (mf_packet mf)) (show err))"

text \<open>
  What one arm of the loop of \<open>poll\<close> ends with: another round (\<open>None\<close>) or a value to return. \<open>expect\<close>
  and \<open>unwrap\<close> of a taken client or service panic.
\<close>

type_synonym ('v, 'n, 's) mig_round =
  "(('v, 'n, 's) runtime \<times> migration_future) \<times> (unit fault, (runtime_error, migration_report) result poll) result option"

definition mig_return :: "('v, 'n, 's) runtime \<times> migration_future \<Rightarrow> (runtime_error, migration_report) result \<Rightarrow> ('v, 'n, 's) mig_round" where
  "mig_return s r = (s, Some (Ok (Ready r)))"

definition mig_panic :: "('v, 'n, 's) runtime \<times> migration_future \<Rightarrow> ('v, 'n, 's) mig_round" where
  "mig_panic s = (s, Some (Err Panic))"

text \<open>The next step of the protocol is sent; \<open>failed\<close> says what its failure does.\<close>

definition mig_send ::
  "'n env \<Rightarrow> place \<Rightarrow> u128 \<Rightarrow> migration_packet \<Rightarrow> instant \<Rightarrow> (remote_future \<Rightarrow> migration_state)
     \<Rightarrow> (('v, 'n, 's) runtime \<times> migration_future \<Rightarrow> runtime_error \<Rightarrow> ('v, 'n, 's) mig_round)
     \<Rightarrow> ('v, 'n, 's) runtime \<times> migration_future \<Rightarrow> ('v, 'n, 's) mig_round"
where
  "mig_send env pl action p now st failed = (\<lambda>(rt, mf).
     (if \<not> mf_client mf then mig_panic (rt, mf)
      else (case migration_step env pl action p now rt of
          (rt1, Inr f) \<Rightarrow> ((rt1, mf\<lparr>mf_state := st f\<rparr>), None)
        | (rt1, Inl (Fail err)) \<Rightarrow> failed (rt1, mf) err
        | (rt1, Inl Panic) \<Rightarrow> mig_panic (rt1, mf))))"

text \<open>\<open>start_rollback\<close> and what every caller does when it fails.\<close>

definition start_rollback ::
  "'n env \<Rightarrow> (runtime_error \<Rightarrow> bytes) \<Rightarrow> (nat \<Rightarrow> instant) \<Rightarrow> bool \<Rightarrow> ('v, 'n, 's) runtime \<times> migration_future \<Rightarrow> runtime_error
     \<Rightarrow> ('v, 'n, 's) mig_round"
where
  "start_rollback env show clock destination = (\<lambda>(rt, mf) err.
     mig_send env (location_place (mf_original mf)) MIGRATION_ROLLBACK_ACTION_ID (mf_packet mf) (clock 1)
       (\<lambda>f. MsRollbackSource f (migration_error show mf err) destination)
       (\<lambda>s rollback. mig_return (mf_finish env MgFailed (clock 2) s) (Err rollback)) (rt, mf))"

text \<open>After the commit there is no way back: the runtime fails.\<close>

definition committed_failure ::
  "'n env \<Rightarrow> (runtime_error \<Rightarrow> bytes) \<Rightarrow> (nat \<Rightarrow> instant) \<Rightarrow> ('v, 'n, 's) runtime \<times> migration_future \<Rightarrow> runtime_error
     \<Rightarrow> ('v, 'n, 's) mig_round"
where
  "committed_failure env show clock = (\<lambda>(rt, mf) err.
     (if \<not> mf_client mf then mig_panic (rt, mf)
      else mig_return (mf_finish env MgFailed (clock 2) (fail_committed_migration rt, mf))
        (Err (ReMigrationCommittedFailure (mp_object (mf_packet mf)) (show err)))))"

definition migration_completed ::
  "'n env \<Rightarrow> (nat \<Rightarrow> instant) \<Rightarrow> ('v, 'n, 's) runtime \<times> migration_future \<Rightarrow> ('v, 'n, 's) mig_round"
where
  "migration_completed env clock = (\<lambda>(rt, mf).
     (case mf_prepared mf of
        None \<Rightarrow> mig_panic (rt, mf)
      | Some location \<Rightarrow>
          if \<not> mf_service mf then mig_panic (rt, mf)
          else (case mf_finish env MgCompleted (clock 2)
                 (rt\<lparr>ru_objects := cache_location (mp_object (mf_packet mf)) location (ru_objects rt)\<rparr>, mf) of
              (rt1, mf1) \<Rightarrow> mig_return (rt1, mf1\<lparr>mf_state := MsDone\<rparr>)
                (Ok \<lparr>mr_object = mp_object (mf_packet mf), mr_from = mf_original mf, mr_to = location,
                     mr_snapshot_bytes = mf_snapshot_bytes mf\<rparr>))))"

subsubsection \<open>The arms of the loop\<close>

definition on_frozen ::
  "'n env \<Rightarrow> (runtime_error \<Rightarrow> bytes) \<Rightarrow> (nat \<Rightarrow> instant) \<Rightarrow> migration_packet \<Rightarrow> ('v, 'n, 's) runtime \<times> migration_future
     \<Rightarrow> ('v, 'n, 's) mig_round"
where
  "on_frozen env show clock p = (\<lambda>(rt, mf).
     (case checked_total (mp_snapshot p) of
        None \<Rightarrow>
          if \<not> mf_service mf then mig_panic (rt, mf)
          else start_rollback env show clock False (rt, mf)
                 (ReSnapshotTooLarge (2 ^ 64 - 1) (ol_max_snapshot_bytes (os_limits (ru_objects rt))))
      | Some n \<Rightarrow>
          mig_send env (mp_destination p) MIGRATION_PREPARE_ACTION_ID p (clock 0) MsPrepare (start_rollback env show clock False)
            (rt, mf\<lparr>mf_snapshot_bytes := n, mf_packet := p\<rparr>)))"

definition on_freeze_error ::
  "'n env \<Rightarrow> (runtime_error \<Rightarrow> bytes) \<Rightarrow> (nat \<Rightarrow> instant) \<Rightarrow> runtime_error \<Rightarrow> ('v, 'n, 's) runtime \<times> migration_future
     \<Rightarrow> ('v, 'n, 's) mig_round"
where
  "on_freeze_error env show clock err = (\<lambda>(rt, mf).
     (let give_up = (case mf_finish env MgRolledBack (clock 2) (rt, mf) of
            (rt1, mf1) \<Rightarrow> mig_return (rt1, mf1\<lparr>mf_state := MsDone\<rparr>) (Err (migration_error show mf err))) in
      case err of
        ReMoved obj location \<Rightarrow>
          if obj = mp_object (mf_packet mf) \<and> loc_epoch (mp_from (mf_packet mf)) < loc_epoch location
          then (if \<not> mf_service mf then mig_panic (rt, mf)
            else if mf_redirects mf < ol_max_redirects (os_limits (ru_objects rt))
            then (let p = (mf_packet mf)\<lparr>mp_from := location\<rparr> in
              mig_send env (location_place location) MIGRATION_FREEZE_ACTION_ID p (clock 0) MsFreeze
                (\<lambda>s err. mig_return (mf_finish env MgRolledBack (clock 2) s) (Err err))
                (rt\<lparr>ru_objects := cache_location obj location (ru_objects rt)\<rparr>,
                 mf\<lparr>mf_redirects := mf_redirects mf + 1, mf_packet := p, mf_original := location\<rparr>))
            else give_up)
          else give_up
      | _ \<Rightarrow> give_up))"

definition on_prepared ::
  "'n env \<Rightarrow> (runtime_error \<Rightarrow> bytes) \<Rightarrow> (nat \<Rightarrow> instant) \<Rightarrow> migration_packet \<Rightarrow> ('v, 'n, 's) runtime \<times> migration_future
     \<Rightarrow> ('v, 'n, 's) mig_round"
where
  "on_prepared env show clock p = (\<lambda>(rt, mf).
     mig_send env (location_place (mf_authority mf)) MIGRATION_COMMIT_ACTION_ID p (clock 0) MsCommit
       (start_rollback env show clock True) (rt, mf\<lparr>mf_prepared := Some (mp_from p), mf_packet := p\<rparr>))"

definition on_committed ::
  "'n env \<Rightarrow> (runtime_error \<Rightarrow> bytes) \<Rightarrow> (nat \<Rightarrow> instant) \<Rightarrow> migration_packet \<Rightarrow> ('v, 'n, 's) runtime \<times> migration_future
     \<Rightarrow> ('v, 'n, 's) mig_round"
where
  "on_committed env show clock p = (\<lambda>(rt, mf).
     mig_send env (mp_destination p) MIGRATION_ACTIVATE_ACTION_ID p (clock 0) MsActivate
       (committed_failure env show clock) (rt, mf\<lparr>mf_committed := True, mf_packet := p\<rparr>))"

definition on_activated ::
  "'n env \<Rightarrow> (runtime_error \<Rightarrow> bytes) \<Rightarrow> (nat \<Rightarrow> instant) \<Rightarrow> migration_packet \<Rightarrow> ('v, 'n, 's) runtime \<times> migration_future
     \<Rightarrow> ('v, 'n, 's) mig_round"
where
  "on_activated env show clock p = (\<lambda>(rt, mf).
     (let mf1 = mf\<lparr>mf_packet := p\<rparr> in
      if loc_locality (mf_original mf1) = loc_locality (mp_from p) then migration_completed env clock (rt, mf1)
      else mig_send env (location_place (mf_original mf1)) MIGRATION_RETIRE_ACTION_ID p (clock 0) MsRetire
             (committed_failure env show clock) (rt, mf1)))"

definition rollback_failed ::
  "'n env \<Rightarrow> (runtime_error \<Rightarrow> bytes) \<Rightarrow> (nat \<Rightarrow> instant) \<Rightarrow> string \<Rightarrow> runtime_error \<Rightarrow> runtime_error
     \<Rightarrow> ('v, 'n, 's) runtime \<times> migration_future \<Rightarrow> ('v, 'n, 's) mig_round"
where
  "rollback_failed env show clock where_text err rollback = (\<lambda>(rt, mf).
     mig_return (mf_finish env MgFailed (clock 2) (rt, mf))
       (Err (ReMigration (mp_migration (mf_packet mf)) (show err @ lit where_text @ show rollback))))"

definition rolled_back ::
  "'n env \<Rightarrow> (nat \<Rightarrow> instant) \<Rightarrow> runtime_error \<Rightarrow> ('v, 'n, 's) runtime \<times> migration_future \<Rightarrow> ('v, 'n, 's) mig_round"
where
  "rolled_back env clock err s =
     (case mf_finish env MgRolledBack (clock 2) s of (rt1, mf1) \<Rightarrow> mig_return (rt1, mf1\<lparr>mf_state := MsDone\<rparr>) (Err err))"

text \<open>A poll of the future of the running step; \<open>st\<close> puts it back.\<close>

definition mig_await ::
  "'n env \<Rightarrow> ('v, migration_packet) reader \<Rightarrow> remote_future \<Rightarrow> (remote_future \<Rightarrow> migration_state)
     \<Rightarrow> (migration_packet \<Rightarrow> ('v, 'n, 's) runtime \<times> migration_future \<Rightarrow> ('v, 'n, 's) mig_round)
     \<Rightarrow> (runtime_error \<Rightarrow> ('v, 'n, 's) runtime \<times> migration_future \<Rightarrow> ('v, 'n, 's) mig_round)
     \<Rightarrow> ('v, 'n, 's) runtime \<times> migration_future \<Rightarrow> ('v, 'n, 's) mig_round"
where
  "mig_await env rd f st done_ok done_err = (\<lambda>(rt, mf).
     (case poll_remote env rd f rt of
        (rt1, f1, Inl err) \<Rightarrow> mig_panic (rt1, mf\<lparr>mf_state := st f1\<rparr>)
      | (rt1, f1, Inr PollPending) \<Rightarrow> ((rt1, mf\<lparr>mf_state := st f1\<rparr>), Some (Ok PollPending))
      | (rt1, f1, Inr (Ready (Inr p))) \<Rightarrow> done_ok p (rt1, mf\<lparr>mf_state := st f1\<rparr>)
      | (rt1, f1, Inr (Ready (Inl err))) \<Rightarrow> done_err err (rt1, mf\<lparr>mf_state := st f1\<rparr>)))"

definition migration_round ::
  "'n env \<Rightarrow> ('v, migration_packet) reader \<Rightarrow> (runtime_error \<Rightarrow> bytes) \<Rightarrow> (nat \<Rightarrow> instant)
     \<Rightarrow> ('v, 'n, 's) runtime \<times> migration_future \<Rightarrow> ('v, 'n, 's) mig_round"
where
  "migration_round env rd show clock = (\<lambda>(rt, mf).
     (let polled_again = Err (ReProtocol (lit ''migration future polled after completion'')) in
      case mf_state mf of
        MsReady r \<Rightarrow> mig_return (rt, mf\<lparr>mf_state := MsDone\<rparr>) (case r of Some res \<Rightarrow> res | None \<Rightarrow> polled_again)
      | MsFreeze f \<Rightarrow> mig_await env rd f MsFreeze (on_frozen env show clock) (on_freeze_error env show clock) (rt, mf)
      | MsPrepare f \<Rightarrow>
          mig_await env rd f MsPrepare (on_prepared env show clock) (\<lambda>err s. start_rollback env show clock False s err) (rt, mf)
      | MsCommit f \<Rightarrow>
          mig_await env rd f MsCommit (on_committed env show clock) (\<lambda>err s. start_rollback env show clock True s err) (rt, mf)
      | MsActivate f \<Rightarrow>
          mig_await env rd f MsActivate (on_activated env show clock) (\<lambda>err s. committed_failure env show clock s err) (rt, mf)
      | MsRetire f \<Rightarrow>
          mig_await env rd f MsRetire (\<lambda>p. migration_completed env clock) (\<lambda>err s. committed_failure env show clock s err) (rt, mf)
      | MsRollbackSource f err destination \<Rightarrow>
          mig_await env rd f (\<lambda>f. MsRollbackSource f err destination)
            (\<lambda>p (rt, mf). if destination
               then mig_send env (mp_destination (mf_packet mf)) MIGRATION_ROLLBACK_ACTION_ID (mf_packet mf) (clock 0)
                      (\<lambda>f. MsRollbackDestination f err)
                      (\<lambda>s _. mig_return (mf_finish env MgFailed (clock 2) s) (Err err)) (rt, mf)
               else rolled_back env clock err (rt, mf))
            (rollback_failed env show clock ''; source rollback failed: '' err) (rt, mf)
      | MsRollbackDestination f err \<Rightarrow>
          mig_await env rd f (\<lambda>f. MsRollbackDestination f err) (\<lambda>p. rolled_back env clock err)
            (rollback_failed env show clock ''; destination rollback failed: '' err) (rt, mf)
      | MsDone \<Rightarrow> mig_return (rt, mf) polled_again))"

text \<open>
  The loop ends: every round that goes on is nearer the end of the protocol, or is one of the redirects of
  the freeze, which are limited.
\<close>

fun mig_rank :: "migration_state \<Rightarrow> nat" where
  "mig_rank (MsFreeze f) = 6"
| "mig_rank (MsPrepare f) = 5"
| "mig_rank (MsCommit f) = 4"
| "mig_rank (MsActivate f) = 3"
| "mig_rank (MsRetire f) = 2"
| "mig_rank (MsRollbackSource f err destination) = 2"
| "mig_rank (MsRollbackDestination f err) = 1"
| "mig_rank (MsReady r) = 0"
| "mig_rank MsDone = 0"

abbreviation redirect_limit :: "('v, 'n, 's) runtime \<Rightarrow> usize" where
  "redirect_limit rt \<equiv> ol_max_redirects (os_limits (ru_objects rt))"

lemma spawn_encoded_objects: "spawn_encoded env pl a payload opts request now rt = (rt', r) \<Longrightarrow> ru_objects rt' = ru_objects rt"
  by (auto simp: spawn_encoded_def on_shared_def on_server_def split: prod.splits)

lemma migration_step_objects: "migration_step env pl action p now rt = (rt', r) \<Longrightarrow> ru_objects rt' = ru_objects rt"
  by (auto simp: migration_step_def split: sum.splits dest: spawn_encoded_objects)

lemma poll_remote_objects: "poll_remote env rd f rt = (rt', f', r) \<Longrightarrow> ru_objects rt' = ru_objects rt"
  by (auto simp: poll_remote_def Let_def split: prod.splits)

lemma mig_send_on:
  assumes "mig_send env pl action p now st failed (rt, mf) = (s, None)"
  shows "(\<exists>rt' f. s = (rt', mf\<lparr>mf_state := st f\<rparr>) \<and> ru_objects rt' = ru_objects rt)
    \<or> (\<exists>rt' err. failed (rt', mf) err = (s, None) \<and> ru_objects rt' = ru_objects rt)"
  using assms by (auto simp: mig_send_def mig_panic_def split: if_splits prod.splits sum.splits fault.splits dest: migration_step_objects)

lemma mig_return_on [simp]: "mig_return s r \<noteq> (s', None)" "mig_panic s \<noteq> (s', None)"
  by (simp_all add: mig_return_def mig_panic_def)

lemma start_rollback_on: "start_rollback env show clock d (rt, mf) err = ((rt', mf'), None) \<Longrightarrow> mig_rank (mf_state mf') = 2"
  by (auto simp: start_rollback_def dest!: mig_send_on)

lemma stops [simp]:
  "committed_failure env show clock s err \<noteq> (s', None)" "migration_completed env clock s \<noteq> (s', None)"
  "rollback_failed env show clock w err rollback s \<noteq> (s', None)" "rolled_back env clock err s \<noteq> (s', None)"
  by (auto simp: committed_failure_def migration_completed_def rollback_failed_def rolled_back_def split: prod.splits option.splits if_splits)

lemma on_frozen_on: "on_frozen env show clock p (rt, mf) = ((rt', mf'), None) \<Longrightarrow> mig_rank (mf_state mf') < 6"
  by (auto simp: on_frozen_def split: option.splits if_splits dest!: mig_send_on start_rollback_on)

lemma on_freeze_error_on:
  "on_freeze_error env show clock err (rt, mf) = ((rt', mf'), None) \<Longrightarrow>
     mig_rank (mf_state mf') = 6 \<and> mf_redirects mf < redirect_limit rt \<and> mf_redirects mf' = Suc (mf_redirects mf)
     \<and> redirect_limit rt' = redirect_limit rt"
  by (auto simp: on_freeze_error_def Let_def split: runtime_error.splits if_splits prod.splits dest!: mig_send_on)

lemma on_steps_on:
  "on_prepared env show clock p (rt, mf) = ((rt', mf'), None) \<Longrightarrow> mig_rank (mf_state mf') < 5"
  "on_committed env show clock p (rt, mf) = ((rt', mf'), None) \<Longrightarrow> mig_rank (mf_state mf') < 4"
  "on_activated env show clock p (rt, mf) = ((rt', mf'), None) \<Longrightarrow> mig_rank (mf_state mf') < 3"
  by (auto simp: on_prepared_def on_committed_def on_activated_def Let_def split: if_splits dest!: mig_send_on start_rollback_on)

lemma mig_await_on:
  assumes "mig_await env rd f st done_ok done_err (rt, mf) = (s, None)"
  shows "\<exists>rt' f'. ru_objects rt' = ru_objects rt
    \<and> ((\<exists>p. done_ok p (rt', mf\<lparr>mf_state := st f'\<rparr>) = (s, None)) \<or> (\<exists>err. done_err err (rt', mf\<lparr>mf_state := st f'\<rparr>) = (s, None)))"
  using assms by (auto simp: mig_await_def split: prod.splits sum.splits poll.splits dest: poll_remote_objects)

lemma migration_round_on:
  assumes "migration_round env rd show clock (rt, mf) = ((rt', mf'), None)"
  shows "mig_rank (mf_state mf') < mig_rank (mf_state mf) \<or>
    mig_rank (mf_state mf') = mig_rank (mf_state mf) \<and> redirect_limit rt' - mf_redirects mf' < redirect_limit rt - mf_redirects mf"
proof (cases "mf_state mf")
  case (MsFreeze f)
  with assms obtain rt1 f1 where "ru_objects rt1 = ru_objects rt"
      "(\<exists>p. on_frozen env show clock p (rt1, mf\<lparr>mf_state := MsFreeze f1\<rparr>) = ((rt', mf'), None))
       \<or> (\<exists>err. on_freeze_error env show clock err (rt1, mf\<lparr>mf_state := MsFreeze f1\<rparr>) = ((rt', mf'), None))"
    by (auto simp: migration_round_def Let_def dest!: mig_await_on)
  then show ?thesis using MsFreeze by (auto dest!: on_frozen_on on_freeze_error_on)
next
  case (MsRollbackSource f err d)
  with assms show ?thesis by (auto simp: migration_round_def Let_def split: if_splits dest!: mig_await_on mig_send_on)
qed (use assms in \<open>auto simp: migration_round_def Let_def dest!: mig_await_on on_steps_on start_rollback_on\<close>)

function migration_poll ::
  "'n env \<Rightarrow> ('v, migration_packet) reader \<Rightarrow> (runtime_error \<Rightarrow> bytes) \<Rightarrow> (nat \<Rightarrow> instant)
     \<Rightarrow> ('v, 'n, 's) runtime \<times> migration_future
     \<Rightarrow> (('v, 'n, 's) runtime \<times> migration_future) \<times> (unit fault, (runtime_error, migration_report) result poll) result"
where
  "migration_poll env rd show clock s =
     (case migration_round env rd show clock s of
        (s1, None) \<Rightarrow> migration_poll env rd show (\<lambda>i. clock (i + 3)) s1
      | (s1, Some r) \<Rightarrow> (s1, r))"
  by pat_completeness auto

termination
  by (relation "measures [\<lambda>(env, rd, show, clock, rt, mf). mig_rank (mf_state mf),
        \<lambda>(env, rd, show, clock, rt, mf). redirect_limit rt - mf_redirects mf]")
    (auto dest!: migration_round_on [OF sym])

declare migration_poll.simps [simp del]

text \<open>Dropping the future ends a migration that is still registered, and cancels the step it waits for.\<close>

definition state_future :: "migration_state \<Rightarrow> remote_future option" where
  "state_future st =
     (case st of MsFreeze f \<Rightarrow> Some f | MsPrepare f \<Rightarrow> Some f | MsCommit f \<Rightarrow> Some f | MsActivate f \<Rightarrow> Some f | MsRetire f \<Rightarrow> Some f
      | MsRollbackSource f err d \<Rightarrow> Some f | MsRollbackDestination f err \<Rightarrow> Some f | MsReady r \<Rightarrow> None | MsDone \<Rightarrow> None)"

definition future_release :: "'n env \<Rightarrow> remote_future \<Rightarrow> ('v, 'n, 's) runtime \<Rightarrow> ('v, 'n, 's) runtime" where
  "future_release env f rt =
     (if future_drop f (sh_promises (ru_shared rt) ! rf_promise f)
      then fst (on_shared (\<lambda>sh. (sh_cancel env (rf_request f) sh, ())) rt) else rt)"

definition migration_drop :: "'n env \<Rightarrow> instant \<Rightarrow> migration_future \<Rightarrow> ('v, 'n, 's) runtime \<Rightarrow> ('v, 'n, 's) runtime" where
  "migration_drop env now mf rt =
     (let rt1 = (if mf_service mf
            then fst (mf_finish env (if mf_committed mf then MgFailed else MgRolledBack) now
                   (if mf_committed mf \<and> mf_client mf then fail_committed_migration rt else rt, mf))
            else rt) in
      case state_future (mf_state mf) of None \<Rightarrow> rt1 | Some f \<Rightarrow> future_release env f rt1)"

end
