(* ===== verification/RemoteProps.thy ===== *)
theory RemoteProps
  imports Remotes Conservation
begin

text \<open>What holds of the handles and futures of \<open>Remotes\<close>.\<close>

subsection \<open>Redirects\<close>

text \<open>What polling may change of a call: its future, and the redirects it followed with the epoch of the last.\<close>

definition call_advances :: "remote_call \<Rightarrow> remote_call \<Rightarrow> bool" where
  "call_advances c c' \<longleftrightarrow>
     (\<exists>f k e. c' = c\<lparr>rc_future := f, rc_redirects := rc_redirects c + k, rc_last_epoch := e\<rparr>
        \<and> unat (rc_last_epoch c) + k \<le> unat e
        \<and> (rc_redirects c \<le> rc_max_redirects c \<longrightarrow> rc_redirects c + k \<le> rc_max_redirects c)
        \<and> (rf_request (rc_future c) = rc_request c \<longrightarrow> rf_request f = rc_request c))"

lemma call_advances_refl: "(rf_request (rc_future c) = rc_request c \<longrightarrow> rf_request f = rc_request c) \<Longrightarrow> call_advances c (c\<lparr>rc_future := f\<rparr>)"
  unfolding call_advances_def by (rule exI [of _ f], rule exI [of _ 0], rule exI [of _ "rc_last_epoch c"]) simp

lemma call_advances_trans: "call_advances c c' \<Longrightarrow> call_advances c' c'' \<Longrightarrow> call_advances c c''"
  unfolding call_advances_def
proof (elim exE conjE)
  fix f k e f' k' e'
  assume c': "c' = c\<lparr>rc_future := f, rc_redirects := rc_redirects c + k, rc_last_epoch := e\<rparr>"
    and c'': "c'' = c'\<lparr>rc_future := f', rc_redirects := rc_redirects c' + k', rc_last_epoch := e'\<rparr>"
    and e: "unat (rc_last_epoch c) + k \<le> unat e" "unat (rc_last_epoch c') + k' \<le> unat e'"
    and m: "rc_redirects c \<le> rc_max_redirects c \<longrightarrow> rc_redirects c + k \<le> rc_max_redirects c"
      "rc_redirects c' \<le> rc_max_redirects c' \<longrightarrow> rc_redirects c' + k' \<le> rc_max_redirects c'"
    and r: "rf_request (rc_future c) = rc_request c \<longrightarrow> rf_request f = rc_request c"
      "rf_request (rc_future c') = rc_request c' \<longrightarrow> rf_request f' = rc_request c'"
  then show "\<exists>f k e. c'' = c\<lparr>rc_future := f, rc_redirects := rc_redirects c + k, rc_last_epoch := e\<rparr>
        \<and> unat (rc_last_epoch c) + k \<le> unat e
        \<and> (rc_redirects c \<le> rc_max_redirects c \<longrightarrow> rc_redirects c + k \<le> rc_max_redirects c)
        \<and> (rf_request (rc_future c) = rc_request c \<longrightarrow> rf_request f = rc_request c)"
    by (intro exI [of _ f'] exI [of _ "k + k'"] exI [of _ e']) (simp add: add.assoc)
qed

lemma future_poll_request: "rf_request (fst (fst (future_poll dec dc show w (f, p)))) = rf_request f"
  by (auto simp: future_poll_def split_beta split: poll.splits sum.splits action_value.splits)

lemma poll_remote_request: "poll_remote env rd f rt = (rt', f', r) \<Longrightarrow> rf_request f' = rf_request f"
  unfolding poll_remote_def Let_def
  using future_poll_request [of "rd_decode rd" "rd_downcast rd" "env_action_text env" "rd_waker rd" f "sh_promises (ru_shared rt) ! rf_promise f"]
  by (simp split: prod.splits)

definition moved :: "runtime_error \<Rightarrow> bool" where
  "moved err \<longleftrightarrow> (\<exists>obj location. err = ReMoved obj location)"

text \<open>A call that is sent keeps the request it was given, and is never refused with a redirect.\<close>

definition spawned :: "request_id option \<Rightarrow> (runtime_error fault, remote_future) result \<Rightarrow> bool" where
  "spawned request r \<longleftrightarrow>
     (case r of Inl (Fail err) \<Rightarrow> \<not> moved err | Inl Panic \<Rightarrow> True | Inr f \<Rightarrow> (\<forall>q. request = Some q \<longrightarrow> rf_request f = q))"

lemma spawned_simps [simp]:
  "spawned request (Inl (Fail err)) \<longleftrightarrow> \<not> moved err" "spawned request (Inl Panic)"
  "spawned request (Inr f) \<longleftrightarrow> (\<forall>q. request = Some q \<longrightarrow> rf_request f = q)"
  by (simp_all add: spawned_def)

lemma moved_simps [simp]:
  "\<not> moved ReShutdown" "\<not> moved (ReInvalidState s t)" "\<not> moved ReInvalidDeadline" "\<not> moved (ReUnknownAction a)"
  "\<not> moved (ReProtocol m)" "\<not> moved (ReTransport e)" "\<not> moved (ReResourceExhausted k n)" "\<not> moved (ReRedirectLimit obj)"
  "moved (ReMoved obj location)"
  by (simp_all add: moved_def)

lemma sh_send_not_moved: "sh_send env d m purpose trace s = (s', Inl err) \<Longrightarrow> \<not> moved err"
  by (auto simp: sh_send_def next_message_def Let_def
      split: option.splits prod.splits sum.splits if_splits elim!: res_map_err.elims)

lemma submit_call_not_moved: "submit_call env pl input m token trace s = (s', Inl (Fail err)) \<Longrightarrow> \<not> moved err"
  by (auto simp: submit_call_def dest: sh_send_not_moved split: if_splits option.splits prod.splits sum.splits)

lemma issue_call_result: "spawned (Some request) (snd (issue_call env pl a input opts ms request now s))"
  by (auto simp: issue_call_def Let_def pending_insert_def call_payload_def remote_future_new_def spawned_def
      dest: submit_call_not_moved split: prod.splits sum.splits action_value.splits fault.splits)

lemma spawned_None: "spawned (Some q) r \<Longrightarrow> spawned None r"
  by (auto simp: spawned_def split: sum.splits fault.splits)

lemma next_request_not_moved: "next_request s = (s', Inl err) \<Longrightarrow> \<not> moved err"
  by (auto simp: next_request_def split: option.splits elim!: res_map_err.elims)

lemma spawn_inner_result: "spawned request (snd (spawn_inner env pl a input opts request now s))"
  by (auto simp: spawn_inner_def ensure_running_def deadline_millis_def Let_def issue_call_result
      intro: spawned_None [OF issue_call_result] dest: next_request_not_moved
      split: sum.splits option.splits prod.splits)

lemma spawn_encoded_result: "spawned request (snd (spawn_encoded env pl a payload opts request now rt))"
  using spawn_inner_result [of request env pl a "AvEncoded payload" opts now "ru_shared rt"]
  by (simp add: spawn_encoded_def on_shared_def on_server_def split_beta)

lemma follow_result:
  assumes "follow env location now c rt = ((rt', c'), r)"
  shows "c' = c\<lparr>rc_redirects := rc_redirects c + 1, rc_last_epoch := loc_epoch location\<rparr>" "spawned (Some (rc_request c)) r"
  using assms spawn_encoded_result [of "Some (rc_request c)"] by (auto simp: follow_def Let_def split_beta)

lemma call_advances_follow:
  assumes "rc_last_epoch c < loc_epoch location" "rc_redirects c < rc_max_redirects c" "rf_request f2 = rc_request c"
  shows "call_advances c (c\<lparr>rc_future := f, rc_redirects := rc_redirects c + 1, rc_last_epoch := loc_epoch location, rc_future := f2\<rparr>)"
  unfolding call_advances_def
  using assms by (intro exI [of _ f2] exI [of _ "1::nat"] exI [of _ "loc_epoch location"])
    (auto simp: word_less_nat_alt)

lemma call_advances_failed:
  assumes "rc_last_epoch c < loc_epoch location" "rc_redirects c < rc_max_redirects c" "rf_request f = rf_request (rc_future c)"
  shows "call_advances c (c\<lparr>rc_future := f, rc_redirects := rc_redirects c + 1, rc_last_epoch := loc_epoch location\<rparr>)"
  unfolding call_advances_def
  using assms by (intro exI [of _ f] exI [of _ "1::nat"] exI [of _ "loc_epoch location"])
    (auto simp: word_less_nat_alt)

lemma remote_call_poll_advances:
  "call_advances c (snd (fst (remote_call_poll env rd bad clock c rt)))
   \<and> (\<forall>err. snd (remote_call_poll env rd bad clock c rt) = Inr (Ready (Inl err)) \<longrightarrow> \<not> moved err)"
proof (induction env rd bad clock c rt rule: remote_call_poll.induct)
  case (1 env rd bad clock c rt)
  obtain rt1 f r where p: "poll_remote env rd (rc_future c) rt = (rt1, f, r)" by (metis prod_cases3)
  have req: "rf_request f = rf_request (rc_future c)" by (rule poll_remote_request [OF p])
  have stay: "call_advances c (c\<lparr>rc_future := f\<rparr>)" using req by (intro call_advances_refl) simp
  show ?case
  proof (cases "\<exists>obj location. r = Inr (Ready (Inl (ReMoved obj location)))")
    case False
    then show ?thesis
      by (subst (1 2) remote_call_poll.simps)
        (auto simp: p stay moved_def split: sum.splits poll.splits runtime_error.splits)
  next
    case True
    then obtain obj location where r: "r = Inr (Ready (Inl (ReMoved obj location)))" by blast
    let ?c1 = "c\<lparr>rc_future := f\<rparr>"
    show ?thesis
    proof (cases "obj \<noteq> rc_object c \<or> loc_epoch location \<le> rc_last_epoch c \<or> rc_max_redirects c \<le> rc_redirects c")
      case True
      then show ?thesis by (subst (1 2) remote_call_poll.simps) (auto simp: p r stay Let_def)
    next
      case False
      obtain rt2 c2 r2 where f: "follow env location (clock (rc_redirects c)) ?c1 rt1 = ((rt2, c2), r2)" by (metis prod.collapse)
      note c2 = follow_result [OF f]
      show ?thesis
      proof (cases r2)
        case (Inl e)
        then show ?thesis using c2 False call_advances_failed [of c location f] req not_le [of "loc_epoch location" "rc_last_epoch c"]
          by (subst (1 2) remote_call_poll.simps) (cases e; simp add: p r f Let_def)
      next
        case (Inr f2)
        have "call_advances c (c2\<lparr>rc_future := f2\<rparr>)"
          using call_advances_follow [of c location f2 f] c2 Inr False not_le [of "loc_epoch location" "rc_last_epoch c"] by simp
        moreover have "remote_call_poll env rd bad clock c rt = remote_call_poll env rd bad clock (c2\<lparr>rc_future := f2\<rparr>) rt2"
          using False by (subst remote_call_poll.simps) (simp add: p r f Inr Let_def)
        ultimately show ?thesis
          using "1.IH" [OF p [symmetric] refl r refl refl refl] f Inr False call_advances_trans by auto
      qed
    qed
  qed
qed

text \<open>A call that is polled again and again, whatever the runtime did in between.\<close>

fun call_polls ::
  "'n env \<Rightarrow> ('v, 't) reader \<Rightarrow> (remote_call \<Rightarrow> object_id \<Rightarrow> object_location \<Rightarrow> bytes)
     \<Rightarrow> ((nat \<Rightarrow> instant) \<times> ('v, 'n, 's) runtime) list \<Rightarrow> remote_call \<Rightarrow> remote_call"
where
  "call_polls env rd bad [] c = c"
| "call_polls env rd bad ((clock, rt) # ps) c = call_polls env rd bad ps (snd (fst (remote_call_poll env rd bad clock c rt)))"

lemma call_polls_advances: "call_advances c (call_polls env rd bad ps c)"
proof (induction ps arbitrary: c)
  case Nil
  show ?case using call_advances_refl [of c "rc_future c"] by simp
next
  case (Cons p ps)
  show ?case
    using Cons.IH call_advances_trans remote_call_poll_advances by (cases p) fastforce
qed

text \<open>
  C34. A call on an object follows redirects a bounded number of times: however often it is polled and
  whatever the runtime does between the polls, it has followed at most \<open>max_redirects\<close> of them, each to a
  later epoch than the one before, and it is still the same request with the same action and payload on
  the same object. A poll that ends never hands a redirect to the caller.
\<close>

theorem call_redirects_bounded:
  assumes "located_call env r a payload now rt = (rt', Ok c)" "c' = call_polls env rd bad ps c"
  shows "rc_redirects c' \<le> ol_max_redirects (os_limits (ru_objects rt))
    \<and> unat (loc_epoch (observed_location r rt)) + rc_redirects c' \<le> unat (rc_last_epoch c')
    \<and> rc_object c' = rmt_object r \<and> rc_action c' = a \<and> rc_payload c' = payload
    \<and> rf_request (rc_future c') = rf_request (rc_future c)
    \<and> (\<nexists>obj location. snd (remote_call_poll env rd bad clock c' rt'') = Ok (Ready (Err (ReMoved obj location))))"
proof -
  have c: "rc_object c = rmt_object r" "rc_action c = a" "rc_payload c = payload" "rc_redirects c = 0"
      "rc_request c = rf_request (rc_future c)" "rc_last_epoch c = loc_epoch (observed_location r rt)"
      "rc_max_redirects c = ol_max_redirects (os_limits (ru_objects rt))"
    using assms(1) by (auto simp: located_call_def Let_def split: prod.splits sum.splits)
  moreover have "\<nexists>obj location. snd (remote_call_poll env rd bad clock c' rt'') = Ok (Ready (Err (ReMoved obj location)))"
    using remote_call_poll_advances [of c' env rd bad clock rt''] by auto
  ultimately show ?thesis
    using call_polls_advances [of c env rd bad ps] assms(2) by (auto simp: call_advances_def)
qed

text \<open>
  An object with a redirect: a call on it by the runtime of \<open>demo_runtime\<close>, which ends with the news that the
  object has moved to epoch 2 when the call is polled for the first time.
\<close>

definition demo_location :: "u64 \<Rightarrow> object_location" where
  "demo_location e = \<lparr>loc_locality = 7, loc_domain = 0, loc_slot = 1, loc_generation = 1, loc_epoch = e\<rparr>"

definition demo_remote :: remote where
  "demo_remote = \<lparr>rmt_object = demo_object, rmt_object_type = 77, rmt_location = demo_location 1, rmt_lease = 0\<rparr>"

definition demo_reader :: "(unit, bytes) reader" where
  "demo_reader = bytes_reader 0 (\<lambda>v. None)"

definition demo_moved :: "(unit, u64, u64) runtime \<Rightarrow> (unit, u64, u64) runtime" where
  "demo_moved rt = rt\<lparr>ru_server := (ru_server rt)\<lparr>sv_shared := (ru_shared rt)\<lparr>sh_promises :=
     [\<lparr>pr_result = Some (Err (ReMoved demo_object (demo_location 2))), pr_waker = None, pr_done = True\<rparr>]\<rparr>\<rparr>\<rparr>"

lemmas demo_remote_eval = demo_remote_def demo_location_def observed_location_def
  spawn_encoded_def on_shared_def on_server_def default_options_def location_place_def demo_runtime_def demo_server_def

lemma demo_located:
  "\<exists>rt c. located_call demo_env demo_remote 9 [] 5 demo_runtime = (rt, Ok c)
     \<and> rc_redirects (call_polls demo_env demo_reader (\<lambda>c obj l. []) [(\<lambda>i. 6, demo_moved rt)] c) = 1"
  by (simp add: located_call_def demo_remote_eval resolve_def object_service_new_def hm_insert_def Calls.demo_eval
      demo_moved_def remote_call_poll.simps poll_remote_def future_poll_def promise_poll_def follow_def demo_reader_def bytes_reader_def
      object_limits_default_def cache_location_def promise_new_def word_le_nat_alt)

theorem call_redirects_bounded_witness:
  "\<exists>rt c. located_call demo_env demo_remote 9 [] 5 demo_runtime = (rt, Ok c)
     \<and> rc_redirects (call_polls demo_env demo_reader (\<lambda>c obj l. []) [(\<lambda>i. 6, demo_moved rt)] c) = 1
     \<and> 2 \<le> unat (rc_last_epoch (call_polls demo_env demo_reader (\<lambda>c obj l. []) [(\<lambda>i. 6, demo_moved rt)] c))"
proof -
  obtain rt c where c: "located_call demo_env demo_remote 9 [] 5 demo_runtime = (rt, Ok c)"
      "rc_redirects (call_polls demo_env demo_reader (\<lambda>c obj l. []) [(\<lambda>i. 6, demo_moved rt)] c) = 1"
    using demo_located by blast
  have "loc_epoch (observed_location demo_remote demo_runtime) = 1"
    by (simp add: demo_remote_eval resolve_def object_service_new_def hm_get_def)
  with call_redirects_bounded [OF c(1) refl, THEN conjunct2, THEN conjunct1, of demo_reader "\<lambda>c obj l. []" "[(\<lambda>i. 6, demo_moved rt)]"] c(2)
  have "2 \<le> unat (rc_last_epoch (call_polls demo_env demo_reader (\<lambda>c obj l. []) [(\<lambda>i. 6, demo_moved rt)] c))"
    by (simp del: call_polls.simps)
  with c show ?thesis by blast
qed

text \<open>
  A redirect that is followed gets the whole deadline again: the entry it is pending under expires a full
  deadline after the redirect, not when the call itself would have.
\<close>

lemma spawn_encoded_pending:
  assumes "spawn_encoded env pl a payload opts (Some q) now rt = (rt', Ok f)"
  shows "\<exists>e. hm_get (pt_entries (sh_pending (ru_shared rt'))) q = Some e \<and> pe_expires_at e = now + so_deadline opts"
  using assms
  by (auto simp: spawn_encoded_def on_shared_def on_server_def spawn_inner_def issue_call_def pending_insert_def Let_def
      submit_call_def hm_get_insert call_frame
      split: prod.splits sum.splits if_splits option.splits dest!: arg_cong [where f = fst])

lemma redirect_restarts_deadline:
  "follow env location now c rt = ((rt', c'), Ok f) \<Longrightarrow>
     \<exists>e. hm_get (pt_entries (sh_pending (ru_shared rt'))) (rc_request c) = Some e \<and> pe_expires_at e = now + rc_deadline c"
  by (auto simp: follow_def Let_def split: prod.splits dest!: spawn_encoded_pending)

subsection \<open>A rooted creation that fails\<close>

lemma expire_lifecycle_roots: "oe_roots (fst (expire_lifecycle l me now e)) = oe_roots e" "oe_roots (fst (expire_prepared now e)) = oe_roots e"
  by (simp_all add: expire_lifecycle_def expire_prepared_def take_prepared_def split: object_lifecycle.split option.split)

definition rooted_here :: "object_id \<Rightarrow> ('v, 's) object_service \<Rightarrow> bool" where
  "rooted_here obj sv \<longleftrightarrow> (\<exists>e. hm_get (os_entries sv) obj = Some e \<and> oe_authority e = os_local_id sv \<and> oe_roots e \<noteq> 0)"

lemma collect_rooted: "rooted_here obj sv \<Longrightarrow> collect obj sv = sv"
  by (auto simp: rooted_here_def collect_def)

lemma expire_entry_rooted:
  assumes "rooted_here obj sv"
  shows "rooted_here obj (expire_entry now obj' sv)"
proof (cases "obj' = obj")
  case False
  with assms show ?thesis
    using expire_entry_other [of obj obj' now sv] expire_entry_config [of sv now obj'] by (simp add: rooted_here_def same_config_def)
next
  case True
  obtain e where e: "hm_get (os_entries sv) obj = Some e" "oe_authority e = os_local_id sv" "oe_roots e \<noteq> 0"
    using assms by (auto simp: rooted_here_def)
  obtain e1 k1 e2 k2 where s: "expire_lifecycle (os_limits sv) (os_local_id sv) now e = (e1, k1)" "expire_prepared now e1 = (e2, k2)"
    by force
  have "oe_authority e2 = os_local_id sv" "oe_roots e2 \<noteq> 0"
    using expire_stages_frame(1) [of "os_limits sv" "os_local_id sv" now e] expire_stages_frame(3) [of now e1]
      expire_lifecycle_roots(1) [of "os_limits sv" "os_local_id sv" now e] expire_lifecycle_roots(2) [of now e1] s e by simp_all
  then show ?thesis
    using True e s by (simp add: expire_entry_def Let_def collect_rooted rooted_here_def hm_get_insert)
qed

lemma expire_rooted: "rooted_here obj sv \<Longrightarrow> rooted_here obj (expire now sv)"
proof -
  have "rooted_here obj sv \<Longrightarrow> rooted_here obj (fold (expire_entry now) objs sv)" for objs
    by (induction objs arbitrary: sv) (simp_all add: expire_entry_rooted)
  then show "rooted_here obj sv \<Longrightarrow> ?thesis" by (simp add: expire_def)
qed

lemma service_insert_rooted:
  assumes "service_insert env st now sv = (sv', Ok location)" "en_rooted env"
  shows "rooted_here (en_object env) sv'"
  using assms by (auto simp: service_insert_def Let_def rooted_here_def hm_get_insert split: if_splits option.splits sum.splits)

lemma create_local_rooted: "create_local obj t d v loc True now sv = (sv', Ok location) \<Longrightarrow> rooted_here obj sv'"
  by (auto simp: create_local_def split: option.splits sum.splits prod.splits dest!: service_insert_rooted)

lemma rooted_here_cache [simp]: "rooted_here obj (cache_location obj' l sv) = rooted_here obj sv"
  by (simp add: rooted_here_def)

text \<open>
  A rooted creation on the caller's own locality that finds no room for its lease fails, and leaks the
  object: the future gives the error and no root, yet the object is stored with a root that only a root
  handle releases, and no expiry ever removes it.
\<close>

lemma rooted_creation_leaks:
  assumes "create_at_inner env TYPE_ID pl v encoded True clock rt = (rt1, Ok cf)" "cf_ready cf = Some (Err err)"
  shows "rooted_create_poll env w downcast now cf rt1 = ((rt1, cf\<lparr>cf_ready := None\<rparr>), Ok (Ready (Err err)))
    \<and> rooted_here (cf_object cf) (fold expire nows (ru_objects rt1))"
proof -
  have "rooted_here (cf_object cf) (ru_objects rt1)"
    using assms
    by (auto simp: create_at_inner_def attach_object_def Let_def split: sum.splits prod.splits if_splits dest!: create_local_rooted)
  moreover have "rooted_here obj sv \<Longrightarrow> rooted_here obj (fold expire nows sv)" for obj and sv :: "('a, 'c) object_service"
    by (induction nows arbitrary: sv) (simp_all add: expire_rooted)
  ultimately show ?thesis by (simp add: rooted_create_poll_def create_poll_def assms(2))
qed

text \<open>A runtime whose lease table has no room.\<close>

definition demo_crowded :: "(unit, u64, u64) runtime" where
  "demo_crowded = demo_runtime\<lparr>ru_leases := lease_manager_new 0 10\<rparr>"

lemma demo_create:
  "\<exists>rt cf. create_at_inner demo_env 77 \<lparr>pl_locality = 7, pl_domain = 0\<rparr> 5 (Ok []) True (\<lambda>i. i) demo_crowded = (rt, Ok cf)
     \<and> cf_ready cf = Some (Err (ReResourceExhausted RkLocalityLeases 0))"
  by (simp add: create_at_inner_def nonzero_u128_id_def demo_crowded_def demo_runtime_def demo_server_def on_shared_def on_server_def
      next_object_def object_id_new_def attach_object_def attach_def lease_manager_new_def ObjectProps.demo_eval
      Calls.demo_shared_def fetch_next_def)

lemma rooted_creation_leaks_example:
  "\<exists>rt cf. create_at_inner demo_env 77 \<lparr>pl_locality = 7, pl_domain = 0\<rparr> 5 (Ok []) True (\<lambda>i. i) demo_crowded = (rt, Ok cf)
     \<and> rooted_here (cf_object cf) (fold expire [10 ^ 20, 10 ^ 30] (ru_objects rt))"
proof -
  obtain rt cf where cf: "create_at_inner demo_env 77 \<lparr>pl_locality = 7, pl_domain = 0\<rparr> 5 (Ok []) True (\<lambda>i. i) demo_crowded = (rt, Ok cf)"
      "cf_ready cf = Some (Err (ReResourceExhausted RkLocalityLeases 0))"
    using demo_create by blast
  show ?thesis using cf(1) rooted_creation_leaks [OF cf, of _ _ _ "[10 ^ 20, 10 ^ 30]"] by blast
qed

end
