(* ===== verification/MigrationProps.thy ===== *)
theory MigrationProps
  imports Migrating RemoteProps
begin

text \<open>What holds of a migration: how its future ends, and what the steps leave behind where they run.\<close>

subsection \<open>A migration is settled once\<close>

definition tally :: "('v, 's) object_service \<Rightarrow> request_id list \<times> u64 \<times> u64 \<times> u64" where
  "tally os = (os_active_migrations os, os_completed_migrations os, os_rolled_back_migrations os, os_failed_migrations os)"

fun settled :: "request_id \<Rightarrow> migration_outcome \<Rightarrow> request_id list \<times> u64 \<times> u64 \<times> u64 \<Rightarrow> request_id list \<times> u64 \<times> u64 \<times> u64" where
  "settled m MgCompleted (active, c, b, f) = (filter (\<lambda>x. x \<noteq> m) active, c + 1, b, f)"
| "settled m MgRolledBack (active, c, b, f) = (filter (\<lambda>x. x \<noteq> m) active, c, b + 1, f)"
| "settled m MgFailed (active, c, b, f) = (filter (\<lambda>x. x \<noteq> m) active, c, b, f + 1)"

lemma tally_finish: "tally (finish_migration m outcome n os) = settled m outcome (tally os)"
  by (cases outcome) (simp_all add: tally_def finish_migration_def Let_def)

lemma tally_cache [simp]: "tally (cache_location obj l os) = tally os"
  by (simp add: tally_def cache_location_def split_beta Let_def)

lemma tally_release: "tally (fst (release obj loc os)) = tally os"
  by (auto simp: tally_def release_def ack_transfer_def collect_def put_entry_def forget_entry_def Let_def
      split: option.split object_lifecycle.split)

lemma client_control_release:
  "tally (ru_objects (client_control env obj t l loc LEASE_RELEASE_ACTION_ID now rt)) = tally (ru_objects rt)"
  "sh_state (ru_shared (client_control env obj t l loc LEASE_RELEASE_ACTION_ID now rt)) = sh_state (ru_shared rt)"
  by (auto simp: client_control_def object_control_def tally_release demo_ids next_request_def fetch_next_def call_frame
      split: prod.split sum.split option.split)

lemma drop_lease_frame:
  "tally (ru_objects (drop_lease env a now rt)) = tally (ru_objects rt)"
  "sh_state (ru_shared (drop_lease env a now rt)) = sh_state (ru_shared rt)"
  by (simp_all add: drop_lease_def Let_def client_control_release split: prod.split)

lemma mf_finish_effect:
  assumes "mf_finish env outcome now (rt, mf) = (rt', mf')" "mf_service mf"
  shows "tally (ru_objects rt') = settled (mp_migration (mf_packet mf)) outcome (tally (ru_objects rt))"
    "sh_state (ru_shared rt') = sh_state (ru_shared rt)"
    "mf' = mf\<lparr>mf_service := False, mf_client := False, mf_lease := None\<rparr>"
  using assms by (auto simp: mf_finish_def Let_def tally_finish drop_lease_frame split: option.splits)

text \<open>A migration that is under way: the step it waits for, what was decided, and what it still holds.\<close>

definition mig_open :: "migration_future \<Rightarrow> bool" where
  "mig_open mf \<longleftrightarrow> mf_service mf \<and> mf_client mf
     \<and> (case state_future (mf_state mf) of None \<Rightarrow> False | Some f \<Rightarrow> \<not> rf_finished f)
     \<and> (mf_committed mf \<longleftrightarrow> (\<exists>f. mf_state mf = MsActivate f \<or> mf_state mf = MsRetire f))
     \<and> (mf_prepared mf = None \<longrightarrow> \<not> mf_committed mf \<and> (\<nexists>f. mf_state mf = MsCommit f))"

text \<open>A state whose step has been answered, or that waits for nothing.\<close>

definition spent :: "migration_state \<Rightarrow> bool" where
  "spent st \<longleftrightarrow> st = MsDone \<or> (\<exists>f. state_future st = Some f \<and> rf_finished f)"

lemma spent_simps [simp]: "spent MsDone" "spent (MsRollbackSource f err d) \<longleftrightarrow> rf_finished f"
  by (simp_all add: spent_def state_future_def)

text \<open>How a round of the loop, and a whole poll, may leave a migration that was under way.\<close>

definition mig_ended ::
  "request_id \<Rightarrow> request_id list \<times> u64 \<times> u64 \<times> u64 \<Rightarrow> ('v, 'n, 's) runtime \<times> migration_future
     \<Rightarrow> (runtime_error, migration_report) result \<Rightarrow> bool"
where
  "mig_ended m t s res \<longleftrightarrow> (case s of (rt, mf) \<Rightarrow> \<not> mf_service mf \<and> spent (mf_state mf) \<and>
     (\<exists>outcome. tally (ru_objects rt) = settled m outcome t
        \<and> (outcome = MgCompleted \<longleftrightarrow> (\<exists>report. res = Ok report \<and> mf_committed mf \<and> Some (mr_to report) = mf_prepared mf))
        \<and> (outcome = MgRolledBack \<longrightarrow> \<not> mf_committed mf)
        \<and> (outcome = MgFailed \<longrightarrow> mf_committed mf \<longrightarrow> sh_state (ru_shared rt) = StFailed)
        \<and> ((\<exists>report. res = Ok report) \<longrightarrow> outcome = MgCompleted)))"

definition mig_result ::
  "('v, 'n, 's) runtime \<Rightarrow> ('v, 'n, 's) mig_round \<Rightarrow> bool"
where
  "mig_result rt = (\<lambda>((rt', mf'), r).
     (case r of
        Some (Inr (Ready res)) \<Rightarrow> mig_ended (mp_migration (mf_packet mf')) (tally (ru_objects rt)) (rt', mf') res
      | Some (Inl err) \<Rightarrow> False
      | _ \<Rightarrow> mig_open mf' \<and> tally (ru_objects rt') = tally (ru_objects rt)))"

lemma submit_call_panic: "submit_call env pl input m token trace s = (s', Err Panic) \<Longrightarrow> token = None \<and> pl_locality pl = sh_local_id s"
  by (auto simp: submit_call_def split: prod.splits sum.splits option.splits if_splits)

lemma issue_call_encoded:
  "snd (issue_call env pl a (AvEncoded payload) opts ms request now s) \<noteq> Err Panic"
  "snd (issue_call env pl a (AvEncoded payload) opts ms request now s) = Ok f \<Longrightarrow> \<not> rf_finished f"
  by (auto simp: issue_call_def call_payload_def remote_future_new_def Let_def
      split: prod.splits sum.splits if_splits dest!: submit_call_panic)

lemma spawn_encoded_outcome:
  "snd (spawn_encoded env pl a payload opts request now rt) \<noteq> Err Panic"
  "snd (spawn_encoded env pl a payload opts request now rt) = Ok f \<Longrightarrow> \<not> rf_finished f"
  by (auto simp: spawn_encoded_def on_shared_def on_server_def spawn_inner_def issue_call_encoded is_typed_def split_beta
      split: prod.splits sum.splits option.splits if_splits)

lemma migration_step_fresh: "migration_step env pl action p now rt = (rt', Ok f) \<Longrightarrow> \<not> rf_finished f"
  by (auto simp: migration_step_def packet_encode_def split: sum.splits dest!: arg_cong [where f = snd] spawn_encoded_outcome(2))

lemma migration_step_cases:
  obtains rt' f where "migration_step env pl action p now rt = (rt', Ok f)" "\<not> rf_finished f" "ru_objects rt' = ru_objects rt"
  | rt' err where "migration_step env pl action p now rt = (rt', Err (Fail err))" "ru_objects rt' = ru_objects rt"
proof -
  obtain rt' r where s: "migration_step env pl action p now rt = (rt', r)" by force
  have objs: "ru_objects rt' = ru_objects rt" by (rule migration_step_objects [OF s])
  show thesis
  proof (cases r)
    case (Inr f)
    then have "\<not> rf_finished f" using s migration_step_fresh by blast
    with s Inr objs show thesis by (auto intro: that(1))
  next
    case (Inl e)
    then have "e \<noteq> Panic"
      using s by (auto simp: migration_step_def packet_encode_def spawn_encoded_outcome split: sum.splits dest!: arg_cong [where f = snd])
    with s Inl objs show thesis by (cases e) (auto intro: that(2))
  qed
qed

lemma mig_send_result:
  assumes "mf_client mf"
    and "\<And>rt' f. \<not> rf_finished f \<Longrightarrow> ru_objects rt' = ru_objects rt \<Longrightarrow> mig_result rt0 ((rt', mf\<lparr>mf_state := st f\<rparr>), None)"
    and "\<And>rt' err. ru_objects rt' = ru_objects rt \<Longrightarrow> mig_result rt0 (failed (rt', mf) err)"
  shows "mig_result rt0 (mig_send env pl action p now st failed (rt, mf))"
  by (rule migration_step_cases [of env pl action p now rt]) (use assms in \<open>auto simp: mig_send_def\<close>)

lemma mig_result_stay:
  "mig_result rt0 ((rt, mf), None) \<longleftrightarrow> mig_open mf \<and> tally (ru_objects rt) = tally (ru_objects rt0)"
  "mig_result rt0 ((rt, mf), Some (Ok PollPending)) \<longleftrightarrow> mig_open mf \<and> tally (ru_objects rt) = tally (ru_objects rt0)"
  "mig_result rt0 (mig_return (rt, mf) res) \<longleftrightarrow> mig_ended (mp_migration (mf_packet mf)) (tally (ru_objects rt0)) (rt, mf) res"
  by (simp_all add: mig_result_def mig_return_def)

text \<open>The three ways to end.\<close>

lemma mig_end_unfinished:
  assumes "mf_service mf" "spent (mf_state mf)" "tally (ru_objects rt) = t" "outcome = MgRolledBack \<and> \<not> mf_committed mf
      \<or> outcome = MgFailed \<and> (mf_committed mf \<longrightarrow> sh_state (ru_shared rt) = StFailed)"
    and "mf_finish env outcome now (rt, mf) = (rt', mf')"
  shows "mig_ended (mp_migration (mf_packet mf')) t (rt', mf'\<lparr>mf_state := MsDone\<rparr>) (Err err)"
    "mig_ended (mp_migration (mf_packet mf')) t (rt', mf') (Err err)"
  unfolding mig_ended_def using mf_finish_effect [OF assms(5,1)] assms(2-4)
  by (auto intro!: exI [of _ outcome])

lemma mig_finish_result:
  assumes "mf_service mf" "spent (mf_state mf)" "tally (ru_objects rt) = tally (ru_objects rt0)" "outcome = MgRolledBack \<and> \<not> mf_committed mf
      \<or> outcome = MgFailed \<and> (mf_committed mf \<longrightarrow> sh_state (ru_shared rt) = StFailed)"
  shows "mig_result rt0 (mig_return (mf_finish env outcome now (rt, mf)) (Err err))"
    "mig_result rt0 (case mf_finish env outcome now (rt, mf) of (rt1, mf1) \<Rightarrow> mig_return (rt1, mf1\<lparr>mf_state := MsDone\<rparr>) (Err err))"
  using mig_end_unfinished [OF assms prod.collapse [symmetric], of env now] by (simp_all add: mig_result_stay split_beta mig_return_def mig_result_def)

lemma start_rollback_result:
  assumes "mf_service mf" "spent (mf_state mf)" "mf_client mf" "\<not> mf_committed mf" "tally (ru_objects rt) = tally (ru_objects rt0)"
  shows "mig_result rt0 (start_rollback env show clock d (rt, mf) err)"
  unfolding start_rollback_def prod.case
  by (rule mig_send_result) (use assms in \<open>auto simp: mig_result_stay mig_open_def state_future_def intro!: mig_finish_result\<close>)

lemma committed_failure_result:
  assumes "mf_service mf" "spent (mf_state mf)" "mf_client mf" "tally (ru_objects rt) = tally (ru_objects rt0)"
  shows "mig_result rt0 (committed_failure env show clock (rt, mf) err)"
  using assms by (auto simp: committed_failure_def fail_committed_migration_def set_state_def on_shared_def on_server_def intro!: mig_finish_result)

lemma migration_completed_result:
  assumes "mf_service mf" "spent (mf_state mf)" "mf_committed mf" "mf_prepared mf \<noteq> None" "tally (ru_objects rt) = tally (ru_objects rt0)"
  shows "mig_result rt0 (migration_completed env clock (rt, mf))"
proof -
  obtain l where l: "mf_prepared mf = Some l" using assms(4) by blast
  let ?rt = "rt\<lparr>ru_objects := cache_location (mp_object (mf_packet mf)) l (ru_objects rt)\<rparr>"
  obtain rt' mf' where f: "mf_finish env MgCompleted (clock 2) (?rt, mf) = (rt', mf')" by force
  show ?thesis
    using mf_finish_effect [OF f assms(1)] assms l f
    by (auto simp: migration_completed_def mig_result_stay mig_ended_def intro!: exI [of _ MgCompleted])
qed

lemmas mig_arm = mig_result_stay mig_open_def state_future_def

lemma on_frozen_result:
  assumes "mf_service mf" "spent (mf_state mf)" "mf_client mf" "\<not> mf_committed mf" "tally (ru_objects rt) = tally (ru_objects rt0)"
  shows "mig_result rt0 (on_frozen env show clock p (rt, mf))"
proof (cases "checked_total (mp_snapshot p)")
  case None
  with assms show ?thesis by (simp add: on_frozen_def start_rollback_result)
next
  case (Some n)
  show ?thesis unfolding on_frozen_def Some prod.case option.case
    by (rule mig_send_result) (use assms in \<open>auto simp: mig_arm intro!: start_rollback_result\<close>)
qed

lemma on_freeze_error_result:
  assumes "mf_service mf" "spent (mf_state mf)" "mf_client mf" "\<not> mf_committed mf" "tally (ru_objects rt) = tally (ru_objects rt0)"
  shows "mig_result rt0 (on_freeze_error env show clock err (rt, mf))"
proof (cases "\<exists>obj l. err = ReMoved obj l \<and> obj = mp_object (mf_packet mf) \<and> loc_epoch (mp_from (mf_packet mf)) < loc_epoch l
    \<and> mf_redirects mf < redirect_limit rt")
  case True
  then obtain obj l where err: "err = ReMoved obj l" "obj = mp_object (mf_packet mf)" "loc_epoch (mp_from (mf_packet mf)) < loc_epoch l"
      "mf_redirects mf < redirect_limit rt" by blast
  show ?thesis
    unfolding on_freeze_error_def err(1) Let_def prod.case runtime_error.case using assms err(2-4)
    by (simp, intro mig_send_result) (auto simp: mig_arm intro!: mig_finish_result)
next
  case False
  with assms mig_finish_result(2) [where mf = mf and rt = rt and outcome = MgRolledBack
      and env = env and now = "clock 2" and err = "migration_error show mf err"] show ?thesis
    by (auto simp: on_freeze_error_def Let_def split: runtime_error.split)
qed

lemma on_prepared_result:
  assumes "mf_service mf" "spent (mf_state mf)" "mf_client mf" "\<not> mf_committed mf" "tally (ru_objects rt) = tally (ru_objects rt0)"
  shows "mig_result rt0 (on_prepared env show clock p (rt, mf))"
  unfolding on_prepared_def prod.case
  by (rule mig_send_result) (use assms in \<open>auto simp: mig_arm intro!: start_rollback_result\<close>)

lemma on_committed_result:
  assumes "mf_service mf" "spent (mf_state mf)" "mf_client mf" "mf_prepared mf \<noteq> None" "tally (ru_objects rt) = tally (ru_objects rt0)"
  shows "mig_result rt0 (on_committed env show clock p (rt, mf))"
  unfolding on_committed_def prod.case
  by (rule mig_send_result) (use assms in \<open>auto simp: mig_arm intro!: committed_failure_result\<close>)

lemma on_activated_result:
  assumes "mf_service mf" "spent (mf_state mf)" "mf_client mf" "mf_prepared mf \<noteq> None" "mf_committed mf" "tally (ru_objects rt) = tally (ru_objects rt0)"
  shows "mig_result rt0 (on_activated env show clock p (rt, mf))"
proof (cases "loc_locality (mf_original mf) = loc_locality (mp_from p)")
  case True
  with assms show ?thesis by (simp add: on_activated_def Let_def migration_completed_result)
next
  case False
  then show ?thesis unfolding on_activated_def prod.case Let_def
    by (simp, intro mig_send_result) (use assms in \<open>auto simp: mig_arm intro!: committed_failure_result\<close>)
qed

lemma rollback_failed_result:
  assumes "mf_service mf" "spent (mf_state mf)" "\<not> mf_committed mf" "tally (ru_objects rt) = tally (ru_objects rt0)"
  shows "mig_result rt0 (rollback_failed env show clock w err e (rt, mf))" "mig_result rt0 (rolled_back env clock err (rt, mf))"
  using assms by (auto simp: rollback_failed_def rolled_back_def intro!: mig_finish_result)

lemma rollback_destination_result:
  assumes "mf_service mf" "spent (mf_state mf)" "mf_client mf" "\<not> mf_committed mf" "tally (ru_objects rt) = tally (ru_objects rt0)"
  shows "mig_result rt0 (mig_send env pl action p now (\<lambda>f. MsRollbackDestination f err)
    (\<lambda>s _. mig_return (mf_finish env MgFailed (clock 2) s) (Err err)) (rt, mf))"
  by (rule mig_send_result) (use assms in \<open>auto simp: mig_arm intro!: mig_finish_result\<close>)

lemma poll_remote_open:
  assumes "\<not> rf_finished f" "poll_remote env rd f rt = (rt', f', r)"
  obtains res where "r = Ok (Ready res)" "rf_finished f'" | "r = Ok PollPending" "f' = f"
  using assms
  by (auto simp: poll_remote_def future_poll_def Let_def split: prod.splits poll.splits sum.splits action_value.splits)

lemma mig_await_result:
  assumes "\<not> rf_finished f" "mig_open (mf\<lparr>mf_state := st f\<rparr>)" "\<And>g. state_future (st g) = Some g"
    and "\<And>rt' f' p. ru_objects rt' = ru_objects rt \<Longrightarrow> spent (st f') \<Longrightarrow> mig_result rt (done_ok p (rt', mf\<lparr>mf_state := st f'\<rparr>))"
    and "\<And>rt' f' err. ru_objects rt' = ru_objects rt \<Longrightarrow> spent (st f') \<Longrightarrow> mig_result rt (done_err err (rt', mf\<lparr>mf_state := st f'\<rparr>))"
  shows "mig_result rt (mig_await env rd f st done_ok done_err (rt, mf))"
proof -
  obtain rt' f' r where p: "poll_remote env rd f rt = (rt', f', r)" by (metis prod_cases3)
  have objs: "ru_objects rt' = ru_objects rt" by (rule poll_remote_objects [OF p])
  show ?thesis
  proof (rule poll_remote_open [OF assms(1) p])
    fix res assume "r = Ok (Ready res)" "rf_finished f'"
    moreover from this have "spent (st f')" using assms(3) by (simp add: spent_def)
    ultimately show ?thesis using assms(4,5) [OF objs] by (cases res) (simp_all add: mig_await_def p)
  next
    assume "r = Ok PollPending" "f' = f"
    then show ?thesis using assms(2) objs by (simp add: mig_await_def p mig_result_stay)
  qed
qed

lemma migration_round_result:
  assumes "mig_open mf"
  shows "mig_result rt (migration_round env rd show clock (rt, mf))"
proof -
  obtain f where f: "state_future (mf_state mf) = Some f" "\<not> rf_finished f" "mf_service mf" "mf_client mf"
    using assms by (auto simp: mig_open_def split: option.splits)
  have same: "mf_state mf = st \<Longrightarrow> mf\<lparr>mf_state := st\<rparr> = mf" for st by auto
  show ?thesis
  proof (cases "mf_state mf")
    case (MsFreeze g)
    then have st: "\<not> mf_committed mf" "g = f" using assms f by (auto simp: mig_open_def state_future_def)
    show ?thesis unfolding migration_round_def Let_def prod.case MsFreeze migration_state.case
      by (intro mig_await_result) (use assms f st same [OF MsFreeze] in \<open>auto simp: state_future_def intro!: on_frozen_result on_freeze_error_result\<close>)
  next
    case (MsPrepare g)
    then have st: "\<not> mf_committed mf" "g = f" using assms f by (auto simp: mig_open_def state_future_def)
    show ?thesis unfolding migration_round_def Let_def prod.case MsPrepare migration_state.case
      by (intro mig_await_result) (use assms f st same [OF MsPrepare] in \<open>auto simp: state_future_def intro!: on_prepared_result start_rollback_result\<close>)
  next
    case (MsCommit g)
    then have st: "\<not> mf_committed mf" "g = f" "mf_prepared mf \<noteq> None" using assms f by (auto simp: mig_open_def state_future_def)
    show ?thesis unfolding migration_round_def Let_def prod.case MsCommit migration_state.case
      by (intro mig_await_result) (use assms f st same [OF MsCommit] in \<open>auto simp: state_future_def intro!: on_committed_result start_rollback_result\<close>)
  next
    case (MsActivate g)
    then have st: "mf_committed mf" "g = f" "mf_prepared mf \<noteq> None" using assms f by (auto simp: mig_open_def state_future_def)
    show ?thesis unfolding migration_round_def Let_def prod.case MsActivate migration_state.case
      by (intro mig_await_result) (use assms f st same [OF MsActivate] in \<open>auto simp: state_future_def intro!: on_activated_result committed_failure_result\<close>)
  next
    case (MsRetire g)
    then have st: "mf_committed mf" "g = f" "mf_prepared mf \<noteq> None" using assms f by (auto simp: mig_open_def state_future_def)
    show ?thesis unfolding migration_round_def Let_def prod.case MsRetire migration_state.case
      by (intro mig_await_result) (use assms f st same [OF MsRetire] in \<open>auto simp: state_future_def intro!: migration_completed_result committed_failure_result\<close>)
  next
    case (MsRollbackSource g err d)
    then have st: "\<not> mf_committed mf" "g = f" using assms f by (auto simp: mig_open_def state_future_def)
    show ?thesis unfolding migration_round_def Let_def prod.case MsRollbackSource migration_state.case
      by (intro mig_await_result)
        (use assms f st same [OF MsRollbackSource] in \<open>simp_all add: state_future_def rollback_failed_result rollback_destination_result\<close>)
  next
    case (MsRollbackDestination g err)
    then have st: "\<not> mf_committed mf" "g = f" using assms f by (auto simp: mig_open_def state_future_def)
    show ?thesis unfolding migration_round_def Let_def prod.case MsRollbackDestination migration_state.case
      by (intro mig_await_result) (use assms f st same [OF MsRollbackDestination] in \<open>simp_all add: state_future_def rollback_failed_result\<close>)
  qed (use f in \<open>auto simp: state_future_def\<close>)
qed

lemma migration_poll_result:
  "mig_open mf \<Longrightarrow> migration_poll env rd show clock (rt, mf) = (s, r) \<Longrightarrow> mig_result rt (s, Some r)"
proof (induction env rd "show" clock "(rt, mf)" arbitrary: rt mf rule: migration_poll.induct)
  case (1 env rd shw clock rt mf)
  obtain rt1 mf1 q where rnd: "migration_round env rd shw clock (rt, mf) = ((rt1, mf1), q)" by (metis prod.collapse)
  have res: "mig_result rt ((rt1, mf1), q)" using migration_round_result [OF "1.prems"(1), of rt env rd shw clock] rnd by simp
  show ?case
  proof (cases q)
    case None
    then have "mig_open mf1" "tally (ru_objects rt1) = tally (ru_objects rt)" using res by (simp_all add: mig_result_stay)
    with "1.hyps" [OF rnd [symmetric] None] "1.prems"(2) rnd None show ?thesis
      by (subst (asm) migration_poll.simps) (auto simp: mig_result_def split: sum.splits poll.splits)
  next
    case (Some r')
    with "1.prems"(2) rnd res show ?thesis by (subst (asm) migration_poll.simps) simp
  qed
qed

text \<open>A migration that has ended stays as it is.\<close>

lemma poll_remote_finished: "rf_finished f \<Longrightarrow> poll_remote env rd f rt = (rt', f', r) \<Longrightarrow> r = Err Panic \<and> ru_objects rt' = ru_objects rt \<and> f' = f"
  by (auto simp: poll_remote_def future_poll_def Let_def)

lemma mig_await_finished:
  assumes "rf_finished f" "mig_await env rd f st done_ok done_err (rt, mf) = (s, q)" "mf_state mf = st f"
  shows "q = Some (Err Panic) \<and> ru_objects (fst s) = ru_objects rt \<and> snd s = mf"
proof -
  have "mf\<lparr>mf_state := st f\<rparr> = mf" using assms(3) by simp
  with assms(1,2) show ?thesis
    by (cases "poll_remote env rd f rt") (auto simp: mig_await_def mig_panic_def dest!: poll_remote_finished)
qed

lemma migration_poll_spent:
  assumes "spent (mf_state mf)" "migration_poll env rd show clock (rt, mf) = ((rt', mf'), r)"
  shows "mf' = mf \<and> ru_objects rt' = ru_objects rt \<and> (\<nexists>report. r = Ok (Ready (Ok report))) \<and> r \<noteq> Ok PollPending"
proof -
  obtain s q where rnd: "migration_round env rd show clock (rt, mf) = (s, q)" by (metis prod.collapse)
  have "snd s = mf \<and> ru_objects (fst s) = ru_objects rt \<and>
      (q = Some (Err Panic) \<or> q = Some (Ok (Ready (Err (ReProtocol (lit ''migration future polled after completion''))))))"
    using rnd assms(1)
    by (cases "mf_state mf") (auto simp: spent_def state_future_def migration_round_def mig_return_def Let_def dest!: mig_await_finished)
  then show ?thesis using assms(2) rnd by (subst (asm) migration_poll.simps) auto
qed

text \<open>The polls a migration gets, each with its clock and the runtime as it is then.\<close>

fun mig_polls ::
  "'n env \<Rightarrow> ('v, migration_packet) reader \<Rightarrow> (runtime_error \<Rightarrow> bytes) \<Rightarrow> ((nat \<Rightarrow> instant) \<times> ('v, 'n, 's) runtime) list
     \<Rightarrow> migration_future \<Rightarrow> migration_future"
where
  "mig_polls env rd show [] mf = mf"
| "mig_polls env rd show ((clock, rt) # ps) mf = mig_polls env rd show ps (snd (fst (migration_poll env rd show clock (rt, mf))))"

definition mig_closed :: "migration_future \<Rightarrow> bool" where
  "mig_closed mf \<longleftrightarrow> \<not> mf_service mf \<and> spent (mf_state mf)"

lemma mig_polls_open:
  "mig_open mf \<or> mig_closed mf \<Longrightarrow> mig_open (mig_polls env rd show ps mf) \<or> mig_closed (mig_polls env rd show ps mf)"
proof (induction ps arbitrary: mf)
  case (Cons p ps)
  obtain clock rt where p: "p = (clock, rt)" by force
  obtain rt' mf' r where run: "migration_poll env rd show clock (rt, mf) = ((rt', mf'), r)" by (metis prod.collapse)
  have "mig_open mf' \<or> mig_closed mf'"
    using Cons.prems
  proof
    assume "mig_open mf"
    from migration_poll_result [OF this run] show ?thesis
      by (auto simp: mig_result_def mig_ended_def mig_closed_def split: sum.splits poll.splits)
  next
    assume "mig_closed mf"
    then show ?thesis using migration_poll_spent [OF _ run] by (auto simp: mig_closed_def)
  qed
  with Cons.IH p run show ?case by simp
qed simp

lemma migrate_open:
  "migrate env r destination now rt = (rt', Ok mf) \<Longrightarrow> mf_service mf \<Longrightarrow> mig_open mf"
  by (auto simp: migrate_def Let_def migration_future_ready_def migration_future_new_def mig_open_def state_future_def
      split: sum.splits prod.splits if_splits fault.splits dest: migration_step_fresh)

lemma future_release_objects: "ru_objects (future_release env f rt) = ru_objects rt"
  by (simp add: future_release_def on_shared_def on_server_def)

lemma mf_finish_tally:
  "mf_service mf \<Longrightarrow> tally (ru_objects (fst (mf_finish env outcome now (rt, mf)))) = settled (mp_migration (mf_packet mf)) outcome (tally (ru_objects rt))"
  using mf_finish_effect(1) [OF prod.collapse [symmetric]] by blast

lemma migration_drop_tally:
  "tally (ru_objects (migration_drop env now mf rt)) =
     (if mf_service mf
      then settled (mp_migration (mf_packet mf)) (if mf_committed mf then MgFailed else MgRolledBack) (tally (ru_objects rt))
      else tally (ru_objects rt))"
proof -
  have "ru_objects (fail_committed_migration rt) = ru_objects rt"
    by (simp add: fail_committed_migration_def set_state_def on_shared_def on_server_def)
  then show ?thesis by (simp add: migration_drop_def Let_def future_release_objects mf_finish_tally split: option.split)
qed

text \<open>The migration is on the list of active ones when its future is handed out, and was not before.\<close>

lemma migrate_begins:
  assumes "migrate env r destination now rt = (rt', Ok mf)" "mf_service mf"
  shows "os_active_migrations (ru_objects rt') = mp_migration (mf_packet mf) # os_active_migrations (ru_objects rt)
    \<and> mp_migration (mf_packet mf) \<notin> set (os_active_migrations (ru_objects rt))"
  using assms
  by (auto simp: migrate_def Let_def migration_future_ready_def migration_future_new_def begin_migration_def on_shared_def on_server_def
      split: sum.splits prod.splits if_splits fault.splits dest!: migration_step_objects)

lemma freeze_state_Ok:
  assumes "freeze_state frz p e sv = (sv', Ok p')"
  shows "\<exists>es es' snap n. oe_state e = Some es \<and> frz es = (es', Ok snap) \<and> p' = p\<lparr>mp_snapshot := snap\<rparr>
    \<and> sv' = put_entry (mp_object p) (e\<lparr>oe_state := Some es', oe_snapshot_bytes := n\<rparr>) sv"
  using assms by (auto simp: freeze_state_def Let_def split: option.splits sum.splits prod.splits fault.splits)

lemma freeze_migration_Ok:
  assumes "freeze_migration p now sv = (sv', Ok p')"
  shows "\<exists>e r frz es es' snap n m. hm_get (os_entries sv) (mp_object p) = Some e \<and> oe_location e = mp_from p
    \<and> oe_authority e = mp_authority p \<and> oe_object_type e = mp_object_type p
    \<and> hm_get (or_types (os_registry sv)) (mp_object_type p) = Some r \<and> otr_freezer r = Some frz
    \<and> oe_state e = Some es \<and> frz es = (es', Ok snap) \<and> p' = p\<lparr>mp_snapshot := snap\<rparr>
    \<and> sv' = put_entry (mp_object p) (e\<lparr>oe_lifecycle := LcFreezing (mp_migration p) m, oe_state := Some es', oe_snapshot_bytes := n\<rparr>) sv"
proof -
  from assms obtain e r frz where e: "hm_get (os_entries sv) (mp_object p) = Some e" "oe_location e = mp_from p"
      "oe_authority e = mp_authority p" "oe_object_type e = mp_object_type p"
      "hm_get (or_types (os_registry sv)) (mp_object_type p) = Some r" "otr_freezer r = Some frz"
    unfolding freeze_migration_def entry_for_migration_def by (auto split: option.splits if_splits)
  have same: "oe_lifecycle e = c \<Longrightarrow> e\<lparr>oe_lifecycle := c\<rparr> = e" for c by auto
  have "\<exists>m. freeze_state frz p (e\<lparr>oe_lifecycle := LcFreezing (mp_migration p) m\<rparr>) sv = (sv', Ok p')"
  proof (cases "oe_lifecycle e")
    case LcResident
    with assms e show ?thesis by (auto simp: freeze_migration_def entry_for_migration_def split: if_splits)
  next
    case (LcFreezing k m)
    with assms e have "k = mp_migration p" "freeze_state frz p e sv = (sv', Ok p')"
      by (auto simp: freeze_migration_def entry_for_migration_def split: if_splits)
    with same [OF LcFreezing] show ?thesis by (intro exI [of _ m]) simp
  qed (use assms e in \<open>auto simp: freeze_migration_def entry_for_migration_def split: if_splits\<close>)
  then obtain m where "freeze_state frz p (e\<lparr>oe_lifecycle := LcFreezing (mp_migration p) m\<rparr>) sv = (sv', Ok p')" by blast
  from freeze_state_Ok [OF this] e show ?thesis by auto (intro exI, rule refl)
qed

text \<open>Every step answers with a packet of the migration it was asked for.\<close>

lemma steps_keep_migration:
  "freeze_migration p now sv = (sv', Ok p') \<Longrightarrow> mp_migration p' = mp_migration p"
  "prepare_migration p now sv = (sv', Ok p') \<Longrightarrow> mp_migration p' = mp_migration p"
  "commit_migration p now sv = (sv', Ok p') \<Longrightarrow> mp_migration p' = mp_migration p"
  "activate_migration p sv = (sv', Ok p') \<Longrightarrow> mp_migration p' = mp_migration p"
  "retire_migration p now sv = (sv', Ok p') \<Longrightarrow> mp_migration p' = mp_migration p"
  "rollback_migration p sv = (sv', Ok p') \<Longrightarrow> mp_migration p' = mp_migration p"
proof -
  show "prepare_migration p now sv = (sv', Ok p') \<Longrightarrow> mp_migration p' = mp_migration p"
    by (auto simp: prepare_migration_def prepare_install_def Let_def split: if_splits sum.splits option.splits)
  show "freeze_migration p now sv = (sv', Ok p') \<Longrightarrow> mp_migration p' = mp_migration p"
    using freeze_migration_Ok [of p now sv sv' p'] by auto
qed (auto simp: commit_migration_def activate_migration_def retire_migration_def rollback_migration_def Let_def
    split: if_splits sum.splits option.splits prod.splits)

text \<open>
  C35. However often the future of a migration is polled, the migration \<open>m\<close> that \<open>migrate\<close> put on the list of
  active ones is settled with the object service exactly once. While it is under way a poll never panics, and
  either leaves the service's books alone or ends the migration, taking \<open>m\<close> off the list and counting it under
  exactly one outcome: completed precisely when the caller gets a report, whose location is the one prepared
  at the destination; rolled back only if the coordinator has not received the answer to the commit - which
  does not mean that the commit did not happen, see C37; and failed after that answer only with the runtime
  failed. After that polls change nothing. Dropping the future settles a migration still under way, and no
  other. The packets the steps answered with carry \<open>m\<close>, which every step sees to (\<open>steps_keep_migration\<close>) and
  the coordinator does not check.
\<close>

theorem migration_settled_once:
  assumes "migrate env r destination now rt0 = (rt1, Ok mf0)" "mf_service mf0" "mf = mig_polls env rd show ps mf0"
    and "migration_poll env rd show clock (rt, mf) = ((rt', mf'), res)"
    and "mp_migration (mf_packet mf0) = m" "mp_migration (mf_packet mf) = m" "mp_migration (mf_packet mf') = m"
  shows "m \<in> set (os_active_migrations (ru_objects rt1)) \<and> m \<notin> set (os_active_migrations (ru_objects rt0))
   \<and> (if mf_service mf
     then res = Ok PollPending \<and> mf_service mf' \<and> tally (ru_objects rt') = tally (ru_objects rt)
       \<or> (\<exists>out. res = Ok (Ready out) \<and> mig_ended m (tally (ru_objects rt)) (rt', mf') out)
     else mf' = mf \<and> tally (ru_objects rt') = tally (ru_objects rt) \<and> (\<nexists>report. res = Ok (Ready (Ok report))))
   \<and> tally (ru_objects (migration_drop env now' mf rt)) =
     (if mf_service mf
      then settled m (if mf_committed mf then MgFailed else MgRolledBack) (tally (ru_objects rt))
      else tally (ru_objects rt))"
proof (cases "mf_service mf")
  case True
  then have "mig_open mf"
    using mig_polls_open [of mf0 env rd "show" ps] migrate_open [OF assms(1,2)] assms(3) by (auto simp: mig_closed_def)
  from migration_poll_result [OF this assms(4)] True assms(5-) migrate_begins [OF assms(1,2)] show ?thesis
    by (auto simp: mig_result_def mig_open_def migration_drop_tally split: sum.splits poll.splits)
next
  case False
  then have "spent (mf_state mf)"
    using mig_polls_open [of mf0 env rd "show" ps] migrate_open [OF assms(1,2)] assms(3) by (auto simp: mig_closed_def mig_open_def)
  from migration_poll_spent [OF this assms(4)] False assms(5-) migrate_begins [OF assms(1,2)] show ?thesis by (simp add: migration_drop_tally)
qed

subsection \<open>What the steps do to the object\<close>

text \<open>
  The first three steps of a migration whose source is the authority of the object, up to the point of no
  return: the freeze at the source, the preparation at the destination, the commit at the source. (Where the
  authority is a third locality the commit runs there and the retirement frees the source; the operations
  are the same, that arrangement is not composed here.)
\<close>

definition mig_committed ::
  "migration_packet \<Rightarrow> (nat \<Rightarrow> instant) \<Rightarrow> ('v, 's) object_service \<Rightarrow> ('v, 's) object_service
     \<Rightarrow> ('v, 's) object_service \<Rightarrow> ('v, 's) object_service \<Rightarrow> migration_packet \<Rightarrow> bool"
where
  "mig_committed p nows src dst src' dst' p' \<longleftrightarrow>
     (\<exists>src1 p1 p2. freeze_migration p (nows 0) src = (src1, Ok p1) \<and> prepare_migration p1 (nows 1) dst = (dst', Ok p2)
        \<and> commit_migration p2 (nows 2) src1 = (src', Ok p'))"

lemma checked_next: "checked_add_u64 a 1 = Some b \<Longrightarrow> unat b = Suc (unat a)"
  by (auto simp: checked_add_u64_def unat_word_ariths split: if_splits)

lemma prepare_install_new:
  assumes "prepare_install p location n st now sv = (sv', Ok p')" "hm_get (os_entries sv) (mp_object p) = None"
  shows "p' = p\<lparr>mp_snapshot := [], mp_from := location\<rparr>
    \<and> sv' = put_entry (mp_object p) ((prepare_entry p now sv)\<lparr>oe_prepared := Some \<lparr>pp_migration = mp_migration p, pp_location = location,
        pp_state = st, pp_snapshot_bytes = n, pp_expires_at = now + ol_forwarding_ttl (os_limits sv)\<rparr>\<rparr>)
      (put_entry (mp_object p) (prepare_entry p now sv) sv)"
proof -
  have "oe_prepared (prepare_entry p now sv) = None" "oe_object_type (prepare_entry p now sv) = mp_object_type p"
      "oe_authority (prepare_entry p now sv) = mp_authority p"
    using assms(2) by (simp_all add: prepare_entry_def)
  with assms show ?thesis by (simp add: prepare_install_def Let_def split: if_splits)
qed

lemma prepare_migration_stages:
  assumes "prepare_migration p now sv = (sv', Ok p')"
  obtains r restore st location n sv1 where "hm_get (or_types (os_registry sv)) (mp_object_type p) = Some r" "otr_restorer r = Some restore"
    "restore (mp_snapshot p) (mp_destination p) = Ok st" "unat (loc_epoch location) = Suc (unat (loc_epoch (mp_from p)))"
    "loc_locality location = os_local_id sv" "loc_domain location = pl_domain (mp_destination p)"
    "os_entries sv1 = os_entries sv" "os_limits sv1 = os_limits sv"
    "prepare_install p location n st now sv1 = (sv', Ok p')"
proof -
  from assms obtain r n epoch location slot restore st where ok:
      "hm_get (or_types (os_registry sv)) (mp_object_type p) = Some r" "otr_restorer r = Some restore"
      "restore (mp_snapshot p) (mp_destination p) = Ok st" "checked_add_u64 (loc_epoch (mp_from p)) 1 = Some epoch"
      "object_location_new (os_local_id sv) (pl_domain (mp_destination p)) (os_next_slot sv) 1 epoch = Ok location"
      "prepare_install p location n st now (sv\<lparr>os_prepared_count := os_prepared_count sv + 1, os_next_slot := slot\<rparr>) = (sv', Ok p')"
    unfolding prepare_migration_def Let_def by (auto split: if_splits sum.splits option.splits)
  show thesis
    by (rule that [OF ok(1-3) _ _ _ _ _ ok(6)])
      (use checked_next [OF ok(4)] ok(5) in \<open>auto simp: object_location_new_def split: if_splits\<close>)
qed

lemma commit_migration_Ok:
  assumes "commit_migration p now sv = (sv', Ok p')" "hm_get (os_entries sv) (mp_object p) = Some e"
  shows "p' = p \<and> mp_authority p = os_local_id sv
    \<and> sv' = cache_location (mp_object p) (mp_from p) (put_entry (mp_object p) (e\<lparr>oe_location := mp_from p,
        oe_lifecycle := LcForwarding (mp_from p) (now + ol_forwarding_ttl (os_limits sv))\<rparr>) sv)"
  using assms by (auto simp: commit_migration_def entry_for_migration_def split: if_splits)

text \<open>What the three steps leave: the object forwarded at the source, prepared and not yet visible at the destination.\<close>

lemma mig_committed_effect:
  assumes "mig_committed p nows src dst src' dst' p'" "hm_get (os_entries dst) (mp_object p) = None"
  obtains e r frz es es' snap restore st location ef ep n q where
    "hm_get (os_entries src) (mp_object p) = Some e" "oe_state e = Some es"
    "hm_get (or_types (os_registry src)) (mp_object_type p) = Some r" "otr_freezer r = Some frz" "frz es = (es', Ok snap)"
    "restore snap (mp_destination p) = Ok st" "p' = p\<lparr>mp_snapshot := [], mp_from := location\<rparr>"
    "unat (loc_epoch location) = Suc (unat (loc_epoch (mp_from p)))" "loc_locality location = os_local_id dst"
    "hm_get (os_entries src') (mp_object p) = Some ef" "oe_lifecycle ef = LcForwarding location n" "oe_location ef = location"
    "oe_state ef = Some es'" "oe_leases ef = oe_leases e" "oe_roots ef = oe_roots e" "oe_authority ef = os_local_id src'"
    "oe_object_type ef = mp_object_type p"
    "hm_get (os_entries dst') (mp_object p) = Some ep" "oe_prepared ep = Some q" "pp_migration q = mp_migration p"
    "pp_location q = location" "pp_state q = st" "oe_state ep = None" "oe_lifecycle ep = LcPrepared (mp_migration p) (nows 1 + ol_forwarding_ttl (os_limits dst))"
    "oe_object_type ep = mp_object_type p" "oe_location ep = mp_from p"
    "\<exists>rd. hm_get (or_types (os_registry dst)) (mp_object_type p) = Some rd \<and> otr_restorer rd = Some restore"
proof -
  obtain src1 p1 p2 where steps: "freeze_migration p (nows 0) src = (src1, Ok p1)" "prepare_migration p1 (nows 1) dst = (dst', Ok p2)"
      "commit_migration p2 (nows 2) src1 = (src', Ok p')"
    using assms(1) unfolding mig_committed_def by blast
  obtain e r frz es es' snap e' where f: "hm_get (os_entries src) (mp_object p) = Some e" "oe_location e = mp_from p"
      "hm_get (or_types (os_registry src)) (mp_object_type p) = Some r"
      "otr_freezer r = Some frz" "oe_state e = Some es" "frz es = (es', Ok snap)" "p1 = p\<lparr>mp_snapshot := snap\<rparr>"
      "hm_get (os_entries src1) (mp_object p) = Some e'" "oe_state e' = Some es'" "oe_leases e' = oe_leases e" "oe_roots e' = oe_roots e"
      "oe_authority e' = oe_authority e" "oe_authority e = mp_authority p" "oe_object_type e' = mp_object_type p"
      "os_local_id src1 = os_local_id src"
    using freeze_migration_Ok [OF steps(1)] by (auto simp: hm_get_insert)
  obtain rd restore st location m sv1 where d: "hm_get (or_types (os_registry dst)) (mp_object_type p) = Some rd"
      "otr_restorer rd = Some restore" "restore snap (mp_destination p) = Ok st"
      "unat (loc_epoch location) = Suc (unat (loc_epoch (mp_from p)))" "loc_locality location = os_local_id dst"
      "os_entries sv1 = os_entries dst" "os_limits sv1 = os_limits dst" "prepare_install p1 location m st (nows 1) sv1 = (dst', Ok p2)"
    by (rule prepare_migration_stages [OF steps(2)]) (auto simp: f(7))
  have none: "hm_get (os_entries sv1) (mp_object p1) = None" using assms(2) d(6) f(7) by simp
  note inst = prepare_install_new [OF d(8) none]
  have p2: "p2 = p\<lparr>mp_snapshot := [], mp_from := location\<rparr>" using inst f(7) by simp
  note comm = commit_migration_Ok [OF steps(3), of e', unfolded p2]
  show thesis
    by (rule that [where e = e and r = r and frz = frz and es = es and es' = es' and snap = snap and restore = restore and st = st
          and location = location and ef = "e'\<lparr>oe_location := location,
            oe_lifecycle := LcForwarding location (nows 2 + ol_forwarding_ttl (os_limits src1))\<rparr>"
          and ep = "(prepare_entry p1 (nows 1) sv1)\<lparr>oe_prepared := Some \<lparr>pp_migration = mp_migration p, pp_location = location, pp_state = st,
             pp_snapshot_bytes = m, pp_expires_at = nows 1 + ol_forwarding_ttl (os_limits sv1)\<rparr>\<rparr>"
          and n = "nows 2 + ol_forwarding_ttl (os_limits src1)"
          and q = "\<lparr>pp_migration = mp_migration p, pp_location = location, pp_state = st,
             pp_snapshot_bytes = m, pp_expires_at = nows 1 + ol_forwarding_ttl (os_limits sv1)\<rparr>"])
      (use f d none inst p2 comm in \<open>auto simp: prepare_entry_def hm_get_insert\<close>)
qed

text \<open>A call with the epoch the object had before.\<close>

lemma admit_old_epoch:
  assumes "hm_get (os_entries sv) obj = Some e" "oe_object_type e = t" "oe_location e = location" "loc_epoch location \<noteq> epoch"
    and "admit_target False job = Ok (obj, t, epoch, None)" "hm_get (or_actions (os_registry sv)) a \<noteq> None" "a \<noteq> MIGRATION_FREEZE_ACTION_ID"
  shows "admit a job da now sv = (sv, Err (ReMoved obj location))"
  using assms by (simp add: admit_def Let_def)

text \<open>
  C36. A migration from the authority of an object to a locality that does not know it moves the object: when
  the steps freeze, prepare, commit, activate and retire have each succeeded, the destination holds the
  object resident, with the state its \<open>restore\<close> made of the snapshot its \<open>freeze\<close> took, at a location one epoch
  later; the authority keeps its leases and roots, has given up the state, and answers a call with the
  old epoch with that location.
\<close>

theorem migration_moves_object:
  assumes "mig_committed p nows src dst src1 dst1 p1" "hm_get (os_entries dst) (mp_object p) = None"
    and "activate_migration p1 dst1 = (dst2, Ok p2)" "retire_migration p2 now src1 = (src2, Ok p3)"
    and "hm_get (os_entries src) (mp_object p) = Some e" "oe_leases e \<noteq> [] \<or> oe_roots e \<noteq> 0"
  shows "\<exists>r rd frz restore es es' snap st location e1 e2.
      hm_get (or_types (os_registry src)) (mp_object_type p) = Some r \<and> otr_freezer r = Some frz
    \<and> hm_get (or_types (os_registry dst)) (mp_object_type p) = Some rd \<and> otr_restorer rd = Some restore
    \<and> oe_state e = Some es \<and> frz es = (es', Ok snap) \<and> restore snap (mp_destination p) = Ok st
    \<and> unat (loc_epoch location) = Suc (unat (loc_epoch (mp_from p))) \<and> loc_locality location = os_local_id dst
    \<and> hm_get (os_entries dst2) (mp_object p) = Some e2 \<and> oe_lifecycle e2 = LcResident \<and> oe_location e2 = location \<and> oe_state e2 = Some st
    \<and> hm_get (os_entries src2) (mp_object p) = Some e1 \<and> oe_state e1 = None \<and> oe_leases e1 = oe_leases e \<and> oe_roots e1 = oe_roots e
    \<and> (\<forall>a job da t. admit_target False job = Ok (mp_object p, mp_object_type p, loc_epoch (mp_from p), None)
         \<and> hm_get (or_actions (os_registry src2)) a \<noteq> None \<and> a \<noteq> MIGRATION_FREEZE_ACTION_ID
         \<longrightarrow> admit a job da t src2 = (src2, Err (ReMoved (mp_object p) location)))"
proof -
  from assms(1,2) obtain e0 r frz es es' snap restore st location ef ep n q where eff:
    "hm_get (os_entries src) (mp_object p) = Some e0" "oe_state e0 = Some es"
    "hm_get (or_types (os_registry src)) (mp_object_type p) = Some r" "otr_freezer r = Some frz" "frz es = (es', Ok snap)"
    "restore snap (mp_destination p) = Ok st" "p1 = p\<lparr>mp_snapshot := [], mp_from := location\<rparr>"
    "unat (loc_epoch location) = Suc (unat (loc_epoch (mp_from p)))" "loc_locality location = os_local_id dst"
    "hm_get (os_entries src1) (mp_object p) = Some ef" "oe_lifecycle ef = LcForwarding location n" "oe_location ef = location"
    "oe_leases ef = oe_leases e0" "oe_roots ef = oe_roots e0" "oe_authority ef = os_local_id src1" "oe_object_type ef = mp_object_type p"
    "hm_get (os_entries dst1) (mp_object p) = Some ep" "oe_prepared ep = Some q" "pp_migration q = mp_migration p"
    "pp_location q = location" "pp_state q = st" "oe_object_type ep = mp_object_type p"
    "\<exists>rd. hm_get (or_types (os_registry dst)) (mp_object_type p) = Some rd \<and> otr_restorer rd = Some restore"
    by (rule mig_committed_effect)
  have p2: "p2 = p1" "\<exists>e2. hm_get (os_entries dst2) (mp_object p) = Some e2 \<and> oe_lifecycle e2 = LcResident
      \<and> oe_location e2 = location \<and> oe_state e2 = Some st"
    using assms(3) eff(7,17-22) by (auto simp: activate_migration_def entry_for_migration_def Let_def hm_get_insert split: if_splits)
  define e1 where "e1 = ef\<lparr>oe_state := None, oe_snapshot_bytes := 0, oe_location := location,
      oe_lifecycle := LcForwarding location (now + ol_forwarding_ttl (os_limits src1))\<rparr>"
  define sv where "sv = cache_location (mp_object p) location (put_entry (mp_object p) e1 src1)"
  have "src2 = collect (mp_object p) sv"
    using assms(4) p2(1) eff(7,10,12,16) by (auto simp: retire_migration_def entry_for_migration_def sv_def e1_def)
  moreover have "collect (mp_object p) sv = sv"
    using assms(5,6) eff(1,13-15) by (auto simp: collect_def sv_def e1_def hm_get_insert)
  ultimately have e1: "hm_get (os_entries src2) (mp_object p) = Some e1" by (simp add: sv_def hm_get_insert)
  have "loc_epoch location \<noteq> loc_epoch (mp_from p)" using eff(8) by auto
  then have moved: "\<forall>a job da t. admit_target False job = Ok (mp_object p, mp_object_type p, loc_epoch (mp_from p), None)
         \<and> hm_get (or_actions (os_registry src2)) a \<noteq> None \<and> a \<noteq> MIGRATION_FREEZE_ACTION_ID
         \<longrightarrow> admit a job da t src2 = (src2, Err (ReMoved (mp_object p) location))"
    using admit_old_epoch [OF e1] eff(16) by (auto simp: e1_def)
  have "e0 = e" using assms(5) eff(1) by simp
  moreover have "oe_state e1 = None" "oe_leases e1 = oe_leases e0" "oe_roots e1 = oe_roots e0" using eff(13,14) by (simp_all add: e1_def)
  ultimately show ?thesis using p2(2) e1 eff(2-6,8,9,23) moved by metis
qed

text \<open>The rounds in which the coordinator takes a commit for failed and rolls back source and destination.\<close>

lemma commit_error_round:
  assumes "mf_state mf = MsCommit f" "mf_client mf" "poll_remote env rd f rt = (rt1, f', Ok (Ready (Err err)))"
    and "migration_step env (location_place (mf_original mf)) MIGRATION_ROLLBACK_ACTION_ID (mf_packet mf) (clock 1) rt1 = (rt2, Ok g)"
  shows "migration_round env rd show clock (rt, mf) = ((rt2, mf\<lparr>mf_state := MsRollbackSource g (migration_error show mf err) True\<rparr>), None)"
  using assms by (simp add: migration_round_def Let_def mig_await_def start_rollback_def mig_send_def migration_error_def split: runtime_error.split)

lemma source_rolled_back_round:
  assumes "mf_state mf = MsRollbackSource g e True" "mf_client mf" "poll_remote env rd g rt = (rt1, g', Ok (Ready (Ok p)))"
    and "migration_step env (mp_destination (mf_packet mf)) MIGRATION_ROLLBACK_ACTION_ID (mf_packet mf) (clock 0) rt1 = (rt2, Ok h)"
  shows "migration_round env rd show clock (rt, mf) = ((rt2, mf\<lparr>mf_state := MsRollbackDestination h e\<rparr>), None)"
  using assms by (simp add: migration_round_def Let_def mig_await_def mig_send_def)

lemma destination_rolled_back_round:
  assumes "mf_state mf = MsRollbackDestination h e" "mf_service mf" "poll_remote env rd h rt = (rt1, h', Ok (Ready (Ok p)))"
  shows "\<exists>rt2 mf'. migration_round env rd show clock (rt, mf) = ((rt2, mf'), Some (Ok (Ready (Err e))))
    \<and> tally (ru_objects rt2) = settled (mp_migration (mf_packet mf)) MgRolledBack (tally (ru_objects rt))"
proof -
  let ?mf = "mf\<lparr>mf_state := MsRollbackDestination h' e\<rparr>"
  obtain rt2 mf' where fin: "mf_finish env MgRolledBack (clock 2) (rt1, ?mf) = (rt2, mf')" by force
  have "ru_objects rt1 = ru_objects rt" by (rule poll_remote_objects [OF assms(3)])
  then have "tally (ru_objects rt2) = settled (mp_migration (mf_packet mf)) MgRolledBack (tally (ru_objects rt))"
    using mf_finish_effect(1) [OF fin] assms(2) by simp
  moreover have "migration_round env rd show clock (rt, mf) = ((rt2, mf'\<lparr>mf_state := MsDone\<rparr>), Some (Ok (Ready (Err e))))"
    using assms(1,3) fin by (simp add: migration_round_def Let_def mig_await_def rolled_back_def mig_return_def)
  ultimately show ?thesis by blast
qed

text \<open>What the rollback leaves after a commit at the source.\<close>

lemma rollback_after_commit:
  assumes "mig_committed p nows src dst src1 dst1 p1" "hm_get (os_entries dst) (mp_object p) = None"
    and "rollback_migration p1 src1 = (src2, r1)" "rollback_migration p1 dst1 = (dst2, r2)"
  shows "r1 = Ok p1 \<and> r2 = Ok p1
    \<and> (\<nexists>l. is_local_resident (mp_object p) l src2 \<or> is_local_resident (mp_object p) l dst2)
    \<and> (\<forall>a job da t. admit_target False job = Ok (mp_object p, mp_object_type p, loc_epoch (mp_from p1), None)
         \<and> hm_get (or_actions (os_registry dst2)) a \<noteq> None \<and> a \<noteq> MIGRATION_FREEZE_ACTION_ID
         \<longrightarrow> admit a job da t dst2 = (dst2, Err (ReMoved (mp_object p) (mp_from p))))"
proof -
  from assms(1,2) obtain location ef ep n q where eff:
    "p1 = p\<lparr>mp_snapshot := [], mp_from := location\<rparr>" "unat (loc_epoch location) = Suc (unat (loc_epoch (mp_from p)))"
    "hm_get (os_entries src1) (mp_object p) = Some ef" "oe_lifecycle ef = LcForwarding location n"
    "hm_get (os_entries dst1) (mp_object p) = Some ep" "oe_prepared ep = Some q" "pp_migration q = mp_migration p"
    "oe_lifecycle ep = LcPrepared (mp_migration p) (nows 1 + ol_forwarding_ttl (os_limits dst))" "oe_object_type ep = mp_object_type p"
    "oe_location ep = mp_from p"
    by (rule mig_committed_effect)
  have src: "r1 = Ok p1" "\<exists>e. hm_get (os_entries src2) (mp_object p) = Some e \<and> oe_lifecycle e = LcForwarding location n"
    using assms(3) eff(1,3,4) by (auto simp: rollback_migration_def Let_def hm_get_insert split: option.splits if_splits)
  have dst: "r2 = Ok p1" "hm_get (os_entries dst2) (mp_object p) = Some (ep\<lparr>oe_prepared := None\<rparr>)"
    using assms(4) eff(1,5-8) by (auto simp: rollback_migration_def Let_def hm_get_insert)
  have "loc_epoch (mp_from p) \<noteq> loc_epoch (mp_from p1)" using eff(1,2) by auto
  then have "\<forall>a job da t. admit_target False job = Ok (mp_object p, mp_object_type p, loc_epoch (mp_from p1), None)
         \<and> hm_get (or_actions (os_registry dst2)) a \<noteq> None \<and> a \<noteq> MIGRATION_FREEZE_ACTION_ID
         \<longrightarrow> admit a job da t dst2 = (dst2, Err (ReMoved (mp_object p) (mp_from p)))"
    using admit_old_epoch [OF dst(2)] eff(9,10) by simp
  then show ?thesis using src dst eff(4,8) by (auto simp: is_local_resident_def)
qed

text \<open>
  C37. A commit whose answer does not reach the coordinator loses an object that migrates away from its
  authority. Source and destination have run the freeze, the preparation and the commit, which gave the packet
  \<open>p2\<close>. The coordinator waits for the answer to the commit with that packet and gets an error \<open>err\<close> instead,
  such as the end of its deadline. It takes this for a commit that did not happen and sends \<open>p2\<close> to be rolled
  back, first at the source, then at the destination, and at the end counts the migration as rolled back and
  gives the error. Both rollbacks report success, but the source has handed the object over for good and the
  destination has thrown the copy away: the object is resident nowhere, and a call that follows the committed
  location is sent back to the location before it. (With a third locality as authority the source would still be
  freezing and the rollback would make it resident again.)
\<close>

theorem lost_commit_reply_loses_object:
  fixes src dst :: "('w, 's) object_service"
  assumes "freeze_migration p t1 src = (src1, Ok p1)" "prepare_migration p1 t2 dst = (dst1, Ok p2)"
    and "commit_migration p2 t3 src1 = (src2, Ok p3)" "hm_get (os_entries dst) (mp_object p) = None"
    and "mf_state mf = MsCommit f" "mf_packet mf = p2" "mf_client mf" "mf_service mf"
    and "poll_remote env rd f rt = (rt1, f', Ok (Ready (Err err)))"
    and "migration_step env (location_place (mf_original mf)) MIGRATION_ROLLBACK_ACTION_ID p2 (clock 1) rt1 = (rt2, Ok g)"
    and "rollback_migration p2 src2 = (src3, r1)" "poll_remote env rd g rt3 = (rt4, g', Ok (Ready (Ok p2)))"
    and "migration_step env (mp_destination p2) MIGRATION_ROLLBACK_ACTION_ID p2 (clock' 0) rt4 = (rt5, Ok h)"
    and "rollback_migration p2 dst1 = (dst2, r2)" "poll_remote env rd h rt6 = (rt7, h', Ok (Ready (Ok p2)))"
  shows "\<exists>mf1 mf2 mf3 rt8. migration_round env rd show clock (rt, mf) = ((rt2, mf1), None)
    \<and> r1 = Ok p2 \<and> migration_round env rd show clock' (rt3, mf1) = ((rt5, mf2), None)
    \<and> r2 = Ok p2 \<and> migration_round env rd show clock'' (rt6, mf2) = ((rt8, mf3), Some (Ok (Ready (Err (migration_error show mf err)))))
    \<and> tally (ru_objects rt8) = settled (mp_migration p) MgRolledBack (tally (ru_objects rt6))
    \<and> (\<nexists>l. is_local_resident (mp_object p) l src3 \<or> is_local_resident (mp_object p) l dst2)
    \<and> (\<forall>a job da t. admit_target False job = Ok (mp_object p, mp_object_type p, loc_epoch (mp_from p2), None)
         \<and> hm_get (or_actions (os_registry dst2)) a \<noteq> None \<and> a \<noteq> MIGRATION_FREEZE_ACTION_ID
         \<longrightarrow> admit a job da t dst2 = (dst2, Err (ReMoved (mp_object p) (mp_from p))))"
proof -
  let ?e = "migration_error show mf err" and ?nows = "\<lambda>i. if i = 0 then t1 else if i = 1 then t2 else t3"
  have "p3 = p2" using assms(3) by (auto simp: commit_migration_def split: if_splits sum.splits)
  then have "mig_committed p ?nows src dst src2 dst1 p2" using assms(1-3) by (auto simp: mig_committed_def)
  from rollback_after_commit [OF this assms(4,11,14)] have objects: "r1 = Ok p2" "r2 = Ok p2"
      "\<nexists>l. is_local_resident (mp_object p) l src3 \<or> is_local_resident (mp_object p) l dst2"
      "\<forall>a job da t. admit_target False job = Ok (mp_object p, mp_object_type p, loc_epoch (mp_from p2), None)
         \<and> hm_get (or_actions (os_registry dst2)) a \<noteq> None \<and> a \<noteq> MIGRATION_FREEZE_ACTION_ID
         \<longrightarrow> admit a job da t dst2 = (dst2, Err (ReMoved (mp_object p) (mp_from p)))"
    by blast+
  have m: "mp_migration p2 = mp_migration p" using steps_keep_migration(1,2) assms(1,2) by metis
  define mf1 where "mf1 = mf\<lparr>mf_state := MsRollbackSource g ?e True\<rparr>"
  define mf2 where "mf2 = mf\<lparr>mf_state := MsRollbackDestination h ?e\<rparr>"
  have first: "migration_round env rd show clock (rt, mf) = ((rt2, mf1), None)"
    unfolding mf1_def by (rule commit_error_round) (use assms in simp_all)
  have second: "migration_round env rd show clock' (rt3, mf1) = ((rt5, mf2), None)"
    using source_rolled_back_round [of mf1 g ?e env rd rt3 rt4 g' p2 clock' rt5 h "show"] assms by (simp add: mf1_def mf2_def)
  obtain rt8 mf3 where "migration_round env rd show clock'' (rt6, mf2) = ((rt8, mf3), Some (Ok (Ready (Err ?e))))"
      "tally (ru_objects rt8) = settled (mp_migration p) MgRolledBack (tally (ru_objects rt6))"
    using destination_rolled_back_round [of mf2 h ?e env rd rt6 rt7 h' p2 "show" clock''] assms m by (auto simp: mf2_def)
  with first second objects show ?thesis by blast
qed

subsection \<open>A migration of the counter\<close>

definition demo_destination :: "(unit, u64) object_service" where
  "demo_destination = object_service_new 3 2 object_limits_default demo_rw_registry"

definition demo_packet :: migration_packet where
  "demo_packet = \<lparr>mp_migration = \<lparr>req_origin = 1, req_sequence = 9\<rparr>, mp_object = demo_object, mp_object_type = 77, mp_authority = 1,
     mp_from = \<lparr>loc_locality = 1, loc_domain = 0, loc_slot = 1, loc_generation = 1, loc_epoch = 1\<rparr>,
     mp_destination = \<lparr>pl_locality = 2, pl_domain = 0\<rparr>, mp_snapshot_version = 1, mp_snapshot_schema = 6, mp_snapshot = []\<rparr>"

definition demo_location2 :: object_location where
  "demo_location2 = \<lparr>loc_locality = 2, loc_domain = 0, loc_slot = 1, loc_generation = 1, loc_epoch = 2\<rparr>"

lemma demo_snapshot: "validate_snapshot [u64_le 5] object_limits_default = Ok 8" "u64_decode [u64_le v] = Ok v"
  by (simp_all add: validate_snapshot_def checked_total_def checked_add_usize_def USIZE_MAX_def object_limits_default_def
      MIGRATION_HEADER_BYTES_def u64_decode_def one_segment_def)

definition demo_frozen_source :: "(unit, u64) object_service" where
  "demo_frozen_source = put_entry demo_object (demo_entry\<lparr>oe_lifecycle := LcFreezing (mp_migration demo_packet) 60000000007,
     oe_snapshot_bytes := 8\<rparr>) demo_service"

lemma demo_frozen: "freeze_migration demo_packet 7 demo_service = (demo_frozen_source, Ok (demo_packet\<lparr>mp_snapshot := [u64_le 5]\<rparr>))"
proof -
  have "ol_forwarding_ttl object_limits_default = 60000000000" by (simp add: object_limits_default_def)
  then show ?thesis
    by (simp add: freeze_migration_def entry_for_migration_def demo_service_fields demo_packet_def demo_entry_def hm_get_def
      demo_rw_registry_def freeze_state_def freezer_def lock_typed_def demo_counter_def u64_encode_def demo_snapshot
      write_locked_def Let_def demo_frozen_source_def)
qed

definition demo_prepared :: "(unit, u64) object_service" where
  "demo_prepared = fst (prepare_migration (demo_packet\<lparr>mp_snapshot := [u64_le 5]\<rparr>) 7 demo_destination)"

lemma demo_prepare:
  "prepare_migration (demo_packet\<lparr>mp_snapshot := [u64_le 5]\<rparr>) 7 demo_destination = (demo_prepared, Ok (demo_packet\<lparr>mp_from := demo_location2\<rparr>))"
proof -
  have lim: "0 < ol_max_prepared_migrations object_limits_default" "0 < ol_max_objects object_limits_default"
    by (simp_all add: object_limits_default_def)
  show ?thesis
    by (simp add: demo_prepared_def prepare_migration_def demo_destination_def object_service_new_def demo_packet_def demo_snapshot
      hm_get_def demo_rw_registry_def hm_len_def lim checked_add_u64_def object_location_new_def restorer_def demo_counter_def
      prepare_install_def prepare_entry_def demo_location2_def Let_def)
qed

definition demo_committed :: "(unit, u64) object_service" where
  "demo_committed = fst (commit_migration (demo_packet\<lparr>mp_from := demo_location2\<rparr>) 7 demo_frozen_source)"

lemma demo_commit:
  "commit_migration (demo_packet\<lparr>mp_from := demo_location2\<rparr>) 7 demo_frozen_source = (demo_committed, Ok (demo_packet\<lparr>mp_from := demo_location2\<rparr>))"
proof -
  have lim: "0 < ol_max_forwarders object_limits_default" by (simp add: object_limits_default_def)
  show ?thesis
    by (simp add: demo_committed_def commit_migration_def demo_frozen_source_def demo_service_fields entry_for_migration_def demo_packet_def
      hm_get_def hm_insert_def hm_values_def forwarders_def is_forwarding_def demo_entry_def demo_location2_def checked_add_u64_def lim)
qed

lemma demo_mig_committed:
  "mig_committed demo_packet (\<lambda>_. 7) demo_service demo_destination demo_committed demo_prepared (demo_packet\<lparr>mp_from := demo_location2\<rparr>)"
  using demo_frozen demo_prepare demo_commit unfolding mig_committed_def by blast

lemma demo_destination_new: "hm_get (os_entries demo_destination) (mp_object demo_packet) = None"
  by (simp add: demo_destination_def object_service_new_def hm_get_def)

text \<open>A runtime that can start to migrate the counter.\<close>

definition demo_mobile :: "(unit, u64, u64) runtime" where
  "demo_mobile = demo_runtime\<lparr>ru_server := demo_server\<lparr>sv_shared := demo_shared\<lparr>sh_registry :=
       \<lparr>ar_entries = [(MIGRATION_FREEZE_ACTION_ID, registered_action_new Inr)], ar_schemas = []\<rparr>\<rparr>\<rparr>,
     ru_leases := \<lparr>lm_limit = 4, lm_renew_interval = 10, lm_entries = [(demo_object, 0)],
       lm_leases = [local_lease_new demo_object 77 (demo_location 1) 0 10]\<rparr>\<rparr>"

lemma demo_migrate:
  "\<exists>rt mf f. migrate demo_env demo_remote \<lparr>pl_locality = 8, pl_domain = 0\<rparr> 5 demo_mobile = (rt, Ok mf)
     \<and> mf_service mf \<and> \<not> mf_committed mf \<and> os_rolled_back_migrations (ru_objects rt) = 0
     \<and> mf_state mf = MsFreeze f \<and> \<not> rf_finished f \<and> sh_promises (ru_shared rt) ! rf_promise f = promise_new"
  by (simp add: migrate_def demo_mobile_def demo_remote_eval object_service_new_def resolve_def migration_metadata_def
      demo_rw_registry_def begin_migration_def object_limits_default_def migration_step_def packet_encode_def
      nonzero_u128_id_def MIGRATION_FREEZE_ACTION_ID_def local_lease_new_def migration_future_new_def Calls.demo_eval)

text \<open>A poll before any answer: the migration stays under way.\<close>

lemma pending_poll:
  assumes "mf_state mf = MsFreeze f" "\<not> rf_finished f" "sh_promises (ru_shared rt) ! rf_promise f = promise_new"
  shows "\<exists>rt'. migration_poll env rd show clock (rt, mf) = ((rt', mf), Ok PollPending)"
proof -
  have "mf\<lparr>mf_state := MsFreeze f\<rparr> = mf" using assms(1) by simp
  then show ?thesis
    using assms by (subst migration_poll.simps)
      (simp add: migration_round_def mig_await_def poll_remote_def future_poll_def promise_poll_def promise_new_def Let_def)
qed

theorem migration_settled_once_witness:
  "\<exists>rt mf rt' m. migrate demo_env demo_remote \<lparr>pl_locality = 8, pl_domain = 0\<rparr> 5 demo_mobile = (rt, Ok mf)
     \<and> m \<in> set (os_active_migrations (ru_objects rt))
     \<and> migration_poll demo_env \<lparr>rd_decode = packet_decode, rd_downcast = (\<lambda>v. None), rd_waker = 0\<rparr> (\<lambda>e. []) (\<lambda>i. i) (rt, mf) = ((rt', mf), Ok PollPending)
     \<and> tally (ru_objects rt') = tally (ru_objects rt)
     \<and> os_rolled_back_migrations (ru_objects (migration_drop demo_env 9 mf rt)) = 1
     \<and> m \<notin> set (os_active_migrations (ru_objects (migration_drop demo_env 9 mf rt)))"
proof -
  obtain rt mf f where m: "migrate demo_env demo_remote \<lparr>pl_locality = 8, pl_domain = 0\<rparr> 5 demo_mobile = (rt, Ok mf)"
      "mf_service mf" "\<not> mf_committed mf" "os_rolled_back_migrations (ru_objects rt) = 0"
      "mf_state mf = MsFreeze f" "\<not> rf_finished f" "sh_promises (ru_shared rt) ! rf_promise f = promise_new"
    using demo_migrate by blast
  let ?rd = "\<lparr>rd_decode = packet_decode, rd_downcast = (\<lambda>v. None), rd_waker = 0\<rparr> :: (unit, migration_packet) reader"
    and ?m = "mp_migration (mf_packet mf)"
  obtain rt' where poll: "migration_poll demo_env ?rd (\<lambda>e. []) (\<lambda>i. i) (rt, mf) = ((rt', mf), Ok PollPending)"
    using pending_poll [OF m(5-7)] by blast
  from migration_settled_once [OF m(1,2) _ poll refl refl refl, of "[]" 9] m(2,3)
  have ended: "?m \<in> set (os_active_migrations (ru_objects rt))" "tally (ru_objects rt') = tally (ru_objects rt)"
      "tally (ru_objects (migration_drop demo_env 9 mf rt)) = settled ?m MgRolledBack (tally (ru_objects rt))"
    by auto
  then have "os_rolled_back_migrations (ru_objects (migration_drop demo_env 9 mf rt)) = 1"
      "?m \<notin> set (os_active_migrations (ru_objects (migration_drop demo_env 9 mf rt)))"
    using m(4) by (simp_all add: tally_def)
  with m(1) poll ended(1,2) show ?thesis by blast
qed

theorem migration_moves_object_witness:
  "\<exists>dst p2 e. activate_migration (demo_packet\<lparr>mp_from := demo_location2\<rparr>) demo_prepared = (dst, Ok p2)
     \<and> hm_get (os_entries dst) demo_object = Some e \<and> oe_lifecycle e = LcResident \<and> oe_state e \<noteq> None \<and> loc_locality (oe_location e) = 2"
proof -
  let ?p = "demo_packet\<lparr>mp_from := demo_location2\<rparr>"
  obtain ep q where ep: "hm_get (os_entries demo_prepared) (mp_object demo_packet) = Some ep" "oe_prepared ep = Some q"
      "pp_migration q = mp_migration demo_packet" "pp_location q = demo_location2" "oe_object_type ep = mp_object_type demo_packet"
    by (rule mig_committed_effect [OF demo_mig_committed demo_destination_new]) (auto dest!: arg_cong [where f = mp_from])
  then obtain dst where act: "activate_migration ?p demo_prepared = (dst, Ok ?p)"
    by (simp add: activate_migration_def entry_for_migration_def Let_def)
  obtain ef where ef: "hm_get (os_entries demo_committed) (mp_object demo_packet) = Some ef" "oe_location ef = demo_location2"
      "oe_object_type ef = mp_object_type demo_packet"
    by (rule mig_committed_effect [OF demo_mig_committed demo_destination_new]) (auto dest!: arg_cong [where f = mp_from])
  then obtain src where "retire_migration ?p 7 demo_committed = (src, Ok ?p)"
    by (simp add: retire_migration_def entry_for_migration_def)
  from migration_moves_object [OF demo_mig_committed demo_destination_new act this, of demo_entry] act
  show ?thesis by (auto simp: demo_service_fields hm_get_def demo_packet_def demo_entry_def demo_destination_def object_service_new_def)
qed

text \<open>A coordinator at a third locality whose calls have been answered as the promises say.\<close>

definition demo_coordinator :: "unit promise list \<Rightarrow> (unit, u64, u64) runtime" where
  "demo_coordinator ps = demo_runtime\<lparr>ru_server := demo_server\<lparr>sv_shared := demo_shared\<lparr>sh_registry :=
       \<lparr>ar_entries = [(MIGRATION_ROLLBACK_ACTION_ID, registered_action_new Inr)], ar_schemas = []\<rparr>, sh_promises := ps\<rparr>\<rparr>\<rparr>"

definition demo_answer :: "unit outcome \<Rightarrow> unit promise" where
  "demo_answer r = \<lparr>pr_result = Some r, pr_waker = None, pr_done = True\<rparr>"

definition demo_packet_reader :: "(unit, migration_packet) reader" where
  "demo_packet_reader = \<lparr>rd_decode = packet_decode, rd_downcast = (\<lambda>v. Some (demo_packet\<lparr>mp_from := demo_location2\<rparr>)), rd_waker = 0\<rparr>"

definition demo_committing :: migration_future where
  "demo_committing = (migration_future_new 0 (demo_packet\<lparr>mp_from := demo_location2\<rparr>) (mp_from demo_packet) (remote_future_new (mp_migration demo_packet) 0))
     \<lparr>mf_original := mp_from demo_packet, mf_state := MsCommit (remote_future_new (mp_migration demo_packet) 0)\<rparr>"

lemma demo_answered:
  assumes "\<not> rf_finished f" "ps ! rf_promise f = demo_answer r"
  shows "\<exists>ps' f'. poll_remote demo_env demo_packet_reader f (demo_coordinator ps) = (demo_coordinator ps', f',
    Ok (Ready (case r of Inl err \<Rightarrow> Err err | Inr (AvTyped v) \<Rightarrow> Ok (demo_packet\<lparr>mp_from := demo_location2\<rparr>)
      | Inr (AvEncoded ss) \<Rightarrow> res_map_err (\<lambda>e. ReProtocol (lit ''action output decode failed: '')) (packet_decode ss))))"
  using assms
  by (auto simp: poll_remote_def future_poll_def promise_poll_def demo_answer_def demo_coordinator_def demo_packet_reader_def demo_env_def Let_def
      demo_server_def split: sum.split action_value.split)

lemma demo_rollback_sent:
  assumes "pl_locality pl \<noteq> 7"
  shows "\<exists>rt f. migration_step demo_env pl MIGRATION_ROLLBACK_ACTION_ID (demo_packet\<lparr>mp_from := demo_location2\<rparr>) 5 (demo_coordinator ps) = (rt, Ok f)
    \<and> \<not> rf_finished f"
proof -
  let ?p = "demo_packet\<lparr>mp_from := demo_location2\<rparr>"
  have valid: "parcel_validate (send_parcel (\<lparr>rm_kind = k, rm_request = r, rm_action = a, rm_domain = d, rm_deadline_ms = ms, rm_payload = packet_header ?p # mp_snapshot demo_packet\<rparr>)
      n tr i s) limits_default = Ok ()" for k r a d ms n tr i and s :: "(unit, u64) shared"
    by (simp add: parcel_validate_Ok parcel_fits_def limits_ok_def limits_validate_def PARCEL_FIXED_BYTES_def limits_default_def send_parcel_def
        rt_encode_def rt_header_slices(1) packet_header_slices(1) demo_packet_def Let_def USIZE_MAX_def)
  show ?thesis
    using assms
    by (simp add: migration_step_def packet_encode_def demo_coordinator_def demo_remote_eval nonzero_u128_id_def MIGRATION_ROLLBACK_ACTION_ID_def
        sh_send_def next_message_def ticket_limit_def saturating_add_usize_def USIZE_MAX_def valid Calls.demo_eval)
qed

theorem lost_commit_reply_loses_object_witness:
  "\<exists>rt mf src dst. migration_round demo_env demo_packet_reader (\<lambda>e. []) (\<lambda>i. 5) (demo_coordinator [demo_answer (Err ReShutdown)], demo_committing) = ((rt, mf), None)
     \<and> rollback_migration (demo_packet\<lparr>mp_from := demo_location2\<rparr>) demo_committed = (src, Ok (demo_packet\<lparr>mp_from := demo_location2\<rparr>))
     \<and> rollback_migration (demo_packet\<lparr>mp_from := demo_location2\<rparr>) demo_prepared = (dst, Ok (demo_packet\<lparr>mp_from := demo_location2\<rparr>))
     \<and> (\<nexists>l. is_local_resident demo_object l src \<or> is_local_resident demo_object l dst)"
proof -
  let ?p = "demo_packet\<lparr>mp_from := demo_location2\<rparr>" and ?f = "remote_future_new (mp_migration demo_packet) 0"
  let ?at = "\<lambda>f. demo_coordinator (replicate (Suc (rf_promise f)) (demo_answer (Ok (AvTyped ()))))"
  obtain src r1 dst r2 where rb: "rollback_migration ?p demo_committed = (src, r1)" "rollback_migration ?p demo_prepared = (dst, r2)"
    by (metis prod.collapse)
  have f: "\<not> rf_finished ?f" "[demo_answer (Err ReShutdown)] ! rf_promise ?f = demo_answer (Err ReShutdown)" by (simp_all add: remote_future_new_def)
  obtain ps1 f' where lost: "poll_remote demo_env demo_packet_reader ?f (demo_coordinator [demo_answer (Err ReShutdown)])
      = (demo_coordinator ps1, f', Ok (Ready (Err ReShutdown)))" using demo_answered [OF f] by auto
  have src_at: "location_place (mf_original demo_committing) = \<lparr>pl_locality = 1, pl_domain = 0\<rparr>"
    by (simp add: demo_committing_def demo_packet_def location_place_def)
  have answered: "\<exists>ps g'. poll_remote demo_env demo_packet_reader g (?at g) = (demo_coordinator ps, g', Ok (Ready (Ok ?p)))" if "\<not> rf_finished g" for g
    using demo_answered [OF that, of "replicate (Suc (rf_promise g)) (demo_answer (Ok (AvTyped ())))" "Ok (AvTyped ())"] by (simp del: replicate_Suc)
  obtain rt2 g where g: "migration_step demo_env (location_place (mf_original demo_committing)) MIGRATION_ROLLBACK_ACTION_ID ?p 5 (demo_coordinator ps1) = (rt2, Ok g)"
      "\<not> rf_finished g" using demo_rollback_sent [of "\<lparr>pl_locality = 1, pl_domain = 0\<rparr>" ps1] src_at by auto
  obtain ps2 g' where undone: "poll_remote demo_env demo_packet_reader g (?at g) = (demo_coordinator ps2, g', Ok (Ready (Ok ?p)))"
    using answered [OF g(2)] by blast
  obtain rt5 h where h: "migration_step demo_env (mp_destination ?p) MIGRATION_ROLLBACK_ACTION_ID ?p 5 (demo_coordinator ps2) = (rt5, Ok h)" "\<not> rf_finished h"
    using demo_rollback_sent [of "mp_destination ?p" ps2] by (auto simp: demo_packet_def)
  obtain ps3 h' where undone': "poll_remote demo_env demo_packet_reader h (?at h) = (demo_coordinator ps3, h', Ok (Ready (Ok ?p)))"
    using answered [OF h(2)] by blast
  have mf: "mf_state demo_committing = MsCommit ?f" "mf_packet demo_committing = ?p" "mf_client demo_committing" "mf_service demo_committing"
    by (simp_all add: demo_committing_def migration_future_new_def)
  from lost_commit_reply_loses_object [OF demo_frozen demo_prepare demo_commit demo_destination_new mf lost _ rb(1) undone _ rb(2) undone',
      of "\<lambda>_. 5" rt2 "\<lambda>_. 5" rt5 "\<lambda>e. []" "\<lambda>_. 5"] g(1) h(1) rb
  show ?thesis by (auto simp: demo_packet_def)
qed

subsection \<open>Where the protocol does less than it promises\<close>

text \<open>
  A second preparation under the same migration id, which is meant to be answered like the first, always
  fails: it is given a new slot, and the location it compares with the prepared one contains the slot.
\<close>

lemma prepare_install_again:
  assumes "prepare_install p location n st now sv = (sv', Ok p')" "hm_get (os_entries sv) (mp_object p) = Some e" "oe_prepared e = Some q"
  shows "pp_location q = location"
  using assms by (auto simp: prepare_install_def prepare_entry_def Let_def split: if_splits)

lemma prepare_migration_slot:
  assumes "prepare_migration p now sv = (sv', Ok p')"
  shows "\<exists>location n st sv1. loc_slot location = os_next_slot sv \<and> os_next_slot sv1 = os_next_slot sv + 1 \<and> os_entries sv1 = os_entries sv
    \<and> prepare_install p location n st now sv1 = (sv', Ok p')"
proof -
  from assms obtain n epoch location slot st where ok: "checked_add_u64 (os_next_slot sv) 1 = Some slot"
      "object_location_new (os_local_id sv) (pl_domain (mp_destination p)) (os_next_slot sv) 1 epoch = Ok location"
      "prepare_install p location n st now (sv\<lparr>os_prepared_count := os_prepared_count sv + 1, os_next_slot := slot\<rparr>) = (sv', Ok p')"
    unfolding prepare_migration_def Let_def by (auto split: if_splits sum.splits option.splits)
  then have "loc_slot location = os_next_slot sv" "slot = os_next_slot sv + 1"
    by (auto simp: object_location_new_def checked_add_u64_def split: if_splits)
  with ok(3) show ?thesis
    by (intro exI [of _ location] exI [of _ n] exI [of _ st]
        exI [of _ "sv\<lparr>os_prepared_count := os_prepared_count sv + 1, os_next_slot := slot\<rparr>"]) simp
qed

lemma duplicate_prepare_refused:
  assumes "prepare_migration p now sv = (sv1, Ok p1)" "hm_get (os_entries sv) (mp_object p) = None"
  shows "snd (prepare_migration p now' sv1) \<noteq> Ok p2"
proof
  assume again: "snd (prepare_migration p now' sv1) = Ok p2"
  obtain location n st sv0 where one: "loc_slot location = os_next_slot sv" "os_next_slot sv0 = os_next_slot sv + 1"
      "os_entries sv0 = os_entries sv" "prepare_install p location n st now sv0 = (sv1, Ok p1)"
    using prepare_migration_slot [OF assms(1)] by blast
  have first: "hm_get (os_entries sv1) (mp_object p) = Some e \<Longrightarrow> \<exists>q. oe_prepared e = Some q \<and> pp_location q = location" for e
    using prepare_install_new [OF one(4)] one(3) assms(2) by (auto simp: hm_get_insert)
  have slot: "os_next_slot sv1 = os_next_slot sv + 1" "hm_get (os_entries sv1) (mp_object p) \<noteq> None"
    using prepare_install_new [OF one(4)] one(2,3) assms(2) by (auto simp: hm_get_insert)
  obtain location' n' st' sv0' sv2 where two: "loc_slot location' = os_next_slot sv1" "os_entries sv0' = os_entries sv1"
      "prepare_install p location' n' st' now' sv0' = (sv2, Ok p2)"
    using prepare_migration_slot [of p now' sv1 _ p2] again by (metis prod.collapse)
  obtain e q where "hm_get (os_entries sv1) (mp_object p) = Some e" "oe_prepared e = Some q" "pp_location q = location"
    using first slot(2) by blast
  then have "location = location'" using prepare_install_again [OF two(3)] two(2) by simp
  then show False using one(1) two(1) slot(1) by simp
qed

end
