(* ===== verification/Batches.thy ===== *)
theory Batches
  imports Remotes
begin

text \<open>
  The algorithms over actions (\<open>crates/hataori-algorithms\<close>): the options of a parallel map, the batches and
  replies it sends and their encoding, the handler that runs a batch, the future that keeps a bounded
  number of batches under way and puts their results together, and the collectives.

  The codecs of the user's values are user code: they return, fail or panic. A future of a batch is a value
  of a type of its own, with the function that polls it as an argument. A sum of two \<open>usize\<close> that leaves the
  range panics, as it does in a debug build.
\<close>

section \<open>Options\<close>

datatype local_mode = LmSequential | LmOuter | LmInner

datatype algorithm_error =
  AgInvalidOptions string
| AgInputShape string
| AgProtocol string
| AgCallback usize bytes
| AgRuntime runtime_error

record pmap_options =
  po_batch_size :: usize
  po_local_mode :: local_mode
  po_prefetch :: bool
  po_deadline :: duration
  po_domain :: domain_id
  po_inflight_limit :: usize

definition pmap_options_default :: pmap_options where
  "pmap_options_default = \<lparr>po_batch_size = 1, po_local_mode = LmSequential, po_prefetch = False,
     po_deadline = 30 * 10 ^ 9, po_domain = DOMAIN_DEFAULT, po_inflight_limit = 1\<rparr>"

definition options_validate :: "pmap_options \<Rightarrow> (algorithm_error, unit) result" where
  "options_validate p =
     (if po_batch_size p = 0 \<or> 1048576 < po_batch_size p
      then Err (AgInvalidOptions ''batch_size must be between 1 and 1048576'')
      else if po_deadline p = 0 then Err (AgInvalidOptions ''deadline must be nonzero'')
      else Ok ())"

definition set_batch_size :: "usize \<Rightarrow> pmap_options \<Rightarrow> (algorithm_error, pmap_options) result" where
  "set_batch_size n p = (let p' = p\<lparr>po_batch_size := n\<rparr> in res_map (\<lambda>_. p') (options_validate p'))"

definition set_deadline :: "duration \<Rightarrow> pmap_options \<Rightarrow> (algorithm_error, pmap_options) result" where
  "set_deadline d p = (let p' = p\<lparr>po_deadline := d\<rparr> in res_map (\<lambda>_. p') (options_validate p'))"

definition with_targets :: "usize \<Rightarrow> pmap_options \<Rightarrow> (algorithm_error, pmap_options) result" where
  "with_targets targets p =
     (if targets = 0 then Err (AgInputShape ''membership must be nonzero'')
      else (case checked_mul_usize targets (1 + (if po_prefetch p then 1 else 0)) of
          None \<Rightarrow> Err (AgInvalidOptions ''in-flight batch limit overflow'')
        | Some n \<Rightarrow> Ok (p\<lparr>po_inflight_limit := n\<rparr>)))"

section \<open>Batches on the wire\<close>

definition ACTION_MASK :: u128 where
  "ACTION_MASK = 0xe5000000000000000000000000000001"

definition MAX_BATCH_ITEMS :: usize where
  "MAX_BATCH_ITEMS = 1048576"

record 'a batch_action =
  ba_start :: usize
  ba_mode :: local_mode
  ba_items :: "'a list"

datatype 'o item_reply = IrOk 'o | IrErr bytes

record 'o batch_reply =
  br_start :: usize
  br_items :: "'o item_reply list"

definition codec_error :: "string \<Rightarrow> action_error fault" where
  "codec_error s = Fail (ae_codec (lit s))"

definition put :: "usize \<Rightarrow> bytes" where
  "put v = u64_le (word_of_nat v)"

definition take_usize :: "bytes \<Rightarrow> usize \<Rightarrow> (action_error fault, usize \<times> usize) result" where
  "take_usize header at =
     (case checked_add_usize at 8 of
        None \<Rightarrow> Err (codec_error ''batch header overflow'')
      | Some e \<Rightarrow>
          if length header < e then Err (codec_error ''truncated batch header'')
          else Ok (unat (from_le (slice_range header at e) :: u64), e))"

text \<open>The loop of \<open>encode_nested\<close>: the header grows by the lengths, the output by the segments.\<close>

fun nest_values :: "('a, segments) user_fn \<Rightarrow> 'a list \<Rightarrow> bytes \<Rightarrow> segments \<Rightarrow> (action_error fault, segments) result" where
  "nest_values enc [] header out = Ok (header # out)"
| "nest_values enc (v # vs) header out =
     res_bind (enc v) (\<lambda>ss. nest_values enc vs (header @ put (length ss) @ concat (map (\<lambda>s. put (length s)) ss)) (out @ ss))"

definition encode_nested :: "('a, segments) user_fn \<Rightarrow> 'a list \<Rightarrow> bytes \<Rightarrow> (action_error fault, segments) result" where
  "encode_nested enc vs prefix =
     (if MAX_BATCH_ITEMS < length vs then Err (codec_error ''batch item limit exceeded'')
      else nest_values enc vs (prefix @ put (length vs)) [])"

fun take_lengths :: "bytes \<Rightarrow> nat \<Rightarrow> usize \<Rightarrow> (action_error fault, usize list \<times> usize) result" where
  "take_lengths header 0 at = Ok ([], at)"
| "take_lengths header (Suc n) at =
     res_bind (take_usize header at) (\<lambda>(v, at1). res_bind (take_lengths header n at1) (\<lambda>(vs, at2). Ok (v # vs, at2)))"

text \<open>\<open>Vec::with_capacity(n)\<close> of \<open>usize\<close> panics when the bytes would not fit an \<open>isize\<close>.\<close>

fun take_items :: "bytes \<Rightarrow> nat \<Rightarrow> usize \<Rightarrow> (action_error fault, usize list list \<times> usize) result" where
  "take_items header 0 at = Ok ([], at)"
| "take_items header (Suc k) at =
     res_bind (take_usize header at) (\<lambda>(n, at1).
       if 2 ^ 63 \<le> 8 * n then Err Panic
       else res_bind (take_lengths header n at1) (\<lambda>(ls, at2).
         res_bind (take_items header k at2) (\<lambda>(lss, at3). Ok (ls # lss, at3))))"

fun take_segments :: "usize list \<Rightarrow> segments \<Rightarrow> (action_error fault, segments \<times> segments) result" where
  "take_segments [] source = Ok ([], source)"
| "take_segments (l # ls) [] = Err Panic"
| "take_segments (l # ls) (b # source) =
     (if length b \<noteq> l then Err (codec_error ''batch segment length mismatch'')
      else res_bind (take_segments ls source) (\<lambda>(bs, rest). Ok (b # bs, rest)))"

fun take_values :: "(segments, 'a) user_fn \<Rightarrow> usize list list \<Rightarrow> segments \<Rightarrow> (action_error fault, 'a list) result" where
  "take_values dec [] source = Ok []"
| "take_values dec (ls # lss) source =
     res_bind (take_segments ls source) (\<lambda>(bs, rest). res_bind (dec bs) (\<lambda>v.
       res_bind (take_values dec lss rest) (\<lambda>vs. Ok (v # vs))))"

definition decode_nested :: "(segments, 'a) user_fn \<Rightarrow> segments \<Rightarrow> usize \<Rightarrow> (action_error fault, bytes \<times> 'a list) result" where
  "decode_nested dec segments prefix =
     (case segments of
        [] \<Rightarrow> Err (codec_error ''missing batch header'')
      | header # source \<Rightarrow>
          res_bind (take_usize header prefix) (\<lambda>(count, at).
            if MAX_BATCH_ITEMS < count then Err (codec_error ''batch item limit exceeded'')
            else res_bind (take_items header count at) (\<lambda>(lss, at1).
              if at1 \<noteq> length header then Err (codec_error ''trailing batch header bytes'')
              else (case checked_sum 0 (map length lss) of
                  None \<Rightarrow> Err (codec_error ''segment count overflow'')
                | Some expected \<Rightarrow>
                    if length source \<noteq> expected then Err (codec_error ''batch segment count mismatch'')
                    else res_map (\<lambda>vs. (header, vs)) (take_values dec lss source)))))"

fun mode_code :: "local_mode \<Rightarrow> u8" where
  "mode_code LmSequential = 0" | "mode_code LmOuter = 1" | "mode_code LmInner = 2"

definition mode_of_code :: "u8 \<Rightarrow> local_mode option" where
  "mode_of_code c = (if c = 0 then Some LmSequential else if c = 1 then Some LmOuter else if c = 2 then Some LmInner else None)"

definition batch_encode :: "('a, segments) user_fn \<Rightarrow> 'a batch_action \<Rightarrow> (action_error fault, segments) result" where
  "batch_encode enc b = encode_nested enc (ba_items b) (put (ba_start b) @ [mode_code (ba_mode b)])"

definition batch_decode :: "(segments, 'a) user_fn \<Rightarrow> segments \<Rightarrow> (action_error fault, 'a batch_action) result" where
  "batch_decode dec segments =
     (case segments of
        [] \<Rightarrow> Err (codec_error ''missing batch header'')
      | header # _ \<Rightarrow>
          res_bind (take_usize header 0) (\<lambda>(start, at).
            if length header \<le> at then Err (codec_error ''missing local mode'')
            else (case mode_of_code (header ! at) of
                None \<Rightarrow> Err (codec_error ''invalid local mode'')
              | Some mode \<Rightarrow>
                  res_map (\<lambda>(_, items). \<lparr>ba_start = start, ba_mode = mode, ba_items = items\<rparr>)
                    (decode_nested dec segments (at + 1)))))"

text \<open>\<open>String::pop\<close>, and the loop that shortens the text of an error with it.\<close>

definition str_pop :: "bytes \<Rightarrow> bytes" where
  "str_pop m = take (boundary_below m (length m - 1)) m"

function shorten :: "bytes \<Rightarrow> bytes" where
  "shorten m = (if MAX_ERROR_BYTES < length m then shorten (str_pop m) else m)"
  by pat_completeness auto

termination
proof (relation "measure length")
  fix m :: bytes assume "MAX_ERROR_BYTES < length m"
  then show "(str_pop m, m) \<in> measure length"
    using boundary_below_le [of m "length m - 1"] by (auto simp: str_pop_def)
qed simp

declare shorten.simps [simp del]

definition reply_wire_encode :: "('o, segments) user_fn \<Rightarrow> 'o item_reply \<Rightarrow> (action_error fault, segments) result" where
  "reply_wire_encode enc r =
     (case r of IrOk v \<Rightarrow> res_map (\<lambda>ss. [0] # ss) (enc v) | IrErr e \<Rightarrow> Ok [[1], e])"

definition reply_wire_decode :: "(segments, 'o) user_fn \<Rightarrow> segments \<Rightarrow> (action_error fault, 'o item_reply) result" where
  "reply_wire_decode dec segments =
     (case segments of
        [] \<Rightarrow> Err (codec_error ''missing reply tag'')
      | tag # s \<Rightarrow>
          if tag = [0] then res_map IrOk (dec s)
          else if tag = [1]
          then (case s of
              [e] \<Rightarrow>
                if MAX_ERROR_BYTES < length e then Err (codec_error ''invalid callback error'')
                else if utf8_valid e then Ok (IrErr e) else Err (codec_error ''callback error is not UTF-8'')
            | _ \<Rightarrow> Err (codec_error ''invalid callback error''))
          else Err (codec_error ''invalid reply tag''))"

fun shorten_reply :: "'o item_reply \<Rightarrow> 'o item_reply" where
  "shorten_reply (IrOk v) = IrOk v"
| "shorten_reply (IrErr m) = IrErr (shorten m)"

definition reply_encode :: "('o, segments) user_fn \<Rightarrow> 'o batch_reply \<Rightarrow> (action_error fault, segments) result" where
  "reply_encode enc r = encode_nested (reply_wire_encode enc) (map shorten_reply (br_items r)) (put (br_start r))"

definition reply_decode :: "(segments, 'o) user_fn \<Rightarrow> segments \<Rightarrow> (action_error fault, 'o batch_reply) result" where
  "reply_decode dec segments =
     (case segments of
        [] \<Rightarrow> Err (codec_error ''missing reply header'')
      | header # _ \<Rightarrow>
          res_bind (take_usize header 0) (\<lambda>(start, at).
            res_map (\<lambda>(_, items). \<lparr>br_start = start, br_items = items\<rparr>)
              (decode_nested (reply_wire_decode dec) segments at)))"

text \<open>The handler of a batch. A panic of the user's handler leaves it at once; \<open>text\<close> is \<open>to_string\<close> of an error.\<close>

fun apply_items :: "(action_error \<Rightarrow> bytes) \<Rightarrow> ('a, 'o) user_fn \<Rightarrow> 'a list \<Rightarrow> (action_error fault, 'o item_reply list) result" where
  "apply_items text h [] = Ok []"
| "apply_items text h (x # xs) =
     (case h x of
        Inl Panic \<Rightarrow> Err Panic
      | Inl (Fail e) \<Rightarrow> res_map (\<lambda>rs. IrErr (text e) # rs) (apply_items text h xs)
      | Inr v \<Rightarrow> res_map (\<lambda>rs. IrOk v # rs) (apply_items text h xs))"

definition batch_handler :: "(action_error \<Rightarrow> bytes) \<Rightarrow> ('a, 'o) user_fn \<Rightarrow> ('a batch_action, 'o batch_reply) user_fn" where
  "batch_handler text h b = res_map (\<lambda>rs. \<lparr>br_start = ba_start b, br_items = rs\<rparr>) (apply_items text h (ba_items b))"

section \<open>The controller\<close>

record controller_stats =
  cs_item_count :: usize
  cs_batch_count :: usize
  cs_peak_in_flight :: usize
  cs_placement_submissions :: usize

record ('a, 'o, 'f) pmap_future =
  pm_pending :: "(usize \<times> 'a list) list"
  pm_slots :: "'f list"
  pm_options :: pmap_options
  pm_outputs :: "'o option list"
  pm_first_error :: "(usize \<times> bytes) option"
  pm_stats :: controller_stats
  pm_done :: bool

type_synonym ('a, 'f, 'w) submit = "'a batch_action \<Rightarrow> 'w \<Rightarrow> 'w \<times> (runtime_error fault, 'f) result"
type_synonym ('o, 'f, 'w) poll_slot = "'f \<Rightarrow> 'w \<Rightarrow> 'w \<times> 'f \<times> (runtime_error, 'o batch_reply) result poll"

text \<open>The batches of the items, each with the index of its first; \<open>batch_size\<close> is not zero.\<close>

function chunks :: "usize \<Rightarrow> usize \<Rightarrow> 'a list \<Rightarrow> (usize \<times> 'a list) list" where
  "chunks n start xs = (if xs = [] \<or> n = 0 then [] else (start, take n xs) # chunks n (start + length (take n xs)) (drop n xs))"
  by pat_completeness auto

termination by (relation "measure (\<lambda>(n, start, xs). length xs)") auto

declare chunks.simps [simp del]

definition pmap_build :: "'a list \<Rightarrow> pmap_options \<Rightarrow> (algorithm_error, ('a, 'o, 'f) pmap_future) result" where
  "pmap_build items p =
     res_bind (options_validate p) (\<lambda>_.
       let pending = chunks (po_batch_size p) 0 items in
       Ok \<lparr>pm_pending = pending, pm_slots = [], pm_options = p, pm_outputs = replicate (length items) None, pm_first_error = None,
           pm_stats = \<lparr>cs_item_count = length items, cs_batch_count = length pending, cs_peak_in_flight = 0, cs_placement_submissions = 0\<rparr>,
           pm_done = False\<rparr>)"

text \<open>The loop that submits batches while there is room.\<close>

fun pm_fill ::
  "('a, 'f, 'w) submit \<Rightarrow> (usize \<times> 'a list) list \<Rightarrow> ('a, 'o, 'f) pmap_future \<Rightarrow> 'w
     \<Rightarrow> ('a, 'o, 'f) pmap_future \<times> 'w \<times> runtime_error fault option"
where
  "pm_fill submit [] pm w = (pm\<lparr>pm_pending := []\<rparr>, w, None)"
| "pm_fill submit ((start, items) # rest) pm w =
     (if length (pm_slots pm) < po_inflight_limit (pm_options pm)
      then (case submit \<lparr>ba_start = start, ba_mode = po_local_mode (pm_options pm), ba_items = items\<rparr> w of
          (w1, Inl Panic) \<Rightarrow> (pm\<lparr>pm_pending := rest\<rparr>, w1, Some Panic)
        | (w1, Inl (Fail e)) \<Rightarrow> (pm\<lparr>pm_pending := rest, pm_done := True\<rparr>, w1, Some (Fail e))
        | (w1, Inr f) \<Rightarrow>
            (let slots = pm_slots pm @ [f]; st = pm_stats pm in
             pm_fill submit rest (pm\<lparr>pm_slots := slots, pm_stats := st\<lparr>cs_peak_in_flight := max (cs_peak_in_flight st) (length slots),
               cs_placement_submissions := cs_placement_submissions st + 1\<rparr>\<rparr>) w1))
      else (pm\<lparr>pm_pending := (start, items) # rest\<rparr>, w, None))"

text \<open>The items of a reply: \<open>Some\<close> an error stops the loop.\<close>

fun store_items ::
  "usize \<Rightarrow> 'o item_reply list \<Rightarrow> ('a, 'o, 'f) pmap_future \<Rightarrow> ('a, 'o, 'f) pmap_future \<times> algorithm_error fault option"
where
  "store_items index [] pm = (pm, None)"
| "store_items index (item # items) pm =
     (if USIZE_MAX < index then (pm, Some Panic)
      else (case item of
          IrOk v \<Rightarrow>
            if length (pm_outputs pm) \<le> index \<or> pm_outputs pm ! index \<noteq> None
            then (pm\<lparr>pm_done := True\<rparr>, Some (Fail (AgProtocol ''invalid batch result index'')))
            else store_items (index + 1) items (pm\<lparr>pm_outputs := (pm_outputs pm)[index := Some v]\<rparr>)
        | IrErr m \<Rightarrow>
            store_items (index + 1) items
              (if (case pm_first_error pm of None \<Rightarrow> True | Some (old, _) \<Rightarrow> index < old)
               then pm\<lparr>pm_first_error := Some (index, m)\<rparr> else pm)))"

definition swap_remove :: "nat \<Rightarrow> 'f list \<Rightarrow> 'f list" where
  "swap_remove i xs = butlast (xs[i := last xs])"

lemma store_items_frame:
  "store_items index items pm = (pm', r) \<Longrightarrow>
     pm_slots pm' = pm_slots pm \<and> pm_pending pm' = pm_pending pm \<and> pm_options pm' = pm_options pm \<and> pm_stats pm' = pm_stats pm
     \<and> length (pm_outputs pm') = length (pm_outputs pm)"
  by (induction index items pm rule: store_items.induct) (auto split: if_splits item_reply.splits)

lemma swap_remove_length: "i < length xs \<Longrightarrow> length (swap_remove i xs) = length xs - 1"
  by (simp add: swap_remove_def)

text \<open>The loop over the slots.\<close>

function pm_drain ::
  "('o, 'f, 'w) poll_slot \<Rightarrow> nat \<Rightarrow> bool \<Rightarrow> ('a, 'o, 'f) pmap_future \<Rightarrow> 'w
     \<Rightarrow> ('a, 'o, 'f) pmap_future \<times> 'w \<times> (algorithm_error fault, bool) result"
where
  "pm_drain poll i progress pm w =
     (if i < length (pm_slots pm)
      then (case poll (pm_slots pm ! i) w of
          (w1, f, PollPending) \<Rightarrow> pm_drain poll (Suc i) progress (pm\<lparr>pm_slots := (pm_slots pm)[i := f]\<rparr>) w1
        | (w1, f, Ready (Inl e)) \<Rightarrow> (pm\<lparr>pm_slots := (pm_slots pm)[i := f], pm_done := True\<rparr>, w1, Err (Fail (AgRuntime e)))
        | (w1, f, Ready (Inr reply)) \<Rightarrow>
            (case store_items (br_start reply) (br_items reply) (pm\<lparr>pm_slots := swap_remove i ((pm_slots pm)[i := f])\<rparr>) of
               (pm1, Some e) \<Rightarrow> (pm1, w1, Err e)
             | (pm1, None) \<Rightarrow> pm_drain poll i True pm1 w1))
      else (pm, w, Ok progress))"
  by pat_completeness auto

termination
  by (relation "measure (\<lambda>(poll, i, progress, pm, w). length (pm_slots pm) - i)")
    (auto dest!: store_items_frame [OF sym] simp: swap_remove_length)

declare pm_drain.simps [simp del]

text \<open>The results are taken out of their slots in order, up to the first that is missing.\<close>

fun take_outputs :: "'o option list \<Rightarrow> 'o option list \<times> (algorithm_error, 'o list) result" where
  "take_outputs [] = ([], Ok [])"
| "take_outputs (None # rest) = (None # rest, Err (AgProtocol ''missing batch result''))"
| "take_outputs (Some v # rest) =
     (case take_outputs rest of (rest', r) \<Rightarrow> (None # rest', res_map (\<lambda>vs. v # vs) r))"

definition pm_finish ::
  "('a, 'o, 'f) pmap_future \<Rightarrow> ('a, 'o, 'f) pmap_future \<times> (algorithm_error, 'o list \<times> controller_stats) result"
where
  "pm_finish pm =
     (case pm_first_error pm of
        Some (index, m) \<Rightarrow> (pm\<lparr>pm_done := True, pm_first_error := None\<rparr>, Err (AgCallback index m))
      | None \<Rightarrow>
          (case take_outputs (pm_outputs pm) of
             (outs, r) \<Rightarrow> (pm\<lparr>pm_done := True, pm_outputs := outs\<rparr>, res_map (\<lambda>vs. (vs, pm_stats pm)) r)))"

lemma pm_fill_work:
  "pm_fill submit ps pm w = (pm', w', None) \<Longrightarrow> length (pm_pending pm') + length (pm_slots pm') = length ps + length (pm_slots pm)"
  by (induction submit ps pm w rule: pm_fill.induct) (auto simp: Let_def split: if_splits prod.splits sum.splits fault.splits)

lemma pm_drain_work:
  "pm_drain poll i progress pm w = (pm', w', Ok progress') \<Longrightarrow>
     pm_pending pm' = pm_pending pm \<and> length (pm_slots pm') \<le> length (pm_slots pm)
     \<and> (progress' \<longrightarrow> progress \<or> length (pm_slots pm') < length (pm_slots pm))"
proof (induction poll i progress pm w rule: pm_drain.induct)
  case (1 poll i progress pm w)
  show ?case
  proof (cases "i < length (pm_slots pm)")
    case False
    then show ?thesis using "1.prems" by (subst (asm) pm_drain.simps) simp
  next
    case True
    obtain w1 f r where p: "poll (pm_slots pm ! i) w = (w1, f, r)" by (metis prod_cases3)
    show ?thesis
    proof (cases r)
      case PollPending
      then show ?thesis using True p "1.prems" "1.IH"(2) [OF True p [symmetric] refl PollPending]
        by (subst (asm) pm_drain.simps) (auto simp del: split_paired_All)
    next
      case (Ready q)
      show ?thesis
      proof (cases q)
        case (Inl e)
        then show ?thesis using True p "1.prems" Ready by (subst (asm) pm_drain.simps) simp
      next
        case (Inr reply)
        let ?pm = "pm\<lparr>pm_slots := swap_remove i ((pm_slots pm)[i := f])\<rparr>"
        obtain pm1 e where s: "store_items (br_start reply) (br_items reply) ?pm = (pm1, e)" by force
        note fr = store_items_frame [OF s]
        show ?thesis
        proof (cases e)
          case (Some x)
          then show ?thesis using True p "1.prems" Ready Inr s by (subst (asm) pm_drain.simps) simp
        next
          case None
          then have "pm_drain poll i True pm1 w1 = (pm', w', Ok progress')"
            using True p "1.prems" Ready Inr s by (subst (asm) pm_drain.simps) simp
          from "1.IH"(1) [OF True p [symmetric] refl Ready Inr s [symmetric] None this] show ?thesis
            using fr swap_remove_length [of i "(pm_slots pm)[i := f]"] True by auto
        qed
      qed
    qed
  qed
qed

text \<open>The loop of \<open>poll\<close>: it goes round again only when a batch has ended.\<close>

function pmap_poll ::
  "('a, 'f, 'w) submit \<Rightarrow> ('o, 'f, 'w) poll_slot \<Rightarrow> ('a, 'o, 'f) pmap_future \<Rightarrow> 'w
     \<Rightarrow> ('a, 'o, 'f) pmap_future \<times> 'w \<times> (unit fault, (algorithm_error, 'o list \<times> controller_stats) result poll) result"
where
  "pmap_poll submit poll pm w =
     (case pm_fill submit (pm_pending pm) pm w of
        (pm1, w1, Some Panic) \<Rightarrow> (pm1, w1, Err Panic)
      | (pm1, w1, Some (Fail e)) \<Rightarrow> (pm1, w1, Ok (Ready (Err (AgRuntime e))))
      | (pm1, w1, None) \<Rightarrow>
          (case pm_drain poll 0 False pm1 w1 of
             (pm2, w2, Inl Panic) \<Rightarrow> (pm2, w2, Err Panic)
           | (pm2, w2, Inl (Fail e)) \<Rightarrow> (pm2, w2, Ok (Ready (Err e)))
           | (pm2, w2, Inr progress) \<Rightarrow>
               if pm_pending pm2 = [] \<and> pm_slots pm2 = []
               then (case pm_finish pm2 of (pm3, r) \<Rightarrow> (pm3, w2, Ok (Ready r)))
               else if \<not> progress then (pm2, w2, Ok PollPending)
               else pmap_poll submit poll pm2 w2))"
  by pat_completeness auto

termination
  by (relation "measure (\<lambda>(submit, poll, pm, w). length (pm_pending pm) + length (pm_slots pm))")
    (auto dest!: pm_fill_work [OF sym] pm_drain_work [OF sym])

declare pmap_poll.simps [simp del]

subsection \<open>Where the batches go\<close>

definition pmap ::
  "locality_id list \<Rightarrow> pmap_options \<Rightarrow> 'a list \<Rightarrow> (algorithm_error, ('a, 'o, 'f) pmap_future) result"
where
  "pmap localities p items = res_bind (with_targets (length localities) p) (pmap_build items)"

text \<open>\<open>pmap_at\<close>, \<open>pmap_colocated\<close> and \<open>pmap_preferred_colocated\<close> have one target.\<close>

definition pmap_single :: "pmap_options \<Rightarrow> 'a list \<Rightarrow> (algorithm_error, ('a, 'o, 'f) pmap_future) result" where
  "pmap_single p items = res_bind (with_targets 1 p) (pmap_build items)"

definition pmap_places :: "locality_id list \<Rightarrow> domain_id \<Rightarrow> place list" where
  "pmap_places localities domain = map (\<lambda>l. \<lparr>pl_locality = l, pl_domain = domain\<rparr>) localities"

text \<open>The closure of \<open>pmap\<close> takes the places in turn; \<open>spawn\<close> is \<open>spawn_on_with\<close> of the client.\<close>

definition round_robin ::
  "(place \<Rightarrow> ('a, 'f, 'w) submit) \<Rightarrow> place list \<Rightarrow> ('a, 'f, 'w \<times> nat) submit"
where
  "round_robin spawn places b = (\<lambda>(w, k).
     (case spawn (places ! (k mod length places)) b w of (w1, r) \<Rightarrow> ((w1, k + 1), r)))"

section \<open>Collectives\<close>

definition COLLECTIVE_MASK :: u128 where
  "COLLECTIVE_MASK = 0xe5040000000000000000000000000001"

record ('f, 't) gather_future =
  gf_futures :: "'f option list"
  gf_values :: "'t option list"

definition gather :: "'f list \<Rightarrow> ('f, 't) gather_future" where
  "gather futures = \<lparr>gf_futures = map Some futures, gf_values = replicate (length futures) None\<rparr>"

text \<open>The loop of \<open>poll\<close> over the futures; \<open>Some\<close> an error ends it, and a future that panics.\<close>

fun gather_loop ::
  "('f \<Rightarrow> 'w \<Rightarrow> 'w \<times> 'f \<times> (unit fault, (runtime_error, 't) result poll) result) \<Rightarrow> nat list \<Rightarrow> bool \<Rightarrow> ('f, 't) gather_future \<Rightarrow> 'w
     \<Rightarrow> ('f, 't) gather_future \<times> 'w \<times> (runtime_error fault, bool) result"
where
  "gather_loop poll [] pending g w = (g, w, Ok pending)"
| "gather_loop poll (i # is) pending g w =
     (case gf_futures g ! i of
        None \<Rightarrow> gather_loop poll is pending g w
      | Some f \<Rightarrow>
          (case poll f w of
             (w1, f1, Inl _) \<Rightarrow> (g\<lparr>gf_futures := (gf_futures g)[i := Some f1]\<rparr>, w1, Err Panic)
           | (w1, f1, Inr PollPending) \<Rightarrow> gather_loop poll is True (g\<lparr>gf_futures := (gf_futures g)[i := Some f1]\<rparr>) w1
           | (w1, f1, Inr (Ready (Inl e))) \<Rightarrow> (g\<lparr>gf_futures := (gf_futures g)[i := Some f1]\<rparr>, w1, Err (Fail e))
           | (w1, f1, Inr (Ready (Inr v))) \<Rightarrow>
               gather_loop poll is pending (g\<lparr>gf_futures := (gf_futures g)[i := None], gf_values := (gf_values g)[i := Some v]\<rparr>) w1))"

definition gather_poll ::
  "('f \<Rightarrow> 'w \<Rightarrow> 'w \<times> 'f \<times> (unit fault, (runtime_error, 't) result poll) result) \<Rightarrow> ('f, 't) gather_future \<Rightarrow> 'w
     \<Rightarrow> ('f, 't) gather_future \<times> 'w \<times> (unit fault, (algorithm_error, 't list) result poll) result"
where
  "gather_poll poll g w =
     (case gather_loop poll [0..<length (gf_futures g)] False g w of
        (g1, w1, Inl Panic) \<Rightarrow> (g1, w1, Err Panic)
      | (g1, w1, Inl (Fail e)) \<Rightarrow> (g1, w1, Ok (Ready (Err (AgRuntime e))))
      | (g1, w1, Inr True) \<Rightarrow> (g1, w1, Ok PollPending)
      | (g1, w1, Inr False) \<Rightarrow>
          if None \<in> set (gf_values g1) then (g1, w1, Err Panic)
          else (g1\<lparr>gf_values := map (\<lambda>_. None) (gf_values g1)\<rparr>, w1, Ok (Ready (Ok (map the (gf_values g1))))))"

text \<open>One call for each locality; the first that is refused drops the others.\<close>

fun spawn_all ::
  "(locality_id \<Rightarrow> 't \<Rightarrow> 'w \<Rightarrow> 'w \<times> (runtime_error fault, 'f) result) \<Rightarrow> ('f \<Rightarrow> 'w \<Rightarrow> 'w) \<Rightarrow> ('t \<times> locality_id) list \<Rightarrow> 'f list \<Rightarrow> 'w
     \<Rightarrow> 'w \<times> (runtime_error fault, 'f list) result"
where
  "spawn_all spawn drop_future [] fs w = (w, Ok fs)"
| "spawn_all spawn drop_future ((v, l) # rest) fs w =
     (case spawn l v w of
        (w1, Inl e) \<Rightarrow> (fold drop_future fs w1, Err e)
      | (w1, Inr f) \<Rightarrow> spawn_all spawn drop_future rest (fs @ [f]) w1)"

definition scatter ::
  "(locality_id \<Rightarrow> 't \<Rightarrow> 'w \<Rightarrow> 'w \<times> (runtime_error fault, 'f) result) \<Rightarrow> ('f \<Rightarrow> 'w \<Rightarrow> 'w) \<Rightarrow> locality_id list \<Rightarrow> 't list \<Rightarrow> 'w
     \<Rightarrow> 'w \<times> (algorithm_error fault, ('f, 't) gather_future) result"
where
  "scatter spawn drop_future localities vs w =
     (if length vs \<noteq> length localities then (w, Err (Fail (AgInputShape ''scatter requires one value per locality'')))
      else (case spawn_all spawn drop_future (zip vs localities) [] w of
          (w1, Inl Panic) \<Rightarrow> (w1, Err Panic)
        | (w1, Inl (Fail e)) \<Rightarrow> (w1, Err (Fail (AgRuntime e)))
        | (w1, Inr fs) \<Rightarrow> (w1, Ok (gather fs))))"

definition broadcast ::
  "(locality_id \<Rightarrow> 't \<Rightarrow> 'w \<Rightarrow> 'w \<times> (runtime_error fault, 'f) result) \<Rightarrow> ('f \<Rightarrow> 'w \<Rightarrow> 'w) \<Rightarrow> locality_id list \<Rightarrow> 't \<Rightarrow> 'w
     \<Rightarrow> 'w \<times> (algorithm_error fault, ('f, 't) gather_future) result"
where
  "broadcast spawn drop_future localities v w =
     (case spawn_all spawn drop_future (map (\<lambda>l. (v, l)) localities) [] w of
        (w1, Inl Panic) \<Rightarrow> (w1, Err Panic)
      | (w1, Inl (Fail e)) \<Rightarrow> (w1, Err (Fail (AgRuntime e)))
      | (w1, Inr fs) \<Rightarrow> (w1, Ok (gather fs)))"

end
