(* ===== verification/BatchProps.thy ===== *)
theory BatchProps
  imports Batches
begin

text \<open>What holds of the batches of \<open>Batches\<close>: their encoding is exact, and a parallel map is a map.\<close>

lemma res_map_Ok_iff: "res_map f r = Ok b \<longleftrightarrow> (\<exists>a. r = Ok a \<and> b = f a)"
  by (cases r) auto

subsection \<open>The encoding of batches\<close>

text \<open>\<open>bs\<close> stands in \<open>h\<close> from \<open>at\<close> up to \<open>at'\<close>.\<close>

definition reads :: "bytes \<Rightarrow> usize \<Rightarrow> bytes \<Rightarrow> usize \<Rightarrow> bool" where
  "reads h at bs at' \<longleftrightarrow> at' = at + length bs \<and> (\<exists>post. drop at h = bs @ post) \<and> at \<le> length h"

lemma reads_bound: "reads h at bs at' \<Longrightarrow> at' \<le> length h"
  by (auto simp: reads_def dest!: arg_cong [where f = length])

lemma reads_append: "reads h at (bs @ cs) at'' \<longleftrightarrow> (\<exists>at'. reads h at bs at' \<and> reads h at' cs at'')"
proof
  assume r: "reads h at (bs @ cs) at''"
  then obtain post where post: "drop at h = bs @ cs @ post" "at'' = at + length bs + length cs" "at \<le> length h" by (auto simp: reads_def)
  have "drop (at + length bs) h = drop (length bs) (drop at h)" by (simp add: add.commute)
  then have "drop (at + length bs) h = cs @ post" using post(1) by simp
  with post reads_bound [OF r] have "reads h at bs (at + length bs)" "reads h (at + length bs) cs at''"
    by (auto simp: reads_def)
  then show "\<exists>at'. reads h at bs at' \<and> reads h at' cs at''" by blast
next
  assume "\<exists>at'. reads h at bs at' \<and> reads h at' cs at''"
  then obtain post post' where post: "drop at h = bs @ post" "drop (at + length bs) h = cs @ post'" "at'' = at + length bs + length cs" "at \<le> length h"
    by (auto simp: reads_def)
  have "drop (at + length bs) h = drop (length bs) (drop at h)" by (simp add: add.commute)
  with post(1,2) have "drop at h = bs @ cs @ post'" by simp
  with post(3,4) show "reads h at (bs @ cs) at''" by (auto simp: reads_def)
qed

lemma reads_nil [simp]: "reads h at [] at' \<longleftrightarrow> at' = at \<and> at \<le> length h"
  by (auto simp: reads_def)

lemma length_put [simp]: "length (put v) = 8"
  by (simp add: put_def)

lemma put_from_le: "v \<le> USIZE_MAX \<Longrightarrow> unat (from_le (put v) :: u64) = v"
  by (simp add: put_def USIZE_MAX_def unat_of_nat take_bit_nat_eq_self)

lemma put_of_bytes: "length bs = 8 \<Longrightarrow> put (unat (from_le bs :: u64)) = bs \<and> unat (from_le bs :: u64) \<le> USIZE_MAX"
  using unsigned_less [of "from_le bs :: u64", where 'a = nat] by (simp add: put_def int_le_from_le USIZE_MAX_def)

lemma put_inj: "v \<le> USIZE_MAX \<Longrightarrow> w \<le> USIZE_MAX \<Longrightarrow> put v = put w \<Longrightarrow> v = w"
  using put_from_le by metis

lemma take_usize_Ok:
  assumes "length h + 8 \<le> USIZE_MAX" "at \<le> length h"
  shows "take_usize h at = Ok (v, e) \<longleftrightarrow> v \<le> USIZE_MAX \<and> reads h at (put v) e"
proof
  assume "take_usize h at = Ok (v, e)"
  then have e: "e = at + 8" "at + 8 \<le> length h" "v = unat (from_le (slice_range h at (at + 8)) :: u64)"
    by (auto simp: take_usize_def split: option.splits if_splits)
  then have "put v = slice_range h at (at + 8)" "v \<le> USIZE_MAX"
    using put_of_bytes [of "slice_range h at (at + 8)"] by (simp_all add: length_slice)
  with e show "v \<le> USIZE_MAX \<and> reads h at (put v) e"
    by (auto simp: reads_def slice_range_def) (metis append_take_drop_id)
next
  assume v: "v \<le> USIZE_MAX \<and> reads h at (put v) e"
  then have "at + 8 \<le> length h" "e = at + 8" using reads_bound [of h at "put v" e] by (auto simp: reads_def)
  moreover have "slice_range h at (at + 8) = put v" using v by (auto simp: slice_range_def reads_def)
  ultimately show "take_usize h at = Ok (v, e)" using v assms by (simp add: take_usize_def checked_add_usize_def put_from_le)
qed

lemma take_lengths_Ok:
  assumes "length h + 8 \<le> USIZE_MAX" "at \<le> length h"
  shows "take_lengths h n at = Ok (ls, e) \<longleftrightarrow> length ls = n \<and> list_all (\<lambda>l. l \<le> USIZE_MAX) ls \<and> reads h at (concat (map put ls)) e"
  using assms(2)
proof (induction n arbitrary: at ls)
  case 0
  then show ?case by auto
next
  case (Suc n)
  show ?case
  proof (cases ls)
    case Nil
    then show ?thesis by (auto split: prod.splits)
  next
    case (Cons l ls')
    have "take_lengths h (Suc n) at = Ok (ls, e) \<longleftrightarrow> (\<exists>at1. take_usize h at = Ok (l, at1) \<and> take_lengths h n at1 = Ok (ls', e))"
      using Cons by (auto split: prod.splits)
    also have "\<dots> \<longleftrightarrow> (\<exists>at1. l \<le> USIZE_MAX \<and> reads h at (put l) at1 \<and> length ls' = n \<and> list_all (\<lambda>l. l \<le> USIZE_MAX) ls'
        \<and> reads h at1 (concat (map put ls')) e)"
      using take_usize_Ok [OF assms(1) Suc.prems] Suc.IH reads_bound by blast
    finally show ?thesis using Cons by (auto simp: reads_append)
  qed
qed

definition item_image :: "usize list \<Rightarrow> bytes" where
  "item_image ls = put (length ls) @ concat (map put ls)"

definition nested_image :: "segments list \<Rightarrow> bytes" where
  "nested_image sss = concat (map (\<lambda>ss. item_image (map length ss)) sss)"

lemma reads_item:
  "reads h at (item_image ls @ bs) e \<longleftrightarrow>
     (\<exists>at1 at2. reads h at (put (length ls)) at1 \<and> reads h at1 (concat (map put ls)) at2 \<and> reads h at2 bs e)"
  unfolding item_image_def append_assoc reads_append by blast

lemma take_items_Ok:
  assumes "length h + 8 \<le> USIZE_MAX" "at \<le> length h"
  shows "take_items h k at = Ok (lss, e) \<longleftrightarrow>
    length lss = k \<and> list_all (\<lambda>ls. 8 * length ls < 2 ^ 63 \<and> list_all (\<lambda>l. l \<le> USIZE_MAX) ls) lss
    \<and> reads h at (concat (map item_image lss)) e"
  using assms(2)
proof (induction k arbitrary: at lss)
  case 0
  then show ?case by auto
next
  case (Suc k)
  show ?case
  proof (cases lss)
    case Nil
    then show ?thesis by (auto split: prod.splits if_splits)
  next
    case (Cons ls lss')
    have "take_items h (Suc k) at = Ok (lss, e) \<longleftrightarrow> (\<exists>n at1 at2. take_usize h at = Ok (n, at1) \<and> 8 * n < 2 ^ 63
        \<and> take_lengths h n at1 = Ok (ls, at2) \<and> take_items h k at2 = Ok (lss', e))"
      using Cons by (auto split: prod.splits if_splits) (metis not_le)
    also have "\<dots> \<longleftrightarrow> (\<exists>at1 at2. 8 * length ls < 2 ^ 63 \<and> reads h at (put (length ls)) at1 \<and> list_all (\<lambda>l. l \<le> USIZE_MAX) ls
        \<and> reads h at1 (concat (map put ls)) at2 \<and> take_items h k at2 = Ok (lss', e))" (is "?l \<longleftrightarrow> ?r")
    proof
      assume ?l
      then obtain n at1 at2 where f: "take_usize h at = Ok (n, at1)" "8 * n < 2 ^ 63" "take_lengths h n at1 = Ok (ls, at2)"
        "take_items h k at2 = Ok (lss', e)" by blast
      from f(1) have r: "reads h at (put n) at1" using take_usize_Ok [OF assms(1) Suc.prems] by simp
      from f(3) have "length ls = n \<and> list_all (\<lambda>l. l \<le> USIZE_MAX) ls \<and> reads h at1 (concat (map put ls)) at2"
        using take_lengths_Ok [OF assms(1) reads_bound [OF r]] by simp
      with f r show ?r by blast
    next
      assume ?r
      then obtain at1 at2 where f: "8 * length ls < 2 ^ 63" "reads h at (put (length ls)) at1" "list_all (\<lambda>l. l \<le> USIZE_MAX) ls"
        "reads h at1 (concat (map put ls)) at2" "take_items h k at2 = Ok (lss', e)" by blast
      from f(1) have "length ls \<le> USIZE_MAX" by (simp add: USIZE_MAX_def)
      with f(2) have "take_usize h at = Ok (length ls, at1)" using take_usize_Ok [OF assms(1) Suc.prems] by simp
      moreover from f(3,4) have "take_lengths h (length ls) at1 = Ok (ls, at2)"
        using take_lengths_Ok [OF assms(1) reads_bound [OF f(2)]] by simp
      ultimately show ?l using f by blast
    qed
    also have "\<dots> \<longleftrightarrow> (\<exists>at1 at2. 8 * length ls < 2 ^ 63 \<and> reads h at (put (length ls)) at1 \<and> list_all (\<lambda>l. l \<le> USIZE_MAX) ls
        \<and> reads h at1 (concat (map put ls)) at2 \<and> length lss' = k
        \<and> list_all (\<lambda>ls. 8 * length ls < 2 ^ 63 \<and> list_all (\<lambda>l. l \<le> USIZE_MAX) ls) lss'
        \<and> reads h at2 (concat (map item_image lss')) e)"
      using Suc.IH reads_bound by blast
    also have "\<dots> \<longleftrightarrow> length lss = Suc k \<and> list_all (\<lambda>ls. 8 * length ls < 2 ^ 63 \<and> list_all (\<lambda>l. l \<le> USIZE_MAX) ls) lss
        \<and> reads h at (concat (map item_image lss)) e"
      unfolding Cons list.map concat.simps reads_item by auto
    finally show ?thesis .
  qed
qed

lemma take_segments_Ok: "take_segments ls source = Ok (bs, rest) \<longleftrightarrow> source = bs @ rest \<and> map length bs = ls"
  by (induction ls source arbitrary: bs rule: take_segments.induct) (auto simp: Cons_eq_append_conv map_eq_Cons_conv Cons_eq_map_conv)

lemma take_values_Ok:
  "take_values dec lss source = Ok vs \<longleftrightarrow>
     (\<exists>sss rest. source = concat sss @ rest \<and> map (map length) sss = lss \<and> list_all2 (\<lambda>ss v. dec ss = Ok v) sss vs)"
proof (induction lss arbitrary: source vs)
  case Nil
  then show ?case by auto
next
  case (Cons ls lss)
  have "take_values dec (ls # lss) source = Ok vs \<longleftrightarrow>
    (\<exists>bs rest v vs'. source = bs @ rest \<and> map length bs = ls \<and> dec bs = Ok v \<and> take_values dec lss rest = Ok vs' \<and> vs = v # vs')"
    by (auto simp: take_segments_Ok)
  also have "\<dots> \<longleftrightarrow> (\<exists>bs sss rest v vs'. source = concat (bs # sss) @ rest \<and> map length bs = ls \<and> dec bs = Ok v
      \<and> map (map length) sss = lss \<and> list_all2 (\<lambda>ss v. dec ss = Ok v) sss vs' \<and> vs = v # vs')"
    by (simp only: Cons.IH concat.simps append_assoc) blast
  also have "\<dots> \<longleftrightarrow> (\<exists>sss rest. source = concat sss @ rest \<and> map (map length) sss = ls # lss \<and> list_all2 (\<lambda>ss v. dec ss = Ok v) sss vs)"
    (is "?l \<longleftrightarrow> ?r")
  proof
    assume ?l
    then obtain bs sss rest v vs' where "source = concat (bs # sss) @ rest" "map length bs = ls" "dec bs = Ok v"
      "map (map length) sss = lss" "list_all2 (\<lambda>ss v. dec ss = Ok v) sss vs'" "vs = v # vs'" by blast
    then show ?r by (intro exI [of _ "bs # sss"] exI [of _ rest]) simp
  next
    assume ?r
    then obtain sss rest where f: "source = concat sss @ rest \<and> map (map length) sss = ls # lss \<and> list_all2 (\<lambda>ss v. dec ss = Ok v) sss vs"
      by (elim exE)
    then have "map (map length) sss = ls # lss" "length sss = length vs" using list_all2_lengthD by blast+
    then obtain bs sss' v vs' where "sss = bs # sss'" "vs = v # vs'" by (cases sss; cases vs) auto
    with f show ?l by (intro exI [of _ bs] exI [of _ sss'] exI [of _ rest] exI [of _ v] exI [of _ vs']) simp
  qed
  finally show ?case .
qed

lemma nest_values_Ok:
  "nest_values enc vs header out = Ok ss \<longleftrightarrow>
     (\<exists>sss. list_all2 (\<lambda>v s. enc v = Ok s) vs sss \<and> ss = (header @ nested_image sss) # out @ concat sss)"
proof (induction enc vs header out rule: nest_values.induct)
  case (1 enc header out)
  then show ?case by (auto simp: nested_image_def)
next
  case (2 enc v vs header out)
  have "nest_values enc (v # vs) header out = Ok ss \<longleftrightarrow>
    (\<exists>s. enc v = Ok s \<and> nest_values enc vs (header @ item_image (map length s)) (out @ s) = Ok ss)"
    by (simp add: item_image_def comp_def)
  also have "\<dots> \<longleftrightarrow> (\<exists>s sss. enc v = Ok s \<and> list_all2 (\<lambda>v s. enc v = Ok s) vs sss
      \<and> ss = (header @ nested_image (s # sss)) # out @ concat (s # sss))"
    using "2.IH" by (auto simp: nested_image_def item_image_def comp_def)
  finally show ?case unfolding list_all2_Cons1 by blast
qed

text \<open>The segments a decoder takes are those whose header is the image of the rest.\<close>

lemma decode_nested_Ok:
  assumes "length h + 8 \<le> USIZE_MAX" "prefix \<le> length h" and small: "list_all (\<lambda>s. length s \<le> USIZE_MAX) src" "8 * length src < 2 ^ 63"
  shows "decode_nested dec (h # src) prefix = Ok (h', vs) \<longleftrightarrow> h' = h \<and> length vs \<le> MAX_BATCH_ITEMS
    \<and> (\<exists>sss. reads h prefix (put (length vs) @ nested_image sss) (length h) \<and> src = concat sss \<and> list_all2 (\<lambda>ss v. dec ss = Ok v) sss vs)"
    (is "?l \<longleftrightarrow> ?r")
proof
  assume ?l
  then obtain count at lss where f: "take_usize h prefix = Ok (count, at)" "count \<le> MAX_BATCH_ITEMS"
      "take_items h count at = Ok (lss, length h)" "length src = sum_list (map length lss)" "take_values dec lss src = Ok vs" "h' = h"
  proof -
    from \<open>?l\<close> obtain count at where t: "take_usize h prefix = Ok (count, at)" by (auto simp: decode_nested_def)
    with \<open>?l\<close> have c: "\<not> MAX_BATCH_ITEMS < count" by (auto simp: decode_nested_def)
    with t \<open>?l\<close> obtain lss at1 where i: "take_items h count at = Ok (lss, at1)" by (auto simp: decode_nested_def)
    with c t \<open>?l\<close> have "at1 = length h" "checked_sum 0 (map length lss) = Some (length src)" "take_values dec lss src = Ok vs" "h' = h"
      by (simp_all add: decode_nested_def res_map_Ok_iff split: if_splits option.splits)
    with t c i show thesis by (intro that [of count at lss]) (auto simp: checked_sum_Some)
  qed
  from f(1) have at: "reads h prefix (put count) at" using take_usize_Ok [OF assms(1,2)] by simp
  with f(3) have lss: "length lss = count" "reads h at (concat (map item_image lss)) (length h)"
    using take_items_Ok [OF assms(1)] reads_bound by auto
  from f(5) obtain sss rest where sss: "src = concat sss @ rest" "map (map length) sss = lss" "list_all2 (\<lambda>ss v. dec ss = Ok v) sss vs"
    by (auto simp: take_values_Ok)
  have "sum_list (map length lss) = length (concat sss)" by (simp add: sss(2) [symmetric] length_concat comp_def)
  with f(4) sss(1) have "rest = []" by simp
  moreover have "length vs = count" using list_all2_lengthD [OF sss(3)] lss(1) sss(2) by (metis length_map)
  moreover have "concat (map item_image lss) = nested_image sss" by (simp add: nested_image_def sss(2) [symmetric] comp_def)
  ultimately have "reads h prefix (put (length vs) @ nested_image sss) (length h)" "src = concat sss" "length vs = count"
    using at lss(2) sss(1) by (auto simp: reads_append)
  then show ?r using f(2,6) sss(3) by blast
next
  assume r: ?r
  then obtain sss at where f: "h' = h" "length vs \<le> MAX_BATCH_ITEMS" "reads h prefix (put (length vs)) at" "reads h at (nested_image sss) (length h)"
    "src = concat sss" "list_all2 (\<lambda>ss v. dec ss = Ok v) sss vs" by (auto simp: reads_append)
  have "length vs \<le> USIZE_MAX" using f(2) by (simp add: MAX_BATCH_ITEMS_def USIZE_MAX_def)
  then have t: "take_usize h prefix = Ok (length vs, at)" using f(3) take_usize_Ok [OF assms(1,2)] by simp
  let ?lss = "map (map length) sss"
  have sum: "sum_list (map length ?lss) = length src" by (simp add: f(5) length_concat comp_def)
  have "8 * length ss < 2 ^ 63 \<and> list_all (\<lambda>l. l \<le> USIZE_MAX) (map length ss)" if "ss \<in> set sss" for ss
  proof -
    have "length ss \<le> length src" using that by (auto simp: f(5) length_concat intro: member_le_sum_list)
    moreover have "s \<in> set src" if "s \<in> set ss" for s using that \<open>ss \<in> set sss\<close> by (auto simp: f(5))
    ultimately show ?thesis using small by (auto simp: list_all_iff)
  qed
  then have "take_items h (length vs) at = Ok (?lss, length h)"
    using f(4) list_all2_lengthD [OF f(6)] take_items_Ok [OF assms(1) reads_bound [OF f(3)]]
    by (simp add: nested_image_def list_all_iff comp_def)
  moreover have "take_values dec ?lss src = Ok vs" using f(5,6) by (auto simp: take_values_Ok intro: exI [of _ "[]"])
  moreover have "checked_sum 0 (map length ?lss) = Some (length src)"
    using sum small(2) by (simp add: checked_sum_Some USIZE_MAX_def)
  ultimately show ?l using t f(1,2) by (simp add: decode_nested_def)
qed

lemma mode_code_exact: "mode_of_code c = Some m \<longleftrightarrow> mode_code m = c"
  by (cases m) (auto simp: mode_of_code_def)

lemma encode_nested_Ok:
  "encode_nested enc vs prefix = Ok ss \<longleftrightarrow> length vs \<le> MAX_BATCH_ITEMS
    \<and> (\<exists>sss. list_all2 (\<lambda>v s. enc v = Ok s) vs sss \<and> ss = (prefix @ put (length vs) @ nested_image sss) # concat sss)"
  by (auto simp: encode_nested_def nest_values_Ok)

lemma ex_conj_shift: "(A \<and> B \<and> (\<exists>s. P s \<and> C)) \<longleftrightarrow> (A \<and> (B \<and> (\<exists>s. P s)) \<and> C)"
  by blast

lemma nested_codec:
  assumes "\<And>ss v. dec ss = Ok v \<longleftrightarrow> enc v = Ok ss \<and> V v" and "length h + 8 \<le> USIZE_MAX" "n \<le> length h"
    and "list_all (\<lambda>s. length s \<le> USIZE_MAX) src" "8 * length src < 2 ^ 63"
  shows "decode_nested dec (h # src) n = Ok (h', vs) \<longleftrightarrow> h' = h \<and> encode_nested enc vs (take n h) = Ok (h # src) \<and> list_all V vs"
proof -
  have "reads h n bs (length h) \<longleftrightarrow> h = take n h @ bs" for bs
  proof -
    have "reads h n bs (length h) \<longleftrightarrow> drop n h = bs"
    proof
      assume "reads h n bs (length h)"
      then obtain post where r: "length h = n + length bs" "drop n h = bs @ post" by (auto simp: reads_def)
      then have "length h - n = length bs + length post" by (metis length_append length_drop)
      with r show "drop n h = bs" by simp
    next
      assume "drop n h = bs"
      then show "reads h n bs (length h)" using assms(3) by (auto simp: reads_def)
    qed
    also have "\<dots> \<longleftrightarrow> take n h @ drop n h = take n h @ bs" by (rule same_append_eq [symmetric])
    finally show ?thesis by (simp only: append_take_drop_id)
  qed
  moreover have "list_all2 (\<lambda>ss v. dec ss = Ok v) sss vs \<longleftrightarrow> list_all2 (\<lambda>v s. enc v = Ok s) vs sss \<and> list_all V vs" for sss
    by (auto simp: list_all2_conv_all_nth list_all_length assms(1))
  ultimately have k: "(reads h n (put (length vs) @ nested_image sss) (length h) \<and> src = concat sss \<and> list_all2 (\<lambda>ss v. dec ss = Ok v) sss vs)
      \<longleftrightarrow> (list_all2 (\<lambda>v s. enc v = Ok s) vs sss \<and> h # src = (take n h @ put (length vs) @ nested_image sss) # concat sss) \<and> list_all V vs" for sss
    by (simp only: list.inject conj_ac)
  show ?thesis
    by (rule trans [OF decode_nested_Ok [OF assms(2-5)]]) (unfold k encode_nested_Ok, rule ex_conj_shift)
qed

text \<open>What fits the address space: an allocation has fewer than \<open>2 ^ 63\<close> bytes.\<close>

definition allocatable :: "segments \<Rightarrow> bool" where
  "allocatable ss \<longleftrightarrow> 8 * length ss < 2 ^ 63 \<and> list_all (\<lambda>s. length s < 2 ^ 63) ss"

lemma allocatable_Cons:
  assumes "allocatable (h # src)"
  shows "length h + 8 \<le> USIZE_MAX" "list_all (\<lambda>s. length s \<le> USIZE_MAX) src" "8 * length src < 2 ^ 63"
  using assms by (auto simp: allocatable_def USIZE_MAX_def list_all_iff dest!: bspec)

text \<open>A reply that can come off the wire: its messages are short UTF-8.\<close>

fun wire_reply :: "'o item_reply \<Rightarrow> bool" where
  "wire_reply (IrOk v) \<longleftrightarrow> True"
| "wire_reply (IrErr m) \<longleftrightarrow> utf8_valid m \<and> length m \<le> MAX_ERROR_BYTES"

lemma shorten_short [simp]: "length m \<le> MAX_ERROR_BYTES \<Longrightarrow> shorten m = m"
  by (subst shorten.simps) simp

lemma shorten_wire_reply [simp]: "wire_reply r \<Longrightarrow> shorten_reply r = r"
  by (cases r) auto

lemma shorten_wire_replies: "list_all wire_reply rs \<Longrightarrow> map shorten_reply rs = rs"
  by (induction rs) auto

lemma reply_wire_exact:
  assumes "\<And>ss v. dec ss = Ok v \<longleftrightarrow> enc v = Ok ss"
  shows "reply_wire_decode dec ss = Ok r \<longleftrightarrow> reply_wire_encode enc r = Ok ss \<and> wire_reply r"
proof (cases r)
  case (IrOk v)
  then show ?thesis
    using assms by (auto simp: reply_wire_decode_def reply_wire_encode_def res_map_Ok_iff split: list.splits if_splits)
next
  case (IrErr m)
  then show ?thesis
    by (auto simp: reply_wire_decode_def reply_wire_encode_def res_map_Ok_iff split: list.splits if_splits)
qed

lemma take_start:
  assumes "length h + 8 \<le> USIZE_MAX"
  shows "take_usize h 0 = Ok (start, at) \<longleftrightarrow> start \<le> USIZE_MAX \<and> at = 8 \<and> 8 \<le> length h \<and> take 8 h = put start"
  using assms by (auto simp: take_usize_Ok reads_def) (metis append_take_drop_id)

lemma encode_nested_prefix: "encode_nested enc vs prefix = Ok (h # src) \<Longrightarrow> take (length prefix) h = prefix \<and> length prefix \<le> length h"
  by (auto simp: encode_nested_Ok)

lemma batch_exact:
  assumes codec: "\<And>ss v. dec ss = Ok v \<longleftrightarrow> enc v = Ok ss" and ss: "allocatable ss" and b: "ba_start b \<le> USIZE_MAX"
  shows "batch_decode dec ss = Ok b \<longleftrightarrow> batch_encode enc b = Ok ss"
proof (cases ss)
  case Nil
  then show ?thesis by (simp add: batch_decode_def batch_encode_def encode_nested_Ok)
next
  case (Cons h src)
  note al = allocatable_Cons [OF ss [unfolded Cons]]
  have nest: "decode_nested dec (h # src) n = Ok (h', vs) \<longleftrightarrow> h' = h \<and> encode_nested enc vs (take n h) = Ok (h # src)" if "n \<le> length h" for n h' vs
    using nested_codec [where V = "\<lambda>_. True", of dec enc h n src] codec al that by (simp add: list_all_iff)
  obtain start mode items where bb: "b = \<lparr>ba_start = start, ba_mode = mode, ba_items = items\<rparr>" by (cases b)
  have "batch_decode dec ss = Ok b \<longleftrightarrow>
    take_usize h 0 = Ok (start, 8) \<and> 8 < length h \<and> mode_code mode = h ! 8 \<and> decode_nested dec (h # src) 9 = Ok (h, items)" (is "?l \<longleftrightarrow> ?m")
  proof
    assume l: ?l
    then obtain at where t: "take_usize h 0 = Ok (start, at)"
      by (auto simp: batch_decode_def Cons bb res_map_Ok_iff split: if_splits option.splits)
    then have "at = 8" by (simp add: take_start [OF al(1)])
    with t l show ?m using nest [of 9] by (auto simp: batch_decode_def Cons bb mode_code_exact res_map_Ok_iff split: if_splits option.splits)
  next
    assume ?m
    moreover from this have "mode_of_code (h ! 8) = Some mode" by (simp add: mode_code_exact)
    ultimately show ?l by (simp add: batch_decode_def Cons bb res_map_Ok_iff)
  qed
  also have "\<dots> \<longleftrightarrow> take 9 h = put start @ [mode_code mode] \<and> 9 \<le> length h \<and> encode_nested enc items (take 9 h) = Ok (h # src)"
  proof -
    have "take 9 h = take 8 h @ [h ! 8]" if "8 < length h" using take_Suc_conv_app_nth [OF that] by simp
    then show ?thesis using b nest [of 9 h items] by (auto simp: take_start [OF al(1)] bb)
  qed
  also have "\<dots> \<longleftrightarrow> batch_encode enc b = Ok ss"
    using encode_nested_prefix [of enc items "put start @ [mode_code mode]" h src] by (auto simp: batch_encode_def Cons bb)
  finally show ?thesis .
qed

lemma reply_exact:
  assumes codec: "\<And>ss v. dec ss = Ok v \<longleftrightarrow> enc v = Ok ss" and ss: "allocatable ss" and r: "br_start r \<le> USIZE_MAX"
  shows "reply_decode dec ss = Ok r \<longleftrightarrow> reply_encode enc r = Ok ss \<and> list_all wire_reply (br_items r)"
proof (cases ss)
  case Nil
  then show ?thesis by (simp add: reply_decode_def reply_encode_def encode_nested_Ok)
next
  case (Cons h src)
  note al = allocatable_Cons [OF ss [unfolded Cons]]
  have nest: "decode_nested (reply_wire_decode dec) (h # src) 8 = Ok (h', vs) \<longleftrightarrow>
      h' = h \<and> encode_nested (reply_wire_encode enc) vs (take 8 h) = Ok (h # src) \<and> list_all wire_reply vs" if "8 \<le> length h" for h' vs
    using nested_codec [OF reply_wire_exact [OF codec] al(1) that al(2,3)] by simp
  obtain start items where rr: "r = \<lparr>br_start = start, br_items = items\<rparr>" by (cases r)
  have "reply_decode dec ss = Ok r \<longleftrightarrow> take_usize h 0 = Ok (start, 8) \<and> decode_nested (reply_wire_decode dec) (h # src) 8 = Ok (h, items)" (is "?l \<longleftrightarrow> ?m")
  proof
    assume l: ?l
    then obtain at where t: "take_usize h 0 = Ok (start, at)" by (auto simp: reply_decode_def Cons rr res_map_Ok_iff)
    then have "at = 8" "8 \<le> length h" by (simp_all add: take_start [OF al(1)])
    with t l show ?m using nest by (auto simp: reply_decode_def Cons rr res_map_Ok_iff)
  next
    assume ?m
    then show ?l by (simp add: reply_decode_def Cons rr res_map_Ok_iff)
  qed
  also have "\<dots> \<longleftrightarrow> take 8 h = put start \<and> 8 \<le> length h \<and> encode_nested (reply_wire_encode enc) items (take 8 h) = Ok (h # src) \<and> list_all wire_reply items"
    using r nest by (auto simp: take_start [OF al(1)] rr)
  also have "\<dots> \<longleftrightarrow> reply_encode enc r = Ok ss \<and> list_all wire_reply (br_items r)"
    using encode_nested_prefix [of "reply_wire_encode enc" items "put start" h src]
    by (auto simp: reply_encode_def Cons rr shorten_wire_replies)
  finally show ?thesis .
qed

text \<open>
  C39. The encoding of a batch and of its reply is exact, for any codec of the items that is: the segments
  that decode to a batch are precisely its encoding, so nothing else is accepted for it and nothing is lost,
  and the segments that decode to a reply are precisely its encoding, for the replies whose messages are
  UTF-8 of at most 4096 bytes; no other reply ever comes off the wire. The segments have to fit an
  address space.
\<close>

theorem batch_codec_exact:
  assumes "\<And>ss v. dec_in ss = Ok v \<longleftrightarrow> enc_in v = Ok ss" and "\<And>ss v. dec_out ss = Ok v \<longleftrightarrow> enc_out v = Ok ss"
    and "allocatable ss" "ba_start b \<le> USIZE_MAX" "br_start r \<le> USIZE_MAX"
  shows "(batch_decode dec_in ss = Ok b \<longleftrightarrow> batch_encode enc_in b = Ok ss)
    \<and> (reply_decode dec_out ss = Ok r \<longleftrightarrow> reply_encode enc_out r = Ok ss \<and> list_all wire_reply (br_items r))"
  using batch_exact [of dec_in enc_in ss b] reply_exact [of dec_out enc_out ss r] assms by blast

definition demo_enc :: "(u64, segments) user_fn" where
  "demo_enc v = res_map_err Fail (u64_encode v)"

definition demo_dec :: "(segments, u64) user_fn" where
  "demo_dec ss = res_map_err Fail (u64_decode ss)"

definition demo_batch :: "u64 batch_action" where
  "demo_batch = \<lparr>ba_start = 2, ba_mode = LmOuter, ba_items = [5, 6]\<rparr>"

definition demo_segments :: segments where
  "demo_segments = (case batch_encode demo_enc demo_batch of Inr ss \<Rightarrow> ss | Inl _ \<Rightarrow> [])"

lemma demo_segments_eq: "demo_segments = [put 2 @ [1] @ put 2 @ put 1 @ put 8 @ put 1 @ put 8, u64_le 5, u64_le 6]"
  by (simp add: demo_segments_def batch_encode_def demo_batch_def encode_nested_def MAX_BATCH_ITEMS_def numeral_2_eq_2 [symmetric] demo_enc_def u64_encode_def)

theorem batch_codec_exact_witness:
  "batch_decode demo_dec demo_segments = Ok demo_batch
   \<and> (reply_decode demo_dec demo_segments = Ok \<lparr>br_start = 2, br_items = []\<rparr> \<longleftrightarrow> reply_encode demo_enc \<lparr>br_start = 2, br_items = []\<rparr> = Ok demo_segments)"
proof -
  have "allocatable demo_segments" "batch_encode demo_enc demo_batch = Ok demo_segments"
    by (simp_all add: demo_segments_eq allocatable_def batch_encode_def demo_batch_def encode_nested_def MAX_BATCH_ITEMS_def numeral_2_eq_2 [symmetric] demo_enc_def u64_encode_def)
  then show ?thesis
    using batch_codec_exact [of demo_dec demo_enc demo_dec demo_enc demo_segments demo_batch "\<lparr>br_start = 2, br_items = []\<rparr>"]
      wire_values_exact by (simp add: demo_enc_def demo_dec_def demo_batch_def USIZE_MAX_def)
qed

section \<open>A parallel map is a map\<close>

text \<open>The piece of the items a batch has.\<close>

definition piece :: "'a list \<Rightarrow> usize \<Rightarrow> 'a list \<Rightarrow> bool" where
  "piece items start xs \<longleftrightarrow> start + length xs \<le> length items \<and> xs = take (length xs) (drop start items)"

lemma piece_Nil [simp]: "piece items start [] \<longleftrightarrow> start \<le> length items"
  by (simp add: piece_def)

lemma piece_Cons: "piece items start (x # xs) \<longleftrightarrow> start < length items \<and> items ! start = x \<and> piece items (Suc start) xs"
proof (cases "start < length items")
  case True
  then show ?thesis using Cons_nth_drop_Suc [OF True] by (auto simp: piece_def) (metis list.sel(3) take_Suc_Cons nth_via_drop list.inject)+
qed (auto simp: piece_def)

lemma piece_append: "piece items start (xs @ ys) \<longleftrightarrow> piece items start xs \<and> piece items (start + length xs) ys"
  by (induction xs arbitrary: start) (auto simp: piece_Cons, auto simp: piece_def)

text \<open>A client runs the batch it is given, wherever that is: its future stands for that batch, and what the
  future gives in the end is the reply of the handler, with messages that may have been cut for the wire.\<close>

definition runs_batches ::
  "(action_error \<Rightarrow> bytes) \<Rightarrow> ('a, 'o) user_fn \<Rightarrow> ('f \<Rightarrow> 'a batch_action) \<Rightarrow> ('a, 'f, 'w) submit \<Rightarrow> ('o, 'f, 'w) poll_slot \<Rightarrow> bool"
where
  "runs_batches text h batch_of submit poll \<longleftrightarrow>
     (\<forall>b w w' f. submit b w = (w', Ok f) \<longrightarrow> batch_of f = b)
     \<and> (\<forall>f w w' f'. poll f w = (w', f', PollPending) \<longrightarrow> batch_of f' = batch_of f)
     \<and> (\<forall>f w w' f' r. poll f w = (w', f', Ready (Ok r)) \<longrightarrow>
          (\<exists>rs. batch_handler text h (batch_of f) = Ok \<lparr>br_start = br_start r, br_items = rs\<rparr>
             \<and> list_all2 (\<lambda>x y. y = x \<or> y = shorten_reply x) rs (br_items r)))"

text \<open>The item at an index has failed with a message.\<close>

definition failed :: "(action_error \<Rightarrow> bytes) \<Rightarrow> ('a, 'o) user_fn \<Rightarrow> 'a list \<Rightarrow> nat \<Rightarrow> bytes \<Rightarrow> bool" where
  "failed text h items i m \<longleftrightarrow> (\<exists>e. h (items ! i) = Err (Fail e) \<and> (m = text e \<or> m = shorten (text e)))"

text \<open>What the future has recorded when the items of \<open>D\<close> have been answered.\<close>

definition recorded :: "(action_error \<Rightarrow> bytes) \<Rightarrow> ('a, 'o) user_fn \<Rightarrow> 'a list \<Rightarrow> nat set \<Rightarrow> ('a, 'o, 'f) pmap_future \<Rightarrow> bool" where
  "recorded text h items D pm \<longleftrightarrow>
     length (pm_outputs pm) = length items
     \<and> (\<forall>i < length items. pm_outputs pm ! i = (if i \<in> D then (case h (items ! i) of Inr v \<Rightarrow> Some v | Inl _ \<Rightarrow> None) else None))
     \<and> (case pm_first_error pm of
          None \<Rightarrow> \<forall>i\<in>D. \<exists>v. h (items ! i) = Ok v
        | Some (i, m) \<Rightarrow> i \<in> D \<and> failed text h items i m \<and> (\<forall>j\<in>D. j < i \<longrightarrow> (\<exists>v. h (items ! j) = Ok v)))"

lemma store_items_recorded:
  fixes pm :: "('a, 'o, 'f) pmap_future"
  assumes "apply_items text h xs = Ok rs" "list_all2 (\<lambda>x y. y = x \<or> y = shorten_reply x) rs ys" "piece items index xs"
    "recorded text h items D pm" "D \<inter> {index..<index + length xs} = {}" "length items \<le> USIZE_MAX"
  shows "\<exists>pm'. store_items index ys pm = (pm', None) \<and> recorded text h items (D \<union> {index..<index + length xs}) pm'"
  using assms
proof (induction xs arbitrary: index rs ys pm D)
  case Nil
  then show ?case by simp
next
  case (Cons x xs)
  have ix: "index < length items" "items ! index = x" "piece items (Suc index) xs" using Cons.prems(3) by (simp_all add: piece_Cons)
  have D: "index \<notin> D" "insert index D \<inter> {Suc index..<Suc index + length xs} = {}" using Cons.prems(5) by auto
  have un: "insert index D \<union> {Suc index..<Suc index + length xs} = D \<union> {index..<index + length (x # xs)}" by auto
  have go: "\<exists>pm'. store_items (Suc index) ys' pm1 = (pm', None) \<and> recorded text h items (D \<union> {index..<index + length (x # xs)}) pm'"
    if "apply_items text h xs = Ok rs'" "list_all2 (\<lambda>x y. y = x \<or> y = shorten_reply x) rs' ys'" "recorded text h items (insert index D) pm1"
    for rs' ys' and pm1 :: "('a, 'o, 'f) pmap_future"
    using Cons.IH [OF that(1,2) ix(3) that(3) D(2) Cons.prems(6)] by (simp only: un)
  show ?case
  proof (cases "h x")
    case (Inr v)
    then obtain rs' where rs: "apply_items text h xs = Ok rs'" "rs = IrOk v # rs'" using Cons.prems(1) by (auto simp: res_map_Ok_iff)
    then obtain ys' where ys: "ys = IrOk v # ys'" "list_all2 (\<lambda>x y. y = x \<or> y = shorten_reply x) rs' ys'"
      using Cons.prems(2) by (auto simp: list_all2_Cons1)
    let ?pm = "pm\<lparr>pm_outputs := (pm_outputs pm)[index := Some v]\<rparr>"
    have "recorded text h items (insert index D) ?pm"
      using Cons.prems(4) ix Inr D by (auto simp: recorded_def nth_list_update split: option.splits)
    from go [OF rs(1) ys(2) this] show ?thesis
      using Cons.prems(4,6) ix(1) D(1) by (simp add: ys(1) recorded_def)
  next
    case (Inl fl)
    then obtain e where e: "h x = Err (Fail e)" using Cons.prems(1) by (cases fl) auto
    then obtain rs' where rs: "apply_items text h xs = Ok rs'" "rs = IrErr (text e) # rs'" using Cons.prems(1) by (auto simp: res_map_Ok_iff)
    then obtain m ys' where ys: "ys = IrErr m # ys'" "m = text e \<or> m = shorten (text e)" "list_all2 (\<lambda>x y. y = x \<or> y = shorten_reply x) rs' ys'"
      using Cons.prems(2) by (auto simp: list_all2_Cons1)
    let ?pm = "if (case pm_first_error pm of None \<Rightarrow> True | Some (old, _) \<Rightarrow> index < old) then pm\<lparr>pm_first_error := Some (index, m)\<rparr> else pm"
    have f: "failed text h items index m" using e ys(2) ix(2) by (auto simp: failed_def)
    have "recorded text h items (insert index D) ?pm"
    proof (cases "pm_first_error pm")
      case None
      then show ?thesis using Cons.prems(4) ix e D f by (auto simp: recorded_def)
    next
      case (Some old)
      then show ?thesis using Cons.prems(4) ix e D f by (cases old) (auto simp: recorded_def)
    qed
    from go [OF rs(1) ys(3) this] show ?thesis
      using Cons.prems(6) ix(1) by (simp add: ys(1))
  qed
qed

text \<open>The indices of the items whose reply is still to come.\<close>

definition batch_span :: "'a batch_action \<Rightarrow> nat multiset" where
  "batch_span b = mset_set {ba_start b..<ba_start b + length (ba_items b)}"

definition owed :: "('f \<Rightarrow> 'a batch_action) \<Rightarrow> ('a, 'o, 'f) pmap_future \<Rightarrow> nat multiset" where
  "owed batch_of pm = (\<Sum>p\<leftarrow>pm_pending pm. mset_set {fst p..<fst p + length (snd p)}) + (\<Sum>f\<leftarrow>pm_slots pm. batch_span (batch_of f))"

definition pmap_inv ::
  "(action_error \<Rightarrow> bytes) \<Rightarrow> ('a, 'o) user_fn \<Rightarrow> ('f \<Rightarrow> 'a batch_action) \<Rightarrow> 'a list \<Rightarrow> pmap_options \<Rightarrow> nat set
     \<Rightarrow> ('a, 'o, 'f) pmap_future \<Rightarrow> bool"
where
  "pmap_inv text h batch_of items opts D pm \<longleftrightarrow>
     pm_options pm = opts \<and> finite D \<and> owed batch_of pm + mset_set D = mset_set {..<length items}
     \<and> (\<forall>p\<in>set (pm_pending pm). piece items (fst p) (snd p))
     \<and> (\<forall>f\<in>set (pm_slots pm). piece items (ba_start (batch_of f)) (ba_items (batch_of f)))
     \<and> recorded text h items D pm
     \<and> length (pm_slots pm) \<le> po_inflight_limit (pm_options pm)
     \<and> cs_peak_in_flight (pm_stats pm) \<le> po_inflight_limit (pm_options pm)
     \<and> cs_item_count (pm_stats pm) = length items
     \<and> cs_placement_submissions (pm_stats pm) + length (pm_pending pm) = cs_batch_count (pm_stats pm)"

lemma recorded_frame [simp]:
  "recorded text h items D (pm\<lparr>pm_slots := x\<rparr>) = recorded text h items D pm"
  "recorded text h items D (pm\<lparr>pm_pending := y\<rparr>) = recorded text h items D pm"
  "recorded text h items D (pm\<lparr>pm_stats := z\<rparr>) = recorded text h items D pm"
  by (simp_all add: recorded_def)

lemma pm_fill_inv:
  assumes "runs_batches text h batch_of submit poll" "pmap_inv text h batch_of items opts D (pm\<lparr>pm_pending := ps\<rparr>)" "pm_fill submit ps pm w = (pm', w', None)"
  shows "pmap_inv text h batch_of items opts D pm' \<and> pm_options pm' = pm_options pm
    \<and> (pm_pending pm' \<noteq> [] \<longrightarrow> length (pm_slots pm') = po_inflight_limit (pm_options pm'))"
  using assms
proof (induction submit ps pm w rule: pm_fill.induct)
  case (1 submit pm w)
  then show ?case by auto
next
  case (2 submit start items' rest pm w)
  show ?case
  proof (cases "length (pm_slots pm) < po_inflight_limit (pm_options pm)")
    case False
    then have "pm' = pm\<lparr>pm_pending := (start, items') # rest\<rparr>" using "2.prems"(3) by simp
    then show ?thesis using "2.prems"(2) False by (auto simp: pmap_inv_def)
  next
    case True
    obtain w1 f where s: "submit \<lparr>ba_start = start, ba_mode = po_local_mode (pm_options pm), ba_items = items'\<rparr> w = (w1, Ok f)"
      using "2.prems"(3) True by (auto split: prod.splits sum.splits fault.splits)
    then have f: "batch_of f = \<lparr>ba_start = start, ba_mode = po_local_mode (pm_options pm), ba_items = items'\<rparr>"
      using "2.prems"(1) unfolding runs_batches_def by blast
    let ?st = "pm_stats pm" and ?slots = "pm_slots pm @ [f]"
    let ?pm = "pm\<lparr>pm_slots := ?slots, pm_stats := ?st\<lparr>cs_peak_in_flight := max (cs_peak_in_flight ?st) (length ?slots),
               cs_placement_submissions := cs_placement_submissions ?st + 1\<rparr>\<rparr>"
    have "pmap_inv text h batch_of items opts D (?pm\<lparr>pm_pending := rest\<rparr>)"
      using "2.prems"(2) True f by (auto simp: pmap_inv_def owed_def batch_span_def ac_simps)
    moreover have "pm_fill submit rest ?pm w1 = (pm', w', None)" using "2.prems"(3) True s by (simp add: Let_def)
    ultimately show ?thesis using "2.IH" [OF True s [symmetric] refl refl refl "2.prems"(1)] by simp
  qed
qed

lemma mset_swap_remove:
  assumes "i < length xs"
  shows "mset (swap_remove i xs) = mset xs - {#xs ! i#}"
proof -
  let ?ys = "xs[i := last xs]"
  have "last ?ys = last xs" using assms by (cases "xs = []") (auto simp: last_conv_nth nth_list_update)
  then have "mset ?ys = add_mset (last xs) (mset (butlast ?ys))"
    using assms append_butlast_last_id [of ?ys] by (cases "?ys = []") (auto, metis mset.simps(2) mset_append add_mset_add_single union_commute mset_single_iff_right mset.simps(1))
  moreover have "mset ?ys = add_mset (last xs) (mset xs - {#xs ! i#})" using assms by (simp add: mset_update)
  ultimately show ?thesis by (simp add: swap_remove_def)
qed

lemma set_swap_remove: "i < length xs \<Longrightarrow> set (swap_remove i xs) \<subseteq> set xs"
  using mset_swap_remove [of i xs] by (metis set_mset_mset in_diffD subsetI)

lemma sum_list_swap_remove:
  fixes g :: "'f \<Rightarrow> 'b multiset"
  assumes "i < length xs"
  shows "(\<Sum>x\<leftarrow>xs. g x) = g (xs ! i) + (\<Sum>x\<leftarrow>swap_remove i xs. g x)"
proof -
  have "mset xs = add_mset (xs ! i) (mset (swap_remove i xs))" using assms by (simp add: mset_swap_remove)
  then have "(\<Sum>x\<in>#mset xs. g x) = g (xs ! i) + (\<Sum>x\<in>#mset (swap_remove i xs). g x)" by simp
  then show ?thesis by (metis mset_map sum_mset_sum_list)
qed

lemma swap_remove_update: "i < length xs \<Longrightarrow> swap_remove i (xs[i := x]) = swap_remove i xs"
  by (cases "xs = []") (auto simp: swap_remove_def butlast_list_update last_conv_nth nth_list_update)

text \<open>A reply moves the indices of its batch from what is owed to what is recorded.\<close>

lemma reply_recorded:
  fixes pm :: "('a, 'o, 'f) pmap_future"
  assumes client: "runs_batches text h batch_of submit poll" and inv: "pmap_inv text h batch_of items opts D pm" and len: "length items \<le> USIZE_MAX"
    and i: "i < length (pm_slots pm)" and p: "poll (pm_slots pm ! i) w = (w1, f, Ready (Ok reply))"
    and st: "store_items (br_start reply) (br_items reply) (pm\<lparr>pm_slots := swap_remove i ((pm_slots pm)[i := f])\<rparr>) = (pm1, e)"
  shows "e = None \<and> (\<exists>D'. pmap_inv text h batch_of items opts D' pm1)"
proof -
  let ?b = "batch_of (pm_slots pm ! i)" and ?sl = "swap_remove i ((pm_slots pm)[i := f])"
  note sl = swap_remove_update [OF i, of f]
  obtain rs where rs: "batch_handler text h ?b = Ok \<lparr>br_start = br_start reply, br_items = rs\<rparr>"
      "list_all2 (\<lambda>x y. y = x \<or> y = shorten_reply x) rs (br_items reply)"
    using client p unfolding runs_batches_def by blast
  then have a: "apply_items text h (ba_items ?b) = Ok rs" "br_start reply = ba_start ?b" by (auto simp: batch_handler_def res_map_Ok_iff)
  have pc: "piece items (ba_start ?b) (ba_items ?b)" using inv i by (simp add: pmap_inv_def)
  let ?S = "{ba_start ?b..<ba_start ?b + length (ba_items ?b)}" and ?rest = "(\<Sum>p\<leftarrow>pm_pending pm. mset_set {fst p..<fst p + length (snd p)}) + (\<Sum>f\<leftarrow>?sl. batch_span (batch_of f))"
  have sum: "mset_set ?S + ?rest + mset_set D = mset_set {..<length items}"
    using inv sum_list_swap_remove [OF i, of "\<lambda>f. batch_span (batch_of f)"] by (simp add: pmap_inv_def owed_def sl batch_span_def ac_simps)
  have fin: "finite D" using inv by (simp add: pmap_inv_def)
  have dis: "D \<inter> ?S = {}"
  proof (rule ccontr)
    assume "D \<inter> ?S \<noteq> {}"
    then obtain x where x: "x \<in> D" "x \<in> ?S" by blast
    then have "2 \<le> count (mset_set ?S + ?rest + mset_set D) x" using fin by (simp add: count_mset_set')
    moreover have "count (mset_set {..<length items}) x \<le> 1" by (simp add: count_mset_set')
    ultimately show False using sum by simp
  qed
  have "recorded text h items D (pm\<lparr>pm_slots := ?sl\<rparr>)" using inv by (simp add: pmap_inv_def)
  from store_items_recorded [OF a(1) rs(2) pc this dis len] st
  have e: "e = None" and rec: "recorded text h items (D \<union> ?S) pm1" by (auto simp: a(2))
  note fr = store_items_frame [OF st]
  have "mset_set (D \<union> ?S) = mset_set D + mset_set ?S" using fin dis by (simp add: mset_set_Union)
  then have "owed batch_of pm1 + mset_set (D \<union> ?S) = mset_set {..<length items}" using sum fr by (simp add: owed_def ac_simps)
  moreover have "length ?sl \<le> length (pm_slots pm)" using i by (simp add: swap_remove_length)
  ultimately have "pmap_inv text h batch_of items opts (D \<union> ?S) pm1"
    using inv fr fin rec set_swap_remove [OF i] sl by (auto simp: pmap_inv_def)
  with e show ?thesis by blast
qed

lemma pm_drain_inv:
  fixes pm :: "('a, 'o, 'f) pmap_future"
  assumes "runs_batches text h batch_of submit poll" "length items \<le> USIZE_MAX" "pmap_inv text h batch_of items opts D pm" "pm_drain poll i progress pm w = (pm', w', r)"
  shows "case r of Inr _ \<Rightarrow> \<exists>D'. pmap_inv text h batch_of items opts D' pm' | Inl e \<Rightarrow> \<exists>re. e = Fail (AgRuntime re)"
  using assms
proof (induction poll i progress pm w arbitrary: D rule: pm_drain.induct)
  case (1 poll i progress pm w)
  show ?case
  proof (cases "i < length (pm_slots pm)")
    case False
    then show ?thesis using "1.prems"(3,4) by (subst (asm) pm_drain.simps) auto
  next
    case True
    obtain w1 f q where p: "poll (pm_slots pm ! i) w = (w1, f, q)" by (metis prod_cases3)
    show ?thesis
    proof (cases q)
      case PollPending
      then have "batch_of f = batch_of (pm_slots pm ! i)" using "1.prems"(1) p unfolding runs_batches_def by blast
      moreover from this have "map (\<lambda>f. batch_span (batch_of f)) ((pm_slots pm)[i := f]) = map (\<lambda>f. batch_span (batch_of f)) (pm_slots pm)"
        using True by (auto simp: list_eq_iff_nth_eq nth_list_update)
      ultimately have "pmap_inv text h batch_of items opts D (pm\<lparr>pm_slots := (pm_slots pm)[i := f]\<rparr>)"
        using "1.prems"(3) True by (auto simp: pmap_inv_def owed_def dest!: set_update_subset_insert [THEN subsetD])
      moreover have "pm_drain poll (Suc i) progress (pm\<lparr>pm_slots := (pm_slots pm)[i := f]\<rparr>) w1 = (pm', w', r)"
        using True p "1.prems"(4) PollPending by (subst (asm) pm_drain.simps) simp
      ultimately show ?thesis using "1.IH"(2) [OF True p [symmetric] refl PollPending "1.prems"(1,2)] by blast
    next
      case (Ready res)
      show ?thesis
      proof (cases res)
        case (Inl e)
        then show ?thesis using True p "1.prems"(4) Ready by (subst (asm) pm_drain.simps) auto
      next
        case (Inr reply)
        let ?pm = "pm\<lparr>pm_slots := swap_remove i ((pm_slots pm)[i := f])\<rparr>"
        obtain pm1 e where s: "store_items (br_start reply) (br_items reply) ?pm = (pm1, e)" by force
        from reply_recorded [OF "1.prems"(1,3,2) True p [unfolded Ready Inr] s] obtain D' where e: "e = None" "pmap_inv text h batch_of items opts D' pm1"
          by blast
        then have "pm_drain poll i True pm1 w1 = (pm', w', r)" using True p "1.prems"(4) Ready Inr s by (subst (asm) pm_drain.simps) simp
        from "1.IH"(1) [OF True p [symmetric] refl Ready Inr s [symmetric] e(1) "1.prems"(1,2) e(2) this] show ?thesis .
      qed
    qed
  qed
qed

lemma pmap_poll_inv:
  fixes pm :: "('a, 'o, 'f) pmap_future"
  assumes "runs_batches text h batch_of submit poll" "length items \<le> USIZE_MAX" "pmap_inv text h batch_of items opts D pm" "pmap_poll submit poll pm w = (pm', w', Ok r)"
  shows "case r of
      PollPending \<Rightarrow> (\<exists>D'. pmap_inv text h batch_of items opts D' pm')
    | Ready q \<Rightarrow> (\<exists>re. q = Err (AgRuntime re)) \<or> (\<exists>pm2. pmap_inv text h batch_of items opts {..<length items} pm2 \<and> q = snd (pm_finish pm2))"
  using assms
proof (induction submit poll pm w arbitrary: D rule: pmap_poll.induct)
  case (1 submit poll pm w)
  obtain pm1 w1 e where f: "pm_fill submit (pm_pending pm) pm w = (pm1, w1, e)" by (metis prod_cases3)
  show ?case
  proof (cases e)
    case (Some x)
    then show ?thesis using "1.prems"(4) f by (cases x) (auto simp: pmap_poll.simps)
  next
    case None
    have "pmap_inv text h batch_of items opts D (pm\<lparr>pm_pending := pm_pending pm\<rparr>)" using "1.prems"(3) by simp
    from pm_fill_inv [OF "1.prems"(1) this f [unfolded None]] have inv1: "pmap_inv text h batch_of items opts D pm1" by blast
    obtain pm2 w2 d where d: "pm_drain poll 0 False pm1 w1 = (pm2, w2, d)" by (metis prod_cases3)
    note dr = pm_drain_inv [OF "1.prems"(1,2) inv1 d]
    show ?thesis
    proof (cases d)
      case (Inl x)
      then show ?thesis using dr "1.prems"(4) f None d by (auto simp: pmap_poll.simps)
    next
      case (Inr progress)
      then obtain D2 where inv2: "pmap_inv text h batch_of items opts D2 pm2" using dr by auto
      show ?thesis
      proof (cases "pm_pending pm2 = [] \<and> pm_slots pm2 = []")
        case True
        then have "mset_set D2 = mset_set {..<length items}" "finite D2" using inv2 by (auto simp: pmap_inv_def owed_def)
        then have "D2 = {..<length items}" by (metis finite_lessThan finite_set_mset_mset_set)
        moreover have "r = Ready (snd (pm_finish pm2))" using "1.prems"(4) f None d Inr True by (auto simp: pmap_poll.simps split: prod.splits)
        ultimately show ?thesis using inv2 by auto
      next
        case False
        show ?thesis
        proof (cases progress)
          case True
          then have "pmap_poll submit poll pm2 w2 = (pm', w', Ok r)" using "1.prems"(4) f None d Inr False by (subst (asm) pmap_poll.simps) auto
          from "1.IH" [OF f [symmetric] refl None d [symmetric] refl Inr False _ "1.prems"(1,2) inv2 this] True show ?thesis by simp
        next
          case False
          then show ?thesis using inv2 "1.prems"(4) f None d Inr \<open>\<not> (pm_pending pm2 = [] \<and> pm_slots pm2 = [])\<close> by (subst (asm) pmap_poll.simps) auto
        qed
      qed
    qed
  qed
qed

lemma chunks_piece: "p \<in> set (chunks n start xs) \<Longrightarrow> piece items start xs \<Longrightarrow> piece items (fst p) (snd p)"
proof (induction n start xs rule: chunks.induct)
  case (1 n start xs)
  then show ?case
  proof (cases "xs = [] \<or> n = 0")
    case False
    have "piece items start (take n xs)" "piece items (start + length (take n xs)) (drop n xs)"
      using "1.prems"(2) piece_append [of items start "take n xs" "drop n xs"] by simp_all
    then show ?thesis using "1.IH" [OF False] "1.prems"(1) False by (subst (asm) chunks.simps) auto
  qed (simp add: chunks.simps)
qed

lemma chunks_span: "n \<noteq> 0 \<Longrightarrow> (\<Sum>p\<leftarrow>chunks n start xs. mset_set {fst p..<fst p + length (snd p)}) = mset_set {start..<start + length xs}"
proof (induction n start xs rule: chunks.induct)
  case (1 n start xs)
  show ?case
  proof (cases "xs = []")
    case False
    let ?k = "start + length (take n xs)"
    have "?k + length (drop n xs) = start + length xs" by simp
    moreover have "{start..<start + length xs} = {start..<?k} \<union> {?k..<start + length xs}" by auto
    moreover have "mset_set ({start..<?k} \<union> {?k..<start + length xs}) = mset_set {start..<?k} + mset_set {?k..<start + length xs}"
      by (rule mset_set_Union) auto
    ultimately show ?thesis using "1.IH" False "1.prems" by (subst chunks.simps) (simp add: add.assoc del: length_take length_drop)
  qed (simp add: chunks.simps)
qed

lemma pmap_build_inv:
  assumes "pmap_build items opts = Ok pm"
  shows "pmap_inv text h batch_of items opts {} pm"
proof -
  have "po_batch_size opts \<noteq> 0" using assms by (auto simp: pmap_build_def options_validate_def split: if_splits)
  then show ?thesis
    using assms chunks_span [of "po_batch_size opts" 0 items] chunks_piece [of _ "po_batch_size opts" 0 items items]
    by (auto simp: pmap_build_def Let_def pmap_inv_def owed_def recorded_def piece_def atLeast0LessThan)
qed

text \<open>The states of the future of a map: it is polled again and again, and what else happens in between is free.\<close>

inductive pmap_run :: "('a, 'f, 'w) submit \<Rightarrow> ('o, 'f, 'w) poll_slot \<Rightarrow> 'a list \<Rightarrow> pmap_options \<Rightarrow> ('a, 'o, 'f) pmap_future \<Rightarrow> bool"
  for submit poll items opts
where
  built: "pmap_build items opts = Ok pm \<Longrightarrow> pmap_run submit poll items opts pm"
| polled: "pmap_run submit poll items opts pm \<Longrightarrow> pmap_poll submit poll pm w = (pm', w', Ok PollPending) \<Longrightarrow> pmap_run submit poll items opts pm'"

lemma pmap_run_inv:
  assumes "pmap_run submit poll items opts pm" "runs_batches text h batch_of submit poll" "length items \<le> USIZE_MAX"
  shows "\<exists>D. pmap_inv text h batch_of items opts D pm"
  using assms
proof (induction rule: pmap_run.induct)
  case (built pm)
  then show ?case using pmap_build_inv by blast
next
  case (polled pm w pm' w')
  then obtain D where "pmap_inv text h batch_of items opts D pm" by blast
  from pmap_poll_inv [OF polled.prems this polled.hyps(2)] show ?case by simp
qed

lemma take_outputs_all: "list_all (\<lambda>x. x \<noteq> None) outs \<Longrightarrow> snd (take_outputs outs) = Ok (map the outs)"
  by (induction outs rule: take_outputs.induct) (auto split: prod.splits)

lemma pm_finish_map:
  assumes "pmap_inv text h batch_of items opts {..<length items} pm"
  shows "case snd (pm_finish pm) of
      Inr (out, stats) \<Rightarrow> list_all2 (\<lambda>x v. h x = Ok v) items out \<and> cs_item_count stats = length items \<and> cs_peak_in_flight stats \<le> po_inflight_limit opts
    | Inl e \<Rightarrow> \<exists>i m. e = AgCallback i m \<and> i < length items \<and> failed text h items i m \<and> (\<forall>j < i. \<exists>v. h (items ! j) = Ok v)"
proof (cases "pm_first_error pm")
  case (Some x)
  then show ?thesis using assms by (cases x) (auto simp: pm_finish_def pmap_inv_def recorded_def)
next
  case None
  have all: "\<exists>v. h (items ! i) = Ok v \<and> pm_outputs pm ! i = Some v" if "i < length items" for i
    using assms None that by (fastforce simp: pmap_inv_def recorded_def)
  have len: "length (pm_outputs pm) = length items" using assms by (simp add: pmap_inv_def recorded_def)
  with all have "list_all (\<lambda>x. x \<noteq> None) (pm_outputs pm)" by (fastforce simp: list_all_length)
  moreover have "list_all2 (\<lambda>x v. h x = Ok v) items (map the (pm_outputs pm))" using all len by (fastforce simp: list_all2_conv_all_nth)
  ultimately show ?thesis
    using None take_outputs_all [of "pm_outputs pm"] assms by (auto simp: pm_finish_def pmap_inv_def split: prod.splits)
qed

text \<open>
  C38. A parallel map is a map. Take a client that runs each batch it is given, in whatever order and however
  long it takes, and poll the future of the map until it is ready. If it gives outputs, they are the outputs of
  the handler on the items, in the order of the items, and at no time were more batches under way than the
  limit. If it gives an error of the handler, then that is the error of the item with the least index
  among those that fail, whichever reply came first, with its message (cut for the wire at most). The only
  other outcome is an error of the runtime: the controller never finds a wrong index or a missing result.
\<close>

theorem pmap_is_map:
  assumes "runs_batches text h batch_of submit poll" "length items \<le> USIZE_MAX"
    and "pmap_run submit poll items opts pm" "pmap_poll submit poll pm w = (pm', w', Ok (Ready r))"
  shows "case r of
      Inr (out, stats) \<Rightarrow> list_all2 (\<lambda>x v. h x = Ok v) items out \<and> cs_item_count stats = length items \<and> cs_peak_in_flight stats \<le> po_inflight_limit opts
    | Inl e \<Rightarrow> (\<exists>re. e = AgRuntime re)
        \<or> (\<exists>i m. e = AgCallback i m \<and> i < length items \<and> failed text h items i m \<and> (\<forall>j < i. \<exists>v. h (items ! j) = Ok v))"
proof -
  obtain D where D: "pmap_inv text h batch_of items opts D pm" using pmap_run_inv [OF assms(3,1,2)] by blast
  from pmap_poll_inv [OF assms(1,2) D assms(4)] consider re where "r = Err (AgRuntime re)"
    | pm2 where "pmap_inv text h batch_of items opts {..<length items} pm2" "r = snd (pm_finish pm2)" by auto
  then show ?thesis
  proof cases
    case 2
    then show ?thesis using pm_finish_map [OF 2(1)] by (auto split: sum.splits)
  qed simp
qed

text \<open>A client whose futures are the batches themselves; a batch is answered when it is polled, and never
  when the handler panics.\<close>

definition demo_run :: "(nat, nat) user_fn" where
  "demo_run n = (if n = 0 then Err Panic else if n = 13 then Err (Fail (ae_codec (lit ''unlucky''))) else Ok (n * n))"

definition demo_submit :: "(nat, nat batch_action, unit) submit" where
  "demo_submit b w = (w, Ok b)"

definition demo_poll :: "(nat, nat batch_action, unit) poll_slot" where
  "demo_poll b w = (w, b, case batch_handler (\<lambda>_. lit ''unlucky'') demo_run b of Inr r \<Rightarrow> Ready (Ok r) | Inl _ \<Rightarrow> PollPending)"

definition demo_options :: pmap_options where
  "demo_options = pmap_options_default\<lparr>po_batch_size := 2, po_inflight_limit := 2\<rparr>"

definition demo_future :: "nat list \<Rightarrow> (nat, nat, nat batch_action) pmap_future" where
  "demo_future items = (case pmap_build items demo_options of Inr pm \<Rightarrow> pm | Inl _ \<Rightarrow> undefined)"

lemma demo_runs_batches: "runs_batches (\<lambda>_. lit ''unlucky'') demo_run (\<lambda>b. b) demo_submit demo_poll"
  by (auto simp: runs_batches_def demo_submit_def demo_poll_def batch_handler_def res_map_Ok_iff list_all2_refl split: sum.splits)

lemma demo_started: "pmap_run demo_submit demo_poll items demo_options (demo_future items)"
  by (rule pmap_run.built) (simp add: demo_future_def pmap_build_def options_validate_def demo_options_def pmap_options_default_def Let_def)

lemma demo_result:
  "snd (snd (pmap_poll demo_submit demo_poll (demo_future [3, 4, 5]) ()))
     = Ok (Ready (Ok ([9, 16, 25], \<lparr>cs_item_count = 3, cs_batch_count = 2, cs_peak_in_flight = 2, cs_placement_submissions = 2\<rparr>)))"
  by (simp add: demo_future_def pmap_build_def options_validate_def demo_options_def pmap_options_default_def Let_def chunks.simps
      pmap_poll.simps pm_drain.simps demo_submit_def demo_poll_def batch_handler_def demo_run_def swap_remove_def pm_finish_def USIZE_MAX_def)

theorem pmap_is_map_witness:
  "list_all2 (\<lambda>x v. demo_run x = Ok v) [3, 4, 5] [9, 16, 25]"
proof -
  obtain pm' w' where "pmap_poll demo_submit demo_poll (demo_future [3, 4, 5]) () = (pm', w',
      Ok (Ready (Ok ([9, 16, 25], \<lparr>cs_item_count = 3, cs_batch_count = 2, cs_peak_in_flight = 2, cs_placement_submissions = 2\<rparr>))))"
    using demo_result by (metis prod.collapse)
  from pmap_is_map [OF demo_runs_batches _ demo_started this] show ?thesis by (simp add: USIZE_MAX_def)
qed

lemma pm_drain_still:
  "pm_drain poll i progress pm w = (pm', w', Ok progress') \<Longrightarrow> \<not> progress' \<Longrightarrow> \<not> progress \<and> length (pm_slots pm') = length (pm_slots pm)"
proof (induction poll i progress pm w rule: pm_drain.induct)
  case (1 poll i progress pm w)
  show ?case
  proof (cases "i < length (pm_slots pm)")
    case False
    then show ?thesis using "1.prems" by (subst (asm) pm_drain.simps) simp
  next
    case True
    obtain w1 f q where p: "poll (pm_slots pm ! i) w = (w1, f, q)" by (metis prod_cases3)
    show ?thesis
    proof (cases q)
      case PollPending
      then have "pm_drain poll (Suc i) progress (pm\<lparr>pm_slots := (pm_slots pm)[i := f]\<rparr>) w1 = (pm', w', Ok progress')"
        using True p "1.prems" by (subst (asm) pm_drain.simps) simp
      from "1.IH"(2) [OF True p [symmetric] refl PollPending this "1.prems"(2)] show ?thesis by simp
    next
      case (Ready res)
      obtain reply where reply: "res = Inr reply" using True p Ready "1.prems"(1) by (cases res) (auto simp: pm_drain.simps [of poll i])
      obtain pm1 e where s: "store_items (br_start reply) (br_items reply) (pm\<lparr>pm_slots := swap_remove i ((pm_slots pm)[i := f])\<rparr>) = (pm1, e)" by force
      have e: "e = None" using True p Ready reply s "1.prems"(1) by (cases e) (auto simp: pm_drain.simps [of poll i])
      then have "pm_drain poll i True pm1 w1 = (pm', w', Ok progress')"
        using True p "1.prems"(1) Ready reply s by (subst (asm) pm_drain.simps) simp
      from "1.IH"(1) [OF True p [symmetric] refl Ready reply s [symmetric] e this "1.prems"(2)] show ?thesis by simp
    qed
  qed
qed

lemma pmap_pending_slots:
  fixes pm :: "('a, 'o, 'f) pmap_future"
  assumes "runs_batches text h batch_of submit poll" "pmap_poll submit poll pm w = (pm', w', Ok PollPending)"
    "pmap_inv text h batch_of items opts D pm" and len: "length items \<le> USIZE_MAX" and limit: "0 < po_inflight_limit opts"
  shows "pm_slots pm' \<noteq> []"
  using assms(1-3)
proof (induction submit poll pm w arbitrary: D rule: pmap_poll.induct)
  case (1 submit poll pm w)
  obtain pm1 w1 e where f: "pm_fill submit (pm_pending pm) pm w = (pm1, w1, e)" by (metis prod_cases3)
  have e: "e = None" using "1.prems"(2) f by (auto simp: pmap_poll.simps split: option.splits fault.splits)
  have "pmap_inv text h batch_of items opts D (pm\<lparr>pm_pending := pm_pending pm\<rparr>)" using "1.prems"(3) by simp
  note fill = pm_fill_inv [OF "1.prems"(1) this f [unfolded e]]
  obtain pm2 w2 d where d: "pm_drain poll 0 False pm1 w1 = (pm2, w2, d)" by (metis prod_cases3)
  then obtain progress where pr: "d = Inr progress"
    using pm_drain_inv [OF "1.prems"(1) len fill [THEN conjunct1] d] "1.prems"(2) f e by (cases d) (auto simp: pmap_poll.simps)
  have inv2: "\<exists>D'. pmap_inv text h batch_of items opts D' pm2"
    using pm_drain_inv [OF "1.prems"(1) len fill [THEN conjunct1] d] pr by simp
  have ne: "\<not> (pm_pending pm2 = [] \<and> pm_slots pm2 = [])" 
    using "1.prems"(2) f e d pr by (auto simp: pmap_poll.simps split: prod.splits if_splits)
  show ?case
  proof (cases progress)
    case True
    then have "pmap_poll submit poll pm2 w2 = (pm', w', Ok PollPending)" using "1.prems"(2) f e d pr ne by (subst (asm) pmap_poll.simps) auto
    with "1.IH" [OF f [symmetric] refl e d [symmetric] refl pr ne _ "1.prems"(1)] inv2 True show ?thesis by blast
  next
    case False
    then have "pm' = pm2" using "1.prems"(2) f e d pr ne by (subst (asm) pmap_poll.simps) auto
    moreover have "length (pm_slots pm2) = length (pm_slots pm1)" "pm_pending pm2 = pm_pending pm1"
      using pm_drain_still [OF d [unfolded pr] False] pm_drain_work [OF d [unfolded pr]] by auto
    moreover have "pm_options pm1 = opts" using fill by (simp add: pmap_inv_def)
    ultimately show ?thesis using fill ne limit by auto
  qed
qed

text \<open>
  The future of a map waits only for batches. When a poll leaves it pending, some batch is under way, whose
  future has been polled and will wake it, provided the limit allows any batch at all; and the limits that
  \<open>pmap\<close> and its variants set do. So no map is left waiting with work in its queue and nobody to call it.
\<close>

theorem pmap_waits_for_batches:
  assumes "runs_batches text h batch_of submit poll" "length items \<le> USIZE_MAX" "with_targets targets opts0 = Ok opts"
    and "pmap_run submit poll items opts pm" "pmap_poll submit poll pm w = (pm', w', Ok PollPending)"
  shows "pm_slots pm' \<noteq> [] \<and> length (pm_slots pm') \<le> po_inflight_limit opts"
proof -
  obtain D where D: "pmap_inv text h batch_of items opts D pm" using pmap_run_inv [OF assms(4,1,2)] by blast
  have limit: "0 < po_inflight_limit opts" using assms(3) by (auto simp: with_targets_def checked_mul_usize_def split: if_splits option.splits)
  from pmap_poll_inv [OF assms(1,2) D assms(5)] have "length (pm_slots pm') \<le> po_inflight_limit opts" by (auto simp: pmap_inv_def)
  moreover have "pm_slots pm' \<noteq> []" by (rule pmap_pending_slots [OF assms(1,5) D assms(2) limit])
  ultimately show ?thesis by blast
qed

lemma demo_waits:
  "\<exists>pm'. pmap_poll demo_submit demo_poll (demo_future [0, 4, 5]) () = (pm', (), Ok PollPending)
     \<and> pm_slots pm' = [\<lparr>ba_start = 0, ba_mode = LmSequential, ba_items = [0, 4]\<rparr>]"
  by (simp add: demo_future_def pmap_build_def options_validate_def demo_options_def pmap_options_default_def Let_def chunks.simps
      pmap_poll.simps pm_drain.simps demo_submit_def demo_poll_def batch_handler_def demo_run_def swap_remove_def pm_finish_def USIZE_MAX_def)

theorem pmap_waits_for_batches_witness:
  "\<exists>pm'. pmap_poll demo_submit demo_poll (demo_future [0, 4, 5]) () = (pm', (), Ok PollPending) \<and> pm_slots pm' \<noteq> []"
proof -
  obtain pm' where p: "pmap_poll demo_submit demo_poll (demo_future [0, 4, 5]) () = (pm', (), Ok PollPending)" using demo_waits by blast
  have "with_targets 2 (pmap_options_default\<lparr>po_batch_size := 2\<rparr>) = Ok demo_options"
    by (simp add: with_targets_def checked_mul_usize_def demo_options_def pmap_options_default_def USIZE_MAX_def)
  from pmap_waits_for_batches [OF demo_runs_batches _ this demo_started p] p show ?thesis by (simp add: USIZE_MAX_def)
qed

end
