(* ===== verification/Mpi.thy ===== *)
theory Mpi
  imports Wire
begin

text \<open>
  Programs that talk over MPI, and a communicator that runs one on each of its ranks. MPI is outside the sources;
  what they use of it is taken as its standard documents it. A program is a tree: each node is one call of
  the library (\<open>mpi_call!\<close> in the sources) with what follows for each answer, so a function of the sources
  that communicates is translated to the tree of its calls. A loop that need not end is a function from
  the state at its head to the tree of one turn, which says \<open>Again\<close> or \<open>Exit\<close>.

  Messages between two ranks with one tag arrive in the order in which they were sent; nothing else is known about order. A probe may
  miss a message that is on its way. A reduction or a broadcast is one step of all ranks together. An \<open>abort\<close>
  ends the whole job, so such a rank makes no step.

  The sources send in the standard mode (\<open>MPI_Send\<close>). The library may then buffer the message, so that the sender goes on at once, or
  let the sender wait until the message is received. So there are two relations. \<open>mpi_step\<close> has everything that may happen: what holds in all its
  runs holds whether messages are buffered or not. \<open>mpi_sure\<close> has only what happens even if nothing more is ever buffered: a sender waits for its
  receiver. A state without a step of \<open>mpi_sure\<close> may be a deadlock, so freedom from deadlock is stated with it.
\<close>

section \<open>Programs\<close>

datatype reduce_op = RedMin | RedMax

datatype bcast_value = BInt int | BBytes bytes

fun bcast_int :: "bcast_value \<Rightarrow> int" where
  "bcast_int (BInt i) = i"
| "bcast_int (BBytes bs) = 0"

fun bcast_bytes :: "bcast_value \<Rightarrow> bytes" where
  "bcast_bytes (BBytes bs) = bs"
| "bcast_bytes (BInt i) = []"

text \<open>A task on the thread pool of the process that is asked for with \<open>try_recv\<close>.\<close>

datatype arrival = StillRunning | Delivered | Disconnected

datatype 'r proc =
  PRet 'r
| PSend int int bytes "'r proc"
| PRecv int int "bytes \<Rightarrow> 'r proc"
| PRecvAny int "int \<times> bytes \<Rightarrow> 'r proc"
| PProbe int "int option \<Rightarrow> 'r proc"
| PReduce reduce_op int "int \<Rightarrow> 'r proc"
| PBcast int bcast_value "bcast_value \<Rightarrow> 'r proc"
| PTryJoin "arrival \<Rightarrow> 'r proc"
| PJoin "bool \<Rightarrow> 'r proc"
| PAbort int
| PPanic

primrec pbind :: "'a proc \<Rightarrow> ('a \<Rightarrow> 'b proc) \<Rightarrow> 'b proc" where
  "pbind (PRet a) f = f a"
| "pbind (PSend d t bs p) f = PSend d t bs (pbind p f)"
| "pbind (PRecv s t k) f = PRecv s t (\<lambda>bs. pbind (k bs) f)"
| "pbind (PRecvAny t k) f = PRecvAny t (\<lambda>m. pbind (k m) f)"
| "pbind (PProbe t k) f = PProbe t (\<lambda>s. pbind (k s) f)"
| "pbind (PReduce op v k) f = PReduce op v (\<lambda>x. pbind (k x) f)"
| "pbind (PBcast root v k) f = PBcast root v (\<lambda>x. pbind (k x) f)"
| "pbind (PTryJoin k) f = PTryJoin (\<lambda>x. pbind (k x) f)"
| "pbind (PJoin k) f = PJoin (\<lambda>x. pbind (k x) f)"
| "pbind (PAbort code) f = PAbort code"
| "pbind PPanic f = PPanic"

text \<open>\<open>?\<close> after a call that fails with a value, and on a value at hand.\<close>

definition ptry :: "('e, 'a) result proc \<Rightarrow> ('a \<Rightarrow> ('e, 'b) result proc) \<Rightarrow> ('e, 'b) result proc" where
  "ptry p f = pbind p (\<lambda>r. case r of Inl e \<Rightarrow> PRet (Err e) | Inr a \<Rightarrow> f a)"

definition plift :: "('e, 'a) result \<Rightarrow> ('a \<Rightarrow> ('e, 'b) result proc) \<Rightarrow> ('e, 'b) result proc" where
  "plift r f = (case r of Inl e \<Rightarrow> PRet (Err e) | Inr a \<Rightarrow> f a)"

datatype ('s, 'r) ctl = Again 's | Exit 'r

lemma ptry_PRet [simp]: "ptry (PRet (Inl e)) f = PRet (Inl e)" "ptry (PRet (Inr a)) f = f a"
  by (simp_all add: ptry_def)

lemma ptry_calls [simp]:
  "ptry (PSend d t bs p) f = PSend d t bs (ptry p f)" "ptry (PRecv s t k) f = PRecv s t (\<lambda>bs. ptry (k bs) f)"
  "ptry (PRecvAny t j) f = PRecvAny t (\<lambda>m. ptry (j m) f)" "ptry (PProbe t l) f = PProbe t (\<lambda>s. ptry (l s) f)"
  "ptry (PReduce op v m) f = PReduce op v (\<lambda>x. ptry (m x) f)" "ptry (PAbort code) f = PAbort code" "ptry PPanic f = PPanic"
  "ptry (PBcast root w n) f = PBcast root w (\<lambda>x. ptry (n x) f)"
  by (simp_all add: ptry_def)

lemma plift_simps [simp]: "plift (Inl e) f = PRet (Inl e)" "plift (Inr a) f = f a"
  by (simp_all add: plift_def)

lemma pbind_assoc: "pbind (pbind p f) g = pbind p (\<lambda>x. pbind (f x) g)"
  by (induction p) auto

lemma pbind_ret [simp]: "pbind p PRet = p"
  by (induction p) auto

section \<open>A communicator\<close>

record ('s, 'r) world =
  procs :: "int \<Rightarrow> ('s, 'r) ctl proc"
  net :: "int \<times> int \<times> int \<Rightarrow> bytes list"

definition in_comm :: "int \<Rightarrow> int \<Rightarrow> bool" where
  "in_comm np r \<longleftrightarrow> 0 \<le> r \<and> r < np"

definition reduce_all :: "reduce_op \<Rightarrow> int \<Rightarrow> (int \<Rightarrow> int) \<Rightarrow> int" where
  "reduce_all op np v = (case op of RedMin \<Rightarrow> Min (set (map v [0..np - 1])) | RedMax \<Rightarrow> Max (set (map v [0..np - 1])))"

fun same_shape :: "bcast_value \<Rightarrow> bcast_value \<Rightarrow> bool" where
  "same_shape (BInt a) (BInt b) \<longleftrightarrow> True"
| "same_shape (BBytes a) (BBytes b) \<longleftrightarrow> length a = length b"
| "same_shape a b \<longleftrightarrow> False"

text \<open>One rank goes on with a new tree, and all of them do.\<close>

definition set_proc :: "int \<Rightarrow> ('s, 'r) ctl proc \<Rightarrow> ('s, 'r) world \<Rightarrow> ('s, 'r) world" where
  "set_proc r p w = w\<lparr>procs := (procs w)(r := p)\<rparr>"

definition set_procs :: "int \<Rightarrow> (int \<Rightarrow> ('s, 'r) ctl proc) \<Rightarrow> ('s, 'r) world \<Rightarrow> ('s, 'r) world" where
  "set_procs np p w = w\<lparr>procs := \<lambda>r. if in_comm np r then p r else procs w r\<rparr>"

definition set_queue :: "int \<times> int \<times> int \<Rightarrow> bytes list \<Rightarrow> ('s, 'r) world \<Rightarrow> ('s, 'r) world" where
  "set_queue q bss w = w\<lparr>net := (net w)(q := bss)\<rparr>"

inductive mpi_step ::
  "int \<Rightarrow> (int \<Rightarrow> 's \<Rightarrow> ('s, 'r) ctl proc) \<Rightarrow> ('s, 'r) world \<Rightarrow> ('s, 'r) world \<Rightarrow> bool"
  for np body
where
  send: "in_comm np r \<Longrightarrow> procs w r = PSend d t bs p \<Longrightarrow> in_comm np d
    \<Longrightarrow> mpi_step np body w (set_queue (r, d, t) (net w (r, d, t) @ [bs]) (set_proc r p w))"
| recv: "in_comm np r \<Longrightarrow> procs w r = PRecv s t k \<Longrightarrow> net w (s, r, t) = bs # bss
    \<Longrightarrow> mpi_step np body w (set_queue (s, r, t) bss (set_proc r (k bs) w))"
| recv_any: "in_comm np r \<Longrightarrow> procs w r = PRecvAny t j \<Longrightarrow> in_comm np s \<Longrightarrow> net w (s, r, t) = bs # bss
    \<Longrightarrow> mpi_step np body w (set_queue (s, r, t) bss (set_proc r (j (s, bs)) w))"
| probe_hit: "in_comm np r \<Longrightarrow> procs w r = PProbe t l \<Longrightarrow> in_comm np s \<Longrightarrow> net w (s, r, t) \<noteq> []
    \<Longrightarrow> mpi_step np body w (set_proc r (l (Some s)) w)"
| probe_pending: "in_comm np r \<Longrightarrow> procs w r = PProbe t l \<Longrightarrow> in_comm np s \<Longrightarrow> procs w s = PSend r t bs p
    \<Longrightarrow> mpi_step np body w (set_proc r (l (Some s)) w)"
| probe_miss: "in_comm np r \<Longrightarrow> procs w r = PProbe t l \<Longrightarrow> mpi_step np body w (set_proc r (l None) w)"
| all_reduce: "(\<And>r. in_comm np r \<Longrightarrow> procs w r = PReduce op (v r) (m r))
    \<Longrightarrow> mpi_step np body w (set_procs np (\<lambda>r. m r (reduce_all op np v)) w)"
| broadcast: "in_comm np root \<Longrightarrow> (\<And>r. in_comm np r \<Longrightarrow> procs w r = PBcast root (b r) (n r) \<and> same_shape (b root) (b r))
    \<Longrightarrow> mpi_step np body w (set_procs np (\<lambda>r. n r (b root)) w)"
| try_join: "in_comm np r \<Longrightarrow> procs w r = PTryJoin g \<Longrightarrow> a \<noteq> Disconnected \<Longrightarrow> mpi_step np body w (set_proc r (g a) w)"
| join: "in_comm np r \<Longrightarrow> procs w r = PJoin i \<Longrightarrow> mpi_step np body w (set_proc r (i True) w)"
| loop: "in_comm np r \<Longrightarrow> procs w r = PRet (Again s) \<Longrightarrow> mpi_step np body w (set_proc r (body r s) w)"

inductive mpi_reach ::
  "int \<Rightarrow> (int \<Rightarrow> 's \<Rightarrow> ('s, 'r) ctl proc) \<Rightarrow> ('s, 'r) world \<Rightarrow> ('s, 'r) world \<Rightarrow> bool"
  for np body w
where
  refl: "mpi_reach np body w w"
| step: "mpi_reach np body w w' \<Longrightarrow> mpi_step np body w' w'' \<Longrightarrow> mpi_reach np body w w''"

text \<open>
  The steps that need no buffer: those that put nothing into the network, and a send that meets its receive. The messages
  sent before it on the same channel have been received.
\<close>

inductive mpi_sure ::
  "int \<Rightarrow> (int \<Rightarrow> 's \<Rightarrow> ('s, 'r) ctl proc) \<Rightarrow> ('s, 'r) world \<Rightarrow> ('s, 'r) world \<Rightarrow> bool"
  for np body
where
  unbuffered: "mpi_step np body w w' \<Longrightarrow> (\<And>q. length (net w' q) \<le> length (net w q)) \<Longrightarrow> mpi_sure np body w w'"
| meet: "in_comm np s \<Longrightarrow> procs w s = PSend r t bs p \<Longrightarrow> in_comm np r \<Longrightarrow> procs w r = PRecv s t k \<Longrightarrow> net w (s, r, t) = []
    \<Longrightarrow> mpi_sure np body w (set_proc r (k bs) (set_proc s p w))"
| meet_any: "in_comm np s \<Longrightarrow> procs w s = PSend r t bs p \<Longrightarrow> in_comm np r \<Longrightarrow> procs w r = PRecvAny t j \<Longrightarrow> net w (s, r, t) = []
    \<Longrightarrow> mpi_sure np body w (set_proc r (j (s, bs)) (set_proc s p w))"

lemma world_fields [simp]:
  "procs (set_proc r p w) = (procs w)(r := p)" "net (set_proc r p w) = net w"
  "procs (set_queue q bss w) = procs w" "net (set_queue q bss w) = (net w)(q := bss)"
  "net (set_procs np ps w) = net w" "procs (set_procs np ps w) r' = (if in_comm np r' then ps r' else procs w r')"
  by (simp_all add: set_proc_def set_queue_def set_procs_def)

definition mpi_start :: "(int \<Rightarrow> 's) \<Rightarrow> ('s, 'r) world" where
  "mpi_start st = \<lparr>procs = \<lambda>r. PRet (Again (st r)), net = \<lambda>_. []\<rparr>"

definition returned :: "('s, 'r) world \<Rightarrow> int \<Rightarrow> 'r option" where
  "returned w r = (case procs w r of PRet (Exit x) \<Rightarrow> Some x | _ \<Rightarrow> None)"

text \<open>What needs no buffer may happen with one: a send that meets its receive is the send and the receive.\<close>

lemma world_eqI: "procs w = procs w' \<Longrightarrow> net w = net w' \<Longrightarrow> w = (w' :: ('s, 'r) world)"
  by (cases w; cases w') simp

lemma mpi_sure_reach:
  assumes "mpi_sure np body w w'"
  shows "mpi_reach np body w w'"
  using assms
proof cases
  case unbuffered
  then show ?thesis by (blast intro: mpi_reach.intros)
next
  case (meet s r t bs p k)
  let ?u = "set_queue (s, r, t) [bs] (set_proc s p w)"
  have rs: "r \<noteq> s" using meet(3,5) by auto
  have "mpi_step np body w ?u" using mpi_step.send [of np s w r t bs p body] meet by simp
  moreover have "mpi_step np body ?u (set_queue (s, r, t) [] (set_proc r (k bs) ?u))"
    using mpi_step.recv [of np r ?u s t k bs "[]" body] meet rs by simp
  moreover have "set_queue (s, r, t) [] (set_proc r (k bs) ?u) = w'" using meet by (intro world_eqI) (auto simp: fun_eq_iff)
  ultimately show ?thesis by (metis mpi_reach.intros)
next
  case (meet_any s r t bs p j)
  let ?u = "set_queue (s, r, t) [bs] (set_proc s p w)"
  have rs: "r \<noteq> s" using meet_any(3,5) by auto
  have "mpi_step np body w ?u" using mpi_step.send [of np s w r t bs p body] meet_any by simp
  moreover have "mpi_step np body ?u (set_queue (s, r, t) [] (set_proc r (j (s, bs)) ?u))"
    using mpi_step.recv_any [of np r ?u t j s bs "[]" body] meet_any rs by simp
  moreover have "set_queue (s, r, t) [] (set_proc r (j (s, bs)) ?u) = w'" using meet_any by (intro world_eqI) (auto simp: fun_eq_iff)
  ultimately show ?thesis by (metis mpi_reach.intros)
qed

lemma mpi_sure_steps: "mpi_sure np body w w' \<Longrightarrow> \<exists>w''. mpi_step np body w w''"
  by (cases rule: mpi_sure.cases) (blast intro: mpi_step.send)+

lemma sure_intros:
  "in_comm np r \<Longrightarrow> procs w r = PRecv s t k \<Longrightarrow> net w (s, r, t) \<noteq> [] \<Longrightarrow> \<exists>w'. mpi_sure np body w w'"
  "in_comm np r \<Longrightarrow> procs w r = PRecvAny t j \<Longrightarrow> in_comm np s \<Longrightarrow> net w (s, r, t) \<noteq> [] \<Longrightarrow> \<exists>w'. mpi_sure np body w w'"
  "in_comm np r \<Longrightarrow> procs w r = PProbe t l \<Longrightarrow> \<exists>w'. mpi_sure np body w w'"
  "in_comm np r \<Longrightarrow> procs w r = PRet (Again x) \<Longrightarrow> \<exists>w'. mpi_sure np body w w'"
proof -
  assume r: "in_comm np r"
  show "procs w r = PRecv s t k \<Longrightarrow> net w (s, r, t) \<noteq> [] \<Longrightarrow> \<exists>w'. mpi_sure np body w w'"
    by (cases "net w (s, r, t)") (auto dest: mpi_step.recv [OF r] intro!: exI mpi_sure.unbuffered)
  show "procs w r = PRecvAny t j \<Longrightarrow> in_comm np s \<Longrightarrow> net w (s, r, t) \<noteq> [] \<Longrightarrow> \<exists>w'. mpi_sure np body w w'"
    by (cases "net w (s, r, t)") (auto dest: mpi_step.recv_any [OF r] intro!: exI mpi_sure.unbuffered)
  show "procs w r = PProbe t l \<Longrightarrow> \<exists>w'. mpi_sure np body w w'"
    by (rule exI, rule mpi_sure.unbuffered, erule mpi_step.probe_miss [OF r]) simp
  show "procs w r = PRet (Again x) \<Longrightarrow> \<exists>w'. mpi_sure np body w w'"
    by (rule exI, rule mpi_sure.unbuffered, erule mpi_step.loop [OF r]) simp
qed

lemma sure_collective:
  "(\<And>r. in_comm np r \<Longrightarrow> procs w r = PReduce op (v r) (m r)) \<Longrightarrow> mpi_sure np body w (set_procs np (\<lambda>r. m r (reduce_all op np v)) w)"
  "in_comm np root \<Longrightarrow> (\<And>r. in_comm np r \<Longrightarrow> procs w r = PBcast root (b r) (n r) \<and> same_shape (b root) (b r))
    \<Longrightarrow> mpi_sure np body w (set_procs np (\<lambda>r. n r (b root)) w)"
  by (rule mpi_sure.unbuffered, erule mpi_step.all_reduce, simp) (rule mpi_sure.unbuffered, erule mpi_step.broadcast, auto)

end
