(* ===== verification/LocalExec.thy ===== *)
theory LocalExec
  imports MapSerial
begin

text \<open>
  The execution domain of a process (\<open>src/domain.rs\<close>) and the map it runs on one (\<open>src/local.rs\<close>). A pool of
  threads is a value of an unknown type with the number of its threads. What the operating system answers
  is an argument: the processors allowed, and, while a pool starts, the reports of its threads as the
  channel gives them, \<open>None\<close> when the wait runs out. The callback of a parallel map returns, fails with the text of its error, or
  panics.
\<close>

section \<open>Domains\<close>

datatype exec_id = ExecId u32

definition exec_id_ZERO :: exec_id where
  "exec_id_ZERO = ExecId 0"

definition exec_id_try_from :: "u32 \<Rightarrow> (u32, exec_id) result" where
  "exec_id_try_from requested = (if requested = 0 then Ok exec_id_ZERO else Err requested)"

record exec_place =
  ep_rank :: int
  ep_domain_id :: exec_id

definition exec_place_new :: "int \<Rightarrow> exec_id \<Rightarrow> (int, exec_place) result" where
  "exec_place_new rank did = (if rank < 0 then Err rank else Ok \<lparr>ep_rank = rank, ep_domain_id = did\<rparr>)"

datatype exec_mode = Sequential | Outer | Inner

datatype pool_ownership = Managed | External

datatype placement_status = Verified | CallerDeclared

datatype domain_build_error =
  EmptyCpuSet
| DuplicateCpu usize
| ZeroWorkers
| TooManyWorkers usize usize
| CpuOutOfRange usize usize
| CpuNotAllowed usize
| AffinityQuery int
| PoolBuild bytes
| PinFailed usize usize bytes
| StartTimeout usize usize
| InvalidReport usize usize
| PoolSizeMismatch usize usize

record 'p exec_domain =
  ed_id :: exec_id
  ed_worker_count :: usize
  ed_running :: bool
  ed_pool :: "'p option"
  ed_cpu_set :: "usize list option"
  ed_ownership :: "pool_ownership option"
  ed_placement :: "placement_status option"

definition domain_sequential :: "'p exec_domain" where
  "domain_sequential = \<lparr>ed_id = exec_id_ZERO, ed_worker_count = 1, ed_running = False, ed_pool = None, ed_cpu_set = None,
     ed_ownership = None, ed_placement = None\<rparr>"

text \<open>\<open>compare_exchange\<close> of the one slot; the guard is dropped with \<open>admission_drop\<close>.\<close>

definition try_admit :: "'p exec_domain \<Rightarrow> 'p exec_domain \<times> (unit, unit) result" where
  "try_admit d = (if ed_running d then (d, Err ()) else (d\<lparr>ed_running := True\<rparr>, Ok ()))"

definition admission_drop :: "'p exec_domain \<Rightarrow> 'p exec_domain" where
  "admission_drop d = d\<lparr>ed_running := False\<rparr>"

fun first_duplicate :: "usize list \<Rightarrow> usize list \<Rightarrow> usize option" where
  "first_duplicate seen [] = None"
| "first_duplicate seen (cpu # cpus) = (if cpu \<in> set seen then Some cpu else first_duplicate (cpu # seen) cpus)"

definition validate_cpu_set :: "usize list \<Rightarrow> usize \<Rightarrow> (domain_build_error, unit) result" where
  "validate_cpu_set cpu_set worker_count =
     (if cpu_set = [] then Err EmptyCpuSet
      else (case first_duplicate [] cpu_set of
          Some cpu \<Rightarrow> Err (DuplicateCpu cpu)
        | None \<Rightarrow>
            if worker_count = 0 then Err ZeroWorkers
            else if length cpu_set < worker_count then Err (TooManyWorkers worker_count (length cpu_set))
            else Ok ()))"

fun validate_linux_cpu_range :: "usize \<Rightarrow> usize list \<Rightarrow> (domain_build_error, unit) result" where
  "validate_linux_cpu_range cpu_set_size [] = Ok ()"
| "validate_linux_cpu_range cpu_set_size (cpu # cpus) =
     (if cpu_set_size \<le> cpu then Err (CpuOutOfRange cpu cpu_set_size) else validate_linux_cpu_range cpu_set_size cpus)"

text \<open>\<open>affinity\<close> is the answer of \<open>sched_getaffinity\<close>: an error number, or which processors are set.\<close>

definition process_allowed_cpus :: "usize \<Rightarrow> (int, usize \<Rightarrow> bool) result \<Rightarrow> (domain_build_error, usize list) result" where
  "process_allowed_cpus cpu_set_size affinity =
     (case affinity of Inl errno \<Rightarrow> Err (AffinityQuery errno) | Inr isset \<Rightarrow> Ok (filter isset [0..<cpu_set_size]))"

fun check_allowed :: "usize list \<Rightarrow> usize list \<Rightarrow> (domain_build_error, unit) result" where
  "check_allowed allowed [] = Ok ()"
| "check_allowed allowed (cpu # cpus) = (if cpu \<notin> set allowed then Err (CpuNotAllowed cpu) else check_allowed allowed cpus)"

record worker_report =
  wr_index :: usize
  wr_cpu :: usize
  wr_result :: "(bytes, unit) result"

text \<open>The start handler of a thread: the processor its index is given, and what pinning it came to; \<open>pin\<close> is
  \<open>pin_and_verify\<close>, a panic of which is caught.\<close>

definition start_handler :: "usize list \<Rightarrow> (usize \<Rightarrow> (bytes fault, unit) result) \<Rightarrow> usize \<Rightarrow> worker_report" where
  "start_handler start_cpus pin index =
     (let cpu = if index < length start_cpus then start_cpus ! index else USIZE_MAX in
      \<lparr>wr_index = index, wr_cpu = cpu,
       wr_result = (if cpu = USIZE_MAX then Err (lit ''worker index is outside the declared CPU set'')
         else (case pin cpu of
             Inl Panic \<Rightarrow> Err (lit ''worker pinner panicked'')
           | Inl (Fail m) \<Rightarrow> Err m
           | Inr u \<Rightarrow> Ok u))\<rparr>)"

text \<open>The loop that takes one report per worker.\<close>

fun take_reports ::
  "usize list \<Rightarrow> usize \<Rightarrow> nat \<Rightarrow> bool list \<Rightarrow> worker_report option list \<Rightarrow> (domain_build_error, bool list) result"
where
  "take_reports cpus worker_count received seen reports =
     (if worker_count \<le> received then Ok seen
      else (case reports of
          Some r # rest \<Rightarrow>
            if worker_count \<le> wr_index r \<or> seen ! wr_index r
               \<or> \<not> (wr_index r < length cpus \<and> cpus ! wr_index r = wr_cpu r)
            then Err (InvalidReport (wr_index r) (wr_cpu r))
            else (case wr_result r of
                Inl m \<Rightarrow> Err (PinFailed (wr_index r) (wr_cpu r) m)
              | Inr _ \<Rightarrow> take_reports cpus worker_count (Suc received) (seen[wr_index r := True]) rest)
        | _ \<Rightarrow> Err (StartTimeout worker_count received)))"

declare take_reports.simps [simp del]

definition build_managed ::
  "bool \<Rightarrow> (bytes, 'p) result \<Rightarrow> worker_report option list \<Rightarrow> usize list \<Rightarrow> usize \<Rightarrow> (domain_build_error, 'p exec_domain) result"
where
  "build_managed linux pool reports cpu_set worker_count =
     (case pool of
        Inl m \<Rightarrow> Err (PoolBuild m)
      | Inr p \<Rightarrow>
          res_bind (take_reports cpu_set worker_count 0 (replicate worker_count False) reports) (\<lambda>_.
            Ok \<lparr>ed_id = exec_id_ZERO, ed_worker_count = worker_count, ed_running = False, ed_pool = Some p,
                ed_cpu_set = Some cpu_set, ed_ownership = Some Managed,
                ed_placement = Some (if linux then Verified else CallerDeclared)\<rparr>))"

text \<open>\<open>linux\<close> is the target of the build, with the size of its processor sets.\<close>

definition domain_managed ::
  "bool \<Rightarrow> usize \<Rightarrow> (int, usize \<Rightarrow> bool) result \<Rightarrow> (bytes, 'p) result \<Rightarrow> worker_report option list \<Rightarrow> usize list \<Rightarrow> usize
     \<Rightarrow> (domain_build_error, 'p exec_domain) result"
where
  "domain_managed linux cpu_set_size affinity pool reports cpu_set worker_count =
     res_bind (validate_cpu_set cpu_set worker_count) (\<lambda>_.
       res_bind (if linux
                 then res_bind (validate_linux_cpu_range cpu_set_size cpu_set) (\<lambda>_.
                        res_bind (process_allowed_cpus cpu_set_size affinity) (\<lambda>allowed. check_allowed allowed cpu_set))
                 else Ok ()) (\<lambda>_.
         build_managed linux pool reports cpu_set worker_count))"

definition domain_external ::
  "bool \<Rightarrow> usize \<Rightarrow> ('p \<Rightarrow> usize) \<Rightarrow> 'p \<Rightarrow> usize list \<Rightarrow> usize \<Rightarrow> (domain_build_error, 'p exec_domain) result"
where
  "domain_external linux cpu_set_size num_threads pool cpu_set worker_count =
     res_bind (validate_cpu_set cpu_set worker_count) (\<lambda>_.
       res_bind (if linux then validate_linux_cpu_range cpu_set_size cpu_set else Ok ()) (\<lambda>_.
         if num_threads pool \<noteq> worker_count then Err (PoolSizeMismatch worker_count (num_threads pool))
         else Ok \<lparr>ed_id = exec_id_ZERO, ed_worker_count = worker_count, ed_running = False, ed_pool = Some pool,
                  ed_cpu_set = Some cpu_set, ed_ownership = Some External, ed_placement = Some CallerDeclared\<rparr>))"

section \<open>Maps in a domain\<close>

type_synonym ('t, 'u) callback = "'t \<Rightarrow> (bytes fault, 'u) result"

text \<open>\<open>map\<close> with a callback that may panic, which ends the loop at once.\<close>

fun map_calls :: "('t, 'u) callback \<Rightarrow> usize \<Rightarrow> 'u list \<Rightarrow> 't list \<Rightarrow> (map_error fault, 'u list) result" where
  "map_calls f i outs [] = Ok outs"
| "map_calls f i outs (item # items) =
     (case f item of
        Inr v \<Rightarrow> map_calls f (Suc i) (outs @ [v]) items
      | Inl (Fail e) \<Rightarrow> Err (Fail (map_error_new id i e))
      | Inl Panic \<Rightarrow> Err Panic)"

text \<open>In \<open>Outer\<close> mode every item is run, and a panic of any of them goes on to the caller.\<close>

definition run_in_current_pool :: "exec_mode \<Rightarrow> 't list \<Rightarrow> ('t, 'u) callback \<Rightarrow> (map_error fault, 'u list) result" where
  "run_in_current_pool mode items f =
     (case mode of
        Outer \<Rightarrow>
          (let rs = map f items in
           if Inl Panic \<in> set rs then Err Panic else map_calls (\<lambda>r. r) 0 [] rs)
      | _ \<Rightarrow> map_calls f 0 [] items)"

definition run_in_pool :: "exec_mode \<Rightarrow> 't list \<Rightarrow> ('t, 'u) callback \<Rightarrow> (map_error fault, 'u list) result" where
  "run_in_pool mode items f = run_in_current_pool mode items f"

datatype map_in_error = MissingPool | ForeignPool | InDomainBusy | InCallback map_error

text \<open>\<open>in_worker\<close>: whether the calling thread belongs to some pool; \<open>in_this\<close>: whether it belongs to the pool of
  the domain. A panic leaves after the guard has been dropped.\<close>

definition map_in ::
  "bool \<Rightarrow> ('p \<Rightarrow> bool) \<Rightarrow> 'p exec_domain \<Rightarrow> exec_mode \<Rightarrow> 't list \<Rightarrow> ('t, 'u) callback
     \<Rightarrow> 'p exec_domain \<times> (map_in_error fault, 'u list) result"
where
  "map_in in_worker in_this d mode items f =
     (case ed_pool d of
        None \<Rightarrow> (d, Err (Fail MissingPool))
      | Some pool \<Rightarrow>
          if in_worker \<and> \<not> in_this pool then (d, Err (Fail ForeignPool))
          else (case try_admit d of
              (d1, Inl _) \<Rightarrow> (d1, Err (Fail InDomainBusy))
            | (d1, Inr _) \<Rightarrow>
                (admission_drop d1,
                 (case run_in_pool mode items f of
                    Inl Panic \<Rightarrow> Err Panic
                  | Inl (Fail e) \<Rightarrow> Err (Fail (InCallback e))
                  | Inr vs \<Rightarrow> Ok vs))))"

section \<open>What holds\<close>

subsection \<open>Domains\<close>

lemma first_duplicate_None: "first_duplicate seen cpus = None \<longleftrightarrow> distinct cpus \<and> set seen \<inter> set cpus = {}"
  by (induction seen cpus rule: first_duplicate.induct) auto

lemma length_filter_set: "i < length xs \<Longrightarrow> \<not> xs ! i \<Longrightarrow> length (filter (\<lambda>b. b) (xs[i := True])) = Suc (length (filter (\<lambda>b. b) xs))"
proof -
  assume i: "i < length xs" "\<not> xs ! i"
  then have "{j. j < length (xs[i := True]) \<and> xs[i := True] ! j} = insert i {j. j < length xs \<and> xs ! j}"
    by (auto simp: nth_list_update)
  then show ?thesis using i by (simp add: length_filter_conv_card)
qed

lemma take_reports_Ok:
  assumes "take_reports cpus n received seen reports = Ok seen'" "length seen = n" "length (filter (\<lambda>b. b) seen) = received" "received \<le> n"
  shows "\<forall>i < n. seen ! i \<or> (\<exists>r. Some r \<in> set (take (n - received) reports) \<and> wr_index r = i \<and> i < length cpus \<and> cpus ! i = wr_cpu r \<and> wr_result r = Ok ())"
  using assms
proof (induction cpus n received seen reports rule: take_reports.induct)
  case (1 cpus n received seen reports)
  show ?case
  proof (cases "n \<le> received")
    case True
    then have "length (filter (\<lambda>b. b) seen) = length seen" using "1.prems" by simp
    then have "\<forall>b\<in>set seen. b" by (metis length_filter_less less_irrefl)
    then show ?thesis using "1.prems"(2) by auto
  next
    case False
    then obtain r rest where r: "reports = Some r # rest"
      using "1.prems"(1) by (subst (asm) take_reports.simps) (auto split: list.splits option.splits)
    have ok: "wr_index r < n" "\<not> seen ! wr_index r" "wr_index r < length cpus" "cpus ! wr_index r = wr_cpu r"
        "wr_result r = Ok ()" "take_reports cpus n (Suc received) (seen[wr_index r := True]) rest = Ok seen'"
      using "1.prems"(1) False r by (subst (asm) take_reports.simps, auto split: if_splits sum.splits)+
    have "length (filter (\<lambda>b. b) (seen[wr_index r := True])) = Suc received"
      using ok(1,2) "1.prems"(2,3) by (simp add: length_filter_set)
    moreover have "Suc received \<le> n" using False by simp
    ultimately have IH: "\<forall>i < n. seen[wr_index r := True] ! i \<or> (\<exists>q. Some q \<in> set (take (n - Suc received) rest) \<and> wr_index q = i
        \<and> i < length cpus \<and> cpus ! i = wr_cpu q \<and> wr_result q = Ok ())"
      using "1.IH" [OF False r refl] ok "1.prems"(2) by auto
    have t: "take (n - received) reports = Some r # take (n - Suc received) rest" using False r by (simp add: take_Cons' Suc_diff_Suc)
    show ?thesis
    proof (intro allI impI)
      fix i assume i: "i < n"
      show "seen ! i \<or> (\<exists>r. Some r \<in> set (take (n - received) reports) \<and> wr_index r = i \<and> i < length cpus \<and> cpus ! i = wr_cpu r \<and> wr_result r = Ok ())"
        using IH i ok "1.prems"(2) unfolding t by (cases "i = wr_index r") auto
    qed
  qed
qed

text \<open>
  C40. A managed domain has its workers where it says. When one is built, the processors are distinct and there is at
  least one worker and no more than processors, on Linux all of them are in range and allowed for the process,
  and among the first reports, as many as workers, each worker below the count has reported once that it was pinned to
  the processor at its index. The domain is idle and accepts an operation at once.
\<close>

theorem managed_domain_pinned:
  assumes "domain_managed linux cpu_set_size affinity pool reports cpu_set worker_count = Ok d"
  shows "distinct cpu_set \<and> 0 < worker_count \<and> worker_count \<le> length cpu_set
    \<and> (linux \<longrightarrow> (\<exists>isset. affinity = Ok isset \<and> (\<forall>cpu\<in>set cpu_set. cpu < cpu_set_size \<and> isset cpu)))
    \<and> (\<forall>i < worker_count. \<exists>r. Some r \<in> set (take worker_count reports) \<and> wr_index r = i \<and> wr_cpu r = cpu_set ! i \<and> wr_result r = Ok ())
    \<and> ed_worker_count d = worker_count \<and> ed_cpu_set d = Some cpu_set \<and> snd (try_admit d) = Ok ()"
proof -
  have v: "cpu_set \<noteq> []" "distinct cpu_set" "0 < worker_count" "worker_count \<le> length cpu_set"
    using assms by (auto simp: domain_managed_def validate_cpu_set_def first_duplicate_None split: if_splits option.splits)
  have range: "validate_linux_cpu_range n cpus = Ok () \<longleftrightarrow> (\<forall>cpu\<in>set cpus. cpu < n)" for n cpus
    by (induction cpus) auto
  have allow: "check_allowed al cpus = Ok () \<longleftrightarrow> set cpus \<subseteq> set al" for al cpus
    by (induction cpus) auto
  have l: "\<exists>isset. affinity = Ok isset \<and> (\<forall>cpu\<in>set cpu_set. cpu < cpu_set_size \<and> isset cpu)" if linux
    using assms that by (auto simp: domain_managed_def process_allowed_cpus_def range allow split: sum.splits)
  obtain p seen where b: "pool = Ok p" "take_reports cpu_set worker_count 0 (replicate worker_count False) reports = Ok seen"
      "ed_worker_count d = worker_count" "ed_cpu_set d = Some cpu_set" "\<not> ed_running d"
    using assms by (auto simp: domain_managed_def build_managed_def split: sum.splits)
  from take_reports_Ok [OF b(2)] have "\<forall>i < worker_count. \<exists>r. Some r \<in> set (take worker_count reports) \<and> wr_index r = i \<and> wr_cpu r = cpu_set ! i \<and> wr_result r = Ok ()"
    by simp metis
  with v l b show ?thesis by (simp add: try_admit_def)
qed

definition demo_report :: "usize \<Rightarrow> worker_report option" where
  "demo_report i = Some (start_handler [4, 2] (\<lambda>_. Ok ()) i)"

theorem managed_domain_pinned_witness:
  "\<exists>d :: unit exec_domain. domain_managed True 8 (Ok (\<lambda>c. c < 6)) (Ok ()) [demo_report 1, demo_report 0] [4, 2] 2 = Ok d
     \<and> ed_worker_count d = 2 \<and> snd (try_admit d) = Ok ()"
proof -
  have "\<exists>d :: unit exec_domain. domain_managed True 8 (Ok (\<lambda>c. c < 6)) (Ok ()) [demo_report 1, demo_report 0] [4, 2] 2 = Ok d"
    by (simp add: domain_managed_def validate_cpu_set_def process_allowed_cpus_def build_managed_def take_reports.simps
        numeral_2_eq_2 [symmetric] demo_report_def start_handler_def USIZE_MAX_def upt_rec Let_def)
  then show ?thesis using managed_domain_pinned [of True 8 "Ok (\<lambda>c. c < 6)" "Ok ()" "[demo_report 1, demo_report 0]" "[4, 2]" 2] by blast
qed

subsection \<open>Modes\<close>

definition panics :: "('t, 'u) callback \<Rightarrow> 't list \<Rightarrow> bool" where
  "panics f items \<longleftrightarrow> (\<exists>x\<in>set items. f x = Err Panic)"

lemma map_calls_map: "map_calls (\<lambda>r. r) i outs (map f items) = map_calls f i outs items"
  by (induction f i outs items rule: map_calls.induct) (auto split: sum.splits fault.splits)

lemma map_calls_loop:
  assumes "\<not> panics f items" "\<And>x. x \<in> set items \<Longrightarrow> g () x = ((), case f x of Inr v \<Rightarrow> Ok v | Inl (Fail e) \<Rightarrow> Err e | Inl Panic \<Rightarrow> Err [])"
  shows "map_calls f i outs items = res_map_err Fail (snd (map_loop id g i outs () items))"
  using assms
proof (induction f i outs items rule: map_calls.induct)
  case (2 f i outs item items)
  then show ?case by (cases "f item") (auto simp: panics_def map_error_new_def split: fault.splits)
qed simp

text \<open>The modes give the same: parallel evaluation is the serial \<open>map\<close>, the error of the least index included,
  unless the callback panics; a panic anywhere shows in \<open>Outer\<close> mode, and in the others when no error comes first.\<close>

lemma modes_agree:
  "run_in_current_pool Outer items f = (if panics f items then Err Panic else run_in_current_pool Sequential items f)"
  "run_in_current_pool Inner items f = run_in_current_pool Sequential items f"
  by (auto simp: run_in_current_pool_def Let_def map_calls_map panics_def image_iff)

text \<open>A map leaves the domain as it found it, whatever comes of it.\<close>

lemma map_in_releases: "fst (map_in in_worker in_this d mode items f) = d"
  by (cases d) (auto simp: map_in_def try_admit_def admission_drop_def split: option.splits)

end
