(* ===== verification/Pmap.thy ===== *)
theory Pmap
  imports Mpi SchedulerRun LocalExec Utf8
begin

text \<open>
  The collective \<open>pmap\<close> of the root crate (\<open>src/pmap.rs\<close>) as programs over MPI: the frames, the agreement on
  errors, the checks before the work, the loops of the root and of the workers with and without a thread pool, and
  the whole call. The root keeps the batch coordinator of \<open>Scheduler\<close>. The codec of the payloads (\<open>bincode\<close>) and the
  texts of the errors (\<open>Display\<close>) are in a record; a callback may keep a state of its own (\<open>FnMut\<close>), which it takes and
  returns, and returns, fails with the text of its error, or panics.
\<close>

section \<open>Options and errors\<close>

definition HEADER_TAG :: int where
  "HEADER_TAG = 0"

definition PAYLOAD_TAG :: int where
  "PAYLOAD_TAG = 1"

record mpi_options =
  mo_root :: int
  mo_batch_size :: usize
  mo_local_mode :: exec_mode
  mo_prefetch :: bool

definition mpi_options_default :: mpi_options where
  "mpi_options_default = \<lparr>mo_root = 0, mo_batch_size = 1, mo_local_mode = Sequential, mo_prefetch = False\<rparr>"

datatype pmap_error_kind = PmReentrant | PmPreflight | PmUser | PmWire | PmProtocol

record pmap_error =
  pr_kind :: pmap_error_kind
  pr_key :: "int option"
  pr_message :: bytes

definition pmap_error_new :: "pmap_error_kind \<Rightarrow> bytes \<Rightarrow> pmap_error" where
  "pmap_error_new kind message = \<lparr>pr_kind = kind, pr_key = None, pr_message = truncate_message message\<rparr>"

definition pmap_error_keyed :: "pmap_error_kind \<Rightarrow> int \<Rightarrow> bytes \<Rightarrow> pmap_error" where
  "pmap_error_keyed kind key message = \<lparr>pr_kind = kind, pr_key = Some key, pr_message = truncate_message message\<rparr>"

fun pmap_kind_code :: "pmap_error_kind \<Rightarrow> int" where
  "pmap_kind_code PmReentrant = 0"
| "pmap_kind_code PmPreflight = 1"
| "pmap_kind_code PmUser = 2"
| "pmap_kind_code PmWire = 3"
| "pmap_kind_code PmProtocol = 4"

definition pmap_kind_from_code :: "int \<Rightarrow> pmap_error_kind option" where
  "pmap_kind_from_code c =
     (if c = 0 then Some PmReentrant else if c = 1 then Some PmPreflight else if c = 2 then Some PmUser
      else if c = 3 then Some PmWire else if c = 4 then Some PmProtocol else None)"

text \<open>The flag of the thread: \<open>replace(true)\<close>, and what \<open>drop\<close> does.\<close>

definition active_acquire :: "bool \<Rightarrow> bool \<times> (pmap_error, unit) result" where
  "active_acquire active =
     (True, if active then Err (pmap_error_new PmReentrant (lit ''pmap is already active on this thread'')) else Ok ())"

definition active_drop :: "bool \<Rightarrow> bool" where
  "active_drop active = False"

type_synonym local_error = "pmap_error_kind \<times> bytes"
type_synonym 'u root_outcome = "'u list \<times> int \<times> local_error option"

record callback_failure =
  cf_index :: usize
  cf_kind :: int
  cf_message :: bytes

datatype 'u result_payload = RpValues "(usize \<times> 'u) list" | RpError callback_failure

record ('t, 'u) pmap_env =
  sd_enc_task :: "(usize \<times> 't) list \<Rightarrow> (bytes, bytes) result"
  sd_dec_task :: "bytes \<Rightarrow> (bytes, (usize \<times> 't) list \<times> usize) result"
  sd_enc_result :: "'u result_payload \<Rightarrow> (bytes, bytes) result"
  sd_dec_result :: "bytes \<Rightarrow> (bytes, 'u result_payload \<times> usize) result"
  wire_text :: "wire_error \<Rightarrow> bytes"
  sched_text :: "scheduler_error \<Rightarrow> bytes"

definition wire_failure :: "('t, 'u) pmap_env \<Rightarrow> wire_error \<Rightarrow> pmap_error" where
  "wire_failure E e = pmap_error_new PmWire (wire_text E e)"

definition protocol_failure :: "bytes \<Rightarrow> pmap_error" where
  "protocol_failure m = pmap_error_new PmProtocol m"

definition sched_failure :: "('t, 'u) pmap_env \<Rightarrow> scheduler_error \<Rightarrow> pmap_error" where
  "sched_failure E e = protocol_failure (sched_text E e)"

text \<open>\<open>map_err(scheduler_error)?\<close> after a method of the coordinator.\<close>

definition psched :: "('t, 'u) pmap_env \<Rightarrow> 'a sched_result \<Rightarrow> ('a \<Rightarrow> (pmap_error, 'b) result proc) \<Rightarrow> (pmap_error, 'b) result proc" where
  "psched E r k =
     (case r of Inl (Fail e) \<Rightarrow> PRet (Err (sched_failure E e)) | Inl Panic \<Rightarrow> PPanic | Inr a \<Rightarrow> k a)"

section \<open>Frames\<close>

definition pm_header :: "('t, 'u) pmap_env \<Rightarrow> message_kind \<Rightarrow> message_status \<Rightarrow> u64 \<Rightarrow> u64 \<Rightarrow> usize \<Rightarrow> (pmap_error, header) result" where
  "pm_header E kind status bid item_count len = res_map_err (wire_failure E) (header_new kind status bid item_count (word_of_nat len))"

definition send_header :: "int \<Rightarrow> header \<Rightarrow> unit proc" where
  "send_header rank value = PSend rank HEADER_TAG (header_encode value) (PRet ())"

definition receive_header :: "('t, 'u) pmap_env \<Rightarrow> int \<Rightarrow> (pmap_error, header) result proc" where
  "receive_header E rank = PRecv rank HEADER_TAG (\<lambda>bs. PRet (res_map_err (wire_failure E) (header_decode bs)))"

definition receive_any_header :: "('t, 'u) pmap_env \<Rightarrow> (pmap_error, int \<times> header) result proc" where
  "receive_any_header E =
     PRecvAny HEADER_TAG (\<lambda>(source, bs). PRet (res_map_err (wire_failure E) (res_bind (header_decode bs) (\<lambda>v. Ok (source, v)))))"

definition receive_payload ::
  "('t, 'u) pmap_env \<Rightarrow> (bytes \<Rightarrow> (bytes, 'a \<times> usize) result) \<Rightarrow> int \<Rightarrow> header \<Rightarrow> (pmap_error, 'a) result proc"
where
  "receive_payload E dec rank value =
     plift (res_map_err (wire_failure E) (checked_mpi_count (hd_payload_len value))) (\<lambda>count.
       plift (res_map_err (wire_failure E) (checked_usize_length (hd_payload_len value))) (\<lambda>_.
         PRecv rank PAYLOAD_TAG (\<lambda>bs.
           if int (length bs) \<noteq> count
           then PRet (Err (protocol_failure (lit ''payload length does not match its header'')))
           else PRet (res_map_err (wire_failure E) (decode_payload dec bs)))))"

definition send_frame ::
  "('t, 'u) pmap_env \<Rightarrow> ('a \<Rightarrow> (bytes, bytes) result) \<Rightarrow> int \<Rightarrow> message_kind \<Rightarrow> message_status \<Rightarrow> u64 \<Rightarrow> usize \<Rightarrow> 'a
     \<Rightarrow> (pmap_error, unit) result proc"
where
  "send_frame E enc rank kind status bid item_count payload =
     plift (res_map_err (wire_failure E) (encode_payload enc payload)) (\<lambda>bs.
       plift (pm_header E kind status bid (word_of_nat item_count) (length bs)) (\<lambda>value.
         pbind (send_header rank value) (\<lambda>_. PSend rank PAYLOAD_TAG bs (PRet (Ok ())))))"

definition send_empty :: "('t, 'u) pmap_env \<Rightarrow> int \<Rightarrow> message_kind \<Rightarrow> u64 \<Rightarrow> (pmap_error, unit) result proc" where
  "send_empty E rank kind bid =
     plift (pm_header E kind StNone bid 0 0) (\<lambda>value. pbind (send_header rank value) (\<lambda>_. PRet (Ok ())))"

section \<open>Agreement on errors\<close>

definition error_key :: "('t, 'u) pmap_env \<Rightarrow> usize \<Rightarrow> error_class \<Rightarrow> int \<Rightarrow> int \<Rightarrow> (pmap_error, int) result" where
  "error_key E task_key cl rank np = res_map_err (wire_failure E) (error_key_new (word_of_nat task_key) cl rank np)"

definition convergence :: "int \<Rightarrow> int proc" where
  "convergence local_key = PReduce RedMin local_key PRet"

definition broadcast_error ::
  "int \<Rightarrow> int \<Rightarrow> int \<Rightarrow> int \<Rightarrow> local_error option \<Rightarrow> (pmap_error, local_error option) result proc"
where
  "broadcast_error rank np selected local_key local_err =
     (if selected = NO_ERROR_KEY then PRet (Ok None)
      else if selected < 0 \<or> np \<le> 0 then PRet (Err (protocol_failure (lit ''invalid selected error key'')))
      else (let winner = selected mod np; is_winner = (rank = winner) in
        if is_winner \<and> local_key \<noteq> selected
        then PRet (Err (protocol_failure (lit ''winner does not own selected error'')))
        else (let winner_local = if is_winner then local_err else None;
                  message = (case winner_local of Some (_, m) \<Rightarrow> m | None \<Rightarrow> [])
          in
          PBcast winner (BInt (case winner_local of Some (k, _) \<Rightarrow> pmap_kind_code k | None \<Rightarrow> pmap_kind_code PmProtocol)) (\<lambda>kind.
          PBcast winner (BInt selected) (\<lambda>key.
            if bcast_int key \<noteq> selected then PRet (Err (protocol_failure (lit ''broadcast error key mismatch'')))
            else if 2 ^ 31 \<le> length message then PRet (Err (protocol_failure (lit ''error message length overflow'')))
            else PBcast winner (BInt (int (length message))) (\<lambda>len.
              if bcast_int len < 0 \<or> MAX_ERROR_MESSAGE_BYTES < nat (bcast_int len)
              then PRet (Err (protocol_failure (lit ''invalid broadcast error message length'')))
              else PBcast winner (BBytes (if is_winner then message else replicate (nat (bcast_int len)) 0)) (\<lambda>text.
                case pmap_kind_from_code (bcast_int kind) of
                  None \<Rightarrow> PRet (Err (protocol_failure (lit ''invalid error kind'')))
                | Some k \<Rightarrow>
                    if utf8_valid (bcast_bytes text) then PRet (Ok (Some (k, bcast_bytes text)))
                    else PRet (Err (protocol_failure (lit ''invalid utf-8 sequence''))))))))))"

fun exec_mode_code :: "exec_mode \<Rightarrow> int" where
  "exec_mode_code Sequential = 0"
| "exec_mode_code Outer = 1"
| "exec_mode_code Inner = 2"

text \<open>\<open>rank_text\<close> is the decimal text of a rank.\<close>

definition preflight ::
  "('t, 'u) pmap_env \<Rightarrow> (int \<Rightarrow> bytes) \<Rightarrow> int \<Rightarrow> int \<Rightarrow> mpi_options \<Rightarrow> bool \<Rightarrow> bool \<Rightarrow> bool \<Rightarrow> (pmap_error, unit) result proc"
where
  "preflight E rank_text rank np opts has_items thread_main execution_valid =
     (let local_batch = int (mo_batch_size opts); local_mode = exec_mode_code (mo_local_mode opts);
          local_prefetch = (if mo_prefetch opts then 1 else 0)
      in
      PReduce RedMin (mo_root opts) (\<lambda>min_root. PReduce RedMax (mo_root opts) (\<lambda>max_root.
      PReduce RedMin local_batch (\<lambda>min_batch. PReduce RedMax local_batch (\<lambda>max_batch.
      PReduce RedMin local_mode (\<lambda>min_mode. PReduce RedMax local_mode (\<lambda>max_mode.
      PReduce RedMin local_prefetch (\<lambda>min_prefetch. PReduce RedMax local_prefetch (\<lambda>max_prefetch.
        let local_valid = (thread_main \<and> 0 \<le> mo_root opts \<and> mo_root opts < np \<and> ((rank = mo_root opts) = has_items) \<and> execution_valid
              \<and> min_root = max_root \<and> min_batch = max_batch \<and> min_mode = max_mode \<and> min_prefetch = max_prefetch)
        in plift (res_map_err (wire_failure E) (preflight_candidate (\<not> local_valid) rank np)) (\<lambda>candidate.
          PReduce RedMin candidate (\<lambda>failing_rank.
            if failing_rank \<noteq> np
            then PRet (Err (pmap_error_new PmPreflight (lit ''pmap preflight failed on rank '' @ rank_text failing_rank)))
            else PRet (Ok ()))))))))))))"

section \<open>The loops without a thread pool\<close>

type_synonym ('h, 't, 'u) fn_mut = "'h \<Rightarrow> 't \<Rightarrow> 'h \<times> (bytes fault, 'u) result"

text \<open>The callback over the items of a batch, up to the first that does not return a value; \<open>catch_unwind\<close> makes a panic a
  value.\<close>

fun run_batch ::
  "('h, 't, 'u) fn_mut \<Rightarrow> 'h \<Rightarrow> (usize \<times> 't) list \<Rightarrow> (usize \<times> 'u) list \<Rightarrow> 'h \<times> ((usize \<times> bytes) fault, (usize \<times> 'u) list) result"
where
  "run_batch f h [] results = (h, Ok results)"
| "run_batch f h ((index, item) # items) results =
     (case f h item of
        (h', Inr v) \<Rightarrow> run_batch f h' items (results @ [(index, v)])
      | (h', Inl (Fail e)) \<Rightarrow> (h', Err (Fail (index, truncate_message e)))
      | (h', Inl Panic) \<Rightarrow> (h', Err Panic))"

record 'h worker_state =
  ws_key :: int
  ws_error :: "local_error option"
  ws_fn :: 'h

type_synonym ('s, 'r) turn = "(pmap_error, ('s, 'r) ctl) result proc"

text \<open>What a worker does with a task: its frame cannot be read, or the callback runs on it.\<close>

definition task_unreadable ::
  "('t, 'u) pmap_env \<Rightarrow> int \<Rightarrow> int \<Rightarrow> int \<Rightarrow> header \<Rightarrow> pmap_error \<Rightarrow> 'h worker_state \<Rightarrow> ('h worker_state, 'r) turn"
where
  "task_unreadable E rank np root value e s =
     (let index = unat (hd_item_count value) in
      plift (error_key E index WireProtocol rank np) (\<lambda>key.
        ptry (send_frame E (sd_enc_result E) root MkResult StError (hd_batch_id value) 1
               (RpError \<lparr>cf_index = index, cf_kind = pmap_kind_code PmWire, cf_message = pr_message e\<rparr>)) (\<lambda>_.
          PRet (Ok (Again (s\<lparr>ws_key := min (ws_key s) key, ws_error := Some (PmWire, pr_message e)\<rparr>))))))"

definition task_run ::
  "('t, 'u) pmap_env \<Rightarrow> ('h, 't, 'u) fn_mut \<Rightarrow> int \<Rightarrow> int \<Rightarrow> int \<Rightarrow> header \<Rightarrow> (usize \<times> 't) list \<Rightarrow> 'h worker_state
     \<Rightarrow> ('h worker_state, 'r) turn"
where
  "task_run E f rank np root value items s =
     (case run_batch f (ws_fn s) items [] of
        (h, Inl Panic) \<Rightarrow> PAbort 71
      | (h, Inl (Fail (index, message))) \<Rightarrow>
          plift (error_key E index Callback rank np) (\<lambda>key.
            ptry (send_frame E (sd_enc_result E) root MkResult StError (hd_batch_id value) (unat (hd_item_count value))
                   (RpError \<lparr>cf_index = index, cf_kind = pmap_kind_code PmUser, cf_message = message\<rparr>)) (\<lambda>_.
              PRet (Ok (Again (s\<lparr>ws_key := min (ws_key s) key, ws_error := Some (PmUser, message), ws_fn := h\<rparr>)))))
      | (h, Inr results) \<Rightarrow>
          ptry (send_frame E (sd_enc_result E) root MkResult StOk (hd_batch_id value) (length results) (RpValues results)) (\<lambda>_.
            PRet (Ok (Again (s\<lparr>ws_fn := h\<rparr>)))))"

definition worker_header ::
  "('t, 'u) pmap_env \<Rightarrow> ('h, 't, 'u) fn_mut \<Rightarrow> int \<Rightarrow> int \<Rightarrow> int \<Rightarrow> 'h worker_state \<Rightarrow> header
     \<Rightarrow> ('h worker_state, int \<times> local_error option) turn"
where
  "worker_header E f rank np root s value =
     (case hd_kind value of
        MkTask \<Rightarrow>
          pbind (receive_payload E (sd_dec_task E) root value) (\<lambda>r.
            case r of
              Inl e \<Rightarrow> task_unreadable E rank np root value e s
            | Inr items \<Rightarrow> task_run E f rank np root value items s)
      | MkStop \<Rightarrow> ptry (send_empty E root MkDrain 0) (\<lambda>_. PRet (Ok (Exit (ws_key s, ws_error s))))
      | _ \<Rightarrow> PRet (Err (protocol_failure (lit ''worker received an unexpected message''))))"

definition worker_turn ::
  "('t, 'u) pmap_env \<Rightarrow> ('h, 't, 'u) fn_mut \<Rightarrow> int \<Rightarrow> int \<Rightarrow> int \<Rightarrow> 'h worker_state \<Rightarrow> ('h worker_state, int \<times> local_error option) turn"
where
  "worker_turn E f rank np root s =
     ptry (send_empty E root MkReady 0) (\<lambda>_. ptry (receive_header E root) (worker_header E f rank np root s))"

record ('t, 'u, 'h) root_state =
  rs_sched :: "('t, 'u) coordinator"
  rs_key :: int
  rs_error :: "local_error option"
  rs_fn :: 'h

definition indexed :: "'t batch \<Rightarrow> (usize \<times> 't) list" where
  "indexed b = map (\<lambda>item. (original_index item, item_value item)) (b_items b)"

definition execute_root_batch ::
  "('t, 'u) pmap_env \<Rightarrow> ('h, 't, 'u) fn_mut \<Rightarrow> int \<Rightarrow> int \<Rightarrow> ('t, 'u, 'h) root_state
     \<Rightarrow> (pmap_error, bool \<times> ('t, 'u, 'h) root_state) result proc"
where
  "execute_root_batch E f rank np s =
     (case next_root_batch (rs_sched s) of (c1, r1) \<Rightarrow>
        psched E r1 (\<lambda>ob.
          case ob of
            None \<Rightarrow> PRet (Ok (False, s\<lparr>rs_sched := c1\<rparr>))
          | Some b \<Rightarrow>
              (case run_batch f (rs_fn s) (indexed b) [] of
                 (h, Inl Panic) \<Rightarrow> PAbort 70
               | (h, Inl (Fail (index, message))) \<Rightarrow>
                   plift (error_key E index Callback rank np) (\<lambda>key.
                     case on_root_error c1 (b_id b) of (c2, r2) \<Rightarrow>
                       psched E r2 (\<lambda>_. PRet (Ok (True, s\<lparr>rs_sched := c2, rs_key := min (rs_key s) key,
                         rs_error := Some (PmUser, message), rs_fn := h\<rparr>))))
               | (h, Inr results) \<Rightarrow>
                   (case on_root_success c1 (b_id b) (map (\<lambda>(i, v). \<lparr>result_index = i, result_value = v\<rparr>) results) of (c2, r2) \<Rightarrow>
                      psched E r2 (\<lambda>_. PRet (Ok (True, s\<lparr>rs_sched := c2, rs_fn := h\<rparr>)))))))"

text \<open>An error of the root that belongs to no item: its key has the number of the items as index.\<close>

definition root_protocol_error ::
  "('t, 'u) pmap_env \<Rightarrow> usize \<Rightarrow> int \<Rightarrow> int \<Rightarrow> int \<Rightarrow> local_error \<Rightarrow> ('t, 'u, 'h) root_state \<Rightarrow> (pmap_error, ('t, 'u, 'h) root_state) result proc"
where
  "root_protocol_error E task_key rank np source e s =
     plift (error_key E task_key WireProtocol rank np) (\<lambda>key.
       case on_remote_protocol_error (rs_sched s) source of (c, r) \<Rightarrow>
         psched E r (\<lambda>_. PRet (Ok (s\<lparr>rs_sched := c, rs_key := min (rs_key s) key, rs_error := Some e\<rparr>))))"

definition root_result ::
  "('t, 'u) pmap_env \<Rightarrow> usize \<Rightarrow> int \<Rightarrow> int \<Rightarrow> int \<Rightarrow> header \<Rightarrow> 'u result_payload \<Rightarrow> ('t, 'u, 'h) root_state
     \<Rightarrow> (pmap_error, ('t, 'u, 'h) root_state) result proc"
where
  "root_result E task_key rank np source value payload s =
     (case (hd_status value, payload) of
        (StOk, RpValues values) \<Rightarrow>
          (case on_remote_success (rs_sched s) source (BatchId (hd_batch_id value))
              (map (\<lambda>(i, v). \<lparr>result_index = i, result_value = v\<rparr>) values) of (c, r) \<Rightarrow>
             psched E r (\<lambda>_. PRet (Ok (s\<lparr>rs_sched := c\<rparr>))))
      | (StError, RpError _) \<Rightarrow>
          (case on_remote_error (rs_sched s) source (BatchId (hd_batch_id value)) of (c, r) \<Rightarrow>
             psched E r (\<lambda>_. PRet (Ok (s\<lparr>rs_sched := c\<rparr>))))
      | _ \<Rightarrow> root_protocol_error E task_key rank np source (PmProtocol, lit ''invalid result status'') s)"

definition process_remote_header ::
  "('t, 'u) pmap_env \<Rightarrow> usize \<Rightarrow> int \<Rightarrow> int \<Rightarrow> int \<Rightarrow> header \<Rightarrow> ('t, 'u, 'h) root_state
     \<Rightarrow> (pmap_error, ('t, 'u, 'h) root_state) result proc"
where
  "process_remote_header E task_key rank np source value s =
     (case hd_kind value of
        MkReady \<Rightarrow>
          (case on_remote_ready (rs_sched s) source of (c, r) \<Rightarrow>
             psched E r (\<lambda>d.
               case d of
                 Task b \<Rightarrow>
                   ptry (send_frame E (sd_enc_task E) source MkTask StNone (batch_id_get (b_id b)) (length (b_items b)) (indexed b)) (\<lambda>_.
                     PRet (Ok (s\<lparr>rs_sched := c\<rparr>)))
               | Stop \<Rightarrow> ptry (send_empty E source MkStop 0) (\<lambda>_. PRet (Ok (s\<lparr>rs_sched := c\<rparr>)))))
      | MkResult \<Rightarrow>
          pbind (receive_payload E (sd_dec_result E) source value) (\<lambda>r.
            case r of
              Inl e \<Rightarrow> root_protocol_error E task_key rank np source (pr_kind e, pr_message e) s
            | Inr payload \<Rightarrow> root_result E task_key rank np source value payload s)
      | MkDrain \<Rightarrow>
          (case on_remote_drain (rs_sched s) source of (c, r) \<Rightarrow> psched E r (\<lambda>_. PRet (Ok (s\<lparr>rs_sched := c\<rparr>))))
      | _ \<Rightarrow> root_protocol_error E task_key rank np source (PmProtocol, lit ''unexpected message from worker'') s)"

text \<open>The heads of the two loops of \<open>root_loop\<close>: the outer one, and the one that serves what has arrived.\<close>

datatype root_at = RTop | RServe nat

definition root_finish :: "('t, 'u) pmap_env \<Rightarrow> ('t, 'u, 'h) root_state \<Rightarrow> (pmap_error, 'u root_outcome) result" where
  "root_finish E s =
     (if failed (rs_sched s) then Ok ([], rs_key s, rs_error s)
      else res_bind (res_map_err (sched_failure E) (into_results (rs_sched s))) (\<lambda>results. Ok (results, rs_key s, rs_error s)))"

definition serve_one ::
  "('t, 'u) pmap_env \<Rightarrow> usize \<Rightarrow> int \<Rightarrow> int \<Rightarrow> ('t, 'u, 'h) root_state \<Rightarrow> (pmap_error, ('t, 'u, 'h) root_state) result proc"
where
  "serve_one E task_key rank np s =
     ptry (receive_any_header E) (\<lambda>(source, value). process_remote_header E task_key rank np source value s)"

definition root_turn ::
  "('t, 'u) pmap_env \<Rightarrow> ('h, 't, 'u) fn_mut \<Rightarrow> usize \<Rightarrow> int \<Rightarrow> int \<Rightarrow> root_at \<Rightarrow> ('t, 'u, 'h) root_state
     \<Rightarrow> (root_at \<times> ('t, 'u, 'h) root_state, 'u root_outcome) turn"
where
  "root_turn E f task_key rank np at s =
     (case at of
        RTop \<Rightarrow>
          if np = 1
          then ptry (execute_root_batch E f rank np s) (\<lambda>(more, s1).
                 if more then PRet (Ok (Again (RTop, s1))) else plift (root_finish E s1) (\<lambda>out. PRet (Ok (Exit out))))
          else if is_finished (rs_sched s) \<and> is_quiescent (rs_sched s)
          then plift (root_finish E s) (\<lambda>out. PRet (Ok (Exit out)))
          else PRet (Ok (Again (RServe 0, s)))
      | RServe served \<Rightarrow>
          PProbe HEADER_TAG (\<lambda>hit.
            if hit \<noteq> None
            then ptry (serve_one E task_key rank np s) (\<lambda>s1. PRet (Ok (Again (RServe (Suc served), s1))))
            else if is_finished (rs_sched s) then PRet (Ok (Again (RTop, s)))
            else if served = 0
            then ptry (execute_root_batch E f rank np s) (\<lambda>(_, s1).
                   if is_finished (rs_sched s1) then PRet (Ok (Again (RTop, s1)))
                   else ptry (serve_one E task_key rank np s1) (\<lambda>s2. PRet (Ok (Again (RTop, s2)))))
            else PRet (Ok (Again (RTop, s)))))"

section \<open>The call\<close>

definition remote_ranks :: "int \<Rightarrow> int \<Rightarrow> int list" where
  "remote_ranks root np = filter (\<lambda>c. c \<noteq> root) [0..np - 1]"

datatype ('t, 'u, 'h) pmap_phase =
  PhStart
| PhWorker "'h worker_state"
| PhRoot root_at "('t, 'u, 'h) root_state"

record ('t, 'h) pmap_input =
  in_items :: "'t list option"
  in_fn :: 'h
  in_main :: bool
  in_valid :: bool

type_synonym 'u pmap_result = "(pmap_error, 'u list option) result"

text \<open>After the loop: the least key is agreed on and its owner tells the others.\<close>

definition pmap_finish ::
  "int \<Rightarrow> int \<Rightarrow> int \<Rightarrow> 'u root_outcome \<Rightarrow> ('s, 'u pmap_result) ctl proc"
where
  "pmap_finish rank np root outcome =
     (case outcome of (results, local_key, local_err) \<Rightarrow>
        pbind (convergence local_key) (\<lambda>selected.
          pbind (broadcast_error rank np selected local_key local_err) (\<lambda>r.
            case r of
              Inl _ \<Rightarrow> PAbort 73
            | Inr (Some (kind, message)) \<Rightarrow> PRet (Exit (Err (pmap_error_keyed kind selected message)))
            | Inr None \<Rightarrow> PRet (Exit (Ok (if rank = root then Some results else None))))))"

definition worker_start :: "'h \<Rightarrow> 'h worker_state" where
  "worker_start h = \<lparr>ws_key = NO_ERROR_KEY, ws_error = None, ws_fn = h\<rparr>"

definition root_start :: "('t, 'u) coordinator \<Rightarrow> 'h \<Rightarrow> ('t, 'u, 'h) root_state" where
  "root_start c h = \<lparr>rs_sched = c, rs_key = NO_ERROR_KEY, rs_error = None, rs_fn = h\<rparr>"

definition pmap_program ::
  "('t, 'u) pmap_env \<Rightarrow> (int \<Rightarrow> bytes) \<Rightarrow> ('h, 't, 'u) fn_mut \<Rightarrow> mpi_options \<Rightarrow> int \<Rightarrow> (int \<Rightarrow> ('t, 'h) pmap_input)
     \<Rightarrow> int \<Rightarrow> ('t, 'u, 'h) pmap_phase \<Rightarrow> (('t, 'u, 'h) pmap_phase, 'u pmap_result) ctl proc"
where
  "pmap_program E rank_text f opts np input rank phase =
     (case phase of
        PhStart \<Rightarrow>
          pbind (preflight E rank_text rank np opts (in_items (input rank) \<noteq> None) (in_main (input rank)) (in_valid (input rank))) (\<lambda>r.
            case r of
              Inl e \<Rightarrow> PRet (Exit (Err e))
            | Inr _ \<Rightarrow>
                if rank = mo_root opts
                then (case in_items (input rank) of
                    None \<Rightarrow> PPanic
                  | Some items \<Rightarrow>
                      (case new_with_prefetch (mo_root opts) (remote_ranks (mo_root opts) np) items (mo_batch_size opts) (mo_prefetch opts) of
                         Inl e \<Rightarrow> PAbort 72
                       | Inr c \<Rightarrow> PRet (Again (PhRoot RTop (root_start c (in_fn (input rank)))))))
                else PRet (Again (PhWorker (worker_start (in_fn (input rank))))))
      | PhWorker s \<Rightarrow>
          pbind (worker_turn E f rank np (mo_root opts) s) (\<lambda>r.
            case r of
              Inl _ \<Rightarrow> PAbort 72
            | Inr (Again s1) \<Rightarrow> PRet (Again (PhWorker s1))
            | Inr (Exit (key, e)) \<Rightarrow> pmap_finish rank np (mo_root opts) ([], key, e))
      | PhRoot at s \<Rightarrow>
          pbind (root_turn E f (case in_items (input rank) of None \<Rightarrow> 0 | Some items \<Rightarrow> length items) rank np at s) (\<lambda>r.
            case r of
              Inl _ \<Rightarrow> PAbort 72
            | Inr (Again (at1, s1)) \<Rightarrow> PRet (Again (PhRoot at1 s1))
            | Inr (Exit out) \<Rightarrow> pmap_finish rank np (mo_root opts) out))"

text \<open>How a thread enters and leaves the call: the flag, the slot of the domain, and the checks of this build.\<close>

definition pmap_enter ::
  "mpi_options \<Rightarrow> bool \<Rightarrow> 'p exec_domain \<Rightarrow> bool \<times> 'p exec_domain \<times> (pmap_error, bool) result"
where
  "pmap_enter opts active d =
     (case active_acquire active of
        (active1, Inl e) \<Rightarrow> (active1, d, Err e)
      | (active1, Inr _) \<Rightarrow>
          (case try_admit d of (d1, admission) \<Rightarrow>
             (active1, d1, Ok (is_ok admission \<and> ed_id d = exec_id_ZERO \<and> ed_worker_count d = 1
                \<and> mo_local_mode opts = Sequential \<and> \<not> mo_prefetch opts))))"

definition pmap_leave :: "bool \<Rightarrow> bool \<Rightarrow> 'p exec_domain \<Rightarrow> bool \<times> 'p exec_domain" where
  "pmap_leave admitted active d = (active_drop active, if admitted then admission_drop d else d)"

end
