(* ===== verification/MpiView.thy ===== *)
theory MpiView
  imports Mpi
begin

text \<open>
  How to reason about a communicator. A rank that has messages to send, or is about to take a turn of a loop
  that begins with sending, does so whatever the others do. The view of a world leaves those steps out: it counts
  such messages as sent and shows each rank at the next call where it waits for others. A step of the world
  leaves the view as it is and brings the rank nearer to that call, or it is a step of the view. The turns that are
  taken ahead are an argument (\<open>hot\<close>); the locale asks that such a turn stops at a call. Ranks that
  meet only in collective calls are in the second part.
\<close>

section \<open>Messages under way\<close>

primrec sends :: "'r proc \<Rightarrow> (int \<times> int \<times> bytes) list" where
  "sends (PRet a) = []"
| "sends (PSend d t bs p) = (d, t, bs) # sends p"
| "sends (PRecv s t k) = []"
| "sends (PRecvAny t j) = []"
| "sends (PProbe t l) = []"
| "sends (PReduce op v m) = []"
| "sends (PBcast r v n) = []"
| "sends (PTryJoin g) = []"
| "sends (PJoin i) = []"
| "sends (PAbort code) = []"
| "sends PPanic = []"

primrec rest :: "'r proc \<Rightarrow> 'r proc" where
  "rest (PRet a) = PRet a"
| "rest (PSend d t bs p) = rest p"
| "rest (PRecv s t k) = PRecv s t k"
| "rest (PRecvAny t j) = PRecvAny t j"
| "rest (PProbe t l) = PProbe t l"
| "rest (PReduce op v m) = PReduce op v m"
| "rest (PBcast r v n) = PBcast r v n"
| "rest (PTryJoin g) = PTryJoin g"
| "rest (PJoin i) = PJoin i"
| "rest (PAbort code) = PAbort code"
| "rest PPanic = PPanic"

lemma rest_no_sends: "sends p = [] \<Longrightarrow> rest p = p"
  by (cases p) auto

fun turn_of :: "('s \<Rightarrow> bool) \<Rightarrow> ('s, 'r) ctl proc \<Rightarrow> 's option" where
  "turn_of hot (PRet (Again s)) = (if hot s then Some s else None)"
| "turn_of hot p = None"

definition due_sends :: "(int \<Rightarrow> 's \<Rightarrow> ('s, 'r) ctl proc) \<Rightarrow> ('s \<Rightarrow> bool) \<Rightarrow> int \<Rightarrow> ('s, 'r) ctl proc \<Rightarrow> (int \<times> int \<times> bytes) list" where
  "due_sends body hot r p = sends p @ (case turn_of hot (rest p) of Some s \<Rightarrow> sends (body r s) | None \<Rightarrow> [])"

definition stop_of :: "(int \<Rightarrow> 's \<Rightarrow> ('s, 'r) ctl proc) \<Rightarrow> ('s \<Rightarrow> bool) \<Rightarrow> int \<Rightarrow> ('s, 'r) ctl proc \<Rightarrow> ('s, 'r) ctl proc" where
  "stop_of body hot r p = (case turn_of hot (rest p) of Some s \<Rightarrow> rest (body r s) | None \<Rightarrow> rest p)"

definition delay :: "(int \<Rightarrow> 's \<Rightarrow> ('s, 'r) ctl proc) \<Rightarrow> ('s \<Rightarrow> bool) \<Rightarrow> int \<Rightarrow> ('s, 'r) ctl proc \<Rightarrow> nat" where
  "delay body hot r p = length (due_sends body hot r p) + (if turn_of hot (rest p) = None then 0 else 1)"

definition msgs :: "int \<Rightarrow> int \<Rightarrow> (int \<times> int \<times> bytes) list \<Rightarrow> bytes list" where
  "msgs d t ms = map (\<lambda>(_, _, bs). bs) (filter (\<lambda>(d', t', _). d' = d \<and> t' = t) ms)"

lemma msgs_simps [simp]:
  "msgs d t [] = []" "msgs d t ((d', t', bs) # ms) = (if d' = d \<and> t' = t then bs # msgs d t ms else msgs d t ms)"
  "msgs d t (ms @ ns) = msgs d t ms @ msgs d t ns"
  by (simp_all add: msgs_def)

record ('s, 'r) view =
  stops :: "int \<Rightarrow> ('s, 'r) ctl proc"
  way :: "int \<times> int \<times> int \<Rightarrow> bytes list"

definition view_of :: "(int \<Rightarrow> 's \<Rightarrow> ('s, 'r) ctl proc) \<Rightarrow> ('s \<Rightarrow> bool) \<Rightarrow> ('s, 'r) world \<Rightarrow> ('s, 'r) view" where
  "view_of body hot w = \<lparr>stops = \<lambda>r. stop_of body hot r (procs w r),
     way = \<lambda>(s, d, t). net w (s, d, t) @ msgs d t (due_sends body hot s (procs w s))\<rparr>"

text \<open>A rank goes on with the tree \<open>p\<close>: what it sends is on its way, and it waits at the next call.\<close>

definition emit :: "(int \<Rightarrow> 's \<Rightarrow> ('s, 'r) ctl proc) \<Rightarrow> ('s \<Rightarrow> bool) \<Rightarrow> int \<Rightarrow> ('s, 'r) ctl proc \<Rightarrow> ('s, 'r) view \<Rightarrow> ('s, 'r) view" where
  "emit body hot r p v = \<lparr>stops = (stops v)(r := stop_of body hot r p),
     way = \<lambda>(s, d, t). if s = r then way v (s, d, t) @ msgs d t (due_sends body hot r p) else way v (s, d, t)\<rparr>"

definition emit_all :: "(int \<Rightarrow> 's \<Rightarrow> ('s, 'r) ctl proc) \<Rightarrow> ('s \<Rightarrow> bool) \<Rightarrow> int \<Rightarrow> (int \<Rightarrow> ('s, 'r) ctl proc) \<Rightarrow> ('s, 'r) view \<Rightarrow> ('s, 'r) view" where
  "emit_all body hot np ps v = \<lparr>stops = \<lambda>r. if in_comm np r then stop_of body hot r (ps r) else stops v r,
     way = \<lambda>(s, d, t). if in_comm np s then way v (s, d, t) @ msgs d t (due_sends body hot s (ps s)) else way v (s, d, t)\<rparr>"

definition taken :: "int \<times> int \<times> int \<Rightarrow> ('s, 'r) view \<Rightarrow> ('s, 'r) view" where
  "taken q v = v\<lparr>way := (way v)(q := tl (way v q))\<rparr>"

inductive view_step ::
  "int \<Rightarrow> (int \<Rightarrow> 's \<Rightarrow> ('s, 'r) ctl proc) \<Rightarrow> ('s \<Rightarrow> bool) \<Rightarrow> ('s, 'r) view \<Rightarrow> ('s, 'r) view \<Rightarrow> bool"
  for np body hot
where
  recv: "in_comm np r \<Longrightarrow> stops v r = PRecv s t k \<Longrightarrow> way v (s, r, t) = bs # bss
    \<Longrightarrow> view_step np body hot v (emit body hot r (k bs) (taken (s, r, t) v))"
| recv_any: "in_comm np r \<Longrightarrow> stops v r = PRecvAny t j \<Longrightarrow> in_comm np s \<Longrightarrow> way v (s, r, t) = bs # bss
    \<Longrightarrow> view_step np body hot v (emit body hot r (j (s, bs)) (taken (s, r, t) v))"
| probe_hit: "in_comm np r \<Longrightarrow> stops v r = PProbe t l \<Longrightarrow> in_comm np s \<Longrightarrow> way v (s, r, t) \<noteq> []
    \<Longrightarrow> view_step np body hot v (emit body hot r (l (Some s)) v)"
| probe_miss: "in_comm np r \<Longrightarrow> stops v r = PProbe t l \<Longrightarrow> view_step np body hot v (emit body hot r (l None) v)"
| all_reduce: "(\<And>r. in_comm np r \<Longrightarrow> stops v r = PReduce op (x r) (m r))
    \<Longrightarrow> view_step np body hot v (emit_all body hot np (\<lambda>r. m r (reduce_all op np x)) v)"
| broadcast: "in_comm np root \<Longrightarrow> (\<And>r. in_comm np r \<Longrightarrow> stops v r = PBcast root (b r) (n r) \<and> same_shape (b root) (b r))
    \<Longrightarrow> view_step np body hot v (emit_all body hot np (\<lambda>r. n r (b root)) v)"
| try_join: "in_comm np r \<Longrightarrow> stops v r = PTryJoin g \<Longrightarrow> a \<noteq> Disconnected \<Longrightarrow> view_step np body hot v (emit body hot r (g a) v)"
| join: "in_comm np r \<Longrightarrow> stops v r = PJoin i \<Longrightarrow> view_step np body hot v (emit body hot r (i True) v)"
| loop: "in_comm np r \<Longrightarrow> stops v r = PRet (Again s) \<Longrightarrow> \<not> hot s \<Longrightarrow> view_step np body hot v (emit body hot r (body r s) v)"

definition delays :: "int \<Rightarrow> (int \<Rightarrow> 's \<Rightarrow> ('s, 'r) ctl proc) \<Rightarrow> ('s \<Rightarrow> bool) \<Rightarrow> ('s, 'r) world \<Rightarrow> nat" where
  "delays np body hot w = (\<Sum>r \<in> {0..<np}. delay body hot r (procs w r))"

lemma still [simp]:
  "due_sends body hot r (PRecv s t k) = []" "stop_of body hot r (PRecv s t k) = PRecv s t k"
  "due_sends body hot r (PRecvAny t j) = []" "stop_of body hot r (PRecvAny t j) = PRecvAny t j"
  "due_sends body hot r (PProbe t l) = []" "stop_of body hot r (PProbe t l) = PProbe t l"
  "due_sends body hot r (PReduce op x m) = []" "stop_of body hot r (PReduce op x m) = PReduce op x m"
  "due_sends body hot r (PBcast root b n) = []" "stop_of body hot r (PBcast root b n) = PBcast root b n"
  "due_sends body hot r (PTryJoin g) = []" "stop_of body hot r (PTryJoin g) = PTryJoin g"
  "due_sends body hot r (PJoin i) = []" "stop_of body hot r (PJoin i) = PJoin i"
  "due_sends body hot r (PAbort code) = []" "stop_of body hot r (PAbort code) = PAbort code"
  "due_sends body hot r PPanic = []" "stop_of body hot r PPanic = PPanic"
  "due_sends body hot r (PRet (Exit x')) = []" "stop_of body hot r (PRet (Exit x')) = PRet (Exit x')"
  "due_sends body hot r (PSend d t bs p) = (d, t, bs) # due_sends body hot r p"
  "stop_of body hot r (PSend d t bs p) = stop_of body hot r p"
  by (simp_all add: due_sends_def stop_of_def split: option.split)

lemma in_comm_range: "in_comm np r \<longleftrightarrow> r \<in> {0..<np}"
  by (auto simp: in_comm_def)

lemma delays_decrease:
  assumes "in_comm np r" "\<And>q. q \<noteq> r \<Longrightarrow> procs w' q = procs w q"
    and "delay body hot r (procs w' r) < delay body hot r (procs w r)"
  shows "delays np body hot w' < delays np body hot w"
  unfolding delays_def
proof (rule sum_strict_mono_ex1)
  show "\<exists>q\<in>{0..<np}. delay body hot q (procs w' q) < delay body hot q (procs w q)"
    using assms(1,3) by (auto simp: in_comm_range)
  have "delay body hot q (procs w' q) \<le> delay body hot q (procs w q)" for q
    using assms(2,3) by (cases "q = r") auto
  then show "\<forall>q\<in>{0..<np}. delay body hot q (procs w' q) \<le> delay body hot q (procs w q)" by blast
qed simp

locale unrolled =
  fixes body :: "int \<Rightarrow> 's \<Rightarrow> ('s, 'r) ctl proc" and hot :: "'s \<Rightarrow> bool"
  assumes turn_stops: "hot s \<Longrightarrow> turn_of hot (rest (body r s)) = None"
begin

lemma hot_turn:
  assumes "hot s"
  shows "due_sends body hot r (body r s) = due_sends body hot r (PRet (Again s))"
    "stop_of body hot r (body r s) = stop_of body hot r (PRet (Again s))"
    "delay body hot r (body r s) < delay body hot r (PRet (Again s))"
  using assms turn_stops [OF assms, of r] by (simp_all add: due_sends_def stop_of_def delay_def)

lemma view_eqI:
  assumes "\<And>r. stop_of body hot r (procs w' r) = stop_of body hot r (procs w r)"
    and "\<And>s d t. net w' (s, d, t) @ msgs d t (due_sends body hot s (procs w' s))
        = net w (s, d, t) @ msgs d t (due_sends body hot s (procs w s))"
  shows "view_of body hot w' = view_of body hot w"
  using assms by (auto simp: view_of_def)

lemma emit_eqI:
  assumes "\<And>q. stop_of body hot q (procs w' q) = (if q = r then stop_of body hot r p else stops v q)"
    and "\<And>s d t. net w' (s, d, t) @ msgs d t (due_sends body hot s (procs w' s))
        = (if s = r then way v (s, d, t) @ msgs d t (due_sends body hot r p) else way v (s, d, t))"
  shows "view_of body hot w' = emit body hot r p v"
  using assms by (auto simp: view_of_def emit_def fun_eq_iff)

lemma cold_stop: "\<not> hot s \<Longrightarrow> stop_of body hot r (PRet (Again s)) = PRet (Again s)"
  by (simp add: stop_of_def)

lemma cold_sends: "\<not> hot s \<Longrightarrow> due_sends body hot r (PRet (Again s)) = []"
  by (simp add: due_sends_def)

lemma step_view:
  assumes "mpi_step np body w w'"
  shows "view_of body hot w' = view_of body hot w \<and> delays np body hot w' < delays np body hot w
    \<or> view_step np body hot (view_of body hot w) (view_of body hot w')"
  using assms
proof cases
  case (send r d t bs p)
  have "delays np body hot w' < delays np body hot w"
    by (rule delays_decrease [OF send(2)]) (auto simp: send(1,3) delay_def due_sends_def)
  moreover have "view_of body hot w' = view_of body hot w"
    by (rule view_eqI) (auto simp: send(1,3))
  ultimately show ?thesis by simp
next
  case (recv r s t k bs bss)
  have "view_of body hot w' = emit body hot r (k bs) (taken (s, r, t) (view_of body hot w))"
    by (rule emit_eqI) (auto simp: recv taken_def view_of_def)
  then show ?thesis using view_step.recv [of np r "view_of body hot w" s t k bs _ body hot] recv by (auto simp: view_of_def)
next
  case (recv_any r t j s bs bss)
  have "view_of body hot w' = emit body hot r (j (s, bs)) (taken (s, r, t) (view_of body hot w))"
    by (rule emit_eqI) (auto simp: recv_any taken_def view_of_def)
  then show ?thesis using view_step.recv_any [of np r "view_of body hot w" t j s bs _ body hot] recv_any by (auto simp: view_of_def)
next
  case (probe_hit r t l s)
  have "view_of body hot w' = emit body hot r (l (Some s)) (view_of body hot w)"
    by (rule emit_eqI) (auto simp: probe_hit view_of_def)
  then show ?thesis using view_step.probe_hit [of np r "view_of body hot w" t l s body hot] probe_hit by (auto simp: view_of_def)
next
  case (probe_pending r t l s bs p)
  have "r \<noteq> s" using probe_pending(3,5) by auto
  then have "way (view_of body hot w) (s, r, t) \<noteq> []" using probe_pending by (simp add: view_of_def)
  moreover have "view_of body hot w' = emit body hot r (l (Some s)) (view_of body hot w)"
    by (rule emit_eqI) (auto simp: probe_pending view_of_def)
  ultimately show ?thesis using view_step.probe_hit [of np r "view_of body hot w" t l s body hot] probe_pending by (auto simp: view_of_def)
next
  case (probe_miss r t l)
  have "view_of body hot w' = emit body hot r (l None) (view_of body hot w)"
    by (rule emit_eqI) (auto simp: probe_miss view_of_def)
  then show ?thesis using view_step.probe_miss [of np r "view_of body hot w" t l body hot] probe_miss by (auto simp: view_of_def)
next
  case (all_reduce op x m)
  have "view_of body hot w' = emit_all body hot np (\<lambda>r. m r (reduce_all op np x)) (view_of body hot w)"
    using all_reduce by (auto simp: view_of_def emit_all_def fun_eq_iff)
  then show ?thesis using view_step.all_reduce [of np "view_of body hot w" op x m body hot] all_reduce by (auto simp: view_of_def)
next
  case (broadcast root b n)
  have "view_of body hot w' = emit_all body hot np (\<lambda>r. n r (b root)) (view_of body hot w)"
    using broadcast by (auto simp: view_of_def emit_all_def fun_eq_iff)
  then show ?thesis using view_step.broadcast [of np root "view_of body hot w" b n body hot] broadcast by (auto simp: view_of_def)
next
  case (try_join r g a)
  have "view_of body hot w' = emit body hot r (g a) (view_of body hot w)"
    by (rule emit_eqI) (auto simp: try_join view_of_def)
  then show ?thesis using view_step.try_join [of np r "view_of body hot w" g a body hot] try_join by (auto simp: view_of_def)
next
  case (join r i)
  have "view_of body hot w' = emit body hot r (i True) (view_of body hot w)"
    by (rule emit_eqI) (auto simp: join view_of_def)
  then show ?thesis using view_step.join [of np r "view_of body hot w" i body hot] join by (auto simp: view_of_def)
next
  case (loop r s)
  show ?thesis
  proof (cases "hot s")
    case True
    have "delays np body hot w' < delays np body hot w"
      by (rule delays_decrease [OF loop(2)]) (auto simp: loop hot_turn [OF True])
    moreover have "view_of body hot w' = view_of body hot w"
      by (rule view_eqI) (auto simp: loop hot_turn [OF True])
    ultimately show ?thesis by simp
  next
    case False
    have "view_of body hot w' = emit body hot r (body r s) (view_of body hot w)"
      by (rule emit_eqI) (auto simp: loop view_of_def cold_sends [OF False])
    then show ?thesis using view_step.loop [of np r "view_of body hot w" s hot body] loop False by (auto simp: view_of_def cold_stop)
  qed
qed

text \<open>A world that needs a buffer to go on: each rank has a message to send, or is where the view shows it.\<close>

lemma halted:
  assumes stuck: "\<nexists>w'. mpi_sure np body w w'" and r: "in_comm np r"
  shows "(\<exists>d t bs p. procs w r = PSend d t bs p) \<or> due_sends body hot r (procs w r) = [] \<and> stop_of body hot r (procs w r) = procs w r"
proof (cases "procs w r")
  case (PRet x)
  then show ?thesis using stuck sure_intros(4) [OF r, of w _ body] by (cases x) auto
qed simp_all

end

section \<open>Collective calls\<close>

text \<open>The ranks answer one reduction or broadcast after another: with these answers the trees \<open>T\<close> become the
  trees \<open>F\<close>.\<close>

datatype answer = AInt int | ABc bcast_value

fun collects :: "int \<Rightarrow> (int \<Rightarrow> 'r proc) \<Rightarrow> answer list \<Rightarrow> (int \<Rightarrow> 'r proc) \<Rightarrow> bool" where
  "collects np T [] F \<longleftrightarrow> (\<forall>r. in_comm np r \<longrightarrow> T r = F r)"
| "collects np T (AInt x # as) F \<longleftrightarrow> (\<exists>op v m. (\<forall>r. in_comm np r \<longrightarrow> T r = PReduce op (v r) (m r))
     \<and> reduce_all op np v = x \<and> collects np (\<lambda>r. m r x) as F)"
| "collects np T (ABc b # as) F \<longleftrightarrow> (\<exists>root v n. in_comm np root
     \<and> (\<forall>r. in_comm np r \<longrightarrow> T r = PBcast root (v r) (n r) \<and> same_shape (v root) (v r)) \<and> v root = b \<and> collects np (\<lambda>r. n r b) as F)"

lemma collects_cong: "(\<And>r. in_comm np r \<Longrightarrow> T r = T' r) \<Longrightarrow> collects np T as F \<longleftrightarrow> collects np T' as F"
  by (cases "(np, T, as, F)" rule: collects.cases) auto

lemma reduce_all_cong: "(\<And>r. in_comm np r \<Longrightarrow> v r = v' r) \<Longrightarrow> reduce_all op np v = reduce_all op np v'"
proof -
  assume "\<And>r. in_comm np r \<Longrightarrow> v r = v' r"
  then have "map v [0..np - 1] = map v' [0..np - 1]" by (simp add: in_comm_def)
  then show ?thesis by (simp only: reduce_all_def)
qed

lemma reduce_all_const [simp]: "1 \<le> np \<Longrightarrow> reduce_all op np (\<lambda>r. c) = c"
  by (simp add: reduce_all_def image_constant_conv split: reduce_op.split)

lemma emit_all_again:
  assumes "\<And>r. in_comm np r \<Longrightarrow> due_sends body hot r (T r) = []" "way v0 = (\<lambda>_. [])" "\<And>r. in_comm np r \<Longrightarrow> S r = S' r"
  shows "emit_all body hot np S (emit_all body hot np T v0) = emit_all body hot np S' v0"
  using assms by (auto simp: emit_all_def fun_eq_iff)

lemma collects_step:
  assumes np: "1 \<le> np" and T: "collects np T (a # as) F" and blank: "way v0 = (\<lambda>_. [])"
    and step: "view_step np body hot (emit_all body hot np T v0) v'"
  shows "\<exists>T'. v' = emit_all body hot np T' v0 \<and> collects np T' as F"
proof (cases a)
  case (AInt x)
  then obtain op v m where c: "\<And>r. in_comm np r \<Longrightarrow> T r = PReduce op (v r) (m r)" "reduce_all op np v = x" "collects np (\<lambda>r. m r x) as F"
    using T by auto
  have s: "stops (emit_all body hot np T v0) r = PReduce op (v r) (m r)" if "in_comm np r" for r
    using that c(1) by (simp add: emit_all_def)
  from step show ?thesis
  proof cases
    case (all_reduce op' x' m')
    have eq: "op' = op \<and> x' r = v r \<and> m' r = m r" if "in_comm np r" for r
      using all_reduce(2) [OF that] s [OF that] by simp
    have "in_comm np 0" using np by (simp add: in_comm_def)
    then have "reduce_all op' np x' = x"
      using c(2) eq reduce_all_cong [of np x' v op] by auto
    then have "v' = emit_all body hot np (\<lambda>r. m r x) v0"
      unfolding all_reduce(1) using c(1) eq by (intro emit_all_again [OF _ blank]) auto
    with c(3) show ?thesis by blast
  next
    case (broadcast root b n)
    then show ?thesis using s [of root] by simp
  qed (use s in auto)
next
  case (ABc b)
  then obtain root v n where c: "in_comm np root" "\<And>r. in_comm np r \<Longrightarrow> T r = PBcast root (v r) (n r)" "v root = b" "collects np (\<lambda>r. n r b) as F"
    using T by auto
  have s: "stops (emit_all body hot np T v0) r = PBcast root (v r) (n r)" if "in_comm np r" for r
    using that c(2) by (simp add: emit_all_def)
  from step show ?thesis
  proof cases
    case (broadcast root' b' n')
    have eq: "root' = root \<and> b' r = v r \<and> n' r = n r" if "in_comm np r" for r
      using broadcast(3) [OF that] s [OF that] by simp
    then have "b' root' = b" using c(1,3) by auto
    then have "v' = emit_all body hot np (\<lambda>r. n r b) v0"
      unfolding broadcast(1) using c(2) eq by (intro emit_all_again [OF _ blank]) auto
    with c(4) show ?thesis by blast
  next
    case (all_reduce op' x' m')
    then show ?thesis using s [OF c(1)] c(1) by simp
  qed (use s in auto)
qed

lemma collects_sure:
  assumes "collects np T (a # as) F" "\<And>r. in_comm np r \<Longrightarrow> procs w r = T r"
  shows "\<exists>T'. mpi_sure np body w (set_procs np T' w) \<and> collects np T' as F"
proof (cases a)
  case (AInt x)
  then obtain op v m where c: "\<And>r. in_comm np r \<Longrightarrow> T r = PReduce op (v r) (m r)" "reduce_all op np v = x" "collects np (\<lambda>r. m r x) as F"
    using assms(1) by auto
  have "mpi_sure np body w (set_procs np (\<lambda>r. m r (reduce_all op np v)) w)" by (rule sure_collective(1)) (use assms(2) c(1) in simp)
  then show ?thesis using c(2,3) by blast
next
  case (ABc b)
  then obtain root v n where c: "in_comm np root" "\<And>r. in_comm np r \<Longrightarrow> T r = PBcast root (v r) (n r) \<and> same_shape (v root) (v r)" "v root = b" "collects np (\<lambda>r. n r b) as F"
    using assms(1) by auto
  have "mpi_sure np body w (set_procs np (\<lambda>r. n r (v root)) w)" by (rule sure_collective(2) [OF c(1)]) (use assms(2) c(2) in simp)
  then show ?thesis using c(3,4) by blast
qed

lemma collects_IntI:
  assumes "T = (\<lambda>r. PReduce op (v r) (m r))" "reduce_all op np v = x" "collects np (\<lambda>r. m r x) as F"
  shows "collects np T (AInt x # as) F"
  using assms by auto

text \<open>A rank \<open>r\<close> that takes part in broadcasts of the values \<open>bs\<close> by \<open>q\<close>.\<close>

fun hears :: "int \<Rightarrow> int \<Rightarrow> 'r proc \<Rightarrow> bcast_value list \<Rightarrow> 'r proc \<Rightarrow> bool" where
  "hears q r p [] p' \<longleftrightarrow> p = p'"
| "hears q r p (b # bs) p' \<longleftrightarrow> (\<exists>v k. p = PBcast q v k \<and> same_shape b v \<and> (r = q \<longrightarrow> v = b) \<and> hears q r (k b) bs p')"

lemma hears_collects:
  assumes "in_comm np q" "\<And>r. in_comm np r \<Longrightarrow> hears q r (T r) bs (F r)"
  shows "collects np T (map ABc bs) F"
  using assms(2)
proof (induction bs arbitrary: T)
  case (Cons b bs)
  have "\<forall>r. \<exists>v k. in_comm np r \<longrightarrow> T r = PBcast q v k \<and> same_shape b v \<and> (r = q \<longrightarrow> v = b) \<and> hears q r (k b) bs (F r)"
    using Cons.prems by (metis hears.simps(2))
  then obtain v k where vk: "\<And>r. in_comm np r \<Longrightarrow> T r = PBcast q (v r) (k r) \<and> same_shape b (v r) \<and> (r = q \<longrightarrow> v r = b) \<and> hears q r (k r b) bs (F r)"
    by metis
  have "collects np (\<lambda>r. k r b) (map ABc bs) F" by (rule Cons.IH) (use vk in blast)
  then show ?case using vk assms(1) by simp (metis vk)
qed simp

lemma same_shape_refl [simp]: "same_shape b b"
  by (cases b) auto

end
