(* ===== verification/PmapCall.thy ===== *)
theory PmapCall
  imports Pmap MpiView
begin

text \<open>
  A call of \<open>pmap\<close> by all ranks of a communicator: the arguments, what is asked of them, the result of a batch as a
  function of its indices, and what the coordinator of the root answers along a call.
\<close>

section \<open>The arguments of a call\<close>

record ('t, 'u, 'h) pmap_call =
  cl_env :: "('t, 'u) pmap_env"
  cl_text :: "int \<Rightarrow> bytes"
  cl_fn :: "('h, 't, 'u) fn_mut"
  cl_given :: "int \<Rightarrow> mpi_options"
  cl_np :: int
  cl_input :: "int \<Rightarrow> ('t, 'h) pmap_input"
  cl_items :: "'t list"
  cl_pure :: "'t \<Rightarrow> (bytes, 'u) result"

text \<open>Each rank gives options of its own; those of rank 0 are the ones to agree with.\<close>

abbreviation cl_opts :: "('t, 'u, 'h) pmap_call \<Rightarrow> mpi_options" where
  "cl_opts K \<equiv> cl_given K 0"

abbreviation cl_root :: "('t, 'u, 'h) pmap_call \<Rightarrow> int" where
  "cl_root K \<equiv> mo_root (cl_opts K)"

abbreviation cl_batch :: "('t, 'u, 'h) pmap_call \<Rightarrow> usize" where
  "cl_batch K \<equiv> mo_batch_size (cl_opts K)"

definition call_body :: "('t, 'u, 'h) pmap_call \<Rightarrow> int \<Rightarrow> ('t, 'u, 'h) pmap_phase \<Rightarrow> (('t, 'u, 'h) pmap_phase, 'u pmap_result) ctl proc" where
  "call_body K r = pmap_program (cl_env K) (cl_text K) (cl_fn K) (cl_given K r) (cl_np K) (cl_input K) r"

definition call_start :: "(('t, 'u, 'h) pmap_phase, 'u pmap_result) world" where
  "call_start = mpi_start (\<lambda>r. PhStart)"

text \<open>What comes of the items at the given indices: the values, or the first failure.\<close>

definition fails :: "('t, 'u, 'h) pmap_call \<Rightarrow> usize \<Rightarrow> bool" where
  "fails K i \<longleftrightarrow> \<not> is_ok (cl_pure K (cl_items K ! i))"

fun ok_part :: "('e, 'a) result \<Rightarrow> 'a" where
  "ok_part (Inr a) = a"
| "ok_part (Inl e) = undefined"

fun err_part :: "('e, 'a) result \<Rightarrow> 'e" where
  "err_part (Inl e) = e"
| "err_part (Inr a) = undefined"

definition value_of :: "('t, 'u, 'h) pmap_call \<Rightarrow> 't \<Rightarrow> 'u" where
  "value_of K x = ok_part (cl_pure K x)"

definition error_of :: "('t, 'u, 'h) pmap_call \<Rightarrow> usize \<Rightarrow> bytes" where
  "error_of K i = truncate_message (err_part (cl_pure K (cl_items K ! i)))"

definition task_list :: "('t, 'u, 'h) pmap_call \<Rightarrow> usize list \<Rightarrow> (usize \<times> 't) list" where
  "task_list K is = map (\<lambda>i. (i, cl_items K ! i)) is"

definition batch_outcome :: "('t, 'u, 'h) pmap_call \<Rightarrow> usize list \<Rightarrow> (usize, (usize \<times> 'u) list) result" where
  "batch_outcome K is = (case find (fails K) is of Some i \<Rightarrow> Err i | None \<Rightarrow> Ok (map (\<lambda>i. (i, value_of K (cl_items K ! i))) is))"

definition batch_reply :: "('t, 'u, 'h) pmap_call \<Rightarrow> usize list \<Rightarrow> 'u result_payload" where
  "batch_reply K is = (case batch_outcome K is of
       Inl i \<Rightarrow> RpError \<lparr>cf_index = i, cf_kind = pmap_kind_code PmUser, cf_message = error_of K i\<rparr>
     | Inr vs \<Rightarrow> RpValues vs)"

text \<open>A slice of the input that can be one batch.\<close>

definition is_batch :: "('t, 'u, 'h) pmap_call \<Rightarrow> usize list \<Rightarrow> bool" where
  "is_batch K is \<longleftrightarrow> (\<exists>a b. is = [a..<b] \<and> a < b \<and> b \<le> length (cl_items K) \<and> b - a \<le> cl_batch K)"

definition call_ok :: "('t, 'u, 'h) pmap_call \<Rightarrow> bool" where
  "call_ok K \<longleftrightarrow>
     in_comm (cl_np K) (cl_root K) \<and> 0 < cl_batch K \<and> \<not> mo_prefetch (cl_opts K)
     \<and> int (length (cl_items K)) * 3 * cl_np K \<le> NO_ERROR_KEY
     \<and> (\<forall>r. in_comm (cl_np K) r \<longrightarrow> cl_given K r = cl_opts K \<and> in_main (cl_input K r) \<and> in_valid (cl_input K r)
          \<and> in_items (cl_input K r) = (if r = cl_root K then Some (cl_items K) else None))
     \<and> (\<forall>x\<in>set (cl_items K). (\<forall>h. snd (cl_fn K h x) = res_map_err Fail (cl_pure K x)) \<and> (\<forall>e. cl_pure K x = Err e \<longrightarrow> utf8_valid e))
     \<and> (\<forall>is. is_batch K is \<longrightarrow> carries (sd_enc_task (cl_env K)) (sd_dec_task (cl_env K)) (task_list K is)
          \<and> carries (sd_enc_result (cl_env K)) (sd_dec_result (cl_env K)) (batch_reply K is))"

definition is_worker :: "('t, 'u, 'h) pmap_call \<Rightarrow> int \<Rightarrow> bool" where
  "is_worker K q \<longleftrightarrow> in_comm (cl_np K) q \<and> q \<noteq> cl_root K"

definition failure_key :: "('t, 'u, 'h) pmap_call \<Rightarrow> usize \<Rightarrow> int \<Rightarrow> int" where
  "failure_key K i r = (int i * 3 + 1) * cl_np K + r"

lemma call_okD:
  assumes "call_ok K"
  shows "in_comm (cl_np K) (cl_root K)" "0 < cl_batch K" "\<not> mo_prefetch (cl_opts K)" "1 \<le> cl_np K"
    "int (length (cl_items K)) * 3 * cl_np K \<le> NO_ERROR_KEY" "length (cl_items K) < 2 ^ 64"
    "in_comm (cl_np K) r \<Longrightarrow> in_main (cl_input K r)" "in_comm (cl_np K) r \<Longrightarrow> in_valid (cl_input K r)"
    "in_comm (cl_np K) r \<Longrightarrow> in_items (cl_input K r) = (if r = cl_root K then Some (cl_items K) else None)"
    "x \<in> set (cl_items K) \<Longrightarrow> snd (cl_fn K h x) = res_map_err Fail (cl_pure K x)"
    "x \<in> set (cl_items K) \<Longrightarrow> cl_pure K x = Err e \<Longrightarrow> utf8_valid e"
    "is_batch K is \<Longrightarrow> carries (sd_enc_task (cl_env K)) (sd_dec_task (cl_env K)) (task_list K is)"
    "is_batch K is \<Longrightarrow> carries (sd_enc_result (cl_env K)) (sd_dec_result (cl_env K)) (batch_reply K is)"
    "in_comm (cl_np K) r \<Longrightarrow> cl_given K r = cl_opts K"
proof -
  show np: "1 \<le> cl_np K" using assms by (auto simp: call_ok_def in_comm_def)
  show len: "int (length (cl_items K)) * 3 * cl_np K \<le> NO_ERROR_KEY" using assms by (simp add: call_ok_def)
  have "int (length (cl_items K)) * 3 * 1 \<le> int (length (cl_items K)) * 3 * cl_np K"
    using np by (intro mult_left_mono) auto
  with len have "int (length (cl_items K)) * 3 \<le> NO_ERROR_KEY" by linarith
  then show "length (cl_items K) < 2 ^ 64" by (simp add: NO_ERROR_KEY_def)
qed (use assms in \<open>auto simp: call_ok_def\<close>)

lemma is_batchD: "is_batch K is \<Longrightarrow> i \<in> set is \<Longrightarrow> i < length (cl_items K)" "is_batch K is \<Longrightarrow> is \<noteq> []"
  by (auto simp: is_batch_def)

lemma batch_outcome_Err: "batch_outcome K is = Err i \<longleftrightarrow> find (fails K) is = Some i"
  by (auto simp: batch_outcome_def split: option.splits)

lemma batch_outcome_first:
  assumes "is_batch K is" "batch_outcome K is = Err i"
  shows "i \<in> set is \<and> fails K i \<and> (\<forall>j\<in>set is. fails K j \<longrightarrow> i \<le> j)"
proof -
  obtain a b where sl: "is = [a..<b]" using assms(1) by (auto simp: is_batch_def)
  obtain n where n: "n < length is" "fails K (is ! n)" "i = is ! n" "\<forall>j<n. \<not> fails K (is ! j)"
    using assms(2) unfolding batch_outcome_Err find_Some_iff by auto
  have "i \<le> j" if "j \<in> set is" "fails K j" for j
  proof (rule ccontr)
    assume "\<not> i \<le> j"
    then have "j - a < n" "is ! (j - a) = j" using that n(1,3) sl by auto
    then show False using n(4) that(2) by auto
  qed
  with n show ?thesis by auto
qed

lemma batch_outcome_none: "batch_outcome K is = Ok vs \<longleftrightarrow> (\<forall>i\<in>set is. \<not> fails K i) \<and> vs = map (\<lambda>i. (i, value_of K (cl_items K ! i))) is"
  by (auto simp: batch_outcome_def find_None_iff find_Some_iff split: option.splits)

text \<open>The loop over a batch gives the outcome.\<close>

lemma run_batch_outcome:
  assumes "call_ok K" "\<And>i. i \<in> set is \<Longrightarrow> i < length (cl_items K)"
  shows "snd (run_batch (cl_fn K) h (task_list K is) acc) =
    (case batch_outcome K is of Inl i \<Rightarrow> Err (Fail (i, error_of K i)) | Inr vs \<Rightarrow> Ok (acc @ vs))"
  using assms(2)
proof (induction "is" arbitrary: h acc)
  case Nil
  then show ?case by (simp add: task_list_def batch_outcome_def)
next
  case (Cons i "is")
  have f: "snd (cl_fn K h (cl_items K ! i)) = res_map_err Fail (cl_pure K (cl_items K ! i))"
    using call_okD(10) [OF assms(1)] Cons.prems by simp
  show ?case
  proof (cases "cl_pure K (cl_items K ! i)")
    case (Inl e)
    then show ?thesis using f
      by (auto simp: task_list_def batch_outcome_def fails_def error_of_def split: prod.splits)
  next
    case (Inr v)
    obtain h' where h': "cl_fn K h (cl_items K ! i) = (h', Ok v)" using f Inr by (cases "cl_fn K h (cl_items K ! i)") auto
    have "snd (run_batch (cl_fn K) h' (task_list K is) (acc @ [(i, v)])) =
        (case batch_outcome K is of Inl i \<Rightarrow> Err (Fail (i, error_of K i)) | Inr vs \<Rightarrow> Ok ((acc @ [(i, v)]) @ vs))"
      using Cons by simp
    then show ?thesis using h' Inr
      by (auto simp: task_list_def batch_outcome_def fails_def value_of_def split: option.splits)
  qed
qed

lemma failure_key_ok:
  assumes "call_ok K" "i < length (cl_items K)" "in_comm (cl_np K) r"
  shows "error_key E i Callback r (cl_np K) = Ok (failure_key K i r)" "failure_key K i r < NO_ERROR_KEY" "0 \<le> failure_key K i r"
proof -
  note r = assms(3) [unfolded in_comm_def]
  have "failure_key K i r < (int i * 3 + 2) * cl_np K"
    using r by (simp add: failure_key_def algebra_simps)
  also have "\<dots> \<le> int (length (cl_items K)) * 3 * cl_np K"
    using assms(2) r by (intro mult_right_mono) auto
  finally show k: "failure_key K i r < NO_ERROR_KEY"
    using call_okD(5) [OF assms(1)] by linarith
  show "0 \<le> failure_key K i r" using r by (simp add: failure_key_def)
  have "uint (word_of_nat i :: u64) = int i"
    using call_okD(6) [OF assms(1)] assms(2) by (simp add: unat_of_nat uint_nat take_bit_nat_eq_self_iff)
  then show "error_key E i Callback r (cl_np K) = Ok (failure_key K i r)"
    using r k by (simp add: error_key_def error_key_new_Ok failure_key_def)
qed

lemma failure_key_less: "in_comm (cl_np K) r \<Longrightarrow> in_comm (cl_np K) q \<Longrightarrow> failure_key K i r \<le> failure_key K j q \<Longrightarrow> i \<le> j"
  using mixed_radix_less [of q "cl_np K" r "int j * 3 + 1" "int i * 3 + 1"]
  by (auto simp: failure_key_def in_comm_def)

lemma failure_key_mod: "in_comm (cl_np K) r \<Longrightarrow> failure_key K i r mod cl_np K = r"
  by (simp add: failure_key_def in_comm_def)

section \<open>The coordinator along a call\<close>

definition crew :: "('t, 'u, 'h) pmap_call \<Rightarrow> (int \<Rightarrow> lane_state option) \<Rightarrow> ('t, 'u) coordinator \<Rightarrow> bool" where
  "crew K L c \<longleftrightarrow> sched_inv (cl_items K) c \<and> values_inv (value_of K) (cl_items K) c \<and> \<not> prefetch c
     \<and> batch_size c = cl_batch K \<and> hm_get (remotes c) = L"

lemma sched_trans_options: "sched_trans c a c' \<Longrightarrow> prefetch c' = prefetch c \<and> batch_size c' = batch_size c"
  by (induction rule: sched_trans.induct) (auto simp: set_remote_def)

lemma crew_step:
  assumes "crew K L c" "sched_step c e = (c', Ok ob)" "honest (value_of K) (cl_items K) e" "\<not> (e = RootNext \<and> root_lane c = LaneStopped)"
  shows "crew K (hm_get (remotes c')) c' \<and> work_left c' < work_left c"
proof -
  have inv: "sched_inv (cl_items K) c" using assms(1) by (simp add: crew_def)
  have ref: "refines_step c e c' (Ok ob)" by (rule sched_step_refines_inv [OF inv assms(2)])
  then have "prefetch c' = prefetch c \<and> batch_size c' = batch_size c"
    by (auto simp: refines_step_def dest: sched_trans_options)
  moreover have "values_inv (value_of K) (cl_items K) c'"
    using sched_step_values [OF ref _ assms(3)] assms(1) by (simp add: crew_def)
  moreover have "work_left c' < work_left c"
    using ok_changes [OF inv, of e] assms(2,4) by simp
  ultimately show ?thesis
    using assms(1) sched_step_inv [OF inv assms(2)] by (simp add: crew_def)
qed

lemma crew_quiet_honest [simp]:
  "honest f items RootNext" "honest f items (Ready q)" "honest f items (RootErr bid)" "honest f items (RemoteErr q bid)" "honest f items (Drain q)"
  by (simp_all add: honest_def)

text \<open>The remainder of the input from \<open>n\<close> on.\<close>

definition remainder :: "('t, 'u, 'h) pmap_call \<Rightarrow> nat \<Rightarrow> 't scheduled_item list" where
  "remainder K n = drop n (number_items (cl_items K))"

lemma remainder_Nil: "remainder K n = [] \<longleftrightarrow> length (cl_items K) \<le> n"
  by (simp add: remainder_def)

lemma make_batch_remainder:
  assumes "call_ok K" "crew K L c" "\<not> failed c" "pending c = remainder K n" "n < length (cl_items K)"
  obtains b n' where "make_batch c = (c\<lparr>pending := remainder K n', next_batch_id := BatchId (batch_id_get (next_batch_id c) + 1)\<rparr>, Ok (Some b))"
    "is_batch K [n..<n']" "indexed b = task_list K [n..<n']" "original_indices (metadata b) = [n..<n']" "length (b_items b) = length [n..<n']"
    "n < n'" "n' \<le> length (cl_items K)" "rm_batch_id (metadata b) = b_id b"
proof -
  let ?len = "length (cl_items K)"
  let ?k = "min (cl_batch K) (?len - n)"
  have c: "sched_inv (cl_items K) c" "batch_size c = cl_batch K" using assms(2) by (auto simp: crew_def)
  have ne: "pending c \<noteq> []" using assms(4,5) by (simp add: remainder_Nil)
  obtain c1 b1 where mb: "make_batch c = (c1, Ok (Some b1))"
    using make_batch_total [OF c(1) call_okD(6) [OF assms(1)] assms(3) ne] by blast
  then have nid: "checked_increment (next_batch_id c) = Ok (BatchId (batch_id_get (next_batch_id c) + 1))"
    using assms(3) ne by (auto simp: make_batch_def checked_increment_Ok split: sum.splits)
  have pl: "length (pending c) = ?len - n" using assms(4) by (simp add: remainder_def)
  let ?b = "\<lparr>b_id = next_batch_id c, b_items = take ?k (pending c)\<rparr>"
  have 1: "make_batch c = (c\<lparr>pending := remainder K (n + ?k), next_batch_id := BatchId (batch_id_get (next_batch_id c) + 1)\<rparr>, Ok (Some ?b))"
    using assms(3,4) ne nid c(2) pl by (simp add: make_batch_def Let_def remainder_def add.commute)
  have k: "0 < ?k" "n + ?k \<le> ?len" using call_okD(2) [OF assms(1)] assms(5) by auto
  have items: "take ?k (pending c) = map (\<lambda>i. \<lparr>original_index = i, item_value = cl_items K ! i\<rparr>) [n..<n + ?k]"
    using k(2) assms(4) by (simp add: remainder_def number_items_def drop_map take_map take_upt drop_upt)
  have "is_batch K [n..<n + ?k]"
    unfolding is_batch_def by (rule exI [of _ n], rule exI [of _ "n + ?k"]) (use k in auto)
  then show ?thesis
    by (rule that [OF 1]) (use k items in \<open>auto simp: indexed_def task_list_def metadata_def comp_def\<close>)
qed

lemma crew_ready_task:
  assumes "call_ok K" "crew K L c" "L q = Some LaneIdle" "\<not> failed c" "pending c = remainder K n" "n < length (cl_items K)"
  obtains c' b n' where "on_remote_ready c q = (c', Ok (Task b))" "is_batch K [n..<n']" "indexed b = task_list K [n..<n']"
    "original_indices (metadata b) = [n..<n']" "length (b_items b) = length [n..<n']" "n < n'" "n' \<le> length (cl_items K)"
    "rm_batch_id (metadata b) = b_id b" "crew K (L(q \<mapsto> LaneRunning (metadata b) None False)) c'" "\<not> failed c'" "pending c' = remainder K n'"
    "root_lane c' = root_lane c" "work_left c' < work_left c"
proof -
  have ne: "pending c \<noteq> []" using assms(5,6) by (simp add: remainder_Nil)
  have L: "hm_get (remotes c) = L" "\<not> prefetch c" using assms(2) by (auto simp: crew_def)
  from assms(1,2,4,5,6) obtain b n' where b: "make_batch c = (c\<lparr>pending := remainder K n', next_batch_id := BatchId (batch_id_get (next_batch_id c) + 1)\<rparr>, Ok (Some b))"
    "is_batch K [n..<n']" "indexed b = task_list K [n..<n']" "original_indices (metadata b) = [n..<n']" "length (b_items b) = length [n..<n']"
    "n < n'" "n' \<le> length (cl_items K)" "rm_batch_id (metadata b) = b_id b"
    by (rule make_batch_remainder)
  define c' where "c' = set_remote q (LaneRunning (metadata b) None False) (c\<lparr>pending := remainder K n', next_batch_id := BatchId (batch_id_get (next_batch_id c) + 1)\<rparr>)"
  have r: "on_remote_ready c q = (c', Ok (Task b))"
    using assms(3,4) L ne b(1) by (simp add: on_remote_ready_def c'_def)
  have "crew K (hm_get (remotes c')) c' \<and> work_left c' < work_left c"
    using crew_step [OF assms(2), of "Ready q" c' "Some b"] r by simp
  moreover have "hm_get (remotes c') = L(q \<mapsto> LaneRunning (metadata b) None False)"
    using L by (auto simp: c'_def set_remote_def fun_eq_iff hm_get_insert)
  moreover have "\<not> failed c'" "pending c' = remainder K n'" "root_lane c' = root_lane c"
    using assms(4) by (simp_all add: c'_def)
  ultimately show ?thesis using that [OF r b(2-8)] by simp
qed

lemma crew_ready_stop:
  assumes "crew K L c" "L q = Some LaneIdle" "failed c \<or> pending c = []"
  obtains c' where "on_remote_ready c q = (c', Ok Stop)" "crew K (L(q \<mapsto> LaneStopped)) c'" "failed c' = failed c" "pending c' = pending c"
    "root_lane c' = root_lane c" "work_left c' < work_left c"
proof -
  have L: "hm_get (remotes c) = L" "\<not> prefetch c" using assms(1) by (auto simp: crew_def)
  define c' where "c' = set_remote q LaneStopped c"
  have r: "on_remote_ready c q = (c', Ok Stop)"
    using assms(2,3) L by (simp add: on_remote_ready_def c'_def)
  have "crew K (hm_get (remotes c')) c' \<and> work_left c' < work_left c"
    using crew_step [OF assms(1), of "Ready q" c' None] r by simp
  moreover have "hm_get (remotes c') = L(q \<mapsto> LaneStopped)"
    using L by (auto simp: c'_def set_remote_def fun_eq_iff hm_get_insert)
  ultimately show ?thesis using that [OF r] by (simp add: c'_def)
qed

definition item_results :: "(usize \<times> 'u) list \<Rightarrow> 'u item_result list" where
  "item_results vs = map (\<lambda>(i, v). \<lparr>result_index = i, result_value = v\<rparr>) vs"

lemma item_results_outcome:
  assumes "batch_outcome K is = Ok vs"
  shows "map result_index (item_results vs) = is" "\<forall>r\<in>set (item_results vs). result_value r = value_of K (cl_items K ! result_index r)"
  using assms by (auto simp: batch_outcome_none item_results_def comp_def)

lemma is_ok_record:
  assumes "record_results c rs cm = (c', r)"
  shows "pending c' = pending c \<and> failed c' = failed c \<and> root_lane c' = root_lane c \<and> remotes c' = remotes c"
  using assms by (auto simp: record_results_def split: if_splits sum.splits)

lemma crew_remote_done:
  assumes "crew K L c" "L q = Some (LaneRunning m None False)" "batch_outcome K (original_indices m) = Ok vs"
  obtains c' cm where "on_remote_success c q (rm_batch_id m) (item_results vs) = (c', Ok cm)" "crew K (L(q \<mapsto> LaneIdle)) c'"
    "failed c' = failed c" "pending c' = pending c" "root_lane c' = root_lane c" "work_left c' < work_left c"
proof -
  have L: "hm_get (remotes c) = L" "sched_inv (cl_items K) c" using assms(1) by (auto simp: crew_def)
  obtain c' r where s: "on_remote_success c q (rm_batch_id m) (item_results vs) = (c', r)" by fastforce
  have "is_ok (snd (on_remote_success c q (rm_batch_id m) (item_results vs)))"
    using on_remote_success_ok [OF L(2), of q m None False] L(1) assms(2) item_results_outcome(1) [OF assms(3)] by simp
  then obtain cm where cm: "r = Ok cm" using s by (auto simp: is_ok_iff)
  have step: "crew K (hm_get (remotes c')) c' \<and> work_left c' < work_left c"
    using crew_step [OF assms(1), of "RemoteOk q (rm_batch_id m) (item_results vs)" c' None] s cm item_results_outcome(2) [OF assms(3)]
    by (simp add: honest_def)
  have rec: "record_results (set_remote q LaneIdle c) (item_results vs) \<lparr>cm_lane = Remote q, cm_batch_id = rm_batch_id m\<rparr> = (c', Ok cm)"
    using s cm L(1) assms(2) by (auto simp: on_remote_success_def split: sum.splits)
  have "hm_get (remotes c') = L(q \<mapsto> LaneIdle)" "failed c' = failed c" "pending c' = pending c" "root_lane c' = root_lane c"
    using is_ok_record [OF rec] L(1) by (auto simp: set_remote_def fun_eq_iff hm_get_insert)
  with step show ?thesis using that [of c' cm] s cm by simp
qed

lemma crew_remote_error:
  assumes "crew K L c" "L q = Some (LaneRunning m None False)"
  obtains c' cm where "on_remote_error c q (rm_batch_id m) = (c', Ok cm)" "crew K (L(q \<mapsto> LaneIdle)) c'" "failed c'" "pending c' = []"
    "root_lane c' = root_lane c" "work_left c' < work_left c"
proof -
  have L: "hm_get (remotes c) = L" using assms(1) by (auto simp: crew_def)
  define c' where "c' = fail (set_remote q LaneIdle c)"
  have r: "on_remote_error c q (rm_batch_id m) = (c', Ok \<lparr>cm_lane = Remote q, cm_batch_id = rm_batch_id m\<rparr>)"
    using assms(2) L by (simp add: on_remote_error_def c'_def)
  have "crew K (hm_get (remotes c')) c' \<and> work_left c' < work_left c"
    using crew_step [OF assms(1), of "RemoteErr q (rm_batch_id m)" c' None] r by simp
  moreover have "hm_get (remotes c') = L(q \<mapsto> LaneIdle)"
    using L by (auto simp: c'_def set_remote_def fun_eq_iff hm_get_insert)
  ultimately show ?thesis using that [OF r] by (simp add: c'_def)
qed

lemma crew_drain:
  assumes "crew K L c" "L q = Some LaneStopped"
  obtains c' where "on_remote_drain c q = (c', Ok ())" "crew K (L(q \<mapsto> LaneDrained)) c'" "failed c' = failed c" "pending c' = pending c"
    "root_lane c' = root_lane c" "work_left c' < work_left c"
proof -
  have L: "hm_get (remotes c) = L" using assms(1) by (auto simp: crew_def)
  define c' where "c' = set_remote q LaneDrained c"
  have r: "on_remote_drain c q = (c', Ok ())"
    using assms(2) L by (simp add: on_remote_drain_def c'_def)
  have "crew K (hm_get (remotes c')) c' \<and> work_left c' < work_left c"
    using crew_step [OF assms(1), of "Drain q" c' None] r by simp
  moreover have "hm_get (remotes c') = L(q \<mapsto> LaneDrained)"
    using L by (auto simp: c'_def set_remote_def fun_eq_iff hm_get_insert)
  ultimately show ?thesis using that [OF r] by (simp add: c'_def)
qed

text \<open>The root's own batch: taken, run, and reported.\<close>

lemma crew_root_stop:
  assumes "crew K L c" "root_lane c = LaneIdle \<or> root_lane c = LaneStopped" "failed c \<or> pending c = []"
  obtains c' where "next_root_batch c = (c', Ok None)" "crew K L c'" "failed c' = failed c" "pending c' = pending c"
    "root_lane c' = LaneStopped" "work_left c' < work_left c \<or> c' = c"
proof (cases "root_lane c = LaneStopped")
  case True
  then show ?thesis using that [of c] assms by (simp add: next_root_batch_def)
next
  case False
  have L: "hm_get (remotes c) = L" using assms(1) by (auto simp: crew_def)
  define c' where "c' = c\<lparr>root_lane := LaneStopped\<rparr>"
  have r: "next_root_batch c = (c', Ok None)"
    using False assms(2,3) by (auto simp: next_root_batch_def c'_def)
  have "crew K (hm_get (remotes c')) c' \<and> work_left c' < work_left c"
    using crew_step [OF assms(1), of RootNext c' None] r False by simp
  then show ?thesis using that [OF r] L by (simp add: c'_def)
qed

lemma crew_root_batch:
  assumes "call_ok K" "crew K L c" "root_lane c = LaneIdle" "\<not> failed c" "pending c = remainder K n" "n < length (cl_items K)"
  obtains c1 b n' where "next_root_batch c = (c1, Ok (Some b))" "is_batch K [n..<n']" "indexed b = task_list K [n..<n']"
    "original_indices (metadata b) = [n..<n']" "n < n'" "n' \<le> length (cl_items K)"
    "rm_batch_id (metadata b) = b_id b" "crew K L c1" "\<not> failed c1" "pending c1 = remainder K n'"
    "root_lane c1 = LaneRunning (metadata b) None False" "work_left c1 < work_left c"
proof -
  have ne: "pending c \<noteq> []" using assms(5,6) by (simp add: remainder_Nil)
  have L: "hm_get (remotes c) = L" using assms(2) by (auto simp: crew_def)
  from assms(1,2,4,5,6) obtain b n' where b: "make_batch c = (c\<lparr>pending := remainder K n', next_batch_id := BatchId (batch_id_get (next_batch_id c) + 1)\<rparr>, Ok (Some b))"
    "is_batch K [n..<n']" "indexed b = task_list K [n..<n']" "original_indices (metadata b) = [n..<n']" "length (b_items b) = length [n..<n']"
    "n < n'" "n' \<le> length (cl_items K)" "rm_batch_id (metadata b) = b_id b"
    by (rule make_batch_remainder)
  define c1 where "c1 = c\<lparr>pending := remainder K n', next_batch_id := BatchId (batch_id_get (next_batch_id c) + 1),
    root_lane := LaneRunning (metadata b) None False\<rparr>"
  have r: "next_root_batch c = (c1, Ok (Some b))"
    using assms(3,4) ne b(1) by (simp add: next_root_batch_def c1_def)
  have "crew K (hm_get (remotes c1)) c1 \<and> work_left c1 < work_left c"
    using crew_step [OF assms(2), of RootNext c1 "Some b"] r assms(3) by simp
  then show ?thesis using that [OF r b(2-4) b(6-8)] L assms(4) by (simp add: c1_def)
qed

lemma crew_root_done:
  assumes "crew K L c" "root_lane c = LaneRunning m None False" "batch_outcome K (original_indices m) = Ok vs"
  obtains c' cm where "on_root_success c (rm_batch_id m) (item_results vs) = (c', Ok cm)" "crew K L c'"
    "failed c' = failed c" "pending c' = pending c" "root_lane c' = LaneIdle" "work_left c' < work_left c"
proof -
  have L: "hm_get (remotes c) = L" "sched_inv (cl_items K) c" using assms(1) by (auto simp: crew_def)
  obtain c' r where s: "on_root_success c (rm_batch_id m) (item_results vs) = (c', r)" by fastforce
  have "is_ok (snd (on_root_success c (rm_batch_id m) (item_results vs)))"
    using on_root_success_ok [OF L(2) assms(2)] item_results_outcome(1) [OF assms(3)] by simp
  then obtain cm where cm: "r = Ok cm" using s by (auto simp: is_ok_iff)
  have step: "crew K (hm_get (remotes c')) c' \<and> work_left c' < work_left c"
    using crew_step [OF assms(1), of "RootOk (rm_batch_id m) (item_results vs)" c' None] s cm item_results_outcome(2) [OF assms(3)]
    by (simp add: honest_def)
  have "record_results (c\<lparr>root_lane := LaneIdle\<rparr>) (item_results vs) \<lparr>cm_lane = Root, cm_batch_id = rm_batch_id m\<rparr> = (c', Ok cm)"
    using s cm assms(2) by (auto simp: on_root_success_def split: sum.splits)
  from is_ok_record [OF this] step show ?thesis using that [of c' cm] s cm L(1) by simp
qed

lemma crew_root_error:
  assumes "crew K L c" "root_lane c = LaneRunning m None False"
  obtains c' cm where "on_root_error c (rm_batch_id m) = (c', Ok cm)" "crew K L c'" "failed c'" "pending c' = []"
    "root_lane c' = LaneIdle" "work_left c' < work_left c"
proof -
  have L: "hm_get (remotes c) = L" using assms(1) by (auto simp: crew_def)
  define c' where "c' = fail (c\<lparr>root_lane := LaneIdle\<rparr>)"
  have r: "on_root_error c (rm_batch_id m) = (c', Ok \<lparr>cm_lane = Root, cm_batch_id = rm_batch_id m\<rparr>)"
    using assms(2) by (simp add: on_root_error_def c'_def)
  have "crew K (hm_get (remotes c')) c' \<and> work_left c' < work_left c"
    using crew_step [OF assms(1), of "RootErr (rm_batch_id m)" c' None] r by simp
  then show ?thesis using that [OF r] L by (simp add: c'_def)
qed

end
