(* ===== verification/PmapLinks.thy ===== *)
theory PmapLinks
  imports PmapCall
begin

text \<open>
  The protocol of a call between the root and each worker. Between two ranks there is a link, which is in one of eight
  states; a state says where the worker waits and what is on its way in both directions. The root is at one of
  five places. The steps of this small system are the steps of the programs: \<open>PmapRun\<close> proves it.
\<close>

section \<open>Frames\<close>

definition hdr :: "message_kind \<Rightarrow> message_status \<Rightarrow> u64 \<Rightarrow> u64 \<Rightarrow> usize \<Rightarrow> header" where
  "hdr k st bid n len = \<lparr>hd_version = PROTOCOL_VERSION, hd_kind = k, hd_status = st, hd_batch_id = bid, hd_item_count = n,
     hd_payload_len = word_of_nat len\<rparr>"

definition bare :: "message_kind \<Rightarrow> header" where
  "bare k = hdr k StNone 0 0 0"

lemma hdr_fields [simp]:
  "hd_kind (hdr k st bid n len) = k" "hd_status (hdr k st bid n len) = st" "hd_batch_id (hdr k st bid n len) = bid"
  "hd_item_count (hdr k st bid n len) = n" "hd_payload_len (hdr k st bid n len) = word_of_nat len" "hd_kind (bare k) = k"
  by (simp_all add: hdr_def bare_def)

lemma pm_header_hdr: "status_allowed k st \<Longrightarrow> len \<le> MAX_WIRE_BYTES \<Longrightarrow> pm_header E k st bid n len = Ok (hdr k st bid n len)"
  by (simp add: pm_header_def header_new_def validate_status_def validate_payload_len_def wire_len hdr_def)

lemma header_decode_hdr: "status_allowed k st \<Longrightarrow> len \<le> MAX_WIRE_BYTES \<Longrightarrow> header_decode (header_encode (hdr k st bid n len)) = Ok (hdr k st bid n len)"
  by (simp add: header_decode_encode header_valid_def hdr_def wire_len)

lemma header_decode_bare [simp]: "status_allowed k StNone \<Longrightarrow> header_decode (header_encode (bare k)) = Ok (bare k)"
  by (simp add: bare_def header_decode_hdr)

lemma send_empty_bare: "status_allowed k StNone \<Longrightarrow> send_empty E rank k 0 = PSend rank HEADER_TAG (header_encode (bare k)) (PRet (Ok ()))"
  by (simp add: send_empty_def pm_header_hdr send_header_def bare_def)

lemma carriesD:
  assumes "carries enc dec v"
  shows "encode_payload enc v = Ok (ok_part (enc v))" "length (ok_part (enc v)) \<le> MAX_WIRE_BYTES" "decode_payload dec (ok_part (enc v)) = Ok v"
  using assms wire_len [of "length (ok_part (enc v))"]
  by (auto simp: carries_def encode_payload_def decode_payload_def validate_payload_len_def split: sum.splits)

lemma send_frame_carries:
  assumes "carries enc dec v" "status_allowed k st"
  shows "send_frame E enc rank k st bid n v =
    PSend rank HEADER_TAG (header_encode (hdr k st bid (word_of_nat n) (length (ok_part (enc v))))) (PSend rank PAYLOAD_TAG (ok_part (enc v)) (PRet (Ok ())))"
  using carriesD [OF assms(1)] assms(2) by (simp add: send_frame_def pm_header_hdr send_header_def)

lemma receive_payload_carries:
  assumes "carries enc dec v" "hd_payload_len h = word_of_nat (length (ok_part (enc v)))"
  shows "\<exists>k. receive_payload E dec rank h = PRecv rank PAYLOAD_TAG k \<and> k (ok_part (enc v)) = PRet (Ok v)"
proof -
  note c = carriesD [OF assms(1)]
  have len: "unat (hd_payload_len h) = length (ok_part (enc v))" "length (ok_part (enc v)) \<le> 2147483647"
    using wire_len [OF c(2)] c(2) assms(2) by (simp_all add: MAX_WIRE_BYTES_def)
  then have "checked_mpi_count (hd_payload_len h) = Ok (int (length (ok_part (enc v))))" "checked_usize_length (hd_payload_len h) = Ok (length (ok_part (enc v)))"
    by (simp_all add: checked_mpi_count_def checked_usize_length_def uint_nat USIZE_MAX_def)
  then show ?thesis using c(3) by (simp add: receive_payload_def)
qed

definition task_bytes :: "('t, 'u, 'h) pmap_call \<Rightarrow> usize list \<Rightarrow> bytes" where
  "task_bytes K is = ok_part (sd_enc_task (cl_env K) (task_list K is))"

definition reply_bytes :: "('t, 'u, 'h) pmap_call \<Rightarrow> usize list \<Rightarrow> bytes" where
  "reply_bytes K is = ok_part (sd_enc_result (cl_env K) (batch_reply K is))"

definition task_hdr :: "('t, 'u, 'h) pmap_call \<Rightarrow> running_meta \<Rightarrow> header" where
  "task_hdr K m = hdr MkTask StNone (batch_id_get (rm_batch_id m)) (word_of_nat (length (original_indices m)))
     (length (task_bytes K (original_indices m)))"

definition reply_hdr :: "('t, 'u, 'h) pmap_call \<Rightarrow> running_meta \<Rightarrow> header" where
  "reply_hdr K m = hdr MkResult (if is_ok (batch_outcome K (original_indices m)) then StOk else StError) (batch_id_get (rm_batch_id m))
     (word_of_nat (length (original_indices m))) (length (reply_bytes K (original_indices m)))"

lemma header_decode_task:
  assumes "call_ok K" "is_batch K (original_indices m)"
  shows "header_decode (header_encode (task_hdr K m)) = Ok (task_hdr K m)" "header_decode (header_encode (reply_hdr K m)) = Ok (reply_hdr K m)"
  using carriesD(2) [OF call_okD(12) [OF assms]] carriesD(2) [OF call_okD(13) [OF assms]]
  by (simp_all add: task_hdr_def reply_hdr_def header_decode_hdr task_bytes_def reply_bytes_def)

section \<open>The trees of a worker\<close>

definition worker_done ::
  "('t, 'u, 'h) pmap_call \<Rightarrow> int \<Rightarrow> (pmap_error, ('h worker_state, int \<times> local_error option) ctl) result
     \<Rightarrow> (('t, 'u, 'h) pmap_phase, 'u pmap_result) ctl proc"
where
  "worker_done K q r = (case r of
       Inl _ \<Rightarrow> PAbort 72
     | Inr (Again s) \<Rightarrow> PRet (Again (PhWorker s))
     | Inr (Exit (key, e)) \<Rightarrow> pmap_finish q (cl_np K) (cl_root K) ([], key, e))"

definition waiting :: "('t, 'u, 'h) pmap_call \<Rightarrow> int \<Rightarrow> 'h worker_state \<Rightarrow> (('t, 'u, 'h) pmap_phase, 'u pmap_result) ctl proc" where
  "waiting K q s = PRecv (cl_root K) HEADER_TAG (\<lambda>bs.
     pbind (plift (res_map_err (wire_failure (cl_env K)) (header_decode bs)) (worker_header (cl_env K) (cl_fn K) q (cl_np K) (cl_root K) s)) (worker_done K q))"

definition paying :: "('t, 'u, 'h) pmap_call \<Rightarrow> int \<Rightarrow> 'h worker_state \<Rightarrow> running_meta \<Rightarrow> (('t, 'u, 'h) pmap_phase, 'u pmap_result) ctl proc" where
  "paying K q s m = pbind (worker_header (cl_env K) (cl_fn K) q (cl_np K) (cl_root K) s (task_hdr K m)) (worker_done K q)"

definition closed :: "('t, 'u, 'h) pmap_call \<Rightarrow> int \<Rightarrow> 'h worker_state \<Rightarrow> (('t, 'u, 'h) pmap_phase, 'u pmap_result) ctl proc" where
  "closed K q s = pmap_finish q (cl_np K) (cl_root K) ([], ws_key s, ws_error s)"

definition after_task :: "('t, 'u, 'h) pmap_call \<Rightarrow> int \<Rightarrow> 'h worker_state \<Rightarrow> running_meta \<Rightarrow> 'h worker_state" where
  "after_task K q s m = (let h = fst (run_batch (cl_fn K) (ws_fn s) (task_list K (original_indices m)) []) in
     case batch_outcome K (original_indices m) of
       Inl i \<Rightarrow> s\<lparr>ws_key := min (ws_key s) (failure_key K i q), ws_error := Some (PmUser, error_of K i), ws_fn := h\<rparr>
     | Inr _ \<Rightarrow> s\<lparr>ws_fn := h\<rparr>)"

lemma ptry_plift [simp]: "ptry (PRet r) f = plift r f"
  by (simp add: ptry_def plift_def)

lemma call_body_ready:
  "\<exists>k. call_body K q (PhWorker s) = PSend (mo_root (cl_given K q)) HEADER_TAG (header_encode (bare MkReady)) (PRecv (mo_root (cl_given K q)) HEADER_TAG k)"
  by (simp add: call_body_def pmap_program_def worker_turn_def send_empty_bare receive_header_def)

lemma call_body_worker:
  assumes "call_ok K" "in_comm (cl_np K) q"
  shows "call_body K q (PhWorker s) = PSend (cl_root K) HEADER_TAG (header_encode (bare MkReady)) (waiting K q s)"
proof -
  have "worker_done K q = case_sum (\<lambda>_. PAbort 72)
      (case_ctl (\<lambda>s. PRet (Again (PhWorker s))) (\<lambda>(key, e). pmap_finish q (cl_np K) (cl_root K) ([], key, e)))"
    by (simp add: worker_done_def fun_eq_iff)
  then show ?thesis
    by (simp add: call_body_def pmap_program_def worker_turn_def send_empty_bare receive_header_def waiting_def call_okD(14) [OF assms])
qed

lemma paying_recv:
  assumes K: "call_ok K" and q: "in_comm (cl_np K) q" and m: "is_batch K (original_indices m)"
  shows "\<exists>k. paying K q s m = PRecv (cl_root K) PAYLOAD_TAG k
    \<and> k (task_bytes K (original_indices m)) = PSend (cl_root K) HEADER_TAG (header_encode (reply_hdr K m))
        (PSend (cl_root K) PAYLOAD_TAG (reply_bytes K (original_indices m)) (PRet (Again (PhWorker (after_task K q s m)))))"
proof -
  let ?is = "original_indices m"
  obtain k where k: "receive_payload (cl_env K) (sd_dec_task (cl_env K)) (cl_root K) (task_hdr K m) = PRecv (cl_root K) PAYLOAD_TAG k"
      "k (task_bytes K ?is) = PRet (Ok (task_list K ?is))"
    using receive_payload_carries [OF call_okD(12) [OF K m], of "task_hdr K m"] by (auto simp: task_hdr_def task_bytes_def)
  have len: "unat (word_of_nat (length ?is) :: u64) = length ?is"
    using m call_okD(6) [OF K] by (auto simp: is_batch_def unat_of_nat take_bit_nat_eq_self_iff)
  obtain h r where run: "run_batch (cl_fn K) (ws_fn s) (task_list K ?is) [] = (h, r)" by fastforce
  have r: "r = (case batch_outcome K ?is of Inl i \<Rightarrow> Err (Fail (i, error_of K i)) | Inr vs \<Rightarrow> Ok vs)"
    using run_batch_outcome [OF K, of ?is "ws_fn s" "[]"] is_batchD(1) [OF m] run by (auto split: sum.splits)
  have "pbind (task_run (cl_env K) (cl_fn K) q (cl_np K) (cl_root K) (task_hdr K m) (task_list K ?is) s) (worker_done K q)
      = PSend (cl_root K) HEADER_TAG (header_encode (reply_hdr K m)) (PSend (cl_root K) PAYLOAD_TAG (reply_bytes K ?is) (PRet (Again (PhWorker (after_task K q s m)))))"
  proof (cases "batch_outcome K ?is")
    case (Inl i)
    then have "i < length (cl_items K)" using batch_outcome_first [OF m] is_batchD(1) [OF m] by blast
    note key = failure_key_ok(1) [OF K this q]
    have rep: "batch_reply K ?is = RpError \<lparr>cf_index = i, cf_kind = pmap_kind_code PmUser, cf_message = error_of K i\<rparr>"
      using Inl by (simp add: batch_reply_def)
    show ?thesis using run r Inl len
      by (simp add: key send_frame_carries [OF call_okD(13) [OF K m, unfolded rep], simplified] task_run_def task_hdr_def reply_hdr_def worker_done_def after_task_def reply_bytes_def rep Let_def)
  next
    case (Inr vs)
    then have rep: "batch_reply K ?is = RpValues vs" by (simp add: batch_reply_def)
    have len_vs: "length vs = length ?is" using Inr by (simp add: batch_outcome_none)
    show ?thesis using run r Inr len_vs
      by (simp add: send_frame_carries [OF call_okD(13) [OF K m, unfolded rep]] task_run_def task_hdr_def reply_hdr_def worker_done_def after_task_def reply_bytes_def rep Let_def)
  qed
  then show ?thesis using k by (simp add: paying_def worker_header_def) (simp add: task_hdr_def)
qed

lemma waiting_recv:
  assumes "call_ok K"
  shows "\<exists>k. waiting K q s = PRecv (cl_root K) HEADER_TAG k
    \<and> (is_batch K (original_indices m) \<longrightarrow> k (header_encode (task_hdr K m)) = paying K q s m)
    \<and> k (header_encode (bare MkStop)) = PSend (cl_root K) HEADER_TAG (header_encode (bare MkDrain)) (closed K q s)"
  using header_decode_task [OF assms]
  by (auto simp: waiting_def paying_def closed_def worker_header_def [of _ _ _ _ _ _ "bare MkStop"] send_empty_bare worker_done_def)

section \<open>The trees of the root\<close>

definition root_done ::
  "('t, 'u, 'h) pmap_call \<Rightarrow> (pmap_error, (root_at \<times> ('t, 'u, 'h) root_state, 'u root_outcome) ctl) result
     \<Rightarrow> (('t, 'u, 'h) pmap_phase, 'u pmap_result) ctl proc"
where
  "root_done K r = (case r of
       Inl _ \<Rightarrow> PAbort 72
     | Inr (Again (at, s)) \<Rightarrow> PRet (Again (PhRoot at s))
     | Inr (Exit out) \<Rightarrow> pmap_finish (cl_root K) (cl_np K) (cl_root K) out)"

definition handling ::
  "('t, 'u, 'h) pmap_call \<Rightarrow> root_at \<Rightarrow> ('t, 'u, 'h) root_state \<Rightarrow> int \<Rightarrow> header \<Rightarrow> (('t, 'u, 'h) pmap_phase, 'u pmap_result) ctl proc"
where
  "handling K at s q h = pbind (ptry (process_remote_header (cl_env K) (length (cl_items K)) (cl_root K) (cl_np K) q h s)
     (\<lambda>s1. PRet (Ok (Again (at, s1))))) (root_done K)"

definition serving ::
  "('t, 'u, 'h) pmap_call \<Rightarrow> root_at \<Rightarrow> ('t, 'u, 'h) root_state \<Rightarrow> (('t, 'u, 'h) pmap_phase, 'u pmap_result) ctl proc"
where
  "serving K at s = pbind (ptry (serve_one (cl_env K) (length (cl_items K)) (cl_root K) (cl_np K) s) (\<lambda>s1. PRet (Ok (Again (at, s1))))) (root_done K)"

lemma call_body_root:
  assumes "call_ok K"
  shows "call_body K (cl_root K) (PhRoot at s) =
    pbind (root_turn (cl_env K) (cl_fn K) (length (cl_items K)) (cl_root K) (cl_np K) at s) (root_done K)"
proof -
  have "root_done K = case_sum (\<lambda>_. PAbort 72)
      (case_ctl (\<lambda>(at, s). PRet (Again (PhRoot at s))) (pmap_finish (cl_root K) (cl_np K) (cl_root K)))"
    by (simp add: root_done_def fun_eq_iff)
  then show ?thesis using call_okD(1,9) [OF assms] call_okD(14) [OF assms call_okD(1) [OF assms]] by (simp add: call_body_def pmap_program_def)
qed

lemma serving_recv:
  "\<exists>j. serving K at s = PRecvAny HEADER_TAG j \<and> (\<forall>q h. header_decode (header_encode h) = Ok h \<longrightarrow> j (q, header_encode h) = handling K at s q h)"
  by (auto simp: serving_def serve_one_def receive_any_header_def handling_def)

text \<open>What the root does with the worker's messages.\<close>

lemma handling_task:
  assumes K: "call_ok K" and b: "is_batch K is" "indexed b = task_list K is" "original_indices (metadata b) = is" "length (b_items b) = length is"
    and r: "on_remote_ready (rs_sched s) q = (c', Ok (Task b))"
  shows "handling K at s q (bare MkReady) = PSend q HEADER_TAG (header_encode (task_hdr K (metadata b)))
    (PSend q PAYLOAD_TAG (task_bytes K is) (PRet (Again (PhRoot at (s\<lparr>rs_sched := c'\<rparr>)))))"
  using r b
  by (simp add: handling_def process_remote_header_def psched_def send_frame_carries [OF call_okD(12) [OF K b(1)]] task_hdr_def task_bytes_def
      metadata_def root_done_def)

lemma handling_stop:
  "on_remote_ready (rs_sched s) q = (c', Ok Stop) \<Longrightarrow> handling K at s q (bare MkReady) =
    PSend q HEADER_TAG (header_encode (bare MkStop)) (PRet (Again (PhRoot at (s\<lparr>rs_sched := c'\<rparr>))))"
  by (simp add: handling_def process_remote_header_def psched_def send_empty_bare root_done_def)

lemma handling_drain:
  "on_remote_drain (rs_sched s) q = (c', Ok ()) \<Longrightarrow> handling K at s q (bare MkDrain) = PRet (Again (PhRoot at (s\<lparr>rs_sched := c'\<rparr>)))"
  by (simp add: handling_def process_remote_header_def psched_def root_done_def)

lemma handling_reply:
  assumes K: "call_ok K" and m: "is_batch K (original_indices m)"
  shows "\<exists>k. handling K at s q (reply_hdr K m) = PRecv q PAYLOAD_TAG k
    \<and> (\<forall>vs c' cm. batch_outcome K (original_indices m) = Ok vs \<longrightarrow> on_remote_success (rs_sched s) q (rm_batch_id m) (item_results vs) = (c', Ok cm)
         \<longrightarrow> k (reply_bytes K (original_indices m)) = PRet (Again (PhRoot at (s\<lparr>rs_sched := c'\<rparr>))))
    \<and> (\<forall>i c' cm. batch_outcome K (original_indices m) = Err i \<longrightarrow> on_remote_error (rs_sched s) q (rm_batch_id m) = (c', Ok cm)
         \<longrightarrow> k (reply_bytes K (original_indices m)) = PRet (Again (PhRoot at (s\<lparr>rs_sched := c'\<rparr>))))"
proof -
  let ?is = "original_indices m"
  obtain k where "receive_payload (cl_env K) (sd_dec_result (cl_env K)) q (reply_hdr K m) = PRecv q PAYLOAD_TAG k"
      "k (reply_bytes K ?is) = PRet (Ok (batch_reply K ?is))"
    using receive_payload_carries [OF call_okD(13) [OF K m], of "reply_hdr K m"] by (auto simp: reply_hdr_def reply_bytes_def)
  then show ?thesis
    by (auto simp: handling_def process_remote_header_def reply_hdr_def root_result_def batch_reply_def psched_def root_done_def item_results_def)
qed

text \<open>A batch of the root itself.\<close>

definition after_root :: "('t, 'u, 'h) pmap_call \<Rightarrow> ('t, 'u, 'h) root_state \<Rightarrow> bool \<times> ('t, 'u, 'h) root_state" where
  "after_root K s = (case next_root_batch (rs_sched s) of
       (c1, Inr (Some b)) \<Rightarrow>
         (let h = fst (run_batch (cl_fn K) (rs_fn s) (indexed b) []) in
          (True, case batch_outcome K (original_indices (metadata b)) of
             Inl i \<Rightarrow> s\<lparr>rs_sched := fst (on_root_error c1 (b_id b)), rs_key := min (rs_key s) (failure_key K i (cl_root K)),
                 rs_error := Some (PmUser, error_of K i), rs_fn := h\<rparr>
           | Inr vs \<Rightarrow> s\<lparr>rs_sched := fst (on_root_success c1 (b_id b) (item_results vs)), rs_fn := h\<rparr>))
     | (c1, _) \<Rightarrow> (False, s\<lparr>rs_sched := c1\<rparr>))"

lemma execute_root_batch_none:
  "next_root_batch (rs_sched s) = (c1, Ok None) \<Longrightarrow> execute_root_batch E f r np s = PRet (Ok (False, s\<lparr>rs_sched := c1\<rparr>))"
  by (simp add: execute_root_batch_def psched_def)

lemma execute_root_batch_some:
  assumes K: "call_ok K" and b: "is_batch K is" "indexed b = task_list K is" "original_indices (metadata b) = is" "rm_batch_id (metadata b) = b_id b"
    and c: "crew K L c1" "root_lane c1 = LaneRunning (metadata b) None False" and n: "next_root_batch (rs_sched s) = (c1, Ok (Some b))"
  shows "execute_root_batch (cl_env K) (cl_fn K) (cl_root K) (cl_np K) s = PRet (Ok (after_root K s))"
proof -
  obtain h r where run: "run_batch (cl_fn K) (rs_fn s) (indexed b) [] = (h, r)" by fastforce
  have r: "r = (case batch_outcome K is of Inl i \<Rightarrow> Err (Fail (i, error_of K i)) | Inr vs \<Rightarrow> Ok vs)"
    using run_batch_outcome [OF K, of "is" "rs_fn s" "[]"] is_batchD(1) [OF b(1)] run b(2) by (auto split: sum.splits)
  show ?thesis
  proof (cases "batch_outcome K is")
    case (Inl i)
    then have "i < length (cl_items K)" using batch_outcome_first [OF b(1)] is_batchD(1) [OF b(1)] by blast
    note key = failure_key_ok(1) [OF K this call_okD(1) [OF K]]
    obtain c2 cm where "on_root_error c1 (b_id b) = (c2, Ok cm)" using crew_root_error [OF c] b(4) by metis
    then show ?thesis using n run r Inl b(3) by (simp add: key execute_root_batch_def after_root_def psched_def Let_def)
  next
    case (Inr vs)
    obtain c2 cm where "on_root_success c1 (b_id b) (item_results vs) = (c2, Ok cm)" using crew_root_done [OF c, of vs] b(3,4) Inr by metis
    then show ?thesis using n run r Inr b(3) by (simp add: execute_root_batch_def after_root_def psched_def Let_def item_results_def)
  qed
qed

end
