(* ===== verification/PmapRun.thy ===== *)
theory PmapRun
  imports PmapLinks
begin

text \<open>
  The protocol of a call as a system of links with the place of the root, and the proof that the programs of all ranks
  implement it: what a world shows, after the collective calls at the start, is a state of this system, and a step
  of the world is one of its steps or does not show.
\<close>

section \<open>States\<close>

text \<open>A link between two batches (the worker has said that it is ready); a task under way; its header
  taken; the result under way; its header taken by the root; a stop under way; the worker's farewell under way; no more.\<close>

datatype link =
    LReady | LTask running_meta | LPay running_meta | LResult running_meta | LHalf running_meta | LStop | LDrain | LGone

fun lane_of :: "link \<Rightarrow> lane_state" where
  "lane_of LReady = LaneIdle"
| "lane_of (LTask m) = LaneRunning m None False"
| "lane_of (LPay m) = LaneRunning m None False"
| "lane_of (LResult m) = LaneRunning m None False"
| "lane_of (LHalf m) = LaneRunning m None False"
| "lane_of LStop = LaneStopped"
| "lane_of LDrain = LaneStopped"
| "lane_of LGone = LaneDrained"

fun link_meta :: "link \<Rightarrow> running_meta option" where
  "link_meta (LTask m) = Some m"
| "link_meta (LPay m) = Some m"
| "link_meta (LResult m) = Some m"
| "link_meta (LHalf m) = Some m"
| "link_meta l = None"

fun up_head :: "('t, 'u, 'h) pmap_call \<Rightarrow> link \<Rightarrow> bytes list" where
  "up_head K LReady = [header_encode (bare MkReady)]"
| "up_head K (LResult m) = [header_encode (reply_hdr K m), header_encode (bare MkReady)]"
| "up_head K (LHalf m) = [header_encode (bare MkReady)]"
| "up_head K LDrain = [header_encode (bare MkDrain)]"
| "up_head K l = []"

fun up_pay :: "('t, 'u, 'h) pmap_call \<Rightarrow> link \<Rightarrow> bytes list" where
  "up_pay K (LResult m) = [reply_bytes K (original_indices m)]"
| "up_pay K (LHalf m) = [reply_bytes K (original_indices m)]"
| "up_pay K l = []"

fun down_head :: "('t, 'u, 'h) pmap_call \<Rightarrow> link \<Rightarrow> bytes list" where
  "down_head K (LTask m) = [header_encode (task_hdr K m)]"
| "down_head K LStop = [header_encode (bare MkStop)]"
| "down_head K l = []"

fun down_pay :: "('t, 'u, 'h) pmap_call \<Rightarrow> link \<Rightarrow> bytes list" where
  "down_pay K (LTask m) = [task_bytes K (original_indices m)]"
| "down_pay K (LPay m) = [task_bytes K (original_indices m)]"
| "down_pay K l = []"

definition by_tag :: "bytes list \<Rightarrow> bytes list \<Rightarrow> int \<Rightarrow> bytes list" where
  "by_tag heads pays t = (if t = HEADER_TAG then heads else if t = PAYLOAD_TAG then pays else [])"

fun worker_stop :: "('t, 'u, 'h) pmap_call \<Rightarrow> int \<Rightarrow> link \<Rightarrow> 'h worker_state \<Rightarrow> (('t, 'u, 'h) pmap_phase, 'u pmap_result) ctl proc" where
  "worker_stop K q (LPay m) s = paying K q s m"
| "worker_stop K q LDrain s = closed K q s"
| "worker_stop K q LGone s = closed K q s"
| "worker_stop K q l s = waiting K q s"

datatype 'u focus = FTurn root_at | FProbe nat | FAny root_at | FPay root_at int running_meta | FEnd "'u list"

fun root_stop :: "('t, 'u, 'h) pmap_call \<Rightarrow> 'u focus \<Rightarrow> ('t, 'u, 'h) root_state \<Rightarrow> (('t, 'u, 'h) pmap_phase, 'u pmap_result) ctl proc" where
  "root_stop K (FTurn at) s = PRet (Again (PhRoot at s))"
| "root_stop K (FProbe n) s = call_body K (cl_root K) (PhRoot (RServe n) s)"
| "root_stop K (FAny at) s = serving K at s"
| "root_stop K (FPay at q m) s = handling K at s q (reply_hdr K m)"
| "root_stop K (FEnd rs) s = pmap_finish (cl_root K) (cl_np K) (cl_root K) (rs, rs_key s, rs_error s)"

record ('t, 'u, 'h) call_state =
  y_focus :: "'u focus"
  y_root :: "('t, 'u, 'h) root_state"
  y_link :: "int \<Rightarrow> link"
  y_ws :: "int \<Rightarrow> 'h worker_state"

abbreviation y_sched :: "('t, 'u, 'h) call_state \<Rightarrow> ('t, 'u) coordinator" where
  "y_sched y \<equiv> rs_sched (y_root y)"

fun pm_hot :: "('t, 'u, 'h) pmap_phase \<Rightarrow> bool" where
  "pm_hot PhStart = True"
| "pm_hot (PhWorker s) = True"
| "pm_hot (PhRoot at s) = False"

definition shape :: "('t, 'u, 'h) pmap_call \<Rightarrow> ('t, 'u, 'h) call_state \<Rightarrow> (('t, 'u, 'h) pmap_phase, 'u pmap_result) view" where
  "shape K y = \<lparr>
     stops = \<lambda>r. if r = cl_root K then root_stop K (y_focus y) (y_root y)
       else if in_comm (cl_np K) r then worker_stop K r (y_link y r) (y_ws y r)
       else stop_of (call_body K) pm_hot r (PRet (Again PhStart)),
     way = \<lambda>(s, d, t). if is_worker K s \<and> d = cl_root K then by_tag (up_head K (y_link y s)) (up_pay K (y_link y s)) t
       else if s = cl_root K \<and> is_worker K d then by_tag (down_head K (y_link y d)) (down_pay K (y_link y d)) t else []\<rparr>"

section \<open>Steps\<close>

definition set_link :: "int \<Rightarrow> link \<Rightarrow> ('t, 'u, 'h) call_state \<Rightarrow> ('t, 'u, 'h) call_state" where
  "set_link q l y = y\<lparr>y_link := (y_link y)(q := l)\<rparr>"

definition root_to :: "'u focus \<Rightarrow> ('t, 'u, 'h) root_state \<Rightarrow> ('t, 'u, 'h) call_state \<Rightarrow> ('t, 'u, 'h) call_state" where
  "root_to F s y = y\<lparr>y_focus := F, y_root := s\<rparr>"

inductive call_step :: "('t, 'u, 'h) pmap_call \<Rightarrow> ('t, 'u, 'h) call_state \<Rightarrow> ('t, 'u, 'h) call_state \<Rightarrow> bool" for K y where
  take_task: "is_worker K q \<Longrightarrow> y_link y q = LTask m \<Longrightarrow> call_step K y (set_link q (LPay m) y)"
| run_task: "is_worker K q \<Longrightarrow> y_link y q = LPay m
    \<Longrightarrow> call_step K y (set_link q (LResult m) y\<lparr>y_ws := (y_ws y)(q := after_task K q (y_ws y q) m)\<rparr>)"
| take_stop: "is_worker K q \<Longrightarrow> y_link y q = LStop \<Longrightarrow> call_step K y (set_link q LDrain y)"
| solo: "y_focus y = FTurn RTop \<Longrightarrow> cl_np K = 1 \<Longrightarrow> after_root K (y_root y) = (True, s) \<Longrightarrow> call_step K y (root_to (FTurn RTop) s y)"
| solo_end: "y_focus y = FTurn RTop \<Longrightarrow> cl_np K = 1 \<Longrightarrow> after_root K (y_root y) = (False, s)
    \<Longrightarrow> root_finish (cl_env K) s = Ok (rs, rs_key s, rs_error s) \<Longrightarrow> call_step K y (root_to (FEnd rs) s y)"
| top_end: "y_focus y = FTurn RTop \<Longrightarrow> cl_np K \<noteq> 1 \<Longrightarrow> is_finished (y_sched y)
    \<Longrightarrow> root_finish (cl_env K) (y_root y) = Ok (rs, rs_key (y_root y), rs_error (y_root y)) \<Longrightarrow> call_step K y (root_to (FEnd rs) (y_root y) y)"
| top: "y_focus y = FTurn RTop \<Longrightarrow> cl_np K \<noteq> 1 \<Longrightarrow> \<not> is_finished (y_sched y) \<Longrightarrow> call_step K y (root_to (FTurn (RServe 0)) (y_root y) y)"
| look: "y_focus y = FTurn (RServe n) \<Longrightarrow> call_step K y (root_to (FProbe n) (y_root y) y)"
| hit: "y_focus y = FProbe n \<Longrightarrow> is_worker K q \<Longrightarrow> up_head K (y_link y q) \<noteq> [] \<Longrightarrow> call_step K y (root_to (FAny (RServe (Suc n))) (y_root y) y)"
| miss_end: "y_focus y = FProbe n \<Longrightarrow> is_finished (y_sched y) \<or> n \<noteq> 0 \<Longrightarrow> call_step K y (root_to (FTurn RTop) (y_root y) y)"
| miss_work: "y_focus y = FProbe 0 \<Longrightarrow> \<not> is_finished (y_sched y) \<Longrightarrow> after_root K (y_root y) = (mr, s) \<Longrightarrow> is_finished (rs_sched s)
    \<Longrightarrow> call_step K y (root_to (FTurn RTop) s y)"
| miss_wait: "y_focus y = FProbe 0 \<Longrightarrow> \<not> is_finished (y_sched y) \<Longrightarrow> after_root K (y_root y) = (mr, s) \<Longrightarrow> \<not> is_finished (rs_sched s)
    \<Longrightarrow> call_step K y (root_to (FAny RTop) s y)"
| ready_task: "y_focus y = FAny at \<Longrightarrow> is_worker K q \<Longrightarrow> y_link y q = LReady \<Longrightarrow> on_remote_ready (y_sched y) q = (c, Ok (Task b))
    \<Longrightarrow> call_step K y (root_to (FTurn at) (y_root y\<lparr>rs_sched := c\<rparr>) (set_link q (LTask (metadata b)) y))"
| ready_stop: "y_focus y = FAny at \<Longrightarrow> is_worker K q \<Longrightarrow> y_link y q = LReady \<Longrightarrow> on_remote_ready (y_sched y) q = (c, Ok Stop)
    \<Longrightarrow> call_step K y (root_to (FTurn at) (y_root y\<lparr>rs_sched := c\<rparr>) (set_link q LStop y))"
| take_result: "y_focus y = FAny at \<Longrightarrow> is_worker K q \<Longrightarrow> y_link y q = LResult m
    \<Longrightarrow> call_step K y (root_to (FPay at q m) (y_root y) (set_link q (LHalf m) y))"
| drained: "y_focus y = FAny at \<Longrightarrow> is_worker K q \<Longrightarrow> y_link y q = LDrain \<Longrightarrow> on_remote_drain (y_sched y) q = (c, Ok ())
    \<Longrightarrow> call_step K y (root_to (FTurn at) (y_root y\<lparr>rs_sched := c\<rparr>) (set_link q LGone y))"
| finish: "y_focus y = FPay at q m \<Longrightarrow> is_worker K q \<Longrightarrow> y_link y q = LHalf m \<Longrightarrow> batch_outcome K (original_indices m) = Ok vs
    \<Longrightarrow> on_remote_success (y_sched y) q (rm_batch_id m) (item_results vs) = (c, Ok cm)
    \<Longrightarrow> call_step K y (root_to (FTurn at) (y_root y\<lparr>rs_sched := c\<rparr>) (set_link q LReady y))"
| fault: "y_focus y = FPay at q m \<Longrightarrow> is_worker K q \<Longrightarrow> y_link y q = LHalf m \<Longrightarrow> batch_outcome K (original_indices m) = Err i
    \<Longrightarrow> on_remote_error (y_sched y) q (rm_batch_id m) = (c, Ok cm)
    \<Longrightarrow> call_step K y (root_to (FTurn at) (y_root y\<lparr>rs_sched := c\<rparr>) (set_link q LReady y))"

section \<open>What the states keep\<close>

definition lanes :: "('t, 'u, 'h) pmap_call \<Rightarrow> ('t, 'u, 'h) call_state \<Rightarrow> int \<Rightarrow> lane_state option" where
  "lanes K y q = (if is_worker K q then Some (lane_of (y_link y q)) else None)"

definition links_ok :: "('t, 'u, 'h) pmap_call \<Rightarrow> ('t, 'u, 'h) call_state \<Rightarrow> bool" where
  "links_ok K y \<longleftrightarrow> crew K (lanes K y) (y_sched y) \<and> root_lane (y_sched y) \<in> {LaneIdle, LaneStopped}
     \<and> (\<forall>q m. is_worker K q \<longrightarrow> link_meta (y_link y q) = Some m \<longrightarrow> is_batch K (original_indices m))"

fun focus_ok :: "('t, 'u, 'h) pmap_call \<Rightarrow> ('t, 'u, 'h) call_state \<Rightarrow> 'u focus \<Rightarrow> bool" where
  "focus_ok K y (FTurn RTop) \<longleftrightarrow> True"
| "focus_ok K y (FTurn (RServe n)) \<longleftrightarrow> cl_np K \<noteq> 1"
| "focus_ok K y (FProbe n) \<longleftrightarrow> cl_np K \<noteq> 1"
| "focus_ok K y (FAny at) \<longleftrightarrow> cl_np K \<noteq> 1 \<and> (\<exists>q. is_worker K q \<and> y_link y q \<noteq> LGone)"
| "focus_ok K y (FPay at q m) \<longleftrightarrow> cl_np K \<noteq> 1 \<and> is_worker K q \<and> y_link y q = LHalf m"
| "focus_ok K y (FEnd rs) \<longleftrightarrow> (\<forall>q. is_worker K q \<longrightarrow> y_link y q = LGone) \<and> is_finished (y_sched y)
     \<and> root_finish (cl_env K) (y_root y) = Ok (rs, rs_key (y_root y), rs_error (y_root y))"

definition halves_ok :: "('t, 'u, 'h) pmap_call \<Rightarrow> ('t, 'u, 'h) call_state \<Rightarrow> bool" where
  "halves_ok K y \<longleftrightarrow> (\<forall>q m. is_worker K q \<longrightarrow> y_link y q = LHalf m \<longrightarrow> (\<exists>at. y_focus y = FPay at q m))"

text \<open>Errors: \<open>n\<close> items have been handed out. A rank has no error, or that of one of these items. Every item handed
  out that fails is in a batch that has not been run, or a rank has the error of an earlier or the same item.\<close>

definition key_of :: "('t, 'u, 'h) pmap_call \<Rightarrow> ('t, 'u, 'h) call_state \<Rightarrow> int \<Rightarrow> int" where
  "key_of K y r = (if r = cl_root K then rs_key (y_root y) else ws_key (y_ws y r))"

definition err_of :: "('t, 'u, 'h) pmap_call \<Rightarrow> ('t, 'u, 'h) call_state \<Rightarrow> int \<Rightarrow> local_error option" where
  "err_of K y r = (if r = cl_root K then rs_error (y_root y) else ws_error (y_ws y r))"

fun unrun :: "link \<Rightarrow> running_meta option" where
  "unrun (LTask m) = Some m"
| "unrun (LPay m) = Some m"
| "unrun l = None"

fun unread :: "link \<Rightarrow> running_meta option" where
  "unread (LResult m) = Some m"
| "unread (LHalf m) = Some m"
| "unread l = None"

definition rank_error :: "('t, 'u, 'h) pmap_call \<Rightarrow> nat \<Rightarrow> int \<Rightarrow> int \<Rightarrow> local_error option \<Rightarrow> bool" where
  "rank_error K n r key e \<longleftrightarrow> key = NO_ERROR_KEY \<and> e = None
     \<or> (\<exists>j<n. fails K j \<and> key = failure_key K j r \<and> e = Some (PmUser, error_of K j))"

definition work_ok :: "('t, 'u, 'h) pmap_call \<Rightarrow> nat \<Rightarrow> ('t, 'u, 'h) call_state \<Rightarrow> bool" where
  "work_ok K n y \<longleftrightarrow> n \<le> length (cl_items K)
     \<and> (\<not> failed (y_sched y) \<longrightarrow> pending (y_sched y) = remainder K n)
     \<and> (\<forall>q m. is_worker K q \<longrightarrow> link_meta (y_link y q) = Some m \<longrightarrow> (\<forall>i\<in>set (original_indices m). i < n))
     \<and> (\<forall>q. is_worker K q \<longrightarrow> y_link y q \<in> {LStop, LDrain, LGone} \<longrightarrow> failed (y_sched y) \<or> pending (y_sched y) = [])"

definition errors_ok :: "('t, 'u, 'h) pmap_call \<Rightarrow> nat \<Rightarrow> ('t, 'u, 'h) call_state \<Rightarrow> bool" where
  "errors_ok K n y \<longleftrightarrow>
     (\<forall>r. in_comm (cl_np K) r \<longrightarrow> rank_error K n r (key_of K y r) (err_of K y r))
     \<and> (rs_key (y_root y) \<noteq> NO_ERROR_KEY \<longrightarrow> failed (y_sched y))
     \<and> (\<forall>q. is_worker K q \<longrightarrow> ws_key (y_ws y q) \<noteq> NO_ERROR_KEY \<longrightarrow> failed (y_sched y)
          \<or> (\<exists>m. unread (y_link y q) = Some m \<and> \<not> is_ok (batch_outcome K (original_indices m))))
     \<and> (\<forall>q m. is_worker K q \<longrightarrow> unread (y_link y q) = Some m \<longrightarrow> \<not> is_ok (batch_outcome K (original_indices m)) \<longrightarrow> ws_key (y_ws y q) \<noteq> NO_ERROR_KEY)
     \<and> (\<forall>q m. is_worker K q \<longrightarrow> unrun (y_link y q) = Some m \<longrightarrow> ws_key (y_ws y q) = NO_ERROR_KEY)
     \<and> (failed (y_sched y) \<longrightarrow> (\<exists>r. in_comm (cl_np K) r \<and> key_of K y r \<noteq> NO_ERROR_KEY))
     \<and> (\<forall>i<n. fails K i \<longrightarrow> (\<exists>q m. is_worker K q \<and> unrun (y_link y q) = Some m \<and> i \<in> set (original_indices m))
          \<or> (\<exists>r j. in_comm (cl_np K) r \<and> j \<le> i \<and> key_of K y r = failure_key K j r))"

section \<open>The programs take these steps\<close>

lemma tags [simp]: "HEADER_TAG \<noteq> PAYLOAD_TAG" "PAYLOAD_TAG \<noteq> HEADER_TAG"
  by (simp_all add: HEADER_TAG_def PAYLOAD_TAG_def)

interpretation pm: unrolled "call_body K" pm_hot for K :: "('t, 'u, 'h) pmap_call"
proof
  fix s :: "('t, 'u, 'h) pmap_phase" and r
  assume "pm_hot s"
  then show "turn_of pm_hot (rest (call_body K r s)) = None"
  proof (cases s)
    case PhStart
    then show ?thesis by (simp add: call_body_def pmap_program_def preflight_def Let_def)
  next
    case (PhWorker ws)
    then show ?thesis using call_body_ready [of K r ws] by auto
  qed simp
qed

abbreviation go :: "('t, 'u, 'h) pmap_call \<Rightarrow> int \<Rightarrow> (('t, 'u, 'h) pmap_phase, 'u pmap_result) ctl proc
    \<Rightarrow> (('t, 'u, 'h) pmap_phase, 'u pmap_result) view \<Rightarrow> (('t, 'u, 'h) pmap_phase, 'u pmap_result) view" where
  "go K \<equiv> emit (call_body K) pm_hot"

abbreviation dues :: "('t, 'u, 'h) pmap_call \<Rightarrow> int \<Rightarrow> (('t, 'u, 'h) pmap_phase, 'u pmap_result) ctl proc \<Rightarrow> (int \<times> int \<times> bytes) list" where
  "dues K \<equiv> due_sends (call_body K) pm_hot"

abbreviation stopping_at :: "('t, 'u, 'h) pmap_call \<Rightarrow> int \<Rightarrow> (('t, 'u, 'h) pmap_phase, 'u pmap_result) ctl proc
    \<Rightarrow> (('t, 'u, 'h) pmap_phase, 'u pmap_result) ctl proc" where
  "stopping_at K \<equiv> stop_of (call_body K) pm_hot"

lemma go_worker:
  assumes "is_worker K q" "stopping_at K q p = worker_stop K q l s"
    and "\<And>d t. msgs d t (dues K q p) = (if d = cl_root K then by_tag hs ps t else [])"
    and "up_head K l = up_head K (y_link y q) @ hs" "up_pay K l = up_pay K (y_link y q) @ ps"
    and "by_tag (down_head K l) (down_pay K l)
      = (by_tag (down_head K (y_link y q)) (down_pay K (y_link y q)))(t0 := tl (by_tag (down_head K (y_link y q)) (down_pay K (y_link y q)) t0))"
  shows "go K q p (taken (cl_root K, q, t0) (shape K y)) = shape K (set_link q l y\<lparr>y_ws := (y_ws y)(q := s)\<rparr>)"
proof -
  have up: "by_tag (up_head K l) (up_pay K l) t = by_tag (up_head K (y_link y q)) (up_pay K (y_link y q)) t @ by_tag hs ps t" for t
    using assms(4,5) by (simp add: by_tag_def)
  have down: "by_tag (down_head K l) (down_pay K l) t = (if t = t0 then tl (by_tag (down_head K (y_link y q)) (down_pay K (y_link y q)) t0)
      else by_tag (down_head K (y_link y q)) (down_pay K (y_link y q)) t)" for t
    using fun_cong [OF assms(6), of t] by simp
  show ?thesis
    using assms(1-3) by (auto simp: shape_def emit_def taken_def set_link_def fun_eq_iff is_worker_def up down)
qed

lemma go_root:
  assumes "stopping_at K (cl_root K) p = root_stop K F s" "dues K (cl_root K) p = []"
  shows "go K (cl_root K) p (shape K y) = shape K (root_to F s y)"
  using assms by (auto simp: shape_def emit_def root_to_def fun_eq_iff is_worker_def)

lemma go_root_link:
  assumes "is_worker K q" "stopping_at K (cl_root K) p = root_stop K F s" "worker_stop K q l (y_ws y q) = worker_stop K q (y_link y q) (y_ws y q)"
    and "\<And>d t. msgs d t (dues K (cl_root K) p) = (if d = q then by_tag hs ps t else [])"
    and "down_head K l = down_head K (y_link y q) @ hs" "down_pay K l = down_pay K (y_link y q) @ ps"
    and "by_tag (up_head K l) (up_pay K l)
      = (by_tag (up_head K (y_link y q)) (up_pay K (y_link y q)))(t0 := tl (by_tag (up_head K (y_link y q)) (up_pay K (y_link y q)) t0))"
  shows "go K (cl_root K) p (taken (q, cl_root K, t0) (shape K y)) = shape K (root_to F s (set_link q l y))"
proof -
  have down: "by_tag (down_head K l) (down_pay K l) t = by_tag (down_head K (y_link y q)) (down_pay K (y_link y q)) t @ by_tag hs ps t" for t
    using assms(5,6) by (simp add: by_tag_def)
  have up: "by_tag (up_head K l) (up_pay K l) t = (if t = t0 then tl (by_tag (up_head K (y_link y q)) (up_pay K (y_link y q)) t0)
      else by_tag (up_head K (y_link y q)) (up_pay K (y_link y q)) t)" for t
    using fun_cong [OF assms(7), of t] by simp
  show ?thesis
    using assms(1-4) by (auto simp: shape_def emit_def taken_def set_link_def root_to_def fun_eq_iff is_worker_def up down)
qed

lemma by_tag_upd: "(by_tag hs ps)(HEADER_TAG := hs') = by_tag hs' ps" "(by_tag hs ps)(PAYLOAD_TAG := ps') = by_tag hs ps'"
  "by_tag hs ps HEADER_TAG = hs" "by_tag hs ps PAYLOAD_TAG = ps" "by_tag [] [] t = []"
  by (auto simp: by_tag_def fun_eq_iff)

lemma worker_again:
  assumes "call_ok K" "in_comm (cl_np K) q"
  shows "dues K q (PRet (Again (PhWorker s))) = [(cl_root K, HEADER_TAG, header_encode (bare MkReady))]"
  "stopping_at K q (PRet (Again (PhWorker s))) = waiting K q s"
  by (simp_all add: due_sends_def stop_of_def call_body_worker [OF assms] waiting_def)

lemma root_again [simp]:
  "dues K q (PRet (Again (PhRoot at s))) = []" "stopping_at K q (PRet (Again (PhRoot at s))) = PRet (Again (PhRoot at s))"
  by (simp_all add: due_sends_def stop_of_def)

lemma finish_still [simp]:
  "dues K q (pmap_finish r np root out) = []" "stopping_at K q (pmap_finish r np root out) = pmap_finish r np root out"
  by (cases out; simp add: pmap_finish_def convergence_def)+

lemma paying_still:
  assumes "call_ok K" "in_comm (cl_np K) q" "is_batch K (original_indices m)"
  shows "dues K q (paying K q s m) = []" "stopping_at K q (paying K q s m) = paying K q s m"
  using paying_recv [OF assms, of s] by auto

definition good :: "('t, 'u, 'h) pmap_call \<Rightarrow> nat \<Rightarrow> ('t, 'u, 'h) call_state \<Rightarrow> bool" where
  "good K n y \<longleftrightarrow> call_ok K \<and> links_ok K y \<and> focus_ok K y (y_focus y) \<and> halves_ok K y \<and> work_ok K n y \<and> errors_ok K n y"

lemma goodD:
  assumes "good K n y"
  shows "call_ok K" "crew K (lanes K y) (y_sched y)" "root_lane (y_sched y) \<in> {LaneIdle, LaneStopped}" "focus_ok K y (y_focus y)"
    "is_worker K q \<Longrightarrow> link_meta (y_link y q) = Some m \<Longrightarrow> is_batch K (original_indices m)"
    "is_worker K q \<Longrightarrow> y_link y q = LHalf m \<Longrightarrow> \<exists>at. y_focus y = FPay at q m"
    "work_ok K n y" "errors_ok K n y"
  using assms by (auto simp: good_def links_ok_def halves_ok_def)

lemma finished_iff:
  assumes "crew K L c"
  shows "is_finished c \<longleftrightarrow> root_lane c = LaneStopped \<and> (\<forall>q s. L q = Some s \<longrightarrow> s = LaneDrained)"
proof
  have c: "lanes_inv c" "hm_get (remotes c) = L" using assms by (auto simp: crew_def sched_inv_def)
  show "root_lane c = LaneStopped \<and> (\<forall>q s. L q = Some s \<longrightarrow> s = LaneDrained) \<Longrightarrow> is_finished c"
    using unfinished_lane [OF c(1)] c(2) by blast
  assume fin: "is_finished c"
  have "s = LaneDrained" if "L q = Some s" for q s
  proof -
    have "s \<in> set (hm_values (remotes c))" using hm_get_mem [of "remotes c" q s] that c(2) by simp
    then have "lane_kind s = KDrained" using fin by (auto simp: is_finished_def list_all_iff)
    then show ?thesis by (cases s) auto
  qed
  moreover have "root_lane c = LaneStopped" using fin by (simp add: is_finished_def)
  ultimately show "root_lane c = LaneStopped \<and> (\<forall>q s. L q = Some s \<longrightarrow> s = LaneDrained)" by blast
qed

lemma root_finish_ok:
  assumes "crew K L (rs_sched s)" "is_finished (rs_sched s)"
  shows "root_finish E s = Ok (if failed (rs_sched s) then [] else map (value_of K) (cl_items K), rs_key s, rs_error s)"
  using into_results_values [of "cl_items K" "rs_sched s" "value_of K"] assms by (simp add: root_finish_def crew_def)

text \<open>The root's own work: there is none, a batch of it goes well, or one fails.\<close>

lemma root_work:
  assumes "good K n y"
  obtains (none) c where "after_root K (y_root y) = (False, y_root y\<lparr>rs_sched := c\<rparr>)" "crew K (lanes K y) c" "failed c = failed (y_sched y)"
      "pending c = pending (y_sched y)" "root_lane c = LaneStopped" "work_left c < work_left (y_sched y) \<or> c = y_sched y" "failed c \<or> pending c = []"
  | (ok) c h n' where "after_root K (y_root y) = (True, y_root y\<lparr>rs_sched := c, rs_fn := h\<rparr>)" "crew K (lanes K y) c" "\<not> failed c" "\<not> failed (y_sched y)"
      "pending c = remainder K n'" "root_lane c = LaneIdle" "work_left c < work_left (y_sched y)" "pending (y_sched y) \<noteq> []"
      "n < n'" "n' \<le> length (cl_items K)" "is_batch K [n..<n']" "\<And>i. i \<in> {n..<n'} \<Longrightarrow> \<not> fails K i"
  | (err) c h n' i where "after_root K (y_root y) = (True, y_root y\<lparr>rs_sched := c, rs_key := min (rs_key (y_root y)) (failure_key K i (cl_root K)),
        rs_error := Some (PmUser, error_of K i), rs_fn := h\<rparr>)" "crew K (lanes K y) c" "failed c" "\<not> failed (y_sched y)"
      "pending c = []" "root_lane c = LaneIdle" "work_left c < work_left (y_sched y)" "pending (y_sched y) \<noteq> []"
      "n < n'" "n' \<le> length (cl_items K)" "is_batch K [n..<n']" "batch_outcome K [n..<n'] = Err i"
proof -
  note g = goodD [OF assms]
  have p: "\<not> failed (y_sched y) \<Longrightarrow> pending (y_sched y) = remainder K n" using g(7) by (simp add: work_ok_def)
  have lane: "root_lane (y_sched y) = LaneIdle \<or> root_lane (y_sched y) = LaneStopped" using g(3) by simp
  show ?thesis
  proof (cases "failed (y_sched y) \<or> pending (y_sched y) = []")
    case True
    obtain c where "next_root_batch (y_sched y) = (c, Ok None)" "crew K (lanes K y) c" "failed c = failed (y_sched y)"
      "pending c = pending (y_sched y)" "root_lane c = LaneStopped" "work_left c < work_left (y_sched y) \<or> c = y_sched y"
      using crew_root_stop [OF g(2) lane True] by metis
    then show ?thesis using True none [of c] by (simp add: after_root_def)
  next
    case False
    then have nf: "\<not> failed (y_sched y)" and n: "n < length (cl_items K)" using p remainder_Nil by (auto simp: not_le [symmetric])
    have idle: "root_lane (y_sched y) = LaneIdle"
      using lane False sched_invD(4) [of "cl_items K" "y_sched y"] g(2) by (auto simp: crew_def rest_inv_def)
    from g(1,2) idle nf p [OF nf] n
    obtain c1 b n' where b: "next_root_batch (y_sched y) = (c1, Ok (Some b))" "is_batch K [n..<n']" "indexed b = task_list K [n..<n']"
      "original_indices (metadata b) = [n..<n']" "n < n'" "n' \<le> length (cl_items K)" "rm_batch_id (metadata b) = b_id b" "crew K (lanes K y) c1"
      "\<not> failed c1" "pending c1 = remainder K n'" "root_lane c1 = LaneRunning (metadata b) None False" "work_left c1 < work_left (y_sched y)"
      by (rule crew_root_batch)
    show ?thesis
    proof (cases "batch_outcome K [n..<n']")
      case (Inl i)
      obtain c cm where "on_root_error c1 (b_id b) = (c, Ok cm)" "crew K (lanes K y) c" "failed c" "pending c = []"
        "root_lane c = LaneIdle" "work_left c < work_left c1"
        using crew_root_error [OF b(8,11)] b(7) by metis
      then show ?thesis
        using err [OF _ _ _ nf _ _ _ _ b(5,6,2) Inl] False b(1,4,12) Inl by (simp add: after_root_def Let_def)
    next
      case (Inr vs)
      obtain c cm where "on_root_success c1 (b_id b) (item_results vs) = (c, Ok cm)" "crew K (lanes K y) c" "failed c = failed c1" "pending c = pending c1"
        "root_lane c = LaneIdle" "work_left c < work_left c1"
        using crew_root_done [OF b(8,11), of vs] Inr b(4,7) by metis
      moreover have "\<And>i. i \<in> {n..<n'} \<Longrightarrow> \<not> fails K i" using Inr unfolding batch_outcome_none by simp
      ultimately show ?thesis
        using ok [OF _ _ _ nf _ _ _ _ b(5,6,2)] False b(1,4,9,10,12) Inr by (simp add: after_root_def Let_def)
    qed
  qed
qed

lemma root_executes:
  assumes "good K n y"
  shows "execute_root_batch (cl_env K) (cl_fn K) (cl_root K) (cl_np K) (y_root y) = PRet (Ok (after_root K (y_root y)))"
proof -
  note g = goodD [OF assms]
  have p: "\<not> failed (y_sched y) \<Longrightarrow> pending (y_sched y) = remainder K n" using g(7) by (simp add: work_ok_def)
  have lane: "root_lane (y_sched y) = LaneIdle \<or> root_lane (y_sched y) = LaneStopped" using g(3) by simp
  show ?thesis
  proof (cases "failed (y_sched y) \<or> pending (y_sched y) = []")
    case True
    then obtain c where "next_root_batch (y_sched y) = (c, Ok None)" using crew_root_stop [OF g(2) lane] by metis
    then show ?thesis by (simp add: execute_root_batch_none after_root_def)
  next
    case False
    then have nf: "\<not> failed (y_sched y)" and n: "n < length (cl_items K)" using p remainder_Nil by (auto simp: not_le [symmetric])
    have idle: "root_lane (y_sched y) = LaneIdle"
      using lane False sched_invD(4) [of "cl_items K" "y_sched y"] g(2) by (auto simp: crew_def rest_inv_def)
    from g(1,2) idle nf p [OF nf] n show ?thesis
      by (rule crew_root_batch) (rule execute_root_batch_some [OF g(1)], assumption+)
  qed
qed

lemma set_link_same: "set_link q l y\<lparr>y_ws := (y_ws y)(q := y_ws y q)\<rparr> = set_link q l y"
  by (cases y) (simp add: set_link_def)

lemma shape_way_down: "is_worker K q \<Longrightarrow> way (shape K y) (cl_root K, q, t) = by_tag (down_head K (y_link y q)) (down_pay K (y_link y q)) t"
  by (simp add: shape_def is_worker_def)

lemma shape_way_up: "is_worker K q \<Longrightarrow> way (shape K y) (q, cl_root K, t) = by_tag (up_head K (y_link y q)) (up_pay K (y_link y q)) t"
  by (simp add: shape_def is_worker_def)

lemma shape_way_other: "way (shape K y) (s, cl_root K, t) \<noteq> [] \<Longrightarrow> is_worker K s"
  by (auto simp: shape_def is_worker_def split: if_splits)

lemma shape_stop_root: "stops (shape K y) (cl_root K) = root_stop K (y_focus y) (y_root y)"
  by (simp add: shape_def)

lemma shape_stop_worker: "is_worker K q \<Longrightarrow> stops (shape K y) q = worker_stop K q (y_link y q) (y_ws y q)"
  by (simp add: shape_def is_worker_def)

lemma simulate_worker:
  assumes g: "good K n y" and q: "is_worker K q" and p: "stops (shape K y) q = PRecv s t k" and w: "way (shape K y) (s, q, t) = bs # bss"
  shows "\<exists>y'. call_step K y y' \<and> go K q (k bs) (taken (s, q, t) (shape K y)) = shape K y'"
proof -
  note K = goodD(1) [OF g]
  have comm: "in_comm (cl_np K) q" using q by (simp add: is_worker_def)
  have stop: "worker_stop K q (y_link y q) (y_ws y q) = PRecv s t k" using p shape_stop_worker [OF q] by metis
  show ?thesis
  proof (cases "y_link y q")
    case (LTask m)
    then have m: "is_batch K (original_indices m)" using goodD(5) [OF g q] by simp
    from waiting_recv [OF K, of q "y_ws y q" m] m stop LTask
    have e: "s = cl_root K" "t = HEADER_TAG" "k (header_encode (task_hdr K m)) = paying K q (y_ws y q) m" by auto
    have "bs = header_encode (task_hdr K m)" using w LTask shape_way_down [OF q] unfolding e(1,2) by (simp add: by_tag_upd)
    then have "go K q (k bs) (taken (s, q, t) (shape K y)) = shape K (set_link q (LPay m) y\<lparr>y_ws := (y_ws y)(q := y_ws y q)\<rparr>)"
      unfolding e(1,2) using e(3) paying_still [OF K comm m] LTask
      by (intro go_worker [OF q, where hs = "[]" and ps = "[]"]) (simp_all add: by_tag_upd)
    then show ?thesis using call_step.take_task [OF q LTask] unfolding set_link_same by blast
  next
    case LStop
    from waiting_recv [OF K, of q "y_ws y q"] stop LStop
    have e: "s = cl_root K" "t = HEADER_TAG" "k (header_encode (bare MkStop)) = PSend (cl_root K) HEADER_TAG (header_encode (bare MkDrain)) (closed K q (y_ws y q))" by auto
    have "bs = header_encode (bare MkStop)" using w LStop shape_way_down [OF q] unfolding e(1,2) by (simp add: by_tag_upd)
    then have "go K q (k bs) (taken (s, q, t) (shape K y)) = shape K (set_link q LDrain y\<lparr>y_ws := (y_ws y)(q := y_ws y q)\<rparr>)"
      unfolding e(1,2) using e(3) LStop
      by (intro go_worker [OF q, where hs = "[header_encode (bare MkDrain)]" and ps = "[]"]) (simp_all add: by_tag_upd closed_def, auto simp: by_tag_def)
    then show ?thesis using call_step.take_stop [OF q LStop] unfolding set_link_same by blast
  next
    case (LPay m)
    then have m: "is_batch K (original_indices m)" using goodD(5) [OF g q] by simp
    from paying_recv [OF K comm m, of "y_ws y q"] stop LPay
    have e: "s = cl_root K" "t = PAYLOAD_TAG" "k (task_bytes K (original_indices m)) = PSend (cl_root K) HEADER_TAG (header_encode (reply_hdr K m))
        (PSend (cl_root K) PAYLOAD_TAG (reply_bytes K (original_indices m)) (PRet (Again (PhWorker (after_task K q (y_ws y q) m)))))" by auto
    have "bs = task_bytes K (original_indices m)" using w LPay shape_way_down [OF q] unfolding e(1,2) by (simp add: by_tag_upd)
    then have "go K q (k bs) (taken (s, q, t) (shape K y)) = shape K (set_link q (LResult m) y\<lparr>y_ws := (y_ws y)(q := after_task K q (y_ws y q) m)\<rparr>)"
      unfolding e(1,2) using e(3) LPay worker_again [OF K comm]
      by (intro go_worker [OF q, where hs = "[header_encode (reply_hdr K m), header_encode (bare MkReady)]" and ps = "[reply_bytes K (original_indices m)]"])
        (simp_all add: by_tag_upd, auto simp: by_tag_def)
    then show ?thesis using call_step.run_task [OF q LPay] by blast
  qed (use stop w shape_way_down [OF q, of y] waiting_recv [OF K, of q "y_ws y q"] in \<open>auto simp: by_tag_upd closed_def pmap_finish_def convergence_def split: prod.splits\<close>)
qed

lemma probe_tree:
  assumes "call_ok K"
  shows "\<exists>l. call_body K (cl_root K) (PhRoot (RServe k) s) = PProbe HEADER_TAG l
    \<and> (\<forall>q. l (Some q) = serving K (RServe (Suc k)) s)
    \<and> l None = (if is_finished (rs_sched s) \<or> k \<noteq> 0 then PRet (Again (PhRoot RTop s))
         else pbind (ptry (execute_root_batch (cl_env K) (cl_fn K) (cl_root K) (cl_np K) s) (\<lambda>(_, s1).
            if is_finished (rs_sched s1) then PRet (Ok (Again (RTop, s1)))
            else ptry (serve_one (cl_env K) (length (cl_items K)) (cl_root K) (cl_np K) s1) (\<lambda>s2. PRet (Ok (Again (RTop, s2)))))) (root_done K))"
  by (simp add: call_body_root [OF assms] root_turn_def serving_def root_done_def)

lemma quiescent_end:
  assumes "crew K L c" "is_finished c"
  shows "is_quiescent c"
  using assms sched_invD(4) [of "cl_items K" c] by (simp add: is_finished_def is_quiescent_def crew_def rest_inv_def)

lemma single_rank:
  assumes "call_ok K" "cl_np K = 1"
  shows "\<not> is_worker K q"
  using call_okD(1) [OF assms(1)] assms(2) by (auto simp: is_worker_def in_comm_def)

lemma simulate_turn:
  assumes g: "good K n y" and F: "y_focus y = FTurn at"
  shows "\<exists>y'. call_step K y y' \<and> go K (cl_root K) (call_body K (cl_root K) (PhRoot at (y_root y))) (shape K y) = shape K y'"
proof (cases at)
  case (RServe k)
  obtain l where "call_body K (cl_root K) (PhRoot (RServe k) (y_root y)) = PProbe HEADER_TAG l" using probe_tree [OF goodD(1) [OF g]] by blast
  then have "go K (cl_root K) (call_body K (cl_root K) (PhRoot at (y_root y))) (shape K y) = shape K (root_to (FProbe k) (y_root y) y)"
    unfolding RServe by (intro go_root) simp_all
  then show ?thesis using call_step.look [OF F [unfolded RServe]] by blast
next
  case RTop
  note K = goodD(1) [OF g]
  have turn: "call_body K (cl_root K) (PhRoot at (y_root y)) =
      pbind (root_turn (cl_env K) (cl_fn K) (length (cl_items K)) (cl_root K) (cl_np K) RTop (y_root y)) (root_done K)"
    unfolding RTop by (rule call_body_root [OF K])
  show ?thesis
  proof (cases "cl_np K = 1")
    case True
    obtain mr s where a: "after_root K (y_root y) = (mr, s)" by fastforce
    have ex: "execute_root_batch (cl_env K) (cl_fn K) (cl_root K) 1 (y_root y) = PRet (Ok (mr, s))"
      using root_executes [OF g] a True by simp
    show ?thesis
    proof (cases mr)
      case mr: True
      have "go K (cl_root K) (call_body K (cl_root K) (PhRoot at (y_root y))) (shape K y) = shape K (root_to (FTurn RTop) s y)"
        unfolding turn using ex True mr by (intro go_root) (simp_all add: root_turn_def root_done_def)
      then show ?thesis using call_step.solo [OF F [unfolded RTop] True, of s] a mr by auto
    next
      case mr: False
      obtain c where c: "s = y_root y\<lparr>rs_sched := c\<rparr>" "crew K (lanes K y) c" "root_lane c = LaneStopped"
        by (rule root_work [OF g]) (use a mr in auto)
      have "is_finished c" using finished_iff [OF c(2)] c(3) single_rank [OF K True] by (simp add: lanes_def)
      then have rf: "root_finish E s = Ok (if failed c then [] else map (value_of K) (cl_items K), rs_key s, rs_error s)" for E :: "('a, 'b) pmap_env"
        using root_finish_ok [of K "lanes K y" s E] c by simp
      have "go K (cl_root K) (call_body K (cl_root K) (PhRoot at (y_root y))) (shape K y)
          = shape K (root_to (FEnd (if failed c then [] else map (value_of K) (cl_items K))) s y)"
        unfolding turn using ex True mr rf by (intro go_root) (simp_all add: root_turn_def root_done_def)
      then show ?thesis using call_step.solo_end [OF F [unfolded RTop] True _ rf] a mr by auto
    qed
  next
    case np: False
    show ?thesis
    proof (cases "is_finished (y_sched y)")
      case True
      note rf = root_finish_ok [OF goodD(2) [OF g] True]
      have "go K (cl_root K) (call_body K (cl_root K) (PhRoot at (y_root y))) (shape K y)
          = shape K (root_to (FEnd (if failed (y_sched y) then [] else map (value_of K) (cl_items K))) (y_root y) y)"
        unfolding turn using np True rf quiescent_end [OF goodD(2) [OF g] True] by (intro go_root) (simp_all add: root_turn_def root_done_def)
      then show ?thesis using call_step.top_end [OF F [unfolded RTop] np True rf] by blast
    next
      case False
      have "go K (cl_root K) (call_body K (cl_root K) (PhRoot at (y_root y))) (shape K y) = shape K (root_to (FTurn (RServe 0)) (y_root y) y)"
        unfolding turn using np False by (intro go_root) (simp_all add: root_turn_def root_done_def)
      then show ?thesis using call_step.top [OF F [unfolded RTop] np False] by blast
    qed
  qed
qed

lemma simulate_hit:
  assumes g: "good K n y" and F: "y_focus y = FProbe k" and p: "root_stop K (FProbe k) (y_root y) = PProbe t l"
    and q: "is_worker K q" "way (shape K y) (q, cl_root K, t) \<noteq> []"
  shows "\<exists>y'. call_step K y y' \<and> go K (cl_root K) (l (Some q)) (shape K y) = shape K y'"
proof -
  from probe_tree [OF goodD(1) [OF g], of k "y_root y"] p have e: "t = HEADER_TAG" "l (Some q) = serving K (RServe (Suc k)) (y_root y)" by auto
  obtain j where "serving K (RServe (Suc k)) (y_root y) = PRecvAny HEADER_TAG j" using serving_recv by blast
  then have "go K (cl_root K) (l (Some q)) (shape K y) = shape K (root_to (FAny (RServe (Suc k))) (y_root y) y)"
    unfolding e(2) by (intro go_root) simp_all
  moreover have "up_head K (y_link y q) \<noteq> []" using q(2) shape_way_up [OF q(1)] e(1) by (simp add: by_tag_upd)
  ultimately show ?thesis using call_step.hit [OF F q(1)] by blast
qed

lemma simulate_miss:
  assumes g: "good K n y" and F: "y_focus y = FProbe k" and p: "root_stop K (FProbe k) (y_root y) = PProbe t l"
  shows "\<exists>y'. call_step K y y' \<and> go K (cl_root K) (l None) (shape K y) = shape K y'"
proof -
  obtain mr s where a: "after_root K (y_root y) = (mr, s)" by fastforce
  have l: "l None = (if is_finished (y_sched y) \<or> k \<noteq> 0 then PRet (Again (PhRoot RTop (y_root y)))
      else if is_finished (rs_sched s) then PRet (Again (PhRoot RTop s)) else serving K RTop s)"
    using probe_tree [OF goodD(1) [OF g], of k "y_root y"] p root_executes [OF g] a by (auto simp: root_done_def serving_def)
  consider "is_finished (y_sched y) \<or> k \<noteq> 0" | "\<not> is_finished (y_sched y)" "k = 0" "is_finished (rs_sched s)"
    | "\<not> is_finished (y_sched y)" "k = 0" "\<not> is_finished (rs_sched s)" by blast
  then show ?thesis
  proof cases
    case 1
    then have "go K (cl_root K) (l None) (shape K y) = shape K (root_to (FTurn RTop) (y_root y) y)"
      unfolding l by (intro go_root) simp_all
    then show ?thesis using call_step.miss_end [OF F 1] by blast
  next
    case 2
    then have "go K (cl_root K) (l None) (shape K y) = shape K (root_to (FTurn RTop) s y)"
      unfolding l by (intro go_root) simp_all
    then show ?thesis using call_step.miss_work [OF F [unfolded 2(2)] 2(1) a 2(3)] by blast
  next
    case 3
    obtain j where "serving K RTop s = PRecvAny HEADER_TAG j" using serving_recv by blast
    then have "go K (cl_root K) (l None) (shape K y) = shape K (root_to (FAny RTop) s y)"
      unfolding l using 3 by (intro go_root) simp_all
    then show ?thesis using call_step.miss_wait [OF F [unfolded 3(2)] 3(1) a 3(3)] by blast
  qed
qed

lemma simulate_any:
  assumes g: "good K n y" and F: "y_focus y = FAny at" and p: "root_stop K (FAny at) (y_root y) = PRecvAny t j"
    and q: "is_worker K q" and w: "way (shape K y) (q, cl_root K, t) = bs # bss"
  shows "\<exists>y'. call_step K y y' \<and> go K (cl_root K) (j (q, bs)) (taken (q, cl_root K, t) (shape K y)) = shape K y'"
proof -
  note K = goodD(1) [OF g] and crew = goodD(2) [OF g]
  from serving_recv [of K at "y_root y"] p
  have e: "t = HEADER_TAG" "\<And>h. header_decode (header_encode h) = Ok h \<Longrightarrow> j (q, header_encode h) = handling K at (y_root y) q h" by auto
  have up: "up_head K (y_link y q) = bs # bss" using w shape_way_up [OF q] e(1) by (simp add: by_tag_upd)
  show ?thesis
  proof (cases "y_link y q")
    case LReady
    have idle: "lanes K y q = Some LaneIdle" using LReady q by (simp add: lanes_def)
    have bs: "bs = header_encode (bare MkReady)" using up LReady by simp
    have j: "j (q, bs) = handling K at (y_root y) q (bare MkReady)" unfolding bs by (rule e(2)) simp
    show ?thesis
    proof (cases "failed (y_sched y) \<or> pending (y_sched y) = []")
      case True
      obtain c where c: "on_remote_ready (y_sched y) q = (c, Ok Stop)" using crew_ready_stop [OF crew idle True] by metis
      have "go K (cl_root K) (j (q, bs)) (taken (q, cl_root K, t) (shape K y)) = shape K (root_to (FTurn at) (y_root y\<lparr>rs_sched := c\<rparr>) (set_link q LStop y))"
        unfolding j handling_stop [OF c] e(1) using LReady
        by (intro go_root_link [OF q, where hs = "[header_encode (bare MkStop)]" and ps = "[]"]) (simp_all add: by_tag_upd, auto simp: by_tag_def)
      then show ?thesis using call_step.ready_stop [OF F q LReady c] by blast
    next
      case False
      then have nf: "\<not> failed (y_sched y)" by simp
      have p: "pending (y_sched y) = remainder K n" using goodD(7) [OF g] nf by (simp add: work_ok_def)
      with False have n: "n < length (cl_items K)" using remainder_Nil by (auto simp: not_le [symmetric])
      from K crew idle nf p n obtain c b n' where b: "on_remote_ready (y_sched y) q = (c, Ok (Task b))" "is_batch K [n..<n']" "indexed b = task_list K [n..<n']"
          "original_indices (metadata b) = [n..<n']" "length (b_items b) = length [n..<n']"
        by (rule crew_ready_task)
      have "go K (cl_root K) (j (q, bs)) (taken (q, cl_root K, t) (shape K y))
          = shape K (root_to (FTurn at) (y_root y\<lparr>rs_sched := c\<rparr>) (set_link q (LTask (metadata b)) y))"
        unfolding j handling_task [OF K b(2-5,1)] e(1) using LReady b(4)
        by (intro go_root_link [OF q, where hs = "[header_encode (task_hdr K (metadata b))]" and ps = "[task_bytes K [n..<n']]"])
          (simp_all add: by_tag_upd, auto simp: by_tag_def)
      then show ?thesis using call_step.ready_task [OF F q LReady b(1)] by blast
    qed
  next
    case (LResult m)
    then have m: "is_batch K (original_indices m)" using goodD(5) [OF g q] by simp
    have bs: "bs = header_encode (reply_hdr K m)" using up LResult by simp
    have j: "j (q, bs) = handling K at (y_root y) q (reply_hdr K m)" unfolding bs by (rule e(2)) (rule header_decode_task(2) [OF K m])
    obtain k where "handling K at (y_root y) q (reply_hdr K m) = PRecv q PAYLOAD_TAG k" using handling_reply [OF K m] by blast
    then have "go K (cl_root K) (j (q, bs)) (taken (q, cl_root K, t) (shape K y)) = shape K (root_to (FPay at q m) (y_root y) (set_link q (LHalf m) y))"
      unfolding j e(1) using LResult by (intro go_root_link [OF q, where hs = "[]" and ps = "[]"]) (simp_all add: by_tag_upd)
    then show ?thesis using call_step.take_result [OF F q LResult] by blast
  next
    case LDrain
    have bs: "bs = header_encode (bare MkDrain)" using up LDrain by simp
    have j: "j (q, bs) = handling K at (y_root y) q (bare MkDrain)" unfolding bs by (rule e(2)) simp
    obtain c where c: "on_remote_drain (y_sched y) q = (c, Ok ())" using crew_drain [OF crew, of q] LDrain q by (auto simp: lanes_def)
    have "go K (cl_root K) (j (q, bs)) (taken (q, cl_root K, t) (shape K y)) = shape K (root_to (FTurn at) (y_root y\<lparr>rs_sched := c\<rparr>) (set_link q LGone y))"
      unfolding j handling_drain [OF c] e(1) using LDrain by (intro go_root_link [OF q, where hs = "[]" and ps = "[]"]) (simp_all add: by_tag_upd)
    then show ?thesis using call_step.drained [OF F q LDrain c] by blast
  next
    case (LHalf m)
    then show ?thesis using goodD(6) [OF g q LHalf] F by simp
  qed (use up in simp_all)
qed

lemma simulate_pay:
  assumes g: "good K n y" and F: "y_focus y = FPay at q m" and p: "root_stop K (FPay at q m) (y_root y) = PRecv s t k"
    and w: "way (shape K y) (s, cl_root K, t) = bs # bss"
  shows "\<exists>y'. call_step K y y' \<and> go K (cl_root K) (k bs) (taken (s, cl_root K, t) (shape K y)) = shape K y'"
proof -
  note K = goodD(1) [OF g] and crew = goodD(2) [OF g]
  have q: "is_worker K q" and l: "y_link y q = LHalf m" using goodD(4) [OF g] F by auto
  have m: "is_batch K (original_indices m)" using goodD(5) [OF g q] l by simp
  have lane: "lanes K y q = Some (LaneRunning m None False)" using q l by (simp add: lanes_def)
  from handling_reply [OF K m, of at "y_root y" q] p
  have e: "s = q" "t = PAYLOAD_TAG"
    "\<And>vs c cm. batch_outcome K (original_indices m) = Ok vs \<Longrightarrow> on_remote_success (y_sched y) q (rm_batch_id m) (item_results vs) = (c, Ok cm)
        \<Longrightarrow> k (reply_bytes K (original_indices m)) = PRet (Again (PhRoot at (y_root y\<lparr>rs_sched := c\<rparr>)))"
    "\<And>i c cm. batch_outcome K (original_indices m) = Err i \<Longrightarrow> on_remote_error (y_sched y) q (rm_batch_id m) = (c, Ok cm)
        \<Longrightarrow> k (reply_bytes K (original_indices m)) = PRet (Again (PhRoot at (y_root y\<lparr>rs_sched := c\<rparr>)))" by auto
  have bs: "bs = reply_bytes K (original_indices m)" using w shape_way_up [OF q] l unfolding e(1,2) by (simp add: by_tag_upd)
  have step: "go K (cl_root K) (PRet (Again (PhRoot at r))) (taken (q, cl_root K, PAYLOAD_TAG) (shape K y)) = shape K (root_to (FTurn at) r (set_link q LReady y))" for r
    using l by (intro go_root_link [OF q, where hs = "[]" and ps = "[]"]) (simp_all add: by_tag_upd)
  show ?thesis
  proof (cases "batch_outcome K (original_indices m)")
    case (Inl i)
    obtain c cm where c: "on_remote_error (y_sched y) q (rm_batch_id m) = (c, Ok cm)" using crew_remote_error [OF crew lane] by metis
    show ?thesis unfolding bs e(1,2) e(4) [OF Inl c] step using call_step.fault [OF F q l Inl c] by blast
  next
    case (Inr vs)
    obtain c cm where c: "on_remote_success (y_sched y) q (rm_batch_id m) (item_results vs) = (c, Ok cm)" using crew_remote_done [OF crew lane Inr] by metis
    show ?thesis unfolding bs e(1,2) e(3) [OF Inr c] step using call_step.finish [OF F q l Inr c] by blast
  qed
qed

lemma worker_kinds:
  assumes "good K n y" "is_worker K q"
  shows "(\<exists>s t k. stops (shape K y) q = PRecv s t k) \<or> (\<exists>op x m. stops (shape K y) q = PReduce op x m)"
proof (cases "y_link y q")
  case (LPay m)
  then have "is_batch K (original_indices m)" using goodD(5) [OF assms] by simp
  then show ?thesis using LPay paying_recv [OF goodD(1) [OF assms(1)], of q m "y_ws y q"] assms(2)
    by (auto simp: shape_stop_worker is_worker_def)
qed (use shape_stop_worker [OF assms(2), of y] in \<open>simp_all add: waiting_def closed_def pmap_finish_def convergence_def\<close>)

lemma root_kinds:
  assumes "good K n y"
  shows "case y_focus y of
      FTurn at \<Rightarrow> stops (shape K y) (cl_root K) = PRet (Again (PhRoot at (y_root y)))
    | FProbe k \<Rightarrow> (\<exists>l. stops (shape K y) (cl_root K) = PProbe HEADER_TAG l)
    | FAny at \<Rightarrow> (\<exists>j. stops (shape K y) (cl_root K) = PRecvAny HEADER_TAG j)
    | FPay at q m \<Rightarrow> (\<exists>k. stops (shape K y) (cl_root K) = PRecv q PAYLOAD_TAG k)
    | FEnd rs \<Rightarrow> (\<exists>op x m. stops (shape K y) (cl_root K) = PReduce op x m)"
proof (cases "y_focus y")
  case (FProbe k)
  then show ?thesis using probe_tree [OF goodD(1) [OF assms], of k "y_root y"] by (auto simp: shape_stop_root)
next
  case (FAny at)
  then show ?thesis using serving_recv [of K at "y_root y"] by (auto simp: shape_stop_root)
next
  case (FPay at q m)
  then have "is_worker K q" "y_link y q = LHalf m" using goodD(4) [OF assms] by auto
  then have "is_batch K (original_indices m)" using goodD(5) [OF assms] by simp
  from handling_reply [OF goodD(1) [OF assms] this, of at "y_root y" q] show ?thesis using FPay by (auto simp: shape_stop_root)
qed (simp_all add: shape_stop_root pmap_finish_def convergence_def)

lemma simulate:
  assumes g: "good K n y" and run: "\<And>rs. y_focus y \<noteq> FEnd rs" and step: "view_step (cl_np K) (call_body K) pm_hot (shape K y) v"
  shows "\<exists>y'. call_step K y y' \<and> v = shape K y'"
proof -
  note rk = root_kinds [OF g] and wk = worker_kinds [OF g]
  have wr: "r = cl_root K \<or> is_worker K r" if "in_comm (cl_np K) r" for r using that by (auto simp: is_worker_def)
  have root: "in_comm (cl_np K) (cl_root K)" by (rule call_okD(1) [OF goodD(1) [OF g]])
  show ?thesis
    using step
  proof cases
    case (recv r s t k bs bss)
    show ?thesis
    proof (cases "r = cl_root K")
      case True
      then obtain at q m where F: "y_focus y = FPay at q m" using recv(3) rk run by (auto split: focus.splits)
      then show ?thesis using simulate_pay [OF g F, of s t k bs bss] recv True by (simp add: shape_stop_root)
    next
      case False
      then show ?thesis using simulate_worker [OF g, of r s t k bs bss] wr recv by blast
    qed
  next
    case (recv_any r t j s bs bss)
    then have r: "r = cl_root K" using wr wk [of r] by auto
    then obtain at where F: "y_focus y = FAny at" using recv_any(3) rk run by (auto split: focus.splits)
    have "is_worker K s" using shape_way_other [of K y s t] recv_any(5) r by simp
    then show ?thesis using simulate_any [OF g F, of t j s bs bss] recv_any F r by (simp add: shape_stop_root)
  next
    case (probe_hit r t l s)
    then have r: "r = cl_root K" using wr wk [of r] by auto
    then obtain k where F: "y_focus y = FProbe k" using probe_hit(3) rk run by (auto split: focus.splits)
    have "is_worker K s" using shape_way_other [of K y s t] probe_hit(5) r by simp
    then show ?thesis using simulate_hit [OF g F, of t l s] probe_hit F r by (simp add: shape_stop_root)
  next
    case (probe_miss r t l)
    then have r: "r = cl_root K" using wr wk [of r] by auto
    then obtain k where F: "y_focus y = FProbe k" using probe_miss(3) rk run by (auto split: focus.splits)
    then show ?thesis using simulate_miss [OF g F, of t l] probe_miss F r by (simp add: shape_stop_root)
  next
    case (all_reduce op x m)
    then show ?thesis using rk root run by (auto split: focus.splits)
  next
    case (broadcast b root' n')
    then show ?thesis using rk root run by (auto split: focus.splits)
  next
    case (try_join r g' a)
    then show ?thesis using wr [OF try_join(2)] wk [of r] rk run by (auto split: focus.splits)
  next
    case (join r i)
    then show ?thesis using wr [OF join(2)] wk [of r] rk run by (auto split: focus.splits)
  next
    case (loop r s)
    then have r: "r = cl_root K" using wr wk [of r] by auto
    then obtain at where F: "y_focus y = FTurn at" using loop(3) rk run by (auto split: focus.splits)
    then have "s = PhRoot at (y_root y)" using loop(3) rk r by simp
    then show ?thesis using simulate_turn [OF g F] loop(1) r by blast
  qed
qed

end
