(* ===== verification/PmapKeep.thy ===== *)
theory PmapKeep
  imports PmapRun
begin

text \<open>
  Every step of the protocol of a call keeps its invariant, and brings the call nearer to its end. The measure
  weighs the work the coordinator has left, the messages under way and the place of the root in its loops.
\<close>

section \<open>Bookkeeping\<close>

lemma set_link_fields [simp]:
  "y_link (set_link q l y) = (y_link y)(q := l)" "y_ws (set_link q l y) = y_ws y" "y_root (set_link q l y) = y_root y" "y_focus (set_link q l y) = y_focus y"
  by (simp_all add: set_link_def)

lemma root_to_fields [simp]:
  "y_link (root_to F s y) = y_link y" "y_ws (root_to F s y) = y_ws y" "y_root (root_to F s y) = s" "y_focus (root_to F s y) = F"
  by (simp_all add: root_to_def)

lemma lanes_simps [simp]:
  "lanes K (root_to F s y) = lanes K y" "lanes K (y\<lparr>y_ws := ws\<rparr>) = lanes K y"
  "is_worker K q \<Longrightarrow> lanes K (set_link q l y) = (lanes K y)(q \<mapsto> lane_of l)"
  by (auto simp: lanes_def fun_eq_iff)

lemma keys_simps [simp]:
  "key_of K (set_link q l y) = key_of K y" "err_of K (set_link q l y) = err_of K y"
  "key_of K (root_to F (y_root y) y) = key_of K y" "err_of K (root_to F (y_root y) y) = err_of K y"
  "key_of K (root_to F (y_root y\<lparr>rs_sched := c\<rparr>) y) = key_of K y" "err_of K (root_to F (y_root y\<lparr>rs_sched := c\<rparr>) y) = err_of K y"
  by (auto simp: key_of_def err_of_def fun_eq_iff)

lemma lane_of_inv:
  "lane_of l = LaneDrained \<longleftrightarrow> l = LGone" "lane_of l = LaneIdle \<longleftrightarrow> l = LReady"
  "lane_of l = LaneRunning m p b \<longleftrightarrow> link_meta l = Some m \<and> p = None \<and> \<not> b"
  by (cases l; auto)+

lemma link_meta_parts: "link_meta l = Some m \<longleftrightarrow> unrun l = Some m \<or> unread l = Some m"
  by (cases l) auto

lemma rank_error_mono: "rank_error K n r key e \<Longrightarrow> n \<le> n' \<Longrightarrow> rank_error K n' r key e"
  by (force simp: rank_error_def)

lemma failure_not_none: "call_ok K \<Longrightarrow> i < length (cl_items K) \<Longrightarrow> in_comm (cl_np K) r \<Longrightarrow> failure_key K i r \<noteq> NO_ERROR_KEY"
  using failure_key_ok(2) by fastforce

lemma no_halves:
  assumes "good K n y" "\<And>at q m. y_focus y \<noteq> FPay at q m" "is_worker K q"
  shows "y_link y q \<noteq> LHalf m"
  using goodD(6) [OF assms(1,3)] assms(2) by blast

text \<open>The root goes on without new work.\<close>

lemma keep_root_still:
  assumes g: "good K n y" and F: "\<And>at q m. y_focus y \<noteq> FPay at q m" and ok: "focus_ok K (root_to F' (y_root y) y) F'"
  shows "good K n (root_to F' (y_root y) y)"
proof -
  note gd = goodD [OF g]
  have "links_ok K (root_to F' (y_root y) y)" using gd(2,3,5) by (simp add: links_ok_def)
  moreover have "halves_ok K (root_to F' (y_root y) y)" using no_halves [OF g F] by (simp add: halves_ok_def)
  moreover have "work_ok K n (root_to F' (y_root y) y)" using gd(7) by (simp add: work_ok_def)
  moreover have "errors_ok K n (root_to F' (y_root y) y)" using gd(8) by (simp add: errors_ok_def)
  ultimately show ?thesis using gd(1) ok by (simp add: good_def)
qed

section \<open>The root's own batches\<close>

lemma keep_root_work:
  assumes g: "good K n y" and a: "after_root K (y_root y) = (mr, s)" and F: "\<And>at q m. y_focus y \<noteq> FPay at q m"
    and ok: "focus_ok K (root_to F' s y) F'"
  shows "\<exists>n'. good K n' (root_to F' s y)"
proof -
  note gd = goodD [OF g]
  note w = gd(7) [unfolded work_ok_def] and e = gd(8) [unfolded errors_ok_def]
  have half: "halves_ok K (root_to F' s y)" using no_halves [OF g F] by (simp add: halves_ok_def)
  have root: "in_comm (cl_np K) (cl_root K)" by (rule call_okD(1) [OF gd(1)])
  show ?thesis
  proof (rule root_work [OF g])
    fix c
    assume c: "after_root K (y_root y) = (False, y_root y\<lparr>rs_sched := c\<rparr>)" "crew K (lanes K y) c" "failed c = failed (y_sched y)"
      "pending c = pending (y_sched y)" "root_lane c = LaneStopped"
    then have s: "s = y_root y\<lparr>rs_sched := c\<rparr>" using a by simp
    have "links_ok K (root_to F' s y)" using c gd(5) by (simp add: s links_ok_def)
    moreover have "work_ok K n (root_to F' s y)" using w c by (simp add: s work_ok_def)
    moreover have "errors_ok K n (root_to F' s y)" using e c by (simp add: s errors_ok_def)
    ultimately show ?thesis using gd(1) half ok by (auto simp: good_def)
  next
    fix c h n'
    assume c: "after_root K (y_root y) = (True, y_root y\<lparr>rs_sched := c, rs_fn := h\<rparr>)" "crew K (lanes K y) c" "\<not> failed c" "\<not> failed (y_sched y)"
      "pending c = remainder K n'" "root_lane c = LaneIdle" "pending (y_sched y) \<noteq> []" "n < n'" "n' \<le> length (cl_items K)"
      and nf: "\<And>i. i \<in> {n..<n'} \<Longrightarrow> \<not> fails K i"
    have s: "s = y_root y\<lparr>rs_sched := c, rs_fn := h\<rparr>" using a c(1) by simp
    have keys: "key_of K (root_to F' s y) = key_of K y" "err_of K (root_to F' s y) = err_of K y" by (simp_all add: s key_of_def err_of_def fun_eq_iff)
    have links: "links_ok K (root_to F' s y)" using c(2,6) gd(5) by (simp add: s links_ok_def)
    have work: "work_ok K n' (root_to F' s y)" using w c by (fastforce simp: s work_ok_def)
    have "i < n" if "i < n'" "fails K i" for i using nf [of i] that by (meson atLeastLessThan_iff not_le)
    then have "errors_ok K n' (root_to F' s y)"
      unfolding errors_ok_def keys using e c(3,4,8) by (auto simp: s intro: rank_error_mono)
    then show ?thesis using links work half ok gd(1) by (auto simp: good_def)
  next
    fix c h n' i
    assume c: "after_root K (y_root y) = (True, y_root y\<lparr>rs_sched := c, rs_key := min (rs_key (y_root y)) (failure_key K i (cl_root K)),
        rs_error := Some (PmUser, error_of K i), rs_fn := h\<rparr>)" "crew K (lanes K y) c" "failed c" "\<not> failed (y_sched y)"
      "pending c = []" "root_lane c = LaneIdle" "n < n'" "n' \<le> length (cl_items K)" "is_batch K [n..<n']" "batch_outcome K [n..<n'] = Err i"
    have i: "i \<in> {n..<n'}" "fails K i" "\<And>j. j \<in> {n..<n'} \<Longrightarrow> fails K j \<Longrightarrow> i \<le> j"
      using batch_outcome_first [OF c(9,10)] by auto
    have il: "i < length (cl_items K)" using i(1) c(8) by simp
    have none: "rs_key (y_root y) = NO_ERROR_KEY" using e c(4) by blast
    have s: "s = y_root y\<lparr>rs_sched := c, rs_key := failure_key K i (cl_root K), rs_error := Some (PmUser, error_of K i), rs_fn := h\<rparr>"
      using a c(1) none failure_key_ok(2) [OF gd(1) il root] by simp
    have keys: "key_of K (root_to F' s y) r = (if r = cl_root K then failure_key K i r else key_of K y r)"
      "err_of K (root_to F' s y) r = (if r = cl_root K then Some (PmUser, error_of K i) else err_of K y r)" for r
      by (simp_all add: s key_of_def err_of_def)
    have links: "links_ok K (root_to F' s y)" using c(2,6) gd(5) by (simp add: s links_ok_def)
    have work: "work_ok K n' (root_to F' s y)" using w c by (fastforce simp: s work_ok_def)
    have ranks: "rank_error K n' r (key_of K (root_to F' s y) r) (err_of K (root_to F' s y) r)" if "in_comm (cl_np K) r" for r
    proof (cases "r = cl_root K")
      case True
      then show ?thesis using i(1,2) by (auto simp: keys rank_error_def)
    next
      case False
      then show ?thesis using e that c(7) rank_error_mono [of K n r _ _ n'] by (auto simp: keys)
    qed
    have seen: "(\<exists>q m. is_worker K q \<and> unrun (y_link y q) = Some m \<and> k \<in> set (original_indices m))
        \<or> (\<exists>r j. in_comm (cl_np K) r \<and> j \<le> k \<and> key_of K (root_to F' s y) r = failure_key K j r)" if k: "k < n'" "fails K k" for k
    proof (cases "k < n")
      case True
      then consider "\<exists>q m. is_worker K q \<and> unrun (y_link y q) = Some m \<and> k \<in> set (original_indices m)"
        | r j where "in_comm (cl_np K) r" "j \<le> k" "key_of K y r = failure_key K j r" using e k(2) by blast
      then show ?thesis
      proof cases
        case (2 r j)
        have "j < length (cl_items K)" using 2(2) k(1) c(8) by simp
        then have "r \<noteq> cl_root K" using 2(3) none failure_not_none [OF gd(1) _ 2(1), of j] by (auto simp: key_of_def)
        then show ?thesis using 2 by (auto simp: keys)
      qed blast
    next
      case False
      then have "i \<le> k" using i(3) k by simp
      moreover have "key_of K (root_to F' s y) (cl_root K) = failure_key K i (cl_root K)" by (simp add: keys)
      ultimately show ?thesis using root by blast
    qed
    have "errors_ok K n' (root_to F' s y)"
      unfolding errors_ok_def using e ranks seen c(3) root failure_not_none [OF gd(1) il root] keys
      by (auto simp: s)
    then show ?thesis using links work half ok gd(1) by (auto simp: good_def)
  qed
qed

section \<open>Links\<close>

text \<open>One link changes, and the coordinator with it.\<close>

definition moved :: "('t, 'u, 'h) call_state \<Rightarrow> int \<Rightarrow> link \<Rightarrow> ('t, 'u, 'h) call_state \<Rightarrow> bool" where
  "moved y q l y' \<longleftrightarrow> y_link y' = (y_link y)(q := l) \<and> y_ws y' = y_ws y \<and> rs_key (y_root y') = rs_key (y_root y) \<and> rs_error (y_root y') = rs_error (y_root y)"

lemma moved_set_link [simp]: "moved y q l (set_link q l y)" "moved y q l (root_to F (y_root y\<lparr>rs_sched := c\<rparr>) (set_link q l y))"
  "moved y q l (root_to F (y_root y) (set_link q l y))"
  by (simp_all add: moved_def)

lemma errorsD:
  assumes "errors_ok K n y"
  shows "in_comm (cl_np K) r \<Longrightarrow> rank_error K n r (key_of K y r) (err_of K y r)"
    "rs_key (y_root y) \<noteq> NO_ERROR_KEY \<Longrightarrow> failed (y_sched y)"
    "is_worker K q \<Longrightarrow> ws_key (y_ws y q) \<noteq> NO_ERROR_KEY \<Longrightarrow> failed (y_sched y)
       \<or> (\<exists>m. unread (y_link y q) = Some m \<and> \<not> is_ok (batch_outcome K (original_indices m)))"
    "is_worker K q \<Longrightarrow> unread (y_link y q) = Some m \<Longrightarrow> \<not> is_ok (batch_outcome K (original_indices m)) \<Longrightarrow> ws_key (y_ws y q) \<noteq> NO_ERROR_KEY"
    "is_worker K q \<Longrightarrow> unrun (y_link y q) = Some m \<Longrightarrow> ws_key (y_ws y q) = NO_ERROR_KEY"
    "failed (y_sched y) \<Longrightarrow> \<exists>r. in_comm (cl_np K) r \<and> key_of K y r \<noteq> NO_ERROR_KEY"
    "i < n \<Longrightarrow> fails K i \<Longrightarrow> (\<exists>q m. is_worker K q \<and> unrun (y_link y q) = Some m \<and> i \<in> set (original_indices m))
       \<or> (\<exists>r j. in_comm (cl_np K) r \<and> j \<le> i \<and> key_of K y r = failure_key K j r)"
  using assms unfolding errors_ok_def by blast+

lemma workD:
  assumes "work_ok K n y"
  shows "n \<le> length (cl_items K)" "\<not> failed (y_sched y) \<Longrightarrow> pending (y_sched y) = remainder K n"
    "is_worker K q \<Longrightarrow> link_meta (y_link y q) = Some m \<Longrightarrow> i \<in> set (original_indices m) \<Longrightarrow> i < n"
    "is_worker K q \<Longrightarrow> y_link y q \<in> {LStop, LDrain, LGone} \<Longrightarrow> failed (y_sched y) \<or> pending (y_sched y) = []"
  using assms unfolding work_ok_def by blast+

lemma keep_errors:
  assumes e: "errors_ok K n y" and y': "moved y q l y'" and q: "is_worker K q" and n: "n \<le> n'"
    and fl: "failed (y_sched y) \<Longrightarrow> failed (y_sched y')" "failed (y_sched y') \<Longrightarrow> failed (y_sched y) \<or> ws_key (y_ws y q) \<noteq> NO_ERROR_KEY"
    and run: "unrun l \<noteq> None \<Longrightarrow> ws_key (y_ws y q) = NO_ERROR_KEY"
    and read: "\<And>m. unread l = Some m \<Longrightarrow> unread (y_link y q) = Some m"
    and key: "ws_key (y_ws y q) \<noteq> NO_ERROR_KEY \<Longrightarrow> failed (y_sched y') \<or> unread l \<noteq> None"
    and seen: "\<And>i. i < n' \<Longrightarrow> fails K i \<Longrightarrow> (\<exists>m. unrun l = Some m \<and> i \<in> set (original_indices m)) \<or> i < n \<and> (\<forall>m. unrun (y_link y q) = Some m \<longrightarrow> i \<notin> set (original_indices m))"
  shows "errors_ok K n' y'"
proof -
  note y = y' [unfolded moved_def] and eo = errorsD [OF e]
  have keys: "key_of K y' = key_of K y" "err_of K y' = err_of K y" using y by (simp_all add: key_of_def err_of_def fun_eq_iff)
  have qk: "in_comm (cl_np K) q" "key_of K y q = ws_key (y_ws y q)" using q by (auto simp: is_worker_def key_of_def)
  have ws: "y_ws y' = y_ws y" and lk: "\<And>p. y_link y' p = (if p = q then l else y_link y p)" and rk: "rs_key (y_root y') = rs_key (y_root y)"
    using y by auto
  show ?thesis
    unfolding errors_ok_def keys ws
  proof (intro conjI allI impI)
    show "rank_error K n' r (key_of K y r) (err_of K y r)" if "in_comm (cl_np K) r" for r
      using rank_error_mono [OF eo(1) [OF that] n] .
    show "failed (y_sched y')" if "rs_key (y_root y') \<noteq> NO_ERROR_KEY" using eo(2) that rk fl(1) by simp
    show "failed (y_sched y') \<or> (\<exists>m. unread (y_link y' p) = Some m \<and> \<not> is_ok (batch_outcome K (original_indices m)))"
      if p: "is_worker K p" "ws_key (y_ws y p) \<noteq> NO_ERROR_KEY" for p
    proof (cases "failed (y_sched y')")
      case False
      then obtain m where m: "unread (y_link y p) = Some m" "\<not> is_ok (batch_outcome K (original_indices m))" using eo(3) [OF p] fl(1) by blast
      show ?thesis
      proof (cases "p = q")
        case True
        then obtain m' where "unread l = Some m'" using key p(2) False by auto
        then show ?thesis using read m True lk by auto
      next
        case False
        then show ?thesis using m lk by simp
      qed
    qed simp
    show "ws_key (y_ws y p) \<noteq> NO_ERROR_KEY" if "is_worker K p" "unread (y_link y' p) = Some m" "\<not> is_ok (batch_outcome K (original_indices m))" for p m
      using eo(4) [OF that(1) _ that(3)] that(2) read lk by (cases "p = q") simp_all
    show "ws_key (y_ws y p) = NO_ERROR_KEY" if "is_worker K p" "unrun (y_link y' p) = Some m" for p m
      using eo(5) [OF that(1)] that(2) run lk by (cases "p = q") simp_all
    show "\<exists>r. in_comm (cl_np K) r \<and> key_of K y r \<noteq> NO_ERROR_KEY" if "failed (y_sched y')"
      using eo(6) fl(2) [OF that] qk by metis
    show "(\<exists>p m. is_worker K p \<and> unrun (y_link y' p) = Some m \<and> i \<in> set (original_indices m)) \<or> (\<exists>r j. in_comm (cl_np K) r \<and> j \<le> i \<and> key_of K y r = failure_key K j r)"
      if i: "i < n'" "fails K i" for i
    proof (cases "\<exists>m. unrun l = Some m \<and> i \<in> set (original_indices m)")
      case True
      then obtain m where "unrun (y_link y' q) = Some m \<and> i \<in> set (original_indices m)" using lk by auto
      then show ?thesis using q by blast
    next
      case False
      with seen [OF i] have i': "i < n" "\<And>m. unrun (y_link y q) = Some m \<Longrightarrow> i \<notin> set (original_indices m)" by blast+
      from eo(7) [OF i'(1) i(2)] consider p m where "is_worker K p" "unrun (y_link y p) = Some m" "i \<in> set (original_indices m)"
        | "\<exists>r j. in_comm (cl_np K) r \<and> j \<le> i \<and> key_of K y r = failure_key K j r" by blast
      then show ?thesis
      proof cases
        case 1
        then have "p \<noteq> q" using i'(2) by blast
        then have "unrun (y_link y' p) = Some m" using 1 lk by simp
        then show ?thesis using 1 by blast
      qed blast
    qed
  qed
qed

lemma keep_work:
  assumes w: "work_ok K n y" and y': "moved y q l y'" and q: "is_worker K q" and n: "n \<le> n'" "n' \<le> length (cl_items K)"
    and p: "\<not> failed (y_sched y') \<Longrightarrow> pending (y_sched y') = remainder K n'"
    and m: "\<And>m i. link_meta l = Some m \<Longrightarrow> i \<in> set (original_indices m) \<Longrightarrow> i < n'"
    and st: "l \<in> {LStop, LDrain, LGone} \<Longrightarrow> failed (y_sched y') \<or> pending (y_sched y') = []"
    and keep: "failed (y_sched y) \<or> pending (y_sched y) = [] \<Longrightarrow> failed (y_sched y') \<or> pending (y_sched y') = []"
  shows "work_ok K n' y'"
proof -
  note wo = workD [OF w]
  have lk: "\<And>p. y_link y' p = (if p = q then l else y_link y p)" using y' by (simp add: moved_def)
  show ?thesis
    unfolding work_ok_def
  proof (intro conjI allI impI ballI)
    show "i < n'" if i: "is_worker K p" "link_meta (y_link y' p) = Some m'" "i \<in> set (original_indices m')" for p m' i
    proof (cases "p = q")
      case False
      then show ?thesis using wo(3) [OF i(1) _ i(3)] i(2) lk n(1) by simp
    qed (use i m lk in simp)
    show "failed (y_sched y') \<or> pending (y_sched y') = []" if "is_worker K p" "y_link y' p \<in> {LStop, LDrain, LGone}" for p
      using wo(4) [OF that(1)] that(2) lk st keep by (cases "p = q") simp_all
  qed (use n p in simp_all)
qed

lemma keep_links:
  assumes g: "good K n y" and y': "moved y q l y'" and q: "is_worker K q"
    and c: "crew K ((lanes K y)(q \<mapsto> lane_of l)) (y_sched y')" "root_lane (y_sched y') = root_lane (y_sched y)"
    and m: "\<And>m. link_meta l = Some m \<Longrightarrow> is_batch K (original_indices m)"
  shows "links_ok K y'"
proof -
  note y = y' [unfolded moved_def]
  have "lanes K y' = (lanes K y)(q \<mapsto> lane_of l)" using y q by (auto simp: lanes_def fun_eq_iff)
  moreover have "is_batch K (original_indices m')" if "is_worker K p" "link_meta (y_link y' p) = Some m'" for p m'
    using goodD(5) [OF g] that y m by (cases "p = q") auto
  ultimately show ?thesis using c goodD(3) [OF g] by (simp add: links_ok_def)
qed

text \<open>A worker's step: the root does not see it.\<close>

lemma keep_focus_worker:
  assumes g: "good K n y" and y': "y_link y' = (y_link y)(q := l)" "y_focus y' = y_focus y" "y_root y' = y_root y" and q: "is_worker K q"
    and l: "y_link y q \<noteq> LGone" "\<And>m. y_link y q \<noteq> LHalf m" "l \<noteq> LGone" "\<And>m. l \<noteq> LHalf m"
  shows "focus_ok K y' (y_focus y')" "halves_ok K y'"
proof -
  have "focus_ok K y (y_focus y)" by (rule goodD(4) [OF g])
  then show "focus_ok K y' (y_focus y')"
    using y' q l by (cases "(K, y, y_focus y)" rule: focus_ok.cases) auto
  show "halves_ok K y'" using goodD(6) [OF g] y' l by (auto simp: halves_ok_def)
qed

lemma keep_lane: "is_worker K q \<Longrightarrow> lane_of l = lane_of (y_link y q) \<Longrightarrow> (lanes K y)(q \<mapsto> lane_of l) = lanes K y"
  by (auto simp: lanes_def fun_eq_iff)

lemma keep_take_task:
  assumes g: "good K n y" and q: "is_worker K q" and l: "y_link y q = LTask m"
  shows "good K n (set_link q (LPay m) y)"
proof -
  note gd = goodD [OF g] and w0 = workD(1,2) [OF goodD(7) [OF g]] and w = workD(3,4) [OF goodD(7) [OF g]] and e = errorsD(3,4,5) [OF goodD(8) [OF g]]
  have "links_ok K (set_link q (LPay m) y)"
    by (rule keep_links [OF g moved_set_link(1) q]) (use gd(2) gd(5) [OF q] l keep_lane [OF q, of "LPay m" y] in simp_all)
  moreover have "work_ok K n (set_link q (LPay m) y)"
    by (rule keep_work [OF gd(7) moved_set_link(1) q]) (use w [OF q] w0 l in auto)
  moreover have "errors_ok K n (set_link q (LPay m) y)"
    by (rule keep_errors [OF gd(8) moved_set_link(1) q]) (use e [OF q] l in auto)
  ultimately show ?thesis
    using keep_focus_worker [OF g _ _ _ q, of "set_link q (LPay m) y" "LPay m"] gd(1) l by (simp add: good_def)
qed

lemma keep_take_stop:
  assumes g: "good K n y" and q: "is_worker K q" and l: "y_link y q = LStop"
  shows "good K n (set_link q LDrain y)"
proof -
  note gd = goodD [OF g] and w0 = workD(1,2) [OF goodD(7) [OF g]] and w = workD(3,4) [OF goodD(7) [OF g]] and e = errorsD(3,4,5) [OF goodD(8) [OF g]]
  have "links_ok K (set_link q LDrain y)"
    by (rule keep_links [OF g moved_set_link(1) q]) (use gd(2) gd(5) [OF q] l keep_lane [OF q, of LDrain y] in simp_all)
  moreover have "work_ok K n (set_link q LDrain y)"
    by (rule keep_work [OF gd(7) moved_set_link(1) q]) (use w [OF q] w0 l in auto)
  moreover have "errors_ok K n (set_link q LDrain y)"
    by (rule keep_errors [OF gd(8) moved_set_link(1) q]) (use e [OF q] l in auto)
  ultimately show ?thesis
    using keep_focus_worker [OF g _ _ _ q, of "set_link q LDrain y" LDrain] gd(1) l by (simp add: good_def)
qed

lemma rank_error_none:
  assumes "call_ok K" "n \<le> length (cl_items K)" "in_comm (cl_np K) r" "rank_error K n r NO_ERROR_KEY e"
  shows "e = None"
proof -
  have "NO_ERROR_KEY \<noteq> failure_key K j r" if "j < n" for j
    using failure_not_none [OF assms(1) _ assms(3), of j] that assms(2) by simp
  then show ?thesis using assms(4) by (auto simp: rank_error_def)
qed

lemma after_task_keys:
  assumes "call_ok K" "in_comm (cl_np K) q" "is_batch K (original_indices m)" "ws_key s = NO_ERROR_KEY"
  shows "batch_outcome K (original_indices m) = Err i \<Longrightarrow> ws_key (after_task K q s m) = failure_key K i q \<and> ws_error (after_task K q s m) = Some (PmUser, error_of K i)"
    "is_ok (batch_outcome K (original_indices m)) \<Longrightarrow> ws_key (after_task K q s m) = NO_ERROR_KEY \<and> ws_error (after_task K q s m) = ws_error s"
proof -
  assume i: "batch_outcome K (original_indices m) = Err i"
  then have "i < length (cl_items K)" using batch_outcome_first [OF assms(3)] is_batchD(1) [OF assms(3)] by blast
  then show "ws_key (after_task K q s m) = failure_key K i q \<and> ws_error (after_task K q s m) = Some (PmUser, error_of K i)"
    using i assms(4) failure_key_ok(2) [OF assms(1) _ assms(2)] by (simp add: after_task_def Let_def)
qed (use assms(4) in \<open>auto simp: after_task_def Let_def is_ok_iff\<close>)

lemma keep_run_task:
  assumes g: "good K n y" and q: "is_worker K q" and l: "y_link y q = LPay m"
  shows "good K n (set_link q (LResult m) y\<lparr>y_ws := (y_ws y)(q := after_task K q (y_ws y q) m)\<rparr>)" (is "good K n ?y")
proof -
  note gd = goodD [OF g] and w = workD [OF goodD(7) [OF g]] and e = errorsD [OF goodD(8) [OF g]]
  let ?is = "original_indices m" and ?s = "after_task K q (y_ws y q) m"
  have m: "is_batch K ?is" using gd(5) [OF q] l by simp
  have comm: "in_comm (cl_np K) q" "q \<noteq> cl_root K" using q by (auto simp: is_worker_def)
  have none: "ws_key (y_ws y q) = NO_ERROR_KEY" using e(5) [OF q] l by simp
  have err_none: "ws_error (y_ws y q) = None"
    using rank_error_none [OF gd(1) w(1) comm(1)] e(1) [OF comm(1)] none comm(2) by (simp add: key_of_def err_of_def)
  have keys: "key_of K ?y r = (if r = q then ws_key ?s else key_of K y r)" "err_of K ?y r = (if r = q then ws_error ?s else err_of K y r)" for r
    using comm(2) by (auto simp: key_of_def err_of_def)
  note at = after_task_keys [OF gd(1) comm(1) m none]
  have lk: "\<And>p. y_link ?y p = (if p = q then LResult m else y_link y p)" and ws: "\<And>p. y_ws ?y p = (if p = q then ?s else y_ws y p)" by simp_all
  have first: "i \<in> set ?is \<and> fails K i \<and> (\<forall>j\<in>set ?is. fails K j \<longrightarrow> i \<le> j)" if "batch_outcome K ?is = Err i" for i
    by (rule batch_outcome_first [OF m that])
  have bound: "i < n" if "i \<in> set ?is" for i using w(3) [OF q _ that] l by simp
  have "links_ok K ?y"
    using gd(2,3) gd(5) lk keep_lane [OF q, of "LResult m" y] l m q by (auto simp: links_ok_def)
  moreover have "work_ok K n ?y"
    using w bound l by (auto simp: work_ok_def)
  moreover have "errors_ok K n ?y"
    unfolding errors_ok_def
  proof (intro conjI allI impI)
    show "rank_error K n r (key_of K ?y r) (err_of K ?y r)" if r: "in_comm (cl_np K) r" for r
    proof (cases "r = q")
      case True
      show ?thesis
      proof (cases "batch_outcome K ?is")
        case (Inl i)
        then show ?thesis using True at(1) first [OF Inl] bound by (auto simp: keys rank_error_def)
      next
        case (Inr vs)
        then show ?thesis using True at(2) err_none by (simp add: keys rank_error_def)
      qed
    qed (use e(1) [OF r] in \<open>simp add: keys\<close>)
    show "failed (y_sched ?y)" if "rs_key (y_root ?y) \<noteq> NO_ERROR_KEY" using e(2) that by simp
    show "failed (y_sched ?y) \<or> (\<exists>m. unread (y_link ?y p) = Some m \<and> \<not> is_ok (batch_outcome K (original_indices m)))"
      if p: "is_worker K p" "ws_key (y_ws ?y p) \<noteq> NO_ERROR_KEY" for p
      using e(3) [OF p(1)] p(2) at(2) by (cases "p = q") auto
    show "ws_key (y_ws ?y p) \<noteq> NO_ERROR_KEY" if p: "is_worker K p" "unread (y_link ?y p) = Some m'" "\<not> is_ok (batch_outcome K (original_indices m'))" for p m'
    proof (cases "p = q")
      case True
      then have m': "m' = m" using p(2) by simp
      then obtain i where i: "batch_outcome K ?is = Err i" using p(3) by (cases "batch_outcome K ?is") auto
      then have "i < length (cl_items K)" using first is_batchD(1) [OF m] by blast
      then show ?thesis using True at(1) [OF i] failure_not_none [OF gd(1) _ comm(1)] by simp
    qed (use e(4) [OF p(1) _ p(3)] p(2) in simp)
    show "ws_key (y_ws ?y p) = NO_ERROR_KEY" if "is_worker K p" "unrun (y_link ?y p) = Some m'" for p m'
      using e(5) [OF that(1)] that(2) by (cases "p = q") simp_all
    show "\<exists>r. in_comm (cl_np K) r \<and> key_of K ?y r \<noteq> NO_ERROR_KEY" if f: "failed (y_sched ?y)"
    proof -
      have "failed (y_sched y)" using f by simp
      then obtain r where r: "in_comm (cl_np K) r" "key_of K y r \<noteq> NO_ERROR_KEY" using e(6) by blast
      then have "r \<noteq> q" using none comm(2) by (auto simp: key_of_def)
      then show ?thesis using r by (auto simp: keys)
    qed
    show "(\<exists>p m. is_worker K p \<and> unrun (y_link ?y p) = Some m \<and> i \<in> set (original_indices m)) \<or> (\<exists>r j. in_comm (cl_np K) r \<and> j \<le> i \<and> key_of K ?y r = failure_key K j r)"
      if i: "i < n" "fails K i" for i
    proof (cases "i \<in> set ?is")
      case True
      then obtain j where j: "batch_outcome K ?is = Err j" using i(2) batch_outcome_none [of K ?is] by (cases "batch_outcome K ?is") auto
      then have "j \<le> i" "key_of K ?y q = failure_key K j q" using first [OF j] True i(2) at(1) [OF j] by (simp_all add: keys)
      then show ?thesis using comm(1) by blast
    next
      case False
      from e(7) [OF i] consider p m' where "is_worker K p" "unrun (y_link y p) = Some m'" "i \<in> set (original_indices m')"
        | r j where "in_comm (cl_np K) r" "j \<le> i" "key_of K y r = failure_key K j r" by blast
      then show ?thesis
      proof cases
        case 1
        then have "p \<noteq> q" using False l by auto
        then have "unrun (y_link ?y p) = Some m'" using 1 by simp
        then show ?thesis using 1 by blast
      next
        case 2
        then have "r \<noteq> q" using none comm(2) failure_not_none [OF gd(1) _ 2(1), of j] i(1) w(1) by (auto simp: key_of_def)
        then have "key_of K ?y r = failure_key K j r" using 2(3) by (simp add: keys)
        then show ?thesis using 2 by blast
      qed
    qed
  qed
  ultimately show ?thesis
    using keep_focus_worker [OF g _ _ _ q, of ?y "LResult m"] gd(1) l by (simp add: good_def)
qed

text \<open>Messages that the root takes.\<close>

lemma keep_focus_root:
  assumes g: "good K n y" and F: "y_focus y = FAny at \<or> y_focus y = FPay at q m" and y': "moved y q l y'" "y_focus y' = FTurn at" and l: "\<And>m. l \<noteq> LHalf m"
  shows "focus_ok K y' (y_focus y')" "halves_ok K y'"
proof -
  have "cl_np K \<noteq> 1" using goodD(4) [OF g] F by auto
  then show "focus_ok K y' (y_focus y')" using y'(2) by (cases at) simp_all
  have "y_link y p \<noteq> LHalf m'" if "is_worker K p" "p \<noteq> q" for p m' using goodD(6) [OF g that(1)] F that(2) by fastforce
  then show "halves_ok K y'" using y'(1) l by (auto simp: halves_ok_def moved_def)
qed

lemma keep_ready_stop:
  assumes g: "good K n y" and F: "y_focus y = FAny at" and q: "is_worker K q" and l: "y_link y q = LReady" and r: "on_remote_ready (y_sched y) q = (c, Ok Stop)"
  shows "good K n (root_to (FTurn at) (y_root y\<lparr>rs_sched := c\<rparr>) (set_link q LStop y)) \<and> work_left c < work_left (y_sched y)" (is "good K n ?y \<and> _")
proof -
  note gd = goodD [OF g] and w = workD [OF goodD(7) [OF g]] and e = errorsD [OF goodD(8) [OF g]]
  have idle: "lanes K y q = Some LaneIdle" using l q by (simp add: lanes_def)
  have st: "failed (y_sched y) \<or> pending (y_sched y) = []"
  proof (rule ccontr)
    assume no: "\<not> ?thesis"
    then have n: "n < length (cl_items K)" using w(2) remainder_Nil by (auto simp: not_le [symmetric])
    from gd(1,2) idle no w(2) n show False by (auto elim!: crew_ready_task [of K "lanes K y" "y_sched y" q n] simp: r)
  qed
  from gd(2) idle st have c: "crew K ((lanes K y)(q \<mapsto> LaneStopped)) c" "failed c = failed (y_sched y)" "pending c = pending (y_sched y)"
      "root_lane c = root_lane (y_sched y)" "work_left c < work_left (y_sched y)"
    by (rule crew_ready_stop; simp add: r)+
  have "links_ok K ?y" by (rule keep_links [OF g moved_set_link(2) q]) (use c in simp_all)
  moreover have "work_ok K n ?y" by (rule keep_work [OF gd(7) moved_set_link(2) q]) (use c w(1,2) st in simp_all)
  moreover have "errors_ok K n ?y" by (rule keep_errors [OF gd(8) moved_set_link(2) q]) (use c e(3) [OF q] l in auto)
  ultimately show ?thesis using keep_focus_root [OF g, of at q undefined LStop ?y] F gd(1) c(5) by (simp add: good_def)
qed

lemma keep_ready_task:
  assumes g: "good K n y" and F: "y_focus y = FAny at" and q: "is_worker K q" and l: "y_link y q = LReady" and r: "on_remote_ready (y_sched y) q = (c, Ok (Task b))"
  shows "\<exists>n'. good K n' (root_to (FTurn at) (y_root y\<lparr>rs_sched := c\<rparr>) (set_link q (LTask (metadata b)) y)) \<and> work_left c < work_left (y_sched y)" (is "\<exists>n'. good K n' ?y \<and> _")
proof -
  note gd = goodD [OF g] and w = workD [OF goodD(7) [OF g]] and e = errorsD [OF goodD(8) [OF g]]
  have idle: "lanes K y q = Some LaneIdle" using l q by (simp add: lanes_def)
  have go: "\<not> (failed (y_sched y) \<or> pending (y_sched y) = [])"
  proof
    assume "failed (y_sched y) \<or> pending (y_sched y) = []"
    from gd(2) idle this show False by (rule crew_ready_stop) (simp add: r)
  qed
  then have n: "n < length (cl_items K)" and nf: "\<not> failed (y_sched y)" using w(2) remainder_Nil by (auto simp: not_le [symmetric])
  from gd(1,2) idle nf w(2) [OF nf] n obtain c' b' n' where b: "on_remote_ready (y_sched y) q = (c', Ok (Task b'))" "is_batch K [n..<n']"
      "original_indices (metadata b') = [n..<n']" "n < n'" "n' \<le> length (cl_items K)"
      "crew K ((lanes K y)(q \<mapsto> LaneRunning (metadata b') None False)) c'" "\<not> failed c'" "pending c' = remainder K n'"
      "root_lane c' = root_lane (y_sched y)" "work_left c' < work_left (y_sched y)"
    by (rule crew_ready_task)
  have eq: "c' = c" "b' = b" using b(1) r by simp_all
  note c = b(2-10) [unfolded eq]
  have none: "ws_key (y_ws y q) = NO_ERROR_KEY" using e(3) [OF q] l nf by auto
  have "links_ok K ?y" by (rule keep_links [OF g moved_set_link(2) q]) (use c(1,2,5,8) in simp_all)
  moreover have "work_ok K n' ?y" by (rule keep_work [OF gd(7) moved_set_link(2) q]) (use c go in simp_all)
  moreover have "errors_ok K n' ?y"
  proof (rule keep_errors [OF gd(8) moved_set_link(2) q])
    show "(\<exists>m. unrun (LTask (metadata b)) = Some m \<and> i \<in> set (original_indices m)) \<or> i < n \<and> (\<forall>m. unrun (y_link y q) = Some m \<longrightarrow> i \<notin> set (original_indices m))"
      if "i < n'" for i using that c(2) l by (cases "i < n") simp_all
  qed (use c none nf in simp_all)
  ultimately show ?thesis using keep_focus_root [OF g, of at q undefined "LTask (metadata b)" ?y] F gd(1) c(9) by (auto simp: good_def)
qed

lemma keep_take_result:
  assumes g: "good K n y" and F: "y_focus y = FAny at" and q: "is_worker K q" and l: "y_link y q = LResult m"
  shows "good K n (root_to (FPay at q m) (y_root y) (set_link q (LHalf m) y))" (is "good K n ?y")
proof -
  note gd = goodD [OF g] and w = workD [OF goodD(7) [OF g]] and e = errorsD [OF goodD(8) [OF g]]
  have "links_ok K ?y" by (rule keep_links [OF g moved_set_link(3) q]) (use gd(2) gd(5) [OF q] l keep_lane [OF q, of "LHalf m" y] in simp_all)
  moreover have "work_ok K n ?y" by (rule keep_work [OF gd(7) moved_set_link(3) q]) (use w(1,2) w(3) [OF q] l in auto)
  moreover have "errors_ok K n ?y" by (rule keep_errors [OF gd(8) moved_set_link(3) q]) (use l in auto)
  moreover have "halves_ok K ?y" using no_halves [OF g] F by (auto simp: halves_ok_def)
  moreover have "cl_np K \<noteq> 1" using gd(4) F by simp
  ultimately show ?thesis using gd(1) q by (simp add: good_def)
qed

lemma keep_drained:
  assumes g: "good K n y" and F: "y_focus y = FAny at" and q: "is_worker K q" and l: "y_link y q = LDrain" and r: "on_remote_drain (y_sched y) q = (c, Ok ())"
  shows "good K n (root_to (FTurn at) (y_root y\<lparr>rs_sched := c\<rparr>) (set_link q LGone y)) \<and> work_left c < work_left (y_sched y)" (is "good K n ?y \<and> _")
proof -
  note gd = goodD [OF g] and w = workD [OF goodD(7) [OF g]] and e = errorsD [OF goodD(8) [OF g]]
  have lane: "lanes K y q = Some LaneStopped" using l q by (simp add: lanes_def)
  from gd(2) lane have c: "crew K ((lanes K y)(q \<mapsto> LaneDrained)) c" "failed c = failed (y_sched y)" "pending c = pending (y_sched y)"
      "root_lane c = root_lane (y_sched y)" "work_left c < work_left (y_sched y)"
    by (rule crew_drain; simp add: r)+
  have "links_ok K ?y" by (rule keep_links [OF g moved_set_link(2) q]) (use c in simp_all)
  moreover have "work_ok K n ?y" by (rule keep_work [OF gd(7) moved_set_link(2) q]) (use c w(1,2) w(4) [OF q] l in simp_all)
  moreover have "errors_ok K n ?y" by (rule keep_errors [OF gd(8) moved_set_link(2) q]) (use c e(3) [OF q] l in auto)
  ultimately show ?thesis using keep_focus_root [OF g, of at q undefined LGone ?y] F gd(1) c(5) by (simp add: good_def)
qed

lemma keep_finish:
  assumes g: "good K n y" and F: "y_focus y = FPay at q m" and q: "is_worker K q" and l: "y_link y q = LHalf m"
    and o: "batch_outcome K (original_indices m) = Ok vs" and r: "on_remote_success (y_sched y) q (rm_batch_id m) (item_results vs) = (c, Ok cm)"
  shows "good K n (root_to (FTurn at) (y_root y\<lparr>rs_sched := c\<rparr>) (set_link q LReady y)) \<and> work_left c < work_left (y_sched y)" (is "good K n ?y \<and> _")
proof -
  note gd = goodD [OF g] and w = workD [OF goodD(7) [OF g]] and e = errorsD [OF goodD(8) [OF g]]
  have lane: "lanes K y q = Some (LaneRunning m None False)" using l q by (simp add: lanes_def)
  from gd(2) lane o have c: "crew K ((lanes K y)(q \<mapsto> LaneIdle)) c" "failed c = failed (y_sched y)" "pending c = pending (y_sched y)"
      "root_lane c = root_lane (y_sched y)" "work_left c < work_left (y_sched y)"
    by (rule crew_remote_done; simp add: r)+
  have "links_ok K ?y" by (rule keep_links [OF g moved_set_link(2) q]) (use c in simp_all)
  moreover have "work_ok K n ?y" by (rule keep_work [OF gd(7) moved_set_link(2) q]) (use c w(1,2) in simp_all)
  moreover have "errors_ok K n ?y" by (rule keep_errors [OF gd(8) moved_set_link(2) q]) (use c e(3) [OF q] l o in auto)
  ultimately show ?thesis using keep_focus_root [OF g, of at q m LReady ?y] F gd(1) c(5) by (simp add: good_def)
qed

lemma keep_fault:
  assumes g: "good K n y" and F: "y_focus y = FPay at q m" and q: "is_worker K q" and l: "y_link y q = LHalf m"
    and o: "batch_outcome K (original_indices m) = Err i" and r: "on_remote_error (y_sched y) q (rm_batch_id m) = (c, Ok cm)"
  shows "good K n (root_to (FTurn at) (y_root y\<lparr>rs_sched := c\<rparr>) (set_link q LReady y)) \<and> work_left c < work_left (y_sched y)" (is "good K n ?y \<and> _")
proof -
  note gd = goodD [OF g] and w = workD [OF goodD(7) [OF g]] and e = errorsD [OF goodD(8) [OF g]]
  have lane: "lanes K y q = Some (LaneRunning m None False)" using l q by (simp add: lanes_def)
  from gd(2) lane have c: "crew K ((lanes K y)(q \<mapsto> LaneIdle)) c" "failed c" "pending c = []" "root_lane c = root_lane (y_sched y)" "work_left c < work_left (y_sched y)"
    by (rule crew_remote_error; simp add: r)+
  have "links_ok K ?y" by (rule keep_links [OF g moved_set_link(2) q]) (use c in simp_all)
  moreover have "work_ok K n ?y" by (rule keep_work [OF gd(7) moved_set_link(2) q]) (use c w(1) in simp_all)
  moreover have "errors_ok K n ?y" by (rule keep_errors [OF gd(8) moved_set_link(2) q]) (use c e(4) [OF q] l o in auto)
  ultimately show ?thesis using keep_focus_root [OF g, of at q m LReady ?y] F gd(1) c(5) by (simp add: good_def)
qed

section \<open>All steps\<close>

fun link_left :: "link \<Rightarrow> nat" where
  "link_left (LTask m) = 3"
| "link_left (LPay m) = 2"
| "link_left (LResult m) = 1"
| "link_left LStop = 1"
| "link_left l = 0"

definition links_left :: "('t, 'u, 'h) pmap_call \<Rightarrow> (int \<Rightarrow> link) \<Rightarrow> nat" where
  "links_left K l = (\<Sum>q \<in> {q. is_worker K q}. link_left (l q))"

fun focus_left :: "bool \<Rightarrow> 'u focus \<Rightarrow> nat" where
  "focus_left fin (FTurn RTop) = (if fin then 1 else 6)"
| "focus_left fin (FTurn (RServe n)) = (if n = 0 then 5 else 8)"
| "focus_left fin (FProbe n) = (if n = 0 then 4 else 7)"
| "focus_left fin (FAny at) = 2"
| "focus_left fin (FPay at q m) = 2"
| "focus_left fin (FEnd rs) = 0"

definition call_left :: "('t, 'u, 'h) pmap_call \<Rightarrow> ('t, 'u, 'h) call_state \<Rightarrow> nat" where
  "call_left K y = 12 * work_left (y_sched y) + links_left K (y_link y) + focus_left (is_finished (y_sched y)) (y_focus y)"

lemma links_left_upd:
  assumes "is_worker K q"
  shows "links_left K (l(q := x)) + link_left (l q) = links_left K l + link_left x"
proof -
  have fin: "finite {q. is_worker K q}" by (rule finite_subset [of _ "{0..<cl_np K}"]) (auto simp: is_worker_def in_comm_def)
  have "(\<Sum>p \<in> {q. is_worker K q} - {q}. link_left ((l(q := x)) p)) = (\<Sum>p \<in> {q. is_worker K q} - {q}. link_left (l p))"
    by (rule sum.cong) auto
  then show ?thesis
    using sum.remove [OF fin, of q "\<lambda>p. link_left ((l(q := x)) p)"] sum.remove [OF fin, of q "\<lambda>p. link_left (l p)"] assms
    by (simp add: links_left_def)
qed

lemma focus_left_max: "focus_left fin F \<le> 8"
  by (cases "(fin, F)" rule: focus_left.cases) auto

lemma left_worker:
  assumes "is_worker K q" "link_left l < link_left (y_link y q)" "y_link y' = (y_link y)(q := l)" "y_root y' = y_root y" "y_focus y' = y_focus y"
  shows "call_left K y' < call_left K y"
  using links_left_upd [OF assms(1), of "y_link y" l] assms(2-5) by (simp add: call_left_def)

lemma left_message:
  assumes "is_worker K q" "work_left c < work_left (y_sched y)" "link_left l \<le> link_left (y_link y q) + 3" "y_focus y = FAny at \<or> y_focus y = FPay at p m"
  shows "call_left K (root_to F (y_root y\<lparr>rs_sched := c\<rparr>) (set_link q l y)) < call_left K y"
  using links_left_upd [OF assms(1), of "y_link y" l] assms(2-4) focus_left_max [of "is_finished c" F] by (auto simp: call_left_def)

lemma left_work:
  assumes g: "good K n y" and a: "after_root K (y_root y) = (mr, s)"
  shows "work_left (rs_sched s) < work_left (y_sched y) \<or> \<not> mr \<and> rs_sched s = y_sched y"
  by (rule root_work [OF g]) (use a in auto)

lemma links_gone:
  assumes "good K n y" "is_finished (y_sched y)" "is_worker K q"
  shows "y_link y q = LGone"
proof -
  have "lanes K y q = Some (lane_of (y_link y q))" using assms(3) by (simp add: lanes_def)
  then have "lane_of (y_link y q) = LaneDrained" using finished_iff [OF goodD(2) [OF assms(1)]] assms(2) by blast
  then show ?thesis by (simp add: lane_of_inv)
qed

lemma waits_for_someone:
  assumes g: "good K n y" and np: "cl_np K \<noteq> 1" and a: "after_root K (y_root y) = (mr, s)" and f: "\<not> is_finished (rs_sched s)"
  shows "\<exists>q. is_worker K q \<and> y_link y q \<noteq> LGone"
proof (rule ccontr)
  assume no: "\<not> ?thesis"
  define q where "q = (if cl_root K = 0 then 1 else 0 :: int)"
  have "is_worker K q" using np call_okD(4) [OF goodD(1) [OF g]] by (auto simp: q_def is_worker_def in_comm_def)
  then have st: "failed (y_sched y) \<or> pending (y_sched y) = []" using workD(4) [OF goodD(7) [OF g], of q] no by auto
  have gone: "lanes K y p = Some l \<Longrightarrow> l = LaneDrained" for p l using no by (auto simp: lanes_def split: if_splits)
  show False
    by (rule root_work [OF g]) (use a f gone st finished_iff in \<open>fastforce+\<close>)
qed

lemma keep_step:
  assumes g: "good K n y" and step: "call_step K y y'"
  shows "(\<exists>n'. good K n' y') \<and> call_left K y' < call_left K y"
  using step
proof cases
  case (take_task q m)
  then show ?thesis using keep_take_task [OF g] left_worker [of K q "LPay m" y y'] by auto
next
  case (run_task q m)
  then show ?thesis using keep_run_task [OF g] left_worker [of K q "LResult m" y y'] by auto
next
  case (take_stop q)
  then show ?thesis using keep_take_stop [OF g] left_worker [of K q LDrain y y'] by auto
next
  case (solo s)
  have "work_left (rs_sched s) < work_left (y_sched y)" using left_work [OF g solo(4)] by simp
  then show ?thesis using solo keep_root_work [OF g solo(4), of "FTurn RTop"] by (auto simp: call_left_def)
next
  case (solo_end s rs)
  have no: "\<And>q. \<not> is_worker K q" using single_rank [OF goodD(1) [OF g] solo_end(3)] .
  have fin: "is_finished (rs_sched s)"
    by (rule root_work [OF g]) (use solo_end(4) no finished_iff in \<open>fastforce simp: lanes_def\<close>)+
  have "\<exists>n'. good K n' y'" unfolding solo_end(1)
    using keep_root_work [OF g solo_end(4), of "FEnd rs"] solo_end(2,5) no fin by simp
  moreover have "call_left K y' < call_left K y" using solo_end(1,2) left_work [OF g solo_end(4)] by (auto simp: call_left_def)
  ultimately show ?thesis by blast
next
  case (top_end rs)
  have "good K n y'" unfolding top_end(1) using keep_root_still [OF g, of "FEnd rs"] links_gone [OF g top_end(4)] top_end(2,4,5) by simp
  then show ?thesis using top_end by (auto simp: call_left_def)
next
  case top
  have "good K n y'" unfolding top(1) using keep_root_still [OF g, of "FTurn (RServe 0)"] top(2,3) by simp
  then show ?thesis using top by (auto simp: call_left_def)
next
  case (look k)
  have "cl_np K \<noteq> 1" using goodD(4) [OF g] look(2) by simp
  then have "good K n y'" unfolding look(1) using keep_root_still [OF g, of "FProbe k"] look(2) by simp
  then show ?thesis using look by (auto simp: call_left_def)
next
  case (hit k q)
  have "cl_np K \<noteq> 1" "y_link y q \<noteq> LGone" using goodD(4) [OF g] hit(2,4) by auto
  then have "good K n y'" unfolding hit(1) using keep_root_still [OF g, of "FAny (RServe (Suc k))"] hit(2,3) by auto
  then show ?thesis using hit by (auto simp: call_left_def)
next
  case (miss_end k)
  have "good K n y'" unfolding miss_end(1) using keep_root_still [OF g, of "FTurn RTop"] miss_end(2) by simp
  then show ?thesis using miss_end by (auto simp: call_left_def)
next
  case (miss_work mr s)
  then show ?thesis using keep_root_work [OF g miss_work(4), of "FTurn RTop"] left_work [OF g miss_work(4)] by (auto simp: call_left_def)
next
  case (miss_wait mr s)
  have np: "cl_np K \<noteq> 1" using goodD(4) [OF g] miss_wait(2) by simp
  have "\<exists>n'. good K n' y'" unfolding miss_wait(1)
    using keep_root_work [OF g miss_wait(4), of "FAny RTop"] waits_for_someone [OF g np miss_wait(4,5)] np miss_wait(2) by simp
  then show ?thesis using miss_wait left_work [OF g miss_wait(4)] by (auto simp: call_left_def)
next
  case (ready_task at q c b)
  then show ?thesis using keep_ready_task [OF g] left_message [of K q c y "LTask (metadata b)" at] by fastforce
next
  case (ready_stop at q c)
  then show ?thesis using keep_ready_stop [OF g] left_message [of K q c y LStop at] by fastforce
next
  case (take_result at q m)
  then show ?thesis using keep_take_result [OF g] links_left_upd [of K q "y_link y" "LHalf m"] by (auto simp: call_left_def)
next
  case (drained at q c)
  then show ?thesis using keep_drained [OF g] left_message [of K q c y LGone at] by fastforce
next
  case (finish at q m vs c cm)
  then show ?thesis using keep_finish [OF g] left_message [of K q c y LReady at q m] by fastforce
next
  case (fault at q m i c cm)
  then show ?thesis using keep_fault [OF g] left_message [of K q c y LReady at q m] by fastforce
qed

end
