(* ===== verification/PmapOrder.thy ===== *)
theory PmapOrder
  imports PmapRun
begin

text \<open>
  Why blocking sends do not block a call of \<open>pmap\<close>. A rank sends the payload of a task or a result right after its header, and
  nothing else in between; this holds of the trees of all ranks (\<open>tidy\<close>) and of their messages under way (\<open>orderly\<close>). So a rank that waits
  in a send waits for a receiver that is at, or comes to, the matching receive: while the root and the workers work there
  is always a step that needs no buffer.
\<close>

section \<open>Headers and payloads\<close>

definition announces :: "bytes \<Rightarrow> bool" where
  "announces bs \<longleftrightarrow> (case header_decode bs of Inl _ \<Rightarrow> False | Inr h \<Rightarrow> hd_kind h = MkTask \<or> hd_kind h = MkResult)"

text \<open>\<open>owed\<close>: the rank that has been sent a header whose payload has to follow.\<close>

primrec tidy :: "'a proc \<Rightarrow> int option \<Rightarrow> bool" where
  "tidy (PRet a) owed \<longleftrightarrow> owed = None"
| "tidy (PSend d t bs p) owed \<longleftrightarrow> (case owed of
       None \<Rightarrow> t = HEADER_TAG \<and> tidy p (if announces bs then Some d else None)
     | Some e \<Rightarrow> d = e \<and> t = PAYLOAD_TAG \<and> tidy p None)"
| "tidy (PRecv s t k) owed \<longleftrightarrow> owed = None \<and> (\<forall>bs. tidy (k bs) None)"
| "tidy (PRecvAny t j) owed \<longleftrightarrow> owed = None \<and> (\<forall>m. tidy (j m) None)"
| "tidy (PProbe t l) owed \<longleftrightarrow> owed = None \<and> (\<forall>s. tidy (l s) None)"
| "tidy (PReduce op v m) owed \<longleftrightarrow> owed = None \<and> (\<forall>x. tidy (m x) None)"
| "tidy (PBcast r v n) owed \<longleftrightarrow> owed = None \<and> (\<forall>b. tidy (n b) None)"
| "tidy (PTryJoin g) owed \<longleftrightarrow> owed = None \<and> (\<forall>a. tidy (g a) None)"
| "tidy (PJoin i) owed \<longleftrightarrow> owed = None \<and> (\<forall>b. tidy (i b) None)"
| "tidy (PAbort code) owed \<longleftrightarrow> owed = None"
| "tidy PPanic owed \<longleftrightarrow> owed = None"

lemma tidy_pbind: "tidy p owed \<Longrightarrow> (\<And>a. tidy (f a) None) \<Longrightarrow> tidy (pbind p f) owed"
  by (induction p arbitrary: owed) (auto split: option.splits)

lemma tidy_ptry: "tidy p None \<Longrightarrow> (\<And>a. tidy (f a) None) \<Longrightarrow> tidy (ptry p f) None"
  unfolding ptry_def by (rule tidy_pbind) (auto split: sum.splits)

lemma tidy_plift: "(\<And>a. r = Inr a \<Longrightarrow> tidy (f a) None) \<Longrightarrow> tidy (plift r f) None"
  by (cases r) simp_all

lemma tidy_psched: "(\<And>a. tidy (k a) None) \<Longrightarrow> tidy (psched E r k) None"
  by (auto simp: psched_def split: sum.splits fault.splits)

lemma announces_header:
  assumes "header_new k st bid n len = Ok h"
  shows "announces (header_encode h) \<longleftrightarrow> k = MkTask \<or> k = MkResult"
proof -
  have "header_valid h" "hd_kind h = k"
    using assms by (auto simp: header_new_def header_valid_def validate_status_def validate_payload_len_def split: if_splits)
  then show ?thesis by (simp add: announces_def header_decode_encode)
qed

lemma tidy_send_frame: "k = MkTask \<or> k = MkResult \<Longrightarrow> tidy (send_frame E enc r k st bid n v) None"
  unfolding send_frame_def
  by (intro tidy_plift) (auto simp: pm_header_def send_header_def announces_header)

lemma tidy_send_empty: "k \<noteq> MkTask \<Longrightarrow> k \<noteq> MkResult \<Longrightarrow> tidy (send_empty E r k bid) None"
  unfolding send_empty_def
  by (intro tidy_plift) (auto simp: pm_header_def send_header_def announces_header)

lemma tidy_receive:
  "tidy (receive_header E r) None" "tidy (receive_any_header E) None" "tidy (receive_payload E dec r h) None"
  by (auto simp: receive_header_def receive_any_header_def receive_payload_def intro!: tidy_plift split: prod.splits)

lemmas tidy_parts = tidy_pbind tidy_ptry tidy_plift tidy_psched tidy_send_frame tidy_send_empty tidy_receive

section \<open>The programs\<close>

lemma tidy_preflight: "tidy (preflight E rt r np opts hi tm ev) None"
  unfolding preflight_def Let_def by (auto intro!: tidy_plift)

lemma tidy_worker_turn: "tidy (worker_turn E f rank np root s) None"
proof -
  have run: "tidy (task_run E f rank np root h items s) None" for h items
    unfolding task_run_def by (auto intro!: tidy_parts split: prod.splits sum.splits fault.splits)
  have unreadable: "tidy (task_unreadable E rank np root h e s) None" for h e
    unfolding task_unreadable_def Let_def by (auto intro!: tidy_parts)
  have "tidy (worker_header E f rank np root s h) None" for h
    unfolding worker_header_def by (auto intro!: tidy_parts run unreadable split: message_kind.splits sum.splits)
  then show ?thesis unfolding worker_turn_def by (intro tidy_parts) simp_all
qed

lemma tidy_root_turn: "tidy (root_turn E f n rank np at s) None"
proof -
  have own: "tidy (execute_root_batch E f rank np s) None" for np s
    unfolding execute_root_batch_def by (auto intro!: tidy_parts split: prod.splits option.splits sum.splits fault.splits)
  have bad: "tidy (root_protocol_error E n rank np source e s) None" for source e s
    unfolding root_protocol_error_def by (auto intro!: tidy_parts split: prod.splits)
  have result: "tidy (root_result E n rank np source h payload s) None" for source h payload s
    unfolding root_result_def by (auto intro!: tidy_parts bad split: prod.splits message_status.splits result_payload.splits)
  have header: "tidy (process_remote_header E n rank np source h s) None" for source h s
    unfolding process_remote_header_def
    by (auto intro!: tidy_parts bad result split: message_kind.splits prod.splits dispatch.splits sum.splits)
  have serve: "tidy (serve_one E n rank np s) None" for s
    unfolding serve_one_def by (auto intro!: tidy_parts header split: prod.splits)
  show ?thesis
    unfolding root_turn_def by (auto intro!: tidy_parts own serve split: root_at.splits prod.splits)
qed

lemma tidy_finish: "tidy (pmap_finish rank np root out) None"
  unfolding pmap_finish_def convergence_def broadcast_error_def Let_def
  by (auto intro!: tidy_parts split: prod.splits option.splits sum.splits)

lemma tidy_body: "tidy (call_body K r s) None"
  unfolding call_body_def pmap_program_def
  by (auto intro!: tidy_pbind tidy_preflight tidy_worker_turn tidy_root_turn tidy_finish split: pmap_phase.splits sum.splits option.splits ctl.splits prod.splits)

definition all_tidy :: "('s, 'r) world \<Rightarrow> bool" where
  "all_tidy w \<longleftrightarrow> (\<forall>r. \<exists>owed. tidy (procs w r) owed)"

lemma tidy_step:
  assumes "mpi_step (cl_np K) (call_body K) w w'" "all_tidy w"
  shows "all_tidy w'"
proof -
  have after: "tidy p owed \<Longrightarrow> all_tidy (set_proc r p w)" for r p owed using assms(2) by (auto simp: all_tidy_def)
  have queue: "all_tidy (set_queue q bss u) = all_tidy u" for q bss and u :: "(('a, 'b, 'c) pmap_phase, 'b pmap_result) world" by (simp add: all_tidy_def)
  have all: "(\<And>r. in_comm (cl_np K) r \<Longrightarrow> tidy (ps r) None) \<Longrightarrow> all_tidy (set_procs (cl_np K) ps w)" for ps
    using assms(2) by (auto simp: all_tidy_def)
  note was = assms(2) [unfolded all_tidy_def, rule_format]
  from assms(1) show ?thesis
  proof cases
    case (send r d t bs p)
    obtain owed where "tidy (procs w r) owed" using was by blast
    then show ?thesis using after [of p _ r] send by (auto simp: queue split: option.splits)
  next
    case (recv r s t k bs bss)
    then show ?thesis using after [of "k bs" None r] was [of r] by (auto simp: queue)
  next
    case (recv_any r t j s bs bss)
    then show ?thesis using after [of "j (s, bs)" None r] was [of r] by (auto simp: queue)
  next
    case (all_reduce op v m)
    have "tidy (m r x) None" if "in_comm (cl_np K) r" for r x using was [of r] all_reduce(2) [OF that] by auto
    then show ?thesis unfolding all_reduce(1) by (intro all)
  next
    case (broadcast root b n)
    have "tidy (n r x) None" if "in_comm (cl_np K) r" for r x using was [of r] broadcast(3) [OF that] by auto
    then show ?thesis unfolding broadcast(1) by (intro all)
  next
    case (probe_hit r t l s)
    then show ?thesis using after [of "l (Some s)" None r] was [of r] by auto
  next
    case (probe_pending r t l s bs p)
    then show ?thesis using after [of "l (Some s)" None r] was [of r] by auto
  next
    case (probe_miss r t l)
    then show ?thesis using after [of "l None" None r] was [of r] by auto
  next
    case (try_join r g a)
    then show ?thesis using after [of "g a" None r] was [of r] by auto
  next
    case (join r i)
    then show ?thesis using after [of "i True" None r] was [of r] by auto
  next
    case (loop r s)
    then show ?thesis using after [OF tidy_body, of r] by simp
  qed
qed

lemma tidy_reach: "mpi_reach (cl_np K) (call_body K) call_start w \<Longrightarrow> all_tidy w"
proof (induction rule: mpi_reach.induct)
  case refl
  show ?case by (auto simp: call_start_def mpi_start_def all_tidy_def)
qed (rule tidy_step)

section \<open>Messages under way\<close>

fun orderly :: "int option \<Rightarrow> (int \<times> int \<times> bytes) list \<Rightarrow> bool" where
  "orderly None [] \<longleftrightarrow> True"
| "orderly (Some e) [] \<longleftrightarrow> False"
| "orderly None ((d, t, bs) # ms) \<longleftrightarrow> t = HEADER_TAG \<and> orderly (if announces bs then Some d else None) ms"
| "orderly (Some e) ((d, t, bs) # ms) \<longleftrightarrow> d = e \<and> t = PAYLOAD_TAG \<and> orderly None ms"

lemma orderly_append: "orderly owed ms \<Longrightarrow> orderly None ns \<Longrightarrow> orderly owed (ms @ ns)"
  by (induction owed ms rule: orderly.induct) auto

lemma tidy_sends: "tidy p owed \<Longrightarrow> orderly owed (sends p)"
  by (induction p arbitrary: owed) (auto split: option.splits)

lemma tidy_dues:
  assumes "tidy p owed"
  shows "orderly owed (dues K r p)"
  unfolding due_sends_def
  by (rule orderly_append [OF tidy_sends [OF assms]]) (auto intro: tidy_sends [OF tidy_body] split: option.splits)

text \<open>To each rank go as many payloads as headers that announce one, and one more when it is owed.\<close>

lemma orderly_count:
  "orderly owed ms \<Longrightarrow> length (msgs d PAYLOAD_TAG ms) = length (filter announces (msgs d HEADER_TAG ms)) + (if owed = Some d then 1 else 0)"
  by (induction owed ms rule: orderly.induct) auto

section \<open>No rank is stranded in a send\<close>

text \<open>The calls of a world in which no step is sure, as its view shows them.\<close>

lemma seen_way: "view_of (call_body K) pm_hot w = v \<Longrightarrow> way v (r, d, t) = net w (r, d, t) @ msgs d t (dues K r (procs w r))"
  by (auto simp: view_of_def)

lemma stuck_rank:
  assumes "\<nexists>w'. mpi_sure (cl_np K) (call_body K) w w'" "view_of (call_body K) pm_hot w = v" "in_comm (cl_np K) r"
  obtains (sending) d t bs p where "procs w r = PSend d t bs p" "way v (r, d, t) \<noteq> []"
  | (waits) "procs w r = stops v r" "\<And>d t. way v (r, d, t) = net w (r, d, t)"
  using pm.halted [OF assms(1,3)] assms(2) that by (auto simp: view_of_def)

lemma stuck_recv:
  assumes "\<nexists>w'. mpi_sure np body w w'" "in_comm np r" "procs w r = PRecv s t k"
  shows "net w (s, r, t) = []" "in_comm np s \<Longrightarrow> procs w s \<noteq> PSend r t bs p"
  using assms sure_intros(1) [of np r w s t k body] mpi_sure.meet [of np s w r t bs p k body] by blast+

lemma worker_waits:
  assumes g: "good K n y" and q: "is_worker K q"
  shows "\<exists>k. (case y_link y q of
      LPay m \<Rightarrow> worker_stop K q (y_link y q) (y_ws y q) = PRecv (cl_root K) PAYLOAD_TAG k
    | LDrain \<Rightarrow> True
    | LGone \<Rightarrow> True
    | _ \<Rightarrow> worker_stop K q (y_link y q) (y_ws y q) = PRecv (cl_root K) HEADER_TAG k)"
proof (cases "y_link y q")
  case (LPay m)
  then have "is_batch K (original_indices m)" using goodD(5) [OF g q] by simp
  then show ?thesis using LPay paying_recv [OF goodD(1) [OF g], of q m "y_ws y q"] q by (auto simp: is_worker_def)
qed (simp_all add: waiting_def)

lemma announces_frames:
  assumes "good K n y" "is_worker K q" "link_meta (y_link y q) = Some m"
  shows "announces (header_encode (task_hdr K m))" "announces (header_encode (reply_hdr K m))"
  using header_decode_task [OF goodD(1,5) [OF assms(1)], of q m] assms(2,3) by (simp_all add: announces_def task_hdr_def reply_hdr_def)

lemma announces_bare: "\<not> announces (header_encode (bare MkReady))" "\<not> announces (header_encode (bare MkStop))" "\<not> announces (header_encode (bare MkDrain))"
  by (simp_all add: announces_def)

text \<open>The root waits in a send: its worker is at the receive.\<close>

lemma root_send_met:
  assumes g: "good K n y" and v: "view_of (call_body K) pm_hot w = shape K y" and tidy: "all_tidy w" and send: "procs w (cl_root K) = PSend q t bs p"
  shows "\<exists>w'. mpi_sure (cl_np K) (call_body K) w w'"
proof (rule ccontr)
  assume stuck: "\<not> ?thesis"
  note root = call_okD(1) [OF goodD(1) [OF g]]
  have way: "way (shape K y) (cl_root K, d, t') = net w (cl_root K, d, t') @ msgs d t' (dues K (cl_root K) (PSend q t bs p))" for d t'
    using seen_way [OF v, of "cl_root K"] send by simp
  have q: "is_worker K q" using way [of q t] by (auto simp: shape_def split: if_splits)
  then have comm: "in_comm (cl_np K) q" by (simp add: is_worker_def)
  note down = way [of q, unfolded shape_way_down [OF q]]
  have link: "y_link y q \<in> {LStop} \<union> range LTask \<union> range LPay" using down [of t] by (cases "y_link y q") (auto simp: by_tag_def split: if_splits)
  have "procs w q = stops (shape K y) q"
    by (rule stuck_rank [OF stuck v comm]) (use link q in \<open>auto simp: shape_def is_worker_def by_tag_def split: if_splits\<close>)
  then have at: "procs w q = worker_stop K q (y_link y q) (y_ws y q)" using shape_stop_worker [OF q] by simp
  obtain owed where o: "tidy (PSend q t bs p) owed" using tidy send by (metis all_tidy_def)
  have t: "t = (if owed = None then HEADER_TAG else PAYLOAD_TAG)" "owed = None \<or> owed = Some q" using o by (auto split: option.splits)
  note count = orderly_count [OF tidy_dues [OF o], of q K "cl_root K"]
  obtain k where k: "case y_link y q of LPay m \<Rightarrow> worker_stop K q (y_link y q) (y_ws y q) = PRecv (cl_root K) PAYLOAD_TAG k
    | LDrain \<Rightarrow> True | LGone \<Rightarrow> True | _ \<Rightarrow> worker_stop K q (y_link y q) (y_ws y q) = PRecv (cl_root K) HEADER_TAG k"
    using worker_waits [OF g q] by blast
  show False
  proof (cases "y_link y q")
    case (LTask m)
    then have at: "procs w q = PRecv (cl_root K) HEADER_TAG k" using at k by simp
    note no = stuck_recv [OF stuck comm at] 
    have "t = PAYLOAD_TAG" using no(2) [OF root, of bs p] send t(1) by (auto split: if_splits)
    then have "owed = Some q" using t by (auto split: if_splits)
    moreover have "msgs q HEADER_TAG (dues K (cl_root K) (PSend q t bs p)) = [header_encode (task_hdr K m)]"
      using down [of HEADER_TAG] no(1) LTask by (simp add: by_tag_upd)
    moreover have "length (msgs q PAYLOAD_TAG (dues K (cl_root K) (PSend q t bs p))) \<le> 1"
      using arg_cong [OF down [of PAYLOAD_TAG], of length] LTask by (simp add: by_tag_upd)
    ultimately show ?thesis using count LTask announces_frames(1) [OF g q, of m] by simp
  next
    case (LPay m)
    then have at: "procs w q = PRecv (cl_root K) PAYLOAD_TAG k" using at k by simp
    note no = stuck_recv [OF stuck comm at]
    have "t = HEADER_TAG" using no(2) [OF root, of bs p] send t(1) by (auto split: if_splits)
    then show ?thesis using down [of HEADER_TAG] LPay by (simp add: by_tag_upd)
  next
    case LStop
    then have at: "procs w q = PRecv (cl_root K) HEADER_TAG k" using at k by simp
    note no = stuck_recv [OF stuck comm at]
    have "t = PAYLOAD_TAG" using no(2) [OF root, of bs p] send t(1) by (auto split: if_splits)
    then show ?thesis using down [of PAYLOAD_TAG] LStop by (simp add: by_tag_upd)
  qed (use link in auto)
qed

text \<open>A worker waits in a send, and the root is at a receive: it is the matching one.\<close>

lemma worker_owes:
  assumes g: "good K n y" and v: "view_of (call_body K) pm_hot w = shape K y" and tidy: "all_tidy w" and q: "is_worker K q"
    and send: "procs w q = PSend d t bs p" and net: "net w (q, cl_root K, HEADER_TAG) = []" and link: "\<And>m. y_link y q \<noteq> LHalf m"
  shows "d = cl_root K \<and> t = HEADER_TAG"
proof -
  have way: "way (shape K y) (q, d', t') = net w (q, d', t') @ msgs d' t' (dues K q (PSend d t bs p))" for d' t'
    using seen_way [OF v, of q] send by simp
  have d: "d = cl_root K" using way [of d t] q by (auto simp: shape_def is_worker_def split: if_splits)
  note up = way [of "cl_root K", unfolded shape_way_up [OF q]]
  obtain owed where o: "tidy (PSend d t bs p) owed" using tidy send by (metis all_tidy_def)
  note count = orderly_count [OF tidy_dues [OF o], of d K q]
  have "owed = None"
  proof (rule ccontr)
    assume "owed \<noteq> None"
    then have "owed = Some d" using o by (auto split: option.splits)
    then have c: "length (msgs d PAYLOAD_TAG (dues K q (PSend d t bs p))) = Suc (length (filter announces (up_head K (y_link y q))))"
      using count up [of HEADER_TAG] net d by (simp add: by_tag_upd)
    have "length (msgs d PAYLOAD_TAG (dues K q (PSend d t bs p))) \<le> length (up_pay K (y_link y q))" using up [of PAYLOAD_TAG] d by (simp add: by_tag_upd)
    then show False using c link announces_frames(2) [OF g q] by (cases "y_link y q") (auto split: if_splits)
  qed
  then show ?thesis using o d by simp
qed

lemma filter_rest: "[x] = xs @ ys \<Longrightarrow> \<not> P x \<Longrightarrow> filter P ys = []"
  by (cases xs) auto

lemma worker_owes_payload:
  assumes v: "view_of (call_body K) pm_hot w = shape K y" and tidy: "all_tidy w" and q: "is_worker K q"
    and send: "procs w q = PSend d t bs p" and net: "net w (q, cl_root K, PAYLOAD_TAG) = []" and link: "y_link y q = LHalf m"
  shows "d = cl_root K \<and> t = PAYLOAD_TAG"
proof -
  have way: "way (shape K y) (q, d', t') = net w (q, d', t') @ msgs d' t' (dues K q (PSend d t bs p))" for d' t'
    using seen_way [OF v, of q] send by simp
  have d: "d = cl_root K" using way [of d t] q by (auto simp: shape_def is_worker_def split: if_splits)
  note up = way [of "cl_root K", unfolded shape_way_up [OF q]]
  obtain owed where o: "tidy (PSend d t bs p) owed" using tidy send by (metis all_tidy_def)
  note count = orderly_count [OF tidy_dues [OF o], of d K q]
  have "[header_encode (bare MkReady)] = net w (q, cl_root K, HEADER_TAG) @ msgs d HEADER_TAG (dues K q (PSend d t bs p))"
    using up [of HEADER_TAG] link d by (simp add: by_tag_upd)
  then have "filter announces (msgs d HEADER_TAG (dues K q (PSend d t bs p))) = []"
    by (rule filter_rest [where P = announces]) (rule announces_bare(1))
  moreover have "length (msgs d PAYLOAD_TAG (dues K q (PSend d t bs p))) = 1"
    using arg_cong [OF up [of PAYLOAD_TAG], of length] net link d by (simp add: by_tag_upd)
  ultimately have "owed = Some d" using count by (auto split: if_splits)
  then show ?thesis using o d by simp
qed

lemma working_sure:
  assumes g: "good K n y" and F: "\<And>rs. y_focus y \<noteq> FEnd rs" and v: "view_of (call_body K) pm_hot w = shape K y" and tidy: "all_tidy w"
  shows "\<exists>w'. mpi_sure (cl_np K) (call_body K) w w'"
proof (rule ccontr)
  assume stuck: "\<not> ?thesis"
  note root = call_okD(1) [OF goodD(1) [OF g]] and rk = root_kinds [OF g]
  have at: "procs w (cl_root K) = stops (shape K y) (cl_root K)" and away: "\<And>d t. way (shape K y) (cl_root K, d, t) = net w (cl_root K, d, t)"
    by (rule stuck_rank [OF stuck v root]; use root_send_met [OF g v tidy] stuck in blast)+
  show False
  proof (cases "y_focus y")
    case (FTurn a)
    then show ?thesis using stuck sure_intros(4) [OF root, of w _ "call_body K"] rk at by auto
  next
    case (FProbe k)
    then show ?thesis using stuck sure_intros(3) [OF root, of w HEADER_TAG _ "call_body K"] rk at by auto
  next
    case (FPay a q m)
    then have q: "is_worker K q" "y_link y q = LHalf m" using goodD(4) [OF g] by auto
    then have comm: "in_comm (cl_np K) q" by (simp add: is_worker_def)
    obtain k where k: "procs w (cl_root K) = PRecv q PAYLOAD_TAG k" using FPay rk at by auto
    note no = stuck_recv [OF stuck root k]
    have "way (shape K y) (q, cl_root K, PAYLOAD_TAG) \<noteq> []" using shape_way_up [OF q(1)] q(2) by (simp add: by_tag_upd)
    with stuck_rank [OF stuck v comm] no(1) obtain d t bs p where "procs w q = PSend d t bs p" by metis
    then show ?thesis using worker_owes_payload [OF v tidy q(1) _ no(1) q(2)] no(2) [OF comm] by metis
  next
    case (FAny a)
    obtain j where j: "procs w (cl_root K) = PRecvAny HEADER_TAG j" using FAny rk at by auto
    obtain q where q: "is_worker K q" "y_link y q \<noteq> LGone" using goodD(4) [OF g] FAny by auto
    then have comm: "in_comm (cl_np K) q" by (simp add: is_worker_def)
    have half: "y_link y q \<noteq> LHalf m" for m using goodD(6) [OF g q(1), of m] FAny by auto
    have net: "net w (q, cl_root K, HEADER_TAG) = []" using stuck sure_intros(2) [OF root j comm, of "call_body K"] by blast
    have no: "procs w q \<noteq> PSend (cl_root K) HEADER_TAG bs p" for bs p using stuck mpi_sure.meet_any [OF comm _ root j net, of bs p "call_body K"] by blast
    have stop: "procs w q = worker_stop K q (y_link y q) (y_ws y q)" "up_head K (y_link y q) = []"
    proof -
      have "procs w q = stops (shape K y) q \<and> way (shape K y) (q, cl_root K, HEADER_TAG) = []"
        by (rule stuck_rank [OF stuck v comm]) (use worker_owes [OF g v tidy q(1) _ net half] no net in auto)
      then show "procs w q = worker_stop K q (y_link y q) (y_ws y q)" "up_head K (y_link y q) = []"
        using shape_stop_worker [OF q(1), of y] shape_way_up [OF q(1), of y HEADER_TAG] by (simp_all add: by_tag_upd)
    qed
    have down: "net w (cl_root K, q, t) = by_tag (down_head K (y_link y q)) (down_pay K (y_link y q)) t" for t
      using away [of q t] shape_way_down [OF q(1), of y t] by simp
    show ?thesis
      using worker_waits [OF g q(1)] stop q(2) half down [of HEADER_TAG] down [of PAYLOAD_TAG] stuck_recv(1) [OF stuck comm]
      by (cases "y_link y q") (auto simp: by_tag_upd)
  qed (use F in simp)
qed

end
