(* ===== verification/PmapProps.thy ===== *)
theory PmapProps
  imports PmapKeep PmapOrder
begin

text \<open>
  The collective \<open>pmap\<close> over MPI as a whole: the ranks agree on the options, the root hands out batches and the workers
  run them, the ranks agree on the least error, and all return. A world is in one of these three phases; each step stays in
  its phase and comes nearer to its end or goes to the next one.
\<close>

section \<open>The agreement at the start\<close>

definition preflight_answers :: "int \<Rightarrow> mpi_options \<Rightarrow> answer list" where
  "preflight_answers np opts = map AInt [mo_root opts, mo_root opts, int (mo_batch_size opts), int (mo_batch_size opts),
     exec_mode_code (mo_local_mode opts), exec_mode_code (mo_local_mode opts), if mo_prefetch opts then 1 else 0, if mo_prefetch opts then 1 else 0, np]"

lemma preflight_collects:
  assumes np: "1 \<le> np" and root: "in_comm np (mo_root opts)"
    and ok: "\<And>r. in_comm np r \<Longrightarrow> tm r \<and> ev r \<and> (r = mo_root opts) = hi r" and F: "\<And>r. in_comm np r \<Longrightarrow> F r = k r (Ok ())"
  shows "collects np (\<lambda>r. pbind (preflight E rt r np opts (hi r) (tm r) (ev r)) (k r)) (preflight_answers np opts) F"
proof -
  have last: "collects np (\<lambda>r. pbind (plift (res_map_err (wire_failure E) (preflight_candidate
        (\<not> (tm r \<and> 0 \<le> mo_root opts \<and> mo_root opts < np \<and> (r = mo_root opts) = hi r \<and> ev r)) r np)) (\<lambda>candidate.
          PReduce RedMin candidate (\<lambda>failing_rank. if failing_rank \<noteq> np
            then PRet (Err (pmap_error_new PmPreflight (lit ''pmap preflight failed on rank '' @ rt failing_rank))) else PRet (Ok ())))) (k r)) [AInt np] F"
    (is "collects np ?T _ F")
  proof -
    have T: "?T r = PReduce RedMin np (\<lambda>x. pbind (if x \<noteq> np then PRet (Err (pmap_error_new PmPreflight (lit ''pmap preflight failed on rank '' @ rt x))) else PRet (Ok ())) (k r))"
      if "in_comm np r" for r
      using ok [OF that] that root by (simp add: preflight_candidate_def validate_world_rank_def in_comm_def)
    have "collects np ?T [AInt np] F \<longleftrightarrow> collects np (\<lambda>r. PReduce RedMin np (\<lambda>x. pbind (if x \<noteq> np
        then PRet (Err (pmap_error_new PmPreflight (lit ''pmap preflight failed on rank '' @ rt x))) else PRet (Ok ())) (k r))) [AInt np] F"
      by (rule collects_cong) (rule T)
    also have "\<dots>" using np F by (intro collects_IntI [OF HOL.refl]) simp_all
    finally show ?thesis .
  qed
  show ?thesis
    unfolding preflight_answers_def preflight_def Let_def list.map pbind.simps
    using np last by (intro collects_IntI [OF HOL.refl]) simp_all
qed

section \<open>The beginning of the work\<close>

lemma add_remotes_new:
  assumes "distinct ranks" "\<And>r. r \<in> set ranks \<Longrightarrow> 0 \<le> r \<and> r \<noteq> root \<and> hm_get m r = None"
  shows "\<exists>m'. add_remotes root m ranks = Ok m' \<and> (\<forall>q. hm_get m' q = (if q \<in> set ranks then Some LaneIdle else hm_get m q))"
  using assms
proof (induction ranks arbitrary: m)
  case (Cons rank ranks)
  have "\<exists>m'. add_remotes root (hm_insert rank LaneIdle m) ranks = Ok m'
      \<and> (\<forall>q. hm_get m' q = (if q \<in> set ranks then Some LaneIdle else hm_get (hm_insert rank LaneIdle m) q))"
    by (rule Cons.IH) (use Cons.prems in \<open>auto simp: hm_get_insert\<close>)
  then obtain m' where m': "add_remotes root (hm_insert rank LaneIdle m) ranks = Ok m'"
      "\<And>q. hm_get m' q = (if q \<in> set ranks then Some LaneIdle else hm_get (hm_insert rank LaneIdle m) q)" by blast
  have "add_remotes root m (rank # ranks) = Ok m'" using m'(1) Cons.prems(2) [of rank] by simp
  then show ?case using m'(2) by (auto simp: hm_get_insert)
qed simp

lemma enqueue_items_total: "i + length vs \<le> 2 ^ 64 \<Longrightarrow> \<exists>p. enqueue_items i vs = Ok p"
  by (induction vs arbitrary: i) fastforce+

lemma first_coordinator:
  assumes K: "call_ok (K :: ('t, 'u, 'h) pmap_call)"
  shows "\<exists>c :: ('t, 'u) coordinator. new_with_prefetch (cl_root K) (remote_ranks (cl_root K) (cl_np K)) (cl_items K) (cl_batch K) (mo_prefetch (cl_opts K)) = Ok c
    \<and> crew K (\<lambda>q. if is_worker K q then Some LaneIdle else None) c \<and> root_lane c = LaneIdle \<and> \<not> failed c \<and> pending c = remainder K 0"
proof -
  let ?ranks = "remote_ranks (cl_root K) (cl_np K)"
  have set: "q \<in> set ?ranks \<longleftrightarrow> is_worker K q" for q by (auto simp: remote_ranks_def is_worker_def in_comm_def)
  have dist: "distinct ?ranks" by (simp add: remote_ranks_def)
  have "\<exists>m'. add_remotes (cl_root K) [] ?ranks = Ok m' \<and> (\<forall>q. hm_get m' q = (if q \<in> set ?ranks then Some LaneIdle else hm_get [] q))"
    by (rule add_remotes_new [OF dist]) (use set in \<open>auto simp: is_worker_def in_comm_def\<close>)
  then obtain m where m: "add_remotes (cl_root K) [] ?ranks = Ok m" "\<And>q. hm_get m q = (if is_worker K q then Some LaneIdle else None)"
    using set by auto
  obtain p where p: "enqueue_items 0 (cl_items K) = Ok p" using enqueue_items_total [of 0 "cl_items K"] call_okD(6) [OF K] by auto
  have "\<not> cl_root K < 0" using call_okD(1) [OF K] by (simp add: in_comm_def)
  then obtain c :: "('t, 'u) coordinator" where c: "new_with_prefetch (cl_root K) ?ranks (cl_items K) (cl_batch K) (mo_prefetch (cl_opts K)) = Ok c"
    using m(1) p by (simp add: new_with_prefetch_def)
  note f = new_with_prefetch_fields [OF c]
  have "sched_inv (cl_items K) c" by (rule new_with_prefetch_inv [OF c call_okD(2) [OF K]])
  moreover have "values_inv (value_of K) (cl_items K) c" using f(2) by (simp add: values_inv_def)
  moreover have "hm_get (remotes c) = (\<lambda>q. if is_worker K q then Some LaneIdle else None)" using f(8) m by (auto simp: fun_eq_iff)
  ultimately show ?thesis using c f call_okD(3) [OF K] by (auto simp: crew_def remainder_def)
qed

definition call_entry :: "('t, 'u, 'h) pmap_call \<Rightarrow> ('t, 'u) coordinator \<Rightarrow> int \<Rightarrow> (('t, 'u, 'h) pmap_phase, 'u pmap_result) ctl proc" where
  "call_entry K c r = (if r = cl_root K then PRet (Again (PhRoot RTop (root_start c (in_fn (cl_input K r)))))
     else PRet (Again (PhWorker (worker_start (in_fn (cl_input K r))))))"

definition first_state :: "('t, 'u, 'h) pmap_call \<Rightarrow> ('t, 'u) coordinator \<Rightarrow> ('t, 'u, 'h) call_state" where
  "first_state K c = \<lparr>y_focus = FTurn RTop, y_root = root_start c (in_fn (cl_input K (cl_root K))), y_link = \<lambda>q. LReady,
     y_ws = \<lambda>q. worker_start (in_fn (cl_input K q))\<rparr>"

definition first_view :: "('t, 'u, 'h) pmap_call \<Rightarrow> (('t, 'u, 'h) pmap_phase, 'u pmap_result) view" where
  "first_view K = view_of (call_body K) pm_hot call_start"

abbreviation all_go :: "('t, 'u, 'h) pmap_call \<Rightarrow> (int \<Rightarrow> (('t, 'u, 'h) pmap_phase, 'u pmap_result) ctl proc) \<Rightarrow> (('t, 'u, 'h) pmap_phase, 'u pmap_result) view" where
  "all_go K T \<equiv> emit_all (call_body K) pm_hot (cl_np K) T (first_view K)"

lemma body_start: "\<exists>v m. call_body K r PhStart = PReduce RedMin v m"
  by (simp add: call_body_def pmap_program_def preflight_def Let_def)

lemma first_view_eqs: "way (first_view K) = (\<lambda>_. [])" "stops (first_view K) r = call_body K r PhStart"
  "stops (first_view K) r = stopping_at K r (PRet (Again PhStart))"
proof -
  have b: "sends (call_body K p PhStart) = []" "rest (call_body K p PhStart) = call_body K p PhStart" for p
    using body_start [of K p] by auto
  show "way (first_view K) = (\<lambda>_. [])" "stops (first_view K) r = call_body K r PhStart" "stops (first_view K) r = stopping_at K r (PRet (Again PhStart))"
    by (simp_all add: first_view_def view_of_def call_start_def mpi_start_def due_sends_def stop_of_def fun_eq_iff b)
qed

lemma first_view_go: "first_view K = all_go K (\<lambda>r. call_body K r PhStart)"
proof -
  have "stopping_at K r (call_body K r PhStart) = call_body K r PhStart" "dues K r (call_body K r PhStart) = []" for r
    using body_start [of K r] by auto
  then show ?thesis using first_view_eqs [of K] by (cases "first_view K") (auto simp: emit_all_def fun_eq_iff)
qed

lemma start_collects:
  assumes K: "call_ok (K :: ('t, 'u, 'h) pmap_call)"
  shows "\<exists>c. collects (cl_np K) (\<lambda>r. call_body K r PhStart) (preflight_answers (cl_np K) (cl_opts K)) (call_entry K c) \<and> good K 0 (first_state K c)"
proof -
  obtain c :: "('t, 'u) coordinator" where c: "new_with_prefetch (cl_root K) (remote_ranks (cl_root K) (cl_np K)) (cl_items K) (cl_batch K) (mo_prefetch (cl_opts K)) = Ok c"
      "crew K (\<lambda>q. if is_worker K q then Some LaneIdle else None) c" "root_lane c = LaneIdle" "\<not> failed c" "pending c = remainder K 0"
    using first_coordinator [OF K] by blast
  have "collects (cl_np K) (\<lambda>r. call_body K r PhStart) (preflight_answers (cl_np K) (cl_opts K)) (call_entry K c)"
  proof -
    have "collects (cl_np K) (\<lambda>r. pmap_program (cl_env K) (cl_text K) (cl_fn K) (cl_opts K) (cl_np K) (cl_input K) r PhStart) (preflight_answers (cl_np K) (cl_opts K)) (call_entry K c)"
      unfolding pmap_program_def pmap_phase.case
      by (rule preflight_collects) (use call_okD [OF K] c(1) in \<open>auto simp: call_entry_def\<close>)
    moreover have "call_body K r PhStart = pmap_program (cl_env K) (cl_text K) (cl_fn K) (cl_opts K) (cl_np K) (cl_input K) r PhStart" if "in_comm (cl_np K) r" for r
      using call_okD(14) [OF K that] by (simp add: call_body_def)
    ultimately show ?thesis by (simp cong: collects_cong)
  qed
  moreover have "lanes K (first_state K c) = (\<lambda>q. if is_worker K q then Some LaneIdle else None)"
    by (simp add: lanes_def first_state_def fun_eq_iff)
  then have "good K 0 (first_state K c)"
    unfolding good_def links_ok_def halves_ok_def work_ok_def errors_ok_def
    using K c by (auto simp: first_state_def root_start_def worker_start_def rank_error_def key_of_def err_of_def)
  ultimately show ?thesis by blast
qed

lemma entry_shape: "call_ok K \<Longrightarrow> all_go K (call_entry K c) = shape K (first_state K c)"
  using first_view_eqs(1,3) [of K] call_okD(1) [of K]
  by (auto simp: emit_all_def shape_def call_entry_def first_state_def is_worker_def by_tag_def fun_eq_iff worker_again)

section \<open>The agreement at the end\<close>

text \<open>What a rank returns when \<open>q\<close> is the rank that ran the first failing item.\<close>

definition pmap_answer :: "('t, 'u, 'h) pmap_call \<Rightarrow> int \<Rightarrow> int \<Rightarrow> 'u pmap_result" where
  "pmap_answer K q r = (case find (fails K) [0..<length (cl_items K)] of
       Some i \<Rightarrow> Err (pmap_error_keyed PmUser (failure_key K i q) (error_of K i))
     | None \<Rightarrow> Ok (if r = cl_root K then Some (map (value_of K) (cl_items K)) else None))"

lemma error_of_utf8:
  assumes "call_ok K" "i < length (cl_items K)" "fails K i"
  shows "utf8_valid (error_of K i)"
proof -
  obtain e where e: "cl_pure K (cl_items K ! i) = Err e" using assms(3) by (cases "cl_pure K (cl_items K ! i)") (auto simp: fails_def)
  have "utf8_valid e" by (rule call_okD(11) [OF assms(1) _ e]) (use assms(2) in simp)
  then show ?thesis using e utf8_valid_truncate by (simp add: error_of_def)
qed

lemma finish_error:
  assumes K: "call_ok K" and i: "i < length (cl_items K)" "fails K i" and q: "in_comm (cl_np K) q" and r: "in_comm (cl_np K) r"
    and key: "r = q \<Longrightarrow> key = failure_key K i q" "r = q \<Longrightarrow> e = Some (PmUser, error_of K i)"
  shows "\<exists>m. pmap_finish r (cl_np K) root (rs, key, e) = PReduce RedMin key m
    \<and> hears q r (m (failure_key K i q)) [BInt 2, BInt (failure_key K i q), BInt (int (length (error_of K i))), BBytes (error_of K i)]
         (PRet (Exit (Err (pmap_error_keyed PmUser (failure_key K i q) (error_of K i)))))"
proof -
  have sel: "failure_key K i q \<noteq> NO_ERROR_KEY" "\<not> failure_key K i q < 0" "\<not> cl_np K \<le> 0" "failure_key K i q mod cl_np K = q"
    using failure_not_none [OF K i(1) q] failure_key_ok(3) [OF K i(1) q] call_okD(4) [OF K] failure_key_mod [OF q] by simp_all
  have len: "length (error_of K i) \<le> MAX_ERROR_MESSAGE_BYTES" by (simp add: error_of_def length_truncate_message)
  then have "length (error_of K i) < 2 ^ 31" by (simp add: MAX_ERROR_MESSAGE_BYTES_def)
  then show ?thesis
    using sel len error_of_utf8 [OF K i] key
    by (cases "r = q") (simp_all add: pmap_finish_def convergence_def broadcast_error_def Let_def pmap_kind_from_code_def)
qed

lemma find_first: "find P [0..<n] = Some i \<longleftrightarrow> i < n \<and> P i \<and> (\<forall>j<i. \<not> P j)"
  by (auto simp: find_Some_iff)

definition final_tree :: "('t, 'u, 'h) pmap_call \<Rightarrow> 'u list \<Rightarrow> ('t, 'u, 'h) call_state \<Rightarrow> int \<Rightarrow> (('t, 'u, 'h) pmap_phase, 'u pmap_result) ctl proc" where
  "final_tree K rs y r = pmap_finish r (cl_np K) (cl_root K) (if r = cl_root K then rs else [], key_of K y r, err_of K y r)"

lemma end_shape:
  assumes "good K n y" "y_focus y = FEnd rs"
  shows "shape K y = all_go K (final_tree K rs y)"
proof -
  have "\<And>q. is_worker K q \<Longrightarrow> y_link y q = LGone" using goodD(4) [OF assms(1)] assms(2) by simp
  then show ?thesis
    using assms(2) first_view_eqs(1,3) [of K] call_okD(1) [OF goodD(1) [OF assms(1)]]
    by (auto simp: shape_def emit_all_def final_tree_def closed_def key_of_def err_of_def is_worker_def by_tag_def fun_eq_iff)
qed

text \<open>Where the call has gone wrong, some rank has the error of the first failing item.\<close>

lemma first_error_known:
  assumes g: "good K n y" and F: "y_focus y = FEnd rs" and i: "find (fails K) [0..<length (cl_items K)] = Some i"
  shows "\<exists>r. in_comm (cl_np K) r \<and> key_of K y r = failure_key K i r"
proof -
  note gd = goodD [OF g] and w = workD [OF goodD(7) [OF g]] and e = errorsD [OF goodD(8) [OF g]]
  note fin = gd(4) [unfolded F focus_ok.simps] and i' = i [unfolded find_first]
  have "i < n"
  proof (cases "failed (y_sched y)")
    case True
    then obtain r where r: "in_comm (cl_np K) r" "key_of K y r \<noteq> NO_ERROR_KEY" using e(6) by blast
    then obtain j where "j < n" "fails K j" using e(1) [OF r(1)] by (auto simp: rank_error_def)
    then show ?thesis using i' by (meson leD leI le_less_trans)
  next
    case False
    have "pending (y_sched y) = []" using quiescent_end [OF gd(2)] fin by (simp add: is_quiescent_def)
    then show ?thesis using w(2) [OF False] i' by (simp add: remainder_Nil)
  qed
  then obtain r j where r: "in_comm (cl_np K) r" "j \<le> i" "key_of K y r = failure_key K j r"
    using e(7) [of i] i' fin by fastforce
  then have "failure_key K j r \<noteq> NO_ERROR_KEY" using failure_not_none [OF gd(1) _ r(1), of j] i' by simp
  then obtain k where k: "k < n" "fails K k" "key_of K y r = failure_key K k r" using e(1) [OF r(1)] r(3) by (auto simp: rank_error_def)
  then have "i \<le> k" "k \<le> j" using i' failure_key_less [OF r(1) r(1), of k j] r(3) by (meson leI, simp)
  then have "j = i" using r(2) by simp
  then show ?thesis using r by blast
qed

lemma finish_collects:
  assumes g: "good K n y" and F: "y_focus y = FEnd rs"
  shows "\<exists>q as. in_comm (cl_np K) q \<and> as \<noteq> [] \<and> collects (cl_np K) (final_tree K rs y) as (\<lambda>r. PRet (Exit (pmap_answer K q r)))"
proof -
  note gd = goodD [OF g] and w = workD [OF goodD(7) [OF g]] and e = errorsD [OF goodD(8) [OF g]]
  note fin = gd(4) [unfolded F focus_ok.simps]
  let ?np = "cl_np K" and ?sel = "reduce_all RedMin (cl_np K) (key_of K y)"
  have np: "1 \<le> ?np" by (rule call_okD(4) [OF gd(1)])
  have keys: "finite (set (map (key_of K y) [0..?np - 1]))" "set (map (key_of K y) [0..?np - 1]) = key_of K y ` {r. in_comm ?np r}"
    by (auto simp: in_comm_def)
  have ne: "key_of K y ` {r. in_comm ?np r} \<noteq> {}" using call_okD(1) [OF gd(1)] by auto
  have sel: "?sel \<in> key_of K y ` {r. in_comm ?np r}" "\<And>r. in_comm ?np r \<Longrightarrow> ?sel \<le> key_of K y r"
    using Min_in [OF keys(1)] ne Min_le [OF keys(1)] unfolding reduce_all_def keys(2) by auto
  show ?thesis
  proof (cases "find (fails K) [0..<length (cl_items K)]")
    case None
    have nofail: "\<not> fails K j" if "j < length (cl_items K)" for j using None that by (auto simp: find_None_iff)
    have clean: "key_of K y r = NO_ERROR_KEY" "err_of K y r = None" if "in_comm ?np r" for r
      using e(1) [OF that] nofail w(1) by (auto simp: rank_error_def)
    have "\<not> failed (y_sched y)" using e(6) clean by blast
    then have rs: "rs = map (value_of K) (cl_items K)" using root_finish_ok [OF gd(2), of "cl_env K"] fin by simp
    have sel_no: "?sel = NO_ERROR_KEY" using sel(1) clean by auto
    have tree: "final_tree K rs y r = PReduce RedMin (key_of K y r) (\<lambda>x. case final_tree K rs y r of PReduce op v m \<Rightarrow> m x)" for r
      by (simp add: final_tree_def pmap_finish_def convergence_def)
    have "collects ?np (final_tree K rs y) [AInt NO_ERROR_KEY] (\<lambda>r. PRet (Exit (pmap_answer K (cl_root K) r)))"
      by (rule collects_IntI [where op = RedMin and v = "key_of K y" and m = "\<lambda>r x. case final_tree K rs y r of PReduce op v m \<Rightarrow> m x"])
        (use tree sel_no None rs in \<open>auto simp: final_tree_def pmap_finish_def convergence_def broadcast_error_def pmap_answer_def\<close>)
    then show ?thesis using call_okD(1) [OF gd(1)] by blast
  next
    case (Some i)
    note i = Some [unfolded find_first]
    obtain r0 where r0: "in_comm ?np r0" "key_of K y r0 = failure_key K i r0" using first_error_known [OF g F Some] by blast
    obtain q where q: "in_comm ?np q" "?sel = key_of K y q" using sel(1) by auto
    have le: "key_of K y q \<le> failure_key K i r0" using sel(2) [OF r0(1)] r0(2) q(2) by simp
    then have "key_of K y q \<noteq> NO_ERROR_KEY" using failure_key_ok(2) [OF gd(1) _ r0(1), of i] i by simp
    then obtain j where j: "j < n" "fails K j" "key_of K y q = failure_key K j q" "err_of K y q = Some (PmUser, error_of K j)"
      using e(1) [OF q(1)] by (auto simp: rank_error_def)
    have "j \<le> i" using failure_key_less [OF q(1) r0(1), of j i] le j(3) by simp
    then have ji: "j = i" using i j(2) by (meson le_neq_implies_less)
    let ?bs = "[BInt 2, BInt (failure_key K i q), BInt (int (length (error_of K i))), BBytes (error_of K i)]"
    let ?m = "\<lambda>r x. case final_tree K rs y r of PReduce op v m \<Rightarrow> m x"
    have il: "i < length (cl_items K)" "fails K i" using i by simp_all
    have ans: "PRet (Exit (pmap_answer K q r)) = PRet (Exit (Err (pmap_error_keyed PmUser (failure_key K i q) (error_of K i))))" for r
      using Some by (simp add: pmap_answer_def)
    have h: "hears q r (?m r (failure_key K i q)) ?bs (PRet (Exit (pmap_answer K q r)))" if r: "in_comm ?np r" for r
    proof -
      have "\<exists>m. final_tree K rs y r = PReduce RedMin (key_of K y r) m \<and> hears q r (m (failure_key K i q)) ?bs (PRet (Exit (pmap_answer K q r)))"
        unfolding ans final_tree_def by (rule finish_error [OF gd(1) il q(1) r]) (use j(3,4) ji in simp_all)
      then show ?thesis by (auto simp del: hears.simps)
    qed
    have tree: "final_tree K rs y r = PReduce RedMin (key_of K y r) (?m r)" for r
      by (simp add: final_tree_def pmap_finish_def convergence_def)
    have "collects ?np (\<lambda>r. ?m r (failure_key K i q)) (map ABc ?bs) (\<lambda>r. PRet (Exit (pmap_answer K q r)))"
      by (rule hears_collects [OF q(1)]) (rule h)
    then have "collects ?np (final_tree K rs y) (AInt (failure_key K i q) # map ABc ?bs) (\<lambda>r. PRet (Exit (pmap_answer K q r)))"
      by (intro collects_IntI [where op = RedMin and v = "key_of K y" and m = ?m]) (use tree q(2) j(3) ji in auto)
    then show ?thesis using q(1) by blast
  qed
qed

section \<open>Phases\<close>

lemma collects_kinds:
  assumes "collects np T as F" "in_comm np r"
  shows "as = [] \<and> T r = F r \<or> (\<exists>op x m. T r = PReduce op x m) \<or> (\<exists>root b k. T r = PBcast root b k)"
  using assms by (cases "(np, T, as, F)" rule: collects.cases) auto

inductive in_phase :: "('t, 'u, 'h) pmap_call \<Rightarrow> (('t, 'u, 'h) pmap_phase, 'u pmap_result) view \<Rightarrow> nat \<times> nat \<Rightarrow> bool" for K where
  starting: "collects (cl_np K) T as (call_entry K c) \<Longrightarrow> good K 0 (first_state K c) \<Longrightarrow> as \<noteq> [] \<Longrightarrow> in_phase K (all_go K T) (2, length as)"
| working: "good K n y \<Longrightarrow> (\<And>rs. y_focus y \<noteq> FEnd rs) \<Longrightarrow> in_phase K (shape K y) (1, call_left K y)"
| ending: "collects (cl_np K) T as (\<lambda>r. PRet (Exit (pmap_answer K q r))) \<Longrightarrow> in_comm (cl_np K) q \<Longrightarrow> in_phase K (all_go K T) (0, length as)"

lemma phase_of_good:
  assumes "good K n y"
  shows "\<exists>p. in_phase K (shape K y) p \<and> (p = (1, call_left K y) \<or> fst p = 0)"
proof (cases "\<exists>rs. y_focus y = FEnd rs")
  case True
  then obtain rs where F: "y_focus y = FEnd rs" by blast
  then show ?thesis using finish_collects [OF assms F] in_phase.ending unfolding end_shape [OF assms F] by fastforce
next
  case False
  then show ?thesis using in_phase.working [OF assms] by blast
qed

lemma all_go_cong: "(\<And>r. in_comm (cl_np K) r \<Longrightarrow> T r = T' r) \<Longrightarrow> all_go K T = all_go K T'"
  by (auto simp: emit_all_def fun_eq_iff)

lemma phase_start:
  assumes "call_ok K"
  shows "\<exists>p. in_phase K (first_view K) p"
proof -
  obtain c where "collects (cl_np K) (\<lambda>r. call_body K r PhStart) (preflight_answers (cl_np K) (cl_opts K)) (call_entry K c)" "good K 0 (first_state K c)"
    using start_collects [OF assms] by blast
  from in_phase.starting [OF this] show ?thesis
    unfolding first_view_go [of K, symmetric] by (auto simp: preflight_answers_def)
qed

lemma phase_step:
  assumes K: "call_ok K" and p: "in_phase K v p" and step: "view_step (cl_np K) (call_body K) pm_hot v v'"
  shows "\<exists>p'. in_phase K v' p' \<and> (p', p) \<in> less_than <*lex*> less_than"
  using p
proof cases
  case (starting T as c)
  obtain a as' where as: "as = a # as'" using starting(5) by (cases as) auto
  obtain T' where T': "v' = all_go K T'" "collects (cl_np K) T' as' (call_entry K c)"
    using collects_step [OF call_okD(4) [OF K] _ first_view_eqs(1)] starting(1,3) step as by blast
  show ?thesis
  proof (cases "as' = []")
    case True
    then have "v' = shape K (first_state K c)"
      using T' entry_shape [OF K, of c] all_go_cong [of K T' "call_entry K c"] by simp
    then show ?thesis using phase_of_good [OF starting(4)] starting(2) by fastforce
  next
    case False
    then have "in_phase K v' (2, length as')" unfolding T'(1) by (rule in_phase.starting [OF T'(2) starting(4)])
    then show ?thesis using starting(2) as by auto
  qed
next
  case (working n y)
  obtain y' where y': "call_step K y y'" "v' = shape K y'" using simulate [OF working(3,4)] step working(1) by blast
  obtain n' where n': "good K n' y'" "call_left K y' < call_left K y" using keep_step [OF working(3) y'(1)] by blast
  then show ?thesis using phase_of_good [OF n'(1)] y'(2) working(2) by fastforce
next
  case (ending T as q)
  show ?thesis
  proof (cases as)
    case (Cons a as')
    obtain T' where T': "v' = all_go K T'" "collects (cl_np K) T' as' (\<lambda>r. PRet (Exit (pmap_answer K q r)))"
      using collects_step [OF call_okD(4) [OF K] _ first_view_eqs(1)] ending(1,3) step Cons by blast
    then show ?thesis using in_phase.ending [OF T'(2) ending(4)] ending(2) Cons by fastforce
  next
    case Nil
    then have ex: "stops v r = PRet (Exit (pmap_answer K q r))" if "in_comm (cl_np K) r" for r using that ending(1,3) by (simp add: emit_all_def)
    note root = ex [OF call_okD(1) [OF K]] call_okD(1) [OF K]
    from step show ?thesis by cases (use ex root in \<open>auto simp: ex\<close>)
  qed
qed

text \<open>Nobody has given up, and a rank that has returned has returned the answer.\<close>

lemma phase_stops:
  assumes K: "call_ok K" and p: "in_phase K v p" and r: "in_comm (cl_np K) r"
  shows "stops v r \<noteq> PAbort code" "stops v r \<noteq> PPanic"
proof -
  have "stops v r \<noteq> PAbort code \<and> stops v r \<noteq> PPanic"
    using p
  proof cases
    case (starting T as c)
    then show ?thesis using r collects_kinds [OF starting(3) r] by (auto simp: emit_all_def)
  next
    case (working n y)
    then show ?thesis using root_kinds [OF working(3)] worker_kinds [OF working(3), of r] r
      by (cases "r = cl_root K") (auto simp: is_worker_def split: focus.splits)
  next
    case (ending T as q)
    then show ?thesis using r collects_kinds [OF ending(3) r] by (auto simp: emit_all_def)
  qed
  then show "stops v r \<noteq> PAbort code" "stops v r \<noteq> PPanic" by simp_all
qed

lemma phase_returned:
  assumes K: "call_ok K" and p: "in_phase K v p"
  shows "\<exists>q. in_comm (cl_np K) q \<and> (\<forall>r x. in_comm (cl_np K) r \<longrightarrow> stops v r = PRet (Exit x) \<longrightarrow> x = pmap_answer K q r)"
  using p
proof cases
  case (starting T as c)
  then have "stops v r \<noteq> PRet (Exit x)" if "in_comm (cl_np K) r" for r x
    using that collects_kinds [OF starting(3) that] by (auto simp: emit_all_def)
  then show ?thesis using call_okD(1) [OF K] by blast
next
  case (working n y)
  then have "stops v r \<noteq> PRet (Exit x)" if "in_comm (cl_np K) r" for r x
    using that root_kinds [OF working(3)] worker_kinds [OF working(3), of r]
    by (cases "r = cl_root K") (auto simp: is_worker_def split: focus.splits)
  then show ?thesis using call_okD(1) [OF K] by blast
next
  case (ending T as q)
  then have "x = pmap_answer K q r" if "in_comm (cl_np K) r" "stops v r = PRet (Exit x)" for r x
    using that collects_kinds [OF ending(3) that(1)] by (auto simp: emit_all_def)
  then show ?thesis using ending(4) by blast
qed

section \<open>Runs\<close>

abbreviation seen :: "('t, 'u, 'h) pmap_call \<Rightarrow> (('t, 'u, 'h) pmap_phase, 'u pmap_result) world \<Rightarrow> (('t, 'u, 'h) pmap_phase, 'u pmap_result) view" where
  "seen K w \<equiv> view_of (call_body K) pm_hot w"

lemma reach_phase:
  assumes K: "call_ok K" and reach: "mpi_reach (cl_np K) (call_body K) call_start w"
  shows "\<exists>p. in_phase K (seen K w) p"
  using reach
proof induction
  case refl
  then show ?case using phase_start [OF K] by (simp add: first_view_def)
next
  case (step w' w'')
  then show ?case using pm.step_view [OF step(2)] phase_step [OF K] by metis
qed

lemma seen_stop: "returned w r = Some x \<Longrightarrow> stops (seen K w) r = PRet (Exit x)"
  by (auto simp: returned_def view_of_def split: proc.splits ctl.splits)

text \<open>In a phase of collective calls nothing is under way.\<close>

lemma collective_idle:
  assumes stuck: "\<nexists>w'. mpi_sure (cl_np K) (call_body K) w w'" and T: "collects (cl_np K) T as F" "as = [] \<Longrightarrow> \<forall>r. in_comm (cl_np K) r \<longrightarrow> (\<exists>x. F r = PRet (Exit x))"
    and v: "seen K w = all_go K T" and r: "in_comm (cl_np K) r"
  shows "procs w r = T r"
proof -
  have still: "dues K r (T r) = []" "stopping_at K r (T r) = T r" using collects_kinds [OF T(1) r] T(2) r by fastforce+
  have st: "stops (seen K w) r = T r" and wy: "\<And>d t. way (seen K w) (r, d, t) = []"
    using v r first_view_eqs(1) [of K] still by (simp_all add: emit_all_def)
  show ?thesis by (rule stuck_rank [OF stuck HOL.refl r]) (use st wy in simp_all)
qed

lemma phase_progress:
  assumes K: "call_ok K" and reach: "mpi_reach (cl_np K) (call_body K) call_start w"
  shows "(\<exists>w'. mpi_sure (cl_np K) (call_body K) w w')
    \<or> (\<exists>q. in_comm (cl_np K) q \<and> (\<forall>r. in_comm (cl_np K) r \<longrightarrow> returned w r = Some (pmap_answer K q r)))"
proof (cases "\<exists>w'. mpi_sure (cl_np K) (call_body K) w w'")
  case stuck: False
  obtain p where p: "in_phase K (seen K w) p" using reach_phase [OF K reach] by blast
  from p show ?thesis
  proof cases
    case (starting T as c)
    obtain a as' where as: "as = a # as'" using starting(5) by (cases as) auto
    have "procs w r = T r" if "in_comm (cl_np K) r" for r
      by (rule collective_idle [OF stuck starting(3) _ starting(1) that]) (use starting(5) in simp)
    then show ?thesis using collects_sure [OF starting(3) [unfolded as], of w] stuck by blast
  next
    case (working n y)
    then show ?thesis using working_sure [OF working(3,4) working(1) tidy_reach [OF reach]] by blast
  next
    case (ending T as q)
    have at: "procs w r = T r" if "in_comm (cl_np K) r" for r
      by (rule collective_idle [OF stuck ending(3) _ ending(1) that]) simp
    have "as = []"
    proof (cases as)
      case (Cons a as')
      then show ?thesis using collects_sure [OF ending(3) [unfolded Cons], of w] at stuck by blast
    qed
    then have "returned w r = Some (pmap_answer K q r)" if "in_comm (cl_np K) r" for r using ending(3) at [OF that] that by (simp add: returned_def)
    then show ?thesis using ending(4) by blast
  qed
qed simp

lemma no_endless_run:
  assumes K: "call_ok K" and p: "in_phase K (seen K w) p" and ws: "ws 0 = w" "\<And>i. mpi_step (cl_np K) (call_body K) (ws i) (ws (Suc i))"
  shows False
  using p ws
proof (induction "(p, delays (cl_np K) (call_body K) pm_hot w)" arbitrary: w p ws
    rule: wf_induct_rule [OF wf_lex_prod [OF wf_lex_prod [OF wf_less_than wf_less_than] wf_less_than]])
  case less: 1
  let ?d = "delays (cl_np K) (call_body K) pm_hot"
  have st: "mpi_step (cl_np K) (call_body K) w (ws 1)" using less.prems(3) [of 0] less.prems(2) by simp
  have "\<exists>p'. in_phase K (seen K (ws 1)) p' \<and> ((p', ?d (ws 1)), (p, ?d w)) \<in> (less_than <*lex*> less_than) <*lex*> less_than"
    using pm.step_view [OF st]
  proof
    assume "seen K (ws 1) = seen K w \<and> ?d (ws 1) < ?d w"
    then show ?thesis using less.prems(1) by (intro exI [of _ p]) auto
  next
    assume "view_step (cl_np K) (call_body K) pm_hot (seen K w) (seen K (ws 1))"
    then show ?thesis using phase_step [OF K less.prems(1)] by fastforce
  qed
  then obtain p' where p': "in_phase K (seen K (ws 1)) p'" "((p', ?d (ws 1)), (p, ?d w)) \<in> (less_than <*lex*> less_than) <*lex*> less_than" by blast
  show False by (rule less.hyps [OF p'(2) p'(1), of "\<lambda>i. ws (Suc i)"]) (use less.prems(3) in simp_all)
qed

lemma call_ends:
  assumes K: "call_ok K"
  shows "\<exists>w q. mpi_reach (cl_np K) (call_body K) call_start w \<and> in_comm (cl_np K) q
    \<and> (\<forall>r. in_comm (cl_np K) r \<longrightarrow> returned w r = Some (pmap_answer K q r))"
proof (rule ccontr)
  assume never: "\<not> ?thesis"
  define ws where "ws = rec_nat call_start (\<lambda>_ w. SOME w'. mpi_step (cl_np K) (call_body K) w w')"
  have ws: "ws 0 = call_start" "\<And>i. ws (Suc i) = (SOME w'. mpi_step (cl_np K) (call_body K) (ws i) w')" by (simp_all add: ws_def)
  have on: "mpi_reach (cl_np K) (call_body K) call_start w \<Longrightarrow> \<exists>w'. mpi_step (cl_np K) (call_body K) w w'" for w
    using phase_progress [OF K] never mpi_sure_steps by blast
  have reach: "mpi_reach (cl_np K) (call_body K) call_start (ws i)" for i
  proof (induction i)
    case (Suc i)
    show ?case unfolding ws(2) by (rule mpi_reach.step [OF Suc someI_ex [OF on [OF Suc]]])
  qed (simp add: ws(1) mpi_reach.refl)
  have run: "mpi_step (cl_np K) (call_body K) (ws i) (ws (Suc i))" for i
    unfolding ws(2) by (rule someI_ex [OF on [OF reach]])
  obtain p where "in_phase K (seen K call_start) p" using phase_start [OF K] by (auto simp: first_view_def)
  then show False by (rule no_endless_run [OF K, of _ _ ws]) (use ws(1) run in simp_all)
qed

section \<open>Properties\<close>

text \<open>A call with two ranks and two items in batches of one; the callback fails on the second item.\<close>

definition demo_pure :: "nat \<Rightarrow> (bytes, nat) result" where
  "demo_pure x = (if x = 6 then Err (lit ''bad'') else Ok (x + 10))"

fun demo_enc :: "nat result_payload \<Rightarrow> (bytes, bytes) result" where
  "demo_enc (RpValues [(i, v)]) = Ok [0, word_of_nat i, word_of_nat v]"
| "demo_enc (RpValues vs) = Err []"
| "demo_enc (RpError cf) = Ok (1 # word_of_nat (cf_index cf) # cf_message cf)"

fun demo_dec :: "bytes \<Rightarrow> (bytes, nat result_payload \<times> usize) result" where
  "demo_dec (t # i # m) = (if t = 0 then Ok (RpValues [(unat i, unat (hd m))], 3) else Ok (RpError \<lparr>cf_index = unat i, cf_kind = 2, cf_message = m\<rparr>, length m + 2))"
| "demo_dec bs = Err []"

definition demo_call :: "(nat, nat, unit) pmap_call" where
  "demo_call = \<lparr>
     cl_env = \<lparr>sd_enc_task = \<lambda>ts. Ok (concat (map (\<lambda>(i, x). [word_of_nat i, word_of_nat x]) ts)),
       sd_dec_task = \<lambda>bs. Ok ([(unat (bs ! 0), unat (bs ! 1))], length bs), sd_enc_result = demo_enc, sd_dec_result = demo_dec,
       wire_text = \<lambda>_. [], sched_text = \<lambda>_. []\<rparr>,
     cl_text = \<lambda>_. [], cl_fn = \<lambda>h x. (h, res_map_err Fail (demo_pure x)), cl_given = \<lambda>r. mpi_options_default, cl_np = 2,
     cl_input = \<lambda>r. \<lparr>in_items = if r = 0 then Some [5, 6] else None, in_fn = (), in_main = True, in_valid = True\<rparr>,
     cl_items = [5, 6], cl_pure = demo_pure\<rparr>"

lemma demo_batches: "is_batch demo_call is \<Longrightarrow> is = [0] \<or> is = [1]"
proof -
  assume "is_batch demo_call is"
  then obtain a b where "is = [a..<b]" "a < b" "b \<le> 2" "b - a \<le> 1"
    by (auto simp: is_batch_def demo_call_def mpi_options_default_def)
  moreover from this have "a = 0 \<and> b = 1 \<or> a = 1 \<and> b = 2" by linarith
  ultimately show ?thesis by (auto simp: upt_rec)
qed

lemma demo_ok: "call_ok demo_call"
proof -
  have b: "carries (sd_enc_task (cl_env demo_call)) (sd_dec_task (cl_env demo_call)) (task_list demo_call is)
      \<and> carries (sd_enc_result (cl_env demo_call)) (sd_dec_result (cl_env demo_call)) (batch_reply demo_call is)" if "is = [0] \<or> is = [1]" for "is"
    using that by (auto simp: carries_def task_list_def batch_reply_def batch_outcome_def fails_def value_of_def error_of_def demo_call_def demo_pure_def
        MAX_WIRE_BYTES_def truncate_message_def lit_def)
  have u: "utf8_valid (lit ''bad'')" by code_simp
  have "length (cl_items demo_call) = 2" "cl_np demo_call = 2" by (simp_all add: demo_call_def)
  then show ?thesis
    unfolding call_ok_def using b demo_batches u
    by (auto simp: demo_call_def mpi_options_default_def in_comm_def NO_ERROR_KEY_def demo_pure_def split: if_splits)
qed

lemma demo_answer: "pmap_answer demo_call q r = Err (pmap_error_keyed PmUser (8 + q) (lit ''bad''))"
  by (simp add: pmap_answer_def upt_rec demo_call_def fails_def demo_pure_def failure_key_def error_of_def truncate_message_def MAX_ERROR_MESSAGE_BYTES_def)

text \<open>
  C1. The collective \<open>pmap\<close> is a map. Let all ranks call it with the same options (without prefetch), from the main thread, the items at the root, a
  callback that depends on the item alone and does not panic, and a codec that carries every batch and every reply (when the callback panics or
  the codec fails, the code aborts the job: codes 70 to 72). Then, however the messages and the
  probes of the root interleave, no rank aborts or panics, and what a rank returns is fixed: if the callback succeeds on all items, the root has
  the results in input order and the others have nothing; if not, all ranks have the same error, that of the first
  failing item, with its text and with the key of the one rank that ran it.
\<close>

theorem pmap_mpi_correct:
  assumes "call_ok K" "mpi_reach (cl_np K) (call_body K) call_start w"
  shows "(\<exists>q. in_comm (cl_np K) q \<and> (\<forall>r x. in_comm (cl_np K) r \<longrightarrow> returned w r = Some x \<longrightarrow> x = pmap_answer K q r))
    \<and> (\<forall>r code. in_comm (cl_np K) r \<longrightarrow> procs w r \<noteq> PAbort code \<and> procs w r \<noteq> PPanic)"
proof -
  obtain p where p: "in_phase K (seen K w) p" using reach_phase [OF assms] by blast
  have "procs w r \<noteq> PAbort code \<and> procs w r \<noteq> PPanic" if "in_comm (cl_np K) r" for r code
    using phase_stops(1) [OF assms(1) p that, of code] phase_stops(2) [OF assms(1) p that] by (auto simp: view_of_def)
  moreover have "\<exists>q. in_comm (cl_np K) q \<and> (\<forall>r x. in_comm (cl_np K) r \<longrightarrow> returned w r = Some x \<longrightarrow> x = pmap_answer K q r)"
    using phase_returned [OF assms(1) p] seen_stop by blast
  ultimately show ?thesis by blast
qed

theorem pmap_mpi_correct_witness:
  "\<exists>w q. mpi_reach 2 (call_body demo_call) call_start w \<and> (q = 0 \<or> q = 1)
     \<and> returned w 0 = Some (Err (pmap_error_keyed PmUser (8 + q) (lit ''bad''))) \<and> returned w 1 = returned w 0 \<and> procs w 1 \<noteq> PPanic"
proof -
  have np: "cl_np demo_call = 2" by (simp add: demo_call_def)
  obtain w q where w: "mpi_reach 2 (call_body demo_call) call_start w" "\<And>r. in_comm 2 r \<Longrightarrow> returned w r = Some (pmap_answer demo_call q r)"
    using call_ends [OF demo_ok] by (auto simp: np)
  from pmap_mpi_correct [OF demo_ok, of w] w(1) obtain q' where
    "in_comm 2 q'" "\<And>r x. in_comm 2 r \<Longrightarrow> returned w r = Some x \<Longrightarrow> x = pmap_answer demo_call q' r" "procs w 1 \<noteq> PPanic"
    by (auto simp: np in_comm_def)
  moreover have "in_comm 2 0" "in_comm 2 1" by (simp_all add: in_comm_def)
  ultimately show ?thesis using w by (intro exI [of _ w] exI [of _ q']) (auto simp: demo_answer in_comm_def)
qed

text \<open>
  C2. The collective \<open>pmap\<close> does not deadlock, even when sends block. Under the conditions of C1, in every state a call reaches, whatever was
  buffered before, there is a step that needs no buffer, or all ranks have returned, with the answer. So no rank is stranded in a
  send whose receiver does not come, and the root never waits for a message that does not come, though it blocks on a
  receive from any rank after each batch of its own.
\<close>

theorem pmap_mpi_no_deadlock:
  assumes "call_ok K" "mpi_reach (cl_np K) (call_body K) call_start w"
  shows "(\<exists>w'. mpi_sure (cl_np K) (call_body K) w w')
    \<or> (\<exists>q. in_comm (cl_np K) q \<and> (\<forall>r. in_comm (cl_np K) r \<longrightarrow> returned w r = Some (pmap_answer K q r)))"
  by (rule phase_progress [OF assms])

theorem pmap_mpi_no_deadlock_witness: "\<exists>w'. mpi_sure 2 (call_body demo_call) call_start w'"
proof -
  have np: "cl_np demo_call = 2" by (simp add: demo_call_def)
  have "returned call_start 0 = (None :: nat pmap_result option)" by (simp add: call_start_def mpi_start_def returned_def)
  moreover have "in_comm 2 0" by (simp add: in_comm_def)
  ultimately show ?thesis
    using pmap_mpi_no_deadlock [OF demo_ok, of call_start] mpi_reach.refl [of 2 "call_body demo_call" call_start] unfolding np
    by (metis option.distinct(1))
qed

text \<open>
  C3. The collective \<open>pmap\<close> terminates, under the conditions of C1: there is no endless run, whatever the order of the steps and however often a probe misses a
  message that is there. No fairness is needed.
\<close>

theorem pmap_mpi_terminates:
  assumes "call_ok K"
  shows "\<not> (\<exists>ws. ws 0 = call_start \<and> (\<forall>i. mpi_step (cl_np K) (call_body K) (ws i) (ws (Suc i))))"
proof
  assume "\<exists>ws. ws 0 = call_start \<and> (\<forall>i. mpi_step (cl_np K) (call_body K) (ws i) (ws (Suc i)))"
  then obtain ws where ws: "ws 0 = call_start" "\<And>i. mpi_step (cl_np K) (call_body K) (ws i) (ws (Suc i))" by blast
  obtain p where "in_phase K (seen K call_start) p" using phase_start [OF assms] by (auto simp: first_view_def)
  then show False by (rule no_endless_run [OF assms, of _ _ ws]) (use ws in simp_all)
qed

theorem pmap_mpi_terminates_witness:
  "\<not> (\<exists>ws. ws 0 = call_start \<and> (\<forall>i. mpi_step 2 (call_body demo_call) (ws i) (ws (Suc i))))"
  using pmap_mpi_terminates [OF demo_ok] by (simp add: demo_call_def)

end
