(* ===== verification/PmapHybrid.thy ===== *)
theory PmapHybrid
  imports Pmap
begin

text \<open>
  The collective \<open>pmap\<close> when the process has a thread pool (\<open>src/pmap.rs\<close> with the feature \<open>rayon\<close>). A batch on the pool is a
  task whose outcome the calling thread waits or asks for: its outcome is a function of the batch, so the receiving end of
  its channel is that outcome, and when it is delivered is up to the pool. All calls of MPI are made by the
  calling thread, which is what the programs of \<open>Mpi\<close> are.
\<close>

section \<open>Batches on the pool\<close>

datatype root_event = EvLocal | EvRemote | EvNeither

fun choose_root_event :: "bool \<Rightarrow> bool \<Rightarrow> bool \<Rightarrow> root_event \<times> bool" where
  "choose_root_event True True prefer_local = (if prefer_local then (EvLocal, False) else (EvRemote, True))"
| "choose_root_event True False prefer_local = (EvLocal, prefer_local)"
| "choose_root_event False True prefer_local = (EvRemote, prefer_local)"
| "choose_root_event False False prefer_local = (EvNeither, prefer_local)"

datatype 'u local_batch_result = LbValues "'u item_result list" | LbError callback_failure | LbPanic

record 'u local_batch_outcome =
  lo_batch_id :: batch_id
  lo_result :: "'u local_batch_result"

datatype 'u worker_batch_result =
  WbValues "(usize \<times> 'u) list"
| WbError callback_failure error_class pmap_error_kind
| WbPanic

record 'u worker_batch_outcome =
  wo_batch_id :: u64
  wo_item_count :: usize
  wo_result :: "'u worker_batch_result"

datatype ('t, 'u) prefetched_batch =
  PbWork u64 usize "(usize \<times> 't) list"
| PbReady "'u worker_batch_outcome"
| PbStop

datatype 'u next_worker_batch = NwRunning "'u worker_batch_outcome" | NwReady "'u worker_batch_outcome" | NwStop

text \<open>\<open>indices[error.index()]\<close>: the index of the error is a position in the batch.\<close>

definition user_failure :: "usize list \<Rightarrow> map_error \<Rightarrow> callback_failure" where
  "user_failure indices e =
     \<lparr>cf_index = indices ! me_index e, cf_kind = pmap_kind_code PmUser, cf_message = me_message e\<rparr>"

definition spawn_local_batch :: "exec_mode \<Rightarrow> ('t, 'u) callback \<Rightarrow> 't batch \<Rightarrow> 'u local_batch_outcome" where
  "spawn_local_batch mode f b =
     (let indices = map original_index (b_items b) in
      \<lparr>lo_batch_id = b_id b,
       lo_result =
         (case run_in_current_pool mode (map item_value (b_items b)) f of
            Inr values \<Rightarrow> LbValues (map (\<lambda>(i, v). \<lparr>result_index = i, result_value = v\<rparr>) (zip indices values))
          | Inl (Fail e) \<Rightarrow> LbError (user_failure indices e)
          | Inl Panic \<Rightarrow> LbPanic)\<rparr>)"

definition spawn_worker_batch :: "exec_mode \<Rightarrow> ('t, 'u) callback \<Rightarrow> u64 \<Rightarrow> usize \<Rightarrow> (usize \<times> 't) list \<Rightarrow> 'u worker_batch_outcome" where
  "spawn_worker_batch mode f bid item_count items =
     (let indices = map fst items in
      \<lparr>wo_batch_id = bid, wo_item_count = item_count,
       wo_result =
         (case run_in_current_pool mode (map snd items) f of
            Inr values \<Rightarrow> WbValues (zip indices values)
          | Inl (Fail e) \<Rightarrow> WbError (user_failure indices e) Callback PmUser
          | Inl Panic \<Rightarrow> WbPanic)\<rparr>)"

definition receive_prefetched_batch :: "('t, 'u) pmap_env \<Rightarrow> int \<Rightarrow> (pmap_error, ('t, 'u) prefetched_batch) result proc" where
  "receive_prefetched_batch E root =
     ptry (receive_header E root) (\<lambda>value.
       case hd_kind value of
         MkTask \<Rightarrow>
           pbind (receive_payload E (sd_dec_task E) root value) (\<lambda>r.
             case r of
               Inr items \<Rightarrow> PRet (Ok (PbWork (hd_batch_id value) (length items) items))
             | Inl e \<Rightarrow>
                 PRet (Ok (PbReady \<lparr>wo_batch_id = hd_batch_id value, wo_item_count = 1,
                   wo_result = WbError \<lparr>cf_index = unat (hd_item_count value), cf_kind = pmap_kind_code PmWire, cf_message = pr_message e\<rparr>
                     WireProtocol PmWire\<rparr>)))
       | MkStop \<Rightarrow> PRet (Ok PbStop)
       | _ \<Rightarrow> PRet (Err (protocol_failure (lit ''worker received an unexpected message''))))"

text \<open>The key and the error of a worker change only for a lesser key.\<close>

definition send_worker_outcome ::
  "('t, 'u) pmap_env \<Rightarrow> int \<Rightarrow> int \<Rightarrow> int \<Rightarrow> 'u worker_batch_outcome \<Rightarrow> int \<times> local_error option
     \<Rightarrow> (pmap_error, int \<times> local_error option) result proc"
where
  "send_worker_outcome E root rank np outcome = (\<lambda>(local_key, local_err).
     case wo_result outcome of
       WbValues values \<Rightarrow>
         ptry (send_frame E (sd_enc_result E) root MkResult StOk (wo_batch_id outcome) (length values) (RpValues values)) (\<lambda>_.
           PRet (Ok (local_key, local_err)))
     | WbError failure cl kind \<Rightarrow>
         plift (error_key E (cf_index failure) cl rank np) (\<lambda>key.
           ptry (send_frame E (sd_enc_result E) root MkResult StError (wo_batch_id outcome) (wo_item_count outcome) (RpError failure)) (\<lambda>_.
             PRet (Ok (if key < local_key then (key, Some (kind, cf_message failure)) else (local_key, local_err)))))
     | WbPanic \<Rightarrow> PAbort 71)"

definition spawn_root_batch ::
  "('t, 'u) pmap_env \<Rightarrow> exec_mode \<Rightarrow> ('t, 'u) callback \<Rightarrow> ('t, 'u) coordinator
     \<Rightarrow> (pmap_error, ('t, 'u) coordinator \<times> 'u local_batch_outcome option) result proc"
where
  "spawn_root_batch E mode f c =
     (case next_root_batch c of (c1, r) \<Rightarrow>
        psched E r (\<lambda>ob. PRet (Ok (c1, map_option (spawn_local_batch mode f) ob))))"

section \<open>The workers\<close>

definition hybrid_task_run ::
  "('t, 'u) pmap_env \<Rightarrow> exec_mode \<Rightarrow> ('t, 'u) callback \<Rightarrow> int \<Rightarrow> int \<Rightarrow> int \<Rightarrow> header \<Rightarrow> (usize \<times> 't) list \<Rightarrow> unit worker_state
     \<Rightarrow> (unit worker_state, 'r) turn"
where
  "hybrid_task_run E mode f rank np root value items s =
     (let indices = map fst items in
      case run_in_pool mode (map snd items) f of
        Inr values \<Rightarrow>
          (let vs = zip indices values in
           ptry (send_frame E (sd_enc_result E) root MkResult StOk (hd_batch_id value) (length vs) (RpValues vs)) (\<lambda>_. PRet (Ok (Again s))))
      | Inl (Fail e) \<Rightarrow>
          (let failure = user_failure indices e in
           plift (error_key E (cf_index failure) Callback rank np) (\<lambda>key.
             ptry (send_frame E (sd_enc_result E) root MkResult StError (hd_batch_id value) (unat (hd_item_count value)) (RpError failure)) (\<lambda>_.
               PRet (Ok (Again (s\<lparr>ws_key := min (ws_key s) key, ws_error := Some (PmUser, cf_message failure)\<rparr>))))))
      | Inl Panic \<Rightarrow> PAbort 71)"

definition hybrid_worker_turn ::
  "('t, 'u) pmap_env \<Rightarrow> exec_mode \<Rightarrow> ('t, 'u) callback \<Rightarrow> int \<Rightarrow> int \<Rightarrow> int \<Rightarrow> unit worker_state
     \<Rightarrow> (unit worker_state, int \<times> local_error option) turn"
where
  "hybrid_worker_turn E mode f rank np root s =
     ptry (send_empty E root MkReady 0) (\<lambda>_. ptry (receive_header E root) (\<lambda>value.
       case hd_kind value of
         MkTask \<Rightarrow>
           pbind (receive_payload E (sd_dec_task E) root value) (\<lambda>r.
             case r of
               Inl e \<Rightarrow> task_unreadable E rank np root value e s
             | Inr items \<Rightarrow> hybrid_task_run E mode f rank np root value items s)
       | MkStop \<Rightarrow> ptry (send_empty E root MkDrain 0) (\<lambda>_. PRet (Ok (Exit (ws_key s, ws_error s))))
       | _ \<Rightarrow> PRet (Err (protocol_failure (lit ''worker received an unexpected message'')))))"

text \<open>The two loops with prefetch: \<open>'idle\<close>, and the one in which a batch runs. An error inside the second aborts.\<close>

datatype 'u prefetch_at = HwIdle | HwBusy "'u worker_batch_outcome"

type_synonym 'u prefetch_state = "'u prefetch_at \<times> int \<times> local_error option"

definition or_abort :: "int \<Rightarrow> (pmap_error, 'a) result proc \<Rightarrow> ('a \<Rightarrow> 'b proc) \<Rightarrow> 'b proc" where
  "or_abort code p k = pbind p (\<lambda>r. case r of Inl _ \<Rightarrow> PAbort code | Inr a \<Rightarrow> k a)"

definition prefetch_idle ::
  "('t, 'u) pmap_env \<Rightarrow> exec_mode \<Rightarrow> ('t, 'u) callback \<Rightarrow> int \<Rightarrow> int \<Rightarrow> int \<Rightarrow> int \<times> local_error option
     \<Rightarrow> ('u prefetch_state, int \<times> local_error option) turn"
where
  "prefetch_idle E mode f rank np root ke =
     ptry (send_empty E root MkReady 0) (\<lambda>_. ptry (receive_prefetched_batch E root) (\<lambda>first.
       case first of
         PbWork bid item_count items \<Rightarrow> PRet (Ok (Again (HwBusy (spawn_worker_batch mode f bid item_count items), ke)))
       | PbReady outcome \<Rightarrow> ptry (send_worker_outcome E root rank np outcome ke) (\<lambda>ke1. PRet (Ok (Again (HwIdle, ke1))))
       | PbStop \<Rightarrow> ptry (send_empty E root MkDrain 0) (\<lambda>_. PRet (Ok (Exit ke)))))"

definition prefetch_busy ::
  "('t, 'u) pmap_env \<Rightarrow> exec_mode \<Rightarrow> ('t, 'u) callback \<Rightarrow> int \<Rightarrow> int \<Rightarrow> int \<Rightarrow> 'u worker_batch_outcome \<Rightarrow> int \<times> local_error option
     \<Rightarrow> ('u prefetch_state, int \<times> local_error option) turn"
where
  "prefetch_busy E mode f rank np root running ke =
     or_abort 75 (send_empty E root MkReady 0) (\<lambda>_.
       or_abort 75 (receive_prefetched_batch E root) (\<lambda>next.
         PJoin (\<lambda>ok.
           if \<not> ok then PAbort 71
           else (let next1 = (case next of
                     PbWork bid item_count items \<Rightarrow> NwRunning (spawn_worker_batch mode f bid item_count items)
                   | PbReady outcome \<Rightarrow> NwReady outcome
                   | PbStop \<Rightarrow> NwStop)
             in or_abort 75 (send_worker_outcome E root rank np running ke) (\<lambda>ke1.
               case next1 of
                 NwRunning outcome \<Rightarrow> PRet (Ok (Again (HwBusy outcome, ke1)))
               | NwReady outcome \<Rightarrow> ptry (send_worker_outcome E root rank np outcome ke1) (\<lambda>ke2. PRet (Ok (Again (HwIdle, ke2))))
               | NwStop \<Rightarrow> ptry (send_empty E root MkDrain 0) (\<lambda>_. PRet (Ok (Exit ke1))))))))"

definition prefetch_turn ::
  "('t, 'u) pmap_env \<Rightarrow> exec_mode \<Rightarrow> ('t, 'u) callback \<Rightarrow> int \<Rightarrow> int \<Rightarrow> int \<Rightarrow> 'u prefetch_state
     \<Rightarrow> ('u prefetch_state, int \<times> local_error option) turn"
where
  "prefetch_turn E mode f rank np root = (\<lambda>(at, ke).
     case at of HwIdle \<Rightarrow> prefetch_idle E mode f rank np root ke | HwBusy running \<Rightarrow> prefetch_busy E mode f rank np root running ke)"

section \<open>The root\<close>

record ('t, 'u) hybrid_root_state =
  hr_root :: "('t, 'u, unit) root_state"
  hr_receiver :: "'u local_batch_outcome option"
  hr_pending_local :: "'u local_batch_outcome option"
  hr_prefer_local :: bool

definition hybrid_root_start :: "('t, 'u) coordinator \<Rightarrow> ('t, 'u) hybrid_root_state" where
  "hybrid_root_start c = \<lparr>hr_root = root_start c (), hr_receiver = None, hr_pending_local = None, hr_prefer_local = True\<rparr>"

text \<open>The outcome of the root's own batch.\<close>

definition root_local_event ::
  "('t, 'u) pmap_env \<Rightarrow> int \<Rightarrow> int \<Rightarrow> 'u local_batch_outcome \<Rightarrow> ('t, 'u, unit) root_state \<Rightarrow> (pmap_error, ('t, 'u, unit) root_state) result proc"
where
  "root_local_event E rank np outcome s =
     (case lo_result outcome of
        LbValues values \<Rightarrow>
          (case on_root_success (rs_sched s) (lo_batch_id outcome) values of (c, r) \<Rightarrow>
             psched E r (\<lambda>_. PRet (Ok (s\<lparr>rs_sched := c\<rparr>))))
      | LbError failure \<Rightarrow>
          plift (error_key E (cf_index failure) Callback rank np) (\<lambda>key.
            case on_root_error (rs_sched s) (lo_batch_id outcome) of (c, r) \<Rightarrow>
              psched E r (\<lambda>_. PRet (Ok (s\<lparr>rs_sched := c, rs_key := min (rs_key s) key, rs_error := Some (PmUser, cf_message failure)\<rparr>))))
      | LbPanic \<Rightarrow> PAbort 70)"

text \<open>What a turn does once it is known whether the local task has been delivered and which rank has a message.\<close>

definition root_dispatch_event ::
  "('t, 'u) pmap_env \<Rightarrow> usize \<Rightarrow> int \<Rightarrow> int \<Rightarrow> bool \<Rightarrow> int option \<Rightarrow> ('t, 'u) hybrid_root_state
     \<Rightarrow> (('t, 'u) hybrid_root_state, 'u root_outcome) turn"
where
  "root_dispatch_event E task_key rank np disconnected remote_source h =
     (case choose_root_event (hr_pending_local h \<noteq> None \<or> disconnected) (remote_source \<noteq> None) (hr_prefer_local h) of
        (EvLocal, prefer) \<Rightarrow>
          if disconnected then PAbort 70
          else (case hr_pending_local h of
              None \<Rightarrow> PRet (Err (protocol_failure (lit ''missing root-local outcome'')))
            | Some outcome \<Rightarrow>
                ptry (root_local_event E rank np outcome (hr_root h)) (\<lambda>s.
                  PRet (Ok (Again (h\<lparr>hr_root := s, hr_receiver := None, hr_pending_local := None, hr_prefer_local := prefer\<rparr>)))))
      | (EvRemote, prefer) \<Rightarrow>
          (case remote_source of
             None \<Rightarrow> PRet (Err (protocol_failure (lit ''missing probed remote source'')))
           | Some source \<Rightarrow>
               ptry (receive_header E source) (\<lambda>value.
                 ptry (process_remote_header E task_key rank np source value (hr_root h)) (\<lambda>s.
                   PRet (Ok (Again (h\<lparr>hr_root := s, hr_prefer_local := prefer\<rparr>))))))
      | (EvNeither, prefer) \<Rightarrow> PRet (Ok (Again (h\<lparr>hr_prefer_local := prefer\<rparr>))))"

definition hybrid_root_turn ::
  "('t, 'u) pmap_env \<Rightarrow> exec_mode \<Rightarrow> ('t, 'u) callback \<Rightarrow> usize \<Rightarrow> int \<Rightarrow> int \<Rightarrow> ('t, 'u) hybrid_root_state
     \<Rightarrow> (('t, 'u) hybrid_root_state, 'u root_outcome) turn"
where
  "hybrid_root_turn E mode f task_key rank np h0 =
     ptry (if hr_receiver h0 = None
           then ptry (spawn_root_batch E mode f (rs_sched (hr_root h0))) (\<lambda>(c, receiver).
                  PRet (Ok (h0\<lparr>hr_root := (hr_root h0)\<lparr>rs_sched := c\<rparr>, hr_receiver := receiver\<rparr>)))
           else PRet (Ok h0)) (\<lambda>h.
       if hr_receiver h = None \<and> is_finished (rs_sched (hr_root h)) \<and> is_quiescent (rs_sched (hr_root h))
       then plift (root_finish E (hr_root h)) (\<lambda>out. PRet (Ok (Exit out)))
       else (let go = (\<lambda>arrived.
                  let h1 = (if arrived = Delivered then h\<lparr>hr_pending_local := hr_receiver h\<rparr> else h) in
                  if 1 < np
                  then PProbe HEADER_TAG (\<lambda>source. root_dispatch_event E task_key rank np (arrived = Disconnected) source h1)
                  else root_dispatch_event E task_key rank np (arrived = Disconnected) None h1)
             in if hr_pending_local h = None \<and> hr_receiver h \<noteq> None then PTryJoin go else go StillRunning))"

section \<open>The call\<close>

text \<open>\<open>in_pool\<close>: whether the thread belongs to a pool; \<open>funneled\<close>: whether MPI supports the threads.\<close>

definition hybrid_enter ::
  "bool \<Rightarrow> bool \<Rightarrow> bool \<Rightarrow> 'p exec_domain \<Rightarrow> bool \<times> 'p exec_domain \<times> (pmap_error, bool) result"
where
  "hybrid_enter in_pool funneled active d =
     (if in_pool then (active, d, Err (pmap_error_new PmPreflight (lit ''hybrid pmap cannot enter from a Rayon worker'')))
      else (case active_acquire active of
          (active1, Inl e) \<Rightarrow> (active1, d, Err e)
        | (active1, Inr _) \<Rightarrow>
            (case try_admit d of (d1, admission) \<Rightarrow>
               (active1, d1, Ok (is_ok admission \<and> ed_pool d \<noteq> None \<and> ed_id d = exec_id_ZERO \<and> \<not> in_pool \<and> funneled)))))"

datatype ('t, 'u) hybrid_phase =
  HpStart
| HpWorker "unit worker_state"
| HpPrefetch "'u prefetch_state"
| HpRoot "('t, 'u) hybrid_root_state"

definition hybrid_program ::
  "('t, 'u) pmap_env \<Rightarrow> (int \<Rightarrow> bytes) \<Rightarrow> ('t, 'u) callback \<Rightarrow> mpi_options \<Rightarrow> int \<Rightarrow> (int \<Rightarrow> ('t, unit) pmap_input)
     \<Rightarrow> int \<Rightarrow> ('t, 'u) hybrid_phase \<Rightarrow> (('t, 'u) hybrid_phase, 'u pmap_result) ctl proc"
where
  "hybrid_program E rank_text f opts np input rank phase =
     (case phase of
        HpStart \<Rightarrow>
          pbind (preflight E rank_text rank np opts (in_items (input rank) \<noteq> None) (in_main (input rank)) (in_valid (input rank))) (\<lambda>r.
            case r of
              Inl e \<Rightarrow> PRet (Exit (Err e))
            | Inr _ \<Rightarrow>
                if rank = mo_root opts
                then (case in_items (input rank) of
                    None \<Rightarrow> PPanic
                  | Some items \<Rightarrow>
                      (case new_with_prefetch (mo_root opts) (remote_ranks (mo_root opts) np) items (mo_batch_size opts) (mo_prefetch opts) of
                         Inl e \<Rightarrow> PAbort 72
                       | Inr c \<Rightarrow> PRet (Again (HpRoot (hybrid_root_start c)))))
                else if mo_prefetch opts then PRet (Again (HpPrefetch (HwIdle, NO_ERROR_KEY, None)))
                else PRet (Again (HpWorker (worker_start ()))))
      | HpWorker s \<Rightarrow>
          or_abort 72 (hybrid_worker_turn E (mo_local_mode opts) f rank np (mo_root opts) s) (\<lambda>r.
            case r of Again s1 \<Rightarrow> PRet (Again (HpWorker s1)) | Exit (key, e) \<Rightarrow> pmap_finish rank np (mo_root opts) ([], key, e))
      | HpPrefetch s \<Rightarrow>
          or_abort 72 (prefetch_turn E (mo_local_mode opts) f rank np (mo_root opts) s) (\<lambda>r.
            case r of Again s1 \<Rightarrow> PRet (Again (HpPrefetch s1)) | Exit (key, e) \<Rightarrow> pmap_finish rank np (mo_root opts) ([], key, e))
      | HpRoot h \<Rightarrow>
          or_abort 72 (hybrid_root_turn E (mo_local_mode opts) f (case in_items (input rank) of None \<Rightarrow> 0 | Some items \<Rightarrow> length items) rank np h) (\<lambda>r.
            case r of Again h1 \<Rightarrow> PRet (Again (HpRoot h1)) | Exit out \<Rightarrow> pmap_finish rank np (mo_root opts) out))"

end
