(* ===== verification/Placement.thy ===== *)
theory Placement
  imports Mpi Utf8
begin

text \<open>
  The collectives of the root crate (\<open>src/placement.rs\<close>): one value copied to every rank, one shard sent to each, one value
  collected from each, as programs over MPI. Before anything is sent all ranks agree that their arguments fit, then that the
  values could be encoded, and after the transfer that everything was decoded; the least rank with an error
  tells the others. The codec of the values is an argument.
\<close>

section \<open>Operations and errors\<close>

definition PL_HEADER_TAG :: int where
  "PL_HEADER_TAG = 2"

definition PL_PAYLOAD_TAG :: int where
  "PL_PAYLOAD_TAG = 3"

definition FRAME_ID :: u64 where
  "FRAME_ID = 0"

definition FRAME_ITEMS :: u64 where
  "FRAME_ITEMS = 1"

datatype pl_operation = OpBroadcast | OpScatter | OpGather

fun operation_code :: "pl_operation \<Rightarrow> int" where
  "operation_code OpBroadcast = 0"
| "operation_code OpScatter = 1"
| "operation_code OpGather = 2"

fun operation_kind :: "pl_operation \<Rightarrow> message_kind" where
  "operation_kind OpBroadcast = MkBroadcast"
| "operation_kind OpScatter = MkScatter"
| "operation_kind OpGather = MkGather"

datatype placement_error_kind = PlPreflight | PlWire | PlProtocol

fun placement_kind_code :: "placement_error_kind \<Rightarrow> int" where
  "placement_kind_code PlPreflight = 0"
| "placement_kind_code PlWire = 1"
| "placement_kind_code PlProtocol = 2"

definition placement_kind_from_code :: "int \<Rightarrow> placement_error_kind option" where
  "placement_kind_from_code c = (if c = 0 then Some PlPreflight else if c = 1 then Some PlWire else if c = 2 then Some PlProtocol else None)"

record placement_error =
  pl_kind :: placement_error_kind
  pl_rank :: "int option"
  pl_message :: bytes

definition placement_error_new :: "placement_error_kind \<Rightarrow> int option \<Rightarrow> bytes \<Rightarrow> placement_error" where
  "placement_error_new kind rank message = \<lparr>pl_kind = kind, pl_rank = rank, pl_message = truncate_message message\<rparr>"

record failure =
  fl_kind :: placement_error_kind
  fl_message :: bytes

definition failure_new :: "placement_error_kind \<Rightarrow> bytes \<Rightarrow> failure" where
  "failure_new kind message = \<lparr>fl_kind = kind, fl_message = truncate_message message\<rparr>"

fun record_failure :: "failure option \<Rightarrow> failure \<Rightarrow> failure option" where
  "record_failure None fl = Some fl"
| "record_failure (Some old) fl = Some old"

section \<open>Agreement\<close>

definition converge :: "int \<Rightarrow> int \<Rightarrow> failure option \<Rightarrow> placement_error option proc" where
  "converge rank np local_fl =
     PReduce RedMin (if local_fl \<noteq> None then rank else np) (\<lambda>winner.
       if winner = np then PRet None
       else if winner < 0 \<or> np \<le> winner then PAbort 74
       else (let is_winner = (rank = winner) in
         if is_winner \<and> local_fl = None then PAbort 74
         else (let own = (if is_winner then local_fl else None);
                   bs = (case own of Some fl \<Rightarrow> fl_message fl | None \<Rightarrow> [])
           in if 2 ^ 31 \<le> length bs then PAbort 74
           else PBcast winner (BInt (case own of Some fl \<Rightarrow> placement_kind_code (fl_kind fl) | None \<Rightarrow> placement_kind_code PlProtocol)) (\<lambda>kind.
             PBcast winner (BInt (int (length bs))) (\<lambda>len.
               if bcast_int len < 0 \<or> MAX_ERROR_MESSAGE_BYTES < nat (bcast_int len) then PAbort 74
               else PBcast winner (BBytes (if is_winner then bs else replicate (nat (bcast_int len)) 0)) (\<lambda>text.
                 case placement_kind_from_code (bcast_int kind) of
                   None \<Rightarrow> PAbort 74
                 | Some k \<Rightarrow>
                     if utf8_valid (bcast_bytes text) then PRet (Some (placement_error_new k (Some winner) (bcast_bytes text)))
                     else PAbort 74))))))"

text \<open>\<open>if let Some(error) = converge(..) { return Err(error) }\<close>.\<close>

definition pl_agree :: "int \<Rightarrow> int \<Rightarrow> failure option \<Rightarrow> (placement_error, 'a) result proc \<Rightarrow> (placement_error, 'a) result proc" where
  "pl_agree rank np fl p = pbind (converge rank np fl) (\<lambda>oe. case oe of Some e \<Rightarrow> PRet (Err e) | None \<Rightarrow> p)"

definition pl_preflight ::
  "int \<Rightarrow> int \<Rightarrow> bool \<Rightarrow> pl_operation \<Rightarrow> int \<Rightarrow> bool \<Rightarrow> (placement_error, 'a) result proc \<Rightarrow> (placement_error, 'a) result proc"
where
  "pl_preflight rank np thread_main op root local_shape p =
     PReduce RedMin (operation_code op) (\<lambda>min_op. PReduce RedMax (operation_code op) (\<lambda>max_op.
     PReduce RedMin root (\<lambda>min_root. PReduce RedMax root (\<lambda>max_root.
       pl_agree rank np
         (if min_op \<noteq> max_op then Some (failure_new PlPreflight (lit ''placement operation mismatch''))
          else if min_root \<noteq> max_root then Some (failure_new PlPreflight (lit ''placement root mismatch''))
          else if root < 0 \<or> np \<le> root then Some (failure_new PlPreflight (lit ''placement root is out of range''))
          else if \<not> local_shape then Some (failure_new PlPreflight (lit ''placement input shape is invalid''))
          else if \<not> thread_main then Some (failure_new PlPreflight (lit ''placement helper must run on the MPI main thread''))
          else None) p))))"

section \<open>Frames\<close>

record 't value_codec =
  vc_enc :: "'t \<Rightarrow> (bytes, bytes) result"
  vc_dec :: "bytes \<Rightarrow> (bytes, 't \<times> usize) result"
  vc_text :: "wire_error \<Rightarrow> bytes"

definition pl_wire :: "'t value_codec \<Rightarrow> wire_error \<Rightarrow> failure" where
  "pl_wire C e = failure_new PlWire (vc_text C e)"

definition pl_encode :: "'t value_codec \<Rightarrow> 't \<Rightarrow> (failure, bytes) result" where
  "pl_encode C v = res_map_err (pl_wire C) (encode_payload (vc_enc C) v)"

definition pl_send_frame :: "int \<Rightarrow> pl_operation \<Rightarrow> bytes \<Rightarrow> 'a proc \<Rightarrow> 'a proc" where
  "pl_send_frame destination op payload p =
     (case header_new (operation_kind op) StNone FRAME_ID FRAME_ITEMS (word_of_nat (length payload)) of
        Inl _ \<Rightarrow> PAbort 74
      | Inr h \<Rightarrow> PSend destination PL_HEADER_TAG (header_encode h) (PSend destination PL_PAYLOAD_TAG payload p))"

definition pl_receive_frame :: "int \<Rightarrow> (bytes \<Rightarrow> bytes \<Rightarrow> 'a proc) \<Rightarrow> 'a proc" where
  "pl_receive_frame source k = PRecv source PL_HEADER_TAG (\<lambda>h. PRecv source PL_PAYLOAD_TAG (\<lambda>payload. k h payload))"

definition decode_received :: "'t value_codec \<Rightarrow> pl_operation \<Rightarrow> bytes \<Rightarrow> bytes \<Rightarrow> (failure, 't) result" where
  "decode_received C op hbytes payload =
     res_bind (res_map_err (pl_wire C) (header_decode hbytes)) (\<lambda>h.
       if hd_kind h \<noteq> operation_kind op \<or> hd_status h \<noteq> StNone \<or> hd_batch_id h \<noteq> FRAME_ID \<or> hd_item_count h \<noteq> FRAME_ITEMS
       then Err (failure_new PlProtocol (lit ''invalid placement frame schema''))
       else res_bind (res_map_err (pl_wire C) (checked_mpi_count (hd_payload_len h))) (\<lambda>_.
         res_bind (res_map_err (pl_wire C) (checked_usize_length (hd_payload_len h))) (\<lambda>_.
           if word_of_nat (length payload) \<noteq> hd_payload_len h
           then Err (failure_new PlProtocol (lit ''placement payload length does not match its header''))
           else res_bind (res_map_err (pl_wire C) (checked_mpi_count (word_of_nat (length payload)))) (\<lambda>_.
             res_map_err (pl_wire C) (decode_payload (vc_dec C) payload)))))"

section \<open>Collectives\<close>

definition others :: "int \<Rightarrow> int \<Rightarrow> int list" where
  "others root np = filter (\<lambda>d. d \<noteq> root) [0..np - 1]"

text \<open>\<open>unwrap_or_else(|| abort(74))\<close>.\<close>

definition pl_unwrap :: "'a option \<Rightarrow> ('a \<Rightarrow> 'b proc) \<Rightarrow> 'b proc" where
  "pl_unwrap v k = (case v of None \<Rightarrow> PAbort 74 | Some x \<Rightarrow> k x)"

fun split_result :: "('e, 'a) result \<Rightarrow> 'a option \<times> 'e option" where
  "split_result (Inr a) = (Some a, None)"
| "split_result (Inl e) = (None, Some e)"

definition broadcast_transfer :: "'t value_codec \<Rightarrow> int \<Rightarrow> int \<Rightarrow> int \<Rightarrow> 't option \<Rightarrow> (placement_error, 't) result proc" where
  "broadcast_transfer C rank np root root_value =
     (if np = 1 then pl_unwrap root_value (\<lambda>v. PRet (Ok v))
      else (case (if rank = root
                  then (case root_value of
                      Some v \<Rightarrow> split_result (pl_encode C v)
                    | None \<Rightarrow> (None, Some (failure_new PlProtocol (lit ''missing root broadcast value''))))
                  else (None, None)) of
          (encoded, encode_failure) \<Rightarrow>
            pl_agree rank np encode_failure
              (if rank = root
               then pl_unwrap encoded (\<lambda>payload.
                      foldr (\<lambda>d. pl_send_frame d OpBroadcast payload) (others root np)
                        (pl_agree rank np None (pl_unwrap root_value (\<lambda>v. PRet (Ok v)))))
               else pl_receive_frame root (\<lambda>h payload.
                      case split_result (decode_received C OpBroadcast h payload) of (received, local_failure) \<Rightarrow>
                        pl_agree rank np local_failure (pl_unwrap received (\<lambda>v. PRet (Ok v)))))))"

definition pl_broadcast ::
  "'t value_codec \<Rightarrow> int \<Rightarrow> int \<Rightarrow> bool \<Rightarrow> int \<Rightarrow> 't option \<Rightarrow> (placement_error, 't) result proc"
where
  "pl_broadcast C rank np thread_main root root_value =
     pl_preflight rank np thread_main OpBroadcast root ((rank = root) = (root_value \<noteq> None))
       (broadcast_transfer C rank np root root_value)"

text \<open>The shards are encoded before anything is sent; \<open>shards[destination]\<close> of a root whose input has been checked is in range.\<close>

fun preencode :: "'t value_codec \<Rightarrow> 't option list \<Rightarrow> int list \<Rightarrow> (int \<times> bytes) list \<times> failure option \<Rightarrow> (int \<times> bytes) list \<times> failure option" where
  "preencode C shards [] acc = acc"
| "preencode C shards (d # ds) (encoded, fl) =
     preencode C shards ds
       (case shards ! nat d of
          Some v \<Rightarrow> (case pl_encode C v of Inr bs \<Rightarrow> (encoded @ [(d, bs)], fl) | Inl e \<Rightarrow> (encoded, record_failure fl e))
        | None \<Rightarrow> (encoded, record_failure fl (failure_new PlProtocol (lit ''missing scatter shard''))))"

definition preencode_scatter ::
  "'t value_codec \<Rightarrow> 't option list \<Rightarrow> int \<Rightarrow> int \<Rightarrow> 't option \<times> (int \<times> bytes) list \<times> failure option"
where
  "preencode_scatter C shards root np =
     (shards ! nat root, preencode C (shards[nat root := None]) (others root np) ([], None))"

definition scatter_transfer :: "'t value_codec \<Rightarrow> int \<Rightarrow> int \<Rightarrow> int \<Rightarrow> 't list option \<Rightarrow> (placement_error, 't) result proc" where
  "scatter_transfer C rank np root root_shards =
     (let shards = map_option (map Some) root_shards in
      if np = 1 then pl_unwrap (case shards of Some ss \<Rightarrow> ss ! 0 | None \<Rightarrow> None) (\<lambda>v. PRet (Ok v))
      else if rank = root
      then pl_unwrap shards (\<lambda>ss.
        case preencode_scatter C ss root np of (local_value, encoded, encode_failure) \<Rightarrow>
          pl_agree rank np encode_failure
            (foldr (\<lambda>d p. pl_unwrap (map_of encoded d) (\<lambda>payload. pl_send_frame d OpScatter payload p)) (others root np)
              (pl_agree rank np None (pl_unwrap local_value (\<lambda>v. PRet (Ok v))))))
      else pl_agree rank np None
        (pl_receive_frame root (\<lambda>h payload.
           case split_result (decode_received C OpScatter h payload) of (received, local_failure) \<Rightarrow>
             pl_agree rank np local_failure (pl_unwrap received (\<lambda>v. PRet (Ok v))))))"

definition pl_scatter ::
  "'t value_codec \<Rightarrow> int \<Rightarrow> int \<Rightarrow> bool \<Rightarrow> int \<Rightarrow> 't list option \<Rightarrow> (placement_error, 't) result proc"
where
  "pl_scatter C rank np thread_main root root_shards =
     pl_preflight rank np thread_main OpScatter root
       ((rank = root) = (root_shards \<noteq> None)
        \<and> (rank \<noteq> root \<or> (case root_shards of Some shards \<Rightarrow> length shards = nat np | None \<Rightarrow> False)))
       (scatter_transfer C rank np root root_shards)"

text \<open>The root takes the frames in the order of the ranks, and goes on after one that it cannot read.\<close>

fun gather_from ::
  "'t value_codec \<Rightarrow> int list \<Rightarrow> 't option list \<Rightarrow> failure option \<Rightarrow> ('t option list \<Rightarrow> failure option \<Rightarrow> 'a proc) \<Rightarrow> 'a proc"
where
  "gather_from C [] gathered fl k = k gathered fl"
| "gather_from C (source # sources) gathered fl k =
     pl_receive_frame source (\<lambda>h payload.
       case decode_received C OpGather h payload of
         Inr v \<Rightarrow> gather_from C sources (gathered[nat source := Some v]) fl k
       | Inl e \<Rightarrow> gather_from C sources gathered (record_failure fl e) k)"

fun unwrap_all :: "'t option list \<Rightarrow> 't list \<Rightarrow> ('t list \<Rightarrow> 'a proc) \<Rightarrow> 'a proc" where
  "unwrap_all [] out k = k out"
| "unwrap_all (v # vs) out k = pl_unwrap v (\<lambda>x. unwrap_all vs (out @ [x]) k)"

definition gather_transfer :: "'t value_codec \<Rightarrow> int \<Rightarrow> int \<Rightarrow> int \<Rightarrow> 't \<Rightarrow> (placement_error, 't list option) result proc" where
  "gather_transfer C rank np root v =
     (if np = 1 then PRet (Ok (Some [v]))
      else (case (if rank = root then (None, None) else split_result (pl_encode C v)) of
          (encoded, encode_failure) \<Rightarrow>
            pl_agree rank np encode_failure
              (if rank = root
               then gather_from C (others root np) ((replicate (nat np) None)[nat root := Some v]) None (\<lambda>gathered fl.
                      pl_agree rank np fl (unwrap_all gathered [] (\<lambda>out. PRet (Ok (Some out)))))
               else pl_unwrap encoded (\<lambda>payload. pl_send_frame root OpGather payload (pl_agree rank np None (PRet (Ok None)))))))"

definition pl_gather ::
  "'t value_codec \<Rightarrow> int \<Rightarrow> int \<Rightarrow> bool \<Rightarrow> int \<Rightarrow> 't \<Rightarrow> (placement_error, 't list option) result proc"
where
  "pl_gather C rank np thread_main root v =
     pl_preflight rank np thread_main OpGather root True (gather_transfer C rank np root v)"

end
