(* ===== verification/MpiDet.thy ===== *)
theory MpiDet
  imports MpiView
begin

text \<open>
  Programs that receive only from ranks they name have one outcome. Steps of two ranks do not disturb each other, and a collective call
  is the only step of a world in which it is made; so when one run of such a world ends, every run ends, in the same world and after
  the same number of steps; and when one run ends without buffering any message, every state of every run can go on to that end without
  buffering another one. To know all runs of a collective of \<open>src/placement.rs\<close> it is enough to follow one.
\<close>

section \<open>Plain programs\<close>

primrec plain :: "('a \<Rightarrow> bool) \<Rightarrow> 'a proc \<Rightarrow> bool" where
  "plain P (PRet a) \<longleftrightarrow> P a"
| "plain P (PSend d t bs p) \<longleftrightarrow> plain P p"
| "plain P (PRecv s t k) \<longleftrightarrow> (\<forall>bs. plain P (k bs))"
| "plain P (PRecvAny t j) \<longleftrightarrow> False"
| "plain P (PProbe t l) \<longleftrightarrow> False"
| "plain P (PReduce op v m) \<longleftrightarrow> (\<forall>x. plain P (m x))"
| "plain P (PBcast r v n) \<longleftrightarrow> (\<forall>b. plain P (n b))"
| "plain P (PTryJoin g) \<longleftrightarrow> False"
| "plain P (PJoin i) \<longleftrightarrow> False"
| "plain P (PAbort code) \<longleftrightarrow> True"
| "plain P PPanic \<longleftrightarrow> True"

lemma plain_pbind: "plain Q p \<Longrightarrow> (\<And>a. Q a \<Longrightarrow> plain P (f a)) \<Longrightarrow> plain P (pbind p f)"
  by (induction p) auto

fun is_exit :: "('s, 'r) ctl \<Rightarrow> bool" where
  "is_exit (Exit x) \<longleftrightarrow> True"
| "is_exit (Again s) \<longleftrightarrow> False"

definition plain_world :: "int \<Rightarrow> ('s, 'r) world \<Rightarrow> bool" where
  "plain_world np w \<longleftrightarrow> (\<forall>r. in_comm np r \<longrightarrow> plain is_exit (procs w r))"

text \<open>A step of one rank, and a step of all.\<close>

inductive own_step :: "int \<Rightarrow> int \<Rightarrow> ('s, 'r) world \<Rightarrow> ('s, 'r) world \<Rightarrow> bool" for np r w where
  send: "procs w r = PSend d t bs p \<Longrightarrow> in_comm np d \<Longrightarrow> own_step np r w (set_queue (r, d, t) (net w (r, d, t) @ [bs]) (set_proc r p w))"
| recv: "procs w r = PRecv s t k \<Longrightarrow> net w (s, r, t) = bs # bss \<Longrightarrow> own_step np r w (set_queue (s, r, t) bss (set_proc r (k bs) w))"

inductive joint_step :: "int \<Rightarrow> ('s, 'r) world \<Rightarrow> ('s, 'r) world \<Rightarrow> bool" for np w where
  reduce: "(\<And>r. in_comm np r \<Longrightarrow> procs w r = PReduce op (v r) (m r)) \<Longrightarrow> joint_step np w (set_procs np (\<lambda>r. m r (reduce_all op np v)) w)"
| bcast: "in_comm np root \<Longrightarrow> (\<And>r. in_comm np r \<Longrightarrow> procs w r = PBcast root (b r) (n r) \<and> same_shape (b root) (b r))
    \<Longrightarrow> joint_step np w (set_procs np (\<lambda>r. n r (b root)) w)"

lemma plain_step:
  assumes "plain_world np w" "mpi_step np body w w'"
  shows "(\<exists>r. in_comm np r \<and> own_step np r w w') \<or> joint_step np w w'"
  using assms(2)
proof cases
  case (send r d t bs p)
  then show ?thesis using own_step.send by blast
next
  case (recv r s t k bs bss)
  then show ?thesis using own_step.recv by blast
next
  case (all_reduce op v m)
  then show ?thesis using joint_step.reduce by metis
next
  case (broadcast root b n)
  then show ?thesis using joint_step.bcast by metis
qed (use assms(1) in \<open>fastforce simp: plain_world_def\<close>)+

lemma step_plain:
  assumes "(\<exists>r. in_comm np r \<and> own_step np r w w') \<or> joint_step np w w'"
  shows "mpi_step np body w w'"
  using assms
proof (elim disjE exE conjE)
  fix r
  assume "in_comm np r" "own_step np r w w'"
  from this(2,1) show ?thesis by (cases rule: own_step.cases) (auto intro: mpi_step.send mpi_step.recv)
next
  assume "joint_step np w w'"
  then show ?thesis by (cases rule: joint_step.cases) (auto intro: mpi_step.all_reduce mpi_step.broadcast)
qed

lemma plain_keep:
  assumes "plain_world np w" "mpi_step np body w w'"
  shows "plain_world np w'"
  using plain_step [OF assms]
proof (elim disjE exE conjE)
  fix r
  assume r: "in_comm np r" "own_step np r w w'"
  have "plain is_exit (procs w r)" using assms(1) r(1) by (simp add: plain_world_def)
  with r(2) show ?thesis using assms(1) by (cases rule: own_step.cases) (auto simp: plain_world_def)
next
  assume "joint_step np w w'"
  then show ?thesis using assms(1) by (cases rule: joint_step.cases) (fastforce simp: plain_world_def)+
qed

section \<open>Confluence\<close>

lemma own_step_det: "own_step np r w a \<Longrightarrow> own_step np r w b \<Longrightarrow> a = b"
  by (erule own_step.cases; erule own_step.cases) auto

lemma own_sendI:
  "procs w r = PSend d t bs p \<Longrightarrow> in_comm np d \<Longrightarrow> procs w' = (procs w)(r := p) \<Longrightarrow> net w' = (net w)((r, d, t) := net w (r, d, t) @ [bs]) \<Longrightarrow> own_step np r w w'"
proof -
  assume "procs w r = PSend d t bs p" "in_comm np d" and w': "procs w' = (procs w)(r := p)" "net w' = (net w)((r, d, t) := net w (r, d, t) @ [bs])"
  then have "own_step np r w (set_queue (r, d, t) (net w (r, d, t) @ [bs]) (set_proc r p w))" by (intro own_step.send)
  moreover have "w' = set_queue (r, d, t) (net w (r, d, t) @ [bs]) (set_proc r p w)" by (rule world_eqI) (simp_all add: w')
  ultimately show ?thesis by simp
qed

lemma own_recvI:
  "procs w r = PRecv s t k \<Longrightarrow> net w (s, r, t) = bs # bss \<Longrightarrow> procs w' = (procs w)(r := k bs) \<Longrightarrow> net w' = (net w)((s, r, t) := bss) \<Longrightarrow> own_step np r w w'"
proof -
  assume "procs w r = PRecv s t k" "net w (s, r, t) = bs # bss" and w': "procs w' = (procs w)(r := k bs)" "net w' = (net w)((s, r, t) := bss)"
  then have "own_step np r w (set_queue (s, r, t) bss (set_proc r (k bs) w))" by (intro own_step.recv)
  moreover have "w' = set_queue (s, r, t) bss (set_proc r (k bs) w)" by (rule world_eqI) (simp_all add: w')
  ultimately show ?thesis by simp
qed

lemma own_step_commute:
  assumes rq: "r \<noteq> q" and a: "own_step np r w a" and b: "own_step np q w b"
  shows "\<exists>c. own_step np q a c \<and> own_step np r b c"
  using a
proof cases
  case S: (send d t bs p)
  from b show ?thesis
  proof cases
    case (send d' t' bs' p')
    let ?c = "\<lparr>procs = (procs w)(r := p, q := p'), net = (net w)((r, d, t) := net w (r, d, t) @ [bs], (q, d', t') := net w (q, d', t') @ [bs'])\<rparr>"
    have "own_step np q a ?c" by (rule own_sendI [of _ _ d' t' bs' p']) (use S send rq in \<open>auto simp: fun_eq_iff\<close>)
    moreover have "own_step np r b ?c" by (rule own_sendI [of _ _ d t bs p]) (use S send rq in \<open>auto simp: fun_eq_iff\<close>)
    ultimately show ?thesis by blast
  next
    case (recv s t' k bs' bss')
    let ?c = "\<lparr>procs = (procs w)(r := p, q := k bs'), net = (net b)((r, d, t) := net b (r, d, t) @ [bs])\<rparr>"
    have "own_step np q a ?c" by (rule own_recvI [of _ _ s t' k bs' "net ?c (s, q, t')"]) (use S recv rq in \<open>auto simp: fun_eq_iff\<close>)
    moreover have "own_step np r b ?c" by (rule own_sendI [of _ _ d t bs p]) (use S recv rq in \<open>auto simp: fun_eq_iff\<close>)
    ultimately show ?thesis by blast
  qed
next
  case S: (recv s t k bs bss)
  from b show ?thesis
  proof cases
    case (send d' t' bs' p')
    let ?c = "\<lparr>procs = (procs w)(r := k bs, q := p'), net = (net a)((q, d', t') := net a (q, d', t') @ [bs'])\<rparr>"
    have "own_step np q a ?c" by (rule own_sendI [of _ _ d' t' bs' p']) (use S send rq in \<open>auto simp: fun_eq_iff\<close>)
    moreover have "own_step np r b ?c" by (rule own_recvI [of _ _ s t k bs "net ?c (s, r, t)"]) (use S send rq in \<open>auto simp: fun_eq_iff\<close>)
    ultimately show ?thesis by blast
  next
    case (recv s' t' k' bs' bss')
    let ?c = "\<lparr>procs = (procs w)(r := k bs, q := k' bs'), net = (net w)((s, r, t) := bss, (s', q, t') := bss')\<rparr>"
    have "own_step np q a ?c" by (rule own_recvI [of _ _ s' t' k' bs' bss']) (use S recv rq in \<open>auto simp: fun_eq_iff\<close>)
    moreover have "own_step np r b ?c" by (rule own_recvI [of _ _ s t k bs bss]) (use S recv rq in \<open>auto simp: fun_eq_iff\<close>)
    ultimately show ?thesis by blast
  qed
qed

lemma joint_not_own:
  assumes "joint_step np w a" "in_comm np r"
  shows "\<not> own_step np r w b"
  using assms by (auto elim!: joint_step.cases own_step.cases)

lemma joint_step_det:
  assumes np: "1 \<le> np" and a: "joint_step np w a" and b: "joint_step np w b"
  shows "a = b"
proof -
  have zero: "in_comm np 0" using np by (simp add: in_comm_def)
  from a show ?thesis
  proof cases
    case A: (reduce op v m)
    from b show ?thesis
    proof cases
      case (reduce op' v' m')
      have eq: "op' = op \<and> v' r = v r \<and> m' r = m r" if "in_comm np r" for r using A(2) [OF that] reduce(2) [OF that] by simp
      then have "reduce_all op' np v' = reduce_all op np v" using zero reduce_all_cong [of np v' v] by auto
      then show ?thesis using A(1) reduce(1) eq by (intro world_eqI) (auto simp: fun_eq_iff)
    next
      case (bcast root c n)
      then show ?thesis using A(2) [OF zero] bcast(3) [OF zero] by simp
    qed
  next
    case A: (bcast root c n)
    from b show ?thesis
    proof cases
      case (reduce op' v' m')
      then show ?thesis using A(3) [OF zero] reduce(2) [OF zero] by simp
    next
      case (bcast root' c' n')
      have eq: "root' = root \<and> c' r = c r \<and> n' r = n r" if "in_comm np r" for r using A(3) [OF that] bcast(3) [OF that] by simp
      then show ?thesis using A(1,2) bcast(1) zero by (intro world_eqI) (auto simp: fun_eq_iff)
    qed
  qed
qed

lemma plain_diamond:
  assumes np: "1 \<le> np" and w: "plain_world np w" and a: "mpi_step np body w a" and b: "mpi_step np body w b"
  shows "a = b \<or> (\<exists>c. mpi_step np body a c \<and> mpi_step np body b c)"
proof -
  from plain_step [OF w a] plain_step [OF w b] consider
      r q where "in_comm np r" "own_step np r w a" "in_comm np q" "own_step np q w b"
    | "joint_step np w a" "joint_step np w b"
    | r where "in_comm np r" "own_step np r w a" "joint_step np w b"
    | r where "in_comm np r" "own_step np r w b" "joint_step np w a" by blast
  then show ?thesis
  proof cases
    case (1 r q)
    show ?thesis
    proof (cases "r = q")
      case True
      then show ?thesis using own_step_det 1 by blast
    next
      case False
      then show ?thesis using own_step_commute [OF False 1(2,4)] 1(1,3) step_plain by blast
    qed
  qed (use joint_step_det [OF np] joint_not_own in blast)+
qed

section \<open>One run speaks for all\<close>

inductive mpi_steps :: "int \<Rightarrow> (int \<Rightarrow> 's \<Rightarrow> ('s, 'r) ctl proc) \<Rightarrow> nat \<Rightarrow> ('s, 'r) world \<Rightarrow> ('s, 'r) world \<Rightarrow> bool" for np body where
  none: "mpi_steps np body 0 w w"
| more: "mpi_step np body w w' \<Longrightarrow> mpi_steps np body n w' w'' \<Longrightarrow> mpi_steps np body (Suc n) w w''"

lemma mpi_steps_trans: "mpi_steps np body n u v \<Longrightarrow> mpi_steps np body m v w \<Longrightarrow> mpi_steps np body (n + m) u w"
  by (induction rule: mpi_steps.induct) (auto intro: mpi_steps.more)

lemma step_leads:
  assumes np: "1 \<le> np" and run: "mpi_steps np body n w z" and w: "plain_world np w" and z: "\<nexists>z'. mpi_step np body z z'" and b: "mpi_step np body w b"
  shows "\<exists>m. n = Suc m \<and> mpi_steps np body m b z"
  using run w z b
proof (induction arbitrary: b rule: mpi_steps.induct)
  case (more w w' n z)
  show ?case
  proof (cases "w' = b")
    case False
    then obtain c where c: "mpi_step np body w' c" "mpi_step np body b c"
      using plain_diamond [OF np more.prems(1) more.hyps(1) more.prems(3)] by blast
    then obtain m where "n = Suc m" "mpi_steps np body m c z"
      using more.IH [OF plain_keep [OF more.prems(1) more.hyps(1)] more.prems(2) c(1)] by blast
    then show ?thesis using mpi_steps.more [OF c(2)] by blast
  qed (use more.hyps(2) in blast)
qed blast

lemma run_leads:
  assumes np: "1 \<le> np" and run: "mpi_steps np body n w z" and w: "plain_world np w" and z: "\<nexists>z'. mpi_step np body z z'" and u: "mpi_steps np body k w u"
  shows "k \<le> n \<and> mpi_steps np body (n - k) u z"
  using u run w
proof (induction arbitrary: n rule: mpi_steps.induct)
  case (more w w' k u)
  obtain m where m: "n = Suc m" "mpi_steps np body m w' z" using step_leads [OF np more.prems(1,2) z more.hyps(1)] by blast
  show ?case using more.IH [OF m(2) plain_keep [OF more.prems(2) more.hyps(1)]] m(1) by simp
qed simp

lemma exit_stays:
  assumes "mpi_step np body w w'" "procs w r = PRet (Exit x)" "in_comm np r"
  shows "procs w' r = PRet (Exit x)"
  using assms by (cases rule: mpi_step.cases) auto

lemma returned_stays:
  "mpi_steps np body k w u \<Longrightarrow> returned w r = Some x \<Longrightarrow> in_comm np r \<Longrightarrow> returned u r = Some x"
proof (induction rule: mpi_steps.induct)
  case (more w w' n u)
  have "procs w r = PRet (Exit x)" using more.prems(1) by (auto simp: returned_def split: proc.splits ctl.splits)
  then have "returned w' r = Some x" using exit_stays [OF more.hyps(1) _ more.prems(2)] by (simp add: returned_def)
  then show ?case using more by blast
qed

text \<open>The same without buffers: whatever was done before, the rest can be done without any message being buffered.\<close>

lemma plain_sure:
  assumes "plain_world np w" "mpi_sure np body w w'"
  obtains r s t k where "in_comm np r" "procs w r = PRecv s t k" "own_step np r w w'"
  | "joint_step np w w'"
  | s r t bs p k where "in_comm np s" "procs w s = PSend r t bs p" "in_comm np r" "procs w r = PRecv s t k" "net w (s, r, t) = []"
      "w' = set_proc r (k bs) (set_proc s p w)"
  using assms(2)
proof cases
  case unbuffered
  show ?thesis
    using plain_step [OF assms(1) unbuffered(1)]
  proof (elim disjE exE conjE)
    fix r
    assume r: "in_comm np r" "own_step np r w w'"
    from r(2) show ?thesis
    proof cases
      case (send d t bs p)
      then show ?thesis using unbuffered(2) [of "(r, d, t)"] by simp
    next
      case (recv s t k bs bss)
      then show ?thesis using that(1) r by blast
    qed
  qed (use that(2) in blast)
next
  case (meet s r t bs p k)
  then show ?thesis using that(3) by blast
next
  case (meet_any s r t bs p j)
  then show ?thesis using assms(1) by (fastforce simp: plain_world_def)
qed

lemma own_recv_sure:
  assumes "in_comm np r" "procs w r = PRecv s t k" "own_step np r w w'"
  shows "mpi_sure np body w w'"
  using assms(3)
proof cases
  case (recv s' t' k' bs bss)
  then show ?thesis using step_plain [of np w w' body] assms by (intro mpi_sure.unbuffered) auto
qed (use assms(2) in simp)

lemma own_step_elsewhere:
  assumes "own_step np r w b" "r \<noteq> s" "r \<noteq> d"
  shows "procs b s = procs w s" "procs b d = procs w d" "net b (s, d, t) = net w (s, d, t)"
  using assms by (auto elim!: own_step.cases)

lemma own_step_meet:
  assumes "own_step np r w b" "r \<noteq> s" "r \<noteq> d"
  shows "own_step np r (set_proc d y (set_proc s x w)) (set_proc d y (set_proc s x b))"
  using assms(1)
proof cases
  case (send d' t bs p)
  then show ?thesis using assms(2,3) by (intro own_sendI [of _ _ d' t bs p]) (auto simp: fun_eq_iff)
next
  case (recv s' t k bs bss)
  then show ?thesis using assms(2,3) by (intro own_recvI [of _ _ s' t k bs bss]) (auto simp: fun_eq_iff)
qed

lemma sure_diamond:
  assumes np: "1 \<le> np" and w: "plain_world np w" and a: "mpi_sure np body w a" and b: "mpi_step np body w b"
  shows "a = b \<or> mpi_sure np body b a \<or> (\<exists>c. mpi_sure np body b c \<and> mpi_step np body a c)"
  using plain_step [OF w b]
proof (elim disjE exE conjE)
  assume j: "joint_step np w b"
  from w a show ?thesis
  proof (cases rule: plain_sure)
    case 2
    then show ?thesis using joint_step_det [OF np _ j] by blast
  next
    case (3 s r t bs p k)
    then have "own_step np s w (set_queue (s, r, t) [bs] (set_proc s p w))" by (intro own_sendI [of _ _ r t bs p]) auto
    then show ?thesis using joint_not_own [OF j 3(1)] by blast
  qed (use joint_not_own [OF j] in blast)
next
  fix r
  assume r: "in_comm np r" "own_step np r w b"
  from w a show ?thesis
  proof (cases rule: plain_sure)
    case (1 q s t k)
    show ?thesis
    proof (cases "q = r")
      case True
      then show ?thesis using own_step_det [OF 1(3)] r(2) by blast
    next
      case False
      obtain c where c: "own_step np r a c" "own_step np q b c" using own_step_commute [OF False 1(3) r(2)] by blast
      have "procs b q = procs w q" using own_step_elsewhere(1) [OF r(2), of q q] False by simp
      then have "mpi_sure np body b c" using own_recv_sure [OF 1(1) _ c(2)] 1(2) by simp
      moreover have "mpi_step np body a c" using step_plain c(1) r(1) by blast
      ultimately show ?thesis by blast
    qed
  next
    case 2
    then show ?thesis using joint_not_own r by blast
  next
    case (3 s d t bs p k)
    have sd: "s \<noteq> d" using 3(2,4) by auto
    consider "r = s" | "r = d" | "r \<noteq> s" "r \<noteq> d" by blast
    then show ?thesis
    proof cases
      case 1
      then have b_is: "b = set_queue (s, d, t) [bs] (set_proc s p w)" using r(2) 3 by (auto elim!: own_step.cases)
      have "own_step np d b a" by (rule own_recvI [of _ _ s t k bs "[]"]) (use 3 b_is sd in \<open>auto simp: fun_eq_iff\<close>)
      moreover have "procs b d = PRecv s t k" using b_is 3(4) sd by simp
      ultimately show ?thesis using own_recv_sure [OF 3(3)] by blast
    next
      case 2
      then show ?thesis using r(2) 3 by (auto elim!: own_step.cases)
    next
      case away: 3
      note e = own_step_elsewhere [OF r(2) away]
      have "mpi_sure np body b (set_proc d (k bs) (set_proc s p b))" using 3 e by (intro mpi_sure.meet [where t = t]) auto
      moreover have "mpi_step np body a (set_proc d (k bs) (set_proc s p b))"
        using own_step_meet [OF r(2) away] step_plain r(1) 3(6) by blast
      ultimately show ?thesis by blast
    qed
  qed
qed

inductive sure_steps :: "int \<Rightarrow> (int \<Rightarrow> 's \<Rightarrow> ('s, 'r) ctl proc) \<Rightarrow> nat \<Rightarrow> ('s, 'r) world \<Rightarrow> ('s, 'r) world \<Rightarrow> bool" for np body where
  none: "sure_steps np body 0 w w"
| more: "mpi_sure np body w w' \<Longrightarrow> sure_steps np body n w' w'' \<Longrightarrow> sure_steps np body (Suc n) w w''"

lemma steps_of_reach: "mpi_reach np body w u \<Longrightarrow> \<exists>k. mpi_steps np body k w u"
proof (induction rule: mpi_reach.induct)
  case (step u v)
  then obtain k where "mpi_steps np body k w u" by blast
  moreover have "mpi_steps np body 1 u v" using mpi_steps.more [OF step.hyps(2) mpi_steps.none] by simp
  ultimately show ?case using mpi_steps_trans by blast
qed (blast intro: mpi_steps.none)

lemma plain_reach: "mpi_reach np body w u \<Longrightarrow> plain_world np w \<Longrightarrow> plain_world np u"
  by (induction rule: mpi_reach.induct) (auto dest: plain_keep)

lemma sure_steps_steps: "sure_steps np body n w z \<Longrightarrow> \<exists>m. mpi_steps np body m w z"
  by (induction rule: sure_steps.induct) (meson mpi_steps.none mpi_sure_reach steps_of_reach mpi_steps_trans)+

lemma sure_strip:
  assumes np: "1 \<le> np" and run: "sure_steps np body n w z" and w: "plain_world np w" and z: "\<nexists>z'. mpi_step np body z z'" and b: "mpi_step np body w b"
  shows "\<exists>m. sure_steps np body m b z"
  using run w z b
proof (induction arbitrary: b rule: sure_steps.induct)
  case (more w w' n z)
  from sure_diamond [OF np more.prems(1) more.hyps(1) more.prems(3)] show ?case
  proof (elim disjE exE conjE)
    fix c
    assume c: "mpi_sure np body b c" "mpi_step np body w' c"
    have "plain_world np w'" by (rule plain_reach [OF mpi_sure_reach [OF more.hyps(1)] more.prems(1)])
    then obtain m where "sure_steps np body m c z" using more.IH more.prems(2) c(2) by blast
    then show ?thesis using sure_steps.more [OF c(1)] by blast
  qed (use more.hyps sure_steps.more in blast)+
qed blast

text \<open>The outcome of a world: where all its runs end.\<close>

definition outcome :: "int \<Rightarrow> (int \<Rightarrow> 's \<Rightarrow> ('s, 'r) ctl proc) \<Rightarrow> ('s, 'r) world \<Rightarrow> (int \<Rightarrow> 'r) \<Rightarrow> bool" where
  "outcome np body w res \<longleftrightarrow> plain_world np w \<and> (\<exists>n z. sure_steps np body n w z \<and> (\<forall>r. in_comm np r \<longrightarrow> returned z r = Some (res r)))"

lemma all_returned_stuck:
  assumes np: "1 \<le> np" and z: "\<And>r. in_comm np r \<Longrightarrow> returned z r = Some (res r)"
  shows "\<nexists>z'. mpi_step np body z z'"
proof
  assume "\<exists>z'. mpi_step np body z z'"
  then obtain z' where st: "mpi_step np body z z'" by blast
  have p: "procs z r = PRet (Exit (res r))" if "in_comm np r" for r using z [OF that] by (auto simp: returned_def split: proc.splits ctl.splits)
  have zero: "in_comm np 0" using np by (simp add: in_comm_def)
  from st show False by cases (use p zero in \<open>auto simp: p\<close>)
qed

lemma outcome_run:
  assumes "outcome np body w res"
  obtains n z where "plain_world np w" "mpi_steps np body n w z" "\<And>r. in_comm np r \<Longrightarrow> returned z r = Some (res r)"
  using assms sure_steps_steps unfolding outcome_def by metis

lemma outcome_keeps:
  assumes np: "1 \<le> np" and out: "outcome np body w res" and u: "mpi_reach np body w u"
  shows "outcome np body u res"
  using u out
proof (induction rule: mpi_reach.induct)
  case (step u v)
  then obtain n z where nz: "plain_world np u" "sure_steps np body n u z" "\<And>r. in_comm np r \<Longrightarrow> returned z r = Some (res r)"
    by (auto simp: outcome_def)
  have "\<exists>m. sure_steps np body m v z" by (rule sure_strip [OF np nz(2,1) all_returned_stuck [OF np nz(3)] step.hyps(2)])
  then show ?case using nz(3) plain_keep [OF nz(1) step.hyps(2)] by (auto simp: outcome_def)
qed

lemma outcome_all_runs:
  assumes np: "1 \<le> np" and out: "outcome np body w res" and reach: "mpi_reach np body w u"
  shows "(\<exists>u'. mpi_sure np body u u') \<or> (\<forall>r. in_comm np r \<longrightarrow> returned u r = Some (res r))"
    "\<And>r x. in_comm np r \<Longrightarrow> returned u r = Some x \<Longrightarrow> x = res r"
proof -
  note u = outcome_keeps [OF np out reach]
  then obtain n z where nz: "sure_steps np body n u z" "\<forall>r. in_comm np r \<longrightarrow> returned z r = Some (res r)" by (auto simp: outcome_def)
  from nz(1) show "(\<exists>u'. mpi_sure np body u u') \<or> (\<forall>r. in_comm np r \<longrightarrow> returned u r = Some (res r))"
    by (cases rule: sure_steps.cases) (use nz(2) in blast)+
  obtain m z' where m: "mpi_steps np body m u z'" "\<And>r. in_comm np r \<Longrightarrow> returned z' r = Some (res r)" using outcome_run [OF u] by metis
  show "x = res r" if "in_comm np r" "returned u r = Some x" for r x
    using returned_stays [OF m(1) that(2,1)] m(2) [OF that(1)] by simp
qed

lemma outcome_ends:
  assumes np: "1 \<le> np" and out: "outcome np body w res"
  shows "\<exists>n. \<forall>k u. mpi_steps np body k w u \<longrightarrow> k \<le> n"
proof -
  obtain n z where nz: "plain_world np w" "mpi_steps np body n w z" "\<And>r. in_comm np r \<Longrightarrow> returned z r = Some (res r)"
    using outcome_run [OF out] by metis
  then show ?thesis using run_leads [OF np nz(2,1) all_returned_stuck [OF np nz(3), of body]] by blast
qed

text \<open>How to follow a run: collective calls, messages sent, messages taken.\<close>

lemma outcome_step:
  assumes "mpi_sure np body w w'" "plain_world np w" "outcome np body w' res"
  shows "outcome np body w res"
  using assms sure_steps.more unfolding outcome_def by blast

lemma outcome_done: "plain_world np w \<Longrightarrow> (\<And>r. in_comm np r \<Longrightarrow> procs w r = PRet (Exit (res r))) \<Longrightarrow> outcome np body w res"
  unfolding outcome_def by (intro conjI exI [of _ 0] exI [of _ w] sure_steps.none) (auto simp: returned_def)

end
