(* ===== verification/PlacementRun.thy ===== *)
theory PlacementRun
  imports Placement MpiDet
begin

text \<open>
  The collectives \<open>broadcast\<close>, \<open>scatter\<close> and \<open>gather\<close> of \<open>src/placement.rs\<close> as programs of all ranks. They receive only from ranks they
  name, so each call has one outcome (\<open>MpiDet\<close>), and one run is followed to find it: the agreement on the inputs, on the encoding,
  the frames between the root and the others, the agreement on the decoding.
\<close>

section \<open>Following a run\<close>

definition no_loop :: "int \<Rightarrow> unit \<Rightarrow> (unit, 'r) ctl proc" where
  "no_loop r s = PPanic"

lemma outcome_collects:
  assumes "collects np T as F" "\<And>r. in_comm np r \<Longrightarrow> procs w r = T r" "plain_world np w"
    "plain_world np (set_procs np F w) \<Longrightarrow> outcome np body (set_procs np F w) res"
  shows "outcome np body w res"
  using assms
proof (induction as arbitrary: T w)
  case Nil
  have "set_procs np F w = w" using Nil.prems(1,2) by (intro world_eqI) (auto simp: fun_eq_iff)
  then show ?case using Nil.prems(3,4) by simp
next
  case (Cons a as)
  obtain T' where T': "mpi_sure np body w (set_procs np T' w)" "collects np T' as F" using collects_sure [OF Cons.prems(1,2), of body] by blast
  have plain: "plain_world np (set_procs np T' w)" by (rule plain_reach [OF mpi_sure_reach [OF T'(1)] Cons.prems(3)])
  have "set_procs np F (set_procs np T' w) = set_procs np F w" by (rule world_eqI) (auto simp: fun_eq_iff)
  then have "outcome np body (set_procs np T' w) res"
    using Cons.IH [OF T'(2), of "set_procs np T' w"] plain Cons.prems(4) by simp
  then show ?case by (rule outcome_step [OF T'(1) Cons.prems(3)])
qed

text \<open>A frame from one rank to another: the receiver takes the header and then the payload, so the sender waits for neither.\<close>

lemma outcome_frame:
  assumes ab: "a \<noteq> b" "in_comm np a" "in_comm np b" and a: "procs w a = PSend b PL_HEADER_TAG h (PSend b PL_PAYLOAD_TAG p q)"
    and b: "procs w b = pl_receive_frame a k" and net: "net w (a, b, PL_HEADER_TAG) = []" "net w (a, b, PL_PAYLOAD_TAG) = []" and w: "plain_world np w"
    and out: "plain_world np (set_proc a q (set_proc b (k h p) w)) \<Longrightarrow> outcome np body (set_proc a q (set_proc b (k h p) w)) res"
  shows "outcome np body w res"
proof -
  let ?k = "\<lambda>x. PRecv a PL_PAYLOAD_TAG (\<lambda>y. k x y)"
  define w1 where "w1 = set_proc b (?k h) (set_proc a (PSend b PL_PAYLOAD_TAG p q) w)"
  define w2 where "w2 = set_proc b (k h p) (set_proc a q w1)"
  have s1: "mpi_sure np body w w1"
    unfolding w1_def by (rule mpi_sure.meet [OF ab(2) a ab(3) _ net(1)]) (simp add: b pl_receive_frame_def)
  have s2: "mpi_sure np body w1 w2"
    unfolding w2_def by (rule mpi_sure.meet [OF ab(2) _ ab(3)]) (use ab(1) net(2) in \<open>simp_all add: w1_def\<close>)
  have w2: "w2 = set_proc a q (set_proc b (k h p) w)" using ab(1) by (intro world_eqI) (auto simp: w1_def w2_def fun_eq_iff)
  note p1 = plain_reach [OF mpi_sure_reach [OF s1] w]
  note p2 = plain_reach [OF mpi_sure_reach [OF s2] p1]
  have "outcome np body w2 res" using out p2 unfolding w2 by simp
  then show ?thesis using outcome_step [OF s1 w] outcome_step [OF s2 p1] by blast
qed

section \<open>Agreement\<close>

text \<open>The text of a failure is a string of bounded length.\<close>

definition failure_ok :: "failure \<Rightarrow> bool" where
  "failure_ok fl \<longleftrightarrow> utf8_valid (fl_message fl) \<and> length (fl_message fl) \<le> MAX_ERROR_MESSAGE_BYTES"

text \<open>What the ranks agree on: the failure of the least rank that has one.\<close>

definition agreed :: "int \<Rightarrow> (int \<Rightarrow> failure option) \<Rightarrow> placement_error option" where
  "agreed np fl = (case find (\<lambda>r. fl r \<noteq> None) [0..np - 1] of
     None \<Rightarrow> None
   | Some q \<Rightarrow> map_option (\<lambda>f. placement_error_new (fl_kind f) (Some q) (fl_message f)) (fl q))"

lemma find_upto_None: "find P [0..np - 1] = None \<longleftrightarrow> (\<forall>r. in_comm np r \<longrightarrow> \<not> P r)"
  by (auto simp: find_None_iff in_comm_def)

lemma find_upto_Some:
  assumes "find P [0..np - 1] = Some q"
  shows "in_comm np q" "P q" "\<And>r. in_comm np r \<Longrightarrow> P r \<Longrightarrow> q \<le> r"
proof -
  obtain i where i: "i < length [0..np - 1]" "P ([0..np - 1] ! i)" "q = [0..np - 1] ! i" "\<forall>j<i. \<not> P ([0..np - 1] ! j)"
    using assms by (auto simp: find_Some_iff)
  then have q: "q = int i" "0 \<le> q" "q < np" by auto
  then show "in_comm np q" "P q" using i by (auto simp: in_comm_def)
  show "q \<le> r" if "in_comm np r" "P r" for r
  proof (rule ccontr)
    assume "\<not> q \<le> r"
    then have "nat r < i" "[0..np - 1] ! nat r = r" using that(1) q by (auto simp: in_comm_def)
    then show False using i(4) that(2) by auto
  qed
qed

lemma agreed_None: "agreed np fl = None \<longleftrightarrow> (\<forall>r. in_comm np r \<longrightarrow> fl r = None)"
proof (cases "find (\<lambda>r. fl r \<noteq> None) [0..np - 1]")
  case None
  then show ?thesis by (simp add: agreed_def) (simp add: find_upto_None)
next
  case (Some q)
  then show ?thesis using find_upto_Some [OF Some] by (auto simp: agreed_def)
qed

lemma kind_code_round [simp]: "placement_kind_from_code (placement_kind_code k) = Some k"
  by (cases k) (simp_all add: placement_kind_from_code_def)

lemma reduce_min_is: "in_comm np q \<Longrightarrow> v q = x \<Longrightarrow> (\<And>r. in_comm np r \<Longrightarrow> x \<le> v r) \<Longrightarrow> reduce_all RedMin np v = x"
  unfolding reduce_all_def reduce_op.case by (rule Min_eqI) (auto simp: in_comm_def)

lemma reduce_max_is: "in_comm np q \<Longrightarrow> v q = x \<Longrightarrow> (\<And>r. in_comm np r \<Longrightarrow> v r \<le> x) \<Longrightarrow> reduce_all RedMax np v = x"
  unfolding reduce_all_def reduce_op.case by (rule Max_eqI) (auto simp: in_comm_def)

lemma converge_collects:
  assumes np: "1 \<le> np" and ok: "\<And>r f. in_comm np r \<Longrightarrow> fl r = Some f \<Longrightarrow> failure_ok f"
  shows "\<exists>as. collects np (\<lambda>r. pbind (converge r np (fl r)) (k r)) as (\<lambda>r. k r (agreed np fl))"
proof (cases "find (\<lambda>r. fl r \<noteq> None) [0..np - 1]")
  case None
  then have none: "fl r = None" if "in_comm np r" for r using that by (simp add: find_upto_None)
  have "reduce_all RedMin np (\<lambda>r. if fl r \<noteq> None then r else np) = np"
    by (rule reduce_min_is [of np 0]) (use np none in \<open>auto simp: in_comm_def\<close>)
  then have "collects np (\<lambda>r. pbind (converge r np (fl r)) (k r)) [AInt np] (\<lambda>r. k r (agreed np fl))"
    unfolding converge_def pbind.simps by (intro collects_IntI [OF HOL.refl]) (use none in \<open>auto simp: agreed_None [THEN iffD2]\<close>)
  then show ?thesis by blast
next
  case (Some q)
  note q = find_upto_Some [OF Some]
  obtain f where f: "fl q = Some f" using q(2) by auto
  have fok: "utf8_valid (fl_message f)" "length (fl_message f) \<le> MAX_ERROR_MESSAGE_BYTES" using ok [OF q(1) f] by (auto simp: failure_ok_def)
  have small: "\<not> 2 ^ 31 \<le> length (fl_message f)" using fok(2) by (simp add: MAX_ERROR_MESSAGE_BYTES_def)
  have ag: "agreed np fl = Some (placement_error_new (fl_kind f) (Some q) (fl_message f))" using Some f by (simp add: agreed_def)
  let ?bs = "[BInt (placement_kind_code (fl_kind f)), BInt (int (length (fl_message f))), BBytes (fl_message f)]"
  have red: "reduce_all RedMin np (\<lambda>r. if fl r \<noteq> None then r else np) = q"
    by (rule reduce_min_is [OF q(1)]) (use q f in \<open>auto simp: in_comm_def\<close>)
  have "collects np (\<lambda>r. pbind (converge r np (fl r)) (k r)) (AInt q # map ABc ?bs) (\<lambda>r. k r (agreed np fl))"
    unfolding converge_def pbind.simps
    by (intro collects_IntI [OF HOL.refl red] hears_collects [OF q(1)])
      (use q(1) f fok small ag in \<open>auto simp: in_comm_def Let_def\<close>)
  then show ?thesis by blast
qed

section \<open>Calls\<close>

text \<open>What one rank calls, and what it gets: a value of a broadcast or its shard, or the values that were gathered.\<close>

datatype 't pl_call =
  CallBroadcast bool int "'t option"
| CallScatter bool int "'t list option"
| CallGather bool int 't

datatype 't placed = PlValue 't | PlGathered "'t list option"

type_synonym 't pl_answer = "(placement_error, 't placed) result"

definition fin :: "('a \<Rightarrow> 'b) \<Rightarrow> (placement_error, 'a) result proc \<Rightarrow> (unit, (placement_error, 'b) result) ctl proc" where
  "fin f p = pbind p (\<lambda>x. PRet (Exit (case x of Inl e \<Rightarrow> Err e | Inr v \<Rightarrow> Ok (f v))))"

fun pl_program :: "'t value_codec \<Rightarrow> int \<Rightarrow> int \<Rightarrow> 't pl_call \<Rightarrow> (unit, 't pl_answer) ctl proc" where
  "pl_program C np rank (CallBroadcast thread_main root v) = fin PlValue (pl_broadcast C rank np thread_main root v)"
| "pl_program C np rank (CallScatter thread_main root v) = fin PlValue (pl_scatter C rank np thread_main root v)"
| "pl_program C np rank (CallGather thread_main root v) = fin PlGathered (pl_gather C rank np thread_main root v)"

definition pl_begin :: "'t value_codec \<Rightarrow> int \<Rightarrow> (int \<Rightarrow> 't pl_call) \<Rightarrow> (unit, 't pl_answer) world" where
  "pl_begin C np calls = \<lparr>procs = \<lambda>r. pl_program C np r (calls r), net = \<lambda>_. []\<rparr>"

text \<open>An agreement in the tree of a call, for any continuation.\<close>

definition agree :: "int \<Rightarrow> int \<Rightarrow> failure option \<Rightarrow> (unit, (placement_error, 'b) result) ctl proc \<Rightarrow> (unit, (placement_error, 'b) result) ctl proc" where
  "agree rank np fl p = pbind (converge rank np fl) (\<lambda>oe. case oe of Some e \<Rightarrow> PRet (Exit (Err e)) | None \<Rightarrow> p)"

lemma fin_simps [simp]:
  "fin f (PRet (Inr v)) = PRet (Exit (Ok (f v)))" "fin f (PRet (Inl e)) = PRet (Exit (Err e))" "fin f (PAbort c) = PAbort c"
  "fin f (pl_agree rank np fl p) = agree rank np fl (fin f p)"
  by (auto simp: fin_def pl_agree_def agree_def pbind_assoc split: option.split intro!: arg_cong [of _ _ "pbind _"])

lemma fin_frames [simp]:
  "fin f (pl_send_frame d op payload p) = pl_send_frame d op payload (fin f p)"
  "fin f (pl_receive_frame s k) = pl_receive_frame s (\<lambda>h payload. fin f (k h payload))"
  "fin f (pl_unwrap v c) = pl_unwrap v (\<lambda>x. fin f (c x))"
  by (auto simp: fin_def pl_send_frame_def pl_receive_frame_def pl_unwrap_def split: sum.split option.split)

lemma pl_unwrap_simps [simp]: "pl_unwrap (Some x) c = c x" "pl_unwrap None c = PAbort 74"
  by (simp_all add: pl_unwrap_def)

lemma fin_send_all [simp]: "fin f (foldr (\<lambda>d. pl_send_frame d op payload) ds p) = foldr (\<lambda>d. pl_send_frame d op payload) ds (fin f p)"
  by (induction ds) simp_all

lemma fin_send_each [simp]:
  "fin f (foldr (\<lambda>d p. pl_unwrap (m d) (\<lambda>payload. pl_send_frame d op payload p)) ds p)
     = foldr (\<lambda>d p. pl_unwrap (m d) (\<lambda>payload. pl_send_frame d op payload p)) ds (fin f p)"
  by (induction ds) simp_all

lemma fin_gather [simp]: "fin f (gather_from C ds g fl k) = gather_from C ds g fl (\<lambda>g fl. fin f (k g fl))"
  by (induction C ds g fl k rule: gather_from.induct) (auto simp: fun_eq_iff split: sum.split intro!: arg_cong [of _ _ "pl_receive_frame _"])

section \<open>Plain programs\<close>

lemma plain_converge: "plain (\<lambda>_. True) (converge rank np fl)"
  by (simp add: converge_def Let_def split: option.split)

lemma plain_pl_agree: "plain (\<lambda>_. True) p \<Longrightarrow> plain (\<lambda>_. True) (pl_agree rank np fl p)"
  unfolding pl_agree_def by (rule plain_pbind [OF plain_converge]) (simp split: option.split)

lemma plain_frames:
  "plain P p \<Longrightarrow> plain P (pl_send_frame d op payload p)" "(\<And>h payload. plain P (k h payload)) \<Longrightarrow> plain P (pl_receive_frame s k)"
  "(\<And>x. plain P (c x)) \<Longrightarrow> plain P (pl_unwrap v c)"
  by (auto simp: pl_send_frame_def pl_receive_frame_def pl_unwrap_def split: sum.split option.split)

lemma plain_foldr: "plain P p \<Longrightarrow> (\<And>d q. plain P q \<Longrightarrow> plain P (g d q)) \<Longrightarrow> plain P (foldr g ds p)"
  by (induction ds) simp_all

lemma plain_gather: "(\<And>g fl. plain P (k g fl)) \<Longrightarrow> plain P (gather_from C ds g fl k)"
  by (induction C ds g fl k rule: gather_from.induct) (auto simp: pl_receive_frame_def split: sum.split)

lemma plain_unwrap_all: "(\<And>out. plain P (k out)) \<Longrightarrow> plain P (unwrap_all vs out k)"
  by (induction vs out k rule: unwrap_all.induct) (auto intro: plain_frames)

lemmas plain_rules = plain_pl_agree plain_frames plain_gather plain_unwrap_all

lemma plain_preflight: "plain (\<lambda>_. True) p \<Longrightarrow> plain (\<lambda>_. True) (pl_preflight rank np tm op root shape p)"
  by (simp add: pl_preflight_def plain_pl_agree)

lemma plain_transfers:
  "plain (\<lambda>_. True) (broadcast_transfer C rank np root v)" "plain (\<lambda>_. True) (scatter_transfer C rank np root vs)"
  "plain (\<lambda>_. True) (gather_transfer C rank np root x)"
  unfolding broadcast_transfer_def scatter_transfer_def gather_transfer_def Let_def
  by (auto simp del: gather_from.simps intro!: plain_rules plain_foldr split: prod.split)

lemma plain_fin: "plain (\<lambda>_. True) p \<Longrightarrow> plain is_exit (fin f p)"
  unfolding fin_def by (rule plain_pbind) simp_all

lemma plain_begin: "plain_world np (pl_begin C np calls)"
proof -
  have "plain is_exit (pl_program C np r c)" for r c
    by (cases c) (simp_all only: pl_program.simps pl_broadcast_def pl_scatter_def pl_gather_def plain_fin plain_preflight plain_transfers)
  then show ?thesis by (simp add: plain_world_def pl_begin_def)
qed

section \<open>Outcomes with agreements\<close>

definition same_verdict :: "int \<Rightarrow> (int \<Rightarrow> ('e, 'b) result) \<Rightarrow> bool" where
  "same_verdict np res \<longleftrightarrow> (\<exists>e. \<forall>r. in_comm np r \<longrightarrow> res r = Err e) \<or> (\<forall>r. in_comm np r \<longrightarrow> is_ok (res r))"

definition agreeing :: "int \<Rightarrow> (int \<Rightarrow> failure option) \<Rightarrow> (int \<Rightarrow> (placement_error, 'b) result) \<Rightarrow> int \<Rightarrow> (placement_error, 'b) result" where
  "agreeing np fl res r = (case agreed np fl of Some e \<Rightarrow> Err e | None \<Rightarrow> res r)"

lemma same_verdict_agreeing: "(agreed np fl = None \<Longrightarrow> same_verdict np res) \<Longrightarrow> same_verdict np (agreeing np fl res)"
  by (cases "agreed np fl") (auto simp: same_verdict_def agreeing_def)

lemma agreeing_none: "(\<And>r. in_comm np r \<Longrightarrow> fl r = None) \<Longrightarrow> agreeing np fl res = res"
  using agreed_None [of np fl] by (auto simp: agreeing_def fun_eq_iff)

lemma agreeing_no_failure [simp]: "agreeing np (\<lambda>r. None) res = res"
  by (rule agreeing_none) simp

lemma outcome_agree:
  assumes np: "1 \<le> np" and w: "plain_world np w" "\<And>r. in_comm np r \<Longrightarrow> procs w r = agree r np (fl r) (P r)"
    and ok: "\<And>r f. in_comm np r \<Longrightarrow> fl r = Some f \<Longrightarrow> failure_ok f"
    and out: "agreed np fl = None \<Longrightarrow> plain_world np (set_procs np P w) \<Longrightarrow> outcome np body (set_procs np P w) res"
  shows "outcome np body w (agreeing np fl res)"
proof -
  let ?k = "\<lambda>r oe. case oe of Some e \<Rightarrow> PRet (Exit (Err e)) | None \<Rightarrow> P r"
  obtain as where as: "collects np (\<lambda>r. agree r np (fl r) (P r)) as (\<lambda>r. ?k r (agreed np fl))"
    using converge_collects [OF np, of fl ?k] ok unfolding agree_def by blast
  show ?thesis
  proof (rule outcome_collects [OF as w(2,1)])
    let ?w = "set_procs np (\<lambda>r. ?k r (agreed np fl)) w"
    assume pl: "plain_world np ?w"
    show "outcome np body ?w (agreeing np fl res)"
    proof (cases "agreed np fl")
      case None
      then have "agreeing np fl res = res" "?w = set_procs np P w" by (simp_all add: agreeing_def fun_eq_iff)
      then show ?thesis using out [OF None] pl by simp
    next
      case (Some e)
      then show ?thesis by (intro outcome_done [OF pl]) (simp add: agreeing_def)
    qed
  qed
qed

text \<open>The agreement before a call.\<close>

definition unfit :: "int \<Rightarrow> int \<Rightarrow> int \<Rightarrow> int \<Rightarrow> int \<Rightarrow> int \<Rightarrow> bool \<Rightarrow> bool \<Rightarrow> failure option" where
  "unfit min_op max_op min_root max_root np root local_shape thread_main =
     (if min_op \<noteq> max_op then Some (failure_new PlPreflight (lit ''placement operation mismatch''))
      else if min_root \<noteq> max_root then Some (failure_new PlPreflight (lit ''placement root mismatch''))
      else if root < 0 \<or> np \<le> root then Some (failure_new PlPreflight (lit ''placement root is out of range''))
      else if \<not> local_shape then Some (failure_new PlPreflight (lit ''placement input shape is invalid''))
      else if \<not> thread_main then Some (failure_new PlPreflight (lit ''placement helper must run on the MPI main thread''))
      else None)"

definition examining ::
  "int \<Rightarrow> int \<Rightarrow> bool \<Rightarrow> pl_operation \<Rightarrow> int \<Rightarrow> bool \<Rightarrow> (unit, (placement_error, 'b) result) ctl proc \<Rightarrow> (unit, (placement_error, 'b) result) ctl proc"
where
  "examining rank np thread_main op root local_shape p =
     PReduce RedMin (operation_code op) (\<lambda>a. PReduce RedMax (operation_code op) (\<lambda>b. PReduce RedMin root (\<lambda>c. PReduce RedMax root (\<lambda>d.
       agree rank np (unfit a b c d np root local_shape thread_main) p))))"

lemma fin_preflight [simp]: "fin f (pl_preflight rank np tm op root shape p) = examining rank np tm op root shape (fin f p)"
proof -
  have "fin f (PReduce o' v m) = PReduce o' v (\<lambda>x. fin f (m x))" for o' v m by (simp add: fin_def)
  then show ?thesis by (simp add: pl_preflight_def examining_def unfit_def)
qed

lemma failure_new_ok: "utf8_valid m \<Longrightarrow> failure_ok (failure_new k m)"
  by (simp add: failure_ok_def failure_new_def utf8_valid_truncate truncate_message_length)

lemma texts_ok:
  "utf8_valid (lit ''placement operation mismatch'')" "utf8_valid (lit ''placement root mismatch'')" "utf8_valid (lit ''placement root is out of range'')"
  "utf8_valid (lit ''placement input shape is invalid'')" "utf8_valid (lit ''placement helper must run on the MPI main thread'')"
  "utf8_valid (lit ''missing root broadcast value'')" "utf8_valid (lit ''missing scatter shard'')"
  "utf8_valid (lit ''invalid placement frame schema'')" "utf8_valid (lit ''placement payload length does not match its header'')"
  by code_simp+

lemma unfit_ok: "unfit a b c d np root shape tm = Some f \<Longrightarrow> failure_ok f"
  by (auto simp: unfit_def failure_new_ok texts_ok split: if_splits)

lemma unfit_None:
  "unfit a b c d np root shape tm = None \<longleftrightarrow> a = b \<and> c = d \<and> 0 \<le> root \<and> root < np \<and> shape \<and> tm"
  by (auto simp: unfit_def)

lemma outcome_examining:
  assumes np: "1 \<le> np" and w: "plain_world np w" "\<And>r. in_comm np r \<Longrightarrow> procs w r = examining r np (tm r) (op r) (root r) (shape r) (P r)"
  defines "fl \<equiv> \<lambda>r. unfit (reduce_all RedMin np (\<lambda>r. operation_code (op r))) (reduce_all RedMax np (\<lambda>r. operation_code (op r)))
    (reduce_all RedMin np root) (reduce_all RedMax np root) np (root r) (shape r) (tm r)"
  assumes out: "agreed np fl = None \<Longrightarrow> plain_world np (set_procs np P w) \<Longrightarrow> outcome np body (set_procs np P w) res"
  shows "outcome np body w (agreeing np fl res)"
proof -
  let ?as = "map AInt [reduce_all RedMin np (\<lambda>r. operation_code (op r)), reduce_all RedMax np (\<lambda>r. operation_code (op r)), reduce_all RedMin np root, reduce_all RedMax np root]"
  have "collects np (\<lambda>r. examining r np (tm r) (op r) (root r) (shape r) (P r)) ?as (\<lambda>r. agree r np (fl r) (P r))"
    unfolding examining_def fl_def list.map by (intro collects_IntI [OF HOL.refl HOL.refl]) simp
  then show ?thesis
  proof (rule outcome_collects [OF _ w(2,1)])
    let ?w = "set_procs np (\<lambda>r. agree r np (fl r) (P r)) w"
    assume pl: "plain_world np ?w"
    have again: "set_procs np P ?w = set_procs np P w" by (rule world_eqI) (auto simp: fun_eq_iff)
    show "outcome np body ?w (agreeing np fl res)"
      by (rule outcome_agree [OF np pl, where P = P]) (use unfit_ok out again in \<open>auto simp: fl_def\<close>)
  qed
qed

text \<open>It fails unless all ranks call the same collective, with one root, each with the arguments of its role and on its main thread.\<close>

lemma checked:
  assumes np: "1 \<le> np"
    and none: "agreed np (\<lambda>r. unfit (reduce_all RedMin np (\<lambda>r. operation_code (op r))) (reduce_all RedMax np (\<lambda>r. operation_code (op r)))
      (reduce_all RedMin np root) (reduce_all RedMax np root) np (root r) (shape r) (tm r)) = None"
  shows "in_comm np (root 0)" "\<And>r. in_comm np r \<Longrightarrow> op r = op 0 \<and> root r = root 0 \<and> shape r \<and> tm r"
proof -
  have same: "v r = v 0" if "reduce_all RedMin np v = reduce_all RedMax np v" "in_comm np r" for v r
  proof -
    have "Min (v ` {0..np - 1}) \<le> v r'" "v r' \<le> Max (v ` {0..np - 1})" if "in_comm np r'" for r'
      using that by (auto intro!: Min_le Max_ge simp: in_comm_def)
    moreover have "in_comm np 0" using np by (simp add: in_comm_def)
    ultimately show ?thesis using that by (simp add: reduce_all_def) (metis order_antisym_conv order_trans)
  qed
  have fit: "reduce_all RedMin np (\<lambda>r. operation_code (op r)) = reduce_all RedMax np (\<lambda>r. operation_code (op r)) \<and> reduce_all RedMin np root = reduce_all RedMax np root
      \<and> 0 \<le> root r \<and> root r < np \<and> shape r \<and> tm r" if "in_comm np r" for r
    using none that by (simp add: agreed_None unfit_None)
  have code: "operation_code a = operation_code b \<Longrightarrow> a = b" for a b by (cases a; cases b) simp_all
  have zero: "in_comm np 0" using np by (simp add: in_comm_def)
  show "in_comm np (root 0)" using fit [OF zero] by (simp add: in_comm_def)
  show "op r = op 0 \<and> root r = root 0 \<and> shape r \<and> tm r" if "in_comm np r" for r
    using fit [OF that] same [of "\<lambda>r. operation_code (op r)" r] same [of root r] that code by blast
qed

section \<open>Frames\<close>

definition frame_header :: "pl_operation \<Rightarrow> bytes \<Rightarrow> header" where
  "frame_header op payload = \<lparr>hd_version = PROTOCOL_VERSION, hd_kind = operation_kind op, hd_status = StNone, hd_batch_id = FRAME_ID,
     hd_item_count = FRAME_ITEMS, hd_payload_len = word_of_nat (length payload)\<rparr>"

definition framed :: "int \<Rightarrow> pl_operation \<Rightarrow> bytes \<Rightarrow> 'a proc \<Rightarrow> 'a proc" where
  "framed d op payload p = PSend d PL_HEADER_TAG (header_encode (frame_header op payload)) (PSend d PL_PAYLOAD_TAG payload p)"

abbreviation received :: "'t value_codec \<Rightarrow> pl_operation \<Rightarrow> bytes \<Rightarrow> (failure, 't) result" where
  "received C op payload \<equiv> decode_received C op (header_encode (frame_header op payload)) payload"

lemma fin_framed [simp]: "fin f (foldr (\<lambda>d. framed d op (pay d)) ds p) = foldr (\<lambda>d. framed d op (pay d)) ds (fin f p)"
  by (induction ds) (simp_all add: framed_def fin_def)

lemma kind_none: "status_allowed (operation_kind op) StNone"
  by (cases op) simp_all

lemma encoded_frame:
  assumes "pl_encode C v = Ok bs"
  shows "pl_send_frame d op bs = framed d op bs" "unat (word_of_nat (length bs) :: u64) \<le> MAX_WIRE_BYTES" "vc_enc C v = Ok bs"
proof -
  show enc: "unat (word_of_nat (length bs) :: u64) \<le> MAX_WIRE_BYTES" "vc_enc C v = Ok bs"
    using assms by (auto simp: pl_encode_def encode_payload_def validate_payload_len_def split: if_splits)
  show "pl_send_frame d op bs = framed d op bs"
    using enc(1) kind_none [of op]
    by (simp add: fun_eq_iff pl_send_frame_def framed_def frame_header_def header_new_def validate_status_def validate_payload_len_def)
qed

lemma received_carries:
  assumes enc: "pl_encode C v = Ok bs" and dec: "vc_dec C bs = Ok (v, length bs)"
  shows "received C op bs = Ok v"
proof -
  note len = encoded_frame(2) [OF enc]
  have "header_decode (header_encode (frame_header op bs)) = Ok (frame_header op bs)"
    using len kind_none [of op] by (intro header_decode_encode) (simp add: header_valid_def frame_header_def)
  moreover have "unat (word_of_nat (length bs) :: u64) \<le> 2147483647" "unat (word_of_nat (length bs) :: u64) \<le> USIZE_MAX"
    using len by (simp_all add: MAX_WIRE_BYTES_def USIZE_MAX_def)
  ultimately show ?thesis using dec len
    by (simp add: decode_received_def frame_header_def checked_mpi_count_def checked_usize_length_def decode_payload_def validate_payload_len_def)
qed

definition texts_valid :: "'t value_codec \<Rightarrow> bool" where
  "texts_valid C \<longleftrightarrow> (\<forall>e. utf8_valid (vc_text C e))"

lemma pl_wire_ok: "texts_valid C \<Longrightarrow> failure_ok (pl_wire C e)"
  by (simp add: texts_valid_def pl_wire_def failure_new_ok)

lemma encode_ok: "texts_valid C \<Longrightarrow> pl_encode C v = Err f \<Longrightarrow> failure_ok f"
  by (auto simp: pl_encode_def pl_wire_ok)

lemma decode_ok: "texts_valid C \<Longrightarrow> decode_received C op h payload = Err f \<Longrightarrow> failure_ok f"
  by (auto simp: decode_received_def res_bind_Err_iff pl_wire_ok failure_new_ok texts_ok split: if_splits)

lemma set_others: "set (others root np) = {d. in_comm np d \<and> d \<noteq> root}" "distinct (others root np)"
  by (auto simp: others_def in_comm_def)

text \<open>One rank sends to many, and one rank takes from many.\<close>

lemma outcome_deliver:
  assumes q: "in_comm np q" and ds: "distinct ds" "\<And>d. d \<in> set ds \<Longrightarrow> in_comm np d \<and> d \<noteq> q"
    and w: "plain_world np w" "procs w q = foldr (\<lambda>d. framed d op (pay d)) ds P" "\<And>d. d \<in> set ds \<Longrightarrow> procs w d = pl_receive_frame q (k d)"
    and net: "net w = (\<lambda>_. [])"
    and out: "\<And>w'. plain_world np w' \<Longrightarrow> net w' = (\<lambda>_. []) \<Longrightarrow> procs w' q = P
      \<Longrightarrow> (\<And>d. d \<in> set ds \<Longrightarrow> procs w' d = k d (header_encode (frame_header op (pay d))) (pay d))
      \<Longrightarrow> (\<And>r. r \<notin> insert q (set ds) \<Longrightarrow> procs w' r = procs w r) \<Longrightarrow> outcome np body w' res"
  shows "outcome np body w res"
  using ds w net out
proof (induction ds arbitrary: w)
  case Nil
  then show ?case by simp
next
  case (Cons d ds)
  have q_sends: "procs w q = PSend d PL_HEADER_TAG (header_encode (frame_header op (pay d))) (PSend d PL_PAYLOAD_TAG (pay d) (foldr (\<lambda>d. framed d op (pay d)) ds P))"
    by (simp only: Cons.prems(4) foldr.simps o_apply framed_def [of d])
  show ?case
  proof (rule outcome_frame [OF _ q _ q_sends])
    let ?w = "set_proc q (foldr (\<lambda>d. framed d op (pay d)) ds P) (set_proc d (k d (header_encode (frame_header op (pay d))) (pay d)) w)"
    assume pl: "plain_world np ?w"
    show "outcome np body ?w res"
    proof (rule Cons.IH)
      show "plain_world np ?w" by (rule pl)
      fix w'
      assume w': "plain_world np w'" "net w' = (\<lambda>_. [])" "procs w' q = P"
        "\<And>d. d \<in> set ds \<Longrightarrow> procs w' d = k d (header_encode (frame_header op (pay d))) (pay d)" "\<And>r. r \<notin> insert q (set ds) \<Longrightarrow> procs w' r = procs ?w r"
      have "procs w' d = k d (header_encode (frame_header op (pay d))) (pay d)" using w'(5) [of d] Cons.prems(1,2) by auto
      then show "outcome np body w' res" by (intro Cons.prems(7)) (use w' Cons.prems in auto)
    qed (use Cons.prems in auto)
  qed (use Cons.prems in auto)
qed

fun take_frames :: "'t value_codec \<Rightarrow> (int \<Rightarrow> bytes) \<Rightarrow> int list \<Rightarrow> 't option list \<times> failure option \<Rightarrow> 't option list \<times> failure option" where
  "take_frames C pay [] acc = acc"
| "take_frames C pay (d # ds) (g, fl) = take_frames C pay ds
     (case received C OpGather (pay d) of Inr v \<Rightarrow> (g[nat d := Some v], fl) | Inl e \<Rightarrow> (g, record_failure fl e))"

lemma outcome_collect:
  assumes q: "in_comm np q" and ds: "distinct ds" "\<And>d. d \<in> set ds \<Longrightarrow> in_comm np d \<and> d \<noteq> q"
    and w: "plain_world np w" "procs w q = gather_from C ds g fl K" "\<And>d. d \<in> set ds \<Longrightarrow> procs w d = framed q OpGather (pay d) (Q d)"
    and net: "net w = (\<lambda>_. [])"
    and out: "\<And>w'. plain_world np w' \<Longrightarrow> net w' = (\<lambda>_. []) \<Longrightarrow> procs w' q = (case take_frames C pay ds (g, fl) of (g', fl') \<Rightarrow> K g' fl')
      \<Longrightarrow> (\<And>d. d \<in> set ds \<Longrightarrow> procs w' d = Q d) \<Longrightarrow> (\<And>r. r \<notin> insert q (set ds) \<Longrightarrow> procs w' r = procs w r) \<Longrightarrow> outcome np body w' res"
  shows "outcome np body w res"
  using ds w net out
proof (induction ds arbitrary: w g fl)
  case Nil
  then show ?case by simp
next
  case (Cons d ds)
  obtain g1 f1 where gf: "(case received C OpGather (pay d) of Inr v \<Rightarrow> (g[nat d := Some v], fl) | Inl e \<Rightarrow> (g, record_failure fl e)) = (g1, f1)" by force
  then have step: "(case received C OpGather (pay d) of Inr v \<Rightarrow> gather_from C ds (g[nat d := Some v]) fl K | Inl e \<Rightarrow> gather_from C ds g (record_failure fl e) K)
      = gather_from C ds g1 f1 K" by (auto split: sum.splits)
  show ?case
  proof (rule outcome_frame [of d q])
    let ?w = "set_proc d (Q d) (set_proc q (case received C OpGather (pay d) of Inr v \<Rightarrow> gather_from C ds (g[nat d := Some v]) fl K | Inl e \<Rightarrow> gather_from C ds g (record_failure fl e) K) w)"
    assume pl: "plain_world np ?w"
    show "outcome np body ?w res"
    proof (rule Cons.IH [where g = g1 and fl = f1])
      show "plain_world np ?w" by (rule pl)
      show "procs ?w q = gather_from C ds g1 f1 K" using Cons.prems(2) [of d] step by auto
      fix w'
      assume w': "plain_world np w'" "net w' = (\<lambda>_. [])" "procs w' q = (case take_frames C pay ds (g1, f1) of (g', fl') \<Rightarrow> K g' fl')"
        "\<And>d. d \<in> set ds \<Longrightarrow> procs w' d = Q d" "\<And>r. r \<notin> insert q (set ds) \<Longrightarrow> procs w' r = procs ?w r"
      have "procs w' d = Q d" using w'(5) [of d] Cons.prems(1,2) by auto
      then show "outcome np body w' res" by (intro Cons.prems(7)) (use w' Cons.prems gf in auto)
    qed (use Cons.prems in auto)
  qed (use Cons.prems q in \<open>auto simp: framed_def\<close>)
qed

end
