(* ===== verification/PlacementProps.thy ===== *)
theory PlacementProps
  imports PlacementRun
begin

text \<open>
  The outcome of each collective of \<open>src/placement.rs\<close>. Any ranks may call any of them with any arguments: the calls end, with one verdict for
  all. When the arguments fit and the codec carries the values, every rank has the root's value, its own shard, or the root has the
  values in the order of the ranks.
\<close>

section \<open>From the root to the others\<close>

abbreviation opened :: "'t value_codec \<Rightarrow> pl_operation \<Rightarrow> int \<Rightarrow> int \<Rightarrow> bytes \<Rightarrow> bytes \<Rightarrow> (unit, 't pl_answer) ctl proc" where
  "opened C op np d h payload \<equiv> fin PlValue (case split_result (decode_received C op h payload) of (rcv, lf) \<Rightarrow>
     pl_agree d np lf (pl_unwrap rcv (\<lambda>v. PRet (Ok v))))"

definition handed :: "'t value_codec \<Rightarrow> pl_operation \<Rightarrow> int \<Rightarrow> int \<Rightarrow> 't \<Rightarrow> (int \<Rightarrow> bytes) \<Rightarrow> int \<Rightarrow> 't pl_answer" where
  "handed C op np q v pay = agreeing np (\<lambda>r. if r = q then None else snd (split_result (received C op (pay r))))
     (\<lambda>r. Ok (PlValue (if r = q then v else projr (received C op (pay r)))))"

lemma outcome_opened:
  assumes np: "1 \<le> np" and C: "texts_valid C" and pl: "plain_world np w"
    and w: "procs w q = agree q np None (PRet (Exit (Ok (PlValue v))))"
      "\<And>d. in_comm np d \<Longrightarrow> d \<noteq> q \<Longrightarrow> procs w d = opened C op np d (header_encode (frame_header op (pay d))) (pay d)"
  shows "outcome np body w (handed C op np q v pay)"
  unfolding handed_def
proof (rule outcome_agree [OF np pl])
  let ?P = "\<lambda>r. if r = q then PRet (Exit (Ok (PlValue v))) else pl_unwrap (fst (split_result (received C op (pay r)))) (\<lambda>v. PRet (Exit (Ok (PlValue v))))"
  show "procs w r = agree r np (if r = q then None else snd (split_result (received C op (pay r)))) (?P r)" if "in_comm np r" for r
    using w that by (cases "r = q"; cases "received C op (pay r)") auto
  show "failure_ok f" if "(if r = q then None else snd (split_result (received C op (pay r)))) = Some f" for r f
    using that decode_ok [OF C] by (cases "received C op (pay r)") (auto split: if_splits)
  assume none: "agreed np (\<lambda>r. if r = q then None else snd (split_result (received C op (pay r)))) = None" and pl': "plain_world np (set_procs np ?P w)"
  show "outcome np body (set_procs np ?P w) (\<lambda>r. Ok (PlValue (if r = q then v else projr (received C op (pay r)))))"
  proof (rule outcome_done [OF pl'])
    fix r
    assume r: "in_comm np r"
    then have "r = q \<or> snd (split_result (received C op (pay r))) = None" using none unfolding agreed_None by metis
    then show "procs (set_procs np ?P w) r = PRet (Exit (Ok (PlValue (if r = q then v else projr (received C op (pay r))))))"
      using r by (cases "received C op (pay r)") auto
  qed
qed

lemma outcome_handed:
  assumes np: "1 \<le> np" and C: "texts_valid C" and q: "in_comm np q" and pl: "plain_world np w" and net: "net w = (\<lambda>_. [])"
    and w: "procs w q = foldr (\<lambda>d. framed d op (pay d)) (others q np) (agree q np None (PRet (Exit (Ok (PlValue v)))))"
      "\<And>d. in_comm np d \<Longrightarrow> d \<noteq> q \<Longrightarrow> procs w d = pl_receive_frame q (opened C op np d)"
  shows "outcome np body w (handed C op np q v pay)"
proof (rule outcome_deliver [OF q set_others(2) _ pl w(1) _ net, where k = "opened C op np"])
  fix w'
  assume "plain_world np w'" "procs w' q = agree q np None (PRet (Exit (Ok (PlValue v))))"
    "\<And>d. d \<in> set (others q np) \<Longrightarrow> procs w' d = opened C op np d (header_encode (frame_header op (pay d))) (pay d)"
  then show "outcome np body w' (handed C op np q v pay)" by (intro outcome_opened [OF np C]) (auto simp: set_others)
qed (use w(2) in \<open>auto simp: set_others\<close>)

lemma handed_verdict: "same_verdict np (handed C op np q v pay)"
  unfolding handed_def by (rule same_verdict_agreeing) (simp add: same_verdict_def)

lemma handed_values:
  assumes "\<And>r. in_comm np r \<Longrightarrow> r \<noteq> q \<Longrightarrow> received C op (pay r) = Ok (x r)" "x q = v" "in_comm np r"
  shows "handed C op np q v pay r = Ok (PlValue (x r))"
proof -
  have "handed C op np q v pay = (\<lambda>r. Ok (PlValue (if r = q then v else projr (received C op (pay r)))))"
    unfolding handed_def by (rule agreeing_none) (use assms(1) in auto)
  then show ?thesis using assms by auto
qed

lemma encode_carries:
  assumes "carries (vc_enc C) (vc_dec C) v"
  shows "\<exists>bs. pl_encode C v = Ok bs \<and> received C op bs = Ok v"
proof -
  obtain bs where bs: "vc_enc C v = Ok bs" "length bs \<le> MAX_WIRE_BYTES" "vc_dec C bs = Ok (v, length bs)"
    using assms by (auto simp: carries_def split: sum.splits)
  then have "pl_encode C v = Ok bs" by (simp add: pl_encode_def encode_payload_def validate_payload_len_def wire_len)
  then show ?thesis using received_carries [of C v bs op] bs(3) by (intro exI [of _ bs]) simp
qed

text \<open>An agreement that fails ends the call for all.\<close>

lemma outcome_refused:
  assumes np: "1 \<le> np" and pl: "plain_world np w" and w: "\<And>r. in_comm np r \<Longrightarrow> procs w r = agree r np (fl r) (P r)"
    and ok: "\<And>r f. in_comm np r \<Longrightarrow> fl r = Some f \<Longrightarrow> failure_ok f" and q: "in_comm np q" "fl q \<noteq> None"
  shows "\<exists>res. outcome np body (w :: (unit, (placement_error, 'b) result) world) res \<and> same_verdict np res"
proof -
  have some: "agreed np fl \<noteq> None" using q by (auto simp: agreed_None)
  have "outcome np body w (agreeing np fl res)" for res :: "int \<Rightarrow> (placement_error, 'b) result"
    by (rule outcome_agree [OF np pl w]) (use ok some in auto)
  moreover have "same_verdict np (agreeing np fl res)" for res :: "int \<Rightarrow> (placement_error, 'b) result"
    by (rule same_verdict_agreeing) (use some in simp)
  ultimately show ?thesis by blast
qed

lemma broadcast_outcome:
  assumes np: "1 \<le> np" and C: "texts_valid C" and q: "in_comm np q" and pl: "plain_world np w" and net: "net w = (\<lambda>_. [])"
    and w: "\<And>r. in_comm np r \<Longrightarrow> procs w r = fin PlValue (broadcast_transfer C r np q (if r = q then Some v else None))"
  shows "\<exists>res. outcome np body w res \<and> same_verdict np res
    \<and> (carries (vc_enc C) (vc_dec C) v \<longrightarrow> (\<forall>r. in_comm np r \<longrightarrow> res r = Ok (PlValue v)))"
proof (cases "np = 1")
  case True
  then have "outcome np body w (\<lambda>r. Ok (PlValue v))"
    by (intro outcome_done [OF pl]) (use w q True in \<open>auto simp: broadcast_transfer_def in_comm_def\<close>)
  then show ?thesis by (auto simp: same_verdict_def)
next
  case False
  show ?thesis
  proof (cases "pl_encode C v")
    case (Inl e)
    have "\<exists>res. outcome np body w res \<and> same_verdict np res"
    proof (rule outcome_refused [OF np pl _ _ q])
      show "procs w r = agree r np (if r = q then Some e else None) (if r = q then PAbort 74 else pl_receive_frame q (opened C OpBroadcast np r))"
        if "in_comm np r" for r
        using w [OF that] False Inl by (simp add: broadcast_transfer_def)
    qed (use encode_ok [OF C Inl] in \<open>auto split: if_splits\<close>)
    moreover have "\<not> carries (vc_enc C) (vc_dec C) v" using encode_carries [of C v] Inl by auto
    ultimately show ?thesis by blast
  next
    case (Inr bs)
    let ?P = "\<lambda>r. if r = q then foldr (\<lambda>d. framed d OpBroadcast bs) (others q np) (agree q np None (PRet (Exit (Ok (PlValue v)))))
      else pl_receive_frame q (opened C OpBroadcast np r)"
    have "outcome np body w (agreeing np (\<lambda>r. None) (handed C OpBroadcast np q v (\<lambda>d. bs)))"
    proof (rule outcome_agree [OF np pl, where P = ?P])
      show "procs w r = agree r np None (?P r)" if "in_comm np r" for r
        using w [OF that] False Inr by (simp add: broadcast_transfer_def encoded_frame(1) [OF Inr])
      assume "plain_world np (set_procs np ?P w)"
      then show "outcome np body (set_procs np ?P w) (handed C OpBroadcast np q v (\<lambda>d. bs))"
        by (intro outcome_handed [OF np C q]) (use q net in auto)
    qed simp
    then have "outcome np body w (handed C OpBroadcast np q v (\<lambda>d. bs))" by simp
    moreover have "handed C OpBroadcast np q v (\<lambda>d. bs) r = Ok (PlValue v)" if "carries (vc_enc C) (vc_dec C) v" "in_comm np r" for r
    proof (rule handed_values [where x = "\<lambda>_. v"])
      show "received C OpBroadcast bs = Ok v" using encode_carries [OF that(1), of OpBroadcast] Inr by auto
    qed (use that in auto)
    ultimately show ?thesis using handed_verdict [of np C OpBroadcast q v "\<lambda>d. bs"] by (intro exI [of _ "handed C OpBroadcast np q v (\<lambda>d. bs)"]) simp
  qed
qed

lemma record_failure_simps [simp]: "record_failure fl f \<noteq> None" "record_failure fl f = Some x \<longleftrightarrow> (fl = None \<and> x = f) \<or> fl = Some x"
  by (cases fl; auto)+

lemma preencode_all:
  assumes "preencode C ss ds (enc, fl) = (enc', None)"
  shows "fl = None \<and> enc' = enc @ map (\<lambda>d. (d, projr (pl_encode C (the (ss ! nat d))))) ds
    \<and> (\<forall>d\<in>set ds. \<exists>v bs. ss ! nat d = Some v \<and> pl_encode C v = Ok bs)"
  using assms
proof (induction ds arbitrary: enc fl)
  case (Cons d ds)
  show ?case
  proof (cases "\<exists>v bs. ss ! nat d = Some v \<and> pl_encode C v = Ok bs")
    case True
    then obtain v bs where v: "ss ! nat d = Some v" "pl_encode C v = Ok bs" by blast
    then show ?thesis using Cons.IH [of "enc @ [(d, bs)]" fl] Cons.prems by simp
  next
    case False
    then obtain f where "preencode C ss ds (enc, record_failure fl f) = (enc', None)"
      using Cons.prems by (auto split: option.splits sum.splits)
    then show ?thesis using Cons.IH by fastforce
  qed
qed simp

lemma preencode_fails:
  assumes "texts_valid C" "preencode C ss ds (enc, fl) = (enc', Some f)" "\<And>f. fl = Some f \<Longrightarrow> failure_ok f"
  shows "failure_ok f \<and> (fl = None \<longrightarrow> (\<exists>d\<in>set ds. \<forall>v bs. ss ! nat d = Some v \<longrightarrow> pl_encode C v \<noteq> Ok bs))"
  using assms(2,3)
proof (induction ds arbitrary: enc fl)
  case (Cons d ds)
  show ?case
  proof (cases "\<exists>v bs. ss ! nat d = Some v \<and> pl_encode C v = Ok bs")
    case True
    then obtain v bs where v: "ss ! nat d = Some v" "pl_encode C v = Ok bs" by blast
    then show ?thesis using Cons.IH [of "enc @ [(d, bs)]" fl] Cons.prems by simp
  next
    case False
    then obtain g where g: "preencode C ss ds (enc, record_failure fl g) = (enc', Some f)" "failure_ok g"
      using Cons.prems(1) encode_ok [OF assms(1)] failure_new_ok texts_ok by (auto split: option.splits sum.splits)
    then have "failure_ok f" using Cons.IH [OF g(1)] Cons.prems(2) by auto
    then show ?thesis using False by auto
  qed
qed auto

lemma scatter_outcome:
  assumes np: "1 \<le> np" and C: "texts_valid C" and q: "in_comm np q" and pl: "plain_world np w" and net: "net w = (\<lambda>_. [])" and len: "length vs = nat np"
    and w: "\<And>r. in_comm np r \<Longrightarrow> procs w r = fin PlValue (scatter_transfer C r np q (if r = q then Some vs else None))"
  shows "\<exists>res. outcome np body w res \<and> same_verdict np res
    \<and> ((\<forall>v\<in>set vs. carries (vc_enc C) (vc_dec C) v) \<longrightarrow> (\<forall>r. in_comm np r \<longrightarrow> res r = Ok (PlValue (vs ! nat r))))"
proof (cases "np = 1")
  case True
  then have "outcome np body w (\<lambda>r. Ok (PlValue (vs ! nat r)))"
    by (intro outcome_done [OF pl]) (use w q True len in \<open>auto simp: scatter_transfer_def in_comm_def Let_def\<close>)
  then show ?thesis by (auto simp: same_verdict_def)
next
  case False
  let ?ss = "(map Some vs)[nat q := None]"
  have own: "map Some vs ! nat q = Some (vs ! nat q)" and other: "\<And>d. in_comm np d \<Longrightarrow> d \<noteq> q \<Longrightarrow> ?ss ! nat d = Some (vs ! nat d) \<and> vs ! nat d \<in> set vs"
    using q len by (auto simp: in_comm_def nth_list_update)
  obtain enc fl where pre: "preencode C ?ss (others q np) ([], None) = (enc, fl)" by force
  have tree: "procs w r = agree r np (if r = q then fl else None) (if r = q
      then foldr (\<lambda>d p. pl_unwrap (map_of enc d) (\<lambda>payload. pl_send_frame d OpScatter payload p)) (others q np) (agree q np None (PRet (Exit (Ok (PlValue (vs ! nat q))))))
      else pl_receive_frame q (opened C OpScatter np r))" (is "_ = agree r np _ (?P r)") if "in_comm np r" for r
    using w [OF that] False pre own by (simp add: scatter_transfer_def Let_def preencode_scatter_def)
  show ?thesis
  proof (cases fl)
    case (Some f)
    note bad = preencode_fails [OF C pre [unfolded Some], simplified]
    have "\<exists>res. outcome np body w res \<and> same_verdict np res"
      by (rule outcome_refused [OF np pl tree _ q]) (use bad Some in \<open>auto split: if_splits\<close>)
    moreover have "\<not> (\<forall>v\<in>set vs. carries (vc_enc C) (vc_dec C) v)"
    proof
      assume c: "\<forall>v\<in>set vs. carries (vc_enc C) (vc_dec C) v"
      obtain d where d: "in_comm np d" "d \<noteq> q" "\<And>v bs. ?ss ! nat d = Some v \<Longrightarrow> pl_encode C v \<noteq> Ok bs" using bad by (auto simp: set_others)
      then have "carries (vc_enc C) (vc_dec C) (vs ! nat d)" using other [OF d(1,2)] c by blast
      then show False using encode_carries [of C "vs ! nat d"] d(3) other [OF d(1,2)] by blast
    qed
    ultimately show ?thesis by blast
  next
    case None
    define pay where "pay d = projr (pl_encode C (vs ! nat d))" for d
    note all = preencode_all [OF pre [unfolded None], simplified]
    have enc: "pl_encode C (vs ! nat d) = Ok (pay d)" "map_of enc d = Some (pay d)" if "in_comm np d" "d \<noteq> q" for d
    proof -
      have d: "d \<in> set (others q np)" using that by (simp add: set_others)
      then show "pl_encode C (vs ! nat d) = Ok (pay d)" using all other [OF that] by (auto simp: pay_def)
      have "enc = map (\<lambda>d. (d, projr (pl_encode C (the (?ss ! nat d))))) (others q np)" using all by simp
      then show "map_of enc d = Some (pay d)" using d other [OF that] by (simp add: map_of_map_restrict pay_def)
    qed
    have sends: "foldr (\<lambda>d p. pl_unwrap (map_of enc d) (\<lambda>payload. pl_send_frame d OpScatter payload p)) (others q np) p = foldr (\<lambda>d. framed d OpScatter (pay d)) (others q np) p"
      for p :: "(unit, 'a pl_answer) ctl proc"
      by (rule foldr_cong) (auto simp: set_others enc(2) encoded_frame(1) [OF enc(1)])
    have "outcome np body w (agreeing np (\<lambda>r. None) (handed C OpScatter np q (vs ! nat q) pay))"
    proof (rule outcome_agree [OF np pl, where P = ?P])
      show "procs w r = agree r np None (?P r)" if "in_comm np r" for r using tree [OF that] None by simp
      assume "plain_world np (set_procs np ?P w)"
      then show "outcome np body (set_procs np ?P w) (handed C OpScatter np q (vs ! nat q) pay)"
        by (intro outcome_handed [OF np C q]) (use q net sends in auto)
    qed simp
    then have "outcome np body w (handed C OpScatter np q (vs ! nat q) pay)" by simp
    moreover have "handed C OpScatter np q (vs ! nat q) pay r = Ok (PlValue (vs ! nat r))"
      if c: "\<forall>v\<in>set vs. carries (vc_enc C) (vc_dec C) v" and r: "in_comm np r" for r
    proof (rule handed_values [where x = "\<lambda>r. vs ! nat r"])
      show "received C OpScatter (pay d) = Ok (vs ! nat d)" if "in_comm np d" "d \<noteq> q" for d
        using encode_carries [of C "vs ! nat d" OpScatter] enc(1) [OF that] c other [OF that] by auto
    qed (use r in auto)
    ultimately show ?thesis using handed_verdict [of np C OpScatter q "vs ! nat q" pay] by (intro exI [of _ "handed C OpScatter np q (vs ! nat q) pay"]) simp
  qed
qed

section \<open>From all to the root\<close>

lemma take_frames_fails:
  assumes "texts_valid C" "take_frames C pay ds (g, fl) = (g', Some f)" "\<And>f. fl = Some f \<Longrightarrow> failure_ok f"
  shows "failure_ok f"
  using assms(2,3)
proof (induction ds arbitrary: g fl)
  case (Cons d ds)
  show ?case
  proof (cases "received C OpGather (pay d)")
    case (Inl e)
    then show ?thesis using Cons.IH [of g "record_failure fl e"] Cons.prems decode_ok [OF assms(1) Inl] by auto
  qed (use Cons in auto)
qed simp

lemma take_frames_all:
  assumes "take_frames C pay ds (g, fl) = (g', None)" "\<And>d. d \<in> set ds \<Longrightarrow> 0 \<le> d \<and> nat d < length g" "distinct ds"
  shows "fl = None \<and> length g' = length g \<and> (\<forall>i < length g. g' ! i = (if int i \<in> set ds then Some (projr (received C OpGather (pay (int i)))) else g ! i))
    \<and> (\<forall>d\<in>set ds. is_ok (received C OpGather (pay d)))"
  using assms
proof (induction ds arbitrary: g fl)
  case (Cons d ds)
  show ?case
  proof (cases "received C OpGather (pay d)")
    case (Inl e)
    then have "record_failure fl e = None" using Cons.IH [of g "record_failure fl e"] Cons.prems by auto
    then show ?thesis by simp
  next
    case (Inr v)
    then have IH: "fl = None \<and> length g' = length g \<and> (\<forall>i < length g. g' ! i = (if int i \<in> set ds then Some (projr (received C OpGather (pay (int i)))) else g[nat d := Some v] ! i))
      \<and> (\<forall>d\<in>set ds. is_ok (received C OpGather (pay d)))" using Cons.IH [of "g[nat d := Some v]" fl] Cons.prems by simp
    have "g[nat d := Some v] ! i = (if int i = d then Some (projr (received C OpGather (pay (int i)))) else g ! i)" if "i < length g" for i
      using that Inr Cons.prems(2) [of d] by (auto simp: nth_list_update)
    then show ?thesis using IH Inr by auto
  qed
qed simp

lemma take_frames_ok:
  assumes "\<And>d. d \<in> set ds \<Longrightarrow> is_ok (received C OpGather (pay d))"
  shows "snd (take_frames C pay ds (g, fl)) = fl"
  using assms
proof (induction ds arbitrary: g)
  case (Cons d ds)
  then show ?case by (cases "received C OpGather (pay d)") fastforce+
qed simp

lemma unwrap_all_some: "unwrap_all (map Some xs) out k = k (out @ xs)"
  by (induction xs arbitrary: out) simp_all

definition gathering :: "'t value_codec \<Rightarrow> int \<Rightarrow> int \<Rightarrow> (int \<Rightarrow> 't) \<Rightarrow> (int \<Rightarrow> bytes) \<Rightarrow> int \<Rightarrow> 't pl_answer" where
  "gathering C np q v pay = agreeing np
     (\<lambda>r. if r = q then snd (take_frames C pay (others q np) ((replicate (nat np) None)[nat q := Some (v q)], None)) else None)
     (\<lambda>r. Ok (PlGathered (if r = q then Some (map (\<lambda>d. if d = q then v q else projr (received C OpGather (pay d))) [0..np - 1]) else None)))"

lemma gathering_verdict: "same_verdict np (gathering C np q v pay)"
  unfolding gathering_def by (rule same_verdict_agreeing) (simp add: same_verdict_def)

lemma gathering_values:
  assumes "\<And>d. in_comm np d \<Longrightarrow> d \<noteq> q \<Longrightarrow> received C OpGather (pay d) = Ok (v d)"
  shows "gathering C np q v pay r = Ok (PlGathered (if r = q then Some (map v [0..np - 1]) else None))"
proof -
  have "snd (take_frames C pay (others q np) ((replicate (nat np) None)[nat q := Some (v q)], None)) = None"
    by (rule take_frames_ok) (use assms in \<open>simp add: set_others\<close>)
  moreover have "map (\<lambda>d. if d = q then v q else projr (received C OpGather (pay d))) [0..np - 1] = map v [0..np - 1]"
    using assms by (simp add: in_comm_def)
  ultimately show ?thesis unfolding gathering_def by (subst agreeing_none) simp_all
qed

lemma outcome_gathering:
  assumes np: "1 \<le> np" and C: "texts_valid C" and q: "in_comm np q" and pl: "plain_world np w" and net: "net w = (\<lambda>_. [])"
    and w: "procs w q = gather_from C (others q np) ((replicate (nat np) None)[nat q := Some (v q)]) None (\<lambda>g f. agree q np f (fin PlGathered (unwrap_all g [] (\<lambda>out. PRet (Ok (Some out))))))"
      "\<And>d. in_comm np d \<Longrightarrow> d \<noteq> q \<Longrightarrow> procs w d = framed q OpGather (pay d) (agree d np None (PRet (Exit (Ok (PlGathered None)))))"
  shows "outcome np body w (gathering C np q v pay)"
proof (rule outcome_collect [OF q set_others(2) _ pl w(1) _ net, where pay = pay and Q = "\<lambda>d. agree d np None (PRet (Exit (Ok (PlGathered None))))"])
  let ?g = "(replicate (nat np) None)[nat q := Some (v q)]"
  let ?xs = "map (\<lambda>d. if d = q then v q else projr (received C OpGather (pay d))) [0..np - 1]"
  obtain g f where gf: "take_frames C pay (others q np) (?g, None) = (g, f)" by force
  fix w'
  assume pl': "plain_world np w'" and w': "procs w' q = (case take_frames C pay (others q np) (?g, None) of (g', f') \<Rightarrow> agree q np f' (fin PlGathered (unwrap_all g' [] (\<lambda>out. PRet (Ok (Some out))))))"
    "\<And>d. d \<in> set (others q np) \<Longrightarrow> procs w' d = agree d np None (PRet (Exit (Ok (PlGathered None))))"
  let ?P = "\<lambda>r. if r = q then fin PlGathered (unwrap_all g [] (\<lambda>out. PRet (Ok (Some out)))) else PRet (Exit (Ok (PlGathered None)))"
  have tree: "procs w' r = agree r np (if r = q then f else None) (?P r)" if "in_comm np r" for r
    using w' that gf by (simp add: set_others)
  have f_ok: "failure_ok x" if "(if r = q then f else None) = Some x" for r x
    using take_frames_fails [OF C, of pay "others q np" ?g None g x] gf that by (simp split: if_splits)
  show "outcome np body w' (gathering C np q v pay)"
    unfolding gathering_def gf snd_conv
  proof (rule outcome_agree [OF np pl' tree f_ok])
    assume none: "agreed np (\<lambda>r. if r = q then f else None) = None" and pl2: "plain_world np (set_procs np ?P w')"
    have f: "f = None" using none q by (auto simp: agreed_None split: if_splits)
    have "length g = length ?g \<and> (\<forall>i < length ?g. g ! i = (if int i \<in> set (others q np) then Some (projr (received C OpGather (pay (int i)))) else ?g ! i))"
      using take_frames_all [OF gf [unfolded f] _ set_others(2)] by (auto simp: set_others in_comm_def)
    then have "g = map Some ?xs"
      using q by (intro nth_equalityI) (auto simp: set_others in_comm_def)
    then show "outcome np body (set_procs np ?P w') (\<lambda>r. Ok (PlGathered (if r = q then Some ?xs else None)))"
      by (intro outcome_done [OF pl2]) (simp add: unwrap_all_some del: map_map)
  qed
qed (use w(2) in \<open>auto simp: set_others\<close>)

lemma gather_outcome:
  assumes np: "1 \<le> np" and C: "texts_valid C" and q: "in_comm np q" and pl: "plain_world np w" and net: "net w = (\<lambda>_. [])"
    and w: "\<And>r. in_comm np r \<Longrightarrow> procs w r = fin PlGathered (gather_transfer C r np q (v r))"
  shows "\<exists>res. outcome np body w res \<and> same_verdict np res
    \<and> ((\<forall>r. in_comm np r \<longrightarrow> carries (vc_enc C) (vc_dec C) (v r))
        \<longrightarrow> (\<forall>r. in_comm np r \<longrightarrow> res r = Ok (PlGathered (if r = q then Some (map v [0..np - 1]) else None))))"
proof (cases "np = 1")
  case True
  have zero: "in_comm 1 r \<longleftrightarrow> r = 0" for r by (auto simp: in_comm_def)
  have "outcome np body w (\<lambda>r. Ok (PlGathered (Some [v 0])))"
    by (intro outcome_done [OF pl]) (use w True in \<open>simp add: gather_transfer_def zero\<close>)
  then show ?thesis using True q by (intro exI [of _ "\<lambda>r. Ok (PlGathered (Some [v 0]))"]) (simp add: same_verdict_def zero)
next
  case False
  define fl where "fl r = (if r = q then None else snd (split_result (pl_encode C (v r))))" for r
  define pay where "pay d = projr (pl_encode C (v d))" for d
  let ?g = "(replicate (nat np) None)[nat q := Some (v q)]"
  let ?K = "\<lambda>g f. agree q np f (fin PlGathered (unwrap_all g [] (\<lambda>out. PRet (Ok (Some out)))))"
  let ?P = "\<lambda>r. if r = q then gather_from C (others q np) ?g None ?K
    else pl_unwrap (fst (split_result (pl_encode C (v r)))) (\<lambda>payload. pl_send_frame q OpGather payload (agree r np None (PRet (Exit (Ok (PlGathered None))))))"
  have tree: "procs w r = agree r np (fl r) (?P r)" if "in_comm np r" for r
    using w [OF that] False by (cases "pl_encode C (v r)") (simp_all add: gather_transfer_def fl_def)
  have fl_ok: "failure_ok f" if "fl r = Some f" for r f
    using that encode_ok [OF C, of "v r"] by (cases "pl_encode C (v r)") (auto simp: fl_def split: if_splits)
  show ?thesis
  proof (cases "\<exists>r. in_comm np r \<and> fl r \<noteq> None")
    case True
    then obtain r where r: "in_comm np r" "fl r \<noteq> None" by blast
    have "\<exists>res. outcome np body w res \<and> same_verdict np res" by (rule outcome_refused [OF np pl tree fl_ok r])
    moreover have "\<not> carries (vc_enc C) (vc_dec C) (v r)" using encode_carries [of C "v r" OpGather] r(2) by (auto simp: fl_def split: if_splits)
    ultimately show ?thesis using r(1) by blast
  next
    case none: False
    have enc: "pl_encode C (v r) = Ok (pay r)" if "in_comm np r" "r \<noteq> q" for r
      using none that by (cases "pl_encode C (v r)") (auto simp: fl_def pay_def)
    have "outcome np body w (agreeing np fl (gathering C np q v pay))"
    proof (rule outcome_agree [OF np pl tree])
      assume "plain_world np (set_procs np ?P w)"
      then show "outcome np body (set_procs np ?P w) (gathering C np q v pay)"
        by (rule outcome_gathering [OF np C q]) (use q net in \<open>auto simp: enc encoded_frame(1) [OF enc]\<close>)
    qed (use fl_ok in auto)
    then have "outcome np body w (gathering C np q v pay)" using none agreeing_none [of np fl "gathering C np q v pay"] by auto
    moreover have "gathering C np q v pay r = Ok (PlGathered (if r = q then Some (map v [0..np - 1]) else None))"
      if c: "\<forall>r. in_comm np r \<longrightarrow> carries (vc_enc C) (vc_dec C) (v r)" and r: "in_comm np r" for r
    proof (rule gathering_values)
      show "received C OpGather (pay d) = Ok (v d)" if "in_comm np d" "d \<noteq> q" for d
        using encode_carries [of C "v d" OpGather] enc [OF that] c that(1) by auto
    qed
    ultimately show ?thesis using gathering_verdict [of np C q v pay] by (intro exI [of _ "gathering C np q v pay"]) simp
  qed
qed

section \<open>Whole calls\<close>

fun call_op :: "'t pl_call \<Rightarrow> pl_operation" where
  "call_op (CallBroadcast tm root v) = OpBroadcast"
| "call_op (CallScatter tm root vs) = OpScatter"
| "call_op (CallGather tm root x) = OpGather"

fun call_root :: "'t pl_call \<Rightarrow> int" where
  "call_root (CallBroadcast tm root v) = root"
| "call_root (CallScatter tm root vs) = root"
| "call_root (CallGather tm root x) = root"

fun call_main :: "'t pl_call \<Rightarrow> bool" where
  "call_main (CallBroadcast tm root v) = tm"
| "call_main (CallScatter tm root vs) = tm"
| "call_main (CallGather tm root x) = tm"

fun call_shape :: "int \<Rightarrow> int \<Rightarrow> 't pl_call \<Rightarrow> bool" where
  "call_shape np rank (CallBroadcast tm root v) \<longleftrightarrow> (rank = root) = (v \<noteq> None)"
| "call_shape np rank (CallScatter tm root vs) \<longleftrightarrow> (rank = root) = (vs \<noteq> None)
     \<and> (rank \<noteq> root \<or> (case vs of Some shards \<Rightarrow> length shards = nat np | None \<Rightarrow> False))"
| "call_shape np rank (CallGather tm root x) \<longleftrightarrow> True"

fun call_transfer :: "'t value_codec \<Rightarrow> int \<Rightarrow> int \<Rightarrow> 't pl_call \<Rightarrow> (unit, 't pl_answer) ctl proc" where
  "call_transfer C np rank (CallBroadcast tm root v) = fin PlValue (broadcast_transfer C rank np root v)"
| "call_transfer C np rank (CallScatter tm root vs) = fin PlValue (scatter_transfer C rank np root vs)"
| "call_transfer C np rank (CallGather tm root x) = fin PlGathered (gather_transfer C rank np root x)"

definition pl_open :: "'t value_codec \<Rightarrow> int \<Rightarrow> (int \<Rightarrow> 't pl_call) \<Rightarrow> (unit, 't pl_answer) world" where
  "pl_open C np calls = set_procs np (\<lambda>r. call_transfer C np r (calls r)) (pl_begin C np calls)"

lemma pl_program_examining:
  "pl_program C np r c = examining r np (call_main c) (call_op c) (call_root c) (call_shape np r c) (call_transfer C np r c)"
  by (cases c) (simp_all add: pl_broadcast_def pl_scatter_def pl_gather_def)

lemma pl_open_plain: "plain_world np (pl_open C np calls)" "net (pl_open C np calls) = (\<lambda>_. [])"
  "in_comm np r \<Longrightarrow> procs (pl_open C np calls) r = call_transfer C np r (calls r)"
proof -
  have "plain is_exit (call_transfer C np r c)" for r c by (cases c) (simp_all add: plain_transfers plain_fin)
  then show "plain_world np (pl_open C np calls)" by (simp add: plain_world_def pl_open_def)
qed (simp_all add: pl_open_def pl_begin_def)

lemma open_verdict:
  assumes np: "1 \<le> np" and C: "texts_valid C" and q: "in_comm np (call_root (calls 0))"
    and all: "\<And>r. in_comm np r \<Longrightarrow> call_op (calls r) = call_op (calls 0) \<and> call_root (calls r) = call_root (calls 0) \<and> call_shape np r (calls r)"
  shows "\<exists>res. outcome np body (pl_open C np calls) res \<and> same_verdict np res"
proof (cases "calls 0")
  case (CallBroadcast tm q x)
  have c: "\<exists>tm v. calls r = CallBroadcast tm q v \<and> (r = q) = (v \<noteq> None)" if "in_comm np r" for r
    using all [OF that] CallBroadcast by (cases "calls r") auto
  obtain v where v: "\<exists>tm. calls q = CallBroadcast tm q (Some v)" using c [of q] q CallBroadcast by auto
  have "procs (pl_open C np calls) r = fin PlValue (broadcast_transfer C r np q (if r = q then Some v else None))" if "in_comm np r" for r
    using pl_open_plain(3) [OF that, of C calls] c [OF that] v by auto
  then show ?thesis using broadcast_outcome [OF np C _ pl_open_plain(1,2), of q] q CallBroadcast by fastforce
next
  case (CallScatter tm q x)
  have c: "\<exists>tm vs. calls r = CallScatter tm q vs \<and> (r = q) = (vs \<noteq> None) \<and> (r = q \<longrightarrow> length (the vs) = nat np)" if "in_comm np r" for r
    using all [OF that] CallScatter by (cases "calls r") (auto split: option.splits)
  obtain vs where v: "\<exists>tm. calls q = CallScatter tm q (Some vs)" "length vs = nat np" using c [of q] q CallScatter by auto
  have "procs (pl_open C np calls) r = fin PlValue (scatter_transfer C r np q (if r = q then Some vs else None))" if "in_comm np r" for r
    using pl_open_plain(3) [OF that, of C calls] c [OF that] v by auto
  then show ?thesis using scatter_outcome [OF np C _ pl_open_plain(1,2) v(2), of q] q CallScatter by fastforce
next
  case (CallGather tm q x)
  have "\<forall>r. \<exists>v. in_comm np r \<longrightarrow> (\<exists>tm. calls r = CallGather tm q v)"
  proof
    show "\<exists>v. in_comm np r \<longrightarrow> (\<exists>tm. calls r = CallGather tm q v)" for r using all [of r] CallGather by (cases "calls r") auto
  qed
  then obtain v where v: "\<And>r. in_comm np r \<Longrightarrow> \<exists>tm. calls r = CallGather tm q (v r)" by metis
  have "procs (pl_open C np calls) r = fin PlGathered (gather_transfer C r np q (v r))" if "in_comm np r" for r
    using pl_open_plain(3) [OF that, of C calls] v [OF that] by auto
  then show ?thesis using gather_outcome [OF np C _ pl_open_plain(1,2), of q] q CallGather by fastforce
qed

lemma begin_verdict:
  assumes np: "1 \<le> np" and C: "texts_valid C"
  shows "\<exists>res. outcome np body (pl_begin C np calls) res \<and> same_verdict np res"
proof -
  let ?fl = "\<lambda>r. unfit (reduce_all RedMin np (\<lambda>r. operation_code (call_op (calls r)))) (reduce_all RedMax np (\<lambda>r. operation_code (call_op (calls r))))
    (reduce_all RedMin np (\<lambda>r. call_root (calls r))) (reduce_all RedMax np (\<lambda>r. call_root (calls r))) np (call_root (calls r)) (call_shape np r (calls r)) (call_main (calls r))"
  have "\<exists>res. outcome np body (pl_open C np calls) res \<and> same_verdict np res" if none: "agreed np ?fl = None"
    by (rule open_verdict [OF np C]) (use checked [OF np none] in simp_all)
  then have "\<exists>res. agreed np ?fl = None \<longrightarrow> outcome np body (pl_open C np calls) res \<and> same_verdict np res"
    by (cases "agreed np ?fl = None") auto
  then obtain res where both: "agreed np ?fl = None \<longrightarrow> outcome np body (pl_open C np calls) res \<and> same_verdict np res" by (rule exE)
  then have res: "agreed np ?fl = None \<Longrightarrow> outcome np body (pl_open C np calls) res" "agreed np ?fl = None \<Longrightarrow> same_verdict np res" by simp_all
  have "outcome np body (pl_begin C np calls) (agreeing np ?fl res)"
    by (rule outcome_examining [OF np plain_begin]) (use res(1) in \<open>auto simp: pl_begin_def pl_program_examining pl_open_def\<close>)
  then show ?thesis using same_verdict_agreeing [OF res(2)] by blast
qed

lemma begin_fits:
  assumes np: "1 \<le> np" and q: "in_comm np q"
    and all: "\<And>r. in_comm np r \<Longrightarrow> call_op (calls r) = op \<and> call_root (calls r) = q \<and> call_shape np r (calls r) \<and> call_main (calls r)"
    and out: "outcome np body (pl_open C np calls) res"
  shows "outcome np body (pl_begin C np calls) res"
proof -
  let ?fl = "\<lambda>r. unfit (reduce_all RedMin np (\<lambda>r. operation_code (call_op (calls r)))) (reduce_all RedMax np (\<lambda>r. operation_code (call_op (calls r))))
    (reduce_all RedMin np (\<lambda>r. call_root (calls r))) (reduce_all RedMax np (\<lambda>r. call_root (calls r))) np (call_root (calls r)) (call_shape np r (calls r)) (call_main (calls r))"
  have "reduce_all o' np (\<lambda>r. operation_code (call_op (calls r))) = operation_code op" "reduce_all o' np (\<lambda>r. call_root (calls r)) = q" for o'
    using reduce_all_cong [of np "\<lambda>r. operation_code (call_op (calls r))" "\<lambda>_. operation_code op" o'] reduce_all_cong [of np "\<lambda>r. call_root (calls r)" "\<lambda>_. q" o'] all np by simp_all
  then have "agreeing np ?fl res = res" by (intro agreeing_none) (use all q in \<open>simp add: unfit_None in_comm_def\<close>)
  moreover have "outcome np body (pl_begin C np calls) (agreeing np ?fl res)"
    by (rule outcome_examining [OF np plain_begin]) (use out in \<open>auto simp: pl_begin_def pl_program_examining pl_open_def\<close>)
  ultimately show ?thesis by simp
qed

lemma run_reached:
  assumes "outcome np body w res"
  shows "\<exists>u. mpi_reach np body w u \<and> (\<forall>r. in_comm np r \<longrightarrow> returned u r = Some (res r))"
proof -
  have "mpi_reach np body u v" if "mpi_steps np body k w v" "mpi_reach np body u w" for k u w v
    using that by (induction rule: mpi_steps.induct) (auto intro: mpi_reach.step)
  then show ?thesis using outcome_run [OF assms] mpi_reach.refl [of np body w] by metis
qed

lemma broadcast_begin:
  assumes "1 \<le> np" "texts_valid C" "in_comm np q" "carries (vc_enc C) (vc_dec C) v"
  shows "\<exists>res. outcome np body (pl_begin C np (\<lambda>r. CallBroadcast True q (if r = q then Some v else None))) res \<and> (\<forall>r. in_comm np r \<longrightarrow> res r = Ok (PlValue v))"
proof -
  let ?calls = "\<lambda>r. CallBroadcast True q (if r = q then Some v else None)"
  have "\<exists>res. outcome np body (pl_open C np ?calls) res \<and> same_verdict np res \<and> (carries (vc_enc C) (vc_dec C) v \<longrightarrow> (\<forall>r. in_comm np r \<longrightarrow> res r = Ok (PlValue v)))"
    by (rule broadcast_outcome [OF assms(1-3) pl_open_plain(1,2)]) (simp add: pl_open_plain(3))
  then obtain res where "outcome np body (pl_open C np ?calls) res" "\<forall>r. in_comm np r \<longrightarrow> res r = Ok (PlValue v)" using assms(4) by blast
  then show ?thesis using begin_fits [OF assms(1,3), of ?calls OpBroadcast body C res] by (intro exI [of _ res]) simp
qed

lemma scatter_begin:
  assumes "1 \<le> np" "texts_valid C" "in_comm np q" "length vs = nat np" "\<forall>v\<in>set vs. carries (vc_enc C) (vc_dec C) v"
  shows "\<exists>res. outcome np body (pl_begin C np (\<lambda>r. CallScatter True q (if r = q then Some vs else None))) res \<and> (\<forall>r. in_comm np r \<longrightarrow> res r = Ok (PlValue (vs ! nat r)))"
proof -
  let ?calls = "\<lambda>r. CallScatter True q (if r = q then Some vs else None)"
  have "\<exists>res. outcome np body (pl_open C np ?calls) res \<and> same_verdict np res \<and> ((\<forall>v\<in>set vs. carries (vc_enc C) (vc_dec C) v) \<longrightarrow> (\<forall>r. in_comm np r \<longrightarrow> res r = Ok (PlValue (vs ! nat r))))"
    by (rule scatter_outcome [OF assms(1-3) pl_open_plain(1,2) assms(4)]) (simp add: pl_open_plain(3))
  then obtain res where "outcome np body (pl_open C np ?calls) res" "\<forall>r. in_comm np r \<longrightarrow> res r = Ok (PlValue (vs ! nat r))" using assms(5) by blast
  then show ?thesis using begin_fits [OF assms(1,3), of ?calls OpScatter body C res] assms(4) by (intro exI [of _ res]) simp
qed

lemma gather_begin:
  assumes "1 \<le> np" "texts_valid C" "in_comm np q" "\<forall>r. in_comm np r \<longrightarrow> carries (vc_enc C) (vc_dec C) (v r)"
  shows "\<exists>res. outcome np body (pl_begin C np (\<lambda>r. CallGather True q (v r))) res
    \<and> (\<forall>r. in_comm np r \<longrightarrow> res r = Ok (PlGathered (if r = q then Some (map v [0..np - 1]) else None)))"
proof -
  let ?calls = "\<lambda>r. CallGather True q (v r)"
  have "\<exists>res. outcome np body (pl_open C np ?calls) res \<and> same_verdict np res \<and> ((\<forall>r. in_comm np r \<longrightarrow> carries (vc_enc C) (vc_dec C) (v r)) \<longrightarrow> (\<forall>r. in_comm np r \<longrightarrow> res r = Ok (PlGathered (if r = q then Some (map v [0..np - 1]) else None))))"
    by (rule gather_outcome [OF assms(1-3) pl_open_plain(1,2)]) (simp add: pl_open_plain(3))
  then obtain res where "outcome np body (pl_open C np ?calls) res" "\<forall>r. in_comm np r \<longrightarrow> res r = Ok (PlGathered (if r = q then Some (map v [0..np - 1]) else None))" using assms(4) by blast
  then show ?thesis using begin_fits [OF assms(1,3), of ?calls OpGather body C res] by (intro exI [of _ res]) simp
qed

section \<open>Properties\<close>

definition demo_codec :: "nat value_codec" where
  "demo_codec = \<lparr>vc_enc = \<lambda>v. Ok [word_of_nat v], vc_dec = \<lambda>bs. Ok (unat (hd bs), 1), vc_text = \<lambda>_. []\<rparr>"

lemma demo_codec_ok: "texts_valid demo_codec" "v < 256 \<Longrightarrow> carries (vc_enc demo_codec) (vc_dec demo_codec) v"
  by (simp_all add: texts_valid_def demo_codec_def carries_def MAX_WIRE_BYTES_def unat_of_nat)

text \<open>
  C4. The collectives have one verdict. Let every rank call any of \<open>broadcast\<close>, \<open>scatter\<close> and \<open>gather\<close>, with any root, any value or
  shards or none, from any thread, and let the codec fail or give wrong values. Then the call has one outcome, however the
  steps of the ranks interleave and whichever messages are buffered: no run is longer than a fixed number of steps; until all ranks have returned there is a step
  that needs no buffer (\<open>mpi_sure\<close>), so no rank is left waiting in a send or a receive, and none aborts; and either all ranks succeed or all return the same error.
\<close>

theorem placement_one_verdict:
  assumes "1 \<le> np" "texts_valid C"
  shows "\<exists>res n. same_verdict np res
    \<and> (\<forall>w. mpi_reach np no_loop (pl_begin C np calls) w \<longrightarrow>
        (\<exists>w'. mpi_sure np no_loop w w') \<or> (\<forall>r. in_comm np r \<longrightarrow> returned w r = Some (res r)))
    \<and> (\<forall>k w. mpi_steps np no_loop k (pl_begin C np calls) w \<longrightarrow> k \<le> n)"
proof -
  obtain res where res: "outcome np no_loop (pl_begin C np calls) res" "same_verdict np res" using begin_verdict [OF assms] by blast
  obtain n where "\<forall>k w. mpi_steps np no_loop k (pl_begin C np calls) w \<longrightarrow> k \<le> n" using outcome_ends [OF assms(1) res(1)] by blast
  then show ?thesis using outcome_all_runs(1) [OF assms(1) res(1)] res(2) by (intro exI [of _ res] exI [of _ n]) blast
qed

theorem placement_one_verdict_witness:
  "\<exists>w'. mpi_sure 3 no_loop (pl_begin demo_codec 3 (\<lambda>r. if r = 2 then CallGather True 5 7 else CallBroadcast False 1 None)) w'"
proof -
  let ?w = "pl_begin demo_codec 3 (\<lambda>r. if r = 2 then CallGather True 5 7 else CallBroadcast False 1 None)"
  obtain res where res: "(\<exists>w'. mpi_sure 3 no_loop ?w w') \<or> (\<forall>r. in_comm 3 r \<longrightarrow> returned ?w r = Some (res r))"
    using placement_one_verdict [of 3 demo_codec "\<lambda>r. if r = 2 then CallGather True 5 7 else CallBroadcast False 1 None"] demo_codec_ok(1) mpi_reach.refl [of 3 no_loop ?w] by force
  have "returned ?w 0 = None" by (simp add: returned_def pl_begin_def pl_program_examining examining_def)
  moreover have "in_comm 3 0" by (simp add: in_comm_def)
  ultimately show ?thesis using res by force
qed

text \<open>
  C5. \<open>broadcast\<close> copies the root's value. When all ranks name the same root, the root alone gives a value and the codec carries it, every
  rank that has returned has that value, and while some rank has not, some rank can go on even if
  no message is buffered any more.
\<close>

theorem broadcast_copies:
  assumes "1 \<le> np" "texts_valid C" "in_comm np q" "carries (vc_enc C) (vc_dec C) v"
    and "mpi_reach np no_loop (pl_begin C np (\<lambda>r. CallBroadcast True q (if r = q then Some v else None))) w"
  shows "((\<exists>w'. mpi_sure np no_loop w w') \<or> (\<forall>r. in_comm np r \<longrightarrow> returned w r = Some (Ok (PlValue v))))
    \<and> (\<forall>r x. in_comm np r \<longrightarrow> returned w r = Some x \<longrightarrow> x = Ok (PlValue v))"
proof -
  obtain res where res: "outcome np no_loop (pl_begin C np (\<lambda>r. CallBroadcast True q (if r = q then Some v else None))) res"
    "\<And>r. in_comm np r \<Longrightarrow> res r = Ok (PlValue v)" using broadcast_begin [OF assms(1-4)] by blast
  show ?thesis using outcome_all_runs [OF assms(1) res(1) assms(5)] res(2) by metis
qed

theorem broadcast_copies_witness:
  "\<exists>w. mpi_reach 2 no_loop (pl_begin demo_codec 2 (\<lambda>r. CallBroadcast True 0 (if r = 0 then Some 7 else None))) w \<and> returned w 1 = Some (Ok (PlValue 7))"
proof -
  have ok: "(1::int) \<le> 2" "texts_valid demo_codec" "in_comm 2 0" "in_comm 2 1" "carries (vc_enc demo_codec) (vc_dec demo_codec) 7"
    by (simp_all add: demo_codec_ok in_comm_def)
  obtain w x where "mpi_reach 2 no_loop (pl_begin demo_codec 2 (\<lambda>r. CallBroadcast True 0 (if r = 0 then Some 7 else None))) w" "returned w 1 = Some x"
    using broadcast_begin [OF ok(1-3,5)] run_reached ok(4) by blast
  then show ?thesis using broadcast_copies [OF ok(1-3,5)] ok(4) by blast
qed

text \<open>
  C6. \<open>scatter\<close> hands each rank its shard. When all ranks name the same root, the root alone gives one shard for each rank and the codec
  carries them, every rank that has returned has the shard with its number, and while some rank has not, some rank can go on even if
  no message is buffered any more.
\<close>

theorem scatter_shards:
  assumes "1 \<le> np" "texts_valid C" "in_comm np q" "length vs = nat np" "\<forall>v\<in>set vs. carries (vc_enc C) (vc_dec C) v"
    and "mpi_reach np no_loop (pl_begin C np (\<lambda>r. CallScatter True q (if r = q then Some vs else None))) w"
  shows "((\<exists>w'. mpi_sure np no_loop w w') \<or> (\<forall>r. in_comm np r \<longrightarrow> returned w r = Some (Ok (PlValue (vs ! nat r)))))
    \<and> (\<forall>r x. in_comm np r \<longrightarrow> returned w r = Some x \<longrightarrow> x = Ok (PlValue (vs ! nat r)))"
proof -
  obtain res where res: "outcome np no_loop (pl_begin C np (\<lambda>r. CallScatter True q (if r = q then Some vs else None))) res"
    "\<And>r. in_comm np r \<Longrightarrow> res r = Ok (PlValue (vs ! nat r))" using scatter_begin [OF assms(1-5)] by blast
  show ?thesis using outcome_all_runs [OF assms(1) res(1) assms(6)] res(2) by metis
qed

theorem scatter_shards_witness:
  "\<exists>w. mpi_reach 2 no_loop (pl_begin demo_codec 2 (\<lambda>r. CallScatter True 0 (if r = 0 then Some [7, 8] else None))) w \<and> returned w 1 = Some (Ok (PlValue 8))"
proof -
  have ok: "(1::int) \<le> 2" "texts_valid demo_codec" "in_comm 2 0" "length [7, 8 :: nat] = nat 2" "\<forall>v\<in>set [7, 8]. carries (vc_enc demo_codec) (vc_dec demo_codec) v" "in_comm 2 1"
    by (simp_all add: demo_codec_ok in_comm_def)
  obtain w x where w: "mpi_reach 2 no_loop (pl_begin demo_codec 2 (\<lambda>r. CallScatter True 0 (if r = 0 then Some [7, 8] else None))) w" "returned w 1 = Some x"
    using scatter_begin [OF ok(1-5)] run_reached ok(6) by blast
  then have "x = Ok (PlValue ([7, 8] ! nat 1))" using scatter_shards [OF ok(1-5) w(1)] ok(6) by blast
  then show ?thesis using w by auto
qed

text \<open>
  C7. \<open>gather\<close> collects the values in the order of the ranks. When all ranks name the same root and the codec carries the values, the root
  that has returned has all of them, the value of rank i at place i, the others have nothing, and while some rank has not returned,
  some rank can go on even if no message is buffered any more.
\<close>

theorem gather_collects:
  assumes "1 \<le> np" "texts_valid C" "in_comm np q" "\<forall>r. in_comm np r \<longrightarrow> carries (vc_enc C) (vc_dec C) (v r)"
    and "mpi_reach np no_loop (pl_begin C np (\<lambda>r. CallGather True q (v r))) w"
  shows "((\<exists>w'. mpi_sure np no_loop w w')
      \<or> (\<forall>r. in_comm np r \<longrightarrow> returned w r = Some (Ok (PlGathered (if r = q then Some (map v [0..np - 1]) else None)))))
    \<and> (\<forall>r x. in_comm np r \<longrightarrow> returned w r = Some x \<longrightarrow> x = Ok (PlGathered (if r = q then Some (map v [0..np - 1]) else None)))"
proof -
  obtain res where res: "outcome np no_loop (pl_begin C np (\<lambda>r. CallGather True q (v r))) res"
    "\<And>r. in_comm np r \<Longrightarrow> res r = Ok (PlGathered (if r = q then Some (map v [0..np - 1]) else None))" using gather_begin [OF assms(1-4)] by blast
  show ?thesis using outcome_all_runs [OF assms(1) res(1) assms(5)] res(2) by metis
qed

theorem gather_collects_witness:
  "\<exists>w. mpi_reach 2 no_loop (pl_begin demo_codec 2 (\<lambda>r. CallGather True 1 (nat r + 4))) w \<and> returned w 1 = Some (Ok (PlGathered (Some [4, 5])))"
proof -
  have ok: "(1::int) \<le> 2" "texts_valid demo_codec" "in_comm 2 1" "\<forall>r. in_comm 2 r \<longrightarrow> carries (vc_enc demo_codec) (vc_dec demo_codec) (nat r + 4)"
    by (auto simp: in_comm_def intro!: demo_codec_ok)
  obtain w x where w: "mpi_reach 2 no_loop (pl_begin demo_codec 2 (\<lambda>r. CallGather True 1 (nat r + 4))) w" "returned w 1 = Some x"
    using gather_begin [OF ok] run_reached ok(3) by blast
  then have "x = Ok (PlGathered (Some (map (\<lambda>r. nat r + 4) [0..2 - 1])))" using gather_collects [OF ok w(1)] ok(3) w(2) by auto
  moreover have "[0..1] = [0, 1 :: int]" by (simp add: upto.simps)
  ultimately show ?thesis using w by auto
qed

end
