(* ===== verification/Spec2Isabelle.thy ===== *)
theory Spec2Isabelle
  imports SchedulerRun Wire MemoryNet Shutdown MigrationProps BatchProps PmapProps PmapHybrid PlacementProps
begin

text \<open>
  Verification of hataori-rs, a distributed task and object runtime in Rust.

  \<^bold>\<open>The program.\<close> The root crate (\<open>src/src\<close>) runs a parallel map over MPI processes: a coordinator
  hands numbered batches to lanes, workers answer over a small framed protocol. Beside it there is a
  runtime in three crates. \<open>hataori-runtime-foundation\<close> has the protocol (identities, limits,
  handshake, parcels) and transports with bounded queues. \<open>hataori-runtime\<close> has calls with deadlines
  and cancellation, deduplication of retransmitted requests, domains of worker threads, and
  distributed objects with leases, admission, redirects and migration. \<open>hataori-algorithms\<close> builds
  batches on it.

  \<^bold>\<open>Theories and sources.\<close>
  \<^item> \<open>Prelude\<close>: results with errors and panics as values, checked arithmetic, little-endian bytes,
    slices, hash maps as association lists behind the locale \<open>keyed_map\<close>.
  \<^item> \<open>Scheduler\<close>, \<open>SchedulerRun\<close>: \<open>src/scheduler.rs\<close>, the coordinator of batches; an abstract lane
    transition system that every method refines, conservation of the input items, results equal to
    \<open>map\<close>, termination and progress.
  \<^item> \<open>MapSerial\<close>, \<open>Wire\<close>: \<open>src/map.rs\<close> and \<open>src/wire.rs\<close>, the serial map, truncation of messages at
    UTF-8 boundaries, frame headers and error keys.
  \<^item> \<open>Protocol\<close>, \<open>Transport\<close>, \<open>MemoryNet\<close>: the protocol, the reservation state of a transport and the
    in-memory network with its fault schedule; exact codecs, exact and bounded counters, order of
    delivery, termination of \<open>flush\<close>.
  \<^item> \<open>RtError\<close>, \<open>RtWire\<close>, \<open>Actions\<close>, \<open>Dedup\<close>, \<open>Pending\<close>, \<open>Calls\<close>, \<open>Responses\<close>: the files \<open>error.rs\<close>,
    \<open>wire.rs\<close>, \<open>action.rs\<close>, \<open>dedup.rs\<close>, \<open>pending.rs\<close> of the runtime and the parts of \<open>runtime.rs\<close> that
    issue, end and cancel calls and send replies. A call is never lost, ends by its deadline and at
    shutdown; a retransmitted request is not run again; replies owed are bounded.
  \<^item> \<open>Domains\<close>: \<open>domain.rs\<close>, thread pools whose workers take, end and deliver jobs one at a time; every
    accepted job is answered once.
  \<^item> \<open>ObjectWire\<close>, \<open>ObjectRegistry\<close>, \<open>Objects\<close>, \<open>Migration\<close>: \<open>object.rs\<close> and \<open>object/migration.rs\<close>, one
    definition per operation of \<open>ObjectService\<close>. \<open>ObjectSafety\<close> proves the invariant of the service
    and that every operation keeps it; \<open>ObjectProps\<close> draws the properties from it (bounds, exclusive
    writes, leases keep objects, unreferenced objects go) and records where the code does less. The runs are those of any
    operations; what a property asks of a run beyond that, such as that a retirement pass finds its objects still retiring, is
    the hypothesis \<open>svc_apt_run\<close>, because the code does not check it.
  \<^item> \<open>Leases\<close>: the leases a locality holds and the control messages about them. \<open>Serving\<close>: the receiving
    side of \<open>runtime.rs\<close>, from a request to its queued reply, and the pass of \<open>progress\<close>; \<open>Conservation\<close>
    shows that a running request is in exactly one place as long as every pass and handler goes well (the hypothesis
    \<open>rt_fine_run\<close>), what a failing pass leaves, and where requests are lost; \<open>Shutdown\<close> that a
    shutdown returns and what it leaves. \<open>Remotes\<close>, \<open>RemoteProps\<close>: handles and the futures of calls on
    objects, with their redirects. \<open>Migrating\<close>, \<open>MigrationProps\<close>: the state machine of a migration and
    its five steps between two object services, composed for a migration away from the authority of the object.
  \<^item> \<open>Batches\<close>, \<open>BatchProps\<close>: \<open>hataori-algorithms\<close>, the parallel map as a future over batches of calls; it
    gives \<open>map\<close> in input order, or the error of the least index.
  \<^item> \<open>Utf8\<close>, \<open>LocalExec\<close>: validity of UTF-8; \<open>src/domain.rs\<close> and \<open>src/local.rs\<close>, execution domains and the
    map in a pool.
  \<^item> \<open>Mpi\<close>, \<open>Pmap\<close>, \<open>PmapHybrid\<close>, \<open>Placement\<close>: programs over MPI as trees of calls and a communicator that
    runs one per rank; \<open>src/pmap.rs\<close> without and with a thread pool; \<open>src/placement.rs\<close>. The sources use blocking standard sends, which MPI may
    or may not buffer: \<open>mpi_step\<close> has every step that may happen, \<open>mpi_sure\<close> only those that need no buffer, with a sender that waits for its
    receiver; safety and termination are proved for the first, freedom from deadlock with the second.
  \<^item> \<open>MpiView\<close>: how to reason about a communicator; a view of it that leaves out the steps in which a rank only
    sends or begins a turn. \<open>PmapCall\<close>, \<open>PmapLinks\<close>, \<open>PmapRun\<close>, \<open>PmapKeep\<close>, \<open>PmapOrder\<close>, \<open>PmapProps\<close>: the collective \<open>pmap\<close> on all
    ranks together (without a thread pool); the state of each link between the root and a worker, the invariant of the run, a
    measure, the order in which blocked senders are served. Each rank has options of its own; the properties are about calls whose ranks
    give the same ones, with a callback that neither panics nor keeps state and a codec that carries every batch (\<open>call_ok\<close>). Under any interleaving of messages and probes the call is a map, all ranks agree on the error of the first failing item, there is no
    deadlock and no endless run.
  \<^item> \<open>MpiDet\<close>: programs that receive only from ranks they name have one outcome, so one run speaks for all.
    \<open>PlacementRun\<close>, \<open>PlacementProps\<close>: the collectives of \<open>src/placement.rs\<close> on all ranks together; one verdict whatever the
    ranks call, and the values where they belong when the arguments fit.

  \<^bold>\<open>How the code is modelled.\<close> An operation takes the state and returns it with its result. A Rust
  \<open>Result\<close> is a sum, a panic is the value \<open>Panic\<close> of the error type, so that ``does not panic'' can be
  stated. Integers that wrap or are compared at their width are words; \<open>usize\<close> counters are natural
  numbers with their checks and saturation written out. A \<open>HashMap\<close> is an association list, traversed
  in its order. Shared \<open>Arc\<close> values (promises, cancellation flags, leases) are addresses of a store.
  The clock is an argument. Each method under its lock is one atomic step; threads are sequences of
  such steps in any order. User code (actions, object types), the transport of a runtime, the codec
  crate and the \<open>Display\<close> texts are parameters of the definitions that use them.

  \<^bold>\<open>Bounds and fuel.\<close> \<open>mem_flush\<close> takes fuel: \<open>memory_flush_terminates\<close> shows that \<open>2 ^ 64\<close> rounds are
  enough. The loops of \<open>pmap\<close> over MPI are turns of a step relation without fuel, and \<open>pmap_mpi_terminates\<close> shows that no run
  is endless. All other loops are total functions on the list or counter they run over.

  \<^bold>\<open>Not modelled.\<close> Operating-system threads, sockets and the implementation of MPI; \<open>tcp.rs\<close>, \<open>mpi.rs\<close> and
  \<open>conformance.rs\<close> of the foundation, whose limits are those of \<open>Transport\<close>; \<open>scope.rs\<close>; the tensor
  adapter; test, benchmark and example programs; \<open>Debug\<close> and \<open>Display\<close> text.
\<close>

end
